(* ===== verification/Ipa_Prelude.thy ===== *)
theory Ipa_Prelude
  imports Main "HOL-Library.Word"
begin

text \<open>
  Shared vocabulary of the development: the machine integer types of the sources, the
  search loop over a fixed array that most of the code is built from, and the
  collections of rewrite rules the component theories extend.

  \<^item> \<open>u8\<close>, \<open>u16\<close>, \<open>u32\<close> are the \<open>uint8_t\<close>, \<open>uint16_t\<close> and \<open>uint32_t\<close> of the sources.
  \<^item> \<open>first_idx P xs\<close> is the loop \<open>for (i = 0; i < n; i++) if (P(xs[i])) break;\<close> over the
    array \<open>xs\<close>: the index it stops at, or \<open>None\<close> when it runs to the end.
  \<^item> \<open>slots_where\<close> counts the array entries that satisfy a predicate.
\<close>

unbundle bit_operations_syntax

type_synonym u8 = "8 word"
type_synonym u16 = "16 word"
type_synonym u32 = "32 word"

named_theorems array_simps \<open>rewriting of searches and counts under an array update\<close>

section \<open>Byte order\<close>

text \<open>\<open>htonl\<close> and \<open>ntohl\<close> on the little-endian processors the program runs on.\<close>

definition htonl :: "u32 \<Rightarrow> u32" where
  "htonl x = push_bit 24 (x AND 0xff) OR push_bit 8 (x AND 0xff00) OR
             (drop_bit 8 x AND 0xff00) OR drop_bit 24 x"

section \<open>First match in an array\<close>

primrec first_idx :: "('a \<Rightarrow> bool) \<Rightarrow> 'a list \<Rightarrow> nat option" where
  "first_idx P [] = None"
| "first_idx P (x # xs) = (if P x then Some 0 else map_option Suc (first_idx P xs))"

lemma first_idx_None_iff [simp]: "first_idx P xs = None \<longleftrightarrow> (\<forall>x \<in> set xs. \<not> P x)"
  by (induction xs) auto

lemma first_idx_Some_iff:
  "first_idx P xs = Some i \<longleftrightarrow> i < length xs \<and> P (xs ! i) \<and> (\<forall>j < i. \<not> P (xs ! j))"
proof (induction xs arbitrary: i)
  case Nil
  then show ?case by simp
next
  case (Cons x xs)
  show ?case
    by (cases i) (auto simp: Cons.IH All_less_Suc2)
qed

lemma first_idx_SomeD:
  assumes "first_idx P xs = Some i"
  shows "i < length xs" and "P (xs ! i)" and "\<And>j. j < i \<Longrightarrow> \<not> P (xs ! j)"
  using assms by (auto simp: first_idx_Some_iff)

lemma first_idx_append: "(\<And>x. x \<in> set xs \<Longrightarrow> \<not> P x) \<Longrightarrow> P y \<Longrightarrow> first_idx P (xs @ y # ys) = Some (length xs)"
  by (induction xs) auto

lemma first_idx_mem: "first_idx P xs = Some i \<Longrightarrow> xs ! i \<in> set xs"
  by (auto simp: first_idx_Some_iff)

lemma first_idx_cong: "(\<And>x. x \<in> set xs \<Longrightarrow> P x = Q x) \<Longrightarrow> first_idx P xs = first_idx Q xs"
  by (induction xs) auto

section \<open>Counting the entries of an array\<close>

definition slots_where :: "('a \<Rightarrow> bool) \<Rightarrow> 'a list \<Rightarrow> nat" where
  "slots_where P xs = length (filter P xs)"

lemma slots_where_Nil [simp]: "slots_where P [] = 0"
  by (simp add: slots_where_def)

lemma slots_where_Cons [simp]:
  "slots_where P (x # xs) = (if P x then Suc (slots_where P xs) else slots_where P xs)"
  by (simp add: slots_where_def)

lemma slots_where_le: "slots_where P xs \<le> length xs"
  by (simp add: slots_where_def)

lemma slots_where_pos: "i < length xs \<Longrightarrow> P (xs ! i) \<Longrightarrow> 0 < slots_where P xs"
  by (auto simp: slots_where_def length_greater_0_conv filter_empty_conv)

lemma slots_where_update [array_simps]:
  "i < length xs \<Longrightarrow>
   int (slots_where P (xs[i := v])) =
   int (slots_where P xs) - (if P (xs ! i) then 1 else 0) + (if P v then 1 else 0)"
proof (induction xs arbitrary: i)
  case Nil
  then show ?case by simp
next
  case (Cons x xs)
  show ?case
  proof (cases i)
    case 0
    then show ?thesis by simp
  next
    case (Suc j)
    with Cons.prems Cons.IH [of j] show ?thesis by (simp split: if_splits)
  qed
qed

section \<open>Loops over a range of array indices\<close>

text \<open>
  A loop \<open>for (cnt = 0; cnt < n; cnt++)\<close> that threads a state is \<open>fold\<close> over
  \<open>[0..<n]\<close>. An invariant of every iteration is an invariant of the loop.
\<close>

lemma fold_upt_invariant:
  assumes "I s" and "\<And>i s. i < n \<Longrightarrow> I s \<Longrightarrow> I (f i s)"
  shows "I (fold f [0..<n] s)"
  using assms by (induction n) auto

lemma fold_upt_invariant_idx:
  assumes "I 0 s" and "\<And>i s. i < n \<Longrightarrow> I i s \<Longrightarrow> I (Suc i) (f i s)"
  shows "I n (fold f [0..<n] s)"
  using assms by (induction n) auto

end
