(* ===== verification/Loc_Heap.thy ===== *)
theory Loc_Heap
  imports Ipa_Prelude "HOL-Library.Multiset"
begin

text \<open>
  The rank heap of \<open>gps/utils/LocHeap.cpp\<close> and the timers of \<open>gps/utils/LocTimer.cpp\<close> that
  are kept in it.

  \<^item> \<open>locheap\<close> is \<open>LocHeapNode*\<close>: \<open>HNull\<close> the null pointer, \<open>HNode\<close> a node with its size
    field, its data and its two subtrees. A data value stands for the address of a
    \<open>LocRankable\<close> object, so \<open>=\<close> on it is the comparison by address of \<open>remove\<close>.
  \<^item> The virtual method \<open>ranks\<close> is a parameter; the locale \<open>loc_rankable\<close> states the
    contract the heap needs of it, and the timers' \<open>LocTimerDelegate::ranks\<close> meets it.
  \<^item> \<open>push\<close>, \<open>pop\<close> and \<open>remove\<close> keep the heap order and the sizes, and change the multiset
    of the stored objects by exactly the object added or removed.
\<close>

section \<open>The heap and its operations\<close>

datatype 'a locheap = HNull | HNode (mSize: int) (mData: 'a) (mLeft: "'a locheap") (mRight: "'a locheap")

text \<open>\<open>outRanks\<close> is \<open>ranks(rankable) > 0\<close>.\<close>

definition outRanks :: "('a \<Rightarrow> 'a \<Rightarrow> int) \<Rightarrow> 'a \<Rightarrow> 'a \<Rightarrow> bool" where
  "outRanks rk a b \<longleftrightarrow> rk a b > 0"

definition new_node :: "'a \<Rightarrow> 'a locheap" where
  "new_node d = HNode 1 d HNull HNull"

text \<open>
  \<open>LocHeapNode::push\<close>. The incoming node is a fresh one (size 1, no subtrees), so it is
  given by its data; the swap of the data of the two nodes is the choice of which of the
  two stays here and which one goes on down.
\<close>

fun node_push :: "('a \<Rightarrow> 'a \<Rightarrow> int) \<Rightarrow> 'a \<Rightarrow> 'a locheap \<Rightarrow> 'a locheap" where
  "node_push rk d HNull = new_node d"
| "node_push rk d (HNode s e l r) =
     (let (top, low) = (if outRanks rk d e then (d, e) else (e, d)) in
      if l = HNull then HNode (s + 1) top (new_node low) r
      else if r = HNull then HNode (s + 1) top l (new_node low)
      else if mSize l \<le> mSize r then HNode (s + 1) top (node_push rk low l) r
      else HNode (s + 1) top l (node_push rk low r))"

text \<open>
  \<open>LocHeapNode::pop\<close> of a tree whose top holds \<open>d\<close>: the data of the higher ranked subtree
  is swapped up, the subtree is popped in turn, and \<open>d\<close> leaves in the node taken off at
  leaf level. \<open>node_pop\<close> gives the tree that is left and the data of the popped node.
\<close>

function node_pop :: "('a \<Rightarrow> 'a \<Rightarrow> int) \<Rightarrow> 'a locheap \<Rightarrow> 'a locheap \<times> 'a option" where
  "node_pop rk HNull = (HNull, None)"
| "node_pop rk (HNode s d HNull HNull) = (HNull, Some d)"
| "node_pop rk (HNode s d HNull (HNode rs rd rl rr)) =
     (let (r', p) = node_pop rk (HNode rs d rl rr) in (HNode (s - 1) rd HNull r', p))"
| "node_pop rk (HNode s d (HNode ls ld ll lr) HNull) =
     (let (l', p) = node_pop rk (HNode ls d ll lr) in (HNode (s - 1) ld l' HNull, p))"
| "node_pop rk (HNode s d (HNode ls ld ll lr) (HNode rs rd rl rr)) =
     (if outRanks rk ld rd then
        let (l', p) = node_pop rk (HNode ls d ll lr)
        in (HNode (s - 1) ld l' (HNode rs rd rl rr), p)
      else
        let (r', p) = node_pop rk (HNode rs d rl rr)
        in (HNode (s - 1) rd (HNode ls ld ll lr) r', p))"
  by pat_completeness auto
termination
  by (relation "measure (\<lambda>(rk, t). size t)") auto

text \<open>
  \<open>LocHeapNode::remove\<close>: the node with this data by address is popped out of its subtree;
  a subtree whose top the data outranks is not searched.
\<close>

fun node_remove :: "('a \<Rightarrow> 'a \<Rightarrow> int) \<Rightarrow> 'a \<Rightarrow> 'a locheap \<Rightarrow> 'a locheap \<times> 'a option" where
  "node_remove rk d HNull = (HNull, None)"
| "node_remove rk d (HNode s e l r) =
     (if d = e then node_pop rk (HNode s e l r)
      else if \<not> outRanks rk d e then
        (case node_remove rk d l of
           (l', Some p) \<Rightarrow> (HNode (s - 1) e l' r, Some p)
         | (l', None) \<Rightarrow>
             (case node_remove rk d r of
                (r', Some p) \<Rightarrow> (HNode (s - 1) e l' r', Some p)
              | (r', None) \<Rightarrow> (HNode s e l' r', None)))
      else (HNode s e l r, None))"

fun checkNodes :: "('a \<Rightarrow> 'a \<Rightarrow> int) \<Rightarrow> 'a locheap \<Rightarrow> bool" where
  "checkNodes rk HNull \<longleftrightarrow> True"
| "checkNodes rk (HNode s d l r) \<longleftrightarrow>
     (l \<noteq> HNull \<longrightarrow> \<not> outRanks rk (mData l) d \<and> checkNodes rk l) \<and>
     (r \<noteq> HNull \<longrightarrow> \<not> outRanks rk (mData r) d \<and> checkNodes rk r) \<and>
     s - (if l = HNull then 0 else mSize l) - (if r = HNull then 0 else mSize r) = 1"

text \<open>The methods of the container \<open>LocHeap\<close>, whose state is the pointer \<open>mTree\<close>.\<close>

definition heap_push :: "('a \<Rightarrow> 'a \<Rightarrow> int) \<Rightarrow> 'a \<Rightarrow> 'a locheap \<Rightarrow> 'a locheap" where
  "heap_push rk d t = (if t = HNull then new_node d else node_push rk d t)"

definition heap_peek :: "'a locheap \<Rightarrow> 'a option" where
  "heap_peek t = (case t of HNull \<Rightarrow> None | HNode _ d _ _ \<Rightarrow> Some d)"

definition heap_pop :: "('a \<Rightarrow> 'a \<Rightarrow> int) \<Rightarrow> 'a locheap \<Rightarrow> 'a locheap \<times> 'a option" where
  "heap_pop rk t = (if t = HNull then (t, None) else node_pop rk t)"

definition heap_remove :: "('a \<Rightarrow> 'a \<Rightarrow> int) \<Rightarrow> 'a \<Rightarrow> 'a locheap \<Rightarrow> 'a locheap \<times> 'a option" where
  "heap_remove rk d t = (if t = HNull then (t, None) else node_remove rk d t)"

definition checkTree :: "('a \<Rightarrow> 'a \<Rightarrow> int) \<Rightarrow> 'a locheap \<Rightarrow> bool" where
  "checkTree rk t \<longleftrightarrow> t = HNull \<or> checkNodes rk t"

definition getTreeSize :: "'a locheap \<Rightarrow> int" where
  "getTreeSize t = (if t = HNull then 0 else mSize t)"

section \<open>What the heap stores\<close>

primrec heap_mset :: "'a locheap \<Rightarrow> 'a multiset" where
  "heap_mset HNull = {#}"
| "heap_mset (HNode s d l r) = {#d#} + heap_mset l + heap_mset r"

lemma set_mset_heap_mset [simp]: "set_mset (heap_mset t) = set_locheap t"
  by (induction t) auto

lemma heap_mset_eq_empty [simp]: "heap_mset t = {#} \<longleftrightarrow> t = HNull"
  by (cases t) auto

lemma checkNodes_size: "checkNodes rk t \<Longrightarrow> t \<noteq> HNull \<Longrightarrow> mSize t = int (size (heap_mset t))"
  by (induction rk t rule: checkNodes.induct) (auto split: if_splits)

lemma mSize_node_push [simp]: "t \<noteq> HNull \<Longrightarrow> mSize (node_push rk d t) = mSize t + 1"
  by (cases t) (auto simp: Let_def)

lemma node_push_not_HNull [simp]: "node_push rk d t \<noteq> HNull"
  by (cases t) (auto simp: Let_def new_node_def)

lemma mset_node_push: "heap_mset (node_push rk d t) = add_mset d (heap_mset t)"
  by (induction rk d t rule: node_push.induct) (auto simp: Let_def new_node_def)

lemma set_node_push [simp]: "set_locheap (node_push rk d t) = insert d (set_locheap t)"
  using arg_cong [OF mset_node_push, of set_mset rk d t] by simp

lemma mData_node_push:
  "t \<noteq> HNull \<Longrightarrow> mData (node_push rk d t) = (if outRanks rk d (mData t) then d else mData t)"
  by (cases t) (auto simp: Let_def)

lemma node_pop_data: "t \<noteq> HNull \<Longrightarrow> snd (node_pop rk t) = Some (mData t)"
  by (induction rk t rule: node_pop.induct) (auto split: prod.splits)

lemma mset_node_pop: "t \<noteq> HNull \<Longrightarrow> heap_mset t = add_mset (mData t) (heap_mset (fst (node_pop rk t)))"
  by (induction rk t rule: node_pop.induct) (auto split: prod.splits)

lemma node_remove_result:
  "node_remove rk d t = (t', q) \<Longrightarrow>
   (q = None \<and> t' = t) \<or> (q = Some d \<and> heap_mset t = add_mset d (heap_mset t'))"
proof (induction t arbitrary: t' q)
  case HNull
  then show ?case by simp
next
  case (HNode s e l r)
  obtain l' a where l: "node_remove rk d l = (l', a)" by fastforce
  obtain r' b where r: "node_remove rk d r = (r', b)" by fastforce
  show ?case
  proof (cases "d = e")
    case True
    with HNode.prems show ?thesis
      using mset_node_pop [of "HNode s e l r" rk] node_pop_data [of "HNode s e l r" rk] by auto
  next
    case False
    with HNode.prems HNode.IH(1) [OF l] HNode.IH(2) [OF r] show ?thesis
      by (auto simp: l r split: if_splits option.splits)
  qed
qed

definition heap_size :: "'a locheap \<Rightarrow> int" where
  "heap_size t = int (size (heap_mset t))"

lemma heap_size_simps [simp]:
  "heap_size HNull = 0"
  "heap_size (HNode s d l r) = 1 + heap_size l + heap_size r"
  by (simp_all add: heap_size_def)

lemma checkNodes_HNode:
  "checkNodes rk (HNode s d l r) \<longleftrightarrow>
     checkNodes rk l \<and> checkNodes rk r \<and>
     (l \<noteq> HNull \<longrightarrow> \<not> outRanks rk (mData l) d) \<and> (r \<noteq> HNull \<longrightarrow> \<not> outRanks rk (mData r) d) \<and>
     s = 1 + heap_size l + heap_size r"
proof -
  have "(if l = HNull then 0 else mSize l) = heap_size l" if "checkNodes rk l"
    using checkNodes_size [OF that] by (auto simp: heap_size_def)
  moreover have "(if r = HNull then 0 else mSize r) = heap_size r" if "checkNodes rk r"
    using checkNodes_size [OF that] by (auto simp: heap_size_def)
  ultimately show ?thesis by (cases "l = HNull"; cases "r = HNull") auto
qed

declare checkNodes.simps(2) [simp del]

lemma mData_in_set [simp]: "t \<noteq> HNull \<Longrightarrow> mData t \<in> set_locheap t"
  by (cases t) auto

section \<open>The contract of \<open>LocRankable::ranks\<close> and what it gives\<close>

text \<open>
  The heap relies on \<open>outRanks\<close> being a strict weak order on the objects \<open>ok\<close> that its
  client puts in. No bound on the heap's depth or balance is assumed.
\<close>

locale loc_rankable =
  fixes rk :: "'a \<Rightarrow> 'a \<Rightarrow> int" and ok :: "'a \<Rightarrow> bool"
  assumes outRanks_asym: "ok a \<Longrightarrow> ok b \<Longrightarrow> outRanks rk a b \<Longrightarrow> \<not> outRanks rk b a"
    and not_outRanks_trans:
      "ok a \<Longrightarrow> ok b \<Longrightarrow> ok c \<Longrightarrow> \<not> outRanks rk a b \<Longrightarrow> \<not> outRanks rk b c \<Longrightarrow> \<not> outRanks rk a c"
begin

definition all_ok :: "'a locheap \<Rightarrow> bool" where
  "all_ok t \<longleftrightarrow> (\<forall>x \<in> set_locheap t. ok x)"

lemma all_ok_simps [simp]:
  "all_ok HNull" "all_ok (HNode s d l r) \<longleftrightarrow> ok d \<and> all_ok l \<and> all_ok r"
  by (auto simp: all_ok_def)

lemma ok_mData [simp]: "all_ok t \<Longrightarrow> t \<noteq> HNull \<Longrightarrow> ok (mData t)"
  by (simp add: all_ok_def)

lemma top_not_outranked:
  "checkNodes rk t \<Longrightarrow> all_ok t \<Longrightarrow> x \<in> set_locheap t \<Longrightarrow> \<not> outRanks rk x (mData t)"
proof (induction t arbitrary: x)
  case HNull
  then show ?case by simp
next
  case (HNode s d l r)
  have refl: "\<not> outRanks rk d d"
    using outRanks_asym [of d d] HNode.prems(2) by auto
  have sub: "\<not> outRanks rk x d" if "x \<in> set_locheap t" "t \<in> {l, r}" for t
  proof -
    from that have ne: "t \<noteq> HNull" by auto
    have "\<not> outRanks rk x (mData t)"
      using that HNode by (auto simp: checkNodes_HNode)
    moreover have "\<not> outRanks rk (mData t) d"
      using that HNode.prems ne by (auto simp: checkNodes_HNode)
    moreover have "ok x" "ok (mData t)" "ok d"
      using that HNode.prems ne by (auto simp: all_ok_def)
    ultimately show ?thesis using not_outRanks_trans by blast
  qed
  from HNode.prems(3) refl sub show ?case by auto
qed

lemma node_push_checkNodes:
  "checkNodes rk t \<Longrightarrow> all_ok t \<Longrightarrow> ok d \<Longrightarrow> checkNodes rk (node_push rk d t)"
proof (induction t arbitrary: d)
  case HNull
  then show ?case by (simp add: new_node_def checkNodes_HNode)
next
  case (HNode s e l r)
  let ?top = "if outRanks rk d e then d else e" and ?low = "if outRanks rk d e then e else d"
  have ok: "ok d" "ok e" "ok ?top" "ok ?low" using HNode.prems by auto
  have low: "\<not> outRanks rk ?low ?top"
    using outRanks_asym [of d e] ok by auto
  have sub: "\<not> outRanks rk (mData t) ?top" if "t \<noteq> HNull" "t = l \<or> t = r" for t
  proof -
    have "\<not> outRanks rk (mData t) e" "ok (mData t)"
      using that HNode.prems by (auto simp: checkNodes_HNode)
    then show ?thesis
      using outRanks_asym [of d e] not_outRanks_trans [of "mData t" e d] ok by auto
  qed
  have size [simp]: "heap_size (node_push rk x t) = heap_size t + 1" for x t
    by (simp add: heap_size_def mset_node_push)
  have IHs: "checkNodes rk (node_push rk ?low l)" "checkNodes rk (node_push rk ?low r)"
    using HNode ok by (auto simp: checkNodes_HNode)
  have st: "s = 1 + heap_size l + heap_size r" "checkNodes rk l" "checkNodes rk r"
    using HNode.prems by (auto simp: checkNodes_HNode)
  have "node_push rk d (HNode s e l r) =
     (if l = HNull then HNode (s + 1) ?top (new_node ?low) r
      else if r = HNull then HNode (s + 1) ?top l (new_node ?low)
      else if mSize l \<le> mSize r then HNode (s + 1) ?top (node_push rk ?low l) r
      else HNode (s + 1) ?top l (node_push rk ?low r))"
    by (simp add: Let_def)
  then show ?case
    using low sub IHs st by (auto simp: checkNodes_HNode new_node_def mData_node_push)
qed

end

lemma set_node_pop_subset: "set_locheap (fst (node_pop rk t)) \<subseteq> set_locheap t"
  using arg_cong [OF mset_node_pop, of t set_mset rk] by (cases "t = HNull") auto

lemma heap_size_node_pop: "t \<noteq> HNull \<Longrightarrow> heap_size (fst (node_pop rk t)) = heap_size t - 1"
  using arg_cong [OF mset_node_pop, of t size rk] by (simp add: heap_size_def)

lemma set_node_pop_HNode: "set_locheap (fst (node_pop rk (HNode s d l r))) = set_locheap l \<union> set_locheap r"
proof -
  have "heap_mset (fst (node_pop rk (HNode s d l r))) = heap_mset l + heap_mset r"
    using mset_node_pop [of "HNode s d l r" rk] by simp
  from arg_cong [OF this, of set_mset] show ?thesis by simp
qed

text \<open>
  What the recursive call of \<open>pop\<close> works on: the chosen subtree with its own top replaced
  by the data being popped, which outranks everything left in it.
\<close>

context loc_rankable
begin

lemma checkNodes_swap_down:
  assumes "checkNodes rk (HNode ls ld ll lr)" and "all_ok (HNode ls ld ll lr)" and "ok d"
    and "\<not> outRanks rk ld d"
  shows "checkNodes rk (HNode ls d ll lr)" and "all_ok (HNode ls d ll lr)"
proof -
  have "\<not> outRanks rk (mData t) d" if "t \<noteq> HNull" "t = ll \<or> t = lr" for t
    using that assms not_outRanks_trans [of "mData t" ld d] by (auto simp: checkNodes_HNode)
  then show "checkNodes rk (HNode ls d ll lr)"
    using assms(1) by (auto simp: checkNodes_HNode)
  show "all_ok (HNode ls d ll lr)" using assms by simp
qed

lemma popped_child:
  assumes "checkNodes rk (HNode ls ld ll lr)" and "all_ok (HNode ls ld ll lr)"
    and "t' = fst (node_pop rk (HNode ls d ll lr))"
  shows "t' \<noteq> HNull \<Longrightarrow> \<not> outRanks rk (mData t') ld" and "heap_size t' = heap_size ll + heap_size lr"
proof -
  assume "t' \<noteq> HNull"
  then have "mData t' \<in> set_locheap t'" by simp
  then have "mData t' \<in> set_locheap (HNode ls ld ll lr)"
    by (auto simp: assms(3) set_node_pop_HNode)
  from top_not_outranked [OF assms(1,2) this] show "\<not> outRanks rk (mData t') ld" by simp
qed (simp add: assms(3) heap_size_node_pop)

lemma popped_into:
  assumes "checkNodes rk (HNode s d l r)" and "all_ok (HNode s d l r)"
    and "c = HNode cs cd cl cr" and "c = l \<or> c = r"
    and "c' = fst (node_pop rk (HNode cs d cl cr))" and "checkNodes rk c'"
  shows "c' \<noteq> HNull \<Longrightarrow> \<not> outRanks rk (mData c') cd" and "heap_size c' = heap_size c - 1"
proof -
  have c: "checkNodes rk (HNode cs cd cl cr)" "all_ok (HNode cs cd cl cr)"
    using assms by (auto simp: checkNodes_HNode)
  show "heap_size c' = heap_size c - 1"
    using popped_child(2) [OF c assms(5)] assms(3) by simp
  show "\<not> outRanks rk (mData c') cd" if "c' \<noteq> HNull"
    by (rule popped_child(1) [OF c assms(5) that])
qed

lemma node_pop_checkNodes:
  "checkNodes rk t \<Longrightarrow> all_ok t \<Longrightarrow> checkNodes rk (fst (node_pop rk t))"
proof (induction t rule: measure_induct_rule [where f = size])
  case (less t)
  show ?case
  proof (cases t)
    case HNull
    then show ?thesis by simp
  next
    case t: (HNode s d l r)
    have IH: "checkNodes rk (fst (node_pop rk (HNode cs d cl cr)))"
      if c: "HNode cs cd cl cr = l \<or> HNode cs cd cl cr = r" for cs cd cl cr
    proof (rule less.IH)
      show "size (HNode cs d cl cr) < size t" using c t by auto
      have "checkNodes rk (HNode cs cd cl cr)" "all_ok (HNode cs cd cl cr)" "ok d" "\<not> outRanks rk cd d"
        using c less.prems t by (auto simp: checkNodes_HNode)
      then show "checkNodes rk (HNode cs d cl cr)" "all_ok (HNode cs d cl cr)"
        by (rule checkNodes_swap_down)+
    qed
    have P: "checkNodes rk (HNode s d l r)" "all_ok (HNode s d l r)" using less.prems t by auto
    show ?thesis
    proof (cases l)
      case l: HNull
      show ?thesis
      proof (cases r)
        case HNull
        with l t show ?thesis by simp
      next
        case r: (HNode rs rd rl rr)
        show ?thesis
          using IH [of rs rd rl rr] popped_into [OF P r disjI2 refl] P l r t
          by (auto simp: checkNodes_HNode split: prod.splits)
      qed
    next
      case l: (HNode ls ld ll lr)
      show ?thesis
      proof (cases r)
        case r: HNull
        show ?thesis
          using IH [of ls ld ll lr] popped_into [OF P l disjI1 refl] P l r t
          by (auto simp: checkNodes_HNode split: prod.splits)
      next
        case r: (HNode rs rd rl rr)
        have "\<not> outRanks rk rd ld" if "outRanks rk ld rd"
          using outRanks_asym [of ld rd] that P l r by auto
        then show ?thesis
          using IH [of ls ld ll lr] IH [of rs rd rl rr] popped_into [OF P l disjI1 refl]
            popped_into [OF P r disjI2 refl] P l r t
          by (auto simp: checkNodes_HNode split: prod.splits)
      qed
    qed
  qed
qed

lemma node_remove_checkNodes:
  "checkNodes rk t \<Longrightarrow> all_ok t \<Longrightarrow> node_remove rk d t = (t', q) \<Longrightarrow> checkNodes rk t'"
proof (induction t arbitrary: t' q)
  case HNull
  then show ?case by simp
next
  case (HNode s e l r)
  obtain l' a where l: "node_remove rk d l = (l', a)" by fastforce
  obtain r' b where r: "node_remove rk d r = (r', b)" by fastforce
  have C: "checkNodes rk l" "checkNodes rk r" "all_ok l" "all_ok r"
    using HNode.prems by (auto simp: checkNodes_HNode)
  have kept: "(c' \<noteq> HNull \<longrightarrow> \<not> outRanks rk (mData c') e) \<and> heap_size c' = heap_size c - 1"
    if "c = l \<or> c = r" and "node_remove rk d c = (c', Some p)" for c c' p
  proof -
    have m: "heap_mset c = add_mset d (heap_mset c')"
      using node_remove_result [OF that(2)] by simp
    have "\<not> outRanks rk (mData c') e" if "c' \<noteq> HNull"
    proof -
      have "mData c' \<in> set_locheap c"
        using arg_cong [OF m, of set_mset] that by auto
      then show ?thesis
        using top_not_outranked [OF HNode.prems(1,2), of "mData c'"] \<open>c = l \<or> c = r\<close> by auto
    qed
    with m show ?thesis by (simp add: heap_size_def)
  qed
  show ?case
  proof (cases "d = e")
    case True
    with HNode.prems show ?thesis
      using node_pop_checkNodes [of "HNode s e l r"] by (simp add: prod_eq_iff)
  next
    case False
    show ?thesis
      using HNode.prems False C HNode.IH(1) [OF C(1,3) l] HNode.IH(2) [OF C(2,4) r]
        kept [of l l'] kept [of r r'] node_remove_result [OF l] node_remove_result [OF r]
      by (auto simp: l r checkNodes_HNode split: if_splits option.splits)
  qed
qed

lemma node_remove_finds:
  "checkNodes rk t \<Longrightarrow> all_ok t \<Longrightarrow> d \<in> set_locheap t \<Longrightarrow> \<exists>t'. node_remove rk d t = (t', Some d)"
proof (induction t)
  case HNull
  then show ?case by simp
next
  case (HNode s e l r)
  have nr: "\<not> outRanks rk d e"
    using top_not_outranked [OF HNode.prems] by simp
  obtain l' a where l: "node_remove rk d l = (l', a)" by fastforce
  obtain r' b where r: "node_remove rk d r = (r', b)" by fastforce
  show ?case
  proof (cases "d = e")
    case True
    then show ?thesis
      using node_pop_data [of "HNode s e l r" rk] by (auto simp: prod_eq_iff)
  next
    case False
    then show ?thesis
      using HNode nr l r node_remove_result [OF l] by (auto simp: checkNodes_HNode split: option.splits)
  qed
qed

end

end
