(* ===== verification/Loc_Timer.thy ===== *)
theory Loc_Timer
  imports Loc_Heap
begin

text \<open>
  The timers of \<open>gps/utils/LocTimer.cpp\<close>: \<open>LocTimerDelegate\<close>, its ranking by expiry time, and
  the container that keeps the delegates in a \<open>LocHeap\<close> and pops them when the kernel timer
  fires. A delegate is its identity (the object's address) and its \<open>mFutureTime\<close>.

  \<open>ranks\<close> narrows the difference of two \<open>time_t\<close> values to \<open>int\<close>, so it is a ranking only for
  times that are less than \<open>2^31\<close> seconds apart: \<open>timer_ok\<close> is the range of the boot-time clock
  for which the contract of \<open>loc_rankable\<close> is proved. The kernel calls (\<open>timerfd_settime\<close>,
  \<open>epoll_ctl\<close>) and the posting of messages to the task that runs these methods are left out.
\<close>

section \<open>Timer delegates and their ranking\<close>

record timer_delegate =
  td_addr :: nat
  tv_sec :: int
  tv_nsec :: int

text \<open>The conversion of a 64-bit difference to \<open>int\<close>.\<close>

definition to_int32 :: "int \<Rightarrow> int" where
  "to_int32 x = (x + 2 ^ 31) mod 2 ^ 32 - 2 ^ 31"

definition timer_ranks :: "timer_delegate \<Rightarrow> timer_delegate \<Rightarrow> int" where
  "timer_ranks this timer =
     (let rank = to_int32 (tv_sec timer - tv_sec this) in
      if 0 = rank then to_int32 (tv_nsec timer - tv_nsec this) else rank)"

definition timer_ok :: "timer_delegate \<Rightarrow> bool" where
  "timer_ok t \<longleftrightarrow> 0 \<le> tv_sec t \<and> tv_sec t < 2 ^ 31 \<and> 0 \<le> tv_nsec t \<and> tv_nsec t < 10 ^ 9"

text \<open>\<open>time_le a b\<close>: \<open>a\<close> expires no later than \<open>b\<close>.\<close>

definition time_le :: "timer_delegate \<Rightarrow> timer_delegate \<Rightarrow> bool" where
  "time_le a b \<longleftrightarrow> tv_sec a < tv_sec b \<or> (tv_sec a = tv_sec b \<and> tv_nsec a \<le> tv_nsec b)"

lemma to_int32_id: "- (2 ^ 31) \<le> x \<Longrightarrow> x < 2 ^ 31 \<Longrightarrow> to_int32 x = x"
  by (simp add: to_int32_def)

lemma outRanks_timer:
  "timer_ok a \<Longrightarrow> timer_ok b \<Longrightarrow> outRanks timer_ranks a b \<longleftrightarrow> \<not> time_le b a"
  by (auto simp: outRanks_def timer_ranks_def timer_ok_def time_le_def to_int32_id Let_def)

interpretation timers: loc_rankable timer_ranks timer_ok
proof
  show "\<not> outRanks timer_ranks b a" if "timer_ok a" "timer_ok b" "outRanks timer_ranks a b" for a b
    using that by (auto simp: outRanks_timer time_le_def)
  show "\<not> outRanks timer_ranks a c"
    if "timer_ok a" "timer_ok b" "timer_ok c" "\<not> outRanks timer_ranks a b" "\<not> outRanks timer_ranks b c"
    for a b c
    using that by (auto simp: outRanks_timer time_le_def)
qed

section \<open>The timer container\<close>

text \<open>\<open>LocTimerContainer::popIfOutRanks\<close>.\<close>

definition popIfOutRanks ::
  "timer_delegate \<Rightarrow> timer_delegate locheap \<Rightarrow> timer_delegate locheap \<times> timer_delegate option" where
  "popIfOutRanks timer t =
     (case heap_peek t of
        None \<Rightarrow> (t, None)
      | Some soonest \<Rightarrow> if \<not> outRanks timer_ranks timer soonest then heap_pop timer_ranks t else (t, None))"

text \<open>
  The loop of \<open>MsgTimerExpire::proc\<close> after its first \<open>pop\<close>: the delegates it calls \<open>expire\<close>
  on, in that order, and the heap it leaves.
\<close>

lemma heap_pop_smaller:
  "heap_pop rk t = (t', Some d) \<Longrightarrow> size (heap_mset t') < size (heap_mset t)"
  using arg_cong [OF mset_node_pop, of t size rk]
  by (cases "t = HNull") (auto simp: heap_pop_def)

function pop_due ::
  "timer_delegate \<Rightarrow> timer_delegate locheap \<Rightarrow> timer_delegate list \<times> timer_delegate locheap" where
  "pop_due now t =
     (case popIfOutRanks now t of
        (t', None) \<Rightarrow> ([], t')
      | (t', Some timer) \<Rightarrow> (let (ds, t'') = pop_due now t' in (timer # ds, t'')))"
  by pat_completeness auto
termination
  by (relation "measure (\<lambda>(now, t). size (heap_mset t))")
     (auto simp: popIfOutRanks_def split: option.splits if_splits dest!: heap_pop_smaller [OF sym])

declare pop_due.simps [simp del]

definition timer_expire ::
  "timer_delegate \<Rightarrow> timer_delegate locheap \<Rightarrow> timer_delegate list \<times> timer_delegate locheap" where
  "timer_expire now t =
     (case heap_pop timer_ranks t of
        (t', None) \<Rightarrow> ([], t')
      | (t', Some timer) \<Rightarrow> (let (ds, t'') = pop_due now t' in (timer # ds, t'')))"

text \<open>
  The state the container shares with the kernel: the heap, the absolute time its
  \<open>timerfd\<close> is armed with (\<open>None\<close> when disarmed), whether the fd is in the epoll set, and
  how many expiry messages posted by \<open>expire\<close> the message task has still to run.
\<close>

record timer_container =
  tc_tree :: "timer_delegate locheap"
  tc_armed :: "(int \<times> int) option"
  tc_polled :: bool
  tc_pending :: nat

definition getFutureTime :: "timer_delegate \<Rightarrow> int \<times> int" where
  "getFutureTime t = (tv_sec t, tv_nsec t)"

text \<open>\<open>LocTimerContainer::updateSoonestTime\<close>; its argument may be the null pointer.\<close>

definition updateSoonestTime :: "timer_delegate option \<Rightarrow> timer_container \<Rightarrow> timer_container" where
  "updateSoonestTime priorTop c =
     (let curTop = heap_peek (tc_tree c) in
      if curTop \<noteq> priorTop then
        (case curTop of
           None \<Rightarrow> c\<lparr>tc_polled := False, tc_armed := None\<rparr>
         | Some cur \<Rightarrow>
             if (case priorTop of None \<Rightarrow> True | Some prior \<Rightarrow> outRanks timer_ranks cur prior)
             then c\<lparr>tc_polled := True, tc_armed := Some (getFutureTime cur)\<rparr>
             else c)
      else c)"

text \<open>The three messages of the container and the call \<open>expire\<close> of the polling thread.\<close>

definition timer_add :: "timer_delegate \<Rightarrow> timer_container \<Rightarrow> timer_container" where
  "timer_add timer c =
     updateSoonestTime (heap_peek (tc_tree c))
       (c\<lparr>tc_tree := heap_push timer_ranks timer (tc_tree c)\<rparr>)"

definition timer_remove :: "timer_delegate \<Rightarrow> timer_container \<Rightarrow> timer_container" where
  "timer_remove timer c =
     (let priorTop = heap_peek (tc_tree c);
          (t', removed) = heap_remove timer_ranks timer (tc_tree c);
          c' = c\<lparr>tc_tree := t'\<rparr>
      in if priorTop = removed then updateSoonestTime None c' else c')"

definition timer_fd_expire :: "timer_container \<Rightarrow> timer_container" where
  "timer_fd_expire c = c\<lparr>tc_armed := None, tc_polled := False, tc_pending := Suc (tc_pending c)\<rparr>"

definition timer_msg_expire ::
  "timer_delegate \<Rightarrow> timer_container \<Rightarrow> timer_delegate list \<times> timer_container" where
  "timer_msg_expire now c =
     (let (ds, t') = timer_expire now (tc_tree c)
      in (ds, updateSoonestTime None (c\<lparr>tc_tree := t', tc_pending := tc_pending c - 1\<rparr>)))"

text \<open>
  One turn of the message task or of the polling thread. An expiry message runs only when
  one was posted.
\<close>

inductive timer_step :: "timer_container \<Rightarrow> timer_container \<Rightarrow> bool" where
  add: "timer_ok timer \<Longrightarrow> timer_step c (timer_add timer c)"
| remove: "timer_step c (timer_remove timer c)"
| fd_expire: "timer_step c (timer_fd_expire c)"
| msg_expire: "0 < tc_pending c \<Longrightarrow> timer_ok now \<Longrightarrow> timer_step c (snd (timer_msg_expire now c))"

definition new_container :: timer_container where
  "new_container = \<lparr>tc_tree = HNull, tc_armed = None, tc_polled = False, tc_pending = 0\<rparr>"

inductive timer_reachable :: "timer_container \<Rightarrow> bool" where
  start: "timer_reachable new_container"
| step: "timer_reachable c \<Longrightarrow> timer_step c c' \<Longrightarrow> timer_reachable c'"

inductive_cases timer_stepE: "timer_step c c'"

text \<open>
  \<open>LocTimer::start\<close> computes the expiry time from the clock and a delay in milliseconds
  (\<open>unsigned int\<close>).
\<close>

definition future_time :: "int \<times> int \<Rightarrow> int \<Rightarrow> int \<times> int" where
  "future_time now timeOutInMs =
     (let s = fst now + timeOutInMs div 1000;
          ns = snd now + (timeOutInMs mod 1000) * 1000000
      in if ns \<ge> 1000000000 then (s + ns div 1000000000, ns mod 1000000000) else (s, ns))"

section \<open>Properties\<close>

definition timer_heap_ok :: "timer_delegate locheap \<Rightarrow> bool" where
  "timer_heap_ok t \<longleftrightarrow> checkTree timer_ranks t \<and> (\<forall>x \<in> set_locheap t. timer_ok x)"

lemma timer_heap_ok_iff: "timer_heap_ok t \<longleftrightarrow> checkNodes timer_ranks t \<and> timers.all_ok t"
  by (auto simp: timer_heap_ok_def checkTree_def timers.all_ok_def)

lemma heap_pop_eq: "heap_pop rk t = node_pop rk t"
  by (simp add: heap_pop_def)

lemma heap_push_eq: "heap_push rk d t = node_push rk d t"
  by (simp add: heap_push_def)

lemma heap_remove_eq: "heap_remove rk d t = node_remove rk d t"
  by (simp add: heap_remove_def)

lemmas heap_op_eqs = heap_pop_eq heap_push_eq heap_remove_eq

lemma time_le_trans: "time_le a b \<Longrightarrow> time_le b c \<Longrightarrow> time_le a c"
  by (auto simp: time_le_def)

lemma set_of_mset_eq: "heap_mset t = add_mset d (heap_mset t') \<Longrightarrow> set_locheap t = insert d (set_locheap t')"
  by (metis set_mset_add_mset_insert set_mset_heap_mset)

lemma soonest_at_top:
  assumes "timer_heap_ok t" and "t \<noteq> HNull" and "x \<in> set_locheap t"
  shows "time_le (mData t) x"
  using timers.top_not_outranked [of t x] assms
  by (auto simp: timer_heap_ok_iff outRanks_timer timers.all_ok_def)

lemma heap_pop_timer:
  assumes "timer_heap_ok t" and "heap_pop timer_ranks t = (t', Some d)"
  shows "timer_heap_ok t'" and "heap_mset t = add_mset d (heap_mset t')"
    and "timer_ok d" and "\<And>x. x \<in> set_locheap t \<Longrightarrow> time_le d x"
proof -
  have ne: "t \<noteq> HNull" using assms(2) by (auto simp: heap_pop_def)
  have d: "d = mData t" and t': "t' = fst (node_pop timer_ranks t)"
    using assms(2) node_pop_data [OF ne, of timer_ranks] by (simp_all add: heap_pop_eq)
  show m: "heap_mset t = add_mset d (heap_mset t')"
    using mset_node_pop [OF ne, of timer_ranks] d t' by simp
  show "timer_ok d" using assms(1) ne d by (simp add: timer_heap_ok_def)
  show "timer_heap_ok t'"
    using timers.node_pop_checkNodes [of t] assms(1) set_of_mset_eq [OF m]
    by (simp add: timer_heap_ok_iff timers.all_ok_def t' [symmetric])
  show "time_le d x" if "x \<in> set_locheap t" for x
    using soonest_at_top [OF assms(1) ne that] d by simp
qed

lemma heap_pop_None: "heap_pop rk t = (t', None) \<longleftrightarrow> t = HNull \<and> t' = HNull"
  using node_pop_data [of t rk] by (cases "t = HNull") (auto simp: heap_pop_def)

lemma pop_due_stop: "popIfOutRanks now t = (t', None) \<Longrightarrow> pop_due now t = ([], t')"
  by (subst pop_due.simps) simp

lemma pop_due_step:
  "popIfOutRanks now t = (t', Some d) \<Longrightarrow>
   pop_due now t = (d # fst (pop_due now t'), snd (pop_due now t'))"
  by (subst pop_due.simps) (simp add: case_prod_beta)

lemma pop_due_correct:
  assumes "timer_heap_ok t" and "timer_ok now" and "pop_due now t = (ds, t')"
  shows "timer_heap_ok t' \<and> heap_mset t = mset ds + heap_mset t' \<and> sorted_wrt time_le ds \<and>
    (\<forall>d \<in> set ds. time_le d now) \<and> (\<forall>x \<in> set_locheap t'. \<not> time_le x now)"
  using assms
proof (induction now t arbitrary: ds t' rule: pop_due.induct)
  case (1 now t)
  show ?case
  proof (cases "heap_peek t")
    case None
    then have "t = HNull" by (cases t) (auto simp: heap_peek_def)
    with "1.prems" show ?thesis by (simp add: pop_due_stop popIfOutRanks_def heap_peek_def)
  next
    case (Some d)
    then have d: "d = mData t" "t \<noteq> HNull" by (auto simp: heap_peek_def split: locheap.splits)
    then have ok: "timer_ok d" using "1.prems"(1) by (simp add: timer_heap_ok_def)
    show ?thesis
    proof (cases "time_le d now")
      case False
      have "\<not> time_le x now" if "x \<in> set_locheap t" for x
        using timers.top_not_outranked [of t x] "1.prems" that d ok False
        by (auto simp: timer_heap_ok_iff outRanks_timer timers.all_ok_def dest: time_le_trans)
      moreover have "pop_due now t = ([], t)"
        using False Some "1.prems" ok by (intro pop_due_stop) (simp add: popIfOutRanks_def outRanks_timer)
      ultimately show ?thesis using "1.prems" by auto
    next
      case True
      obtain t1 where t1: "heap_pop timer_ranks t = (t1, Some d)"
        using node_pop_data [of t timer_ranks] d by (simp add: heap_pop_eq prod_eq_iff)
      note pop = heap_pop_timer [OF "1.prems"(1) t1]
      have eq: "popIfOutRanks now t = (t1, Some d)"
        using Some True t1 ok "1.prems"(2) by (simp add: popIfOutRanks_def outRanks_timer)
      obtain ds1 t2 where r: "pop_due now t1 = (ds1, t2)" by fastforce
      from "1.IH" [OF eq [symmetric] refl pop(1) "1.prems"(2) r]
      have IH: "timer_heap_ok t2" "heap_mset t1 = mset ds1 + heap_mset t2" "sorted_wrt time_le ds1"
        "\<forall>d \<in> set ds1. time_le d now" "\<forall>x \<in> set_locheap t2. \<not> time_le x now"
        by auto
      have "time_le d x" if "x \<in> set ds1" for x
      proof -
        have "x \<in> set_locheap t1" using arg_cong [OF IH(2), of set_mset] that by auto
        then show ?thesis using pop(4) set_of_mset_eq [OF pop(2)] by auto
      qed
      moreover have "ds = d # ds1" "t' = t2"
        using pop_due_step [OF eq, unfolded r] "1.prems"(3) by auto
      ultimately show ?thesis using IH True pop(2) by auto
    qed
  qed
qed

lemma timer_expire_loop:
  assumes "timer_heap_ok t" and "timer_ok now" and "timer_expire now t = (ds, t')"
  shows "timer_heap_ok t'" and "heap_mset t = mset ds + heap_mset t'" and "sorted_wrt time_le ds"
    and "\<forall>d \<in> set (tl ds). time_le d now" and "\<forall>x \<in> set_locheap t'. \<not> time_le x now"
    and "ds = [] \<longleftrightarrow> t = HNull"
proof -
  have "timer_heap_ok t' \<and> heap_mset t = mset ds + heap_mset t' \<and> sorted_wrt time_le ds \<and>
    (\<forall>d \<in> set (tl ds). time_le d now) \<and> (\<forall>x \<in> set_locheap t'. \<not> time_le x now) \<and> (ds = [] \<longleftrightarrow> t = HNull)"
  proof (cases "t = HNull")
    case True
    with assms show ?thesis by (simp add: timer_expire_def heap_pop_def)
  next
    case False
    obtain t1 d where t1: "heap_pop timer_ranks t = (t1, Some d)"
      using heap_pop_None [of timer_ranks t] False by (metis not_None_eq surj_pair)
    note pop = heap_pop_timer [OF assms(1) t1]
    obtain ds1 t2 where r: "pop_due now t1 = (ds1, t2)" by fastforce
    note due = pop_due_correct [OF pop(1) assms(2) r]
    have "time_le d x" if "x \<in> set ds1" for x
    proof -
      have "x \<in> set_locheap t1" using arg_cong [of _ _ set_mset, OF conjunct1 [OF conjunct2 [OF due]]] that by auto
      then show ?thesis using pop(4) set_of_mset_eq [OF pop(2)] by auto
    qed
    with due pop t1 r False assms(3) show ?thesis by (auto simp: timer_expire_def)
  qed
  then show "timer_heap_ok t'" and "heap_mset t = mset ds + heap_mset t'" and "sorted_wrt time_le ds"
    and "\<forall>d \<in> set (tl ds). time_le d now" and "\<forall>x \<in> set_locheap t'. \<not> time_le x now"
    and "ds = [] \<longleftrightarrow> t = HNull" by blast+
qed

subsection \<open>The kernel timer is armed for the soonest timer\<close>

definition container_ok :: "timer_container \<Rightarrow> bool" where
  "container_ok c \<longleftrightarrow> timer_heap_ok (tc_tree c) \<and>
     (tc_pending c = 0 \<longrightarrow> tc_tree c \<noteq> HNull \<longrightarrow>
        tc_polled c \<and> tc_armed c = map_option getFutureTime (heap_peek (tc_tree c)))"

lemma heap_peek_simps [simp]: "heap_peek HNull = None" "t \<noteq> HNull \<Longrightarrow> heap_peek t = Some (mData t)"
  by (auto simp: heap_peek_def split: locheap.splits)

lemma timer_heap_ok_push: "timer_heap_ok t \<Longrightarrow> timer_ok d \<Longrightarrow> timer_heap_ok (heap_push timer_ranks d t)"
  using timers.node_push_checkNodes [of t d] by (auto simp: timer_heap_ok_iff heap_push_eq timers.all_ok_def)

lemma timer_heap_ok_remove:
  assumes "timer_heap_ok t" and "heap_remove timer_ranks d t = (t', q)"
  shows "timer_heap_ok t'"
proof -
  from node_remove_result [of timer_ranks d t t' q] assms(2) have "set_locheap t' \<subseteq> set_locheap t"
    by (auto simp: heap_remove_eq dest: set_of_mset_eq)
  then show ?thesis
    using timers.node_remove_checkNodes [of t d t' q] assms
    by (auto simp: timer_heap_ok_iff heap_remove_eq timers.all_ok_def)
qed

lemma mData_node_remove:
  "node_remove rk d t = (t', q) \<Longrightarrow> t \<noteq> HNull \<Longrightarrow> d \<noteq> mData t \<Longrightarrow> t' \<noteq> HNull \<and> mData t' = mData t"
  by (cases t) (auto split: if_splits prod.splits option.splits)

lemma updateSoonestTime_tree [simp]:
  "tc_tree (updateSoonestTime p c) = tc_tree c" "tc_pending (updateSoonestTime p c) = tc_pending c"
  by (auto simp: updateSoonestTime_def Let_def split: option.splits)

lemma updateSoonestTime_None:
  "tc_tree c \<noteq> HNull \<Longrightarrow>
   updateSoonestTime None c =
     c\<lparr>tc_polled := True, tc_armed := Some (getFutureTime (mData (tc_tree c)))\<rparr>"
  by (simp add: updateSoonestTime_def)

lemma container_ok_update_None: "timer_heap_ok (tc_tree c) \<Longrightarrow> container_ok (updateSoonestTime None c)"
  by (cases "tc_tree c = HNull") (auto simp: container_ok_def updateSoonestTime_None)

lemma container_ok_add:
  assumes "container_ok c" and "timer_ok d"
  shows "container_ok (timer_add d c)"
proof -
  let ?t = "tc_tree c"
  have ok: "timer_heap_ok (heap_push timer_ranks d ?t)"
    using assms by (simp add: container_ok_def timer_heap_ok_push)
  show ?thesis
  proof (cases "?t = HNull")
    case True
    then have "timer_add d c = updateSoonestTime None (c\<lparr>tc_tree := heap_push timer_ranks d ?t\<rparr>)"
      by (simp add: timer_add_def)
    with ok show ?thesis by (simp add: container_ok_update_None)
  next
    case False
    then have irrefl: "\<not> outRanks timer_ranks d d"
      using timers.outRanks_asym [of d d] assms(2) by blast
    have "mData (heap_push timer_ranks d ?t) = (if outRanks timer_ranks d (mData ?t) then d else mData ?t)"
      and "heap_push timer_ranks d ?t \<noteq> HNull"
      using False by (simp_all add: heap_push_eq mData_node_push)
    with False irrefl ok assms(1) show ?thesis
      by (auto simp: timer_add_def container_ok_def updateSoonestTime_def)
  qed
qed

lemma container_ok_remove:
  assumes "container_ok c"
  shows "container_ok (timer_remove d c)"
proof -
  obtain t' q where r: "heap_remove timer_ranks d (tc_tree c) = (t', q)" by fastforce
  have ok: "timer_heap_ok t'"
    using assms timer_heap_ok_remove [OF _ r] by (simp add: container_ok_def)
  show ?thesis
  proof (cases "heap_peek (tc_tree c) = q")
    case True
    with r ok show ?thesis by (simp add: timer_remove_def container_ok_update_None)
  next
    case False
    have "t' = tc_tree c \<or> (q = Some d \<and> tc_tree c \<noteq> HNull \<and> mData t' = mData (tc_tree c) \<and> t' \<noteq> HNull)"
      using node_remove_result [OF r [unfolded heap_remove_eq]] False
        mData_node_remove [OF r [unfolded heap_remove_eq]]
      by (cases "tc_tree c = HNull") (auto simp: r [unfolded heap_remove_eq])
    with False r ok assms show ?thesis by (auto simp: timer_remove_def container_ok_def)
  qed
qed

lemma timer_step_ok: "timer_step c c' \<Longrightarrow> container_ok c \<Longrightarrow> container_ok c'"
proof (induction rule: timer_step.induct)
  case (msg_expire c now)
  obtain ds t' where e: "timer_expire now (tc_tree c) = (ds, t')" by fastforce
  have "timer_heap_ok t'"
    using timer_expire_loop(1) [OF _ msg_expire.hyps(2) e] msg_expire.prems by (simp add: container_ok_def)
  then show ?case by (simp add: timer_msg_expire_def e container_ok_update_None)
qed (simp_all add: container_ok_add container_ok_remove, simp add: container_ok_def timer_fd_expire_def)

lemma timer_reachable_ok: "timer_reachable c \<Longrightarrow> container_ok c"
  by (induction rule: timer_reachable.induct)
     (auto simp: container_ok_def new_container_def timer_heap_ok_def checkTree_def
       dest: timer_step_ok [unfolded container_ok_def])

section \<open>The properties of the timers\<close>

text \<open>
  Adding a timer to a well-formed heap keeps it well formed (sizes and rank order hold at
  every node), stores exactly the timer added, and grows the tree's size by one.
\<close>

theorem timer_push_correct:
  assumes "timer_heap_ok t" and "timer_ok d"
  shows "timer_heap_ok (heap_push timer_ranks d t) \<and>
    heap_mset (heap_push timer_ranks d t) = add_mset d (heap_mset t) \<and>
    getTreeSize (heap_push timer_ranks d t) = getTreeSize t + 1"
proof -
  have "getTreeSize (heap_push timer_ranks d t) = getTreeSize t + 1"
    by (simp add: heap_push_eq getTreeSize_def new_node_def)
  then show ?thesis
    using timer_heap_ok_push [OF assms] by (simp add: heap_push_eq mset_node_push)
qed

definition timer_a :: timer_delegate where "timer_a = \<lparr>td_addr = 1, tv_sec = 5, tv_nsec = 7\<rparr>"
definition timer_b :: timer_delegate where "timer_b = \<lparr>td_addr = 2, tv_sec = 5, tv_nsec = 3\<rparr>"
definition timer_heap_ab :: "timer_delegate locheap" where
  "timer_heap_ab = HNode 2 timer_b (HNode 1 timer_a HNull HNull) HNull"

lemmas timer_example_defs = timer_a_def timer_b_def timer_heap_ab_def

lemma timer_example_ok: "timer_ok timer_a" "timer_ok timer_b" "timer_heap_ok timer_heap_ab"
  by (simp_all add: timer_example_defs timer_ok_def timer_heap_ok_def checkTree_def checkNodes_HNode
      outRanks_def timer_ranks_def to_int32_def)

theorem timer_push_correct_witness:
  "timer_heap_ok (heap_push timer_ranks timer_b (new_node timer_a)) \<and>
   heap_push timer_ranks timer_b (new_node timer_a) = timer_heap_ab"
proof -
  have "timer_heap_ok (new_node timer_a)"
    by (simp add: new_node_def timer_heap_ok_def checkTree_def checkNodes_HNode timer_example_ok)
  from timer_push_correct [OF this timer_example_ok(2)] show ?thesis
    by (simp add: heap_push_def new_node_def outRanks_def timer_ranks_def to_int32_def timer_example_defs)
qed

text \<open>
  Popping a non-empty well-formed heap gives the timer \<open>peek\<close> shows, which expires no
  later than any other timer of the heap; what is left is well formed and holds all the
  other timers.
\<close>

theorem timer_pop_soonest:
  assumes "timer_heap_ok t" and "t \<noteq> HNull"
  shows "\<exists>t' d. heap_pop timer_ranks t = (t', Some d) \<and> heap_peek t = Some d \<and> timer_heap_ok t' \<and>
    heap_mset t = add_mset d (heap_mset t') \<and> (\<forall>x \<in> set_locheap t. time_le d x)"
proof -
  obtain t' d where p: "heap_pop timer_ranks t = (t', Some d)"
    using heap_pop_None [of timer_ranks t] assms(2) by (metis not_None_eq surj_pair)
  then have "heap_peek t = Some d"
    using node_pop_data [OF assms(2), of timer_ranks] assms(2) by (simp add: heap_pop_eq)
  with p heap_pop_timer [OF assms(1) p] show ?thesis by blast
qed

theorem timer_pop_soonest_witness:
  "fst (heap_pop timer_ranks timer_heap_ab) = new_node timer_a \<and>
   heap_peek timer_heap_ab = snd (heap_pop timer_ranks timer_heap_ab)"
proof -
  have "timer_heap_ab \<noteq> HNull" by (simp add: timer_heap_ab_def)
  from timer_pop_soonest [OF timer_example_ok(3) this] show ?thesis
    by (auto simp: heap_pop_def new_node_def timer_heap_ab_def)
qed

text \<open>
  Removing a timer from a well-formed heap takes out exactly that object when it is in the
  heap, although subtrees it outranks are not searched, and otherwise returns null and leaves
  the heap as it was.
\<close>

theorem timer_remove_correct:
  assumes "timer_heap_ok t"
  shows "(case heap_remove timer_ranks d t of
            (t', Some x) \<Rightarrow> d \<in> set_locheap t \<and> x = d \<and> timer_heap_ok t' \<and> heap_mset t = add_mset d (heap_mset t')
          | (t', None) \<Rightarrow> d \<notin> set_locheap t \<and> t' = t)"
proof -
  obtain t' q where r: "heap_remove timer_ranks d t = (t', q)" by fastforce
  have "timer_heap_ok t'" by (rule timer_heap_ok_remove [OF assms r])
  moreover have "\<exists>t'. node_remove timer_ranks d t = (t', Some d)" if "d \<in> set_locheap t"
    using timers.node_remove_finds [OF _ _ that] assms by (simp add: timer_heap_ok_iff)
  ultimately show ?thesis
    using node_remove_result [of timer_ranks d t t' q] r
    by (auto simp: heap_remove_eq split: option.splits dest: set_of_mset_eq)
qed

theorem timer_remove_correct_witness:
  "heap_remove timer_ranks timer_a timer_heap_ab = (new_node timer_b, Some timer_a)"
  using timer_remove_correct [OF timer_example_ok(3), of timer_a]
  by (simp add: heap_remove_def timer_heap_ab_def new_node_def outRanks_def timer_ranks_def to_int32_def
      timer_a_def timer_b_def split: prod.splits option.splits)

text \<open>
  C34: An expiry message runs the callbacks in order of expiry time, leaves no timer in the heap
  that is due, and every timer it expires after the first is due; nothing is lost.
\<close>

theorem timer_expire_correct:
  assumes "timer_heap_ok t" and "timer_ok now" and "timer_expire now t = (ds, t')"
  shows "timer_heap_ok t' \<and> heap_mset t = mset ds + heap_mset t' \<and> sorted_wrt time_le ds \<and>
    (\<forall>d \<in> set (tl ds). time_le d now) \<and> (\<forall>x \<in> set_locheap t'. \<not> time_le x now)"
  using timer_expire_loop [OF assms] by blast

theorem timer_expire_correct_witness:
  "timer_expire timer_a timer_heap_ab = ([timer_b, timer_a], HNull) \<and> sorted_wrt time_le [timer_b, timer_a]"
proof -
  have e: "timer_expire timer_a timer_heap_ab = ([timer_b, timer_a], HNull)"
    by (simp add: timer_expire_def heap_pop_def pop_due_step [of _ _ HNull timer_a] pop_due_stop
        popIfOutRanks_def outRanks_def timer_ranks_def to_int32_def timer_example_defs)
  from timer_expire_correct [OF timer_example_ok(3,1) e] e show ?thesis by blast
qed

text \<open>
  The first timer of the heap is expired whatever the time is: a single timer whose time is
  still in the future is popped and its callback run, although the comment on the loop says
  that only timers older than now are.
\<close>

theorem timer_expire_pops_future_head:
  "timer_ok d \<Longrightarrow> timer_ok now \<Longrightarrow> \<not> time_le d now \<Longrightarrow> timer_expire now (new_node d) = ([d], HNull)"
  by (simp add: timer_expire_def heap_pop_def new_node_def pop_due_stop popIfOutRanks_def)

theorem timer_expire_pops_future_head_witness:
  "\<not> time_le timer_a timer_b \<and> timer_expire timer_b (new_node timer_a) = ([timer_a], HNull)"
proof -
  have "\<not> time_le timer_a timer_b" by (simp add: time_le_def timer_example_defs)
  with timer_expire_pops_future_head [OF timer_example_ok(1,2)] show ?thesis by blast
qed

text \<open>
  C22: In every reachable state of a timer container with no expiry message outstanding, a
  non-empty heap has its kernel timer polled and armed for the time of the soonest timer.
\<close>

theorem timer_armed_for_soonest:
  assumes "timer_reachable c" and "tc_pending c = 0" and "tc_tree c \<noteq> HNull"
  shows "tc_polled c \<and> (\<exists>d \<in> set_locheap (tc_tree c). tc_armed c = Some (getFutureTime d) \<and>
    (\<forall>x \<in> set_locheap (tc_tree c). time_le d x))"
proof -
  from timer_reachable_ok [OF assms(1)] assms(2,3)
  have ok: "timer_heap_ok (tc_tree c)" "tc_polled c" "tc_armed c = Some (getFutureTime (mData (tc_tree c)))"
    by (auto simp: container_ok_def)
  have "\<forall>x \<in> set_locheap (tc_tree c). time_le (mData (tc_tree c)) x"
    using soonest_at_top [OF ok(1) assms(3)] by blast
  with ok assms(3) show ?thesis by auto
qed

theorem timer_armed_for_soonest_witness:
  "tc_polled (timer_add timer_b (timer_add timer_a new_container)) \<and>
   tc_armed (timer_add timer_b (timer_add timer_a new_container)) = Some (5, 3)"
proof -
  let ?c = "timer_add timer_b (timer_add timer_a new_container)"
  have r: "timer_reachable ?c"
    by (rule timer_reachable.step [OF timer_reachable.step [OF timer_reachable.start
          timer_step.add [OF timer_example_ok(1)]] timer_step.add [OF timer_example_ok(2)]])
  have t: "tc_tree ?c = timer_heap_ab" "tc_pending ?c = 0"
    by (simp_all add: timer_add_def new_container_def heap_push_def new_node_def outRanks_def
        timer_ranks_def to_int32_def timer_example_defs)
  then have ne: "tc_tree ?c \<noteq> HNull" by (simp add: timer_heap_ab_def)
  have elems: "set_locheap timer_heap_ab = {timer_a, timer_b}" by (auto simp: timer_heap_ab_def)
  have later: "\<not> time_le timer_a timer_b" by (simp add: time_le_def timer_example_defs)
  from timer_armed_for_soonest [OF r t(2) ne] later
  have "tc_polled ?c \<and> tc_armed ?c = Some (getFutureTime timer_b)"
    unfolding t(1) elems by blast
  then show ?thesis by (simp add: getFutureTime_def timer_b_def)
qed

text \<open>
  Removing the only timer of a container changes nothing in the kernel: the timer fd stays
  armed and polled. The branch of \<open>updateSoonestTime\<close> that disarms it when the tree is empty
  is not reached, because \<open>remove\<close> passes the null pointer as the prior top.
\<close>

theorem timer_remove_last_keeps_armed:
  "tc_tree c = new_node d \<Longrightarrow> timer_remove d c = c\<lparr>tc_tree := HNull\<rparr>"
  by (simp add: timer_remove_def heap_remove_def new_node_def updateSoonestTime_def)

theorem timer_remove_last_keeps_armed_witness:
  "tc_armed (timer_remove timer_a (timer_add timer_a new_container)) = Some (5, 7) \<and>
   tc_tree (timer_remove timer_a (timer_add timer_a new_container)) = HNull"
proof -
  have "tc_tree (timer_add timer_a new_container) = new_node timer_a"
    by (simp add: timer_add_def new_container_def heap_push_def)
  from timer_remove_last_keeps_armed [OF this] show ?thesis
    by (simp add: timer_add_def new_container_def heap_push_def new_node_def updateSoonestTime_def
        getFutureTime_def timer_a_def)
qed

text \<open>
  The expiry time \<open>start\<close> computes is the clock reading plus the delay, with nanoseconds
  below one second, so it is a time the ranking is exact for.
\<close>

theorem future_time_exact:
  assumes "0 \<le> snd now" and "snd now < 10 ^ 9" and "0 \<le> ms"
  shows "fst (future_time now ms) * 10 ^ 9 + snd (future_time now ms) =
           fst now * 10 ^ 9 + snd now + ms * 10 ^ 6 \<and>
         0 \<le> snd (future_time now ms) \<and> snd (future_time now ms) < 10 ^ 9"
proof -
  define q r where "q = ms div 1000" and "r = ms mod 1000"
  have ms: "ms = 1000 * q + r" "0 \<le> r" "r < 1000" by (simp_all add: q_def r_def)
  define ns where "ns = snd now + r * 1000000"
  have ns: "ns = 1000000000 * (ns div 1000000000) + ns mod 1000000000" "0 \<le> ns"
    using assms ms by (simp_all add: ns_def)
  have "future_time now ms =
    (if ns \<ge> 1000000000 then (fst now + q + ns div 1000000000, ns mod 1000000000) else (fst now + q, ns))"
    by (simp add: future_time_def Let_def q_def r_def ns_def)
  then show ?thesis using ns ms(1) by (auto simp: ns_def)
qed

theorem future_time_exact_witness: "future_time (10, 999999999) 1500 = (12, 499999999)"
  using future_time_exact [of "(10, 999999999)" 1500] by (simp add: future_time_def)

end
