(* ===== verification/Linked_List.thy ===== *)
theory Linked_List
  imports Ipa_Prelude "HOL-Library.Monad_Syntax"
begin

text \<open>
  The doubly linked list of the location stack (\<open>gps/utils/linked_list.c\<close>), with its pointers. A
  list owns its elements: \<open>ll_cells\<close> maps the addresses of the allocated elements to their
  contents, \<open>free\<close> takes an address out, and following a pointer to an address that is not in the
  map is the result \<open>None\<close> of the operation. The flag of an operation that allocates says whether
  there is memory. Data and deallocation functions are opaque numbers; the calls of the latter
  are the list \<open>ll_dealloced\<close>.
\<close>

section \<open>Operations\<close>

datatype linked_list_err_type = eLINKED_LIST_SUCCESS | eLINKED_LIST_FAILURE_GENERAL | eLINKED_LIST_INVALID_PARAMETER
  | eLINKED_LIST_INVALID_HANDLE | eLINKED_LIST_UNAVAILABLE_RESOURCE | eLINKED_LIST_INSUFFICIENT_BUFFER | eLINKED_LIST_EMPTY

record list_element =
  le_next :: "nat option"
  le_prev :: "nat option"
  data_ptr :: nat
  dealloc_func :: "nat option"

record list_state =
  ll_cells :: "nat \<rightharpoonup> list_element"
  p_head :: "nat option"
  p_tail :: "nat option"
  ll_fresh :: nat
  ll_dealloced :: "(nat \<times> nat) list"

definition new_list_state :: list_state where
  "new_list_state = \<lparr>ll_cells = Map.empty, p_head = None, p_tail = None, ll_fresh = 0, ll_dealloced = []\<rparr>"

text \<open>
  A list handle is \<open>None\<close> for the null pointer; \<open>has_ptr\<close> says that the caller gave a place for it.
\<close>

definition linked_list_init :: "bool \<Rightarrow> bool \<Rightarrow> linked_list_err_type \<times> list_state option" where
  "linked_list_init has_ptr mem = (if \<not> has_ptr then (eLINKED_LIST_INVALID_PARAMETER, None)
     else if mem then (eLINKED_LIST_SUCCESS, Some new_list_state) else (eLINKED_LIST_FAILURE_GENERAL, None))"

text \<open>A write through a pointer.\<close>

definition cell_write :: "nat \<Rightarrow> (list_element \<Rightarrow> list_element) \<Rightarrow> list_state \<Rightarrow> list_state option" where
  "cell_write a f s = do { c \<leftarrow> ll_cells s a; Some (s\<lparr>ll_cells := (ll_cells s)(a \<mapsto> f c)\<rparr>) }"

definition cell_free :: "nat \<Rightarrow> list_state \<Rightarrow> list_state" where
  "cell_free a s = s\<lparr>ll_cells := (ll_cells s)(a := None)\<rparr>"

definition linked_list_add :: "bool \<Rightarrow> list_state option \<Rightarrow> nat option \<Rightarrow> nat option \<Rightarrow> (linked_list_err_type \<times> list_state option) option" where
  "linked_list_add mem l d f = (case l of
      None \<Rightarrow> Some (eLINKED_LIST_INVALID_HANDLE, l)
    | Some s \<Rightarrow> (case d of
        None \<Rightarrow> Some (eLINKED_LIST_INVALID_PARAMETER, l)
      | Some x \<Rightarrow>
          if \<not> mem then Some (eLINKED_LIST_FAILURE_GENERAL, l)
          else do {
            let a = ll_fresh s;
            let tmp = p_head s;
            let s1 = s\<lparr>ll_cells := (ll_cells s)(a \<mapsto> \<lparr>le_next = tmp, le_prev = None, data_ptr = x, dealloc_func = f\<rparr>),
                       ll_fresh := Suc a, p_head := Some a\<rparr>;
            s2 \<leftarrow> (case tmp of
                Some t \<Rightarrow> cell_write t (\<lambda>c. c\<lparr>le_prev := Some a\<rparr>) s1
              | None \<Rightarrow> Some (s1\<lparr>p_tail := Some a\<rparr>));
            Some (eLINKED_LIST_SUCCESS, Some s2)
          }))"

text \<open>The second result is what is written to \<open>*data_obj\<close>, if anything.\<close>

definition linked_list_remove :: "list_state option \<Rightarrow> bool \<Rightarrow> (linked_list_err_type \<times> nat option \<times> list_state option) option" where
  "linked_list_remove l has_obj = (case l of
      None \<Rightarrow> Some (eLINKED_LIST_INVALID_HANDLE, None, l)
    | Some s \<Rightarrow>
        if \<not> has_obj then Some (eLINKED_LIST_INVALID_PARAMETER, None, l)
        else (case p_tail s of
            None \<Rightarrow> Some (eLINKED_LIST_UNAVAILABLE_RESOURCE, None, l)
          | Some t \<Rightarrow> do {
              c \<leftarrow> ll_cells s t;
              let s1 = s\<lparr>p_tail := le_prev c\<rparr>;
              s2 \<leftarrow> (case le_prev c of
                  Some p \<Rightarrow> cell_write p (\<lambda>e. e\<lparr>le_next := None\<rparr>) s1
                | None \<Rightarrow> Some (s1\<lparr>p_head := None\<rparr>));
              c2 \<leftarrow> ll_cells s2 t;
              Some (eLINKED_LIST_SUCCESS, Some (data_ptr c2), Some (cell_free t s2))
            }))"

text \<open>The result is an \<open>int\<close>: the code of an invalid handle is not 0.\<close>

definition linked_list_empty :: "list_state option \<Rightarrow> int" where
  "linked_list_empty l = (case l of None \<Rightarrow> -3 | Some s \<Rightarrow> if p_head s = None then 1 else 0)"

definition call_dealloc :: "list_element \<Rightarrow> list_state \<Rightarrow> list_state" where
  "call_dealloc c s = (case dealloc_func c of None \<Rightarrow> s | Some f \<Rightarrow> s\<lparr>ll_dealloced := ll_dealloced s @ [(f, data_ptr c)]\<rparr>)"

partial_function (option) flush_loop :: "list_state \<Rightarrow> list_state option" where
  "flush_loop s = (case p_head s of
      None \<Rightarrow> Some s
    | Some a \<Rightarrow> (case ll_cells s a of
        None \<Rightarrow> None
      | Some c \<Rightarrow> flush_loop ((cell_free a (call_dealloc c s))\<lparr>p_head := le_next c\<rparr>)))"

definition linked_list_flush :: "list_state option \<Rightarrow> (linked_list_err_type \<times> list_state option) option" where
  "linked_list_flush l = (case l of
      None \<Rightarrow> Some (eLINKED_LIST_INVALID_HANDLE, l)
    | Some s \<Rightarrow> do { s1 \<leftarrow> flush_loop s; Some (eLINKED_LIST_SUCCESS, Some (s1\<lparr>p_tail := None\<rparr>)) })"

text \<open>\<open>linked_list_destroy\<close> sets the handle to null; what the list called on the way is kept.\<close>

definition linked_list_destroy :: "list_state option \<Rightarrow> (linked_list_err_type \<times> (nat \<times> nat) list) option" where
  "linked_list_destroy l = (case l of None \<Rightarrow> Some (eLINKED_LIST_SUCCESS, [])
     | Some s \<Rightarrow> do { s1 \<leftarrow> flush_loop s; Some (eLINKED_LIST_SUCCESS, ll_dealloced s1) })"

definition unlink_cell :: "nat \<Rightarrow> bool \<Rightarrow> list_state \<Rightarrow> list_state option" where
  "unlink_cell t want s = do {
     c \<leftarrow> ll_cells s t;
     s1 \<leftarrow> (case le_prev c of None \<Rightarrow> Some (s\<lparr>p_head := le_next c\<rparr>)
                           | Some p \<Rightarrow> cell_write p (\<lambda>e. e\<lparr>le_next := le_next c\<rparr>) s);
     c1 \<leftarrow> ll_cells s1 t;
     s2 \<leftarrow> (case le_next c1 of None \<Rightarrow> Some (s1\<lparr>p_tail := le_prev c1\<rparr>)
                            | Some n \<Rightarrow> cell_write n (\<lambda>e. e\<lparr>le_prev := le_prev c1\<rparr>) s1);
     s3 \<leftarrow> cell_write t (\<lambda>e. e\<lparr>le_prev := None, le_next := None\<rparr>) s2;
     Some (cell_free t (if want then s3 else call_dealloc c s3))
   }"

partial_function (option) ll_search_loop :: "(nat \<Rightarrow> bool) \<Rightarrow> bool \<Rightarrow> bool \<Rightarrow> nat option \<Rightarrow> list_state \<Rightarrow> (nat option \<times> list_state) option" where
  "ll_search_loop eq want rm tmp s = (case tmp of
      None \<Rightarrow> Some (None, s)
    | Some t \<Rightarrow> (case ll_cells s t of
        None \<Rightarrow> None
      | Some c \<Rightarrow>
          if eq (data_ptr c)
          then (if rm then map_option (\<lambda>s1. (Some (data_ptr c), s1)) (unlink_cell t want s)
                else Some (Some (data_ptr c), s))
          else ll_search_loop eq want rm (le_next c) s))"

text \<open>
  \<open>want\<close> says that the caller passed a place for the data, \<open>eq\<close> is the comparison with the data it
  looks for. The outer option of the second result is \<open>None\<close> when nothing is written there.
\<close>

definition linked_list_search :: "list_state option \<Rightarrow> bool \<Rightarrow> (nat \<Rightarrow> bool) option \<Rightarrow> bool
    \<Rightarrow> (linked_list_err_type \<times> nat option option \<times> list_state option) option" where
  "linked_list_search l want eq rm = (case (l, eq) of
      (Some s, Some e) \<Rightarrow>
        if p_tail s = None then Some (eLINKED_LIST_UNAVAILABLE_RESOURCE, None, l)
        else do {
          (r, s1) \<leftarrow> ll_search_loop e want rm (p_head s) s;
          Some (eLINKED_LIST_SUCCESS, if want then Some r else None, Some s1)
        }
    | _ \<Rightarrow> Some (eLINKED_LIST_INVALID_HANDLE, None, l))"

section \<open>Well linked lists\<close>

text \<open>\<open>dseg h p b xs l q\<close>: the elements \<open>xs\<close> from \<open>p\<close> to \<open>q\<close>, \<open>b\<close> before the first, \<open>l\<close> the last one.\<close>

fun dseg :: "(nat \<rightharpoonup> list_element) \<Rightarrow> nat option \<Rightarrow> nat option \<Rightarrow> nat list \<Rightarrow> nat option \<Rightarrow> nat option \<Rightarrow> bool" where
  "dseg h p b [] l q \<longleftrightarrow> p = q \<and> l = b"
| "dseg h p b (a # as) l q \<longleftrightarrow> p = Some a \<and> (\<exists>c. h a = Some c \<and> le_prev c = b \<and> dseg h (le_next c) (Some a) as l q)"

lemma dseg_append: "dseg h p b (xs @ ys) l q \<longleftrightarrow> (\<exists>m r. dseg h p b xs m r \<and> dseg h r m ys l q)"
  by (induction xs arbitrary: p b) auto

lemma dseg_cong: "(\<And>a. a \<in> set xs \<Longrightarrow> h a = h' a) \<Longrightarrow> dseg h p b xs l q = dseg h' p b xs l q"
  by (induction xs arbitrary: p b) auto

lemma dseg_upd [simp]: "a \<notin> set xs \<Longrightarrow> dseg (h(a := v)) p b xs l q = dseg h p b xs l q"
  by (rule dseg_cong) auto

lemma dseg_alloc: "dseg h p b xs l q \<Longrightarrow> a \<in> set xs \<Longrightarrow> \<exists>c. h a = Some c"
  by (induction xs arbitrary: p b) auto

text \<open>The list holds the elements \<open>xs\<close>, no others are allocated.\<close>

definition dll :: "list_state \<Rightarrow> nat list \<Rightarrow> bool" where
  "dll s xs \<longleftrightarrow> dseg (ll_cells s) (p_head s) None xs (p_tail s) None \<and> distinct xs \<and> dom (ll_cells s) = set xs
     \<and> (\<forall>a \<in> set xs. a < ll_fresh s)"

definition item :: "list_state \<Rightarrow> nat \<Rightarrow> nat \<times> nat option" where
  "item s a = (data_ptr (the (ll_cells s a)), dealloc_func (the (ll_cells s a)))"

text \<open>What a list holds, seen from its tail: the element added first comes first.\<close>

definition holds_items :: "list_state \<Rightarrow> (nat \<times> nat option) list \<Rightarrow> bool" where
  "holds_items s ms \<longleftrightarrow> (\<exists>xs. dll s xs \<and> ms = rev (map (item s) xs))"

lemma new_list_holds: "holds_items new_list_state []"
  by (simp add: holds_items_def dll_def new_list_state_def)

lemma add_cons:
  assumes d: "dll s xs"
  shows "\<exists>s'. linked_list_add True (Some s) (Some x) f = Some (eLINKED_LIST_SUCCESS, Some s') \<and> dll s' (ll_fresh s # xs)
    \<and> map (item s') (ll_fresh s # xs) = (x, f) # map (item s) xs \<and> ll_dealloced s' = ll_dealloced s"
proof -
  let ?a = "ll_fresh s"
  have a: "?a \<notin> set xs" "ll_cells s ?a = None" using d by (auto simp: dll_def)
  show ?thesis
  proof (cases xs)
    case Nil
    with d have "p_head s = None" by (simp add: dll_def)
    let ?s = "s\<lparr>ll_cells := [?a \<mapsto> \<lparr>le_next = None, le_prev = None, data_ptr = x, dealloc_func = f\<rparr>],
      ll_fresh := Suc ?a, p_head := Some ?a, p_tail := Some ?a\<rparr>"
    have "ll_cells s = Map.empty" using d Nil by (simp add: dll_def)
    with \<open>p_head s = None\<close> Nil show ?thesis
      by (intro exI [of _ ?s]) (simp add: linked_list_add_def dll_def item_def Let_def)
  next
    case (Cons t ys)
    with d obtain c where c: "ll_cells s t = Some c" "p_head s = Some t" "le_prev c = None"
      "dseg (ll_cells s) (le_next c) (Some t) ys (p_tail s) None" by (auto simp: dll_def)
    have t: "t \<noteq> ?a" "t \<notin> set ys" "?a \<notin> set ys" using d a Cons by (auto simp: dll_def)
    let ?s = "s\<lparr>ll_cells := (ll_cells s)(?a \<mapsto> \<lparr>le_next = Some t, le_prev = None, data_ptr = x, dealloc_func = f\<rparr>,
      t \<mapsto> c\<lparr>le_prev := Some ?a\<rparr>), ll_fresh := Suc ?a, p_head := Some ?a\<rparr>"
    have "linked_list_add True (Some s) (Some x) f = Some (eLINKED_LIST_SUCCESS, Some ?s)"
      using c t by (simp add: linked_list_add_def cell_write_def Let_def)
    moreover have "dll ?s (?a # xs)"
      using d c t a Cons by (auto simp: dll_def)
    moreover have "map (item ?s) (?a # xs) = (x, f) # map (item s) xs"
      using c t a Cons by (auto simp: item_def)
    ultimately show ?thesis by (intro exI [of _ ?s]) simp
  qed
qed

lemma remove_last:
  assumes d: "dll s (xs @ [t])"
  shows "\<exists>s'. linked_list_remove (Some s) True = Some (eLINKED_LIST_SUCCESS, Some (fst (item s t)), Some s') \<and> dll s' xs
    \<and> map (item s') xs = map (item s) xs \<and> ll_dealloced s' = ll_dealloced s"
proof -
  have t: "t \<notin> set xs" "distinct xs" using d by (auto simp: dll_def)
  obtain m c where c: "ll_cells s t = Some c" "le_prev c = m" "le_next c = None" "p_tail s = Some t"
    and seg: "dseg (ll_cells s) (p_head s) None xs m (Some t)"
    using d by (auto simp: dll_def dseg_append)
  show ?thesis
  proof (cases xs rule: rev_cases)
    case Nil
    have "(ll_cells s)(t := None) = Map.empty"
      using d Nil by (auto simp: dll_def fun_eq_iff domIff)
    with seg c d Nil show ?thesis
      by (simp add: linked_list_remove_def cell_free_def dll_def item_def)
  next
    case (snoc ys p)
    with seg obtain cp where p: "ll_cells s p = Some cp" "m = Some p" "le_next cp = Some t"
      "dseg (ll_cells s) (p_head s) None ys (le_prev cp) (Some p)" by (auto simp: dseg_append)
    have ne: "p \<noteq> t" "p \<notin> set ys" "t \<notin> set ys" using t snoc by auto
    let ?s = "s\<lparr>p_tail := Some p, ll_cells := (ll_cells s)(p \<mapsto> cp\<lparr>le_next := None\<rparr>, t := None)\<rparr>"
    have "linked_list_remove (Some s) True = Some (eLINKED_LIST_SUCCESS, Some (fst (item s t)), Some ?s)"
      using c p ne by (simp add: linked_list_remove_def cell_write_def cell_free_def item_def)
    moreover have "dll ?s xs"
      using d p ne snoc by (auto simp: dll_def dseg_append)
    moreover have "map (item ?s) xs = map (item s) xs"
      using p ne t snoc by (auto simp: item_def)
    ultimately show ?thesis by (intro exI [of _ ?s]) simp
  qed
qed

section \<open>Flushing\<close>

definition dealloc_calls :: "(nat \<times> nat option) list \<Rightarrow> (nat \<times> nat) list" where
  "dealloc_calls ms = concat (map (\<lambda>(x, f). case f of None \<Rightarrow> [] | Some g \<Rightarrow> [(g, x)]) ms)"

lemma dealloc_calls_simps [simp]: "dealloc_calls [] = []" "dealloc_calls (ms @ ns) = dealloc_calls ms @ dealloc_calls ns"
  "dealloc_calls ((x, None) # ms) = dealloc_calls ms" "dealloc_calls ((x, Some g) # ms) = (g, x) # dealloc_calls ms"
  by (simp_all add: dealloc_calls_def)

lemma flush_all:
  assumes "dseg (ll_cells s) (p_head s) b xs l None" "distinct xs" "dom (ll_cells s) = set xs"
  shows "\<exists>s'. flush_loop s = Some s' \<and> ll_cells s' = Map.empty \<and> p_head s' = None \<and> ll_fresh s' = ll_fresh s
    \<and> ll_dealloced s' = ll_dealloced s @ dealloc_calls (map (item s) xs)"
  using assms
proof (induction xs arbitrary: s b)
  case Nil
  then show ?case by (subst flush_loop.simps) simp
next
  case (Cons a xs)
  then obtain c where c: "p_head s = Some a" "ll_cells s a = Some c" "dseg (ll_cells s) (le_next c) (Some a) xs l None" by auto
  let ?s = "(cell_free a (call_dealloc c s))\<lparr>p_head := le_next c\<rparr>"
  have cells: "ll_cells ?s = (ll_cells s)(a := None)" "p_head ?s = le_next c" "ll_fresh ?s = ll_fresh s"
    by (simp_all add: cell_free_def call_dealloc_def split: option.split)
  have "dseg (ll_cells ?s) (p_head ?s) (Some a) xs l None" "distinct xs" "dom (ll_cells ?s) = set xs"
    using Cons.prems c(3) cells by auto
  from Cons.IH [OF this] obtain s' where s': "flush_loop ?s = Some s'" "ll_cells s' = Map.empty" "p_head s' = None"
    "ll_fresh s' = ll_fresh ?s" "ll_dealloced s' = ll_dealloced ?s @ dealloc_calls (map (item ?s) xs)" by blast
  have eq: "map (item ?s) xs = map (item s) xs"
    using Cons.prems(2) cells by (auto simp: item_def)
  have dl: "ll_dealloced ?s = ll_dealloced s @ dealloc_calls [item s a]"
    using c(2) by (auto simp: cell_free_def call_dealloc_def item_def split: option.split)
  have "ll_dealloced s' = ll_dealloced s @ dealloc_calls ([item s a] @ map (item s) xs)"
    by (simp only: s'(5) eq dl dealloc_calls_simps append_assoc)
  moreover have "flush_loop s = Some s'"
    using s'(1) c by (subst flush_loop.simps) simp
  ultimately show ?case using s' cells by auto
qed

lemma flush_holds:
  assumes "holds_items s ms"
  shows "\<exists>s'. linked_list_flush (Some s) = Some (eLINKED_LIST_SUCCESS, Some s') \<and> holds_items s' []
    \<and> ll_dealloced s' = ll_dealloced s @ dealloc_calls (rev ms)"
proof -
  obtain xs where xs: "dll s xs" "ms = rev (map (item s) xs)" using assms by (auto simp: holds_items_def)
  then obtain s' where "flush_loop s = Some s'" "ll_cells s' = Map.empty" "p_head s' = None"
    "ll_dealloced s' = ll_dealloced s @ dealloc_calls (map (item s) xs)"
    using flush_all [of s None xs "p_tail s"] by (auto simp: dll_def)
  then show ?thesis
    using xs(2) by (auto simp: linked_list_flush_def holds_items_def dll_def rev_map)
qed

section \<open>Searching\<close>

lemma unlink_cell_ok:
  assumes d: "dll s (ys @ t # zs)"
  shows "\<exists>s'. unlink_cell t want s = Some s' \<and> dll s' (ys @ zs)
    \<and> map (item s') (ys @ zs) = map (item s) (ys @ zs)
    \<and> ll_dealloced s' = ll_dealloced s @ (if want then [] else dealloc_calls [item s t])"
proof -
  obtain m c where c: "ll_cells s t = Some c" "le_prev c = m"
    and sy: "dseg (ll_cells s) (p_head s) None ys m (Some t)"
    and sz: "dseg (ll_cells s) (le_next c) (Some t) zs (p_tail s) None"
    using d by (auto simp: dll_def dseg_append)
  have dist: "t \<notin> set ys" "t \<notin> set zs" "distinct ys" "distinct zs" "set ys \<inter> set zs = {}"
    and dom: "dom (ll_cells s) = insert t (set ys \<union> set zs)" and fr: "\<forall>a \<in> set (ys @ zs). a < ll_fresh s"
    using d by (auto simp: dll_def)
  have final: "\<exists>s'. unlink_cell t want s = Some s' \<and> dll s' (ys @ zs)
    \<and> map (item s') (ys @ zs) = map (item s) (ys @ zs)
    \<and> ll_dealloced s' = ll_dealloced s @ (if want then [] else dealloc_calls [item s t])"
    if run: "unlink_cell t want s = Some (cell_free t (if want then s3 else call_dealloc c s3))"
      and seg: "dseg (ll_cells s3) (p_head s3) None (ys @ zs) (p_tail s3) None"
      and dm: "dom (ll_cells s3) = insert t (set ys \<union> set zs)"
      and same: "\<forall>a \<in> set (ys @ zs). item s3 a = item s a" "ll_fresh s3 = ll_fresh s" "ll_dealloced s3 = ll_dealloced s"
    for s3
  proof -
    let ?s = "cell_free t (if want then s3 else call_dealloc c s3)"
    have cells: "ll_cells ?s = (ll_cells s3)(t := None)" "p_head ?s = p_head s3" "p_tail ?s = p_tail s3" "ll_fresh ?s = ll_fresh s"
      using same by (simp_all add: cell_free_def call_dealloc_def split: option.split)
    have "dll ?s (ys @ zs)"
      using seg dist fr dm by (auto simp: dll_def cells)
    moreover have "map (item ?s) (ys @ zs) = map (item s) (ys @ zs)"
      using same dist cells by (auto simp: item_def)
    moreover have "ll_dealloced ?s = ll_dealloced s @ (if want then [] else dealloc_calls [item s t])"
      using c same by (auto simp: cell_free_def call_dealloc_def item_def split: option.split)
    ultimately show ?thesis using run by blast
  qed
  show ?thesis
  proof (cases ys rule: rev_cases)
    case Nil
    show ?thesis
    proof (cases zs)
      case z: Nil
      let ?s3 = "s\<lparr>p_head := None, p_tail := None, ll_cells := (ll_cells s)(t \<mapsto> c\<lparr>le_prev := None, le_next := None\<rparr>)\<rparr>"
      show ?thesis
        by (rule final [of ?s3])
          (use c sy sz Nil z dom in \<open>auto simp: unlink_cell_def cell_write_def\<close>)
    next
      case z: (Cons n zs')
      with sz obtain cn where n: "ll_cells s n = Some cn" "le_next c = Some n" "dseg (ll_cells s) (le_next cn) (Some n) zs' (p_tail s) None" by auto
      let ?s3 = "s\<lparr>p_head := Some n, ll_cells := (ll_cells s)(n \<mapsto> cn\<lparr>le_prev := None\<rparr>, t \<mapsto> c\<lparr>le_prev := None, le_next := None\<rparr>)\<rparr>"
      show ?thesis
        by (rule final [of ?s3])
          (use c sy n Nil z dom dist in \<open>auto simp: unlink_cell_def cell_write_def item_def\<close>)
    qed
  next
    case y: (snoc ys' p)
    with sy obtain cp where p: "ll_cells s p = Some cp" "m = Some p" "le_next cp = Some t"
      "dseg (ll_cells s) (p_head s) None ys' (le_prev cp) (Some p)" by (auto simp: dseg_append)
    show ?thesis
    proof (cases zs)
      case z: Nil
      let ?s3 = "s\<lparr>p_tail := Some p, ll_cells := (ll_cells s)(p \<mapsto> cp\<lparr>le_next := None\<rparr>, t \<mapsto> c\<lparr>le_prev := None, le_next := None\<rparr>)\<rparr>"
      show ?thesis
        by (rule final [of ?s3])
          (use c p sz y z dom dist in \<open>auto simp: unlink_cell_def cell_write_def item_def dseg_append\<close>)
    next
      case z: (Cons n zs')
      with sz obtain cn where n: "ll_cells s n = Some cn" "le_next c = Some n" "dseg (ll_cells s) (le_next cn) (Some n) zs' (p_tail s) None" by auto
      let ?s3 = "s\<lparr>ll_cells := (ll_cells s)(p \<mapsto> cp\<lparr>le_next := Some n\<rparr>, n \<mapsto> cn\<lparr>le_prev := Some p\<rparr>,
         t \<mapsto> c\<lparr>le_prev := None, le_next := None\<rparr>)\<rparr>"
      show ?thesis
        by (rule final [of ?s3])
          (use c p n y z dom dist in \<open>auto simp: unlink_cell_def cell_write_def item_def dseg_append\<close>)
    qed
  qed
qed

text \<open>The loop of the search stops at the first element from the head whose data match.\<close>

lemma search_none:
  "dseg (ll_cells s) p b xs l None \<Longrightarrow> \<forall>a \<in> set xs. \<not> eq (fst (item s a)) \<Longrightarrow>
   ll_search_loop eq want rm p s = Some (None, s)"
proof (induction xs arbitrary: p b)
  case Nil
  then show ?case by (subst ll_search_loop.simps) simp
next
  case (Cons a xs)
  then show ?case by (subst ll_search_loop.simps) (auto simp: item_def)
qed

lemma search_found:
  "dseg (ll_cells s) p b (ys @ t # zs) l None \<Longrightarrow> \<forall>a \<in> set ys. \<not> eq (fst (item s a)) \<Longrightarrow> eq (fst (item s t)) \<Longrightarrow>
   ll_search_loop eq want rm p s = (if rm then map_option (\<lambda>s1. (Some (fst (item s t)), s1)) (unlink_cell t want s)
     else Some (Some (fst (item s t)), s))"
proof (induction ys arbitrary: p b)
  case Nil
  then show ?case by (subst ll_search_loop.simps) (auto simp: item_def)
next
  case (Cons a ys)
  then show ?case by (subst ll_search_loop.simps) (auto simp: item_def)
qed

text \<open>
  The search on the contents: among the elements that match it takes the one added last.
\<close>

definition split_last :: "(nat \<Rightarrow> bool) \<Rightarrow> (nat \<times> nat option) list
    \<Rightarrow> ((nat \<times> nat option) list \<times> (nat \<times> nat option) \<times> (nat \<times> nat option) list) option" where
  "split_last eq ms = map_option (\<lambda>(ys, m, zs). (rev zs, m, rev ys)) (List.extract (\<lambda>(x, f). eq x) (rev ms))"

text \<open>
  \<open>linked_list_search\<close> on a well linked list finds, among the elements that match, the one that
  was added last, or answers with the null pointer. It follows no bad pointer and returns. With
  \<open>rm_if_found\<close> exactly that element is unlinked, the rest keeps its order, and its data is handed
  to the deallocation function exactly when the caller does not take it.
\<close>

theorem search_holds:
  assumes h: "holds_items s ms" and ne: "ms \<noteq> []"
  shows "case split_last eq ms of
      None \<Rightarrow> linked_list_search (Some s) want (Some eq) rm
         = Some (eLINKED_LIST_SUCCESS, if want then Some None else None, Some s)
    | Some (before, (x, f), after) \<Rightarrow> \<exists>s'. linked_list_search (Some s) want (Some eq) rm
         = Some (eLINKED_LIST_SUCCESS, if want then Some (Some x) else None, Some s')
       \<and> holds_items s' (if rm then before @ after else ms)
       \<and> ll_dealloced s' = ll_dealloced s @ (if rm \<and> \<not> want then dealloc_calls [(x, f)] else [])"
proof -
  obtain xs where xs: "dll s xs" "rev ms = map (item s) xs" using h by (auto simp: holds_items_def)
  have ms: "ms = rev (map (item s) xs)" using xs(2) by (metis rev_rev_ident)
  have seg: "dseg (ll_cells s) (p_head s) None xs (p_tail s) None" using xs by (simp add: dll_def)
  have tail: "p_tail s \<noteq> None"
    using seg ne ms by (cases xs rule: rev_cases) (auto simp: dseg_append)
  show ?thesis
  proof (cases "List.extract (\<lambda>(x, f). eq x) (rev ms)")
    case None
    then have "\<forall>a \<in> set xs. \<not> eq (fst (item s a))"
      by (auto simp: extract_None_iff xs(2) case_prod_unfold)
    from search_none [of s "p_head s" None xs "p_tail s" eq want rm, OF seg this] tail None show ?thesis
      by (simp add: split_last_def linked_list_search_def)
  next
    case (Some r)
    obtain us m vs where r: "r = (us, m, vs)" by (cases r)
    then have split: "rev ms = us @ m # vs" "eq (fst m)" "\<forall>y \<in> set us. \<not> eq (fst y)"
      using Some by (auto simp: extract_Some_iff case_prod_unfold)
    then obtain ys t zs where xyz: "xs = ys @ t # zs" "us = map (item s) ys" "m = item s t" "vs = map (item s) zs"
      using xs(2) by (auto simp: map_eq_append_conv)
    obtain s1 where s1: "unlink_cell t want s = Some s1" "dll s1 (ys @ zs)"
      "map (item s1) (ys @ zs) = map (item s) (ys @ zs)"
      "ll_dealloced s1 = ll_dealloced s @ (if want then [] else dealloc_calls [item s t])"
      using unlink_cell_ok [OF xs(1) [unfolded xyz(1)], of want] by blast
    have "ll_search_loop eq want rm (p_head s) s = Some (Some (fst m), if rm then s1 else s)"
      using search_found [OF seg [unfolded xyz(1)], of eq want rm] split xyz s1(1) by simp
    then have run: "linked_list_search (Some s) want (Some eq) rm
      = Some (eLINKED_LIST_SUCCESS, if want then Some (Some (fst m)) else None, Some (if rm then s1 else s))"
      using tail by (simp add: linked_list_search_def)
    have "rev vs @ rev us = rev (map (item s1) (ys @ zs))"
      unfolding s1(3) by (simp add: xyz rev_map)
    then have "holds_items s1 (rev vs @ rev us)"
      using s1(2) unfolding holds_items_def by blast
    then show ?thesis
      using run h s1(4) by (cases m) (auto simp: split_last_def Some r xyz(3))
  qed
qed

lemma search_holds_witness:
  "\<exists>s s'. linked_list_search (Some s) True (Some (\<lambda>x. 3 < x)) True = Some (eLINKED_LIST_SUCCESS, Some (Some 8), Some s')
    \<and> holds_items s' [(7, None), (2, Some 1)]"
proof -
  let ?s = "\<lparr>ll_cells = [0 \<mapsto> \<lparr>le_next = None, le_prev = Some 1, data_ptr = 7, dealloc_func = None\<rparr>,
      1 \<mapsto> \<lparr>le_next = Some 0, le_prev = Some 2, data_ptr = 8, dealloc_func = None\<rparr>,
      2 \<mapsto> \<lparr>le_next = Some 1, le_prev = None, data_ptr = 2, dealloc_func = Some 1\<rparr>],
    p_head = Some 2, p_tail = Some 0, ll_fresh = 3, ll_dealloced = []\<rparr>"
  have "dll ?s [2, 1, 0]" by (auto simp: dll_def)
  then have "holds_items ?s (rev (map (item ?s) [2, 1, 0]))" unfolding holds_items_def by blast
  then have "holds_items ?s [(7, None), (8, None), (2, Some 1)]" by (simp add: item_def)
  from search_holds [OF this, where eq = "\<lambda>x. 3 < x" and want = True and rm = True] show ?thesis
    by (auto simp: split_last_def extract_Cons_code extract_Nil_code)
qed

section \<open>The list as a queue\<close>

lemma add_holds:
  assumes "holds_items s ms"
  shows "\<exists>s'. linked_list_add True (Some s) (Some x) f = Some (eLINKED_LIST_SUCCESS, Some s') \<and> holds_items s' (ms @ [(x, f)])
    \<and> ll_dealloced s' = ll_dealloced s"
proof -
  obtain xs where xs: "dll s xs" "ms = rev (map (item s) xs)" using assms by (auto simp: holds_items_def)
  from add_cons [OF xs(1), of x f] obtain s' where s': "linked_list_add True (Some s) (Some x) f = Some (eLINKED_LIST_SUCCESS, Some s')"
    "dll s' (ll_fresh s # xs)" "map (item s') (ll_fresh s # xs) = (x, f) # map (item s) xs" "ll_dealloced s' = ll_dealloced s"
    by (elim exE conjE) (rule that)
  have "ms @ [(x, f)] = rev (map (item s') (ll_fresh s # xs))" unfolding s'(3) by (simp add: xs(2))
  with s' show ?thesis unfolding holds_items_def by (intro exI [of _ s'] conjI exI [of _ "ll_fresh s # xs"])
qed

lemma remove_holds:
  assumes "holds_items s ((x, f) # ms)"
  shows "\<exists>s'. linked_list_remove (Some s) True = Some (eLINKED_LIST_SUCCESS, Some x, Some s') \<and> holds_items s' ms
    \<and> ll_dealloced s' = ll_dealloced s"
proof -
  obtain xs where xs: "dll s xs" "(x, f) # ms = rev (map (item s) xs)" using assms by (auto simp: holds_items_def)
  then obtain ys t where yt: "xs = ys @ [t]" by (cases xs rule: rev_cases) auto
  with xs(2) have m: "item s t = (x, f)" "ms = rev (map (item s) ys)" by auto
  from remove_last [OF xs(1) [unfolded yt]] m(1) obtain s' where
    "linked_list_remove (Some s) True = Some (eLINKED_LIST_SUCCESS, Some x, Some s')" "dll s' ys"
    "map (item s') ys = map (item s) ys" "ll_dealloced s' = ll_dealloced s" by (auto simp del: map_eq_conv)
  with m(2) show ?thesis unfolding holds_items_def by (intro exI [of _ s'] conjI exI [of _ ys]) simp_all
qed

lemma remove_none:
  assumes "holds_items s []"
  shows "linked_list_remove (Some s) True = Some (eLINKED_LIST_UNAVAILABLE_RESOURCE, None, Some s)"
  using assms by (auto simp: holds_items_def dll_def linked_list_remove_def)

lemma empty_holds: "holds_items s ms \<Longrightarrow> linked_list_empty (Some s) = (if ms = [] then 1 else 0)"
proof -
  assume "holds_items s ms"
  then obtain xs where "dll s xs" "ms = rev (map (item s) xs)" by (auto simp: holds_items_def)
  then show ?thesis by (cases xs) (simp_all add: dll_def linked_list_empty_def)
qed

end
