(* ===== verification/Msg_Q.thy ===== *)
theory Msg_Q
  imports Linked_List "HOL-Library.Multiset" "HOL-Library.Sublist"
begin

text \<open>
  The blocking message queue of the location stack (\<open>gps/utils/msg_q.c\<close>) over the linked list, and
  the task whose thread empties it (\<open>MsgTask.cpp\<close>, run by \<open>LocThread.cpp\<close>). Every operation of the
  queue runs under its mutex and is one step; a receiver that finds the queue empty sleeps on the
  condition variable. \<open>pthread_cond_signal\<close> takes one of the sleepers, which one is an argument;
  a signalled receiver goes on in a step of its own, other steps may come first. The handle of the
  queue is not null here; the first check of every operation, for a null handle, is left out.
\<close>

section \<open>The queue\<close>

datatype msq_q_err_type = eMSG_Q_SUCCESS | eMSG_Q_FAILURE_GENERAL | eMSG_Q_INVALID_PARAMETER | eMSG_Q_INVALID_HANDLE
  | eMSG_Q_UNAVAILABLE_RESOURCE | eMSG_Q_INSUFFICIENT_BUFFER

fun convert_linked_list_err_type :: "linked_list_err_type \<Rightarrow> msq_q_err_type" where
  "convert_linked_list_err_type eLINKED_LIST_SUCCESS = eMSG_Q_SUCCESS"
| "convert_linked_list_err_type eLINKED_LIST_INVALID_PARAMETER = eMSG_Q_INVALID_PARAMETER"
| "convert_linked_list_err_type eLINKED_LIST_INVALID_HANDLE = eMSG_Q_INVALID_HANDLE"
| "convert_linked_list_err_type eLINKED_LIST_UNAVAILABLE_RESOURCE = eMSG_Q_UNAVAILABLE_RESOURCE"
| "convert_linked_list_err_type eLINKED_LIST_INSUFFICIENT_BUFFER = eMSG_Q_INSUFFICIENT_BUFFER"
| "convert_linked_list_err_type _ = eMSG_Q_FAILURE_GENERAL"

text \<open>
  The queue with the threads that use it: those that sleep in \<open>pthread_cond_wait\<close>, those that were
  woken and have not yet got the mutex, and what the calls returned: \<open>snd_log\<close> the messages with
  the result of \<open>msg_q_snd\<close>, \<open>rcv_log\<close> the threads with the result of \<open>msg_q_rcv\<close> and the message.
\<close>

record msg_q =
  msg_list :: "list_state option"
  unblocked :: bool
  sleeping :: "nat list"
  woken :: "nat list"
  snd_log :: "(nat \<times> msq_q_err_type) list"
  rcv_log :: "(nat \<times> msq_q_err_type \<times> nat option) list"

text \<open>
  The flags: memory for the queue, for its list, and the mutex and condition variable.
  \<open>linked_list_destroy\<close> on the error paths leaves nothing behind.
\<close>

definition msg_q_init :: "bool \<Rightarrow> bool \<Rightarrow> bool \<Rightarrow> bool \<Rightarrow> bool \<Rightarrow> msq_q_err_type \<times> msg_q option" where
  "msg_q_init has_ptr mem mem_list mutex_ok cond_ok =
     (if \<not> has_ptr then (eMSG_Q_INVALID_PARAMETER, None)
      else if \<not> mem then (eMSG_Q_FAILURE_GENERAL, None)
      else if fst (linked_list_init True mem_list) \<noteq> eLINKED_LIST_SUCCESS then (eMSG_Q_FAILURE_GENERAL, None)
      else if \<not> mutex_ok then (eMSG_Q_FAILURE_GENERAL, None)
      else if \<not> cond_ok then (eMSG_Q_FAILURE_GENERAL, None)
      else (eMSG_Q_SUCCESS, Some \<lparr>msg_list = snd (linked_list_init True mem_list), unblocked = False, sleeping = [], woken = [],
              snd_log = [], rcv_log = []\<rparr>))"

definition msg_q_init2 :: "bool \<Rightarrow> bool \<Rightarrow> bool \<Rightarrow> bool \<Rightarrow> msg_q option" where
  "msg_q_init2 mem mem_list mutex_ok cond_ok =
     (let (r, q) = msg_q_init True mem mem_list mutex_ok cond_ok in if r \<noteq> eMSG_Q_SUCCESS then None else q)"

text \<open>\<open>pthread_cond_signal\<close> and \<open>pthread_cond_broadcast\<close>.\<close>

definition cond_signal :: "nat \<Rightarrow> msg_q \<Rightarrow> msg_q" where
  "cond_signal k q = (if sleeping q = [] then q
     else let i = k mod length (sleeping q)
          in q\<lparr>sleeping := take i (sleeping q) @ drop (Suc i) (sleeping q), woken := woken q @ [sleeping q ! i]\<rparr>)"

definition cond_broadcast :: "msg_q \<Rightarrow> msg_q" where
  "cond_broadcast q = q\<lparr>sleeping := [], woken := woken q @ sleeping q\<rparr>"

definition msg_q_snd :: "bool \<Rightarrow> nat \<Rightarrow> nat option \<Rightarrow> nat option \<Rightarrow> msg_q \<Rightarrow> (msq_q_err_type \<times> msg_q) option" where
  "msg_q_snd mem k obj dealloc q = (case obj of
      None \<Rightarrow> Some (eMSG_Q_INVALID_PARAMETER, q)
    | Some m \<Rightarrow>
        if unblocked q then Some (eMSG_Q_UNAVAILABLE_RESOURCE, q\<lparr>snd_log := snd_log q @ [(m, eMSG_Q_UNAVAILABLE_RESOURCE)]\<rparr>)
        else do {
          (e, l) \<leftarrow> linked_list_add mem (msg_list q) (Some m) dealloc;
          let rv = convert_linked_list_err_type e;
          Some (rv, cond_signal k (q\<lparr>msg_list := l, snd_log := snd_log q @ [(m, rv)]\<rparr>))
        })"

text \<open>
  \<open>msg_q_rcv\<close> up to the first wait, and after a wait: both decide whether to sleep, and take a
  message or the error of the list when not.
\<close>

definition rcv_wait_or_take :: "nat \<Rightarrow> msg_q \<Rightarrow> msg_q option" where
  "rcv_wait_or_take t q =
     (if linked_list_empty (msg_list q) \<noteq> 0 \<and> \<not> unblocked q then Some (q\<lparr>sleeping := sleeping q @ [t]\<rparr>)
      else do {
        (e, x, l) \<leftarrow> linked_list_remove (msg_list q) True;
        Some (q\<lparr>msg_list := l, rcv_log := rcv_log q @ [(t, convert_linked_list_err_type e, x)]\<rparr>)
      })"

definition msg_q_rcv :: "nat \<Rightarrow> msg_q \<Rightarrow> msg_q option" where
  "msg_q_rcv t q =
     (if unblocked q then Some (q\<lparr>rcv_log := rcv_log q @ [(t, eMSG_Q_UNAVAILABLE_RESOURCE, None)]\<rparr>)
      else rcv_wait_or_take t q)"

text \<open>A woken thread has the mutex again; nothing happens for a thread that was not woken.\<close>

definition rcv_resume :: "nat \<Rightarrow> msg_q \<Rightarrow> msg_q option" where
  "rcv_resume t q = (if t \<in> set (woken q) then rcv_wait_or_take t (q\<lparr>woken := remove1 t (woken q)\<rparr>) else Some q)"

text \<open>\<open>msg_q_rmv\<close> returns a code of the list when the queue is empty.\<close>

definition msg_q_rmv :: "msg_q \<Rightarrow> ((msq_q_err_type + linked_list_err_type) \<times> nat option \<times> msg_q) option" where
  "msg_q_rmv q =
     (if unblocked q then Some (Inl eMSG_Q_UNAVAILABLE_RESOURCE, None, q)
      else if linked_list_empty (msg_list q) \<noteq> 0 then Some (Inr eLINKED_LIST_EMPTY, None, q)
      else do {
        (e, x, l) \<leftarrow> linked_list_remove (msg_list q) True;
        Some (Inl (convert_linked_list_err_type e), x, q\<lparr>msg_list := l\<rparr>)
      })"

definition msg_q_flush :: "msg_q \<Rightarrow> (msq_q_err_type \<times> msg_q) option" where
  "msg_q_flush q = do {
     (e, l) \<leftarrow> linked_list_flush (msg_list q);
     Some (convert_linked_list_err_type e, q\<lparr>msg_list := l\<rparr>)
   }"

definition msg_q_unblock :: "msg_q \<Rightarrow> msq_q_err_type \<times> msg_q" where
  "msg_q_unblock q = (if unblocked q then (eMSG_Q_UNAVAILABLE_RESOURCE, q)
     else (eMSG_Q_SUCCESS, cond_broadcast (q\<lparr>unblocked := True\<rparr>)))"

text \<open>\<open>msg_q_destroy\<close>: the calls of the deallocation functions are what is left of the list.\<close>

definition msg_q_destroy :: "msg_q \<Rightarrow> (msq_q_err_type \<times> (nat \<times> nat) list) option" where
  "msg_q_destroy q = do { (e, ds) \<leftarrow> linked_list_destroy (msg_list q); Some (eMSG_Q_SUCCESS, ds) }"

section \<open>Runs of the queue\<close>

datatype mq_event =
    Snd bool nat nat nat     \<comment> \<open>memory, choice of the sleeper, message, deallocation function\<close>
  | Rcv nat | Resume nat | Wake_Up nat   \<comment> \<open>threads; \<open>Wake_Up\<close> is a wake-up without a signal\<close>
  | Rmv nat | Flush | Unblock

fun mq_step :: "mq_event \<Rightarrow> msg_q \<Rightarrow> msg_q option" where
  "mq_step (Snd mem k m f) q = map_option snd (msg_q_snd mem k (Some m) (Some f) q)"
| "mq_step (Rcv t) q = msg_q_rcv t q"
| "mq_step (Resume t) q = rcv_resume t q"
| "mq_step (Wake_Up t) q = (if t \<in> set (sleeping q)
     then Some (q\<lparr>sleeping := remove1 t (sleeping q), woken := woken q @ [t]\<rparr>) else Some q)"
| "mq_step (Rmv t) q = map_option (\<lambda>(r, x, q'). case r of Inl e \<Rightarrow> q'\<lparr>rcv_log := rcv_log q' @ [(t, e, x)]\<rparr> | Inr _ \<Rightarrow> q')
     (msg_q_rmv q)"
| "mq_step Flush q = map_option snd (msg_q_flush q)"
| "mq_step Unblock q = Some (snd (msg_q_unblock q))"

fun mq_run :: "mq_event list \<Rightarrow> msg_q \<Rightarrow> msg_q option" where
  "mq_run [] q = Some q"
| "mq_run (e # es) q = do { q1 \<leftarrow> mq_step e q; mq_run es q1 }"

definition new_msg_q :: msg_q where
  "new_msg_q = the (msg_q_init2 True True True True)"

section \<open>The task\<close>

text \<open>
  \<open>MsgTask\<close> has one thread (number 0), which calls \<open>run\<close> until it returns false. \<open>mt_done\<close> is the
  list of messages that \<open>run\<close> has processed and deleted; a message the queue drops is deleted by
  \<open>LocMsgDestroy\<close> (number 0), which the queue logs. \<open>mt_running\<close>: the thread is in its loop;
  \<open>mt_waiting\<close>: it is inside \<open>msg_q_rcv\<close>.
\<close>

record msg_task =
  mt_q :: msg_q
  mt_done :: "nat list"
  mt_running :: bool
  mt_waiting :: bool

definition LocMsgDestroy :: nat where "LocMsgDestroy = 0"

definition new_MsgTask :: msg_task where
  "new_MsgTask = \<lparr>mt_q = new_msg_q, mt_done = [], mt_running = True, mt_waiting = False\<rparr>"

definition sendMsg :: "bool \<Rightarrow> nat option \<Rightarrow> msg_task \<Rightarrow> msg_task option" where
  "sendMsg mem msg s = (case msg of None \<Rightarrow> Some s
     | Some m \<Rightarrow> do { (r, q) \<leftarrow> msg_q_snd mem 0 (Some m) (Some LocMsgDestroy) (mt_q s); Some (s\<lparr>mt_q := q\<rparr>) })"

text \<open>What \<open>run\<close> does with the answer of \<open>msg_q_rcv\<close>, when the call has returned (its log has grown).\<close>

definition run_answer :: "msg_q \<Rightarrow> msg_q \<Rightarrow> msg_task \<Rightarrow> msg_task" where
  "run_answer q q' s = (if length (rcv_log q') = length (rcv_log q) then s\<lparr>mt_q := q', mt_waiting := True\<rparr>
     else case last (rcv_log q') of
        (t, eMSG_Q_SUCCESS, Some m) \<Rightarrow> s\<lparr>mt_q := q', mt_waiting := False, mt_done := mt_done s @ [m]\<rparr>
      | _ \<Rightarrow> s\<lparr>mt_q := q', mt_waiting := False, mt_running := False\<rparr>)"

definition MTRunnable_run :: "msg_task \<Rightarrow> msg_task option" where
  "MTRunnable_run s = (if \<not> mt_running s then Some s
     else do {
       q \<leftarrow> (if mt_waiting s then rcv_resume 0 (mt_q s) else msg_q_rcv 0 (mt_q s));
       Some (if mt_waiting s \<and> 0 \<notin> set (woken (mt_q s)) then s else run_answer (mt_q s) q s)
     })"

definition MTRunnable_interrupt :: "msg_task \<Rightarrow> msg_task" where
  "MTRunnable_interrupt s = s\<lparr>mt_q := snd (msg_q_unblock (mt_q s))\<rparr>"

datatype mt_event = SendMsg bool "nat option" | Run | Interrupt

fun mt_step :: "mt_event \<Rightarrow> msg_task \<Rightarrow> msg_task option" where
  "mt_step (SendMsg mem m) s = sendMsg mem m s"
| "mt_step Run s = MTRunnable_run s"
| "mt_step Interrupt s = Some (MTRunnable_interrupt s)"

fun mt_run :: "mt_event list \<Rightarrow> msg_task \<Rightarrow> msg_task option" where
  "mt_run [] s = Some s"
| "mt_run (e # es) s = do { s1 \<leftarrow> mt_step e s; mt_run es s1 }"

text \<open>The destructor of the runnable: the messages the queue still deletes.\<close>

definition MTRunnable_destroy :: "msg_task \<Rightarrow> (nat \<times> nat) list option" where
  "MTRunnable_destroy s = do {
     (r, q) \<leftarrow> msg_q_flush (mt_q s);
     (r2, ds) \<leftarrow> msg_q_destroy q;
     Some ds
   }"

section \<open>What becomes of a message\<close>

definition accepted_of :: "(nat \<times> msq_q_err_type) list \<Rightarrow> nat list" where
  "accepted_of l = map fst (filter (\<lambda>(m, e). e = eMSG_Q_SUCCESS) l)"

definition delivered_of :: "(nat \<times> msq_q_err_type \<times> nat option) list \<Rightarrow> nat list" where
  "delivered_of l = concat (map (\<lambda>(t, e, x). if e = eMSG_Q_SUCCESS then (case x of None \<Rightarrow> [] | Some m \<Rightarrow> [m]) else []) l)"

lemma log_simps [simp]:
  "accepted_of [] = []" "accepted_of (l @ [(m, e)]) = accepted_of l @ (if e = eMSG_Q_SUCCESS then [m] else [])"
  "delivered_of [] = []" "delivered_of (k @ [(t, e, x)]) = delivered_of k @ (if e = eMSG_Q_SUCCESS then (case x of None \<Rightarrow> [] | Some m \<Rightarrow> [m]) else [])"
  by (simp_all add: accepted_of_def delivered_of_def)

definition accepted :: "msg_q \<Rightarrow> nat list" where "accepted q = accepted_of (snd_log q)"
definition delivered :: "msg_q \<Rightarrow> nat list" where "delivered q = delivered_of (rcv_log q)"
definition dropped :: "msg_q \<Rightarrow> nat list" where "dropped q = map snd (ll_dealloced (the (msg_list q)))"

text \<open>\<open>mq_inv q ms\<close>: the queue holds the messages \<open>ms\<close>, first in first.\<close>

definition mq_inv :: "msg_q \<Rightarrow> (nat \<times> nat option) list \<Rightarrow> bool" where
  "mq_inv q ms \<longleftrightarrow> (\<exists>s. msg_list q = Some s \<and> holds_items s ms) \<and> (\<forall>(m, f) \<in> set ms. f \<noteq> None)
     \<and> mset (accepted q) = mset (delivered q) + mset (map fst ms) + mset (dropped q)
     \<and> subseq (delivered q @ map fst ms) (accepted q)
     \<and> (sleeping q \<noteq> [] \<longrightarrow> length ms \<le> length (woken q) \<and> \<not> unblocked q)"

lemmas mq_logs = accepted_def delivered_def dropped_def

lemma new_msg_q_inv: "mq_inv new_msg_q []"
  using new_list_holds
  by (simp add: mq_inv_def new_msg_q_def msg_q_init2_def msg_q_init_def linked_list_init_def mq_logs new_list_state_def)

lemma signal_simps [simp]:
  "msg_list (cond_signal k q) = msg_list q" "unblocked (cond_signal k q) = unblocked q"
  "snd_log (cond_signal k q) = snd_log q" "rcv_log (cond_signal k q) = rcv_log q"
  by (simp_all add: cond_signal_def Let_def)

lemma signal_count:
  "length (sleeping (cond_signal k q)) = length (sleeping q) - 1"
  "length (woken (cond_signal k q)) = length (woken q) + (if sleeping q = [] then 0 else 1)"
proof -
  show "length (sleeping (cond_signal k q)) = length (sleeping q) - 1"
  proof (cases "sleeping q = []")
    case False
    then have "k mod length (sleeping q) < length (sleeping q)" by simp
    then have "length (take (k mod length (sleeping q)) (sleeping q) @ drop (Suc (k mod length (sleeping q))) (sleeping q))
      = length (sleeping q) - 1" by (simp add: min_def)
    then show ?thesis using False by (simp add: cond_signal_def Let_def)
  qed (simp add: cond_signal_def)
  show "length (woken (cond_signal k q)) = length (woken q) + (if sleeping q = [] then 0 else 1)"
    by (simp add: cond_signal_def Let_def)
qed

lemma snd_inv:
  assumes inv: "mq_inv q ms"
  shows "\<exists>r q'. msg_q_snd mem k (Some m) (Some f) q = Some (r, q')
    \<and> mq_inv q' (if unblocked q \<or> \<not> mem then ms else ms @ [(m, Some f)])
    \<and> (r = eMSG_Q_SUCCESS \<longleftrightarrow> \<not> unblocked q \<and> mem) \<and> rcv_log q' = rcv_log q \<and> unblocked q' = unblocked q
    \<and> dropped q' = dropped q \<and> snd_log q' = snd_log q @ [(m, r)]"
proof -
  obtain s where s: "msg_list q = Some s" "holds_items s ms" using inv by (auto simp: mq_inv_def)
  show ?thesis
  proof (cases "unblocked q")
    case True
    then show ?thesis using inv s by (auto simp: msg_q_snd_def mq_inv_def mq_logs)
  next
    case nb: False
    show ?thesis
    proof (cases mem)
      case False
      let ?q = "q\<lparr>msg_list := Some s, snd_log := snd_log q @ [(m, eMSG_Q_FAILURE_GENERAL)]\<rparr>"
      have run: "msg_q_snd mem k (Some m) (Some f) q = Some (eMSG_Q_FAILURE_GENERAL, cond_signal k ?q)"
        using False nb s by (simp add: msg_q_snd_def linked_list_add_def)
      have "sleeping (cond_signal k ?q) \<noteq> [] \<Longrightarrow> length ms \<le> length (woken (cond_signal k ?q))"
        using inv signal_count [of k ?q] by (auto simp: mq_inv_def)
      then have "mq_inv (cond_signal k ?q) ms"
        using inv nb s by (auto simp: mq_inv_def mq_logs)
      then show ?thesis using run False nb s by (simp add: dropped_def)
    next
      case True
    from add_holds [OF s(2), of m "Some f"] obtain s' where s': "linked_list_add True (Some s) (Some m) (Some f) = Some (eLINKED_LIST_SUCCESS, Some s')"
      "holds_items s' (ms @ [(m, Some f)])" "ll_dealloced s' = ll_dealloced s" by (elim exE conjE) (rule that)
    let ?q = "q\<lparr>msg_list := Some s', snd_log := snd_log q @ [(m, eMSG_Q_SUCCESS)]\<rparr>"
    have run: "msg_q_snd mem k (Some m) (Some f) q = Some (eMSG_Q_SUCCESS, cond_signal k ?q)"
      using nb True s s'(1) by (simp add: msg_q_snd_def)
    have "subseq ((delivered q @ map fst ms) @ [m]) (accepted q @ [m])"
      unfolding subseq_append using inv by (simp only: mq_inv_def)
    moreover have "sleeping (cond_signal k ?q) \<noteq> [] \<Longrightarrow> length ms + 1 \<le> length (woken (cond_signal k ?q))"
      using inv signal_count [of k ?q] by (auto simp: mq_inv_def)
    ultimately have "mq_inv (cond_signal k ?q) (ms @ [(m, Some f)])"
      using inv s' nb by (auto simp: mq_inv_def mq_logs s(1))
    then show ?thesis using run True nb s s' by (simp add: dropped_def)
    qed
  qed
qed

text \<open>
  Taking a message from the list, by a thread that was woken or has just come: \<open>w\<close> is one if it
  was among the woken.
\<close>

lemma take_inv:
  assumes inv: "mq_inv (q\<lparr>woken := ws\<rparr>) ms" and w: "sleeping q \<noteq> [] \<Longrightarrow> ms \<noteq> [] \<Longrightarrow> length ms \<le> Suc (length (woken q))"
  shows "\<exists>q'. rcv_wait_or_take t q = Some q' \<and> mq_inv q' (tl ms) \<and> unblocked q' = unblocked q \<and> snd_log q' = snd_log q
    \<and> dropped q' = dropped q \<and> woken q' = woken q
    \<and> (if ms = [] \<and> \<not> unblocked q then rcv_log q' = rcv_log q \<and> sleeping q' = sleeping q @ [t]
       else sleeping q' = sleeping q \<and> rcv_log q' = rcv_log q @ [if ms = [] then (t, eMSG_Q_UNAVAILABLE_RESOURCE, None)
                                              else (t, eMSG_Q_SUCCESS, Some (fst (hd ms)))])"
proof -
  obtain s where s: "msg_list q = Some s" "holds_items s ms" using inv by (auto simp: mq_inv_def)
  note e = empty_holds [OF s(2)]
  show ?thesis
  proof (cases ms)
    case Nil
    note r = remove_none [OF s(2) [unfolded Nil]]
    show ?thesis
      using inv s e r Nil by (cases "unblocked q") (auto simp: rcv_wait_or_take_def mq_inv_def mq_logs)
  next
    case (Cons m ns)
    obtain x f where m: "m = (x, f)" by fastforce
    from remove_holds [OF s(2) [unfolded Cons m]] obtain s' where s': "linked_list_remove (Some s) True = Some (eLINKED_LIST_SUCCESS, Some x, Some s')"
      "holds_items s' ns" "ll_dealloced s' = ll_dealloced s" by (elim exE conjE) (rule that)
    let ?q = "q\<lparr>msg_list := Some s', rcv_log := rcv_log q @ [(t, eMSG_Q_SUCCESS, Some x)]\<rparr>"
    have run: "rcv_wait_or_take t q = Some ?q"
      using s e s'(1) Cons by (simp add: rcv_wait_or_take_def)
    have "mq_inv ?q ns"
      using inv s s' w Cons m by (auto simp: mq_inv_def mq_logs)
    then show ?thesis using run Cons m s s' by (simp add: dropped_def)
  qed
qed

lemma flush_inv:
  assumes inv: "mq_inv q ms"
  shows "\<exists>q'. msg_q_flush q = Some (eMSG_Q_SUCCESS, q') \<and> mq_inv q' [] \<and> rcv_log q' = rcv_log q \<and> snd_log q' = snd_log q"
proof -
  obtain s where s: "msg_list q = Some s" "holds_items s ms" using inv by (auto simp: mq_inv_def)
  from flush_holds [OF s(2)] obtain s' where s': "linked_list_flush (Some s) = Some (eLINKED_LIST_SUCCESS, Some s')" "holds_items s' []"
    "ll_dealloced s' = ll_dealloced s @ dealloc_calls (rev ms)" by (elim exE conjE) (rule that)
  have "map snd (dealloc_calls ns) = map fst ns" if "\<forall>(m, f) \<in> set ns. f \<noteq> None" for ns
    using that by (induction ns) auto
  then have "map snd (dealloc_calls (rev ms)) = rev (map fst ms)"
    using inv by (simp add: mq_inv_def rev_map)
  then have d: "mset (map snd (ll_dealloced s')) = mset (map snd (ll_dealloced s)) + mset (map fst ms)"
    unfolding s'(3) by (simp only: map_append mset_append) simp
  have "subseq (delivered q @ []) (delivered q @ map fst ms)" by (rule list_emb_append_mono) simp_all
  then have "subseq (delivered q) (delivered q @ map fst ms)" by simp
  then have "subseq (delivered q) (accepted q)"
    using inv unfolding mq_inv_def by (blast intro: subseq_order.order_trans)
  then have "mq_inv (q\<lparr>msg_list := Some s'\<rparr>) []"
    using inv s' s d by (auto simp: mq_inv_def mq_logs)
  then show ?thesis using s s' by (simp add: msg_q_flush_def)
qed

lemma unblock_inv: "mq_inv q ms \<Longrightarrow> mq_inv (snd (msg_q_unblock q)) ms"
  by (auto simp: msg_q_unblock_def cond_broadcast_def mq_inv_def mq_logs)

lemma rmv_inv:
  assumes inv: "mq_inv q ms"
  shows "\<exists>q' ns. mq_step (Rmv t) q = Some q' \<and> mq_inv q' ns"
proof (cases "unblocked q \<or> ms = []")
  case True
  obtain s where "msg_list q = Some s" "holds_items s ms" using inv by (auto simp: mq_inv_def)
  with True inv empty_holds [of s ms] show ?thesis by (auto simp: msg_q_rmv_def mq_inv_def mq_logs)
next
  case False
  obtain s where s: "msg_list q = Some s" "holds_items s ms" using inv by (auto simp: mq_inv_def)
  have w: "sleeping q \<noteq> [] \<Longrightarrow> ms \<noteq> [] \<Longrightarrow> length ms \<le> Suc (length (woken q))"
    using inv by (auto simp: mq_inv_def)
  have same: "mq_step (Rmv t) q = rcv_wait_or_take t q"
    using False s empty_holds [OF s(2)] by (auto simp: msg_q_rmv_def rcv_wait_or_take_def split: bind_splits)
  have "q\<lparr>woken := woken q\<rparr> = q" by (cases q) simp
  with inv have "mq_inv (q\<lparr>woken := woken q\<rparr>) ms" by simp
  from take_inv [OF this w] show ?thesis unfolding same by blast
qed

lemma mq_step_inv:
  assumes inv: "mq_inv q ms"
  shows "\<exists>q' ns. mq_step e q = Some q' \<and> mq_inv q' ns"
proof (cases e)
  case (Snd mem k m f)
  then show ?thesis using snd_inv [OF inv, of mem k m f] by auto
next
  case (Rcv t)
  have "sleeping q \<noteq> [] \<Longrightarrow> ms \<noteq> [] \<Longrightarrow> length ms \<le> Suc (length (woken q))" using inv by (auto simp: mq_inv_def)
  moreover have "q\<lparr>woken := woken q\<rparr> = q" by (cases q) simp
  with inv have "mq_inv (q\<lparr>woken := woken q\<rparr>) ms" by simp
  ultimately have "\<exists>q' ns. rcv_wait_or_take t q = Some q' \<and> mq_inv q' ns" using take_inv by blast
  then show ?thesis
    using inv Rcv by (cases "unblocked q") (auto simp: msg_q_rcv_def mq_inv_def mq_logs)
next
  case (Resume t)
  show ?thesis
  proof (cases "t \<in> set (woken q)")
    case True
    let ?q = "q\<lparr>woken := remove1 t (woken q)\<rparr>"
    have "Suc (length (remove1 t (woken q))) = length (woken q)"
      using True length_pos_if_in_set [OF True] by (simp add: length_remove1)
    then have w: "sleeping ?q \<noteq> [] \<Longrightarrow> ms \<noteq> [] \<Longrightarrow> length ms \<le> Suc (length (woken ?q))"
      using inv by (auto simp: mq_inv_def)
    have "?q\<lparr>woken := woken q\<rparr> = q" by (cases q) simp
    with inv have "mq_inv (?q\<lparr>woken := woken q\<rparr>) ms" by simp
    from take_inv [OF this w] have "\<exists>q' ns. rcv_wait_or_take t ?q = Some q' \<and> mq_inv q' ns" by blast
    with True Resume show ?thesis by (simp add: rcv_resume_def)
  qed (use inv Resume in \<open>auto simp: rcv_resume_def\<close>)
next
  case (Wake_Up t)
  have "remove1 t (sleeping q) \<noteq> [] \<Longrightarrow> sleeping q \<noteq> []" by auto
  with Wake_Up inv show ?thesis by (auto simp: mq_inv_def mq_logs)
next
  case (Rmv t) then show ?thesis using rmv_inv [OF inv] by (simp del: mq_step.simps)
next
  case Flush then show ?thesis using flush_inv [OF inv] by auto
next
  case Unblock then show ?thesis using unblock_inv [OF inv] by auto
qed

lemma mq_run_inv: "mq_inv q ms \<Longrightarrow> \<exists>q' ns. mq_run es q = Some q' \<and> mq_inv q' ns"
proof (induction es arbitrary: q ms)
  case (Cons e es)
  then obtain q1 ns where "mq_step e q = Some q1" "mq_inv q1 ns" using mq_step_inv by blast
  with Cons.IH show ?case by auto
qed auto

section \<open>Properties of the queue\<close>

text \<open>
  C30: no sequence of sends, receives, removals, wake-ups, flushes and unblocking, whatever
  threads take part, follows a bad pointer. Every accepted message is at the end exactly once
  delivered, still in the queue, or deleted by a flush; messages are delivered in the order they
  were accepted; and while a receiver sleeps, at least as many receivers have been woken and not
  yet run as there are messages, and the queue has not been unblocked: no wake-up is lost.
\<close>

theorem msg_q_delivers:
  "\<exists>q s ms. mq_run es new_msg_q = Some q \<and> msg_list q = Some s \<and> holds_items s ms
    \<and> mset (accepted q) = mset (delivered q) + mset (map fst ms) + mset (dropped q)
    \<and> subseq (delivered q @ map fst ms) (accepted q)
    \<and> (sleeping q \<noteq> [] \<longrightarrow> length ms \<le> length (woken q) \<and> \<not> unblocked q)"
  using mq_run_inv [OF new_msg_q_inv, of es] by (auto simp: mq_inv_def)

lemma msg_q_delivers_witness:
  "\<exists>q. mq_run [Rcv 1, Rcv 2, Snd True 1 7 0, Snd True 0 8 0, Resume 2] new_msg_q = Some q
    \<and> mset (accepted q) = mset (delivered q) + mset [8] \<and> woken q = [1]"
proof -
  let ?es = "[Rcv 1, Rcv 2, Snd True 1 7 0, Snd True 0 8 0, Resume 2]"
  let ?f = "\<lambda>q. (accepted q, delivered q, dropped q, woken q)"
  have run: "map_option ?f (mq_run ?es new_msg_q) = Some ([7, 8], [7], [], [1])"
    by (simp add: new_msg_q_def msg_q_init2_def msg_q_init_def linked_list_init_def new_list_state_def msg_q_rcv_def
        rcv_wait_or_take_def linked_list_empty_def msg_q_snd_def linked_list_add_def cond_signal_def Let_def cell_write_def
        rcv_resume_def linked_list_remove_def cell_free_def mq_logs accepted_of_def delivered_of_def)
  from msg_q_delivers [of ?es] show ?thesis
  proof (elim exE conjE)
    fix q s ms
    assume q: "mq_run ?es new_msg_q = Some q" "mset (accepted q) = mset (delivered q) + mset (map fst ms) + mset (dropped q)"
    with run have "accepted q = [7, 8]" "delivered q = [7]" "dropped q = []" "woken q = [1]" by auto
    with q show ?thesis by (intro exI [of _ q] conjI) simp_all
  qed
qed

section \<open>Properties of the task\<close>

definition mt_inv :: "msg_task \<Rightarrow> (nat \<times> nat option) list \<Rightarrow> bool" where
  "mt_inv s ms \<longleftrightarrow> mq_inv (mt_q s) ms \<and> mt_done s = delivered (mt_q s) \<and> dropped (mt_q s) = []
     \<and> (\<forall>(m, f) \<in> set ms. f = Some LocMsgDestroy)"

lemma new_task_inv: "mt_inv new_MsgTask []"
  using new_msg_q_inv
  by (simp add: mt_inv_def new_MsgTask_def new_msg_q_def msg_q_init2_def msg_q_init_def linked_list_init_def mq_logs new_list_state_def)

lemma send_inv:
  assumes inv: "mt_inv s ms"
  shows "\<exists>s' r. sendMsg mem (Some m) s = Some s' \<and> mt_inv s' (if unblocked (mt_q s) \<or> \<not> mem then ms else ms @ [(m, Some LocMsgDestroy)])
    \<and> unblocked (mt_q s') = unblocked (mt_q s) \<and> snd_log (mt_q s') = snd_log (mt_q s) @ [(m, r)]
    \<and> (r = eMSG_Q_SUCCESS \<longrightarrow> \<not> unblocked (mt_q s))"
proof -
  have "mq_inv (mt_q s) ms" using inv by (simp add: mt_inv_def)
  from snd_inv [OF this, of mem 0 m LocMsgDestroy] obtain r q' where
    "msg_q_snd mem 0 (Some m) (Some LocMsgDestroy) (mt_q s) = Some (r, q')"
    "mq_inv q' (if unblocked (mt_q s) \<or> \<not> mem then ms else ms @ [(m, Some LocMsgDestroy)])"
    "(r = eMSG_Q_SUCCESS) = (\<not> unblocked (mt_q s) \<and> mem)" "rcv_log q' = rcv_log (mt_q s)" "unblocked q' = unblocked (mt_q s)"
    "dropped q' = dropped (mt_q s)" "snd_log q' = snd_log (mt_q s) @ [(m, r)]"
    by (elim exE conjE) (rule that)
  then show ?thesis using inv by (auto simp: sendMsg_def mt_inv_def delivered_def)
qed

lemma answer_inv:
  assumes inv: "mt_inv s ms" and take: "mq_inv q' (tl ms) \<and> unblocked q' = unblocked (mt_q s) \<and> snd_log q' = snd_log (mt_q s)
      \<and> dropped q' = dropped (mt_q s)
      \<and> (if ms = [] \<and> \<not> unblocked (mt_q s) then rcv_log q' = rcv_log (mt_q s)
         else rcv_log q' = rcv_log (mt_q s) @ [if ms = [] then (0, eMSG_Q_UNAVAILABLE_RESOURCE, None)
                                               else (0, eMSG_Q_SUCCESS, Some (fst (hd ms)))])"
  shows "mt_inv (run_answer (mt_q s) q' s) (tl ms)"
proof -
  have "\<forall>(m, f) \<in> set (tl ms). f = Some LocMsgDestroy" using inv by (cases ms) (auto simp: mt_inv_def)
  then show ?thesis
    using inv take by (auto simp: mt_inv_def run_answer_def delivered_def split: if_splits)
qed

lemma run_inv:
  assumes inv: "mt_inv s ms"
  shows "\<exists>s' ns. MTRunnable_run s = Some s' \<and> mt_inv s' ns \<and> unblocked (mt_q s') = unblocked (mt_q s)
    \<and> snd_log (mt_q s') = snd_log (mt_q s)"
proof -
  let ?q = "mt_q s"
  have mq: "mq_inv ?q ms" using inv by (simp add: mt_inv_def)
  have same: "q\<lparr>woken := woken q\<rparr> = q" for q :: msg_q by (cases q) simp
  have ans: "mt_q (run_answer q q' s) = q'" for q q'
    by (auto simp: run_answer_def split: prod.split msq_q_err_type.split option.split)
  consider "\<not> mt_running s" | "mt_running s" "mt_waiting s" "0 \<notin> set (woken ?q)" | "mt_running s" "mt_waiting s" "0 \<in> set (woken ?q)"
    | "mt_running s" "\<not> mt_waiting s" "unblocked ?q" | "mt_running s" "\<not> mt_waiting s" "\<not> unblocked ?q" by blast
  then show ?thesis
  proof cases
    case 1 then show ?thesis using inv by (auto simp: MTRunnable_run_def)
  next
    case 2 then show ?thesis using inv by (auto simp: MTRunnable_run_def rcv_resume_def)
  next
    case 3
    let ?r = "?q\<lparr>woken := remove1 0 (woken ?q)\<rparr>"
    have "Suc (length (remove1 0 (woken ?q))) = length (woken ?q)"
      using 3 length_pos_if_in_set [OF 3(3)] by (simp add: length_remove1)
    then have w: "sleeping ?r \<noteq> [] \<Longrightarrow> ms \<noteq> [] \<Longrightarrow> length ms \<le> Suc (length (woken ?r))"
      using mq by (auto simp: mq_inv_def)
    have "mq_inv (?r\<lparr>woken := woken ?q\<rparr>) ms" using mq same [of ?q] by simp
    from take_inv [OF this w, of 0] obtain q' where q': "rcv_wait_or_take 0 ?r = Some q'" and
      t: "mq_inv q' (tl ms) \<and> unblocked q' = unblocked ?q \<and> snd_log q' = snd_log ?q \<and> dropped q' = dropped ?q
      \<and> (if ms = [] \<and> \<not> unblocked ?q then rcv_log q' = rcv_log ?q
         else rcv_log q' = rcv_log ?q @ [if ms = [] then (0, eMSG_Q_UNAVAILABLE_RESOURCE, None)
                                               else (0, eMSG_Q_SUCCESS, Some (fst (hd ms)))])"
      by (auto simp: dropped_def split: if_splits)
    then show ?thesis using answer_inv [OF inv t] 3 t by (auto simp: MTRunnable_run_def rcv_resume_def ans)
  next
    case 4
    let ?q' = "?q\<lparr>rcv_log := rcv_log ?q @ [(0, eMSG_Q_UNAVAILABLE_RESOURCE, None)]\<rparr>"
    have "mt_inv (run_answer ?q ?q' s) ms"
      using inv 4 by (auto simp: run_answer_def mt_inv_def mq_inv_def mq_logs)
    then show ?thesis using 4 by (auto simp: MTRunnable_run_def msg_q_rcv_def ans)
  next
    case 5
    have w: "sleeping ?q \<noteq> [] \<Longrightarrow> ms \<noteq> [] \<Longrightarrow> length ms \<le> Suc (length (woken ?q))" using mq by (auto simp: mq_inv_def)
    have "mq_inv (?q\<lparr>woken := woken ?q\<rparr>) ms" using mq same [of ?q] by simp
    from take_inv [OF this w, of 0] obtain q' where q': "rcv_wait_or_take 0 ?q = Some q'" and
      t: "mq_inv q' (tl ms) \<and> unblocked q' = unblocked ?q \<and> snd_log q' = snd_log ?q \<and> dropped q' = dropped ?q
      \<and> (if ms = [] \<and> \<not> unblocked ?q then rcv_log q' = rcv_log ?q
         else rcv_log q' = rcv_log ?q @ [if ms = [] then (0, eMSG_Q_UNAVAILABLE_RESOURCE, None)
                                               else (0, eMSG_Q_SUCCESS, Some (fst (hd ms)))])"
      by (auto split: if_splits)
    then show ?thesis using answer_inv [OF inv t] 5 t by (auto simp: MTRunnable_run_def msg_q_rcv_def ans)
  qed
qed

text \<open>What a step adds to the accepted messages; once unblocked, nothing.\<close>

fun sent_by :: "mt_event \<Rightarrow> nat set" where
  "sent_by (SendMsg mem (Some m)) = {m}"
| "sent_by _ = {}"

lemma mt_step_inv:
  assumes inv: "mt_inv s ms"
  shows "\<exists>s' ns. mt_step e s = Some s' \<and> mt_inv s' ns \<and> (unblocked (mt_q s) \<or> e = Interrupt \<longrightarrow> unblocked (mt_q s'))
    \<and> set (accepted (mt_q s')) \<subseteq> set (accepted (mt_q s)) \<union> (if unblocked (mt_q s) then {} else sent_by e)"
proof (cases e)
  case (SendMsg mem msg)
  show ?thesis
  proof (cases msg)
    case None
    then show ?thesis using SendMsg inv by (auto simp: sendMsg_def)
  next
    case (Some m)
    from send_inv [OF inv, of mem m] show ?thesis
      using SendMsg Some by (auto simp: accepted_def)
  qed
next
  case Run
  then show ?thesis using run_inv [OF inv] by (auto simp: accepted_def)
next
  case Interrupt
  have "mt_inv (MTRunnable_interrupt s) ms"
    using inv unblock_inv [of "mt_q s" ms]
    by (auto simp: mt_inv_def MTRunnable_interrupt_def msg_q_unblock_def cond_broadcast_def mq_logs)
  then show ?thesis
    using Interrupt by (auto simp: MTRunnable_interrupt_def msg_q_unblock_def cond_broadcast_def accepted_def)
qed

lemma mt_run_inv:
  "mt_inv s ms \<Longrightarrow> \<exists>s' ns. mt_run es s = Some s' \<and> mt_inv s' ns \<and> (unblocked (mt_q s) \<or> Interrupt \<in> set es \<longrightarrow> unblocked (mt_q s'))
    \<and> set (accepted (mt_q s')) \<subseteq> set (accepted (mt_q s)) \<union> (if unblocked (mt_q s) then {} else (\<Union>e \<in> set es. sent_by e))"
proof (induction es arbitrary: s ms)
  case (Cons e es)
  obtain s1 ns where s1: "mt_step e s = Some s1" "mt_inv s1 ns" "unblocked (mt_q s) \<or> e = Interrupt \<longrightarrow> unblocked (mt_q s1)"
    "set (accepted (mt_q s1)) \<subseteq> set (accepted (mt_q s)) \<union> (if unblocked (mt_q s) then {} else sent_by e)"
    using mt_step_inv [OF Cons.prems] by blast
  obtain s2 ns2 where s2: "mt_run es s1 = Some s2" "mt_inv s2 ns2" "unblocked (mt_q s1) \<or> Interrupt \<in> set es \<longrightarrow> unblocked (mt_q s2)"
    "set (accepted (mt_q s2)) \<subseteq> set (accepted (mt_q s1)) \<union> (if unblocked (mt_q s1) then {} else (\<Union>e \<in> set es. sent_by e))"
    using Cons.IH [OF s1(2)] by blast
  have "set (accepted (mt_q s2)) \<subseteq> set (accepted (mt_q s)) \<union> (if unblocked (mt_q s) then {} else (\<Union>e \<in> set (e # es). sent_by e))"
    using s1(3,4) s2(4) by (auto split: if_splits)
  then show ?case using s1 s2 by auto
qed auto

lemma destroy_task:
  assumes inv: "mt_inv s ms"
  shows "MTRunnable_destroy s = Some (rev (map (\<lambda>(m, f). (LocMsgDestroy, m)) ms))" "accepted (mt_q s) = mt_done s @ map fst ms"
proof -
  obtain l where l: "msg_list (mt_q s) = Some l" "holds_items l ms" "ll_dealloced l = []"
    using inv by (auto simp: mt_inv_def mq_inv_def dropped_def)
  from flush_holds [OF l(2)] obtain l' where l': "linked_list_flush (Some l) = Some (eLINKED_LIST_SUCCESS, Some l')" "holds_items l' []"
    "ll_dealloced l' = ll_dealloced l @ dealloc_calls (rev ms)" by (elim exE conjE) (rule that)
  have "p_head l' = None" using l'(2) by (auto simp: holds_items_def dll_def)
  then have "flush_loop l' = Some l'" by (subst flush_loop.simps) simp
  then have "MTRunnable_destroy s = Some (dealloc_calls (rev ms))"
    using l l' by (simp add: MTRunnable_destroy_def msg_q_flush_def msg_q_destroy_def linked_list_destroy_def)
  moreover have "dealloc_calls ns = map (\<lambda>(m, f). (LocMsgDestroy, m)) ns" if "\<forall>(m, f) \<in> set ns. f = Some LocMsgDestroy" for ns
    using that by (induction ns) auto
  ultimately show "MTRunnable_destroy s = Some (rev (map (\<lambda>(m, f). (LocMsgDestroy, m)) ms))"
    using inv by (simp add: mt_inv_def rev_map)
  have m: "mset (accepted (mt_q s)) = mset (mt_done s @ map fst ms)" "subseq (mt_done s @ map fst ms) (accepted (mt_q s))"
    using inv by (auto simp: mt_inv_def mq_inv_def)
  from m(1) have "length (mt_done s @ map fst ms) = length (accepted (mt_q s))" by (metis size_mset)
  with m(2) show "accepted (mt_q s) = mt_done s @ map fst ms" by (metis subseq_same_length)
qed

text \<open>
  C33: after any sequence of messages sent, steps of the thread and interruptions, the accepted
  messages are those the thread has processed and deleted, in the order they were sent, followed
  by those the destructor of the task deletes: each is deleted exactly once.
\<close>

theorem task_deletes_once:
  "\<exists>s ds. mt_run es new_MsgTask = Some s \<and> MTRunnable_destroy s = Some ds
    \<and> accepted (mt_q s) = mt_done s @ rev (map snd ds) \<and> fst ` set ds \<subseteq> {LocMsgDestroy}"
proof -
  obtain s ms where s: "mt_run es new_MsgTask = Some s" "mt_inv s ms" using mt_run_inv [OF new_task_inv] by blast
  have "rev (map snd (rev (map (\<lambda>(m, f). (LocMsgDestroy, m)) ms))) = map fst ms"
    by (simp add: rev_map comp_def case_prod_unfold)
  then show ?thesis using s destroy_task [OF s(2)] by auto
qed

text \<open>
  a message sent after the interruption is lost: \<open>sendMsg\<close> ignores that the queue has refused
  it, so that it is neither processed nor deleted, whatever happens later.
\<close>

theorem refused_message_leaks:
  assumes "Interrupt \<in> set es" "\<forall>mem. SendMsg mem (Some m) \<notin> set es"
  shows "\<exists>s ds. mt_run (es @ SendMsg mem (Some m) # es') new_MsgTask = Some s \<and> MTRunnable_destroy s = Some ds
    \<and> m \<notin> set (mt_done s) \<and> m \<notin> snd ` set ds"
proof -
  have app: "mt_run (xs @ ys) t = do { t1 \<leftarrow> mt_run xs t; mt_run ys t1 }" for xs ys t
    by (induction xs arbitrary: t) (simp_all split: bind_splits)
  obtain s1 ms where s1: "mt_run es new_MsgTask = Some s1" "mt_inv s1 ms" "unblocked (mt_q s1)"
    "set (accepted (mt_q s1)) \<subseteq> set (accepted (mt_q new_MsgTask)) \<union> (\<Union>e \<in> set es. sent_by e)"
    using mt_run_inv [OF new_task_inv, of es] assms(1) by (auto split: if_splits)
  obtain s ns where s: "mt_run (SendMsg mem (Some m) # es') s1 = Some s" "mt_inv s ns"
    "set (accepted (mt_q s)) \<subseteq> set (accepted (mt_q s1))"
    using mt_run_inv [OF s1(2), of "SendMsg mem (Some m) # es'"] s1(3) by auto
  have "accepted (mt_q new_MsgTask) = []"
    by (simp add: new_MsgTask_def new_msg_q_def msg_q_init2_def msg_q_init_def accepted_def linked_list_init_def)
  moreover have "m \<notin> sent_by e" if "e \<in> set es" for e
    using that assms(2) by (cases e rule: sent_by.cases) auto
  ultimately have "m \<notin> set (accepted (mt_q s))" using s(3) s1(4) by auto
  then have "m \<notin> set (mt_done s)" "m \<notin> fst ` set ns" by (simp_all add: destroy_task(2) [OF s(2)])
  then show ?thesis
    using s(1) s1(1) destroy_task(1) [OF s(2)] by (force simp: app)
qed

lemma refused_message_leaks_witness:
  "\<exists>s ds. mt_run [SendMsg True (Some 1), Interrupt, SendMsg True (Some 2), Run] new_MsgTask = Some s \<and> MTRunnable_destroy s = Some ds
    \<and> 2 \<notin> set (mt_done s) \<and> 2 \<notin> snd ` set ds"
  using refused_message_leaks [of "[SendMsg True (Some 1), Interrupt]" 2 True "[Run]"] by simp

end
