(* ===== verification/Agps.thy ===== *)
theory Agps
  imports Ipa_Prelude "HOL-Library.Monad_Syntax"
begin

text \<open>
  Assisted GPS needs a data connection of the phone. \<open>gps/gnss/Agps.cpp\<close> shares one connection
  among the requests of the modem: a state machine keeps a list of subscribers, asks the
  framework for the connection when the first subscriber arrives, tells all of them when it is up
  or has been refused, and releases it when the last one leaves. The manager holds two machines,
  one for SUPL and one for the internet connection.

  The list holds pointers to subscribers that \<open>addSubscriber\<close> clones; the pointer to the current
  subscriber aliases an element of it. Subscribers therefore live in a store \<open>sub_heap\<close>; reading
  through a pointer that is null or freed is the result \<open>None\<close>. What the machine sends (requests
  to the framework, open and close reports to the modem) is the log \<open>agps_log\<close>.
\<close>

section \<open>Data\<close>

type_synonym AGpsExtType = int
type_synonym AGpsBearerType = int
type_synonym LocApnTypeMask = u32

datatype AgpsState = AGPS_STATE_RELEASED | AGPS_STATE_PENDING | AGPS_STATE_ACQUIRED | AGPS_STATE_RELEASING

datatype AgpsEvent = AGPS_EVENT_SUBSCRIBE | AGPS_EVENT_UNSUBSCRIBE | AGPS_EVENT_GRANTED
  | AGPS_EVENT_RELEASED | AGPS_EVENT_DENIED

datatype AgpsNotificationType = FOR_ALL_SUBSCRIBERS | FOR_INACTIVE_SUBSCRIBERS | FOR_ACTIVE_SUBSCRIBERS

record AgpsSubscriber =
  mConnHandle :: int
  mWaitForCloseComplete :: bool
  mIsInactive :: bool
  sub_mApnTypeMask :: LocApnTypeMask

definition sub_equals :: "AgpsSubscriber \<Rightarrow> AgpsSubscriber \<Rightarrow> bool" where
  "sub_equals t s \<longleftrightarrow> mConnHandle t = mConnHandle s"

text \<open>What leaves the machine: a status to the framework, the two callbacks to the modem.\<close>

datatype agps_out =
    FrameworkStatus bool AGpsExtType LocApnTypeMask
  | AtlOpenStatus int int "string option" u32 AGpsBearerType AGpsExtType LocApnTypeMask
  | AtlCloseStatus int int

record agps_env =
  sub_heap :: "nat \<rightharpoonup> AgpsSubscriber"
  sub_fresh :: nat
  agps_log :: "agps_out list"

text \<open>
  The constructor leaves \<open>mApnTypeMask\<close> unwritten, so it is an option here. The list and the
  current subscriber are addresses of the store.
\<close>

record AgpsStateMachine =
  mSubscriberList :: "nat list"
  mCurrentSubscriber :: "nat option"
  mState :: AgpsState
  mAgpsType :: AGpsExtType
  mApnTypeMask :: "LocApnTypeMask option"
  mAPN :: "string option"
  mAPNLen :: u32
  mBearer :: AGpsBearerType

type_synonym sm_st = "agps_env \<times> AgpsStateMachine"

definition LOC_AGPS_TYPE_INVALID :: AGpsExtType where "LOC_AGPS_TYPE_INVALID = -1"
definition LOC_AGPS_TYPE_SUPL :: AGpsExtType where "LOC_AGPS_TYPE_SUPL = 1"
definition LOC_AGPS_TYPE_WWAN_ANY :: AGpsExtType where "LOC_AGPS_TYPE_WWAN_ANY = 3"
definition LOC_AGPS_TYPE_SUPL_ES :: AGpsExtType where "LOC_AGPS_TYPE_SUPL_ES = 5"
definition AGPS_APN_BEARER_INVALID :: AGpsBearerType where "AGPS_APN_BEARER_INVALID = 0"
definition LOC_APN_TYPE_MASK_SUPL :: LocApnTypeMask where "LOC_APN_TYPE_MASK_SUPL = 0x10"
definition LOC_APN_TYPE_MASK_EMERGENCY :: LocApnTypeMask where "LOC_APN_TYPE_MASK_EMERGENCY = 0x200"
definition AGPS_ATL_TYPE_SUPL :: u32 where "AGPS_ATL_TYPE_SUPL = 1"
definition AGPS_ATL_TYPE_SUPL_ES :: u32 where "AGPS_ATL_TYPE_SUPL_ES = 2"
definition AGPS_ATL_TYPE_WWAN :: u32 where "AGPS_ATL_TYPE_WWAN = 4"
definition LOC_GPS_CAPABILITY_MSB :: u32 where "LOC_GPS_CAPABILITY_MSB = 2"
definition LOC_GPS_CAPABILITY_MSA :: u32 where "LOC_GPS_CAPABILITY_MSA = 4"
definition MAX_APN_LEN :: u32 where "MAX_APN_LEN = 100"

definition new_AgpsStateMachine :: "AGpsExtType \<Rightarrow> AgpsStateMachine" where
  "new_AgpsStateMachine t =
     \<lparr>mSubscriberList = [], mCurrentSubscriber = None, mState = AGPS_STATE_RELEASED, mAgpsType = t,
      mApnTypeMask = None, mAPN = None, mAPNLen = 0, mBearer = AGPS_APN_BEARER_INVALID\<rparr>"

section \<open>The list of subscribers\<close>

definition new_subscriber :: "AgpsSubscriber \<Rightarrow> agps_env \<Rightarrow> nat \<times> agps_env" where
  "new_subscriber s e = (sub_fresh e, e\<lparr>sub_heap := (sub_heap e)(sub_fresh e \<mapsto> s), sub_fresh := Suc (sub_fresh e)\<rparr>)"

definition log_out :: "agps_out \<Rightarrow> agps_env \<Rightarrow> agps_env" where
  "log_out x e = e\<lparr>agps_log := agps_log e @ [x]\<rparr>"

text \<open>The search of \<open>addSubscriber\<close>: is there an element equal to the subscriber at \<open>p\<close>?\<close>

fun find_equal :: "(nat \<rightharpoonup> AgpsSubscriber) \<Rightarrow> nat \<Rightarrow> nat list \<Rightarrow> bool option" where
  "find_equal h p [] = Some False"
| "find_equal h p (a # as) = do {
     s \<leftarrow> h a;
     q \<leftarrow> h p;
     if sub_equals s q then Some True else find_equal h p as
   }"

definition addSubscriber :: "nat option \<Rightarrow> sm_st \<Rightarrow> sm_st option" where
  "addSubscriber cur st = (case st of (e, m) \<Rightarrow> do {
     p \<leftarrow> cur;
     dup \<leftarrow> find_equal (sub_heap e) p (mSubscriberList m);
     if dup then Some (e, m)
     else do {
       q \<leftarrow> sub_heap e p;
       let (c, e1) = new_subscriber q e;
       Some (e1, m\<lparr>mSubscriberList := mSubscriberList m @ [c]\<rparr>)
     }
   })"

text \<open>
  \<open>deleteSubscriber\<close> frees an equal element and goes on with the rest of the list, comparing
  with the subscriber it was given. When that subscriber is the element itself, the rest is
  compared with freed memory.
\<close>

fun delete_loop :: "nat \<Rightarrow> (nat \<rightharpoonup> AgpsSubscriber) \<Rightarrow> nat list \<Rightarrow> ((nat \<rightharpoonup> AgpsSubscriber) \<times> nat list) option" where
  "delete_loop p h [] = Some (h, [])"
| "delete_loop p h (a # as) = do {
     s \<leftarrow> h a;
     q \<leftarrow> h p;
     if sub_equals s q then delete_loop p (h(a := None)) as
     else do {
       (h1, l) \<leftarrow> delete_loop p h as;
       Some (h1, a # l)
     }
   }"

definition deleteSubscriber :: "nat \<Rightarrow> sm_st \<Rightarrow> sm_st option" where
  "deleteSubscriber p st = (case st of (e, m) \<Rightarrow> do {
     (h, l) \<leftarrow> delete_loop p (sub_heap e) (mSubscriberList m);
     Some (e\<lparr>sub_heap := h\<rparr>, m\<lparr>mSubscriberList := l\<rparr>)
   })"

fun any_active :: "(nat \<rightharpoonup> AgpsSubscriber) \<Rightarrow> nat list \<Rightarrow> bool option" where
  "any_active h [] = Some False"
| "any_active h (a # as) = do { s \<leftarrow> h a; if \<not> mIsInactive s then Some True else any_active h as }"

definition anyActiveSubscribers :: "sm_st \<Rightarrow> bool option" where
  "anyActiveSubscribers st = (case st of (e, m) \<Rightarrow> any_active (sub_heap e) (mSubscriberList m))"

fun find_handle :: "(nat \<rightharpoonup> AgpsSubscriber) \<Rightarrow> int \<Rightarrow> nat list \<Rightarrow> nat option option" where
  "find_handle h c [] = Some None"
| "find_handle h c (a # as) = do { s \<leftarrow> h a; if mConnHandle s = c then Some (Some a) else find_handle h c as }"

definition getSubscriber :: "int \<Rightarrow> sm_st \<Rightarrow> nat option option" where
  "getSubscriber c st = (case st of (e, m) \<Rightarrow> find_handle (sub_heap e) c (mSubscriberList m))"

fun free_all :: "(nat \<rightharpoonup> AgpsSubscriber) \<Rightarrow> nat list \<Rightarrow> (nat \<rightharpoonup> AgpsSubscriber) option" where
  "free_all h [] = Some h"
| "free_all h (a # as) = do { _ \<leftarrow> h a; free_all (h(a := None)) as }"

definition dropAllSubscribers :: "sm_st \<Rightarrow> sm_st option" where
  "dropAllSubscribers st = (case st of (e, m) \<Rightarrow> do {
     h \<leftarrow> free_all (sub_heap e) (mSubscriberList m);
     Some (e\<lparr>sub_heap := h\<rparr>, m\<lparr>mSubscriberList := []\<rparr>)
   })"

section \<open>Notifications and requests\<close>

definition transitionState :: "AgpsState \<Rightarrow> sm_st \<Rightarrow> sm_st" where
  "transitionState n st = (fst st, (snd st)\<lparr>mState := n\<rparr>)"

definition requestOrReleaseDataConn :: "bool \<Rightarrow> sm_st \<Rightarrow> sm_st option" where
  "requestOrReleaseDataConn req st = (case st of (e, m) \<Rightarrow> do {
     k \<leftarrow> mApnTypeMask m;
     Some (log_out (FrameworkStatus req (mAgpsType m) k) e, m)
   })"

text \<open>The message \<open>notifyEventToSubscriber\<close> sends for an event.\<close>

fun event_message :: "AgpsEvent \<Rightarrow> AgpsStateMachine \<Rightarrow> AgpsSubscriber \<Rightarrow> agps_env \<Rightarrow> agps_env option" where
  "event_message AGPS_EVENT_GRANTED m s e = do {
     k \<leftarrow> mApnTypeMask m;
     Some (log_out (AtlOpenStatus (mConnHandle s) 1 (mAPN m) (mAPNLen m) (mBearer m) (mAgpsType m) k) e)
   }"
| "event_message AGPS_EVENT_DENIED m s e = do {
     k \<leftarrow> mApnTypeMask m;
     Some (log_out (AtlOpenStatus (mConnHandle s) 0 (mAPN m) (mAPNLen m) (mBearer m) (mAgpsType m) k) e)
   }"
| "event_message AGPS_EVENT_UNSUBSCRIBE m s e = Some (log_out (AtlCloseStatus (mConnHandle s) 1) e)"
| "event_message AGPS_EVENT_RELEASED m s e = Some (log_out (AtlCloseStatus (mConnHandle s) 1) e)"
| "event_message AGPS_EVENT_SUBSCRIBE m s e = Some e"

definition notifyEventToSubscriber :: "AgpsEvent \<Rightarrow> nat option \<Rightarrow> bool \<Rightarrow> sm_st \<Rightarrow> sm_st option" where
  "notifyEventToSubscriber ev cur del st = (case st of (e, m) \<Rightarrow> do {
     p \<leftarrow> cur;
     s \<leftarrow> sub_heap e p;
     e1 \<leftarrow> event_message ev m s e;
     if del then deleteSubscriber p (e1, m) else Some (e1, m)
   })"

fun is_notified :: "AgpsNotificationType \<Rightarrow> AgpsSubscriber \<Rightarrow> bool" where
  "is_notified FOR_ALL_SUBSCRIBERS s \<longleftrightarrow> True"
| "is_notified FOR_INACTIVE_SUBSCRIBERS s \<longleftrightarrow> mIsInactive s"
| "is_notified FOR_ACTIVE_SUBSCRIBERS s \<longleftrightarrow> \<not> mIsInactive s"

text \<open>The loop over the list; the result is the new environment and what is left of the list.\<close>

fun notify_loop :: "AgpsEvent \<Rightarrow> bool \<Rightarrow> AgpsNotificationType \<Rightarrow> AgpsStateMachine \<Rightarrow> agps_env \<Rightarrow> nat list
    \<Rightarrow> (agps_env \<times> nat list) option" where
  "notify_loop ev del nt m e [] = Some (e, [])"
| "notify_loop ev del nt m e (a # as) = do {
     s \<leftarrow> sub_heap e a;
     if is_notified nt s then do {
       (e1, _) \<leftarrow> notifyEventToSubscriber ev (Some a) False (e, m);
       if del then notify_loop ev del nt m (e1\<lparr>sub_heap := (sub_heap e1)(a := None)\<rparr>) as
       else do { (e2, l) \<leftarrow> notify_loop ev del nt m e1 as; Some (e2, a # l) }
     }
     else do { (e2, l) \<leftarrow> notify_loop ev del nt m e as; Some (e2, a # l) }
   }"

definition notifyAllSubscribers :: "AgpsEvent \<Rightarrow> bool \<Rightarrow> AgpsNotificationType \<Rightarrow> sm_st \<Rightarrow> sm_st option" where
  "notifyAllSubscribers ev del nt st = (case st of (e, m) \<Rightarrow> do {
     (e1, l) \<leftarrow> notify_loop ev del nt m e (mSubscriberList m);
     Some (e1, m\<lparr>mSubscriberList := l\<rparr>)
   })"

definition setAPN :: "string option \<Rightarrow> u32 \<Rightarrow> AgpsStateMachine \<Rightarrow> AgpsStateMachine" where
  "setAPN apn len m = (case apn of
       None \<Rightarrow> m\<lparr>mAPN := None, mAPNLen := 0\<rparr>
     | Some s \<Rightarrow>
         if len \<le> 0 \<or> MAX_APN_LEN < len \<or> length s \<noteq> unat len then m\<lparr>mAPN := None, mAPNLen := 0\<rparr>
         else m\<lparr>mAPN := Some (take (unat len) s), mAPNLen := len\<rparr>)"

section \<open>Events\<close>

definition processAgpsEventSubscribe :: "sm_st \<Rightarrow> sm_st option" where
  "processAgpsEventSubscribe st = (case mState (snd st) of
       AGPS_STATE_RELEASED \<Rightarrow> do {
         st1 \<leftarrow> addSubscriber (mCurrentSubscriber (snd st)) st;
         st2 \<leftarrow> requestOrReleaseDataConn True st1;
         Some (transitionState AGPS_STATE_PENDING st2)
       }
     | AGPS_STATE_PENDING \<Rightarrow> addSubscriber (mCurrentSubscriber (snd st)) st
     | AGPS_STATE_ACQUIRED \<Rightarrow> do {
         st1 \<leftarrow> notifyEventToSubscriber AGPS_EVENT_GRANTED (mCurrentSubscriber (snd st)) False st;
         addSubscriber (mCurrentSubscriber (snd st1)) st1
       }
     | AGPS_STATE_RELEASING \<Rightarrow> addSubscriber (mCurrentSubscriber (snd st)) st)"

text \<open>The part that three states share: become inactive, or be notified and deleted.\<close>

definition leave_or_wait :: "sm_st \<Rightarrow> sm_st option" where
  "leave_or_wait st = (case st of (e, m) \<Rightarrow> do {
     p \<leftarrow> mCurrentSubscriber m;
     s \<leftarrow> sub_heap e p;
     if mWaitForCloseComplete s
     then Some (e\<lparr>sub_heap := (sub_heap e)(p \<mapsto> s\<lparr>mIsInactive := True\<rparr>)\<rparr>, m)
     else notifyEventToSubscriber AGPS_EVENT_UNSUBSCRIBE (Some p) True (e, m)
   })"

definition processAgpsEventUnsubscribe :: "sm_st \<Rightarrow> sm_st option" where
  "processAgpsEventUnsubscribe st =
     (if mState (snd st) = AGPS_STATE_RELEASED
      then notifyEventToSubscriber AGPS_EVENT_UNSUBSCRIBE (mCurrentSubscriber (snd st)) False st
      else if mState (snd st) = AGPS_STATE_RELEASING then do {
        st1 \<leftarrow> leave_or_wait st;
        if mSubscriberList (snd st1) = [] then Some (transitionState AGPS_STATE_RELEASED st1) else Some st1
      }
      else do {
        st1 \<leftarrow> leave_or_wait st;
        if mSubscriberList (snd st1) = []
        then requestOrReleaseDataConn False (transitionState AGPS_STATE_RELEASED st1)
        else do {
          act \<leftarrow> anyActiveSubscribers st1;
          if \<not> act then requestOrReleaseDataConn False (transitionState AGPS_STATE_RELEASING st1)
          else Some st1
        }
      })"

definition processAgpsEventGranted :: "sm_st \<Rightarrow> sm_st option" where
  "processAgpsEventGranted st =
     (if mState (snd st) = AGPS_STATE_PENDING
      then notifyAllSubscribers AGPS_EVENT_GRANTED False FOR_ACTIVE_SUBSCRIBERS
             (transitionState AGPS_STATE_ACQUIRED st)
      else Some st)"

text \<open>The common end of RELEASED and DENIED in the state RELEASING.\<close>

definition connection_closed :: "sm_st \<Rightarrow> sm_st option" where
  "connection_closed st = do {
     st1 \<leftarrow> notifyAllSubscribers AGPS_EVENT_RELEASED True FOR_INACTIVE_SUBSCRIBERS st;
     act \<leftarrow> anyActiveSubscribers st1;
     if act then requestOrReleaseDataConn True (transitionState AGPS_STATE_PENDING st1)
     else Some (transitionState AGPS_STATE_RELEASED st1)
   }"

definition processAgpsEventReleased :: "sm_st \<Rightarrow> sm_st option" where
  "processAgpsEventReleased st = (case mState (snd st) of
       AGPS_STATE_RELEASED \<Rightarrow> Some st
     | AGPS_STATE_ACQUIRED \<Rightarrow>
         notifyAllSubscribers AGPS_EVENT_RELEASED True FOR_ALL_SUBSCRIBERS (transitionState AGPS_STATE_RELEASED st)
     | AGPS_STATE_RELEASING \<Rightarrow> connection_closed st
     | AGPS_STATE_PENDING \<Rightarrow> Some st)"

definition processAgpsEventDenied :: "sm_st \<Rightarrow> sm_st option" where
  "processAgpsEventDenied st = (case mState (snd st) of
       AGPS_STATE_RELEASED \<Rightarrow> Some st
     | AGPS_STATE_ACQUIRED \<Rightarrow> Some st
     | AGPS_STATE_RELEASING \<Rightarrow> connection_closed st
     | AGPS_STATE_PENDING \<Rightarrow>
         notifyAllSubscribers AGPS_EVENT_DENIED True FOR_ALL_SUBSCRIBERS (transitionState AGPS_STATE_RELEASED st))"

fun processAgpsEvent :: "AgpsEvent \<Rightarrow> sm_st \<Rightarrow> sm_st option" where
  "processAgpsEvent AGPS_EVENT_SUBSCRIBE st = processAgpsEventSubscribe st"
| "processAgpsEvent AGPS_EVENT_UNSUBSCRIBE st = processAgpsEventUnsubscribe st"
| "processAgpsEvent AGPS_EVENT_GRANTED st = processAgpsEventGranted st"
| "processAgpsEvent AGPS_EVENT_RELEASED st = processAgpsEventReleased st"
| "processAgpsEvent AGPS_EVENT_DENIED st = processAgpsEventDenied st"

section \<open>The manager\<close>

record AgpsManager =
  agps_env_of :: agps_env
  mAgnssNif :: "AgpsStateMachine option"
  mInternetNif :: "AgpsStateMachine option"

text \<open>The two fields of \<open>mGps_conf\<close> the manager reads.\<close>

record agps_conf =
  CAPABILITIES :: u32
  USE_EMERGENCY_PDN :: u32

definition new_AgpsManager :: AgpsManager where
  "new_AgpsManager = \<lparr>agps_env_of = \<lparr>sub_heap = Map.empty, sub_fresh = 0, agps_log = []\<rparr>,
     mAgnssNif = None, mInternetNif = None\<rparr>"

definition agpsCapable :: "agps_conf \<Rightarrow> bool" where
  "agpsCapable cf \<longleftrightarrow> CAPABILITIES cf AND LOC_GPS_CAPABILITY_MSA \<noteq> 0 \<or> CAPABILITIES cf AND LOC_GPS_CAPABILITY_MSB \<noteq> 0"

definition createAgpsStateMachines :: "agps_conf \<Rightarrow> u32 \<Rightarrow> AgpsManager \<Rightarrow> AgpsManager" where
  "createAgpsStateMachines cf atlType g =
     (let g1 = (if mInternetNif g = None \<and> atlType AND AGPS_ATL_TYPE_WWAN \<noteq> 0
                then g\<lparr>mInternetNif := Some (new_AgpsStateMachine LOC_AGPS_TYPE_WWAN_ANY)\<rparr> else g)
      in if agpsCapable cf
         then (if mAgnssNif g1 = None \<and> atlType AND AGPS_ATL_TYPE_SUPL \<noteq> 0 \<and> atlType AND AGPS_ATL_TYPE_SUPL_ES \<noteq> 0
               then g1\<lparr>mAgnssNif := Some (new_AgpsStateMachine LOC_AGPS_TYPE_SUPL)\<rparr> else g1)
         else g1)"

text \<open>Which machine serves a connection type: \<open>True\<close> is \<open>mAgnssNif\<close>, \<open>False\<close> is \<open>mInternetNif\<close>.\<close>

definition nif_of_type :: "AGpsExtType \<Rightarrow> bool" where
  "nif_of_type t \<longleftrightarrow> t = LOC_AGPS_TYPE_INVALID \<or> t = LOC_AGPS_TYPE_SUPL \<or> t = LOC_AGPS_TYPE_SUPL_ES"

definition nif :: "bool \<Rightarrow> AgpsManager \<Rightarrow> AgpsStateMachine option" where
  "nif b g = (if b then mAgnssNif g else mInternetNif g)"

definition set_nif :: "bool \<Rightarrow> sm_st \<Rightarrow> AgpsManager \<Rightarrow> AgpsManager" where
  "set_nif b st g = (if b then g\<lparr>agps_env_of := fst st, mAgnssNif := Some (snd st)\<rparr>
                     else g\<lparr>agps_env_of := fst st, mInternetNif := Some (snd st)\<rparr>)"

definition getAgpsStateMachine :: "AGpsExtType \<Rightarrow> AgpsManager \<Rightarrow> AgpsStateMachine option" where
  "getAgpsStateMachine t g = nif (nif_of_type t) g"

definition requested_type :: "agps_conf \<Rightarrow> AGpsExtType \<Rightarrow> LocApnTypeMask \<Rightarrow> AGpsExtType \<times> LocApnTypeMask" where
  "requested_type cf t k =
     (if USE_EMERGENCY_PDN cf = 0 \<and> t = LOC_AGPS_TYPE_SUPL_ES
      then (LOC_AGPS_TYPE_SUPL, (k AND NOT LOC_APN_TYPE_MASK_EMERGENCY) OR LOC_APN_TYPE_MASK_SUPL)
      else (t, k))"

text \<open>
  The subscriber of \<open>requestATL\<close> is a local variable: it lives in the store while the event is
  processed and is gone afterwards; \<open>mCurrentSubscriber\<close> keeps its address.
\<close>

definition requestATL :: "agps_conf \<Rightarrow> int \<Rightarrow> AGpsExtType \<Rightarrow> LocApnTypeMask \<Rightarrow> AgpsManager \<Rightarrow> AgpsManager option" where
  "requestATL cf c t0 k0 g =
     (let (t, k) = requested_type cf t0 k0
      in case getAgpsStateMachine t g of
           None \<Rightarrow> Some (g\<lparr>agps_env_of := log_out (AtlOpenStatus c 0 None 0 AGPS_APN_BEARER_INVALID t k) (agps_env_of g)\<rparr>)
         | Some m \<Rightarrow>
             (let (p, e) = new_subscriber \<lparr>mConnHandle = c, mWaitForCloseComplete = False, mIsInactive = False,
                                           sub_mApnTypeMask = k\<rparr> (agps_env_of g)
              in do {
                (e1, m1) \<leftarrow> processAgpsEvent AGPS_EVENT_SUBSCRIBE
                   (e, m\<lparr>mAgpsType := t, mApnTypeMask := Some k, mCurrentSubscriber := Some p\<rparr>);
                Some (set_nif (nif_of_type t) (e1\<lparr>sub_heap := (sub_heap e1)(p := None)\<rparr>, m1) g)
              }))"

definition search_nif :: "bool \<Rightarrow> int \<Rightarrow> AgpsManager \<Rightarrow> nat option option" where
  "search_nif b c g = (case nif b g of None \<Rightarrow> Some None | Some m \<Rightarrow> getSubscriber c (agps_env_of g, m))"

definition unsubscribe_nif :: "bool \<Rightarrow> nat \<Rightarrow> AgpsManager \<Rightarrow> AgpsManager option" where
  "unsubscribe_nif b p g = do {
     m \<leftarrow> nif b g;
     st \<leftarrow> processAgpsEvent AGPS_EVENT_UNSUBSCRIBE (agps_env_of g, m\<lparr>mCurrentSubscriber := Some p\<rparr>);
     Some (set_nif b st g)
   }"

definition releaseATL :: "int \<Rightarrow> AgpsManager \<Rightarrow> AgpsManager option" where
  "releaseATL c g = do {
     f1 \<leftarrow> search_nif True c g;
     (case f1 of
        Some p \<Rightarrow> unsubscribe_nif True p g
      | None \<Rightarrow> do {
          f2 \<leftarrow> search_nif False c g;
          (case f2 of Some p \<Rightarrow> unsubscribe_nif False p g | None \<Rightarrow> Some g)
        })
   }"

text \<open>The reports of the framework use the machine without asking whether there is one.\<close>

definition report_event :: "AGpsExtType \<Rightarrow> AgpsEvent \<Rightarrow> (AgpsStateMachine \<Rightarrow> AgpsStateMachine) \<Rightarrow> AgpsManager \<Rightarrow> AgpsManager option" where
  "report_event t ev f g = do {
     m \<leftarrow> getAgpsStateMachine t g;
     st \<leftarrow> processAgpsEvent ev (agps_env_of g, f m);
     Some (set_nif (nif_of_type t) st g)
   }"

definition reportAtlOpenSuccess :: "AGpsExtType \<Rightarrow> string option \<Rightarrow> u32 \<Rightarrow> AGpsBearerType \<Rightarrow> AgpsManager \<Rightarrow> AgpsManager option" where
  "reportAtlOpenSuccess t apn len b g =
     report_event t AGPS_EVENT_GRANTED (\<lambda>m. setAPN apn len (m\<lparr>mBearer := b\<rparr>)) g"

definition reportAtlOpenFailed :: "AGpsExtType \<Rightarrow> AgpsManager \<Rightarrow> AgpsManager option" where
  "reportAtlOpenFailed t g = report_event t AGPS_EVENT_DENIED (\<lambda>m. m) g"

definition reportAtlClosed :: "AGpsExtType \<Rightarrow> AgpsManager \<Rightarrow> AgpsManager option" where
  "reportAtlClosed t g = report_event t AGPS_EVENT_RELEASED (\<lambda>m. m) g"

definition drop_nif :: "bool \<Rightarrow> AgpsManager \<Rightarrow> AgpsManager option" where
  "drop_nif b g = (case nif b g of
       None \<Rightarrow> Some g
     | Some m \<Rightarrow> do { st \<leftarrow> dropAllSubscribers (agps_env_of g, m); Some (set_nif b st g) })"

definition handleModemSSR :: "AgpsManager \<Rightarrow> AgpsManager option" where
  "handleModemSSR g = do { g1 \<leftarrow> drop_nif True g; drop_nif False g1 }"

end
