(* ===== verification/Agps_Share.thy ===== *)
theory Agps_Share
  imports Agps
begin

text \<open>
  The invariant of the two machines and their abstract specification: a connection shared by a
  list of clients. \<open>agps_share\<close> describes a machine by the phase of its connection and the
  handles it serves; \<open>spec_call\<close> gives the effect of every call of the manager on it, the messages
  included. The manager refines it call by call.
\<close>

named_theorems agps_simps \<open>evaluation of the loops over a sound list of subscribers\<close>

section \<open>Sound lists\<close>

definition sub_conn :: "agps_env \<Rightarrow> nat \<Rightarrow> int" where
  "sub_conn e a = mConnHandle (the (sub_heap e a))"

definition sub_conns :: "agps_env \<Rightarrow> AgpsStateMachine \<Rightarrow> int list" where
  "sub_conns e m = map (sub_conn e) (mSubscriberList m)"

lemma sub_conn_log [simp]: "sub_conn (e\<lparr>agps_log := x\<rparr>) = sub_conn e"
  by (simp add: sub_conn_def fun_eq_iff)

definition plain_sub :: "(nat \<rightharpoonup> AgpsSubscriber) \<Rightarrow> nat \<Rightarrow> bool" where
  "plain_sub h a \<longleftrightarrow> (\<exists>s. h a = Some s \<and> \<not> mWaitForCloseComplete s \<and> \<not> mIsInactive s)"

definition sm_ok :: "agps_env \<Rightarrow> AgpsStateMachine \<Rightarrow> bool" where
  "sm_ok e m \<longleftrightarrow> distinct (mSubscriberList m) \<and> (\<forall>a \<in> set (mSubscriberList m). a < sub_fresh e \<and> plain_sub (sub_heap e) a)
     \<and> distinct (sub_conns e m) \<and> mState m \<noteq> AGPS_STATE_RELEASING
     \<and> (mState m = AGPS_STATE_RELEASED \<longrightarrow> mSubscriberList m = [])
     \<and> (mState m \<noteq> AGPS_STATE_RELEASED \<longrightarrow> mApnTypeMask m \<noteq> None)"

lemma plain_subE:
  assumes "plain_sub h a"
  obtains s where "h a = Some s" "\<not> mWaitForCloseComplete s" "\<not> mIsInactive s"
  using assms by (auto simp: plain_sub_def)

lemma find_equal_plain [agps_simps]:
  "\<forall>a \<in> set l. plain_sub h a \<Longrightarrow> h p = Some q \<Longrightarrow>
   find_equal h p l = Some (mConnHandle q \<in> (\<lambda>a. mConnHandle (the (h a))) ` set l)"
  by (induction l) (auto simp: plain_sub_def sub_equals_def)

lemma any_active_plain [agps_simps]:
  "\<forall>a \<in> set l. plain_sub h a \<Longrightarrow> any_active h l = Some (l \<noteq> [])"
  by (cases l) (auto simp: plain_sub_def)

lemma find_handle_plain:
  "\<forall>a \<in> set l. plain_sub h a \<Longrightarrow> find_handle h c l = Some (find (\<lambda>a. mConnHandle (the (h a)) = c) l)"
  by (induction l) (auto simp: plain_sub_def)

lemma free_all_plain [agps_simps]:
  "\<forall>a \<in> set l. plain_sub h a \<Longrightarrow> distinct l \<Longrightarrow> free_all h l = Some (\<lambda>x. if x \<in> set l then None else h x)"
proof (induction l arbitrary: h)
  case (Cons a l)
  have "\<forall>x \<in> set l. plain_sub (h(a := None)) x"
    using Cons.prems by (auto simp: plain_sub_def)
  with Cons.prems Cons.IH [of "h(a := None)"]
  have "free_all h (a # l) = Some (\<lambda>x. if x \<in> set l then None else (h(a := None)) x)"
    by (auto simp: plain_sub_def simp del: fun_upd_apply)
  then show ?case by (simp add: fun_eq_iff)
qed simp

text \<open>The use after free: it happens exactly when the deleted element is followed by another.\<close>

lemma delete_loop_plain:
  assumes "\<forall>a \<in> set (xs @ p # ys). plain_sub h a"
    and "distinct (map (\<lambda>a. mConnHandle (the (h a))) (xs @ p # ys))"
  shows "delete_loop p h (xs @ p # ys) = (if ys = [] then Some (h(p := None), xs) else None)"
  using assms
proof (induction xs)
  case Nil
  have "delete_loop p (h(p := None)) ys = (if ys = [] then Some (h(p := None), []) else None)"
    by (cases ys) (auto split: bind_splits)
  with Nil show ?case
    by (auto simp: plain_sub_def sub_equals_def simp del: fun_upd_apply)
next
  case (Cons a xs)
  from Cons.prems obtain s q where s: "h a = Some s" "h p = Some q" "mConnHandle s \<noteq> mConnHandle q"
    by (auto simp: plain_sub_def)
  from Cons.prems have "\<forall>a \<in> set (xs @ p # ys). plain_sub h a"
    "distinct (map (\<lambda>a. mConnHandle (the (h a))) (xs @ p # ys))" by auto
  from Cons.IH [OF this] s show ?case
    by (auto simp: sub_equals_def)
qed

section \<open>The message loops\<close>

definition open_message :: "int \<Rightarrow> AgpsStateMachine \<Rightarrow> int \<Rightarrow> agps_out" where
  "open_message ok m c = AtlOpenStatus c ok (mAPN m) (mAPNLen m) (mBearer m) (mAgpsType m) (the (mApnTypeMask m))"

lemma log_out_simps [simp]:
  "sub_heap (log_out x e) = sub_heap e" "sub_fresh (log_out x e) = sub_fresh e"
  "agps_log (log_out x e) = agps_log e @ [x]"
  by (simp_all add: log_out_def)

lemma notify_all_granted [agps_simps]:
  assumes "\<forall>a \<in> set l. plain_sub (sub_heap e) a" and "mApnTypeMask m = Some k"
  shows "notify_loop AGPS_EVENT_GRANTED False FOR_ACTIVE_SUBSCRIBERS m e l
         = Some (e\<lparr>agps_log := agps_log e @ map (\<lambda>a. open_message 1 m (sub_conn e a)) l\<rparr>, l)"
  using assms(1)
proof (induction l arbitrary: e)
  case Nil
  then show ?case by simp
next
  case (Cons a l)
  then obtain s where s: "sub_heap e a = Some s" "\<not> mIsInactive s" by (auto simp: plain_sub_def)
  let ?e = "log_out (open_message 1 m (mConnHandle s)) e"
  have "\<forall>x \<in> set l. plain_sub (sub_heap ?e) x" using Cons.prems by simp
  from Cons.IH [OF this] s assms(2) show ?case
    by (simp add: notifyEventToSubscriber_def open_message_def sub_conn_def log_out_def)
qed

definition drop_subs :: "nat list \<Rightarrow> agps_env \<Rightarrow> agps_env" where
  "drop_subs l e = e\<lparr>sub_heap := (\<lambda>x. if x \<in> set l then None else sub_heap e x)\<rparr>"

lemma drop_subs_simps [simp]:
  "sub_heap (drop_subs l e) = (\<lambda>x. if x \<in> set l then None else sub_heap e x)"
  "sub_fresh (drop_subs l e) = sub_fresh e" "agps_log (drop_subs l e) = agps_log e"
  by (simp_all add: drop_subs_def)

fun final_message :: "AgpsEvent \<Rightarrow> AgpsStateMachine \<Rightarrow> int \<Rightarrow> agps_out" where
  "final_message AGPS_EVENT_DENIED m c = open_message 0 m c"
| "final_message _ m c = AtlCloseStatus c 1"

lemma notify_all_final:
  assumes "\<forall>a \<in> set l. plain_sub (sub_heap e) a" "distinct l" "mApnTypeMask m = Some k"
    and "ev = AGPS_EVENT_DENIED \<or> ev = AGPS_EVENT_RELEASED"
  shows "notify_loop ev True FOR_ALL_SUBSCRIBERS m e l
         = Some ((drop_subs l e)\<lparr>agps_log := agps_log e @ map (\<lambda>a. final_message ev m (sub_conn e a)) l\<rparr>, [])"
  using assms(1,2)
proof (induction l arbitrary: e)
  case Nil
  then show ?case by (simp add: drop_subs_def)
next
  case (Cons a l)
  then obtain s where s: "sub_heap e a = Some s" by (auto simp: plain_sub_def)
  let ?e = "(log_out (final_message ev m (mConnHandle s)) e)\<lparr>sub_heap := (sub_heap e)(a := None)\<rparr>"
  have pl: "\<forall>x \<in> set l. plain_sub (sub_heap ?e) x" "distinct l"
    using Cons.prems by (auto simp: plain_sub_def)
  have step: "notify_loop ev True FOR_ALL_SUBSCRIBERS m e (a # l) = notify_loop ev True FOR_ALL_SUBSCRIBERS m ?e l"
    using assms(3,4) s by (auto simp: notifyEventToSubscriber_def open_message_def log_out_def)
  have "map (\<lambda>x. final_message ev m (sub_conn ?e x)) l = map (\<lambda>x. final_message ev m (sub_conn e x)) l"
    using Cons.prems by (auto simp: sub_conn_def)
  moreover have "drop_subs l ?e = (drop_subs (a # l) e)\<lparr>agps_log := agps_log e @ [final_message ev m (mConnHandle s)]\<rparr>"
    by (simp add: drop_subs_def log_out_def fun_eq_iff)
  ultimately show ?case
    unfolding step Cons.IH [OF pl] using s by (simp add: sub_conn_def log_out_def)
qed

section \<open>A shared connection\<close>

datatype conn_phase = Idle | Asked | Up

datatype share_out = Req bool | Rel bool | Opened bool int | Refused bool int | Closed int

fun phase_of :: "AgpsState \<Rightarrow> conn_phase" where
  "phase_of AGPS_STATE_RELEASED = Idle"
| "phase_of AGPS_STATE_PENDING = Asked"
| "phase_of AGPS_STATE_ACQUIRED = Up"
| "phase_of AGPS_STATE_RELEASING = Idle"

type_synonym agps_share = "conn_phase \<times> int list"

definition sm_abs :: "agps_env \<Rightarrow> AgpsStateMachine \<Rightarrow> agps_share" where
  "sm_abs e m = (phase_of (mState m), sub_conns e m)"

fun abs_out :: "agps_out \<Rightarrow> share_out" where
  "abs_out (FrameworkStatus r t k) = (if r then Req (nif_of_type t) else Rel (nif_of_type t))"
| "abs_out (AtlOpenStatus c ok apn len b t k) = (if ok = 1 then Opened (nif_of_type t) c else Refused (nif_of_type t) c)"
| "abs_out (AtlCloseStatus c ok) = Closed c"

definition share_add :: "int \<Rightarrow> int list \<Rightarrow> int list" where
  "share_add c hs = (if c \<in> set hs then hs else hs @ [c])"

fun spec_subscribe :: "bool \<Rightarrow> int \<Rightarrow> agps_share \<Rightarrow> agps_share \<times> share_out list" where
  "spec_subscribe b c (Idle, hs) = ((Asked, share_add c hs), [Req b])"
| "spec_subscribe b c (Asked, hs) = ((Asked, share_add c hs), [])"
| "spec_subscribe b c (Up, hs) = ((Up, share_add c hs), [Opened b c])"

text \<open>Leaving: only the client that came last can be let go without touching freed memory.\<close>

fun spec_unsubscribe :: "bool \<Rightarrow> int \<Rightarrow> agps_share \<Rightarrow> (agps_share \<times> share_out list) option" where
  "spec_unsubscribe b c (ph, hs) =
     (if c \<noteq> last hs then None
      else if butlast hs = [] then Some ((Idle, []), [Closed c, Rel b])
      else Some ((ph, butlast hs), [Closed c]))"

fun spec_granted :: "bool \<Rightarrow> agps_share \<Rightarrow> agps_share \<times> share_out list" where
  "spec_granted b (Asked, hs) = ((Up, hs), map (Opened b) hs)"
| "spec_granted b s = (s, [])"

fun spec_denied :: "bool \<Rightarrow> agps_share \<Rightarrow> agps_share \<times> share_out list" where
  "spec_denied b (Asked, hs) = ((Idle, []), map (Refused b) hs)"
| "spec_denied b s = (s, [])"

fun spec_closed :: "bool \<Rightarrow> agps_share \<Rightarrow> agps_share \<times> share_out list" where
  "spec_closed b (Up, hs) = ((Idle, []), map Closed hs)"
| "spec_closed b s = (s, [])"

section \<open>What an event does to one machine\<close>

text \<open>The frame: only the elements of the machine's own list and fresh addresses change.\<close>

definition sm_frame :: "agps_env \<Rightarrow> AgpsStateMachine \<Rightarrow> agps_env \<Rightarrow> AgpsStateMachine \<Rightarrow> bool" where
  "sm_frame e m e' m' \<longleftrightarrow> sm_ok e' m' \<and> sub_fresh e \<le> sub_fresh e'
     \<and> (\<forall>x < sub_fresh e. x \<notin> set (mSubscriberList m) \<longrightarrow> sub_heap e' x = sub_heap e x)
     \<and> dom (sub_heap e') = (dom (sub_heap e) - set (mSubscriberList m)) \<union> set (mSubscriberList m')
     \<and> set (mSubscriberList m') \<subseteq> set (mSubscriberList m) \<union> {sub_fresh e..}"

lemma plain_list: "sm_ok e m \<Longrightarrow> \<forall>a \<in> set (mSubscriberList m). plain_sub (sub_heap e) a"
  by (simp add: sm_ok_def)

lemma plain_dom: "plain_sub h a \<Longrightarrow> a \<in> dom h"
  by (auto simp: plain_sub_def)

lemma list_dom: "sm_ok e m \<Longrightarrow> set (mSubscriberList m) \<subseteq> dom (sub_heap e)"
  by (auto simp: sm_ok_def dest: plain_dom)

lemma granted_machine:
  assumes ok: "sm_ok e m" and b: "nif_of_type (mAgpsType m) = b"
  shows "\<exists>e' m'. processAgpsEventGranted (e, m) = Some (e', m') \<and> sm_frame e m e' m'
     \<and> mAgpsType m' = mAgpsType m
     \<and> sm_abs e' m' = fst (spec_granted b (sm_abs e m))
     \<and> (\<exists>outs. agps_log e' = agps_log e @ outs \<and> map abs_out outs = snd (spec_granted b (sm_abs e m)))"
proof (cases "mState m = AGPS_STATE_PENDING")
  case True
  then obtain k where k: "mApnTypeMask m = Some k" using ok by (auto simp: sm_ok_def)
  let ?m = "m\<lparr>mState := AGPS_STATE_ACQUIRED\<rparr>"
  let ?o = "map (\<lambda>a. open_message 1 ?m (sub_conn e a)) (mSubscriberList m)"
  have "processAgpsEventGranted (e, m) = Some (e\<lparr>agps_log := agps_log e @ ?o\<rparr>, ?m)"
    using True plain_list [OF ok] k
    by (simp add: processAgpsEventGranted_def notifyAllSubscribers_def transitionState_def notify_all_granted)
  moreover have "sm_frame e m (e\<lparr>agps_log := agps_log e @ ?o\<rparr>) ?m"
    using ok list_dom [OF ok] True by (auto simp: sm_frame_def sm_ok_def sub_conns_def)
  moreover have "map abs_out ?o = map (Opened b) (sub_conns e m)"
    using b by (simp add: open_message_def sub_conns_def)
  ultimately show ?thesis
    using True by (simp add: sm_abs_def sub_conns_def)
next
  case False
  then show ?thesis
    using ok list_dom [OF ok] by (cases "mState m") (auto simp: processAgpsEventGranted_def sm_frame_def sm_abs_def)
qed

lemma final_machine:
  assumes ok: "sm_ok e m" and st: "mState m \<noteq> AGPS_STATE_RELEASED" and t: "mAgpsType m = t"
    and ev: "ev = AGPS_EVENT_DENIED \<or> ev = AGPS_EVENT_RELEASED"
  shows "\<exists>e' m'. notifyAllSubscribers ev True FOR_ALL_SUBSCRIBERS (transitionState AGPS_STATE_RELEASED (e, m)) = Some (e', m')
     \<and> sm_frame e m e' m' \<and> mAgpsType m' = t \<and> sm_abs e' m' = (Idle, [])
     \<and> agps_log e' = agps_log e @ map (final_message ev m) (sub_conns e m)"
proof -
  obtain k where k: "mApnTypeMask m = Some k" using ok st by (auto simp: sm_ok_def)
  let ?m = "m\<lparr>mState := AGPS_STATE_RELEASED\<rparr>"
  let ?o = "map (\<lambda>a. final_message ev ?m (sub_conn e a)) (mSubscriberList m)"
  let ?e = "(drop_subs (mSubscriberList m) e)\<lparr>agps_log := agps_log e @ ?o\<rparr>"
  have d: "distinct (mSubscriberList m)" using ok by (simp add: sm_ok_def)
  have run: "notifyAllSubscribers ev True FOR_ALL_SUBSCRIBERS (transitionState AGPS_STATE_RELEASED (e, m))
     = Some (?e, ?m\<lparr>mSubscriberList := []\<rparr>)"
    using notify_all_final [OF plain_list [OF ok] d, of ?m k ev] k ev
    by (simp add: notifyAllSubscribers_def transitionState_def)
  have "sm_frame e m ?e (?m\<lparr>mSubscriberList := []\<rparr>)"
    using ok list_dom [OF ok] by (auto simp: sm_frame_def sm_ok_def sub_conns_def split: if_splits)
  moreover have "final_message ev ?m = final_message ev m"
    using ev by (auto simp: fun_eq_iff open_message_def)
  ultimately show ?thesis
    using t unfolding run by (intro exI [of _ ?e] exI [of _ "?m\<lparr>mSubscriberList := []\<rparr>"])
      (simp add: sm_abs_def sub_conns_def comp_def)
qed

lemma denied_machine:
  assumes ok: "sm_ok e m" and b: "nif_of_type (mAgpsType m) = b"
  shows "\<exists>e' m'. processAgpsEventDenied (e, m) = Some (e', m') \<and> sm_frame e m e' m'
     \<and> mAgpsType m' = mAgpsType m
     \<and> sm_abs e' m' = fst (spec_denied b (sm_abs e m))
     \<and> (\<exists>outs. agps_log e' = agps_log e @ outs \<and> map abs_out outs = snd (spec_denied b (sm_abs e m)))"
proof (cases "mState m = AGPS_STATE_PENDING")
  case True
  then show ?thesis
    using final_machine [OF ok _ refl, of AGPS_EVENT_DENIED] b
    by (auto simp: processAgpsEventDenied_def sm_abs_def open_message_def)
next
  case False
  then show ?thesis
    using ok list_dom [OF ok] by (cases "mState m") (auto simp: processAgpsEventDenied_def sm_frame_def sm_abs_def sm_ok_def)
qed

lemma released_machine:
  assumes ok: "sm_ok e m"
  shows "\<exists>e' m'. processAgpsEventReleased (e, m) = Some (e', m') \<and> sm_frame e m e' m'
     \<and> mAgpsType m' = mAgpsType m
     \<and> sm_abs e' m' = fst (spec_closed b (sm_abs e m))
     \<and> (\<exists>outs. agps_log e' = agps_log e @ outs \<and> map abs_out outs = snd (spec_closed b (sm_abs e m)))"
proof (cases "mState m = AGPS_STATE_ACQUIRED")
  case True
  then show ?thesis
    using final_machine [OF ok _ refl, of AGPS_EVENT_RELEASED]
    by (auto simp: processAgpsEventReleased_def sm_abs_def)
next
  case False
  then show ?thesis
    using ok list_dom [OF ok] by (cases "mState m") (auto simp: processAgpsEventReleased_def sm_frame_def sm_abs_def sm_ok_def)
qed

section \<open>Subscribing and leaving\<close>

lemma frame_keep:
  assumes "sm_ok e m" "sub_heap e' = sub_heap e" "sub_fresh e \<le> sub_fresh e'"
    and "mSubscriberList m' = mSubscriberList m" "mApnTypeMask m' \<noteq> None"
    and "mState m' = AGPS_STATE_PENDING \<or> mState m' = AGPS_STATE_ACQUIRED"
  shows "sm_frame e m e' m'" and "sub_conns e' m' = sub_conns e m"
proof -
  show c: "sub_conns e' m' = sub_conns e m" using assms(2,4) by (simp add: sub_conns_def sub_conn_def)
  from assms(1,2,3,4,5,6) list_dom [OF assms(1)] c show "sm_frame e m e' m'"
    by (auto simp: sm_frame_def sm_ok_def)
qed

lemma sub_conns_push:
  assumes "a \<notin> set (mSubscriberList m)" "sub_heap e' = (sub_heap e)(a \<mapsto> s)"
    and "mSubscriberList m' = mSubscriberList m @ [a]"
  shows "sub_conns e' m' = sub_conns e m @ [mConnHandle s]"
  using assms by (auto simp: sub_conns_def sub_conn_def)

lemma frame_push:
  assumes ok: "sm_ok e m" and h: "sub_heap e' = (sub_heap e)(a \<mapsto> s)" and f: "sub_fresh e \<le> a" "a < sub_fresh e'"
    and l: "mSubscriberList m' = mSubscriberList m @ [a]" "mApnTypeMask m' \<noteq> None"
    and st: "mState m' = AGPS_STATE_PENDING \<or> mState m' = AGPS_STATE_ACQUIRED"
    and s: "\<not> mWaitForCloseComplete s" "\<not> mIsInactive s" "mConnHandle s \<notin> set (sub_conns e m)"
  shows "sm_frame e m e' m'" and "sub_conns e' m' = sub_conns e m @ [mConnHandle s]"
proof -
  have a: "a \<notin> set (mSubscriberList m)" using ok f by (auto simp: sm_ok_def)
  show c: "sub_conns e' m' = sub_conns e m @ [mConnHandle s]" by (rule sub_conns_push [OF a h l(1)])
  have pl: "\<forall>x \<in> set (mSubscriberList m). x < sub_fresh e' \<and> plain_sub (sub_heap e') x"
    using ok f by (auto simp: sm_ok_def plain_sub_def h)
  have "plain_sub (sub_heap e') a" using s by (simp add: plain_sub_def h)
  with pl a f st l s c ok have "sm_ok e' m'"
    by (auto simp: sm_ok_def)
  then show "sm_frame e m e' m'"
    using f h l list_dom [OF ok] by (auto simp: sm_frame_def)
qed

lemma addSubscriber_plain:
  assumes ok: "sm_ok e m" and dom: "dom (sub_heap e) \<subseteq> {..<sub_fresh e}"
    and new: "new_subscriber s e = (p, e0)"
    and m0: "mSubscriberList m0 = mSubscriberList m" and h: "sub_heap e2 = sub_heap e0" "sub_fresh e2 = sub_fresh e0"
  shows "addSubscriber (Some p) (e2, m0) =
    (if mConnHandle s \<in> set (sub_conns e m) then Some (e2, m0)
     else Some (e2\<lparr>sub_heap := (sub_heap e)(p \<mapsto> s, Suc p \<mapsto> s), sub_fresh := Suc (Suc p)\<rparr>,
                m0\<lparr>mSubscriberList := mSubscriberList m @ [Suc p]\<rparr>))"
proof -
  have p: "p = sub_fresh e" and e0: "e0 = e\<lparr>sub_heap := (sub_heap e)(p \<mapsto> s), sub_fresh := Suc p\<rparr>"
    using new by (auto simp: new_subscriber_def)
  have np: "p \<notin> set (mSubscriberList m)" using ok p by (auto simp: sm_ok_def)
  have pl: "\<forall>a \<in> set (mSubscriberList m). plain_sub (sub_heap e0) a"
    using ok np by (auto simp: sm_ok_def plain_sub_def e0)
  have "(\<lambda>a. mConnHandle (the (sub_heap e0 a))) ` set (mSubscriberList m) = sub_conn e ` set (mSubscriberList m)"
    using np by (intro image_cong) (auto simp: sub_conn_def e0)
  moreover have "find_equal (sub_heap e0) p (mSubscriberList m)
     = Some (mConnHandle s \<in> (\<lambda>a. mConnHandle (the (sub_heap e0 a))) ` set (mSubscriberList m))"
    by (rule find_equal_plain [OF pl]) (simp add: e0)
  ultimately have "find_equal (sub_heap e0) p (mSubscriberList m) = Some (mConnHandle s \<in> set (sub_conns e m))"
    by (simp add: sub_conns_def)
  then show ?thesis
    unfolding addSubscriber_def using h m0 e0 by (simp add: new_subscriber_def)
qed

lemma subscribe_machine:
  assumes ok: "sm_ok e m" and dom: "dom (sub_heap e) \<subseteq> {..<sub_fresh e}" and b: "nif_of_type t = b"
    and s: "\<not> mWaitForCloseComplete s" "\<not> mIsInactive s" "mConnHandle s = c"
    and new: "new_subscriber s e = (p, e0)"
  shows "\<exists>e1 m'. processAgpsEventSubscribe (e0, m\<lparr>mAgpsType := t, mApnTypeMask := Some k, mCurrentSubscriber := Some p\<rparr>) = Some (e1, m')
     \<and> sm_frame e m (e1\<lparr>sub_heap := (sub_heap e1)(p := None)\<rparr>) m' \<and> mAgpsType m' = t
     \<and> sm_abs (e1\<lparr>sub_heap := (sub_heap e1)(p := None)\<rparr>) m' = fst (spec_subscribe b c (sm_abs e m))
     \<and> (\<exists>outs. agps_log e1 = agps_log e @ outs \<and> map abs_out outs = snd (spec_subscribe b c (sm_abs e m)))"
proof -
  let ?m0 = "m\<lparr>mAgpsType := t, mApnTypeMask := Some k, mCurrentSubscriber := Some p\<rparr>"
  have p: "p = sub_fresh e" and e0: "e0 = e\<lparr>sub_heap := (sub_heap e)(p \<mapsto> s), sub_fresh := Suc p\<rparr>"
    using new by (auto simp: new_subscriber_def)
  have np: "sub_heap e p = None" using dom p by auto
  define n where "n = (if mState m = AGPS_STATE_RELEASED then AGPS_STATE_PENDING else mState m)"
  define out where "out = (if mState m = AGPS_STATE_RELEASED then [FrameworkStatus True t k]
     else if mState m = AGPS_STATE_ACQUIRED then [AtlOpenStatus c 1 (mAPN m) (mAPNLen m) (mBearer m) t k] else [])"
  define dup where "dup = (c \<in> set (sub_conns e m))"
  define e1 where "e1 = (if dup then e0 else e0\<lparr>sub_heap := (sub_heap e)(p \<mapsto> s, Suc p \<mapsto> s), sub_fresh := Suc (Suc p)\<rparr>)\<lparr>agps_log := agps_log e @ out\<rparr>"
  define m1 where "m1 = (if dup then ?m0 else ?m0\<lparr>mSubscriberList := mSubscriberList m @ [Suc p]\<rparr>)\<lparr>mState := n\<rparr>"
  have st: "mState m \<in> {AGPS_STATE_RELEASED, AGPS_STATE_PENDING, AGPS_STATE_ACQUIRED}"
    using ok by (cases "mState m") (auto simp: sm_ok_def)
  note add = addSubscriber_plain [OF ok dom new]
  have run: "processAgpsEventSubscribe (e0, ?m0) = Some (e1, m1)"
    using st s(3)
    by (auto simp: processAgpsEventSubscribe_def add requestOrReleaseDataConn_def transitionState_def log_out_def
        notifyEventToSubscriber_def e1_def m1_def n_def out_def dup_def e0)
  have n: "n = AGPS_STATE_PENDING \<or> n = AGPS_STATE_ACQUIRED" using st by (auto simp: n_def)
  let ?e = "e1\<lparr>sub_heap := (sub_heap e1)(p := None)\<rparr>"
  have "sm_frame e m ?e m1 \<and> sub_conns ?e m1 = share_add c (sub_conns e m)"
  proof (cases dup)
    case True
    then have "sub_heap ?e = sub_heap e" "sub_fresh e \<le> sub_fresh ?e"
      using np by (auto simp: e1_def e0 p fun_eq_iff)
    from frame_keep [OF ok this, of m1] True n show ?thesis
      by (auto simp: m1_def dup_def share_add_def)
  next
    case False
    then have h: "sub_heap ?e = (sub_heap e)(Suc p \<mapsto> s)" "Suc p < sub_fresh ?e" "sub_fresh e \<le> Suc p"
      using np by (auto simp: e1_def e0 p fun_eq_iff)
    from frame_push [OF ok h(1,3,2), of m1] False n s show ?thesis
      by (auto simp: m1_def dup_def share_add_def)
  qed
  moreover have "map abs_out out = snd (spec_subscribe b c (sm_abs e m))"
    using st b by (auto simp: out_def sm_abs_def)
  moreover have "phase_of n = fst (fst (spec_subscribe b c (sm_abs e m)))"
    "share_add c (sub_conns e m) = snd (fst (spec_subscribe b c (sm_abs e m)))"
    using st by (auto simp: n_def sm_abs_def)
  ultimately show ?thesis
    by (intro exI [of _ e1] exI [of _ m1])
      (auto simp: run sm_abs_def prod_eq_iff, simp_all add: m1_def e1_def)
qed

lemma leave_plain:
  assumes ok: "sm_ok e m" and l: "mSubscriberList m = xs @ p # ys" and m0: "mSubscriberList m0 = mSubscriberList m"
    and cur: "mCurrentSubscriber m0 = Some p"
  shows "leave_or_wait (e, m0) = (if ys = []
     then Some (e\<lparr>agps_log := agps_log e @ [AtlCloseStatus (sub_conn e p) 1], sub_heap := (sub_heap e)(p := None)\<rparr>,
                m0\<lparr>mSubscriberList := xs\<rparr>)
     else None)"
proof -
  obtain s where s: "sub_heap e p = Some s" "\<not> mWaitForCloseComplete s"
    using plain_list [OF ok] by (auto simp: l plain_sub_def)
  have "distinct (map (\<lambda>a. mConnHandle (the (sub_heap e a))) (xs @ p # ys))"
    using ok by (simp add: sm_ok_def sub_conns_def sub_conn_def [abs_def] l)
  with delete_loop_plain [OF plain_list [OF ok, unfolded l]]
  have "delete_loop p (sub_heap e) (xs @ p # ys) = (if ys = [] then Some ((sub_heap e)(p := None), xs) else None)" .
  then show ?thesis
    using s by (simp add: leave_or_wait_def cur notifyEventToSubscriber_def deleteSubscriber_def m0 l sub_conn_def log_out_def)
qed

lemma frame_pop:
  assumes ok: "sm_ok e m" and l: "mSubscriberList m = xs @ [p]" and h: "sub_heap e' = (sub_heap e)(p := None)"
    and f: "sub_fresh e' = sub_fresh e" and m': "mSubscriberList m' = xs" "mApnTypeMask m' = mApnTypeMask m"
    and st: "mState m' = (if xs = [] then AGPS_STATE_RELEASED else mState m)"
  shows "sm_frame e m e' m'" and "sub_conns e' m' = butlast (sub_conns e m)"
proof -
  have p: "p \<notin> set xs" using ok by (auto simp: sm_ok_def l)
  show c: "sub_conns e' m' = butlast (sub_conns e m)"
    using p by (auto simp: sub_conns_def sub_conn_def h m' l)
  have "distinct (sub_conns e' m')" unfolding c using ok by (simp add: sm_ok_def distinct_butlast)
  then have "sm_ok e' m'"
    using ok p st m' f h by (auto simp: sm_ok_def plain_sub_def l)
  then show "sm_frame e m e' m'"
    using f h l m' p list_dom [OF ok] by (auto simp: sm_frame_def)
qed

lemma unsubscribe_machine:
  assumes ok: "sm_ok e m" and p: "p \<in> set (mSubscriberList m)" and c: "sub_conn e p = c"
    and b: "nif_of_type (mAgpsType m) = b"
  defines "r \<equiv> processAgpsEventUnsubscribe (e, m\<lparr>mCurrentSubscriber := Some p\<rparr>)"
  shows "case spec_unsubscribe b c (sm_abs e m) of
      None \<Rightarrow> r = None
    | Some (a, os) \<Rightarrow> \<exists>e' m'. r = Some (e', m') \<and> sm_frame e m e' m' \<and> mAgpsType m' = mAgpsType m
        \<and> sm_abs e' m' = a \<and> (\<exists>outs. agps_log e' = agps_log e @ outs \<and> map abs_out outs = os)"
proof -
  obtain xs ys where l: "mSubscriberList m = xs @ p # ys" using p by (meson split_list)
  let ?m0 = "m\<lparr>mCurrentSubscriber := Some p\<rparr>"
  have st: "mState m = AGPS_STATE_PENDING \<or> mState m = AGPS_STATE_ACQUIRED"
    using ok p by (cases "mState m") (auto simp: sm_ok_def)
  obtain k where k: "mApnTypeMask m = Some k" using ok st by (auto simp: sm_ok_def)
  have leave: "leave_or_wait (e, ?m0) = (if ys = []
     then Some (e\<lparr>agps_log := agps_log e @ [AtlCloseStatus c 1], sub_heap := (sub_heap e)(p := None)\<rparr>,
                ?m0\<lparr>mSubscriberList := xs\<rparr>) else None)"
    using leave_plain [OF ok l, of ?m0] c by simp
  have dist: "distinct (sub_conns e m)" using ok by (simp add: sm_ok_def)
  have cs: "sub_conns e m = map (sub_conn e) xs @ c # map (sub_conn e) ys" by (simp add: sub_conns_def l c)
  have last: "c = last (sub_conns e m) \<longleftrightarrow> ys = []"
    using dist by (cases ys rule: rev_cases) (auto simp: cs)
  show ?thesis
  proof (cases "ys = []")
    case False
    with last have "spec_unsubscribe b c (sm_abs e m) = None" by (simp add: sm_abs_def)
    then show ?thesis using False st by (auto simp: r_def processAgpsEventUnsubscribe_def leave)
  next
    case True
    define o1 where "o1 = (if xs = [] then [AtlCloseStatus c 1, FrameworkStatus False (mAgpsType m) k] else [AtlCloseStatus c 1])"
    define m1 where "m1 = ?m0\<lparr>mSubscriberList := xs, mState := (if xs = [] then AGPS_STATE_RELEASED else mState m)\<rparr>"
    define e1 where "e1 = e\<lparr>agps_log := agps_log e @ o1, sub_heap := (sub_heap e)(p := None)\<rparr>"
    have pl: "\<forall>a \<in> set xs. plain_sub (sub_heap e1) a"
      using ok True by (auto simp: e1_def sm_ok_def l plain_sub_def)
    have act: "anyActiveSubscribers (e\<lparr>agps_log := x, sub_heap := (sub_heap e)(p := None)\<rparr>, ?m0\<lparr>mSubscriberList := xs\<rparr>)
       = Some (xs \<noteq> [])" for x
      using any_active_plain [OF pl] by (simp add: anyActiveSubscribers_def e1_def)
    have run: "r = Some (e1, m1)"
      using st k True act
      by (auto simp: r_def processAgpsEventUnsubscribe_def leave requestOrReleaseDataConn_def transitionState_def
          e1_def m1_def o1_def log_out_def)
    have fr: "sm_frame e m e1 m1" "sub_conns e1 m1 = butlast (sub_conns e m)"
      using True by (auto intro!: frame_pop [OF ok, of xs p] simp: l e1_def m1_def)
    have "spec_unsubscribe b c (sm_abs e m) = Some (sm_abs e1 m1, map abs_out o1)"
      using True last fr(2) b
      by (auto simp: sm_abs_def cs o1_def m1_def)
    moreover have "mAgpsType m1 = mAgpsType m" "agps_log e1 = agps_log e @ o1"
      by (simp_all add: m1_def e1_def)
    ultimately show ?thesis
      using run fr(1) by auto
  qed
qed

end
