(* ===== verification/Agps_Refine.thy ===== *)
theory Agps_Refine
  imports Agps_Share
begin

text \<open>
  The manager of the two machines: its invariant, the calls it takes, and the refinement of
  \<open>spec_call\<close>. A state of the specification maps each of the two connections (\<open>True\<close> is SUPL,
  \<open>False\<close> the internet connection) to its phase and clients, if its machine exists.
\<close>

section \<open>The invariant\<close>

definition nif_list :: "bool \<Rightarrow> AgpsManager \<Rightarrow> nat list" where
  "nif_list b g = (case nif b g of None \<Rightarrow> [] | Some m \<Rightarrow> mSubscriberList m)"

definition agps_inv :: "AgpsManager \<Rightarrow> bool" where
  "agps_inv g \<longleftrightarrow> (\<forall>b m. nif b g = Some m \<longrightarrow> sm_ok (agps_env_of g) m \<and> nif_of_type (mAgpsType m) = b)
     \<and> set (nif_list True g) \<inter> set (nif_list False g) = {}
     \<and> dom (sub_heap (agps_env_of g)) = set (nif_list True g) \<union> set (nif_list False g)"

type_synonym agps_spec = "bool \<Rightarrow> agps_share option"

definition agps_abs :: "AgpsManager \<Rightarrow> agps_spec" where
  "agps_abs g = (\<lambda>b. map_option (sm_abs (agps_env_of g)) (nif b g))"

lemma nif_set_nif [simp]:
  "nif b (set_nif b st g) = Some (snd st)" "nif (\<not> b) (set_nif b st g) = nif (\<not> b) g"
  "agps_env_of (set_nif b st g) = fst st"
  by (cases b; simp add: nif_def set_nif_def)+

lemma nif_set_nif_if: "nif d (set_nif b st g) = (if d = b then Some (snd st) else nif d g)"
  by (cases b; cases d) (simp_all add: nif_def set_nif_def)

lemma agps_invD:
  assumes "agps_inv g" "nif b g = Some m"
  shows "sm_ok (agps_env_of g) m" "nif_of_type (mAgpsType m) = b"
  using assms by (auto simp: agps_inv_def)

lemma nif_list_fresh:
  assumes "agps_inv g" "x \<in> set (nif_list b g)"
  shows "x < sub_fresh (agps_env_of g)"
  using assms agps_invD(1) [OF assms(1), of b] by (cases "nif b g") (auto simp: nif_list_def sm_ok_def)

lemma agps_inv_fresh: "agps_inv g \<Longrightarrow> dom (sub_heap (agps_env_of g)) \<subseteq> {..<sub_fresh (agps_env_of g)}"
  using nif_list_fresh by (auto simp: agps_inv_def)

lemma inv_lists:
  "agps_inv g \<longleftrightarrow> (\<forall>b m. nif b g = Some m \<longrightarrow> sm_ok (agps_env_of g) m \<and> nif_of_type (mAgpsType m) = b)
     \<and> (\<forall>b. set (nif_list b g) \<inter> set (nif_list (\<not> b) g) = {}
     \<and> dom (sub_heap (agps_env_of g)) = set (nif_list b g) \<union> set (nif_list (\<not> b) g))"
  by (auto simp: agps_inv_def all_bool_eq Int_commute)

lemma agps_invI:
  assumes "\<And>d n. nif d g = Some n \<Longrightarrow> sm_ok (agps_env_of g) n \<and> nif_of_type (mAgpsType n) = d"
    and "set (nif_list b g) \<inter> set (nif_list (\<not> b) g) = {}"
    and "dom (sub_heap (agps_env_of g)) = set (nif_list b g) \<union> set (nif_list (\<not> b) g)"
  shows "agps_inv g"
  using assms by (cases b) (simp_all add: agps_inv_def Int_commute Un_commute)

text \<open>An event on one machine leaves the other one alone.\<close>

lemma set_nif_frame:
  assumes inv: "agps_inv g" and m: "nif b g = Some m" and fr: "sm_frame (agps_env_of g) m e' m'"
    and t: "nif_of_type (mAgpsType m') = b"
  shows "agps_inv (set_nif b (e', m') g)"
    and "agps_abs (set_nif b (e', m') g) = (agps_abs g)(b := Some (sm_abs e' m'))"
proof -
  let ?e = "agps_env_of g"
  have lb: "nif_list b g = mSubscriberList m" by (simp add: nif_list_def m)
  have sep: "set (nif_list b g) \<inter> set (nif_list (\<not> b) g) = {}"
    "dom (sub_heap ?e) = set (nif_list b g) \<union> set (nif_list (\<not> b) g)"
    using inv unfolding inv_lists by auto
  have old: "\<forall>x \<in> set (nif_list (\<not> b) g). x < sub_fresh ?e \<and> x \<notin> set (mSubscriberList m)"
    using nif_list_fresh [OF inv] sep(1) lb by auto
  with fr have same: "\<forall>x \<in> set (nif_list (\<not> b) g). sub_heap e' x = sub_heap ?e x"
    by (auto simp: sm_frame_def)
  have other: "sm_ok e' m2 \<and> sub_conns e' m2 = sub_conns ?e m2" if m2: "nif (\<not> b) g = Some m2" for m2
  proof -
    have ok2: "sm_ok ?e m2" using agps_invD [OF inv m2] by simp
    have s2: "\<forall>x \<in> set (mSubscriberList m2). sub_heap e' x = sub_heap ?e x"
      using same m2 by (simp add: nif_list_def)
    then have "sub_conns e' m2 = sub_conns ?e m2" by (simp add: sub_conns_def sub_conn_def)
    then show ?thesis using ok2 s2 fr by (auto simp: sm_ok_def plain_sub_def sm_frame_def)
  qed
  have lists: "nif_list d (set_nif b (e', m') g) = (if d = b then mSubscriberList m' else nif_list d g)" for d
    by (simp add: nif_list_def nif_set_nif_if)
  have ok': "sm_ok e' m'" using fr by (simp add: sm_frame_def)
  have mem: "sm_ok e' n \<and> nif_of_type (mAgpsType n) = d" if "nif d (set_nif b (e', m') g) = Some n" for d n
    using that ok' t other agps_invD(2) [OF inv] by (cases "d = b") (auto simp: nif_set_nif_if)
  have disj: "set (mSubscriberList m') \<inter> set (nif_list (\<not> b) g) = {}"
    using fr old by (fastforce simp: sm_frame_def)
  have "dom (sub_heap ?e) - set (mSubscriberList m) = set (nif_list (\<not> b) g)"
    using sep lb by auto
  then have dom: "dom (sub_heap e') = set (mSubscriberList m') \<union> set (nif_list (\<not> b) g)"
    using fr by (auto simp: sm_frame_def)
  show "agps_inv (set_nif b (e', m') g)"
    using mem disj dom by (intro agps_invI [of _ b]) (simp_all add: lists)
  show "agps_abs (set_nif b (e', m') g) = (agps_abs g)(b := Some (sm_abs e' m'))"
    using other by (auto simp: agps_abs_def nif_set_nif_if fun_eq_iff sm_abs_def split: option.splits intro!: option.map_cong)
qed

section \<open>Calls\<close>

datatype agps_call =
    Create u32
  | RequestATL int AGpsExtType LocApnTypeMask
  | ReleaseATL int
  | OpenSuccess AGpsExtType "string option" u32 AGpsBearerType
  | OpenFailed AGpsExtType
  | ConnClosed AGpsExtType
  | ModemSSR

fun agps_do :: "agps_conf \<Rightarrow> agps_call \<Rightarrow> AgpsManager \<Rightarrow> AgpsManager option" where
  "agps_do cf (Create atl) g = Some (createAgpsStateMachines cf atl g)"
| "agps_do cf (RequestATL c t k) g = requestATL cf c t k g"
| "agps_do cf (ReleaseATL c) g = releaseATL c g"
| "agps_do cf (OpenSuccess t apn len b) g = reportAtlOpenSuccess t apn len b g"
| "agps_do cf (OpenFailed t) g = reportAtlOpenFailed t g"
| "agps_do cf (ConnClosed t) g = reportAtlClosed t g"
| "agps_do cf ModemSSR g = handleModemSSR g"

definition on_conn :: "bool \<Rightarrow> (agps_share \<Rightarrow> agps_share \<times> share_out list) \<Rightarrow> agps_spec \<Rightarrow> (agps_spec \<times> share_out list) option" where
  "on_conn b f S = (case S b of None \<Rightarrow> None | Some s \<Rightarrow> Some (S(b := Some (fst (f s))), snd (f s)))"

definition serves :: "bool \<Rightarrow> int \<Rightarrow> agps_spec \<Rightarrow> bool" where
  "serves b c S \<longleftrightarrow> (case S b of None \<Rightarrow> False | Some (ph, hs) \<Rightarrow> c \<in> set hs)"

definition spec_leave :: "bool \<Rightarrow> int \<Rightarrow> agps_spec \<Rightarrow> (agps_spec \<times> share_out list) option" where
  "spec_leave b c S = (case S b of None \<Rightarrow> None
     | Some s \<Rightarrow> map_option (\<lambda>(s', os). (S(b := Some s'), os)) (spec_unsubscribe b c s))"

fun spec_call :: "agps_conf \<Rightarrow> agps_call \<Rightarrow> agps_spec \<Rightarrow> (agps_spec \<times> share_out list) option" where
  "spec_call cf (Create atl) S = Some (\<lambda>b. case S b of Some s \<Rightarrow> Some s
     | None \<Rightarrow> if (if b then agpsCapable cf \<and> atl AND AGPS_ATL_TYPE_SUPL \<noteq> 0 \<and> atl AND AGPS_ATL_TYPE_SUPL_ES \<noteq> 0
                   else atl AND AGPS_ATL_TYPE_WWAN \<noteq> 0) then Some (Idle, []) else None, [])"
| "spec_call cf (RequestATL c t k) S =
     (let b = nif_of_type (fst (requested_type cf t k))
      in case S b of None \<Rightarrow> Some (S, [Refused b c]) | Some s \<Rightarrow> on_conn b (spec_subscribe b c) S)"
| "spec_call cf (ReleaseATL c) S =
     (if serves True c S then spec_leave True c S
      else if serves False c S then spec_leave False c S else Some (S, []))"
| "spec_call cf (OpenSuccess t apn len br) S = on_conn (nif_of_type t) (spec_granted (nif_of_type t)) S"
| "spec_call cf (OpenFailed t) S = on_conn (nif_of_type t) (spec_denied (nif_of_type t)) S"
| "spec_call cf (ConnClosed t) S = on_conn (nif_of_type t) (spec_closed (nif_of_type t)) S"
| "spec_call cf ModemSSR S = Some (\<lambda>b. map_option (\<lambda>(ph, hs). (ph, [])) (S b), [])"

definition agps_refines :: "AgpsManager \<Rightarrow> (agps_spec \<times> share_out list) option \<Rightarrow> AgpsManager option \<Rightarrow> bool" where
  "agps_refines g sp r \<longleftrightarrow> (case sp of None \<Rightarrow> r = None
     | Some (S, os) \<Rightarrow> \<exists>g'. r = Some g' \<and> agps_inv g' \<and> agps_abs g' = S
         \<and> (\<exists>outs. agps_log (agps_env_of g') = agps_log (agps_env_of g) @ outs \<and> map abs_out outs = os))"

lemma agps_refinesI:
  assumes "r = Some g'" "agps_inv g'" "agps_abs g' = S" "agps_log (agps_env_of g') = agps_log (agps_env_of g) @ outs"
    and "map abs_out outs = os"
  shows "agps_refines g (Some (S, os)) r"
  using assms by (auto simp: agps_refines_def)

lemma abs_at: "nif b g = Some m \<Longrightarrow> agps_abs g b = Some (sm_abs (agps_env_of g) m)"
  "nif b g = None \<Longrightarrow> agps_abs g b = None"
  by (simp_all add: agps_abs_def)

text \<open>One event on one machine, lifted to the manager.\<close>

lemma machine_refines:
  assumes inv: "agps_inv g" and m: "nif b g = Some m"
    and run: "\<exists>e' m'. f = Some (e', m') \<and> sm_frame (agps_env_of g) m e' m' \<and> nif_of_type (mAgpsType m') = b
      \<and> sm_abs e' m' = a \<and> (\<exists>outs. agps_log e' = agps_log (agps_env_of g) @ outs \<and> map abs_out outs = os)"
  shows "agps_refines g (Some ((agps_abs g)(b := Some a), os)) (map_option (\<lambda>st. set_nif b st g) f)"
  using run set_nif_frame [OF inv m] by (auto intro!: agps_refinesI)

lemma setAPN_same [simp]:
  "mSubscriberList (setAPN apn len m) = mSubscriberList m" "mState (setAPN apn len m) = mState m"
  "mApnTypeMask (setAPN apn len m) = mApnTypeMask m" "mAgpsType (setAPN apn len m) = mAgpsType m"
  by (auto simp: setAPN_def split: option.split)

lemma sm_same:
  assumes "mSubscriberList m1 = mSubscriberList m" "mState m1 = mState m" "mApnTypeMask m1 = mApnTypeMask m"
  shows "sm_ok e m1 = sm_ok e m" "sm_abs e m1 = sm_abs e m" "sm_frame e m1 e' m' = sm_frame e m e' m'"
  using assms by (simp_all add: sm_ok_def sm_abs_def sub_conns_def sm_frame_def)

lemma report_refines:
  assumes inv: "agps_inv g" and b: "nif_of_type t = b"
    and f: "\<And>m. mSubscriberList (f m) = mSubscriberList m" "\<And>m. mState (f m) = mState m"
      "\<And>m. mApnTypeMask (f m) = mApnTypeMask m" "\<And>m. mAgpsType (f m) = mAgpsType m"
    and ev: "\<And>e m. sm_ok e m \<Longrightarrow> nif_of_type (mAgpsType m) = b \<Longrightarrow>
      \<exists>e' m'. processAgpsEvent ev (e, m) = Some (e', m') \<and> sm_frame e m e' m' \<and> mAgpsType m' = mAgpsType m
       \<and> sm_abs e' m' = fst (sp (sm_abs e m)) \<and> (\<exists>outs. agps_log e' = agps_log e @ outs \<and> map abs_out outs = snd (sp (sm_abs e m)))"
  shows "agps_refines g (on_conn b sp (agps_abs g)) (report_event t ev f g)"
proof (cases "nif b g")
  case None
  then show ?thesis
    by (simp add: on_conn_def abs_at report_event_def getAgpsStateMachine_def b agps_refines_def)
next
  case (Some m)
  let ?e = "agps_env_of g"
  note same = sm_same [of "f m" m, OF f(1,2,3)]
  have t: "nif_of_type (mAgpsType (f m)) = b" using agps_invD(2) [OF inv Some] f(4) by simp
  have "sm_ok ?e (f m)" using agps_invD(1) [OF inv Some] same(1) by simp
  from ev [OF this t] t
  have "\<exists>e' m'. processAgpsEvent ev (?e, f m) = Some (e', m') \<and> sm_frame ?e m e' m' \<and> nif_of_type (mAgpsType m') = b
      \<and> sm_abs e' m' = fst (sp (sm_abs ?e m)) \<and> (\<exists>outs. agps_log e' = agps_log ?e @ outs \<and> map abs_out outs = snd (sp (sm_abs ?e m)))"
    by (auto simp: same)
  from machine_refines [OF inv Some this] Some show ?thesis
    by (simp add: on_conn_def abs_at report_event_def getAgpsStateMachine_def b map_conv_bind_option comp_def)
qed

section \<open>The refinement\<close>

lemma create_refines: "agps_inv g \<Longrightarrow> agps_refines g (spec_call cf (Create atl) (agps_abs g)) (Some (createAgpsStateMachines cf atl g))"
proof -
  assume inv: "agps_inv g"
  let ?g = "createAgpsStateMachines cf atl g"
  have env: "agps_env_of ?g = agps_env_of g"
    by (simp add: createAgpsStateMachines_def Let_def)
  have nif: "nif b ?g = (case nif b g of Some m \<Rightarrow> Some m
     | None \<Rightarrow> if b then (if agpsCapable cf \<and> atl AND AGPS_ATL_TYPE_SUPL \<noteq> 0 \<and> atl AND AGPS_ATL_TYPE_SUPL_ES \<noteq> 0
                          then Some (new_AgpsStateMachine LOC_AGPS_TYPE_SUPL) else None)
              else if atl AND AGPS_ATL_TYPE_WWAN \<noteq> 0 then Some (new_AgpsStateMachine LOC_AGPS_TYPE_WWAN_ANY) else None)" for b
    by (cases b) (auto simp: createAgpsStateMachines_def nif_def Let_def split: option.split)
  have list: "nif_list b ?g = nif_list b g" for b
    by (auto simp: nif_list_def nif new_AgpsStateMachine_def split: option.split)
  have new: "sm_ok e (new_AgpsStateMachine t)" "sm_abs e (new_AgpsStateMachine t) = (Idle, [])" for e t
    by (auto simp: sm_ok_def sm_abs_def new_AgpsStateMachine_def sub_conns_def)
  have types: "nif_of_type (mAgpsType (new_AgpsStateMachine LOC_AGPS_TYPE_SUPL))"
    "\<not> nif_of_type (mAgpsType (new_AgpsStateMachine LOC_AGPS_TYPE_WWAN_ANY))"
    by (simp_all add: new_AgpsStateMachine_def nif_of_type_def LOC_AGPS_TYPE_SUPL_def LOC_AGPS_TYPE_WWAN_ANY_def
        LOC_AGPS_TYPE_INVALID_def LOC_AGPS_TYPE_SUPL_ES_def)
  have mem: "sm_ok (agps_env_of ?g) m \<and> nif_of_type (mAgpsType m) = b" if "nif b ?g = Some m" for b m
  proof (cases "nif b g")
    case None
    with that new(1) types show ?thesis unfolding env by (cases b) (auto simp: nif split: if_splits)
  next
    case (Some n)
    with that agps_invD [OF inv Some] show ?thesis unfolding env by (simp add: nif)
  qed
  have "agps_inv ?g"
  proof (rule agps_invI [of _ True])
    show "set (nif_list True ?g) \<inter> set (nif_list (\<not> True) ?g) = {}"
      "dom (sub_heap (agps_env_of ?g)) = set (nif_list True ?g) \<union> set (nif_list (\<not> True) ?g)"
      using inv unfolding list env by (simp_all add: agps_inv_def)
  qed (rule mem)
  moreover have "agps_abs ?g = fst (the (spec_call cf (Create atl) (agps_abs g)))"
    by (auto simp: agps_abs_def nif env new(2) fun_eq_iff split: option.split)
  ultimately show ?thesis
    by (auto simp: env agps_refines_def)
qed

lemma request_refines:
  assumes inv: "agps_inv g"
  shows "agps_refines g (spec_call cf (RequestATL c t0 k0) (agps_abs g)) (requestATL cf c t0 k0 g)"
proof -
  obtain t k where tk: "requested_type cf t0 k0 = (t, k)" by fastforce
  define b where "b = nif_of_type t"
  show ?thesis
  proof (cases "nif b g")
    case None
    let ?g = "g\<lparr>agps_env_of := log_out (AtlOpenStatus c 0 None 0 AGPS_APN_BEARER_INVALID t k) (agps_env_of g)\<rparr>"
    have nif: "nif d ?g = nif d g" for d by (simp add: nif_def)
    have list: "nif_list d ?g = nif_list d g" for d by (simp add: nif_list_def nif)
    have ok: "sm_ok (log_out x e) m = sm_ok e m" "sm_abs (log_out x e) m = sm_abs e m" for x e m
      by (simp_all add: sm_ok_def sm_abs_def sub_conns_def log_out_def)
    have "agps_inv ?g" using inv unfolding agps_inv_def nif list by (simp add: ok)
    moreover have "agps_abs ?g = agps_abs g" unfolding agps_abs_def nif by (simp add: ok [abs_def])
    moreover have "requestATL cf c t0 k0 g = Some ?g"
      "spec_call cf (RequestATL c t0 k0) (agps_abs g) = Some (agps_abs g, [Refused b c])"
      using None by (simp_all add: requestATL_def tk getAgpsStateMachine_def b_def [symmetric] abs_at)
    ultimately show ?thesis
      by (auto simp: agps_refines_def b_def)
  next
    case (Some m)
    let ?s = "\<lparr>mConnHandle = c, mWaitForCloseComplete = False, mIsInactive = False, sub_mApnTypeMask = k\<rparr>"
    obtain p e0 where new: "new_subscriber ?s (agps_env_of g) = (p, e0)" by fastforce
    let ?f = "map_option (\<lambda>(e1, m1). (e1\<lparr>sub_heap := (sub_heap e1)(p := None)\<rparr>, m1))
       (processAgpsEventSubscribe (e0, m\<lparr>mAgpsType := t, mApnTypeMask := Some k, mCurrentSubscriber := Some p\<rparr>))"
    have "\<exists>e' m'. ?f = Some (e', m') \<and> sm_frame (agps_env_of g) m e' m' \<and> nif_of_type (mAgpsType m') = b
      \<and> sm_abs e' m' = fst (spec_subscribe b c (sm_abs (agps_env_of g) m))
      \<and> (\<exists>outs. agps_log e' = agps_log (agps_env_of g) @ outs \<and> map abs_out outs = snd (spec_subscribe b c (sm_abs (agps_env_of g) m)))"
      using subscribe_machine [OF agps_invD(1) [OF inv Some] agps_inv_fresh [OF inv] b_def [symmetric] _ _ _ new, of c k]
      by (auto simp: b_def)
    from machine_refines [OF inv Some this] Some show ?thesis
      by (simp add: requestATL_def tk getAgpsStateMachine_def b_def [symmetric] new on_conn_def abs_at
          map_conv_bind_option case_prod_unfold)
  qed
qed

lemma search_plain:
  assumes "agps_inv g"
  shows "search_nif b c g = Some (find (\<lambda>a. sub_conn (agps_env_of g) a = c) (nif_list b g))"
  using agps_invD(1) [OF assms, of b] find_handle_plain [of _ "sub_heap (agps_env_of g)" c] plain_list
  by (auto simp: search_nif_def nif_list_def getSubscriber_def sub_conn_def split: option.split)

lemma serves_search:
  "serves b c (agps_abs g) \<longleftrightarrow> find (\<lambda>a. sub_conn (agps_env_of g) a = c) (nif_list b g) \<noteq> None"
  by (auto simp: serves_def agps_abs_def sm_abs_def sub_conns_def nif_list_def find_None_iff split: option.split)

lemma leave_refines:
  assumes inv: "agps_inv g" and p: "find (\<lambda>a. sub_conn (agps_env_of g) a = c) (nif_list b g) = Some p"
  shows "agps_refines g (spec_leave b c (agps_abs g)) (unsubscribe_nif b p g)"
proof -
  obtain m where m: "nif b g = Some m" using p by (cases "nif b g") (auto simp: nif_list_def)
  have p': "p \<in> set (mSubscriberList m)" "sub_conn (agps_env_of g) p = c"
    using p by (auto simp: nif_list_def m find_Some_iff)
  note u = unsubscribe_machine [OF agps_invD(1) [OF inv m] p' agps_invD(2) [OF inv m]]
  let ?f = "processAgpsEventUnsubscribe (agps_env_of g, m\<lparr>mCurrentSubscriber := Some p\<rparr>)"
  have run: "unsubscribe_nif b p g = map_option (\<lambda>st. set_nif b st g) ?f"
    by (simp add: unsubscribe_nif_def m map_conv_bind_option comp_def)
  show ?thesis
  proof (cases "spec_unsubscribe b c (sm_abs (agps_env_of g) m)")
    case None
    with u show ?thesis by (simp add: run spec_leave_def abs_at m agps_refines_def)
  next
    case (Some ao)
    obtain a os where ao: "ao = (a, os)" by fastforce
    have "\<exists>e' m'. ?f = Some (e', m') \<and> sm_frame (agps_env_of g) m e' m' \<and> nif_of_type (mAgpsType m') = b
      \<and> sm_abs e' m' = a \<and> (\<exists>outs. agps_log e' = agps_log (agps_env_of g) @ outs \<and> map abs_out outs = os)"
      using u agps_invD(2) [OF inv m] by (auto simp: Some ao)
    from machine_refines [OF inv m this] show ?thesis
      by (simp add: run spec_leave_def abs_at m Some ao)
  qed
qed

lemma release_refines:
  assumes inv: "agps_inv g"
  shows "agps_refines g (spec_call cf (ReleaseATL c) (agps_abs g)) (releaseATL c g)"
proof -
  let ?find = "\<lambda>b. find (\<lambda>a. sub_conn (agps_env_of g) a = c) (nif_list b g)"
  note s = search_plain [OF inv]
  have idle: "agps_refines g (Some (agps_abs g, [])) (Some g)"
    using inv by (simp add: agps_refines_def)
  show ?thesis
  proof (cases "?find True")
    case (Some p)
    then show ?thesis
      using leave_refines [OF inv Some] by (simp add: releaseATL_def s serves_search)
  next
    case None
    show ?thesis
    proof (cases "?find False")
      case (Some p)
      then show ?thesis
        using leave_refines [OF inv Some] None by (simp add: releaseATL_def s serves_search)
    next
      case None2: None
      have r: "spec_call cf (ReleaseATL c) (agps_abs g) = Some (agps_abs g, [])" "releaseATL c g = Some g"
        using None None2 by (simp_all add: releaseATL_def s serves_search)
      show ?thesis unfolding r by (rule idle)
    qed
  qed
qed

lemma drop_refines:
  assumes inv: "agps_inv g"
  shows "\<exists>g'. drop_nif b g = Some g' \<and> agps_inv g' \<and> agps_log (agps_env_of g') = agps_log (agps_env_of g)
    \<and> agps_abs g' = (agps_abs g)(b := map_option (\<lambda>(ph, hs). (ph, [])) (agps_abs g b))"
proof (cases "nif b g")
  case None
  with inv show ?thesis by (auto simp: drop_nif_def abs_at fun_eq_iff)
next
  case (Some m)
  let ?e = "agps_env_of g" let ?l = "mSubscriberList m"
  have ok: "sm_ok ?e m" and t: "nif_of_type (mAgpsType m) = b" using agps_invD [OF inv Some] by auto
  have "distinct ?l" using ok by (simp add: sm_ok_def)
  then have run: "drop_nif b g = Some (set_nif b (drop_subs ?l ?e, m\<lparr>mSubscriberList := []\<rparr>) g)"
    using free_all_plain [OF plain_list [OF ok]]
    by (simp add: drop_nif_def Some dropAllSubscribers_def drop_subs_def)
  have "sm_frame ?e m (drop_subs ?l ?e) (m\<lparr>mSubscriberList := []\<rparr>)"
    using ok list_dom [OF ok] by (auto simp: sm_frame_def sm_ok_def sub_conns_def split: if_splits)
  from set_nif_frame [OF inv Some this] t Some show ?thesis
    by (auto simp: run abs_at sm_abs_def sub_conns_def)
qed

lemma ssr_refines:
  assumes inv: "agps_inv g"
  shows "agps_refines g (spec_call cf ModemSSR (agps_abs g)) (handleModemSSR g)"
proof -
  obtain g1 where g1: "drop_nif True g = Some g1" "agps_inv g1" "agps_log (agps_env_of g1) = agps_log (agps_env_of g)"
    "agps_abs g1 = (agps_abs g)(True := map_option (\<lambda>(ph, hs). (ph, [])) (agps_abs g True))"
    using drop_refines [OF inv, of True] by auto
  obtain g2 where g2: "drop_nif False g1 = Some g2" "agps_inv g2" "agps_log (agps_env_of g2) = agps_log (agps_env_of g1)"
    "agps_abs g2 = (agps_abs g1)(False := map_option (\<lambda>(ph, hs). (ph, [])) (agps_abs g1 False))"
    using drop_refines [OF g1(2), of False] by auto
  have "agps_abs g2 = (\<lambda>b. map_option (\<lambda>(ph, hs). (ph, [])) (agps_abs g b))"
    by (auto simp: g2(4) g1(4) fun_eq_iff all_bool_eq)
  with g1 g2 show ?thesis
    by (auto simp: handleModemSSR_def intro!: agps_refinesI)
qed

lemma agps_call_refines:
  assumes "agps_inv g"
  shows "agps_refines g (spec_call cf c (agps_abs g)) (agps_do cf c g)"
proof (cases c)
  case (Create atl) then show ?thesis using create_refines [OF assms] by (simp del: spec_call.simps)
next
  case (RequestATL c t k) then show ?thesis using request_refines [OF assms] by (simp del: spec_call.simps)
next
  case (ReleaseATL c) then show ?thesis using release_refines [OF assms] by (simp del: spec_call.simps)
next
  case (OpenSuccess t apn len br)
  then show ?thesis
    using report_refines [OF assms refl, where ev = AGPS_EVENT_GRANTED and f = "\<lambda>m. setAPN apn len (m\<lparr>mBearer := br\<rparr>)"] granted_machine
    by (simp add: reportAtlOpenSuccess_def)
next
  case (OpenFailed t)
  then show ?thesis
    using report_refines [OF assms refl, where ev = AGPS_EVENT_DENIED and f = "\<lambda>m. m"] denied_machine
    by (simp add: reportAtlOpenFailed_def)
next
  case (ConnClosed t)
  then show ?thesis
    using report_refines [OF assms refl, where ev = AGPS_EVENT_RELEASED and f = "\<lambda>m. m"] released_machine
    by (simp add: reportAtlClosed_def)
next
  case ModemSSR then show ?thesis using ssr_refines [OF assms] by (simp del: spec_call.simps)
qed

end
