(* ===== verification/Agps_Props.thy ===== *)
theory Agps_Props
  imports Agps_Refine
begin

text \<open>
  Runs of the manager, the message loop of the adapter above it (\<open>GnssAdapter.cpp\<close>), and the
  properties of both.
\<close>

section \<open>Runs\<close>

fun agps_run :: "agps_conf \<Rightarrow> agps_call list \<Rightarrow> AgpsManager \<Rightarrow> AgpsManager option" where
  "agps_run cf [] g = Some g"
| "agps_run cf (c # cs) g = do { g1 \<leftarrow> agps_do cf c g; agps_run cf cs g1 }"

fun spec_run :: "agps_conf \<Rightarrow> agps_call list \<Rightarrow> agps_spec \<Rightarrow> (agps_spec \<times> share_out list) option" where
  "spec_run cf [] S = Some (S, [])"
| "spec_run cf (c # cs) S = do {
     (S1, o1) \<leftarrow> spec_call cf c S;
     (S2, o2) \<leftarrow> spec_run cf cs S1;
     Some (S2, o1 @ o2)
   }"

definition no_machines :: agps_spec where "no_machines = (\<lambda>b. None)"

lemma new_manager [simp]: "agps_inv new_AgpsManager" "agps_abs new_AgpsManager = no_machines"
  "agps_log (agps_env_of new_AgpsManager) = []"
  by (simp_all add: agps_inv_def new_AgpsManager_def nif_def nif_list_def agps_abs_def no_machines_def fun_eq_iff)

lemma agps_run_refines:
  "agps_inv g \<Longrightarrow> agps_refines g (spec_run cf cs (agps_abs g)) (agps_run cf cs g)"
proof (induction cs arbitrary: g)
  case Nil
  then show ?case by (simp add: agps_refines_def)
next
  case (Cons c cs)
  note r = agps_call_refines [OF Cons.prems, of cf c]
  show ?case
  proof (cases "spec_call cf c (agps_abs g)")
    case None
    with r show ?thesis by (simp add: agps_refines_def)
  next
    case (Some so)
    obtain S os where so: "so = (S, os)" by fastforce
    from r obtain g1 outs where g1: "agps_do cf c g = Some g1" "agps_inv g1" "agps_abs g1 = S"
      "agps_log (agps_env_of g1) = agps_log (agps_env_of g) @ outs" "map abs_out outs = os"
      by (auto simp: Some so agps_refines_def)
    from Cons.IH [OF g1(2)] g1 show ?thesis
      by (cases "spec_run cf cs S") (auto simp: Some so agps_refines_def)
  qed
qed

lemma agps_run_inv: "agps_run cf cs new_AgpsManager = Some g \<Longrightarrow> agps_inv g"
  using agps_run_refines [of new_AgpsManager cf cs] by (auto simp: agps_refines_def split: option.splits)

definition agps_clients :: "bool \<Rightarrow> AgpsManager \<Rightarrow> int list" where
  "agps_clients b g = (case nif b g of None \<Rightarrow> [] | Some m \<Rightarrow> sub_conns (agps_env_of g) m)"

definition held :: "bool \<Rightarrow> AgpsManager \<Rightarrow> bool" where
  "held b g \<longleftrightarrow> (case nif b g of None \<Rightarrow> False | Some m \<Rightarrow> mState m \<noteq> AGPS_STATE_RELEASED)"

definition spec_held :: "bool \<Rightarrow> agps_spec \<Rightarrow> bool" where
  "spec_held b S \<longleftrightarrow> (case S b of None \<Rightarrow> False | Some (ph, hs) \<Rightarrow> ph \<noteq> Idle)"

definition spec_clients :: "bool \<Rightarrow> agps_spec \<Rightarrow> int list" where
  "spec_clients b S = (case S b of None \<Rightarrow> [] | Some (ph, hs) \<Rightarrow> hs)"

lemma held_abs: "agps_inv g \<Longrightarrow> held b g = spec_held b (agps_abs g)"
proof -
  assume "agps_inv g"
  then have "mState m \<noteq> AGPS_STATE_RELEASING" if "nif b g = Some m" for m
    using that agps_invD(1) by (auto simp: sm_ok_def)
  then show ?thesis
    by (cases "nif b g") (auto simp: held_def spec_held_def agps_abs_def sm_abs_def elim: phase_of.elims)
qed

lemma agps_clients_abs: "agps_clients b g = spec_clients b (agps_abs g)"
  by (simp add: agps_clients_def spec_clients_def agps_abs_def sm_abs_def split: option.split)

section \<open>Connections and clients\<close>

definition spec_tight :: "agps_spec \<Rightarrow> bool" where
  "spec_tight S \<longleftrightarrow> (\<forall>b ph hs. S b = Some (ph, hs) \<longrightarrow> (ph = Idle \<longleftrightarrow> hs = []))"

lemma share_add_ne [simp]: "share_add c hs \<noteq> []"
  by (auto simp: share_add_def)

definition share_tight :: "agps_share \<Rightarrow> bool" where
  "share_tight s \<longleftrightarrow> (fst s = Idle \<longleftrightarrow> snd s = [])"

lemma spec_tightD: "spec_tight S \<Longrightarrow> S b = Some s \<Longrightarrow> share_tight s"
  by (cases s) (auto simp: spec_tight_def share_tight_def)

lemma spec_tight_upd: "spec_tight S \<Longrightarrow> share_tight s \<Longrightarrow> spec_tight (S(b := Some s))"
  by (auto simp: spec_tight_def share_tight_def)

lemma share_tight_steps:
  assumes "share_tight s"
  shows "share_tight (fst (spec_subscribe b h s))" "share_tight (fst (spec_granted b s))"
    "share_tight (fst (spec_denied b s))" "share_tight (fst (spec_closed b s))"
    "spec_unsubscribe b h s = Some (s', os) \<Longrightarrow> share_tight s'"
  using assms by (cases s; cases "fst s"; auto simp: share_tight_def split: if_splits)+

lemma spec_tight_call:
  assumes "spec_tight S" "c \<noteq> ModemSSR" "spec_call cf c S = Some (S', os)"
  shows "spec_tight S'"
proof -
  note steps = spec_tight_upd [OF assms(1)] share_tight_steps [OF spec_tightD [OF assms(1)]]
  have leave: "spec_tight S'" if "spec_leave b h S = Some (S', os)" for b h
    using that by (auto simp: spec_leave_def steps split: option.splits)
  show ?thesis
  proof (cases c)
    case (Create atl)
    with assms(3) have S': "S' = (\<lambda>b. case S b of Some s \<Rightarrow> Some s | None \<Rightarrow> if (if b then agpsCapable cf
        \<and> atl AND AGPS_ATL_TYPE_SUPL \<noteq> 0 \<and> atl AND AGPS_ATL_TYPE_SUPL_ES \<noteq> 0
        else atl AND AGPS_ATL_TYPE_WWAN \<noteq> 0) then Some (Idle, []) else None)" by simp
    have "S' b = S b \<or> S' b = Some (Idle, [])" for b
      by (simp add: S' split: option.split)
    with assms(1) show ?thesis unfolding spec_tight_def by (metis option.inject prod.inject)
  next
    case (ReleaseATL h)
    with assms leave show ?thesis by (auto split: if_splits)
  qed (use assms in \<open>auto simp: on_conn_def Let_def steps split: option.splits\<close>)
qed

lemma spec_tight_run:
  "spec_tight S \<Longrightarrow> ModemSSR \<notin> set cs \<Longrightarrow> spec_run cf cs S = Some (S', os) \<Longrightarrow> spec_tight S'"
proof (induction cs arbitrary: S os)
  case (Cons c cs)
  then obtain S1 o1 o2 where "spec_call cf c S = Some (S1, o1)" "spec_run cf cs S1 = Some (S', o2)"
    by (auto split: bind_splits)
  with Cons spec_tight_call [of S c cf S1 o1] show ?case by auto
qed simp

section \<open>The message loop of the adapter\<close>

text \<open>
  \<open>GnssAdapter\<close> turns the calls of the modem and of the framework into messages for its thread.
  Only \<open>dataConnOpenCommand\<close> calls the manager at once, when the name of the access point is not
  usable.
\<close>

datatype agps_cmd =
    initAgpsCommand u32
  | requestATL_cmd int AGpsExtType LocApnTypeMask
  | releaseATL_cmd int
  | dataConnOpenCommand AGpsExtType "string option" int AGpsBearerType
  | dataConnClosedCommand AGpsExtType
  | dataConnFailedCommand AGpsExtType

record gnss_agps =
  mAgpsManager :: AgpsManager
  agps_msgs :: "agps_call list"

definition apn_usable :: "string option \<Rightarrow> int \<Rightarrow> bool" where
  "apn_usable apn n \<longleftrightarrow> (case apn of None \<Rightarrow> False
     | Some s \<Rightarrow> \<not> (n \<le> 0 \<or> uint MAX_APN_LEN < n \<or> int (length s) \<noteq> n))"

definition post_msg :: "agps_call \<Rightarrow> gnss_agps \<Rightarrow> gnss_agps" where
  "post_msg c a = a\<lparr>agps_msgs := agps_msgs a @ [c]\<rparr>"

definition initAgps :: "agps_conf \<Rightarrow> u32 \<Rightarrow> AgpsManager \<Rightarrow> AgpsManager" where
  "initAgps cf atl g = (if \<not> agpsCapable cf then g else createAgpsStateMachines cf atl g)"

fun adapter_cmd :: "agps_cmd \<Rightarrow> gnss_agps \<Rightarrow> gnss_agps option" where
  "adapter_cmd (initAgpsCommand atl) a = Some (post_msg (Create atl) a)"
| "adapter_cmd (requestATL_cmd c t k) a = Some (post_msg (RequestATL c t k) a)"
| "adapter_cmd (releaseATL_cmd c) a = Some (post_msg (ReleaseATL c) a)"
| "adapter_cmd (dataConnOpenCommand t apn n b) a =
     (if \<not> apn_usable apn n then do {
        g \<leftarrow> reportAtlClosed t (mAgpsManager a);
        Some (a\<lparr>mAgpsManager := g\<rparr>)
      }
      else Some (post_msg (OpenSuccess t apn (word_of_int n) b) a))"
| "adapter_cmd (dataConnClosedCommand t) a = Some (post_msg (ConnClosed t) a)"
| "adapter_cmd (dataConnFailedCommand t) a = Some (post_msg (OpenFailed t) a)"

text \<open>The thread takes the first message; \<open>Create\<close> is the message of \<open>initAgpsCommand\<close>.\<close>

definition proc_msg :: "agps_conf \<Rightarrow> agps_call \<Rightarrow> AgpsManager \<Rightarrow> AgpsManager option" where
  "proc_msg cf c g = (case c of Create atl \<Rightarrow> Some (initAgps cf atl g) | _ \<Rightarrow> agps_do cf c g)"

definition adapter_proc :: "agps_conf \<Rightarrow> gnss_agps \<Rightarrow> gnss_agps option" where
  "adapter_proc cf a = (case agps_msgs a of [] \<Rightarrow> Some a
     | c # cs \<Rightarrow> do {
         g \<leftarrow> proc_msg cf c (mAgpsManager a);
         Some (a\<lparr>mAgpsManager := g, agps_msgs := cs\<rparr>)
       })"

text \<open>A run: commands of the other threads and steps of the adapter's thread in any order.\<close>

fun adapter_run :: "agps_conf \<Rightarrow> agps_cmd option list \<Rightarrow> gnss_agps \<Rightarrow> gnss_agps option" where
  "adapter_run cf [] a = Some a"
| "adapter_run cf (x # xs) a = do {
     a1 \<leftarrow> (case x of Some c \<Rightarrow> adapter_cmd c a | None \<Rightarrow> adapter_proc cf a);
     adapter_run cf xs a1
   }"

definition new_gnss_agps :: gnss_agps where
  "new_gnss_agps = \<lparr>mAgpsManager = new_AgpsManager, agps_msgs = []\<rparr>"

text \<open>
  What a message loop needs of the object its messages are about: every message it can post and
  every direct call keeps the invariant.
\<close>

locale message_loop =
  fixes I :: "'s \<Rightarrow> bool" and ok_msg :: "'m \<Rightarrow> bool" and handle :: "'m \<Rightarrow> 's \<Rightarrow> 's option"
  assumes handle_keeps: "I s \<Longrightarrow> ok_msg m \<Longrightarrow> handle m s = Some s' \<Longrightarrow> I s'"
begin

definition loop_inv :: "'s \<times> 'm list \<Rightarrow> bool" where
  "loop_inv p \<longleftrightarrow> I (fst p) \<and> (\<forall>m \<in> set (snd p). ok_msg m)"

lemma post: "loop_inv (s, ms) \<Longrightarrow> ok_msg m \<Longrightarrow> loop_inv (s, ms @ [m])"
  by (auto simp: loop_inv_def)

lemma direct: "loop_inv (s, ms) \<Longrightarrow> ok_msg m \<Longrightarrow> handle m s = Some s' \<Longrightarrow> loop_inv (s', ms)"
  using handle_keeps by (auto simp: loop_inv_def)

lemma take: "loop_inv (s, m # ms) \<Longrightarrow> handle m s = Some s' \<Longrightarrow> loop_inv (s', ms)"
  using handle_keeps by (auto simp: loop_inv_def)

end

definition agps_reached :: "agps_conf \<Rightarrow> AgpsManager \<Rightarrow> bool" where
  "agps_reached cf g \<longleftrightarrow> (\<exists>cs. ModemSSR \<notin> set cs \<and> agps_run cf cs new_AgpsManager = Some g)"

lemma agps_run_append: "agps_run cf (cs @ ds) g = do { g1 \<leftarrow> agps_run cf cs g; agps_run cf ds g1 }"
  by (induction cs arbitrary: g) (simp_all split: bind_splits)

lemma reached_do:
  assumes "agps_reached cf g" "c \<noteq> ModemSSR" "agps_do cf c g = Some g'"
  shows "agps_reached cf g'"
proof -
  obtain cs where "ModemSSR \<notin> set cs" "agps_run cf cs new_AgpsManager = Some g"
    using assms(1) by (auto simp: agps_reached_def)
  with assms(2,3) have "ModemSSR \<notin> set (cs @ [c])" "agps_run cf (cs @ [c]) new_AgpsManager = Some g'"
    by (auto simp: agps_run_append)
  then show ?thesis unfolding agps_reached_def by blast
qed

lemma reached_proc:
  "agps_reached cf g \<Longrightarrow> c \<noteq> ModemSSR \<Longrightarrow> proc_msg cf c g = Some g' \<Longrightarrow> agps_reached cf g'"
  using reached_do [of cf g c g'] by (cases c) (auto simp: proc_msg_def initAgps_def split: if_splits)

interpretation al: message_loop "agps_reached cf" "\<lambda>c. c \<noteq> ModemSSR" "proc_msg cf" for cf
  by unfold_locales (rule reached_proc)

lemma adapter_run_reached:
  "adapter_run cf xs a = Some a' \<Longrightarrow> al.loop_inv cf (mAgpsManager a, agps_msgs a) \<Longrightarrow>
   al.loop_inv cf (mAgpsManager a', agps_msgs a')"
proof (induction xs arbitrary: a)
  case (Cons x xs)
  then obtain a1 where a1: "(case x of Some c \<Rightarrow> adapter_cmd c a | None \<Rightarrow> adapter_proc cf a) = Some a1"
    "adapter_run cf xs a1 = Some a'" by (auto split: bind_splits)
  have "al.loop_inv cf (mAgpsManager a1, agps_msgs a1)"
  proof (cases x)
    case None
    with a1 Cons.prems(2) show ?thesis
      by (auto simp: adapter_proc_def split: list.splits bind_splits dest: al.take)
  next
    case (Some c)
    with a1(1) have c: "adapter_cmd c a = Some a1" by simp
    have close: "al.loop_inv cf (g, agps_msgs a)" if "reportAtlClosed t (mAgpsManager a) = Some g" for t g
      using al.direct [OF Cons.prems(2), of "ConnClosed t" g] that by (simp add: proc_msg_def)
    from c al.post [OF Cons.prems(2)] close show ?thesis
      by (cases c) (auto simp: post_msg_def split: if_splits bind_splits)
  qed
  with Cons.IH a1(2) show ?case by blast
qed simp

lemma reached_new: "agps_reached cf new_AgpsManager"
  unfolding agps_reached_def by (rule exI [of _ "[]"]) simp

lemma adapter_reached:
  assumes "adapter_run cf xs new_gnss_agps = Some a"
  shows "agps_reached cf (mAgpsManager a)"
  using adapter_run_reached [OF assms] reached_new by (auto simp: al.loop_inv_def new_gnss_agps_def)

lemma reached_tight: "agps_reached cf g \<Longrightarrow> agps_inv g \<and> spec_tight (agps_abs g)"
proof -
  assume "agps_reached cf g"
  then obtain cs where cs: "ModemSSR \<notin> set cs" "agps_run cf cs new_AgpsManager = Some g"
    by (auto simp: agps_reached_def)
  have "spec_tight no_machines" by (simp add: spec_tight_def no_machines_def)
  with agps_run_refines [of new_AgpsManager cf cs] cs spec_tight_run [of no_machines cs cf] show ?thesis
    by (auto simp: agps_refines_def split: option.splits)
qed

section \<open>Properties\<close>

text \<open>
  C5: in every sequence of calls the manager behaves as two connections shared by lists of
  clients: it faults exactly when the specification has no step, and otherwise ends with the
  phases and clients of the specification and has sent the messages of the specification, in
  this order.
\<close>

theorem agps_refines_sharing:
  "case spec_run cf cs no_machines of
     None \<Rightarrow> agps_run cf cs new_AgpsManager = None
   | Some (S, os) \<Rightarrow> \<exists>g. agps_run cf cs new_AgpsManager = Some g \<and> agps_abs g = S
       \<and> map abs_out (agps_log (agps_env_of g)) = os"
  using agps_run_refines [of new_AgpsManager cf cs]
  by (auto simp: agps_refines_def split: option.splits prod.splits)

text \<open>
  C12: after any interleaving of commands and messages of the adapter a data connection is asked
  for or up exactly while it has clients, no client is in a list twice, the machine never waits
  for a release, and the subscribers in memory are those of the lists: none is leaked.
\<close>

theorem agps_connection_held:
  assumes "adapter_run cf xs new_gnss_agps = Some a"
  shows "(held b (mAgpsManager a) \<longleftrightarrow> agps_clients b (mAgpsManager a) \<noteq> []) \<and> distinct (agps_clients b (mAgpsManager a))
    \<and> (\<forall>m. nif b (mAgpsManager a) = Some m \<longrightarrow> mState m \<noteq> AGPS_STATE_RELEASING)
    \<and> dom (sub_heap (agps_env_of (mAgpsManager a))) = set (nif_list True (mAgpsManager a)) \<union> set (nif_list False (mAgpsManager a))"
proof -
  let ?g = "mAgpsManager a"
  have inv: "agps_inv ?g" and tight: "spec_tight (agps_abs ?g)"
    using reached_tight [OF adapter_reached [OF assms]] by auto
  have "held b ?g \<longleftrightarrow> agps_clients b ?g \<noteq> []"
    using tight unfolding held_abs [OF inv] agps_clients_abs
    by (auto simp: spec_held_def spec_clients_def spec_tight_def split: option.split)
  moreover have "distinct (agps_clients b ?g)"
    using agps_invD(1) [OF inv] by (auto simp: agps_clients_def sm_ok_def split: option.split)
  ultimately show ?thesis
    using inv agps_invD(1) [OF inv] by (auto simp: agps_inv_def sm_ok_def)
qed

definition sample_conf :: agps_conf where
  "sample_conf = \<lparr>CAPABILITIES = 6, USE_EMERGENCY_PDN = 1\<rparr>"

text \<open>A run with two clients on the SUPL connection, the second one still waiting.\<close>

lemmas agps_eval = sample_conf_def new_AgpsManager_def new_gnss_agps_def createAgpsStateMachines_def agpsCapable_def
  LOC_GPS_CAPABILITY_MSA_def LOC_GPS_CAPABILITY_MSB_def AGPS_ATL_TYPE_WWAN_def AGPS_ATL_TYPE_SUPL_def AGPS_ATL_TYPE_SUPL_ES_def
  LOC_AGPS_TYPE_WWAN_ANY_def LOC_AGPS_TYPE_SUPL_def LOC_AGPS_TYPE_SUPL_ES_def LOC_AGPS_TYPE_INVALID_def
  new_AgpsStateMachine_def requestATL_def requested_type_def getAgpsStateMachine_def nif_of_type_def nif_def set_nif_def
  new_subscriber_def processAgpsEventSubscribe_def addSubscriber_def requestOrReleaseDataConn_def transitionState_def log_out_def
  notifyEventToSubscriber_def sub_equals_def AGPS_APN_BEARER_INVALID_def

lemma agps_connection_held_witness:
  "\<exists>a. adapter_run sample_conf
      [Some (initAgpsCommand 7), None, Some (requestATL_cmd 1 1 16), None, Some (requestATL_cmd 2 1 16), None] new_gnss_agps = Some a
    \<and> held True (mAgpsManager a)"
proof -
  let ?xs = "[Some (initAgpsCommand 7), None, Some (requestATL_cmd 1 1 16), None, Some (requestATL_cmd 2 1 16), None]"
  have run: "map_option (\<lambda>a. agps_clients True (mAgpsManager a)) (adapter_run sample_conf ?xs new_gnss_agps) = Some [1, 2]"
    by (simp add: agps_eval post_msg_def adapter_proc_def proc_msg_def initAgps_def agps_clients_def sub_conns_def sub_conn_def)
  then obtain a where a: "adapter_run sample_conf ?xs new_gnss_agps = Some a" "agps_clients True (mAgpsManager a) = [1, 2]"
    by auto
  from agps_connection_held [OF a(1), of True] a show ?thesis by auto
qed

lemma serves_clients: "serves b c (agps_abs g) \<longleftrightarrow> c \<in> set (agps_clients b g)"
  by (simp add: serves_def agps_abs_def agps_clients_def sm_abs_def split: option.split)

lemma leave_None:
  "serves b c (agps_abs g) \<Longrightarrow> spec_leave b c (agps_abs g) = None \<longleftrightarrow> c \<noteq> last (agps_clients b g)"
  by (auto simp: serves_def spec_leave_def agps_clients_abs spec_clients_def split: option.split_asm if_splits)

lemma refines_None: "agps_refines g sp r \<Longrightarrow> r = None \<longleftrightarrow> sp = None"
  by (auto simp: agps_refines_def split: option.splits)

text \<open>
  C20: the calls that touch memory they must not: a release faults exactly when the client is
  not the last one of its list (\<open>deleteSubscriber\<close> goes on comparing with the subscriber it has
  freed), a report of the framework exactly when its machine was never created (the pointer is
  not tested). No other call faults.
\<close>

theorem agps_faults:
  assumes "agps_run cf cs new_AgpsManager = Some g"
  shows "agps_do cf c g = None \<longleftrightarrow> (case c of
      ReleaseATL h \<Rightarrow> if h \<in> set (agps_clients True g) then h \<noteq> last (agps_clients True g)
                      else h \<in> set (agps_clients False g) \<and> h \<noteq> last (agps_clients False g)
    | OpenSuccess t apn len br \<Rightarrow> nif (nif_of_type t) g = None
    | OpenFailed t \<Rightarrow> nif (nif_of_type t) g = None
    | ConnClosed t \<Rightarrow> nif (nif_of_type t) g = None
    | _ \<Rightarrow> False)"
proof -
  have "agps_do cf c g = None \<longleftrightarrow> spec_call cf c (agps_abs g) = None"
    by (rule refines_None [OF agps_call_refines [OF agps_run_inv [OF assms]]])
  also have "\<dots> \<longleftrightarrow> (case c of
      ReleaseATL h \<Rightarrow> if h \<in> set (agps_clients True g) then h \<noteq> last (agps_clients True g)
                      else h \<in> set (agps_clients False g) \<and> h \<noteq> last (agps_clients False g)
    | OpenSuccess t apn len br \<Rightarrow> nif (nif_of_type t) g = None
    | OpenFailed t \<Rightarrow> nif (nif_of_type t) g = None
    | ConnClosed t \<Rightarrow> nif (nif_of_type t) g = None
    | _ \<Rightarrow> False)"
    by (cases c) (auto simp: on_conn_def agps_abs_def Let_def leave_None [unfolded agps_abs_def]
        serves_clients [unfolded agps_abs_def] split: option.split)
  finally show ?thesis .
qed

lemma two_clients:
  "\<exists>g. agps_run sample_conf [Create 7, RequestATL 1 1 16, RequestATL 2 1 16] new_AgpsManager = Some g
    \<and> agps_clients True g = [1, 2]"
proof -
  have "map_option (agps_clients True) (agps_run sample_conf [Create 7, RequestATL 1 1 16, RequestATL 2 1 16] new_AgpsManager) = Some [1, 2]"
    by (simp add: agps_eval agps_clients_def sub_conns_def sub_conn_def)
  then show ?thesis by auto
qed

lemma agps_faults_witness:
  "\<exists>g. agps_run sample_conf [Create 7, RequestATL 1 1 16, RequestATL 2 1 16] new_AgpsManager = Some g
    \<and> releaseATL 1 g = None"
proof -
  obtain g where g: "agps_run sample_conf [Create 7, RequestATL 1 1 16, RequestATL 2 1 16] new_AgpsManager = Some g"
    "agps_clients True g = [1, 2]" using two_clients by blast
  from agps_faults [OF g(1), of "ReleaseATL 1"] g show ?thesis by simp
qed

text \<open>
  C29: when the framework has opened the connection with a usable access point name, every client that
  waits is told so, in the order of their requests, with this name, bearer and the type and mask
  of the last request, and the connection is up.
\<close>

theorem open_success_answers_all:
  assumes run: "agps_run cf cs new_AgpsManager = Some g" and m: "nif (nif_of_type t) g = Some m"
    and st: "mState m = AGPS_STATE_PENDING" and apn: "apn_usable (Some s) (uint len)"
  shows "\<exists>g' m' k. reportAtlOpenSuccess t (Some s) len br g = Some g' \<and> nif (nif_of_type t) g' = Some m'
    \<and> mState m' = AGPS_STATE_ACQUIRED \<and> mApnTypeMask m = Some k
    \<and> agps_log (agps_env_of g') = agps_log (agps_env_of g)
        @ map (\<lambda>c. AtlOpenStatus c 1 (Some s) len br (mAgpsType m) k) (agps_clients (nif_of_type t) g)"
proof -
  let ?e = "agps_env_of g"
  have ok: "sm_ok ?e m" using agps_invD(1) [OF agps_run_inv [OF run] m] .
  then obtain k where k: "mApnTypeMask m = Some k" using st by (auto simp: sm_ok_def)
  have "\<not> len \<le> 0 \<and> \<not> MAX_APN_LEN < len \<and> length s = unat len"
    using apn by (auto simp: apn_usable_def word_less_def word_le_def nat_eq_iff2 simp flip: nat_uint_eq)
  then have f: "setAPN (Some s) len (m\<lparr>mBearer := br\<rparr>) = m\<lparr>mBearer := br, mAPN := Some s, mAPNLen := len\<rparr>"
    by (simp add: setAPN_def)
  let ?m = "m\<lparr>mBearer := br, mAPN := Some s, mAPNLen := len\<rparr>"
  have "processAgpsEventGranted (?e, ?m) = Some (?e\<lparr>agps_log := agps_log ?e @
      map (\<lambda>a. open_message 1 (?m\<lparr>mState := AGPS_STATE_ACQUIRED\<rparr>) (sub_conn ?e a)) (mSubscriberList m)\<rparr>, ?m\<lparr>mState := AGPS_STATE_ACQUIRED\<rparr>)"
    using st plain_list [OF ok] k
    by (simp add: processAgpsEventGranted_def notifyAllSubscribers_def transitionState_def notify_all_granted)
  then show ?thesis
    using m k by (simp add: reportAtlOpenSuccess_def report_event_def getAgpsStateMachine_def f agps_clients_def sub_conns_def open_message_def)
qed

lemma open_success_answers_all_witness:
  "\<exists>g g'. agps_run sample_conf [Create 7, RequestATL 1 1 16, RequestATL 2 1 16] new_AgpsManager = Some g
    \<and> reportAtlOpenSuccess 1 (Some ''apn'') 3 1 g = Some g'"
proof -
  let ?r = "agps_run sample_conf [Create 7, RequestATL 1 1 16, RequestATL 2 1 16] new_AgpsManager"
  have "map_option (\<lambda>g. map_option mState (nif True g)) ?r = Some (Some AGPS_STATE_PENDING)"
    by (simp add: agps_eval)
  then obtain g m where g: "?r = Some g" "nif True g = Some m" "mState m = AGPS_STATE_PENDING" by auto
  have t: "nif_of_type 1" by (simp add: nif_of_type_def LOC_AGPS_TYPE_SUPL_def)
  have "apn_usable (Some ''apn'') (uint (3 :: u32))" by (simp add: apn_usable_def MAX_APN_LEN_def)
  with open_success_answers_all [OF g(1), of 1 m "''apn''" 3 1] g t
  have "\<exists>g'. reportAtlOpenSuccess 1 (Some ''apn'') 3 1 g = Some g'" by auto
  with g(1) show ?thesis by blast
qed

text \<open>
  when the framework opens the connection with an access point name that is not usable, the adapter
  reports a closed connection to a machine that waits for an open one, which ignores it: nothing changes, no client is
  told that its request has failed.
\<close>

theorem bad_apn_is_swallowed:
  assumes "nif (nif_of_type t) (mAgpsManager a) = Some m" "mState m = AGPS_STATE_PENDING" "\<not> apn_usable apn n"
  shows "adapter_cmd (dataConnOpenCommand t apn n br) a = Some a"
proof -
  have "set_nif (nif_of_type t) (agps_env_of g, m) g = g" if "nif (nif_of_type t) g = Some m" for g
    using that by (cases g) (auto simp: set_nif_def nif_def split: if_splits)
  then show ?thesis
    using assms by (simp add: reportAtlClosed_def report_event_def getAgpsStateMachine_def processAgpsEventReleased_def)
qed

lemma bad_apn_is_swallowed_witness:
  "\<exists>a. adapter_run sample_conf [Some (initAgpsCommand 7), None, Some (requestATL_cmd 1 1 16), None] new_gnss_agps = Some a
    \<and> adapter_cmd (dataConnOpenCommand 1 None 0 0) a = Some a"
proof -
  let ?r = "adapter_run sample_conf [Some (initAgpsCommand 7), None, Some (requestATL_cmd 1 1 16), None] new_gnss_agps"
  have "map_option (\<lambda>a. map_option mState (nif True (mAgpsManager a))) ?r = Some (Some AGPS_STATE_PENDING)"
    by (simp add: agps_eval post_msg_def adapter_proc_def proc_msg_def initAgps_def)
  then obtain a m where a: "?r = Some a" "nif True (mAgpsManager a) = Some m" "mState m = AGPS_STATE_PENDING" by auto
  have t: "nif_of_type 1" by (simp add: nif_of_type_def LOC_AGPS_TYPE_SUPL_def)
  from bad_apn_is_swallowed [of 1 a m None 0 0] a t show ?thesis by (auto simp: apn_usable_def)
qed

fun to_framework :: "agps_out \<Rightarrow> bool" where
  "to_framework (FrameworkStatus r t k) = True"
| "to_framework _ = False"

text \<open>
  The release carries the type and mask of the last request, not those the connection was
  asked for with: after an ordinary and an emergency SUPL request on the same connection the
  framework is asked for a SUPL connection and told to release an emergency one.
\<close>

theorem release_names_last_type:
  assumes "c1 \<noteq> c2"
  shows "map_option (\<lambda>g. filter to_framework (agps_log (agps_env_of g)))
     (agps_run sample_conf [Create 7, RequestATL c1 LOC_AGPS_TYPE_SUPL k1, OpenSuccess LOC_AGPS_TYPE_SUPL apn len br,
        RequestATL c2 LOC_AGPS_TYPE_SUPL_ES k2, ReleaseATL c2, ReleaseATL c1] new_AgpsManager)
   = Some [FrameworkStatus True LOC_AGPS_TYPE_SUPL k1, FrameworkStatus False LOC_AGPS_TYPE_SUPL_ES k2]"
  using assms
  by (simp add: agps_eval reportAtlOpenSuccess_def report_event_def processAgpsEventGranted_def notifyAllSubscribers_def
      releaseATL_def search_nif_def getSubscriber_def unsubscribe_nif_def processAgpsEventUnsubscribe_def leave_or_wait_def
      deleteSubscriber_def anyActiveSubscribers_def)

lemma release_names_last_type_witness:
  "map_option (\<lambda>g. filter to_framework (agps_log (agps_env_of g)))
     (agps_run sample_conf [Create 7, RequestATL 1 LOC_AGPS_TYPE_SUPL 16, OpenSuccess LOC_AGPS_TYPE_SUPL None 0 0,
        RequestATL 2 LOC_AGPS_TYPE_SUPL_ES 0x200, ReleaseATL 2, ReleaseATL 1] new_AgpsManager)
   = Some [FrameworkStatus True LOC_AGPS_TYPE_SUPL 16, FrameworkStatus False LOC_AGPS_TYPE_SUPL_ES 0x200]"
  by (rule release_names_last_type) simp

text \<open>
  A restart of the modem drops the clients and keeps the state: a connection that was held stays
  held with no client left, and the framework is not asked to release it.
\<close>

lemma ssr_keeps_connection:
  assumes "agps_inv g" "held b g"
  shows "\<exists>g'. handleModemSSR g = Some g' \<and> held b g' \<and> agps_clients b g' = []
    \<and> agps_log (agps_env_of g') = agps_log (agps_env_of g)"
  using ssr_refines [OF assms(1)] assms(2)
  by (auto simp: agps_refines_def held_abs assms(1) agps_clients_abs spec_held_def spec_clients_def split: option.splits)

end
