(* ===== verification/Gnss_Ntrip.thy ===== *)
theory Gnss_Ntrip
  imports Ipa_Prelude
begin

text \<open>
  The source of differential corrections (\<open>gps/gnss/GnssAdapter.cpp\<close>, the functions on NTRIP): once it
  is enabled and a tracking session runs, the adapter asks the Xtra daemon for the correction
  stream and sends it the own position, a GGA sentence, every ten minutes if the server wants it.
  \<open>xtra_log\<close> holds the calls of \<open>XtraSystemStatusObserver\<close>, \<open>boot_time\<close> is the clock
  \<open>getBootTimeMilliSec\<close>. The sentences are C++ strings; \<open>npos\<close> is \<open>None\<close>.
\<close>

definition DGNSS_STATE_ENABLE_NTRIP_COMMAND :: u16 where "DGNSS_STATE_ENABLE_NTRIP_COMMAND = 1"
definition DGNSS_STATE_NO_NMEA_PENDING :: u16 where "DGNSS_STATE_NO_NMEA_PENDING = 2"
definition DGNSS_STATE_NTRIP_SESSION_STARTED :: u16 where "DGNSS_STATE_NTRIP_SESSION_STARTED = 4"
definition DGNSS_RANGE_UPDATE_TIME_10MIN_IN_MILLI :: "64 word" where "DGNSS_RANGE_UPDATE_TIME_10MIN_IN_MILLI = 600000"

lemmas dgnss_bits = DGNSS_STATE_ENABLE_NTRIP_COMMAND_def DGNSS_STATE_NO_NMEA_PENDING_def DGNSS_STATE_NTRIP_SESSION_STARTED_def

record GnssNtripConnectionParams =
  requiresNmeaLocation :: bool
  hostNameOrIp :: string
  mountPoint :: string
  username :: string
  password :: string
  ntrip_port :: u32
  useSSL :: bool

definition cleared_params :: GnssNtripConnectionParams where
  "cleared_params = \<lparr>requiresNmeaLocation = False, hostNameOrIp = [], mountPoint = [], username = [], password = [],
     ntrip_port = 0, useSSL = False\<rparr>"

datatype xtra_call = StartDgnssSource GnssNtripConnectionParams string | StopDgnssSource | UpdateNmeaToServer string

record dgnss_ntrip =
  ntripParams :: GnssNtripConnectionParams
  ntrip_nmea :: string
  mSendNmeaConsent :: bool
  mDgnssState :: u16
  mDgnssLastNmeaBootTimeMilli :: "64 word"
  boot_time :: "64 word"
  xtra_log :: "xtra_call list"

definition new_dgnss_ntrip :: dgnss_ntrip where
  "new_dgnss_ntrip = \<lparr>ntripParams = cleared_params, ntrip_nmea = [], mSendNmeaConsent = False, mDgnssState = 0,
     mDgnssLastNmeaBootTimeMilli = 0, boot_time = 0, xtra_log = []\<rparr>"

definition isDgnssNmeaRequired :: "dgnss_ntrip \<Rightarrow> bool" where
  "isDgnssNmeaRequired d \<longleftrightarrow> mSendNmeaConsent d \<and> requiresNmeaLocation (ntripParams d)"

definition xtra :: "xtra_call \<Rightarrow> dgnss_ntrip \<Rightarrow> dgnss_ntrip" where
  "xtra c d = d\<lparr>xtra_log := xtra_log d @ [c]\<rparr>"

definition checkUpdateDgnssNtrip :: "bool \<Rightarrow> bool \<Rightarrow> dgnss_ntrip \<Rightarrow> dgnss_ntrip" where
  "checkUpdateDgnssNtrip in_session isLocationValid d =
     (if in_session
      then (if mDgnssState d = DGNSS_STATE_ENABLE_NTRIP_COMMAND OR DGNSS_STATE_NO_NMEA_PENDING
            then let d1 = xtra (StartDgnssSource (ntripParams d) (ntrip_nmea d))
                       (d\<lparr>mDgnssState := mDgnssState d OR DGNSS_STATE_NTRIP_SESSION_STARTED\<rparr>)
                 in if isDgnssNmeaRequired d1 then d1\<lparr>mDgnssLastNmeaBootTimeMilli := boot_time d\<rparr> else d1
            else if mDgnssState d AND DGNSS_STATE_NTRIP_SESSION_STARTED \<noteq> 0 \<and> isLocationValid \<and> isDgnssNmeaRequired d
              \<and> boot_time d - mDgnssLastNmeaBootTimeMilli d > DGNSS_RANGE_UPDATE_TIME_10MIN_IN_MILLI
            then (xtra (UpdateNmeaToServer (ntrip_nmea d)) d)\<lparr>mDgnssLastNmeaBootTimeMilli := boot_time d\<rparr>
            else d)
      else d)"

definition stopDgnssNtrip :: "dgnss_ntrip \<Rightarrow> dgnss_ntrip" where
  "stopDgnssNtrip d = (if mDgnssState d AND DGNSS_STATE_NTRIP_SESSION_STARTED \<noteq> 0
     then xtra StopDgnssSource (d\<lparr>mDgnssState := mDgnssState d AND NOT DGNSS_STATE_NTRIP_SESSION_STARTED\<rparr>) else d)"

text \<open>The end of \<open>eraseTrackingSession\<close>.\<close>

definition ntrip_erased :: "dgnss_ntrip \<Rightarrow> dgnss_ntrip" where
  "ntrip_erased d = stopDgnssNtrip
     (if isDgnssNmeaRequired d
      then d\<lparr>mDgnssState := mDgnssState d AND NOT DGNSS_STATE_NO_NMEA_PENDING, ntrip_nmea := []\<rparr> else d)"

text \<open>
  The last of the comparisons of \<open>handleEnablePPENtrip\<close> compares the new parameters with themselves.
\<close>

definition same_params :: "GnssNtripConnectionParams \<Rightarrow> GnssNtripConnectionParams \<Rightarrow> bool" where
  "same_params p params \<longleftrightarrow> useSSL p = useSSL params \<and> hostNameOrIp p = hostNameOrIp params \<and> ntrip_port p = ntrip_port params
     \<and> mountPoint p = mountPoint params \<and> username p = username params \<and> password p = password params
     \<and> requiresNmeaLocation params = requiresNmeaLocation params"

definition handleEnablePPENtrip :: "bool \<Rightarrow> GnssNtripConnectionParams \<Rightarrow> dgnss_ntrip \<Rightarrow> dgnss_ntrip" where
  "handleEnablePPENtrip in_session params d =
     (if same_params (ntripParams d) params then d
      else let d1 = d\<lparr>mDgnssState := ((mDgnssState d OR DGNSS_STATE_ENABLE_NTRIP_COMMAND) OR DGNSS_STATE_NO_NMEA_PENDING)
                                      AND NOT DGNSS_STATE_NTRIP_SESSION_STARTED,
                      ntripParams := params, ntrip_nmea := []\<rparr>
           in if mSendNmeaConsent d1 \<and> requiresNmeaLocation (ntripParams d1)
              then d1\<lparr>mDgnssState := mDgnssState d1 AND NOT DGNSS_STATE_NO_NMEA_PENDING, mDgnssLastNmeaBootTimeMilli := 0\<rparr>
              else checkUpdateDgnssNtrip in_session False d1)"

definition handleDisablePPENtrip :: "dgnss_ntrip \<Rightarrow> dgnss_ntrip" where
  "handleDisablePPENtrip d = stopDgnssNtrip (d\<lparr>ntripParams := cleared_params, ntrip_nmea := [],
     mDgnssState := (mDgnssState d AND NOT DGNSS_STATE_ENABLE_NTRIP_COMMAND) OR DGNSS_STATE_NO_NMEA_PENDING\<rparr>)"

text \<open>The end of \<open>reportPosition\<close>, with a GGA sentence among those it has generated.\<close>

definition position_gga :: "bool \<Rightarrow> bool \<Rightarrow> string \<Rightarrow> dgnss_ntrip \<Rightarrow> dgnss_ntrip" where
  "position_gga in_session isLocationValid gga d =
     (if isDgnssNmeaRequired d
      then checkUpdateDgnssNtrip in_session isLocationValid
             (d\<lparr>mDgnssState := mDgnssState d OR DGNSS_STATE_NO_NMEA_PENDING, ntrip_nmea := gga\<rparr>)
      else d)"

subsection \<open>The sentences of the modem\<close>

definition str_find :: "string \<Rightarrow> string \<Rightarrow> nat \<Rightarrow> nat option" where
  "str_find needle s p = List.find (\<lambda>i. p \<le> i \<and> take (length needle) (drop i s) = needle) [0..<Suc (length s - length needle)]"

definition COMMAS_BEFORE_VALID :: nat where "COMMAS_BEFORE_VALID = 6"

text \<open>The loop over the commas: how many it has passed, and the position of the next.\<close>

fun skip_commas :: "nat \<Rightarrow> string \<Rightarrow> nat option \<Rightarrow> nat \<times> nat option" where
  "skip_commas 0 s p = (0, p)"
| "skip_commas (Suc k) s None = (0, None)"
| "skip_commas (Suc k) s (Some p) = (let (n, q) = skip_commas k s (str_find '','' s (Suc p)) in (Suc n, q))"

definition gga_string :: "string \<Rightarrow> nat \<Rightarrow> string" where
  "gga_string s pos = (case str_find ''$'' s pos of Some e \<Rightarrow> take e (drop (pos - 3) s) | None \<Rightarrow> drop (pos - 3) s)"

text \<open>
  \<open>GGAString.at(foundPos - 1)\<close> throws when there is no further comma; nothing catches the exception,
  which is the result \<open>None\<close>.
\<close>

definition reportGGAToNtrip :: "bool \<Rightarrow> string \<Rightarrow> dgnss_ntrip \<Rightarrow> dgnss_ntrip option" where
  "reportGGAToNtrip in_session nmea d =
     (if \<not> isDgnssNmeaRequired d then Some d
      else if nmea = [] then Some d
      else (case str_find ''GGA'' nmea 0 of
          None \<Rightarrow> Some d
        | Some pos \<Rightarrow>
            if pos < 3 then Some d
            else let g = gga_string nmea pos; (n, q) = skip_commas COMMAS_BEFORE_VALID g (str_find '','' g 0)
                 in if n = COMMAS_BEFORE_VALID
                    then (case q of None \<Rightarrow> None
                      | Some p \<Rightarrow> if g ! (p - 1) \<noteq> CHR ''0''
                          then Some (checkUpdateDgnssNtrip in_session True
                                 (d\<lparr>mDgnssState := mDgnssState d OR DGNSS_STATE_NO_NMEA_PENDING, ntrip_nmea := g\<rparr>))
                          else Some d)
                    else Some d))"

end
