(* ===== verification/Loc_Common.thy ===== *)
theory Loc_Common
  imports Ipa_Prelude
begin

text \<open>
  What the adapters of the location stack share: the result codes, the keys of sessions, the
  counter of session ids, and \<open>std::map\<close> as a list in the order of its keys, which is the order
  its iterators follow.
\<close>

datatype LocationError = LOCATION_ERROR_SUCCESS | LOCATION_ERROR_GENERAL_FAILURE | LOCATION_ERROR_CALLBACK_MISSING
  | LOCATION_ERROR_INVALID_PARAMETER | LOCATION_ERROR_ID_EXISTS | LOCATION_ERROR_ID_UNKNOWN
  | LOCATION_ERROR_ALREADY_STARTED | LOCATION_ERROR_GEOFENCES_AT_MAX | LOCATION_ERROR_NOT_SUPPORTED

text \<open>The static counter of \<open>LocAdapterBase\<close>, advanced by \<open>generateSessionId\<close>.\<close>

definition next_session_id :: "u32 \<Rightarrow> u32" where
  "next_session_id n = (if n + 1 = 0xFFFFFFFF then 1 else n + 1)"

section \<open>The ordered map\<close>

fun map_put :: "'k::linorder \<Rightarrow> 'v \<Rightarrow> ('k \<times> 'v) list \<Rightarrow> ('k \<times> 'v) list" where
  "map_put k v [] = [(k, v)]"
| "map_put k v ((k', v') # m) = (if k < k' then (k, v) # (k', v') # m
     else if k = k' then (k, v) # m else (k', v') # map_put k v m)"

definition map_erase :: "'k \<Rightarrow> ('k \<times> 'v) list \<Rightarrow> ('k \<times> 'v) list" where
  "map_erase k m = filter (\<lambda>(k', v). k' \<noteq> k) m"

definition map_ok :: "('k::linorder \<times> 'v) list \<Rightarrow> bool" where
  "map_ok m \<longleftrightarrow> sorted_wrt (<) (map fst m)"

lemma map_ok_Cons [simp]: "map_ok ((k, v) # m) \<longleftrightarrow> (\<forall>x \<in> set m. k < fst x) \<and> map_ok m"
  by (auto simp: map_ok_def)

lemma map_ok_Nil [simp]: "map_ok []"
  by (simp add: map_ok_def)

lemma put_not_Nil [simp]: "map_put k v m \<noteq> []"
  by (cases "(k, v, m)" rule: map_put.cases) auto

lemma set_put: "map_ok m \<Longrightarrow> set (map_put k v m) = insert (k, v) {x \<in> set m. fst x \<noteq> k}"
  by (induction k v m rule: map_put.induct) (auto simp: not_less)

lemma put_ok [simp]: "map_ok m \<Longrightarrow> map_ok (map_put k v m)"
  by (induction k v m rule: map_put.induct) (auto simp: set_put)

lemma set_erase [simp]: "set (map_erase k m) = {x \<in> set m. fst x \<noteq> k}"
  by (auto simp: map_erase_def)

lemma erase_ok [simp]: "map_ok m \<Longrightarrow> map_ok (map_erase k m)"
  by (induction m) (auto simp: map_erase_def)

lemma map_of_some: "map_ok m \<Longrightarrow> map_of m k = Some v \<longleftrightarrow> (k, v) \<in> set m"
  by (induction m) (force simp: map_ok_def)+

lemma erase_Nil [simp]: "map_erase k [] = []"
  by (simp add: map_erase_def)

lemma erase_single:
  assumes "length m = 1" "map_of m k \<noteq> None" shows "map_erase k m = []"
  using assms by (cases m) (auto simp: map_erase_def split: if_splits)

lemma other_key:
  assumes "map_ok m" "length m \<noteq> 1" "map_of m k \<noteq> None"
  shows "\<exists>k' v. (k', v) \<in> set m \<and> k' \<noteq> k"
proof -
  obtain a b m' where m: "m = a # b # m'" using assms by (cases m rule: remdups_adj.cases) auto
  then show ?thesis using assms(1) by (cases a; cases b) (metis map_ok_Cons fst_conv less_irrefl list.set_intros)
qed

lemma map_of_put [simp]: "map_ok m \<Longrightarrow> map_of (map_put k v m) = (map_of m)(k \<mapsto> v)"
  by (induction k v m rule: map_put.induct) (auto simp: fun_eq_iff dest: map_of_SomeD)

lemma map_of_erase [simp]: "map_of (map_erase k m) = (map_of m)(k := None)"
  by (induction m) (auto simp: map_erase_def fun_eq_iff)

end
