(* ===== verification/Gnss_Tracking.thy ===== *)
theory Gnss_Tracking
  imports Gnss_Ntrip Loc_Common "HOL-Library.Monad_Syntax"
begin

text \<open>
  The tracking sessions of the GNSS adapter (\<open>gps/gnss/GnssAdapter.cpp\<close>). Clients ask for positions
  every so many milliseconds (time based) or metres (distance based). The modem takes any number
  of distance based sessions but a single time based one, so the adapter multiplexes the time
  based sessions into one request. Commands become messages of one queue; the modem answers a
  request later, and the answer is another message.

  What the adapter sends is logged: \<open>gt_calls\<close> the requests to the modem and to the engine hub,
  \<open>gt_answers\<close> the calls of \<open>reportResponse\<close> with a flag whether the client had a callback,
  \<open>gt_power\<close> the reported power states. \<open>gt_waiting\<close> holds the requests the modem has not answered.
\<close>

section \<open>Options and sessions\<close>

datatype GnssPowerMode = GNSS_POWER_MODE_INVALID | GNSS_POWER_MODE_M1 | GNSS_POWER_MODE_M2
  | GNSS_POWER_MODE_M3 | GNSS_POWER_MODE_M4 | GNSS_POWER_MODE_M5

fun power_num :: "GnssPowerMode \<Rightarrow> nat" where
  "power_num GNSS_POWER_MODE_INVALID = 0"
| "power_num GNSS_POWER_MODE_M1 = 1"
| "power_num GNSS_POWER_MODE_M2 = 2"
| "power_num GNSS_POWER_MODE_M3 = 3"
| "power_num GNSS_POWER_MODE_M4 = 4"
| "power_num GNSS_POWER_MODE_M5 = 5"

lemma power_num_inject [simp]: "power_num a = power_num b \<longleftrightarrow> a = b"
  by (cases a; cases b) simp_all

instantiation GnssPowerMode :: linorder
begin
definition less_eq_GnssPowerMode :: "GnssPowerMode \<Rightarrow> GnssPowerMode \<Rightarrow> bool" where
  "less_eq_GnssPowerMode a b = (power_num a \<le> power_num b)"
definition less_GnssPowerMode :: "GnssPowerMode \<Rightarrow> GnssPowerMode \<Rightarrow> bool" where
  "less_GnssPowerMode a b = (power_num a < power_num b)"
instance by standard (auto simp: less_eq_GnssPowerMode_def less_GnssPowerMode_def)
end

lemma power_invalid_least [simp]: "GNSS_POWER_MODE_INVALID \<le> p" "\<not> p < GNSS_POWER_MODE_INVALID"
  by (simp_all add: less_eq_GnssPowerMode_def less_GnssPowerMode_def)

datatype GnssSuplMode = GNSS_SUPL_MODE_STANDALONE | GNSS_SUPL_MODE_MSB | GNSS_SUPL_MODE_MSA

record LocationOptions =
  lo_size :: u32
  minInterval :: u32
  minDistance :: u32
  lo_mode :: GnssSuplMode
  locReqEngTypeMask :: u32

record TrackingOptions = LocationOptions +
  powerMode :: GnssPowerMode
  tbm :: u32

definition SIZEOF_TRACKING_OPTIONS :: u32 where "SIZEOF_TRACKING_OPTIONS = 28"
definition MIN_TRACKING_INTERVAL :: u32 where "MIN_TRACKING_INTERVAL = 100"
definition TRACKING_TBM_THRESHOLD_MILLIS :: u32 where "TRACKING_TBM_THRESHOLD_MILLIS = 480000"

text \<open>Options cleared with \<open>memset\<close>; their size 0 marks them as not set.\<close>

definition cleared_options :: TrackingOptions where
  "cleared_options = \<lparr>lo_size = 0, minInterval = 0, minDistance = 0, lo_mode = GNSS_SUPL_MODE_STANDALONE,
     locReqEngTypeMask = 0, powerMode = GNSS_POWER_MODE_INVALID, tbm = 0\<rparr>"

definition setLocationOptions :: "TrackingOptions \<Rightarrow> TrackingOptions \<Rightarrow> TrackingOptions" where
  "setLocationOptions opts out = out\<lparr>lo_size := SIZEOF_TRACKING_OPTIONS, minInterval := minInterval opts,
     minDistance := minDistance opts, lo_mode := lo_mode opts, locReqEngTypeMask := locReqEngTypeMask opts\<rparr>"

datatype LocationSessionKey = LocationSessionKey (key_client: nat) (key_id: u32)

definition session_key_less :: "LocationSessionKey \<Rightarrow> LocationSessionKey \<Rightarrow> bool" where
  "session_key_less l r \<longleftrightarrow> key_id l < key_id r \<or> (key_id l = key_id r \<and> key_client l < key_client r)"

instantiation LocationSessionKey :: linorder
begin
definition less_LocationSessionKey :: "LocationSessionKey \<Rightarrow> LocationSessionKey \<Rightarrow> bool" where
  "less_LocationSessionKey = session_key_less"
definition less_eq_LocationSessionKey :: "LocationSessionKey \<Rightarrow> LocationSessionKey \<Rightarrow> bool" where
  "less_eq_LocationSessionKey l r = (l = r \<or> l < r)"
instance
proof
  fix x y z :: LocationSessionKey
  show "(x < y) = (x \<le> y \<and> \<not> y \<le> x)" "x \<le> x"
    by (auto simp: less_eq_LocationSessionKey_def less_LocationSessionKey_def session_key_less_def)
  show "x \<le> y \<Longrightarrow> y \<le> z \<Longrightarrow> x \<le> z"
    by (auto simp: less_eq_LocationSessionKey_def less_LocationSessionKey_def session_key_less_def)
  show "x \<le> y \<Longrightarrow> y \<le> x \<Longrightarrow> x = y"
    by (auto simp: less_eq_LocationSessionKey_def less_LocationSessionKey_def session_key_less_def)
  show "x \<le> y \<or> y \<le> x"
    by (cases x; cases y) (auto simp: less_eq_LocationSessionKey_def less_LocationSessionKey_def session_key_less_def)
qed
end

section \<open>The adapter\<close>

datatype LocPositionMode = LOC_POSITION_MODE_INVALID | LOC_POSITION_MODE_STANDALONE | LOC_POSITION_MODE_MS_BASED
  | LOC_POSITION_MODE_MS_ASSISTED

text \<open>Of \<open>LocPosMode\<close> the fields the adapter sets; the others keep their initial values.\<close>

record LocPosMode =
  pm_mode :: LocPositionMode
  min_interval :: u32
  share_position :: bool
  pm_powerMode :: GnssPowerMode
  timeBetweenMeasurements :: u32

definition new_LocPosMode :: LocPosMode where
  "new_LocPosMode = \<lparr>pm_mode = LOC_POSITION_MODE_MS_BASED, min_interval = 1000, share_position = True,
     pm_powerMode = GNSS_POWER_MODE_INVALID, timeBetweenMeasurements = 1000\<rparr>"

definition pos_mode_equals :: "LocPosMode \<Rightarrow> LocPosMode \<Rightarrow> bool" where
  "pos_mode_equals a b \<longleftrightarrow> pm_mode b = pm_mode a \<and> min_interval b = min_interval a \<and> pm_powerMode b = pm_powerMode a
     \<and> timeBetweenMeasurements b = timeBetweenMeasurements a"

text \<open>Which callbacks a client has set.\<close>

record LocationCallbacks =
  responseCb :: bool
  trackingCb :: bool
  gnssLocationInfoCb :: bool
  engineLocationsInfoCb :: bool
  gnssMeasurementsCb :: bool
  gnssDataCb :: bool
  gnssSvCb :: bool
  gnssNmeaCb :: bool

datatype loc_api_call = StartTimeBased TrackingOptions | StopFix
  | StartDistanceBased u32 LocationOptions | StopDistanceBased u32
  | HubSetFixMode LocPosMode | HubStartFix | HubStopFix

text \<open>The functions a \<open>LocApiResponse\<close> calls when the modem answers, with the variables they capture.\<close>

datatype loc_response =
    Tb_Started nat u32                            \<comment> \<open>\<open>startTimeBasedTracking\<close>\<close>
  | Tb_Updated nat u32 TrackingOptions            \<comment> \<open>\<open>updateTracking\<close>, with the old options\<close>
  | Tb_Stopped nat u32                            \<comment> \<open>\<open>stopTracking\<close>\<close>
  | Db_Started nat u32                            \<comment> \<open>the command that starts a session\<close>
  | Db_Stopped nat u32                            \<comment> \<open>the command that stops a session\<close>
  | Db_Removed nat u32                            \<comment> \<open>\<open>stopClientSessions\<close>\<close>
  | Db_To_Time nat u32 TrackingOptions            \<comment> \<open>an update to a time based session\<close>
  | Db_Restart nat u32 TrackingOptions            \<comment> \<open>an update, stopped\<close>
  | Db_Restarted nat u32 TrackingOptions          \<comment> \<open>an update, started again\<close>

datatype track_msg =
    MsgStartTracking nat u32 TrackingOptions
  | MsgUpdateTracking nat u32 TrackingOptions
  | MsgStopTracking nat u32
  | MsgAddClient nat LocationCallbacks
  | MsgRemoveClient nat
  | MsgHandleEngineUpEvent
  | MsgResponse loc_response LocationError
  | MsgUpdateNHz bool
  | MsgReconfigure                                \<comment> \<open>a change of the configuration that suspends the sessions\<close>
  | MsgPowerCallback
  | MsgEnableNtrip GnssNtripConnectionParams
  | MsgDisableNtrip

record gnss_tracking =
  mClientData :: "nat \<rightharpoonup> LocationCallbacks"
  mTimeBasedTrackingSessions :: "(LocationSessionKey \<times> TrackingOptions) list"
  mDistanceBasedTrackingSessions :: "(LocationSessionKey \<times> LocationOptions) list"
  mNHzNeeded :: bool
  mSPEAlreadyRunningAtHighestInterval :: bool
  mLocPositionMode :: LocPosMode
  mPowerOn :: bool
  mPowerStateCb :: bool
  mIsEngineCapabilitiesKnown :: bool
  mPendingMsgs :: "track_msg list"
  mSessionIdCounter :: u32
  mPrevNmeaRptTimeNsec :: "64 word"
  dbt_supported :: bool         \<comment> \<open>\<open>isMessageSupported\<close> of distance based tracking\<close>
  gt_ntrip :: dgnss_ntrip
  gt_queue :: "track_msg list"
  gt_waiting :: "loc_response list"
  gt_calls :: "loc_api_call list"
  gt_answers :: "(nat \<times> u32 \<times> LocationError \<times> bool) list"
  gt_power :: "bool list"

definition new_gnss_tracking :: "bool \<Rightarrow> gnss_tracking" where
  "new_gnss_tracking supported = \<lparr>mClientData = Map.empty, mTimeBasedTrackingSessions = [], mDistanceBasedTrackingSessions = [],
     mNHzNeeded = False, mSPEAlreadyRunningAtHighestInterval = False,
     mLocPositionMode = new_LocPosMode\<lparr>pm_mode := LOC_POSITION_MODE_INVALID\<rparr>, mPowerOn = False, mPowerStateCb = False,
     mIsEngineCapabilitiesKnown = False, mPendingMsgs = [], mSessionIdCounter = 1, mPrevNmeaRptTimeNsec = 0, dbt_supported = supported,
     gt_ntrip = new_dgnss_ntrip, gt_queue = [], gt_waiting = [], gt_calls = [], gt_answers = [], gt_power = []\<rparr>"

section \<open>Helpers\<close>

text \<open>A request to the modem or the hub; \<open>None\<close> for a null response, or one that does nothing.\<close>

definition api_call :: "loc_api_call \<Rightarrow> loc_response option \<Rightarrow> gnss_tracking \<Rightarrow> gnss_tracking" where
  "api_call c r s = s\<lparr>gt_calls := gt_calls s @ [c], gt_waiting := gt_waiting s @ (case r of None \<Rightarrow> [] | Some x \<Rightarrow> [x])\<rparr>"

definition sendMsg_gt :: "track_msg \<Rightarrow> gnss_tracking \<Rightarrow> gnss_tracking" where
  "sendMsg_gt m s = s\<lparr>gt_queue := gt_queue s @ [m]\<rparr>"

definition generateSessionId :: "gnss_tracking \<Rightarrow> u32 \<times> gnss_tracking" where
  "generateSessionId s = (let n = next_session_id (mSessionIdCounter s) in (n, s\<lparr>mSessionIdCounter := n\<rparr>))"

definition convertOptions :: "LocPosMode \<Rightarrow> TrackingOptions \<Rightarrow> LocPosMode" where
  "convertOptions out opts = out\<lparr>pm_mode := (case lo_mode opts of GNSS_SUPL_MODE_MSB \<Rightarrow> LOC_POSITION_MODE_MS_BASED
       | GNSS_SUPL_MODE_MSA \<Rightarrow> LOC_POSITION_MODE_MS_ASSISTED | _ \<Rightarrow> LOC_POSITION_MODE_STANDALONE),
     share_position := True, min_interval := minInterval opts, pm_powerMode := powerMode opts,
     timeBetweenMeasurements := tbm opts\<rparr>"

text \<open>The first result says that the request to the modem is not needed.\<close>

definition checkAndSetSPEToRunforNHz :: "TrackingOptions \<Rightarrow> gnss_tracking \<Rightarrow> bool \<times> TrackingOptions \<times> gnss_tracking" where
  "checkAndSetSPEToRunforNHz out s =
     (if \<not> mNHzNeeded s then (False, out, s)
      else if mSPEAlreadyRunningAtHighestInterval s then (True, out, s)
      else if minInterval out > MIN_TRACKING_INTERVAL
      then (False, out\<lparr>minInterval := MIN_TRACKING_INTERVAL\<rparr>, s\<lparr>mSPEAlreadyRunningAtHighestInterval := True\<rparr>)
      else (False, out, s))"

definition setLocPositionMode :: "LocPosMode \<Rightarrow> gnss_tracking \<Rightarrow> gnss_tracking" where
  "setLocPositionMode m s = (if \<not> pos_mode_equals (mLocPositionMode s) m then s\<lparr>mLocPositionMode := m\<rparr> else s)"

definition reportResponse :: "nat \<Rightarrow> LocationError \<Rightarrow> u32 \<Rightarrow> gnss_tracking \<Rightarrow> gnss_tracking" where
  "reportResponse c err sid s = s\<lparr>gt_answers := gt_answers s @
     [(c, sid, err, case mClientData s c of None \<Rightarrow> False | Some cb \<Rightarrow> responseCb cb)]\<rparr>"

definition hasCallbacksToStartTracking :: "nat \<Rightarrow> gnss_tracking \<Rightarrow> bool" where
  "hasCallbacksToStartTracking c s = (case mClientData s c of None \<Rightarrow> False
     | Some cb \<Rightarrow> trackingCb cb \<or> gnssLocationInfoCb cb \<or> engineLocationsInfoCb cb \<or> gnssMeasurementsCb cb
         \<or> gnssDataCb cb \<or> gnssSvCb cb \<or> gnssNmeaCb cb)"

definition isTimeBasedTrackingSession :: "nat \<Rightarrow> u32 \<Rightarrow> gnss_tracking \<Rightarrow> bool" where
  "isTimeBasedTrackingSession c sid s \<longleftrightarrow> map_of (mTimeBasedTrackingSessions s) (LocationSessionKey c sid) \<noteq> None"

definition isDistanceBasedTrackingSession :: "nat \<Rightarrow> u32 \<Rightarrow> gnss_tracking \<Rightarrow> bool" where
  "isDistanceBasedTrackingSession c sid s \<longleftrightarrow> map_of (mDistanceBasedTrackingSessions s) (LocationSessionKey c sid) \<noteq> None"

definition reportPowerStateIfChanged :: "gnss_tracking \<Rightarrow> gnss_tracking" where
  "reportPowerStateIfChanged s =
     (let newPowerOn = (mTimeBasedTrackingSessions s \<noteq> [] \<or> mDistanceBasedTrackingSessions s \<noteq> [])
      in if newPowerOn \<noteq> mPowerOn s
         then s\<lparr>mPowerOn := newPowerOn, gt_power := gt_power s @ (if mPowerStateCb s then [newPowerOn] else [])\<rparr>
         else s)"

definition in_session :: "gnss_tracking \<Rightarrow> bool" where
  "in_session s \<longleftrightarrow> mTimeBasedTrackingSessions s \<noteq> []"

definition saveTrackingSession :: "nat \<Rightarrow> u32 \<Rightarrow> TrackingOptions \<Rightarrow> gnss_tracking \<Rightarrow> gnss_tracking" where
  "saveTrackingSession c sid opts s =
     (let key = LocationSessionKey c sid;
          s1 = (if minDistance opts > 0 \<and> dbt_supported s
                then s\<lparr>mDistanceBasedTrackingSessions := map_put key (LocationOptions.truncate opts) (mDistanceBasedTrackingSessions s)\<rparr>
                else s\<lparr>mTimeBasedTrackingSessions := map_put key opts (mTimeBasedTrackingSessions s)\<rparr>);
          s2 = reportPowerStateIfChanged s1
      in s2\<lparr>gt_ntrip := checkUpdateDgnssNtrip (in_session s2) False (gt_ntrip s2)\<rparr>)"

definition eraseTrackingSession :: "nat \<Rightarrow> u32 \<Rightarrow> gnss_tracking \<Rightarrow> gnss_tracking" where
  "eraseTrackingSession c sid s =
     (let key = LocationSessionKey c sid;
          s1 = (if map_of (mTimeBasedTrackingSessions s) key \<noteq> None
                then s\<lparr>mTimeBasedTrackingSessions := map_erase key (mTimeBasedTrackingSessions s)\<rparr>
                else s\<lparr>mDistanceBasedTrackingSessions := map_erase key (mDistanceBasedTrackingSessions s)\<rparr>);
          s2 = reportPowerStateIfChanged s1
      in s2\<lparr>gt_ntrip := ntrip_erased (gt_ntrip s2)\<rparr>)"

section \<open>Multiplexing\<close>

text \<open>
  \<open>run_fix opts r s\<close> is the common part of \<open>startTimeBasedTracking\<close> and \<open>updateTracking\<close>, \<open>r\<close> what
  the answer of the modem does; without a request the client is answered at once.
\<close>

definition run_fix :: "nat \<Rightarrow> u32 \<Rightarrow> TrackingOptions \<Rightarrow> loc_response \<Rightarrow> gnss_tracking \<Rightarrow> gnss_tracking" where
  "run_fix c sid opts r s =
     (let s1 = setLocPositionMode (convertOptions new_LocPosMode opts) s;
          s2 = api_call (HubSetFixMode (mLocPositionMode s1)) None s1;
          s3 = api_call HubStartFix None s2;
          (running, temp, s4) = checkAndSetSPEToRunforNHz opts s3
      in if \<not> running then api_call (StartTimeBased temp) (Some r) s4
         else reportResponse c LOCATION_ERROR_SUCCESS sid s4)"

definition startTimeBasedTracking :: "nat \<Rightarrow> u32 \<Rightarrow> TrackingOptions \<Rightarrow> gnss_tracking \<Rightarrow> gnss_tracking" where
  "startTimeBasedTracking c sid opts s = run_fix c sid opts (Tb_Started c sid) s"

definition updateTracking :: "nat \<Rightarrow> u32 \<Rightarrow> TrackingOptions \<Rightarrow> TrackingOptions \<Rightarrow> gnss_tracking \<Rightarrow> gnss_tracking" where
  "updateTracking c sid opts old s = run_fix c sid opts (Tb_Updated c sid old) s"

definition stopTracking :: "nat \<Rightarrow> u32 \<Rightarrow> gnss_tracking \<Rightarrow> gnss_tracking" where
  "stopTracking c sid s =
     (let s1 = api_call StopFix (Some (Tb_Stopped c sid)) (api_call HubStopFix None s)
      in s1\<lparr>mSPEAlreadyRunningAtHighestInterval := False\<rparr>)"

text \<open>
  The loop over the sessions other than \<open>skip\<close>: the options of the first one with the smallest
  interval, and the smallest power mode.
\<close>

fun mux_loop :: "LocationSessionKey option \<Rightarrow> (LocationSessionKey \<times> TrackingOptions) list
    \<Rightarrow> TrackingOptions \<Rightarrow> GnssPowerMode \<Rightarrow> TrackingOptions \<times> GnssPowerMode" where
  "mux_loop skip [] mo mp = (mo, mp)"
| "mux_loop skip ((k, opts) # m) mo mp =
     mux_loop skip m
       (if skip \<noteq> Some k \<and> (lo_size mo = 0 \<or> minInterval opts < minInterval mo) then opts else mo)
       (if skip \<noteq> Some k \<and> (mp = GNSS_POWER_MODE_INVALID \<or> powerMode opts < mp) then powerMode opts else mp)"

definition multiplexed :: "LocationSessionKey option \<Rightarrow> gnss_tracking \<Rightarrow> TrackingOptions \<times> GnssPowerMode" where
  "multiplexed skip s = mux_loop skip (mTimeBasedTrackingSessions s) cleared_options GNSS_POWER_MODE_INVALID"

text \<open>The new options win over the multiplexed ones where they ask for more.\<close>

definition mux_update :: "TrackingOptions \<Rightarrow> TrackingOptions \<times> GnssPowerMode \<Rightarrow> bool \<times> TrackingOptions" where
  "mux_update opts m = (let (mo, mp) = m;
       u1 = (minInterval opts < minInterval mo); mo1 = (if u1 then mo\<lparr>minInterval := minInterval opts\<rparr> else mo);
       u2 = (powerMode opts < mp); mo2 = (if u2 then mo1\<lparr>powerMode := powerMode opts\<rparr> else mo1)
     in (u1 \<or> u2, mo2))"

text \<open>The first result is \<open>reportToClientWithNoWait\<close>.\<close>

definition startTimeBasedTrackingMultiplex :: "nat \<Rightarrow> u32 \<Rightarrow> TrackingOptions \<Rightarrow> gnss_tracking \<Rightarrow> bool \<times> gnss_tracking" where
  "startTimeBasedTrackingMultiplex c sid opts s =
     (if mTimeBasedTrackingSessions s = [] then (False, startTimeBasedTracking c sid opts (s\<lparr>mPrevNmeaRptTimeNsec := 0\<rparr>))
      else let (upd, mo) = mux_update opts (multiplexed None s)
           in if upd then (False, startTimeBasedTracking c sid mo s) else (True, s))"

text \<open>The options of a session that is not there are read through the end iterator: the result \<open>None\<close>.\<close>

definition updateTrackingMultiplex :: "nat \<Rightarrow> u32 \<Rightarrow> TrackingOptions \<Rightarrow> gnss_tracking \<Rightarrow> (bool \<times> gnss_tracking) option" where
  "updateTrackingMultiplex c sid opts s = (let key = LocationSessionKey c sid in
     case map_of (mTimeBasedTrackingSessions s) key of
       None \<Rightarrow> None
     | Some old \<Rightarrow>
         if minInterval old \<noteq> minInterval opts \<or> powerMode old \<noteq> powerMode opts
         then let (u, mo) = mux_update opts (multiplexed (Some key) s);
                  single = (length (mTimeBasedTrackingSessions s) = 1);
                  mo' = (if single then opts else mo)
              in Some (if u \<or> single then (False, updateTracking c sid mo' old s) else (True, s))
         else Some (True, s))"

definition stopTimeBasedTrackingMultiplex :: "nat \<Rightarrow> u32 \<Rightarrow> gnss_tracking \<Rightarrow> bool \<times> gnss_tracking" where
  "stopTimeBasedTrackingMultiplex c sid s =
     (if length (mTimeBasedTrackingSessions s) = 1 then (False, stopTracking c sid s)
      else let key = LocationSessionKey c sid in
        case map_of (mTimeBasedTrackingSessions s) key of
          None \<Rightarrow> (True, s)
        | Some old \<Rightarrow> let (mo, mp) = multiplexed (Some key) s
            in if minInterval old < minInterval mo \<or> powerMode old < mp
               then (False, startTimeBasedTracking c sid (mo\<lparr>powerMode := mp\<rparr>) s) else (True, s))"

section \<open>Restarting and suspending\<close>

text \<open>The two loops of \<open>checkAndRestartTimeBasedSession\<close> in one pass.\<close>

fun restart_loop :: "(LocationSessionKey \<times> TrackingOptions) list \<Rightarrow> TrackingOptions \<Rightarrow> TrackingOptions
    \<Rightarrow> TrackingOptions \<times> TrackingOptions" where
  "restart_loop [] si hp = (si, hp)"
| "restart_loop ((k, opts) # m) si hp =
     restart_loop m
       (if lo_size si = 0 \<or> minInterval opts < minInterval si then opts else si)
       (if lo_size hp = 0 \<or> (powerMode opts \<noteq> GNSS_POWER_MODE_INVALID \<and> powerMode opts < powerMode hp) then opts else hp)"

definition checkAndRestartTimeBasedSession :: "gnss_tracking \<Rightarrow> gnss_tracking" where
  "checkAndRestartTimeBasedSession s =
     (if mTimeBasedTrackingSessions s = [] then s
      else let (si, hp) = restart_loop (mTimeBasedTrackingSessions s) cleared_options cleared_options;
               (running, opts, s1) = checkAndSetSPEToRunforNHz (setLocationOptions si hp) s
           in if \<not> running then api_call (StartTimeBased opts) None s1 else s1)"

fun restart_distance :: "(LocationSessionKey \<times> LocationOptions) list \<Rightarrow> gnss_tracking \<Rightarrow> gnss_tracking" where
  "restart_distance [] s = s"
| "restart_distance ((k, l) # m) s = restart_distance m (api_call (StartDistanceBased (key_id k) l) None s)"

definition checkAndRestartSPESession :: "gnss_tracking \<Rightarrow> gnss_tracking" where
  "checkAndRestartSPESession s =
     (let s1 = checkAndRestartTimeBasedSession (s\<lparr>mSPEAlreadyRunningAtHighestInterval := False\<rparr>)
      in restart_distance (mDistanceBasedTrackingSessions s1) s1)"

definition restartSessions :: "gnss_tracking \<Rightarrow> gnss_tracking" where
  "restartSessions s =
     (let s1 = s\<lparr>mSPEAlreadyRunningAtHighestInterval := False\<rparr>;
          s2 = (if mTimeBasedTrackingSessions s1 \<noteq> []
                then api_call HubStartFix None (api_call (HubSetFixMode (mLocPositionMode s1)) None s1) else s1)
      in checkAndRestartSPESession s2)"

definition suspendSessions :: "gnss_tracking \<Rightarrow> gnss_tracking" where
  "suspendSessions s = (if mTimeBasedTrackingSessions s \<noteq> []
     then (api_call StopFix None (api_call HubStopFix None s))\<lparr>mSPEAlreadyRunningAtHighestInterval := False\<rparr> else s)"

text \<open>
  The messages that change the satellites in use or the minimal GPS week stop all sessions and
  start them again; what they do in between is not about sessions.
\<close>

definition reconfigure :: "gnss_tracking \<Rightarrow> gnss_tracking" where
  "reconfigure s = restartSessions (suspendSessions s)"

section \<open>The messages\<close>

text \<open>The end of a command on a time based session: without a request to wait for the client is answered.\<close>

definition answer_now :: "nat \<Rightarrow> u32 \<Rightarrow> bool \<Rightarrow> gnss_tracking \<Rightarrow> gnss_tracking" where
  "answer_now c sid now s = (if now then reportResponse c LOCATION_ERROR_SUCCESS sid s else s)"

definition clamp_interval :: "TrackingOptions \<Rightarrow> TrackingOptions" where
  "clamp_interval opts = (if minInterval opts < MIN_TRACKING_INTERVAL then opts\<lparr>minInterval := MIN_TRACKING_INTERVAL\<rparr> else opts)"

definition limit_power :: "TrackingOptions \<Rightarrow> TrackingOptions" where
  "limit_power opts = (if powerMode opts = GNSS_POWER_MODE_M4 \<and> tbm opts > TRACKING_TBM_THRESHOLD_MILLIS
     then opts\<lparr>powerMode := GNSS_POWER_MODE_M2\<rparr> else opts)"

text \<open>The errors of the first two branches are not reported.\<close>

definition proc_start :: "nat \<Rightarrow> u32 \<Rightarrow> TrackingOptions \<Rightarrow> gnss_tracking \<Rightarrow> gnss_tracking" where
  "proc_start c sid opts s =
     (if \<not> mIsEngineCapabilitiesKnown s \<and> minDistance opts > 0
      then s\<lparr>mPendingMsgs := mPendingMsgs s @ [MsgStartTracking c sid opts]\<rparr>
      else if \<not> hasCallbacksToStartTracking c s then s
      else if lo_size opts = 0 then s
      else let o1 = clamp_interval opts in
        if minDistance o1 > 0 \<and> dbt_supported s
        then api_call (StartDistanceBased sid (LocationOptions.truncate o1)) (Some (Db_Started c sid)) (saveTrackingSession c sid o1 s)
        else let o2 = limit_power o1; (now, s1) = startTimeBasedTrackingMultiplex c sid o2 s
             in answer_now c sid now (saveTrackingSession c sid o2 s1))"

definition update_to_distance :: "nat \<Rightarrow> u32 \<Rightarrow> TrackingOptions \<Rightarrow> gnss_tracking \<Rightarrow> gnss_tracking" where
  "update_to_distance c sid opts s =
     (let (now, s1) = stopTimeBasedTrackingMultiplex c sid s;
          s2 = answer_now c sid now (eraseTrackingSession c sid s1)
      in api_call (StartDistanceBased sid (LocationOptions.truncate opts)) None (saveTrackingSession c sid opts s2))"

definition proc_update :: "nat \<Rightarrow> u32 \<Rightarrow> TrackingOptions \<Rightarrow> gnss_tracking \<Rightarrow> gnss_tracking option" where
  "proc_update c sid opts s =
     (if \<not> mIsEngineCapabilitiesKnown s \<and> minDistance opts > 0
      then Some (s\<lparr>mPendingMsgs := mPendingMsgs s @ [MsgUpdateTracking c sid opts]\<rparr>)
      else let isTimeBased = isTimeBasedTrackingSession c sid s; isDistanceBased = isDistanceBasedTrackingSession c sid s in
        if \<not> isTimeBased \<and> \<not> isDistanceBased then Some (reportResponse c LOCATION_ERROR_ID_UNKNOWN sid s)
        else if lo_size opts = 0 then Some (reportResponse c LOCATION_ERROR_INVALID_PARAMETER sid s)
        else let o1 = clamp_interval (limit_power opts) in
          if isTimeBased \<and> minDistance o1 > 0 then Some (update_to_distance c sid o1 s)
          else if isDistanceBased \<and> minDistance o1 = 0
          then Some (api_call (StopDistanceBased sid) (Some (Db_To_Time c sid o1)) (eraseTrackingSession c sid s))
          else if isTimeBased
          then do { (now, s1) \<leftarrow> updateTrackingMultiplex c sid o1 s; Some (answer_now c sid now (saveTrackingSession c sid o1 s1)) }
          else Some (api_call (StopDistanceBased sid) (Some (Db_Restart c sid o1)) s))"

definition proc_stop :: "nat \<Rightarrow> u32 \<Rightarrow> gnss_tracking \<Rightarrow> gnss_tracking" where
  "proc_stop c sid s =
     (if isTimeBasedTrackingSession c sid s
      then let (now, s1) = stopTimeBasedTrackingMultiplex c sid s in answer_now c sid now (eraseTrackingSession c sid s1)
      else if isDistanceBasedTrackingSession c sid s then api_call (StopDistanceBased sid) (Some (Db_Stopped c sid)) s
      else reportResponse c LOCATION_ERROR_ID_UNKNOWN sid s)"

text \<open>\<open>stopClientSessions\<close> collects the keys of the client first.\<close>

fun stop_keys :: "LocationSessionKey list \<Rightarrow> gnss_tracking \<Rightarrow> gnss_tracking" where
  "stop_keys [] s = s"
| "stop_keys (k # ks) s = stop_keys ks (eraseTrackingSession (key_client k) (key_id k)
     (snd (stopTimeBasedTrackingMultiplex (key_client k) (key_id k) s)))"

fun stop_distance :: "nat \<Rightarrow> (LocationSessionKey \<times> LocationOptions) list \<Rightarrow> gnss_tracking \<Rightarrow> gnss_tracking" where
  "stop_distance c [] s = s"
| "stop_distance c ((k, l) # m) s = stop_distance c m
     (if key_client k = c then api_call (StopDistanceBased (key_id k)) (Some (Db_Removed c (key_id k))) s else s)"

definition stopClientSessions :: "nat \<Rightarrow> gnss_tracking \<Rightarrow> gnss_tracking" where
  "stopClientSessions c s =
     (let s1 = stop_keys (filter (\<lambda>k. key_client k = c) (map fst (mTimeBasedTrackingSessions s))) s
      in stop_distance c (mDistanceBasedTrackingSessions s1) s1)"

fun proc_response :: "loc_response \<Rightarrow> LocationError \<Rightarrow> gnss_tracking \<Rightarrow> gnss_tracking" where
  "proc_response (Tb_Started c sid) err s =
     reportResponse c err sid (if err \<noteq> LOCATION_ERROR_SUCCESS then eraseTrackingSession c sid s else s)"
| "proc_response (Tb_Updated c sid old) err s =
     reportResponse c err sid (if err \<noteq> LOCATION_ERROR_SUCCESS then saveTrackingSession c sid old s else s)"
| "proc_response (Tb_Stopped c sid) err s = reportResponse c err sid s"
| "proc_response (Db_Started c sid) err s =
     reportResponse c err sid (if err \<noteq> LOCATION_ERROR_SUCCESS then eraseTrackingSession c sid s else s)"
| "proc_response (Db_Stopped c sid) err s =
     reportResponse c err sid (if err = LOCATION_ERROR_SUCCESS then eraseTrackingSession c sid s else s)"
| "proc_response (Db_Removed c sid) err s = (if err = LOCATION_ERROR_SUCCESS then eraseTrackingSession c sid s else s)"
| "proc_response (Db_To_Time c sid opts) err s =
     (let (now, s1) = startTimeBasedTrackingMultiplex c sid opts s in answer_now c sid now (saveTrackingSession c sid opts s1))"
| "proc_response (Db_Restart c sid opts) err s =
     (if err = LOCATION_ERROR_SUCCESS then api_call (StartDistanceBased sid (LocationOptions.truncate opts)) (Some (Db_Restarted c sid opts)) s else s)"
| "proc_response (Db_Restarted c sid opts) err s =
     reportResponse c err sid (if err = LOCATION_ERROR_SUCCESS then saveTrackingSession c sid opts s else s)"

definition proc_engine_up :: "gnss_tracking \<Rightarrow> gnss_tracking" where
  "proc_engine_up s =
     (let s1 = restartSessions (s\<lparr>mIsEngineCapabilitiesKnown := True\<rparr>)
      in s1\<lparr>gt_queue := gt_queue s1 @ mPendingMsgs s1, mPendingMsgs := []\<rparr>)"

definition saveClient_gt :: "nat \<Rightarrow> LocationCallbacks \<Rightarrow> gnss_tracking \<Rightarrow> gnss_tracking" where
  "saveClient_gt c cb s = s\<lparr>mClientData := (mClientData s)(c \<mapsto> cb)\<rparr>"

definition eraseClient_gt :: "nat \<Rightarrow> gnss_tracking \<Rightarrow> gnss_tracking" where
  "eraseClient_gt c s = s\<lparr>mClientData := (mClientData s)(c := None)\<rparr>"

definition updateNHzRequirement :: "bool \<Rightarrow> gnss_tracking \<Rightarrow> gnss_tracking" where
  "updateNHzRequirement b s = (if mNHzNeeded s \<noteq> b then checkAndRestartSPESession (s\<lparr>mNHzNeeded := b\<rparr>) else s)"

text \<open>A new callback is told the current state at once.\<close>

definition savePowerStateCallback :: "gnss_tracking \<Rightarrow> gnss_tracking" where
  "savePowerStateCallback s = s\<lparr>mPowerStateCb := True, gt_power := gt_power s @ [mPowerOn s]\<rparr>"

fun proc_gt :: "track_msg \<Rightarrow> gnss_tracking \<Rightarrow> gnss_tracking option" where
  "proc_gt (MsgStartTracking c sid opts) s = Some (proc_start c sid opts s)"
| "proc_gt (MsgUpdateTracking c sid opts) s = proc_update c sid opts s"
| "proc_gt (MsgStopTracking c sid) s = Some (proc_stop c sid s)"
| "proc_gt (MsgAddClient c cb) s = Some (saveClient_gt c cb s)"
| "proc_gt (MsgRemoveClient c) s = Some (eraseClient_gt c (stopClientSessions c s))"
| "proc_gt MsgHandleEngineUpEvent s = Some (proc_engine_up s)"
| "proc_gt (MsgResponse r err) s = Some (proc_response r err s)"
| "proc_gt (MsgUpdateNHz b) s = Some (updateNHzRequirement b s)"
| "proc_gt MsgReconfigure s = Some (reconfigure s)"
| "proc_gt MsgPowerCallback s = Some (savePowerStateCallback s)"
| "proc_gt (MsgEnableNtrip p) s = Some (s\<lparr>gt_ntrip := handleEnablePPENtrip (in_session s) p (gt_ntrip s)\<rparr>)"
| "proc_gt MsgDisableNtrip s = Some (s\<lparr>gt_ntrip := handleDisablePPENtrip (gt_ntrip s)\<rparr>)"

section \<open>Runs\<close>

text \<open>
  \<open>Answered\<close> is an answer of the modem to the \<open>i\<close>-th of the requests it has not answered,
  \<open>Proc_Head\<close> a step of the thread of the adapter; all others are calls of other threads, which
  leave a message in the queue.
\<close>

datatype track_event = Start nat TrackingOptions | Update nat u32 TrackingOptions | Stop nat u32
  | AddClient nat LocationCallbacks | RemoveClient nat | EngineUp | UpdateNHz bool | Reconfigure
  | PowerCallback | EnableNtrip GnssNtripConnectionParams | DisableNtrip
  | Answered nat LocationError | Proc_Head

definition startTrackingCommand :: "nat \<Rightarrow> TrackingOptions \<Rightarrow> gnss_tracking \<Rightarrow> u32 \<times> gnss_tracking" where
  "startTrackingCommand c opts s = (let (sid, s1) = generateSessionId s in (sid, sendMsg_gt (MsgStartTracking c sid opts) s1))"

fun track_step :: "track_event \<Rightarrow> gnss_tracking \<Rightarrow> gnss_tracking option" where
  "track_step (Start c opts) s = Some (snd (startTrackingCommand c opts s))"
| "track_step (Update c sid opts) s = Some (sendMsg_gt (MsgUpdateTracking c sid opts) s)"
| "track_step (Stop c sid) s = Some (sendMsg_gt (MsgStopTracking c sid) s)"
| "track_step (AddClient c cb) s = Some (sendMsg_gt (MsgAddClient c cb) s)"
| "track_step (RemoveClient c) s = Some (sendMsg_gt (MsgRemoveClient c) s)"
| "track_step EngineUp s = Some (sendMsg_gt MsgHandleEngineUpEvent s)"
| "track_step (UpdateNHz b) s = Some (sendMsg_gt (MsgUpdateNHz b) s)"
| "track_step Reconfigure s = Some (sendMsg_gt MsgReconfigure s)"
| "track_step PowerCallback s = Some (sendMsg_gt MsgPowerCallback s)"
| "track_step (EnableNtrip p) s = Some (sendMsg_gt (MsgEnableNtrip p) s)"
| "track_step DisableNtrip s = Some (sendMsg_gt MsgDisableNtrip s)"
| "track_step (Answered i err) s = Some (if i < length (gt_waiting s)
     then sendMsg_gt (MsgResponse (gt_waiting s ! i) err) (s\<lparr>gt_waiting := take i (gt_waiting s) @ drop (Suc i) (gt_waiting s)\<rparr>)
     else s)"
| "track_step Proc_Head s = (case gt_queue s of [] \<Rightarrow> Some s | m # ms \<Rightarrow> proc_gt m (s\<lparr>gt_queue := ms\<rparr>))"

fun track_run :: "track_event list \<Rightarrow> gnss_tracking \<Rightarrow> gnss_tracking option" where
  "track_run [] s = Some s"
| "track_run (e # es) s = do { s1 \<leftarrow> track_step e s; track_run es s1 }"

end
