(* ===== verification/Gnss_Track_Props.thy ===== *)
theory Gnss_Track_Props
  imports Gnss_Tracking "HOL-Library.Multiset"
begin

text \<open>
  Properties of the tracking sessions. \<open>served\<close> is the invariant that the modem runs, whenever there
  is a time based session, at an interval no longer than that of any of them; it holds as long as
  the modem accepts what it is asked. A conservation law of commands and answers says when a
  client hears of its command. The errors at the end show where a session gets less, or the
  modem does more, than was asked for.
\<close>

lemmas small_ops [simp] = saveClient_gt_def eraseClient_gt_def updateNHzRequirement_def savePowerStateCallback_def

section \<open>What the operations leave alone\<close>

lemma api_call_keeps [simp]:
  "mClientData (api_call c r s) = mClientData s"
  "mTimeBasedTrackingSessions (api_call c r s) = mTimeBasedTrackingSessions s"
  "mDistanceBasedTrackingSessions (api_call c r s) = mDistanceBasedTrackingSessions s"
  "mNHzNeeded (api_call c r s) = mNHzNeeded s"
  "mSPEAlreadyRunningAtHighestInterval (api_call c r s) = mSPEAlreadyRunningAtHighestInterval s"
  "mIsEngineCapabilitiesKnown (api_call c r s) = mIsEngineCapabilitiesKnown s"
  "mPendingMsgs (api_call c r s) = mPendingMsgs s"
  "mSessionIdCounter (api_call c r s) = mSessionIdCounter s"
  "dbt_supported (api_call c r s) = dbt_supported s"
  "gt_queue (api_call c r s) = gt_queue s"
  "gt_answers (api_call c r s) = gt_answers s"
  by (simp_all add: api_call_def)

lemma report_keeps [simp]:
  "mClientData (reportResponse c err sid s) = mClientData s"
  "mTimeBasedTrackingSessions (reportResponse c err sid s) = mTimeBasedTrackingSessions s"
  "mDistanceBasedTrackingSessions (reportResponse c err sid s) = mDistanceBasedTrackingSessions s"
  "mNHzNeeded (reportResponse c err sid s) = mNHzNeeded s"
  "mSPEAlreadyRunningAtHighestInterval (reportResponse c err sid s) = mSPEAlreadyRunningAtHighestInterval s"
  "mIsEngineCapabilitiesKnown (reportResponse c err sid s) = mIsEngineCapabilitiesKnown s"
  "mPendingMsgs (reportResponse c err sid s) = mPendingMsgs s"
  "mSessionIdCounter (reportResponse c err sid s) = mSessionIdCounter s"
  "dbt_supported (reportResponse c err sid s) = dbt_supported s"
  "gt_queue (reportResponse c err sid s) = gt_queue s"
  "gt_waiting (reportResponse c err sid s) = gt_waiting s"
  "gt_calls (reportResponse c err sid s) = gt_calls s"
  by (simp_all add: reportResponse_def)

lemma mode_keeps [simp]:
  "mClientData (setLocPositionMode m s) = mClientData s"
  "mTimeBasedTrackingSessions (setLocPositionMode m s) = mTimeBasedTrackingSessions s"
  "mDistanceBasedTrackingSessions (setLocPositionMode m s) = mDistanceBasedTrackingSessions s"
  "mNHzNeeded (setLocPositionMode m s) = mNHzNeeded s"
  "mSPEAlreadyRunningAtHighestInterval (setLocPositionMode m s) = mSPEAlreadyRunningAtHighestInterval s"
  "mIsEngineCapabilitiesKnown (setLocPositionMode m s) = mIsEngineCapabilitiesKnown s"
  "mPendingMsgs (setLocPositionMode m s) = mPendingMsgs s"
  "mSessionIdCounter (setLocPositionMode m s) = mSessionIdCounter s"
  "dbt_supported (setLocPositionMode m s) = dbt_supported s"
  "gt_queue (setLocPositionMode m s) = gt_queue s"
  "gt_waiting (setLocPositionMode m s) = gt_waiting s"
  "gt_calls (setLocPositionMode m s) = gt_calls s"
  "gt_answers (setLocPositionMode m s) = gt_answers s"
  by (simp_all add: setLocPositionMode_def)

lemma power_keeps [simp]:
  "mClientData (reportPowerStateIfChanged s) = mClientData s"
  "mTimeBasedTrackingSessions (reportPowerStateIfChanged s) = mTimeBasedTrackingSessions s"
  "mDistanceBasedTrackingSessions (reportPowerStateIfChanged s) = mDistanceBasedTrackingSessions s"
  "mNHzNeeded (reportPowerStateIfChanged s) = mNHzNeeded s"
  "mSPEAlreadyRunningAtHighestInterval (reportPowerStateIfChanged s) = mSPEAlreadyRunningAtHighestInterval s"
  "mIsEngineCapabilitiesKnown (reportPowerStateIfChanged s) = mIsEngineCapabilitiesKnown s"
  "mPendingMsgs (reportPowerStateIfChanged s) = mPendingMsgs s"
  "mSessionIdCounter (reportPowerStateIfChanged s) = mSessionIdCounter s"
  "dbt_supported (reportPowerStateIfChanged s) = dbt_supported s"
  "gt_queue (reportPowerStateIfChanged s) = gt_queue s"
  "gt_waiting (reportPowerStateIfChanged s) = gt_waiting s"
  "gt_calls (reportPowerStateIfChanged s) = gt_calls s"
  "gt_answers (reportPowerStateIfChanged s) = gt_answers s"
  by (simp_all add: reportPowerStateIfChanged_def Let_def)

lemma save_keeps [simp]:
  "mClientData (saveTrackingSession c sid opts s) = mClientData s"
  "mNHzNeeded (saveTrackingSession c sid opts s) = mNHzNeeded s"
  "mSPEAlreadyRunningAtHighestInterval (saveTrackingSession c sid opts s) = mSPEAlreadyRunningAtHighestInterval s"
  "mIsEngineCapabilitiesKnown (saveTrackingSession c sid opts s) = mIsEngineCapabilitiesKnown s"
  "mPendingMsgs (saveTrackingSession c sid opts s) = mPendingMsgs s"
  "mSessionIdCounter (saveTrackingSession c sid opts s) = mSessionIdCounter s"
  "dbt_supported (saveTrackingSession c sid opts s) = dbt_supported s"
  "gt_queue (saveTrackingSession c sid opts s) = gt_queue s"
  "gt_waiting (saveTrackingSession c sid opts s) = gt_waiting s"
  "gt_calls (saveTrackingSession c sid opts s) = gt_calls s"
  "gt_answers (saveTrackingSession c sid opts s) = gt_answers s"
  by (simp_all add: saveTrackingSession_def Let_def)

lemma erase_keeps [simp]:
  "mClientData (eraseTrackingSession c sid s) = mClientData s"
  "mNHzNeeded (eraseTrackingSession c sid s) = mNHzNeeded s"
  "mSPEAlreadyRunningAtHighestInterval (eraseTrackingSession c sid s) = mSPEAlreadyRunningAtHighestInterval s"
  "mIsEngineCapabilitiesKnown (eraseTrackingSession c sid s) = mIsEngineCapabilitiesKnown s"
  "mPendingMsgs (eraseTrackingSession c sid s) = mPendingMsgs s"
  "mSessionIdCounter (eraseTrackingSession c sid s) = mSessionIdCounter s"
  "dbt_supported (eraseTrackingSession c sid s) = dbt_supported s"
  "gt_queue (eraseTrackingSession c sid s) = gt_queue s"
  "gt_waiting (eraseTrackingSession c sid s) = gt_waiting s"
  "gt_calls (eraseTrackingSession c sid s) = gt_calls s"
  "gt_answers (eraseTrackingSession c sid s) = gt_answers s"
  by (simp_all add: eraseTrackingSession_def Let_def)

lemma run_fix_keeps [simp]:
  "mClientData (run_fix c sid opts r s) = mClientData s"
  "mTimeBasedTrackingSessions (run_fix c sid opts r s) = mTimeBasedTrackingSessions s"
  "mDistanceBasedTrackingSessions (run_fix c sid opts r s) = mDistanceBasedTrackingSessions s"
  "mNHzNeeded (run_fix c sid opts r s) = mNHzNeeded s"
  "mIsEngineCapabilitiesKnown (run_fix c sid opts r s) = mIsEngineCapabilitiesKnown s"
  "mPendingMsgs (run_fix c sid opts r s) = mPendingMsgs s"
  "mSessionIdCounter (run_fix c sid opts r s) = mSessionIdCounter s"
  "dbt_supported (run_fix c sid opts r s) = dbt_supported s"
  "gt_queue (run_fix c sid opts r s) = gt_queue s"
  by (simp_all add: run_fix_def checkAndSetSPEToRunforNHz_def Let_def)

lemma stop_fix_keeps [simp]:
  "mClientData (stopTracking c sid s) = mClientData s"
  "mTimeBasedTrackingSessions (stopTracking c sid s) = mTimeBasedTrackingSessions s"
  "mDistanceBasedTrackingSessions (stopTracking c sid s) = mDistanceBasedTrackingSessions s"
  "mNHzNeeded (stopTracking c sid s) = mNHzNeeded s"
  "mIsEngineCapabilitiesKnown (stopTracking c sid s) = mIsEngineCapabilitiesKnown s"
  "mPendingMsgs (stopTracking c sid s) = mPendingMsgs s"
  "mSessionIdCounter (stopTracking c sid s) = mSessionIdCounter s"
  "dbt_supported (stopTracking c sid s) = dbt_supported s"
  "gt_queue (stopTracking c sid s) = gt_queue s"
  "gt_answers (stopTracking c sid s) = gt_answers s"
  by (simp_all add: stopTracking_def Let_def)

lemma answer_now_keeps [simp]:
  "mClientData (answer_now c sid now s) = mClientData s"
  "mTimeBasedTrackingSessions (answer_now c sid now s) = mTimeBasedTrackingSessions s"
  "mDistanceBasedTrackingSessions (answer_now c sid now s) = mDistanceBasedTrackingSessions s"
  "mNHzNeeded (answer_now c sid now s) = mNHzNeeded s"
  "mSPEAlreadyRunningAtHighestInterval (answer_now c sid now s) = mSPEAlreadyRunningAtHighestInterval s"
  "mIsEngineCapabilitiesKnown (answer_now c sid now s) = mIsEngineCapabilitiesKnown s"
  "mPendingMsgs (answer_now c sid now s) = mPendingMsgs s"
  "mSessionIdCounter (answer_now c sid now s) = mSessionIdCounter s"
  "dbt_supported (answer_now c sid now s) = dbt_supported s"
  "gt_queue (answer_now c sid now s) = gt_queue s"
  "gt_waiting (answer_now c sid now s) = gt_waiting s"
  "gt_calls (answer_now c sid now s) = gt_calls s"
  by (simp_all add: answer_now_def)

lemma restart_distance_keeps [simp]:
  "mClientData (restart_distance m s) = mClientData s"
  "mTimeBasedTrackingSessions (restart_distance m s) = mTimeBasedTrackingSessions s"
  "mDistanceBasedTrackingSessions (restart_distance m s) = mDistanceBasedTrackingSessions s"
  "mNHzNeeded (restart_distance m s) = mNHzNeeded s"
  "mSPEAlreadyRunningAtHighestInterval (restart_distance m s) = mSPEAlreadyRunningAtHighestInterval s"
  "mIsEngineCapabilitiesKnown (restart_distance m s) = mIsEngineCapabilitiesKnown s"
  "mPendingMsgs (restart_distance m s) = mPendingMsgs s"
  "mSessionIdCounter (restart_distance m s) = mSessionIdCounter s"
  "dbt_supported (restart_distance m s) = dbt_supported s"
  "gt_queue (restart_distance m s) = gt_queue s"
  "gt_waiting (restart_distance m s) = gt_waiting s"
  "gt_answers (restart_distance m s) = gt_answers s"
  by (induction m s rule: restart_distance.induct) (simp_all add: api_call_def)


section \<open>The request the modem runs\<close>

fun fix_step :: "TrackingOptions option \<Rightarrow> loc_api_call \<Rightarrow> TrackingOptions option" where
  "fix_step f (StartTimeBased opts) = Some opts"
| "fix_step f StopFix = None"
| "fix_step f _ = f"

definition fix_request :: "gnss_tracking \<Rightarrow> TrackingOptions option" where
  "fix_request s = foldl fix_step None (gt_calls s)"

lemma fix_api [simp]: "fix_request (api_call c r s) = fix_step (fix_request s) c"
  by (simp add: fix_request_def api_call_def)

lemma fix_cong: "gt_calls s' = gt_calls s \<Longrightarrow> fix_request s' = fix_request s"
  by (simp add: fix_request_def)

lemma fix_keeps [simp]:
  "fix_request (reportResponse c err sid s) = fix_request s"
  "fix_request (setLocPositionMode m s) = fix_request s"
  "fix_request (saveTrackingSession c sid opts s) = fix_request s"
  "fix_request (eraseTrackingSession c sid s) = fix_request s"
  "fix_request (answer_now c sid now s) = fix_request s"
  by (simp_all add: fix_request_def)

lemma fix_distance [simp]: "fix_request (restart_distance m s) = fix_request s"
  by (induction m s rule: restart_distance.induct) simp_all

lemma waiting_api [simp]:
  "gt_waiting (api_call c None s) = gt_waiting s" "gt_waiting (api_call c (Some r) s) = gt_waiting s @ [r]"
  by (simp_all add: api_call_def)

definition good_opts :: "TrackingOptions \<Rightarrow> bool" where
  "good_opts opts \<longleftrightarrow> lo_size opts \<noteq> 0 \<and> MIN_TRACKING_INTERVAL \<le> minInterval opts"

text \<open>The fast run for an engine that needs many positions a second.\<close>

definition fast_ok :: "gnss_tracking \<Rightarrow> bool" where
  "fast_ok s \<longleftrightarrow> (mSPEAlreadyRunningAtHighestInterval s \<longrightarrow> mNHzNeeded s
     \<and> (\<exists>f. fix_request s = Some f \<and> minInterval f = MIN_TRACKING_INTERVAL))"

definition covers :: "gnss_tracking \<Rightarrow> (LocationSessionKey \<times> TrackingOptions) set \<Rightarrow> bool" where
  "covers s S \<longleftrightarrow> (\<exists>f. fix_request s = Some f \<and> (\<forall>(k, opts) \<in> S. minInterval f \<le> minInterval opts))"

definition served :: "gnss_tracking \<Rightarrow> bool" where
  "served s \<longleftrightarrow> map_ok (mTimeBasedTrackingSessions s) \<and> (\<forall>(k, opts) \<in> set (mTimeBasedTrackingSessions s). good_opts opts)
     \<and> fast_ok s \<and> (mTimeBasedTrackingSessions s \<noteq> [] \<longrightarrow> covers s (set (mTimeBasedTrackingSessions s)))
     \<and> dbt_supported s"

lemma run_fix_serves:
  assumes "fast_ok s" "MIN_TRACKING_INTERVAL \<le> minInterval opts" "s' = run_fix c sid opts r s"
  shows "fast_ok s'" "\<exists>f. fix_request s' = Some f \<and> minInterval f \<le> minInterval opts"
    "set (gt_waiting s') \<subseteq> insert r (set (gt_waiting s))"
  using assms by (auto simp: run_fix_def checkAndSetSPEToRunforNHz_def Let_def fast_ok_def split: if_splits)

lemma stop_fix_serves:
  "fast_ok (stopTracking c sid s)" "set (gt_waiting (stopTracking c sid s)) = insert (Tb_Stopped c sid) (set (gt_waiting s))"
  "fix_request (stopTracking c sid s) = None"
  by (auto simp: fast_ok_def stopTracking_def Let_def fix_request_def api_call_def)

section \<open>Multiplexing\<close>

lemma mux_interval:
  assumes "mux_loop skip m mo mp = (mo', mp')" "\<forall>(k, opts) \<in> set m. lo_size opts \<noteq> 0"
    "lo_size mo \<noteq> 0 \<or> (\<exists>(k, opts) \<in> set m. skip \<noteq> Some k)"
  shows "lo_size mo' \<noteq> 0 \<and> (\<forall>(k, opts) \<in> set m. skip \<noteq> Some k \<longrightarrow> minInterval mo' \<le> minInterval opts)
    \<and> (lo_size mo \<noteq> 0 \<longrightarrow> minInterval mo' \<le> minInterval mo) \<and> (mo' = mo \<or> (\<exists>k. skip \<noteq> Some k \<and> (k, mo') \<in> set m))"
  using assms
proof (induction skip m mo mp rule: mux_loop.induct)
  case (2 skip k opts m mo mp)
  let ?mo = "if skip \<noteq> Some k \<and> (lo_size mo = 0 \<or> minInterval opts < minInterval mo) then opts else mo"
  have "lo_size mo' \<noteq> 0 \<and> (\<forall>(k, opts) \<in> set m. skip \<noteq> Some k \<longrightarrow> minInterval mo' \<le> minInterval opts)
    \<and> (lo_size ?mo \<noteq> 0 \<longrightarrow> minInterval mo' \<le> minInterval ?mo) \<and> (mo' = ?mo \<or> (\<exists>k. skip \<noteq> Some k \<and> (k, mo') \<in> set m))"
    using 2 by (intro "2.IH") (auto split: if_splits)
  then have ih: "lo_size mo' \<noteq> 0" "\<And>k' o'. (k', o') \<in> set m \<Longrightarrow> skip \<noteq> Some k' \<Longrightarrow> minInterval mo' \<le> minInterval o'"
    "lo_size ?mo \<noteq> 0 \<Longrightarrow> minInterval mo' \<le> minInterval ?mo" "mo' = ?mo \<or> (\<exists>k. skip \<noteq> Some k \<and> (k, mo') \<in> set m)" by auto
  have o: "lo_size opts \<noteq> 0" using "2.prems" by simp
  show ?case
  proof (cases "skip \<noteq> Some k \<and> (lo_size mo = 0 \<or> minInterval opts < minInterval mo)")
    case True
    then have "?mo = opts" by (rule if_P)
    with ih o True show ?thesis by (auto intro: order_trans less_imp_le)
  next
    case False
    then have "?mo = mo" by (rule if_not_P)
    with ih False show ?thesis by (auto simp: not_less intro: order_trans)
  qed
qed auto

lemma multiplexed_serves:
  assumes "multiplexed skip s = (mo, mp)" "\<forall>(k, opts) \<in> set (mTimeBasedTrackingSessions s). good_opts opts"
    "\<exists>(k, opts) \<in> set (mTimeBasedTrackingSessions s). skip \<noteq> Some k"
  shows "good_opts mo" "\<exists>k. skip \<noteq> Some k \<and> (k, mo) \<in> set (mTimeBasedTrackingSessions s)"
    "\<And>k opts. (k, opts) \<in> set (mTimeBasedTrackingSessions s) \<Longrightarrow> skip \<noteq> Some k \<Longrightarrow> minInterval mo \<le> minInterval opts"
proof -
  have "lo_size cleared_options = 0" by (simp add: cleared_options_def)
  then have m: "lo_size mo \<noteq> 0" "\<forall>(k, opts) \<in> set (mTimeBasedTrackingSessions s). skip \<noteq> Some k \<longrightarrow> minInterval mo \<le> minInterval opts"
    "mo = cleared_options \<or> (\<exists>k. skip \<noteq> Some k \<and> (k, mo) \<in> set (mTimeBasedTrackingSessions s))"
    using mux_interval [OF assms(1) [unfolded multiplexed_def]] assms(2,3) by (auto simp: good_opts_def)
  then show ex: "\<exists>k. skip \<noteq> Some k \<and> (k, mo) \<in> set (mTimeBasedTrackingSessions s)"
    using \<open>lo_size cleared_options = 0\<close> by auto
  then show "good_opts mo" using assms(2) by auto
  fix k opts assume "(k, opts) \<in> set (mTimeBasedTrackingSessions s)" "skip \<noteq> Some k"
  then show "minInterval mo \<le> minInterval opts" using m(2) by auto
qed

lemma mux_update_serves:
  assumes "mux_update opts (mo, mp) = (u, mo2)"
  shows "minInterval mo2 = min (minInterval opts) (minInterval mo)" "\<not> u \<Longrightarrow> minInterval mo \<le> minInterval opts"
  using assms by (auto simp: mux_update_def Let_def min_def split: if_splits)

lemma serve_keeps [simp]:
  "fast_ok (reportResponse c err sid s) = fast_ok s" "covers (reportResponse c err sid s) S = covers s S"
  "fast_ok (saveTrackingSession c sid opts s) = fast_ok s" "covers (saveTrackingSession c sid opts s) S = covers s S"
  "fast_ok (eraseTrackingSession c sid s) = fast_ok s" "covers (eraseTrackingSession c sid s) S = covers s S"
  "fast_ok (answer_now c sid now s) = fast_ok s" "covers (answer_now c sid now s) S = covers s S"
  by (simp_all add: fast_ok_def covers_def)

lemma served_keeps [simp]:
  "served (reportResponse c err sid s) = served s" "served (answer_now c sid now s) = served s"
  by (simp_all add: served_def)

lemma covers_mono: "covers s S \<Longrightarrow> S' \<subseteq> S \<Longrightarrow> covers s S'"
  unfolding covers_def by blast

lemma covers_drop: "covers s (insert a S) \<Longrightarrow> covers s (insert a {x \<in> S. P x})"
  by (erule covers_mono) auto

lemma covers_le:
  "covers s S \<Longrightarrow> (k, x) \<in> S \<Longrightarrow> minInterval x \<le> minInterval opts \<Longrightarrow> covers s (insert (key, opts) S)"
  by (fastforce simp: covers_def)

lemma save_time [simp]:
  "minDistance opts = 0 \<Longrightarrow> mTimeBasedTrackingSessions (saveTrackingSession c sid opts s)
     = map_put (LocationSessionKey c sid) opts (mTimeBasedTrackingSessions s)"
  "minDistance opts = 0 \<Longrightarrow> mDistanceBasedTrackingSessions (saveTrackingSession c sid opts s) = mDistanceBasedTrackingSessions s"
  "0 < minDistance opts \<Longrightarrow> dbt_supported s \<Longrightarrow> mTimeBasedTrackingSessions (saveTrackingSession c sid opts s)
     = mTimeBasedTrackingSessions s"
  by (simp_all add: saveTrackingSession_def Let_def)

lemma erase_time:
  "mTimeBasedTrackingSessions (eraseTrackingSession c sid s) = map_erase (LocationSessionKey c sid) (mTimeBasedTrackingSessions s)"
proof (cases "map_of (mTimeBasedTrackingSessions s) (LocationSessionKey c sid)")
  case None
  then have "map_erase (LocationSessionKey c sid) (mTimeBasedTrackingSessions s) = mTimeBasedTrackingSessions s"
    by (force simp: map_of_eq_None_iff map_erase_def filter_id_conv)
  with None show ?thesis by (simp add: eraseTrackingSession_def Let_def)
qed (simp add: eraseTrackingSession_def Let_def)

lemma save_serves:
  assumes "map_ok (mTimeBasedTrackingSessions s)" "\<forall>(k, opts) \<in> set (mTimeBasedTrackingSessions s). good_opts opts" "fast_ok s"
    "dbt_supported s" "minDistance opts = 0" "good_opts opts"
    "covers s (insert (LocationSessionKey c sid, opts) {x \<in> set (mTimeBasedTrackingSessions s). fst x \<noteq> LocationSessionKey c sid})"
  shows "served (saveTrackingSession c sid opts s)"
  using assms by (auto simp: served_def set_put)

lemma erase_serves: "served s \<Longrightarrow> served (eraseTrackingSession c sid s)"
  by (auto simp: served_def erase_time covers_def)

lemma distance_serves: "served s \<Longrightarrow> 0 < minDistance opts \<Longrightarrow> served (saveTrackingSession c sid opts s)"
  by (auto simp: served_def)

lemma start_serves:
  assumes s: "served s" and o: "good_opts opts" "minDistance opts = 0"
    and r: "startTimeBasedTrackingMultiplex c sid opts s = (now, s1)"
  shows "served (saveTrackingSession c sid opts s1)" "set (gt_waiting s1) \<subseteq> insert (Tb_Started c sid) (set (gt_waiting s))"
    "gt_queue s1 = gt_queue s" "mPendingMsgs s1 = mPendingMsgs s"
proof -
  let ?T = "mTimeBasedTrackingSessions s"
  have t: "map_ok ?T" "\<forall>(k, opts) \<in> set ?T. good_opts opts" "fast_ok s" "dbt_supported s" using s by (auto simp: served_def)
  have run: "served (saveTrackingSession c sid opts s1) \<and> set (gt_waiting s1) \<subseteq> insert (Tb_Started c sid) (set (gt_waiting s))
      \<and> gt_queue s1 = gt_queue s \<and> mPendingMsgs s1 = mPendingMsgs s"
    if "s1 = run_fix c sid x (Tb_Started c sid) (s\<lparr>mPrevNmeaRptTimeNsec := n\<rparr>)" "MIN_TRACKING_INTERVAL \<le> minInterval x" "minInterval x \<le> minInterval opts"
      "\<forall>(k, y) \<in> set ?T. minInterval x \<le> minInterval y" for x n
  proof -
    have "fast_ok (s\<lparr>mPrevNmeaRptTimeNsec := n\<rparr>)" using t(3) by (simp add: fast_ok_def fix_request_def)
    note f = run_fix_serves [OF this that(2) that(1)]
    have "mTimeBasedTrackingSessions s1 = ?T" "dbt_supported s1" using that(1) t(4) by simp_all
    moreover have "covers s1 (insert (LocationSessionKey c sid, opts) {x \<in> set ?T. fst x \<noteq> LocationSessionKey c sid})"
      using f(2) that(3,4) by (fastforce simp: covers_def intro: order_trans)
    ultimately show ?thesis using save_serves [of s1 opts c sid] f t o that(1) by auto
  qed
  have "served (saveTrackingSession c sid opts s1) \<and> set (gt_waiting s1) \<subseteq> insert (Tb_Started c sid) (set (gt_waiting s))
      \<and> gt_queue s1 = gt_queue s \<and> mPendingMsgs s1 = mPendingMsgs s"
  proof (cases "?T = []")
    case True
    then show ?thesis using r o by (intro run [of opts 0]) (auto simp: startTimeBasedTrackingMultiplex_def startTimeBasedTracking_def good_opts_def)
  next
    case False
    obtain mo mp where m: "multiplexed None s = (mo, mp)" by fastforce
    obtain u x where u: "mux_update opts (mo, mp) = (u, x)" by fastforce
    have ex: "\<exists>(k, opts) \<in> set ?T. None \<noteq> Some k" using False by (cases ?T) auto
    note ms = multiplexed_serves [OF m t(2) ex]
    note us = mux_update_serves [OF u]
    show ?thesis
    proof (cases u)
      case True
      moreover have "s\<lparr>mPrevNmeaRptTimeNsec := mPrevNmeaRptTimeNsec s\<rparr> = s" by (cases s) simp
      ultimately have "s1 = run_fix c sid x (Tb_Started c sid) (s\<lparr>mPrevNmeaRptTimeNsec := mPrevNmeaRptTimeNsec s\<rparr>)"
        using r False m u by (simp add: startTimeBasedTrackingMultiplex_def startTimeBasedTracking_def)
      moreover have "MIN_TRACKING_INTERVAL \<le> minInterval x" "minInterval x \<le> minInterval opts" "minInterval x \<le> minInterval mo"
        using ms(1) o(1) us(1) by (auto simp: good_opts_def)
      moreover have "\<forall>(k, y) \<in> set ?T. minInterval x \<le> minInterval y"
        using ms(3) \<open>minInterval x \<le> minInterval mo\<close> by (auto intro: order_trans)
      ultimately show ?thesis using run by blast
    next
      case n: False
      then have "s1 = s" using r False m u by (simp add: startTimeBasedTrackingMultiplex_def)
      moreover have "covers s (insert (LocationSessionKey c sid, opts) (set ?T))"
        using s False ms(2) us(2) [OF n] by (auto simp: served_def intro: covers_le)
      note save_serves [OF t o(2,1) covers_drop [OF this]]
      ultimately show ?thesis by auto
    qed
  qed
  then show "served (saveTrackingSession c sid opts s1)" "set (gt_waiting s1) \<subseteq> insert (Tb_Started c sid) (set (gt_waiting s))"
    "gt_queue s1 = gt_queue s" "mPendingMsgs s1 = mPendingMsgs s" by auto
qed

text \<open>What a session leaves behind when its options change or it ends.\<close>

lemma update_serves:
  assumes s: "served s" and o: "good_opts opts" "minDistance opts = 0"
    and r: "updateTrackingMultiplex c sid opts s = Some (now, s1)"
  shows "served (saveTrackingSession c sid opts s1)"
    "set (gt_waiting s1) \<subseteq> insert (Tb_Updated c sid (the (map_of (mTimeBasedTrackingSessions s) (LocationSessionKey c sid)))) (set (gt_waiting s))"
    "gt_queue s1 = gt_queue s" "mPendingMsgs s1 = mPendingMsgs s"
proof -
  let ?T = "mTimeBasedTrackingSessions s" let ?k = "LocationSessionKey c sid"
  let ?G = "\<lambda>s1. served (saveTrackingSession c sid opts s1) \<and> set (gt_waiting s1) \<subseteq> insert (Tb_Updated c sid (the (map_of ?T ?k))) (set (gt_waiting s))
      \<and> gt_queue s1 = gt_queue s \<and> mPendingMsgs s1 = mPendingMsgs s"
  have t: "map_ok ?T" "\<forall>(k, opts) \<in> set ?T. good_opts opts" "fast_ok s" "dbt_supported s" using s by (auto simp: served_def)
  obtain old where old: "map_of ?T ?k = Some old" using r by (auto simp: updateTrackingMultiplex_def Let_def split: option.splits)
  then have ne: "?T \<noteq> []" "(?k, old) \<in> set ?T" using map_of_some [OF t(1)] by auto
  have run: "?G (run_fix c sid x (Tb_Updated c sid old) s)"
    if "MIN_TRACKING_INTERVAL \<le> minInterval x" "minInterval x \<le> minInterval opts"
      "\<forall>(k, y) \<in> {z \<in> set ?T. fst z \<noteq> ?k}. minInterval x \<le> minInterval y" for x
  proof -
    let ?s = "run_fix c sid x (Tb_Updated c sid old) s"
    note f = run_fix_serves [OF t(3) that(1), of ?s c sid "Tb_Updated c sid old", OF refl]
    have "covers ?s (insert (?k, opts) {x \<in> set ?T. fst x \<noteq> ?k})"
      using f(2) that(2,3) by (fastforce simp: covers_def intro: order_trans)
    then show ?thesis using save_serves [of ?s opts c sid] f t o old by auto
  qed
  have keep: "?G s" if "covers s (insert (?k, opts) {x \<in> set ?T. fst x \<noteq> ?k})"
    using that save_serves [of s opts c sid] t o by auto
  have cov: "covers s (set ?T)" using s ne by (auto simp: served_def)
  have "?G s1"
  proof (cases "minInterval old \<noteq> minInterval opts \<or> powerMode old \<noteq> powerMode opts")
    case False
    then have "s1 = s" using r old by (simp add: updateTrackingMultiplex_def Let_def)
    moreover have "covers s (insert (?k, opts) (set ?T))" using covers_le [OF cov ne(2)] False by simp
    ultimately show ?thesis using keep [OF covers_drop] by blast
  next
    case True
    obtain mo mp where m: "multiplexed (Some ?k) s = (mo, mp)" by fastforce
    obtain u x where u: "mux_update opts (mo, mp) = (u, x)" by fastforce
    have res: "s1 = (if u \<or> length ?T = 1 then run_fix c sid (if length ?T = 1 then opts else x) (Tb_Updated c sid old) s else s)"
      using r old True m u by (auto simp: updateTrackingMultiplex_def updateTracking_def Let_def split: if_splits)
    show ?thesis
    proof (cases "length ?T = 1")
      case single: True
      then have "{z \<in> set ?T. fst z \<noteq> ?k} = {}" using ne(2) by (cases ?T) auto
      then show ?thesis using res single run [of opts] o by (auto simp: good_opts_def)
    next
      case False
      have "\<exists>(k, opts) \<in> set ?T. Some ?k \<noteq> Some k" using other_key [OF t(1) False, of ?k] old by fastforce
      note ms = multiplexed_serves [OF m t(2) this]
      note us = mux_update_serves [OF u]
      show ?thesis
      proof (cases u)
        case True
        have x: "MIN_TRACKING_INTERVAL \<le> minInterval x" "minInterval x \<le> minInterval opts" "minInterval x \<le> minInterval mo"
          using ms(1) o(1) us(1) by (auto simp: good_opts_def)
        moreover have "\<forall>(k, y) \<in> {z \<in> set ?T. fst z \<noteq> ?k}. minInterval x \<le> minInterval y"
          using ms(3) x(3) by (force intro: order_trans)
        ultimately show ?thesis using res True False run [of x] by simp
      next
        case n: False
        have "covers s (insert (?k, opts) (set ?T))"
          using ms(2) us(2) [OF n] cov by (auto intro: covers_le)
        from keep [OF covers_drop [OF this]] show ?thesis using res n False by simp
      qed
    qed
  qed
  then show "served (saveTrackingSession c sid opts s1)"
    "set (gt_waiting s1) \<subseteq> insert (Tb_Updated c sid (the (map_of ?T ?k))) (set (gt_waiting s))"
    "gt_queue s1 = gt_queue s" "mPendingMsgs s1 = mPendingMsgs s" by auto
qed

lemma stop_serves:
  assumes s: "served s" and k: "map_of (mTimeBasedTrackingSessions s) (LocationSessionKey c sid) \<noteq> None"
    and r: "stopTimeBasedTrackingMultiplex c sid s = (now, s1)"
  shows "served (eraseTrackingSession c sid s1)"
    "set (gt_waiting s1) \<subseteq> {Tb_Started c sid, Tb_Stopped c sid} \<union> set (gt_waiting s)"
    "gt_queue s1 = gt_queue s" "mPendingMsgs s1 = mPendingMsgs s" "mTimeBasedTrackingSessions s1 = mTimeBasedTrackingSessions s"
proof -
  let ?T = "mTimeBasedTrackingSessions s" let ?k = "LocationSessionKey c sid"
  let ?G = "\<lambda>s1. served (eraseTrackingSession c sid s1) \<and> set (gt_waiting s1) \<subseteq> {Tb_Started c sid, Tb_Stopped c sid} \<union> set (gt_waiting s)
      \<and> gt_queue s1 = gt_queue s \<and> mPendingMsgs s1 = mPendingMsgs s \<and> mTimeBasedTrackingSessions s1 = mTimeBasedTrackingSessions s"
  have t: "map_ok ?T" "\<forall>(k, opts) \<in> set ?T. good_opts opts" "fast_ok s" "dbt_supported s" using s by (auto simp: served_def)
  obtain old where old: "map_of ?T ?k = Some old" using k by auto
  have "?G s1"
  proof (cases "length ?T = 1")
    case True
    then have "s1 = stopTracking c sid s" using r by (simp add: stopTimeBasedTrackingMultiplex_def)
    moreover have "map_erase ?k ?T = []" using erase_single [OF True k] .
    ultimately show ?thesis using t stop_fix_serves [of c sid s] by (auto simp: served_def erase_time)
  next
    case False
    obtain mo mp where m: "multiplexed (Some ?k) s = (mo, mp)" by fastforce
    have "\<exists>(k, opts) \<in> set ?T. Some ?k \<noteq> Some k" using other_key [OF t(1) False, of ?k] old by fastforce
    note ms = multiplexed_serves [OF m t(2) this]
    show ?thesis
    proof (cases "minInterval old < minInterval mo \<or> powerMode old < mp")
      case True
      let ?s = "run_fix c sid (mo\<lparr>powerMode := mp\<rparr>) (Tb_Started c sid) s"
      have "s1 = ?s" using r old True False m by (simp add: stopTimeBasedTrackingMultiplex_def startTimeBasedTracking_def Let_def)
      moreover have i: "MIN_TRACKING_INTERVAL \<le> minInterval (mo\<lparr>powerMode := mp\<rparr>)" using ms(1) by (simp add: good_opts_def)
      note f = run_fix_serves [OF t(3) i, of ?s c sid "Tb_Started c sid", OF refl]
      have "covers ?s {x \<in> set ?T. fst x \<noteq> ?k}" using f(2) ms(3) by (fastforce simp: covers_def intro: order_trans)
      ultimately show ?thesis using f t by (auto simp: served_def erase_time)
    next
      case n: False
      then have "s1 = s" using r old False m by (simp add: stopTimeBasedTrackingMultiplex_def Let_def)
      then show ?thesis using erase_serves [OF s] by auto
    qed
  qed
  then show "served (eraseTrackingSession c sid s1)"
    "set (gt_waiting s1) \<subseteq> {Tb_Started c sid, Tb_Stopped c sid} \<union> set (gt_waiting s)"
    "gt_queue s1 = gt_queue s" "mPendingMsgs s1 = mPendingMsgs s" "mTimeBasedTrackingSessions s1 = mTimeBasedTrackingSessions s" by auto
qed

section \<open>Restarts\<close>

lemma restart_interval:
  assumes "restart_loop m si hp = (si', hp')" "\<forall>(k, opts) \<in> set m. lo_size opts \<noteq> 0" "lo_size si \<noteq> 0 \<or> m \<noteq> []"
  shows "(\<forall>(k, opts) \<in> set m. minInterval si' \<le> minInterval opts) \<and> (lo_size si \<noteq> 0 \<longrightarrow> minInterval si' \<le> minInterval si)
    \<and> (si' = si \<and> lo_size si \<noteq> 0 \<or> (\<exists>k. (k, si') \<in> set m))"
  using assms
proof (induction m si hp rule: restart_loop.induct)
  case (2 k opts m si hp)
  let ?si = "if lo_size si = 0 \<or> minInterval opts < minInterval si then opts else si"
  have o: "lo_size opts \<noteq> 0" using "2.prems" by simp
  then have "lo_size ?si \<noteq> 0" by simp
  then have ih: "\<forall>(k, opts) \<in> set m. minInterval si' \<le> minInterval opts" "minInterval si' \<le> minInterval ?si"
    "si' = ?si \<or> (\<exists>k. (k, si') \<in> set m)"
    using "2.IH" "2.prems" by auto
  show ?case
  proof (cases "lo_size si = 0 \<or> minInterval opts < minInterval si")
    case True
    then have "?si = opts" by (rule if_P)
    with ih True o show ?thesis by (auto intro: order_trans less_imp_le)
  next
    case False
    then have "?si = si" by (rule if_not_P)
    with ih False show ?thesis by (auto simp: not_less intro: order_trans)
  qed
qed auto

lemma restart_serves:
  assumes "map_ok (mTimeBasedTrackingSessions s)" "\<forall>(k, opts) \<in> set (mTimeBasedTrackingSessions s). good_opts opts" "dbt_supported s"
  shows "served (checkAndRestartSPESession s)" "gt_waiting (checkAndRestartSPESession s) = gt_waiting s"
    "gt_queue (checkAndRestartSPESession s) = gt_queue s" "mPendingMsgs (checkAndRestartSPESession s) = mPendingMsgs s"
proof -
  let ?s = "s\<lparr>mSPEAlreadyRunningAtHighestInterval := False\<rparr>" let ?T = "mTimeBasedTrackingSessions s"
  let ?t = "checkAndRestartTimeBasedSession ?s"
  have "served ?t \<and> gt_waiting ?t = gt_waiting s \<and> gt_queue ?t = gt_queue s \<and> mPendingMsgs ?t = mPendingMsgs s"
  proof (cases "?T = []")
    case True
    then show ?thesis using assms by (simp add: checkAndRestartTimeBasedSession_def served_def fast_ok_def)
  next
    case False
    obtain si hp where r: "restart_loop ?T cleared_options cleared_options = (si, hp)" by fastforce
    have z: "\<forall>(k, opts) \<in> set ?T. lo_size opts \<noteq> 0" "lo_size cleared_options = 0"
      using assms(2) by (auto simp: good_opts_def cleared_options_def)
    have i: "\<forall>(k, opts) \<in> set ?T. minInterval si \<le> minInterval opts" "\<exists>k. (k, si) \<in> set ?T"
      using restart_interval [OF r z(1)] False z(2) by auto
    then have "MIN_TRACKING_INTERVAL \<le> minInterval si" using assms(2) by (auto simp: good_opts_def)
    with i assms False show ?thesis
      by (auto simp: checkAndRestartTimeBasedSession_def r setLocationOptions_def checkAndSetSPEToRunforNHz_def
          served_def fast_ok_def covers_def intro: order_trans)
  qed
  moreover have "served (restart_distance m x) = served x" "gt_waiting (restart_distance m x) = gt_waiting x" for m x
    by (simp_all add: served_def fast_ok_def covers_def)
  ultimately show "served (checkAndRestartSPESession s)" "gt_waiting (checkAndRestartSPESession s) = gt_waiting s"
    "gt_queue (checkAndRestartSPESession s) = gt_queue s" "mPendingMsgs (checkAndRestartSPESession s) = mPendingMsgs s"
    by (simp_all add: checkAndRestartSPESession_def Let_def)
qed

section \<open>The invariant\<close>

fun resp_ok :: "loc_response \<Rightarrow> bool" where
  "resp_ok (Db_To_Time c sid opts) \<longleftrightarrow> good_opts opts \<and> minDistance opts = 0"
| "resp_ok (Db_Restart c sid opts) \<longleftrightarrow> 0 < minDistance opts"
| "resp_ok (Db_Restarted c sid opts) \<longleftrightarrow> 0 < minDistance opts"
| "resp_ok _ \<longleftrightarrow> True"

fun msg_ok :: "track_msg \<Rightarrow> bool" where
  "msg_ok (MsgResponse r err) \<longleftrightarrow> resp_ok r \<and> err = LOCATION_ERROR_SUCCESS"
| "msg_ok _ \<longleftrightarrow> True"

definition track_inv :: "gnss_tracking \<Rightarrow> bool" where
  "track_inv s \<longleftrightarrow> served s \<and> (\<forall>r \<in> set (gt_waiting s). resp_ok r) \<and> (\<forall>m \<in> set (gt_queue s @ mPendingMsgs s). msg_ok m)"

lemma inv_keeps [simp]:
  "track_inv (reportResponse c err sid s) = track_inv s" "track_inv (answer_now c sid now s) = track_inv s"
  by (simp_all add: track_inv_def)

lemma inv_intro:
  assumes "track_inv s" "served s'" "set (gt_waiting s') \<subseteq> R \<union> set (gt_waiting s)" "\<forall>r \<in> R. resp_ok r"
    "gt_queue s' = gt_queue s" "mPendingMsgs s' = mPendingMsgs s"
  shows "track_inv s'"
  using assms by (auto simp: track_inv_def)

lemma inv_erase: "track_inv s \<Longrightarrow> track_inv (eraseTrackingSession c sid s)"
  by (auto simp: track_inv_def erase_serves)

lemma inv_distance: "track_inv s \<Longrightarrow> 0 < minDistance opts \<Longrightarrow> track_inv (saveTrackingSession c sid opts s)"
  by (auto simp: track_inv_def distance_serves)

lemma inv_call:
  assumes "track_inv s" "\<forall>f. fix_step f c = f" "case r of None \<Rightarrow> True | Some x \<Rightarrow> resp_ok x"
  shows "track_inv (api_call c r s)"
  using assms by (cases r) (auto simp: track_inv_def served_def fast_ok_def covers_def)

lemma inv_start:
  assumes "track_inv s" "good_opts opts" "minDistance opts = 0" "startTimeBasedTrackingMultiplex c sid opts s = (now, s1)"
  shows "track_inv (saveTrackingSession c sid opts s1)"
proof -
  have s: "served s" using assms(1) by (simp add: track_inv_def)
  note f = start_serves [OF s assms(2-4)]
  show ?thesis by (rule inv_intro [OF assms(1) f(1), of "{Tb_Started c sid}"]) (use f in simp_all)
qed

lemma inv_update:
  assumes "track_inv s" "good_opts opts" "minDistance opts = 0" "updateTrackingMultiplex c sid opts s = Some (now, s1)"
  shows "track_inv (saveTrackingSession c sid opts s1)"
proof -
  have s: "served s" using assms(1) by (simp add: track_inv_def)
  note f = update_serves [OF s assms(2-4)]
  show ?thesis
    by (rule inv_intro [OF assms(1) f(1), of "{Tb_Updated c sid (the (map_of (mTimeBasedTrackingSessions s) (LocationSessionKey c sid)))}"])
      (use f in simp_all)
qed

lemma inv_stop:
  assumes "track_inv s" "map_of (mTimeBasedTrackingSessions s) (LocationSessionKey c sid) \<noteq> None"
    "stopTimeBasedTrackingMultiplex c sid s = (now, s1)"
  shows "track_inv (eraseTrackingSession c sid s1)"
proof -
  have s: "served s" using assms(1) by (simp add: track_inv_def)
  note f = stop_serves [OF s assms(2-3)]
  show ?thesis by (rule inv_intro [OF assms(1) f(1), of "{Tb_Started c sid, Tb_Stopped c sid}"]) (use f in simp_all)
qed

lemma clamp_good [simp]:
  "good_opts (clamp_interval opts) \<longleftrightarrow> lo_size opts \<noteq> 0" "minDistance (clamp_interval opts) = minDistance opts"
  "good_opts (limit_power opts) = good_opts opts" "minDistance (limit_power opts) = minDistance opts"
  "lo_size (limit_power opts) = lo_size opts"
  by (auto simp: good_opts_def clamp_interval_def limit_power_def)

lemma not_distance: "\<not> 0 < minDistance opts \<longleftrightarrow> minDistance opts = 0"
  by (simp add: word_neq_0_conv [symmetric])

lemma inv_proc_start: "track_inv s \<Longrightarrow> track_inv (proc_start c sid opts s)"
proof -
  assume inv: "track_inv s"
  then have sup: "dbt_supported s" by (simp add: track_inv_def served_def)
  let ?o1 = "clamp_interval opts" let ?o2 = "limit_power ?o1"
  obtain now s1 where m: "startTimeBasedTrackingMultiplex c sid ?o2 s = (now, s1)" by fastforce
  have time: "track_inv (saveTrackingSession c sid ?o2 s1)" if "lo_size opts \<noteq> 0" "\<not> 0 < minDistance opts"
    using inv_start [OF inv _ _ m] that by (simp add: not_distance)
  have dist: "track_inv (api_call (StartDistanceBased sid (LocationOptions.truncate ?o1)) (Some (Db_Started c sid)) (saveTrackingSession c sid ?o1 s))"
    if "0 < minDistance opts" using inv_distance [OF inv, of ?o1 c sid] that by (intro inv_call) simp_all
  have "track_inv (s\<lparr>mPendingMsgs := mPendingMsgs s @ [MsgStartTracking c sid opts]\<rparr>)"
    using inv by (simp add: track_inv_def served_def fast_ok_def covers_def fix_request_def)
  then show ?thesis using inv sup time dist m by (simp add: proc_start_def Let_def)
qed

lemma update_some: "(updateTrackingMultiplex c sid opts s = None) = (map_of (mTimeBasedTrackingSessions s) (LocationSessionKey c sid) = None)"
  by (auto simp: updateTrackingMultiplex_def Let_def split: option.split prod.split)

lemma inv_proc_update: "track_inv s \<Longrightarrow> \<exists>s'. proc_update c sid opts s = Some s' \<and> track_inv s'"
proof -
  assume inv: "track_inv s"
  then have sup: "dbt_supported s" by (simp add: track_inv_def served_def)
  let ?o = "clamp_interval (limit_power opts)" let ?k = "LocationSessionKey c sid"
  have pend: "track_inv (s\<lparr>mPendingMsgs := mPendingMsgs s @ [MsgUpdateTracking c sid opts]\<rparr>)"
    using inv by (simp add: track_inv_def served_def fast_ok_def covers_def fix_request_def)
  have to_dist: "track_inv (update_to_distance c sid ?o s)"
    if "map_of (mTimeBasedTrackingSessions s) ?k \<noteq> None" "0 < minDistance opts"
  proof -
    obtain now s1 where m: "stopTimeBasedTrackingMultiplex c sid s = (now, s1)" by fastforce
    have "track_inv (answer_now c sid now (eraseTrackingSession c sid s1))" using inv_stop [OF inv that(1) m] by simp
    from inv_distance [OF this, of ?o c sid] show ?thesis
      unfolding update_to_distance_def m Let_def prod.case by (intro inv_call) (simp_all add: that(2))
  qed
  have to_time: "track_inv (api_call (StopDistanceBased sid) (Some (Db_To_Time c sid ?o)) (eraseTrackingSession c sid s))"
    if "minDistance opts = 0" "lo_size opts \<noteq> 0" using inv_erase [OF inv] that by (intro inv_call) simp_all
  have upd: "\<exists>now s1. updateTrackingMultiplex c sid ?o s = Some (now, s1) \<and> track_inv (answer_now c sid now (saveTrackingSession c sid ?o s1))"
    if "map_of (mTimeBasedTrackingSessions s) ?k \<noteq> None" "\<not> 0 < minDistance opts" "lo_size opts \<noteq> 0"
  proof -
    note k = that(1)
    obtain now s1 where m: "updateTrackingMultiplex c sid ?o s = Some (now, s1)"
      by (cases "updateTrackingMultiplex c sid ?o s") (insert update_some [where opts = ?o and s = s and c = c and sid = sid] k, auto)
    then show ?thesis using inv_update [OF inv _ _ m] that by (simp add: not_distance)
  qed
  have redo: "track_inv (api_call (StopDistanceBased sid) (Some (Db_Restart c sid ?o)) s)" if "minDistance opts \<noteq> 0"
    using inv that by (intro inv_call) (simp_all add: not_distance [symmetric])
  show ?thesis
    using pend to_dist to_time upd redo inv sup
    by (auto simp: proc_update_def Let_def isTimeBasedTrackingSession_def isDistanceBasedTrackingSession_def split: if_splits)
qed

lemma inv_proc_stop: "track_inv s \<Longrightarrow> track_inv (proc_stop c sid s)"
proof -
  assume inv: "track_inv s"
  obtain now s1 where m: "stopTimeBasedTrackingMultiplex c sid s = (now, s1)" by fastforce
  have "track_inv (api_call (StopDistanceBased sid) (Some (Db_Stopped c sid)) s)" using inv by (intro inv_call) simp_all
  then show ?thesis
    using inv inv_stop [OF inv _ m] by (auto simp: proc_stop_def isTimeBasedTrackingSession_def m)
qed

lemma inv_stop_keys:
  "track_inv s \<Longrightarrow> distinct ks \<Longrightarrow> set ks \<subseteq> fst ` set (mTimeBasedTrackingSessions s) \<Longrightarrow> track_inv (stop_keys ks s)"
proof (induction ks s rule: stop_keys.induct)
  case (2 k ks s)
  obtain now s1 where m: "stopTimeBasedTrackingMultiplex (key_client k) (key_id k) s = (now, s1)" by fastforce
  have k: "map_of (mTimeBasedTrackingSessions s) (LocationSessionKey (key_client k) (key_id k)) \<noteq> None"
    using "2.prems"(3) by (simp add: map_of_eq_None_iff)
  have s: "served s" using "2.prems"(1) by (simp add: track_inv_def)
  have "track_inv (eraseTrackingSession (key_client k) (key_id k) s1)" using inv_stop [OF "2.prems"(1) k m] .
  moreover have "set ks \<subseteq> fst ` set (mTimeBasedTrackingSessions (eraseTrackingSession (key_client k) (key_id k) s1))"
    using "2.prems"(2,3) stop_serves(5) [OF s k m] by (force simp: erase_time)
  ultimately show ?case using "2.IH" "2.prems"(2) by (simp add: m)
qed simp

lemma inv_stop_distance: "track_inv s \<Longrightarrow> track_inv (stop_distance c m s)"
  by (induction c m s rule: stop_distance.induct) (auto simp: inv_call)

lemma inv_stop_client: "track_inv s \<Longrightarrow> track_inv (stopClientSessions c s)"
proof -
  assume inv: "track_inv s"
  then have "distinct (map fst (mTimeBasedTrackingSessions s))"
    by (auto simp: track_inv_def served_def map_ok_def strict_sorted_iff)
  then have "track_inv (stop_keys (filter (\<lambda>k. key_client k = c) (map fst (mTimeBasedTrackingSessions s))) s)"
    by (intro inv_stop_keys inv) auto
  then show ?thesis by (simp add: stopClientSessions_def Let_def inv_stop_distance)
qed

lemma inv_response:
  assumes inv: "track_inv s" and r: "resp_ok r"
  shows "track_inv (proc_response r LOCATION_ERROR_SUCCESS s)"
proof (cases r)
  case (Db_To_Time c sid opts)
  obtain now s1 where m: "startTimeBasedTrackingMultiplex c sid opts s = (now, s1)" by fastforce
  with Db_To_Time inv_start [OF inv _ _ m] r show ?thesis by simp
next
  case (Db_Restart c sid opts)
  then show ?thesis using inv r by (auto intro: inv_call)
next
  case (Db_Restarted c sid opts)
  then show ?thesis using inv_distance [OF inv] r by simp
qed (use inv in \<open>simp_all add: inv_erase\<close>)

lemma restart_fields [simp]:
  "mTimeBasedTrackingSessions (suspendSessions s) = mTimeBasedTrackingSessions s" "dbt_supported (suspendSessions s) = dbt_supported s"
  "gt_waiting (suspendSessions s) = gt_waiting s" "gt_queue (suspendSessions s) = gt_queue s" "mPendingMsgs (suspendSessions s) = mPendingMsgs s"
  by (simp_all add: suspendSessions_def)

lemma inv_restart:
  assumes "track_inv s" "mTimeBasedTrackingSessions s' = mTimeBasedTrackingSessions s" "dbt_supported s'" "gt_waiting s' = gt_waiting s"
    "gt_queue s' = gt_queue s" "mPendingMsgs s' = mPendingMsgs s"
  shows "track_inv (checkAndRestartSPESession s')" "track_inv (restartSessions s')"
    "gt_queue (restartSessions s') = gt_queue s" "mPendingMsgs (restartSessions s') = mPendingMsgs s"
proof -
  have T: "map_ok (mTimeBasedTrackingSessions s)" "\<forall>(k, opts) \<in> set (mTimeBasedTrackingSessions s). good_opts opts"
    using assms(1) by (auto simp: track_inv_def served_def)
  show "track_inv (checkAndRestartSPESession s')"
    using restart_serves [of s'] T assms by (simp add: track_inv_def)
  let ?s = "if mTimeBasedTrackingSessions s' \<noteq> []
     then api_call HubStartFix None (api_call (HubSetFixMode (mLocPositionMode s')) None (s'\<lparr>mSPEAlreadyRunningAtHighestInterval := False\<rparr>))
     else s'\<lparr>mSPEAlreadyRunningAtHighestInterval := False\<rparr>"
  have "restartSessions s' = checkAndRestartSPESession ?s" by (simp add: restartSessions_def)
  then show "track_inv (restartSessions s')" "gt_queue (restartSessions s') = gt_queue s" "mPendingMsgs (restartSessions s') = mPendingMsgs s"
    using restart_serves [of ?s] T assms by (simp_all add: track_inv_def)
qed

lemma inv_proc:
  assumes inv: "track_inv s" and m: "msg_ok m"
  shows "\<exists>s'. proc_gt m s = Some s' \<and> track_inv s'"
proof -
  have sup: "dbt_supported s" using inv by (simp add: track_inv_def served_def)
  have other: "track_inv s'" if "gt_calls s' = gt_calls s" "mTimeBasedTrackingSessions s' = mTimeBasedTrackingSessions s"
    "dbt_supported s' = dbt_supported s" "gt_waiting s' = gt_waiting s" "gt_queue s' = gt_queue s" "mPendingMsgs s' = mPendingMsgs s"
    "mSPEAlreadyRunningAtHighestInterval s' = mSPEAlreadyRunningAtHighestInterval s" "mNHzNeeded s' = mNHzNeeded s" for s'
    using inv that by (simp add: track_inv_def served_def fast_ok_def covers_def fix_request_def)
  show ?thesis
  proof (cases m)
    case (MsgStartTracking c sid opts) then show ?thesis using inv_proc_start [OF inv] by simp
  next
    case (MsgUpdateTracking c sid opts) then show ?thesis using inv_proc_update [OF inv] by simp
  next
    case (MsgStopTracking c sid) then show ?thesis using inv_proc_stop [OF inv] by simp
  next
    case (MsgAddClient c cb) then show ?thesis by (simp add: other)
  next
    case (MsgRemoveClient c)
    have "track_inv (t\<lparr>mClientData := x\<rparr>) = track_inv t" for t x
      by (simp add: track_inv_def served_def fast_ok_def covers_def fix_request_def)
    then show ?thesis using MsgRemoveClient inv_stop_client [OF inv] by (simp add: Let_def)
  next
    case MsgHandleEngineUpEvent
    let ?s = "restartSessions (s\<lparr>mIsEngineCapabilitiesKnown := True\<rparr>)"
    have "track_inv ?s" "gt_queue ?s = gt_queue s" "mPendingMsgs ?s = mPendingMsgs s"
      by (rule inv_restart(2-4) [OF inv]; simp add: sup)+
    then have "track_inv (?s\<lparr>gt_queue := gt_queue ?s @ mPendingMsgs ?s, mPendingMsgs := []\<rparr>)"
      by (simp add: track_inv_def served_def fast_ok_def covers_def fix_request_def)
    then show ?thesis using MsgHandleEngineUpEvent by (simp add: proc_engine_up_def Let_def)
  next
    case (MsgResponse r err) then show ?thesis using inv_response [OF inv] m by simp
  next
    case (MsgUpdateNHz b)
    have "track_inv (checkAndRestartSPESession (s\<lparr>mNHzNeeded := b\<rparr>))" by (rule inv_restart(1) [OF inv]) (simp_all add: sup)
    then show ?thesis using MsgUpdateNHz inv by simp
  next
    case MsgReconfigure
    have "track_inv (restartSessions (suspendSessions s))" by (rule inv_restart(2) [OF inv]) (simp_all add: sup)
    then show ?thesis using MsgReconfigure by (simp add: reconfigure_def)
  next
    case MsgPowerCallback then show ?thesis by (simp add: other)
  next
    case (MsgEnableNtrip p) then show ?thesis by (simp add: other)
  next
    case MsgDisableNtrip then show ?thesis by (simp add: other)
  qed
qed

text \<open>A run in which the modem refuses nothing.\<close>

fun accepts :: "track_event \<Rightarrow> bool" where
  "accepts (Answered i err) \<longleftrightarrow> err = LOCATION_ERROR_SUCCESS"
| "accepts _ \<longleftrightarrow> True"

lemma inv_queue:
  assumes "track_inv s" "msg_ok m" "set w \<subseteq> set (gt_waiting s)"
  shows "track_inv (s\<lparr>gt_waiting := w, gt_queue := gt_queue s @ [m]\<rparr>)"
  using assms by (auto simp: track_inv_def served_def fast_ok_def covers_def fix_request_def)

lemma inv_step:
  assumes inv: "track_inv s" and e: "accepts e"
  shows "\<exists>s'. track_step e s = Some s' \<and> track_inv s'"
proof -
  have send: "track_inv (sendMsg_gt m s)" if "msg_ok m" for m
    using inv_queue [OF inv that, of "gt_waiting s"] by (simp add: sendMsg_gt_def)
  show ?thesis
  proof (cases e)
    case (Start c opts)
    have "track_inv (s\<lparr>mSessionIdCounter := n\<rparr>)" for n
      using inv by (simp add: track_inv_def served_def fast_ok_def covers_def fix_request_def)
    then show ?thesis
      using Start inv_queue [of "s\<lparr>mSessionIdCounter := n\<rparr>" for n, of _ _ "gt_waiting s"]
      by (simp add: startTrackingCommand_def generateSessionId_def sendMsg_gt_def Let_def)
  next
    case (Answered i err)
    show ?thesis
    proof (cases "i < length (gt_waiting s)")
      case True
      let ?w = "take i (gt_waiting s) @ drop (Suc i) (gt_waiting s)"
      have "resp_ok (gt_waiting s ! i)" using inv True by (auto simp: track_inv_def)
      moreover have "set ?w \<subseteq> set (gt_waiting s)" using set_take_subset set_drop_subset by fastforce
      ultimately have "track_inv (s\<lparr>gt_waiting := ?w, gt_queue := gt_queue s @ [MsgResponse (gt_waiting s ! i) err]\<rparr>)"
        using e Answered by (intro inv_queue inv) auto
      then show ?thesis using True Answered by (simp add: sendMsg_gt_def)
    qed (use inv Answered in simp)
  next
    case Proc_Head
    show ?thesis
    proof (cases "gt_queue s")
      case (Cons m ms)
      then have "track_inv (s\<lparr>gt_queue := ms\<rparr>)" "msg_ok m"
        using inv by (simp_all add: track_inv_def served_def fast_ok_def covers_def fix_request_def)
      then show ?thesis using inv_proc Cons Proc_Head by simp
    qed (use inv Proc_Head in simp)
  qed (simp_all add: send)
qed

lemma inv_run: "track_inv s \<Longrightarrow> \<forall>e \<in> set es. accepts e \<Longrightarrow> \<exists>s'. track_run es s = Some s' \<and> track_inv s'"
proof (induction es arbitrary: s)
  case (Cons e es)
  then obtain s1 where "track_step e s = Some s1" "track_inv s1" using inv_step by force
  with Cons show ?case by simp
qed simp

lemma track_new_inv: "track_inv (new_gnss_tracking True)"
  by (simp add: track_inv_def served_def fast_ok_def new_gnss_tracking_def)

text \<open>
  C15: with a modem that supports distance based tracking (the argument \<open>True\<close> of the start) and as
  long as it accepts what it is asked, after any commands, answers, restarts and
  removals of clients, whatever their order, the modem runs at an interval no longer than the one
  any time based session asks for, and no session asks for less than the minimum the adapter allows.
\<close>

theorem tracking_served:
  assumes "\<forall>e \<in> set es. accepts e"
  shows "\<exists>s. track_run es (new_gnss_tracking True) = Some s
    \<and> (\<forall>(key, opts) \<in> set (mTimeBasedTrackingSessions s). MIN_TRACKING_INTERVAL \<le> minInterval opts
         \<and> (\<exists>f. fix_request s = Some f \<and> minInterval f \<le> minInterval opts))"
proof -
  obtain s where s: "track_run es (new_gnss_tracking True) = Some s" "track_inv s" using inv_run [OF track_new_inv assms] by blast
  have "MIN_TRACKING_INTERVAL \<le> minInterval opts \<and> (\<exists>f. fix_request s = Some f \<and> minInterval f \<le> minInterval opts)"
    if "(key, opts) \<in> set (mTimeBasedTrackingSessions s)" for key opts
    using s(2) that by (fastforce simp: track_inv_def served_def covers_def good_opts_def)
  with s(1) show ?thesis by auto
qed

end
