(* ===== verification/Gnss_Track_Answers.thy ===== *)
theory Gnss_Track_Answers
  imports Gnss_Track_Props
begin

text \<open>
  Who hears of a command, and what goes wrong. Every command of a client is, at any time, either
  answered, or under way (a message of the queue, a postponed message, or a request the modem has
  not answered), or it was dropped in one of the two places where the code forgets it.
\<close>

section \<open>Commands and answers\<close>

type_synonym command = "nat \<times> u32"

fun owes :: "loc_response \<Rightarrow> command multiset" where
  "owes (Tb_Started c sid) = {#(c, sid)#}"
| "owes (Tb_Updated c sid old) = {#(c, sid)#}"
| "owes (Tb_Stopped c sid) = {#(c, sid)#}"
| "owes (Db_Started c sid) = {#(c, sid)#}"
| "owes (Db_Stopped c sid) = {#(c, sid)#}"
| "owes (Db_Removed c sid) = {#}"
| "owes (Db_To_Time c sid opts) = {#(c, sid)#}"
| "owes (Db_Restart c sid opts) = {#(c, sid)#}"
| "owes (Db_Restarted c sid opts) = {#(c, sid)#}"

fun msg_owes :: "track_msg \<Rightarrow> command multiset" where
  "msg_owes (MsgStartTracking c sid opts) = {#(c, sid)#}"
| "msg_owes (MsgUpdateTracking c sid opts) = {#(c, sid)#}"
| "msg_owes (MsgStopTracking c sid) = {#(c, sid)#}"
| "msg_owes (MsgResponse r err) = owes r"
| "msg_owes _ = {#}"

definition owed :: "gnss_tracking \<Rightarrow> command multiset" where
  "owed s = (\<Sum>m \<in># mset (gt_queue s @ mPendingMsgs s). msg_owes m) + (\<Sum>r \<in># mset (gt_waiting s). owes r)"

definition answered :: "gnss_tracking \<Rightarrow> command multiset" where
  "answered s = mset (map (\<lambda>(c, sid, err, heard). (c, sid)) (gt_answers s))"

text \<open>The two places: a start without the callbacks or the options, and a restart that was refused.\<close>

fun drops :: "track_msg \<Rightarrow> gnss_tracking \<Rightarrow> command multiset" where
  "drops (MsgStartTracking c sid opts) s =
     (if \<not> mIsEngineCapabilitiesKnown s \<and> minDistance opts > 0 then {#}
      else if \<not> hasCallbacksToStartTracking c s \<or> lo_size opts = 0 then {#(c, sid)#} else {#})"
| "drops (MsgResponse (Db_Restart c sid opts) err) s = (if err = LOCATION_ERROR_SUCCESS then {#} else {#(c, sid)#})"
| "drops _ s = {#}"

definition books :: "gnss_tracking \<Rightarrow> command multiset" where
  "books s = answered s + owed s"

lemma books_api [simp]:
  "books (api_call c None s) = books s" "books (api_call c (Some r) s) = books s + owes r"
  by (simp_all add: books_def owed_def answered_def)

lemma books_report [simp]: "books (reportResponse c err sid s) = add_mset (c, sid) (books s)"
  by (simp add: books_def owed_def answered_def reportResponse_def)

lemma books_keeps [simp]:
  "books (setLocPositionMode m s) = books s" "books (saveTrackingSession c sid opts s) = books s"
  "books (eraseTrackingSession c sid s) = books s" "books (restart_distance l s) = books s"
  by (simp_all add: books_def owed_def answered_def)

lemma books_cong:
  "gt_queue s' = gt_queue s \<Longrightarrow> mPendingMsgs s' = mPendingMsgs s \<Longrightarrow> gt_waiting s' = gt_waiting s
    \<Longrightarrow> gt_answers s' = gt_answers s \<Longrightarrow> books s' = books s"
  by (simp add: books_def owed_def answered_def)

lemma books_upd [simp]:
  "books (s\<lparr>mSPEAlreadyRunningAtHighestInterval := b\<rparr>) = books s" "books (s\<lparr>mClientData := cd\<rparr>) = books s"
  "books (s\<lparr>mNHzNeeded := b\<rparr>) = books s" "books (s\<lparr>gt_ntrip := n\<rparr>) = books s" "books (s\<lparr>mIsEngineCapabilitiesKnown := b\<rparr>) = books s"
  "books (s\<lparr>mPowerStateCb := b, gt_power := p\<rparr>) = books s" "books (s\<lparr>mSessionIdCounter := i\<rparr>) = books s"
  "books (s\<lparr>mPrevNmeaRptTimeNsec := w\<rparr>) = books s"
  by (simp_all add: books_def owed_def answered_def)

lemma books_run [simp]: "owes r = {#(c, sid)#} \<Longrightarrow> books (run_fix c sid opts r s) = add_mset (c, sid) (books s)"
  by (simp add: run_fix_def checkAndSetSPEToRunforNHz_def Let_def)

lemma books_stop [simp]: "books (stopTracking c sid s) = add_mset (c, sid) (books s)"
  by (simp add: stopTracking_def Let_def)

lemma books_now [simp]: "books (answer_now c sid now s) = (if now then add_mset (c, sid) (books s) else books s)"
  by (simp add: answer_now_def)

lemma books_start_mux: "startTimeBasedTrackingMultiplex c sid opts s = (now, s1)
    \<Longrightarrow> books s1 = (if now then books s else add_mset (c, sid) (books s))"
  by (auto simp: startTimeBasedTrackingMultiplex_def startTimeBasedTracking_def split: if_splits prod.splits)

lemma books_update_mux: "updateTrackingMultiplex c sid opts s = Some (now, s1)
    \<Longrightarrow> books s1 = (if now then books s else add_mset (c, sid) (books s))"
  by (auto simp: updateTrackingMultiplex_def updateTracking_def Let_def split: if_splits prod.splits option.splits)

lemma books_stop_mux: "stopTimeBasedTrackingMultiplex c sid s = (now, s1)
    \<Longrightarrow> books s1 = (if now then books s else add_mset (c, sid) (books s))"
  by (auto simp: stopTimeBasedTrackingMultiplex_def startTimeBasedTracking_def Let_def split: if_splits prod.splits option.splits)

lemma books_restart [simp]: "books (checkAndRestartSPESession s) = books s" "books (restartSessions s) = books s"
  "books (suspendSessions s) = books s"
proof -
  have t: "books (checkAndRestartTimeBasedSession x) = books x" for x
    by (simp add: checkAndRestartTimeBasedSession_def checkAndSetSPEToRunforNHz_def Let_def split: prod.split)
  show c: "books (checkAndRestartSPESession s) = books s" for s by (simp add: checkAndRestartSPESession_def Let_def t)
  show "books (restartSessions s) = books s" by (simp add: restartSessions_def Let_def c)
  show "books (suspendSessions s) = books s" by (simp add: suspendSessions_def)
qed

lemma books_pending: "books (s\<lparr>mPendingMsgs := mPendingMsgs s @ [m]\<rparr>) = books s + msg_owes m"
  by (simp add: books_def owed_def answered_def)

lemma books_proc_start: "books (proc_start c sid opts s) + drops (MsgStartTracking c sid opts) s = add_mset (c, sid) (books s)"
  by (auto simp: proc_start_def Let_def books_pending dest: books_start_mux split: prod.split)

lemma books_to_distance: "books (update_to_distance c sid opts s) = add_mset (c, sid) (books s)"
  by (auto simp: update_to_distance_def Let_def dest: books_stop_mux split: prod.split)

lemma books_proc_update: "\<exists>s'. proc_update c sid opts s = Some s' \<and> books s' = add_mset (c, sid) (books s)"
proof -
  let ?o = "clamp_interval (limit_power opts)"
  have upd: "\<exists>s'. (do { (now, s1) \<leftarrow> updateTrackingMultiplex c sid ?o s; Some (answer_now c sid now (saveTrackingSession c sid ?o s1)) }) = Some s'
      \<and> books s' = add_mset (c, sid) (books s)" if "isTimeBasedTrackingSession c sid s"
  proof -
    note k = that
    obtain now s1 where m: "updateTrackingMultiplex c sid ?o s = Some (now, s1)"
      by (cases "updateTrackingMultiplex c sid ?o s")
        (insert update_some [where opts = ?o and s = s and c = c and sid = sid] k, auto simp: isTimeBasedTrackingSession_def)
    then show ?thesis using books_update_mux [OF m] by simp
  qed
  then show ?thesis
    by (simp add: proc_update_def Let_def books_pending books_to_distance)
qed

lemma books_proc_stop: "books (proc_stop c sid s) = add_mset (c, sid) (books s)"
  by (auto simp: proc_stop_def dest: books_stop_mux split: prod.split)

lemma books_response: "books (proc_response r err s) + drops (MsgResponse r err) s = books s + owes r"
  by (cases r) (auto dest: books_start_mux split: prod.split)

lemma books_proc:
  assumes "\<forall>c. m \<noteq> MsgRemoveClient c"
  shows "\<exists>s'. proc_gt m s = Some s' \<and> books s' + drops m s = books s + msg_owes m"
proof (cases m)
  case (MsgStartTracking c sid opts)
  then show ?thesis using books_proc_start [of c sid opts s] by (simp del: drops.simps)
next
  case (MsgUpdateTracking c sid opts)
  then show ?thesis using books_proc_update [of c sid opts s] by simp
next
  case MsgHandleEngineUpEvent
  have "books (t\<lparr>gt_queue := gt_queue t @ mPendingMsgs t, mPendingMsgs := []\<rparr>) = books t" for t
    by (simp add: books_def owed_def answered_def)
  then show ?thesis using MsgHandleEngineUpEvent by (simp add: proc_engine_up_def Let_def)
next
  case (MsgResponse r err)
  then show ?thesis using books_response [of r err s] by (simp del: drops.simps)
qed (use assms in \<open>simp_all add: books_proc_stop reconfigure_def\<close>)

section \<open>Runs\<close>

fun issued_by :: "track_event \<Rightarrow> gnss_tracking \<Rightarrow> command multiset" where
  "issued_by (Start c opts) s = {#(c, fst (startTrackingCommand c opts s))#}"
| "issued_by (Update c sid opts) s = {#(c, sid)#}"
| "issued_by (Stop c sid) s = {#(c, sid)#}"
| "issued_by _ s = {#}"

fun dropped_by :: "track_event \<Rightarrow> gnss_tracking \<Rightarrow> command multiset" where
  "dropped_by Proc_Head s = (case gt_queue s of [] \<Rightarrow> {#} | m # ms \<Rightarrow> drops m (s\<lparr>gt_queue := ms\<rparr>))"
| "dropped_by _ s = {#}"

text \<open>What is issued, or dropped, in the steps of a run.\<close>

fun along :: "(track_event \<Rightarrow> gnss_tracking \<Rightarrow> command multiset) \<Rightarrow> track_event list \<Rightarrow> gnss_tracking \<Rightarrow> command multiset" where
  "along f [] s = {#}"
| "along f (e # es) s = f e s + (case track_step e s of None \<Rightarrow> {#} | Some s1 \<Rightarrow> along f es s1)"

definition no_removal :: "gnss_tracking \<Rightarrow> bool" where
  "no_removal s \<longleftrightarrow> (\<forall>c. MsgRemoveClient c \<notin> set (gt_queue s @ mPendingMsgs s))"

definition same_msgs :: "gnss_tracking \<Rightarrow> gnss_tracking \<Rightarrow> bool" where
  "same_msgs s' s \<longleftrightarrow> gt_queue s' = gt_queue s \<and> mPendingMsgs s' = mPendingMsgs s"

lemma msgs_mux:
  "startTimeBasedTrackingMultiplex c sid opts s = (now, s1) \<Longrightarrow> same_msgs s1 s"
  "updateTrackingMultiplex c sid opts s = Some (now, s1) \<Longrightarrow> same_msgs s1 s"
  "stopTimeBasedTrackingMultiplex c sid s = (now, s1) \<Longrightarrow> same_msgs s1 s"
  by (auto simp: startTimeBasedTrackingMultiplex_def updateTrackingMultiplex_def stopTimeBasedTrackingMultiplex_def
      startTimeBasedTracking_def updateTracking_def same_msgs_def Let_def split: if_splits prod.splits option.splits)

lemma msgs_restart [simp]: "same_msgs (checkAndRestartSPESession s) s" "same_msgs (restartSessions s) s" "same_msgs (suspendSessions s) s"
proof -
  have t: "same_msgs (checkAndRestartTimeBasedSession x) x" for x
    by (simp add: checkAndRestartTimeBasedSession_def checkAndSetSPEToRunforNHz_def same_msgs_def Let_def split: prod.split)
  show c: "same_msgs (checkAndRestartSPESession s) s" for s using t by (simp add: checkAndRestartSPESession_def Let_def same_msgs_def)
  show "same_msgs (restartSessions s) s" using c by (simp add: restartSessions_def Let_def same_msgs_def)
  show "same_msgs (suspendSessions s) s" by (simp add: same_msgs_def)
qed

lemma msgs_response: "same_msgs (proc_response r err s) s"
  by (cases r) (auto simp: same_msgs_def dest: msgs_mux [unfolded same_msgs_def] split: prod.split)

lemma removal_proc:
  assumes n: "no_removal s" "\<forall>c. m \<noteq> MsgRemoveClient c" and p: "proc_gt m s = Some s'"
  shows "no_removal s'"
proof -
  have same: "no_removal s'" if "same_msgs s' s" using n that by (simp add: no_removal_def same_msgs_def)
  show ?thesis
  proof (cases m)
    case (MsgStartTracking c sid opts)
    have "same_msgs s' s \<or> s' = s\<lparr>mPendingMsgs := mPendingMsgs s @ [m]\<rparr>"
      using p MsgStartTracking
      by (auto simp: proc_start_def same_msgs_def Let_def dest: msgs_mux [unfolded same_msgs_def] split: if_splits prod.splits)
    then show ?thesis using same n by (auto simp: no_removal_def)
  next
    case (MsgUpdateTracking c sid opts)
    have "same_msgs s' s \<or> s' = s\<lparr>mPendingMsgs := mPendingMsgs s @ [m]\<rparr>"
      using p MsgUpdateTracking
      by (auto simp: proc_update_def update_to_distance_def same_msgs_def Let_def bind_eq_Some_conv
          dest: msgs_mux [unfolded same_msgs_def] split: if_splits prod.splits)
    then show ?thesis using same n by (auto simp: no_removal_def)
  next
    case (MsgStopTracking c sid)
    then show ?thesis using p
      by (intro same) (auto simp: proc_stop_def same_msgs_def dest: msgs_mux [unfolded same_msgs_def] split: if_splits prod.splits)
  next
    case MsgHandleEngineUpEvent
    then show ?thesis using p n msgs_restart(2) [of "s\<lparr>mIsEngineCapabilitiesKnown := True\<rparr>"]
      by (auto simp: proc_engine_up_def Let_def no_removal_def same_msgs_def)
  next
    case (MsgResponse r err)
    then show ?thesis using p msgs_response by (intro same) auto
  next
    case (MsgUpdateNHz b)
    have "same_msgs (checkAndRestartSPESession (s\<lparr>mNHzNeeded := b\<rparr>)) s"
      using msgs_restart(1) [of "s\<lparr>mNHzNeeded := b\<rparr>"] by (simp add: same_msgs_def)
    then show ?thesis using p MsgUpdateNHz by (intro same) (auto simp: same_msgs_def split: if_splits)
  next
    case MsgReconfigure
    have "same_msgs (restartSessions (suspendSessions s)) s"
      using msgs_restart(2) [of "suspendSessions s"] msgs_restart(3) [of s] by (simp add: same_msgs_def)
    then show ?thesis using p MsgReconfigure by (intro same) (auto simp: reconfigure_def)
  qed (use p n in \<open>auto simp: no_removal_def\<close>)
qed

lemma books_step:
  assumes n: "no_removal s" "\<forall>c. e \<noteq> RemoveClient c"
  shows "\<exists>s'. track_step e s = Some s' \<and> no_removal s' \<and> books s' + dropped_by e s = books s + issued_by e s"
proof -
  have send: "no_removal (sendMsg_gt m t) \<and> books (sendMsg_gt m t) = books t + msg_owes m"
    if "no_removal t" "\<forall>c. m \<noteq> MsgRemoveClient c" for m t
    using that by (auto simp: sendMsg_gt_def no_removal_def books_def owed_def answered_def)
  show ?thesis
  proof (cases e)
    case (Start c opts)
    obtain sid s1 where g: "generateSessionId s = (sid, s1)" by fastforce
    then have "no_removal s1" "books s1 = books s" using n by (auto simp: generateSessionId_def Let_def no_removal_def)
    then show ?thesis using Start g send [of s1 "MsgStartTracking c sid opts"] by (simp add: startTrackingCommand_def)
  next
    case (Answered i err)
    show ?thesis
    proof (cases "i < length (gt_waiting s)")
      case True
      let ?s = "s\<lparr>gt_waiting := take i (gt_waiting s) @ drop (Suc i) (gt_waiting s)\<rparr>"
      have "mset (gt_waiting s) = mset (take i (gt_waiting s) @ drop (Suc i) (gt_waiting s)) + {#gt_waiting s ! i#}"
        using id_take_nth_drop [OF True] by (metis mset_append mset.simps(2) add_mset_add_single union_mset_add_mset_right append_Cons append_Nil)
      then have "books ?s + owes (gt_waiting s ! i) = books s" by (simp add: books_def owed_def answered_def)
      moreover have "no_removal ?s" using n by (simp add: no_removal_def)
      ultimately show ?thesis using True Answered send [of ?s "MsgResponse (gt_waiting s ! i) err"] by simp
    qed (use n Answered in simp)
  next
    case Proc_Head
    show ?thesis
    proof (cases "gt_queue s")
      case (Cons m ms)
      let ?s = "s\<lparr>gt_queue := ms\<rparr>"
      have m: "no_removal ?s" "\<forall>c. m \<noteq> MsgRemoveClient c" using n(1) Cons by (auto simp: no_removal_def)
      have "books ?s + msg_owes m = books s" using Cons by (simp add: books_def owed_def answered_def)
      moreover obtain s' where s': "proc_gt m ?s = Some s'" "books s' + drops m ?s = books ?s + msg_owes m" using books_proc [OF m(2)] by blast
      ultimately show ?thesis using Cons Proc_Head removal_proc [OF m s'(1)] by (simp del: drops.simps)
    qed (use n Proc_Head in simp)
  qed (use n send in \<open>simp_all\<close>)
qed

lemma books_along:
  "no_removal s \<Longrightarrow> \<forall>c. RemoveClient c \<notin> set es \<Longrightarrow> \<exists>s'. track_run es s = Some s'
    \<and> books s' + along dropped_by es s = books s + along issued_by es s"
proof (induction es arbitrary: s)
  case (Cons e es)
  obtain s1 where s1: "track_step e s = Some s1" "no_removal s1" "books s1 + dropped_by e s = books s + issued_by e s"
    using books_step [of s e] Cons.prems by auto
  obtain s' where s': "track_run es s1 = Some s'" "books s' + along dropped_by es s1 = books s1 + along issued_by es s1"
    using Cons.IH [OF s1(2)] Cons.prems by auto
  have "books s' + (dropped_by e s + along dropped_by es s1) = books s + (issued_by e s + along issued_by es s1)"
  proof -
    have "books s' + (dropped_by e s + along dropped_by es s1) = (books s' + along dropped_by es s1) + dropped_by e s"
      by (simp only: ac_simps)
    also have "\<dots> = (books s1 + dropped_by e s) + along issued_by es s1" by (simp only: s'(2) ac_simps)
    also have "\<dots> = books s + (issued_by e s + along issued_by es s1)" by (simp only: s1(3) ac_simps)
    finally show ?thesis .
  qed
  then show ?case using s1(1) s'(1) by simp
qed simp

text \<open>
  C18: as long as no client is removed, every command is accounted for: the answers given, the
  commands under way and the dropped ones are together exactly the commands issued. So once the
  queue is empty, nothing is postponed and the modem has answered, every command that was not
  dropped has been answered exactly once.
\<close>

theorem commands_answered:
  assumes "\<forall>c. RemoveClient c \<notin> set es"
  shows "\<exists>s. track_run es (new_gnss_tracking supported) = Some s
    \<and> answered s + owed s + along dropped_by es (new_gnss_tracking supported) = along issued_by es (new_gnss_tracking supported)
    \<and> (gt_queue s = [] \<and> mPendingMsgs s = [] \<and> gt_waiting s = [] \<longrightarrow> owed s = {#})"
proof -
  let ?s = "new_gnss_tracking supported"
  have n: "no_removal ?s" "books ?s = {#}"
    by (simp_all add: no_removal_def new_gnss_tracking_def books_def owed_def answered_def)
  obtain s where s: "track_run es ?s = Some s" "books s + along dropped_by es ?s = along issued_by es ?s"
    using books_along [OF n(1) assms] n(2) by auto
  have "gt_queue s = [] \<and> mPendingMsgs s = [] \<and> gt_waiting s = [] \<longrightarrow> owed s = {#}" by (simp add: owed_def)
  with s show ?thesis by (simp add: books_def)
qed

end
