(* ===== verification/Gnss_Track_Faults.thy ===== *)
theory Gnss_Track_Faults
  imports Gnss_Track_Answers
begin

text \<open>
  Where sessions get less than they ask for, and concrete runs that show the properties at work.
\<close>

definition fix_every :: "u32 \<Rightarrow> GnssPowerMode \<Rightarrow> TrackingOptions" where
  "fix_every i p = \<lparr>lo_size = 28, minInterval = i, minDistance = 0, lo_mode = GNSS_SUPL_MODE_STANDALONE,
     locReqEngTypeMask = 0, powerMode = p, tbm = 0\<rparr>"

definition tracker :: LocationCallbacks where
  "tracker = \<lparr>responseCb = True, trackingCb = True, gnssLocationInfoCb = False, engineLocationsInfoCb = False,
     gnssMeasurementsCb = False, gnssDataCb = False, gnssSvCb = False, gnssNmeaCb = False\<rparr>"

lemma tracking_served_witness:
  "\<exists>s. track_run [AddClient 7 tracker, Proc_Head, Start 7 (fix_every 1000 GNSS_POWER_MODE_M2), Proc_Head,
        Start 7 (fix_every 50 GNSS_POWER_MODE_M2), Proc_Head, Answered 0 LOCATION_ERROR_SUCCESS, Proc_Head] (new_gnss_tracking True) = Some s
    \<and> length (mTimeBasedTrackingSessions s) = 2
    \<and> (\<forall>(key, opts) \<in> set (mTimeBasedTrackingSessions s). \<exists>f. fix_request s = Some f \<and> minInterval f \<le> minInterval opts)"
proof -
  let ?es = "[AddClient 7 tracker, Proc_Head, Start 7 (fix_every 1000 GNSS_POWER_MODE_M2), Proc_Head,
        Start 7 (fix_every 50 GNSS_POWER_MODE_M2), Proc_Head, Answered 0 LOCATION_ERROR_SUCCESS, Proc_Head]"
  have "map_option (\<lambda>s. length (mTimeBasedTrackingSessions s)) (track_run ?es (new_gnss_tracking True)) = Some 2"
    by code_simp
  moreover have "\<forall>e \<in> set ?es. accepts e" by simp
  from tracking_served [OF this] have "\<exists>s. track_run ?es (new_gnss_tracking True) = Some s
    \<and> (\<forall>(key, opts) \<in> set (mTimeBasedTrackingSessions s). \<exists>f. fix_request s = Some f \<and> minInterval f \<le> minInterval opts)" by fast
  ultimately show ?thesis by fastforce
qed

lemma commands_answered_witness:
  "\<exists>s. track_run [AddClient 7 tracker, Proc_Head, Start 7 (fix_every 1000 GNSS_POWER_MODE_M2), Stop 7 5, Proc_Head, Proc_Head,
        Answered 0 LOCATION_ERROR_SUCCESS, Proc_Head] (new_gnss_tracking True) = Some s
    \<and> answered s = {#(7, 2), (7, 5)#} \<and> owed s = {#}"
proof -
  let ?es = "[AddClient 7 tracker, Proc_Head, Start 7 (fix_every 1000 GNSS_POWER_MODE_M2), Stop 7 5, Proc_Head, Proc_Head,
        Answered 0 LOCATION_ERROR_SUCCESS, Proc_Head]"
  let ?n = "new_gnss_tracking True"
  have "map_option (\<lambda>s. (gt_queue s, mPendingMsgs s, gt_waiting s)) (track_run ?es ?n) = Some ([], [], [])" by code_simp
  moreover have "along dropped_by ?es ?n = {#}" "along issued_by ?es ?n = {#(7, 2), (7, 5)#}" by code_simp+
  moreover obtain s where s: "track_run ?es ?n = Some s"
    "answered s + owed s + along dropped_by ?es ?n = along issued_by ?es ?n"
    "gt_queue s = [] \<and> mPendingMsgs s = [] \<and> gt_waiting s = [] \<longrightarrow> owed s = {#}"
    using commands_answered [of ?es True] by auto
  ultimately show ?thesis by (intro exI [of _ s]) auto
qed

text \<open>
  C38: with two sessions of which the slower one asks for the better power mode, a third session
  with the smallest interval, and no better power mode than the second, makes the adapter ask the
  modem for the power mode of the first: the second session loses the power mode it was granted.
\<close>

theorem start_weakens_power:
  assumes "mTimeBasedTrackingSessions s = [(k1, o1), (k2, o2)]" "lo_size o1 \<noteq> 0" "minInterval o1 \<le> minInterval o2"
    "powerMode o2 < powerMode o1" "powerMode o2 \<noteq> GNSS_POWER_MODE_INVALID"
    "minInterval opts < minInterval o1" "powerMode o2 \<le> powerMode opts" "\<not> mNHzNeeded s"
  shows "\<exists>f. fix_request (snd (startTimeBasedTrackingMultiplex c sid opts s)) = Some f
    \<and> minInterval f = minInterval opts \<and> powerMode f = powerMode o1 \<and> powerMode o2 < powerMode f"
proof -
  have "powerMode o1 \<noteq> GNSS_POWER_MODE_INVALID" using assms(4) by auto
  then have "multiplexed None s = (o1, powerMode o2)"
    using assms by (simp add: multiplexed_def cleared_options_def)
  moreover have "\<not> powerMode opts < powerMode o2" using assms(7) by (simp add: not_less)
  ultimately show ?thesis
    using assms by (simp add: startTimeBasedTrackingMultiplex_def mux_update_def startTimeBasedTracking_def run_fix_def
        checkAndSetSPEToRunforNHz_def Let_def)
qed

lemma start_weakens_power_witness:
  "\<exists>f. fix_request (snd (startTimeBasedTrackingMultiplex 7 3 (fix_every 500 GNSS_POWER_MODE_M3)
      ((new_gnss_tracking True)\<lparr>mTimeBasedTrackingSessions := [(LocationSessionKey 7 1, fix_every 1000 GNSS_POWER_MODE_M2),
         (LocationSessionKey 7 2, fix_every 2000 GNSS_POWER_MODE_M1)]\<rparr>))) = Some f \<and> powerMode f = GNSS_POWER_MODE_M2"
proof -
  let ?s = "(new_gnss_tracking True)\<lparr>mTimeBasedTrackingSessions := [(LocationSessionKey 7 1, fix_every 1000 GNSS_POWER_MODE_M2),
         (LocationSessionKey 7 2, fix_every 2000 GNSS_POWER_MODE_M1)]\<rparr>"
  have "mTimeBasedTrackingSessions ?s = [(LocationSessionKey 7 1, fix_every 1000 GNSS_POWER_MODE_M2),
         (LocationSessionKey 7 2, fix_every 2000 GNSS_POWER_MODE_M1)]" by simp
  from start_weakens_power [OF this, where opts = "fix_every 500 GNSS_POWER_MODE_M3" and c = 7 and sid = 3]
  show ?thesis by (auto simp: fix_every_def less_GnssPowerMode_def less_eq_GnssPowerMode_def new_gnss_tracking_def)
qed

text \<open>
  An update that makes the fastest of two sessions the slower one is not passed on: the modem
  stays at the old interval, which nobody asks for any more.
\<close>

lemma slower_update_ignored:
  assumes "mTimeBasedTrackingSessions s = [(LocationSessionKey c sid, o1), (k2, o2)]" "k2 \<noteq> LocationSessionKey c sid"
    "lo_size o2 \<noteq> 0" "minInterval o2 \<le> minInterval opts" "powerMode o2 \<le> powerMode opts"
  shows "updateTrackingMultiplex c sid opts s = Some (True, s)"
proof -
  have "multiplexed (Some (LocationSessionKey c sid)) s = (o2, powerMode o2)"
    using assms by (simp add: multiplexed_def cleared_options_def)
  moreover have "\<not> powerMode opts < powerMode o2" "\<not> minInterval opts < minInterval o2" using assms(4,5) by (simp_all add: not_less)
  ultimately show ?thesis using assms by (simp add: updateTrackingMultiplex_def mux_update_def Let_def)
qed

text \<open>
  Without support for distance based tracking an update to it stops the modem and keeps the
  session as a time based one: a session that gets no positions.
\<close>

lemma unsupported_update_stops:
  assumes "mTimeBasedTrackingSessions s = [(LocationSessionKey c sid, o1)]" "\<not> dbt_supported s" "mIsEngineCapabilitiesKnown s"
    "lo_size opts \<noteq> 0" "0 < minDistance opts"
  shows "\<exists>s'. proc_update c sid opts s = Some s' \<and> mTimeBasedTrackingSessions s' = [(LocationSessionKey c sid, clamp_interval (limit_power opts))]
    \<and> fix_request s' = None"
proof -
  let ?o = "clamp_interval (limit_power opts)"
  have "stopTimeBasedTrackingMultiplex c sid s = (False, stopTracking c sid s)" using assms(1) by (simp add: stopTimeBasedTrackingMultiplex_def)
  moreover have "proc_update c sid opts s = Some (update_to_distance c sid ?o s)"
    using assms by (simp add: proc_update_def isTimeBasedTrackingSession_def Let_def)
  ultimately show ?thesis
    using assms stop_fix_serves(3) [of c sid s]
    by (simp add: update_to_distance_def answer_now_def saveTrackingSession_def erase_time map_erase_def Let_def
        fix_request_def api_call_def reportPowerStateIfChanged_def)
qed

text \<open>
  C39: a session is updated and then stopped before the modem has answered the update. When the
  modem refuses the update, the answer puts the old session back: the adapter keeps a session,
  and reports the power state of one, that its client has stopped and the modem does not run.
\<close>

theorem failed_update_revives:
  assumes "mTimeBasedTrackingSessions s = [(LocationSessionKey c sid, old)]" "\<not> isDistanceBasedTrackingSession c sid s" "\<not> mNHzNeeded s"
    "gt_queue s = []" "gt_waiting s = []" "lo_size opts \<noteq> 0" "minDistance opts = 0" "minDistance old = 0"
    "minInterval opts \<ge> MIN_TRACKING_INTERVAL" "minInterval old \<noteq> minInterval opts" "err \<noteq> LOCATION_ERROR_SUCCESS"
  shows "\<exists>s'. track_run [Update c sid opts, Proc_Head, Stop c sid, Proc_Head, Answered 0 err, Proc_Head] s = Some s'
    \<and> mTimeBasedTrackingSessions s' = [(LocationSessionKey c sid, old)] \<and> fix_request s' = None \<and> mPowerOn s'"
proof -
  let ?k = "LocationSessionKey c sid" let ?o = "clamp_interval (limit_power opts)"
  have o: "minInterval ?o = minInterval opts" using assms(9) by (auto simp: clamp_interval_def limit_power_def)
  let ?s1 = "saveTrackingSession c sid ?o (updateTracking c sid ?o old s)"
  have "track_run [Update c sid opts, Proc_Head] s = Some ?s1"
  proof -
    have "updateTrackingMultiplex c sid ?o s = Some (False, updateTracking c sid ?o old s)"
      using assms(1,10) o by (simp add: updateTrackingMultiplex_def Let_def split: prod.split)
    moreover have eq: "s\<lparr>gt_queue := []\<rparr> = s" using assms(4) by (cases s) simp
    ultimately show ?thesis
      using assms by (simp add: eq sendMsg_gt_def proc_update_def isTimeBasedTrackingSession_def Let_def answer_now_def)
  qed
  moreover have T1: "mTimeBasedTrackingSessions ?s1 = [(?k, ?o)]" "gt_queue ?s1 = []" "gt_waiting ?s1 = [Tb_Updated c sid old]"
    using assms by (simp_all add: updateTracking_def run_fix_def checkAndSetSPEToRunforNHz_def Let_def)
  let ?s2 = "eraseTrackingSession c sid (stopTracking c sid ?s1)"
  have "track_run [Stop c sid, Proc_Head] ?s1 = Some ?s2"
  proof -
    have eq: "?s1\<lparr>gt_queue := []\<rparr> = ?s1" using T1(2) by (cases ?s1) simp
    show ?thesis
      using T1 by (simp add: eq sendMsg_gt_def proc_stop_def isTimeBasedTrackingSession_def stopTimeBasedTrackingMultiplex_def answer_now_def)
  qed
  moreover have T2: "mTimeBasedTrackingSessions ?s2 = []" "gt_queue ?s2 = []" "gt_waiting ?s2 = [Tb_Updated c sid old, Tb_Stopped c sid]"
    "fix_request ?s2 = None"
    using T1 stop_fix_serves(3) [of c sid ?s1] by (simp_all add: erase_time map_erase_def stopTracking_def Let_def)
  let ?s3 = "saveTrackingSession c sid old (?s2\<lparr>gt_waiting := [Tb_Stopped c sid]\<rparr>)"
  have "track_run [Answered 0 err, Proc_Head] ?s2 = Some (reportResponse c err sid ?s3)"
  proof -
    have eq: "?s2\<lparr>gt_waiting := [Tb_Stopped c sid], gt_queue := []\<rparr> = ?s2\<lparr>gt_waiting := [Tb_Stopped c sid]\<rparr>" using T2(2) by (cases ?s2) simp
    show ?thesis using T2 assms(11) by (simp add: eq sendMsg_gt_def)
  qed
  ultimately have "track_run [Update c sid opts, Proc_Head, Stop c sid, Proc_Head, Answered 0 err, Proc_Head] s
      = Some (reportResponse c err sid ?s3)"
    by (auto simp del: track_step.simps split: bind_splits)
  moreover have "mTimeBasedTrackingSessions ?s3 = [(?k, old)]" "fix_request ?s3 = None" using T2 assms(8) by (simp_all add: fix_request_def)
  moreover have "mPowerOn (reportResponse c err sid ?s3)"
    using assms(8) by (simp add: saveTrackingSession_def reportPowerStateIfChanged_def reportResponse_def Let_def)
  ultimately show ?thesis by simp
qed

lemma failed_update_revives_witness:
  "\<exists>s'. track_run [Update 7 1 (fix_every 500 GNSS_POWER_MODE_M2), Proc_Head, Stop 7 1, Proc_Head,
        Answered 0 LOCATION_ERROR_GENERAL_FAILURE, Proc_Head]
      ((new_gnss_tracking True)\<lparr>mTimeBasedTrackingSessions := [(LocationSessionKey 7 1, fix_every 1000 GNSS_POWER_MODE_M2)]\<rparr>) = Some s'
    \<and> mTimeBasedTrackingSessions s' = [(LocationSessionKey 7 1, fix_every 1000 GNSS_POWER_MODE_M2)] \<and> fix_request s' = None"
proof -
  let ?s = "(new_gnss_tracking True)\<lparr>mTimeBasedTrackingSessions := [(LocationSessionKey 7 1, fix_every 1000 GNSS_POWER_MODE_M2)]\<rparr>"
  have "mTimeBasedTrackingSessions ?s = [(LocationSessionKey 7 1, fix_every 1000 GNSS_POWER_MODE_M2)]" by simp
  from failed_update_revives [OF this, where opts = "fix_every 500 GNSS_POWER_MODE_M2" and err = LOCATION_ERROR_GENERAL_FAILURE]
  show ?thesis by (auto simp: fix_every_def new_gnss_tracking_def MIN_TRACKING_INTERVAL_def isDistanceBasedTrackingSession_def)
qed

section \<open>The correction source\<close>

text \<open>
  The end of any session, not of the last one, stops the stream of corrections; the parameters
  that differ only in whether the server wants the position are taken for the same; a GGA
  sentence that ends behind its sixth comma throws an exception.
\<close>

lemma erase_ends_corrections:
  assumes "mDgnssState (gt_ntrip s) AND DGNSS_STATE_NTRIP_SESSION_STARTED \<noteq> 0"
  shows "xtra_log (gt_ntrip (eraseTrackingSession c sid s)) = xtra_log (gt_ntrip s) @ [StopDgnssSource]"
proof -
  have "(x AND NOT DGNSS_STATE_NO_NMEA_PENDING) AND DGNSS_STATE_NTRIP_SESSION_STARTED = x AND DGNSS_STATE_NTRIP_SESSION_STARTED" for x
    by (simp add: dgnss_bits and.assoc)
  then show ?thesis
    using assms by (simp add: eraseTrackingSession_def reportPowerStateIfChanged_def ntrip_erased_def stopDgnssNtrip_def xtra_def Let_def)
qed

lemma consent_change_ignored:
  "handleEnablePPENtrip b ((ntripParams d)\<lparr>requiresNmeaLocation := v\<rparr>) d = d"
  by (simp add: handleEnablePPENtrip_def same_params_def)

lemma short_gga_faults:
  "isDgnssNmeaRequired d \<Longrightarrow> reportGGAToNtrip b ''$GPGGA,1,2,N,4,E,1'' d = None"
  by (simp add: reportGGAToNtrip_def str_find_def gga_string_def COMMAS_BEFORE_VALID_def upt_rec numeral_eq_Suc)

end
