(* ===== verification/Geofence.thy ===== *)
theory Geofence
  imports Loc_Common "HOL-Library.Monad_Syntax"
begin

text \<open>
  The geofences of the location stack (\<open>gps/geofence/GeofenceAdapter.cpp\<close>). Clients add, remove,
  pause, resume and modify fences in batches, under ids of their own; the modem knows a fence by
  its hardware id. The adapter keeps a map in either direction and answers a batch as a whole.

  A batch owns arrays (ids, options, results) that live from the command until its last item is
  answered; \<open>gf_batches\<close> maps the allocated ones, and access to a freed one is the result \<open>None\<close>.
  An item first waits in the call queue of the modem library (\<open>addToCallQueue\<close>), which is not in
  the repository; when its turn comes the request is made, and the answer to the request finishes
  the item. \<open>GfCall\<close> is the turn of the first item of the call queue and \<open>GfAnswer\<close> the answer to
  one of the requests; every event is the moment the adapter's thread processes it. Coordinates
  are bit patterns of \<open>double\<close>, which are only copied.
\<close>

section \<open>Data\<close>

type_synonym coordinate = "64 word"

record GeofenceOption =
  breachTypeMask :: "16 word"
  fo_responsiveness :: u32
  fo_dwellTime :: u32

record GeofenceInfo =
  fi_latitude :: coordinate
  fi_longitude :: coordinate
  fi_radius :: coordinate

datatype GeofenceKey = GeofenceKey (gk_client: nat) (gk_id: u32)

definition geofence_key_less :: "GeofenceKey \<Rightarrow> GeofenceKey \<Rightarrow> bool" where
  "geofence_key_less l r \<longleftrightarrow> gk_id l < gk_id r \<or> (gk_id l = gk_id r \<and> gk_client l < gk_client r)"

instantiation GeofenceKey :: linorder
begin
definition less_GeofenceKey :: "GeofenceKey \<Rightarrow> GeofenceKey \<Rightarrow> bool" where
  "less_GeofenceKey = geofence_key_less"
definition less_eq_GeofenceKey :: "GeofenceKey \<Rightarrow> GeofenceKey \<Rightarrow> bool" where
  "less_eq_GeofenceKey l r = (l = r \<or> l < r)"
instance
proof
  fix x y z :: GeofenceKey
  show "(x < y) = (x \<le> y \<and> \<not> y \<le> x)" "x \<le> x"
    by (auto simp: less_eq_GeofenceKey_def less_GeofenceKey_def geofence_key_less_def)
  show "x \<le> y \<Longrightarrow> y \<le> z \<Longrightarrow> x \<le> z" "x \<le> y \<Longrightarrow> y \<le> x \<Longrightarrow> x = y"
    by (auto simp: less_eq_GeofenceKey_def less_GeofenceKey_def geofence_key_less_def)
  show "x \<le> y \<or> y \<le> x"
    by (cases x; cases y) (auto simp: less_eq_GeofenceKey_def less_GeofenceKey_def geofence_key_less_def)
qed
end

record GeofenceObject =
  go_key :: GeofenceKey
  breachMask :: "16 word"
  go_responsiveness :: u32
  go_dwellTime :: u32
  go_latitude :: coordinate
  go_longitude :: coordinate
  go_radius :: coordinate
  paused :: bool

datatype gf_op = GfAdd | GfRemove | GfPause | GfResume | GfModify

text \<open>The result of an item is \<open>None\<close> while its element of the array is not initialised.\<close>

record gf_batch =
  gb_op :: gf_op
  gb_client :: nat
  gb_ids :: "u32 list"
  gb_options :: "GeofenceOption list option"
  gb_infos :: "GeofenceInfo list option"
  gb_errs :: "LocationError option list"

datatype gf_request = AddGeofence u32 GeofenceOption GeofenceInfo | RemoveGeofence u32 u32 | PauseGeofence u32 u32
  | ResumeGeofence u32 u32 | ModifyGeofence u32 u32 GeofenceOption

text \<open>What an answer does: finish an item, forget a fence of a removed client, or save a restarted one.\<close>

datatype gf_response = ItemDone nat nat u32 | ClientGone u32 | GfRestarted GeofenceObject GeofenceOption GeofenceInfo

record gf_callbacks =
  collectiveResponseCb :: bool
  geofenceBreachCb :: bool
  geofenceStatusCb :: bool

record GeofenceAdapter =
  gf_clients :: "(nat \<times> gf_callbacks) list"
  mGeofences :: "(u32 \<times> GeofenceObject) list"
  mGeofenceIds :: "(GeofenceKey \<times> u32) list"
  gf_counter :: u32
  gf_batches :: "nat \<rightharpoonup> gf_batch"
  gf_next :: nat
  gf_call_queue :: "(nat \<times> nat) list"
  gf_waiting :: "gf_response list"
  gf_requests :: "gf_request list"
  gf_responses :: "(nat \<times> LocationError option list \<times> u32 list \<times> bool) list"
  gf_breaches :: "(nat \<times> u32 list) list"
  gf_statuses :: "(nat \<times> bool) list"

definition new_GeofenceAdapter :: GeofenceAdapter where
  "new_GeofenceAdapter = \<lparr>gf_clients = [], mGeofences = [], mGeofenceIds = [], gf_counter = 1, gf_batches = Map.empty,
     gf_next = 0, gf_call_queue = [], gf_waiting = [], gf_requests = [], gf_responses = [], gf_breaches = [], gf_statuses = []\<rparr>"

section \<open>The maps\<close>

definition getHwIdFromClient :: "nat \<Rightarrow> u32 \<Rightarrow> GeofenceAdapter \<Rightarrow> LocationError \<times> u32" where
  "getHwIdFromClient c sid s = (case map_of (mGeofenceIds s) (GeofenceKey c sid) of
     Some hw \<Rightarrow> (LOCATION_ERROR_SUCCESS, hw) | None \<Rightarrow> (LOCATION_ERROR_ID_UNKNOWN, 0))"

definition getGeofenceKeyFromHwId :: "u32 \<Rightarrow> GeofenceAdapter \<Rightarrow> GeofenceKey option" where
  "getGeofenceKeyFromHwId hw s = map_option go_key (map_of (mGeofences s) hw)"

definition saveGeofenceItem :: "nat \<Rightarrow> u32 \<Rightarrow> u32 \<Rightarrow> GeofenceOption \<Rightarrow> GeofenceInfo \<Rightarrow> GeofenceAdapter \<Rightarrow> GeofenceAdapter" where
  "saveGeofenceItem c sid hw opt info s =
     (let key = GeofenceKey c sid;
          object = \<lparr>go_key = key, breachMask = breachTypeMask opt, go_responsiveness = fo_responsiveness opt,
            go_dwellTime = fo_dwellTime opt, go_latitude = fi_latitude info, go_longitude = fi_longitude info,
            go_radius = fi_radius info, paused = False\<rparr>
      in s\<lparr>mGeofences := map_put hw object (mGeofences s), mGeofenceIds := map_put key hw (mGeofenceIds s)\<rparr>)"

definition removeGeofenceItem :: "u32 \<Rightarrow> GeofenceAdapter \<Rightarrow> GeofenceAdapter" where
  "removeGeofenceItem hw s = (case getGeofenceKeyFromHwId hw s of
      None \<Rightarrow> s
    | Some key \<Rightarrow> if map_of (mGeofenceIds s) key = None then s
        else s\<lparr>mGeofenceIds := map_erase key (mGeofenceIds s), mGeofences := map_erase hw (mGeofences s)\<rparr>)"

text \<open>A change of the object of a hardware id that is there.\<close>

definition change_fence :: "u32 \<Rightarrow> (GeofenceObject \<Rightarrow> GeofenceObject) \<Rightarrow> GeofenceAdapter \<Rightarrow> GeofenceAdapter" where
  "change_fence hw f s = (case map_of (mGeofences s) hw of None \<Rightarrow> s
     | Some ob \<Rightarrow> s\<lparr>mGeofences := map_put hw (f ob) (mGeofences s)\<rparr>)"

definition pauseGeofenceItem :: "u32 \<Rightarrow> GeofenceAdapter \<Rightarrow> GeofenceAdapter" where
  "pauseGeofenceItem hw = change_fence hw (\<lambda>ob. ob\<lparr>paused := True\<rparr>)"

definition resumeGeofenceItem :: "u32 \<Rightarrow> GeofenceAdapter \<Rightarrow> GeofenceAdapter" where
  "resumeGeofenceItem hw = change_fence hw (\<lambda>ob. ob\<lparr>paused := False\<rparr>)"

definition modifyGeofenceItem :: "u32 \<Rightarrow> GeofenceOption \<Rightarrow> GeofenceAdapter \<Rightarrow> GeofenceAdapter" where
  "modifyGeofenceItem hw opt = change_fence hw (\<lambda>ob. ob\<lparr>breachMask := breachTypeMask opt,
     go_responsiveness := fo_responsiveness opt, go_dwellTime := fo_dwellTime opt\<rparr>)"

section \<open>Batches\<close>

definition gf_request :: "gf_request \<Rightarrow> gf_response option \<Rightarrow> GeofenceAdapter \<Rightarrow> GeofenceAdapter" where
  "gf_request rq r s = s\<lparr>gf_requests := gf_requests s @ [rq], gf_waiting := gf_waiting s @ (case r of None \<Rightarrow> [] | Some x \<Rightarrow> [x])\<rparr>"

definition gf_reportResponse :: "nat \<Rightarrow> LocationError option list \<Rightarrow> u32 list \<Rightarrow> GeofenceAdapter \<Rightarrow> GeofenceAdapter" where
  "gf_reportResponse c errs ids s = s\<lparr>gf_responses := gf_responses s @
     [(c, errs, ids, case map_of (gf_clients s) c of None \<Rightarrow> False | Some cb \<Rightarrow> collectiveResponseCb cb)]\<rparr>"

text \<open>Writes the result of an item.\<close>

definition set_err :: "nat \<Rightarrow> nat \<Rightarrow> LocationError \<Rightarrow> GeofenceAdapter \<Rightarrow> GeofenceAdapter option" where
  "set_err b i err s = do { bt \<leftarrow> gf_batches s b; Some (s\<lparr>gf_batches := (gf_batches s)(b \<mapsto> bt\<lparr>gb_errs := (gb_errs bt)[i := Some err]\<rparr>)\<rparr>) }"

text \<open>The aggregated response on the last item, which also frees the arrays.\<close>

definition finish_item :: "nat \<Rightarrow> nat \<Rightarrow> GeofenceAdapter \<Rightarrow> GeofenceAdapter option" where
  "finish_item b i s = do {
     bt \<leftarrow> gf_batches s b;
     Some (if Suc i = length (gb_ids bt)
           then (gf_reportResponse (gb_client bt) (gb_errs bt) (gb_ids bt) s)\<lparr>gf_batches := (gf_batches s)(b := None)\<rparr>
           else s)
   }"

text \<open>The turn of an item in the call queue. Its options are there: otherwise it is not queued.\<close>

definition gf_call :: "nat \<Rightarrow> nat \<Rightarrow> GeofenceAdapter \<Rightarrow> GeofenceAdapter option" where
  "gf_call b i s = do {
     bt \<leftarrow> gf_batches s b;
     let sid = gb_ids bt ! i;
     if gb_op bt = GfAdd
     then Some (gf_request (AddGeofence sid (the (gb_options bt) ! i) (the (gb_infos bt) ! i)) (Some (ItemDone b i 0)) s)
     else (let (err, hw) = getHwIdFromClient (gb_client bt) sid s in do {
       s1 \<leftarrow> set_err b i err s;
       if err = LOCATION_ERROR_SUCCESS
       then Some (gf_request (case gb_op bt of GfPause \<Rightarrow> PauseGeofence hw sid | GfResume \<Rightarrow> ResumeGeofence hw sid
              | GfModify \<Rightarrow> ModifyGeofence hw sid (the (gb_options bt) ! i) | _ \<Rightarrow> RemoveGeofence hw sid)
            (Some (ItemDone b i hw)) s1)
       else finish_item b i s1
     })
   }"

text \<open>
  The answer to the request of an item; \<open>data\<close> is the hardware id the modem gave. A failed resume
  ends here, and a failed modification leaves the result that the look-up has written.
\<close>

definition item_done :: "nat \<Rightarrow> nat \<Rightarrow> u32 \<Rightarrow> LocationError \<Rightarrow> u32 \<Rightarrow> GeofenceAdapter \<Rightarrow> GeofenceAdapter option" where
  "item_done b i hw err data s = do {
     bt \<leftarrow> gf_batches s b;
     let sid = gb_ids bt ! i;
     let c = gb_client bt;
     let ok = (err = LOCATION_ERROR_SUCCESS);
     (case gb_op bt of
        GfAdd \<Rightarrow> do {
          s1 \<leftarrow> set_err b i err (if ok then saveGeofenceItem c sid data (the (gb_options bt) ! i) (the (gb_infos bt) ! i) s else s);
          finish_item b i s1 }
      | GfRemove \<Rightarrow> do { s1 \<leftarrow> set_err b i err (if ok then removeGeofenceItem hw s else s); finish_item b i s1 }
      | GfPause \<Rightarrow> do { s1 \<leftarrow> set_err b i err (if ok then pauseGeofenceItem hw s else s); finish_item b i s1 }
      | GfResume \<Rightarrow> if ok then do { s1 \<leftarrow> set_err b i err s; finish_item b i (resumeGeofenceItem hw s1) } else Some s
      | GfModify \<Rightarrow> do {
          s1 \<leftarrow> (if ok then map_option (modifyGeofenceItem hw (the (gb_options bt) ! i)) (set_err b i err s) else Some s);
          finish_item b i s1 })
   }"

section \<open>Commands\<close>

fun new_ids :: "nat \<Rightarrow> u32 \<Rightarrow> u32 list \<times> u32" where
  "new_ids 0 n = ([], n)"
| "new_ids (Suc k) n = (let (ids, m) = new_ids k (next_session_id n) in (next_session_id n # ids, m))"

text \<open>
  The message of a command: the array of results is allocated, and the items are queued unless
  the options of an addition or a modification are missing.
\<close>

definition proc_batch :: "gf_op \<Rightarrow> nat \<Rightarrow> u32 list \<Rightarrow> GeofenceOption list option \<Rightarrow> GeofenceInfo list option
    \<Rightarrow> GeofenceAdapter \<Rightarrow> GeofenceAdapter" where
  "proc_batch oper c ids opts infos s =
     (let b = gf_next s; n = length ids;
          missing = (oper = GfAdd \<and> (opts = None \<or> infos = None) \<or> oper = GfModify \<and> opts = None)
      in s\<lparr>gf_next := Suc b,
           gf_batches := (gf_batches s)(b \<mapsto> \<lparr>gb_op = oper, gb_client = c, gb_ids = ids, gb_options = opts, gb_infos = infos,
             gb_errs = replicate n (if missing then Some LOCATION_ERROR_INVALID_PARAMETER else None)\<rparr>),
           gf_call_queue := gf_call_queue s @ (if missing then [] else map (\<lambda>i. (b, i)) [0..<n])\<rparr>)"

text \<open>The copy of an array of the client, of which the code reads \<open>n\<close> elements; a null array stays one.\<close>

definition copy_array :: "nat \<Rightarrow> 'a list option \<Rightarrow> 'a list option option" where
  "copy_array n arr = (case arr of None \<Rightarrow> Some None | Some xs \<Rightarrow> if length xs < n then None else Some (Some (take n xs)))"

definition addGeofencesCommand :: "nat \<Rightarrow> nat \<Rightarrow> GeofenceOption list option \<Rightarrow> GeofenceInfo list option
    \<Rightarrow> GeofenceAdapter \<Rightarrow> GeofenceAdapter option" where
  "addGeofencesCommand c count opts infos s =
     (if count = 0 then Some s
      else do {
        opts' \<leftarrow> copy_array count opts;
        infos' \<leftarrow> copy_array count infos;
        let (ids, n) = new_ids count (gf_counter s);
        Some (proc_batch GfAdd c ids opts' infos' (s\<lparr>gf_counter := n\<rparr>))
      })"

definition removeGeofencesCommand :: "nat \<Rightarrow> u32 list \<Rightarrow> GeofenceAdapter \<Rightarrow> GeofenceAdapter" where
  "removeGeofencesCommand c ids s = (if ids = [] then s else proc_batch GfRemove c ids None None s)"

definition pauseGeofencesCommand :: "nat \<Rightarrow> u32 list \<Rightarrow> GeofenceAdapter \<Rightarrow> GeofenceAdapter" where
  "pauseGeofencesCommand c ids s = (if ids = [] then s else proc_batch GfPause c ids None None s)"

definition resumeGeofencesCommand :: "nat \<Rightarrow> u32 list \<Rightarrow> GeofenceAdapter \<Rightarrow> GeofenceAdapter" where
  "resumeGeofencesCommand c ids s = (if ids = [] then s else proc_batch GfResume c ids None None s)"

definition modifyGeofencesCommand :: "nat \<Rightarrow> u32 list \<Rightarrow> GeofenceOption list option \<Rightarrow> GeofenceAdapter \<Rightarrow> GeofenceAdapter option" where
  "modifyGeofencesCommand c ids opts s = (if ids = [] then Some s
     else map_option (\<lambda>opts'. proc_batch GfModify c ids opts' None s) (copy_array (length ids) opts))"

section \<open>Clients and restarts\<close>

text \<open>The loop of \<open>stopClientSessions\<close>, over the map as it was.\<close>

fun stop_fences :: "nat \<Rightarrow> (GeofenceKey \<times> u32) list \<Rightarrow> GeofenceAdapter \<Rightarrow> GeofenceAdapter" where
  "stop_fences c [] s = s"
| "stop_fences c ((k, hw) # m) s = stop_fences c m
     (if gk_client k = c
      then gf_request (RemoveGeofence hw (gk_id k)) (Some (ClientGone hw)) (s\<lparr>mGeofenceIds := map_erase k (mGeofenceIds s)\<rparr>)
      else s)"

definition gf_stopClientSessions :: "nat \<Rightarrow> GeofenceAdapter \<Rightarrow> GeofenceAdapter" where
  "gf_stopClientSessions c s = stop_fences c (mGeofenceIds s) s"

fun restart_fences :: "(u32 \<times> GeofenceObject) list \<Rightarrow> GeofenceAdapter \<Rightarrow> GeofenceAdapter" where
  "restart_fences [] s = s"
| "restart_fences ((hw, ob) # m) s =
     (let opt = \<lparr>breachTypeMask = breachMask ob, fo_responsiveness = go_responsiveness ob, fo_dwellTime = go_dwellTime ob\<rparr>;
          info = \<lparr>fi_latitude = go_latitude ob, fi_longitude = go_longitude ob, fi_radius = go_radius ob\<rparr>
      in restart_fences m (gf_request (AddGeofence (gk_id (go_key ob)) opt info) (Some (GfRestarted ob opt info)) s))"

definition restartGeofences :: "GeofenceAdapter \<Rightarrow> GeofenceAdapter" where
  "restartGeofences s = (if mGeofences s = [] then s
     else restart_fences (mGeofences s) (s\<lparr>mGeofences := [], mGeofenceIds := []\<rparr>))"

fun gf_answer :: "gf_response \<Rightarrow> LocationError \<Rightarrow> u32 \<Rightarrow> GeofenceAdapter \<Rightarrow> GeofenceAdapter option" where
  "gf_answer (ItemDone b i hw) err data s = item_done b i hw err data s"
| "gf_answer (ClientGone hw) err data s = Some (if err = LOCATION_ERROR_SUCCESS
     then s\<lparr>mGeofences := map_erase hw (mGeofences s)\<rparr> else s)"
| "gf_answer (GfRestarted ob opt info) err data s = Some (if err = LOCATION_ERROR_SUCCESS
     then saveGeofenceItem (gk_client (go_key ob)) (gk_id (go_key ob)) data opt info
       (if paused ob then gf_request (PauseGeofence data (gk_id (go_key ob))) None s else s)
     else s)"

section \<open>Events of the modem\<close>

text \<open>The ids of a client among the hardware ids of a breach.\<close>

definition breached_ids :: "nat \<Rightarrow> u32 list \<Rightarrow> GeofenceAdapter \<Rightarrow> u32 list" where
  "breached_ids c hws s = concat (map (\<lambda>hw. case getGeofenceKeyFromHwId hw s of None \<Rightarrow> []
     | Some key \<Rightarrow> if gk_client key = c then [gk_id key] else []) hws)"

fun breach_loop :: "(nat \<times> gf_callbacks) list \<Rightarrow> u32 list \<Rightarrow> GeofenceAdapter \<Rightarrow> GeofenceAdapter" where
  "breach_loop [] hws s = s"
| "breach_loop ((c, cb) # m) hws s = breach_loop m hws
     (if breached_ids c hws s \<noteq> [] \<and> geofenceBreachCb cb
      then s\<lparr>gf_breaches := gf_breaches s @ [(c, breached_ids c hws s)]\<rparr> else s)"

definition geofenceBreach :: "u32 list \<Rightarrow> GeofenceAdapter \<Rightarrow> GeofenceAdapter" where
  "geofenceBreach hws s = (if hws = [] then s else breach_loop (gf_clients s) hws s)"

fun status_loop :: "(nat \<times> gf_callbacks) list \<Rightarrow> bool \<Rightarrow> GeofenceAdapter \<Rightarrow> GeofenceAdapter" where
  "status_loop [] a s = s"
| "status_loop ((c, cb) # m) a s = status_loop m a (if geofenceStatusCb cb then s\<lparr>gf_statuses := gf_statuses s @ [(c, a)]\<rparr> else s)"

definition geofenceStatus :: "bool \<Rightarrow> GeofenceAdapter \<Rightarrow> GeofenceAdapter" where
  "geofenceStatus a s = status_loop (gf_clients s) a s"

section \<open>Runs\<close>

datatype gf_event = GfAddCommand nat nat "GeofenceOption list option" "GeofenceInfo list option"
  | GfRemoveCommand nat "u32 list" | GfPauseCommand nat "u32 list" | GfResumeCommand nat "u32 list"
  | GfModifyCommand nat "u32 list" "GeofenceOption list option"
  | GfAddClient nat gf_callbacks | GfRemoveClient nat | GfEngineUp
  | GfCall | GfAnswer nat LocationError u32 | GfBreach "u32 list" | GfStatus bool

fun gf_step :: "gf_event \<Rightarrow> GeofenceAdapter \<Rightarrow> GeofenceAdapter option" where
  "gf_step (GfAddCommand c n opts infos) s = addGeofencesCommand c n opts infos s"
| "gf_step (GfRemoveCommand c ids) s = Some (removeGeofencesCommand c ids s)"
| "gf_step (GfPauseCommand c ids) s = Some (pauseGeofencesCommand c ids s)"
| "gf_step (GfResumeCommand c ids) s = Some (resumeGeofencesCommand c ids s)"
| "gf_step (GfModifyCommand c ids opts) s = modifyGeofencesCommand c ids opts s"
| "gf_step (GfAddClient c cb) s = Some (s\<lparr>gf_clients := map_put c cb (gf_clients s)\<rparr>)"
| "gf_step (GfRemoveClient c) s = (let s1 = gf_stopClientSessions c s in Some (s1\<lparr>gf_clients := map_erase c (gf_clients s1)\<rparr>))"
| "gf_step GfEngineUp s = Some (restartGeofences s)"
| "gf_step GfCall s = (case gf_call_queue s of [] \<Rightarrow> Some s | (b, i) # q \<Rightarrow> gf_call b i (s\<lparr>gf_call_queue := q\<rparr>))"
| "gf_step (GfAnswer j err data) s = (if j < length (gf_waiting s)
     then gf_answer (gf_waiting s ! j) err data (s\<lparr>gf_waiting := take j (gf_waiting s) @ drop (Suc j) (gf_waiting s)\<rparr>)
     else Some s)"
| "gf_step (GfBreach hws) s = Some (geofenceBreach hws s)"
| "gf_step (GfStatus a) s = Some (geofenceStatus a s)"

fun gf_run :: "gf_event list \<Rightarrow> GeofenceAdapter \<Rightarrow> GeofenceAdapter option" where
  "gf_run [] s = Some s"
| "gf_run (e # es) s = do { s1 \<leftarrow> gf_step e s; gf_run es s1 }"

end
