(* ===== verification/Geofence_Props.thy ===== *)
theory Geofence_Props
  imports Geofence
begin

text \<open>
  The geofences as the clients see them: a map from the keys (client and id) to hardware id and
  object. A batch whose items take their turns refines the fold of \<open>spec_item\<close> over this map,
  results included. Runs in which the call queue serves one item at a time touch no freed array.
\<close>

section \<open>The maps\<close>

definition fences_ok :: "GeofenceAdapter \<Rightarrow> bool" where
  "fences_ok s \<longleftrightarrow> map_ok (mGeofences s) \<and> map_ok (mGeofenceIds s)
     \<and> (\<forall>key hw. map_of (mGeofenceIds s) key = Some hw \<longrightarrow> (\<exists>ob. map_of (mGeofences s) hw = Some ob \<and> go_key ob = key))"

type_synonym fence_map = "GeofenceKey \<rightharpoonup> (u32 \<times> GeofenceObject)"

definition gf_abs :: "GeofenceAdapter \<Rightarrow> fence_map" where
  "gf_abs s key = (case map_of (mGeofenceIds s) key of None \<Rightarrow> None
     | Some hw \<Rightarrow> map_option (Pair hw) (map_of (mGeofences s) hw))"

definition gf_maps :: "GeofenceAdapter \<Rightarrow> (u32 \<times> GeofenceObject) list \<times> (GeofenceKey \<times> u32) list" where
  "gf_maps s = (mGeofences s, mGeofenceIds s)"

lemma abs_cong: "gf_maps s' = gf_maps s \<Longrightarrow> gf_abs s' = gf_abs s"
  by (rule ext) (simp add: gf_abs_def gf_maps_def split: option.split)

lemma ok_cong: "gf_maps s' = gf_maps s \<Longrightarrow> fences_ok s' = fences_ok s"
  by (simp add: fences_ok_def gf_maps_def)

lemma abs_known: "fences_ok s \<Longrightarrow> map_of (mGeofenceIds s) key = Some hw \<Longrightarrow>
    \<exists>ob. gf_abs s key = Some (hw, ob) \<and> map_of (mGeofences s) hw = Some ob \<and> go_key ob = key"
  by (auto simp: fences_ok_def gf_abs_def)

lemma abs_unknown: "map_of (mGeofenceIds s) key = None \<longleftrightarrow> gf_abs s key = None" if "fences_ok s"
  using that by (auto simp: fences_ok_def gf_abs_def split: option.split)

lemma abs_hw: "gf_abs s key = Some (hw, ob) \<Longrightarrow> map_of (mGeofenceIds s) key = Some hw \<and> map_of (mGeofences s) hw = Some ob"
  by (auto simp: gf_abs_def split: option.splits)

definition new_fence :: "GeofenceKey \<Rightarrow> GeofenceOption \<Rightarrow> GeofenceInfo \<Rightarrow> GeofenceObject" where
  "new_fence key opt info = \<lparr>go_key = key, breachMask = breachTypeMask opt, go_responsiveness = fo_responsiveness opt,
     go_dwellTime = fo_dwellTime opt, go_latitude = fi_latitude info, go_longitude = fi_longitude info,
     go_radius = fi_radius info, paused = False\<rparr>"

text \<open>A hardware id is free for a key if no other key has it.\<close>

definition hw_free :: "fence_map \<Rightarrow> GeofenceKey \<Rightarrow> u32 \<Rightarrow> bool" where
  "hw_free m key hw \<longleftrightarrow> (\<forall>key' ob. m key' = Some (hw, ob) \<longrightarrow> key' = key)"

lemma save_abs:
  assumes ok: "fences_ok s" and free: "hw_free (gf_abs s) (GeofenceKey c sid) hw"
  shows "fences_ok (saveGeofenceItem c sid hw opt info s)"
    "gf_abs (saveGeofenceItem c sid hw opt info s) = (gf_abs s)(GeofenceKey c sid \<mapsto> (hw, new_fence (GeofenceKey c sid) opt info))"
proof -
  let ?k = "GeofenceKey c sid" let ?s = "saveGeofenceItem c sid hw opt info s"
  have m: "map_of (mGeofences ?s) = (map_of (mGeofences s))(hw \<mapsto> new_fence ?k opt info)"
    "map_of (mGeofenceIds ?s) = (map_of (mGeofenceIds s))(?k \<mapsto> hw)"
    using ok by (simp_all add: saveGeofenceItem_def new_fence_def fences_ok_def Let_def)
  have other: "hw' \<noteq> hw" if "map_of (mGeofenceIds s) key = Some hw'" "key \<noteq> ?k" for key hw'
    using abs_known [OF ok that(1)] free that(2) by (auto simp: hw_free_def)
  show "fences_ok ?s" using ok other
    by (auto simp: fences_ok_def m new_fence_def) (auto simp: saveGeofenceItem_def Let_def)
  show "gf_abs ?s = (gf_abs s)(?k \<mapsto> (hw, new_fence ?k opt info))"
    using other by (auto simp: gf_abs_def m fun_eq_iff split: option.split)
qed

lemma remove_abs:
  assumes ok: "fences_ok s" and k: "gf_abs s key = Some (hw, ob)"
  shows "fences_ok (removeGeofenceItem hw s)" "gf_abs (removeGeofenceItem hw s) = (gf_abs s)(key := None)"
proof -
  have h: "map_of (mGeofenceIds s) key = Some hw" "map_of (mGeofences s) hw = Some ob" using abs_hw [OF k] by auto
  then have key: "go_key ob = key" using abs_known [OF ok] by fastforce
  let ?s = "removeGeofenceItem hw s"
  have m: "?s = s\<lparr>mGeofenceIds := map_erase key (mGeofenceIds s), mGeofences := map_erase hw (mGeofences s)\<rparr>"
    using h key by (simp add: removeGeofenceItem_def getGeofenceKeyFromHwId_def)
  have other: "hw' \<noteq> hw" if "map_of (mGeofenceIds s) key' = Some hw'" "key' \<noteq> key" for key' hw'
    using abs_known [OF ok that(1)] that(2) h(2) key by auto
  show "fences_ok ?s" using ok other by (auto simp: fences_ok_def m)
  show "gf_abs ?s = (gf_abs s)(key := None)" using other by (auto simp: gf_abs_def m fun_eq_iff split: option.split)
qed

lemma change_abs:
  assumes ok: "fences_ok s" and k: "gf_abs s key = Some (hw, ob)" and f: "\<And>ob. go_key (f ob) = go_key ob"
  shows "fences_ok (change_fence hw f s)" "gf_abs (change_fence hw f s) = (gf_abs s)(key \<mapsto> (hw, f ob))"
proof -
  have h: "map_of (mGeofenceIds s) key = Some hw" "map_of (mGeofences s) hw = Some ob" using abs_hw [OF k] by auto
  then have key: "go_key ob = key" using abs_known [OF ok] by fastforce
  let ?s = "change_fence hw f s"
  have m: "map_of (mGeofences ?s) = (map_of (mGeofences s))(hw \<mapsto> f ob)" "mGeofenceIds ?s = mGeofenceIds s" "map_ok (mGeofences ?s)"
    using ok h by (simp_all add: change_fence_def fences_ok_def)
  have other: "hw' \<noteq> hw" if "map_of (mGeofenceIds s) key' = Some hw'" "key' \<noteq> key" for key' hw'
    using abs_known [OF ok that(1)] that(2) h(2) key by auto
  show "fences_ok ?s" using ok other key f h by (auto simp: fences_ok_def m)
  show "gf_abs ?s = (gf_abs s)(key \<mapsto> (hw, f ob))" using other h by (auto simp: gf_abs_def m fun_eq_iff split: option.split)
qed

section \<open>The specification of an item\<close>

text \<open>An item with what the modem answers: id, options, place, result and hardware id.\<close>

type_synonym gf_item = "u32 \<times> GeofenceOption \<times> GeofenceInfo \<times> LocationError \<times> u32"

definition spec_item :: "gf_op \<Rightarrow> nat \<Rightarrow> gf_item \<Rightarrow> fence_map \<Rightarrow> LocationError \<times> fence_map" where
  "spec_item oper c it m = (case it of (sid, opt, info, err, hw') \<Rightarrow>
     let key = GeofenceKey c sid; ok = (err = LOCATION_ERROR_SUCCESS) in
     if oper = GfAdd then (err, if ok then m(key \<mapsto> (hw', new_fence key opt info)) else m)
     else (case m key of
         None \<Rightarrow> (LOCATION_ERROR_ID_UNKNOWN, m)
       | Some (hw, ob) \<Rightarrow> (case oper of
           GfPause \<Rightarrow> (err, if ok then m(key \<mapsto> (hw, ob\<lparr>paused := True\<rparr>)) else m)
         | GfResume \<Rightarrow> (LOCATION_ERROR_SUCCESS, if ok then m(key \<mapsto> (hw, ob\<lparr>paused := False\<rparr>)) else m)
         | GfModify \<Rightarrow> (LOCATION_ERROR_SUCCESS, if ok then m(key \<mapsto> (hw, ob\<lparr>breachMask := breachTypeMask opt,
              go_responsiveness := fo_responsiveness opt, go_dwellTime := fo_dwellTime opt\<rparr>)) else m)
         | _ \<Rightarrow> (err, if ok then m(key := None) else m))))"

fun spec_items :: "gf_op \<Rightarrow> nat \<Rightarrow> gf_item list \<Rightarrow> fence_map \<Rightarrow> LocationError list \<times> fence_map" where
  "spec_items oper c [] m = ([], m)"
| "spec_items oper c (it # its) m = (let (r, m1) = spec_item oper c it m; (rs, m2) = spec_items oper c its m1 in (r # rs, m2))"

text \<open>The modem gives a new fence a hardware id of its own.\<close>

fun fresh_items :: "gf_op \<Rightarrow> nat \<Rightarrow> gf_item list \<Rightarrow> fence_map \<Rightarrow> bool" where
  "fresh_items oper c [] m \<longleftrightarrow> True"
| "fresh_items oper c ((sid, opt, info, err, hw) # its) m \<longleftrightarrow>
     (oper = GfAdd \<and> err = LOCATION_ERROR_SUCCESS \<longrightarrow> hw_free m (GeofenceKey c sid) hw)
     \<and> fresh_items oper c its (snd (spec_item oper c (sid, opt, info, err, hw) m))"

text \<open>The one case in which a batch is never answered: its last item is a resume that fails.\<close>

fun unanswered :: "gf_op \<Rightarrow> nat \<Rightarrow> gf_item list \<Rightarrow> fence_map \<Rightarrow> bool" where
  "unanswered oper c [] m \<longleftrightarrow> False"
| "unanswered oper c [(sid, opt, info, err, hw)] m \<longleftrightarrow> oper = GfResume \<and> m (GeofenceKey c sid) \<noteq> None \<and> err \<noteq> LOCATION_ERROR_SUCCESS"
| "unanswered oper c (it # its) m \<longleftrightarrow> unanswered oper c its (snd (spec_item oper c it m))"

definition turns :: "gf_item list \<Rightarrow> gf_event list" where
  "turns its = concat (map (\<lambda>(sid, opt, info, err, hw). [GfCall, GfAnswer 0 err hw]) its)"

text \<open>The arrays of a batch.\<close>

definition batch_of :: "gf_op \<Rightarrow> nat \<Rightarrow> gf_item list \<Rightarrow> gf_batch" where
  "batch_of oper c its = \<lparr>gb_op = oper, gb_client = c, gb_ids = map fst its,
     gb_options = (if oper = GfAdd \<or> oper = GfModify then Some (map (fst o snd) its) else None),
     gb_infos = (if oper = GfAdd then Some (map (fst o snd o snd) its) else None), gb_errs = []\<rparr>"

lemma fence_keeps [simp]:
  "gf_batches (saveGeofenceItem c sid hw opt info s) = gf_batches s" "gf_call_queue (saveGeofenceItem c sid hw opt info s) = gf_call_queue s"
  "gf_waiting (saveGeofenceItem c sid hw opt info s) = gf_waiting s" "gf_responses (saveGeofenceItem c sid hw opt info s) = gf_responses s"
  "gf_clients (saveGeofenceItem c sid hw opt info s) = gf_clients s"
  by (simp_all add: saveGeofenceItem_def Let_def)

lemma remove_keeps [simp]:
  "gf_batches (removeGeofenceItem hw s) = gf_batches s" "gf_call_queue (removeGeofenceItem hw s) = gf_call_queue s"
  "gf_waiting (removeGeofenceItem hw s) = gf_waiting s" "gf_responses (removeGeofenceItem hw s) = gf_responses s"
  "gf_clients (removeGeofenceItem hw s) = gf_clients s"
  by (simp_all add: removeGeofenceItem_def split: option.split)

lemma change_keeps [simp]:
  "gf_batches (change_fence hw f s) = gf_batches s" "gf_call_queue (change_fence hw f s) = gf_call_queue s"
  "gf_waiting (change_fence hw f s) = gf_waiting s" "gf_responses (change_fence hw f s) = gf_responses s"
  "gf_clients (change_fence hw f s) = gf_clients s"
  by (simp_all add: change_fence_def split: option.split)

lemma abs_upd [simp]:
  "gf_abs (s\<lparr>gf_batches := bs\<rparr>) = gf_abs s" "gf_abs (s\<lparr>gf_waiting := w\<rparr>) = gf_abs s" "gf_abs (s\<lparr>gf_call_queue := q\<rparr>) = gf_abs s"
  "gf_abs (s\<lparr>gf_next := n\<rparr>) = gf_abs s" "gf_abs (gf_request rq r s) = gf_abs s" "gf_abs (gf_reportResponse c es ids s) = gf_abs s"
  by (rule abs_cong; simp add: gf_maps_def gf_request_def gf_reportResponse_def)+

lemma ok_upd [simp]:
  "fences_ok (s\<lparr>gf_batches := bs\<rparr>) = fences_ok s" "fences_ok (s\<lparr>gf_waiting := w\<rparr>) = fences_ok s" "fences_ok (s\<lparr>gf_call_queue := q\<rparr>) = fences_ok s"
  "fences_ok (s\<lparr>gf_next := n\<rparr>) = fences_ok s" "fences_ok (gf_request rq r s) = fences_ok s" "fences_ok (gf_reportResponse c es ids s) = fences_ok s"
  by (simp_all add: fences_ok_def gf_request_def gf_reportResponse_def)

lemma set_err_some: "gf_batches s b = Some bt \<Longrightarrow>
    set_err b i err s = Some (s\<lparr>gf_batches := (gf_batches s)(b \<mapsto> bt\<lparr>gb_errs := (gb_errs bt)[i := Some err]\<rparr>)\<rparr>)"
  by (simp add: set_err_def)

text \<open>What an answer does to the maps.\<close>

definition item_effect :: "gf_op \<Rightarrow> nat \<Rightarrow> u32 \<Rightarrow> gf_item \<Rightarrow> GeofenceAdapter \<Rightarrow> GeofenceAdapter" where
  "item_effect oper c hw0 it s = (case it of (sid, opt, info, err, hw) \<Rightarrow>
     if err \<noteq> LOCATION_ERROR_SUCCESS then s
     else (case oper of GfAdd \<Rightarrow> saveGeofenceItem c sid hw opt info s | GfRemove \<Rightarrow> removeGeofenceItem hw0 s
       | GfPause \<Rightarrow> pauseGeofenceItem hw0 s | GfResume \<Rightarrow> resumeGeofenceItem hw0 s | GfModify \<Rightarrow> modifyGeofenceItem hw0 opt s))"

lemma item_keeps [simp]:
  "gf_batches (pauseGeofenceItem hw s) = gf_batches s" "gf_batches (resumeGeofenceItem hw s) = gf_batches s" "gf_batches (modifyGeofenceItem hw opt s) = gf_batches s"
  "gf_call_queue (pauseGeofenceItem hw s) = gf_call_queue s" "gf_call_queue (resumeGeofenceItem hw s) = gf_call_queue s" "gf_call_queue (modifyGeofenceItem hw opt s) = gf_call_queue s"
  "gf_waiting (pauseGeofenceItem hw s) = gf_waiting s" "gf_waiting (resumeGeofenceItem hw s) = gf_waiting s" "gf_waiting (modifyGeofenceItem hw opt s) = gf_waiting s"
  "gf_responses (pauseGeofenceItem hw s) = gf_responses s" "gf_responses (resumeGeofenceItem hw s) = gf_responses s" "gf_responses (modifyGeofenceItem hw opt s) = gf_responses s"
  "gf_clients (pauseGeofenceItem hw s) = gf_clients s" "gf_clients (resumeGeofenceItem hw s) = gf_clients s" "gf_clients (modifyGeofenceItem hw opt s) = gf_clients s"
  by (simp_all only: pauseGeofenceItem_def resumeGeofenceItem_def modifyGeofenceItem_def change_keeps)

lemma effect_keeps [simp]:
  "gf_batches (item_effect oper c hw0 it s) = gf_batches s" "gf_call_queue (item_effect oper c hw0 it s) = gf_call_queue s"
  "gf_waiting (item_effect oper c hw0 it s) = gf_waiting s" "gf_responses (item_effect oper c hw0 it s) = gf_responses s"
  "gf_clients (item_effect oper c hw0 it s) = gf_clients s"
  unfolding item_effect_def by (cases it; cases oper; simp)+

lemma effect_abs:
  assumes ok: "fences_ok s" and it: "it = (sid, opt, info, err, hw)" and free: "fresh_items oper c [it] (gf_abs s)"
    and known: "oper \<noteq> GfAdd \<Longrightarrow> gf_abs s (GeofenceKey c sid) = Some (hw0, ob)"
  shows "fences_ok (item_effect oper c hw0 it s)" "gf_abs (item_effect oper c hw0 it s) = snd (spec_item oper c it (gf_abs s))"
proof -
  have "fences_ok (item_effect oper c hw0 it s) \<and> gf_abs (item_effect oper c hw0 it s) = snd (spec_item oper c it (gf_abs s))"
  proof (cases "err = LOCATION_ERROR_SUCCESS")
    case True
    show ?thesis
    proof (cases "oper = GfAdd")
      case add: True
      then show ?thesis using True it free save_abs [OF ok, of c sid hw] by (simp add: item_effect_def spec_item_def Let_def)
    next
      case False
      note k = known [OF False]
      note ch = change_abs [OF ok k]
      show ?thesis using False True it k remove_abs [OF ok k] ch
        by (cases oper) (simp_all add: item_effect_def spec_item_def Let_def pauseGeofenceItem_def resumeGeofenceItem_def modifyGeofenceItem_def)
    qed
  next
    case False
    then show ?thesis using it ok known by (cases oper) (auto simp: item_effect_def spec_item_def Let_def split: option.split)
  qed
  then show "fences_ok (item_effect oper c hw0 it s)" "gf_abs (item_effect oper c hw0 it s) = snd (spec_item oper c it (gf_abs s))"
    by auto
qed

section \<open>One item\<close>

definition answer_of :: "gf_batch \<Rightarrow> GeofenceAdapter \<Rightarrow> nat \<times> LocationError option list \<times> u32 list \<times> bool" where
  "answer_of bt s = (gb_client bt, gb_errs bt, gb_ids bt,
     case map_of (gf_clients s) (gb_client bt) of None \<Rightarrow> False | Some cb \<Rightarrow> collectiveResponseCb cb)"

text \<open>The state after the turn of an item of the batch \<open>bt\<close>, whose result is written.\<close>

definition turn_ends :: "gf_batch \<Rightarrow> nat \<Rightarrow> nat \<Rightarrow> bool \<Rightarrow> GeofenceAdapter \<Rightarrow> GeofenceAdapter \<Rightarrow> bool" where
  "turn_ends bt b i stuck s s' \<longleftrightarrow> gf_clients s' = gf_clients s \<and>
     (if Suc i = length (gb_ids bt) \<and> \<not> stuck
      then gf_responses s' = gf_responses s @ [answer_of bt s] \<and> gf_batches s' b = None
      else gf_responses s' = gf_responses s \<and> gf_batches s' b = Some bt)"

lemma finish_ends:
  assumes "gf_batches s1 b = Some bt" "gf_clients s1 = gf_clients s" "gf_responses s1 = gf_responses s"
  shows "\<exists>s'. finish_item b i s1 = Some s' \<and> turn_ends bt b i False s s' \<and> gf_maps s' = gf_maps s1
    \<and> gf_waiting s' = gf_waiting s1 \<and> gf_call_queue s' = gf_call_queue s1"
  using assms by (auto simp: finish_item_def turn_ends_def gf_reportResponse_def answer_of_def gf_maps_def)

definition stuck_item :: "gf_op \<Rightarrow> nat \<Rightarrow> gf_item \<Rightarrow> fence_map \<Rightarrow> bool" where
  "stuck_item oper c it m \<longleftrightarrow> (case it of (sid, opt, info, err, hw) \<Rightarrow>
     oper = GfResume \<and> m (GeofenceKey c sid) \<noteq> None \<and> err \<noteq> LOCATION_ERROR_SUCCESS)"

definition item_over :: "gf_op \<Rightarrow> nat \<Rightarrow> gf_item \<Rightarrow> gf_batch \<Rightarrow> nat \<Rightarrow> nat \<Rightarrow> (nat \<times> nat) list \<Rightarrow> GeofenceAdapter \<Rightarrow> GeofenceAdapter \<Rightarrow> bool" where
  "item_over oper c it bt b i q s s' \<longleftrightarrow>
     turn_ends (bt\<lparr>gb_errs := (gb_errs bt)[i := Some (fst (spec_item oper c it (gf_abs s)))]\<rparr>) b i (stuck_item oper c it (gf_abs s)) s s'
     \<and> fences_ok s' \<and> gf_abs s' = snd (spec_item oper c it (gf_abs s)) \<and> gf_waiting s' = [] \<and> gf_call_queue s' = q"

lemma errs_twice [simp]: "bt\<lparr>gb_errs := e\<rparr>\<lparr>gb_errs := e'\<rparr> = bt\<lparr>gb_errs := e'\<rparr>"
  by simp

text \<open>An item whose id is not known is finished on its turn.\<close>

lemma unknown_turn:
  assumes ok: "fences_ok s" and s: "gf_waiting s = []" "gf_call_queue s = (b, i) # q"
    and bt: "gf_batches s b = Some bt" "gb_op bt = oper" "gb_client bt = c" "gb_ids bt ! i = sid"
    and it: "it = (sid, opt, info, err, hw)" and new: "oper \<noteq> GfAdd" "gf_abs s (GeofenceKey c sid) = None"
  shows "\<exists>s'. gf_run [GfCall, GfAnswer 0 err hw] s = Some s' \<and> item_over oper c it bt b i q s s'"
proof -
  let ?bt = "bt\<lparr>gb_errs := (gb_errs bt)[i := Some LOCATION_ERROR_ID_UNKNOWN]\<rparr>"
  let ?s = "s\<lparr>gf_call_queue := q, gf_batches := (gf_batches s)(b \<mapsto> ?bt)\<rparr>"
  have look: "getHwIdFromClient c sid t = (LOCATION_ERROR_ID_UNKNOWN, 0)" if "mGeofenceIds t = mGeofenceIds s" for t
    using abs_unknown [OF ok, of "GeofenceKey c sid"] new(2) that by (simp add: getHwIdFromClient_def)
  have spec: "spec_item oper c it (gf_abs s) = (LOCATION_ERROR_ID_UNKNOWN, gf_abs s)" "\<not> stuck_item oper c it (gf_abs s)"
    using it new by (simp_all add: spec_item_def stuck_item_def Let_def)
  obtain s' where s': "finish_item b i ?s = Some s'" "turn_ends ?bt b i False s s'" "gf_maps s' = gf_maps ?s"
    "gf_waiting s' = []" "gf_call_queue s' = q" using finish_ends [of ?s b ?bt s i] s by auto
  have "gf_step GfCall s = Some s'" using s bt new(1) look s'(1) by (simp add: gf_call_def set_err_def Let_def)
  moreover have "fences_ok s'" "gf_abs s' = gf_abs s" using ok_cong [OF s'(3)] abs_cong [OF s'(3)] ok by simp_all
  ultimately show ?thesis using s' spec by (simp add: item_over_def)
qed

lemma batches_commute [simp]:
  "change_fence hw f (s\<lparr>gf_batches := x\<rparr>) = (change_fence hw f s)\<lparr>gf_batches := x\<rparr>"
  by (simp add: change_fence_def split: option.split)

definition item_outcome :: "gf_op \<Rightarrow> LocationError \<Rightarrow> LocationError" where
  "item_outcome oper err = (if oper = GfResume \<or> oper = GfModify then LOCATION_ERROR_SUCCESS else err)"

lemma item_done_eq:
  fixes b i hw0 c oper it s1 err
  assumes s1: "gf_batches s1 b = Some bt1" and it: "it = (sid, opt, info, err, hw)"
    and bt1: "bt1 = (if oper = GfAdd then bt else bt\<lparr>gb_errs := (gb_errs bt)[i := Some LOCATION_ERROR_SUCCESS]\<rparr>)"
    and bt: "gb_op bt = oper" "gb_client bt = c" "gb_ids bt ! i = sid"
    and opt: "oper = GfAdd \<or> oper = GfModify \<Longrightarrow> the (gb_options bt) ! i = opt" and info: "oper = GfAdd \<Longrightarrow> the (gb_infos bt) ! i = info"
  defines "s2 \<equiv> (item_effect oper c hw0 it s1)\<lparr>gf_batches := (gf_batches s1)(b \<mapsto> bt\<lparr>gb_errs := (gb_errs bt)[i := Some (item_outcome oper err)]\<rparr>)\<rparr>"
  shows "item_done b i hw0 err hw s1 = (if oper = GfResume \<and> err \<noteq> LOCATION_ERROR_SUCCESS then Some s2 else finish_item b i s2)"
proof -
  have same: "s1\<lparr>gf_batches := (gf_batches s1)(b \<mapsto> bt1)\<rparr> = s1" using fun_upd_idem [of "gf_batches s1" b, OF s1] by simp
  have same': "(change_fence h f s1)\<lparr>gf_batches := (gf_batches s1)(b \<mapsto> bt1)\<rparr> = change_fence h f s1" for h f
    by (subst batches_commute [symmetric]) (simp only: same)
  show ?thesis
  proof (cases oper)
    case GfAdd
    then show ?thesis using s1 bt1 bt it opt info by (simp add: item_done_def item_effect_def set_err_def s2_def item_outcome_def Let_def)
  next
    case GfRemove
    then show ?thesis using s1 bt1 bt it by (simp add: item_done_def item_effect_def set_err_def s2_def item_outcome_def Let_def)
  next
    case GfPause
    then show ?thesis using s1 bt1 bt it by (simp add: item_done_def item_effect_def set_err_def s2_def item_outcome_def Let_def pauseGeofenceItem_def)
  next
    case GfResume
    then show ?thesis using s1 bt1 bt it same same' [of hw0 "paused_update (\<lambda>_. False)"]
      by (simp add: item_done_def item_effect_def set_err_def s2_def item_outcome_def Let_def resumeGeofenceItem_def)
  next
    case GfModify
    then show ?thesis using s1 bt1 bt it same opt
        same' [of hw0 "\<lambda>ob. ob\<lparr>breachMask := breachTypeMask opt, go_responsiveness := fo_responsiveness opt, go_dwellTime := fo_dwellTime opt\<rparr>"]
      by (simp add: item_done_def item_effect_def set_err_def s2_def item_outcome_def Let_def modifyGeofenceItem_def)
  qed
qed

text \<open>A request is made on the turn of any other item.\<close>

lemma known_call:
  assumes ok: "fences_ok s" and s: "gf_waiting s = []" "gf_call_queue s = (b, i) # q"
    and bt: "gf_batches s b = Some bt" "gb_op bt = oper" "gb_client bt = c" "gb_ids bt ! i = sid"
    and known: "oper \<noteq> GfAdd \<Longrightarrow> gf_abs s (GeofenceKey c sid) = Some (hw0, ob)" and add: "oper = GfAdd \<Longrightarrow> hw0 = 0"
  defines "bt1 \<equiv> if oper = GfAdd then bt else bt\<lparr>gb_errs := (gb_errs bt)[i := Some LOCATION_ERROR_SUCCESS]\<rparr>"
  shows "\<exists>s1. gf_step GfCall s = Some s1 \<and> gf_waiting s1 = [ItemDone b i hw0] \<and> gf_call_queue s1 = q \<and> gf_batches s1 b = Some bt1
    \<and> gf_maps s1 = gf_maps s \<and> gf_clients s1 = gf_clients s \<and> gf_responses s1 = gf_responses s"
proof (cases "oper = GfAdd")
  case True
  then show ?thesis using s bt add by (simp add: gf_call_def gf_request_def gf_maps_def bt1_def Let_def)
next
  case False
  have "map_of (mGeofenceIds s) (GeofenceKey c sid) = Some hw0" using abs_hw [OF known [OF False]] by simp
  then have "getHwIdFromClient c sid (s\<lparr>gf_call_queue := q\<rparr>) = (LOCATION_ERROR_SUCCESS, hw0)" by (simp add: getHwIdFromClient_def)
  then show ?thesis using False s bt by (simp add: gf_call_def gf_request_def gf_maps_def set_err_def bt1_def Let_def)
qed

lemma known_turn:
  assumes ok: "fences_ok s" and s: "gf_waiting s = []" "gf_call_queue s = (b, i) # q"
    and bt: "gf_batches s b = Some bt" "gb_op bt = oper" "gb_client bt = c" "gb_ids bt ! i = sid"
    and it: "it = (sid, opt, info, err, hw)" and free: "fresh_items oper c [it] (gf_abs s)"
    and opt: "oper = GfAdd \<or> oper = GfModify \<Longrightarrow> the (gb_options bt) ! i = opt" and info: "oper = GfAdd \<Longrightarrow> the (gb_infos bt) ! i = info"
    and known: "oper \<noteq> GfAdd \<Longrightarrow> gf_abs s (GeofenceKey c sid) = Some (hw0, ob)" and add: "oper = GfAdd \<Longrightarrow> hw0 = 0"
  shows "\<exists>s'. gf_run [GfCall, GfAnswer 0 err hw] s = Some s' \<and> item_over oper c it bt b i q s s'"
proof -
  obtain s1 where call: "gf_step GfCall s = Some s1" and w: "gf_waiting s1 = [ItemDone b i hw0]" "gf_call_queue s1 = q"
    and b1: "gf_batches s1 b = Some (if oper = GfAdd then bt else bt\<lparr>gb_errs := (gb_errs bt)[i := Some LOCATION_ERROR_SUCCESS]\<rparr>)"
    and m: "gf_maps s1 = gf_maps s" and fr: "gf_clients s1 = gf_clients s" "gf_responses s1 = gf_responses s"
    using known_call [OF ok s bt known add] by auto
  let ?s1 = "s1\<lparr>gf_waiting := []\<rparr>" let ?e = "(gb_errs bt)[i := Some (item_outcome oper err)]"
  define s2 where "s2 = (item_effect oper c hw0 it ?s1)\<lparr>gf_batches := (gf_batches ?s1)(b \<mapsto> bt\<lparr>gb_errs := ?e\<rparr>)\<rparr>"
  have step: "gf_run [GfCall, GfAnswer 0 err hw] s = item_done b i hw0 err hw ?s1"
    by (cases "item_done b i hw0 err hw ?s1") (use call w in simp_all)
  have m1: "gf_abs ?s1 = gf_abs s" "fences_ok ?s1" using abs_cong [OF m] ok_cong [OF m] ok by simp_all
  have eff: "fences_ok s2" "gf_abs s2 = snd (spec_item oper c it (gf_abs s))"
    using effect_abs [of ?s1 it sid opt info err hw oper c hw0 ob] m1 it free known by (simp_all add: s2_def)
  have dn: "item_done b i hw0 err hw ?s1 = (if oper = GfResume \<and> err \<noteq> LOCATION_ERROR_SUCCESS then Some s2 else finish_item b i s2)"
    unfolding s2_def by (rule item_done_eq [OF _ it refl bt(2-4) opt info]) (simp add: b1)
  have out: "fst (spec_item oper c it (gf_abs s)) = item_outcome oper err"
    and stuck: "stuck_item oper c it (gf_abs s) \<longleftrightarrow> oper = GfResume \<and> err \<noteq> LOCATION_ERROR_SUCCESS"
    using known it by (cases oper; simp add: spec_item_def stuck_item_def item_outcome_def Let_def)+
  have s2: "gf_batches s2 b = Some (bt\<lparr>gb_errs := ?e\<rparr>)" "gf_clients s2 = gf_clients s" "gf_responses s2 = gf_responses s"
    "gf_waiting s2 = []" "gf_call_queue s2 = q" using fr w by (simp_all add: s2_def)
  show ?thesis
  proof (cases "stuck_item oper c it (gf_abs s)")
    case True
    then show ?thesis using step dn stuck out eff s2 by (auto simp: item_over_def turn_ends_def)
  next
    case False
    obtain s' where s': "finish_item b i s2 = Some s'" "turn_ends (bt\<lparr>gb_errs := ?e\<rparr>) b i False s s'" "gf_maps s' = gf_maps s2"
      "gf_waiting s' = []" "gf_call_queue s' = q" using finish_ends [OF s2(1-3), of i] s2 by auto
    have "fences_ok s'" "gf_abs s' = gf_abs s2" using ok_cong [OF s'(3)] abs_cong [OF s'(3)] eff by simp_all
    then show ?thesis using step dn stuck out eff s' False by (auto simp: item_over_def)
  qed
qed

lemma item_turn:
  assumes ok: "fences_ok s" and s: "gf_waiting s = []" "gf_call_queue s = (b, i) # q"
    and bt: "gf_batches s b = Some bt" "bt = (batch_of oper c its)\<lparr>gb_errs := es\<rparr>" and i: "i < length its"
    and it: "its ! i = (sid, opt, info, err, hw)" and free: "fresh_items oper c [its ! i] (gf_abs s)"
  shows "\<exists>s'. gf_run [GfCall, GfAnswer 0 err hw] s = Some s' \<and> item_over oper c (its ! i) bt b i q s s'"
proof -
  have f: "gb_op bt = oper" "gb_client bt = c" "gb_ids bt ! i = sid" using bt(2) i it by (simp_all add: batch_of_def)
  have o: "oper = GfAdd \<or> oper = GfModify \<Longrightarrow> the (gb_options bt) ! i = opt" "oper = GfAdd \<Longrightarrow> the (gb_infos bt) ! i = info"
    using bt(2) i it by (auto simp: batch_of_def)
  show ?thesis
  proof (cases "oper \<noteq> GfAdd \<and> gf_abs s (GeofenceKey c sid) = None")
    case True
    then show ?thesis using unknown_turn [OF ok s bt(1) f it] by simp
  next
    case False
    show ?thesis
    proof (cases "gf_abs s (GeofenceKey c sid)")
      case None
      then show ?thesis using known_turn [OF ok s bt(1) f it free o, of 0] False by simp
    next
      case (Some p)
      then show ?thesis
        using known_turn [OF ok s bt(1) f it free o, of "if oper = GfAdd then 0 else fst p" "snd p"] by simp
    qed
  qed
qed

section \<open>A batch\<close>

lemma run_append: "gf_run (xs @ ys) s = (case gf_run xs s of None \<Rightarrow> None | Some s1 \<Rightarrow> gf_run ys s1)"
  by (induction xs arbitrary: s) (auto split: bind_split)

lemma fresh_Cons: "fresh_items oper c (it # its) m \<longleftrightarrow> fresh_items oper c [it] m \<and> fresh_items oper c its (snd (spec_item oper c it m))"
  by (cases it) simp

lemma unanswered_Cons: "its \<noteq> [] \<Longrightarrow> unanswered oper c (it # its) m \<longleftrightarrow> unanswered oper c its (snd (spec_item oper c it m))"
  by (cases its) simp_all

lemma unanswered_single: "unanswered oper c [it] m \<longleftrightarrow> stuck_item oper c it m"
  by (cases it) (simp add: stuck_item_def)

lemma turns_Cons: "turns ((sid, opt, info, err, hw) # its) = [GfCall, GfAnswer 0 err hw] @ turns its"
  by (simp add: turns_def)

lemma write_next: "(map Some rs @ replicate (Suc n) None)[length rs := Some r] = map Some (rs @ [r]) @ replicate n None"
  by (simp add: list_update_append)

definition batch_over :: "gf_op \<Rightarrow> nat \<Rightarrow> gf_item list \<Rightarrow> LocationError list \<Rightarrow> gf_item list \<Rightarrow> GeofenceAdapter \<Rightarrow> GeofenceAdapter \<Rightarrow> bool" where
  "batch_over oper c all rs its s s' \<longleftrightarrow> fences_ok s' \<and> gf_abs s' = snd (spec_items oper c its (gf_abs s))
     \<and> gf_waiting s' = [] \<and> gf_call_queue s' = []
     \<and> gf_responses s' = gf_responses s @ (if unanswered oper c its (gf_abs s) then []
         else [(c, map Some (rs @ fst (spec_items oper c its (gf_abs s))), map fst all,
           case map_of (gf_clients s) c of None \<Rightarrow> False | Some cb \<Rightarrow> collectiveResponseCb cb)])"

lemma items_run:
  assumes "its \<noteq> []" "fences_ok s" "gf_waiting s = []" "all = pre @ its" "length rs = length pre"
    "gf_call_queue s = map (Pair b) [length pre..<length all]" "fresh_items oper c its (gf_abs s)"
    "gf_batches s b = Some ((batch_of oper c all)\<lparr>gb_errs := map Some rs @ replicate (length its) None\<rparr>)"
  shows "\<exists>s'. gf_run (turns its) s = Some s' \<and> batch_over oper c all rs its s s'"
  using assms
proof (induction its arbitrary: s pre rs rule: list_nonempty_induct)
  case (single it)
  obtain sid opt info err hw where it: "it = (sid, opt, info, err, hw)" by (cases it)
  let ?bt = "(batch_of oper c all)\<lparr>gb_errs := map Some rs @ replicate (length [it]) None\<rparr>"
  have here: "all ! length pre = it" "length pre < length all" "Suc (length pre) = length all" using single.prems by simp_all
  have q: "gf_call_queue s = (b, length pre) # []" unfolding single.prems(5) upt_conv_Cons [OF here(2)] here(3) by simp
  have "fresh_items oper c [all ! length pre] (gf_abs s)" "all ! length pre = (sid, opt, info, err, hw)"
    using single.prems(6) here(1) it by metis+
  from item_turn [OF single.prems(1,2) q single.prems(7) refl here(2) this(2) this(1)]
  obtain s' where run: "gf_run [GfCall, GfAnswer 0 err hw] s = Some s'" and over: "item_over oper c it ?bt b (length pre) [] s s'"
    unfolding here by blast
  let ?r = "fst (spec_item oper c it (gf_abs s))"
  have bt': "?bt\<lparr>gb_errs := (gb_errs ?bt)[length pre := Some ?r]\<rparr> = (batch_of oper c all)\<lparr>gb_errs := map Some (rs @ [?r])\<rparr>"
    using write_next [of rs 0 ?r] single.prems(4) by simp
  have "gf_run (turns [it]) s = Some s'" using run it by (simp add: turns_def)
  moreover have "batch_over oper c all rs [it] s s'"
    using over unfolding item_over_def bt' turn_ends_def batch_over_def unanswered_single
    by (simp add: here answer_of_def batch_of_def Let_def split: prod.split)
  ultimately show ?case by blast
next
  case (cons it its)
  obtain sid opt info err hw where it: "it = (sid, opt, info, err, hw)" by (cases it)
  let ?bt = "(batch_of oper c all)\<lparr>gb_errs := map Some rs @ replicate (length (it # its)) None\<rparr>"
  let ?q = "map (Pair b) [length (pre @ [it])..<length all]"
  let ?r = "fst (spec_item oper c it (gf_abs s))"
  have here: "all ! length pre = it" "length pre < length all" "Suc (length pre) < length all" using cons.prems cons.hyps by auto
  have q: "gf_call_queue s = (b, length pre) # ?q" unfolding cons.prems(5) upt_conv_Cons [OF here(2)] by simp
  have free: "fresh_items oper c [all ! length pre] (gf_abs s)" "fresh_items oper c its (snd (spec_item oper c it (gf_abs s)))"
    and "all ! length pre = (sid, opt, info, err, hw)"
    using cons.prems(6) here it fresh_Cons by metis+
  from item_turn [OF cons.prems(1,2) q cons.prems(7) refl here(2) this(3) free(1)]
  obtain s1 where run: "gf_run [GfCall, GfAnswer 0 err hw] s = Some s1" and over: "item_over oper c it ?bt b (length pre) ?q s s1"
    unfolding here by blast
  have s1: "fences_ok s1" "gf_abs s1 = snd (spec_item oper c it (gf_abs s))" "gf_waiting s1 = []" "gf_call_queue s1 = ?q"
    "gf_clients s1 = gf_clients s" "gf_responses s1 = gf_responses s"
    "gf_batches s1 b = Some ((batch_of oper c all)\<lparr>gb_errs := map Some (rs @ [?r]) @ replicate (length its) None\<rparr>)"
    using over here(3) cons.prems(4) write_next [of rs "length its" ?r] by (simp_all add: item_over_def turn_ends_def batch_of_def)
  obtain s' where run': "gf_run (turns its) s1 = Some s'" and over': "batch_over oper c all (rs @ [?r]) its s1 s'"
    using cons.IH [of s1 "pre @ [it]" "rs @ [?r]"] s1 free(2) cons.prems(3,4) by auto
  have "gf_run (turns (it # its)) s = Some s'" using run run' unfolding it turns_Cons run_append by simp
  moreover have "batch_over oper c all rs (it # its) s s'" using over' s1 cons.hyps
    by (simp add: batch_over_def unanswered_Cons Let_def split: prod.split)
  ultimately show ?case by blast
qed

text \<open>
  C21: a batch of geofence commands that finds the adapter idle, and whose items take their turns with
  the modem one after the other, changes the fences of the clients as the specification of its
  items says, in their order, and gives the client one response with the result of every item:
  unless the batch resumes fences and its last item fails, when the client gets none.
\<close>

theorem geofence_batch_refines:
  assumes "fences_ok s" "gf_waiting s = []" "gf_call_queue s = []" "its \<noteq> []" "fresh_items oper c its (gf_abs s)"
  shows "\<exists>s'. gf_run (turns its) (proc_batch oper c (map fst its)
        (gb_options (batch_of oper c its)) (gb_infos (batch_of oper c its)) s) = Some s'
    \<and> fences_ok s' \<and> gf_abs s' = snd (spec_items oper c its (gf_abs s)) \<and> gf_waiting s' = [] \<and> gf_call_queue s' = []
    \<and> gf_responses s' = gf_responses s @ (if unanswered oper c its (gf_abs s) then []
        else [(c, map Some (fst (spec_items oper c its (gf_abs s))), map fst its,
          case map_of (gf_clients s) c of None \<Rightarrow> False | Some cb \<Rightarrow> collectiveResponseCb cb)])"
proof -
  let ?s = "proc_batch oper c (map fst its) (gb_options (batch_of oper c its)) (gb_infos (batch_of oper c its)) s"
  have "gf_abs ?s = gf_abs s" "fences_ok ?s" using assms(1) by (auto simp: proc_batch_def Let_def intro: abs_cong)
  moreover have "gf_waiting ?s = []" "gf_call_queue ?s = map (Pair (gf_next s)) [length []..<length its]"
    "gf_clients ?s = gf_clients s" "gf_responses ?s = gf_responses s"
    "gf_batches ?s (gf_next s) = Some ((batch_of oper c its)\<lparr>gb_errs := map Some [] @ replicate (length its) None\<rparr>)"
    using assms(2,3) by (simp_all add: proc_batch_def batch_of_def Let_def)
  ultimately obtain s' where run: "gf_run (turns its) ?s = Some s'" and over: "batch_over oper c its [] its ?s s'"
    and eqs: "gf_abs ?s = gf_abs s" "gf_clients ?s = gf_clients s" "gf_responses ?s = gf_responses s"
    using assms(4,5) items_run [of its ?s its "[]" "[]" "gf_next s" oper c] by auto
  show ?thesis using over run unfolding batch_over_def eqs append_Nil by blast
qed

definition some_option :: GeofenceOption where
  "some_option = \<lparr>breachTypeMask = 3, fo_responsiveness = 5, fo_dwellTime = 0\<rparr>"

definition some_info :: GeofenceInfo where
  "some_info = \<lparr>fi_latitude = 1, fi_longitude = 2, fi_radius = 3\<rparr>"

definition some_adapter :: GeofenceAdapter where
  "some_adapter = new_GeofenceAdapter\<lparr>gf_clients := [(1, \<lparr>collectiveResponseCb = True, geofenceBreachCb = True, geofenceStatusCb = True\<rparr>)]\<rparr>"

definition some_items :: "gf_item list" where
  "some_items = [(1, some_option, some_info, LOCATION_ERROR_SUCCESS, 70), (2, some_option, some_info, LOCATION_ERROR_GEOFENCES_AT_MAX, 0),
     (3, some_option, some_info, LOCATION_ERROR_SUCCESS, 71)]"

lemma some_ok: "fences_ok some_adapter" "gf_waiting some_adapter = []" "gf_call_queue some_adapter = []" "some_items \<noteq> []"
  and some_fresh: "fresh_items GfAdd 1 some_items (gf_abs some_adapter)"
proof -
  have e: "gf_abs some_adapter = Map.empty" by (rule ext) (simp add: gf_abs_def some_adapter_def new_GeofenceAdapter_def)
  show "fresh_items GfAdd 1 some_items (gf_abs some_adapter)"
    unfolding e by (simp add: some_items_def spec_item_def hw_free_def Let_def)
qed (simp_all add: fences_ok_def some_adapter_def new_GeofenceAdapter_def some_items_def)

theorem geofence_batch_refines_witness:
  "\<exists>s'. gf_run (turns some_items) (proc_batch GfAdd 1 (map fst some_items) (Some (map (fst o snd) some_items))
      (Some (map (fst o snd o snd) some_items)) some_adapter) = Some s'
    \<and> gf_responses s' = [(1, [Some LOCATION_ERROR_SUCCESS, Some LOCATION_ERROR_GEOFENCES_AT_MAX, Some LOCATION_ERROR_SUCCESS], [1, 2, 3], True)]
    \<and> gf_abs s' (GeofenceKey 1 3) = Some (71, new_fence (GeofenceKey 1 3) some_option some_info)"
proof -
  have "gf_responses some_adapter = []" by (simp add: some_adapter_def new_GeofenceAdapter_def)
  then show ?thesis using geofence_batch_refines [OF some_ok some_fresh]
    by (auto simp: some_items_def batch_of_def spec_item_def Let_def some_adapter_def split: if_splits prod.splits)
qed

section \<open>Restarts\<close>

definition fence_option :: "GeofenceObject \<Rightarrow> GeofenceOption" where
  "fence_option ob = \<lparr>breachTypeMask = breachMask ob, fo_responsiveness = go_responsiveness ob, fo_dwellTime = go_dwellTime ob\<rparr>"

definition fence_info :: "GeofenceObject \<Rightarrow> GeofenceInfo" where
  "fence_info ob = \<lparr>fi_latitude = go_latitude ob, fi_longitude = go_longitude ob, fi_radius = go_radius ob\<rparr>"

lemma restart_fences_eq: "restart_fences m s = s\<lparr>
    gf_requests := gf_requests s @ map (\<lambda>(hw, ob). AddGeofence (gk_id (go_key ob)) (fence_option ob) (fence_info ob)) m,
    gf_waiting := gf_waiting s @ map (\<lambda>(hw, ob). GfRestarted ob (fence_option ob) (fence_info ob)) m\<rparr>"
  by (induction m s rule: restart_fences.induct) (simp_all add: gf_request_def fence_option_def fence_info_def Let_def)

definition pauses_of :: "(GeofenceObject \<times> u32) list \<Rightarrow> gf_request list" where
  "pauses_of xs = map (\<lambda>(ob, hw). PauseGeofence hw (gk_id (go_key ob))) (filter (paused o fst) xs)"

lemma restart_answers:
  assumes "gf_waiting s = map (\<lambda>(ob, hw). GfRestarted ob (fence_option ob) (fence_info ob)) xs" "fences_ok s"
    "distinct (map (go_key o fst) xs)" "distinct (map snd xs)"
    "\<forall>(ob, hw) \<in> set xs. \<forall>key' ob'. gf_abs s key' = Some (hw, ob') \<longrightarrow> False"
  shows "\<exists>s'. gf_run (map (\<lambda>(ob, hw). GfAnswer 0 LOCATION_ERROR_SUCCESS hw) xs) s = Some s' \<and> fences_ok s' \<and> gf_waiting s' = []
    \<and> gf_requests s' = gf_requests s @ pauses_of xs
    \<and> (\<forall>(ob, hw) \<in> set xs. gf_abs s' (go_key ob) = Some (hw, ob\<lparr>paused := False\<rparr>))
    \<and> (\<forall>key. key \<notin> (go_key o fst) ` set xs \<longrightarrow> gf_abs s' key = gf_abs s key)"
  using assms
proof (induction xs arbitrary: s)
  case (Cons x xs)
  obtain ob hw where x: "x = (ob, hw)" by (cases x)
  let ?s0 = "s\<lparr>gf_waiting := map (\<lambda>(ob, hw). GfRestarted ob (fence_option ob) (fence_info ob)) xs\<rparr>"
  let ?s1 = "if paused ob then gf_request (PauseGeofence hw (gk_id (go_key ob))) None ?s0 else ?s0"
  let ?s2 = "saveGeofenceItem (gk_client (go_key ob)) (gk_id (go_key ob)) hw (fence_option ob) (fence_info ob) ?s1"
  have k: "GeofenceKey (gk_client (go_key ob)) (gk_id (go_key ob)) = go_key ob" by simp
  have nf: "new_fence (go_key ob) (fence_option ob) (fence_info ob) = ob\<lparr>paused := False\<rparr>"
    by (cases ob) (simp add: new_fence_def fence_option_def fence_info_def)
  have s1: "fences_ok ?s1" "gf_abs ?s1 = gf_abs s" using Cons.prems(2) by simp_all
  have free: "hw_free (gf_abs ?s1) (go_key ob) hw" using Cons.prems(5) x s1 by (auto simp: hw_free_def)
  have s2: "fences_ok ?s2" "gf_abs ?s2 = (gf_abs s)(go_key ob \<mapsto> (hw, ob\<lparr>paused := False\<rparr>))"
    using save_abs [OF s1(1), of "gk_client (go_key ob)" "gk_id (go_key ob)" hw "fence_option ob" "fence_info ob", unfolded k nf, OF free]
    unfolding s1(2) by blast+
  have step: "gf_step (GfAnswer 0 LOCATION_ERROR_SUCCESS hw) s = Some ?s2" using Cons.prems(1) x by simp
  have w: "gf_waiting ?s2 = map (\<lambda>(ob, hw). GfRestarted ob (fence_option ob) (fence_info ob)) xs"
    "gf_requests ?s2 = gf_requests s @ pauses_of [x]" using x by (simp_all add: gf_request_def pauses_of_def saveGeofenceItem_def Let_def)
  have "\<forall>(ob', hw') \<in> set xs. \<forall>key' ob''. gf_abs ?s2 key' = Some (hw', ob'') \<longrightarrow> False"
    using Cons.prems(4,5) x unfolding s2(2) by (force split: if_splits)
  then obtain s' where run: "gf_run (map (\<lambda>(ob, hw). GfAnswer 0 LOCATION_ERROR_SUCCESS hw) xs) ?s2 = Some s'"
    and ih: "fences_ok s'" "gf_waiting s' = []" "gf_requests s' = gf_requests ?s2 @ pauses_of xs"
      "\<forall>(ob, hw) \<in> set xs. gf_abs s' (go_key ob) = Some (hw, ob\<lparr>paused := False\<rparr>)"
      "\<forall>key. key \<notin> (go_key o fst) ` set xs \<longrightarrow> gf_abs s' key = gf_abs ?s2 key"
    using Cons.IH [OF w(1) s2(1)] Cons.prems(3,4) by auto
  have "gf_run (map (\<lambda>(ob, hw). GfAnswer 0 LOCATION_ERROR_SUCCESS hw) (x # xs)) s = Some s'"
    using run step x by (simp del: gf_step.simps)
  moreover have "gf_abs s' (go_key ob) = Some (hw, ob\<lparr>paused := False\<rparr>)" using ih(5) Cons.prems(3) x s2(2) by auto
  moreover have "gf_requests s' = gf_requests s @ pauses_of (x # xs)" using ih(3) w(2) by (simp add: pauses_of_def)
  ultimately show ?case using ih x s2(2) by auto
qed (simp add: pauses_of_def)

lemma zip_objects: "length hws = length m \<Longrightarrow> map (\<lambda>(ob, hw). g ob) (zip (map snd m) hws) = map (\<lambda>(hw, ob). g ob) m"
  by (induction hws m rule: list_induct2) auto

definition restart_requests :: "(u32 \<times> GeofenceObject) list \<Rightarrow> u32 list \<Rightarrow> gf_request list" where
  "restart_requests m hws = map (\<lambda>(hw, ob). AddGeofence (gk_id (go_key ob)) (fence_option ob) (fence_info ob)) m
     @ pauses_of (zip (map snd m) hws)"

text \<open>
  C36: after a restart of the modem, every fence of the clients is requested again with its options
  and its place; when the modem has accepted all, each is known under its key with the new hardware
  id, and the paused ones are paused in the modem again: but they are recorded as not paused, so
  the restart after that one leaves them running.
\<close>

theorem restart_restores_fences:
  assumes ok: "fences_ok s" and w: "gf_waiting s = []" and keys: "distinct (map (go_key o snd) (mGeofences s))"
    and hws: "length hws = length (mGeofences s)" "distinct hws"
  shows "\<exists>s'. gf_run (GfEngineUp # map (GfAnswer 0 LOCATION_ERROR_SUCCESS) hws) s = Some s'
    \<and> gf_requests s' = gf_requests s @ restart_requests (mGeofences s) hws
    \<and> (\<forall>j < length hws. let ob = snd (mGeofences s ! j) in gf_abs s' (go_key ob) = Some (hws ! j, ob\<lparr>paused := False\<rparr>))
    \<and> (\<forall>key. key \<notin> (go_key o snd) ` set (mGeofences s) \<longrightarrow> gf_abs s' key = None)"
proof -
  let ?xs = "zip (map snd (mGeofences s)) hws" let ?s = "restartGeofences s"
  have run: "map (\<lambda>(ob, hw). GfAnswer 0 LOCATION_ERROR_SUCCESS hw) ?xs = map (GfAnswer 0 LOCATION_ERROR_SUCCESS) hws"
    using hws(1) by (simp add: list_eq_iff_nth_eq)
  have "mGeofenceIds s = []" if "mGeofences s = []"
  proof -
    have "map_of (mGeofenceIds s) key = None" for key using ok that by (cases "map_of (mGeofenceIds s) key") (auto simp: fences_ok_def)
    then have "map_of (mGeofenceIds s) = Map.empty" by blast
    then show ?thesis by simp
  qed
  then have maps: "mGeofences ?s = []" "mGeofenceIds ?s = []" by (simp_all add: restartGeofences_def restart_fences_eq)
  then have empty: "gf_abs ?s = Map.empty" "fences_ok ?s" by (auto simp: gf_abs_def fences_ok_def)
  have req: "gf_waiting ?s = map (\<lambda>(ob, hw). GfRestarted ob (fence_option ob) (fence_info ob)) ?xs"
    "gf_requests ?s = gf_requests s @ map (\<lambda>(hw, ob). AddGeofence (gk_id (go_key ob)) (fence_option ob) (fence_info ob)) (mGeofences s)"
    using w zip_objects [OF hws(1), of "\<lambda>ob. GfRestarted ob (fence_option ob) (fence_info ob)"] by (simp_all add: restartGeofences_def restart_fences_eq)
  have d: "distinct (map (go_key o fst) ?xs)" "distinct (map snd ?xs)" 
  proof -
    have "map (go_key o fst) ?xs = map go_key (map fst ?xs)" by (rule map_map [symmetric])
    then show "distinct (map (go_key o fst) ?xs)" "distinct (map snd ?xs)" using keys hws by simp_all
  qed
  obtain s' where s': "gf_run (map (GfAnswer 0 LOCATION_ERROR_SUCCESS) hws) ?s = Some s'"
      "gf_requests s' = gf_requests ?s @ pauses_of ?xs" "\<forall>(ob, hw) \<in> set ?xs. gf_abs s' (go_key ob) = Some (hw, ob\<lparr>paused := False\<rparr>)"
      "\<forall>key. key \<notin> (go_key o fst) ` set ?xs \<longrightarrow> gf_abs s' key = gf_abs ?s key"
    using restart_answers [OF req(1) empty(2) d] empty(1) unfolding run by auto
  have "gf_run (GfEngineUp # map (GfAnswer 0 LOCATION_ERROR_SUCCESS) hws) s = Some s'" using s'(1) by simp
  moreover have "(map snd (mGeofences s) ! j, hws ! j) \<in> set ?xs" if "j < length hws" for j
    using that hws(1) by (auto simp: set_zip intro!: exI [of _ j])
  then have "let ob = snd (mGeofences s ! j) in gf_abs s' (go_key ob) = Some (hws ! j, ob\<lparr>paused := False\<rparr>)" if "j < length hws" for j
    using s'(3) that hws(1) by fastforce
  moreover have "(go_key o fst) ` set ?xs \<subseteq> (go_key o snd) ` set (mGeofences s)" by (force dest: set_zip_leftD)
  then have "gf_abs s' key = None" if "key \<notin> (go_key o snd) ` set (mGeofences s)" for key
    using s'(4) that unfolding empty(1) by blast
  ultimately show ?thesis using s'(2) req(2) by (auto simp: restart_requests_def)
qed

definition some_fence :: "u32 \<Rightarrow> bool \<Rightarrow> GeofenceObject" where
  "some_fence sid p = (new_fence (GeofenceKey 1 sid) some_option some_info)\<lparr>paused := p\<rparr>"

definition fenced_adapter :: GeofenceAdapter where
  "fenced_adapter = some_adapter\<lparr>mGeofences := [(70, some_fence 1 True), (71, some_fence 2 False)],
     mGeofenceIds := [(GeofenceKey 1 1, 70), (GeofenceKey 1 2, 71)]\<rparr>"

lemma fenced_ok: "fences_ok fenced_adapter" "gf_waiting fenced_adapter = []" "distinct (map (go_key o snd) (mGeofences fenced_adapter))"
  "length [90, 91 :: u32] = length (mGeofences fenced_adapter)" "distinct [90, 91 :: u32]"
  by (auto simp: fences_ok_def fenced_adapter_def some_adapter_def new_GeofenceAdapter_def some_fence_def new_fence_def
      less_GeofenceKey_def geofence_key_less_def split: if_splits)

theorem restart_restores_fences_witness:
  "\<exists>s'. gf_run [GfEngineUp, GfAnswer 0 LOCATION_ERROR_SUCCESS 90, GfAnswer 0 LOCATION_ERROR_SUCCESS 91] fenced_adapter = Some s'
    \<and> gf_requests s' = [AddGeofence 1 some_option some_info, AddGeofence 2 some_option some_info, PauseGeofence 90 1]
    \<and> gf_abs s' (GeofenceKey 1 1) = Some (90, some_fence 1 False)"
proof -
  have "gf_requests fenced_adapter = []" "mGeofences fenced_adapter = [(70, some_fence 1 True), (71, some_fence 2 False)]"
    by (simp_all add: fenced_adapter_def some_adapter_def new_GeofenceAdapter_def)
  moreover have "fence_option (some_fence sid p) = some_option" "fence_info (some_fence sid p) = some_info"
    "go_key (some_fence sid p) = GeofenceKey 1 sid" "paused (some_fence sid p) = p" "(some_fence sid p)\<lparr>paused := False\<rparr> = some_fence sid False" for sid p
    by (simp_all add: fence_option_def fence_info_def some_fence_def new_fence_def)
  ultimately show ?thesis using restart_restores_fences [OF fenced_ok]
    by (auto simp: restart_requests_def pauses_of_def Let_def)
qed

end
