(* ===== verification/Geofence_Safe.thy ===== *)
theory Geofence_Safe
  imports Geofence_Props
begin

text \<open>
  The arrays of the batches. As long as the call queue of the modem library serves an item only
  after the one before it has been answered, no item finds its arrays freed; without this the
  answer of an item can come after the last item has freed them.
\<close>

section \<open>The items under way\<close>

fun item_of :: "gf_response \<Rightarrow> (nat \<times> nat) list" where
  "item_of (ItemDone b i hw) = [(b, i)]"
| "item_of _ = []"

definition waits :: "GeofenceAdapter \<Rightarrow> (nat \<times> nat) list" where
  "waits s = concat (map item_of (gf_waiting s))"

definition batch_size :: "GeofenceAdapter \<Rightarrow> nat \<Rightarrow> nat option" where
  "batch_size s b = map_option (length o gb_ids) (gf_batches s b)"

text \<open>Each item belongs to an allocated batch, and the items of a batch come in their order.\<close>

definition items_ok :: "(nat \<times> nat) list \<Rightarrow> GeofenceAdapter \<Rightarrow> bool" where
  "items_ok its s \<longleftrightarrow> (\<forall>(b, i) \<in> set its. (\<exists>n. batch_size s b = Some n \<and> i < n) \<and> b < gf_next s)
     \<and> sorted_wrt (\<lambda>(b, i) (b', i'). b = b' \<longrightarrow> i < i') its"

definition batches_ok :: "GeofenceAdapter \<Rightarrow> bool" where
  "batches_ok s \<longleftrightarrow> items_ok (waits s @ gf_call_queue s) s \<and> length (waits s) \<le> 1"

definition gf_frame :: "GeofenceAdapter \<Rightarrow> (nat \<Rightarrow> nat option) \<times> nat \<times> gf_response list \<times> (nat \<times> nat) list" where
  "gf_frame s = (batch_size s, gf_next s, gf_waiting s, gf_call_queue s)"

lemma waits_same: "gf_waiting s' = gf_waiting s \<Longrightarrow> waits s' = waits s"
  by (simp add: waits_def)

lemma waits_more: "gf_waiting s' = gf_waiting s @ [r] \<Longrightarrow> waits s' = waits s @ item_of r"
  by (simp add: waits_def)

lemma items_cong: "gf_frame s' = gf_frame s \<Longrightarrow> items_ok its s \<Longrightarrow> items_ok its s'"
  by (simp add: items_ok_def gf_frame_def)

lemma ok_frame: "gf_frame s' = gf_frame s \<Longrightarrow> batches_ok s \<Longrightarrow> batches_ok s'"
  by (simp add: batches_ok_def items_ok_def gf_frame_def waits_def)

lemma next_keeps [simp]:
  "gf_next (saveGeofenceItem c sid hw opt info s) = gf_next s" "gf_next (removeGeofenceItem hw s) = gf_next s" "gf_next (change_fence hw f s) = gf_next s"
  "gf_next (pauseGeofenceItem hw s) = gf_next s" "gf_next (resumeGeofenceItem hw s) = gf_next s" "gf_next (modifyGeofenceItem hw opt s) = gf_next s"
  by (simp_all add: saveGeofenceItem_def removeGeofenceItem_def change_fence_def pauseGeofenceItem_def resumeGeofenceItem_def
      modifyGeofenceItem_def Let_def split: option.split)

lemma frame_keeps [simp]:
  "gf_frame (saveGeofenceItem c sid hw opt info s) = gf_frame s" "gf_frame (removeGeofenceItem hw s) = gf_frame s"
  "gf_frame (pauseGeofenceItem hw s) = gf_frame s" "gf_frame (resumeGeofenceItem hw s) = gf_frame s" "gf_frame (modifyGeofenceItem hw opt s) = gf_frame s"
  by (simp_all add: gf_frame_def batch_size_def fun_eq_iff)

lemma set_err_frame: "batch_size s b = Some n \<Longrightarrow> \<exists>s'. set_err b i err s = Some s' \<and> gf_frame s' = gf_frame s"
  by (auto simp: set_err_def gf_frame_def batch_size_def fun_eq_iff)

lemma finish_ok:
  assumes "items_ok ((b, i) # q) s"
  shows "\<exists>s'. finish_item b i s = Some s' \<and> items_ok q s' \<and> gf_waiting s' = gf_waiting s \<and> gf_call_queue s' = gf_call_queue s"
proof -
  obtain bt where bt: "gf_batches s b = Some bt" "i < length (gb_ids bt)" using assms by (auto simp: items_ok_def batch_size_def)
  show ?thesis
  proof (cases "Suc i = length (gb_ids bt)")
    case True
    have "b' \<noteq> b" if "(b', i') \<in> set q" for b' i'
      using assms that bt True by (fastforce simp: items_ok_def batch_size_def)
    then have "items_ok q ((gf_reportResponse c es ids s)\<lparr>gf_batches := (gf_batches s)(b := None)\<rparr>)" for c es ids
      using assms by (fastforce simp: items_ok_def batch_size_def gf_reportResponse_def)
    then show ?thesis using bt True by (simp add: finish_item_def gf_reportResponse_def)
  next
    case False
    then show ?thesis using bt assms by (simp add: finish_item_def items_ok_def)
  qed
qed

lemma frame_finish:
  assumes "gf_frame s1 = gf_frame s" "items_ok ((b, i) # q) s"
  shows "\<exists>s'. finish_item b i s1 = Some s' \<and> items_ok q s' \<and> gf_waiting s' = gf_waiting s \<and> gf_call_queue s' = gf_call_queue s"
  using finish_ok [OF items_cong [OF assms]] assms(1) by (simp add: gf_frame_def)

lemma item_done_ok:
  assumes ok: "items_ok ((b, i) # q) s"
  shows "\<exists>s'. item_done b i hw err data s = Some s' \<and> items_ok q s' \<and> gf_waiting s' = gf_waiting s \<and> gf_call_queue s' = gf_call_queue s"
proof -
  obtain bt where bt: "gf_batches s b = Some bt" using ok by (auto simp: items_ok_def batch_size_def)
  have err: "\<exists>s'. set_err b i e s1 = Some s' \<and> gf_frame s' = gf_frame s" if "gf_frame s1 = gf_frame s" for e s1
  proof -
    have "batch_size s b = Some (length (gb_ids bt))" using bt by (simp add: batch_size_def)
    then have "batch_size s1 b = Some (length (gb_ids bt))" using that by (simp add: gf_frame_def)
    then show ?thesis using set_err_frame that by metis
  qed
  have both: "\<exists>s'. (set_err b i e s1 \<bind> finish_item b i) = Some s' \<and> items_ok q s' \<and> gf_waiting s' = gf_waiting s \<and> gf_call_queue s' = gf_call_queue s"
    if "gf_frame s1 = gf_frame s" for e s1
    using err [OF that, of e] frame_finish [OF _ ok] by auto
  obtain s2 where s2: "set_err b i err s = Some s2" "gf_frame s2 = gf_frame s" using err [OF refl] by blast
  have tail: "items_ok q s" using ok by (simp add: items_ok_def)
  show ?thesis
  proof (cases "gb_op bt")
    case GfAdd
    then show ?thesis using bt both [of "if err = LOCATION_ERROR_SUCCESS
        then saveGeofenceItem (gb_client bt) (gb_ids bt ! i) data (the (gb_options bt) ! i) (the (gb_infos bt) ! i) s else s" err]
      by (simp add: item_done_def)
  next
    case GfRemove
    then show ?thesis using bt both [of "if err = LOCATION_ERROR_SUCCESS then removeGeofenceItem hw s else s" err] by (simp add: item_done_def)
  next
    case GfPause
    then show ?thesis using bt both [of "if err = LOCATION_ERROR_SUCCESS then pauseGeofenceItem hw s else s" err] by (simp add: item_done_def)
  next
    case GfResume
    then show ?thesis using bt s2 tail frame_finish [of "resumeGeofenceItem hw s2" s, OF _ ok]
      by (cases "err = LOCATION_ERROR_SUCCESS") (simp_all add: item_done_def)
  next
    case GfModify
    then show ?thesis using bt s2 finish_ok [OF ok] frame_finish [of "modifyGeofenceItem hw (the (gb_options bt) ! i) s2" s, OF _ ok]
      by (cases "err = LOCATION_ERROR_SUCCESS") (simp_all add: item_done_def)
  qed
qed

lemma request_frame: "batch_size (gf_request rq r s) = batch_size s" "gf_next (gf_request rq r s) = gf_next s"
  "gf_call_queue (gf_request rq r s) = gf_call_queue s"
  "gf_waiting (gf_request rq r s) = gf_waiting s @ (case r of None \<Rightarrow> [] | Some x \<Rightarrow> [x])"
  by (simp_all add: gf_request_def batch_size_def fun_eq_iff)

lemma call_ok:
  assumes ok: "items_ok ((b, i) # q) s"
  shows "\<exists>s'. gf_call b i s = Some s' \<and> gf_call_queue s' = gf_call_queue s
    \<and> (gf_waiting s' = gf_waiting s \<and> items_ok q s' \<or> (\<exists>hw. gf_waiting s' = gf_waiting s @ [ItemDone b i hw] \<and> items_ok ((b, i) # q) s'))"
proof -
  obtain bt where bt: "gf_batches s b = Some bt" using ok by (auto simp: items_ok_def batch_size_def)
  have req: "items_ok ((b, i) # q) (gf_request rq r s1)" if "gf_frame s1 = gf_frame s" for rq r s1
    using items_cong [OF that ok] by (simp add: items_ok_def request_frame)
  obtain err hw where look: "getHwIdFromClient (gb_client bt) (gb_ids bt ! i) s = (err, hw)" by (cases "getHwIdFromClient (gb_client bt) (gb_ids bt ! i) s")
  obtain s1 where s1: "set_err b i err s = Some s1" "gf_frame s1 = gf_frame s"
    using set_err_frame [of s b "length (gb_ids bt)" i err] bt by (auto simp: batch_size_def)
  show ?thesis
  proof (cases "gb_op bt = GfAdd")
    case True
    then show ?thesis using bt req [OF refl] by (simp add: gf_call_def request_frame Let_def)
  next
    case False
    show ?thesis
    proof (cases "err = LOCATION_ERROR_SUCCESS")
      case True
      then show ?thesis using False bt look s1 req [OF s1(2)] by (simp add: gf_call_def request_frame Let_def gf_frame_def)
    next
      case bad: False
      then show ?thesis using False bt look s1(1) frame_finish [OF s1(2) ok] by (auto simp: gf_call_def Let_def)
    qed
  qed
qed

section \<open>Serial runs\<close>

text \<open>
  A run is serial if the turn of an item comes only while no item has a request under way, and the
  arrays of the clients have as many elements as they say.
\<close>

definition long_enough :: "nat \<Rightarrow> 'a list option \<Rightarrow> bool" where
  "long_enough n arr \<longleftrightarrow> (case arr of None \<Rightarrow> True | Some xs \<Rightarrow> n \<le> length xs)"

fun serial_event :: "gf_event \<Rightarrow> GeofenceAdapter \<Rightarrow> bool" where
  "serial_event GfCall s \<longleftrightarrow> waits s = []"
| "serial_event (GfAddCommand c n opts infos) s \<longleftrightarrow> long_enough n opts \<and> long_enough n infos"
| "serial_event (GfModifyCommand c ids opts) s \<longleftrightarrow> long_enough (length ids) opts"
| "serial_event _ s \<longleftrightarrow> True"

fun serial_run :: "gf_event list \<Rightarrow> GeofenceAdapter \<Rightarrow> bool" where
  "serial_run [] s \<longleftrightarrow> True"
| "serial_run (e # es) s \<longleftrightarrow> serial_event e s \<and> (case gf_step e s of None \<Rightarrow> True | Some s1 \<Rightarrow> serial_run es s1)"

lemma copy_there: "long_enough n arr \<Longrightarrow> \<exists>a. copy_array n arr = Some a"
  by (auto simp: long_enough_def copy_array_def split: option.splits)

lemma new_batch_ok:
  assumes "batches_ok s" shows "batches_ok (proc_batch oper c ids opts infos s)"
proof -
  let ?s = "proc_batch oper c ids opts infos s" let ?new = "map (\<lambda>i. (gf_next s, i)) [0..<length ids]"
  have keep: "waits ?s = waits s" "gf_next ?s = Suc (gf_next s)"
    "batch_size ?s = (batch_size s)(gf_next s \<mapsto> length ids)" by (auto simp: proc_batch_def waits_def batch_size_def Let_def)
  have old: "items_ok (waits s @ gf_call_queue s) s" and w: "length (waits s) \<le> 1" using assms by (simp_all add: batches_ok_def)
  have size: "batch_size ?s b = batch_size s b" if "b < gf_next s" for b using that keep(3) by simp
  have first: "items_ok (waits s @ gf_call_queue s) ?s" using old unfolding items_ok_def keep(2) by (fastforce simp: size)
  have last: "items_ok ?new ?s" unfolding items_ok_def keep by (simp add: sorted_wrt_map)
  have apart: "fst x < gf_next s \<and> fst y = gf_next s" if "x \<in> set (waits s @ gf_call_queue s)" "y \<in> set ?new" for x y
  proof -
    obtain b i where x: "x = (b, i)" by (cases x)
    then have "b < gf_next s" using that(1) old unfolding items_ok_def by blast
    then show ?thesis using that(2) x by auto
  qed
  have "items_ok ((waits s @ gf_call_queue s) @ ?new) ?s" unfolding items_ok_def sorted_wrt_append [of _ "waits s @ gf_call_queue s"]
  proof (intro conjI)
    show "\<forall>(b, i) \<in> set ((waits s @ gf_call_queue s) @ ?new). (\<exists>n. batch_size ?s b = Some n \<and> i < n) \<and> b < gf_next ?s"
      using first last unfolding items_ok_def set_append [of "waits s @ gf_call_queue s"] by blast
    show "\<forall>x \<in> set (waits s @ gf_call_queue s). \<forall>y \<in> set ?new. (case x of (b, i) \<Rightarrow> \<lambda>(b', i'). b = b' \<longrightarrow> i < i') y"
      using apart by fastforce
  qed (use first last in \<open>unfold items_ok_def, blast+\<close>)
  moreover note first
  moreover have "gf_call_queue ?s = gf_call_queue s \<or> gf_call_queue ?s = gf_call_queue s @ ?new" by (auto simp: proc_batch_def Let_def)
  ultimately show ?thesis using w unfolding batches_ok_def keep by auto
qed

lemma take_waiting:
  assumes "j < length w"
  shows "concat (map item_of w) = concat (map item_of (take j w)) @ item_of (w ! j) @ concat (map item_of (drop (Suc j) w))"
  by (subst id_take_nth_drop [OF assms]) simp

lemma other_answer:
  assumes "item_of r = []" shows "\<exists>s'. gf_answer r err data s = Some s' \<and> batch_size s' = batch_size s \<and> gf_next s' = gf_next s
    \<and> waits s' = waits s \<and> gf_call_queue s' = gf_call_queue s"
proof (cases r)
  case (GfRestarted ob opt info)
  then show ?thesis using assms by (auto simp: saveGeofenceItem_def gf_request_def batch_size_def waits_def Let_def)
qed (use assms in \<open>auto simp: waits_def batch_size_def\<close>)

lemma only_one: "length (xs @ [a] @ ys) \<le> 1 \<Longrightarrow> xs @ [a] @ ys = [a]" "length (xs @ [a] @ ys) \<le> 1 \<Longrightarrow> xs @ ys = []"
  by simp_all

lemma answer_ok:
  assumes "batches_ok s" shows "\<exists>s'. gf_step (GfAnswer j err data) s = Some s' \<and> batches_ok s'"
proof (cases "j < length (gf_waiting s)")
  case True
  let ?s = "s\<lparr>gf_waiting := take j (gf_waiting s) @ drop (Suc j) (gf_waiting s)\<rparr>" let ?r = "gf_waiting s ! j"
  have sz: "batch_size ?s = batch_size s" "gf_next ?s = gf_next s" by (simp_all add: batch_size_def fun_eq_iff)
  have ok: "items_ok (waits s @ gf_call_queue s) ?s" and one: "length (waits s) \<le> 1"
    using assms sz by (simp_all add: batches_ok_def items_ok_def)
  have w: "waits s = concat (map item_of (take j (gf_waiting s))) @ item_of ?r @ concat (map item_of (drop (Suc j) (gf_waiting s)))"
    "waits ?s = concat (map item_of (take j (gf_waiting s))) @ concat (map item_of (drop (Suc j) (gf_waiting s)))"
    unfolding waits_def using take_waiting [OF True] by simp_all
  have step: "gf_step (GfAnswer j err data) s = gf_answer ?r err data ?s" using True by simp
  show ?thesis
  proof (cases "item_of ?r = []")
    case True
    then have "batches_ok ?s" using ok one w by (simp add: batches_ok_def)
    then show ?thesis unfolding step using other_answer [OF True, of err data ?s] by (auto simp: batches_ok_def items_ok_def)
  next
    case False
    then obtain b i hw where r: "?r = ItemDone b i hw" by (cases ?r) auto
    have l: "length (concat (map item_of (take j (gf_waiting s))) @ [(b, i)] @ concat (map item_of (drop (Suc j) (gf_waiting s)))) \<le> 1"
      using one unfolding w(1) r item_of.simps .
    have e: "waits s = [(b, i)]" "waits ?s = []" unfolding w r item_of.simps by (rule only_one [OF l])+
    then obtain s' where "item_done b i hw err data ?s = Some s'" "items_ok (gf_call_queue s) s'"
      "gf_waiting s' = gf_waiting ?s" "gf_call_queue s' = gf_call_queue s"
      using item_done_ok [of b i "gf_call_queue s" ?s hw err data] ok by auto
    then show ?thesis unfolding step r using e waits_same [of s' ?s] by (auto simp: batches_ok_def)
  qed
qed (use assms in auto)

lemma call_step:
  assumes ok: "batches_ok s" and idle: "waits s = []" shows "\<exists>s'. gf_step GfCall s = Some s' \<and> batches_ok s'"
proof (cases "gf_call_queue s")
  case (Cons p q)
  obtain b i where p: "p = (b, i)" by (cases p)
  let ?s = "s\<lparr>gf_call_queue := q\<rparr>"
  have "items_ok ((b, i) # q) ?s" using ok idle Cons p by (simp add: batches_ok_def items_ok_def batch_size_def)
  from call_ok [OF this] obtain s' where s': "gf_call b i ?s = Some s'" "gf_call_queue s' = q"
    "gf_waiting s' = gf_waiting s \<and> items_ok q s' \<or> (\<exists>hw. gf_waiting s' = gf_waiting s @ [ItemDone b i hw] \<and> items_ok ((b, i) # q) s')"
    by auto
  then have "batches_ok s'" using idle waits_same [of s' s] waits_more [of s' s "ItemDone b i _"] by (auto simp: batches_ok_def)
  then show ?thesis using s'(1) Cons p by simp
qed (use ok in simp)

lemma ok_change: "batches_ok s' = batches_ok s" if "waits s' = waits s" "gf_call_queue s' = gf_call_queue s"
    "gf_batches s' = gf_batches s" "gf_next s' = gf_next s"
  using that by (simp add: batches_ok_def items_ok_def batch_size_def)

definition gf_same :: "GeofenceAdapter \<Rightarrow> GeofenceAdapter \<Rightarrow> bool" where
  "gf_same s' s \<longleftrightarrow> waits s' = waits s \<and> gf_call_queue s' = gf_call_queue s \<and> gf_batches s' = gf_batches s \<and> gf_next s' = gf_next s"

lemma same_refl: "gf_same s s"
  by (simp add: gf_same_def)

lemma same_trans: "gf_same s' s1 \<Longrightarrow> gf_same s1 s \<Longrightarrow> gf_same s' s"
  by (simp add: gf_same_def)

lemma same_ok: "gf_same s' s \<Longrightarrow> batches_ok s \<Longrightarrow> batches_ok s'"
  unfolding gf_same_def by (metis ok_change)

lemma stop_same: "gf_same (stop_fences c m s) s"
proof (induction c m s rule: stop_fences.induct)
  case (2 c k hw m s)
  show ?case unfolding stop_fences.simps by (rule same_trans [OF 2]) (simp add: gf_same_def gf_request_def waits_def)
qed (simp add: same_refl)

lemma breach_same: "gf_same (breach_loop m hws s) s"
proof (induction m hws s rule: breach_loop.induct)
  case (2 c cb m hws s)
  show ?case unfolding breach_loop.simps by (rule same_trans [OF 2]) (simp add: gf_same_def waits_def)
qed (simp add: same_refl)

lemma status_same: "gf_same (status_loop m a s) s"
proof (induction m a s rule: status_loop.induct)
  case (2 c cb m a s)
  show ?case unfolding status_loop.simps by (rule same_trans [OF 2]) (simp add: gf_same_def waits_def)
qed (simp add: same_refl)

lemma no_items: "concat (map (\<lambda>x. item_of (case x of (hw, ob) \<Rightarrow> GfRestarted ob (f ob) (g ob))) m) = []"
  by auto

lemma step_ok:
  assumes ok: "batches_ok s" and ser: "serial_event e s"
  shows "\<exists>s'. gf_step e s = Some s' \<and> batches_ok s'"
proof (cases e)
  case (GfAddCommand c n opts infos)
  have "batches_ok (s\<lparr>gf_counter := k\<rparr>)" for k by (rule same_ok [OF _ ok]) (simp add: gf_same_def waits_def)
  moreover obtain o' i' where "copy_array n opts = Some o'" "copy_array n infos = Some i'"
    using ser GfAddCommand copy_there by (metis serial_event.simps(2))
  ultimately show ?thesis using GfAddCommand ok by (auto simp: addGeofencesCommand_def new_batch_ok split: prod.split)
next
  case (GfModifyCommand c ids opts)
  then obtain o' where "copy_array (length ids) opts = Some o'" using ser copy_there by (metis serial_event.simps(3))
  then show ?thesis using GfModifyCommand ok by (simp add: modifyGeofencesCommand_def new_batch_ok)
next
  case (GfRemoveClient c)
  have "gf_same (gf_stopClientSessions c s) s" unfolding gf_stopClientSessions_def by (rule stop_same)
  then have "gf_same ((gf_stopClientSessions c s)\<lparr>gf_clients := m\<rparr>) s" for m by (simp add: gf_same_def waits_def)
  then show ?thesis using GfRemoveClient same_ok [OF _ ok] by (simp add: Let_def)
next
  case GfEngineUp
  have "gf_same (restartGeofences s) s"
    by (simp add: restartGeofences_def restart_fences_eq gf_same_def waits_def no_items comp_def del: concat_eq_Nil_conv)
  then show ?thesis using GfEngineUp same_ok [OF _ ok] by simp
next
  case (GfBreach hws)
  have "gf_same (geofenceBreach hws s) s" using breach_same by (simp add: geofenceBreach_def same_refl)
  then show ?thesis using GfBreach same_ok [OF _ ok] by simp
next
  case (GfStatus a)
  then show ?thesis using same_ok [OF status_same ok] by (simp add: geofenceStatus_def)
next
  case (GfAddClient c cb)
  have "gf_same (s\<lparr>gf_clients := m\<rparr>) s" for m by (simp add: gf_same_def waits_def)
  then show ?thesis using GfAddClient same_ok [OF _ ok] by simp
next
  case GfCall
  then show ?thesis using call_step [OF ok] ser by (simp del: gf_step.simps)
next
  case (GfAnswer j err data)
  then show ?thesis using answer_ok [OF ok] by (simp del: gf_step.simps)
qed (use ok new_batch_ok in \<open>simp_all add: removeGeofencesCommand_def pauseGeofencesCommand_def resumeGeofencesCommand_def\<close>)

lemma serial_run_ok: "batches_ok s \<Longrightarrow> serial_run es s \<Longrightarrow> \<exists>s'. gf_run es s = Some s' \<and> batches_ok s'"
proof (induction es arbitrary: s)
  case (Cons e es)
  obtain s1 where "gf_step e s = Some s1" "batches_ok s1" using step_ok Cons.prems by fastforce
  then show ?case using Cons.IH Cons.prems(2) by (simp del: gf_step.simps)
qed simp

lemma start_ok: "batches_ok new_GeofenceAdapter"
  by (simp add: batches_ok_def items_ok_def waits_def new_GeofenceAdapter_def)

section \<open>Properties\<close>

text \<open>
  C26: in every serial run of the geofence adapter, whatever the clients, the modem and its restarts
  do, no item, call or answer touches the arrays of a batch that has been answered and freed.
\<close>

theorem geofence_serial_runs_safe: "serial_run es new_GeofenceAdapter \<Longrightarrow> gf_run es new_GeofenceAdapter \<noteq> None"
  using serial_run_ok [OF start_ok] by fastforce

definition gf_example :: "gf_event list" where
  "gf_example = [GfAddClient 1 \<lparr>collectiveResponseCb = True, geofenceBreachCb = True, geofenceStatusCb = True\<rparr>,
     GfAddCommand 1 1 (Some [some_option]) (Some [some_info]), GfCall, GfAnswer 0 LOCATION_ERROR_SUCCESS 70,
     GfPauseCommand 1 [2, 5], GfCall, GfEngineUp, GfAnswer 0 LOCATION_ERROR_SUCCESS 0, GfCall, GfAnswer 0 LOCATION_ERROR_SUCCESS 90]"

theorem geofence_serial_runs_safe_witness: "gf_run gf_example new_GeofenceAdapter \<noteq> None"
proof -
  have "serial_run gf_example new_GeofenceAdapter" by code_simp
  then show ?thesis by (rule geofence_serial_runs_safe)
qed

text \<open>
  Without the order of a serial run the arrays are freed too early: a client that pauses a fence
  it has and, as the last of the batch, one it does not have is answered and the arrays are freed
  when the turn of the last item comes, so that the answer to the first then writes to freed memory.
\<close>

lemma early_free_faults: "gf_run ([GfAddClient 1 \<lparr>collectiveResponseCb = True, geofenceBreachCb = True, geofenceStatusCb = True\<rparr>,
     GfAddCommand 1 1 (Some [some_option]) (Some [some_info]), GfCall, GfAnswer 0 LOCATION_ERROR_SUCCESS 70,
     GfPauseCommand 1 [2, 5], GfCall, GfCall] @ [GfAnswer 0 err hw]) new_GeofenceAdapter = None"
  by code_simp

end
