(* ===== verification/Utf_Shim.thy ===== *)
theory Utf_Shim
  imports Ipa_Prelude
begin

text \<open>
  The string conversions of \<open>libshims/libcutils_shim\<close>: Java's modified UTF-8 to UTF-16
  (\<open>strdup8to16.cpp\<close>) and back (\<open>strdup16to8.cpp\<close>).

  \<^item> A \<open>const char*\<close> that walks a string is the list of the bytes from there to the end of the
    buffer; reading at its end gives the terminating NUL (\<open>cur\<close>). Bytes are \<open>u8\<close>, UTF-16
    units \<open>u16\<close>, the code points \<open>u32\<close>, and \<open>size_t\<close> is \<open>64 word\<close>.
  \<^item> The destination pointer \<open>dest\<close> is the list of units or bytes written so far; the
    allocation is the parameter \<open>malloc_ok\<close> of the two functions that allocate.
  \<^item> \<open>strcpylen8to16\<close> need not return: it is a partial function whose value \<open>None\<close> is a loop
    that never ends.
\<close>

type_synonym size_t = "64 word"

section \<open>UTF-8 to UTF-16\<close>

definition UTF16_REPLACEMENT_CHAR :: u32 where "UTF16_REPLACEMENT_CHAR = 0xfffd"

definition UNICODE_UPPER_LIMIT :: u32 where "UNICODE_UPPER_LIMIT = 0x10fffd"

definition UTF8_SEQ_LENGTH :: "u8 \<Rightarrow> nat" where
  "UTF8_SEQ_LENGTH ch =
     unat (drop_bit (unat (drop_bit 3 ch AND 0x1e)) (0xe5000000 :: u32) AND 3) + 1"

definition UTF8_SHIFT_AND_MASK :: "u32 \<Rightarrow> u8 \<Rightarrow> u32" where
  "UTF8_SHIFT_AND_MASK unicode byte = push_bit 6 unicode OR (0x3f AND ucast byte)"

definition leaderMask :: "nat \<Rightarrow> u32" where
  "leaderMask i = [0xff, 0x1f, 0x0f, 0x07] ! i"

text \<open>A byte whose two top bits are \<open>10\<close>.\<close>

definition is_ext :: "u8 \<Rightarrow> bool" where
  "is_ext b \<longleftrightarrow> b AND 0xc0 = 0x80"

definition cur :: "u8 list \<Rightarrow> u8" where
  "cur s = (case s of [] \<Rightarrow> 0 | b # _ \<Rightarrow> b)"

text \<open>The loop of \<open>strlen8to16\<close>: the number of units still to count.\<close>

fun strlen8to16_loop :: "int \<Rightarrow> u8 list \<Rightarrow> nat" where
  "strlen8to16_loop expected [] = 0"
| "strlen8to16_loop expected (ic # s) =
     (if ic = 0 then 0
      else if is_ext ic then
        (if expected - 1 < 0 then 1 else 0) + strlen8to16_loop (expected - 1) s
      else
        (let expected' = int (UTF8_SEQ_LENGTH ic) - 1
         in (if expected' = 3 then 2 else 1) + strlen8to16_loop expected' s))"

definition strlen8to16 :: "u8 list \<Rightarrow> nat" where
  "strlen8to16 utf8Str = strlen8to16_loop 0 utf8Str"

text \<open>The loop over the extension bytes in \<open>getUtf32FromUtf8\<close>, with \<open>n\<close> of them expected.\<close>

fun utf32_tail :: "nat \<Rightarrow> u32 \<Rightarrow> u8 list \<Rightarrow> u32 \<times> u8 list" where
  "utf32_tail 0 ret s = (ret, s)"
| "utf32_tail (Suc n) ret s =
     (if cur s = 0 then (UTF16_REPLACEMENT_CHAR, s)
      else if \<not> is_ext (cur s) then (UTF16_REPLACEMENT_CHAR, s)
      else utf32_tail n (UTF8_SHIFT_AND_MASK ret (cur s)) (tl s))"

definition getUtf32FromUtf8 :: "u8 list \<Rightarrow> u32 \<times> u8 list" where
  "getUtf32FromUtf8 s =
     (if is_ext (cur s) then (UTF16_REPLACEMENT_CHAR, tl s)
      else
        (let seq_len = UTF8_SEQ_LENGTH (cur s);
             ret = ucast (cur s) AND leaderMask (seq_len - 1)
         in if cur s = 0 then (ret, s) else utf32_tail (seq_len - 1) ret (tl s)))"

text \<open>The units one code point is written as.\<close>

definition put_utf16 :: "u32 \<Rightarrow> u16 list" where
  "put_utf16 ret =
     (if ret \<le> 0xffff then [ucast ret]
      else if ret \<le> UNICODE_UPPER_LIMIT then
        [ucast (0xd800 OR drop_bit 10 (ret - 0x10000)), ucast (0xdc00 OR ((ret - 0x10000) AND 0x3ff))]
      else [ucast UTF16_REPLACEMENT_CHAR])"

lemma utf32_tail_length: "length (snd (utf32_tail n ret s)) \<le> length s"
proof (induction n ret s rule: utf32_tail.induct)
  case (2 n ret s)
  then show ?case by (cases s) (auto simp: cur_def)
qed simp

lemma getUtf32_length: "cur s \<noteq> 0 \<Longrightarrow> length (snd (getUtf32FromUtf8 s)) < length s"
proof (cases s)
  case (Cons b s')
  then show "cur s \<noteq> 0 \<Longrightarrow> ?thesis"
    using utf32_tail_length [of "UTF8_SEQ_LENGTH b - 1" "ucast b AND leaderMask (UTF8_SEQ_LENGTH b - 1)" s']
    by (auto simp: getUtf32FromUtf8_def cur_def Let_def)
qed (simp add: cur_def)

lemma getUtf32_shorter: "cur s \<noteq> 0 \<Longrightarrow> (ret, s') = getUtf32FromUtf8 s \<Longrightarrow> length s' < length s"
  using getUtf32_length [of s] by (metis snd_conv)

text \<open>\<open>strcpy8to16\<close>: the units written; \<open>*out_len\<close> is their number.\<close>

function strcpy8to16 :: "u8 list \<Rightarrow> u16 list" where
  "strcpy8to16 s =
     (if cur s \<noteq> 0 then
        (case getUtf32FromUtf8 s of (ret, s') \<Rightarrow> put_utf16 ret @ strcpy8to16 s')
      else [])"
  by pat_completeness auto
termination
  by (relation "measure length") (auto dest: getUtf32_shorter)

declare strcpy8to16.simps [simp del]

text \<open>
  What \<open>strdup8to16\<close> does: it returns the null pointer, writes through the null pointer
  \<open>malloc\<close> gave it, or returns a buffer of the given number of units with what was written
  there.
\<close>

datatype dup_result = Dup_NULL | Dup_Null_Write | Dup nat "u16 list"

definition strdup8to16 :: "(nat \<Rightarrow> bool) \<Rightarrow> u8 list option \<Rightarrow> dup_result" where
  "strdup8to16 malloc_ok s =
     (case s of
        None \<Rightarrow> Dup_NULL
      | Some s \<Rightarrow>
          (let len = strlen8to16 s in
           if len \<noteq> 0 \<and> (2 ^ 64 - 1) div len < 2 then Dup_NULL
           else if malloc_ok (2 * len) then Dup len (strcpy8to16 s)
           else if strcpy8to16 s = [] then Dup_NULL else Dup_Null_Write))"

text \<open>
  \<open>strcpylen8to16\<close> runs while the pointer is below \<open>end\<close>; \<open>left\<close> is \<open>end - utf8Str\<close>.
\<close>

partial_function (option) strcpylen8to16 :: "u8 list \<Rightarrow> int \<Rightarrow> u16 list option" where
  "strcpylen8to16 s left =
     (if 0 < left then
        (case getUtf32FromUtf8 s of (ret, s') \<Rightarrow>
           Option.bind (strcpylen8to16 s' (left - (int (length s) - int (length s'))))
             (\<lambda>dest. Some (put_utf16 ret @ dest)))
      else Some [])"

section \<open>UTF-16 to UTF-8\<close>

definition utf8_units :: "u16 \<Rightarrow> nat" where
  "utf8_units uic = (if uic > 0x07ff then 3 else if uic > 0x7f \<or> uic = 0 then 2 else 1)"

definition SIZE_MAX :: size_t where "SIZE_MAX = - 1"

text \<open>The two loops of \<open>strnlen16to8\<close>, over the \<open>len\<close> units of the string.\<close>

fun strnlen16to8_fast :: "u16 list \<Rightarrow> size_t \<Rightarrow> size_t" where
  "strnlen16to8_fast [] utf8Len = utf8Len"
| "strnlen16to8_fast (uic # us) utf8Len = strnlen16to8_fast us (utf8Len + of_nat (utf8_units uic))"

fun strnlen16to8_slow :: "u16 list \<Rightarrow> size_t \<Rightarrow> size_t" where
  "strnlen16to8_slow [] utf8Len = (if utf8Len = SIZE_MAX then SIZE_MAX - 1 else utf8Len)"
| "strnlen16to8_slow (uic # us) utf8Cur =
     (let utf8Len = utf8Cur + of_nat (utf8_units uic)
      in if utf8Len < utf8Cur then SIZE_MAX - 1 else strnlen16to8_slow us utf8Len)"

definition strnlen16to8 :: "u16 list \<Rightarrow> size_t" where
  "strnlen16to8 us =
     (if length us < unat (SIZE_MAX - 1) div 3 then strnlen16to8_fast us 0 else strnlen16to8_slow us 0)"

definition put_utf8 :: "u16 \<Rightarrow> u8 list" where
  "put_utf8 u =
     (let uic = (ucast u :: u32) in
      if uic > 0x07ff then
        [ucast (drop_bit 12 uic OR 0xe0), ucast ((drop_bit 6 uic AND 0x3f) OR 0x80),
         ucast ((uic AND 0x3f) OR 0x80)]
      else if uic > 0x7f \<or> uic = 0 then
        [ucast (drop_bit 6 uic OR 0xc0), ucast ((uic AND 0x3f) OR 0x80)]
      else [ucast uic])"

text \<open>
  \<open>strncpy16to8\<close>: the bytes written before the terminating NUL it always adds. The \<open>break\<close> of
  its last branch is under \<open>uic == 0\<close>, which that branch has excluded.
\<close>

fun strncpy16to8 :: "u16 list \<Rightarrow> u8 list" where
  "strncpy16to8 [] = []"
| "strncpy16to8 (u # us) = put_utf8 u @ strncpy16to8 us"

text \<open>\<open>strndup16to8\<close>: the allocated size in bytes and what is written into it.\<close>

definition strndup16to8 :: "(nat \<Rightarrow> bool) \<Rightarrow> u16 list option \<Rightarrow> (nat \<times> u8 list) option" where
  "strndup16to8 malloc_ok s =
     (case s of
        None \<Rightarrow> None
      | Some us \<Rightarrow>
          (let len = strnlen16to8 us in
           if len \<ge> SIZE_MAX - 1 then None
           else if \<not> malloc_ok (unat (len + 1)) then None
           else Some (unat (len + 1), strncpy16to8 us @ [0])))"

section \<open>Bytes\<close>

lemma all_below:
  "\<forall>n \<in> set [0..<k]. P (word_of_nat n) \<Longrightarrow> unat w < k \<Longrightarrow> P w" for w :: "'a :: len word"
  by (drule bspec [of _ _ "unat w"]) simp_all

lemma byte_less: "unat b < 256" for b :: u8
  using unsigned_less [of b, where ?'a = nat] by simp

lemma seq_len_cases:
  "UTF8_SEQ_LENGTH b = (if b < 0xc0 then 1 else if b < 0xe0 then 2 else if b < 0xf0 then 3 else 4)"
  by (rule all_below [OF _ byte_less]) code_simp

lemma strlen8to16_nul: "cur s = 0 \<Longrightarrow> strlen8to16_loop e s = 0"
  by (cases s) (auto simp: cur_def)

lemma strlen8to16_lead: "\<not> is_ext (cur s) \<Longrightarrow> strlen8to16_loop e s = strlen8to16_loop 0 s"
  by (cases s) (auto simp: cur_def)

lemma strlen8to16_none_expected: "e \<le> 0 \<Longrightarrow> strlen8to16_loop e s = strlen8to16_loop 0 s"
proof (induction s arbitrary: e)
  case (Cons b s)
  from Cons.IH [of "e - 1"] Cons.IH [of "-1"] Cons.prems show ?case by simp
qed simp

text \<open>
  Where the copy leaves an incomplete sequence, the counter forgets the bytes it expected.
\<close>

lemma strlen8to16_tail:
  "utf32_tail n ret s = (r, s') \<Longrightarrow> strlen8to16_loop (int n) s = strlen8to16_loop 0 s'"
proof (induction n ret s rule: utf32_tail.induct)
  case (2 n ret s)
  show ?case
  proof (cases "cur s = 0 \<or> \<not> is_ext (cur s)")
    case True
    with 2(2) have "s' = s" by (auto split: if_splits)
    with True show ?thesis using strlen8to16_nul strlen8to16_lead by metis
  next
    case False
    then obtain b t where s: "s = b # t" "b \<noteq> 0" "is_ext b" by (cases s) (auto simp: cur_def)
    with 2 show ?thesis by (simp add: cur_def)
  qed
qed simp

lemma and_63: "63 AND w = take_bit 6 w" "w AND 63 = take_bit 6 w" for w :: "'a :: len word"
  by (simp_all add: take_bit_eq_mask mask_eq_exp_minus_1 and.commute)

lemma shift_mask_bits:
  "take_bit k ret = ret \<Longrightarrow> take_bit (k + 6) (UTF8_SHIFT_AND_MASK ret b) = UTF8_SHIFT_AND_MASK ret b"
  for ret :: u32
proof (rule bit_word_eqI)
  fix n assume k: "take_bit k ret = ret" and n: "n < LENGTH(32)"
  have "bit ret (n - 6) \<Longrightarrow> n - 6 < k" using k by (metis bit_take_bit_iff)
  then show "bit (take_bit (k + 6) (UTF8_SHIFT_AND_MASK ret b)) n = bit (UTF8_SHIFT_AND_MASK ret b) n"
    by (auto simp: UTF8_SHIFT_AND_MASK_def and_63 bit_simps)
qed

lemma utf32_tail_bits:
  "utf32_tail n ret s = (r, s') \<Longrightarrow> take_bit k ret = ret \<Longrightarrow>
   r = UTF16_REPLACEMENT_CHAR \<or> take_bit (k + 6 * n) r = r"
proof (induction n ret s arbitrary: k rule: utf32_tail.induct)
  case (2 n ret s)
  show ?case
  proof (cases "cur s = 0 \<or> \<not> is_ext (cur s)")
    case True
    with 2(2) show ?thesis by (auto split: if_splits)
  next
    case False
    with 2(1) [of "k + 6"] 2(2) shift_mask_bits [OF 2(3)] show ?thesis by (simp add: algebra_simps)
  qed
qed simp

lemma put_utf16_length: "length (put_utf16 r) \<le> 2"
  by (simp add: put_utf16_def)

lemma put_utf16_bmp: "take_bit 16 r = r \<Longrightarrow> put_utf16 r = [ucast r]"
proof -
  assume "take_bit 16 r = r"
  then have "take_bit 16 (unat r) = unat r" by (metis unsigned_take_bit_eq)
  then have "unat r < 2 ^ 16" by (metis take_bit_nat_less_exp)
  then show ?thesis by (simp add: put_utf16_def word_le_nat_alt)
qed

lemma put_utf16_replacement [simp]: "put_utf16 UTF16_REPLACEMENT_CHAR = [0xfffd]"
  by (simp add: put_utf16_def UTF16_REPLACEMENT_CHAR_def)

lemma seq_len_range: "1 \<le> UTF8_SEQ_LENGTH b" "UTF8_SEQ_LENGTH b \<le> 4"
  by (simp_all add: seq_len_cases)

lemma take_bit_and_self: "take_bit k m = m \<Longrightarrow> take_bit k (w AND m) = w AND m" for m :: u32
  by (metis and.assoc and.commute take_bit_eq_mask)

lemma leader_bits:
  assumes "UTF8_SEQ_LENGTH b \<noteq> 4"
  shows "take_bit (10 - 2 * UTF8_SEQ_LENGTH b) (w AND leaderMask (UTF8_SEQ_LENGTH b - 1)) =
    w AND leaderMask (UTF8_SEQ_LENGTH b - 1)"
proof (rule take_bit_and_self)
  have "\<forall>l \<in> set [1, 2, 3]. take_bit (10 - 2 * l) (leaderMask (l - 1)) = leaderMask (l - 1)"
    by code_simp
  with assms show "take_bit (10 - 2 * UTF8_SEQ_LENGTH b) (leaderMask (UTF8_SEQ_LENGTH b - 1)) =
      leaderMask (UTF8_SEQ_LENGTH b - 1)"
    by (auto simp: seq_len_cases split: if_splits)
qed

lemma put_utf16_next:
  "\<not> is_ext b \<Longrightarrow> b \<noteq> 0 \<Longrightarrow> getUtf32FromUtf8 (b # t) = (r, s') \<Longrightarrow>
   length (put_utf16 r) \<le> (if UTF8_SEQ_LENGTH b = 4 then 2 else 1)"
proof (cases "UTF8_SEQ_LENGTH b = 4")
  case True
  then show ?thesis by (simp add: put_utf16_length)
next
  case False
  let ?ret = "ucast b AND leaderMask (UTF8_SEQ_LENGTH b - 1) :: u32"
  let ?k = "10 - 2 * UTF8_SEQ_LENGTH b + 6 * (UTF8_SEQ_LENGTH b - 1)"
  assume "\<not> is_ext b" "b \<noteq> 0" "getUtf32FromUtf8 (b # t) = (r, s')"
  then have "utf32_tail (UTF8_SEQ_LENGTH b - 1) ?ret t = (r, s')"
    by (simp add: getUtf32FromUtf8_def cur_def Let_def)
  from utf32_tail_bits [OF this leader_bits [OF False]]
  consider "r = UTF16_REPLACEMENT_CHAR" | "take_bit ?k r = r" by auto
  then show ?thesis
  proof cases
    case 2
    have "?k \<le> 16" using False seq_len_range [of b] by auto
    then have "take_bit 16 r = r" using 2 by (metis min.absorb2 take_bit_take_bit)
    with False show ?thesis by (simp add: put_utf16_bmp)
  qed (use False in simp)
qed


text \<open>The bound the allocation of \<open>strdup8to16\<close> rests on.\<close>

lemma strcpy8to16_bound: "length (strcpy8to16 s) \<le> strlen8to16_loop 0 s"
proof (induction s rule: strcpy8to16.induct)
  case (1 s)
  show ?case
  proof (cases "cur s = 0")
    case True
    then show ?thesis by (simp add: strcpy8to16.simps)
  next
    case nul: False
    then obtain b t where s: "s = b # t" "b \<noteq> 0" by (cases s) (auto simp: cur_def)
    obtain r s' where n: "getUtf32FromUtf8 s = (r, s')" by fastforce
    note IH = 1 [OF nul n [symmetric]]
    have copy: "strcpy8to16 s = put_utf16 r @ strcpy8to16 s'"
      using nul n by (simp add: strcpy8to16.simps [of s])
    show ?thesis
    proof (cases "is_ext b")
      case True
      with n s have r: "r = UTF16_REPLACEMENT_CHAR" "s' = t"
        by (auto simp: getUtf32FromUtf8_def cur_def)
      have "strlen8to16_loop 0 s = Suc (strlen8to16_loop 0 t)"
        using s True strlen8to16_none_expected [of "-1" t] by simp
      with copy r IH show ?thesis by simp
    next
      case False
      with n s have "utf32_tail (UTF8_SEQ_LENGTH b - 1)
          (ucast b AND leaderMask (UTF8_SEQ_LENGTH b - 1)) t = (r, s')"
        by (simp add: getUtf32FromUtf8_def cur_def Let_def)
      from strlen8to16_tail [OF this] seq_len_range [of b] s False
      have "strlen8to16_loop 0 s =
          (if UTF8_SEQ_LENGTH b = 4 then 2 else 1) + strlen8to16_loop 0 s'"
        by (auto simp: Let_def of_nat_diff)
      with put_utf16_next [OF False s(2), of t] n s copy IH show ?thesis by fastforce
    qed
  qed
qed


section \<open>The two encodings are inverse\<close>

lemma ext_byte:
  "unat l < 64 \<Longrightarrow> let b = ucast (l OR 0x80 :: u32) in is_ext b \<and> b \<noteq> 0 \<and> 0x3f AND ucast b = l"
  by (rule all_below [where k = 64 and w = l]) (code_simp, assumption)

lemma lead_byte_2:
  "unat h < 32 \<Longrightarrow> let b = ucast (h OR 0xc0 :: u32)
   in \<not> is_ext b \<and> b \<noteq> 0 \<and> UTF8_SEQ_LENGTH b = 2 \<and> ucast b AND leaderMask 1 = h"
  by (rule all_below [where k = 32 and w = h]) (code_simp, assumption)

lemma lead_byte_3:
  "unat h < 16 \<Longrightarrow> let b = ucast (h OR 0xe0 :: u32)
   in \<not> is_ext b \<and> b \<noteq> 0 \<and> UTF8_SEQ_LENGTH b = 3 \<and> ucast b AND leaderMask 2 = h"
  by (rule all_below [where k = 16 and w = h]) (code_simp, assumption)

lemma lead_byte_1:
  "unat w < 128 \<Longrightarrow> let b = ucast (w :: u32)
   in \<not> is_ext b \<and> UTF8_SEQ_LENGTH b = 1 \<and> ucast b AND leaderMask 0 = w \<and> (b = 0 \<longleftrightarrow> w = 0)"
  by (rule all_below [where k = 128 and w = w and P = "\<lambda>w. let b = ucast w
     in \<not> is_ext b \<and> UTF8_SEQ_LENGTH b = 1 \<and> ucast b AND leaderMask 0 = w \<and> (b = 0 \<longleftrightarrow> w = 0)"])
    (code_simp, assumption)

lemma low_bits_less: "unat (take_bit 6 w) < 64" for w :: u32
  using take_bit_nat_less_exp [of 6 "unat w"] by (simp add: unsigned_take_bit_eq)

lemma shift_mask_join: "0x3f AND ucast b = take_bit 6 w \<Longrightarrow>
    UTF8_SHIFT_AND_MASK (drop_bit 6 w) b = w" for w :: u32
  by (simp add: UTF8_SHIFT_AND_MASK_def) (auto intro!: bit_word_eqI simp: bit_simps)

lemma shift_mask_join2: "0x3f AND ucast b = take_bit 6 (drop_bit 6 w) \<Longrightarrow>
    UTF8_SHIFT_AND_MASK (drop_bit 12 w) b = drop_bit 6 w" for w :: u32
  using shift_mask_join [of b "drop_bit 6 w"] by (simp add: drop_bit_drop_bit)

lemma unat_drop_less: "unat w < k * 2 ^ n \<Longrightarrow> unat (drop_bit n w) < k" for w :: u32
  by (simp add: unat_drop_bit_eq) (simp add: drop_bit_eq_div less_mult_imp_div_less)

lemma getUtf32_put_utf8:
  "getUtf32FromUtf8 (put_utf8 u @ rest) = (ucast u, rest) \<and> cur (put_utf8 u @ rest) \<noteq> 0"
proof -
  let ?w = "ucast u :: u32"
  have w: "unat ?w < 16 * 2 ^ 12"
    using unsigned_less [of u, where ?'a = nat] by (simp add: unsigned_ucast_eq le_less_trans [OF take_bit_nat_less_eq_self])
  note ext = ext_byte [OF low_bits_less, unfolded Let_def]
  consider "0x7ff < ?w" | "\<not> 0x7ff < ?w" "0x7f < ?w \<or> ?w = 0" | "\<not> 0x7f < ?w" "?w \<noteq> 0" by blast
  then show ?thesis
  proof cases
    case 1
    from lead_byte_3 [OF unat_drop_less [OF w]] ext [of ?w] ext [of "drop_bit 6 ?w"] 1 show ?thesis
      by (simp add: put_utf8_def Let_def and_63(2) getUtf32FromUtf8_def cur_def numeral_2_eq_2
        shift_mask_join shift_mask_join2)
  next
    case 2
    then have "unat ?w < 32 * 2 ^ 6" by (simp add: word_less_nat_alt)
    from lead_byte_2 [OF unat_drop_less [OF this]] ext [of ?w] 2 show ?thesis
      by (simp add: put_utf8_def Let_def and_63(2) getUtf32FromUtf8_def cur_def numeral_2_eq_2
        shift_mask_join)
  next
    case 3
    then have "unat ?w < 128" by (simp add: word_less_nat_alt)
    moreover have "\<not> 0x7ff < ?w" using 3 by (auto simp: word_less_nat_alt)
    ultimately show ?thesis using lead_byte_1 [of ?w] 3
      by (simp add: put_utf8_def Let_def getUtf32FromUtf8_def cur_def)
  qed
qed


lemma put_utf16_unit: "put_utf16 (ucast u) = [u]" for u :: u16
proof -
  have "take_bit 16 (ucast u :: u32) = ucast u"
    by (rule bit_word_eqI) (auto simp: bit_simps dest: bit_imp_le_length)
  moreover have "ucast (ucast u :: u32) = u"
    by (rule bit_word_eqI) (auto simp: bit_simps dest: bit_imp_le_length)
  ultimately show ?thesis by (simp add: put_utf16_bmp)
qed

text \<open>
  C37: Encoding UTF-16 units with \<open>strncpy16to8\<close> and decoding the bytes with \<open>strcpy8to16\<close>
  gives the units back, for every sequence of units: embedded zeros and unpaired surrogates
  included.
\<close>

theorem utf16_round_trip: "strcpy8to16 (strncpy16to8 us) = us"
proof (induction us)
  case Nil
  then show ?case by (simp add: strcpy8to16.simps cur_def)
next
  case (Cons u us)
  with getUtf32_put_utf8 [of u "strncpy16to8 us"] put_utf16_unit [of u] show ?case
    by (simp add: strcpy8to16.simps [of "put_utf8 u @ strncpy16to8 us"])
qed

section \<open>The allocated sizes\<close>

text \<open>
  The buffer \<open>strdup8to16\<close> allocates is never overrun: what \<open>strcpy8to16\<close> writes is at
  most the counted number of units, for every byte string, malformed ones included. The null
  pointer comes back for a null argument, for a count whose size in bytes would overflow
  \<open>size_t\<close>, or for an empty string when \<open>malloc\<close> fails.
\<close>

theorem strdup8to16_in_bounds:
  "case strdup8to16 malloc_ok s of
     Dup n units \<Rightarrow> \<exists>b. s = Some b \<and> n = strlen8to16 b \<and> units = strcpy8to16 b
                       \<and> length units \<le> n \<and> 2 * n < 2 ^ 64 \<and> malloc_ok (2 * n)
   | Dup_NULL \<Rightarrow> s = None \<or> (\<exists>b. s = Some b \<and> (2 ^ 64 \<le> 2 * strlen8to16 b \<or> strcpy8to16 b = []))
   | Dup_Null_Write \<Rightarrow> \<exists>b. s = Some b \<and> \<not> malloc_ok (2 * strlen8to16 b)"
proof (cases s)
  case (Some b)
  let ?n = "strlen8to16 b"
  have overflow: "(?n \<noteq> 0 \<and> (2 ^ 64 - 1) div ?n < 2) = (2 ^ 64 \<le> 2 * ?n)"
    by (cases "?n = 0") (simp, simp add: div_less_iff_less_mult, linarith)
  show ?thesis
    unfolding Some strdup8to16_def Let_def option.case overflow
    using strcpy8to16_bound [of b] by (simp add: strlen8to16_def)
qed (simp add: strdup8to16_def)

lemma length_put_utf8: "length (put_utf8 u) = utf8_units u"
proof -
  have "unat u < 2 ^ 32" using unsigned_less [of u, where ?'a = nat] by simp
  then have w: "unat (ucast u :: u32) = unat u"
    unfolding unsigned_ucast_eq by (intro take_bit_nat_eq_self) simp
  show ?thesis
    unfolding put_utf8_def utf8_units_def Let_def word_less_nat_alt word_unat_eq_iff w by simp
qed


lemma length_strncpy: "length (strncpy16to8 (u # us)) = utf8_units u + length (strncpy16to8 us)"
  by (simp add: length_put_utf8)

lemma utf8_units_range: "1 \<le> utf8_units u" "utf8_units u \<le> 3"
  by (simp_all add: utf8_units_def)

lemma strncpy_length_le: "length (strncpy16to8 us) \<le> 3 * length us"
  by (induction us) (simp_all add: length_put_utf8 utf8_units_def)

lemma unat_SIZE_MAX: "unat SIZE_MAX = 2 ^ 64 - 1" "unat (SIZE_MAX - 1) = 2 ^ 64 - 2"
proof -
  have max: "SIZE_MAX = 0xffffffffffffffff" "SIZE_MAX - 1 = 0xfffffffffffffffe"
    by (simp_all add: SIZE_MAX_def)
  show "unat SIZE_MAX = 2 ^ 64 - 1" by (subst max) simp
  show "unat (SIZE_MAX - 1) = 2 ^ 64 - 2" by (subst max) simp
qed

lemma unat_add_units:
  "unat (acc + of_nat (utf8_units u) :: size_t) =
   (if unat acc + utf8_units u < 2 ^ 64 then unat acc + utf8_units u
    else unat acc + utf8_units u - 2 ^ 64)"
proof -
  have "unat (of_nat (utf8_units u) :: size_t) = utf8_units u"
    using utf8_units_range [of u] by (simp add: unsigned_of_nat take_bit_nat_eq_self)
  moreover have "unat acc < 2 ^ 64" using unsigned_less [of acc, where ?'a = nat] by simp
  ultimately show ?thesis using utf8_units_range [of u]
    by (simp add: unat_word_ariths mod_if)
qed

lemma strnlen_fast:
  "unat acc + length (strncpy16to8 us) < 2 ^ 64 \<Longrightarrow>
   unat (strnlen16to8_fast us acc) = unat acc + length (strncpy16to8 us)"
proof (induction us arbitrary: acc)
  case (Cons u us)
  then show ?case using Cons.IH [of "acc + of_nat (utf8_units u)"]
    by (simp add: length_put_utf8 unat_add_units)
qed simp

lemma strnlen_slow:
  "unat (strnlen16to8_slow us acc) = min (unat acc + length (strncpy16to8 us)) (2 ^ 64 - 2)"
proof (induction us arbitrary: acc)
  case Nil
  have "unat acc < 2 ^ 64" using unsigned_less [of acc, where ?'a = nat] by simp
  moreover have "acc = SIZE_MAX \<longleftrightarrow> unat acc = 2 ^ 64 - 1"
    by (simp only: word_unat_eq_iff unat_SIZE_MAX)
  ultimately show ?case by (auto simp: unat_SIZE_MAX)
next
  case (Cons u us)
  have "unat acc < 2 ^ 64" using unsigned_less [of acc, where ?'a = nat] by simp
  with utf8_units_range [of u] Cons.IH [of "acc + of_nat (utf8_units u)"] show ?case
    by (simp add: Let_def word_less_nat_alt unat_add_units length_put_utf8 unat_SIZE_MAX) linarith
qed

lemma strnlen_total: "unat (strnlen16to8 us) = min (length (strncpy16to8 us)) (2 ^ 64 - 2)"
proof (cases "length us < unat (SIZE_MAX - 1) div 3")
  case True
  then have "3 * length us < 2 ^ 64 - 2" by (simp add: unat_SIZE_MAX)
  with strncpy_length_le [of us] have "length (strncpy16to8 us) < 2 ^ 64 - 2" by linarith
  with True strnlen_fast [of 0 us] show ?thesis by (simp add: strnlen16to8_def)
next
  case False
  with strnlen_slow [of us 0] show ?thesis by (simp add: strnlen16to8_def)
qed

text \<open>
  \<open>strnlen16to8\<close> is the exact number of bytes \<open>strncpy16to8\<close> writes, saturated at
  \<open>SIZE_MAX - 1\<close>: neither the fast path nor the slow one wraps around, for any length.
\<close>

theorem strnlen16to8_exact:
  "unat (strnlen16to8 us) = min (length (strncpy16to8 us)) (2 ^ 64 - 2)"
  by (rule strnlen_total)

text \<open>
  \<open>strndup16to8\<close> fills the buffer it allocates exactly, and returns the null pointer just
  for a null argument, a string whose encoding would not fit, or a failed allocation.
\<close>

theorem strndup16to8_fills_buffer:
  "strndup16to8 malloc_ok s =
     (case s of
        None \<Rightarrow> None
      | Some us \<Rightarrow>
          (let n = length (strncpy16to8 us) in
           if 2 ^ 64 - 2 \<le> n then None
           else if malloc_ok (n + 1) then Some (length (strncpy16to8 us @ [0]), strncpy16to8 us @ [0])
           else None))"
proof (cases s)
  case (Some us)
  let ?n = "length (strncpy16to8 us)"
  have big: "strnlen16to8 us \<ge> SIZE_MAX - 1 \<longleftrightarrow> 2 ^ 64 - 2 \<le> ?n"
    by (simp only: word_le_nat_alt unat_SIZE_MAX strnlen_total) linarith
  have small: "unat (strnlen16to8 us + 1) = ?n + 1" if "\<not> 2 ^ 64 - 2 \<le> ?n"
    using that strnlen_total [of us] by (simp add: unat_word_ariths)
  show ?thesis
    unfolding strndup16to8_def Some Let_def option.case big using small by simp
qed (simp add: strndup16to8_def)


section \<open>The copy with an end pointer\<close>

text \<open>The number of bytes before the first NUL, in the buffer or behind it.\<close>

definition nul_at :: "u8 list \<Rightarrow> nat" where
  "nul_at s = length (takeWhile (\<lambda>b. b \<noteq> 0) s)"

lemma nul_at_cur: "cur s = 0 \<longleftrightarrow> nul_at s = 0"
  by (cases s) (simp_all add: cur_def nul_at_def)

lemma nul_at_tl: "cur s \<noteq> 0 \<Longrightarrow> nul_at s + length (tl s) = nul_at (tl s) + length s"
  by (cases s) (simp_all add: cur_def nul_at_def)

lemma utf32_tail_nul: "utf32_tail n ret s = (r, s') \<Longrightarrow> nul_at s + length s' = nul_at s' + length s"
proof (induction n ret s rule: utf32_tail.induct)
  case (2 n ret s)
  then show ?case using nul_at_tl [of s] by (auto split: if_splits)
qed simp

lemma getUtf32_nul: "getUtf32FromUtf8 s = (r, s') \<Longrightarrow> nul_at s + length s' = nul_at s' + length s"
  using nul_at_tl [of s] utf32_tail_nul
  by (fastforce simp: getUtf32FromUtf8_def Let_def is_ext_def split: if_splits)

lemma strcpylen8to16_returns:
  "left \<le> int (nul_at s) \<Longrightarrow> \<exists>y. strcpylen8to16 s left = Some y"
proof (induction "nul_at s" arbitrary: s left rule: less_induct)
  case less
  show ?case
  proof (cases "0 < left")
    case True
    with less.prems have nul: "cur s \<noteq> 0" by (simp add: nul_at_cur)
    obtain r s' where n: "getUtf32FromUtf8 s = (r, s')" by fastforce
    from getUtf32_nul [OF n] getUtf32_shorter [OF nul n [symmetric]]
    have "nul_at s' < nul_at s" "left - (int (length s) - int (length s')) \<le> int (nul_at s')"
      using less.prems by linarith+
    from less.hyps [OF this] n True show ?thesis by (subst strcpylen8to16.simps) auto
  qed (simp add: strcpylen8to16.simps)
qed

lemma strcpylen8to16_le_nul: "strcpylen8to16 s left = Some y \<Longrightarrow> left \<le> int (nul_at s)"
proof (rule strcpylen8to16.raw_induct [of "\<lambda>s left y. left \<le> int (nul_at s)"])
  fix copy s left y
  assume IH: "\<And>s left y. copy s left = Some y \<Longrightarrow> left \<le> int (nul_at s)"
    and step: "(if 0 < left
        then case getUtf32FromUtf8 s of (ret, s') \<Rightarrow>
          Option.bind (copy s' (left - (int (length s) - int (length s'))))
            (\<lambda>dest. Some (put_utf16 ret @ dest))
        else Some []) = Some (y :: u16 list)"
  show "left \<le> int (nul_at s)"
  proof (cases "0 < left")
    case True
    obtain r s' where n: "getUtf32FromUtf8 s = (r, s')" by fastforce
    with True step obtain d where "copy s' (left - (int (length s) - int (length s'))) = Some d"
      by (auto split: Option.bind_splits)
    from IH [OF this] getUtf32_nul [OF n] show ?thesis by linarith
  qed simp
qed

lemma strcpylen8to16_copy: "strcpylen8to16 s (int (nul_at s)) = Some (strcpy8to16 s)"
proof (induction s rule: strcpy8to16.induct)
  case (1 s)
  show ?case
  proof (cases "cur s = 0")
    case True
    then show ?thesis
      using nul_at_cur [of s] by (simp add: strcpylen8to16.simps strcpy8to16.simps)
  next
    case False
    obtain r s' where n: "getUtf32FromUtf8 s = (r, s')" by fastforce
    have "int (nul_at s) - (int (length s) - int (length s')) = int (nul_at s')"
      using getUtf32_nul [OF n] by linarith
    with 1 [OF False n [symmetric]] False n show ?thesis
      by (subst strcpylen8to16.simps) (simp add: strcpy8to16.simps [of s] nul_at_cur)
  qed
qed

text \<open>
  C40: \<open>strcpylen8to16\<close> returns exactly when no NUL byte lies before its end pointer: once the
  cursor reaches a NUL, \<open>getUtf32FromUtf8\<close> no longer advances it, and the loop writes a unit
  for ever. When the end is the first NUL, it does what \<open>strcpy8to16\<close> does.
\<close>

theorem strcpylen8to16_stops_before_nul:
  "(strcpylen8to16 s left = None \<longleftrightarrow> int (nul_at s) < left) \<and>
   strcpylen8to16 s (int (nul_at s)) = Some (strcpy8to16 s)"
proof
  show "strcpylen8to16 s left = None \<longleftrightarrow> int (nul_at s) < left"
    using strcpylen8to16_returns [of left s] strcpylen8to16_le_nul [of s left]
    by (cases "strcpylen8to16 s left") force+
qed (rule strcpylen8to16_copy)

end
