(* ===== verification/Evt_Dispatch.thy ===== *)
theory Evt_Dispatch
  imports Ipa_Prelude
begin

text \<open>
  The event dispatcher of ipacm: the listeners' registrations
  (\<open>ipacm/src/IPACM_EvtDispatcher.cpp\<close>) and the two message queues with the thread that empties
  them (\<open>ipacm/src/IPACM_CmdQueue.cpp\<close>).

  Both are linked lists, and both are modelled with their pointers: a cell is looked up in a
  finite map from addresses, \<open>free\<close> and \<open>delete\<close> take the cell out of the map, and reading a cell
  that is not in the map is the value \<open>None\<close> of the whole operation. A loop that follows the links
  is a partial function, for which \<open>None\<close> is also a loop that never ends. \<open>malloc\<close> and \<open>new\<close>
  give an address that is not in use.
\<close>

section \<open>Linked lists\<close>

text \<open>\<open>lseg nx p xs q\<close>: following the links \<open>nx\<close> from \<open>p\<close> visits the cells \<open>xs\<close> and arrives at \<open>q\<close>.\<close>

fun lseg :: "('a \<Rightarrow> 'a option option) \<Rightarrow> 'a option \<Rightarrow> 'a list \<Rightarrow> 'a option \<Rightarrow> bool" where
  "lseg nx p [] q \<longleftrightarrow> p = q"
| "lseg nx p (a # as) q \<longleftrightarrow> p = Some a \<and> (case nx a of None \<Rightarrow> False | Some r \<Rightarrow> lseg nx r as q)"

lemma lseg_append: "lseg nx p (xs @ ys) q \<longleftrightarrow> (\<exists>r. lseg nx p xs r \<and> lseg nx r ys q)"
  by (induction xs arbitrary: p) (auto split: option.split)

lemma lseg_cong: "(\<And>a. a \<in> set xs \<Longrightarrow> nx a = nx' a) \<Longrightarrow> lseg nx p xs q = lseg nx' p xs q"
  by (induction xs arbitrary: p) (auto split: option.split)

lemma lseg_cells: "lseg nx p xs q \<Longrightarrow> a \<in> set xs \<Longrightarrow> nx a \<noteq> None"
  by (induction xs arbitrary: p) (auto split: option.splits)

lemma lseg_end: "lseg nx p (xs @ [a]) q \<longleftrightarrow> lseg nx p xs (Some a) \<and> nx a = Some q"
  by (auto simp: lseg_append split: option.splits)

lemma lseg_relink:
  "lseg nx p (xs @ [a]) q \<Longrightarrow> a \<notin> set xs \<Longrightarrow> lseg (nx(a := Some r)) p (xs @ [a]) r"
proof -
  assume seg: "lseg nx p (xs @ [a]) q" and a: "a \<notin> set xs"
  have "lseg (nx(a := Some r)) p xs (Some a) = lseg nx p xs (Some a)"
    by (rule lseg_cong) (use a in auto)
  with seg show ?thesis by (simp add: lseg_end)
qed

section \<open>Registrations\<close>

record evt_node =
  en_event :: nat
  en_obj :: nat
  en_next :: "nat option"

record 'd dispatcher =
  en_cells :: "nat \<Rightarrow> evt_node option"
  en_head :: "nat option"
  event_stats :: "nat \<Rightarrow> nat"
  world :: 'd

definition en_links :: "(nat \<Rightarrow> evt_node option) \<Rightarrow> nat \<Rightarrow> nat option option" where
  "en_links h a = map_option en_next (h a)"

text \<open>The walk to the last cell in \<open>registr\<close>.\<close>

partial_function (option) last_cell :: "(nat \<Rightarrow> evt_node option) \<Rightarrow> nat \<Rightarrow> nat option" where
  "last_cell h a =
     (case h a of
        None \<Rightarrow> None
      | Some n \<Rightarrow> (case en_next n of None \<Rightarrow> Some a | Some b \<Rightarrow> last_cell h b))"

text \<open>\<open>registr\<close>; \<open>nw\<close> is the result of \<open>malloc\<close>.\<close>

definition registr :: "nat option \<Rightarrow> nat \<Rightarrow> nat \<Rightarrow> 'd dispatcher \<Rightarrow> (int \<times> 'd dispatcher) option" where
  "registr nw event obj s =
     (case nw of
        None \<Rightarrow> Some (- 1, s)
      | Some a \<Rightarrow>
          (let h = (en_cells s)(a \<mapsto> \<lparr>en_event = event, en_obj = obj, en_next = None\<rparr>) in
           case en_head s of
             None \<Rightarrow> Some (0, s\<lparr>en_cells := h, en_head := Some a\<rparr>)
           | Some first \<Rightarrow>
               (case last_cell h first of
                  None \<Rightarrow> None
                | Some t \<Rightarrow>
                    (case h t of
                       None \<Rightarrow> None
                     | Some n \<Rightarrow> Some (0, s\<lparr>en_cells := h(t \<mapsto> n\<lparr>en_next := Some a\<rparr>)\<rparr>)))))"

text \<open>The loop of \<open>deregistr\<close> with its variables \<open>head\<close>, \<open>tmp\<close> and \<open>prev\<close>.\<close>

definition set_next :: "nat option \<Rightarrow> nat option \<Rightarrow> (nat \<Rightarrow> evt_node option) \<Rightarrow> (nat \<Rightarrow> evt_node option) option" where
  "set_next p r h =
     (case p of
        None \<Rightarrow> None
      | Some a \<Rightarrow> (case h a of None \<Rightarrow> None | Some n \<Rightarrow> Some (h(a \<mapsto> n\<lparr>en_next := r\<rparr>))))"

partial_function (option) dereg_loop ::
  "nat \<Rightarrow> (nat \<Rightarrow> evt_node option) \<Rightarrow> nat option \<Rightarrow> nat option \<Rightarrow> nat option \<Rightarrow>
   ((nat \<Rightarrow> evt_node option) \<times> nat option) option" where
  "dereg_loop param h head tmp prev =
     (case tmp of
        None \<Rightarrow> Some (h, head)
      | Some a \<Rightarrow>
          (case h a of
             None \<Rightarrow> None
           | Some n \<Rightarrow>
               if en_obj n = param then
                 (if tmp = head then dereg_loop param (h(a := None)) (en_next n) (en_next n) prev
                  else
                    (case set_next prev (if en_next n = None then None else en_next n) h of
                       None \<Rightarrow> None
                     | Some h' \<Rightarrow> dereg_loop param (h'(a := None)) head (en_next n) prev))
               else dereg_loop param h head (en_next n) tmp))"

definition deregistr :: "nat \<Rightarrow> 'd dispatcher \<Rightarrow> (int \<times> 'd dispatcher) option" where
  "deregistr param s =
     (case dereg_loop param (en_cells s) (en_head s) (en_head s) (en_head s) of
        None \<Rightarrow> None
      | Some (h, first) \<Rightarrow> Some (0, s\<lparr>en_cells := h, en_head := first\<rparr>))"

text \<open>
  \<open>ProcessEvt\<close>: the current cell is copied before the callback runs. The callback \<open>cb\<close> may change
  the dispatcher itself, and may fault.
\<close>

partial_function (option) process_loop ::
  "(nat \<Rightarrow> nat \<Rightarrow> 'd dispatcher \<Rightarrow> 'd dispatcher option) \<Rightarrow> nat \<Rightarrow> nat option \<Rightarrow> 'd dispatcher \<Rightarrow> 'd dispatcher option"
where
  "process_loop cb event tmp s =
     (case tmp of
        None \<Rightarrow> Some s
      | Some a \<Rightarrow>
          (case en_cells s a of
             None \<Rightarrow> None
           | Some tmp1 \<Rightarrow>
               if event = en_event tmp1 then
                 (case cb (en_obj tmp1) event (s\<lparr>event_stats := (event_stats s)(event := event_stats s event + 1)\<rparr>) of
                    None \<Rightarrow> None
                  | Some s' \<Rightarrow> process_loop cb event (en_next tmp1) s')
               else process_loop cb event (en_next tmp1) s))"

definition ProcessEvt ::
  "(nat \<Rightarrow> nat \<Rightarrow> 'd dispatcher \<Rightarrow> 'd dispatcher option) \<Rightarrow> nat \<Rightarrow> 'd dispatcher \<Rightarrow> 'd dispatcher option" where
  "ProcessEvt cb event s = process_loop cb event (en_head s) s"

section \<open>The registrations as a list\<close>

definition reg_of :: "(nat \<Rightarrow> evt_node option) \<Rightarrow> nat \<Rightarrow> nat \<times> nat" where
  "reg_of h a = (case h a of None \<Rightarrow> (0, 0) | Some n \<Rightarrow> (en_event n, en_obj n))"

text \<open>\<open>registered s rs\<close>: the registrations are \<open>rs\<close>, in this order.\<close>

definition reg_cells :: "(nat \<Rightarrow> evt_node option) \<Rightarrow> nat option \<Rightarrow> nat list \<Rightarrow> bool" where
  "reg_cells h p xs \<longleftrightarrow> lseg (en_links h) p xs None \<and> distinct xs"

definition registered :: "'d dispatcher \<Rightarrow> (nat \<times> nat) list \<Rightarrow> bool" where
  "registered s rs \<longleftrightarrow> (\<exists>xs. reg_cells (en_cells s) (en_head s) xs \<and> rs = map (reg_of (en_cells s)) xs)"

lemma en_links_upd: "en_links (h(a \<mapsto> n)) = (en_links h)(a := Some (en_next n))"
  by (auto simp: en_links_def)

lemma en_links_Some: "en_links h a = Some r \<longleftrightarrow> (\<exists>n. h a = Some n \<and> en_next n = r)"
  by (auto simp: en_links_def)

lemma last_cell_lseg: "lseg (en_links h) (Some a) (xs @ [t]) None \<Longrightarrow> last_cell h a = Some t"
proof (induction xs arbitrary: a)
  case Nil
  then show ?case by (subst last_cell.simps) (auto simp: en_links_Some split: option.splits)
next
  case (Cons x xs)
  then obtain n where n: "a = x" "h a = Some n" "lseg (en_links h) (en_next n) (xs @ [t]) None"
    by (auto simp: en_links_Some split: option.splits)
  then obtain b where "en_next n = Some b" by (cases xs) auto
  with Cons.IH [of b] n show ?case by (subst last_cell.simps) simp
qed

lemma registr_appends:
  assumes "registered s rs" and "en_cells s a = None"
  shows "\<exists>s'. registr (Some a) event obj s = Some (0, s') \<and> registered s' (rs @ [(event, obj)]) \<and> world s' = world s"
proof -
  obtain xs where xs: "lseg (en_links (en_cells s)) (en_head s) xs None" "distinct xs"
    "rs = map (reg_of (en_cells s)) xs"
    using assms(1) by (auto simp: registered_def reg_cells_def)
  let ?n = "\<lparr>en_event = event, en_obj = obj, en_next = None\<rparr>"
  let ?h = "(en_cells s)(a \<mapsto> ?n)"
  have fresh: "a \<notin> set xs" using lseg_cells [OF xs(1), of a] assms(2) by (auto simp: en_links_def)
  have links: "lseg (en_links ?h) (en_head s) xs None"
    using xs(1) fresh by (subst lseg_cong [of xs _ "en_links (en_cells s)"]) (auto simp: en_links_upd)
  show ?thesis
  proof (cases xs rule: rev_cases)
    case Nil
    with xs have "en_head s = None" "rs = []" by auto
    moreover have "reg_cells ?h (Some a) [a]" by (simp add: reg_cells_def en_links_upd)
    ultimately show ?thesis
      by (auto simp: registr_def registered_def reg_of_def intro!: exI [of _ "[a]"])
  next
    case (snoc ys t)
    then obtain f where hd: "en_head s = Some f" using links by (cases ys) auto
    have t: "last_cell ?h f = Some t" using links unfolding snoc hd by (rule last_cell_lseg)
    obtain n where n: "?h t = Some n" using links snoc by (auto simp: lseg_end en_links_Some)
    let ?h' = "?h(t \<mapsto> n\<lparr>en_next := Some a\<rparr>)"
    have ta: "t \<noteq> a" "t \<notin> set ys" "a \<notin> set ys" using fresh snoc xs(2) by auto
    have "lseg (en_links ?h') (Some f) xs (Some a)"
      using lseg_relink [of "en_links ?h" "en_head s" ys t None "Some a"] links ta snoc hd
      by (simp add: en_links_upd)
    then have "reg_cells ?h' (Some f) (xs @ [a])"
      using xs(2) fresh ta by (simp add: reg_cells_def lseg_end en_links_upd)
    moreover have "map (reg_of ?h') (xs @ [a]) = rs @ [(event, obj)]"
    proof -
      have "reg_of ?h' x = reg_of (en_cells s) x" if "x \<in> set xs" for x
        using that fresh n ta by (auto simp: reg_of_def)
      then show ?thesis using xs(3) ta by (simp add: reg_of_def)
    qed
    ultimately show ?thesis using hd t n by (auto simp: registr_def registered_def Let_def intro!: exI [of _ "xs @ [a]"])
  qed
qed


lemma en_links_del: "en_links (h(a := None)) = (en_links h)(a := None)"
  by (auto simp: en_links_def)

lemma reg_of_other: "b \<noteq> a \<Longrightarrow> reg_of (h(a := v)) b = reg_of h b"
  by (simp add: reg_of_def)

lemma reg_of_relink: "h a = Some n \<Longrightarrow> reg_of (h(a \<mapsto> n\<lparr>en_next := r\<rparr>)) b = reg_of h b"
  by (simp add: reg_of_def)

definition keeps :: "(nat \<Rightarrow> evt_node option) \<Rightarrow> nat \<Rightarrow> nat list \<Rightarrow> nat list" where
  "keeps h param xs = filter (\<lambda>a. snd (reg_of h a) \<noteq> param) xs"

lemma keeps_cong: "(\<And>a. a \<in> set xs \<Longrightarrow> reg_of h a = reg_of h' a) \<Longrightarrow> keeps h param xs = keeps h' param xs"
  unfolding keeps_def by (rule filter_cong) auto

text \<open>
  The loop, when the cells \<open>ks\<close> have been kept and \<open>rest\<close> is still to be looked at.
\<close>

lemma dereg_loop_correct:
  assumes "lseg (en_links h) head ks tmp" and "lseg (en_links h) tmp rest None" and "distinct (ks @ rest)"
    and "ks \<noteq> [] \<longrightarrow> prev = Some (last ks)"
  shows "\<exists>h' f. dereg_loop param h head tmp prev = Some (h', f) \<and>
    lseg (en_links h') f (ks @ keeps h param rest) None \<and>
    (\<forall>a \<in> set (ks @ keeps h param rest). reg_of h' a = reg_of h a) \<and>
    (\<forall>a. a \<notin> set (ks @ keeps h param rest) \<longrightarrow> h' a = (if a \<in> set rest then None else h a))"
  using assms
proof (induction rest arbitrary: h head ks tmp prev)
  case Nil
  then show ?case by (subst dereg_loop.simps) (simp add: keeps_def)
next
  case (Cons a rest)
  from Cons.prems(2) obtain n where n: "tmp = Some a" "h a = Some n" "lseg (en_links h) (en_next n) rest None"
    by (auto simp: en_links_Some split: option.splits)
  have reg: "reg_of h a = (en_event n, en_obj n)" using n by (simp add: reg_of_def)
  show ?case
  proof (cases "en_obj n = param")
    case False
    have "lseg (en_links h) head (ks @ [a]) (en_next n)"
      using Cons.prems(1) n by (simp add: lseg_end en_links_Some)
    from Cons.IH [OF this n(3), of "Some a"] Cons.prems(3) False n(1,2) reg show ?thesis
      by (subst dereg_loop.simps) (auto simp: keeps_def)
  next
    case True
    obtain h1 head1 where step: "dereg_loop param h head tmp prev = dereg_loop param h1 head1 (en_next n) prev"
      and segs: "lseg (en_links h1) head1 ks (en_next n)" "lseg (en_links h1) (en_next n) rest None"
      and same: "\<forall>b \<in> set (ks @ rest). reg_of h1 b = reg_of h b"
      and frame: "h1 a = None" "\<forall>b. b \<notin> set (ks @ a # rest) \<longrightarrow> h1 b = h b"
    proof (cases ks rule: rev_cases)
      case Nil
      let ?h1 = "h(a := None)"
      have "lseg (en_links ?h1) (en_next n) rest None"
        using n(3) Cons.prems(3) by (subst lseg_cong [of rest _ "en_links h"]) (auto simp: en_links_del)
      moreover have "dereg_loop param h head tmp prev = dereg_loop param ?h1 (en_next n) (en_next n) prev"
        using Nil Cons.prems(1) n True by (subst dereg_loop.simps) simp
      moreover have "\<forall>b \<in> set rest. reg_of ?h1 b = reg_of h b" using Cons.prems(3) by (auto simp: reg_of_def)
      ultimately show ?thesis using that [of ?h1 "en_next n"] Nil by simp
    next
      case (snoc ds d)
      have d: "prev = Some d" "d \<noteq> a" "d \<notin> set ds" "d \<notin> set rest" "a \<notin> set ds" "a \<notin> set rest"
        using Cons.prems(3,4) snoc by auto
      obtain nd where nd: "h d = Some nd" using Cons.prems(1) snoc by (auto simp: lseg_end en_links_Some)
      have "head \<noteq> tmp" using Cons.prems(1) n(1) d snoc by (cases ds) auto
      let ?h1 = "(h(d \<mapsto> nd\<lparr>en_next := en_next n\<rparr>))(a := None)"
      have "(if en_next n = None then None else en_next n) = en_next n" by simp
      then have "dereg_loop param h head tmp prev = dereg_loop param ?h1 head (en_next n) prev"
        using n True d nd \<open>head \<noteq> tmp\<close> by (subst dereg_loop.simps) (simp add: set_next_def)
      moreover have "lseg (en_links (h(d \<mapsto> nd\<lparr>en_next := en_next n\<rparr>))) head ks (en_next n)"
        using lseg_relink [of "en_links h" head ds d tmp "en_next n"] Cons.prems(1) snoc d
        by (simp add: en_links_upd)
      then have "lseg (en_links ?h1) head ks (en_next n)"
        using d snoc by (subst (asm) lseg_cong [of ks _ "en_links ?h1"]) (auto simp: en_links_del)
      moreover have "lseg (en_links ?h1) (en_next n) rest None"
        using n(3) d by (subst lseg_cong [of rest _ "en_links h"]) (auto simp: en_links_del en_links_upd)
      moreover have "\<forall>b \<in> set (ks @ rest). reg_of ?h1 b = reg_of h b"
        using d snoc nd by (auto simp: reg_of_def)
      moreover have "\<forall>b. b \<notin> set (ks @ a # rest) \<longrightarrow> ?h1 b = h b" using snoc by auto
      ultimately show ?thesis using that [of ?h1 head] by simp
    qed
    have "distinct (ks @ rest)" using Cons.prems(3) by auto
    from Cons.IH [OF segs this Cons.prems(4)] obtain h' f where r:
      "dereg_loop param h1 head1 (en_next n) prev = Some (h', f)"
      "lseg (en_links h') f (ks @ keeps h1 param rest) None"
      "\<forall>b \<in> set (ks @ keeps h1 param rest). reg_of h' b = reg_of h1 b"
      "\<forall>b. b \<notin> set (ks @ keeps h1 param rest) \<longrightarrow> h' b = (if b \<in> set rest then None else h1 b)"
      by blast
    have k: "keeps h1 param rest = keeps h param rest" "keeps h param (a # rest) = keeps h param rest"
      using same True reg by (auto intro: keeps_cong) (simp add: keeps_def)
    have sub: "set (keeps h param rest) \<subseteq> set rest" by (auto simp: keeps_def)
    have "\<forall>b \<in> set (ks @ keeps h param rest). reg_of h' b = reg_of h b"
      using r(3) same sub k(1) by (metis Un_iff set_append subset_iff)
    moreover have "\<forall>b. b \<notin> set (ks @ keeps h param rest) \<longrightarrow> h' b = (if b \<in> set (a # rest) then None else h b)"
      using r(4) frame k(1) Cons.prems(3) by auto
    ultimately show ?thesis using step r(1,2) k by metis
  qed
qed


lemma deregistr_removes:
  assumes "registered s rs"
  shows "\<exists>s'. deregistr param s = Some (0, s') \<and> registered s' (filter (\<lambda>r. snd r \<noteq> param) rs) \<and>
    world s' = world s \<and> event_stats s' = event_stats s"
proof -
  obtain xs where xs: "lseg (en_links (en_cells s)) (en_head s) xs None" "distinct xs"
    "rs = map (reg_of (en_cells s)) xs"
    using assms by (auto simp: registered_def reg_cells_def)
  obtain h' f where r: "dereg_loop param (en_cells s) (en_head s) (en_head s) (en_head s) = Some (h', f)"
    "lseg (en_links h') f (keeps (en_cells s) param xs) None"
    "\<forall>a \<in> set (keeps (en_cells s) param xs). reg_of h' a = reg_of (en_cells s) a"
    using dereg_loop_correct [of "en_cells s" "en_head s" "[]" "en_head s" xs "en_head s" param] xs by auto
  have "map (reg_of h') (keeps (en_cells s) param xs) = map (reg_of (en_cells s)) (keeps (en_cells s) param xs)"
    using r(3) by simp
  also have "\<dots> = filter (\<lambda>r. snd r \<noteq> param) rs" by (simp add: keeps_def xs(3) filter_map comp_def)
  finally show ?thesis using r(1,2) xs(2)
    by (auto simp: deregistr_def registered_def reg_cells_def keeps_def intro!: exI [of _ "keeps (en_cells s) param xs"])
qed

text \<open>
  \<open>ProcessEvt\<close> when the callbacks leave the registrations alone: each registration of the event,
  in order, gets one call, and the event's counter goes up by one for each.
\<close>

definition call_listeners ::
  "(nat \<Rightarrow> nat \<Rightarrow> 'd dispatcher \<Rightarrow> 'd dispatcher option) \<Rightarrow> nat \<Rightarrow> nat list \<Rightarrow> 'd dispatcher \<Rightarrow> 'd dispatcher option"
where
  "call_listeners cb event objs s =
     fold (\<lambda>obj st. Option.bind st (\<lambda>s. cb obj event (s\<lparr>event_stats := (event_stats s)(event := event_stats s event + 1)\<rparr>)))
       objs (Some s)"

lemma call_listeners_None:
  "fold (\<lambda>obj st. Option.bind st (f obj)) objs None = None"
  by (induction objs) auto

lemma call_listeners_Cons:
  "call_listeners cb event (obj # objs) s =
     (case cb obj event (s\<lparr>event_stats := (event_stats s)(event := event_stats s event + 1)\<rparr>) of
        None \<Rightarrow> None | Some s' \<Rightarrow> call_listeners cb event objs s')"
  by (simp add: call_listeners_def call_listeners_None split: option.split)

lemma process_loop_calls:
  assumes "lseg (en_links (en_cells s)) tmp xs None"
    and "\<And>obj ev s s'. cb obj ev s = Some s' \<Longrightarrow> en_cells s' = en_cells s"
  shows "process_loop cb event tmp s =
    call_listeners cb event (map snd (filter (\<lambda>r. fst r = event) (map (reg_of (en_cells s)) xs))) s"
  using assms(1)
proof (induction xs arbitrary: tmp s)
  case Nil
  then show ?case by (subst process_loop.simps) (simp add: call_listeners_def)
next
  case (Cons a xs)
  then obtain n where n: "tmp = Some a" "en_cells s a = Some n" "lseg (en_links (en_cells s)) (en_next n) xs None"
    by (auto simp: en_links_Some split: option.splits)
  then have reg: "reg_of (en_cells s) a = (en_event n, en_obj n)" by (simp add: reg_of_def)
  show ?case
  proof (cases "en_event n = event")
    case True
    let ?s = "s\<lparr>event_stats := (event_stats s)(event := event_stats s event + 1)\<rparr>"
    show ?thesis
    proof (cases "cb (en_obj n) event ?s")
      case None
      then show ?thesis using n True
        by (subst process_loop.simps) (simp add: reg_of_def call_listeners_Cons)
    next
      case (Some s')
      have same: "en_cells s' = en_cells s" using assms(2) [OF Some] by simp
      with Cons.IH [of s' "en_next n"] n(3) have "process_loop cb event (en_next n) s' =
          call_listeners cb event (map snd (filter (\<lambda>r. fst r = event) (map (reg_of (en_cells s)) xs))) s'"
        by simp
      with n True Some show ?thesis
        by (subst process_loop.simps) (simp add: reg_of_def call_listeners_Cons)
    qed
  next
    case False
    with Cons.IH [OF n(3)] n reg show ?thesis by (subst process_loop.simps) auto
  qed
qed

section \<open>Message queues\<close>

text \<open>
  The messages of both queues live in one memory; a queue is its two pointers. \<open>dequeue\<close> leaves
  \<open>Tail\<close> alone, so it dangles once the last message has been taken.
\<close>

definition IPA_EXTERNAL_EVENT_MAX :: nat where "IPA_EXTERNAL_EVENT_MAX = 40"

record 'p message =
  m_event :: nat
  m_data :: 'p
  m_next :: "nat option"

record msg_queue =
  q_head :: "nat option"
  q_tail :: "nat option"

definition empty_queue :: msg_queue where "empty_queue = \<lparr>q_head = None, q_tail = None\<rparr>"

definition setnext :: "nat \<Rightarrow> nat \<Rightarrow> (nat \<Rightarrow> 'p message option) \<Rightarrow> (nat \<Rightarrow> 'p message option) option" where
  "setnext a item h = (case h a of None \<Rightarrow> None | Some m \<Rightarrow> Some (h(a \<mapsto> m\<lparr>m_next := Some item\<rparr>)))"

definition enqueue ::
  "nat \<Rightarrow> (nat \<Rightarrow> 'p message option) \<Rightarrow> msg_queue \<Rightarrow> ((nat \<Rightarrow> 'p message option) \<times> msg_queue) option" where
  "enqueue item h q =
     (case q_head q of
        None \<Rightarrow> Some (h, \<lparr>q_head = Some item, q_tail = Some item\<rparr>)
      | Some first \<Rightarrow>
          (case setnext (case q_tail q of None \<Rightarrow> first | Some t \<Rightarrow> t) item h of
             None \<Rightarrow> None
           | Some h' \<Rightarrow> Some (h', q\<lparr>q_tail := Some item\<rparr>)))"

definition dequeue ::
  "(nat \<Rightarrow> 'p message option) \<Rightarrow> msg_queue \<Rightarrow> (nat option \<times> msg_queue) option" where
  "dequeue h q =
     (case q_head q of
        None \<Rightarrow> Some (None, q)
      | Some tmp \<Rightarrow>
          (case h tmp of None \<Rightarrow> None | Some m \<Rightarrow> Some (Some tmp, q\<lparr>q_head := m_next m\<rparr>)))"

definition m_links :: "(nat \<Rightarrow> 'p message option) \<Rightarrow> nat \<Rightarrow> nat option option" where
  "m_links h a = map_option m_next (h a)"

definition queue_holds :: "(nat \<Rightarrow> 'p message option) \<Rightarrow> msg_queue \<Rightarrow> nat list \<Rightarrow> bool" where
  "queue_holds h q xs \<longleftrightarrow>
     lseg (m_links h) (q_head q) xs None \<and> distinct xs \<and> (xs \<noteq> [] \<longrightarrow> q_tail q = Some (last xs))"

text \<open>What a message is, apart from its link, and a fresh message.\<close>

definition msg_of :: "(nat \<Rightarrow> 'p message option) \<Rightarrow> nat \<Rightarrow> (nat \<times> 'p) option" where
  "msg_of h a = map_option (\<lambda>m. (m_event m, m_data m)) (h a)"

definition unlinked :: "(nat \<Rightarrow> 'p message option) \<Rightarrow> nat \<Rightarrow> bool" where
  "unlinked h a \<longleftrightarrow> m_links h a = Some None"

text \<open>
  The contract of a queue of messages in a shared memory: \<open>enq\<close> puts an unlinked message at the
  back, \<open>deq\<close> takes the one in front, and a queue does not see the operations on another one
  with other messages.
\<close>

locale message_fifo =
  fixes enq :: "nat \<Rightarrow> 'h \<Rightarrow> 'q \<Rightarrow> ('h \<times> 'q) option"
    and deq :: "'h \<Rightarrow> 'q \<Rightarrow> (nat option \<times> 'q) option"
    and holds :: "'h \<Rightarrow> 'q \<Rightarrow> nat list \<Rightarrow> bool"
    and ready :: "'h \<Rightarrow> nat \<Rightarrow> bool"
    and content :: "'h \<Rightarrow> nat \<Rightarrow> 'm option"
  assumes enq: "holds h q xs \<Longrightarrow> ready h a \<Longrightarrow> a \<notin> set xs \<Longrightarrow>
      \<exists>h' q'. enq a h q = Some (h', q') \<and> holds h' q' (xs @ [a])"
    and enq_frame: "holds h q xs \<Longrightarrow> enq a h q = Some (h', q') \<Longrightarrow>
      content h' b = content h b \<and> (b \<notin> set xs \<longrightarrow> ready h b \<longrightarrow> ready h' b)"
    and enq_other: "holds h q xs \<Longrightarrow> enq a h q = Some (h', q') \<Longrightarrow> holds h q2 ys \<Longrightarrow>
      set ys \<inter> set xs = {} \<Longrightarrow> holds h' q2 ys"
    and deq_nil: "holds h q [] \<Longrightarrow> deq h q = Some (None, q)"
    and deq_cons: "holds h q (a # xs) \<Longrightarrow> \<exists>q'. deq h q = Some (Some a, q') \<and> holds h q' xs"
begin

text \<open>\<open>deq\<close> is total, and two queues with disjoint messages stay so.\<close>

lemma deq_total: "holds h q xs \<Longrightarrow> \<exists>q'. deq h q = Some (case xs of [] \<Rightarrow> None | a # _ \<Rightarrow> Some a, q') \<and>
    holds h q' (tl xs)"
  using deq_nil deq_cons by (cases xs) fastforce+

lemma enq_both:
  assumes "holds h q xs" and "holds h q2 ys" and "set ys \<inter> set xs = {}" and "ready h a" and "a \<notin> set xs"
  shows "\<exists>h' q'. enq a h q = Some (h', q') \<and> holds h' q' (xs @ [a]) \<and> holds h' q2 ys \<and>
    content h' = content h"
  using enq [OF assms(1,4,5)] enq_frame [OF assms(1)] enq_other [OF assms(1) _ assms(2,3)] by (metis ext)

end

lemma m_links_upd: "m_links (h(a \<mapsto> m)) = (m_links h)(a := Some (m_next m))"
  by (auto simp: m_links_def)

lemma m_links_Some: "m_links h a = Some r \<longleftrightarrow> (\<exists>m. h a = Some m \<and> m_next m = r)"
  by (auto simp: m_links_def)

lemma enqueue_cases:
  assumes "queue_holds h q xs" and "enqueue a h q = Some (h', q')"
  shows "(xs = [] \<and> h' = h) \<or>
    (\<exists>m. xs \<noteq> [] \<and> h (last xs) = Some m \<and> h' = h(last xs \<mapsto> m\<lparr>m_next := Some a\<rparr>))"
proof (cases xs)
  case Nil
  with assms show ?thesis by (simp add: queue_holds_def enqueue_def)
next
  case (Cons x as)
  with assms show ?thesis
    by (auto simp: queue_holds_def enqueue_def setnext_def split: option.splits)
qed

interpretation mq: message_fifo enqueue dequeue queue_holds unlinked msg_of
proof
  fix h :: "nat \<Rightarrow> 'b message option" and q xs a
  assume q: "queue_holds h q xs" and a: "unlinked h a" "a \<notin> set xs"
  show "\<exists>h' q'. enqueue a h q = Some (h', q') \<and> queue_holds h' q' (xs @ [a])"
  proof (cases xs rule: rev_cases)
    case Nil
    with q a show ?thesis by (simp add: queue_holds_def enqueue_def unlinked_def)
  next
    case (snoc ys t)
    then have seg: "lseg (m_links h) (q_head q) (ys @ [t]) None" and t: "q_tail q = Some t" "t \<notin> set ys" "t \<noteq> a"
      using q a by (auto simp: queue_holds_def)
    obtain m where m: "h t = Some m" using seg by (auto simp: lseg_end m_links_Some)
    obtain f where f: "q_head q = Some f" using seg by (cases ys) auto
    let ?h = "h(t \<mapsto> m\<lparr>m_next := Some a\<rparr>)"
    have "lseg (m_links ?h) (q_head q) (ys @ [t]) (Some a)"
      using lseg_relink [OF seg t(2)] by (simp add: m_links_upd)
    then have "lseg (m_links ?h) (q_head q) ((ys @ [t]) @ [a]) None"
      unfolding lseg_end [of _ _ "ys @ [t]"] using a(1) t(3) by (simp add: m_links_upd unlinked_def)
    then have "queue_holds ?h (q\<lparr>q_tail := Some a\<rparr>) (xs @ [a])"
      using a q snoc by (simp add: queue_holds_def)
    then show ?thesis using f t(1) m by (simp add: enqueue_def setnext_def)
  qed
next
  fix h h' :: "nat \<Rightarrow> 'b message option" and q q' xs a b
  assume "queue_holds h q xs" "enqueue a h q = Some (h', q')"
  from enqueue_cases [OF this]
  show "msg_of h' b = msg_of h b \<and> (b \<notin> set xs \<longrightarrow> unlinked h b \<longrightarrow> unlinked h' b)"
    by (auto simp: msg_of_def unlinked_def m_links_upd)
next
  fix h h' :: "nat \<Rightarrow> 'b message option" and q q' xs a q2 ys
  assume q: "queue_holds h q xs" "enqueue a h q = Some (h', q')" and q2: "queue_holds h q2 ys" "set ys \<inter> set xs = {}"
  have "m_links h' b = m_links h b" if "b \<in> set ys" for b
    using enqueue_cases [OF q] q2(2) that last_in_set [of xs] by (auto simp: m_links_upd disjoint_iff)
  with q2(1) show "queue_holds h' q2 ys"
    unfolding queue_holds_def by (metis lseg_cong)
next
  fix h :: "nat \<Rightarrow> 'b message option" and q
  assume "queue_holds h q []"
  then show "dequeue h q = Some (None, q)" by (simp add: queue_holds_def dequeue_def)
next
  fix h :: "nat \<Rightarrow> 'b message option" and q a xs
  assume "queue_holds h q (a # xs)"
  then show "\<exists>q'. dequeue h q = Some (Some a, q') \<and> queue_holds h q' xs"
    by (auto simp: queue_holds_def dequeue_def m_links_Some split: option.splits if_splits)
qed


section \<open>Posting and the processing thread\<close>

record 'p ipacm_queues =
  msgs :: "nat \<Rightarrow> 'p message option"
  inst_internal :: msg_queue
  inst_external :: msg_queue
  busy :: "nat option"

definition ipacm_queues_new :: "'p ipacm_queues" where
  "ipacm_queues_new = \<lparr>msgs = (\<lambda>_. None), inst_internal = empty_queue, inst_external = empty_queue, busy = None\<rparr>"

text \<open>\<open>PostEvt\<close>; \<open>item\<close> is the result of \<open>new\<close>. The locks of the thread library are left out.\<close>

definition PostEvt :: "nat option \<Rightarrow> nat \<Rightarrow> 'p \<Rightarrow> 'p ipacm_queues \<Rightarrow> (int \<times> 'p ipacm_queues) option" where
  "PostEvt item event data s =
     (case item of
        None \<Rightarrow> Some (- 1, s)
      | Some a \<Rightarrow>
          (let h = (msgs s)(a \<mapsto> \<lparr>m_event = event, m_data = data, m_next = None\<rparr>) in
           if event < IPA_EXTERNAL_EVENT_MAX then
             (case enqueue a h (inst_external s) of
                None \<Rightarrow> None
              | Some (h, q) \<Rightarrow> Some (0, s\<lparr>msgs := h, inst_external := q\<rparr>))
           else
             (case enqueue a h (inst_internal s) of
                None \<Rightarrow> None
              | Some (h, q) \<Rightarrow> Some (0, s\<lparr>msgs := h, inst_internal := q\<rparr>))))"

text \<open>
  One turn of the loop of \<open>Process\<close> up to the callback: \<open>busy\<close> is its variable \<open>item\<close>, the message
  taken, or \<open>None\<close> when the thread waits. \<open>delete_item\<close> is what it does after the callback.
\<close>

definition take_item :: "'p ipacm_queues \<Rightarrow> 'p ipacm_queues option" where
  "take_item s =
     (case dequeue (msgs s) (inst_internal s) of
        None \<Rightarrow> None
      | Some (Some a, q) \<Rightarrow> Some (s\<lparr>inst_internal := q, busy := Some a\<rparr>)
      | Some (None, q) \<Rightarrow>
          (case dequeue (msgs s) (inst_external s) of
             None \<Rightarrow> None
           | Some (r, q2) \<Rightarrow> Some (s\<lparr>inst_internal := q, inst_external := q2, busy := r\<rparr>)))"

definition delete_item :: "'p ipacm_queues \<Rightarrow> 'p ipacm_queues" where
  "delete_item s =
     (case busy s of None \<Rightarrow> s | Some a \<Rightarrow> s\<lparr>msgs := (msgs s)(a := None), busy := None\<rparr>)"

text \<open>
  The two queues as lists of messages, internal and external; the message the thread works on is
  in neither.
\<close>

definition queues_hold :: "'p ipacm_queues \<Rightarrow> (nat \<times> 'p) list \<Rightarrow> (nat \<times> 'p) list \<Rightarrow> bool" where
  "queues_hold s is es \<longleftrightarrow>
     (\<exists>xs ys. queue_holds (msgs s) (inst_internal s) xs \<and> queue_holds (msgs s) (inst_external s) ys \<and>
        set xs \<inter> set ys = {} \<and> map (msg_of (msgs s)) xs = map Some is \<and> map (msg_of (msgs s)) ys = map Some es \<and>
        (\<forall>a. busy s = Some a \<longrightarrow> a \<notin> set xs \<and> a \<notin> set ys \<and> msgs s a \<noteq> None))"

lemma queues_holdI:
  "queue_holds (msgs s) (inst_internal s) xs \<Longrightarrow> queue_holds (msgs s) (inst_external s) ys \<Longrightarrow>
   set xs \<inter> set ys = {} \<Longrightarrow> map (msg_of (msgs s)) xs = map Some is \<Longrightarrow>
   map (msg_of (msgs s)) ys = map Some es \<Longrightarrow>
   (\<And>a. busy s = Some a \<Longrightarrow> a \<notin> set xs \<and> a \<notin> set ys \<and> msg_of (msgs s) a \<noteq> None) \<Longrightarrow> queues_hold s is es"
  by (auto simp: queues_hold_def msg_of_def)

lemma queue_holds_cong:
  "queue_holds h q xs \<Longrightarrow> (\<And>a. a \<in> set xs \<Longrightarrow> h' a = h a) \<Longrightarrow> queue_holds h' q xs"
  unfolding queue_holds_def using lseg_cong [of xs "m_links h" "m_links h'"] by (simp add: m_links_def)

lemma queue_holds_live: "queue_holds h q xs \<Longrightarrow> a \<in> set xs \<Longrightarrow> h a \<noteq> None"
  unfolding queue_holds_def using lseg_cells [of "m_links h"] by (auto simp: m_links_def)

lemma msgs_upd: "a \<notin> set zs \<Longrightarrow> map (msg_of (h(a := v))) zs = map (msg_of h) zs"
  by (auto simp: msg_of_def)

lemma PostEvt_queues:
  assumes "queues_hold s is es" and "msgs s a = None"
  shows "\<exists>s'. PostEvt (Some a) event data s = Some (0, s') \<and>
    queues_hold s' (if event < IPA_EXTERNAL_EVENT_MAX then is else is @ [(event, data)])
      (if event < IPA_EXTERNAL_EVENT_MAX then es @ [(event, data)] else es)"
proof -
  obtain xs ys where q: "queue_holds (msgs s) (inst_internal s) xs" "queue_holds (msgs s) (inst_external s) ys"
    "set xs \<inter> set ys = {}" "map (msg_of (msgs s)) xs = map Some is" "map (msg_of (msgs s)) ys = map Some es"
    and busy: "\<And>b. busy s = Some b \<Longrightarrow> b \<notin> set xs \<and> b \<notin> set ys \<and> msgs s b \<noteq> None"
    using assms(1) unfolding queues_hold_def by blast
  let ?h = "(msgs s)(a \<mapsto> \<lparr>m_event = event, m_data = data, m_next = None\<rparr>)"
  have a: "a \<notin> set xs" "a \<notin> set ys" using queue_holds_live q(1,2) assms(2) by metis+
  have h: "queue_holds ?h (inst_internal s) xs" "queue_holds ?h (inst_external s) ys"
    using q(1,2) a by (auto elim!: queue_holds_cong)
  have ready: "unlinked ?h a" by (simp add: unlinked_def m_links_upd)
  have content: "map (msg_of ?h) xs = map Some is" "map (msg_of ?h) ys = map Some es" "msg_of ?h a = Some (event, data)"
    using q(4,5) a by (simp_all add: msgs_upd del: map_eq_conv) (simp add: msg_of_def)
  have disj: "set ys \<inter> set xs = {}" using q(3) by auto
  have busy': "b \<notin> set xs \<and> b \<notin> set ys \<and> b \<noteq> a \<and> msg_of ?h b \<noteq> None" if "busy s = Some b" for b
    using busy [OF that] assms(2) by (auto simp: msg_of_def)
  show ?thesis
  proof (cases "event < IPA_EXTERNAL_EVENT_MAX")
    case True
    obtain h' q' where e: "enqueue a ?h (inst_external s) = Some (h', q')" "queue_holds h' q' (ys @ [a])"
      "queue_holds h' (inst_internal s) xs" "msg_of h' = msg_of ?h"
      using mq.enq_both [OF h(2,1) q(3) ready a(2)] by blast
    have "queues_hold (s\<lparr>msgs := h', inst_external := q'\<rparr>) is (es @ [(event, data)])"
      by (rule queues_holdI [of _ xs "ys @ [a]"]) (use e(2,3) e(4) q(3) a content busy' in auto)
    with True e(1) show ?thesis by (simp add: PostEvt_def)
  next
    case False
    obtain h' q' where e: "enqueue a ?h (inst_internal s) = Some (h', q')" "queue_holds h' q' (xs @ [a])"
      "queue_holds h' (inst_external s) ys" "msg_of h' = msg_of ?h"
      using mq.enq_both [OF h(1,2) disj ready a(1)] by blast
    have "queues_hold (s\<lparr>msgs := h', inst_internal := q'\<rparr>) (is @ [(event, data)]) es"
      by (rule queues_holdI [of _ "xs @ [a]" ys]) (use e(2,3) e(4) q(3) a content busy' in auto)
    with False e(1) show ?thesis by (simp add: PostEvt_def)
  qed
qed

lemma take_item_queues:
  assumes "queues_hold s is es"
  shows "\<exists>s'. take_item s = Some s' \<and> queues_hold s' (tl is) (if is = [] then tl es else es) \<and>
    Option.bind (busy s') (msg_of (msgs s')) = (case is @ es of [] \<Rightarrow> None | m # _ \<Rightarrow> Some m) \<and>
    (busy s' = None \<longleftrightarrow> is @ es = [])"
proof -
  obtain xs ys where q: "queue_holds (msgs s) (inst_internal s) xs" "queue_holds (msgs s) (inst_external s) ys"
    "set xs \<inter> set ys = {}" "map (msg_of (msgs s)) xs = map Some is" "map (msg_of (msgs s)) ys = map Some es"
    using assms(1) unfolding queues_hold_def by blast
  show ?thesis
  proof (cases xs)
    case Nil
    then have "is = []" using q(4) by simp
    obtain q1 where d1: "dequeue (msgs s) (inst_internal s) = Some (None, q1)" "queue_holds (msgs s) q1 []"
      using mq.deq_total [OF q(1)] Nil by auto
    obtain q2 where d2: "dequeue (msgs s) (inst_external s) = Some (case ys of [] \<Rightarrow> None | a # _ \<Rightarrow> Some a, q2)"
      "queue_holds (msgs s) q2 (tl ys)"
      using mq.deq_total [OF q(2)] by auto
    have "queues_hold (s\<lparr>inst_internal := q1, inst_external := q2, busy := (case ys of [] \<Rightarrow> None | a # _ \<Rightarrow> Some a)\<rparr>)
        [] (tl es)"
      by (rule queues_holdI [of _ "[]" "tl ys"])
        (use d1 d2 q(2,5) in \<open>auto simp: map_tl queue_holds_def Cons_eq_map_conv split: list.splits\<close>)
    then show ?thesis using \<open>is = []\<close> d1 d2 q(5)
      by (cases ys; cases es) (auto simp: take_item_def)
  next
    case (Cons a as)
    obtain q1 where d1: "dequeue (msgs s) (inst_internal s) = Some (Some a, q1)" "queue_holds (msgs s) q1 as"
      using mq.deq_total [OF q(1)] Cons by auto
    have d: "a \<notin> set as" "a \<notin> set ys" "set as \<inter> set ys = {}" "is \<noteq> []" "msg_of (msgs s) a = Some (hd is)"
      "map (msg_of (msgs s)) as = map Some (tl is)"
      using Cons q by (auto simp: queue_holds_def)
    have "queues_hold (s\<lparr>inst_internal := q1, busy := Some a\<rparr>) (tl is) es"
      by (rule queues_holdI [of _ as ys]) (use d d1 q(2,5) in simp_all)
    then show ?thesis using d1 d(4,5) by (cases "is") (auto simp: take_item_def)
  qed
qed

lemma delete_item_queues: "queues_hold s is es \<Longrightarrow> queues_hold (delete_item s) is es \<and> busy (delete_item s) = None"
proof (cases "busy s")
  case (Some a)
  assume "queues_hold s is es"
  then obtain xs ys where q: "queue_holds (msgs s) (inst_internal s) xs" "queue_holds (msgs s) (inst_external s) ys"
    "set xs \<inter> set ys = {}" "map (msg_of (msgs s)) xs = map Some is" "map (msg_of (msgs s)) ys = map Some es"
    and a: "a \<notin> set xs" "a \<notin> set ys"
    using Some unfolding queues_hold_def by blast
  have "queues_hold (s\<lparr>msgs := (msgs s)(a := None), busy := None\<rparr>) is es"
    by (rule queues_holdI [of _ xs ys])
      (use q a in \<open>auto elim!: queue_holds_cong simp: msgs_upd simp del: map_eq_conv\<close>)
  then show ?thesis by (simp add: delete_item_def Some)
qed (simp add: delete_item_def)

section \<open>Runs of the queues\<close>

text \<open>
  What happens to the queues, in the order of the mutex: any thread posts a message, and the
  processing thread takes one when it is idle and deletes it after the callback.
\<close>

datatype 'p q_action = Posted nat 'p | Taken nat 'p

inductive q_run :: "'p ipacm_queues \<Rightarrow> 'p q_action list \<Rightarrow> bool" where
  start: "q_run ipacm_queues_new []"
| post: "q_run s as \<Longrightarrow> msgs s a = None \<Longrightarrow> PostEvt (Some a) event data s = Some (r, s') \<Longrightarrow>
    q_run s' (as @ [Posted event data])"
| take: "q_run s as \<Longrightarrow> busy s = None \<Longrightarrow> take_item s = Some s' \<Longrightarrow> busy s' = Some a \<Longrightarrow>
    msgs s' a = Some m \<Longrightarrow> q_run s' (as @ [Taken (m_event m) (m_data m)])"
| finish: "q_run s as \<Longrightarrow> q_run (delete_item s) as"

definition posted :: "(nat \<Rightarrow> bool) \<Rightarrow> 'p q_action list \<Rightarrow> (nat \<times> 'p) list" where
  "posted P as = concat (map (\<lambda>x. case x of Posted e d \<Rightarrow> if P e then [(e, d)] else [] | Taken e d \<Rightarrow> []) as)"

definition taken :: "(nat \<Rightarrow> bool) \<Rightarrow> 'p q_action list \<Rightarrow> (nat \<times> 'p) list" where
  "taken P as = concat (map (\<lambda>x. case x of Posted e d \<Rightarrow> [] | Taken e d \<Rightarrow> if P e then [(e, d)] else []) as)"

definition external :: "nat \<Rightarrow> bool" where "external e \<longleftrightarrow> e < IPA_EXTERNAL_EVENT_MAX"

definition internal :: "nat \<Rightarrow> bool" where "internal e \<longleftrightarrow> \<not> external e"

lemma posted_snoc [simp]:
  "posted P (as @ [Posted e d]) = posted P as @ (if P e then [(e, d)] else [])"
  "posted P (as @ [Taken e d]) = posted P as"
  "taken P (as @ [Posted e d]) = taken P as"
  "taken P (as @ [Taken e d]) = taken P as @ (if P e then [(e, d)] else [])"
  by (simp_all add: posted_def taken_def)

lemma posted_P: "m \<in> set (posted P as) \<Longrightarrow> P (fst m)"
  by (auto simp: posted_def split: q_action.splits if_splits)

lemma q_run_queues:
  "q_run s as \<Longrightarrow> \<exists>is es. queues_hold s is es \<and> posted internal as = taken internal as @ is \<and>
     posted external as = taken external as @ es"
proof (induction rule: q_run.induct)
  case start
  have "queues_hold ipacm_queues_new [] []"
    by (rule queues_holdI [of _ "[]" "[]"]) (simp_all add: ipacm_queues_new_def empty_queue_def queue_holds_def)
  then show ?case by (auto simp: posted_def taken_def)
next
  case (post s as a event data r s')
  then obtain "is" es where q: "queues_hold s is es" "posted internal as = taken internal as @ is"
    "posted external as = taken external as @ es" by blast
  from PostEvt_queues [OF q(1) post.hyps(2), of event data] post.hyps(3)
  have "queues_hold s' (if external event then is else is @ [(event, data)])
      (if external event then es @ [(event, data)] else es)"
    by (auto simp: external_def)
  with q(2,3) internal_def [of event] show ?case by (cases "external event") auto
next
  case (take s as s' a m)
  then obtain "is" es where q: "queues_hold s is es" "posted internal as = taken internal as @ is"
    "posted external as = taken external as @ es" by blast
  from take_item_queues [OF q(1)] take.hyps(3-5)
  have t: "queues_hold s' (tl is) (if is = [] then tl es else es)" "is @ es \<noteq> []"
    "hd (is @ es) = (m_event m, m_data m)"
    by (auto simp: msg_of_def split: list.splits)
  show ?case
  proof (cases "is")
    case (Cons i is2)
    then have i: "i = (m_event m, m_data m)" using t(3) by simp
    have "i \<in> set (posted internal as)" using q(2) Cons by simp
    then have "internal (m_event m)" "\<not> external (m_event m)" using posted_P i by (fastforce simp: internal_def)+
    with t(1) q(2,3) Cons i show ?thesis by auto
  next
    case Nil
    then obtain e es2 where e: "es = e # es2" "e = (m_event m, m_data m)" using t(2,3) by (cases es) auto
    have "e \<in> set (posted external as)" using q(3) e(1) by simp
    then have "external (m_event m)" "\<not> internal (m_event m)" using posted_P e(2) by (fastforce simp: internal_def)+
    with t(1) q(2,3) Nil e show ?thesis by auto
  qed
next
  case (finish s as)
  then show ?case using delete_item_queues by blast
qed

section \<open>Properties\<close>

text \<open>
  C17: The two queues are first in, first out and lose nothing: in every run of posting and
  processing, what has been taken is a prefix of what has been posted, for the internal and for
  the external events, the queues hold the rest, and none of the pointer operations touches a
  deleted message, although the tail pointer dangles whenever a queue is empty.
\<close>

theorem queues_are_fifo:
  assumes "q_run s as"
  shows "\<exists>is es. queues_hold s is es \<and> posted internal as = taken internal as @ is \<and>
    posted external as = taken external as @ es \<and> take_item s \<noteq> None \<and>
    (\<forall>a event data. msgs s a = None \<longrightarrow> PostEvt (Some a) event data s \<noteq> None)"
proof -
  obtain "is" es where q: "queues_hold s is es" "posted internal as = taken internal as @ is"
    "posted external as = taken external as @ es" using q_run_queues [OF assms] by blast
  moreover have "take_item s \<noteq> None" using take_item_queues [OF q(1)] by auto
  moreover have "PostEvt (Some a) event data s \<noteq> None" if "msgs s a = None" for a event data
    using PostEvt_queues [OF q(1) that, of event data] by auto
  ultimately show ?thesis by blast
qed

text \<open>A run that empties the external queue, posts again over the dangling tail, and takes twice.\<close>

definition queues_demo :: "string ipacm_queues" where
  "queues_demo =
     (let s1 = snd (the (PostEvt (Some 1) 3 ''a'' ipacm_queues_new));
          s2 = delete_item (the (take_item s1));
          s3 = snd (the (PostEvt (Some 1) 4 ''b'' s2))
      in snd (the (PostEvt (Some 2) 41 ''c'' s3)))"

lemma queues_demo_run: "q_run queues_demo [Posted 3 ''a'', Taken 3 ''a'', Posted 4 ''b'', Posted 41 ''c'']"
proof -
  let ?s1 = "snd (the (PostEvt (Some 1) 3 ''a'' ipacm_queues_new)) :: string ipacm_queues"
  let ?t = "the (take_item ?s1)"
  let ?s2 = "delete_item ?t"
  let ?s3 = "snd (the (PostEvt (Some 1) 4 ''b'' ?s2))"
  have "q_run ?s1 ([] @ [Posted 3 ''a''])"
    by (rule q_run.post [OF q_run.start, where a = 1 and r = 0]) (simp_all add: ipacm_queues_new_def PostEvt_def
      enqueue_def empty_queue_def IPA_EXTERNAL_EVENT_MAX_def)
  then have "q_run ?t (([] @ [Posted 3 ''a'']) @ [Taken (m_event \<lparr>m_event = 3, m_data = ''a'', m_next = None\<rparr>)
      (m_data \<lparr>m_event = 3, m_data = ''a'', m_next = None\<rparr>)])"
    by (rule q_run.take [where a = 1]) (simp_all add: ipacm_queues_new_def PostEvt_def take_item_def dequeue_def
      enqueue_def empty_queue_def IPA_EXTERNAL_EVENT_MAX_def)
  from q_run.finish [OF this] have "q_run ?s2 [Posted 3 ''a'', Taken 3 ''a'']" by simp
  then have "q_run ?s3 ([Posted 3 ''a'', Taken 3 ''a''] @ [Posted 4 ''b''])"
    by (rule q_run.post [where a = 1 and r = 0]) (simp_all add: ipacm_queues_new_def PostEvt_def take_item_def dequeue_def
      enqueue_def empty_queue_def IPA_EXTERNAL_EVENT_MAX_def delete_item_def)
  then have "q_run queues_demo (([Posted 3 ''a'', Taken 3 ''a''] @ [Posted 4 ''b'']) @ [Posted 41 ''c''])"
    by (rule q_run.post [where a = 2 and r = 0]) (simp_all add: ipacm_queues_new_def PostEvt_def take_item_def dequeue_def
      enqueue_def empty_queue_def IPA_EXTERNAL_EVENT_MAX_def delete_item_def queues_demo_def)
  then show ?thesis by simp
qed

theorem queues_are_fifo_witness: "take_item queues_demo \<noteq> None"
  using queues_are_fifo [OF queues_demo_run] by blast

text \<open>
  C19: The processing thread takes an external event only when no internal one is waiting: every
  internal event posted before has been taken.
\<close>

theorem internal_events_first:
  assumes "q_run s as" and "take_item s = Some s'" and "busy s' = Some a" and "msgs s' a = Some m"
    and "external (m_event m)"
  shows "posted internal as = taken internal as"
proof -
  obtain "is" es where q: "queues_hold s is es" "posted internal as = taken internal as @ is"
    using q_run_queues [OF assms(1)] by blast
  have "is = []"
  proof (rule ccontr)
    assume "is \<noteq> []"
    then have "internal (fst (hd is))" using posted_P [of "hd is" internal as] q(2) by (cases "is") auto
    moreover have "hd is = (m_event m, m_data m)"
      using take_item_queues [OF q(1)] assms(2-4) \<open>is \<noteq> []\<close> by (cases "is") (auto simp: msg_of_def)
    ultimately show False using assms(5) by (simp add: internal_def)
  qed
  with q(2) show ?thesis by simp
qed


text \<open>With an external event waiting, an internal one posted later is still taken first.\<close>

definition internal_demo :: "string ipacm_queues" where
  "internal_demo = delete_item (the (take_item queues_demo))"

theorem internal_events_first_witness:
  "posted internal [Posted 3 ''a'', Taken 3 ''a'', Posted 4 ''b'', Posted 41 ''c'', Taken 41 ''c''] =
   taken internal [Posted 3 ''a'', Taken 3 ''a'', Posted 4 ''b'', Posted 41 ''c'', Taken 41 ''c'']"
proof -
  have "q_run (the (take_item queues_demo)) ([Posted 3 ''a'', Taken 3 ''a'', Posted 4 ''b'', Posted 41 ''c''] @
      [Taken (m_event \<lparr>m_event = 41, m_data = ''c'', m_next = None\<rparr>) (m_data \<lparr>m_event = 41, m_data = ''c'', m_next = None\<rparr>)])"
    by (rule q_run.take [OF queues_demo_run, where a = 2]) (simp_all add: ipacm_queues_new_def PostEvt_def take_item_def
      dequeue_def enqueue_def empty_queue_def IPA_EXTERNAL_EVENT_MAX_def delete_item_def queues_demo_def setnext_def)
  from q_run.finish [OF this]
  have run: "q_run internal_demo [Posted 3 ''a'', Taken 3 ''a'', Posted 4 ''b'', Posted 41 ''c'', Taken 41 ''c'']"
    by (simp add: internal_demo_def)
  show ?thesis
    by (rule internal_events_first [OF run, where s' = "the (take_item internal_demo)" and a = 1 and
          m = "\<lparr>m_event = 4, m_data = ''b'', m_next = None\<rparr>"])
      (simp_all add: ipacm_queues_new_def PostEvt_def take_item_def external_def internal_demo_def setnext_def
      dequeue_def enqueue_def empty_queue_def IPA_EXTERNAL_EVENT_MAX_def delete_item_def queues_demo_def)
qed


text \<open>
  \<open>registr\<close> puts a registration behind all others, and \<open>deregistr\<close> removes every registration
  of an object and keeps the others in their order, wherever the object's cells lie in the list;
  neither touches a freed cell.
\<close>

theorem registrations_in_order:
  assumes "registered s rs" and "en_cells s a = None"
  shows "\<exists>s1 s2. registr (Some a) event obj s = Some (0, s1) \<and> registered s1 (rs @ [(event, obj)]) \<and>
    deregistr param s1 = Some (0, s2) \<and>
    registered s2 (filter (\<lambda>r. snd r \<noteq> param) rs @ (if obj = param then [] else [(event, obj)]))"
proof -
  obtain s1 where s1: "registr (Some a) event obj s = Some (0, s1)" "registered s1 (rs @ [(event, obj)])"
    using registr_appends [OF assms] by blast
  obtain s2 where "deregistr param s1 = Some (0, s2)"
    "registered s2 (filter (\<lambda>r. snd r \<noteq> param) (rs @ [(event, obj)]))"
    using deregistr_removes [OF s1(2)] by blast
  with s1 show ?thesis by auto
qed

text \<open>Object 7 is registered twice, with another one in between.\<close>

definition dispatch_demo :: "nat dispatcher" where
  "dispatch_demo =
     \<lparr>en_cells = [1 \<mapsto> \<lparr>en_event = 3, en_obj = 7, en_next = Some 5\<rparr>, 5 \<mapsto> \<lparr>en_event = 4, en_obj = 8, en_next = Some 2\<rparr>,
        2 \<mapsto> \<lparr>en_event = 4, en_obj = 7, en_next = None\<rparr>], en_head = Some 1, event_stats = (\<lambda>_. 0), world = 0\<rparr>"

lemma dispatch_demo_registered: "registered dispatch_demo [(3, 7), (4, 8), (4, 7)]"
  unfolding registered_def by (rule exI [of _ "[1, 5, 2]"]) (simp add: dispatch_demo_def reg_cells_def en_links_def reg_of_def)

theorem registrations_in_order_witness:
  "\<exists>s1 s2. registr (Some 3) 4 9 dispatch_demo = Some (0, s1) \<and> deregistr 7 s1 = Some (0, s2) \<and>
     registered s2 [(4, 8), (4, 9)]"
  using registrations_in_order [OF dispatch_demo_registered, of 3 4 9 7] by (auto simp: dispatch_demo_def)

text \<open>
  When no callback changes the registrations, \<open>ProcessEvt\<close> calls exactly the objects
  registered for the event, once for each registration and in their order, and counts each call.
\<close>

theorem ProcessEvt_calls_registered:
  assumes "registered s rs" and "\<And>obj ev s s'. cb obj ev s = Some s' \<Longrightarrow> en_cells s' = en_cells s"
  shows "ProcessEvt cb event s = call_listeners cb event (map snd (filter (\<lambda>r. fst r = event) rs)) s"
proof -
  obtain xs where xs: "lseg (en_links (en_cells s)) (en_head s) xs None" "rs = map (reg_of (en_cells s)) xs"
    using assms(1) by (auto simp: registered_def reg_cells_def)
  show ?thesis unfolding ProcessEvt_def xs(2) by (rule process_loop_calls [OF xs(1) assms(2)])
qed

theorem ProcessEvt_calls_registered_witness:
  "map_option world (ProcessEvt (\<lambda>obj ev s. Some (s\<lparr>world := 10 * world s + obj\<rparr>)) 4 dispatch_demo) = Some 87"
  by (subst ProcessEvt_calls_registered [OF dispatch_demo_registered])
    (auto simp: call_listeners_def dispatch_demo_def)

text \<open>
  A callback may not deregister its own object when the object's next cell follows directly:
  \<open>ProcessEvt\<close> has copied the link, \<open>deregistr\<close> frees the cell behind it, and the loop reads freed
  memory. An interface object registers for several events in a row and deletes itself when one
  of them says that its link is gone.
\<close>

theorem self_deregistration_faults:
  assumes "registered s (ps @ (event, obj) # (event2, obj) # rs)" and "\<forall>p \<in> set ps. fst p \<noteq> event"
    and "\<And>s. cb obj event s = map_option snd (deregistr obj s)"
  shows "ProcessEvt cb event s = None"
proof -
  obtain xs where xs: "lseg (en_links (en_cells s)) (en_head s) xs None" "distinct xs"
    "map (reg_of (en_cells s)) xs = ps @ (event, obj) # (event2, obj) # rs"
    using assms(1) by (auto simp: registered_def reg_cells_def)
  then obtain qs a b ys where q: "xs = qs @ a # b # ys" "map (reg_of (en_cells s)) qs = ps"
    "reg_of (en_cells s) a = (event, obj)" "reg_of (en_cells s) b = (event2, obj)"
    by (auto simp: map_eq_append_conv map_eq_Cons_conv)
  obtain n where n: "lseg (en_links (en_cells s)) (en_head s) qs (Some a)" "en_cells s a = Some n" "en_next n = Some b"
    using xs(1) q(1) by (auto simp: lseg_append en_links_Some split: option.splits)
  have en: "en_event n = event" "en_obj n = obj" using q(3) n(2) by (simp_all add: reg_of_def)
  let ?s = "s\<lparr>event_stats := (event_stats s)(event := event_stats s event + 1)\<rparr>"
  obtain h' f where r: "dereg_loop obj (en_cells s) (en_head s) (en_head s) (en_head s) = Some (h', f)"
    "\<forall>c. c \<notin> set (keeps (en_cells s) obj xs) \<longrightarrow> h' c = (if c \<in> set xs then None else en_cells s c)"
    using dereg_loop_correct [of "en_cells s" "en_head s" "[]" "en_head s" xs "en_head s" obj] xs by auto
  have freed: "h' b = None" using r(2) q by (auto simp: keeps_def)
  have "process_loop cb event (Some a) s = process_loop cb event (Some b) (?s\<lparr>en_cells := h', en_head := f\<rparr>)"
    using n en assms(3) [of ?s] r(1) by (subst process_loop.simps) (simp add: deregistr_def)
  also have "\<dots> = None" using freed by (subst process_loop.simps) simp
  finally have fault: "process_loop cb event (Some a) s = None" .
  have "process_loop cb event p s = None" if "lseg (en_links (en_cells s)) p qs (Some a)"
    "\<forall>r \<in> set (map (reg_of (en_cells s)) qs). fst r \<noteq> event" for p
    using that
  proof (induction qs arbitrary: p)
    case Nil
    with fault show ?case by simp
  next
    case (Cons c qs)
    then obtain m where m: "p = Some c" "en_cells s c = Some m" "lseg (en_links (en_cells s)) (en_next m) qs (Some a)"
      by (auto simp: en_links_Some split: option.splits)
    with Cons.prems(2) have "en_event m \<noteq> event" by (simp add: reg_of_def)
    with Cons.IH [OF m(3)] Cons.prems(2) m show ?case by (subst process_loop.simps) auto
  qed
  with n(1) q(2) assms(2) show ?thesis by (auto simp: ProcessEvt_def)
qed

text \<open>The two registrations of a WAN interface object behind the one of its manager.\<close>

definition wan_demo :: "nat dispatcher" where
  "wan_demo =
     \<lparr>en_cells = [1 \<mapsto> \<lparr>en_event = 5, en_obj = 1, en_next = Some 2\<rparr>, 2 \<mapsto> \<lparr>en_event = 9, en_obj = 4, en_next = Some 3\<rparr>,
        3 \<mapsto> \<lparr>en_event = 11, en_obj = 4, en_next = None\<rparr>], en_head = Some 1, event_stats = (\<lambda>_. 0), world = 0\<rparr>"

lemma wan_demo_registered: "registered wan_demo ([(5, 1)] @ (9, 4) # (11, 4) # [])"
  unfolding registered_def by (rule exI [of _ "[1, 2, 3]"]) (simp add: wan_demo_def reg_cells_def en_links_def reg_of_def)

theorem self_deregistration_faults_witness:
  "ProcessEvt (\<lambda>obj ev s. map_option snd (deregistr obj s)) 9 wan_demo = None"
  by (rule self_deregistration_faults [OF wan_demo_registered]) simp_all

end
