(* ===== verification/Prefix_Parser.thy ===== *)
theory Prefix_Parser
  imports Ipa_Prelude
begin

text \<open>
  The prefixes of the tethering offload interface and their parser
  (\<open>hal/src/PrefixParser.cpp\<close>, types of \<open>hal/inc/IOffloadManager.h\<close>).

  \<open>inet_pton\<close> is a parameter: \<open>pton4\<close> gives the address as the memory of \<open>sin_addr.s_addr\<close> read by
  a little-endian host, \<open>pton6\<close> the sixteen bytes of \<open>s6_addr\<close>, both \<open>None\<close> where \<open>inet_pton\<close> does
  not return 1. \<open>atoi\<close> is undefined for a number that is no \<open>int\<close>; that is the value \<open>None\<close> of
  \<open>atoi\<close> and of every operation that calls it.
\<close>

section \<open>Types\<close>

datatype ip_fam = V4 | V6 | INVALID

record prefix =
  fam :: ip_fam
  v4Addr :: u32
  v4Mask :: u32
  v6Addr :: "u32 list"
  v6Mask :: "u32 list"

record inet_lib =
  pton4 :: "string \<Rightarrow> u32 option"
  pton6 :: "string \<Rightarrow> u8 list option"

record parser =
  mPrefixes :: "prefix list"
  mLastErr :: string

definition parser_new :: parser where
  "parser_new = \<lparr>mPrefixes = [], mLastErr = ''No Err''\<rparr>"

definition makeBlankPrefix :: "ip_fam \<Rightarrow> prefix" where
  "makeBlankPrefix famHint =
     \<lparr>fam = famHint, v4Addr = 0, v4Mask = 0, v6Addr = [0, 0, 0, 0], v6Mask = [0, 0, 0, 0]\<rparr>"

section \<open>Numbers and strings\<close>

text \<open>\<open>std::to_string\<close> and \<open>atoi\<close> of the C++ library.\<close>

definition digit :: "nat \<Rightarrow> char" where
  "digit d = char_of (48 + d)"

fun nat_str :: "nat \<Rightarrow> string" where
  "nat_str n = (if n < 10 then [digit n] else nat_str (n div 10) @ [digit (n mod 10)])"

declare nat_str.simps [simp del]

definition to_string :: "int \<Rightarrow> string" where
  "to_string i = (if i < 0 then ''-'' @ nat_str (nat (- i)) else nat_str (nat i))"

definition isspace :: "char \<Rightarrow> bool" where
  "isspace c \<longleftrightarrow> of_char c = (32 :: nat) \<or> (9 \<le> (of_char c :: nat) \<and> (of_char c :: nat) \<le> 13)"

definition isdigit :: "char \<Rightarrow> bool" where
  "isdigit c \<longleftrightarrow> 48 \<le> (of_char c :: nat) \<and> (of_char c :: nat) \<le> 57"

definition digits_val :: "string \<Rightarrow> int" where
  "digits_val s = foldl (\<lambda>acc c. 10 * acc + (of_char c - 48)) 0 (takeWhile isdigit s)"

definition atoi :: "string \<Rightarrow> int option" where
  "atoi s =
     (let v = (case dropWhile isspace s of
                 [] \<Rightarrow> 0
               | c # r \<Rightarrow> if c = CHR ''-'' then - digits_val r else if c = CHR ''+'' then digits_val r
                          else digits_val (c # r))
      in if - (2 ^ 31) \<le> v \<and> v < 2 ^ 31 then Some v else None)"

definition guessIPFamily :: "string \<Rightarrow> ip_fam" where
  "guessIPFamily s = (case first_idx (\<lambda>c. c = CHR '':'') s of Some _ \<Rightarrow> V6 | None \<Rightarrow> V4)"

definition splitIntoAddrAndMask :: "string \<Rightarrow> (string \<times> string) option" where
  "splitIntoAddrAndMask s =
     (case first_idx (\<lambda>c. c = CHR ''/'') s of
        Some pos \<Rightarrow>
          if 1 \<le> pos then
            Some (take pos s, if pos < length s then drop (pos + 1) s else if pos = length s then [] else [])
          else None
      | None \<Rightarrow> Some (s, []))"

definition parseSubnetMask :: "string \<Rightarrow> ip_fam \<Rightarrow> int option" where
  "parseSubnetMask s famHint = (if s = [] then Some (if famHint = V6 then 128 else 32) else atoi s)"

section \<open>Addresses and masks\<close>

definition parseV4Addr :: "inet_lib \<Rightarrow> string \<Rightarrow> prefix \<Rightarrow> prefix option" where
  "parseV4Addr lib s out =
     (case pton4 lib s of None \<Rightarrow> None | Some a \<Rightarrow> Some (out\<lparr>v4Addr := htonl a\<rparr>))"

definition be32 :: "u8 list \<Rightarrow> nat \<Rightarrow> u32" where
  "be32 b i =
     push_bit 24 (ucast (b ! i)) OR push_bit 16 (ucast (b ! (i + 1))) OR push_bit 8 (ucast (b ! (i + 2))) OR
     ucast (b ! (i + 3))"

definition parseV6Addr :: "inet_lib \<Rightarrow> string \<Rightarrow> prefix \<Rightarrow> prefix option" where
  "parseV6Addr lib s out =
     (case pton6 lib s of
        None \<Rightarrow> None
      | Some b \<Rightarrow> Some (out\<lparr>v6Addr := [be32 b 0, be32 b 4, be32 b 8, be32 b 12]\<rparr>))"

definition createMask :: "int \<Rightarrow> u32" where
  "createMask msk =
     (if 32 \<le> msk then NOT 0
      else fold (\<lambda>i ret. if int i < msk then push_bit 1 ret OR 1 else push_bit 1 ret) [0..<32] 0)"

definition populateV4Mask :: "int \<Rightarrow> prefix \<Rightarrow> prefix option" where
  "populateV4Mask msk out = (if msk < 0 \<or> 32 < msk then None else Some (out\<lparr>v4Mask := createMask msk\<rparr>))"

definition populateV6Mask :: "int \<Rightarrow> prefix \<Rightarrow> prefix option" where
  "populateV6Mask msk out =
     (if msk < 0 \<or> 128 < msk then None
      else Some (snd (fold (\<lambda>i (msk, out).
             (if 32 < msk then msk - 32 else 0, out\<lparr>v6Mask := (v6Mask out)[i := createMask msk]\<rparr>))
           [0..<4] (msk, out))))"

definition isMaskValid :: "int \<Rightarrow> ip_fam \<Rightarrow> parser \<Rightarrow> bool \<times> parser" where
  "isMaskValid msk f p =
     (if msk < 0 then (False, p\<lparr>mLastErr := ''Failed parse subnet mask('' @ to_string msk @ '')''\<rparr>)
      else if msk = 0 then (False, p\<lparr>mLastErr := ''Subnet mask cannot be 0('' @ to_string msk @ '')''\<rparr>)
      else if f = V4 \<and> 32 < msk then
        (False, p\<lparr>mLastErr := ''Interpreted address as V4 but mask was too large('' @ to_string msk @ '')''\<rparr>)
      else if f = V6 \<and> 128 < msk then
        (False, p\<lparr>mLastErr := ''Interpreted address as V6 but mask was too large('' @ to_string msk @ '')''\<rparr>)
      else (True, p))"

section \<open>Operations of the parser\<close>

text \<open>
  \<open>add(string, famHint)\<close>. The masks are written as the code writes them: the second test is the
  \<open>else\<close> of a conjunction, so a prefix of family V4 goes through \<open>populateV6Mask\<close> as well.
\<close>

definition fail_add :: "parser \<Rightarrow> string \<Rightarrow> (bool \<times> parser) option" where
  "fail_add p err = Some (False, p\<lparr>mLastErr := err\<rparr>)"

definition add_masks :: "int \<Rightarrow> string \<Rightarrow> ip_fam \<Rightarrow> prefix \<Rightarrow> parser \<Rightarrow> (bool \<times> parser) option" where
  "add_masks msk addr famHint pre p =
     (let err = (\<lambda>v. ''Failed to populate '' @ v @ '' Mask('' @ to_string msk @ '', '' @ addr @ '')'') in
      case (if famHint = V4 then populateV4Mask msk pre else Some pre) of
        None \<Rightarrow> fail_add p (err ''IPv4'')
      | Some pre \<Rightarrow>
          (case populateV6Mask msk pre of
             None \<Rightarrow> fail_add p (err ''IPv6'')
           | Some pre \<Rightarrow> Some (True, p\<lparr>mPrefixes := mPrefixes p @ [pre]\<rparr>)))"

definition add_string :: "inet_lib \<Rightarrow> string \<Rightarrow> ip_fam \<Rightarrow> parser \<Rightarrow> (bool \<times> parser) option" where
  "add_string lib s hint p =
     (if length s = 0 then fail_add p ''Failed to parse string, length = 0...''
      else
        (let famHint = (if hint = INVALID then guessIPFamily s else hint) in
         case splitIntoAddrAndMask s of
           None \<Rightarrow> fail_add p (''Failed to split into Address and Mask('' @ s @ '')'')
         | Some (addr, subnet) \<Rightarrow>
             (case parseSubnetMask subnet famHint of
                None \<Rightarrow> None
              | Some msk \<Rightarrow>
                  (case isMaskValid msk famHint p of
                     (False, p) \<Rightarrow> fail_add p ''Invalid mask''
                   | (True, p) \<Rightarrow>
                       (if famHint = V4 then
                          (case parseV4Addr lib addr (makeBlankPrefix famHint) of
                             None \<Rightarrow> fail_add p (''Failed to parse V4 Address('' @ addr @ '')'')
                           | Some pre \<Rightarrow> add_masks msk addr famHint pre p)
                        else
                          (case parseV6Addr lib addr (makeBlankPrefix famHint) of
                             None \<Rightarrow> fail_add p (''Failed to parse V6 Address('' @ addr @ '')'')
                           | Some pre \<Rightarrow> add_masks msk addr famHint pre p))))))"

text \<open>The loop over a vector of strings, and the public operations.\<close>

fun add_each :: "inet_lib \<Rightarrow> string list \<Rightarrow> ip_fam \<Rightarrow> parser \<Rightarrow> (bool \<times> parser) option" where
  "add_each lib [] hint p = Some (True, p)"
| "add_each lib (s # ss) hint p =
     (case add_string lib s hint p of
        None \<Rightarrow> None
      | Some (False, p) \<Rightarrow> Some (False, p)
      | Some (True, p) \<Rightarrow> add_each lib ss hint p)"

definition add_vector :: "inet_lib \<Rightarrow> string list \<Rightarrow> ip_fam \<Rightarrow> parser \<Rightarrow> (bool \<times> parser) option" where
  "add_vector lib ss hint p = (if ss = [] then Some (False, p) else add_each lib ss hint p)"

definition parser_add :: "inet_lib \<Rightarrow> string \<Rightarrow> parser \<Rightarrow> (bool \<times> parser) option" where
  "parser_add lib s p = add_string lib s INVALID p"

definition parser_add_all :: "inet_lib \<Rightarrow> string list \<Rightarrow> parser \<Rightarrow> (bool \<times> parser) option" where
  "parser_add_all lib ss p = add_vector lib ss INVALID p"

definition addV4 :: "inet_lib \<Rightarrow> string \<Rightarrow> parser \<Rightarrow> (bool \<times> parser) option" where
  "addV4 lib s p = add_string lib s V4 p"

definition addV4_all :: "inet_lib \<Rightarrow> string list \<Rightarrow> parser \<Rightarrow> (bool \<times> parser) option" where
  "addV4_all lib ss p = add_vector lib ss V4 p"

definition addV6 :: "inet_lib \<Rightarrow> string \<Rightarrow> parser \<Rightarrow> (bool \<times> parser) option" where
  "addV6 lib s p = add_string lib s V6 p"

definition addV6_all :: "inet_lib \<Rightarrow> string list \<Rightarrow> parser \<Rightarrow> (bool \<times> parser) option" where
  "addV6_all lib ss p = add_each lib ss V6 p"

definition parser_size :: "parser \<Rightarrow> nat" where
  "parser_size p = length (mPrefixes p)"

definition getFirstPrefix :: "ip_fam \<Rightarrow> parser \<Rightarrow> prefix" where
  "getFirstPrefix famHint p = (if 1 \<le> parser_size p then mPrefixes p ! 0 else makeBlankPrefix famHint)"

definition fully_qualified :: "prefix \<Rightarrow> bool" where
  "fully_qualified x \<longleftrightarrow>
     (if fam x = V4 then v4Addr x AND v4Mask x = v4Addr x
      else (\<forall>j < 4. (v6Addr x ! j) AND (v6Mask x ! j) = v6Addr x ! j))"

definition allAreFullyQualified :: "parser \<Rightarrow> bool" where
  "allAreFullyQualified p = list_all fully_qualified (mPrefixes p)"

section \<open>Numbers: reading back what is printed\<close>

lemma digit_code:
  assumes "d < 10"
  shows "of_char (digit d) = 48 + d" and "of_char (digit d) = 48 + int d"
proof -
  have "\<forall>d \<in> set [0..<10]. of_char (digit d) = 48 + d \<and> of_char (digit d) = 48 + int d" by code_simp
  with assms show "of_char (digit d) = 48 + d" and "of_char (digit d) = 48 + int d" by simp_all
qed

lemma nat_str_digits: "c \<in> set (nat_str n) \<Longrightarrow> isdigit c"
proof (induction n rule: nat_str.induct)
  case (1 n)
  from 1(2) have "n < 10 \<and> c = digit n \<or> \<not> n < 10 \<and> (c \<in> set (nat_str (n div 10)) \<or> c = digit (n mod 10))"
    by (subst (asm) nat_str.simps) (auto split: if_splits)
  with 1(1) show ?case by (auto simp: isdigit_def digit_code)
qed

lemma nat_str_not_Nil: "nat_str n \<noteq> []"
  by (subst nat_str.simps) simp

lemma digits_val_snoc: "(\<And>x. x \<in> set s \<Longrightarrow> isdigit x) \<Longrightarrow> isdigit c \<Longrightarrow>
    digits_val (s @ [c]) = 10 * digits_val s + (of_char c - 48)"
  by (simp add: digits_val_def takeWhile_append2 takeWhile_eq_all_conv [THEN iffD2])

lemma digits_val_nat_str: "digits_val (nat_str n) = int n"
proof (induction n rule: nat_str.induct)
  case (1 n)
  show ?case
  proof (cases "n < 10")
    case True
    then show ?thesis by (subst nat_str.simps) (simp add: digits_val_def digit_code isdigit_def)
  next
    case False
    have "isdigit (digit (n mod 10))" by (simp add: isdigit_def digit_code)
    with False 1 have "digits_val (nat_str n) = 10 * int (n div 10) + int (n mod 10)"
      by (subst nat_str.simps) (simp add: digits_val_snoc nat_str_digits digit_code(2) [of "n mod 10"] del: of_nat_mod of_nat_div zdiv_int zmod_int)
    also have "\<dots> = int n" by presburger
    finally show ?thesis .
  qed
qed

lemma not_isspace_digit: "isdigit c \<Longrightarrow> \<not> isspace c"
  by (auto simp: isdigit_def isspace_def)

lemma sign_not_digit: "\<not> isdigit (CHR ''-'')" "\<not> isdigit (CHR ''+'')"
  by code_simp+

lemma atoi_nat_str:
  assumes "n < 2 ^ 31"
  shows "atoi (nat_str n) = Some (int n)"
proof -
  obtain c r where c: "nat_str n = c # r" using nat_str_not_Nil by (cases "nat_str n") auto
  then have "isdigit c" using nat_str_digits [of c n] by simp
  then have "\<not> isspace c" "c \<noteq> CHR ''-''" "c \<noteq> CHR ''+''"
    using not_isspace_digit sign_not_digit by metis+
  then show ?thesis using digits_val_nat_str [of n] assms unfolding c atoi_def Let_def by simp
qed

section \<open>Masks\<close>

text \<open>\<open>createMask m\<close> has exactly its first \<open>m\<close> bits set, counted from the front.\<close>

lemma create_step:
  "bit (if b then push_bit 1 w OR 1 else push_bit 1 w) i \<longleftrightarrow> (if i = 0 then b else i < 32 \<and> bit w (i - 1))"
  for w :: u32
proof -
  have shifted: "bit (push_bit 1 w) i = (i \<noteq> 0 \<and> i < 32 \<and> bit w (i - 1))" by (simp only: bit_push_bit_iff) auto
  have one: "bit (1 :: u32) i = (i = 0)" by (simp add: bit_simps)
  show ?thesis unfolding if_distrib [of "\<lambda>x. bit x i"] bit_or_iff shifted one
    by (cases "i = 0"; cases b) (simp_all only: if_True if_False simp_thms if_bool_eq_conj)
qed

lemma create_loop:
  "bit (fold (\<lambda>i ret. if int i < m then push_bit 1 ret OR 1 else push_bit 1 ret) [0..<k] (0 :: u32)) i \<longleftrightarrow>
   i < k \<and> i < 32 \<and> int (k - 1 - i) < m"
proof (induction k arbitrary: i)
  case 0
  then show ?case by simp
next
  case (Suc k)
  have "k - 1 - (i - 1) = Suc k - 1 - i" if "i \<noteq> 0" using that by simp
  then show ?case unfolding upt_Suc fold_append by (cases "i = 0") (auto simp: create_step Suc.IH simp del: push_bit_eq_mult)
qed

lemma createMask_bit: "i < 32 \<Longrightarrow> bit (createMask m) (31 - i) \<longleftrightarrow> int i < m"
  by (auto simp: createMask_def create_loop bit_simps)

lemma populateV4Mask_bits:
  "populateV4Mask m x = Some x' \<Longrightarrow> i < 32 \<Longrightarrow> bit (v4Mask x') (31 - i) \<longleftrightarrow> int i < m"
  by (auto simp: populateV4Mask_def createMask_bit split: if_splits)

lemma populateV6Mask_masks:
  assumes "0 \<le> m" and "m \<le> 128" and "length (v6Mask x) = 4"
  shows "populateV6Mask m x =
    Some (x\<lparr>v6Mask := [createMask m, createMask (m - 32), createMask (m - 64), createMask (m - 96)]\<rparr>)"
proof -
  have pos: "createMask (if 0 < a then a else 0) = createMask a" for a
  proof (rule bit_word_eqI)
    fix i assume "i < LENGTH(32)"
    then show "bit (createMask (if 0 < a then a else 0)) i = bit (createMask a) i"
      using createMask_bit [of "31 - i" a] createMask_bit [of "31 - i" 0] by (cases "0 < a") simp_all
  qed
  define r where "r = (\<lambda>k :: int. if 32 < k then k - 32 else 0)"
  have "r m = (if 0 < m - 32 then m - 32 else 0)" "r (r m) = (if 0 < m - 64 then m - 64 else 0)"
    "r (r (r m)) = (if 0 < m - 96 then m - 96 else 0)"
    by (auto simp: r_def)
  then have r: "createMask (r m) = createMask (m - 32)" "createMask (r (r m)) = createMask (m - 64)"
    "createMask (r (r (r m))) = createMask (m - 96)"
    by (simp_all only: pos)
  obtain a b c d where x: "v6Mask x = [a, b, c, d]"
    using assms(3) by (auto simp: numeral_eq_Suc length_Suc_conv)
  have idx: "[0..<4] = [0, 1, 2, 3 :: nat]" by code_simp
  have "populateV6Mask m x = Some (x\<lparr>v6Mask := [createMask m, createMask (r m), createMask (r (r m)),
      createMask (r (r (r m)))]\<rparr>)"
    using assms(1,2) unfolding populateV6Mask_def idx by (simp add: x r_def)
  then show ?thesis unfolding r .
qed

lemma populateV6Mask_bits:
  assumes "populateV6Mask m x = Some x'" and "length (v6Mask x) = 4" and "i < 128"
  shows "bit (v6Mask x' ! (i div 32)) (31 - i mod 32) \<longleftrightarrow> int i < m"
proof -
  have m: "0 \<le> m" "m \<le> 128" using assms(1) by (auto simp: populateV6Mask_def split: if_splits)
  have x': "x' = x\<lparr>v6Mask := [createMask m, createMask (m - 32), createMask (m - 64), createMask (m - 96)]\<rparr>"
    using populateV6Mask_masks [OF m assms(2)] assms(1) by simp
  consider "i div 32 = 0" | "i div 32 = 1" | "i div 32 = 2" | "i div 32 = 3"
    using assms(3) by fastforce
  moreover have "int i = 32 * int (i div 32) + int (i mod 32)" by presburger
  ultimately show ?thesis
    by cases (simp_all add: x' createMask_bit del: of_nat_mod of_nat_div, linarith+)
qed

section \<open>What the parser accepts\<close>

text \<open>
  A prefix as the parser makes it: a known family, and masks whose first \<open>n\<close> bits are set, for a
  length \<open>n\<close> from 1 to the size of an address.
\<close>

definition prefix_ok :: "ip_fam \<Rightarrow> prefix \<Rightarrow> bool" where
  "prefix_ok f x \<longleftrightarrow> fam x = f \<and> f \<noteq> INVALID \<and> length (v6Addr x) = 4 \<and> length (v6Mask x) = 4 \<and>
     (\<exists>n. 1 \<le> n \<and> n \<le> (if f = V4 then 32 else 128) \<and>
        (f = V4 \<longrightarrow> (\<forall>i < 32. bit (v4Mask x) (31 - i) \<longleftrightarrow> i < n)) \<and>
        (\<forall>i < 128. bit (v6Mask x ! (i div 32)) (31 - i mod 32) \<longleftrightarrow> i < n))"

definition resolve :: "string \<Rightarrow> ip_fam \<Rightarrow> ip_fam" where
  "resolve s hint = (if hint = INVALID then guessIPFamily s else hint)"

lemma guessIPFamily_iff: "guessIPFamily s = (if CHR '':'' \<in> set s then V6 else V4)"
proof (cases "first_idx (\<lambda>c. c = CHR '':'') s")
  case None
  then have "CHR '':'' \<notin> set s" by auto
  then show ?thesis unfolding guessIPFamily_def None by simp
next
  case (Some i)
  then have "CHR '':'' \<in> set s" using first_idx_mem [OF Some] first_idx_SomeD(2) [OF Some] by simp
  with Some show ?thesis by (simp add: guessIPFamily_def)
qed

lemma resolve_valid: "resolve s hint \<noteq> INVALID"
  by (simp add: resolve_def guessIPFamily_def split: option.split)

lemma populateV6Mask_frame:
  assumes "populateV6Mask m x = Some x'" and "length (v6Mask x) = 4"
  shows "fam x' = fam x \<and> v4Addr x' = v4Addr x \<and> v4Mask x' = v4Mask x \<and> v6Addr x' = v6Addr x \<and> length (v6Mask x') = 4"
proof -
  have "0 \<le> m" "m \<le> 128" using assms(1) by (auto simp: populateV6Mask_def split: if_splits)
  from populateV6Mask_masks [OF this assms(2)] assms(1) show ?thesis by auto
qed

text \<open>\<open>add_masks\<close> after the length has been checked.\<close>

lemma add_masks_accepts:
  assumes "isMaskValid m f p = (True, p')" and "f \<noteq> INVALID" and "fam x = f" and "length (v6Addr x) = 4" "length (v6Mask x) = 4"
  shows "\<exists>y. add_masks m addr f x q = Some (True, q\<lparr>mPrefixes := mPrefixes q @ [y]\<rparr>) \<and> prefix_ok f y \<and>
    v4Addr y = v4Addr x \<and> v6Addr y = v6Addr x \<and>
    (f = V4 \<longrightarrow> (\<forall>i < 32. bit (v4Mask y) (31 - i) \<longleftrightarrow> int i < m)) \<and>
    (\<forall>i < 128. bit (v6Mask y ! (i div 32)) (31 - i mod 32) \<longleftrightarrow> int i < m)"
proof -
  have m: "1 \<le> m" "m \<le> (if f = V4 then 32 else 128)"
    using assms(1,2) by (cases f; simp add: isMaskValid_def split: if_splits)+
  define z where "z = (if f = V4 then x\<lparr>v4Mask := createMask m\<rparr> else x)"
  have z: "(if f = V4 then populateV4Mask m x else Some x) = Some z" "fam z = f" "length (v6Mask z) = 4"
    "v4Addr z = v4Addr x" "v6Addr z = v6Addr x"
    using m assms(3,5) by (auto simp: populateV4Mask_def z_def)
  have "0 \<le> m" "m \<le> 128" using m by (auto split: if_splits)
  from populateV6Mask_masks [OF this z(3)] obtain y where y: "populateV6Mask m z = Some y" by blast
  note y' = populateV6Mask_frame [OF y z(3)]
  have bits4: "f = V4 \<longrightarrow> (\<forall>i < 32. bit (v4Mask y) (31 - i) \<longleftrightarrow> int i < m)"
    using y' by (simp add: z_def createMask_bit)
  have bits6: "\<forall>i < 128. bit (v6Mask y ! (i div 32)) (31 - i mod 32) \<longleftrightarrow> int i < m"
    using populateV6Mask_bits [OF y z(3)] by blast
  obtain n where n: "m = int n" using \<open>0 \<le> m\<close> nonneg_int_cases by blast
  have "prefix_ok f y"
    unfolding prefix_ok_def using y' z assms(2,4) m bits4 bits6 n
    by (intro conjI exI [of _ n]) (auto split: if_splits)
  then show ?thesis using z y y' bits4 bits6 by (auto simp: add_masks_def)
qed

lemma makeBlank_fields [simp]:
  "fam (makeBlankPrefix f) = f" "length (v6Addr (makeBlankPrefix f)) = 4" "length (v6Mask (makeBlankPrefix f)) = 4"
  by (simp_all add: makeBlankPrefix_def)

lemma parse_addr_fields:
  "parseV4Addr lib s x = Some y \<Longrightarrow> fam y = fam x \<and> v6Addr y = v6Addr x \<and> v6Mask y = v6Mask x"
  "parseV6Addr lib s x = Some y \<Longrightarrow> fam y = fam x \<and> length (v6Addr y) = 4 \<and> v6Mask y = v6Mask x"
  by (auto simp: parseV4Addr_def parseV6Addr_def split: option.splits)

lemma add_string_result:
  assumes "add_string lib s hint p = Some (b, p')"
  shows "\<exists>ys. mPrefixes p' = mPrefixes p @ ys \<and> length ys = (if b then 1 else 0) \<and>
    (\<forall>y \<in> set ys. prefix_ok (resolve s hint) y)"
proof (cases b)
  case False
  have "mPrefixes (snd (isMaskValid m f p)) = mPrefixes p" for m f by (simp add: isMaskValid_def)
  then have frame: "isMaskValid m f p = (c, q) \<Longrightarrow> mPrefixes q = mPrefixes p" for m f c q by (metis snd_conv)
  have "mPrefixes p' = mPrefixes p"
    using assms False
    by (auto simp: add_string_def add_masks_def fail_add_def Let_def dest: frame
        split: if_splits option.splits prod.splits bool.splits)
  then show ?thesis using False by simp
next
  case True
  let ?f = "resolve s hint"
  obtain addr subnet m q x where *: "splitIntoAddrAndMask s = Some (addr, subnet)" "parseSubnetMask subnet ?f = Some m"
    "isMaskValid m ?f p = (True, q)" "add_masks m addr ?f x q = Some (True, p')"
    "fam x = ?f" "length (v6Addr x) = 4" "length (v6Mask x) = 4"
    using assms True
    by (auto simp: add_string_def fail_add_def Let_def resolve_def dest: parse_addr_fields
        split: if_splits option.splits prod.splits bool.splits)
  have "q = p" using *(3) by (auto simp: isMaskValid_def split: if_splits)
  with add_masks_accepts [OF *(3) resolve_valid *(5-7), of addr q] *(4) True show ?thesis by auto
qed

lemma add_each_appends:
  "add_each lib ss hint p = Some (b, p') \<Longrightarrow> \<exists>ys. mPrefixes p' = mPrefixes p @ ys \<and> length ys \<le> length ss \<and>
     (b \<longleftrightarrow> length ys = length ss) \<and> (\<forall>i < length ys. prefix_ok (resolve (ss ! i) hint) (ys ! i))"
proof (induction ss arbitrary: p)
  case Nil
  then show ?case by simp
next
  case (Cons s ss)
  then obtain c q where q: "add_string lib s hint p = Some (c, q)"
    by (auto split: option.splits)
  obtain ys where ys: "mPrefixes q = mPrefixes p @ ys" "length ys = (if c then 1 else 0)"
    "\<forall>y \<in> set ys. prefix_ok (resolve s hint) y"
    using add_string_result [OF q] by blast
  show ?case
  proof (cases c)
    case False
    with q Cons.prems ys show ?thesis by auto
  next
    case True
    with ys obtain y where y: "ys = [y]" by (cases ys) auto
    obtain zs where zs: "mPrefixes p' = mPrefixes q @ zs" "length zs \<le> length ss" "b \<longleftrightarrow> length zs = length ss"
      "\<forall>i < length zs. prefix_ok (resolve (ss ! i) hint) (zs ! i)"
      using Cons.IH [of q] q Cons.prems True by auto
    have "\<forall>i < Suc (length zs). prefix_ok (resolve ((s # ss) ! i) hint) ((y # zs) ! i)"
      using zs(4) ys(3) y by (auto simp: less_Suc_eq_0_disj)
    then show ?thesis using zs ys(1) y by (intro exI [of _ "y # zs"]) auto
  qed
qed

section \<open>Properties\<close>

text \<open>
  Adding a vector of strings appends one prefix for every string that was accepted, in order,
  stops at the first one that is not, and keeps what it has added before; it succeeds exactly when
  the vector is not empty and every string was accepted. Every prefix it adds has a known family,
  a mask of consecutive leading bits and at least one bit in it.
\<close>

theorem add_vector_appends:
  assumes "add_vector lib ss hint p = Some (b, p')"
  shows "\<exists>ys. mPrefixes p' = mPrefixes p @ ys \<and> length ys \<le> length ss \<and>
    (b \<longleftrightarrow> ss \<noteq> [] \<and> length ys = length ss) \<and>
    (\<forall>i < length ys. prefix_ok (resolve (ss ! i) hint) (ys ! i))"
  using assms add_each_appends [of lib ss hint p b p'] by (auto simp: add_vector_def split: if_splits)

text \<open>A library that knows one address of each family.\<close>

definition inet_demo :: inet_lib where
  "inet_demo =
     \<lparr>pton4 = (\<lambda>s. if s = ''10.0.0.1'' then Some 0x0100000a else None),
      pton6 = (\<lambda>s. if s = ''fd00::1'' then Some ([0xfd] @ replicate 14 0 @ [1]) else None)\<rparr>"

lemma add_vector_demo:
  "map_option (\<lambda>(b, p). (b, length (mPrefixes p))) (add_vector inet_demo [''10.0.0.1/8'', ''fd00::1'', ''x''] INVALID parser_new)
    = Some (False, 2)"
  by code_simp

theorem add_vector_appends_witness:
  "\<exists>b p' ys. add_vector inet_demo [''10.0.0.1/8'', ''fd00::1'', ''x''] INVALID parser_new = Some (b, p') \<and>
     mPrefixes p' = mPrefixes parser_new @ ys \<and> \<not> b \<and> length ys = 2 \<and> prefix_ok V4 (ys ! 0)"
proof -
  obtain b p' where r: "add_vector inet_demo [''10.0.0.1/8'', ''fd00::1'', ''x''] INVALID parser_new = Some (b, p')"
    "length (mPrefixes p') = 2"
    using add_vector_demo by auto
  have "resolve ''10.0.0.1/8'' INVALID = V4" by code_simp
  with add_vector_appends [OF r(1)] r show ?thesis by (fastforce simp: parser_new_def)
qed

text \<open>
  C35: An address that \<open>inet_pton\<close> accepts, with the length \<open>n\<close> printed behind a slash, parses back
  to that address, in host order, and to a mask of exactly its first \<open>n\<close> bits.
\<close>

theorem prefix_round_trip:
  assumes "addr \<noteq> []" and "CHR ''/'' \<notin> set addr" and "1 \<le> n" and "n \<le> (if f = V4 then 32 else 128)"
    and "f = (if CHR '':'' \<in> set addr then V6 else V4)"
    and "f = V4 \<Longrightarrow> pton4 lib addr = Some a" and "f = V6 \<Longrightarrow> pton6 lib addr = Some bs"
  shows "\<exists>y. parser_add lib (addr @ ''/'' @ to_string (int n)) p = Some (True, p\<lparr>mPrefixes := mPrefixes p @ [y]\<rparr>) \<and>
    fam y = f \<and> (f = V4 \<longrightarrow> v4Addr y = htonl a \<and> (\<forall>i < 32. bit (v4Mask y) (31 - i) \<longleftrightarrow> i < n)) \<and>
    (f = V6 \<longrightarrow> v6Addr y = [be32 bs 0, be32 bs 4, be32 bs 8, be32 bs 12] \<and>
       (\<forall>i < 128. bit (v6Mask y ! (i div 32)) (31 - i mod 32) \<longleftrightarrow> i < n))"
proof -
  let ?s = "addr @ ''/'' @ nat_str n"
  have s: "to_string (int n) = nat_str n" by (simp add: to_string_def)
  have "first_idx (\<lambda>c. c = CHR ''/'') ?s = Some (length addr)"
    using assms(2) first_idx_append [of addr "\<lambda>c. c = CHR ''/''" "CHR ''/''" "nat_str n"] by auto
  then have split: "splitIntoAddrAndMask ?s = Some (addr, nat_str n)"
    using assms(1) by (cases addr) (auto simp: splitIntoAddrAndMask_def)
  have "n < 2 ^ 31" using assms(4) by (simp split: if_splits)
  then have len: "parseSubnetMask (nat_str n) f = Some (int n)"
    by (simp add: parseSubnetMask_def nat_str_not_Nil atoi_nat_str)
  have colon: "CHR '':'' \<notin> set (nat_str n)"
  proof
    assume "CHR '':'' \<in> set (nat_str n)"
    then have "isdigit (CHR '':'')" by (rule nat_str_digits)
    moreover have "\<not> isdigit (CHR '':'')" by code_simp
    ultimately show False by blast
  qed
  have "guessIPFamily ?s = (if CHR '':'' \<in> set ?s then V6 else V4)" by (rule guessIPFamily_iff)
  also have "\<dots> = f" using colon assms(5) by simp
  finally have fam: "guessIPFamily ?s = f" .
  have f: "f = V4 \<or> f = V6" using assms(5) by simp
  define x where "x = (if f = V4 then (makeBlankPrefix f)\<lparr>v4Addr := htonl a\<rparr>
    else (makeBlankPrefix f)\<lparr>v6Addr := [be32 bs 0, be32 bs 4, be32 bs 8, be32 bs 12]\<rparr>)"
  have valid: "isMaskValid (int n) f p = (True, p)" "f \<noteq> INVALID"
    using assms(3,4) f by (auto simp: isMaskValid_def)
  have x: "fam x = f" "length (v6Addr x) = 4" "length (v6Mask x) = 4" by (simp_all add: x_def)
  obtain y where y: "add_masks (int n) addr f x p = Some (True, p\<lparr>mPrefixes := mPrefixes p @ [y]\<rparr>)" "prefix_ok f y"
    "v4Addr y = v4Addr x" "v6Addr y = v6Addr x"
    "f = V4 \<longrightarrow> (\<forall>i < 32. bit (v4Mask y) (31 - i) \<longleftrightarrow> int i < int n)"
    "\<forall>i < 128. bit (v6Mask y ! (i div 32)) (31 - i mod 32) \<longleftrightarrow> int i < int n"
    using add_masks_accepts [OF valid x] by blast
  have "parser_add lib ?s p = add_masks (int n) addr f x p"
    using f valid(1) assms(6,7) unfolding parser_add_def add_string_def split fam Let_def
    by (auto simp: len parseV4Addr_def parseV6Addr_def x_def)
  with y(1) have "parser_add lib (addr @ ''/'' @ to_string (int n)) p = Some (True, p\<lparr>mPrefixes := mPrefixes p @ [y]\<rparr>)"
    by (simp add: s)
  moreover have "fam y = f" using y(2) by (simp add: prefix_ok_def)
  moreover have "f = V4 \<longrightarrow> v4Addr y = htonl a \<and> (\<forall>i < 32. bit (v4Mask y) (31 - i) \<longleftrightarrow> i < n)"
    using y(3,5) by (simp add: x_def)
  moreover have "f = V6 \<longrightarrow> v6Addr y = [be32 bs 0, be32 bs 4, be32 bs 8, be32 bs 12] \<and>
      (\<forall>i < 128. bit (v6Mask y ! (i div 32)) (31 - i mod 32) \<longleftrightarrow> i < n)"
    using y(4,6) by (simp add: x_def)
  ultimately show ?thesis by blast
qed

theorem prefix_round_trip_witness:
  "\<exists>y. parser_add inet_demo (''10.0.0.1'' @ ''/'' @ to_string (int 8)) parser_new =
       Some (True, parser_new\<lparr>mPrefixes := mPrefixes parser_new @ [y]\<rparr>) \<and> v4Addr y = htonl 0x0100000a"
  using prefix_round_trip [where addr = "''10.0.0.1''" and n = 8 and f = V4 and lib = inet_demo and a = "0x0100000a"
      and bs = "[]" and p = parser_new]
  by (auto simp: inet_demo_def)

end
