(* ===== verification/Offload_Manager.thy ===== *)
theory Offload_Manager
  imports Prefix_Parser
begin

text \<open>
  The offload manager of ipacm (\<open>ipacm/src/IPACM_OffloadManager.cpp\<close>): the operations behind the
  tethering offload HAL, the cache of framework requests for interfaces that are not ready, and the
  replay of that cache when an interface becomes ready. The build is the one of \<open>Android.mk\<close>, with
  \<open>FEATURE_IPACM_RESTART\<close>.

  The kernel is the record \<open>offload_env\<close>: what \<open>socket\<close>, \<open>open\<close> and the \<open>ioctl\<close>s answer, the table of
  NAT interfaces of \<open>IPACM_Config\<close>, and which calls of \<open>malloc\<close> succeed (the state counts them).
  An event handed to \<open>IPACM_EvtDispatcher::PostEvt\<close> is appended to \<open>posted\<close>. Interface names are C
  strings; \<open>memcpy\<close> of \<open>IF_NAME_LEN\<close> bytes of one keeps its first \<open>IF_NAME_LEN\<close> characters, and what
  the copy reads behind the terminating zero is never looked at.
\<close>

section \<open>Types\<close>

datatype ret =
  FAIL_TOO_MANY_PREFIXES | FAIL_UNSUPPORTED | FAIL_INPUT_CHECK | FAIL_HARDWARE | FAIL_UNNEEDED | FAIL_TRY_AGAIN
| SUCCESS | SUCCESS_DUPLICATE_CONFIG | SUCCESS_NO_OP | SUCCESS_OPTIMIZED

datatype ip_type = IPA_IP_v4 | IPA_IP_v6

datatype event_id =
  IPA_CFG_CHANGE_EVENT | IPA_LINK_UP_EVENT | IPA_USB_LINK_UP_EVENT | IPA_WAN_UPSTREAM_ROUTE_ADD_EVENT
| IPA_WAN_UPSTREAM_ROUTE_DEL_EVENT | IPA_WLAN_AP_LINK_UP_EVENT | IPA_WLAN_STA_LINK_UP_EVENT | IPA_DOWNSTREAM_ADD
| IPA_DOWNSTREAM_DEL

text \<open>An event with its data: interface index, IP type of a route event, prefix or gateway.\<close>

record offload_event =
  oe_event :: event_id
  if_index :: int
  iptype :: ip_type
  oe_prefix :: prefix

record nat_iface =
  iface_name :: string
  v4_up :: bool
  v6_up :: bool

record offload_env =
  sock_ok :: bool
  siocgifindex :: "string \<Rightarrow> int option"
  pNatIfaces :: "nat_iface list"
  malloc_ok :: "nat \<Rightarrow> bool"
  open_ok :: bool
  quota_ioctl :: "string \<Rightarrow> 64 word \<Rightarrow> int"
  stats_ioctl :: "string \<Rightarrow> bool \<Rightarrow> (64 word \<times> 64 word) option"
  dup_fd :: "int \<Rightarrow> int"

record framework_event_cache =
  cache_event_id :: event_id
  dev_name :: string
  prefix_cache :: prefix
  prefix_cache_v6 :: prefix
  valid :: bool

definition MAX_EVENT_CACHE :: nat where "MAX_EVENT_CACHE = 10"

definition IF_NAME_LEN :: nat where "IF_NAME_LEN = 16"

definition IFNAMSIZ :: nat where "IFNAMSIZ = 16"

definition INVALID_IFACE :: int where "INVALID_IFACE = - 1"

definition ENODEV :: int where "ENODEV = 19"

text \<open>\<open>fd_tcp\<close>, \<open>fd_udp\<close> are those of the conntrack client; \<open>no_enobufs\<close> are the descriptors given to \<open>setsockopt\<close>.\<close>

record offload_manager =
  valid_ifaces :: "string list"
  upstream_v4_up :: bool
  upstream_v6_up :: bool
  default_gw_index :: int
  event_cache :: "framework_event_cache list"
  latest_cache_index :: nat
  elrInstance :: "nat option"
  touInstance :: "nat option"
  num_offload_v4_tethered_iface :: int
  fd_tcp :: int
  fd_udp :: int
  no_enobufs :: "int list"
  ct_threads :: nat
  posted_events :: "offload_event list"
  mallocs :: nat
  stat_resets :: "string list"

definition zero_prefix :: prefix where
  "zero_prefix = makeBlankPrefix V4"

definition empty_cache_entry :: framework_event_cache where
  "empty_cache_entry =
     \<lparr>cache_event_id = IPA_CFG_CHANGE_EVENT, dev_name = [], prefix_cache = zero_prefix,
      prefix_cache_v6 = zero_prefix, valid = False\<rparr>"

definition offload_manager_new :: offload_manager where
  "offload_manager_new =
     \<lparr>valid_ifaces = [], upstream_v4_up = False, upstream_v6_up = False, default_gw_index = INVALID_IFACE,
      event_cache = replicate MAX_EVENT_CACHE empty_cache_entry, latest_cache_index = 0, elrInstance = None,
      touInstance = None, num_offload_v4_tethered_iface = 0, fd_tcp = - 1, fd_udp = - 1, no_enobufs = [],
      ct_threads = 0, posted_events = [], mallocs = 0, stat_resets = []\<rparr>"

section \<open>Listeners and file descriptors\<close>

definition registerEventListener :: "nat \<Rightarrow> offload_manager \<Rightarrow> ret \<times> offload_manager" where
  "registerEventListener l m = (SUCCESS, m\<lparr>elrInstance := Some l\<rparr>)"

definition unregisterEventListener :: "offload_manager \<Rightarrow> ret \<times> offload_manager" where
  "unregisterEventListener m = (SUCCESS, if elrInstance m \<noteq> None then m\<lparr>elrInstance := None\<rparr> else m)"

definition registerCtTimeoutUpdater :: "nat \<Rightarrow> offload_manager \<Rightarrow> ret \<times> offload_manager" where
  "registerCtTimeoutUpdater l m = (SUCCESS, m\<lparr>touInstance := Some l\<rparr>)"

definition unregisterCtTimeoutUpdater :: "offload_manager \<Rightarrow> ret \<times> offload_manager" where
  "unregisterCtTimeoutUpdater m = (SUCCESS, if touInstance m \<noteq> None then m\<lparr>touInstance := None\<rparr> else m)"

text \<open>
  \<open>provideFd\<close>; the groups of the conntrack client are \<open>subscrips_tcp\<close> (update and destroy, 6) and
  \<open>subscrips_udp\<close> (new and destroy, 5). Both branches set the option on \<open>fd_tcp\<close>.
\<close>

definition subscrips_tcp :: nat where "subscrips_tcp = 6"

definition subscrips_udp :: nat where "subscrips_udp = 5"

definition provideFd :: "offload_env \<Rightarrow> int \<Rightarrow> nat \<Rightarrow> offload_manager \<Rightarrow> ret \<times> offload_manager" where
  "provideFd env fd groups m =
     (if - 1 < fd_tcp m \<and> - 1 < fd_udp m then (SUCCESS, m)
      else
        (let m = (if groups = subscrips_tcp then
                    (let m = m\<lparr>fd_tcp := dup_fd env fd\<rparr> in m\<lparr>no_enobufs := no_enobufs m @ [fd_tcp m]\<rparr>)
                  else if groups = subscrips_udp then
                    (let m = m\<lparr>fd_udp := dup_fd env fd\<rparr> in m\<lparr>no_enobufs := no_enobufs m @ [fd_tcp m]\<rparr>)
                  else m)
         in (SUCCESS, if 0 < fd_tcp m \<and> 0 < fd_udp m then m\<lparr>ct_threads := ct_threads m + 1\<rparr> else m)))"

definition clearAllFds :: "offload_manager \<Rightarrow> ret \<times> offload_manager" where
  "clearAllFds m = (SUCCESS, m)"

definition isStaApSupported :: bool where
  "isStaApSupported = True"

definition manager_setLocalPrefixes :: "prefix list \<Rightarrow> offload_manager \<Rightarrow> ret \<times> offload_manager" where
  "manager_setLocalPrefixes prefixes m = (SUCCESS, m)"

section \<open>Interfaces and events\<close>

text \<open>\<open>CheckNatIfaces\<close> of \<open>IPACM_Config\<close>: 0 when the interface is configured for the IP type.\<close>

definition CheckNatIfaces :: "offload_env \<Rightarrow> string \<Rightarrow> ip_type \<Rightarrow> int" where
  "CheckNatIfaces env name t =
     (case first_idx (\<lambda>n. iface_name n = name) (pNatIfaces env) of
        None \<Rightarrow> - 1
      | Some i \<Rightarrow>
          if t = IPA_IP_v4 \<and> v4_up (pNatIfaces env ! i) then 0
          else if t = IPA_IP_v6 \<and> v6_up (pNatIfaces env ! i) then 0
          else - 1)"

text \<open>\<open>strnlen(if_name, sizeof(if_name))\<close> looks at as many characters as a pointer has bytes.\<close>

definition sizeof_ptr :: nat where "sizeof_ptr = 8"

definition strnlen :: "string \<Rightarrow> nat \<Rightarrow> nat" where
  "strnlen s n = min (length s) n"

definition ipa_get_if_index :: "offload_env \<Rightarrow> string \<Rightarrow> int option" where
  "ipa_get_if_index env name =
     (if \<not> sock_ok env then None
      else if IFNAMSIZ \<le> strnlen name sizeof_ptr then None
      else siocgifindex env (take (IFNAMSIZ - 1) name))"

definition PostEvt_offload :: "offload_event \<Rightarrow> offload_manager \<Rightarrow> offload_manager" where
  "PostEvt_offload e m = m\<lparr>posted_events := posted_events m @ [e]\<rparr>"

definition malloc :: "offload_env \<Rightarrow> offload_manager \<Rightarrow> bool \<times> offload_manager" where
  "malloc env m = (malloc_ok env (mallocs m), m\<lparr>mallocs := mallocs m + 1\<rparr>)"

definition post_route_evt ::
  "offload_env \<Rightarrow> ip_type \<Rightarrow> int \<Rightarrow> event_id \<Rightarrow> prefix \<Rightarrow> offload_manager \<Rightarrow> offload_manager" where
  "post_route_evt env t idx event gw m =
     (case malloc env m of
        (False, m) \<Rightarrow> m
      | (True, m) \<Rightarrow> PostEvt_offload \<lparr>oe_event = event, if_index = idx, iptype = t, oe_prefix = gw\<rparr> m)"

text \<open>\<open>starts name p\<close> is \<open>strncmp(name, p, strlen(p)) == 0\<close>.\<close>

definition starts :: "string \<Rightarrow> string \<Rightarrow> bool" where
  "starts name p \<longleftrightarrow> take (length p) name = p"

definition push_link_evt :: "offload_env \<Rightarrow> event_id \<Rightarrow> int \<Rightarrow> offload_manager \<Rightarrow> bool \<times> offload_manager" where
  "push_link_evt env event idx m =
     (case malloc env m of
        (False, m) \<Rightarrow> (False, m)
      | (True, m) \<Rightarrow>
          (True, PostEvt_offload \<lparr>oe_event = event, if_index = idx, iptype = IPA_IP_v4, oe_prefix = zero_prefix\<rparr> m))"

definition push_iface_up :: "offload_env \<Rightarrow> string \<Rightarrow> bool \<Rightarrow> offload_manager \<Rightarrow> offload_manager" where
  "push_iface_up env name upstream m =
     (case ipa_get_if_index env name of
        None \<Rightarrow> m
      | Some idx \<Rightarrow>
          (case (if starts name ''rmnet_data'' \<and> upstream then push_link_evt env IPA_LINK_UP_EVENT idx m else (True, m)) of
             (False, m) \<Rightarrow> m
           | (True, m) \<Rightarrow>
          (case (if starts name ''rndis'' \<and> \<not> upstream then push_link_evt env IPA_USB_LINK_UP_EVENT idx m else (True, m)) of
             (False, m) \<Rightarrow> m
           | (True, m) \<Rightarrow>
          (case (if (starts name ''softap'' \<or> starts name ''wlan'') \<and> \<not> upstream
                 then push_link_evt env IPA_WLAN_AP_LINK_UP_EVENT idx m else (True, m)) of
             (False, m) \<Rightarrow> m
           | (True, m) \<Rightarrow>
               (if starts name ''wlan'' \<and> upstream then snd (push_link_evt env IPA_WLAN_STA_LINK_UP_EVENT idx m)
                else m)))))"

text \<open>
  The loop that puts a request into the cache, at the first free entry from \<open>latest_cache_index\<close> on;
  the index is never negative, so the test of that is left out.
\<close>

fun cache_request ::
  "nat \<Rightarrow> (framework_event_cache \<Rightarrow> framework_event_cache) \<Rightarrow> offload_manager \<Rightarrow> bool \<times> offload_manager" where
  "cache_request 0 fill m = (False, m)"
| "cache_request (Suc k) fill m =
     (let l = latest_cache_index m;
          m' = m\<lparr>latest_cache_index := (l + 1) mod MAX_EVENT_CACHE\<rparr>
      in if valid (event_cache m ! l) = False then (True, m'\<lparr>event_cache := (event_cache m)[l := fill (event_cache m ! l)]\<rparr>)
         else cache_request k fill m')"

definition cache_downstream :: "string \<Rightarrow> prefix \<Rightarrow> framework_event_cache \<Rightarrow> framework_event_cache" where
  "cache_downstream name pre c =
     c\<lparr>valid := True, cache_event_id := IPA_DOWNSTREAM_ADD, dev_name := take IF_NAME_LEN name, prefix_cache := pre\<rparr>"

definition cache_upstream :: "string \<Rightarrow> prefix \<Rightarrow> prefix \<Rightarrow> framework_event_cache \<Rightarrow> framework_event_cache" where
  "cache_upstream name gw4 gw6 c =
     c\<lparr>valid := True, cache_event_id := IPA_WAN_UPSTREAM_ROUTE_ADD_EVENT, dev_name := take IF_NAME_LEN name,
       prefix_cache := gw4, prefix_cache_v6 := gw6\<rparr>"

definition push_framework_event :: "string \<Rightarrow> prefix \<Rightarrow> offload_manager \<Rightarrow> bool \<times> offload_manager" where
  "push_framework_event name pre m = cache_request MAX_EVENT_CACHE (cache_downstream name pre) m"

definition needs_cache :: "offload_env \<Rightarrow> string \<Rightarrow> ip_fam \<Rightarrow> ip_fam \<Rightarrow> bool" where
  "needs_cache env name f4 f6 \<longleftrightarrow>
     f4 = V4 \<and> CheckNatIfaces env name IPA_IP_v4 \<noteq> 0 \<or> f6 = V6 \<and> CheckNatIfaces env name IPA_IP_v6 \<noteq> 0"

section \<open>Downstreams\<close>

definition downstream_evt ::
  "offload_env \<Rightarrow> event_id \<Rightarrow> int \<Rightarrow> prefix \<Rightarrow> offload_manager \<Rightarrow> ret \<times> offload_manager" where
  "downstream_evt env event idx pre m =
     (case malloc env m of
        (False, m) \<Rightarrow> (FAIL_HARDWARE, m)
      | (True, m) \<Rightarrow>
          (SUCCESS, PostEvt_offload \<lparr>oe_event = event, if_index = idx, iptype = IPA_IP_v4, oe_prefix = pre\<rparr> m))"

definition addDownstream :: "offload_env \<Rightarrow> string \<Rightarrow> prefix \<Rightarrow> offload_manager \<Rightarrow> ret \<times> offload_manager" where
  "addDownstream env name pre m =
     (case ipa_get_if_index env name of
        None \<Rightarrow> (FAIL_INPUT_CHECK, m)
      | Some idx \<Rightarrow>
          (let m = (if name \<notin> set (valid_ifaces m) then m\<lparr>valid_ifaces := valid_ifaces m @ [name]\<rparr> else m) in
           if needs_cache env name (fam pre) (fam pre) then
             (case cache_request MAX_EVENT_CACHE (cache_downstream name pre) m of
                (True, m) \<Rightarrow> (SUCCESS, m)
              | (False, m) \<Rightarrow> (FAIL_HARDWARE, m))
           else downstream_evt env IPA_DOWNSTREAM_ADD idx pre m))"

definition removeDownstream :: "offload_env \<Rightarrow> string \<Rightarrow> prefix \<Rightarrow> offload_manager \<Rightarrow> ret \<times> offload_manager" where
  "removeDownstream env name pre m =
     (if strnlen name sizeof_ptr = 0 then (FAIL_HARDWARE, m)
      else if name \<notin> set (valid_ifaces m) then (FAIL_HARDWARE, m)
      else
        (case ipa_get_if_index env name of
           None \<Rightarrow> (SUCCESS, m)
         | Some idx \<Rightarrow> downstream_evt env IPA_DOWNSTREAM_DEL idx pre m))"

section \<open>The upstream\<close>

text \<open>Taking the routes of one family down, posted with the index of the default gateway.\<close>

definition clean_v4 :: "offload_env \<Rightarrow> prefix \<Rightarrow> offload_manager \<Rightarrow> offload_manager" where
  "clean_v4 env gw m =
     (post_route_evt env IPA_IP_v4 (default_gw_index m) IPA_WAN_UPSTREAM_ROUTE_DEL_EVENT gw m)\<lparr>upstream_v4_up := False\<rparr>"

definition clean_v6 :: "offload_env \<Rightarrow> prefix \<Rightarrow> offload_manager \<Rightarrow> offload_manager" where
  "clean_v6 env gw m =
     (post_route_evt env IPA_IP_v6 (default_gw_index m) IPA_WAN_UPSTREAM_ROUTE_DEL_EVENT gw m)\<lparr>upstream_v6_up := False\<rparr>"

text \<open>\<open>setUpstream(NULL, ...)\<close>.\<close>

definition is_cached_upstream :: "framework_event_cache \<Rightarrow> bool" where
  "is_cached_upstream c \<longleftrightarrow> valid c \<and> cache_event_id c = IPA_WAN_UPSTREAM_ROUTE_ADD_EVENT"

definition remove_upstream :: "offload_env \<Rightarrow> prefix \<Rightarrow> prefix \<Rightarrow> offload_manager \<Rightarrow> ret \<times> offload_manager" where
  "remove_upstream env gw4 gw6 m =
     (if default_gw_index m = INVALID_IFACE then
        (if \<exists>c \<in> set (event_cache m). is_cached_upstream c then SUCCESS else FAIL_INPUT_CHECK,
         m\<lparr>event_cache := map (\<lambda>c. if is_cached_upstream c then c\<lparr>valid := False\<rparr> else c) (event_cache m)\<rparr>)
      else
        (let m = (if fam gw4 = V4 \<and> upstream_v4_up m then clean_v4 env gw4 m else m);
             m = (if fam gw6 = V6 \<and> upstream_v6_up m then clean_v6 env gw6 m else m)
         in (SUCCESS, m\<lparr>default_gw_index := INVALID_IFACE\<rparr>)))"

text \<open>Leaving the old upstream interface when the new one is another.\<close>

definition resetTetherStats :: "offload_env \<Rightarrow> string \<Rightarrow> offload_manager \<Rightarrow> offload_manager" where
  "resetTetherStats env name m =
     (if \<not> open_ok env then m
      else if IFNAMSIZ \<le> length name then m
      else m\<lparr>stat_resets := stat_resets m @ [name]\<rparr>)"

definition switch_upstream :: "offload_env \<Rightarrow> string \<Rightarrow> int \<Rightarrow> prefix \<Rightarrow> prefix \<Rightarrow> offload_manager \<Rightarrow> offload_manager" where
  "switch_upstream env name idx gw4 gw6 m =
     (if idx \<noteq> default_gw_index m then
        (let m = (if upstream_v4_up m then clean_v4 env gw4 m else m);
             m = (if upstream_v6_up m then clean_v6 env gw6 m else m);
             m = m\<lparr>default_gw_index := INVALID_IFACE\<rparr>
         in if name = ''wlan0'' then resetTetherStats env name m else m)
      else m)"

text \<open>Bringing the routes of one family up; an IPv6 gateway of zeros is ignored.\<close>

definition up_v4 :: "offload_env \<Rightarrow> int \<Rightarrow> prefix \<Rightarrow> offload_manager \<Rightarrow> offload_manager" where
  "up_v4 env idx gw m =
     (post_route_evt env IPA_IP_v4 idx IPA_WAN_UPSTREAM_ROUTE_ADD_EVENT gw m)\<lparr>upstream_v4_up := True\<rparr>"

definition up_v6 :: "offload_env \<Rightarrow> int \<Rightarrow> prefix \<Rightarrow> offload_manager \<Rightarrow> offload_manager" where
  "up_v6 env idx gw m =
     (if v6Addr gw ! 0 = 0 \<and> v6Addr gw ! 1 = 0 \<and> v6Addr gw ! 2 = 0 \<and> v6Addr gw ! 3 = 0 then m
      else (post_route_evt env IPA_IP_v6 idx IPA_WAN_UPSTREAM_ROUTE_ADD_EVENT gw m)\<lparr>upstream_v6_up := True\<rparr>)"

definition apply_upstream ::
  "offload_env \<Rightarrow> int \<Rightarrow> prefix \<Rightarrow> prefix \<Rightarrow> offload_manager \<Rightarrow> ret \<times> offload_manager" where
  "apply_upstream env idx gw4 gw6 m =
     (if fam gw4 = V4 \<and> fam gw6 = V6 then
        (let m = (if \<not> upstream_v4_up m then up_v4 env idx gw4 m else m);
             m = (if \<not> upstream_v6_up m then up_v6 env idx gw6 m else m)
         in (SUCCESS, m))
      else if fam gw4 = V4 then
        (let m = (if upstream_v6_up m \<and> default_gw_index m \<noteq> INVALID_IFACE then clean_v6 env gw6 m else m)
         in if \<not> upstream_v4_up m then (SUCCESS, up_v4 env idx gw4 m) else (SUCCESS_DUPLICATE_CONFIG, m))
      else if fam gw6 = V6 then
        (let m = (if upstream_v4_up m \<and> default_gw_index m \<noteq> INVALID_IFACE then clean_v4 env gw4 m else m)
         in if \<not> upstream_v6_up m then (SUCCESS, up_v6 env idx gw6 m) else (SUCCESS_DUPLICATE_CONFIG, m))
      else (SUCCESS, m))"

definition setUpstream ::
  "offload_env \<Rightarrow> string option \<Rightarrow> prefix \<Rightarrow> prefix \<Rightarrow> offload_manager \<Rightarrow> ret \<times> offload_manager" where
  "setUpstream env upstream gw4 gw6 m =
     (case upstream of
        None \<Rightarrow> remove_upstream env gw4 gw6 m
      | Some name \<Rightarrow>
          (case ipa_get_if_index env name of
             None \<Rightarrow> (FAIL_INPUT_CHECK, m)
           | Some idx \<Rightarrow>
               if needs_cache env name (fam gw4) (fam gw6) then
                 (case cache_request MAX_EVENT_CACHE (cache_upstream name gw4 gw6) (push_iface_up env name True m) of
                    (True, m) \<Rightarrow> (SUCCESS, m)
                  | (False, m) \<Rightarrow> (FAIL_HARDWARE, m))
               else
                 (case apply_upstream env idx gw4 gw6 (switch_upstream env name idx gw4 gw6 m) of
                    (r, m) \<Rightarrow> (r, m\<lparr>default_gw_index := idx\<rparr>))))"

definition stopAllOffload :: "offload_env \<Rightarrow> offload_manager \<Rightarrow> ret \<times> offload_manager" where
  "stopAllOffload env m =
     (case setUpstream env None (makeBlankPrefix V4) (makeBlankPrefix V6) m of
        (r, m) \<Rightarrow>
          (r, m\<lparr>default_gw_index := INVALID_IFACE, upstream_v4_up := False, upstream_v6_up := False,
                event_cache := replicate MAX_EVENT_CACHE empty_cache_entry, latest_cache_index := 0,
                valid_ifaces := [], num_offload_v4_tethered_iface := 0\<rparr>))"

section \<open>Quota and statistics\<close>

definition setQuota :: "offload_env \<Rightarrow> string \<Rightarrow> 64 word \<Rightarrow> ret" where
  "setQuota env name mb =
     (if \<not> open_ok env then FAIL_HARDWARE
      else if IFNAMSIZ \<le> length name then FAIL_INPUT_CHECK
      else if quota_ioctl env name mb \<noteq> 0 then
        (if quota_ioctl env name mb = ENODEV then FAIL_UNSUPPORTED else FAIL_TRY_AGAIN)
      else SUCCESS)"

text \<open>\<open>getStats\<close>: the result and, on success, the transmitted and received bytes.\<close>

definition getStats :: "offload_env \<Rightarrow> string \<Rightarrow> bool \<Rightarrow> ret \<times> 64 word \<times> 64 word" where
  "getStats env name reset_stats =
     (if \<not> open_ok env then (FAIL_HARDWARE, 0, 0)
      else if IFNAMSIZ \<le> length name then (FAIL_INPUT_CHECK, 0, 0)
      else
        (case stats_ioctl env name reset_stats of
           None \<Rightarrow> (FAIL_TRY_AGAIN, 0, 0)
         | Some (tx, rx) \<Rightarrow> (SUCCESS, tx, rx)))"

section \<open>Replaying the cache\<close>

text \<open>The loop of \<open>search_framwork_cache\<close> from entry \<open>i\<close> on, for the next \<open>k\<close> entries; \<open>rel\<close> is its result.\<close>

fun search_loop :: "offload_env \<Rightarrow> string \<Rightarrow> nat \<Rightarrow> nat \<Rightarrow> bool \<Rightarrow> offload_manager \<Rightarrow> bool \<times> offload_manager" where
  "search_loop env name 0 i rel m = (rel, m)"
| "search_loop env name (Suc k) i rel m =
     (let c = event_cache m ! i;
          done_with = (\<lambda>m. m\<lparr>event_cache := (event_cache m)[i := (event_cache m ! i)\<lparr>valid := False\<rparr>]\<rparr>)
      in if valid c \<and> take IF_NAME_LEN (dev_name c) = take IF_NAME_LEN name then
           (if cache_event_id c = IPA_DOWNSTREAM_ADD then
              (if needs_cache env (dev_name c) (fam (prefix_cache c)) (fam (prefix_cache c)) then (rel, m)
               else search_loop env name k (i + 1) True (done_with (snd (addDownstream env name (prefix_cache c) m))))
            else if cache_event_id c = IPA_WAN_UPSTREAM_ROUTE_ADD_EVENT then
              (if needs_cache env (dev_name c) (fam (prefix_cache c)) (fam (prefix_cache_v6 c)) then (rel, m)
               else search_loop env name k (i + 1) True
                      (done_with (snd (setUpstream env (Some name) (prefix_cache c) (prefix_cache_v6 c) m))))
            else search_loop env name k (i + 1) True (done_with m))
         else search_loop env name k (i + 1) rel m)"

definition search_framwork_cache :: "offload_env \<Rightarrow> string \<Rightarrow> offload_manager \<Rightarrow> bool \<times> offload_manager" where
  "search_framwork_cache env name m = search_loop env name MAX_EVENT_CACHE 0 False m"

section \<open>The routes that the posted events set up\<close>

text \<open>
  The contract with the listeners of the route events: an addition comes when the family has no
  route, a deletion names the interface of the route there is. \<open>hw_route\<close> is the route after a
  sequence of events, or the outer \<open>None\<close> when the contract was broken.
\<close>

definition route_step :: "ip_type \<Rightarrow> int option option \<Rightarrow> offload_event \<Rightarrow> int option option" where
  "route_step t st e =
     (case st of
        None \<Rightarrow> None
      | Some r \<Rightarrow>
          if iptype e = t \<and> oe_event e = IPA_WAN_UPSTREAM_ROUTE_ADD_EVENT then
            (if r = None then Some (Some (if_index e)) else None)
          else if iptype e = t \<and> oe_event e = IPA_WAN_UPSTREAM_ROUTE_DEL_EVENT then
            (if r = Some (if_index e) then Some None else None)
          else Some r)"

definition hw_route :: "ip_type \<Rightarrow> offload_event list \<Rightarrow> int option option" where
  "hw_route t es = foldl (route_step t) (Some None) es"

definition routes_ok :: "offload_manager \<Rightarrow> bool" where
  "routes_ok m \<longleftrightarrow>
     hw_route IPA_IP_v4 (posted_events m) = Some (if upstream_v4_up m then Some (default_gw_index m) else None) \<and>
     hw_route IPA_IP_v6 (posted_events m) = Some (if upstream_v6_up m then Some (default_gw_index m) else None) \<and>
     (upstream_v4_up m \<or> upstream_v6_up m \<longrightarrow> default_gw_index m \<noteq> INVALID_IFACE)"

text \<open>What the manager relies on: memory, and interface indices that are not \<open>INVALID_IFACE\<close>.\<close>

definition env_ok :: "offload_env \<Rightarrow> bool" where
  "env_ok env \<longleftrightarrow> (\<forall>n. malloc_ok env n) \<and> (\<forall>name. siocgifindex env name \<noteq> Some INVALID_IFACE)"

text \<open>The abstract upstream: the interface of each family's route.\<close>

definition routes_of :: "offload_manager \<Rightarrow> int option \<times> int option" where
  "routes_of m = (the (hw_route IPA_IP_v4 (posted_events m)), the (hw_route IPA_IP_v6 (posted_events m)))"

definition stay :: "int \<Rightarrow> int option \<Rightarrow> int option" where
  "stay idx r = (if r = Some idx then r else None)"

definition set_routes :: "int \<Rightarrow> prefix \<Rightarrow> prefix \<Rightarrow> int option \<times> int option \<Rightarrow> int option \<times> int option" where
  "set_routes idx gw4 gw6 rs =
     (if fam gw4 = V4 then Some idx else if fam gw6 = V6 then None else stay idx (fst rs),
      if fam gw6 = V6 then
        (if v6Addr gw6 ! 0 = 0 \<and> v6Addr gw6 ! 1 = 0 \<and> v6Addr gw6 ! 2 = 0 \<and> v6Addr gw6 ! 3 = 0
         then stay idx (snd rs) else Some idx)
      else if fam gw4 = V4 then None else stay idx (snd rs))"

definition upstream_spec ::
  "offload_env \<Rightarrow> string option \<Rightarrow> prefix \<Rightarrow> prefix \<Rightarrow> int option \<times> int option \<Rightarrow> int option \<times> int option" where
  "upstream_spec env upstream gw4 gw6 rs =
     (case upstream of
        None \<Rightarrow> (None, None)
      | Some name \<Rightarrow>
          (case ipa_get_if_index env name of
             None \<Rightarrow> rs
           | Some idx \<Rightarrow> if needs_cache env name (fam gw4) (fam gw6) then rs else set_routes idx gw4 gw6 rs))"

named_theorems route_simps \<open>the route events of the manager's steps\<close>

lemma hw_route_snoc [route_simps]: "hw_route t (es @ [e]) = route_step t (hw_route t es) e"
  by (simp add: hw_route_def)

lemma post_route_ok [route_simps]:
  "env_ok env \<Longrightarrow> post_route_evt env t idx event gw m =
     m\<lparr>mallocs := mallocs m + 1, posted_events := posted_events m @
       [\<lparr>oe_event = event, if_index = idx, iptype = t, oe_prefix = gw\<rparr>]\<rparr>"
  by (simp add: post_route_evt_def malloc_def PostEvt_offload_def env_ok_def)

lemmas route_defs = clean_v4_def clean_v6_def up_v4_def up_v6_def routes_ok_def route_step_def

lemma if_index_ok: "env_ok env \<Longrightarrow> ipa_get_if_index env name = Some idx \<Longrightarrow> idx \<noteq> INVALID_IFACE"
  by (auto simp: ipa_get_if_index_def env_ok_def split: if_splits)

text \<open>Each step of \<open>setUpstream\<close> on the routes.\<close>

lemma clean_v4_routes:
  "env_ok env \<Longrightarrow> routes_ok m \<Longrightarrow> upstream_v4_up m \<Longrightarrow> routes_ok (clean_v4 env gw m) \<and>
   \<not> upstream_v4_up (clean_v4 env gw m) \<and> upstream_v6_up (clean_v4 env gw m) = upstream_v6_up m \<and>
   default_gw_index (clean_v4 env gw m) = default_gw_index m"
  by (auto simp: route_defs route_simps)

lemma clean_v6_routes:
  "env_ok env \<Longrightarrow> routes_ok m \<Longrightarrow> upstream_v6_up m \<Longrightarrow> routes_ok (clean_v6 env gw m) \<and>
   \<not> upstream_v6_up (clean_v6 env gw m) \<and> upstream_v4_up (clean_v6 env gw m) = upstream_v4_up m \<and>
   default_gw_index (clean_v6 env gw m) = default_gw_index m"
  by (auto simp: route_defs route_simps)

text \<open>Before a route is added the default gateway is the interface of the new one, or there is no route.\<close>

definition ready_for :: "int \<Rightarrow> offload_manager \<Rightarrow> bool" where
  "ready_for idx m \<longleftrightarrow> routes_ok m \<and> (default_gw_index m = idx \<or> \<not> upstream_v4_up m \<and> \<not> upstream_v6_up m)"

lemma switch_upstream_ready:
  assumes "env_ok env" and "routes_ok m"
  shows "ready_for idx (switch_upstream env name idx gw4 gw6 m) \<and>
    upstream_v4_up (switch_upstream env name idx gw4 gw6 m) = (upstream_v4_up m \<and> default_gw_index m = idx) \<and>
    upstream_v6_up (switch_upstream env name idx gw4 gw6 m) = (upstream_v6_up m \<and> default_gw_index m = idx)"
proof (cases "idx = default_gw_index m")
  case True
  with assms(2) show ?thesis by (simp add: switch_upstream_def ready_for_def)
next
  case False
  define m1 where "m1 = (if upstream_v4_up m then clean_v4 env gw4 m else m)"
  have 1: "routes_ok m1" "\<not> upstream_v4_up m1"
    using clean_v4_routes [OF assms] assms(2) by (simp_all add: m1_def)
  define m2 where "m2 = (if upstream_v6_up m1 then clean_v6 env gw6 m1 else m1)"
  have 2: "routes_ok m2" "\<not> upstream_v4_up m2" "\<not> upstream_v6_up m2"
    using clean_v6_routes [OF assms(1) 1(1)] 1 by (simp_all add: m2_def)
  have "switch_upstream env name idx gw4 gw6 m =
      (let m3 = m2\<lparr>default_gw_index := INVALID_IFACE\<rparr> in if name = ''wlan0'' then resetTetherStats env name m3 else m3)"
    using False by (simp add: switch_upstream_def Let_def m1_def m2_def)
  with 2 False show ?thesis by (simp add: ready_for_def routes_ok_def Let_def resetTetherStats_def)
qed

definition up_flags :: "int \<Rightarrow> offload_manager \<Rightarrow> int option \<times> int option" where
  "up_flags idx m = (if upstream_v4_up m then Some idx else None, if upstream_v6_up m then Some idx else None)"

lemma up_v4_ready:
  assumes "env_ok env" and "ready_for idx m" and "\<not> upstream_v4_up m"
  shows "hw_route IPA_IP_v4 (posted_events (up_v4 env idx gw m)) = Some (Some idx) \<and>
    hw_route IPA_IP_v6 (posted_events (up_v4 env idx gw m)) = Some (if upstream_v6_up m then Some idx else None)"
  using assms by (auto simp: route_defs route_simps ready_for_def)

text \<open>The state between the additions and the last assignment of \<open>setUpstream\<close>.\<close>

definition halfway :: "int \<Rightarrow> offload_manager \<Rightarrow> bool" where
  "halfway idx m \<longleftrightarrow>
     hw_route IPA_IP_v4 (posted_events m) = Some (if upstream_v4_up m then Some idx else None) \<and>
     hw_route IPA_IP_v6 (posted_events m) = Some (if upstream_v6_up m then Some idx else None)"

lemma halfway_ready: "ready_for idx m \<Longrightarrow> halfway idx m"
  by (auto simp: ready_for_def routes_ok_def halfway_def)

lemma halfway_up_v4:
  "env_ok env \<Longrightarrow> halfway idx m \<Longrightarrow> \<not> upstream_v4_up m \<Longrightarrow> halfway idx (up_v4 env idx gw m) \<and>
   upstream_v4_up (up_v4 env idx gw m) \<and> upstream_v6_up (up_v4 env idx gw m) = upstream_v6_up m"
  by (auto simp: halfway_def up_v4_def route_step_def route_simps)

lemma halfway_up_v6:
  "env_ok env \<Longrightarrow> halfway idx m \<Longrightarrow> \<not> upstream_v6_up m \<Longrightarrow> halfway idx (up_v6 env idx gw m) \<and>
   upstream_v4_up (up_v6 env idx gw m) = upstream_v4_up m \<and>
   (upstream_v6_up (up_v6 env idx gw m) \<longleftrightarrow> \<not> (v6Addr gw ! 0 = 0 \<and> v6Addr gw ! 1 = 0 \<and> v6Addr gw ! 2 = 0 \<and> v6Addr gw ! 3 = 0))"
  by (auto simp: halfway_def up_v6_def route_step_def route_simps)

lemma clean_v4_ready:
  "env_ok env \<Longrightarrow> ready_for idx m \<Longrightarrow> upstream_v4_up m \<Longrightarrow> halfway idx (clean_v4 env gw m) \<and>
   \<not> upstream_v4_up (clean_v4 env gw m) \<and> upstream_v6_up (clean_v4 env gw m) = upstream_v6_up m"
  by (auto simp: ready_for_def halfway_def route_defs route_simps)

lemma clean_v6_ready:
  "env_ok env \<Longrightarrow> ready_for idx m \<Longrightarrow> upstream_v6_up m \<Longrightarrow> halfway idx (clean_v6 env gw m) \<and>
   \<not> upstream_v6_up (clean_v6 env gw m) \<and> upstream_v4_up (clean_v6 env gw m) = upstream_v4_up m"
  by (auto simp: ready_for_def halfway_def route_defs route_simps)

lemma apply_upstream_halfway:
  assumes env: "env_ok env" and m: "ready_for idx m"
  shows "halfway idx (snd (apply_upstream env idx gw4 gw6 m)) \<and>
    up_flags idx (snd (apply_upstream env idx gw4 gw6 m)) = set_routes idx gw4 gw6 (up_flags idx m)"
proof -
  have half: "halfway idx m" by (rule halfway_ready [OF m])
  have gw: "upstream_v4_up m \<or> upstream_v6_up m \<Longrightarrow> default_gw_index m \<noteq> INVALID_IFACE"
    using m by (simp add: ready_for_def routes_ok_def)
  consider (both) "fam gw4 = V4" "fam gw6 = V6" | (v4) "fam gw4 = V4" "fam gw6 \<noteq> V6"
    | (v6) "fam gw4 \<noteq> V4" "fam gw6 = V6" | (none) "fam gw4 \<noteq> V4" "fam gw6 \<noteq> V6" by blast
  then show ?thesis
  proof cases
    case both
    define m1 where "m1 = (if \<not> upstream_v4_up m then up_v4 env idx gw4 m else m)"
    have 1: "halfway idx m1" "upstream_v4_up m1" "upstream_v6_up m1 = upstream_v6_up m"
      using halfway_up_v4 [OF env half] half by (auto simp: m1_def)
    have "snd (apply_upstream env idx gw4 gw6 m) = (if \<not> upstream_v6_up m1 then up_v6 env idx gw6 m1 else m1)"
      using both by (simp add: apply_upstream_def Let_def m1_def)
    with 1 halfway_up_v6 [OF env 1(1), of gw6] both show ?thesis by (auto simp: up_flags_def set_routes_def stay_def)
  next
    case v4
    define m1 where "m1 = (if upstream_v6_up m \<and> default_gw_index m \<noteq> INVALID_IFACE then clean_v6 env gw6 m else m)"
    have 1: "halfway idx m1" "\<not> upstream_v6_up m1" "upstream_v4_up m1 = upstream_v4_up m"
      using clean_v6_ready [OF env m] half gw by (auto simp: m1_def)
    have "snd (apply_upstream env idx gw4 gw6 m) = (if \<not> upstream_v4_up m1 then up_v4 env idx gw4 m1 else m1)"
      using v4 by (simp add: apply_upstream_def Let_def m1_def)
    with 1 halfway_up_v4 [OF env 1(1), of gw4] v4 show ?thesis by (auto simp: up_flags_def set_routes_def)
  next
    case v6
    define m1 where "m1 = (if upstream_v4_up m \<and> default_gw_index m \<noteq> INVALID_IFACE then clean_v4 env gw4 m else m)"
    have 1: "halfway idx m1" "\<not> upstream_v4_up m1" "upstream_v6_up m1 = upstream_v6_up m"
      using clean_v4_ready [OF env m] half gw by (auto simp: m1_def)
    have "snd (apply_upstream env idx gw4 gw6 m) = (if \<not> upstream_v6_up m1 then up_v6 env idx gw6 m1 else m1)"
      using v6 by (simp add: apply_upstream_def Let_def m1_def)
    with 1 halfway_up_v6 [OF env 1(1), of gw6] v6 show ?thesis by (auto simp: up_flags_def set_routes_def stay_def)
  next
    case none
    with half show ?thesis by (auto simp: apply_upstream_def up_flags_def set_routes_def stay_def)
  qed
qed

lemma routes_of_flags: "halfway idx m \<Longrightarrow> routes_of m = up_flags idx m"
  by (simp add: halfway_def routes_of_def up_flags_def)

lemma cache_request_frame:
  "cache_request k fill m = (b, m') \<Longrightarrow> posted_events m' = posted_events m \<and> upstream_v4_up m' = upstream_v4_up m \<and>
   upstream_v6_up m' = upstream_v6_up m \<and> default_gw_index m' = default_gw_index m \<and> elrInstance m' = elrInstance m \<and>
   touInstance m' = touInstance m"
  by (induction k arbitrary: m) (fastforce simp: Let_def split: if_splits)+

text \<open>Link events are no route events.\<close>

lemma push_link_evt_routes:
  "event \<noteq> IPA_WAN_UPSTREAM_ROUTE_ADD_EVENT \<Longrightarrow> event \<noteq> IPA_WAN_UPSTREAM_ROUTE_DEL_EVENT \<Longrightarrow>
   push_link_evt env event idx m = (b, m') \<Longrightarrow> hw_route t (posted_events m') = hw_route t (posted_events m) \<and>
   upstream_v4_up m' = upstream_v4_up m \<and> upstream_v6_up m' = upstream_v6_up m \<and>
   default_gw_index m' = default_gw_index m \<and> elrInstance m' = elrInstance m \<and> touInstance m' = touInstance m"
  by (auto simp: push_link_evt_def malloc_def PostEvt_offload_def hw_route_snoc route_step_def
      split: prod.splits bool.splits option.splits)

lemma push_iface_up_routes:
  "hw_route t (posted_events (push_iface_up env name True m)) = hw_route t (posted_events m) \<and>
   upstream_v4_up (push_iface_up env name True m) = upstream_v4_up m \<and>
   upstream_v6_up (push_iface_up env name True m) = upstream_v6_up m \<and>
   default_gw_index (push_iface_up env name True m) = default_gw_index m \<and>
   elrInstance (push_iface_up env name True m) = elrInstance m \<and> touInstance (push_iface_up env name True m) = touInstance m"
proof (cases "ipa_get_if_index env name")
  case None
  then show ?thesis by (simp add: push_iface_up_def)
next
  case (Some idx)
  obtain b1 m1 where 1: "(if starts name ''rmnet_data'' then push_link_evt env IPA_LINK_UP_EVENT idx m else (True, m)) = (b1, m1)"
    by fastforce
  obtain b2 m2 where 2: "push_link_evt env IPA_WLAN_STA_LINK_UP_EVENT idx m1 = (b2, m2)" by fastforce
  have "push_iface_up env name True m = (if b1 \<and> starts name ''wlan'' then m2 else m1)"
    using Some 1 2 by (auto simp: push_iface_up_def split: bool.splits prod.splits if_splits)
  moreover have "hw_route t (posted_events m1) = hw_route t (posted_events m) \<and> upstream_v4_up m1 = upstream_v4_up m \<and>
      upstream_v6_up m1 = upstream_v6_up m \<and> default_gw_index m1 = default_gw_index m \<and> elrInstance m1 = elrInstance m \<and>
      touInstance m1 = touInstance m"
    using 1 push_link_evt_routes [of IPA_LINK_UP_EVENT env idx m b1 m1 t] by (auto split: if_splits)
  ultimately show ?thesis using push_link_evt_routes [OF _ _ 2, of t] by auto
qed

lemma routes_ok_cong:
  assumes "\<And>t. hw_route t (posted_events m') = hw_route t (posted_events m)" and "upstream_v4_up m' = upstream_v4_up m"
    and "upstream_v6_up m' = upstream_v6_up m" and "default_gw_index m' = default_gw_index m"
  shows "routes_ok m' = routes_ok m" and "routes_of m' = routes_of m"
  using assms by (simp_all add: routes_ok_def routes_of_def)

text \<open>Removing the upstream with a gateway of either family.\<close>

lemma remove_upstream_routes:
  assumes env: "env_ok env" and ok: "routes_ok m" and fams: "fam gw4 = V4" "fam gw6 = V6"
  shows "routes_ok (snd (remove_upstream env gw4 gw6 m)) \<and> routes_of (snd (remove_upstream env gw4 gw6 m)) = (None, None) \<and>
    \<not> upstream_v4_up (snd (remove_upstream env gw4 gw6 m)) \<and> \<not> upstream_v6_up (snd (remove_upstream env gw4 gw6 m))"
proof (cases "default_gw_index m = INVALID_IFACE")
  case True
  with ok show ?thesis by (simp add: remove_upstream_def routes_ok_def routes_of_def)
next
  case False
  define m1 where "m1 = (if upstream_v4_up m then clean_v4 env gw4 m else m)"
  have 1: "routes_ok m1" "\<not> upstream_v4_up m1"
    using clean_v4_routes [OF env ok] ok by (simp_all add: m1_def)
  define m2 where "m2 = (if upstream_v6_up m1 then clean_v6 env gw6 m1 else m1)"
  have 2: "routes_ok m2" "\<not> upstream_v4_up m2" "\<not> upstream_v6_up m2"
    using clean_v6_routes [OF env 1(1)] 1 by (simp_all add: m2_def)
  have "snd (remove_upstream env gw4 gw6 m) = m2\<lparr>default_gw_index := INVALID_IFACE\<rparr>"
    using False fams by (simp add: remove_upstream_def Let_def m1_def m2_def)
  with 2 show ?thesis by (simp add: routes_ok_def routes_of_def)
qed

text \<open>The whole operation against its specification.\<close>

lemma setUpstream_routes:
  assumes "env_ok env" and "routes_ok m" and "upstream = None \<Longrightarrow> fam gw4 = V4 \<and> fam gw6 = V6"
  shows "routes_ok (snd (setUpstream env upstream gw4 gw6 m)) \<and>
    routes_of (snd (setUpstream env upstream gw4 gw6 m)) = upstream_spec env upstream gw4 gw6 (routes_of m)"
proof (cases upstream)
  case None
  with remove_upstream_routes [OF assms(1,2)] assms(3) show ?thesis by (simp add: setUpstream_def upstream_spec_def)
next
  case (Some name)
  show ?thesis
  proof (cases "ipa_get_if_index env name")
    case None
    with Some assms(2) show ?thesis by (simp add: setUpstream_def upstream_spec_def)
  next
    case idx: (Some idx)
    show ?thesis
    proof (cases "needs_cache env name (fam gw4) (fam gw6)")
      case True
      obtain b m1 where m1: "cache_request MAX_EVENT_CACHE (cache_upstream name gw4 gw6) (push_iface_up env name True m) = (b, m1)"
        by fastforce
      have "snd (setUpstream env upstream gw4 gw6 m) = m1"
        using Some idx True m1 by (simp add: setUpstream_def split: bool.splits)
      moreover have "routes_ok m1 = routes_ok m" "routes_of m1 = routes_of m"
        by (rule routes_ok_cong; metis cache_request_frame [OF m1] push_iface_up_routes)+
      ultimately show ?thesis using Some idx True assms(2) by (simp add: upstream_spec_def)
    next
      case False
      define m1 where "m1 = switch_upstream env name idx gw4 gw6 m"
      note ready = switch_upstream_ready [OF assms(1,2), of idx name gw4 gw6, folded m1_def]
      have half: "halfway idx (snd (apply_upstream env idx gw4 gw6 m1))"
        "up_flags idx (snd (apply_upstream env idx gw4 gw6 m1)) = set_routes idx gw4 gw6 (up_flags idx m1)"
        using apply_upstream_halfway [OF assms(1)] ready by blast+
      have "snd (setUpstream env upstream gw4 gw6 m) = (snd (apply_upstream env idx gw4 gw6 m1))\<lparr>default_gw_index := idx\<rparr>"
        using Some idx False by (simp add: setUpstream_def m1_def split: prod.split)
      moreover have "set_routes idx gw4 gw6 (up_flags idx m1) = set_routes idx gw4 gw6 (routes_of m)"
        using ready assms(2) by (auto simp: set_routes_def up_flags_def routes_of_def routes_ok_def stay_def)
      moreover have "idx \<noteq> INVALID_IFACE" by (rule if_index_ok [OF assms(1) idx])
      ultimately show ?thesis using half routes_of_flags [OF half(1)] Some idx False
        by (auto simp: upstream_spec_def routes_ok_def halfway_def routes_of_def)
    qed
  qed
qed

section \<open>The cache of requests\<close>

definition cache_wf :: "offload_manager \<Rightarrow> bool" where
  "cache_wf m \<longleftrightarrow> length (event_cache m) = MAX_EVENT_CACHE \<and> latest_cache_index m < MAX_EVENT_CACHE"

lemma cache_request_spec:
  assumes "cache_request k fill m = (b, m')" and "cache_wf m"
  shows "cache_wf m' \<and> valid_ifaces m' = valid_ifaces m \<and>
    (if \<exists>j < k. \<not> valid (event_cache m ! ((latest_cache_index m + j) mod MAX_EVENT_CACHE))
     then b \<and> (\<exists>i < MAX_EVENT_CACHE. \<not> valid (event_cache m ! i) \<and>
            event_cache m' = (event_cache m)[i := fill (event_cache m ! i)])
     else \<not> b \<and> event_cache m' = event_cache m)"
  using assms
proof (induction k arbitrary: m)
  case 0
  then show ?case by simp
next
  case (Suc k)
  let ?l = "latest_cache_index m"
  let ?m = "m\<lparr>latest_cache_index := (?l + 1) mod MAX_EVENT_CACHE\<rparr>"
  have l: "?l < MAX_EVENT_CACHE" "?l mod MAX_EVENT_CACHE = ?l" using Suc.prems(2) by (simp_all add: cache_wf_def)
  show ?case
  proof (cases "valid (event_cache m ! ?l)")
    case False
    then have "\<exists>j < Suc k. \<not> valid (event_cache m ! ((?l + j) mod MAX_EVENT_CACHE))"
      using l(2) by (intro exI [of _ 0]) simp
    moreover have "b" "m' = ?m\<lparr>event_cache := (event_cache m)[?l := fill (event_cache m ! ?l)]\<rparr>"
      using Suc.prems(1) False by (simp_all add: Let_def)
    moreover have "(?l + 1) mod MAX_EVENT_CACHE < MAX_EVENT_CACHE" by (simp add: MAX_EVENT_CACHE_def)
    ultimately show ?thesis using False l(1) Suc.prems(2) by (auto simp: cache_wf_def)
  next
    case True
    have shift: "(Suc ?l mod MAX_EVENT_CACHE + j) mod MAX_EVENT_CACHE = Suc (?l + j) mod MAX_EVENT_CACHE" for j
      using mod_add_left_eq [of "Suc ?l" MAX_EVENT_CACHE j] by simp
    have iff: "(\<exists>j < Suc k. \<not> valid (event_cache m ! ((?l + j) mod MAX_EVENT_CACHE))) \<longleftrightarrow>
        (\<exists>j < k. \<not> valid (event_cache ?m ! ((latest_cache_index ?m + j) mod MAX_EVENT_CACHE)))"
      using True l(2) by (simp add: Ex_less_Suc2 shift)
    have wf: "cache_wf ?m" using Suc.prems(2) by (simp add: cache_wf_def MAX_EVENT_CACHE_def)
    have run: "cache_request k fill ?m = (b, m')" using Suc.prems(1) True by (simp add: Let_def)
    show ?thesis unfolding iff using Suc.IH [OF run wf] by (auto split: if_splits)
  qed
qed

lemma cache_round:
  assumes "l < MAX_EVENT_CACHE"
  shows "(\<exists>j < MAX_EVENT_CACHE. P ((l + j) mod MAX_EVENT_CACHE)) \<longleftrightarrow> (\<exists>i < MAX_EVENT_CACHE. P i)"
proof
  assume "\<exists>i < MAX_EVENT_CACHE. P i"
  then obtain i where i: "i < MAX_EVENT_CACHE" "P i" by blast
  let ?j = "(i + MAX_EVENT_CACHE - l) mod MAX_EVENT_CACHE"
  have "(l + ?j) mod MAX_EVENT_CACHE = (l + (i + MAX_EVENT_CACHE - l)) mod MAX_EVENT_CACHE" by (simp add: mod_add_right_eq)
  also have "\<dots> = i" using assms i(1) by simp
  finally show "\<exists>j < MAX_EVENT_CACHE. P ((l + j) mod MAX_EVENT_CACHE)"
    using i(2) by (intro exI [of _ ?j]) (simp add: MAX_EVENT_CACHE_def)
next
  have "(l + j) mod MAX_EVENT_CACHE < MAX_EVENT_CACHE" for j by (simp add: MAX_EVENT_CACHE_def)
  then show "\<exists>j < MAX_EVENT_CACHE. P ((l + j) mod MAX_EVENT_CACHE) \<Longrightarrow> \<exists>i < MAX_EVENT_CACHE. P i" by blast
qed

lemma cache_request_full:
  assumes "cache_request MAX_EVENT_CACHE fill m = (b, m')" and "cache_wf m"
  shows "cache_wf m' \<and> valid_ifaces m' = valid_ifaces m \<and>
    (if \<forall>c \<in> set (event_cache m). valid c then \<not> b \<and> event_cache m' = event_cache m
     else b \<and> (\<exists>i < MAX_EVENT_CACHE. \<not> valid (event_cache m ! i) \<and>
            event_cache m' = (event_cache m)[i := fill (event_cache m ! i)]))"
proof -
  have "(\<exists>j < MAX_EVENT_CACHE. \<not> valid (event_cache m ! ((latest_cache_index m + j) mod MAX_EVENT_CACHE))) \<longleftrightarrow>
      \<not> (\<forall>c \<in> set (event_cache m). valid c)"
    using cache_round [of "latest_cache_index m" "\<lambda>i. \<not> valid (event_cache m ! i)"] assms(2)
    unfolding cache_wf_def all_set_conv_all_nth by simp
  with cache_request_spec [OF assms] show ?thesis by auto
qed

section \<open>What every operation keeps\<close>

definition listeners :: "offload_manager \<Rightarrow> nat option \<times> nat option" where
  "listeners m = (elrInstance m, touInstance m)"

definition no_cached_upstream :: "offload_manager \<Rightarrow> bool" where
  "no_cached_upstream m \<longleftrightarrow> (\<forall>c \<in> set (event_cache m). \<not> is_cached_upstream c)"

text \<open>\<open>same_routes m m'\<close>: the step from \<open>m\<close> to \<open>m'\<close> has not touched routes or listeners.\<close>

definition same_routes :: "offload_manager \<Rightarrow> offload_manager \<Rightarrow> bool" where
  "same_routes m m' \<longleftrightarrow> (\<forall>t. hw_route t (posted_events m') = hw_route t (posted_events m)) \<and>
     upstream_v4_up m' = upstream_v4_up m \<and> upstream_v6_up m' = upstream_v6_up m \<and>
     default_gw_index m' = default_gw_index m \<and> listeners m' = listeners m"

lemma same_routes_refl [simp]: "same_routes m m"
  by (simp add: same_routes_def)

lemma same_routes_trans: "same_routes m1 m2 \<Longrightarrow> same_routes m2 m3 \<Longrightarrow> same_routes m1 m3"
  by (simp add: same_routes_def)

lemma same_routesD:
  assumes "same_routes m m'"
  shows "routes_ok m' = routes_ok m" "routes_of m' = routes_of m" "listeners m' = listeners m"
  using assms unfolding same_routes_def by (auto simp: routes_ok_def routes_of_def)

lemma same_routes_cache: "cache_request k fill m = (b, m') \<Longrightarrow> same_routes m m'"
  using cache_request_frame [of k fill m b m'] by (simp add: same_routes_def listeners_def)

lemma same_routes_push: "same_routes m (push_iface_up env name True m)"
  using push_iface_up_routes [of _ env name m] by (simp add: same_routes_def listeners_def)

lemma cache_request_no_upstream:
  "cache_request k fill m = (b, m') \<Longrightarrow> no_cached_upstream m \<Longrightarrow> (\<And>c. \<not> is_cached_upstream (fill c)) \<Longrightarrow>
   no_cached_upstream m'"
proof (induction k arbitrary: m)
  case (Suc k)
  show ?case
  proof (cases "valid (event_cache m ! latest_cache_index m)")
    case True
    with Suc.prems(1) have "cache_request k fill (m\<lparr>latest_cache_index := (latest_cache_index m + 1) mod MAX_EVENT_CACHE\<rparr>) = (b, m')"
      by (simp add: Let_def)
    from Suc.IH [OF this _ Suc.prems(3)] Suc.prems(2) show ?thesis by (simp add: no_cached_upstream_def)
  next
    case False
    with Suc.prems(1) have "event_cache m' = (event_cache m)[latest_cache_index m := fill (event_cache m ! latest_cache_index m)]"
      by (auto simp: Let_def)
    with Suc.prems(2,3) show ?thesis unfolding no_cached_upstream_def by (metis insertE set_update_subset_insert subsetD)
  qed
qed simp

lemma not_upstream_downstream: "\<not> is_cached_upstream (cache_downstream name pre c)"
  by (simp add: is_cached_upstream_def cache_downstream_def)

lemma downstream_evt_keeps:
  assumes "event = IPA_DOWNSTREAM_ADD \<or> event = IPA_DOWNSTREAM_DEL"
  shows "same_routes m (snd (downstream_evt env event idx pre m)) \<and>
    event_cache (snd (downstream_evt env event idx pre m)) = event_cache m \<and>
    latest_cache_index (snd (downstream_evt env event idx pre m)) = latest_cache_index m"
  using assms
  by (cases "malloc_ok env (mallocs m)")
    (auto simp: downstream_evt_def malloc_def PostEvt_offload_def same_routes_def listeners_def hw_route_snoc
      route_step_def split: option.split)

lemma addDownstream_keeps:
  assumes "cache_wf m"
  shows "same_routes m (snd (addDownstream env name pre m)) \<and> cache_wf (snd (addDownstream env name pre m)) \<and>
    (no_cached_upstream m \<longrightarrow> no_cached_upstream (snd (addDownstream env name pre m)))"
proof (cases "ipa_get_if_index env name")
  case None
  with assms show ?thesis by (simp add: addDownstream_def)
next
  case (Some idx)
  define m1 where "m1 = (if name \<notin> set (valid_ifaces m) then m\<lparr>valid_ifaces := valid_ifaces m @ [name]\<rparr> else m)"
  have m1: "same_routes m m1" "cache_wf m1" "no_cached_upstream m1 = no_cached_upstream m"
    using assms by (auto simp: m1_def same_routes_def listeners_def cache_wf_def no_cached_upstream_def)
  show ?thesis
  proof (cases "needs_cache env name (fam pre) (fam pre)")
    case True
    obtain b m2 where c: "cache_request MAX_EVENT_CACHE (cache_downstream name pre) m1 = (b, m2)" by fastforce
    have "snd (addDownstream env name pre m) = m2"
      using Some True c unfolding addDownstream_def m1_def [symmetric] by (simp split: bool.splits)
    moreover have "no_cached_upstream m1 \<Longrightarrow> no_cached_upstream m2"
      by (rule cache_request_no_upstream [OF c _ not_upstream_downstream])
    ultimately show ?thesis
      using cache_request_full [OF c m1(2)] same_routes_trans [OF m1(1) same_routes_cache [OF c]] m1(3) by simp
  next
    case False
    have "snd (addDownstream env name pre m) = snd (downstream_evt env IPA_DOWNSTREAM_ADD idx pre m1)"
      using Some False unfolding addDownstream_def m1_def [symmetric] by simp
    then show ?thesis
      using downstream_evt_keeps [of IPA_DOWNSTREAM_ADD m1 env idx pre] m1 same_routes_trans [OF m1(1)]
      by (simp add: cache_wf_def no_cached_upstream_def)
  qed
qed

lemma removeDownstream_keeps:
  "same_routes m (snd (removeDownstream env name pre m)) \<and> event_cache (snd (removeDownstream env name pre m)) = event_cache m \<and>
   latest_cache_index (snd (removeDownstream env name pre m)) = latest_cache_index m"
  using downstream_evt_keeps [of IPA_DOWNSTREAM_DEL m env _ pre]
  by (simp add: removeDownstream_def split: option.split)

lemma setUpstream_listeners: "listeners (snd (setUpstream env upstream gw4 gw6 m)) = listeners m"
proof -
  have post: "listeners (post_route_evt env t idx event gw m) = listeners m" for t idx event gw m
    by (simp add: post_route_evt_def malloc_def PostEvt_offload_def listeners_def split: bool.split)
  have steps: "listeners (clean_v4 env gw m) = listeners m" "listeners (clean_v6 env gw m) = listeners m"
    "listeners (up_v4 env idx gw m) = listeners m" "listeners (up_v6 env idx gw m) = listeners m" for gw idx m
    using post by (simp_all add: listeners_def clean_v4_def clean_v6_def up_v4_def up_v6_def)
  have gw: "listeners (m\<lparr>default_gw_index := i\<rparr>) = listeners m" "listeners (m\<lparr>event_cache := c\<rparr>) = listeners m"
    "listeners (m\<lparr>stat_resets := x\<rparr>) = listeners m" for m i c x
    by (simp_all add: listeners_def)
  have remove: "listeners (snd (remove_upstream env gw4 gw6 m)) = listeners m" for m
    by (simp add: remove_upstream_def Let_def gw steps)
  have switch: "listeners (switch_upstream env name idx gw4 gw6 m) = listeners m" for name idx m
    by (simp add: switch_upstream_def Let_def resetTetherStats_def gw steps)
  have apply_up: "listeners (snd (apply_upstream env idx gw4 gw6 m)) = listeners m" for idx m
    by (simp add: apply_upstream_def Let_def gw steps)
  have cached: "listeners (snd (cache_request k fill (push_iface_up env name True m))) = listeners m" for k fill name
    using same_routes_trans [OF same_routes_push same_routes_cache [of k fill]] same_routesD(3) by (metis prod.collapse)
  show ?thesis
    using remove switch apply_up gw cached
    by (auto simp: setUpstream_def split: option.split prod.split bool.split) (metis snd_conv)+
qed

text \<open>\<open>setUpstream\<close> and the cache: only a removal without an upstream and a request for an interface
  that is not ready write it.\<close>

definition cache_state :: "offload_manager \<Rightarrow> framework_event_cache list \<times> nat" where
  "cache_state m = (event_cache m, latest_cache_index m)"

lemma cache_state_wf: "cache_state m' = cache_state m \<Longrightarrow> cache_wf m' = cache_wf m \<and> no_cached_upstream m' = no_cached_upstream m"
  by (simp add: cache_state_def cache_wf_def no_cached_upstream_def)

lemma cache_state_steps:
  "cache_state (clean_v4 env gw m) = cache_state m" "cache_state (clean_v6 env gw m) = cache_state m"
  "cache_state (up_v4 env idx gw m) = cache_state m" "cache_state (up_v6 env idx gw m) = cache_state m"
proof -
  have post: "cache_state (post_route_evt env t idx event gw m) = cache_state m" for t idx event gw m
    by (simp add: post_route_evt_def malloc_def PostEvt_offload_def cache_state_def split: bool.split)
  then show "cache_state (clean_v4 env gw m) = cache_state m" "cache_state (clean_v6 env gw m) = cache_state m"
    "cache_state (up_v4 env idx gw m) = cache_state m" "cache_state (up_v6 env idx gw m) = cache_state m"
    by (simp_all add: cache_state_def clean_v4_def clean_v6_def up_v4_def up_v6_def)
qed

lemma cache_state_upd: "cache_state (m\<lparr>default_gw_index := i\<rparr>) = cache_state m" "cache_state (m\<lparr>stat_resets := x\<rparr>) = cache_state m"
  by (simp_all add: cache_state_def)

lemma ready_upstream_cache:
  "ipa_get_if_index env name = Some idx \<Longrightarrow> \<not> needs_cache env name (fam gw4) (fam gw6) \<Longrightarrow>
   cache_state (snd (setUpstream env (Some name) gw4 gw6 m)) = cache_state m"
proof -
  assume ready: "ipa_get_if_index env name = Some idx" "\<not> needs_cache env name (fam gw4) (fam gw6)"
  have switch: "cache_state (switch_upstream env name idx gw4 gw6 m) = cache_state m" for m
    by (simp add: switch_upstream_def resetTetherStats_def Let_def cache_state_steps cache_state_upd)
  have "cache_state (snd (apply_upstream env idx gw4 gw6 m)) = cache_state m" for m
    by (simp add: apply_upstream_def Let_def cache_state_steps)
  then show ?thesis using ready
    by (simp add: setUpstream_def switch cache_state_upd split: prod.split) (metis snd_conv switch)
qed

lemma remove_upstream_cache:
  "default_gw_index m \<noteq> INVALID_IFACE \<Longrightarrow> cache_state (snd (setUpstream env None gw4 gw6 m)) = cache_state m"
  by (simp add: setUpstream_def remove_upstream_def Let_def cache_state_steps cache_state_upd)

lemma push_iface_up_cache: "cache_state (push_iface_up env name True m) = cache_state m"
proof -
  have "push_link_evt env event idx m = (b, m') \<Longrightarrow> cache_state m' = cache_state m" for event idx m b m'
    by (auto simp: push_link_evt_def malloc_def PostEvt_offload_def cache_state_def split: bool.splits)
  then show ?thesis
    by (auto simp: push_iface_up_def split: option.split prod.split bool.split if_splits) (metis prod.collapse)+
qed

lemma setUpstream_cache_wf:
  assumes "cache_wf m"
  shows "cache_wf (snd (setUpstream env upstream gw4 gw6 m))"
proof (cases upstream)
  case None
  show ?thesis
  proof (cases "default_gw_index m = INVALID_IFACE")
    case True
    with None assms show ?thesis by (simp add: setUpstream_def remove_upstream_def cache_wf_def)
  next
    case False
    with remove_upstream_cache [OF False, of env gw4 gw6] cache_state_wf assms None show ?thesis by blast
  qed
next
  case (Some name)
  show ?thesis
  proof (cases "ipa_get_if_index env name")
    case None
    with Some assms show ?thesis by (simp add: setUpstream_def)
  next
    case idx: (Some idx)
    show ?thesis
    proof (cases "needs_cache env name (fam gw4) (fam gw6)")
      case True
      obtain b m1 where m1: "cache_request MAX_EVENT_CACHE (cache_upstream name gw4 gw6) (push_iface_up env name True m) = (b, m1)"
        by fastforce
      have "snd (setUpstream env upstream gw4 gw6 m) = m1"
        using Some idx True m1 by (simp add: setUpstream_def split: bool.splits)
      then show ?thesis
        using cache_request_full [OF m1] assms cache_state_wf [OF push_iface_up_cache [of env name m]] by simp
    next
      case False
      with ready_upstream_cache [OF idx False] cache_state_wf assms Some show ?thesis by blast
    qed
  qed
qed

text \<open>The replay of the cache.\<close>

definition entry_done :: "nat \<Rightarrow> offload_manager \<Rightarrow> offload_manager" where
  "entry_done i m = m\<lparr>event_cache := (event_cache m)[i := (event_cache m ! i)\<lparr>valid := False\<rparr>]\<rparr>"

lemma entry_done_keeps:
  "same_routes m (entry_done i m)" "cache_wf m \<Longrightarrow> cache_wf (entry_done i m)"
  "no_cached_upstream m \<Longrightarrow> no_cached_upstream (entry_done i m)"
proof -
  show "same_routes m (entry_done i m)" by (simp add: entry_done_def same_routes_def listeners_def)
  show "cache_wf m \<Longrightarrow> cache_wf (entry_done i m)" by (simp add: entry_done_def cache_wf_def)
  have "\<not> is_cached_upstream ((event_cache m ! i)\<lparr>valid := False\<rparr>)" by (simp add: is_cached_upstream_def)
  then show "no_cached_upstream m \<Longrightarrow> no_cached_upstream (entry_done i m)"
    unfolding no_cached_upstream_def entry_done_def
    using set_update_subset_insert [of "event_cache m" i "(event_cache m ! i)\<lparr>valid := False\<rparr>"] by auto
qed

text \<open>
  An invariant of the two calls of the loop, and of taking an entry out, is an invariant of the
  replay.
\<close>

lemma search_loop_invariant:
  assumes "I m" and "\<And>m i. I m \<Longrightarrow> i < MAX_EVENT_CACHE \<Longrightarrow> I (entry_done i m)"
    and "\<And>m i. I m \<Longrightarrow> i < MAX_EVENT_CACHE \<Longrightarrow> valid (event_cache m ! i) \<Longrightarrow> cache_event_id (event_cache m ! i) = IPA_DOWNSTREAM_ADD \<Longrightarrow>
      I (snd (addDownstream env name (prefix_cache (event_cache m ! i)) m))"
    and "\<And>m i. I m \<Longrightarrow> i < MAX_EVENT_CACHE \<Longrightarrow> is_cached_upstream (event_cache m ! i) \<Longrightarrow>
      I (snd (setUpstream env (Some name) (prefix_cache (event_cache m ! i)) (prefix_cache_v6 (event_cache m ! i)) m))"
    and "i + k \<le> MAX_EVENT_CACHE"
  shows "I (snd (search_loop env name k i rel m))"
  using assms(1,5)
proof (induction k arbitrary: i rel m)
  case 0
  then show ?case by simp
next
  case (Suc k)
  have "i < MAX_EVENT_CACHE" "i + 1 + k \<le> MAX_EVENT_CACHE" using Suc.prems(2) by auto
  then show ?case
    using Suc.IH [of _ "i + 1"] assms(2) assms(3) [OF Suc.prems(1)] assms(4) [OF Suc.prems(1)] Suc.prems(1)
    by (simp add: Let_def is_cached_upstream_def flip: entry_done_def)
qed

lemma search_keeps:
  assumes "env_ok env" and "routes_ok m" and "cache_wf m"
  shows "routes_ok (snd (search_framwork_cache env name m)) \<and> cache_wf (snd (search_framwork_cache env name m)) \<and>
    listeners (snd (search_framwork_cache env name m)) = listeners m"
  unfolding search_framwork_cache_def
proof (rule search_loop_invariant [where I = "\<lambda>m'. routes_ok m' \<and> cache_wf m' \<and> listeners m' = listeners m"])
  fix m' i assume "routes_ok m' \<and> cache_wf m' \<and> listeners m' = listeners m"
  then show "routes_ok (entry_done i m') \<and> cache_wf (entry_done i m') \<and> listeners (entry_done i m') = listeners m"
    using entry_done_keeps [of m' i] same_routesD [of m' "entry_done i m'"] by simp
next
  fix m' i assume "routes_ok m' \<and> cache_wf m' \<and> listeners m' = listeners m"
  then show "routes_ok (snd (addDownstream env name (prefix_cache (event_cache m' ! i)) m')) \<and>
      cache_wf (snd (addDownstream env name (prefix_cache (event_cache m' ! i)) m')) \<and>
      listeners (snd (addDownstream env name (prefix_cache (event_cache m' ! i)) m')) = listeners m"
    using addDownstream_keeps [of m' env name] same_routesD [of m'] by metis
next
  fix m' i assume "routes_ok m' \<and> cache_wf m' \<and> listeners m' = listeners m"
  then show "routes_ok (snd (setUpstream env (Some name) (prefix_cache (event_cache m' ! i)) (prefix_cache_v6 (event_cache m' ! i)) m')) \<and>
      cache_wf (snd (setUpstream env (Some name) (prefix_cache (event_cache m' ! i)) (prefix_cache_v6 (event_cache m' ! i)) m')) \<and>
      listeners (snd (setUpstream env (Some name) (prefix_cache (event_cache m' ! i)) (prefix_cache_v6 (event_cache m' ! i)) m')) = listeners m"
    using setUpstream_routes [OF assms(1)] setUpstream_cache_wf setUpstream_listeners by (metis option.distinct(1))
qed (use assms in simp_all)

lemma search_keeps_idle:
  assumes "cache_wf m" and "no_cached_upstream m"
  shows "same_routes m (snd (search_framwork_cache env name m)) \<and> no_cached_upstream (snd (search_framwork_cache env name m))"
proof -
  let ?I = "\<lambda>m'. same_routes m m' \<and> cache_wf m' \<and> no_cached_upstream m'"
  have "?I (snd (search_framwork_cache env name m))"
    unfolding search_framwork_cache_def
  proof (rule search_loop_invariant [where I = ?I])
    fix m' i assume "?I m'"
    then show "?I (entry_done i m')" using entry_done_keeps [of m' i] same_routes_trans by blast
  next
    fix m' i assume "?I m'"
    then show "?I (snd (addDownstream env name (prefix_cache (event_cache m' ! i)) m'))"
      using addDownstream_keeps [of m' env name] same_routes_trans by blast
  next
    fix m' i assume "?I m'" "i < MAX_EVENT_CACHE" "is_cached_upstream (event_cache m' ! i)"
    then show "?I (snd (setUpstream env (Some name) (prefix_cache (event_cache m' ! i)) (prefix_cache_v6 (event_cache m' ! i)) m'))"
      by (simp add: no_cached_upstream_def cache_wf_def)
  qed (use assms in simp_all)
  then show ?thesis by simp
qed

text \<open>The state after everything has been stopped.\<close>

lemma stopAllOffload_idle:
  assumes "env_ok env" and "routes_ok m"
  shows "routes_ok (snd (stopAllOffload env m)) \<and> routes_of (snd (stopAllOffload env m)) = (None, None) \<and>
    no_cached_upstream (snd (stopAllOffload env m)) \<and> cache_wf (snd (stopAllOffload env m)) \<and>
    listeners (snd (stopAllOffload env m)) = listeners m"
proof -
  obtain r m1 where m1: "setUpstream env None (makeBlankPrefix V4) (makeBlankPrefix V6) m = (r, m1)" by fastforce
  have "remove_upstream env (makeBlankPrefix V4) (makeBlankPrefix V6) m = (r, m1)" using m1 by (simp add: setUpstream_def)
  then have "routes_ok m1" "routes_of m1 = (None, None)" "\<not> upstream_v4_up m1" "\<not> upstream_v6_up m1"
    using remove_upstream_routes [OF assms, of "makeBlankPrefix V4" "makeBlankPrefix V6"] by simp_all
  moreover have "listeners m1 = listeners m" using setUpstream_listeners [of env None _ _ m] m1 by (metis snd_conv)
  ultimately show ?thesis
    by (simp add: stopAllOffload_def m1 routes_ok_def routes_of_def listeners_def no_cached_upstream_def cache_wf_def
        is_cached_upstream_def empty_cache_entry_def MAX_EVENT_CACHE_def)
qed

text \<open>A cached upstream whose interface is ready; entries that are not valid are passed over.\<close>

lemma search_upstream_entry:
  assumes "event_cache m ! i = e" and "is_cached_upstream e" and "dev_name e = take IF_NAME_LEN name"
    and "\<not> needs_cache env (dev_name e) (fam (prefix_cache e)) (fam (prefix_cache_v6 e))"
  shows "search_loop env name (Suc n) i rel m =
    search_loop env name n (i + 1) True (entry_done i (snd (setUpstream env (Some name) (prefix_cache e) (prefix_cache_v6 e) m)))"
  using assms(2-4) unfolding search_loop.simps assms(1) Let_def is_cached_upstream_def entry_done_def by simp

lemma search_skip:
  "(\<And>j. i \<le> j \<Longrightarrow> j < i + k \<Longrightarrow> \<not> valid (event_cache m ! j)) \<Longrightarrow>
   search_loop env name (k + n) i rel m = search_loop env name n (i + k) rel m"
proof (induction k arbitrary: i)
  case (Suc k)
  have "search_loop env name (k + n) (i + 1) rel m = search_loop env name n (i + 1 + k) rel m"
    by (rule Suc.IH) (use Suc.prems in auto)
  with Suc.prems [of i] show ?case by (simp add: Let_def)
qed simp

section \<open>Properties\<close>

text \<open>
  C23: \<open>setUpstream\<close> implements its abstract specification on the routes: in a state whose posted
  route events are balanced, its events are balanced again (no family gets a second route, no route
  is deleted on another interface than its own) and leave each family's route where the specification
  puts it.
\<close>

theorem setUpstream_refines:
  assumes "env_ok env" and "routes_ok m" and "upstream = None \<Longrightarrow> fam gw4 = V4 \<and> fam gw6 = V6"
  shows "routes_ok (snd (setUpstream env upstream gw4 gw6 m)) \<and>
    routes_of (snd (setUpstream env upstream gw4 gw6 m)) = upstream_spec env upstream gw4 gw6 (routes_of m)"
  using assms by (rule setUpstream_routes)

text \<open>An interface that is ready, one that is not, and a manager with an upstream.\<close>

definition env_demo :: offload_env where
  "env_demo =
     \<lparr>sock_ok = True,
      siocgifindex = (\<lambda>n. if n = ''rmnet_data0'' then Some 5 else if n = ''wlan0'' then Some 7
                          else if n = ''rndis0'' then Some 9 else None),
      pNatIfaces = [\<lparr>iface_name = ''rmnet_data0'', v4_up = True, v6_up = True\<rparr>], malloc_ok = (\<lambda>_. True), open_ok = True,
      quota_ioctl = (\<lambda>_ _. 0), stats_ioctl = (\<lambda>_ _. Some (0, 0)), dup_fd = (\<lambda>fd. fd + 10)\<rparr>"

lemma env_demo_ok: "env_ok env_demo"
  by (simp add: env_ok_def env_demo_def INVALID_IFACE_def)

definition gw_demo :: prefix where
  "gw_demo = (makeBlankPrefix V4)\<lparr>v4Addr := 0x0a000001\<rparr>"

definition manager_demo :: offload_manager where
  "manager_demo = snd (setUpstream env_demo (Some ''rmnet_data0'') gw_demo (makeBlankPrefix V6) offload_manager_new)"

lemma manager_demo_state:
  "routes_ok manager_demo" "routes_of manager_demo = (Some 5, None)" "default_gw_index manager_demo = 5"
  "cache_wf manager_demo" "\<forall>c \<in> set (event_cache manager_demo). \<not> valid c"
  by code_simp+

theorem setUpstream_refines_witness:
  "routes_of (snd (setUpstream env_demo None gw_demo (makeBlankPrefix V6) manager_demo)) = (None, None)"
  using setUpstream_refines [OF env_demo_ok manager_demo_state(1), of None gw_demo "makeBlankPrefix V6"]
  by (simp add: gw_demo_def upstream_spec_def makeBlankPrefix_def)

text \<open>
  A downstream on an interface that is not configured yet is kept in the cache: with a free
  entry among the ten it is put into one, the others stay as they are and nothing is posted; with
  none the call fails and the cache stays as it is.
\<close>

theorem addDownstream_caches:
  assumes "cache_wf m" and "ipa_get_if_index env name = Some idx" and "needs_cache env name (fam pre) (fam pre)"
    and "addDownstream env name pre m = (r, m')"
  shows "cache_wf m' \<and> posted_events m' = posted_events m \<and> name \<in> set (valid_ifaces m') \<and>
    (if \<forall>c \<in> set (event_cache m). valid c then r = FAIL_HARDWARE \<and> event_cache m' = event_cache m
     else r = SUCCESS \<and> (\<exists>i < MAX_EVENT_CACHE. \<not> valid (event_cache m ! i) \<and>
            event_cache m' = (event_cache m)[i := cache_downstream name pre (event_cache m ! i)]))"
proof -
  define m1 where "m1 = (if name \<notin> set (valid_ifaces m) then m\<lparr>valid_ifaces := valid_ifaces m @ [name]\<rparr> else m)"
  have m1: "event_cache m1 = event_cache m" "posted_events m1 = posted_events m" "cache_wf m1" "name \<in> set (valid_ifaces m1)"
    using assms(1) by (auto simp: m1_def cache_wf_def)
  obtain b m2 where c: "cache_request MAX_EVENT_CACHE (cache_downstream name pre) m1 = (b, m2)" by fastforce
  have "r = (if b then SUCCESS else FAIL_HARDWARE)" "m' = m2"
    using assms(2-4) c unfolding addDownstream_def m1_def [symmetric] by (auto split: bool.splits)
  moreover have "posted_events m2 = posted_events m" using cache_request_frame [OF c] m1(2) by simp
  moreover note cache_request_full [OF c m1(3), unfolded m1(1)]
  ultimately show ?thesis using m1(4) by (cases "\<forall>c \<in> set (event_cache m). valid c") simp_all
qed

theorem addDownstream_caches_witness:
  "fst (addDownstream env_demo ''rndis0'' gw_demo manager_demo) = SUCCESS \<and>
   (\<exists>c \<in> set (event_cache (snd (addDownstream env_demo ''rndis0'' gw_demo manager_demo))). valid c)"
proof -
  obtain r m' where r: "addDownstream env_demo ''rndis0'' gw_demo manager_demo = (r, m')" by fastforce
  have "ipa_get_if_index env_demo ''rndis0'' = Some 9" "needs_cache env_demo ''rndis0'' (fam gw_demo) (fam gw_demo)" by code_simp+
  note * = addDownstream_caches [OF manager_demo_state(4) this r]
  have "\<exists>c \<in> set (event_cache manager_demo). \<not> valid c" by code_simp
  then obtain i where i: "r = SUCCESS" "i < MAX_EVENT_CACHE"
    "event_cache m' = (event_cache manager_demo)[i := cache_downstream ''rndis0'' gw_demo (event_cache manager_demo ! i)]"
    using * by (auto split: if_splits)
  have "length (event_cache manager_demo) = MAX_EVENT_CACHE" using manager_demo_state(4) by (simp add: cache_wf_def)
  with i have "cache_downstream ''rndis0'' gw_demo (event_cache manager_demo ! i) \<in> set (event_cache m')"
    by (simp add: set_update_memI)
  then show ?thesis using i(1) r by (auto simp: cache_downstream_def intro!: bexI)
qed

text \<open>
  Removing the upstream does not forget one that waits in the cache for its interface, as long
  as another upstream is up: the routes go, the request stays, and when its interface becomes ready
  the route of the removed upstream is set up.
\<close>

theorem removed_upstream_comes_back:
  assumes "env_ok env" and "env_ok env'" and "routes_ok m" and "cache_wf m" and "default_gw_index m \<noteq> INVALID_IFACE"
    and "fam gw4 = V4" and "fam gw6 = V6" and "i < MAX_EVENT_CACHE"
    and "event_cache m ! i = cache_upstream name pre4 pre6 c" and "length name \<le> IF_NAME_LEN" and "fam pre4 = V4"
    and "\<forall>j < MAX_EVENT_CACHE. j \<noteq> i \<longrightarrow> \<not> valid (event_cache m ! j)"
    and "ipa_get_if_index env' name = Some idx" and "\<not> needs_cache env' name (fam pre4) (fam pre6)"
  shows "routes_of (snd (setUpstream env None gw4 gw6 m)) = (None, None) \<and>
    fst (routes_of (snd (search_framwork_cache env' name (snd (setUpstream env None gw4 gw6 m))))) = Some idx"
proof -
  define m1 where "m1 = snd (setUpstream env None gw4 gw6 m)"
  have r1: "routes_ok m1" "routes_of m1 = (None, None)"
    using remove_upstream_routes [OF assms(1,3,6,7)] by (simp_all add: m1_def setUpstream_def)
  have c1: "event_cache m1 = event_cache m"
    using remove_upstream_cache [OF assms(5), of env gw4 gw6] by (simp add: m1_def cache_state_def)
  have name: "take IF_NAME_LEN name = name" using assms(10) by simp
  have entry: "valid (event_cache m1 ! i)" "cache_event_id (event_cache m1 ! i) = IPA_WAN_UPSTREAM_ROUTE_ADD_EVENT"
    "dev_name (event_cache m1 ! i) = name" "prefix_cache (event_cache m1 ! i) = pre4" "prefix_cache_v6 (event_cache m1 ! i) = pre6"
    using assms(9) name by (simp_all add: c1 cache_upstream_def)
  define m2 where "m2 = snd (setUpstream env' (Some name) pre4 pre6 m1)"
  have r2: "routes_ok m2" "fst (routes_of m2) = Some idx"
    using setUpstream_routes [OF assms(2) r1(1), of "Some name" pre4 pre6] assms(11,13,14)
    by (simp_all add: m2_def upstream_spec_def set_routes_def)
  have c2: "event_cache m2 = event_cache m"
    using ready_upstream_cache [OF assms(13,14), of m1] c1 by (simp add: m2_def cache_state_def)
  obtain n where n: "MAX_EVENT_CACHE = i + Suc n" using assms(8) less_iff_Suc_add by fastforce
  have "search_framwork_cache env' name m1 = search_loop env' name (i + Suc n) 0 False m1"
    unfolding search_framwork_cache_def n ..
  also have "\<dots> = search_loop env' name (Suc n) (0 + i) False m1"
    by (rule search_skip) (use assms(12) n in \<open>simp add: c1\<close>)
  also have "\<dots> = search_loop env' name (Suc n) i False m1" by (simp only: add_0)
  also have "\<dots> = search_loop env' name n (i + 1) True (entry_done i m2)"
    using search_upstream_entry [of m1 i "event_cache m1 ! i" name env' n False] entry assms(14) name
    by (simp add: is_cached_upstream_def m2_def)
  also have "\<dots> = (True, entry_done i m2)"
    using search_skip [of "i + 1" n "entry_done i m2" env' name 0 True] assms(12) n
    by (simp add: entry_done_def c2)
  finally have "snd (search_framwork_cache env' name m1) = entry_done i m2" by simp
  then show ?thesis using same_routesD(2) [OF entry_done_keeps(1)] r1 r2 by (simp add: m1_def)
qed

text \<open>The mobile upstream is up, \<open>wlan0\<close> waits in the cache, the upstream is removed, \<open>wlan0\<close> gets ready.\<close>

definition env_wlan :: offload_env where
  "env_wlan = env_demo\<lparr>pNatIfaces := [\<lparr>iface_name = ''wlan0'', v4_up = True, v6_up = True\<rparr>]\<rparr>"

definition pending_demo :: offload_manager where
  "pending_demo = snd (setUpstream env_demo (Some ''wlan0'') gw_demo (makeBlankPrefix INVALID) manager_demo)"

theorem removed_upstream_comes_back_witness:
  "fst (routes_of (snd (search_framwork_cache env_wlan ''wlan0''
     (snd (setUpstream env_demo None gw_demo (makeBlankPrefix V6) pending_demo))))) = Some 7"
proof -
  have 1: "env_ok env_wlan" by (simp add: env_ok_def env_wlan_def env_demo_def INVALID_IFACE_def)
  have 2: "routes_ok pending_demo" "cache_wf pending_demo" "default_gw_index pending_demo \<noteq> INVALID_IFACE"
    "fam gw_demo = V4" "fam (makeBlankPrefix V6) = V6" "0 < MAX_EVENT_CACHE"
    "event_cache pending_demo ! 0 = cache_upstream ''wlan0'' gw_demo (makeBlankPrefix INVALID) empty_cache_entry"
    "length ''wlan0'' \<le> IF_NAME_LEN" "\<forall>j \<in> {0..<10}. j \<noteq> 0 \<longrightarrow> \<not> valid (event_cache pending_demo ! j)"
    "ipa_get_if_index env_wlan ''wlan0'' = Some 7"
    "\<not> needs_cache env_wlan ''wlan0'' (fam gw_demo) (fam (makeBlankPrefix INVALID))"
    by code_simp+
  have "\<forall>j < MAX_EVENT_CACHE. j \<noteq> 0 \<longrightarrow> \<not> valid (event_cache pending_demo ! j)"
    using 2(9) by (simp add: MAX_EVENT_CACHE_def)
  with removed_upstream_comes_back [OF env_demo_ok 1 2(1-8) 2(4) _ 2(10,11)] show ?thesis by blast
qed

end
