(* ===== verification/Offload_Hal.thy ===== *)
theory Offload_Hal
  imports Offload_Manager
begin

text \<open>
  The tethering offload HAL (\<open>hal/src/HAL.cpp\<close>) and its log (\<open>hal/src/LocalLogBuffer.cpp\<close>).

  The HAL calls the offload manager through the virtual functions of \<open>IOffloadManager\<close>; the record
  \<open>manager_ops\<close> is that table. A HIDL call returns its reply and the new state; the value \<open>None\<close> is
  the undefined behaviour of \<open>atoi\<close> in the prefix parser. Handles are lists of file descriptors, and
  cloning a handle, as \<open>hidl_handle\<close>'s assignment does, is the parameter \<open>clone\<close>. The objects made
  with \<open>new\<close> get their addresses as arguments. Logging to the system log is left out.
\<close>

section \<open>The log of calls\<close>

record function_log =
  fl_mName :: string
  mArgsProvided :: bool
  mSSArgs :: string
  mSSReturn :: string

definition FunctionLog :: "string \<Rightarrow> function_log" where
  "FunctionLog funcName = \<lparr>fl_mName = funcName, mArgsProvided = False, mSSArgs = [], mSSReturn = []\<rparr>"

definition maybeAddArgsComma :: "function_log \<Rightarrow> function_log" where
  "maybeAddArgsComma fl =
     (if \<not> mArgsProvided fl then fl\<lparr>mArgsProvided := True\<rparr> else fl\<lparr>mSSArgs := mSSArgs fl @ '', ''\<rparr>)"

definition addArg_str :: "string \<Rightarrow> string \<Rightarrow> function_log \<Rightarrow> function_log" where
  "addArg_str kw arg fl = (let fl = maybeAddArgsComma fl in fl\<lparr>mSSArgs := mSSArgs fl @ kw @ ''='' @ arg\<rparr>)"

definition addArg_u64 :: "string \<Rightarrow> 64 word \<Rightarrow> function_log \<Rightarrow> function_log" where
  "addArg_u64 kw arg fl = (let fl = maybeAddArgsComma fl in fl\<lparr>mSSArgs := mSSArgs fl @ kw @ ''='' @ nat_str (unat arg)\<rparr>)"

text \<open>The loop that writes a comma behind every element but the last.\<close>

fun comma_list :: "string list \<Rightarrow> string" where
  "comma_list [] = []"
| "comma_list [x] = x"
| "comma_list (x # xs) = x @ '', '' @ comma_list xs"

definition addArg_strs :: "string \<Rightarrow> string list \<Rightarrow> function_log \<Rightarrow> function_log" where
  "addArg_strs kw args fl =
     (let fl = maybeAddArgsComma fl in fl\<lparr>mSSArgs := mSSArgs fl @ kw @ ''=['' @ comma_list args @ '']''\<rparr>)"

definition setResult_bool :: "bool \<Rightarrow> string \<Rightarrow> function_log \<Rightarrow> function_log" where
  "setResult_bool success msg fl =
     fl\<lparr>mSSReturn := mSSReturn fl @ ''['' @ (if success then ''success'' else ''failure'') @ '', '' @ msg @ '']''\<rparr>"

definition setResult_vec :: "nat list \<Rightarrow> function_log \<Rightarrow> function_log" where
  "setResult_vec rs fl = fl\<lparr>mSSReturn := mSSReturn fl @ ''['' @ comma_list (map nat_str rs) @ '']''\<rparr>"

definition setResult_bytes :: "64 word \<Rightarrow> 64 word \<Rightarrow> function_log \<Rightarrow> function_log" where
  "setResult_bytes rx tx fl =
     fl\<lparr>mSSReturn := mSSReturn fl @ ''[rx='' @ nat_str (unat rx) @ '', tx='' @ nat_str (unat tx) @ '']''\<rparr>"

definition log_toString :: "function_log \<Rightarrow> string" where
  "log_toString fl = fl_mName fl @ ''('' @ mSSArgs fl @ '') returned '' @ mSSReturn fl"

record log_buffer =
  lb_mName :: string
  mMaxLogs :: nat
  buffered :: "function_log list"

definition LocalLogBuffer :: "string \<Rightarrow> nat \<Rightarrow> log_buffer" where
  "LocalLogBuffer name maxLogs = \<lparr>lb_mName = name, mMaxLogs = maxLogs, buffered = []\<rparr>"

fun pop_logs :: "nat \<Rightarrow> function_log list \<Rightarrow> function_log list" where
  "pop_logs n [] = []"
| "pop_logs n (l # ls) = (if n < length (l # ls) then pop_logs n ls else l # ls)"

definition addLog :: "function_log \<Rightarrow> log_buffer \<Rightarrow> log_buffer" where
  "addLog fl b = b\<lparr>buffered := pop_logs (mMaxLogs b) (buffered b) @ [fl]\<rparr>"

section \<open>The manager's interface and the state of the HAL\<close>

record 'm manager_ops =
  op_registerEventListener :: "nat \<Rightarrow> 'm \<Rightarrow> ret \<times> 'm"
  op_unregisterEventListener :: "'m \<Rightarrow> ret \<times> 'm"
  op_registerCtTimeoutUpdater :: "nat \<Rightarrow> 'm \<Rightarrow> ret \<times> 'm"
  op_unregisterCtTimeoutUpdater :: "'m \<Rightarrow> ret \<times> 'm"
  op_provideFd :: "int \<Rightarrow> nat \<Rightarrow> 'm \<Rightarrow> ret \<times> 'm"
  op_clearAllFds :: "'m \<Rightarrow> ret \<times> 'm"
  op_addDownstream :: "string \<Rightarrow> prefix \<Rightarrow> 'm \<Rightarrow> ret \<times> 'm"
  op_removeDownstream :: "string \<Rightarrow> prefix \<Rightarrow> 'm \<Rightarrow> ret \<times> 'm"
  op_setUpstream :: "string option \<Rightarrow> prefix \<Rightarrow> prefix \<Rightarrow> 'm \<Rightarrow> ret \<times> 'm"
  op_stopAllOffload :: "'m \<Rightarrow> ret \<times> 'm"
  op_setQuota :: "string \<Rightarrow> 64 word \<Rightarrow> ret"
  op_getStats :: "string \<Rightarrow> bool \<Rightarrow> ret \<times> 64 word \<times> 64 word"

record 'm hal =
  mIPA :: 'm
  mHandle1 :: "int list"
  mHandle2 :: "int list"
  mLogs :: log_buffer
  mCb :: "nat option"
  mCbIpa :: "nat option"
  mCbCt :: "nat option"

record bool_result =
  success :: bool
  errMsg :: string

definition HAL :: "'m \<Rightarrow> 'm hal" where
  "HAL mgr =
     \<lparr>mIPA = mgr, mHandle1 = [], mHandle2 = [], mLogs = LocalLogBuffer ''HAL Function Calls'' 50, mCb = None,
      mCbIpa = None, mCbCt = None\<rparr>"

definition makeInputCheckFailure :: "string \<Rightarrow> bool_result" where
  "makeInputCheckFailure customErr = \<lparr>success = False, errMsg = ''Failed Input Checks: '' @ customErr\<rparr>"

text \<open>\<open>ipaResultToBoolResult\<close>: the values from \<open>SUCCESS\<close> on are successes.\<close>

definition ret_ok :: "ret \<Rightarrow> bool" where
  "ret_ok r \<longleftrightarrow> r \<in> {SUCCESS, SUCCESS_DUPLICATE_CONFIG, SUCCESS_NO_OP, SUCCESS_OPTIMIZED}"

definition ipaResultToBoolResult :: "ret \<Rightarrow> bool_result" where
  "ipaResultToBoolResult r =
     \<lparr>success = ret_ok r,
      errMsg = (case r of
          FAIL_TOO_MANY_PREFIXES \<Rightarrow> ''Too Many Prefixes Provided''
        | FAIL_UNSUPPORTED \<Rightarrow> ''Unsupported by Hardware''
        | FAIL_INPUT_CHECK \<Rightarrow> ''Failed Input Checks''
        | FAIL_HARDWARE \<Rightarrow> ''Hardware did not accept''
        | FAIL_TRY_AGAIN \<Rightarrow> ''Try Again''
        | SUCCESS \<Rightarrow> ''Successful''
        | SUCCESS_DUPLICATE_CONFIG \<Rightarrow> ''Successful: Was a duplicate configuration''
        | SUCCESS_NO_OP \<Rightarrow> ''Successful: No action needed''
        | SUCCESS_OPTIMIZED \<Rightarrow> ''Successful: Performed optimized version of action''
        | FAIL_UNNEEDED \<Rightarrow> ''Unknown Error'')\<rparr>"

definition isInitialized :: "'m hal \<Rightarrow> bool" where
  "isInitialized h \<longleftrightarrow> mCb h \<noteq> None"

definition hal_log :: "function_log \<Rightarrow> 'm hal \<Rightarrow> 'm hal" where
  "hal_log fl h = h\<lparr>mLogs := addLog fl (mLogs h)\<rparr>"

text \<open>The end of most calls: the reply, its entry in the log.\<close>

definition reply :: "function_log \<Rightarrow> bool_result \<Rightarrow> 'm hal \<Rightarrow> bool_result \<times> 'm hal" where
  "reply fl res h = (res, hal_log (setResult_bool (success res) (errMsg res) fl) h)"

section \<open>Listeners\<close>

definition registerIpaCb :: "'m manager_ops \<Rightarrow> nat \<Rightarrow> 'm hal \<Rightarrow> 'm hal" where
  "registerIpaCb ops relay h =
     (if isInitialized h \<and> mCbIpa h = None then
        hal_log (FunctionLog ''registerEventListener'')
          (h\<lparr>mCbIpa := Some relay, mIPA := snd (op_registerEventListener ops relay (mIPA h))\<rparr>)
      else h)"

definition registerCtCb :: "'m manager_ops \<Rightarrow> nat \<Rightarrow> 'm hal \<Rightarrow> 'm hal" where
  "registerCtCb ops ambassador h =
     (if isInitialized h \<and> mCbCt h = None then
        hal_log (FunctionLog ''registerCtTimeoutUpdater'')
          (h\<lparr>mCbCt := Some ambassador, mIPA := snd (op_registerCtTimeoutUpdater ops ambassador (mIPA h))\<rparr>)
      else h)"

definition registerEventListeners :: "'m manager_ops \<Rightarrow> nat \<Rightarrow> nat \<Rightarrow> 'm hal \<Rightarrow> 'm hal" where
  "registerEventListeners ops relay ambassador h = registerCtCb ops ambassador (registerIpaCb ops relay h)"

definition unregisterIpaCb :: "'m manager_ops \<Rightarrow> 'm hal \<Rightarrow> 'm hal" where
  "unregisterIpaCb ops h =
     (if mCbIpa h \<noteq> None then
        hal_log (FunctionLog ''unregisterEventListener'')
          (h\<lparr>mIPA := snd (op_unregisterEventListener ops (mIPA h)), mCbIpa := None\<rparr>)
      else h)"

definition unregisterCtCb :: "'m manager_ops \<Rightarrow> 'm hal \<Rightarrow> 'm hal" where
  "unregisterCtCb ops h =
     (if mCbCt h \<noteq> None then
        hal_log (FunctionLog ''unregisterCtTimeoutUpdater'')
          (h\<lparr>mIPA := snd (op_unregisterCtTimeoutUpdater ops (mIPA h)), mCbCt := None\<rparr>)
      else h)"

definition unregisterEventListeners :: "'m manager_ops \<Rightarrow> 'm hal \<Rightarrow> 'm hal" where
  "unregisterEventListeners ops h = unregisterCtCb ops (unregisterIpaCb ops h)"

definition clearHandles :: "'m hal \<Rightarrow> 'm hal" where
  "clearHandles h = h\<lparr>mHandle1 := [], mHandle2 := []\<rparr>"

section \<open>Calls\<close>

text \<open>\<open>setHandles\<close>; the two groups are the ones of \<open>HAL.h\<close>.\<close>

definition UDP_SUBSCRIPTIONS :: nat where "UDP_SUBSCRIPTIONS = 5"

definition TCP_SUBSCRIPTIONS :: nat where "TCP_SUBSCRIPTIONS = 6"

definition setHandles ::
  "'m manager_ops \<Rightarrow> (int \<Rightarrow> int) \<Rightarrow> int list \<Rightarrow> int list \<Rightarrow> 'm hal \<Rightarrow> bool_result \<times> 'm hal" where
  "setHandles ops clone fd1 fd2 h =
     (let fl = FunctionLog ''setHandles'' in
      if length fd1 \<noteq> 1 then
        reply fl (makeInputCheckFailure ''Must provide exactly one FD per handle (fd1)'') h
      else if length fd2 \<noteq> 1 then
        reply fl (makeInputCheckFailure ''Must provide exactly one FD per handle (fd2)'') h
      else
        (let h = h\<lparr>mHandle1 := map clone fd1, mHandle2 := map clone fd2\<rparr>;
             fl = addArg_u64 ''fd2'' (word_of_int (mHandle2 h ! 0)) (addArg_u64 ''fd1'' (word_of_int (mHandle1 h ! 0)) fl)
         in case op_provideFd ops (mHandle1 h ! 0) UDP_SUBSCRIPTIONS (mIPA h) of
              (r, m) \<Rightarrow>
                (case (if r = SUCCESS then op_provideFd ops (mHandle2 h ! 0) TCP_SUBSCRIPTIONS m else (r, m)) of
                   (r, m) \<Rightarrow>
                     (let h = h\<lparr>mIPA := m\<rparr>;
                          h = (if r \<noteq> SUCCESS then clearHandles h else h)
                      in reply fl (ipaResultToBoolResult r) h))))"

definition initOffload ::
  "'m manager_ops \<Rightarrow> nat option \<Rightarrow> nat \<Rightarrow> nat \<Rightarrow> 'm hal \<Rightarrow> bool_result \<times> 'm hal" where
  "initOffload ops cb relay ambassador h =
     (let fl = FunctionLog ''initOffload'' in
      if isInitialized h then reply fl (makeInputCheckFailure ''Already initialized'') h
      else reply fl (ipaResultToBoolResult SUCCESS) (registerEventListeners ops relay ambassador (h\<lparr>mCb := cb\<rparr>)))"

definition stopOffload :: "'m manager_ops \<Rightarrow> 'm hal \<Rightarrow> bool_result \<times> 'm hal" where
  "stopOffload ops h =
     (let fl = FunctionLog ''stopOffload'' in
      if \<not> isInitialized h then reply fl (makeInputCheckFailure ''Was never initialized'') h
      else
        (let h = unregisterEventListeners ops (h\<lparr>mCb := None\<rparr>) in
         case op_stopAllOffload ops (mIPA h) of
           (r, m) \<Rightarrow>
             (case op_clearAllFds ops m of
                (r2, m) \<Rightarrow>
                  (let h = h\<lparr>mIPA := m\<rparr>;
                       h = (if r2 = SUCCESS then clearHandles h else h)
                   in reply fl (ipaResultToBoolResult (if r \<noteq> SUCCESS then r else r2)) h))))"

text \<open>
  \<open>setLocalPrefixes\<close>: without initialisation the failure is written to a local \<open>res\<close> that hides the
  one that is sent, so what is sent is the cleared one.
\<close>

definition hal_setLocalPrefixes ::
  "inet_lib \<Rightarrow> string list \<Rightarrow> 'm hal \<Rightarrow> (bool_result \<times> 'm hal) option" where
  "hal_setLocalPrefixes lib prefixes h =
     (let fl = addArg_strs ''prefixes'' prefixes (FunctionLog ''setLocalPrefixes'') in
      if \<not> isInitialized h then Some (reply fl \<lparr>success = False, errMsg = []\<rparr> h)
      else if length prefixes < 1 then Some (reply fl (ipaResultToBoolResult FAIL_INPUT_CHECK) h)
      else
        (case parser_add_all lib prefixes parser_new of
           None \<Rightarrow> None
         | Some (False, p) \<Rightarrow> Some (reply fl (makeInputCheckFailure (mLastErr p)) h)
         | Some (True, p) \<Rightarrow> Some (reply fl (ipaResultToBoolResult SUCCESS) h)))"

text \<open>\<open>getForwardedStats\<close> replies with the received and the transmitted bytes.\<close>

definition getForwardedStats :: "'m manager_ops \<Rightarrow> string \<Rightarrow> 'm hal \<Rightarrow> (64 word \<times> 64 word) \<times> 'm hal" where
  "getForwardedStats ops upstream h =
     (let fl = addArg_str ''upstream'' upstream (FunctionLog ''getForwardedStats'') in
      case op_getStats ops upstream True of
        (r, tx, rx) \<Rightarrow>
          if r = SUCCESS then ((rx, tx), hal_log (setResult_bytes rx tx fl) h)
          else ((0, 0), hal_log (setResult_bytes 0 0 fl) h))"

definition setDataLimit :: "'m manager_ops \<Rightarrow> string \<Rightarrow> 64 word \<Rightarrow> 'm hal \<Rightarrow> bool_result \<times> 'm hal" where
  "setDataLimit ops upstream limit h =
     (let fl = addArg_u64 ''limit'' limit (addArg_str ''upstream'' upstream (FunctionLog ''setDataLimit'')) in
      if \<not> isInitialized h then reply fl (makeInputCheckFailure ''Not initialized (setDataLimit)'') h
      else
        (let r = op_setQuota ops upstream limit;
             r = (if r = FAIL_TRY_AGAIN then SUCCESS else r)
         in reply fl (ipaResultToBoolResult r) h))"

definition forward ::
  "function_log \<Rightarrow> ('m \<Rightarrow> ret \<times> 'm) \<Rightarrow> 'm hal \<Rightarrow> bool_result \<times> 'm hal" where
  "forward fl f h = (case f (mIPA h) of (r, m) \<Rightarrow> reply fl (ipaResultToBoolResult r) (h\<lparr>mIPA := m\<rparr>))"

definition setUpstreamParameters ::
  "'m manager_ops \<Rightarrow> inet_lib \<Rightarrow> string \<Rightarrow> string \<Rightarrow> string \<Rightarrow> string list \<Rightarrow> 'm hal \<Rightarrow> (bool_result \<times> 'm hal) option" where
  "setUpstreamParameters ops lib iface v4A v4Gw v6Gws h =
     (let fl = addArg_strs ''v6Gws'' v6Gws (addArg_str ''v4Gw'' v4Gw (addArg_str ''v4Addr'' v4A
                 (addArg_str ''iface'' iface (FunctionLog ''setUpstreamParameters'')))) in
      if \<not> isInitialized h then Some (reply fl (makeInputCheckFailure ''Not initialized (setUpstreamParameters)'') h)
      else
        (case addV4 lib v4A parser_new of
           None \<Rightarrow> None
         | Some (a, v4AddrParser) \<Rightarrow>
             if \<not> a \<and> v4A \<noteq> [] then Some (reply fl (makeInputCheckFailure (mLastErr v4AddrParser)) h)
             else
               (case addV4 lib v4Gw parser_new of
                  None \<Rightarrow> None
                | Some (b, v4GwParser) \<Rightarrow>
                    if \<not> b \<and> v4Gw \<noteq> [] then Some (reply fl (makeInputCheckFailure (mLastErr v4GwParser)) h)
                    else
                      (case (if 1 \<le> length v6Gws then addV6_all lib v6Gws parser_new else Some (True, parser_new)) of
                         None \<Rightarrow> None
                       | Some (c, v6GwParser) \<Rightarrow>
                           if \<not> c then Some (reply fl (makeInputCheckFailure (mLastErr v6GwParser)) h)
                           else if 1 \<le> length iface then
                             Some (forward fl (op_setUpstream ops (Some iface) (getFirstPrefix INVALID v4GwParser)
                                     (getFirstPrefix INVALID v6GwParser)) h)
                           else
                             Some (forward fl (op_setUpstream ops None (getFirstPrefix V4 v4GwParser)
                                     (getFirstPrefix V6 v6GwParser)) h)))))"

definition hal_downstream ::
  "string \<Rightarrow> (string \<Rightarrow> prefix \<Rightarrow> 'm \<Rightarrow> ret \<times> 'm) \<Rightarrow> inet_lib \<Rightarrow> string \<Rightarrow> string \<Rightarrow> 'm hal \<Rightarrow> (bool_result \<times> 'm hal) option" where
  "hal_downstream fname f lib iface pre h =
     (let fl = addArg_str ''prefix'' pre (addArg_str ''iface'' iface (FunctionLog fname)) in
      if \<not> isInitialized h then Some (reply fl (makeInputCheckFailure ''Not initialized (setUpstreamParameters)'') h)
      else
        (case parser_add lib pre parser_new of
           None \<Rightarrow> None
         | Some (False, p) \<Rightarrow> Some (reply fl (makeInputCheckFailure (mLastErr p)) h)
         | Some (True, p) \<Rightarrow> Some (forward fl (f iface (getFirstPrefix INVALID p)) h)))"

definition hal_addDownstream ::
  "'m manager_ops \<Rightarrow> inet_lib \<Rightarrow> string \<Rightarrow> string \<Rightarrow> 'm hal \<Rightarrow> (bool_result \<times> 'm hal) option" where
  "hal_addDownstream ops lib iface pre h = hal_downstream ''addDownstream'' (op_addDownstream ops) lib iface pre h"

definition hal_removeDownstream ::
  "'m manager_ops \<Rightarrow> inet_lib \<Rightarrow> string \<Rightarrow> string \<Rightarrow> 'm hal \<Rightarrow> (bool_result \<times> 'm hal) option" where
  "hal_removeDownstream ops lib iface pre h =
     hal_downstream ''removeDownstream'' (op_removeDownstream ops) lib iface pre h"

text \<open>The calls of the framework, as one function on the state.\<close>

datatype hal_call =
  SetHandles "int list" "int list"
| InitOffload "nat option" nat nat
| StopOffload
| SetLocalPrefixes "string list"
| GetForwardedStats string
| SetDataLimit string "64 word"
| SetUpstreamParameters string string string "string list"
| AddDownstream string string
| RemoveDownstream string string

fun hal_step :: "'m manager_ops \<Rightarrow> inet_lib \<Rightarrow> (int \<Rightarrow> int) \<Rightarrow> hal_call \<Rightarrow> 'm hal \<Rightarrow> 'm hal option" where
  "hal_step ops lib clone (SetHandles fd1 fd2) h = Some (snd (setHandles ops clone fd1 fd2 h))"
| "hal_step ops lib clone (InitOffload cb relay ambassador) h = Some (snd (initOffload ops cb relay ambassador h))"
| "hal_step ops lib clone StopOffload h = Some (snd (stopOffload ops h))"
| "hal_step ops lib clone (SetLocalPrefixes ps) h = map_option snd (hal_setLocalPrefixes lib ps h)"
| "hal_step ops lib clone (GetForwardedStats up) h = Some (snd (getForwardedStats ops up h))"
| "hal_step ops lib clone (SetDataLimit up limit) h = Some (snd (setDataLimit ops up limit h))"
| "hal_step ops lib clone (SetUpstreamParameters iface a g gs) h = map_option snd (setUpstreamParameters ops lib iface a g gs h)"
| "hal_step ops lib clone (AddDownstream iface pre) h = map_option snd (hal_addDownstream ops lib iface pre h)"
| "hal_step ops lib clone (RemoveDownstream iface pre) h = map_option snd (hal_removeDownstream ops lib iface pre h)"

section \<open>The families of parsed gateways\<close>

lemma first_prefix_fam:
  assumes "mPrefixes p = ys" and "\<And>i. i < length ys \<Longrightarrow> prefix_ok f (ys ! i)"
  shows "fam (getFirstPrefix f p) = f"
proof (cases ys)
  case Nil
  with assms(1) show ?thesis by (simp add: getFirstPrefix_def parser_size_def makeBlankPrefix_def)
next
  case (Cons y zs)
  with assms(1) assms(2) [of 0] show ?thesis by (simp add: getFirstPrefix_def parser_size_def prefix_ok_def)
qed

lemma addV4_fam: "addV4 lib s parser_new = Some (b, p) \<Longrightarrow> fam (getFirstPrefix V4 p) = V4"
  using add_string_result [of lib s V4 parser_new b p]
  by (auto simp: addV4_def parser_new_def resolve_def intro!: first_prefix_fam)

lemma addV6_all_fam: "addV6_all lib ss parser_new = Some (b, p) \<Longrightarrow> fam (getFirstPrefix V6 p) = V6"
  using add_each_appends [of lib ss V6 parser_new b p]
  by (auto simp: addV6_all_def parser_new_def resolve_def intro!: first_prefix_fam)

lemma blank_fam: "fam (getFirstPrefix f parser_new) = f"
  by (simp add: getFirstPrefix_def parser_size_def parser_new_def makeBlankPrefix_def)

section \<open>The contract with the manager\<close>

text \<open>
  What the HAL relies on: \<open>inv\<close> is the manager's invariant, \<open>lis\<close> its two listeners, \<open>idle\<close> says that
  no traffic is offloaded and no upstream is waiting. \<open>ready\<close> is the replay that the interfaces
  trigger and \<open>push\<close> their own requests; both happen between the calls of the HAL.
\<close>

locale offload_provider =
  fixes ops :: "'e \<Rightarrow> 'm manager_ops" and good_env :: "'e \<Rightarrow> bool" and replay :: "'e \<Rightarrow> string \<Rightarrow> 'm \<Rightarrow> 'm"
    and push :: "string \<Rightarrow> prefix \<Rightarrow> 'm \<Rightarrow> 'm" and inv :: "'m \<Rightarrow> bool" and idle :: "'m \<Rightarrow> bool"
    and lis :: "'m \<Rightarrow> nat option \<times> nat option"
  assumes reg: "inv m \<Longrightarrow> inv (snd (op_registerEventListener (ops e) l m)) \<and>
        lis (snd (op_registerEventListener (ops e) l m)) = (Some l, snd (lis m))"
    and reg_ct: "inv m \<Longrightarrow> inv (snd (op_registerCtTimeoutUpdater (ops e) l m)) \<and>
        lis (snd (op_registerCtTimeoutUpdater (ops e) l m)) = (fst (lis m), Some l)"
    and reg_idle: "idle m \<Longrightarrow> idle (snd (op_registerEventListener (ops e) l m)) \<and>
        idle (snd (op_registerCtTimeoutUpdater (ops e) l m))"
    and unreg: "inv m \<Longrightarrow> inv (snd (op_unregisterEventListener (ops e) m)) \<and>
        lis (snd (op_unregisterEventListener (ops e) m)) = (None, snd (lis m))"
    and unreg_ct: "inv m \<Longrightarrow> inv (snd (op_unregisterCtTimeoutUpdater (ops e) m)) \<and>
        lis (snd (op_unregisterCtTimeoutUpdater (ops e) m)) = (fst (lis m), None)"
    and fds: "inv m \<Longrightarrow> inv (snd (op_provideFd (ops e) fd g m)) \<and> lis (snd (op_provideFd (ops e) fd g m)) = lis m \<and>
        (idle m \<longrightarrow> idle (snd (op_provideFd (ops e) fd g m)))"
    and clear_fds: "inv m \<Longrightarrow> inv (snd (op_clearAllFds (ops e) m)) \<and> lis (snd (op_clearAllFds (ops e) m)) = lis m \<and>
        (idle m \<longrightarrow> idle (snd (op_clearAllFds (ops e) m)))"
    and add_down: "inv m \<Longrightarrow> inv (snd (op_addDownstream (ops e) name pre m)) \<and> lis (snd (op_addDownstream (ops e) name pre m)) = lis m"
    and remove_down: "inv m \<Longrightarrow> inv (snd (op_removeDownstream (ops e) name pre m)) \<and> lis (snd (op_removeDownstream (ops e) name pre m)) = lis m"
    and set_up: "good_env e \<Longrightarrow> inv m \<Longrightarrow> (u = None \<Longrightarrow> fam gw4 = V4 \<and> fam gw6 = V6) \<Longrightarrow>
        inv (snd (op_setUpstream (ops e) u gw4 gw6 m)) \<and> lis (snd (op_setUpstream (ops e) u gw4 gw6 m)) = lis m"
    and stop: "good_env e \<Longrightarrow> inv m \<Longrightarrow> inv (snd (op_stopAllOffload (ops e) m)) \<and>
        lis (snd (op_stopAllOffload (ops e) m)) = lis m \<and> idle (snd (op_stopAllOffload (ops e) m))"
    and replay: "good_env e \<Longrightarrow> inv m \<Longrightarrow> inv (replay e name m) \<and> lis (replay e name m) = lis m \<and> (idle m \<longrightarrow> idle (replay e name m))"
    and push: "inv m \<Longrightarrow> inv (push name pre m) \<and> lis (push name pre m) = lis m \<and> (idle m \<longrightarrow> idle (push name pre m))"
begin

text \<open>
  The invariant of the HAL: it has a listener of each kind exactly when it has a callback, they are
  the ones the manager knows, and without a callback the manager is idle.
\<close>

definition hal_inv :: "'m hal \<Rightarrow> bool" where
  "hal_inv h \<longleftrightarrow> inv (mIPA h) \<and> lis (mIPA h) = (mCbIpa h, mCbCt h) \<and> (mCbIpa h = None \<longleftrightarrow> mCb h = None) \<and>
     (mCbCt h = None \<longleftrightarrow> mCb h = None) \<and> (mCb h = None \<longrightarrow> idle (mIPA h))"

lemma hal_inv_log [simp]: "hal_inv (hal_log fl h) = hal_inv h"
  by (simp add: hal_inv_def hal_log_def)

lemma hal_inv_reply [simp]: "hal_inv (snd (reply fl res h)) = hal_inv h"
  by (simp add: reply_def)

lemma hal_inv_replyD: "reply fl res h = (r, h') \<Longrightarrow> hal_inv h \<Longrightarrow> hal_inv h'"
  using hal_inv_reply [of fl res h] by simp

lemma hal_inv_handles: "hal_inv (clearHandles h) = hal_inv h" "hal_inv (h\<lparr>mHandle1 := a, mHandle2 := b\<rparr>) = hal_inv h"
  by (simp_all add: hal_inv_def clearHandles_def)

lemma hal_inv_forward:
  assumes "hal_inv h" and "isInitialized h" and "inv (snd (f (mIPA h))) \<and> lis (snd (f (mIPA h))) = lis (mIPA h)"
  shows "hal_inv (snd (forward fl f h))"
  using assms by (auto simp: forward_def hal_inv_def isInitialized_def reply_def hal_log_def split: prod.split)

lemma setHandles_inv: "hal_inv h \<Longrightarrow> hal_inv (snd (setHandles (ops e) clone fd1 fd2 h))"
proof -
  assume h: "hal_inv h"
  have mgr: "hal_inv (h'\<lparr>mIPA := m\<rparr>)"
    if "hal_inv h'" "inv m" "lis m = lis (mIPA h')" "idle (mIPA h') \<longrightarrow> idle m" for h' m
    using that by (simp add: hal_inv_def)
  define h1 where "h1 = h\<lparr>mHandle1 := map clone fd1, mHandle2 := map clone fd2\<rparr>"
  have h1: "hal_inv h1" using h by (simp add: h1_def hal_inv_handles)
  obtain r m where r: "op_provideFd (ops e) (mHandle1 h1 ! 0) UDP_SUBSCRIPTIONS (mIPA h1) = (r, m)" by fastforce
  have m: "inv m" "lis m = lis (mIPA h1)" "idle (mIPA h1) \<longrightarrow> idle m"
    using fds [of "mIPA h1" e] h1 r by (metis hal_inv_def snd_conv)+
  obtain r2 m2 where r2: "(if r = SUCCESS then op_provideFd (ops e) (mHandle2 h1 ! 0) TCP_SUBSCRIPTIONS m else (r, m)) = (r2, m2)"
    by fastforce
  have m2: "inv m2 \<and> lis m2 = lis m \<and> (idle m \<longrightarrow> idle m2)"
  proof (cases "r = SUCCESS")
    case True
    with r2 fds [OF m(1), of e "mHandle2 h1 ! 0" TCP_SUBSCRIPTIONS] show ?thesis by simp
  next
    case False
    with r2 m(1) show ?thesis by simp
  qed
  have "hal_inv (h1\<lparr>mIPA := m2\<rparr>)" using mgr [OF h1] m m2 by simp
  then show ?thesis using h r r2
    unfolding setHandles_def h1_def [symmetric] Let_def by (simp add: hal_inv_handles)
qed

lemma initOffload_inv: "hal_inv h \<Longrightarrow> hal_inv (snd (initOffload (ops e) cb relay ambassador h))"
proof (cases "isInitialized h \<or> cb = None")
  case True
  then show "hal_inv h \<Longrightarrow> ?thesis"
    by (auto simp: initOffload_def registerEventListeners_def registerIpaCb_def registerCtCb_def isInitialized_def hal_inv_def
        reply_def hal_log_def)
next
  case False
  assume h: "hal_inv h"
  define m1 where "m1 = snd (op_registerEventListener (ops e) relay (mIPA h))"
  define m2 where "m2 = snd (op_registerCtTimeoutUpdater (ops e) ambassador m1)"
  have m1: "inv m1" "lis m1 = (Some relay, snd (lis (mIPA h)))"
    using reg h by (simp_all add: m1_def hal_inv_def)
  have m2: "inv m2" "lis m2 = (Some relay, Some ambassador)"
    using reg_ct [OF m1(1)] m1(2) by (simp_all add: m2_def)
  show ?thesis using False h m2
    by (auto simp: initOffload_def registerEventListeners_def registerIpaCb_def registerCtCb_def isInitialized_def hal_inv_def
        reply_def hal_log_def m1_def [symmetric] m2_def [symmetric])
qed

lemma stopOffload_inv:
  assumes "good_env e" and "hal_inv h"
  shows "hal_inv (snd (stopOffload (ops e) h))"
proof (cases "isInitialized h")
  case False
  with assms show ?thesis by (simp add: stopOffload_def)
next
  case True
  define h1 where "h1 = unregisterEventListeners (ops e) (h\<lparr>mCb := None\<rparr>)"
  have some: "mCbIpa h \<noteq> None" "mCbCt h \<noteq> None" "inv (mIPA h)"
    using True assms(2) by (simp_all add: hal_inv_def isInitialized_def)
  have h1: "mCb h1 = None" "mCbIpa h1 = None" "mCbCt h1 = None" "inv (mIPA h1)" "lis (mIPA h1) = (None, None)"
    using some unreg [OF some(3), of e] unreg_ct [of "snd (op_unregisterEventListener (ops e) (mIPA h))" e]
    by (simp_all add: h1_def unregisterEventListeners_def unregisterIpaCb_def unregisterCtCb_def hal_log_def)
  obtain r m where r: "op_stopAllOffload (ops e) (mIPA h1) = (r, m)" by fastforce
  have m: "inv m" "lis m = (None, None)" "idle m" using stop [OF assms(1) h1(4)] r h1(5) by simp_all
  obtain r2 m2 where r2: "op_clearAllFds (ops e) m = (r2, m2)" by fastforce
  have m2: "inv m2" "lis m2 = (None, None)" "idle m2" using clear_fds [OF m(1), of e] r2 m by simp_all
  have "hal_inv (h1\<lparr>mIPA := m2\<rparr>)" using h1 m2 by (simp add: hal_inv_def)
  then show ?thesis using True r r2
    unfolding stopOffload_def h1_def [symmetric] Let_def by (simp add: hal_inv_handles)
qed

lemma setUpstreamParameters_inv:
  assumes env: "good_env e" and h: "hal_inv h" and r: "setUpstreamParameters (ops e) lib iface a g gs h = Some (res, h')"
  shows "hal_inv h'"
proof -
  have up: "hal_inv h'"
    if "isInitialized h" "u = None \<Longrightarrow> fam gw4 = V4 \<and> fam gw6 = V6"
      "forward fl (op_setUpstream (ops e) u gw4 gw6) h = (res, h')" for fl u gw4 gw6
    using hal_inv_forward [OF h that(1), of "op_setUpstream (ops e) u gw4 gw6" fl] set_up [OF env _ that(2)] h that(3)
    by (simp add: hal_inv_def)
  show ?thesis
  proof (cases "isInitialized h")
    case False
    with r h show ?thesis by (auto simp: setUpstreamParameters_def Let_def) (metis hal_inv_reply snd_conv)
  next
    case init: True
    obtain b1 p1 where 1: "addV4 lib a parser_new = Some (b1, p1)"
      using r init by (auto simp: setUpstreamParameters_def Let_def split: option.splits)
    show ?thesis
    proof (cases "\<not> b1 \<and> a \<noteq> []")
      case True
      with r init 1 h show ?thesis
        by (auto simp: setUpstreamParameters_def Let_def) (metis hal_inv_reply snd_conv)
    next
      case a: False
      obtain b2 p2 where 2: "addV4 lib g parser_new = Some (b2, p2)"
        using r init 1 a by (auto simp: setUpstreamParameters_def Let_def split: option.splits if_splits)
      show ?thesis
      proof (cases "\<not> b2 \<and> g \<noteq> []")
        case True
        with r init 1 2 a h show ?thesis
          by (auto simp: setUpstreamParameters_def Let_def split: if_splits) (metis hal_inv_reply snd_conv)+
      next
        case g: False
        obtain b3 p3 where 3: "(if 1 \<le> length gs then addV6_all lib gs parser_new else Some (True, parser_new)) = Some (b3, p3)"
          using r init 1 2 a g by (auto simp: setUpstreamParameters_def Let_def split: option.splits if_splits)
        have fams: "fam (getFirstPrefix V4 p2) = V4" "fam (getFirstPrefix V6 p3) = V6"
          using addV4_fam [OF 2] 3 addV6_all_fam blank_fam by (auto split: if_splits)
        note r' = r [unfolded setUpstreamParameters_def Let_def 1 2 3 option.case prod.case]
        show ?thesis
        proof (cases "b3 \<and> \<not> 1 \<le> length iface")
          case True
          with r' init a g have "\<exists>fl. forward fl (op_setUpstream (ops e) None (getFirstPrefix V4 p2) (getFirstPrefix V6 p3)) h = (res, h')"
            by auto
          with up [OF init, where u = None] fams show ?thesis by blast
        next
          case False
          with r' init a g consider (fail) "\<exists>fl x. reply fl x h = (res, h')"
            | (up) "\<exists>fl. forward fl (op_setUpstream (ops e) (Some iface) (getFirstPrefix INVALID p2) (getFirstPrefix INVALID p3)) h = (res, h')"
            by (auto split: if_splits)
          then show ?thesis using up [OF init, where u = "Some iface"] hal_inv_replyD [OF _ h] by cases blast+
        qed
      qed
    qed
  qed
qed

lemma hal_downstream_inv:
  assumes h: "hal_inv h" and f: "\<And>m pre. inv m \<Longrightarrow> inv (snd (f iface pre m)) \<and> lis (snd (f iface pre m)) = lis m"
    and r: "hal_downstream fname f lib iface pre h = Some (res, h')"
  shows "hal_inv h'"
proof (cases "isInitialized h")
  case False
  with r h show ?thesis by (auto simp: hal_downstream_def Let_def) (metis hal_inv_reply snd_conv)
next
  case True
  obtain b p where p: "parser_add lib pre parser_new = Some (b, p)"
    using r True by (auto simp: hal_downstream_def Let_def split: option.splits)
  have "hal_inv (snd (forward fl (f iface (getFirstPrefix INVALID p)) h))" for fl
    using f [of "mIPA h"] h True by (intro hal_inv_forward) (simp_all add: hal_inv_def)
  with r True p h show ?thesis
    by (cases b) (auto simp: hal_downstream_def Let_def, (metis hal_inv_reply snd_conv)+)
qed

text \<open>Every call of the framework keeps the invariant.\<close>

lemma hal_step_inv:
  assumes env: "good_env e" and h: "hal_inv h" and r: "hal_step (ops e) lib clone c h = Some h'"
  shows "hal_inv h'"
proof (cases c)
  case (SetUpstreamParameters iface a g gs)
  with r setUpstreamParameters_inv [OF env h] show ?thesis by fastforce
next
  case (AddDownstream iface pre)
  with r hal_downstream_inv [OF h] add_down show ?thesis unfolding hal_addDownstream_def by (fastforce simp: hal_addDownstream_def)
next
  case (RemoveDownstream iface pre)
  with r hal_downstream_inv [OF h] remove_down show ?thesis by (fastforce simp: hal_removeDownstream_def)
next
  case (GetForwardedStats up)
  with r h show ?thesis by (auto simp: getForwardedStats_def Let_def split: prod.splits)
next
  case (SetDataLimit up limit)
  with r h show ?thesis by (auto simp: setDataLimit_def Let_def dest: hal_inv_replyD)
next
  case (SetLocalPrefixes ps)
  with r h show ?thesis
    by (auto simp: hal_setLocalPrefixes_def Let_def dest: hal_inv_replyD
        split: option.splits prod.splits bool.splits if_splits)
qed (use r h setHandles_inv initOffload_inv stopOffload_inv [OF env] in auto)

text \<open>What happens on the manager between the calls.\<close>

lemma replay_inv: "good_env e \<Longrightarrow> hal_inv h \<Longrightarrow> hal_inv (h\<lparr>mIPA := replay e name (mIPA h)\<rparr>)"
  using replay by (simp add: hal_inv_def)

lemma push_inv: "hal_inv h \<Longrightarrow> hal_inv (h\<lparr>mIPA := push name pre (mIPA h)\<rparr>)"
  using push by (simp add: hal_inv_def)

end

section \<open>The manager behind the HAL\<close>

definition manager_vtable :: "offload_env \<Rightarrow> offload_manager manager_ops" where
  "manager_vtable env =
     \<lparr>op_registerEventListener = registerEventListener, op_unregisterEventListener = unregisterEventListener,
      op_registerCtTimeoutUpdater = registerCtTimeoutUpdater, op_unregisterCtTimeoutUpdater = unregisterCtTimeoutUpdater,
      op_provideFd = provideFd env, op_clearAllFds = clearAllFds, op_addDownstream = addDownstream env,
      op_removeDownstream = removeDownstream env, op_setUpstream = setUpstream env,
      op_stopAllOffload = stopAllOffload env, op_setQuota = setQuota env, op_getStats = getStats env\<rparr>"

definition manager_inv :: "offload_manager \<Rightarrow> bool" where
  "manager_inv m \<longleftrightarrow> routes_ok m \<and> cache_wf m"

definition manager_idle :: "offload_manager \<Rightarrow> bool" where
  "manager_idle m \<longleftrightarrow> cache_wf m \<and> routes_of m = (None, None) \<and> no_cached_upstream m"

definition replay_cache :: "offload_env \<Rightarrow> string \<Rightarrow> offload_manager \<Rightarrow> offload_manager" where
  "replay_cache env name m = snd (search_framwork_cache env name m)"

definition push_event :: "string \<Rightarrow> prefix \<Rightarrow> offload_manager \<Rightarrow> offload_manager" where
  "push_event name pre m = snd (push_framework_event name pre m)"

lemma same_manager:
  assumes "posted_events m' = posted_events m" "upstream_v4_up m' = upstream_v4_up m" "upstream_v6_up m' = upstream_v6_up m"
    "default_gw_index m' = default_gw_index m" "event_cache m' = event_cache m" "latest_cache_index m' = latest_cache_index m"
  shows "manager_inv m' = manager_inv m" "manager_idle m' = manager_idle m"
  using assms by (simp_all add: manager_inv_def manager_idle_def routes_ok_def routes_of_def cache_wf_def no_cached_upstream_def)

lemma provideFd_frame:
  "posted_events (snd (provideFd env fd g m)) = posted_events m \<and> upstream_v4_up (snd (provideFd env fd g m)) = upstream_v4_up m \<and>
   upstream_v6_up (snd (provideFd env fd g m)) = upstream_v6_up m \<and> default_gw_index (snd (provideFd env fd g m)) = default_gw_index m \<and>
   event_cache (snd (provideFd env fd g m)) = event_cache m \<and> latest_cache_index (snd (provideFd env fd g m)) = latest_cache_index m \<and>
   listeners (snd (provideFd env fd g m)) = listeners m"
  by (simp add: provideFd_def Let_def listeners_def)

interpretation mgr: offload_provider manager_vtable env_ok replay_cache push_event manager_inv manager_idle listeners
proof
  fix m :: offload_manager and e l
  assume m: "manager_inv m"
  show "manager_inv (snd (op_registerEventListener (manager_vtable e) l m)) \<and>
      listeners (snd (op_registerEventListener (manager_vtable e) l m)) = (Some l, snd (listeners m))"
    using m same_manager(1) [of "m\<lparr>elrInstance := Some l\<rparr>" m]
    by (simp add: manager_vtable_def registerEventListener_def listeners_def)
  show "manager_inv (snd (op_registerCtTimeoutUpdater (manager_vtable e) l m)) \<and>
      listeners (snd (op_registerCtTimeoutUpdater (manager_vtable e) l m)) = (fst (listeners m), Some l)"
    using m same_manager(1) [of "m\<lparr>touInstance := Some l\<rparr>" m]
    by (simp add: manager_vtable_def registerCtTimeoutUpdater_def listeners_def)
  show "manager_inv (snd (op_unregisterEventListener (manager_vtable e) m)) \<and>
      listeners (snd (op_unregisterEventListener (manager_vtable e) m)) = (None, snd (listeners m))"
    using m same_manager(1) [of "m\<lparr>elrInstance := None\<rparr>" m]
    by (simp add: manager_vtable_def unregisterEventListener_def listeners_def)
  show "manager_inv (snd (op_unregisterCtTimeoutUpdater (manager_vtable e) m)) \<and>
      listeners (snd (op_unregisterCtTimeoutUpdater (manager_vtable e) m)) = (fst (listeners m), None)"
    using m same_manager(1) [of "m\<lparr>touInstance := None\<rparr>" m]
    by (simp add: manager_vtable_def unregisterCtTimeoutUpdater_def listeners_def)
next
  fix m :: offload_manager and e l
  assume "manager_idle m"
  then show "manager_idle (snd (op_registerEventListener (manager_vtable e) l m)) \<and>
      manager_idle (snd (op_registerCtTimeoutUpdater (manager_vtable e) l m))"
    using same_manager(2) [of "m\<lparr>elrInstance := Some l\<rparr>" m] same_manager(2) [of "m\<lparr>touInstance := Some l\<rparr>" m]
    by (simp add: manager_vtable_def registerEventListener_def registerCtTimeoutUpdater_def)
next
  fix m :: offload_manager and e fd g
  assume "manager_inv m"
  then show "manager_inv (snd (op_provideFd (manager_vtable e) fd g m)) \<and>
      listeners (snd (op_provideFd (manager_vtable e) fd g m)) = listeners m \<and>
      (manager_idle m \<longrightarrow> manager_idle (snd (op_provideFd (manager_vtable e) fd g m)))"
    using provideFd_frame [of e fd g m] same_manager [of "snd (provideFd e fd g m)" m] by (simp add: manager_vtable_def)
next
  fix m :: offload_manager and e
  assume "manager_inv m"
  then show "manager_inv (snd (op_clearAllFds (manager_vtable e) m)) \<and>
      listeners (snd (op_clearAllFds (manager_vtable e) m)) = listeners m \<and>
      (manager_idle m \<longrightarrow> manager_idle (snd (op_clearAllFds (manager_vtable e) m)))"
    by (simp add: manager_vtable_def clearAllFds_def)
next
  fix m :: offload_manager and e name pre
  assume m: "manager_inv m"
  show "manager_inv (snd (op_addDownstream (manager_vtable e) name pre m)) \<and>
      listeners (snd (op_addDownstream (manager_vtable e) name pre m)) = listeners m"
    using addDownstream_keeps [of m e name pre] same_routesD [of m "snd (addDownstream e name pre m)"] m
    by (simp add: manager_vtable_def manager_inv_def)
  show "manager_inv (snd (op_removeDownstream (manager_vtable e) name pre m)) \<and>
      listeners (snd (op_removeDownstream (manager_vtable e) name pre m)) = listeners m"
    using removeDownstream_keeps [of m e name pre] same_routesD [of m "snd (removeDownstream e name pre m)"] m
    by (simp add: manager_vtable_def manager_inv_def cache_wf_def)
next
  fix m :: offload_manager and e and u :: "string option" and gw4 gw6 :: prefix
  assume "env_ok e" "manager_inv m" "u = None \<Longrightarrow> fam gw4 = V4 \<and> fam gw6 = V6"
  then show "manager_inv (snd (op_setUpstream (manager_vtable e) u gw4 gw6 m)) \<and>
      listeners (snd (op_setUpstream (manager_vtable e) u gw4 gw6 m)) = listeners m"
    using setUpstream_routes [of e m u gw4 gw6] setUpstream_cache_wf setUpstream_listeners
    by (simp add: manager_vtable_def manager_inv_def)
next
  fix m :: offload_manager and e
  assume "env_ok e" "manager_inv m"
  then show "manager_inv (snd (op_stopAllOffload (manager_vtable e) m)) \<and>
      listeners (snd (op_stopAllOffload (manager_vtable e) m)) = listeners m \<and>
      manager_idle (snd (op_stopAllOffload (manager_vtable e) m))"
    using stopAllOffload_idle [of e m] by (simp add: manager_vtable_def manager_inv_def manager_idle_def)
next
  fix m :: offload_manager and e name
  assume m: "env_ok e" "manager_inv m"
  then have "manager_inv (replay_cache e name m) \<and> listeners (replay_cache e name m) = listeners m"
    using search_keeps [of e m name] by (simp add: manager_inv_def replay_cache_def)
  moreover have "manager_idle m \<longrightarrow> manager_idle (replay_cache e name m)"
    using search_keeps_idle [of m e name] same_routesD(2) [of m "snd (search_framwork_cache e name m)"] search_keeps [of e m name] m
    by (simp add: manager_idle_def manager_inv_def replay_cache_def)
  ultimately show "manager_inv (replay_cache e name m) \<and> listeners (replay_cache e name m) = listeners m \<and>
      (manager_idle m \<longrightarrow> manager_idle (replay_cache e name m))" by blast
next
  fix m :: offload_manager and name pre
  assume m: "manager_inv m"
  obtain b m' where c: "cache_request MAX_EVENT_CACHE (cache_downstream name pre) m = (b, m')" by fastforce
  have "no_cached_upstream m \<Longrightarrow> no_cached_upstream m'"
    by (rule cache_request_no_upstream [OF c _ not_upstream_downstream])
  with m cache_request_full [OF c] same_routesD [OF same_routes_cache [OF c]]
  show "manager_inv (push_event name pre m) \<and> listeners (push_event name pre m) = listeners m \<and>
      (manager_idle m \<longrightarrow> manager_idle (push_event name pre m))"
    by (simp add: push_event_def push_framework_event_def c manager_inv_def manager_idle_def)
qed

section \<open>Runs\<close>

text \<open>
  The HAL and the manager from their constructors on: calls of the framework, interfaces that become
  ready and interfaces that ask for their own downstream again, in any order; the kernel may answer
  differently at every step.
\<close>

inductive hal_run :: "offload_manager hal \<Rightarrow> bool" where
  start: "hal_run (HAL offload_manager_new)"
| call: "hal_run h \<Longrightarrow> env_ok env \<Longrightarrow> hal_step (manager_vtable env) lib clone c h = Some h' \<Longrightarrow> hal_run h'"
| iface_ready: "hal_run h \<Longrightarrow> env_ok env \<Longrightarrow> hal_run (h\<lparr>mIPA := replay_cache env name (mIPA h)\<rparr>)"
| iface_push: "hal_run h \<Longrightarrow> hal_run (h\<lparr>mIPA := push_event name pre (mIPA h)\<rparr>)"

lemma hal_run_inv: "hal_run h \<Longrightarrow> mgr.hal_inv h"
proof (induction rule: hal_run.induct)
  case start
  show ?case unfolding mgr.hal_inv_def
    by (simp add: HAL_def offload_manager_new_def manager_inv_def manager_idle_def routes_ok_def routes_of_def
        hw_route_def cache_wf_def no_cached_upstream_def is_cached_upstream_def empty_cache_entry_def listeners_def
        MAX_EVENT_CACHE_def)
next
  case (call h env lib clone c h')
  then show ?case using mgr.hal_step_inv by blast
next
  case (iface_ready h env name)
  then show ?case using mgr.replay_inv by blast
next
  case (iface_push h name pre)
  then show ?case using mgr.push_inv by blast
qed

section \<open>Properties\<close>

text \<open>
  C27: In every run of the HAL, the manager and the interfaces, the route events are balanced, the
  manager has exactly the listeners the HAL has made, the HAL has them exactly while it is
  initialised, and while it is not, no route is up and no upstream waits in the cache.
\<close>

theorem hal_runs_are_safe:
  assumes "hal_run h"
  shows "routes_ok (mIPA h) \<and> listeners (mIPA h) = (mCbIpa h, mCbCt h) \<and> (isInitialized h \<longleftrightarrow> mCbIpa h \<noteq> None) \<and>
    (isInitialized h \<or> routes_of (mIPA h) = (None, None) \<and> no_cached_upstream (mIPA h))"
  using hal_run_inv [OF assms] unfolding mgr.hal_inv_def manager_inv_def manager_idle_def isInitialized_def by auto

text \<open>Initialise, set an upstream, stop.\<close>

definition hal_demo1 :: "offload_manager hal" where
  "hal_demo1 = the (hal_step (manager_vtable env_demo) inet_demo id (InitOffload (Some 1) 2 3) (HAL offload_manager_new))"

definition hal_demo2 :: "offload_manager hal" where
  "hal_demo2 = the (hal_step (manager_vtable env_demo) inet_demo id
     (SetUpstreamParameters ''rmnet_data0'' [] ''10.0.0.1'' []) hal_demo1)"

definition hal_demo3 :: "offload_manager hal" where
  "hal_demo3 = the (hal_step (manager_vtable env_demo) inet_demo id StopOffload hal_demo2)"

lemma hal_demo_run: "hal_run hal_demo1" "hal_run hal_demo2" "hal_run hal_demo3"
proof -
  have "hal_step (manager_vtable env_demo) inet_demo id (InitOffload (Some 1) 2 3) (HAL offload_manager_new) = Some hal_demo1"
    by (simp add: hal_demo1_def)
  then show 1: "hal_run hal_demo1" by (rule hal_run.call [OF hal_run.start env_demo_ok])
  have "hal_step (manager_vtable env_demo) inet_demo id (SetUpstreamParameters ''rmnet_data0'' [] ''10.0.0.1'' []) hal_demo1 \<noteq> None"
    by code_simp
  then have "hal_step (manager_vtable env_demo) inet_demo id (SetUpstreamParameters ''rmnet_data0'' [] ''10.0.0.1'' []) hal_demo1 =
      Some hal_demo2"
    by (auto simp: hal_demo2_def)
  then show 2: "hal_run hal_demo2" by (rule hal_run.call [OF 1 env_demo_ok])
  have "hal_step (manager_vtable env_demo) inet_demo id StopOffload hal_demo2 = Some hal_demo3" by (simp add: hal_demo3_def)
  then show "hal_run hal_demo3" by (rule hal_run.call [OF 2 env_demo_ok])
qed

theorem hal_runs_are_safe_witness:
  "routes_of (mIPA hal_demo2) = (Some 5, None) \<and> routes_of (mIPA hal_demo3) = (None, None)"
proof -
  have "\<not> isInitialized hal_demo3" by code_simp
  with hal_runs_are_safe [OF hal_demo_run(3)] have "routes_of (mIPA hal_demo3) = (None, None)" by simp
  moreover have "routes_of (mIPA hal_demo2) = (Some 5, None)" by code_simp
  ultimately show ?thesis by blast
qed

text \<open>
  Stopping the offload when no upstream is set and none is waiting replies a failed input check,
  although everything has been stopped: the callback is gone, the listeners are unregistered, the
  handles are closed, and the routes are down.
\<close>

theorem stop_without_upstream_fails:
  assumes "isInitialized h" and "default_gw_index (mIPA h) = INVALID_IFACE" and "no_cached_upstream (mIPA h)"
  shows "fst (stopOffload (manager_vtable env) h) = \<lparr>success = False, errMsg = ''Failed Input Checks''\<rparr> \<and>
    (case snd (stopOffload (manager_vtable env) h) of h' \<Rightarrow>
       \<not> isInitialized h' \<and> mCbIpa h' = None \<and> mCbCt h' = None \<and> mHandle1 h' = [] \<and> mHandle2 h' = [] \<and>
       \<not> upstream_v4_up (mIPA h') \<and> \<not> upstream_v6_up (mIPA h'))"
proof -
  define h1 where "h1 = unregisterEventListeners (manager_vtable env) (h\<lparr>mCb := None\<rparr>)"
  have h1: "default_gw_index (mIPA h1) = INVALID_IFACE" "event_cache (mIPA h1) = event_cache (mIPA h)" "mCb h1 = None"
    "mCbIpa h1 = None" "mCbCt h1 = None"
    using assms(2)
    by (auto simp: h1_def unregisterEventListeners_def unregisterIpaCb_def unregisterCtCb_def hal_log_def manager_vtable_def
        unregisterEventListener_def unregisterCtTimeoutUpdater_def)
  have "fst (remove_upstream env (makeBlankPrefix V4) (makeBlankPrefix V6) (mIPA h1)) = FAIL_INPUT_CHECK"
    using h1(1,2) assms(3) by (auto simp: remove_upstream_def no_cached_upstream_def)
  then obtain m where m: "stopAllOffload env (mIPA h1) = (FAIL_INPUT_CHECK, m)" "\<not> upstream_v4_up m" "\<not> upstream_v6_up m"
    by (cases "remove_upstream env (makeBlankPrefix V4) (makeBlankPrefix V6) (mIPA h1)")
      (auto simp: stopAllOffload_def setUpstream_def)
  show ?thesis using assms(1) h1(3-5) m
    unfolding stopOffload_def h1_def [symmetric] Let_def
    by (simp add: manager_vtable_def clearAllFds_def reply_def hal_log_def clearHandles_def ipaResultToBoolResult_def ret_ok_def
        isInitialized_def)
qed

theorem stop_without_upstream_fails_witness:
  "\<not> success (fst (stopOffload (manager_vtable env_demo) hal_demo1))"
proof -
  have "isInitialized hal_demo1" "default_gw_index (mIPA hal_demo1) = INVALID_IFACE" "no_cached_upstream (mIPA hal_demo1)"
    by code_simp+
  from stop_without_upstream_fails [OF this, of env_demo] show ?thesis by simp
qed

end
