(* ===== verification/Nat_App.thy ===== *)
theory Nat_App
  imports Ipa_Prelude
begin

text \<open>
  The NAT cache of \<open>ipacm/src/IPACM_Conntrack_NATApp.cpp\<close> (the build with
  \<open>FEATURE_IPACM_HAL\<close>): the cached connections, the temporary entries, the clients in power
  save, and the operations the conntrack listener and the WAN handlers call on them.

  \<^item> \<open>nat_entry\<close> is \<open>nat_table_entry\<close>; \<open>natapp\<close> is the object \<open>NatApp\<close>. The arrays are lists, and
    \<open>max_entries\<close> is the length of \<open>cache\<close>. The object carries \<open>dev\<close>, the state of what lies
    behind its calls: the NAT driver, the filter rules of the modem, the framework's updater.
  \<^item> \<open>nat_env\<close> holds those calls as functions on \<open>dev\<close>: the NAT driver \<open>libipanat\<close>, the kernel's
    equation generator, the filtering object, and the settings the code reads from its
    configuration. A call that writes an out parameter returns \<open>Some\<close> what it wrote.
  \<^item> An operation is a function from the object to its result and the object after it; a
    loop over the cache is \<open>fold\<close> over the indices.
\<close>

section \<open>Data\<close>

record nat_entry =
  private_ip :: u32
  private_port :: u16
  target_ip :: u32
  target_port :: u16
  public_ip :: u32
  public_port :: u16
  protocol :: u8
  timestamp :: u32
  dst_nat :: bool
  enabled :: bool
  rule_hdl :: u32
  rule_id :: u32

text \<open>What \<open>memset\<close> leaves.\<close>

definition zero_entry :: nat_entry where
  "zero_entry = \<lparr>private_ip = 0, private_port = 0, target_ip = 0, target_port = 0, public_ip = 0,
     public_port = 0, protocol = 0, timestamp = 0, dst_nat = False, enabled = False, rule_hdl = 0,
     rule_id = 0\<rparr>"

text \<open>\<open>ipa_nat_ipv4_rule\<close>, \<open>ipa_nat_pdn_entry\<close>, the filter rule of \<open>AddConnection\<close> and
  \<open>natTimeoutUpdate_t\<close>.\<close>

record ipv4_rule =
  r_target_ip :: u32
  r_private_ip :: u32
  r_target_port :: u16
  r_private_port :: u16
  r_public_port :: u16
  r_protocol :: u8

record pdn_entry =
  pdn_public_ip :: u32
  src_metadata :: u32
  dst_metadata :: u32

record flt_rule =
  f_src_port :: u16
  f_dst_port :: u16
  f_protocol :: u8
  f_dst_addr :: u32
  f_dst_addr_mask :: u32
  f_src_addr :: u32
  f_src_addr_mask :: u32

datatype tou_proto = TOU_TCP | TOU_UDP

record timeout_update =
  tou_proto :: tou_proto
  tou_src_ip :: u32
  tou_src_port :: u16
  tou_dst_ip :: u32
  tou_dst_port :: u16

record 'd nat_env =
  add_ipv4_tbl :: "u32 \<Rightarrow> nat \<Rightarrow> 'd \<Rightarrow> (int \<times> u32 option) \<times> 'd"
  del_ipv4_tbl :: "u32 \<Rightarrow> 'd \<Rightarrow> int \<times> 'd"
  add_ipv4_rule :: "u32 \<Rightarrow> ipv4_rule \<Rightarrow> 'd \<Rightarrow> (int \<times> u32 option) \<times> 'd"
  del_ipv4_rule :: "u32 \<Rightarrow> u32 \<Rightarrow> 'd \<Rightarrow> int \<times> 'd"
  query_timestamp :: "u32 \<Rightarrow> u32 \<Rightarrow> 'd \<Rightarrow> (int \<times> u32 option) \<times> 'd"
  modify_pdn :: "u32 \<Rightarrow> u8 \<Rightarrow> pdn_entry \<Rightarrow> 'd \<Rightarrow> int \<times> 'd"
  generate_flt_eq :: "flt_rule \<Rightarrow> 'd \<Rightarrow> bool \<times> 'd"
  add_offload_flt_rule :: "flt_rule \<Rightarrow> u8 \<Rightarrow> 'd \<Rightarrow> (bool \<times> u32) \<times> 'd"
  del_offload_flt_rule :: "u32 \<Rightarrow> 'd \<Rightarrow> bool \<times> 'd"
  update_timeout :: "(timeout_update \<Rightarrow> 'd \<Rightarrow> 'd) option"
  ipa_hw_v4 :: bool
  alg_ports :: "(u8 \<times> u16) list"

record 'd natapp =
  cache :: "nat_entry list"
  temp :: "nat_entry list"
  pub_ip_addr :: u32
  pub_ip_addr_pre :: u32
  nat_table_hdl :: u32
  pub_mux_id :: u8
  curCnt :: int
  tcp_timeout :: u32
  udp_timeout :: u32
  PwrSaveIfs :: "u32 list"
  dev :: 'd

definition IPPROTO_TCP :: u8 where "IPPROTO_TCP = 6"

definition IPPROTO_UDP :: u8 where "IPPROTO_UDP = 17"

definition IPACM_FAILURE :: int where "IPACM_FAILURE = - 1"

text \<open>
  The constructor with \<open>Init\<close>: members the code leaves uninitialised (\<open>pub_ip_addr_pre\<close>, the
  timeouts and \<open>PwrSaveIfs\<close>) have the given content of the memory.
\<close>

definition NatApp_new :: "nat \<Rightarrow> 'd \<Rightarrow> u32 \<Rightarrow> u32 \<Rightarrow> u32 \<Rightarrow> u32 list \<Rightarrow> 'd natapp" where
  "NatApp_new max_entries d mem_pre mem_tcp mem_udp mem_ps =
     \<lparr>cache = replicate max_entries zero_entry, temp = replicate 25 zero_entry, pub_ip_addr = 0,
      pub_ip_addr_pre = mem_pre, nat_table_hdl = 0, pub_mux_id = 0, curCnt = 0,
      tcp_timeout = mem_tcp, udp_timeout = mem_udp, PwrSaveIfs = mem_ps, dev = d\<rparr>"

text \<open>The five-field comparison the code repeats, and its test for a free slot.\<close>

definition same_conn :: "nat_entry \<Rightarrow> nat_entry \<Rightarrow> bool" where
  "same_conn e rule \<longleftrightarrow>
     private_ip e = private_ip rule \<and> target_ip e = target_ip rule \<and>
     private_port e = private_port rule \<and> target_port e = target_port rule \<and>
     protocol e = protocol rule"

definition slot_free :: "nat_entry \<Rightarrow> bool" where
  "slot_free e \<longleftrightarrow>
     private_ip e = 0 \<and> target_ip e = 0 \<and> private_port e = 0 \<and> target_port e = 0 \<and> protocol e = 0"

text \<open>The check \<open>AddEntry\<close> and \<open>CacheEntry\<close> make of a connection.\<close>

definition invalid_conn :: "nat_entry \<Rightarrow> bool" where
  "invalid_conn rule \<longleftrightarrow>
     private_ip rule = 0 \<or> target_ip rule = 0 \<or> private_port rule = 0 \<or> target_port rule = 0 \<or>
     protocol rule = 0"

definition nat_rule_of :: "nat_entry \<Rightarrow> ipv4_rule" where
  "nat_rule_of e = \<lparr>r_target_ip = target_ip e, r_private_ip = private_ip e,
     r_target_port = target_port e, r_private_port = private_port e,
     r_public_port = public_port e, r_protocol = protocol e\<rparr>"

definition GenerateMetdata :: "u8 \<Rightarrow> u32" where
  "GenerateMetdata mux_id = push_bit 16 (ucast mux_id) AND 0x00FF0000"

section \<open>Connections of the PCIe modem\<close>

text \<open>
  \<open>AddConnection\<close> returns the handle of the rule it installed, read as an \<open>int\<close>. A failed
  \<open>malloc\<close> gives the same result as a failure of the equation generator.
\<close>

definition conn_flt_rule :: "nat_entry \<Rightarrow> flt_rule" where
  "conn_flt_rule rule =
     \<lparr>f_src_port = target_port rule, f_dst_port = public_port rule, f_protocol = protocol rule,
      f_dst_addr = public_ip rule, f_dst_addr_mask = 0xFFFFFFFF, f_src_addr = target_ip rule,
      f_src_addr_mask = 0xFFFFFFFF\<rparr>"

definition AddConnection :: "'d nat_env \<Rightarrow> u8 \<Rightarrow> nat_entry \<Rightarrow> 'd \<Rightarrow> int \<times> 'd" where
  "AddConnection env mux rule d =
     (case generate_flt_eq env (conn_flt_rule rule) d of
        (False, d) \<Rightarrow> (IPACM_FAILURE, d)
      | (True, d) \<Rightarrow>
          (case add_offload_flt_rule env (conn_flt_rule rule) mux d of
             ((False, _), d) \<Rightarrow> (IPACM_FAILURE, d)
           | ((True, hdl), d) \<Rightarrow> (sint hdl, d)))"

definition DelConnection :: "'d nat_env \<Rightarrow> u32 \<Rightarrow> 'd \<Rightarrow> int \<times> 'd" where
  "DelConnection env hdl d =
     (case del_offload_flt_rule env hdl d of (ok, d) \<Rightarrow> (if ok then 0 else IPACM_FAILURE, d))"

text \<open>
  The two blocks around the calls: the modem is told only of the downlink direction, and only
  with backhaul \<open>Q6_MHI_WAN\<close> (\<open>mhi\<close>, read from the conntrack listener).
\<close>

definition send_conn_add ::
  "'d nat_env \<Rightarrow> bool \<Rightarrow> u8 \<Rightarrow> nat_entry \<Rightarrow> nat_entry \<times> 'd \<Rightarrow> nat_entry \<times> 'd" where
  "send_conn_add env mhi mux rule ed =
     (let (e, d) = ed in
      if mhi \<and> (dst_nat rule \<or> protocol rule = IPPROTO_TCP) then
        (case AddConnection env mux rule d of
           (ret, d) \<Rightarrow> (e\<lparr>rule_id := if ret > 0 then word_of_int ret else 0\<rparr>, d))
      else (e, d))"

definition send_conn_del :: "'d nat_env \<Rightarrow> bool \<Rightarrow> nat_entry \<times> 'd \<Rightarrow> nat_entry \<times> 'd" where
  "send_conn_del env mhi ed =
     (let (e, d) = ed in
      if mhi \<and> (dst_nat e \<or> protocol e = IPPROTO_TCP) \<and> rule_id e > 0 then
        (case DelConnection env (rule_id e) d of
           (ret, d) \<Rightarrow> (if ret \<noteq> 0 then e else e\<lparr>rule_id := 0\<rparr>, d))
      else (e, d))"

section \<open>Loops over the cache\<close>

text \<open>
  A loop over the array whose body works on its own slot and on a state \<open>s\<close>.
\<close>

primrec run_slots :: "('e \<Rightarrow> 's \<Rightarrow> 'e \<times> 's) \<Rightarrow> 'e list \<Rightarrow> 's \<Rightarrow> 'e list \<times> 's" where
  "run_slots f [] s = ([], s)"
| "run_slots f (e # es) s =
     (case f e s of (e', s1) \<Rightarrow> (case run_slots f es s1 of (es', s2) \<Rightarrow> (e' # es', s2)))"

text \<open>The loops below change the slots, \<open>curCnt\<close> and the devices.\<close>

definition for_slots ::
  "(nat_entry \<Rightarrow> int \<times> 'd \<Rightarrow> nat_entry \<times> int \<times> 'd) \<Rightarrow> 'd natapp \<Rightarrow> 'd natapp" where
  "for_slots body app =
     (case run_slots body (cache app) (curCnt app, dev app) of
        (es, n, d) \<Rightarrow> app\<lparr>cache := es, curCnt := n, dev := d\<rparr>)"

definition set_hdl :: "u32 option \<Rightarrow> nat_entry \<Rightarrow> nat_entry" where
  "set_hdl out e = (case out of None \<Rightarrow> e | Some h \<Rightarrow> e\<lparr>rule_hdl := h\<rparr>)"

section \<open>Operations on the table\<close>

definition ChkForDup :: "nat_entry \<Rightarrow> 'd natapp \<Rightarrow> bool" where
  "ChkForDup rule app = list_ex (\<lambda>e. same_conn e rule) (cache app)"

definition isAlgPort :: "'d nat_env \<Rightarrow> u8 \<Rightarrow> u16 \<Rightarrow> bool" where
  "isAlgPort env proto port = list_ex (\<lambda>a. proto = fst a \<and> port = snd a) (alg_ports env)"

definition isPwrSaveIf :: "u32 \<Rightarrow> 'd natapp \<Rightarrow> bool" where
  "isPwrSaveIf ip_addr app = list_ex (\<lambda>p. p \<noteq> 0 \<and> ip_addr = p) (PwrSaveIfs app)"

text \<open>The body of the loop of \<open>AddTable\<close> that puts the cached connections back.\<close>

definition restore_slot ::
  "'d nat_env \<Rightarrow> bool \<Rightarrow> u32 \<Rightarrow> u8 \<Rightarrow> u32 \<Rightarrow> nat_entry \<Rightarrow> int \<times> 'd \<Rightarrow> nat_entry \<times> int \<times> 'd" where
  "restore_slot env mhi tbl mux pub_ip e nd =
     (let (n, d) = nd in
      if private_ip e \<noteq> 0 then
        (case add_ipv4_rule env tbl (nat_rule_of e) d of
           ((ret, out), d) \<Rightarrow>
             if ret < 0 then (zero_entry, n - 1, d)
             else
               (let e = (set_hdl out e)\<lparr>enabled := True\<rparr>;
                    e = (if mhi \<and> (dst_nat e \<or> protocol e = IPPROTO_TCP) then e\<lparr>public_ip := pub_ip\<rparr> else e);
                    (e, d) = send_conn_add env mhi mux e (e, d)
                in (e, n, d)))
      else (e, n, d))"

definition AddTable ::
  "'d nat_env \<Rightarrow> bool \<Rightarrow> u32 \<Rightarrow> u8 \<Rightarrow> 'd natapp \<Rightarrow> int \<times> 'd natapp" where
  "AddTable env mhi pub_ip mux_id app =
     (case add_ipv4_tbl env pub_ip (length (cache app)) (dev app) of
        ((ret, out), d) \<Rightarrow>
          (let app = app\<lparr>dev := d, nat_table_hdl := (case out of None \<Rightarrow> nat_table_hdl app | Some h \<Rightarrow> h)\<rparr> in
           if ret \<noteq> 0 then (ret, app)
           else
             (let d = (if ipa_hw_v4 env then
                         snd (modify_pdn env (nat_table_hdl app) 0
                           \<lparr>pdn_public_ip = pub_ip, src_metadata = GenerateMetdata mux_id,
                            dst_metadata = 0\<rparr> (dev app))
                       else dev app);
                  app = app\<lparr>dev := d, pub_ip_addr := pub_ip, pub_mux_id := mux_id\<rparr>
              in if pub_ip = pub_ip_addr_pre app then
                   (0, for_slots (restore_slot env mhi (nat_table_hdl app) mux_id pub_ip) app)
                 else (0, app))))"

definition Reset :: "'d natapp \<Rightarrow> 'd natapp" where
  "Reset app = app\<lparr>nat_table_hdl := 0, pub_ip_addr := 0, pub_mux_id := 0\<rparr>"

definition disable_slot ::
  "'d nat_env \<Rightarrow> bool \<Rightarrow> nat_entry \<Rightarrow> int \<times> 'd \<Rightarrow> nat_entry \<times> int \<times> 'd" where
  "disable_slot env mhi e nd =
     (let (n, d) = nd; (e, d) = send_conn_del env mhi (e\<lparr>enabled := False\<rparr>, d) in (e, n, d))"

definition DeleteTable :: "'d nat_env \<Rightarrow> bool \<Rightarrow> u32 \<Rightarrow> 'd natapp \<Rightarrow> int \<times> 'd natapp" where
  "DeleteTable env mhi pub_ip app =
     (if nat_table_hdl app = 0 then (- 1, app)
      else if pub_ip_addr app \<noteq> pub_ip then (- 1, app)
      else
        (let app = for_slots (disable_slot env mhi) app in
         case del_ipv4_tbl env (nat_table_hdl app) (dev app) of
           (ret, d) \<Rightarrow>
             (let app = app\<lparr>dev := d\<rparr> in
              if ret \<noteq> 0 then (ret, app)
              else (0, Reset (app\<lparr>pub_ip_addr_pre := pub_ip_addr app\<rparr>)))))"

definition GetTableHdl :: "u32 \<Rightarrow> 'd natapp \<Rightarrow> u32" where
  "GetTableHdl in_ip_addr app = (if in_ip_addr = pub_ip_addr app then nat_table_hdl app else - 1)"

section \<open>Operations on the entries\<close>

text \<open>\<open>DeleteEntry\<close>: what happens to the driver when the matching slot is \<open>e\<close>, then the whole.\<close>

definition delete_slot :: "'d nat_env \<Rightarrow> bool \<Rightarrow> u32 \<Rightarrow> nat_entry \<Rightarrow> 'd \<Rightarrow> 'd" where
  "delete_slot env mhi tbl e d =
     (if enabled e then
        (let (e, d) = send_conn_del env mhi (e, d) in snd (del_ipv4_rule env tbl (rule_hdl e) d))
      else d)"

definition DeleteEntry :: "'d nat_env \<Rightarrow> bool \<Rightarrow> nat_entry \<Rightarrow> 'd natapp \<Rightarrow> int \<times> 'd natapp" where
  "DeleteEntry env mhi rule app =
     (case first_idx (\<lambda>e. same_conn e rule) (cache app) of
        None \<Rightarrow> (0, app)
      | Some cnt \<Rightarrow>
          (0, app\<lparr>dev := delete_slot env mhi (nat_table_hdl app) (cache app ! cnt) (dev app),
                  cache := (cache app)[cnt := zero_entry], curCnt := curCnt app - 1\<rparr>))"

text \<open>The eight assignments that copy the rule into its slot.\<close>

definition copy_conn :: "nat_entry \<Rightarrow> nat_entry \<Rightarrow> nat_entry" where
  "copy_conn rule e =
     e\<lparr>private_ip := private_ip rule, target_ip := target_ip rule, target_port := target_port rule,
       private_port := private_port rule, protocol := protocol rule, timestamp := 0,
       public_port := public_port rule, dst_nat := dst_nat rule\<rparr>"

text \<open>
  \<open>AddEntry\<close> with the table handle, the ALG ports, the validity of the rule and duplicates
  checked in this order. When the driver refuses the rule, only a handle it may have written
  stays in the slot.
\<close>

definition AddEntry :: "'d nat_env \<Rightarrow> bool \<Rightarrow> nat_entry \<Rightarrow> 'd natapp \<Rightarrow> int \<times> 'd natapp" where
  "AddEntry env mhi rule app =
     (if nat_table_hdl app = 0 then (- 1, app)
      else if isAlgPort env (protocol rule) (private_port rule) \<or>
              isAlgPort env (protocol rule) (target_port rule) then (- 1, app)
      else if invalid_conn rule then (0, app)
      else if ChkForDup rule app then (- 1, app)
      else
        (case first_idx slot_free (cache app) of
           None \<Rightarrow> (- 1, app)
         | Some cnt \<Rightarrow>
             (let e = cache app ! cnt in
              if isPwrSaveIf (private_ip rule) app \<or> isPwrSaveIf (target_ip rule) app then
                (0, app\<lparr>cache := (cache app)[cnt := copy_conn rule (e\<lparr>enabled := False, rule_hdl := 0\<rparr>)],
                        curCnt := curCnt app + 1\<rparr>)
              else
                (case add_ipv4_rule env (nat_table_hdl app) (nat_rule_of rule) (dev app) of
                   ((ret, out), d) \<Rightarrow>
                     if ret < 0 then
                       (- 1, app\<lparr>cache := (cache app)[cnt := set_hdl out e], dev := d\<rparr>)
                     else
                       (let (e, d) = send_conn_add env mhi (pub_mux_id app) rule
                                       ((set_hdl out e)\<lparr>enabled := True\<rparr>, d)
                        in (0, app\<lparr>cache := (cache app)[cnt := copy_conn rule e],
                                   curCnt := curCnt app + 1, dev := d\<rparr>))))))"

text \<open>\<open>CacheEntry\<close> keeps the connection without telling the driver.\<close>

definition CacheEntry :: "nat_entry \<Rightarrow> 'd natapp \<Rightarrow> 'd natapp" where
  "CacheEntry rule app =
     (if invalid_conn rule then app
      else if ChkForDup rule app then app
      else
        (case first_idx slot_free (cache app) of
           None \<Rightarrow> app
         | Some cnt \<Rightarrow>
             app\<lparr>cache := (cache app)[cnt := (copy_conn rule ((cache app ! cnt)\<lparr>enabled := False, rule_hdl := 0\<rparr>))
                   \<lparr>public_ip := public_ip rule\<rparr>],
                 curCnt := curCnt app + 1\<rparr>))"

section \<open>Clients entering and leaving\<close>

definition pwr_save_slot ::
  "'d nat_env \<Rightarrow> bool \<Rightarrow> u32 \<Rightarrow> u32 \<Rightarrow> nat_entry \<Rightarrow> int \<times> 'd \<Rightarrow> nat_entry \<times> int \<times> 'd" where
  "pwr_save_slot env mhi tbl ip e nd =
     (let (n, d) = nd in
      if private_ip e = ip \<and> enabled e then
        (let (e, d) = send_conn_del env mhi (e, d) in
         case del_ipv4_rule env tbl (rule_hdl e) d of
           (ret, d) \<Rightarrow> if ret < 0 then (e, n, d) else (e\<lparr>enabled := False, rule_hdl := 0\<rparr>, n, d))
      else (e, n, d))"

text \<open>The first slot of \<open>PwrSaveIfs\<close> that holds \<open>old\<close> gets \<open>new\<close>.\<close>

definition set_pwr_save :: "u32 \<Rightarrow> u32 \<Rightarrow> u32 list \<Rightarrow> u32 list" where
  "set_pwr_save old new ps = (case first_idx (\<lambda>p. p = old) ps of None \<Rightarrow> ps | Some i \<Rightarrow> ps[i := new])"

definition UpdatePwrSaveIf :: "'d nat_env \<Rightarrow> bool \<Rightarrow> u32 \<Rightarrow> 'd natapp \<Rightarrow> int \<times> 'd natapp" where
  "UpdatePwrSaveIf env mhi client_lan_ip app =
     (if client_lan_ip = 0 then (- 1, app)
      else if client_lan_ip \<in> set (PwrSaveIfs app) then (0, app)
      else
        (let app = app\<lparr>PwrSaveIfs := set_pwr_save 0 client_lan_ip (PwrSaveIfs app)\<rparr>
         in (0, for_slots (pwr_save_slot env mhi (nat_table_hdl app) client_lan_ip) app)))"

definition pwr_wake_slot ::
  "'d nat_env \<Rightarrow> bool \<Rightarrow> u32 \<Rightarrow> u8 \<Rightarrow> u32 \<Rightarrow> nat_entry \<Rightarrow> int \<times> 'd \<Rightarrow> nat_entry \<times> int \<times> 'd" where
  "pwr_wake_slot env mhi tbl mux ip e nd =
     (let (n, d) = nd in
      if private_ip e = ip \<and> \<not> enabled e then
        (case add_ipv4_rule env tbl (nat_rule_of e) d of
           ((ret, out), d) \<Rightarrow>
             if ret < 0 then (zero_entry, n - 1, d)
             else
               (let e = (set_hdl out e)\<lparr>enabled := True\<rparr>;
                    (e, d) = send_conn_add env mhi mux e (e, d)
                in (e, n, d)))
      else (e, n, d))"

definition ResetPwrSaveIf :: "'d nat_env \<Rightarrow> bool \<Rightarrow> u32 \<Rightarrow> 'd natapp \<Rightarrow> int \<times> 'd natapp" where
  "ResetPwrSaveIf env mhi client_lan_ip app =
     (if client_lan_ip = 0 then (- 1, app)
      else
        (let app = app\<lparr>PwrSaveIfs := set_pwr_save client_lan_ip 0 (PwrSaveIfs app)\<rparr>
         in (- 1, for_slots (pwr_wake_slot env mhi (nat_table_hdl app) (pub_mux_id app) client_lan_ip) app)))"

definition discon_slot ::
  "'d nat_env \<Rightarrow> bool \<Rightarrow> u32 \<Rightarrow> u32 \<Rightarrow> nat_entry \<Rightarrow> int \<times> 'd \<Rightarrow> nat_entry \<times> int \<times> 'd" where
  "discon_slot env mhi tbl ip e nd =
     (let (n, d) = nd in
      if private_ip e = ip \<and> enabled e then
        (let (e, d) = send_conn_del env mhi (e, d) in
         case del_ipv4_rule env tbl (rule_hdl e) d of
           (ret, d) \<Rightarrow> if ret < 0 then (e, n, d) else (e\<lparr>enabled := False\<rparr>, n, d))
      else (e, n, d))"

definition DelEntriesOnClntDiscon :: "'d nat_env \<Rightarrow> bool \<Rightarrow> u32 \<Rightarrow> 'd natapp \<Rightarrow> int \<times> 'd natapp" where
  "DelEntriesOnClntDiscon env mhi ip_addr app =
     (if ip_addr = 0 then (- 1, app)
      else
        (let app = app\<lparr>PwrSaveIfs := set_pwr_save ip_addr 0 (PwrSaveIfs app)\<rparr>
         in (0, for_slots (discon_slot env mhi (nat_table_hdl app) ip_addr) app)))"

definition sta_discon_slot ::
  "'d nat_env \<Rightarrow> bool \<Rightarrow> u32 \<Rightarrow> u32 \<Rightarrow> nat_entry \<Rightarrow> int \<times> 'd \<Rightarrow> nat_entry \<times> int \<times> 'd" where
  "sta_discon_slot env mhi tbl ip e nd =
     (let (n, d) = nd in
      if target_ip e = ip then
        (if enabled e then
           (let (e, d) = send_conn_del env mhi (e, d) in
            case del_ipv4_rule env tbl (rule_hdl e) d of
              (ret, d) \<Rightarrow> if ret < 0 then (e, n, d) else (zero_entry, n - 1, d))
         else (zero_entry, n - 1, d))
      else (e, n, d))"

definition DelEntriesOnSTAClntDiscon :: "'d nat_env \<Rightarrow> bool \<Rightarrow> u32 \<Rightarrow> 'd natapp \<Rightarrow> int \<times> 'd natapp" where
  "DelEntriesOnSTAClntDiscon env mhi ip_addr app =
     (if ip_addr = 0 then (- 1, app)
      else (0, for_slots (sta_discon_slot env mhi (nat_table_hdl app) ip_addr) app))"

section \<open>Temporary entries\<close>

definition AddTempEntry :: "'d nat_env \<Rightarrow> nat_entry \<Rightarrow> 'd natapp \<Rightarrow> 'd natapp" where
  "AddTempEntry env new_entry app =
     (if isAlgPort env (protocol new_entry) (private_port new_entry) \<or>
         isAlgPort env (protocol new_entry) (target_port new_entry) then app
      else if ChkForDup new_entry app then app
      else if list_ex (\<lambda>t. same_conn t new_entry) (temp app) then app
      else
        (case first_idx (\<lambda>t. private_ip t = 0 \<and> target_ip t = 0) (temp app) of
           None \<Rightarrow> app
         | Some cnt \<Rightarrow> app\<lparr>temp := (temp app)[cnt := new_entry]\<rparr>))"

definition DeleteTempEntry :: "nat_entry \<Rightarrow> 'd natapp \<Rightarrow> 'd natapp" where
  "DeleteTempEntry entry app =
     (case first_idx (\<lambda>t. same_conn t entry) (temp app) of
        None \<Rightarrow> app
      | Some cnt \<Rightarrow> app\<lparr>temp := (temp app)[cnt := zero_entry]\<rparr>)"

text \<open>One iteration of \<open>FlushTempEntries\<close>; an entry \<open>AddEntry\<close> refuses stays (\<open>continue\<close>).\<close>

definition flush_temp_slot ::
  "'d nat_env \<Rightarrow> bool \<Rightarrow> u32 \<Rightarrow> bool \<Rightarrow> bool \<Rightarrow> nat \<Rightarrow> 'd natapp \<Rightarrow> 'd natapp" where
  "flush_temp_slot env mhi ip_addr isAdd isDummy cnt app =
     (let t = temp app ! cnt in
      if private_ip t = ip_addr \<or> target_ip t = ip_addr then
        (if isAdd \<and> public_ip t = pub_ip_addr app then
           (let t = (if isDummy then t\<lparr>private_ip := public_ip t, private_port := public_port t\<rparr> else t);
                app = app\<lparr>temp := (temp app)[cnt := t]\<rparr>;
                (ret, app) = AddEntry env mhi t app
            in if ret \<noteq> 0 then app else app\<lparr>temp := (temp app)[cnt := zero_entry]\<rparr>)
         else app\<lparr>temp := (temp app)[cnt := zero_entry]\<rparr>)
      else app)"

definition FlushTempEntries ::
  "'d nat_env \<Rightarrow> bool \<Rightarrow> u32 \<Rightarrow> bool \<Rightarrow> bool \<Rightarrow> 'd natapp \<Rightarrow> 'd natapp" where
  "FlushTempEntries env mhi ip_addr isAdd isDummy app =
     fold (flush_temp_slot env mhi ip_addr isAdd isDummy) [0..<length (temp app)] app"

section \<open>Timestamps\<close>

definition timeout_entry :: "u32 \<Rightarrow> nat_entry \<Rightarrow> timeout_update" where
  "timeout_entry pub_ip rule =
     (let p = (if protocol rule = IPPROTO_UDP then TOU_UDP else TOU_TCP) in
      if \<not> dst_nat rule then
        \<lparr>tou_proto = p, tou_src_ip = htonl (private_ip rule), tou_src_port = private_port rule,
         tou_dst_ip = htonl (target_ip rule), tou_dst_port = target_port rule\<rparr>
      else
        \<lparr>tou_proto = p, tou_src_ip = htonl (target_ip rule), tou_src_port = target_port rule,
         tou_dst_ip = htonl pub_ip, tou_dst_port = public_port rule\<rparr>)"

definition UpdateCTUdpTs :: "'d nat_env \<Rightarrow> u32 \<Rightarrow> u32 \<Rightarrow> nat_entry \<times> 'd \<Rightarrow> nat_entry \<times> 'd" where
  "UpdateCTUdpTs env pub_ip new_ts rd =
     (case update_timeout env of
        None \<Rightarrow> rd
      | Some tou \<Rightarrow> ((fst rd)\<lparr>timestamp := new_ts\<rparr>, tou (timeout_entry pub_ip (fst rd)) (snd rd)))"

definition Read_TcpUdp_Timeout :: "u32 \<times> u32" where
  "Read_TcpUdp_Timeout = (432000, 180)"

text \<open>The loop state is \<open>read_to\<close>, the two timeouts and the devices.\<close>

definition timestamp_slot ::
  "'d nat_env \<Rightarrow> u32 \<Rightarrow> u32 \<Rightarrow> nat_entry \<Rightarrow> bool \<times> (u32 \<times> u32) \<times> 'd \<Rightarrow>
   nat_entry \<times> bool \<times> (u32 \<times> u32) \<times> 'd" where
  "timestamp_slot env tbl pub_ip e st =
     (let (read_to, timeouts, d) = st in
      if enabled e \<and> private_ip e \<noteq> public_ip e then
        (case query_timestamp env tbl (rule_hdl e) d of
           ((ret, out), d) \<Rightarrow>
             (let ts = (case out of None \<Rightarrow> 0 | Some t \<Rightarrow> t) in
              if ret < 0 then (e, read_to, timeouts, d)
              else if timestamp e = ts then (e, read_to, timeouts, d)
              else
                (let timeouts = (if \<not> read_to then Read_TcpUdp_Timeout else timeouts);
                     (e, d) = UpdateCTUdpTs env pub_ip ts (e, d)
                 in (e, True, timeouts, d))))
      else (e, read_to, timeouts, d))"

definition UpdateUDPTimeStamp :: "'d nat_env \<Rightarrow> 'd natapp \<Rightarrow> 'd natapp" where
  "UpdateUDPTimeStamp env app =
     (case run_slots (timestamp_slot env (nat_table_hdl app) (pub_ip_addr app)) (cache app)
             (False, (tcp_timeout app, udp_timeout app), dev app) of
        (es, _, (tcp, udp), d) \<Rightarrow> app\<lparr>cache := es, tcp_timeout := tcp, udp_timeout := udp, dev := d\<rparr>)"

section \<open>The table as a set of connections\<close>

type_synonym conn = "u32 \<times> u16 \<times> u32 \<times> u16 \<times> u8"

definition conn_key :: "nat_entry \<Rightarrow> conn" where
  "conn_key e = (private_ip e, private_port e, target_ip e, target_port e, protocol e)"

text \<open>The cached connections, and those of them the driver has a rule for.\<close>

definition conns :: "nat_entry list \<Rightarrow> conn set" where
  "conns es = conn_key ` {e \<in> set es. \<not> slot_free e}"

definition active :: "nat_entry list \<Rightarrow> conn set" where
  "active es = conn_key ` {e \<in> set es. enabled e}"

definition slot_ok :: "nat_entry \<Rightarrow> bool" where
  "slot_ok e \<longleftrightarrow> (if slot_free e then \<not> enabled e else \<not> invalid_conn e)"

definition used_slots :: "nat_entry list \<Rightarrow> nat" where
  "used_slots es = slots_where (\<lambda>e. \<not> slot_free e) es"

definition cache_ok :: "nat_entry list \<Rightarrow> bool" where
  "cache_ok es \<longleftrightarrow>
     (\<forall>e \<in> set es. slot_ok e) \<and>
     (\<forall>i < length es. \<forall>j < length es.
        \<not> slot_free (es ! i) \<longrightarrow> conn_key (es ! i) = conn_key (es ! j) \<longrightarrow> i = j)"

definition natapp_ok :: "'d natapp \<Rightarrow> bool" where
  "natapp_ok app \<longleftrightarrow> cache_ok (cache app) \<and> curCnt app = int (used_slots (cache app)) \<and> length (temp app) = 25"

named_theorems entry_simps \<open>what the field updates keep of an entry\<close>

lemma same_conn_key: "same_conn e r \<longleftrightarrow> conn_key e = conn_key r"
  by (auto simp: same_conn_def conn_key_def)

lemma slot_free_key: "slot_free e \<longleftrightarrow> conn_key e = (0, 0, 0, 0, 0)"
  by (auto simp: slot_free_def conn_key_def)

lemma invalid_key: "conn_key e = conn_key r \<Longrightarrow> invalid_conn e = invalid_conn r"
  by (auto simp: invalid_conn_def conn_key_def)

lemma zero_entry_simps [simp]:
  "slot_free zero_entry" "\<not> enabled zero_entry" "slot_ok zero_entry" "conn_key zero_entry = (0, 0, 0, 0, 0)"
  by (simp_all add: zero_entry_def slot_free_def slot_ok_def conn_key_def)

lemma valid_used: "\<not> invalid_conn e \<Longrightarrow> \<not> slot_free e"
  by (auto simp: invalid_conn_def slot_free_def)

lemma key_updates [entry_simps]:
  "conn_key (e\<lparr>enabled := b\<rparr>) = conn_key e" "conn_key (e\<lparr>rule_hdl := h\<rparr>) = conn_key e"
  "conn_key (e\<lparr>rule_id := r\<rparr>) = conn_key e" "conn_key (e\<lparr>public_ip := q\<rparr>) = conn_key e"
  "conn_key (e\<lparr>timestamp := t\<rparr>) = conn_key e" "conn_key (set_hdl out e) = conn_key e"
  "enabled (set_hdl out e) = enabled e" "private_ip (set_hdl out e) = private_ip e"
  "protocol (set_hdl out e) = protocol e" "dst_nat (set_hdl out e) = dst_nat e"
  by (simp_all add: conn_key_def set_hdl_def split: option.split)

lemma copy_conn_simps [entry_simps]:
  "conn_key (copy_conn rule e) = conn_key rule" "enabled (copy_conn rule e) = enabled e"
  "rule_hdl (copy_conn rule e) = rule_hdl e" "public_ip (copy_conn rule e) = public_ip e"
  by (simp_all add: copy_conn_def conn_key_def)

lemma send_conn_add_keeps [entry_simps]:
  "conn_key (fst (send_conn_add env mhi mux rule (e, d))) = conn_key e"
  "enabled (fst (send_conn_add env mhi mux rule (e, d))) = enabled e"
  "rule_hdl (fst (send_conn_add env mhi mux rule (e, d))) = rule_hdl e"
  "public_ip (fst (send_conn_add env mhi mux rule (e, d))) = public_ip e"
  by (simp_all add: send_conn_add_def key_updates split: prod.split)

lemma send_conn_del_keeps [entry_simps]:
  "conn_key (fst (send_conn_del env mhi (e, d))) = conn_key e"
  "enabled (fst (send_conn_del env mhi (e, d))) = enabled e"
  "rule_hdl (fst (send_conn_del env mhi (e, d))) = rule_hdl e"
  by (simp_all add: send_conn_del_def key_updates split: prod.split)

section \<open>The invariant of the cache\<close>

lemma cache_okD:
  assumes "cache_ok es" and "i < length es"
  shows "slot_ok (es ! i)"
    and "\<And>j. j < length es \<Longrightarrow> \<not> slot_free (es ! i) \<Longrightarrow> conn_key (es ! i) = conn_key (es ! j) \<Longrightarrow> i = j"
  using assms by (auto simp: cache_ok_def)

lemma cache_ok_update:
  assumes "cache_ok es" and "slot_ok v"
    and "slot_free v \<or> (\<forall>j < length es. j \<noteq> i \<longrightarrow> conn_key (es ! j) \<noteq> conn_key v)"
  shows "cache_ok (es[i := v])"
proof -
  have "slot_ok e" if "e \<in> set (es[i := v])" for e
    using that assms(1,2) set_update_subset_insert [of es i v] by (auto simp: cache_ok_def)
  moreover have "k = j"
    if "k < length es" "j < length es" "\<not> slot_free (es[i := v] ! k)"
      "conn_key (es[i := v] ! k) = conn_key (es[i := v] ! j)" for k j
    using that assms(3) cache_okD(2) [OF assms(1), of k j]
    by (cases "k = i"; cases "j = i") (auto simp: slot_free_key)
  ultimately show ?thesis by (simp add: cache_ok_def)
qed

lemma conns_update:
  "cache_ok es \<Longrightarrow> i < length es \<Longrightarrow>
   conns (es[i := v]) = (conns es - (if slot_free (es ! i) then {} else {conn_key (es ! i)})) \<union>
     (if slot_free v then {} else {conn_key v})"
  unfolding conns_def cache_ok_def
  by (auto simp: in_set_conv_nth image_iff nth_list_update split: if_splits)


lemma active_update:
  "cache_ok es \<Longrightarrow> i < length es \<Longrightarrow>
   active (es[i := v]) = (active es - (if slot_free (es ! i) then {} else {conn_key (es ! i)})) \<union>
     (if enabled v then {conn_key v} else {})"
proof -
  assume ok: "cache_ok es" and i: "i < length es"
  have used: "\<not> slot_free (es ! j)" if "j < length es" "enabled (es ! j)" for j
    using cache_okD(1) [OF ok that(1)] that(2) by (auto simp: slot_ok_def split: if_splits)
  have ne: "conn_key (es ! j) \<noteq> conn_key (es ! i)" if "j < length es" "j \<noteq> i" "enabled (es ! j)" for j
    using cache_okD(2) [OF ok that(1), of i] used that i by auto
  let ?A = "{conn_key (es ! j) | j. j < length es \<and> j \<noteq> i \<and> enabled (es ! j)}"
  have "active (es[i := v]) = ?A \<union> (if enabled v then {conn_key v} else {})"
    using i by (auto simp: active_def in_set_conv_nth image_iff nth_list_update split: if_splits)
  moreover have "active es - (if slot_free (es ! i) then {} else {conn_key (es ! i)}) = ?A"
    using i used ne by (auto simp: active_def in_set_conv_nth image_iff; metis)
  ultimately show ?thesis by simp
qed

lemma used_slots_update:
  "i < length es \<Longrightarrow>
   int (used_slots (es[i := v])) =
   int (used_slots es) - (if slot_free (es ! i) then 0 else 1) + (if slot_free v then 0 else 1)"
  by (simp add: used_slots_def slots_where_update)

lemma not_in_conns:
  "conn_key rule \<notin> conns es \<Longrightarrow> \<not> slot_free rule \<Longrightarrow> j < length es \<Longrightarrow> conn_key (es ! j) \<noteq> conn_key rule"
  by (force simp: conns_def slot_free_key image_iff dest: nth_mem)

lemma ChkForDup_conns: "\<not> slot_free rule \<Longrightarrow> ChkForDup rule app \<longleftrightarrow> conn_key rule \<in> conns (cache app)"
  by (force simp: ChkForDup_def same_conn_key conns_def list_ex_iff image_iff slot_free_key)


text \<open>
  What a loop body does to its slot: it keeps the connection, or clears a used slot and counts
  down.
\<close>

definition body_ok :: "(nat_entry \<Rightarrow> int \<times> 'd \<Rightarrow> nat_entry \<times> int \<times> 'd) \<Rightarrow> bool" where
  "body_ok body \<longleftrightarrow>
     (\<forall>e n d e' n' d'. slot_ok e \<longrightarrow> body e (n, d) = (e', n', d') \<longrightarrow>
        (conn_key e' = conn_key e \<and> n' = n \<and> (enabled e' \<longrightarrow> \<not> slot_free e)) \<or>
        (e' = zero_entry \<and> n' = n - 1 \<and> \<not> slot_free e))"

lemma body_okD:
  assumes "body_ok body" and "slot_ok e" and "body e (n, d) = (e', n', d')"
  shows "slot_ok e'" and "conn_key e' = conn_key e \<or> e' = zero_entry"
    and "n' - (if slot_free e' then 0 else 1) = n - (if slot_free e then 0 else 1)"
proof -
  from assms consider "conn_key e' = conn_key e" "n' = n" "enabled e' \<longrightarrow> \<not> slot_free e"
    | "e' = zero_entry" "n' = n - 1" "\<not> slot_free e"
    unfolding body_ok_def by metis
  then show "slot_ok e'" "conn_key e' = conn_key e \<or> e' = zero_entry"
    "n' - (if slot_free e' then 0 else 1) = n - (if slot_free e then 0 else 1)"
    using assms(2) invalid_key [of e' e]
    by (cases; auto simp: slot_ok_def slot_free_key split: if_splits)+
qed

lemma run_slots_rel:
  assumes "run_slots body es s = (es', s')" and "\<And>e s e' s'. e \<in> set es \<Longrightarrow> body e s = (e', s') \<Longrightarrow> R e e'"
  shows "list_all2 R es es'"
  using assms
proof (induction es arbitrary: es' s)
  case (Cons e es)
  then show ?case by (fastforce split: prod.splits)
qed simp

lemma run_slots_count:
  assumes "body_ok body" and "\<forall>e \<in> set es. slot_ok e" and "run_slots body es (n, d) = (es', n', d')"
  shows "n' - int (used_slots es') = n - int (used_slots es)"
  using assms(2,3)
proof (induction es arbitrary: es' n d n' d')
  case (Cons e es)
  obtain e1 n1 d1 where b: "body e (n, d) = (e1, n1, d1)" by (metis prod_cases3)
  obtain es1 n2 d2 where r: "run_slots body es (n1, d1) = (es1, n2, d2)" by (metis prod_cases3)
  from Cons.prems b r have eq: "es' = e1 # es1" "n' = n2" by auto
  have "n2 - int (used_slots es1) = n1 - int (used_slots es)"
    using Cons.IH [OF _ r] Cons.prems(1) by simp
  with body_okD(3) [OF assms(1) _ b] Cons.prems(1) eq show ?case
    by (auto simp: used_slots_def split: if_splits)
qed (simp add: used_slots_def)

lemma run_slots_ok:
  assumes "body_ok body" and "cache_ok es" and "run_slots body es (n, d) = (es', n', d')"
  shows "cache_ok es'"
proof -
  have "list_all2 (\<lambda>e e'. slot_ok e' \<and> (conn_key e' = conn_key e \<or> e' = zero_entry)) es es'"
  proof (rule run_slots_rel [OF assms(3)])
    fix e s e' s' assume "e \<in> set es" and b: "body e s = (e', s')"
    with assms(2) have "slot_ok e" by (auto simp: cache_ok_def)
    with b show "slot_ok e' \<and> (conn_key e' = conn_key e \<or> e' = zero_entry)"
      using body_okD(1,2) [OF assms(1)] by (cases s; cases s') blast
  qed
  then have len: "length es' = length es"
    and ok: "\<And>i. i < length es \<Longrightarrow> slot_ok (es' ! i)"
    and key: "\<And>i. i < length es \<Longrightarrow> conn_key (es' ! i) = conn_key (es ! i) \<or> es' ! i = zero_entry"
    by (auto simp: list_all2_conv_all_nth)
  have "i = j" if "i < length es" "j < length es" "\<not> slot_free (es' ! i)"
    "conn_key (es' ! i) = conn_key (es' ! j)" for i j
  proof -
    have nz: "conn_key (es' ! i) \<noteq> conn_key zero_entry" using that(3) by (simp add: slot_free_key)
    then have "conn_key (es' ! i) = conn_key (es ! i)" "conn_key (es' ! j) = conn_key (es ! j)"
      using key that(1,2,4) by metis+
    with nz cache_okD(2) [OF assms(2) that(1,2)] that(4) show ?thesis by (simp add: slot_free_key)
  qed
  moreover have "\<forall>e \<in> set es'. slot_ok e" using len ok by (metis in_set_conv_nth)
  ultimately show ?thesis using len unfolding cache_ok_def by metis
qed

lemma for_slots_ok: "body_ok body \<Longrightarrow> natapp_ok app \<Longrightarrow> natapp_ok (for_slots body app)"
proof -
  assume b: "body_ok body" and ok: "natapp_ok app"
  obtain es n d where r: "run_slots body (cache app) (curCnt app, dev app) = (es, n, d)"
    by (metis prod_cases3)
  have "cache_ok (cache app)" "\<forall>e \<in> set (cache app). slot_ok e" "curCnt app = int (used_slots (cache app))"
    using ok by (auto simp: natapp_ok_def cache_ok_def)
  with run_slots_ok [OF b _ r] run_slots_count [OF b _ r] ok show ?thesis
    unfolding for_slots_def r natapp_ok_def by simp
qed

section \<open>Every operation keeps the invariant\<close>

lemma send_conn_delE:
  assumes "send_conn_del env mhi (e, d) = (e', d')"
  obtains "conn_key e' = conn_key e" "enabled e' = enabled e" "rule_hdl e' = rule_hdl e"
  using send_conn_del_keeps [of env mhi e d] assms by simp

lemma send_conn_addE:
  assumes "send_conn_add env mhi mux rule (e, d) = (e', d')"
  obtains "conn_key e' = conn_key e" "enabled e' = enabled e" "rule_hdl e' = rule_hdl e"
    "public_ip e' = public_ip e"
  using send_conn_add_keeps [of env mhi mux rule e d] assms by simp

lemma enabled_used: "slot_ok e \<Longrightarrow> enabled e \<Longrightarrow> \<not> slot_free e"
  by (simp add: slot_ok_def split: if_splits)

lemma private_used: "private_ip e \<noteq> 0 \<Longrightarrow> \<not> slot_free e"
  by (simp add: slot_free_def)

lemma target_used: "target_ip e \<noteq> 0 \<Longrightarrow> \<not> slot_free e"
  by (simp add: slot_free_def)

lemma disable_slot_ok: "body_ok (disable_slot env mhi)"
  by (auto simp: body_ok_def disable_slot_def key_updates elim!: send_conn_delE split: prod.splits)

lemma restore_slot_ok: "body_ok (restore_slot env mhi tbl mux ip)"
  by (auto simp: body_ok_def restore_slot_def Let_def key_updates private_used dest: enabled_used elim!: send_conn_addE
    split: prod.splits if_splits)

lemma pwr_save_slot_ok: "body_ok (pwr_save_slot env mhi tbl ip)"
  by (auto simp: body_ok_def pwr_save_slot_def key_updates enabled_used elim!: send_conn_delE
    split: prod.splits if_splits)

lemma pwr_wake_slot_ok: "ip \<noteq> 0 \<Longrightarrow> body_ok (pwr_wake_slot env mhi tbl mux ip)"
  by (auto simp: body_ok_def pwr_wake_slot_def Let_def key_updates private_used enabled_used
    elim!: send_conn_addE split: prod.splits if_splits)

lemma discon_slot_ok: "body_ok (discon_slot env mhi tbl ip)"
  by (auto simp: body_ok_def discon_slot_def key_updates enabled_used elim!: send_conn_delE
    split: prod.splits if_splits)

lemma sta_discon_slot_ok: "ip \<noteq> 0 \<Longrightarrow> body_ok (sta_discon_slot env mhi tbl ip)"
  by (auto simp: body_ok_def sta_discon_slot_def key_updates enabled_used target_used elim!: send_conn_delE
    split: prod.splits if_splits)

lemma natapp_ok_cong:
  "cache app' = cache app \<Longrightarrow> curCnt app' = curCnt app \<Longrightarrow> length (temp app') = length (temp app) \<Longrightarrow>
   natapp_ok app \<Longrightarrow> natapp_ok app'"
  by (simp add: natapp_ok_def)

lemma AddTable_ok: "natapp_ok app \<Longrightarrow> natapp_ok (snd (AddTable env mhi ip mux app))"
  by (auto simp: AddTable_def Let_def split: prod.split
    intro!: for_slots_ok restore_slot_ok elim!: natapp_ok_cong [rotated 3])

lemma DeleteTable_ok: "natapp_ok app \<Longrightarrow> natapp_ok (snd (DeleteTable env mhi ip app))"
  using for_slots_ok [OF disable_slot_ok, of app env mhi]
  by (auto simp: DeleteTable_def Let_def Reset_def natapp_ok_def split: prod.split)

lemma pwr_ops_ok:
  "natapp_ok app \<Longrightarrow> natapp_ok (snd (UpdatePwrSaveIf env mhi ip app))"
  "natapp_ok app \<Longrightarrow> natapp_ok (snd (ResetPwrSaveIf env mhi ip app))"
  "natapp_ok app \<Longrightarrow> natapp_ok (snd (DelEntriesOnClntDiscon env mhi ip app))"
  "natapp_ok app \<Longrightarrow> natapp_ok (snd (DelEntriesOnSTAClntDiscon env mhi ip app))"
  by (auto simp: UpdatePwrSaveIf_def ResetPwrSaveIf_def DelEntriesOnClntDiscon_def
    DelEntriesOnSTAClntDiscon_def Let_def
    intro!: for_slots_ok pwr_save_slot_ok pwr_wake_slot_ok discon_slot_ok sta_discon_slot_ok
    elim!: natapp_ok_cong [rotated 3])


lemma natapp_put:
  assumes ok: "natapp_ok app" and cnt: "first_idx slot_free (cache app) = Some cnt"
    and v: "conn_key v = conn_key rule" "\<not> invalid_conn rule" "conn_key rule \<notin> conns (cache app)"
    and app': "cache app' = (cache app)[cnt := v]" "curCnt app' = curCnt app + 1" "temp app' = temp app"
  shows "natapp_ok app'"
    and "conns (cache app') = insert (conn_key rule) (conns (cache app))"
    and "active (cache app') = (if enabled v then insert (conn_key rule) (active (cache app)) else active (cache app))"
proof -
  have cok: "cache_ok (cache app)" and n: "curCnt app = int (used_slots (cache app))" "length (temp app) = 25"
    using ok by (auto simp: natapp_ok_def)
  note c = first_idx_SomeD [OF cnt]
  have used: "\<not> slot_free rule" "\<not> slot_free v" "slot_ok v"
    using v valid_used [of rule] invalid_key [OF v(1)] by (auto simp: slot_free_key slot_ok_def)
  have "cache_ok (cache app')"
    unfolding app' using cok used not_in_conns [OF v(3) used(1)] v(1) by (auto intro!: cache_ok_update)
  then show "natapp_ok app'"
    using n c used used_slots_update [OF c(1), of v] by (simp add: natapp_ok_def app')
  show "conns (cache app') = insert (conn_key rule) (conns (cache app))"
    using conns_update [OF cok c(1), of v] c used v(1) by (simp add: app')
  show "active (cache app') = (if enabled v then insert (conn_key rule) (active (cache app)) else active (cache app))"
    using active_update [OF cok c(1), of v] c v(1) by (simp add: app')
qed

lemma natapp_clear:
  assumes ok: "natapp_ok app" and cnt: "cnt < length (cache app)" "\<not> slot_free (cache app ! cnt)"
    and app': "cache app' = (cache app)[cnt := zero_entry]" "curCnt app' = curCnt app - 1" "temp app' = temp app"
  shows "natapp_ok app'"
    and "conns (cache app') = conns (cache app) - {conn_key (cache app ! cnt)}"
    and "active (cache app') = active (cache app) - {conn_key (cache app ! cnt)}"
proof -
  have cok: "cache_ok (cache app)" and n: "curCnt app = int (used_slots (cache app))" "length (temp app) = 25"
    using ok by (auto simp: natapp_ok_def)
  show "natapp_ok app'"
    using n cnt cache_ok_update [OF cok, of zero_entry cnt] used_slots_update [OF cnt(1), of zero_entry]
    by (simp add: natapp_ok_def app')
  show "conns (cache app') = conns (cache app) - {conn_key (cache app ! cnt)}"
    using conns_update [OF cok cnt(1), of zero_entry] cnt by (simp add: app')
  show "active (cache app') = active (cache app) - {conn_key (cache app ! cnt)}"
    using active_update [OF cok cnt(1), of zero_entry] cnt by (simp add: app')
qed

text \<open>A free slot may keep a handle a failing driver wrote; nothing else changes.\<close>

lemma natapp_touch:
  assumes ok: "natapp_ok app" and cnt: "first_idx slot_free (cache app) = Some cnt"
    and v: "conn_key v = conn_key (cache app ! cnt)" "enabled v = enabled (cache app ! cnt)"
    and app': "cache app' = (cache app)[cnt := v]" "curCnt app' = curCnt app" "temp app' = temp app"
  shows "natapp_ok app'" and "conns (cache app') = conns (cache app)"
    and "active (cache app') = active (cache app)"
proof -
  have cok: "cache_ok (cache app)" and n: "curCnt app = int (used_slots (cache app))" "length (temp app) = 25"
    using ok by (auto simp: natapp_ok_def)
  note c = first_idx_SomeD [OF cnt]
  have free: "slot_free v" "\<not> enabled v"
    using v c cache_okD(1) [OF cok c(1)] by (auto simp: slot_free_key slot_ok_def)
  then have "slot_ok v" by (simp add: slot_ok_def)
  with free show "natapp_ok app'"
    using n c cache_ok_update [OF cok, of v cnt] used_slots_update [OF c(1), of v]
    by (simp add: natapp_ok_def app')
  show "conns (cache app') = conns (cache app)"
    using conns_update [OF cok c(1), of v] c free by (simp add: app')
  show "active (cache app') = active (cache app)"
    using active_update [OF cok c(1), of v] c free by (simp add: app')
qed

lemma DeleteEntry_spec:
  assumes "natapp_ok app" and "\<not> slot_free rule" and "DeleteEntry env mhi rule app = (ret, app')"
  shows "natapp_ok app'" and "ret = 0" and "conns (cache app') = conns (cache app) - {conn_key rule}"
    and "active (cache app') = active (cache app) - {conn_key rule}"
proof -
  have "ret = 0 \<and> natapp_ok app' \<and> conns (cache app') = conns (cache app) - {conn_key rule} \<and>
    active (cache app') = active (cache app) - {conn_key rule}"
  proof (cases "first_idx (\<lambda>e. same_conn e rule) (cache app)")
    case None
    with assms(2) have "conn_key rule \<notin> conns (cache app)"
      by (auto simp: conns_def same_conn_key)
    moreover from this have "conn_key rule \<notin> active (cache app)"
      using assms(1) enabled_used by (fastforce simp: natapp_ok_def cache_ok_def conns_def active_def)
    ultimately show ?thesis using assms unfolding DeleteEntry_def None by simp
  next
    case (Some cnt)
    note c = first_idx_SomeD [OF Some, unfolded same_conn_key]
    with assms(2) have "\<not> slot_free (cache app ! cnt)" by (simp add: slot_free_key)
    from natapp_clear [OF assms(1) c(1) this, of app'] assms(3) Some c(2) show ?thesis
      by (auto simp: DeleteEntry_def)
  qed
  then show "natapp_ok app'" "ret = 0" "conns (cache app') = conns (cache app) - {conn_key rule}"
    "active (cache app') = active (cache app) - {conn_key rule}" by auto
qed

text \<open>\<open>AddEntry\<close> accepts the rule when it gets as far as a free slot and the driver takes it.\<close>

definition add_accepted :: "'d nat_env \<Rightarrow> nat_entry \<Rightarrow> 'd natapp \<Rightarrow> bool" where
  "add_accepted env rule app \<longleftrightarrow>
     nat_table_hdl app \<noteq> 0 \<and> \<not> isAlgPort env (protocol rule) (private_port rule) \<and>
     \<not> isAlgPort env (protocol rule) (target_port rule) \<and> \<not> invalid_conn rule \<and>
     conn_key rule \<notin> conns (cache app) \<and> (\<exists>e \<in> set (cache app). slot_free e) \<and>
     (isPwrSaveIf (private_ip rule) app \<or> isPwrSaveIf (target_ip rule) app \<or>
      0 \<le> fst (fst (add_ipv4_rule env (nat_table_hdl app) (nat_rule_of rule) (dev app))))"

lemma AddEntry_spec:
  assumes ok: "natapp_ok app" and add: "AddEntry env mhi rule app = (ret, app')"
  shows "natapp_ok app' \<and> temp app' = temp app \<and>
    (if add_accepted env rule app then
       ret = 0 \<and> conns (cache app') = insert (conn_key rule) (conns (cache app)) \<and>
       active (cache app') =
         (if isPwrSaveIf (private_ip rule) app \<or> isPwrSaveIf (target_ip rule) app then active (cache app)
          else insert (conn_key rule) (active (cache app)))
     else
       (ret = 0 \<longrightarrow> invalid_conn rule) \<and> conns (cache app') = conns (cache app) \<and>
       active (cache app') = active (cache app))"
proof (cases "nat_table_hdl app \<noteq> 0 \<and> \<not> isAlgPort env (protocol rule) (private_port rule) \<and>
     \<not> isAlgPort env (protocol rule) (target_port rule) \<and> \<not> invalid_conn rule \<and>
     conn_key rule \<notin> conns (cache app) \<and> (\<exists>e \<in> set (cache app). slot_free e)")
  case False
  then have na: "\<not> add_accepted env rule app" by (auto simp: add_accepted_def)
  have full: "(\<exists>e \<in> set (cache app). slot_free e) \<or> first_idx slot_free (cache app) = None" by auto
  have "app' = app \<and> (ret = 0 \<longrightarrow> invalid_conn rule)"
    using False add full valid_used [of rule]
    by (cases "invalid_conn rule") (auto simp: AddEntry_def ChkForDup_conns split: if_splits simp del: first_idx_None_iff)
  with na ok show ?thesis by simp
next
  case True
  then obtain cnt where cnt: "first_idx slot_free (cache app) = Some cnt" by fastforce
  note put = natapp_put [OF ok cnt _ _ _, of _ rule]
  have dup: "\<not> ChkForDup rule app" using True by (simp add: ChkForDup_conns valid_used)
  show ?thesis
  proof (cases "isPwrSaveIf (private_ip rule) app \<or> isPwrSaveIf (target_ip rule) app")
    case ps: True
    from put [of "copy_conn rule ((cache app ! cnt)\<lparr>enabled := False, rule_hdl := 0\<rparr>)" app'] True add dup ps
    show ?thesis by (auto simp: AddEntry_def cnt add_accepted_def copy_conn_simps Let_def)
  next
    case ps: False
    obtain r out d where drv:
      "add_ipv4_rule env (nat_table_hdl app) (nat_rule_of rule) (dev app) = ((r, out), d)"
      by (metis prod.exhaust)
    show ?thesis
    proof (cases "r < 0")
      case neg: True
      from natapp_touch [OF ok cnt, of "set_hdl out (cache app ! cnt)" app'] True add dup ps drv neg
      show ?thesis by (auto simp: AddEntry_def cnt add_accepted_def key_updates Let_def)
    next
      case pos: False
      obtain e d' where s: "send_conn_add env mhi (pub_mux_id app) rule
          ((set_hdl out (cache app ! cnt))\<lparr>enabled := True\<rparr>, d) = (e, d')" by fastforce
      then have "enabled e" by (auto elim!: send_conn_addE)
      with put [of "copy_conn rule e" app'] True add dup ps drv pos s
      show ?thesis by (auto simp: AddEntry_def cnt add_accepted_def copy_conn_simps Let_def)
    qed
  qed
qed


lemma CacheEntry_spec:
  assumes ok: "natapp_ok app"
  shows "natapp_ok (CacheEntry rule app) \<and> active (cache (CacheEntry rule app)) = active (cache app) \<and>
    conns (cache (CacheEntry rule app)) =
      (if invalid_conn rule \<or> (\<forall>e \<in> set (cache app). \<not> slot_free e) then conns (cache app)
       else insert (conn_key rule) (conns (cache app)))"
proof (cases "invalid_conn rule \<or> ChkForDup rule app")
  case True
  with ok show ?thesis
    using ChkForDup_conns [of rule app] valid_used [of rule] by (auto simp: CacheEntry_def)
next
  case False
  then have new: "conn_key rule \<notin> conns (cache app)"
    using ChkForDup_conns [of rule app] valid_used [of rule] by auto
  show ?thesis
  proof (cases "first_idx slot_free (cache app)")
    case None
    then have "\<forall>e \<in> set (cache app). \<not> slot_free e" by simp
    moreover have "CacheEntry rule app = app" using False unfolding CacheEntry_def None by simp
    ultimately show ?thesis using ok by simp
  next
    case (Some cnt)
    note c = first_idx_SomeD [OF Some]
    have "\<not> (\<forall>e \<in> set (cache app). \<not> slot_free e)" using c by (meson nth_mem)
    with natapp_put [OF ok Some, of "(copy_conn rule ((cache app ! cnt)\<lparr>enabled := False, rule_hdl := 0\<rparr>))
        \<lparr>public_ip := public_ip rule\<rparr>" rule "CacheEntry rule app"] False new Some
    show ?thesis by (auto simp: CacheEntry_def copy_conn_simps key_updates)
  qed
qed

lemma temp_update_ok: "natapp_ok app \<Longrightarrow> natapp_ok (app\<lparr>temp := (temp app)[i := t]\<rparr>)"
  by (simp add: natapp_ok_def)

lemma AddEntry_ok: "AddEntry env mhi rule app = (ret, app') \<Longrightarrow> natapp_ok app \<Longrightarrow> natapp_ok app'"
  using AddEntry_spec by blast

lemma flush_temp_slot_ok: "natapp_ok app \<Longrightarrow> natapp_ok (flush_temp_slot env mhi ip add dummy cnt app)"
proof -
  assume ok: "natapp_ok app"
  define t where "t = (if dummy then (temp app ! cnt)\<lparr>private_ip := public_ip (temp app ! cnt),
    private_port := public_port (temp app ! cnt)\<rparr> else temp app ! cnt)"
  obtain ret app' where add: "AddEntry env mhi t (app\<lparr>temp := (temp app)[cnt := t]\<rparr>) = (ret, app')"
    by fastforce
  with ok have "natapp_ok app'" using AddEntry_ok temp_update_ok by blast
  with ok add show ?thesis
    unfolding flush_temp_slot_def Let_def t_def [symmetric] add by (simp add: temp_update_ok)
qed

lemma FlushTempEntries_ok: "natapp_ok app \<Longrightarrow> natapp_ok (FlushTempEntries env mhi ip add dummy app)"
  unfolding FlushTempEntries_def by (rule fold_upt_invariant) (simp_all add: flush_temp_slot_ok)

lemma temp_ops_ok:
  "natapp_ok app \<Longrightarrow> natapp_ok (AddTempEntry env e app)" "natapp_ok app \<Longrightarrow> natapp_ok (DeleteTempEntry e app)"
  by (simp_all add: AddTempEntry_def DeleteTempEntry_def temp_update_ok split: option.split)

text \<open>The timestamp loop touches neither the connections nor which of them are enabled.\<close>

lemma timestamp_slot_keeps:
  "timestamp_slot env tbl ip e st = (e', st') \<Longrightarrow> conn_key e' = conn_key e \<and> enabled e' = enabled e"
  by (auto simp: timestamp_slot_def UpdateCTUdpTs_def Let_def key_updates split: prod.splits if_splits option.splits)

lemma conns_Cons [simp]: "conns [] = {}"
  "conns (e # es) = (if slot_free e then {} else {conn_key e}) \<union> conns es"
  by (auto simp: conns_def)

lemma active_Cons [simp]: "active [] = {}"
  "active (e # es) = (if enabled e then {conn_key e} else {}) \<union> active es"
  by (auto simp: active_def)

lemma list_all2_keys:
  assumes "list_all2 (\<lambda>e e'. conn_key e' = conn_key e \<and> (enabled e' \<longleftrightarrow> B e)) es es'"
  shows "conns es' = conns es" and "active es' = conn_key ` {e \<in> set es. B e}"
    and "used_slots es' = used_slots es"
proof -
  have "conns es' = conns es \<and> active es' = conn_key ` {e \<in> set es. B e} \<and> used_slots es' = used_slots es"
    using assms
  proof (induction es es' rule: list_all2_induct)
    case (Cons e es e' es')
    then have "slot_free e' = slot_free e" by (simp add: slot_free_key)
    with Cons show ?case by (auto simp: used_slots_def)
  qed (simp add: used_slots_def)
  then show "conns es' = conns es" "active es' = conn_key ` {e \<in> set es. B e}"
    "used_slots es' = used_slots es" by auto
qed


lemma for_slots_rel:
  assumes "\<And>e n d e' n' d'. e \<in> set (cache app) \<Longrightarrow> body e (n, d) = (e', n', d') \<Longrightarrow> R e e'"
  shows "list_all2 R (cache app) (cache (for_slots body app))"
proof -
  obtain es n d where r: "run_slots body (cache app) (curCnt app, dev app) = (es, n, d)"
    by (metis prod_cases3)
  have "list_all2 R (cache app) es"
    by (rule run_slots_rel [OF r]) (use assms in force)
  then show ?thesis by (simp add: for_slots_def r)
qed

lemma for_slots_other [simp]:
  "temp (for_slots body app) = temp app" "nat_table_hdl (for_slots body app) = nat_table_hdl app"
  "pub_ip_addr (for_slots body app) = pub_ip_addr app" "PwrSaveIfs (for_slots body app) = PwrSaveIfs app"
  "pub_ip_addr_pre (for_slots body app) = pub_ip_addr_pre app" "pub_mux_id (for_slots body app) = pub_mux_id app"
  "length (cache (for_slots body app)) = length (cache app)"
  using list_all2_lengthD [OF for_slots_rel [of app body "\<lambda>_ _. True"]]
  by (simp_all add: for_slots_def split: prod.split)

text \<open>Drivers that carry out what they are asked for.\<close>

definition driver_deletes :: "'d nat_env \<Rightarrow> bool" where
  "driver_deletes env \<longleftrightarrow> (\<forall>t h d. 0 \<le> fst (del_ipv4_rule env t h d))"

definition driver_adds :: "'d nat_env \<Rightarrow> bool" where
  "driver_adds env \<longleftrightarrow> (\<forall>t r d. 0 \<le> fst (fst (add_ipv4_rule env t r d)))"

lemma driver_deletesD: "driver_deletes env \<Longrightarrow> del_ipv4_rule env t h d = (r, d') \<Longrightarrow> \<not> r < 0"
  by (metis driver_deletes_def fst_conv not_less)

lemma driver_addsD: "driver_adds env \<Longrightarrow> add_ipv4_rule env t r d = ((q, out), d') \<Longrightarrow> \<not> q < 0"
  by (metis driver_adds_def fst_conv not_less)

lemma pwr_save_slot_effect:
  "driver_deletes env \<Longrightarrow> pwr_save_slot env mhi tbl ip e (n, d) = (e', n', d') \<Longrightarrow>
   conn_key e' = conn_key e \<and> (enabled e' \<longleftrightarrow> enabled e \<and> private_ip e \<noteq> ip)"
  by (auto simp: pwr_save_slot_def key_updates dest: driver_deletesD elim!: send_conn_delE
    split: prod.splits if_splits)

lemma discon_slot_effect:
  "driver_deletes env \<Longrightarrow> discon_slot env mhi tbl ip e (n, d) = (e', n', d') \<Longrightarrow>
   conn_key e' = conn_key e \<and> (enabled e' \<longleftrightarrow> enabled e \<and> private_ip e \<noteq> ip)"
  by (auto simp: discon_slot_def key_updates dest: driver_deletesD elim!: send_conn_delE
    split: prod.splits if_splits)

lemma pwr_wake_slot_effect:
  "driver_adds env \<Longrightarrow> pwr_wake_slot env mhi tbl mux ip e (n, d) = (e', n', d') \<Longrightarrow>
   conn_key e' = conn_key e \<and> (enabled e' \<longleftrightarrow> enabled e \<or> private_ip e = ip)"
  by (auto simp: pwr_wake_slot_def Let_def key_updates dest: driver_addsD elim!: send_conn_addE
    split: prod.splits if_splits)

lemma restore_slot_effect:
  "driver_adds env \<Longrightarrow> restore_slot env mhi tbl mux ip e (n, d) = (e', n', d') \<Longrightarrow>
   conn_key e' = conn_key e \<and> (enabled e' \<longleftrightarrow> enabled e \<or> private_ip e \<noteq> 0)"
  by (auto simp: restore_slot_def Let_def key_updates dest: driver_addsD elim!: send_conn_addE
    split: prod.splits if_splits)

lemma disable_slot_effect:
  "disable_slot env mhi e (n, d) = (e', n', d') \<Longrightarrow> conn_key e' = conn_key e \<and> (enabled e' \<longleftrightarrow> False)"
  by (auto simp: disable_slot_def key_updates elim!: send_conn_delE split: prod.splits if_splits)

lemma sta_discon_slot_effect:
  "driver_deletes env \<Longrightarrow> sta_discon_slot env mhi tbl ip e (n, d) = (e', n', d') \<Longrightarrow>
   e' = (if target_ip e = ip then zero_entry else e)"
  by (auto simp: sta_discon_slot_def dest: driver_deletesD elim!: send_conn_delE
    split: prod.splits if_splits)

text \<open>The set of active connections that such a loop leaves, in terms of the keys.\<close>

lemma active_filter: "conn_key ` {e \<in> set es. enabled e \<and> private_ip e \<noteq> ip} = {k \<in> active es. fst k \<noteq> ip}"
  by (force simp: active_def conn_key_def)

lemma active_extend:
  "ip \<noteq> 0 \<Longrightarrow> conn_key ` {e \<in> set es. enabled e \<or> private_ip e = ip} = active es \<union> {k \<in> conns es. fst k = ip}"
  by (force simp: active_def conns_def conn_key_def slot_free_def)

lemma conns_clear:
  "list_all2 (\<lambda>e e'. e' = (if target_ip e = ip then zero_entry else e)) es es' \<Longrightarrow> ip \<noteq> 0 \<Longrightarrow>
   conns es' = {k \<in> conns es. fst (snd (snd k)) \<noteq> ip} \<and> active es' = {k \<in> active es. fst (snd (snd k)) \<noteq> ip}"
proof (induction es es' rule: list_all2_induct)
  case (Cons e es e' es')
  have k: "fst (snd (snd (conn_key e))) = target_ip e" by (simp add: conn_key_def)
  with Cons show ?case by (auto split: if_splits)
qed simp

section \<open>Reachable states\<close>

text \<open>
  Every call of the object. The conntrack listener calls \<open>DeleteEntry\<close> with the addresses of a
  packet, never with the all-zero pattern of a free slot.
\<close>

inductive natapp_step :: "'d nat_env \<Rightarrow> 'd natapp \<Rightarrow> 'd natapp \<Rightarrow> bool" for env where
  add_table: "natapp_step env app (snd (AddTable env mhi ip mux app))"
| delete_table: "natapp_step env app (snd (DeleteTable env mhi ip app))"
| add_entry: "natapp_step env app (snd (AddEntry env mhi rule app))"
| delete_entry: "\<not> slot_free rule \<Longrightarrow> natapp_step env app (snd (DeleteEntry env mhi rule app))"
| cache_entry: "natapp_step env app (CacheEntry rule app)"
| update_timestamps: "natapp_step env app (UpdateUDPTimeStamp env app)"
| power_save: "natapp_step env app (snd (UpdatePwrSaveIf env mhi ip app))"
| power_wake: "natapp_step env app (snd (ResetPwrSaveIf env mhi ip app))"
| client_gone: "natapp_step env app (snd (DelEntriesOnClntDiscon env mhi ip app))"
| sta_client_gone: "natapp_step env app (snd (DelEntriesOnSTAClntDiscon env mhi ip app))"
| add_temp: "natapp_step env app (AddTempEntry env rule app)"
| delete_temp: "natapp_step env app (DeleteTempEntry rule app)"
| flush_temp: "natapp_step env app (FlushTempEntries env mhi ip isAdd isDummy app)"

inductive natapp_reachable :: "'d nat_env \<Rightarrow> 'd natapp \<Rightarrow> bool" for env where
  start: "natapp_reachable env (NatApp_new n d mem_pre mem_tcp mem_udp mem_ps)"
| step: "natapp_reachable env app \<Longrightarrow> natapp_step env app app' \<Longrightarrow> natapp_reachable env app'"

lemma slot_ok_same_key: "conn_key e' = conn_key e \<Longrightarrow> enabled e' = enabled e \<Longrightarrow> slot_ok e' = slot_ok e"
  using invalid_key [of e' e] by (simp add: slot_ok_def slot_free_key)

lemma cache_ok_same_keys:
  assumes rel: "list_all2 (\<lambda>e e'. conn_key e' = conn_key e \<and> (enabled e' \<longleftrightarrow> enabled e)) es es'"
    and ok: "cache_ok es"
  shows "cache_ok es'"
proof -
  have len: "length es' = length es" using list_all2_lengthD [OF rel] by simp
  have at: "conn_key (es' ! i) = conn_key (es ! i)" "enabled (es' ! i) = enabled (es ! i)"
    if "i < length es" for i
    using rel that by (auto simp: list_all2_conv_all_nth)
  have "slot_ok (es' ! i)" if "i < length es" for i
    using slot_ok_same_key [OF at [OF that]] cache_okD(1) [OF ok that] by simp
  then have "\<forall>e \<in> set es'. slot_ok e" using len by (metis in_set_conv_nth)
  moreover have "i = j" if "i < length es" "j < length es" "\<not> slot_free (es' ! i)"
    "conn_key (es' ! i) = conn_key (es' ! j)" for i j
    using cache_okD(2) [OF ok that(1,2)] that at(1) by (simp add: slot_free_key)
  ultimately show ?thesis using len unfolding cache_ok_def by metis
qed

lemma UpdateUDPTimeStamp_ok: "natapp_ok app \<Longrightarrow> natapp_ok (UpdateUDPTimeStamp env app)"
proof -
  assume ok: "natapp_ok app"
  obtain es r t d where run: "run_slots (timestamp_slot env (nat_table_hdl app) (pub_ip_addr app)) (cache app)
      (False, (tcp_timeout app, udp_timeout app), dev app) = (es, r, t, d)" by (metis prod_cases4)
  have rel: "list_all2 (\<lambda>e e'. conn_key e' = conn_key e \<and> (enabled e' \<longleftrightarrow> enabled e)) (cache app) es"
    using timestamp_slot_keeps by (intro run_slots_rel [OF run]) blast
  have "cache_ok es" using cache_ok_same_keys [OF rel] ok by (simp add: natapp_ok_def)
  with ok list_all2_keys(3) [OF rel] run show ?thesis
    by (simp add: UpdateUDPTimeStamp_def natapp_ok_def split: prod.split)
qed

lemma natapp_step_ok: "natapp_step env app app' \<Longrightarrow> natapp_ok app \<Longrightarrow> natapp_ok app'"
proof (induction rule: natapp_step.induct)
  case (add_entry app mhi rule)
  then show ?case using AddEntry_ok by (metis prod.collapse)
next
  case (delete_entry rule app mhi)
  then show ?case using DeleteEntry_spec(1) by (metis prod.collapse)
qed (simp_all add: AddTable_ok DeleteTable_ok CacheEntry_spec UpdateUDPTimeStamp_ok pwr_ops_ok
  temp_ops_ok FlushTempEntries_ok)

lemma NatApp_new_ok: "natapp_ok (NatApp_new n d mem_pre mem_tcp mem_udp mem_ps)"
  by (simp add: NatApp_new_def natapp_ok_def cache_ok_def used_slots_def slots_where_def)

section \<open>Properties\<close>

text \<open>
  An environment for examples: a driver that numbers its rules, keeps the live ones in a list
  and never fails, with no PCIe modem and one ALG port.
\<close>

definition list_env :: "(u32 list \<times> u32) nat_env" where
  "list_env = \<lparr>add_ipv4_tbl = (\<lambda>ip n d. ((0, Some 1), d)), del_ipv4_tbl = (\<lambda>t d. (0, ([], snd d))),
     add_ipv4_rule = (\<lambda>t r d. ((0, Some (snd d + 1)), ((snd d + 1) # fst d, snd d + 1))),
     del_ipv4_rule = (\<lambda>t h d. (0, (remove1 h (fst d), snd d))),
     query_timestamp = (\<lambda>t h d. ((0, Some h), d)), modify_pdn = (\<lambda>t i e d. (0, d)),
     generate_flt_eq = (\<lambda>r d. (True, d)), add_offload_flt_rule = (\<lambda>r m d. ((True, 7), d)),
     del_offload_flt_rule = (\<lambda>i d. (True, d)), update_timeout = Some (\<lambda>u d. d),
     ipa_hw_v4 = True, alg_ports = [(6, 21)]\<rparr>"

definition conn_a :: nat_entry where
  "conn_a = zero_entry\<lparr>private_ip := 10, private_port := 1000, target_ip := 20, target_port := 80,
     public_ip := 99, public_port := 5000, protocol := 6\<rparr>"

definition conn_b :: nat_entry where
  "conn_b = zero_entry\<lparr>private_ip := 11, private_port := 1001, target_ip := 20, target_port := 443,
     public_ip := 99, public_port := 5001, protocol := 17\<rparr>"

definition app_0 :: "(u32 list \<times> u32) natapp" where
  "app_0 = NatApp_new 3 ([], 0) 0 0 0 [0, 0]"

text \<open>The table of address 99 with both connections.\<close>

definition app_ab :: "(u32 list \<times> u32) natapp" where
  "app_ab = snd (AddEntry list_env False conn_b (snd (AddEntry list_env False conn_a
     (snd (AddTable list_env False 99 3 app_0)))))"

lemma list_env_accepts: "driver_deletes list_env" "driver_adds list_env"
  by (simp_all add: driver_deletes_def driver_adds_def list_env_def)

lemma reachable_ab: "natapp_reachable list_env app_ab"
  unfolding app_ab_def app_0_def
  by (rule natapp_reachable.step [OF natapp_reachable.step [OF natapp_reachable.step
      [OF natapp_reachable.start natapp_step.add_table] natapp_step.add_entry] natapp_step.add_entry])

lemma natapp_reachable_ok: "natapp_reachable env app \<Longrightarrow> natapp_ok app"
proof (induction rule: natapp_reachable.induct)
  case (start n d mem_pre mem_tcp mem_udp mem_ps)
  show ?case by (rule NatApp_new_ok)
next
  case (step app app')
  then show ?case using natapp_step_ok by blast
qed

text \<open>
  C2: In every reachable state of the NAT application, whatever the NAT driver, the modem and the
  framework answer: no two used slots of the cache hold the same connection, only valid
  connections are enabled in hardware, a used slot holds a valid connection, and \<open>curCnt\<close> is
  the number of used slots.
\<close>

theorem natapp_cache_consistent:
  assumes "natapp_reachable env app"
  shows "natapp_ok app"
  using assms by (rule natapp_reachable_ok)

theorem natapp_cache_consistent_witness: "natapp_ok app_ab"
  using natapp_cache_consistent [OF reachable_ab] .

lemma app_ab_ok: "natapp_ok app_ab"
  using reachable_ab by (rule natapp_reachable_ok)

text \<open>
  C6: \<open>AddEntry\<close> adds exactly the given connection, and only if there is a table, neither port is
  an ALG port, the connection is valid and new, a slot is free, and the driver accepts it (not
  asked for when one side is in power save, when the connection is cached only). In every other
  case the set of connections and the set of those in hardware stay as they were, and the result
  is an error unless the connection was invalid.
\<close>

theorem AddEntry_adds_connection:
  assumes "natapp_ok app" and "AddEntry env mhi rule app = (ret, app')"
  shows "if add_accepted env rule app then
      ret = 0 \<and> conns (cache app') = insert (conn_key rule) (conns (cache app)) \<and>
      active (cache app') =
        (if isPwrSaveIf (private_ip rule) app \<or> isPwrSaveIf (target_ip rule) app then active (cache app)
         else insert (conn_key rule) (active (cache app)))
    else
      (ret = 0 \<longrightarrow> invalid_conn rule) \<and> conns (cache app') = conns (cache app) \<and>
      active (cache app') = active (cache app)"
  using AddEntry_spec [OF assms] by auto

theorem AddEntry_adds_connection_witness:
  "conns (cache (snd (AddEntry list_env False (conn_a\<lparr>target_port := 81\<rparr>) app_ab))) =
     insert (10, 1000, 20, 81, 6) (conns (cache app_ab))"
proof -
  have acc: "add_accepted list_env (conn_a\<lparr>target_port := 81\<rparr>) app_ab" by code_simp
  have "conn_key (conn_a\<lparr>target_port := 81\<rparr>) = (10, 1000, 20, 81, 6)" by code_simp
  then show ?thesis
    using AddEntry_adds_connection [OF app_ab_ok prod.collapse [symmetric], where env = list_env and mhi = False
      and rule = "conn_a\<lparr>target_port := 81\<rparr>"] acc by simp
qed

text \<open>
  \<open>DeleteEntry\<close> of a connection removes it and no other from the cache and from the connections
  in hardware.
\<close>

theorem DeleteEntry_removes_connection:
  assumes "natapp_ok app" and "\<not> slot_free rule" and "DeleteEntry env mhi rule app = (ret, app')"
  shows "ret = 0 \<and> conns (cache app') = conns (cache app) - {conn_key rule} \<and>
    active (cache app') = active (cache app) - {conn_key rule}"
  using DeleteEntry_spec [OF assms] by auto

theorem DeleteEntry_removes_connection_witness:
  "conns (cache (snd (DeleteEntry list_env False conn_a app_ab))) = {(11, 1001, 20, 443, 17)}"
proof -
  have "conns (cache app_ab) - {conn_key conn_a} = {(11, 1001, 20, 443, 17)}" "\<not> slot_free conn_a"
    by code_simp+
  then show ?thesis
    using DeleteEntry_removes_connection [OF app_ab_ok _ prod.collapse [symmetric], where env = list_env and mhi = False and rule = conn_a]
    by simp
qed


lemma UpdatePwrSaveIf_effect:
  assumes "driver_deletes env" and "ip \<noteq> 0" and "ip \<notin> set (PwrSaveIfs app)"
    and "UpdatePwrSaveIf env mhi ip app = (ret, app')"
  shows "ret = 0" and "conns (cache app') = conns (cache app)"
    and "active (cache app') = {k \<in> active (cache app). fst k \<noteq> ip}"
proof -
  let ?app = "app\<lparr>PwrSaveIfs := set_pwr_save 0 ip (PwrSaveIfs app)\<rparr>"
  have app': "app' = for_slots (pwr_save_slot env mhi (nat_table_hdl app) ip) ?app" "ret = 0"
    using assms by (auto simp: UpdatePwrSaveIf_def Let_def)
  have "list_all2 (\<lambda>e e'. conn_key e' = conn_key e \<and> (enabled e' \<longleftrightarrow> enabled e \<and> private_ip e \<noteq> ip))
      (cache ?app) (cache app')"
    unfolding app' by (rule for_slots_rel) (rule pwr_save_slot_effect [OF assms(1)])
  from list_all2_keys(1,2) [OF this] app'(2)
  show "ret = 0" "conns (cache app') = conns (cache app)"
    "active (cache app') = {k \<in> active (cache app). fst k \<noteq> ip}" by (simp_all add: active_filter)
qed

lemma ResetPwrSaveIf_effect:
  assumes "driver_adds env" and "ip \<noteq> 0" and "ResetPwrSaveIf env mhi ip app = (ret, app')"
  shows "conns (cache app') = conns (cache app)"
    and "active (cache app') = active (cache app) \<union> {k \<in> conns (cache app). fst k = ip}"
proof -
  let ?app = "app\<lparr>PwrSaveIfs := set_pwr_save ip 0 (PwrSaveIfs app)\<rparr>"
  have app': "app' = for_slots (pwr_wake_slot env mhi (nat_table_hdl app) (pub_mux_id app) ip) ?app"
    using assms by (auto simp: ResetPwrSaveIf_def Let_def)
  have "list_all2 (\<lambda>e e'. conn_key e' = conn_key e \<and> (enabled e' \<longleftrightarrow> enabled e \<or> private_ip e = ip))
      (cache ?app) (cache app')"
    unfolding app' by (rule for_slots_rel) (rule pwr_wake_slot_effect [OF assms(1)])
  from list_all2_keys(1,2) [OF this] assms(2)
  show "conns (cache app') = conns (cache app)"
    "active (cache app') = active (cache app) \<union> {k \<in> conns (cache app). fst k = ip}"
    by (simp_all add: active_extend)
qed

text \<open>A driver with a record of the requests for rules it has carried out, each with the handle.\<close>

datatype rule_request = Rule_added (rq_table: u32) (rq_rule: ipv4_rule) (rq_handle: "u32 option") | Rule_deleted (rq_table: u32) (rq_hdl: u32)

definition under_log :: "('d \<Rightarrow> 'r \<times> 'd) \<Rightarrow> 'd \<times> rule_request list \<Rightarrow> 'r \<times> 'd \<times> rule_request list" where
  "under_log f dl = (case f (fst dl) of (r, d) \<Rightarrow> (r, d, snd dl))"

definition logged :: "'d nat_env \<Rightarrow> ('d \<times> rule_request list) nat_env" where
  "logged env = \<lparr>add_ipv4_tbl = (\<lambda>ip n. under_log (add_ipv4_tbl env ip n)), del_ipv4_tbl = (\<lambda>t. under_log (del_ipv4_tbl env t)),
     add_ipv4_rule = (\<lambda>t r dl. case add_ipv4_rule env t r (fst dl) of (out, d) \<Rightarrow> (out, d, snd dl @ [Rule_added t r (snd out)])),
     del_ipv4_rule = (\<lambda>t h dl. case del_ipv4_rule env t h (fst dl) of (ret, d) \<Rightarrow> (ret, d, snd dl @ [Rule_deleted t h])),
     query_timestamp = (\<lambda>t h. under_log (query_timestamp env t h)), modify_pdn = (\<lambda>t i p. under_log (modify_pdn env t i p)),
     generate_flt_eq = (\<lambda>r. under_log (generate_flt_eq env r)), add_offload_flt_rule = (\<lambda>r m. under_log (add_offload_flt_rule env r m)),
     del_offload_flt_rule = (\<lambda>h. under_log (del_offload_flt_rule env h)),
     update_timeout = map_option (\<lambda>f u dl. (f u (fst dl), snd dl)) (update_timeout env),
     ipa_hw_v4 = ipa_hw_v4 env, alg_ports = alg_ports env\<rparr>"

text \<open>An accepted rule comes with its handle.\<close>

definition driver_hands_out :: "'d nat_env \<Rightarrow> bool" where
  "driver_hands_out env \<longleftrightarrow> (\<forall>t r d. 0 \<le> fst (fst (add_ipv4_rule env t r d)) \<longrightarrow> snd (fst (add_ipv4_rule env t r d)) \<noteq> None)"

lemma logged_accepts: "driver_deletes env \<Longrightarrow> driver_deletes (logged env)" "driver_adds env \<Longrightarrow> driver_adds (logged env)"
  "driver_hands_out env \<Longrightarrow> driver_hands_out (logged env)"
  by (simp_all add: driver_deletes_def driver_adds_def driver_hands_out_def logged_def split: prod.split)
    (metis fst_conv snd_conv)+

lemma conn_calls_log:
  "send_conn_del (logged env) mhi (e, d) = (e', d') \<Longrightarrow> snd d' = snd d"
  "send_conn_add (logged env) mhi mux r (e, d) = (e', d') \<Longrightarrow> snd d' = snd d"
  by (auto simp: send_conn_del_def send_conn_add_def DelConnection_def AddConnection_def logged_def under_log_def Let_def
      split: prod.splits if_splits bool.splits)

lemma run_slots_log:
  assumes "\<And>e n d e' n' d'. body e (n, d) = (e', n', d') \<Longrightarrow> snd d' = snd d @ g e e'"
    and "run_slots body es (n, d) = (es', n', d')"
  shows "snd d' = snd d @ concat (map2 g es es')"
  using assms(2)
proof (induction es arbitrary: n d es')
  case (Cons e es)
  obtain e1 n1 d1 where b: "body e (n, d) = (e1, n1, d1)" by (metis prod_cases3)
  obtain es1 where r: "run_slots body es (n1, d1) = (es1, n', d')" "es' = e1 # es1"
    using Cons.prems b by (auto split: prod.splits)
  show ?case using Cons.IH [OF r(1)] assms(1) [OF b] r(2) by simp
qed simp

lemma for_slots_log:
  assumes "\<And>e n d e' n' d'. body e (n, d) = (e', n', d') \<Longrightarrow> snd d' = snd d @ g e e'"
  shows "snd (dev (for_slots body app)) = snd (dev app) @ concat (map2 g (cache app) (cache (for_slots body app)))"
proof -
  obtain es n d where r: "run_slots body (cache app) (curCnt app, dev app) = (es, n, d)" by (metis prod_cases3)
  show ?thesis using run_slots_log [OF assms r] by (simp add: for_slots_def r)
qed

lemma pwr_save_slot_log:
  assumes "pwr_save_slot (logged env) mhi tbl ip e (n, d) = (e', n', d')"
  shows "snd d' = snd d @ (if private_ip e = ip \<and> enabled e then [Rule_deleted tbl (rule_hdl e)] else [])"
proof (cases "private_ip e = ip \<and> enabled e")
  case True
  obtain e1 d1 where s: "send_conn_del (logged env) mhi (e, d) = (e1, d1)" by (metis surj_pair)
  have h: "rule_hdl e1 = rule_hdl e" using s by (rule send_conn_delE)
  obtain r d2 where del: "del_ipv4_rule env tbl (rule_hdl e) (fst d1) = (r, d2)" by (metis surj_pair)
  have "del_ipv4_rule (logged env) tbl (rule_hdl e1) d1 = (r, d2, snd d1 @ [Rule_deleted tbl (rule_hdl e)])"
    using del h by (simp add: logged_def)
  then show ?thesis using assms True s conn_calls_log(1) [OF s] by (auto simp: pwr_save_slot_def split: if_splits)
qed (use assms in \<open>auto simp: pwr_save_slot_def\<close>)

lemma pwr_wake_slot_log:
  assumes "driver_adds env" "driver_hands_out env" "pwr_wake_slot (logged env) mhi tbl mux ip e (n, d) = (e', n', d')"
  shows "snd d' = snd d @ (if private_ip e = ip \<and> \<not> enabled e then [Rule_added tbl (nat_rule_of e') (Some (rule_hdl e'))] else [])
    \<and> private_ip e' = private_ip e"
proof (cases "private_ip e = ip \<and> \<not> enabled e")
  case True
  obtain ret out d1 where add: "add_ipv4_rule env tbl (nat_rule_of e) (fst d) = ((ret, out), d1)" by (metis prod.exhaust)
  have ok: "\<not> ret < 0" using driver_addsD [OF assms(1) add] .
  then obtain h where h: "out = Some h" using assms(2) add unfolding driver_hands_out_def by (metis fst_conv snd_conv not_less not_None_eq)
  have ladd: "add_ipv4_rule (logged env) tbl (nat_rule_of e) d = ((ret, out), d1, snd d @ [Rule_added tbl (nat_rule_of e) (Some h)])"
    using add h by (simp add: logged_def)
  let ?e = "(set_hdl out e)\<lparr>enabled := True\<rparr>"
  obtain e2 d2 where s: "send_conn_add (logged env) mhi mux ?e (?e, d1, snd d @ [Rule_added tbl (nat_rule_of e) (Some h)]) = (e2, d2)"
    by (metis surj_pair)
  have "e' = e2" "d' = d2" using assms(3) True ok ladd s by (simp_all add: pwr_wake_slot_def Let_def)
  moreover have "nat_rule_of e2 = nat_rule_of e \<and> rule_hdl e2 = h \<and> private_ip e2 = private_ip e"
    using s h by (auto simp: send_conn_add_def set_hdl_def nat_rule_of_def Let_def split: prod.splits if_splits)
  ultimately show ?thesis using conn_calls_log(2) [OF s] True by simp
qed (use assms(3) in \<open>auto simp: pwr_wake_slot_def\<close>)

lemma concat_map2_filter:
  assumes "list_all2 R xs ys" "\<And>x y. R x y \<Longrightarrow> g x y = (if P x then [f x] else [])"
  shows "concat (map2 g xs ys) = map f (filter P xs)"
  using assms(1) by (induction rule: list_all2_induct) (simp_all add: assms(2))

lemma UpdatePwrSaveIf_log:
  assumes "ip \<noteq> 0" and "ip \<notin> set (PwrSaveIfs app)" and "UpdatePwrSaveIf (logged env) mhi ip app = (ret, app')"
  shows "snd (dev app') = snd (dev app) @ map (\<lambda>e. Rule_deleted (nat_table_hdl app) (rule_hdl e))
    (filter (\<lambda>e. private_ip e = ip \<and> enabled e) (cache app))"
proof -
  let ?app = "app\<lparr>PwrSaveIfs := set_pwr_save 0 ip (PwrSaveIfs app)\<rparr>" let ?b = "pwr_save_slot (logged env) mhi (nat_table_hdl app) ip"
  have app': "app' = for_slots ?b ?app" using assms by (auto simp: UpdatePwrSaveIf_def Let_def)
  have "list_all2 (\<lambda>_ _. True) (cache ?app) (cache app')" unfolding app' by (rule for_slots_rel) simp
  then show ?thesis
    using for_slots_log [where body = ?b and app = ?app
        and g = "\<lambda>e e'. if private_ip e = ip \<and> enabled e then [Rule_deleted (nat_table_hdl app) (rule_hdl e)] else []", OF pwr_save_slot_log]
    unfolding app' by (simp add: concat_map2_filter)
qed

lemma ResetPwrSaveIf_log:
  assumes "driver_adds env" "driver_hands_out env" and "ip \<noteq> 0" and "ResetPwrSaveIf (logged env) mhi ip app = (ret, app')"
    and off: "\<forall>e \<in> set (cache app). private_ip e = ip \<longrightarrow> \<not> enabled e"
  shows "snd (dev app') = snd (dev app) @ map (\<lambda>e. Rule_added (nat_table_hdl app) (nat_rule_of e) (Some (rule_hdl e)))
    (filter (\<lambda>e. private_ip e = ip) (cache app'))"
proof -
  let ?app = "app\<lparr>PwrSaveIfs := set_pwr_save ip 0 (PwrSaveIfs app)\<rparr>"
  let ?b = "pwr_wake_slot (logged env) mhi (nat_table_hdl app) (pub_mux_id app) ip"
  let ?f = "\<lambda>e. Rule_added (nat_table_hdl app) (nat_rule_of e) (Some (rule_hdl e))"
  have app': "app' = for_slots ?b ?app" using assms by (auto simp: ResetPwrSaveIf_def Let_def)
  have log: "snd (dev (for_slots ?b ?app)) = snd (dev ?app) @ concat (map2 (\<lambda>e e'. if private_ip e = ip \<and> \<not> enabled e then [?f e'] else [])
      (cache ?app) (cache (for_slots ?b ?app)))"
    by (rule for_slots_log) (use pwr_wake_slot_log [OF assms(1,2)] in blast)
  have "list_all2 (\<lambda>e e'. private_ip e' = private_ip e \<and> (private_ip e = ip \<longrightarrow> \<not> enabled e)) (cache ?app) (cache app')"
    unfolding app' by (rule for_slots_rel) (use pwr_wake_slot_log [OF assms(1,2)] off in fastforce)
  then have "concat (map2 (\<lambda>e e'. if private_ip e = ip \<and> \<not> enabled e then [?f e'] else []) (cache ?app) (cache app'))
      = map ?f (filter (\<lambda>e. private_ip e = ip) (cache app'))"
    by (induction rule: list_all2_induct) auto
  then show ?thesis using log by (simp add: app')
qed

lemma power_save_off:
  assumes "driver_deletes env" and "ip \<noteq> 0" and "ip \<notin> set (PwrSaveIfs app)" and "UpdatePwrSaveIf env mhi ip app = (ret, app')"
  shows "\<forall>e \<in> set (cache app'). private_ip e = ip \<longrightarrow> \<not> enabled e" and "nat_table_hdl app' = nat_table_hdl app"
proof -
  have "conn_key e \<in> active (cache app')" if "e \<in> set (cache app')" "enabled e" for e using that by (auto simp: active_def)
  then show "\<forall>e \<in> set (cache app'). private_ip e = ip \<longrightarrow> \<not> enabled e"
    using UpdatePwrSaveIf_effect(3) [OF assms] by (fastforce simp: conn_key_def)
  show "nat_table_hdl app' = nat_table_hdl app" using assms by (auto simp: UpdatePwrSaveIf_def Let_def)
qed

text \<open>
  C8: A client's way into power save and back, with a driver that carries out its calls. Entering
  asks the driver to delete the rules of exactly the client's connections in hardware, by the
  handles their slots hold, keeps them cached and makes no other request for a rule; leaving asks
  it to add the rule of every cached connection of the client and of no other, and each is then in
  hardware under the handle the driver has given for it.
\<close>

theorem power_save_round_trip:
  assumes "driver_deletes env" and "driver_adds env" and "driver_hands_out env" and "ip \<noteq> 0" and "ip \<notin> set (PwrSaveIfs app)"
    and "UpdatePwrSaveIf (logged env) mhi ip app = (ret1, app1)" and "ResetPwrSaveIf (logged env) mhi ip app1 = (ret2, app2)"
  shows "conns (cache app1) = conns (cache app) \<and> conns (cache app2) = conns (cache app) \<and>
    active (cache app1) = {k \<in> active (cache app). fst k \<noteq> ip} \<and>
    active (cache app2) = {k \<in> active (cache app). fst k \<noteq> ip} \<union> {k \<in> conns (cache app). fst k = ip} \<and>
    snd (dev app1) = snd (dev app) @ map (\<lambda>e. Rule_deleted (nat_table_hdl app) (rule_hdl e))
      (filter (\<lambda>e. private_ip e = ip \<and> enabled e) (cache app)) \<and>
    snd (dev app2) = snd (dev app1) @ map (\<lambda>e. Rule_added (nat_table_hdl app) (nat_rule_of e) (Some (rule_hdl e)))
      (filter (\<lambda>e. private_ip e = ip) (cache app2))"
  using UpdatePwrSaveIf_effect [OF logged_accepts(1) [OF assms(1)] assms(4-6)]
    ResetPwrSaveIf_effect [OF logged_accepts(2) [OF assms(2)] assms(4,7)] UpdatePwrSaveIf_log [OF assms(4-6)]
    ResetPwrSaveIf_log [OF assms(2-4,7) power_save_off(1) [OF logged_accepts(1) [OF assms(1)] assms(4-6)]]
    power_save_off(2) [OF logged_accepts(1) [OF assms(1)] assms(4-6)] by simp

text \<open>The table of address 99 with both connections, under a driver with a record.\<close>

definition app_log :: "((u32 list \<times> u32) \<times> rule_request list) natapp" where
  "app_log = snd (AddEntry (logged list_env) False conn_b (snd (AddEntry (logged list_env) False conn_a
     (snd (AddTable (logged list_env) False 99 3 (NatApp_new 3 (([], 0), []) 0 0 0 [0, 0]))))))"

theorem power_save_round_trip_witness:
  "active (cache (snd (UpdatePwrSaveIf (logged list_env) False 10 app_log))) = {(11, 1001, 20, 443, 17)} \<and>
   snd (dev (snd (UpdatePwrSaveIf (logged list_env) False 10 app_log))) =
     [Rule_added 1 (nat_rule_of conn_a) (Some 1), Rule_added 1 (nat_rule_of conn_b) (Some 2), Rule_deleted 1 1]"
proof -
  have "(10 :: u32) \<notin> set (PwrSaveIfs app_log)" "{k \<in> active (cache app_log). fst k \<noteq> 10} = {(11, 1001, 20, 443, 17)}"
    "nat_table_hdl app_log = 1" "map (\<lambda>e. Rule_deleted 1 (rule_hdl e)) (filter (\<lambda>e. private_ip e = 10 \<and> enabled e) (cache app_log)) = [Rule_deleted 1 1]"
    "snd (dev app_log) = [Rule_added 1 (nat_rule_of conn_a) (Some 1), Rule_added 1 (nat_rule_of conn_b) (Some 2)]"
    by code_simp+
  moreover have "driver_hands_out list_env" by (simp add: driver_hands_out_def list_env_def)
  ultimately show ?thesis
    using power_save_round_trip [OF list_env_accepts _ _ _ prod.collapse [symmetric] prod.collapse [symmetric],
      where ip = 10 and app = app_log and mhi = False] by simp
qed

text \<open>
  When a client of the station interface leaves, every cached connection to it is dropped from
  the cache and from hardware, and nothing else is (with a driver that deletes what it is asked to).
\<close>

theorem sta_disconnect_drops_connections:
  assumes "driver_deletes env" and "ip \<noteq> 0" and "DelEntriesOnSTAClntDiscon env mhi ip app = (ret, app')"
  shows "ret = 0 \<and> conns (cache app') = {k \<in> conns (cache app). fst (snd (snd k)) \<noteq> ip} \<and>
    active (cache app') = {k \<in> active (cache app). fst (snd (snd k)) \<noteq> ip}"
proof -
  have app': "app' = for_slots (sta_discon_slot env mhi (nat_table_hdl app) ip) app" "ret = 0"
    using assms by (auto simp: DelEntriesOnSTAClntDiscon_def)
  have "list_all2 (\<lambda>e e'. e' = (if target_ip e = ip then zero_entry else e)) (cache app) (cache app')"
    unfolding app' by (rule for_slots_rel) (rule sta_discon_slot_effect [OF assms(1)])
  from conns_clear [OF this assms(2)] app'(2) show ?thesis by simp
qed

theorem sta_disconnect_drops_connections_witness:
  "conns (cache (snd (DelEntriesOnSTAClntDiscon list_env False 20 app_ab))) = {}"
proof -
  have "{k \<in> conns (cache app_ab). fst (snd (snd k)) \<noteq> 20} = {}" by code_simp
  then show ?thesis
    using sta_disconnect_drops_connections [OF list_env_accepts(1) _ prod.collapse [symmetric],
      where ip = 20 and app = app_ab and mhi = False] by simp
qed

text \<open>
  Taking the table down and up again with the same public address keeps every cached
  connection, and puts all of them into hardware: those of clients in power save, and those
  disabled since their client left, as well.
\<close>

theorem table_cycle_restores_all:
  assumes "driver_adds env" and "natapp_ok app"
    and "DeleteTable env mhi (pub_ip_addr app) app = (0, app1)"
    and "AddTable env mhi (pub_ip_addr app) mux app1 = (0, app2)"
  shows "conns (cache app1) = conns (cache app) \<and> active (cache app1) = {} \<and>
    conns (cache app2) = conns (cache app) \<and> active (cache app2) = conns (cache app)"
proof -
  let ?del = "for_slots (disable_slot env mhi) app"
  have app1: "cache app1 = cache ?del" "pub_ip_addr_pre app1 = pub_ip_addr app"
    using assms(3) by (auto simp: DeleteTable_def Let_def Reset_def split: prod.splits if_splits)
  have "list_all2 (\<lambda>e e'. conn_key e' = conn_key e \<and> (enabled e' \<longleftrightarrow> False)) (cache app) (cache ?del)"
    by (rule for_slots_rel) (rule disable_slot_effect)
  note del = list_all2_keys(1,2) [OF this, folded app1(1)]
  from assms(4) obtain a tbl where app2: "app2 = for_slots (restore_slot env mhi tbl mux (pub_ip_addr app)) a"
    "cache a = cache app1"
    by (auto simp: AddTable_def Let_def app1(2) split: prod.splits if_splits)
  have "list_all2 (\<lambda>e e'. conn_key e' = conn_key e \<and> (enabled e' \<longleftrightarrow> enabled e \<or> private_ip e \<noteq> 0))
      (cache a) (cache app2)"
    unfolding app2(1) by (rule for_slots_rel) (rule restore_slot_effect [OF assms(1)])
  note add = list_all2_keys(1,2) [OF this, unfolded app2(2)]
  have "natapp_ok app1" using DeleteTable_ok [OF assms(2), of env mhi "pub_ip_addr app"] assms(3) by simp
  then have "\<forall>e \<in> set (cache app1). (enabled e \<or> private_ip e \<noteq> 0) = (\<not> slot_free e)"
    by (auto simp: natapp_ok_def cache_ok_def slot_ok_def invalid_conn_def slot_free_def)
  then have "active (cache app2) = conns (cache app1)" by (auto simp: add(2) conns_def)
  with del add show ?thesis by simp
qed


text \<open>The state of \<open>app_ab\<close> with the client of \<open>conn_a\<close> in power save.\<close>

definition app_ps :: "(u32 list \<times> u32) natapp" where
  "app_ps = snd (UpdatePwrSaveIf list_env False 10 app_ab)"

lemma app_ps_ok: "natapp_ok app_ps"
  using pwr_ops_ok(1) [OF app_ab_ok] by (simp add: app_ps_def)

theorem table_cycle_restores_all_witness:
  "let app1 = snd (DeleteTable list_env False 99 app_ps); app2 = snd (AddTable list_env False 99 3 app1)
   in isPwrSaveIf 10 app2 \<and> (10, 1000, 20, 80, 6) \<in> active (cache app2)"
proof -
  let ?app1 = "snd (DeleteTable list_env False 99 app_ps)"
  let ?app2 = "snd (AddTable list_env False 99 3 ?app1)"
  have "pub_ip_addr app_ps = 99" by code_simp
  moreover have "DeleteTable list_env False 99 app_ps = (0, ?app1)" "AddTable list_env False 99 3 ?app1 = (0, ?app2)"
    by code_simp+
  moreover have "isPwrSaveIf 10 ?app2" "(10, 1000, 20, 80, 6) \<in> conns (cache app_ps)" by code_simp+
  ultimately show ?thesis
    using table_cycle_restores_all [OF list_env_accepts(2) app_ps_ok, where mhi = False and mux = 3]
    by (simp add: Let_def)
qed

text \<open>
  \<open>AddEntry\<close> does not store the public address of the connection: in a cache whose free slots
  are cleared, the new entry has public address 0. So the entry of a dummy rule, whose private
  address is the public one, is not recognised as such when the timestamps are read.
\<close>

theorem AddEntry_loses_public_ip:
  assumes "natapp_ok app" and "\<forall>e \<in> set (cache app). slot_free e \<longrightarrow> public_ip e = 0"
    and "add_accepted env rule app" and "AddEntry env mhi rule app = (ret, app')"
  shows "\<exists>e \<in> set (cache app'). conn_key e = conn_key rule \<and> public_ip e = 0 \<and> private_ip e \<noteq> public_ip e"
proof -
  obtain cnt where cnt: "first_idx slot_free (cache app) = Some cnt"
    using assms(3) by (fastforce simp: add_accepted_def)
  note c = first_idx_SomeD [OF cnt]
  have valid: "\<not> invalid_conn rule" and dup: "\<not> ChkForDup rule app"
    using assms(3) by (auto simp: add_accepted_def ChkForDup_conns valid_used)
  have pub: "public_ip (cache app ! cnt) = 0" using assms(2) c by simp
  have keep: "public_ip (set_hdl out e) = public_ip e" for out e
    by (simp add: set_hdl_def split: option.split)
  have "\<exists>v. cache app' = (cache app)[cnt := v] \<and> conn_key v = conn_key rule \<and> public_ip v = 0"
    using assms(3,4) dup pub
    by (auto simp: AddEntry_def cnt add_accepted_def Let_def copy_conn_simps keep
      elim!: send_conn_addE split: prod.splits if_splits)
  then obtain v where v: "cache app' = (cache app)[cnt := v]" "conn_key v = conn_key rule" "public_ip v = 0"
    by blast
  from v(2) valid have "private_ip v \<noteq> 0" using invalid_key [OF v(2)] by (simp add: invalid_conn_def)
  with v c(1) show ?thesis by (metis set_update_memI)
qed

theorem AddEntry_loses_public_ip_witness:
  "\<exists>e \<in> set (cache (snd (AddEntry list_env False (conn_a\<lparr>private_ip := 99\<rparr>) app_ab))).
     conn_key e = (99, 1000, 20, 80, 6) \<and> public_ip e = 0 \<and> private_ip e \<noteq> public_ip e"
proof -
  have "\<forall>e \<in> set (cache app_ab). slot_free e \<longrightarrow> public_ip e = 0"
    "add_accepted list_env (conn_a\<lparr>private_ip := 99\<rparr>) app_ab" by code_simp+
  moreover have "conn_key (conn_a\<lparr>private_ip := 99\<rparr>) = (99, 1000, 20, 80, 6)" by code_simp
  ultimately show ?thesis
    using AddEntry_loses_public_ip [OF app_ab_ok _ _ prod.collapse [symmetric], where env = list_env
      and mhi = False and rule = "conn_a\<lparr>private_ip := 99\<rparr>"] by simp
qed

text \<open>The entries the timestamp loop reports, when a query gives \<open>q\<close> for a handle.\<close>

definition ts_changed :: "(u32 \<Rightarrow> int \<times> u32) \<Rightarrow> nat_entry \<Rightarrow> bool" where
  "ts_changed q e \<longleftrightarrow>
     enabled e \<and> private_ip e \<noteq> public_ip e \<and> 0 \<le> fst (q (rule_hdl e)) \<and> timestamp e \<noteq> snd (q (rule_hdl e))"

lemma run_timestamp_slots:
  assumes "update_timeout env = Some tou"
    and "\<And>h d. query_timestamp env tbl h d = ((fst (q h), Some (snd (q h))), d)"
  shows "run_slots (timestamp_slot env tbl ip) es (r, t, d) =
    (map (\<lambda>e. if ts_changed q e then e\<lparr>timestamp := snd (q (rule_hdl e))\<rparr> else e) es,
     r \<or> list_ex (ts_changed q) es,
     (if \<not> r \<and> list_ex (ts_changed q) es then Read_TcpUdp_Timeout else t),
     fold tou (map (timeout_entry ip) (filter (ts_changed q) es)) d)"
proof (induction es arbitrary: r t d)
  case (Cons e es)
  have "timestamp_slot env tbl ip e (r, t, d) =
      (if ts_changed q e then
         (e\<lparr>timestamp := snd (q (rule_hdl e))\<rparr>, True, if \<not> r then Read_TcpUdp_Timeout else t,
          tou (timeout_entry ip e) d)
       else (e, r, t, d))"
    by (auto simp: timestamp_slot_def UpdateCTUdpTs_def assms ts_changed_def Let_def)
  then show ?case by (simp add: Cons.IH)
qed simp

text \<open>
  Reading the timestamps tells the framework of exactly those connections in hardware whose
  timestamp changed, once each and in the order of the cache, and stores the new timestamps; the
  other entries stay as they are. The driver's query reads the table and does not change it.
\<close>

theorem UpdateUDPTimeStamp_reports_changes:
  assumes "update_timeout env = Some tou"
    and "\<And>h d. query_timestamp env (nat_table_hdl app) h d = ((fst (q h), Some (snd (q h))), d)"
  shows "dev (UpdateUDPTimeStamp env app) =
      fold tou (map (timeout_entry (pub_ip_addr app)) (filter (ts_changed q) (cache app))) (dev app) \<and>
    cache (UpdateUDPTimeStamp env app) =
      map (\<lambda>e. if ts_changed q e then e\<lparr>timestamp := snd (q (rule_hdl e))\<rparr> else e) (cache app)"
  by (simp add: UpdateUDPTimeStamp_def run_timestamp_slots [OF assms] split: prod.split)

theorem UpdateUDPTimeStamp_reports_changes_witness:
  "map timestamp (cache (UpdateUDPTimeStamp list_env app_ab)) = [1, 2, 0]"
proof -
  have 1: "update_timeout list_env = Some (\<lambda>u d. d)" by (simp add: list_env_def)
  have 2: "query_timestamp list_env (nat_table_hdl app_ab) h d = ((fst (0 :: int, h), Some (snd (0 :: int, h))), d)"
    for h d by (simp add: list_env_def)
  have "map timestamp (map (\<lambda>e. if ts_changed (\<lambda>h. (0, h)) e then e\<lparr>timestamp := snd (0 :: int, rule_hdl e)\<rparr> else e)
      (cache app_ab)) = [1, 2, 0]" by code_simp
  then show ?thesis
    using UpdateUDPTimeStamp_reports_changes [OF 1, where app = app_ab and q = "\<lambda>h. (0, h)"] 2 by simp
qed

end
