(* ===== verification/Ct_Listener.thy ===== *)
theory Ct_Listener
  imports Nat_App
begin

text \<open>
  The conntrack listener of \<open>ipacm/src/IPACM_ConntrackListener.cpp\<close> (without \<open>CT_OPT\<close>): it turns
  WAN, neighbour and conntrack events into calls of the NAT application.

  \<^item> \<open>ct_listener\<close> is the object with the NAT application it points to (\<open>None\<close> is the null
    pointer). \<open>ct_ub\<close> records that a null pointer or a slot past the end of an array was read, and
    \<open>threads\<close> lists the threads started.
  \<^item> \<open>conntrack\<close> holds the attributes the code reads through \<open>nfct_get_attr\<close>, addresses and ports
    in network order; \<open>ct_recv\<close> is what one read from the netlink socket gives.
  \<^item> \<open>ct_env\<close> holds what the code reads from its configuration, from the kernel and from the
    thread library.
\<close>

section \<open>Data\<close>

datatype wan_iface_type = Q6_WAN | WLAN_WAN | ECM_WAN | Q6_MHI_WAN

datatype nfct_type = NFCT_T_NEW | NFCT_T_UPDATE | NFCT_T_DESTROY | NFCT_T_ALL

datatype tcp_state = TCP_CONNTRACK_ESTABLISHED | TCP_CONNTRACK_FIN_WAIT | TCP_CONNTRACK_OTHER

datatype ct_thread = TCP_listener | UDP_listener | UDP_timeout

record conntrack =
  ct_is_ipv6 :: bool
  orig_l4proto :: u8
  repl_l4proto :: u8
  ct_status :: u32
  ct_tcp_state :: tcp_state
  orig_ipv4_src :: u32
  orig_ipv4_dst :: u32
  repl_ipv4_src :: u32
  orig_port_src :: u16
  orig_port_dst :: u16
  repl_port_src :: u16
  repl_port_dst :: u16

text \<open>\<open>ipacm_event_data_all\<close> and \<open>ipacm_event_iface_up\<close>, the fields read here.\<close>

record addr_event =
  ev_is_ipv4 :: bool
  ev_ipv4_addr :: u32
  ev_if_index :: int

record wan_event =
  wan_ifname_ev :: string
  wan_ipv4_addr :: u32
  wan_mux_id :: u8
  wan_xlat_mux_id :: u8
  wan_backhaul_type :: wan_iface_type

record 'd ct_env =
  ce_nat :: "'d nat_env"
  cfg_nat_ifaces :: "string list"
  ifname_of :: "int \<Rightarrow> string option"
  private_subnet_table :: "(u32 \<times> u32) list"
  ip_passthrough_mode :: bool
  wan_ip :: u32
  pthread_ok :: "ct_thread \<Rightarrow> bool"

record 'd ct_listener =
  isNatThreadStart :: bool
  isCTReg :: bool
  WanUp :: bool
  isReadCTDone :: bool
  isProcessCTDone :: bool
  nat_inst :: "'d natapp option"
  StaClntCnt :: int
  nat_iface_ipv4_addr :: "u32 list"
  nonnat_iface_ipv4_addr :: "u32 list"
  sta_clnt_ipv4_addr :: "u32 list"
  ct_entries :: "conntrack option list option"
  wan_ifname :: string
  wan_ipaddr :: u32
  backhaul_mode :: wan_iface_type
  threads :: "ct_thread list"
  ct_ub :: bool

definition MAX_IFACE_ADDRESS :: nat where "MAX_IFACE_ADDRESS = 50"

definition MAX_STA_CLNT_IFACES :: nat where "MAX_STA_CLNT_IFACES = 10"

definition STA_CLNT_SUBNET_MASK :: u32 where "STA_CLNT_SUBNET_MASK = 0xFFFFFF00"

definition IPS_SRC_NAT :: u32 where "IPS_SRC_NAT = 0x10"

definition IPS_DST_NAT :: u32 where "IPS_DST_NAT = 0x20"

definition ntohs :: "u16 \<Rightarrow> u16" where
  "ntohs x = push_bit 8 (x AND 0xff) OR drop_bit 8 x"

text \<open>The constructor; \<open>wan_ipaddr\<close>, \<open>backhaul_mode\<close> and \<open>wan_ifname\<close> keep what the memory held.\<close>

definition ct_listener_new :: "'d natapp option \<Rightarrow> string \<Rightarrow> u32 \<Rightarrow> wan_iface_type \<Rightarrow> 'd ct_listener" where
  "ct_listener_new inst mem_ifname mem_ip mem_mode =
     \<lparr>isNatThreadStart = False, isCTReg = False, WanUp = False, isReadCTDone = False,
      isProcessCTDone = False, nat_inst = inst, StaClntCnt = 0,
      nat_iface_ipv4_addr = replicate MAX_IFACE_ADDRESS 0,
      nonnat_iface_ipv4_addr = replicate MAX_IFACE_ADDRESS 0,
      sta_clnt_ipv4_addr = replicate MAX_STA_CLNT_IFACES 0, ct_entries = None,
      wan_ifname = mem_ifname, wan_ipaddr = mem_ip, backhaul_mode = mem_mode, threads = [],
      ct_ub = False\<rparr>"

text \<open>A call through \<open>nat_inst\<close>; the NAT application asks this object for the backhaul.\<close>

definition nat_call :: "(bool \<Rightarrow> 'd natapp \<Rightarrow> 'd natapp) \<Rightarrow> 'd ct_listener \<Rightarrow> 'd ct_listener" where
  "nat_call f l =
     (case nat_inst l of
        None \<Rightarrow> l\<lparr>ct_ub := True\<rparr>
      | Some app \<Rightarrow> l\<lparr>nat_inst := Some (f (backhaul_mode l = Q6_MHI_WAN) app)\<rparr>)"

section \<open>Interface addresses\<close>

text \<open>\<open>CheckNatIface\<close>: the result and \<open>*NatIface\<close>.\<close>

definition CheckNatIface :: "'d ct_env \<Rightarrow> addr_event \<Rightarrow> int \<times> bool" where
  "CheckNatIface env data =
     (if ev_ipv4_addr data = 0 \<or> \<not> ev_is_ipv4 data then (IPACM_FAILURE, False)
      else if cfg_nat_ifaces env = [] then (IPACM_FAILURE, False)
      else
        (case ifname_of env (ev_if_index data) of
           None \<Rightarrow> (IPACM_FAILURE, False)
         | Some ifr_name \<Rightarrow> (0, ifr_name \<in> set (cfg_nat_ifaces env))))"

definition HandleNonNatIPAddr :: "'d ct_env \<Rightarrow> addr_event \<Rightarrow> bool \<Rightarrow> 'd ct_listener \<Rightarrow> 'd ct_listener" where
  "HandleNonNatIPAddr env data AddOp l =
     (if backhaul_mode l \<noteq> Q6_WAN then l
      else if AddOp then
        (case CheckNatIface env data of
           (ret, NatIface) \<Rightarrow>
             if \<not> NatIface \<and> ret = 0 then
               (case first_idx (\<lambda>a. a = 0) (nonnat_iface_ipv4_addr l) of
                  None \<Rightarrow> l
                | Some cnt \<Rightarrow>
                    nat_call (\<lambda>mhi. FlushTempEntries (ce_nat env) mhi (ev_ipv4_addr data) True True)
                      (l\<lparr>nonnat_iface_ipv4_addr := (nonnat_iface_ipv4_addr l)[cnt := ev_ipv4_addr data]\<rparr>))
             else l)
      else
        (case first_idx (\<lambda>a. a = ev_ipv4_addr data) (nonnat_iface_ipv4_addr l) of
           None \<Rightarrow> l
         | Some cnt \<Rightarrow>
             nat_call (\<lambda>mhi app. snd (DelEntriesOnClntDiscon (ce_nat env) mhi (ev_ipv4_addr data)
                 (FlushTempEntries (ce_nat env) mhi (ev_ipv4_addr data) False False app)))
               (l\<lparr>nonnat_iface_ipv4_addr := (nonnat_iface_ipv4_addr l)[cnt := 0]\<rparr>)))"

definition HandleNeighIpAddrAddEvt :: "'d ct_env \<Rightarrow> addr_event \<Rightarrow> 'd ct_listener \<Rightarrow> 'd ct_listener" where
  "HandleNeighIpAddrAddEvt env data l =
     (case CheckNatIface env data of
        (ret, NatIface) \<Rightarrow>
          if NatIface \<and> ret = 0 then
            (case first_idx (\<lambda>a. a = ev_ipv4_addr data \<or> a = 0) (nat_iface_ipv4_addr l) of
               None \<Rightarrow> l
             | Some j \<Rightarrow>
                 nat_call (\<lambda>mhi app. FlushTempEntries (ce_nat env) mhi (ev_ipv4_addr data) True False
                     (snd (ResetPwrSaveIf (ce_nat env) mhi (ev_ipv4_addr data) app)))
                   (l\<lparr>nat_iface_ipv4_addr := (nat_iface_ipv4_addr l)[j := ev_ipv4_addr data]\<rparr>))
          else l)"

text \<open>One iteration of the loop of \<open>HandleNeighIpAddrDelEvt\<close>, which has no \<open>break\<close>.\<close>

definition neigh_del_slot :: "'d ct_env \<Rightarrow> u32 \<Rightarrow> nat \<Rightarrow> 'd ct_listener \<Rightarrow> 'd ct_listener" where
  "neigh_del_slot env ipv4_addr cnt l =
     (if nat_iface_ipv4_addr l ! cnt = ipv4_addr then
        nat_call (\<lambda>mhi app. snd (DelEntriesOnClntDiscon (ce_nat env) mhi ipv4_addr
            (FlushTempEntries (ce_nat env) mhi ipv4_addr False False app)))
          (l\<lparr>nat_iface_ipv4_addr := (nat_iface_ipv4_addr l)[cnt := 0]\<rparr>)
      else l)"

definition HandleNeighIpAddrDelEvt :: "'d ct_env \<Rightarrow> u32 \<Rightarrow> 'd ct_listener \<Rightarrow> 'd ct_listener" where
  "HandleNeighIpAddrDelEvt env ipv4_addr l =
     (if ipv4_addr = 0 then l
      else fold (neigh_del_slot env ipv4_addr) [0..<length (nat_iface_ipv4_addr l)] l)"

section \<open>WAN and threads\<close>

definition TriggerWANDown :: "'d ct_env \<Rightarrow> u32 \<Rightarrow> 'd ct_listener \<Rightarrow> 'd ct_listener" where
  "TriggerWANDown env wan_addr l =
     (case nat_inst l of
        None \<Rightarrow> l
      | Some app \<Rightarrow>
          (case DeleteTable (ce_nat env) (backhaul_mode l = Q6_MHI_WAN) wan_addr app of
             (ret, app') \<Rightarrow>
               if ret \<noteq> 0 then l\<lparr>nat_inst := Some app'\<rparr>
               else l\<lparr>nat_inst := Some app', WanUp := False, wan_ipaddr := 0\<rparr>))"

definition CreateConnTrackThreads :: "'d ct_env \<Rightarrow> 'd ct_listener \<Rightarrow> int \<times> 'd ct_listener" where
  "CreateConnTrackThreads env l =
     (if \<not> isCTReg l then
        (if \<not> pthread_ok env TCP_listener then (- 1, l)
         else
           (let l = l\<lparr>threads := threads l @ [TCP_listener]\<rparr> in
            if \<not> pthread_ok env UDP_listener then (- 1, l)
            else (0, l\<lparr>threads := threads l @ [UDP_listener], isCTReg := True\<rparr>)))
      else (0, l))"

definition CreateNatThreads :: "'d ct_env \<Rightarrow> 'd ct_listener \<Rightarrow> int \<times> 'd ct_listener" where
  "CreateNatThreads env l =
     (if \<not> isNatThreadStart l then
        (if \<not> pthread_ok env UDP_timeout then (- 1, l)
         else (0, l\<lparr>threads := threads l @ [UDP_timeout], isNatThreadStart := True\<rparr>))
      else (0, l))"

text \<open>\<open>TriggerWANUp\<close> once an old address has been taken down.\<close>

definition wan_up_tail :: "'d ct_env \<Rightarrow> wan_event \<Rightarrow> 'd ct_listener \<Rightarrow> 'd ct_listener" where
  "wan_up_tail env data l =
     (let l = l\<lparr>WanUp := True, backhaul_mode := wan_backhaul_type data,
                wan_ipaddr := wan_ipv4_addr data, wan_ifname := wan_ifname_ev data\<rparr>;
          l = (case nat_inst l of
                 None \<Rightarrow> l
               | Some app \<Rightarrow>
                   (let mux_id = (if wan_mux_id data = 0 then wan_xlat_mux_id data else wan_mux_id data)
                    in l\<lparr>nat_inst := Some (snd (AddTable (ce_nat env) (backhaul_mode l = Q6_MHI_WAN)
                           (wan_ipv4_addr data) mux_id app))\<rparr>))
      in snd (CreateNatThreads env l))"

definition TriggerWANUp :: "'d ct_env \<Rightarrow> wan_event \<Rightarrow> 'd ct_listener \<Rightarrow> 'd ct_listener" where
  "TriggerWANUp env data l =
     (if wan_ipv4_addr data = 0 then l
      else if WanUp l then
        (if wan_ipaddr l \<noteq> wan_ipv4_addr data then wan_up_tail env data (TriggerWANDown env (wan_ipaddr l) l)
         else l)
      else wan_up_tail env data l)"

section \<open>Conntrack messages\<close>

definition isPrivateSubnet :: "'d ct_env \<Rightarrow> u32 \<Rightarrow> bool" where
  "isPrivateSubnet env ip_addr = list_ex (\<lambda>s. fst s = (snd s AND ip_addr)) (private_subnet_table env)"

text \<open>\<open>AddIface\<close>: the result, the rule it may have changed, and \<open>*isTempEntry\<close>.\<close>

definition AddIface :: "'d ct_env \<Rightarrow> 'd ct_listener \<Rightarrow> nat_entry \<Rightarrow> bool \<times> nat_entry \<times> bool" where
  "AddIface env l rule =
     (if ip_passthrough_mode env \<and> private_ip rule = wan_ip env then (True, rule, False)
      else if list_ex (\<lambda>a. a \<noteq> 0 \<and> (private_ip rule = a \<or> target_ip rule = a)) (nat_iface_ipv4_addr l)
      then (True, rule, False)
      else if backhaul_mode l = Q6_WAN \<and>
              list_ex (\<lambda>a. a \<noteq> 0 \<and> (private_ip rule = a \<or> target_ip rule = a)) (nonnat_iface_ipv4_addr l)
      then (True, rule\<lparr>private_ip := public_ip rule, private_port := public_port rule\<rparr>, False)
      else if isPrivateSubnet env (private_ip rule) \<or> isPrivateSubnet env (target_ip rule)
      then (True, rule, True)
      else (False, rule, False))"

definition PopulateTCPorUDPEntry :: "conntrack \<Rightarrow> u32 \<Rightarrow> nat_entry \<Rightarrow> nat_entry" where
  "PopulateTCPorUDPEntry ct status rule =
     (if status = IPS_DST_NAT then
        rule\<lparr>dst_nat := True, target_ip := htonl (orig_ipv4_src ct), target_port := ntohs (orig_port_src ct),
             public_port := ntohs (orig_port_dst ct), private_ip := htonl (repl_ipv4_src ct),
             private_port := ntohs (repl_port_src ct)\<rparr>
      else if status = IPS_SRC_NAT then
        rule\<lparr>dst_nat := False, target_ip := htonl (orig_ipv4_dst ct), target_port := ntohs (orig_port_dst ct),
             public_port := ntohs (repl_port_dst ct), private_ip := htonl (orig_ipv4_src ct),
             private_port := ntohs (orig_port_src ct)\<rparr>
      else rule)"

text \<open>\<open>CheckSTAClient\<close>: the new value of \<open>*isTempEntry\<close>. Only the first \<open>StaClntCnt\<close> slots are searched.\<close>

definition CheckSTAClient :: "'d ct_listener \<Rightarrow> nat_entry \<Rightarrow> bool \<Rightarrow> bool" where
  "CheckSTAClient l rule isTempEntry =
     (if backhaul_mode l = Q6_WAN \<or> StaClntCnt l = 0 then isTempEntry
      else if (sta_clnt_ipv4_addr l ! 0 AND STA_CLNT_SUBNET_MASK) \<noteq> (target_ip rule AND STA_CLNT_SUBNET_MASK)
      then isTempEntry
      else if target_ip rule \<in> set (take (nat (StaClntCnt l)) (sta_clnt_ipv4_addr l)) then isTempEntry
      else True)"

text \<open>The addition and the deletion \<open>AddORDeleteNatEntry\<close> chooses between.\<close>

definition add_nat_entry :: "'d ct_env \<Rightarrow> nat_entry \<Rightarrow> bool \<Rightarrow> 'd ct_listener \<Rightarrow> 'd ct_listener" where
  "add_nat_entry env rule isTempEntry l =
     nat_call (\<lambda>mhi app.
         if \<not> WanUp l then CacheEntry rule app
         else if isTempEntry then AddTempEntry (ce_nat env) rule app
         else snd (AddEntry (ce_nat env) mhi rule app)) l"

definition del_nat_entry :: "'d ct_env \<Rightarrow> nat_entry \<Rightarrow> 'd ct_listener \<Rightarrow> 'd ct_listener" where
  "del_nat_entry env rule l =
     nat_call (\<lambda>mhi app. DeleteTempEntry rule (snd (DeleteEntry (ce_nat env) mhi rule app))) l"

definition AddORDeleteNatEntry ::
  "'d ct_env \<Rightarrow> conntrack \<Rightarrow> nfct_type \<Rightarrow> nat_entry \<Rightarrow> bool \<Rightarrow> 'd ct_listener \<Rightarrow> 'd ct_listener" where
  "AddORDeleteNatEntry env ct type rule isTempEntry l =
     (if nat_inst l = None then l
      else if protocol rule = IPPROTO_TCP then
        (if ct_tcp_state ct = TCP_CONNTRACK_ESTABLISHED then add_nat_entry env rule isTempEntry l
         else if ct_tcp_state ct = TCP_CONNTRACK_FIN_WAIT \<or> type = NFCT_T_DESTROY then del_nat_entry env rule l
         else l)
      else if protocol rule = IPPROTO_UDP then
        (if type = NFCT_T_NEW then add_nat_entry env rule isTempEntry l
         else if type = NFCT_T_DESTROY then del_nat_entry env rule l
         else l)
      else l)"

text \<open>The NAT direction of a message; \<open>None\<close> is a message that is ignored.\<close>

definition nat_direction :: "'d ct_listener \<Rightarrow> conntrack \<Rightarrow> u32 option" where
  "nat_direction l ct =
     (if IPS_DST_NAT AND ct_status ct \<noteq> 0 then Some IPS_DST_NAT
      else if IPS_SRC_NAT AND ct_status ct \<noteq> 0 then Some IPS_SRC_NAT
      else if htonl (orig_ipv4_src ct) = 0 then None
      else if htonl (orig_ipv4_dst ct) = 0 then None
      else if htonl (orig_ipv4_src ct) = wan_ipaddr l then Some IPS_SRC_NAT
      else if htonl (orig_ipv4_dst ct) = wan_ipaddr l then Some IPS_DST_NAT
      else None)"

definition ProcessTCPorUDPMsg :: "'d ct_env \<Rightarrow> conntrack \<Rightarrow> nfct_type \<Rightarrow> 'd ct_listener \<Rightarrow> 'd ct_listener" where
  "ProcessTCPorUDPMsg env ct type l =
     (case nat_direction l ct of
        None \<Rightarrow> l
      | Some status \<Rightarrow>
          (let rule = (PopulateTCPorUDPEntry ct status (zero_entry\<lparr>protocol := repl_l4proto ct\<rparr>))
                        \<lparr>public_ip := wan_ipaddr l\<rparr>
           in if private_ip rule \<noteq> wan_ipaddr l then
                (case AddIface env l rule of
                   (isAdd, rule, isTempEntry) \<Rightarrow>
                     if \<not> isAdd then l
                     else AddORDeleteNatEntry env ct type rule (CheckSTAClient l rule isTempEntry) l)
              else if backhaul_mode l \<noteq> Q6_WAN then l
              else
                (let rule = rule\<lparr>private_port := public_port rule\<rparr>
                 in AddORDeleteNatEntry env ct type rule (CheckSTAClient l rule False) l)))"

definition ProcessCTMessage :: "'d ct_env \<Rightarrow> conntrack \<Rightarrow> nfct_type \<Rightarrow> 'd ct_listener \<Rightarrow> 'd ct_listener" where
  "ProcessCTMessage env ct type l =
     (if orig_l4proto ct \<noteq> IPPROTO_UDP \<and> orig_l4proto ct \<noteq> IPPROTO_TCP then l
      else ProcessTCPorUDPMsg env ct type l)"

section \<open>Clients of the station interface\<close>

definition HandleSTAClientAddEvt :: "'d ct_env \<Rightarrow> u32 \<Rightarrow> 'd ct_listener \<Rightarrow> 'd ct_listener" where
  "HandleSTAClientAddEvt env clnt_ip_addr l =
     (if StaClntCnt l \<ge> int MAX_STA_CLNT_IFACES then l
      else
        (let l = (case first_idx (\<lambda>a. (a \<noteq> 0 \<and> a = clnt_ip_addr) \<or> a = 0) (sta_clnt_ipv4_addr l) of
                    None \<Rightarrow> l
                  | Some cnt \<Rightarrow>
                      if sta_clnt_ipv4_addr l ! cnt \<noteq> 0 \<and> sta_clnt_ipv4_addr l ! cnt = clnt_ip_addr then l
                      else l\<lparr>sta_clnt_ipv4_addr := (sta_clnt_ipv4_addr l)[cnt := clnt_ip_addr],
                             StaClntCnt := StaClntCnt l + 1\<rparr>)
         in nat_call (\<lambda>mhi. FlushTempEntries (ce_nat env) mhi clnt_ip_addr True False) l))"

definition HandleSTAClientDelEvt :: "'d ct_env \<Rightarrow> u32 \<Rightarrow> 'd ct_listener \<Rightarrow> 'd ct_listener" where
  "HandleSTAClientDelEvt env clnt_ip_addr l =
     (let l = (case first_idx (\<lambda>a. a \<noteq> 0 \<and> a = clnt_ip_addr) (sta_clnt_ipv4_addr l) of
                 None \<Rightarrow> l
               | Some cnt \<Rightarrow>
                   (let l = nat_call (\<lambda>mhi app. snd (DelEntriesOnSTAClntDiscon (ce_nat env) mhi clnt_ip_addr app))
                              (l\<lparr>sta_clnt_ipv4_addr := (sta_clnt_ipv4_addr l)[cnt := 0]\<rparr>)
                    in l\<lparr>StaClntCnt := StaClntCnt l - 1\<rparr>))
      in nat_call (\<lambda>mhi. FlushTempEntries (ce_nat env) mhi clnt_ip_addr False False) l)"

section \<open>The connections that exist at start-up\<close>

definition isLocalHostAddr :: "u32 \<Rightarrow> u32 \<Rightarrow> bool" where
  "isLocalHostAddr src_ip_addr dst_ip_addr \<longleftrightarrow>
     (htonl src_ip_addr AND 0xFF000000) = 0x7F000000 \<or> (htonl dst_ip_addr AND 0xFF000000) = 0x7F000000"

text \<open>
  The loop of \<open>processConntrack\<close> over what is left of the array, which it leaves at the first
  null pointer.
\<close>

fun process_entries :: "'d ct_env \<Rightarrow> conntrack option list \<Rightarrow> 'd ct_listener \<Rightarrow> 'd ct_listener" where
  "process_entries env [] l = l\<lparr>ct_ub := True\<rparr>"
| "process_entries env (None # es) l = l"
| "process_entries env (Some ct # es) l =
     process_entries env es
       (if \<not> ct_is_ipv6 ct \<and> isLocalHostAddr (orig_ipv4_src ct) (orig_ipv4_dst ct) then l
        else if ct_is_ipv6 ct then l
        else ProcessCTMessage env ct NFCT_T_ALL l)"

definition processConntrack :: "'d ct_env \<Rightarrow> 'd ct_listener \<Rightarrow> 'd ct_listener" where
  "processConntrack env l =
     (case ct_entries l of
        None \<Rightarrow> l
      | Some es \<Rightarrow> (process_entries env es l)\<lparr>isProcessCTDone := True\<rparr>)"

text \<open>
  One \<open>recvfrom\<close>: it fails, gives an invalid header, or gives a message with its
  \<open>nlmsg_type\<close>; for the message, \<open>nfct_new\<close> fails, parsing fails, or it gives an entry.
\<close>

datatype ct_recv =
    Recv_failed
  | Recv_invalid
  | Recv_no_memory
  | Recv_parse_error (recv_bytes: nat) (nlmsg_type: u16)
  | Recv_entry (recv_bytes: nat) (nlmsg_type: u16) conntrack

definition CT_ENTRIES_BUFFER_SIZE :: nat where "CT_ENTRIES_BUFFER_SIZE = 8096"

definition MAX_CONNTRACK_ENTRIES :: nat where "MAX_CONNTRACK_ENTRIES = 100"

definition NLM_F_MULTI :: u16 where "NLM_F_MULTI = 2"

text \<open>The loop of \<open>readConntrack\<close>: the entries stored after those of \<open>acc\<close>.\<close>

fun read_loop :: "ct_recv list \<Rightarrow> nat \<Rightarrow> conntrack list \<Rightarrow> conntrack list" where
  "read_loop [] len_fil acc = acc"
| "read_loop (r # rs) len_fil acc =
     (if len_fil < CT_ENTRIES_BUFFER_SIZE \<and> length acc < MAX_CONNTRACK_ENTRIES then
        (case r of
           Recv_failed \<Rightarrow> acc
         | Recv_invalid \<Rightarrow> acc
         | Recv_no_memory \<Rightarrow> read_loop rs len_fil acc
         | Recv_parse_error n t \<Rightarrow>
             if t AND NLM_F_MULTI = 0 then acc else read_loop rs (len_fil + n) acc
         | Recv_entry n t ct \<Rightarrow>
             if t AND NLM_F_MULTI = 0 then acc @ [ct] else read_loop rs (len_fil + n) (acc @ [ct]))
      else acc)"

definition readConntrack :: "'d ct_env \<Rightarrow> bool \<Rightarrow> ct_recv list \<Rightarrow> 'd ct_listener \<Rightarrow> 'd ct_listener" where
  "readConntrack env fd_valid rs l =
     (let l = l\<lparr>ct_entries := Some (replicate MAX_CONNTRACK_ENTRIES None)\<rparr> in
      if \<not> fd_valid then l
      else
        (let es = read_loop rs 0 [];
             l = l\<lparr>ct_entries := Some (map Some es @ replicate (MAX_CONNTRACK_ENTRIES - length es) None),
                   isReadCTDone := True\<rparr>
         in if WanUp l \<and> \<not> isProcessCTDone l then processConntrack env l else l))"

section \<open>Events\<close>

datatype ct_event =
    PROCESS_CT_MESSAGE conntrack nfct_type
  | HANDLE_WAN_UP wan_event
  | HANDLE_WAN_DOWN u32
  | HANDLE_LAN_UP
  | NEIGH_CLIENT_IP_ADDR_ADD addr_event
  | NEIGH_CLIENT_IP_ADDR_DEL addr_event

text \<open>
  \<open>event_callback\<close>, with the data present. The filters it updates when a LAN interface comes up
  belong to the conntrack client.
\<close>

definition ct_event_callback :: "'d ct_env \<Rightarrow> ct_event \<Rightarrow> 'd ct_listener \<Rightarrow> 'd ct_listener" where
  "ct_event_callback env evt l =
     (case evt of
        PROCESS_CT_MESSAGE ct type \<Rightarrow> ProcessCTMessage env ct type l
      | HANDLE_WAN_UP data \<Rightarrow>
          (let l = TriggerWANUp env data (snd (CreateConnTrackThreads env l))
           in if isReadCTDone l \<and> \<not> isProcessCTDone l then processConntrack env l else l)
      | HANDLE_WAN_DOWN addr \<Rightarrow> if WanUp l then TriggerWANDown env addr l else l
      | HANDLE_LAN_UP \<Rightarrow> if WanUp l then snd (CreateConnTrackThreads env l) else l
      | NEIGH_CLIENT_IP_ADDR_ADD data \<Rightarrow> HandleNonNatIPAddr env data True l
      | NEIGH_CLIENT_IP_ADDR_DEL data \<Rightarrow> HandleNonNatIPAddr env data False l)"

section \<open>Invariant\<close>

text \<open>
  The listener's part of the invariant, around an invariant \<open>I w app\<close> of the NAT application and
  the WAN address \<open>w\<close>: there is a table only while WAN is up, and all arrays keep their size.
\<close>

definition sta_count_ok :: "'d ct_listener \<Rightarrow> bool" where
  "sta_count_ok l \<longleftrightarrow>
     length (sta_clnt_ipv4_addr l) = MAX_STA_CLNT_IFACES \<and>
     StaClntCnt l = int (slots_where (\<lambda>a. a \<noteq> 0) (sta_clnt_ipv4_addr l))"

definition listener_inv :: "(u32 \<Rightarrow> 'd natapp \<Rightarrow> bool) \<Rightarrow> 'd ct_listener \<Rightarrow> bool" where
  "listener_inv I l \<longleftrightarrow>
     (\<forall>app. nat_inst l = Some app \<longrightarrow> I (wan_ipaddr l) app \<and> (WanUp l \<or> nat_table_hdl app = 0)) \<and>
     length (nat_iface_ipv4_addr l) = MAX_IFACE_ADDRESS \<and>
     length (nonnat_iface_ipv4_addr l) = MAX_IFACE_ADDRESS \<and>
     (\<forall>es. ct_entries l = Some es \<longrightarrow> length es = MAX_CONNTRACK_ENTRIES) \<and>
     sta_count_ok l"

definition listener_ok :: "'d ct_listener \<Rightarrow> bool" where
  "listener_ok = listener_inv (\<lambda>_. natapp_ok)"

lemma listener_ok_iff:
  "listener_ok l \<longleftrightarrow>
     (\<forall>app. nat_inst l = Some app \<longrightarrow> natapp_ok app \<and> (WanUp l \<or> nat_table_hdl app = 0)) \<and>
     length (nat_iface_ipv4_addr l) = MAX_IFACE_ADDRESS \<and>
     length (nonnat_iface_ipv4_addr l) = MAX_IFACE_ADDRESS \<and>
     (\<forall>es. ct_entries l = Some es \<longrightarrow> length es = MAX_CONNTRACK_ENTRIES) \<and>
     sta_count_ok l"
  by (simp add: listener_ok_def listener_inv_def)

lemma hdl_AddEntry [simp]: "nat_table_hdl (snd (AddEntry env mhi rule app)) = nat_table_hdl app"
  by (simp add: AddEntry_def Let_def split: option.split prod.split)

lemma hdl_entry_ops [simp]:
  "nat_table_hdl (snd (DeleteEntry env mhi rule app)) = nat_table_hdl app"
  "nat_table_hdl (CacheEntry rule app) = nat_table_hdl app"
  "nat_table_hdl (AddTempEntry env rule app) = nat_table_hdl app"
  "nat_table_hdl (DeleteTempEntry rule app) = nat_table_hdl app"
  "nat_table_hdl (snd (ResetPwrSaveIf env mhi ip app)) = nat_table_hdl app"
  "nat_table_hdl (snd (DelEntriesOnClntDiscon env mhi ip app)) = nat_table_hdl app"
  "nat_table_hdl (snd (DelEntriesOnSTAClntDiscon env mhi ip app)) = nat_table_hdl app"
  by (simp_all add: DeleteEntry_def CacheEntry_def AddTempEntry_def DeleteTempEntry_def
    ResetPwrSaveIf_def DelEntriesOnClntDiscon_def DelEntriesOnSTAClntDiscon_def Let_def split: option.split)

lemma hdl_flush_slot: "nat_table_hdl (flush_temp_slot env mhi ip add dummy cnt app) = nat_table_hdl app"
proof -
  define t where "t = (if dummy then (temp app ! cnt)\<lparr>private_ip := public_ip (temp app ! cnt),
    private_port := public_port (temp app ! cnt)\<rparr> else temp app ! cnt)"
  let ?add = "AddEntry env mhi t (app\<lparr>temp := (temp app)[cnt := t]\<rparr>)"
  have "nat_table_hdl (snd ?add) = nat_table_hdl app" by simp
  then show ?thesis
    unfolding flush_temp_slot_def Let_def t_def [symmetric] by (cases ?add) simp
qed

lemma hdl_FlushTempEntries [simp]:
  "nat_table_hdl (FlushTempEntries env mhi ip add dummy app) = nat_table_hdl app"
  unfolding FlushTempEntries_def
  by (rule fold_upt_invariant [where I = "\<lambda>a. nat_table_hdl a = nat_table_hdl app"]) (simp_all add: hdl_flush_slot)

lemma hdl_DeleteTable:
  "DeleteTable env mhi ip app = (ret, app') \<Longrightarrow> nat_table_hdl app' = (if ret = 0 then 0 else nat_table_hdl app)"
  by (auto simp: DeleteTable_def Let_def Reset_def split: if_splits prod.splits)

lemma DeleteEntry_keeps: "natapp_ok app \<Longrightarrow> \<not> slot_free rule \<Longrightarrow> natapp_ok (snd (DeleteEntry env mhi rule app))"
  using DeleteEntry_spec(1) by (metis prod.collapse)

lemma AddEntry_keeps: "natapp_ok app \<Longrightarrow> natapp_ok (snd (AddEntry env mhi rule app))"
  using AddEntry_ok by (metis prod.collapse)

lemma nat_call_fields [simp]:
  "nat_iface_ipv4_addr (nat_call f l) = nat_iface_ipv4_addr l" "sta_clnt_ipv4_addr (nat_call f l) = sta_clnt_ipv4_addr l"
  "StaClntCnt (nat_call f l) = StaClntCnt l" "WanUp (nat_call f l) = WanUp l"
  "ct_entries (nat_call f l) = ct_entries l" "backhaul_mode (nat_call f l) = backhaul_mode l"
  "isProcessCTDone (nat_call f l) = isProcessCTDone l" "threads (nat_call f l) = threads l"
  "wan_ipaddr (nat_call f l) = wan_ipaddr l"
  by (simp_all add: nat_call_def split: option.split)

lemma protocol_used: "protocol rule = IPPROTO_TCP \<or> protocol rule = IPPROTO_UDP \<Longrightarrow> \<not> slot_free rule"
  by (auto simp: slot_free_def IPPROTO_TCP_def IPPROTO_UDP_def)

lemma read_loop_length: "length acc \<le> MAX_CONNTRACK_ENTRIES \<Longrightarrow> length (read_loop rs n acc) \<le> MAX_CONNTRACK_ENTRIES"
  by (induction rs n acc rule: read_loop.induct) (auto split: ct_recv.split)

section \<open>What the listener relies on\<close>

text \<open>
  The contract of the NAT application towards the listener: every call, in the situations in which
  the listener makes it, keeps \<open>I w\<close>, and the two calls for the table move it to another WAN address.
\<close>

definition conn_proto :: "nat_entry \<Rightarrow> bool" where
  "conn_proto rule \<longleftrightarrow> protocol rule = IPPROTO_TCP \<or> protocol rule = IPPROTO_UDP"

locale nat_application =
  fixes I :: "u32 \<Rightarrow> 'd natapp \<Rightarrow> bool" and envs :: "'d nat_env \<Rightarrow> bool"
  assumes flush: "envs env \<Longrightarrow> I w app \<Longrightarrow> I w (FlushTempEntries env mhi ip add dummy app)"
    and wake: "envs env \<Longrightarrow> I w app \<Longrightarrow> I w (snd (ResetPwrSaveIf env mhi ip app))"
    and client_gone: "envs env \<Longrightarrow> I w app \<Longrightarrow> I w (snd (DelEntriesOnClntDiscon env mhi ip app))"
    and sta_gone: "envs env \<Longrightarrow> I w app \<Longrightarrow> I w (snd (DelEntriesOnSTAClntDiscon env mhi ip app))"
    and cache_entry: "conn_proto rule \<Longrightarrow> I w app \<Longrightarrow> I w (CacheEntry rule app)"
    and add_temp: "envs env \<Longrightarrow> conn_proto rule \<Longrightarrow> I w app \<Longrightarrow> I w (AddTempEntry env rule app)"
    and delete_temp: "I w app \<Longrightarrow> I w (DeleteTempEntry rule app)"
    and add_entry: "envs env \<Longrightarrow> conn_proto rule \<Longrightarrow> I w app \<Longrightarrow> I w (snd (AddEntry env mhi rule app))"
    and delete_entry: "envs env \<Longrightarrow> conn_proto rule \<Longrightarrow> I w app \<Longrightarrow> I w (snd (DeleteEntry env mhi rule app))"
    and up: "envs env \<Longrightarrow> ip \<noteq> 0 \<Longrightarrow> I w app \<Longrightarrow> nat_table_hdl app = 0 \<Longrightarrow> I ip (snd (AddTable env mhi ip mux app))"
    and switch: "envs env \<Longrightarrow> envs env' \<Longrightarrow> ip \<noteq> 0 \<Longrightarrow> I w app \<Longrightarrow>
      I ip (snd (AddTable env' mhi' ip mux (snd (DeleteTable env mhi w app))))"
    and down: "envs env \<Longrightarrow> I w app \<Longrightarrow> DeleteTable env mhi ip app = (0, app') \<Longrightarrow> I 0 app'"
    and down_refused: "envs env \<Longrightarrow> I w app \<Longrightarrow> DeleteTable env mhi ip app = (ret, app') \<Longrightarrow> ret \<noteq> 0 \<Longrightarrow> I w app'"
begin

definition keeps :: "(bool \<Rightarrow> 'd natapp \<Rightarrow> 'd natapp) \<Rightarrow> bool" where
  "keeps f \<longleftrightarrow>
     (\<forall>mhi w app. I w app \<longrightarrow> I w (f mhi app) \<and> nat_table_hdl (f mhi app) = nat_table_hdl app)"

lemma nat_call_inv: "keeps f \<Longrightarrow> listener_inv I l \<Longrightarrow> listener_inv I (nat_call f l)"
  by (auto simp: nat_call_def listener_inv_def keeps_def sta_count_ok_def split: option.split)

lemmas keeps_ops = flush wake client_gone sta_gone cache_entry add_temp delete_temp add_entry delete_entry

lemma flush_and_drop_keeps:
  "envs env \<Longrightarrow> keeps (\<lambda>mhi app. snd (DelEntriesOnClntDiscon env mhi ip (FlushTempEntries env mhi ip add dummy app)))"
  by (simp add: keeps_def keeps_ops)

lemma flush_keeps: "envs env \<Longrightarrow> keeps (\<lambda>mhi. FlushTempEntries env mhi ip add dummy)"
  by (simp add: keeps_def keeps_ops)

lemma set_addr_inv:
  "listener_inv I l \<Longrightarrow> listener_inv I (l\<lparr>nonnat_iface_ipv4_addr := (nonnat_iface_ipv4_addr l)[i := a]\<rparr>)"
  "listener_inv I l \<Longrightarrow> listener_inv I (l\<lparr>nat_iface_ipv4_addr := (nat_iface_ipv4_addr l)[i := a]\<rparr>)"
  by (simp_all add: listener_inv_def sta_count_ok_def)

lemma HandleNonNatIPAddr_inv: "envs (ce_nat env) \<Longrightarrow> listener_inv I l \<Longrightarrow> listener_inv I (HandleNonNatIPAddr env data op l)"
  by (simp add: HandleNonNatIPAddr_def nat_call_inv flush_keeps flush_and_drop_keeps set_addr_inv
    split: prod.split option.split)

lemma wake_and_flush_keeps:
  "envs env \<Longrightarrow> keeps (\<lambda>mhi app. FlushTempEntries env mhi ip add dummy (snd (ResetPwrSaveIf env mhi ip app)))"
  by (simp add: keeps_def keeps_ops)

lemma HandleNeighIpAddrAddEvt_inv:
  "envs (ce_nat env) \<Longrightarrow> listener_inv I l \<Longrightarrow> listener_inv I (HandleNeighIpAddrAddEvt env data l)"
  by (simp add: HandleNeighIpAddrAddEvt_def nat_call_inv wake_and_flush_keeps set_addr_inv
    split: prod.split option.split)

lemma neigh_del_slot_inv: "envs (ce_nat env) \<Longrightarrow> listener_inv I l \<Longrightarrow> listener_inv I (neigh_del_slot env ip cnt l)"
  by (simp add: neigh_del_slot_def nat_call_inv flush_and_drop_keeps set_addr_inv)

lemma HandleNeighIpAddrDelEvt_inv:
  "envs (ce_nat env) \<Longrightarrow> listener_inv I l \<Longrightarrow> listener_inv I (HandleNeighIpAddrDelEvt env ip l)"
  unfolding HandleNeighIpAddrDelEvt_def
  by (auto intro!: fold_upt_invariant neigh_del_slot_inv)

lemma HandleSTAClientAddEvt_inv:
  assumes env: "envs (ce_nat env)" and ok: "listener_inv I l" and ip: "ip \<noteq> 0"
  shows "listener_inv I (HandleSTAClientAddEvt env ip l)"
proof -
  have "listener_inv I (l\<lparr>sta_clnt_ipv4_addr := (sta_clnt_ipv4_addr l)[cnt := ip], StaClntCnt := StaClntCnt l + 1\<rparr>)"
    if "first_idx (\<lambda>a. (a \<noteq> 0 \<and> a = ip) \<or> a = 0) (sta_clnt_ipv4_addr l) = Some cnt"
      "\<not> (sta_clnt_ipv4_addr l ! cnt \<noteq> 0 \<and> sta_clnt_ipv4_addr l ! cnt = ip)" for cnt
  proof -
    from first_idx_SomeD [OF that(1)] that(2) have "cnt < length (sta_clnt_ipv4_addr l)" "sta_clnt_ipv4_addr l ! cnt = 0"
      by auto
    with ok ip show ?thesis by (simp add: listener_inv_def sta_count_ok_def slots_where_update)
  qed
  with ok env show ?thesis
    by (auto simp: HandleSTAClientAddEvt_def Let_def split: option.split
      intro!: nat_call_inv flush_keeps simp del: first_idx_None_iff)
qed

lemma HandleSTAClientDelEvt_inv:
  assumes env: "envs (ce_nat env)" and ok: "listener_inv I l" and ip: "ip \<noteq> 0"
  shows "listener_inv I (HandleSTAClientDelEvt env ip l)"
proof -
  let ?drop = "\<lambda>mhi app. snd (DelEntriesOnSTAClntDiscon (ce_nat env) mhi ip app)"
  have "listener_inv I ((nat_call ?drop l')\<lparr>StaClntCnt := StaClntCnt l - 1\<rparr>)"
    if cnt: "first_idx (\<lambda>a. a \<noteq> 0 \<and> a = ip) (sta_clnt_ipv4_addr l) = Some cnt"
      and l': "l' = l\<lparr>sta_clnt_ipv4_addr := (sta_clnt_ipv4_addr l)[cnt := 0]\<rparr>" for cnt l'
  proof -
    from first_idx_SomeD(1,2) [OF cnt] ok ip have "sta_count_ok (l'\<lparr>StaClntCnt := StaClntCnt l - 1\<rparr>)"
      by (simp add: l' listener_inv_def sta_count_ok_def slots_where_update)
    moreover have "keeps ?drop" using env by (simp add: keeps_def keeps_ops)
    ultimately show ?thesis using ok
      by (auto simp: listener_inv_def nat_call_def keeps_def sta_count_ok_def l' split: option.split)
  qed
  with ok env show ?thesis
    by (auto simp: HandleSTAClientDelEvt_def Let_def split: option.split intro!: nat_call_inv flush_keeps)
qed

lemma threads_inv: "listener_inv I (l\<lparr>threads := ts\<rparr>) = listener_inv I l"
  "listener_inv I (l\<lparr>threads := ts, isCTReg := r\<rparr>) = listener_inv I l"
  "listener_inv I (l\<lparr>threads := ts, isNatThreadStart := r\<rparr>) = listener_inv I l"
  by (simp_all add: listener_inv_def sta_count_ok_def)

lemma create_threads_inv:
  "listener_inv I l \<Longrightarrow> listener_inv I (snd (CreateConnTrackThreads env l))"
  "listener_inv I l \<Longrightarrow> listener_inv I (snd (CreateNatThreads env l))"
  by (simp_all add: CreateConnTrackThreads_def CreateNatThreads_def Let_def threads_inv)

lemma TriggerWANDown_inv:
  assumes env: "envs (ce_nat env)" and ok: "listener_inv I l"
  shows "listener_inv I (TriggerWANDown env ip l)"
proof (cases "nat_inst l")
  case None
  then show ?thesis using ok by (simp add: TriggerWANDown_def)
next
  case (Some app)
  obtain ret app' where d: "DeleteTable (ce_nat env) (backhaul_mode l = Q6_MHI_WAN) ip app = (ret, app')" by fastforce
  have "I (wan_ipaddr l) app" using ok Some by (simp add: listener_inv_def)
  then show ?thesis
    using ok Some d hdl_DeleteTable [OF d] down [OF env] down_refused [OF env _ d]
    by (cases "ret = 0") (auto simp: TriggerWANDown_def listener_inv_def sta_count_ok_def)
qed

lemma wan_up_tail_inv:
  assumes rest: "length (nat_iface_ipv4_addr l) = MAX_IFACE_ADDRESS"
      "length (nonnat_iface_ipv4_addr l) = MAX_IFACE_ADDRESS"
      "\<forall>es. ct_entries l = Some es \<longrightarrow> length es = MAX_CONNTRACK_ENTRIES" "sta_count_ok l"
    and up: "\<And>app mhi mux. nat_inst l = Some app \<Longrightarrow> I (wan_ipv4_addr data) (snd (AddTable (ce_nat env) mhi (wan_ipv4_addr data) mux app))"
  shows "listener_inv I (wan_up_tail env data l)"
  unfolding wan_up_tail_def Let_def
  by (rule create_threads_inv) (use rest up in \<open>auto simp: listener_inv_def sta_count_ok_def split: option.split\<close>)

lemma TriggerWANUp_inv:
  assumes env: "envs (ce_nat env)" and ok: "listener_inv I l"
  shows "listener_inv I (TriggerWANUp env data l)"
proof (cases "wan_ipv4_addr data = 0 \<or> WanUp l \<and> wan_ipaddr l = wan_ipv4_addr data")
  case True
  then show ?thesis using ok by (auto simp: TriggerWANUp_def)
next
  case False
  then have ip: "wan_ipv4_addr data \<noteq> 0" by simp
  let ?l = "if WanUp l then TriggerWANDown env (wan_ipaddr l) l else l"
  have up': "I (wan_ipv4_addr data) (snd (AddTable (ce_nat env) mhi (wan_ipv4_addr data) mux app))"
    if n: "nat_inst ?l = Some app" for app mhi mux
  proof (cases "WanUp l")
    case True
    then obtain app0 where a: "nat_inst l = Some app0" "I (wan_ipaddr l) app0"
      using n ok True by (cases "nat_inst l") (simp_all add: TriggerWANDown_def listener_inv_def)
    then have "app = snd (DeleteTable (ce_nat env) (backhaul_mode l = Q6_MHI_WAN) (wan_ipaddr l) app0)"
      using n True by (auto simp: TriggerWANDown_def split: prod.splits if_splits)
    then show ?thesis using switch [OF env env ip a(2)] by simp
  next
    case False
    then have "I (wan_ipaddr l) app" "nat_table_hdl app = 0" using n False ok by (auto simp: listener_inv_def)
    then show ?thesis by (rule up [OF env ip])
  qed
  have "listener_inv I ?l" using TriggerWANDown_inv [OF env ok] ok by simp
  then have "listener_inv I (wan_up_tail env data ?l)"
    by (intro wan_up_tail_inv up') (auto simp: listener_inv_def)
  then show ?thesis using False by (auto simp: TriggerWANUp_def)
qed

lemma add_nat_entry_inv:
  "envs (ce_nat env) \<Longrightarrow> conn_proto rule \<Longrightarrow> listener_inv I l \<Longrightarrow> listener_inv I (add_nat_entry env rule tmp l)"
  unfolding add_nat_entry_def by (rule nat_call_inv) (simp_all add: keeps_def keeps_ops)

lemma del_nat_entry_inv:
  "envs (ce_nat env) \<Longrightarrow> conn_proto rule \<Longrightarrow> listener_inv I l \<Longrightarrow> listener_inv I (del_nat_entry env rule l)"
  unfolding del_nat_entry_def by (rule nat_call_inv) (simp_all add: keeps_def keeps_ops)

lemma AddORDeleteNatEntry_inv:
  "envs (ce_nat env) \<Longrightarrow> listener_inv I l \<Longrightarrow> listener_inv I (AddORDeleteNatEntry env ct type rule tmp l)"
  by (simp add: AddORDeleteNatEntry_def add_nat_entry_inv del_nat_entry_inv conn_proto_def)

lemma ProcessCTMessage_inv:
  "envs (ce_nat env) \<Longrightarrow> listener_inv I l \<Longrightarrow> listener_inv I (ProcessCTMessage env ct type l)"
  by (simp add: ProcessCTMessage_def ProcessTCPorUDPMsg_def Let_def AddORDeleteNatEntry_inv
    split: option.split prod.split)

lemma process_entries_inv:
  "envs (ce_nat env) \<Longrightarrow> listener_inv I l \<Longrightarrow> listener_inv I (process_entries env es l)"
proof (induction env es l rule: process_entries.induct)
  case (1 env l)
  then show ?case by (simp add: listener_inv_def sta_count_ok_def)
next
  case (3 env ct es l)
  from 3(2,3) have "listener_inv I (if \<not> ct_is_ipv6 ct \<and> isLocalHostAddr (orig_ipv4_src ct) (orig_ipv4_dst ct) then l
      else if ct_is_ipv6 ct then l else ProcessCTMessage env ct NFCT_T_ALL l)"
    by (simp add: ProcessCTMessage_inv)
  from 3(1) [OF 3(2) this] show ?case unfolding process_entries.simps .
qed simp

lemma processConntrack_inv:
  "envs (ce_nat env) \<Longrightarrow> listener_inv I l \<Longrightarrow> listener_inv I (processConntrack env l)"
proof -
  assume ok: "envs (ce_nat env)" "listener_inv I l"
  have "listener_inv I (l'\<lparr>isProcessCTDone := b\<rparr>) = listener_inv I l'" for l' b
    by (simp add: listener_inv_def sta_count_ok_def)
  with ok show ?thesis by (simp add: processConntrack_def process_entries_inv split: option.split)
qed

lemma readConntrack_inv:
  "envs (ce_nat env) \<Longrightarrow> listener_inv I l \<Longrightarrow> listener_inv I (readConntrack env fd rs l)"
proof -
  assume ok: "envs (ce_nat env)" "listener_inv I l"
  have "listener_inv I (l\<lparr>ct_entries := Some (replicate MAX_CONNTRACK_ENTRIES None)\<rparr>)"
    "listener_inv I (l\<lparr>ct_entries := Some (map Some (read_loop rs 0 []) @
       replicate (MAX_CONNTRACK_ENTRIES - length (read_loop rs 0 [])) None), isReadCTDone := True\<rparr>)"
    using ok read_loop_length [of "[]" rs 0] by (auto simp: listener_inv_def sta_count_ok_def)
  then show ?thesis using ok by (simp add: readConntrack_def Let_def processConntrack_inv)
qed

lemma ct_event_callback_inv:
  "envs (ce_nat env) \<Longrightarrow> listener_inv I l \<Longrightarrow> listener_inv I (ct_event_callback env evt l)"
  by (simp add: ct_event_callback_def Let_def ProcessCTMessage_inv TriggerWANUp_inv create_threads_inv
    processConntrack_inv TriggerWANDown_inv HandleNonNatIPAddr_inv split: ct_event.split)

end

text \<open>The consistency of the cache is kept whatever the driver answers.\<close>

lemma DeleteTable_keeps: "DeleteTable env mhi ip app = (ret, app') \<Longrightarrow> natapp_ok app \<Longrightarrow> natapp_ok app'"
  using DeleteTable_ok [of app env mhi ip] by simp

interpretation natapp: nat_application "\<lambda>_. natapp_ok" "\<lambda>_. True"
  by unfold_locales (auto simp: FlushTempEntries_ok pwr_ops_ok temp_ops_ok AddEntry_keeps DeleteEntry_keeps
    CacheEntry_spec AddTable_ok DeleteTable_ok conn_proto_def protocol_used dest: DeleteTable_keeps)

lemma ProcessCTMessage_ok: "listener_ok l \<Longrightarrow> listener_ok (ProcessCTMessage env ct type l)"
  by (simp add: listener_ok_def natapp.ProcessCTMessage_inv)

text \<open>
  Every call of the listener; what its environment answers may change from one to the next. The
  station interface reports clients with a non-zero address only.
\<close>

inductive listener_step :: "'d ct_listener \<Rightarrow> 'd ct_listener \<Rightarrow> bool" where
  event: "listener_step l (ct_event_callback env evt l)"
| neigh_add: "listener_step l (HandleNeighIpAddrAddEvt env data l)"
| neigh_del: "listener_step l (HandleNeighIpAddrDelEvt env ip l)"
| sta_add: "ip \<noteq> 0 \<Longrightarrow> listener_step l (HandleSTAClientAddEvt env ip l)"
| sta_del: "ip \<noteq> 0 \<Longrightarrow> listener_step l (HandleSTAClientDelEvt env ip l)"
| read: "listener_step l (readConntrack env fd rs l)"
| threads: "listener_step l (snd (CreateConnTrackThreads env l))"

inductive listener_reachable :: "'d ct_listener \<Rightarrow> bool" where
  start: "(\<forall>app. inst = Some app \<longrightarrow> (\<exists>n d m t u ps. app = NatApp_new n d m t u ps)) \<Longrightarrow>
    listener_reachable (ct_listener_new inst n ip m)"
| step: "listener_reachable l \<Longrightarrow> listener_step l l' \<Longrightarrow> listener_reachable l'"

lemma listener_new_ok:
  assumes "\<forall>app. inst = Some app \<longrightarrow> (\<exists>n d m t u ps. app = NatApp_new n d m t u ps)"
  shows "listener_ok (ct_listener_new inst n ip m)"
proof -
  have "natapp_ok app \<and> nat_table_hdl app = 0" if "inst = Some app" for app
    using assms that NatApp_new_ok by (fastforce simp: NatApp_new_def)
  then show ?thesis
    by (auto simp: listener_ok_iff ct_listener_new_def sta_count_ok_def slots_where_def)
qed

lemma listener_reachable_ok: "listener_reachable l \<Longrightarrow> listener_ok l"
proof (induction rule: listener_reachable.induct)
  case (start inst n ip m)
  then show ?case by (rule listener_new_ok)
next
  case (step l l')
  from step.hyps(2) step.IH show ?case
    by (induction rule: listener_step.induct)
      (simp_all add: listener_ok_def natapp.ct_event_callback_inv natapp.HandleNeighIpAddrAddEvt_inv
        natapp.HandleNeighIpAddrDelEvt_inv natapp.HandleSTAClientAddEvt_inv natapp.HandleSTAClientDelEvt_inv
        natapp.readConntrack_inv natapp.create_threads_inv)
qed

section \<open>Properties\<close>

text \<open>
  An environment for examples and a listener whose WAN came up on address 99, with a NAT
  interface address 10.
\<close>

definition ct_env_1 :: "(u32 list \<times> u32) ct_env" where
  "ct_env_1 = \<lparr>ce_nat = list_env, cfg_nat_ifaces = [''wlan0''], ifname_of = (\<lambda>i. Some ''wlan0''),
     private_subnet_table = [(0xC0A80000, 0xFFFF0000)], ip_passthrough_mode = False, wan_ip = 99,
     pthread_ok = (\<lambda>t. True)\<rparr>"

definition wan_up_1 :: wan_event where
  "wan_up_1 = \<lparr>wan_ifname_ev = ''rmnet0'', wan_ipv4_addr = 99, wan_mux_id = 0, wan_xlat_mux_id = 3,
     wan_backhaul_type = Q6_WAN\<rparr>"

definition ct_up :: "(u32 list \<times> u32) ct_listener" where
  "ct_up = HandleNeighIpAddrAddEvt ct_env_1 \<lparr>ev_is_ipv4 = True, ev_ipv4_addr = 10, ev_if_index = 4\<rparr>
     (ct_event_callback ct_env_1 (HANDLE_WAN_UP wan_up_1)
       (ct_listener_new (Some app_0) [] 0 Q6_WAN))"

text \<open>A TCP connection from 10:1000 to 20:80, in network order, with source NAT to port 5000.\<close>

definition tcp_ct :: conntrack where
  "tcp_ct = \<lparr>ct_is_ipv6 = False, orig_l4proto = 6, repl_l4proto = 6, ct_status = 0x10,
     ct_tcp_state = TCP_CONNTRACK_ESTABLISHED, orig_ipv4_src = htonl 10, orig_ipv4_dst = htonl 20,
     repl_ipv4_src = htonl 20, orig_port_src = ntohs 1000, orig_port_dst = ntohs 80,
     repl_port_src = ntohs 80, repl_port_dst = ntohs 5000\<rparr>"

lemma ct_up_reachable: "listener_reachable ct_up"
proof -
  have "listener_reachable (ct_listener_new (Some app_0) [] 0 Q6_WAN)"
    by (rule listener_reachable.start) (unfold app_0_def, blast)
  then show ?thesis
    unfolding ct_up_def
    by (rule listener_reachable.step [OF listener_reachable.step [OF _ listener_step.event] listener_step.neigh_add])
qed

text \<open>
  C13: In every reachable state of the conntrack listener: the NAT cache is consistent, there is a
  NAT table only while WAN is up, the count of station clients is the number of addresses held,
  and all arrays keep their size.
\<close>

theorem listener_invariant:
  assumes "listener_reachable l"
  shows "listener_ok l"
  using assms by (rule listener_reachable_ok)

theorem listener_invariant_witness: "listener_ok ct_up"
  using listener_invariant [OF ct_up_reachable] .

lemma nat_call_Some:
  "nat_inst l = Some app \<Longrightarrow> nat_inst (nat_call f l) = Some (f (backhaul_mode l = Q6_MHI_WAN) app)"
  by (simp add: nat_call_def)

text \<open>
  C10: While WAN is up over the modem, the message of an established TCP connection that leaves
  through source NAT from an address of a NAT interface adds exactly that connection to the NAT
  cache, with its addresses and ports in host order, whenever the NAT application accepts it.
\<close>

theorem established_connection_is_added:
  assumes "listener_ok l" and "nat_inst l = Some app" and "WanUp l" and "backhaul_mode l = Q6_WAN"
    and "orig_l4proto ct = IPPROTO_TCP" and "repl_l4proto ct = IPPROTO_TCP"
    and "ct_tcp_state ct = TCP_CONNTRACK_ESTABLISHED"
    and "IPS_DST_NAT AND ct_status ct = 0" and "IPS_SRC_NAT AND ct_status ct \<noteq> 0"
    and "htonl (orig_ipv4_src ct) \<in> set (nat_iface_ipv4_addr l)" and "htonl (orig_ipv4_src ct) \<noteq> 0"
    and "htonl (orig_ipv4_src ct) \<noteq> wan_ipaddr l" and "\<not> ip_passthrough_mode env"
    and "\<And>rule. conn_key rule = (htonl (orig_ipv4_src ct), ntohs (orig_port_src ct), htonl (orig_ipv4_dst ct),
        ntohs (orig_port_dst ct), IPPROTO_TCP) \<Longrightarrow> add_accepted (ce_nat env) rule app"
  shows "\<exists>app'. nat_inst (ProcessCTMessage env ct type l) = Some app' \<and>
    conns (cache app') = insert (htonl (orig_ipv4_src ct), ntohs (orig_port_src ct), htonl (orig_ipv4_dst ct),
        ntohs (orig_port_dst ct), IPPROTO_TCP) (conns (cache app))"
proof -
  define rule where "rule = (PopulateTCPorUDPEntry ct IPS_SRC_NAT (zero_entry\<lparr>protocol := IPPROTO_TCP\<rparr>))
    \<lparr>public_ip := wan_ipaddr l\<rparr>"
  have key: "conn_key rule = (htonl (orig_ipv4_src ct), ntohs (orig_port_src ct), htonl (orig_ipv4_dst ct),
      ntohs (orig_port_dst ct), IPPROTO_TCP)" "private_ip rule = htonl (orig_ipv4_src ct)"
    "protocol rule = IPPROTO_TCP"
    by (simp_all add: rule_def PopulateTCPorUDPEntry_def conn_key_def IPS_SRC_NAT_def IPS_DST_NAT_def)
  have dir: "nat_direction l ct = Some IPS_SRC_NAT" using assms(8,9) by (simp add: nat_direction_def)
  have iface: "AddIface env l rule = (True, rule, False)"
    using assms(10,11,13) key(2) by (auto simp: AddIface_def list_ex_iff)
  have "ProcessCTMessage env ct type l = AddORDeleteNatEntry env ct type rule False l"
    using assms(4,5,6,12) key(2) dir iface
    by (simp add: ProcessCTMessage_def ProcessTCPorUDPMsg_def CheckSTAClient_def Let_def flip: rule_def)
  also have "\<dots> = nat_call (\<lambda>mhi app. snd (AddEntry (ce_nat env) mhi rule app)) l"
    using assms(2,3,7) key(3) by (simp add: AddORDeleteNatEntry_def add_nat_entry_def)
  finally have step: "nat_inst (ProcessCTMessage env ct type l) =
      Some (snd (AddEntry (ce_nat env) (backhaul_mode l = Q6_MHI_WAN) rule app))"
    using nat_call_Some [OF assms(2)] by simp
  have "natapp_ok app" using assms(1,2) by (simp add: listener_ok_iff)
  from AddEntry_spec [OF this, of "ce_nat env" "backhaul_mode l = Q6_MHI_WAN" rule] assms(14) [OF key(1)] step key(1)
  show ?thesis by (metis prod.collapse)
qed


lemma tcp_ct_accepted:
  assumes "conn_key rule = (10, 1000, 20, 80, 6)" and "nat_inst ct_up = Some app"
  shows "add_accepted list_env rule app"
proof -
  have f: "private_ip rule = 10" "private_port rule = 1000" "target_ip rule = 20" "target_port rule = 80"
    "protocol rule = 6" using assms(1) by (simp_all add: conn_key_def)
  have "case nat_inst ct_up of None \<Rightarrow> False | Some app \<Rightarrow> nat_table_hdl app \<noteq> 0 \<and>
      \<not> isAlgPort list_env 6 1000 \<and> \<not> isAlgPort list_env 6 80 \<and>
      (10, 1000, 20, 80, 6) \<notin> conns (cache app) \<and> list_ex slot_free (cache app)"
    by code_simp
  with assms f show ?thesis
    by (simp add: add_accepted_def invalid_conn_def list_ex_iff) (simp add: list_env_def)
qed

theorem established_connection_is_added_witness:
  "\<exists>app'. nat_inst (ProcessCTMessage ct_env_1 tcp_ct NFCT_T_UPDATE ct_up) = Some app' \<and>
     (10, 1000, 20, 80, 6) \<in> conns (cache app')"
proof -
  have ok: "listener_ok ct_up" using ct_up_reachable by (rule listener_reachable_ok)
  have "nat_inst ct_up \<noteq> None" by code_simp
  then obtain app where app: "nat_inst ct_up = Some app" by blast
  have facts: "WanUp ct_up" "backhaul_mode ct_up = Q6_WAN" "orig_l4proto tcp_ct = IPPROTO_TCP"
    "repl_l4proto tcp_ct = IPPROTO_TCP" "ct_tcp_state tcp_ct = TCP_CONNTRACK_ESTABLISHED"
    "IPS_DST_NAT AND ct_status tcp_ct = 0" "IPS_SRC_NAT AND ct_status tcp_ct \<noteq> 0"
    "htonl (orig_ipv4_src tcp_ct) \<in> set (nat_iface_ipv4_addr ct_up)" "htonl (orig_ipv4_src tcp_ct) \<noteq> 0"
    "htonl (orig_ipv4_src tcp_ct) \<noteq> wan_ipaddr ct_up" "\<not> ip_passthrough_mode ct_env_1"
    by code_simp+
  have key: "(htonl (orig_ipv4_src tcp_ct), ntohs (orig_port_src tcp_ct), htonl (orig_ipv4_dst tcp_ct),
      ntohs (orig_port_dst tcp_ct), IPPROTO_TCP) = (10, 1000, 20, 80, 6)" "ce_nat ct_env_1 = list_env"
    by code_simp (simp add: ct_env_1_def)
  from established_connection_is_added [OF ok app facts, of NFCT_T_UPDATE, unfolded key] tcp_ct_accepted [OF _ app]
  show ?thesis by auto
qed


text \<open>A message is ignored or passed on as a rule that has the protocol of the message.\<close>

lemma protocol_keeps [simp]:
  "protocol (PopulateTCPorUDPEntry ct st rule) = protocol rule"
  by (simp add: PopulateTCPorUDPEntry_def)

lemma AddIface_protocol: "AddIface env l rule = (b, rule', t) \<Longrightarrow> protocol rule' = protocol rule"
  by (auto simp: AddIface_def split: if_splits)

lemma ProcessCTMessage_cases:
  assumes "P l" and "\<And>rule tmp. protocol rule = repl_l4proto ct \<Longrightarrow> P (AddORDeleteNatEntry env ct type rule tmp l)"
  shows "P (ProcessCTMessage env ct type l)"
proof (cases "nat_direction l ct")
  case None
  with assms(1) show ?thesis by (simp add: ProcessCTMessage_def ProcessTCPorUDPMsg_def)
next
  case (Some st)
  define rule where "rule = (PopulateTCPorUDPEntry ct st (zero_entry\<lparr>protocol := repl_l4proto ct\<rparr>))
    \<lparr>public_ip := wan_ipaddr l\<rparr>"
  obtain b rule' t where iface: "AddIface env l rule = (b, rule', t)" by (metis prod_cases3)
  have "protocol rule = repl_l4proto ct" by (simp add: rule_def)
  with AddIface_protocol [OF iface] assms show ?thesis
    by (simp add: ProcessCTMessage_def ProcessTCPorUDPMsg_def Some Let_def iface flip: rule_def)
qed

text \<open>The connections the listener's NAT application caches.\<close>

definition ct_conns :: "'d ct_listener \<Rightarrow> conn set" where
  "ct_conns l = (case nat_inst l of None \<Rightarrow> {} | Some app \<Rightarrow> conns (cache app))"

lemma add_nat_entry_grows: "listener_ok l \<Longrightarrow> ct_conns l \<subseteq> ct_conns (add_nat_entry env rule tmp l)"
proof (cases "nat_inst l")
  case (Some app)
  assume "listener_ok l"
  with Some have ok: "natapp_ok app" by (simp add: listener_ok_iff)
  have "conns (cache app) \<subseteq> conns (cache (snd (AddEntry env' mhi rule app)))" for env' mhi
    using AddEntry_spec [OF ok, of env' mhi rule] by (cases "AddEntry env' mhi rule app") (auto split: if_splits)
  moreover have "conns (cache app) \<subseteq> conns (cache (CacheEntry rule app))"
    using CacheEntry_spec [OF ok, of rule] by (auto split: if_splits)
  moreover have "cache (AddTempEntry env' rule app) = cache app" for env'
    by (simp add: AddTempEntry_def split: option.split)
  ultimately show ?thesis using Some by (simp add: ct_conns_def add_nat_entry_def nat_call_def)
qed (simp add: ct_conns_def)

text \<open>
  A TCP message whose state is still \<open>ESTABLISHED\<close> never removes a connection, not even when the
  message says that the connection is destroyed: such a connection stays in the NAT cache.
\<close>

theorem destroyed_established_is_kept:
  assumes "listener_ok l" and "repl_l4proto ct = IPPROTO_TCP" and "ct_tcp_state ct = TCP_CONNTRACK_ESTABLISHED"
  shows "ct_conns l \<subseteq> ct_conns (ProcessCTMessage env ct NFCT_T_DESTROY l)"
proof -
  have "ct_conns l \<subseteq> ct_conns (AddORDeleteNatEntry env ct NFCT_T_DESTROY rule tmp l)"
    if "protocol rule = IPPROTO_TCP" for rule tmp
    using that assms(3) add_nat_entry_grows [OF assms(1)] by (simp add: AddORDeleteNatEntry_def)
  then show ?thesis
    by (intro ProcessCTMessage_cases [where P = "\<lambda>l'. ct_conns l \<subseteq> ct_conns l'"]) (simp_all add: assms(2))
qed

theorem destroyed_established_is_kept_witness:
  "(10, 1000, 20, 80, 6) \<in> ct_conns (ProcessCTMessage ct_env_1 tcp_ct NFCT_T_DESTROY
     (ProcessCTMessage ct_env_1 tcp_ct NFCT_T_UPDATE ct_up))"
proof -
  have "(10, 1000, 20, 80, 6) \<in> ct_conns (ProcessCTMessage ct_env_1 tcp_ct NFCT_T_UPDATE ct_up)"
    "repl_l4proto tcp_ct = IPPROTO_TCP" "ct_tcp_state tcp_ct = TCP_CONNTRACK_ESTABLISHED" by code_simp+
  moreover have "listener_ok (ProcessCTMessage ct_env_1 tcp_ct NFCT_T_UPDATE ct_up)"
    by (intro ProcessCTMessage_ok listener_reachable_ok ct_up_reachable)
  ultimately show ?thesis using destroyed_established_is_kept by blast
qed

text \<open>
  Entries of UDP connections in the table read at start-up are all ignored: they are processed
  with the type \<open>NFCT_T_ALL\<close>, which is neither a new nor a destroyed connection.
\<close>

theorem initial_udp_connections_ignored:
  assumes "repl_l4proto ct = IPPROTO_UDP"
  shows "process_entries env (Some ct # es) l = process_entries env es l"
proof -
  have "AddORDeleteNatEntry env ct NFCT_T_ALL rule tmp l = l" if "protocol rule = IPPROTO_UDP" for rule tmp
    using that by (simp add: AddORDeleteNatEntry_def IPPROTO_UDP_def IPPROTO_TCP_def)
  then have "ProcessCTMessage env ct NFCT_T_ALL l = l"
    by (intro ProcessCTMessage_cases [where P = "\<lambda>l'. l' = l"]) (simp_all add: assms)
  then show ?thesis by simp
qed

theorem initial_udp_connections_ignored_witness:
  "process_entries ct_env_1 [Some (tcp_ct\<lparr>repl_l4proto := 17, orig_l4proto := 17\<rparr>), None] ct_up = ct_up"
proof -
  have udp: "repl_l4proto (tcp_ct\<lparr>repl_l4proto := 17, orig_l4proto := 17\<rparr>) = IPPROTO_UDP"
    by (simp add: IPPROTO_UDP_def)
  show ?thesis by (subst initial_udp_connections_ignored [OF udp]) (rule process_entries.simps(2))
qed

text \<open>
  A hole left by a station client that went away disables the check of station clients: when the
  first slot is free, a connection to any address outside the zero subnet passes as one of a known
  client, whatever clients the other slots hold.
\<close>

theorem sta_check_needs_first_slot:
  assumes "sta_clnt_ipv4_addr l ! 0 = 0" and "target_ip rule AND STA_CLNT_SUBNET_MASK \<noteq> 0"
  shows "CheckSTAClient l rule isTempEntry = isTempEntry"
  using assms by (simp add: CheckSTAClient_def)

definition ct_sta :: "(u32 list \<times> u32) ct_listener" where
  "ct_sta = HandleSTAClientDelEvt ct_env_1 0xC0A80102 (HandleSTAClientAddEvt ct_env_1 0xC0A80103
     (HandleSTAClientAddEvt ct_env_1 0xC0A80102
       (ct_event_callback ct_env_1 (HANDLE_WAN_UP (wan_up_1\<lparr>wan_backhaul_type := WLAN_WAN\<rparr>))
         (ct_listener_new (Some app_0) [] 0 Q6_WAN))))"

theorem sta_check_needs_first_slot_witness:
  "StaClntCnt ct_sta = 1 \<and> 0xC0A80103 \<in> set (sta_clnt_ipv4_addr ct_sta) \<and> backhaul_mode ct_sta = WLAN_WAN \<and>
   CheckSTAClient ct_sta (conn_a\<lparr>target_ip := 0xC0A80177\<rparr>) False = False"
proof -
  have "StaClntCnt ct_sta = 1 \<and> 0xC0A80103 \<in> set (sta_clnt_ipv4_addr ct_sta) \<and> backhaul_mode ct_sta = WLAN_WAN"
    "sta_clnt_ipv4_addr ct_sta ! 0 = 0"
    "target_ip (conn_a\<lparr>target_ip := 0xC0A80177\<rparr>) AND STA_CLNT_SUBNET_MASK \<noteq> 0" by code_simp+
  then show ?thesis using sta_check_needs_first_slot [of ct_sta "conn_a\<lparr>target_ip := 0xC0A80177\<rparr>" False] by simp
qed

text \<open>
  The dump of the connection table is cut after its first entry: conntrack messages have the
  type 0x100 (subsystem 1, message 0), in which the bit \<open>readConntrack\<close> tests for a multi-part
  message is never set.
\<close>

theorem dump_stops_after_first_entry:
  assumes "fd_valid" and "\<not> WanUp l" and "rs = Recv_entry n 0x100 ct # later"
  shows "ct_entries (readConntrack env fd_valid rs l) = Some (Some ct # replicate 99 None)"
proof -
  have "(0x100 :: u16) AND NLM_F_MULTI = 0" by code_simp
  then have "read_loop rs 0 [] = [ct]"
    by (simp add: assms(3) CT_ENTRIES_BUFFER_SIZE_def MAX_CONNTRACK_ENTRIES_def)
  then show ?thesis using assms(1,2) by (simp add: readConntrack_def Let_def MAX_CONNTRACK_ENTRIES_def)
qed

theorem dump_stops_after_first_entry_witness:
  "ct_entries (readConntrack ct_env_1 True [Recv_entry 200 0x100 tcp_ct, Recv_entry 200 0x100 tcp_ct, Recv_failed]
     (ct_listener_new (Some app_0) [] 0 Q6_WAN)) = Some (Some tcp_ct # replicate 99 None)"
proof -
  have "\<not> WanUp (ct_listener_new (Some app_0) [] 0 Q6_WAN)" by (simp add: ct_listener_new_def)
  from dump_stops_after_first_entry [OF TrueI this refl] show ?thesis .
qed

text \<open>
  C16: When WAN goes down with the address of the NAT table and the driver carries out the deletion
  of the table, that is accepts it and then holds no rule, WAN is down, no NAT table and no rule is
  left in the driver, no cached connection is marked as in hardware, and every cached connection is
  kept for the next WAN.
\<close>

theorem wan_down_clears_hardware:
  fixes hw :: "'d \<Rightarrow> 'r set"
  assumes "listener_ok l" and "nat_inst l = Some app" and "nat_table_hdl app \<noteq> 0"
    and "\<And>d. fst (del_ipv4_tbl (ce_nat env) (nat_table_hdl app) d) = 0 \<and>
      hw (snd (del_ipv4_tbl (ce_nat env) (nat_table_hdl app) d)) = {}"
  shows "\<exists>app'. nat_inst (ct_event_callback env (HANDLE_WAN_DOWN (pub_ip_addr app)) l) = Some app' \<and>
    \<not> WanUp (ct_event_callback env (HANDLE_WAN_DOWN (pub_ip_addr app)) l) \<and> nat_table_hdl app' = 0 \<and> hw (dev app') = {} \<and>
    active (cache app') = {} \<and> conns (cache app') = conns (cache app) \<and> pub_ip_addr_pre app' = pub_ip_addr app"
proof -
  let ?mhi = "backhaul_mode l = Q6_MHI_WAN"
  let ?del = "for_slots (disable_slot (ce_nat env) ?mhi) app"
  have up: "WanUp l" using assms(1-3) by (auto simp: listener_ok_iff)
  obtain d where drv: "del_ipv4_tbl (ce_nat env) (nat_table_hdl app) (dev ?del) = (0, d)" "hw d = {}"
    using assms(4) by (metis prod.collapse)
  have del: "DeleteTable (ce_nat env) ?mhi (pub_ip_addr app) app =
      (0, Reset (?del\<lparr>dev := d, pub_ip_addr_pre := pub_ip_addr app\<rparr>))"
    using assms(3) drv(1) by (simp add: DeleteTable_def Let_def)
  have "list_all2 (\<lambda>e e'. conn_key e' = conn_key e \<and> (enabled e' \<longleftrightarrow> False)) (cache app) (cache ?del)"
    by (rule for_slots_rel) (rule disable_slot_effect)
  from list_all2_keys(1,2) [OF this] show ?thesis
    using up assms(2) del drv(2) by (simp add: ct_event_callback_def TriggerWANDown_def Reset_def)
qed

theorem wan_down_clears_hardware_witness:
  "\<exists>app'. nat_inst (ct_event_callback ct_env_1 (HANDLE_WAN_DOWN 99)
       (ProcessCTMessage ct_env_1 tcp_ct NFCT_T_UPDATE ct_up)) = Some app' \<and>
     nat_table_hdl app' = 0 \<and> fst (dev app') = [] \<and> active (cache app') = {}"
proof -
  let ?l = "ProcessCTMessage ct_env_1 tcp_ct NFCT_T_UPDATE ct_up"
  have "case nat_inst ?l of None \<Rightarrow> False | Some app \<Rightarrow> nat_table_hdl app \<noteq> 0 \<and> pub_ip_addr app = 99" by code_simp
  then obtain app where app: "nat_inst ?l = Some app" "nat_table_hdl app \<noteq> 0" "pub_ip_addr app = 99"
    by (auto split: option.splits)
  have "listener_ok ?l" by (intro ProcessCTMessage_ok listener_reachable_ok ct_up_reachable)
  moreover have "fst (del_ipv4_tbl (ce_nat ct_env_1) t d) = 0 \<and> set (fst (snd (del_ipv4_tbl (ce_nat ct_env_1) t d))) = {}" for t d
    by (simp add: ct_env_1_def list_env_def)
  ultimately show ?thesis using wan_down_clears_hardware [of ?l app ct_env_1 "\<lambda>d. set (fst d)"] app by auto
qed

end
