(* ===== verification/Nat_Driver.thy ===== *)
theory Nat_Driver
  imports Ipa_Prelude "HOL-Library.Monad_Syntax"
begin

text \<open>
  The NAT driver library \<open>ipanat/src/ipa_nat_drvi.c\<close> with its client interface
  \<open>ipanat/src/ipa_nat_drv.c\<close>: the tables of NAT rules it shares with the IPA hardware.

  A rule lives in the slot of the base table its destination hash names, or, when that slot is
  taken, in a free slot of the expansion table, linked behind the last rule of the slot's list.
  A second pair of tables, the index tables, finds the same rule by its source; it is
  organised in the same way.

  \<^item> \<open>nat_rule\<close> is \<open>struct ipa_nat_rule\<close>, the 32 bytes the hardware reads, with its packed words;
    \<open>sw_rule\<close> is the unpacked \<open>struct ipa_nat_sw_rule\<close>, and \<open>pack_rule\<close> the \<open>memcpy\<close> between them.
  \<^item> \<open>nat_mem\<close> holds the four tables of the mapped memory; \<open>ip4_tbl\<close> is
    \<open>ipa_nat_ip4_table_cache\<close> and \<open>nat_drv\<close> the globals \<open>ipv4_nat_cache\<close> and \<open>pdns\<close>. An array
    that is not allocated is the empty list.
  \<^item> \<open>nat_kernel\<close> holds the answers of the kernel and of \<open>malloc\<close>; \<open>dma\<close> is what the driver
    does with a list of DMA commands, and \<open>dma_write\<close> what it is documented to do.
  \<^item> The result \<open>None\<close> is an access outside an array or a walk along a list without end.
\<close>

section \<open>Data\<close>

datatype nat_table_type = BASE_TBL | EXPN_TBL | INDX_TBL | INDEX_EXPN_TBL

datatype rule_field =
    NEXT_INDEX_FIELD | PUBLIC_PORT_FILED | PRIVATE_PORT_FIELD | TARGET_PORT_FIELD | IP_CHKSUM_FIELD
  | ENABLE_FIELD | TIME_STAMP_FIELD | PROTOCOL_FIELD | TCP_UDP_CHKSUM_FIELD
  | SW_SPEC_PARAM_PREV_INDEX_FIELD | SW_SPEC_PARAM_INDX_TBL_ENTRY_FIELD
  | INDX_TBL_TBL_ENTRY_FIELD | INDX_TBL_NEXT_INDEX_FILED

datatype sw_param = SW_PARAM_PREV_INDX | SW_PARAM_INDX_TBL_ENTRY

datatype del_type = DEL_ONLY_ONE | DEL_HEAD | DEL_MIDDLE | DEL_LAST

record nat_rule =
  nr_private_ip :: u32
  nr_target_ip :: u32
  nxt_indx_pub_port :: u32
  nr_private_port :: u16
  nr_target_port :: u16
  ip_cksm_enbl :: u32
  ts_proto :: u32
  sw_spec_params :: u32
  nr_pdn_index :: "4 word"
  nr_tcp_udp_chksum :: u16

record sw_rule =
  sw_private_ip :: u32
  sw_target_ip :: u32
  sw_next_index :: u16
  sw_public_port :: u16
  sw_private_port :: u16
  sw_target_port :: u16
  sw_ip_chksum :: u16
  sw_redirect :: bool
  sw_enable :: bool
  sw_time_stamp :: "24 word"
  sw_protocol :: u8
  sw_prev_index :: u16
  sw_indx_tbl_entry :: u16
  sw_pdn_index :: "4 word"
  sw_tcp_udp_chksum :: u16

record index_sw_rule =
  ix_tbl_entry :: u16
  ix_next_index :: u16
  ix_prev_index :: u16

record client_rule =
  cl_target_ip :: u32
  cl_private_ip :: u32
  cl_target_port :: u16
  cl_private_port :: u16
  cl_public_port :: u16
  cl_protocol :: u8
  cl_pdn_index :: u8

record pdn_info =
  pi_public_ip :: u32
  pi_src_metadata :: u32
  pi_dst_metadata :: u32

record nat_mem =
  base_tbl :: "nat_rule list"
  expn_tbl :: "nat_rule list"
  indx_tbl :: "u32 list"
  iexpn_tbl :: "u32 list"

record ip4_tbl =
  valid :: bool
  public_addr :: u32
  tbl_size :: u32
  tbl_addr_offset :: u32
  mapped :: bool
  mem :: nat_mem
  table_entries :: u16
  expn_table_entries :: u16
  index_expn_table_meta :: "u16 list"
  rule_id_array :: "u16 list"
  cur_tbl_cnt :: u16
  cur_expn_tbl_cnt :: u16

record nat_drv =
  ip4_tbls :: "ip4_tbl list"
  ipa_fd :: int
  table_cnt :: u8
  ver :: nat
  pdns :: "pdn_info list"

record dma_one =
  dma_base_addr :: nat_table_type
  dma_data :: u16
  dma_offset :: u32

record nat_init_cmd =
  ipv4_rules_offset :: u32
  expn_rules_offset :: u32
  index_offset :: u32
  index_expn_offset :: u32
  cmd_table_entries :: u16
  cmd_expn_table_entries :: u16
  cmd_ip_addr :: u32

record nat_kernel =
  max_pdn_num :: nat
  invalid_protocol :: u8
  hw_v4_0 :: nat
  open_ipa :: int
  get_hw_version :: "nat option"
  alloc_nat_mem :: "u32 \<Rightarrow> u32 option"
  malloc_meta_ok :: bool
  malloc_ids_ok :: bool
  open_nat_dev :: int
  mmap_ok :: bool
  mapped_rule :: "nat \<Rightarrow> nat_rule"
  mapped_index :: "nat \<Rightarrow> u32"
  init_nat_ok :: "nat_init_cmd \<Rightarrow> bool"
  close_ok :: bool
  del_nat_ok :: bool
  lock_ok :: bool
  unlock_ok :: bool
  malloc_cmd_ok :: bool
  malloc_reorder_ok :: bool
  dma :: "dma_one list \<Rightarrow> nat_mem \<Rightarrow> nat_mem option"
  modify_pdn_ok :: "u8 \<Rightarrow> pdn_info \<Rightarrow> bool"

definition EIO :: int where "EIO = 5"

definition ENOMEM :: int where "ENOMEM = 12"

definition EINVAL :: int where "EINVAL = 22"

definition zero_rule :: nat_rule where
  "zero_rule = \<lparr>nr_private_ip = 0, nr_target_ip = 0, nxt_indx_pub_port = 0, nr_private_port = 0,
     nr_target_port = 0, ip_cksm_enbl = 0, ts_proto = 0, sw_spec_params = 0, nr_pdn_index = 0,
     nr_tcp_udp_chksum = 0\<rparr>"

definition zero_sw_rule :: sw_rule where
  "zero_sw_rule = \<lparr>sw_private_ip = 0, sw_target_ip = 0, sw_next_index = 0, sw_public_port = 0,
     sw_private_port = 0, sw_target_port = 0, sw_ip_chksum = 0, sw_redirect = False,
     sw_enable = False, sw_time_stamp = 0, sw_protocol = 0, sw_prev_index = 0,
     sw_indx_tbl_entry = 0, sw_pdn_index = 0, sw_tcp_udp_chksum = 0\<rparr>"

definition zero_tbl :: ip4_tbl where
  "zero_tbl = \<lparr>valid = False, public_addr = 0, tbl_size = 0, tbl_addr_offset = 0,
     mapped = False, mem = \<lparr>base_tbl = [], expn_tbl = [], indx_tbl = [], iexpn_tbl = []\<rparr>, table_entries = 0,
     expn_table_entries = 0, index_expn_table_meta = [], rule_id_array = [], cur_tbl_cnt = 0,
     cur_expn_tbl_cnt = 0\<rparr>"

text \<open>The globals as the program starts, with \<open>n\<close> entries in \<open>pdns\<close>.\<close>

definition nat_drv_start :: "nat \<Rightarrow> nat_drv" where
  "nat_drv_start n = \<lparr>ip4_tbls = [zero_tbl], ipa_fd = 0, table_cnt = 0, ver = 0,
     pdns = replicate n \<lparr>pi_public_ip = 0, pi_src_metadata = 0, pi_dst_metadata = 0\<rparr>\<rparr>"

text \<open>Reading and writing an array element; \<open>None\<close> outside the array.\<close>

definition fetch :: "'a list \<Rightarrow> nat \<Rightarrow> 'a option" where
  "fetch xs i = (if i < length xs then Some (xs ! i) else None)"

definition store_at :: "'a list \<Rightarrow> nat \<Rightarrow> 'a \<Rightarrow> 'a list option" where
  "store_at xs i v = (if i < length xs then Some (xs[i := v]) else None)"

section \<open>Packed fields\<close>

text \<open>A 32-bit word of two 16-bit fields, the first in the low half.\<close>

definition two16 :: "u16 \<Rightarrow> u16 \<Rightarrow> u32" where
  "two16 lo hi = ucast lo OR push_bit 16 (ucast hi)"

definition pack_rule :: "sw_rule \<Rightarrow> nat_rule" where
  "pack_rule r = \<lparr>nr_private_ip = sw_private_ip r, nr_target_ip = sw_target_ip r,
     nxt_indx_pub_port = two16 (sw_next_index r) (sw_public_port r),
     nr_private_port = sw_private_port r, nr_target_port = sw_target_port r,
     ip_cksm_enbl = ucast (sw_ip_chksum r) OR (if sw_redirect r then 0x40000000 else 0) OR
                    (if sw_enable r then 0x80000000 else 0),
     ts_proto = ucast (sw_time_stamp r) OR push_bit 24 (ucast (sw_protocol r)),
     sw_spec_params = two16 (sw_prev_index r) (sw_indx_tbl_entry r),
     nr_pdn_index = sw_pdn_index r, nr_tcp_udp_chksum = sw_tcp_udp_chksum r\<rparr>"

definition UpdateSwSpecParams :: "nat_rule \<Rightarrow> sw_param \<Rightarrow> u32 \<Rightarrow> nat_rule" where
  "UpdateSwSpecParams rule param_type value =
     (let temp = sw_spec_params rule in
      case param_type of
        SW_PARAM_INDX_TBL_ENTRY \<Rightarrow> rule\<lparr>sw_spec_params := temp AND 0x0000FFFF OR push_bit 16 value\<rparr>
      | SW_PARAM_PREV_INDX \<Rightarrow> rule\<lparr>sw_spec_params := temp AND 0xFFFF0000 OR value\<rparr>)"

definition Read8BitFieldValue :: "u32 \<Rightarrow> rule_field \<Rightarrow> u8" where
  "Read8BitFieldValue param fld =
     (case fld of PROTOCOL_FIELD \<Rightarrow> ucast (drop_bit 24 param) | _ \<Rightarrow> 0)"

definition Read16BitFieldValue :: "u32 \<Rightarrow> rule_field \<Rightarrow> u16" where
  "Read16BitFieldValue param fld =
     (case fld of
        NEXT_INDEX_FIELD \<Rightarrow> ucast param
      | PUBLIC_PORT_FILED \<Rightarrow> ucast (drop_bit 16 param)
      | ENABLE_FIELD \<Rightarrow> ucast (drop_bit 31 param)
      | SW_SPEC_PARAM_PREV_INDEX_FIELD \<Rightarrow> ucast param
      | SW_SPEC_PARAM_INDX_TBL_ENTRY_FIELD \<Rightarrow> ucast (drop_bit 16 param)
      | INDX_TBL_TBL_ENTRY_FIELD \<Rightarrow> ucast param
      | INDX_TBL_NEXT_INDEX_FILED \<Rightarrow> ucast (drop_bit 16 param)
      | _ \<Rightarrow> 0)"

definition Read32BitFieldValue :: "u32 \<Rightarrow> rule_field \<Rightarrow> u32" where
  "Read32BitFieldValue param fld =
     (case fld of TIME_STAMP_FIELD \<Rightarrow> param AND 0x00FFFFFF | _ \<Rightarrow> 0)"

section \<open>Sizes, hashes, checksums\<close>

text \<open>The loop of \<open>GetNearest2Power\<close>: it ends because \<open>num\<close> is halved and is not 0.\<close>

function near2_loop :: "u16 \<Rightarrow> u16 \<Rightarrow> u16 \<Rightarrow> u16" where
  "near2_loop number num tmp =
     (if num \<le> 1 then (if number \<noteq> tmp then tmp * 2 else tmp)
      else near2_loop number (drop_bit 1 num) (tmp * 2))"
  by auto

termination
proof (relation "measure (\<lambda>(number, num, tmp). unat num)")
  show "wf (measure (\<lambda>(number :: u16, num :: u16, tmp :: u16). unat num))" by simp
next
  fix number num tmp :: u16
  assume "\<not> num \<le> 1"
  then have "1 < unat num" by (simp add: word_le_nat_alt)
  moreover have "unat (drop_bit 1 num) = unat num div 2"
    by (simp only: unat_drop_bit_eq) (simp add: drop_bit_eq_div)
  ultimately show "((number, drop_bit 1 num, tmp * 2), number, num, tmp) \<in> measure (\<lambda>(number, num, tmp). unat num)"
    by simp
qed

declare near2_loop.simps [simp del]

text \<open>\<open>None\<close> is the error \<open>-EINVAL\<close>.\<close>

definition GetNearest2Power :: "u16 \<Rightarrow> u16 option" where
  "GetNearest2Power num =
     (if num = 0 then None else if num = 1 then Some 2 else Some (near2_loop num num 1))"

definition GetNearestEven :: "u16 \<Rightarrow> u16" where
  "GetNearestEven num = (if num < 2 then 2 else if num AND 1 \<noteq> 0 then num + 1 else num)"

definition dst_hash :: "bool \<Rightarrow> u32 \<Rightarrow> u32 \<Rightarrow> u16 \<Rightarrow> u16 \<Rightarrow> u8 \<Rightarrow> u16 \<Rightarrow> u16" where
  "dst_hash v4 public_ip trgt_ip trgt_port public_port proto sz =
     (let hash = ucast trgt_ip XOR ucast (drop_bit 16 trgt_ip) XOR trgt_port XOR public_port XOR ucast proto;
          hash = (if v4 then hash XOR ucast public_ip XOR ucast (drop_bit 16 public_ip) else hash);
          hash = hash AND sz
      in if hash = 0 then sz else hash)"

definition src_hash :: "u32 \<Rightarrow> u16 \<Rightarrow> u32 \<Rightarrow> u16 \<Rightarrow> u8 \<Rightarrow> u16 \<Rightarrow> u16" where
  "src_hash priv_ip priv_port trgt_ip trgt_port proto sz =
     (let hash = ucast priv_ip XOR ucast (drop_bit 16 priv_ip) XOR priv_port XOR
                 ucast trgt_ip XOR ucast (drop_bit 16 trgt_ip) XOR trgt_port XOR ucast proto;
          hash = hash AND sz
      in if hash = 0 then sz else hash)"

text \<open>One addition with the carry folded in.\<close>

definition cksum_add :: "u32 \<Rightarrow> u32 \<Rightarrow> u32" where
  "cksum_add cksum x =
     (let c = cksum + x in if drop_bit 16 c \<noteq> 0 then (c AND 0x0000FFFF) + 1 else c)"

definition calc_ip_cksum :: "u32 \<Rightarrow> u32 \<Rightarrow> u16" where
  "calc_ip_cksum pub_ip_addr priv_ip_addr =
     (let cksum = 0 + (pub_ip_addr AND 0xFFFF);
          cksum = cksum_add cksum (drop_bit 16 pub_ip_addr);
          priv_ip_addr = NOT priv_ip_addr;
          cksum = cksum_add cksum (priv_ip_addr AND 0xFFFF);
          cksum = cksum_add cksum (drop_bit 16 priv_ip_addr)
      in ucast cksum)"

definition calc_tcp_udp_cksum :: "u32 \<Rightarrow> u16 \<Rightarrow> u32 \<Rightarrow> u16 \<Rightarrow> u16" where
  "calc_tcp_udp_cksum pub_ip_addr pub_port priv_ip_addr priv_port =
     (let cksum = 0 + (pub_ip_addr AND 0xFFFF);
          cksum = cksum_add cksum (drop_bit 16 pub_ip_addr);
          cksum = cksum_add cksum (ucast pub_port);
          priv_ip_addr = NOT priv_ip_addr;
          cksum = cksum_add cksum (priv_ip_addr AND 0xFFFF);
          cksum = cksum_add cksum (drop_bit 16 priv_ip_addr);
          priv_port = NOT priv_port;
          cksum = cksum_add cksum (ucast priv_port)
      in ucast cksum)"

section \<open>Handles and offsets\<close>

definition set_tbl :: "nat_drv \<Rightarrow> nat \<Rightarrow> ip4_tbl \<Rightarrow> nat_drv" where
  "set_tbl g i t = g\<lparr>ip4_tbls := (ip4_tbls g)[i := t]\<rparr>"

definition set_mem :: "ip4_tbl \<Rightarrow> nat_mem \<Rightarrow> ip4_tbl" where
  "set_mem t m = t\<lparr>mem := m\<rparr>"

definition entry_total :: "ip4_tbl \<Rightarrow> nat" where
  "entry_total t = unat (table_entries t) + unat (expn_table_entries t)"

definition make_rule_hdl :: "ip4_tbl \<Rightarrow> u16 \<Rightarrow> (u16 \<times> ip4_tbl) option" where
  "make_rule_hdl t tbl_entry =
     (let t' = (if tbl_entry \<ge> table_entries t then t\<lparr>cur_expn_tbl_cnt := cur_expn_tbl_cnt t + 1\<rparr>
                else t\<lparr>cur_tbl_cnt := cur_tbl_cnt t + 1\<rparr>);
          rule_hdl = (if tbl_entry \<ge> table_entries t
                      then push_bit 1 (tbl_entry - table_entries t) OR 1 else push_bit 1 tbl_entry)
      in case first_idx (\<lambda>x. x = 0) (take (entry_total t) (rule_id_array t)) of
           Some cnt \<Rightarrow>
             Some (of_nat cnt + 1, t'\<lparr>rule_id_array := (rule_id_array t)[cnt := rule_hdl]\<rparr>)
         | None \<Rightarrow> if entry_total t \<le> length (rule_id_array t) then Some (0, t') else None)"

text \<open>The element \<open>rule_id_array[rule_hdl - 1]\<close> does not exist for the handle 0.\<close>

definition parse_rule_hdl :: "ip4_tbl \<Rightarrow> u16 \<Rightarrow> (bool \<times> u16) option" where
  "parse_rule_hdl t rule_hdl =
     (if unat rule_hdl \<ge> entry_total t then Some (False, 0)
      else if rule_hdl = 0 then None
      else do {
        rule_id \<leftarrow> fetch (rule_id_array t) (unat rule_hdl - 1);
        Some (rule_id AND 1 \<noteq> 0, drop_bit 1 rule_id)
      })"

definition get_entry_offset :: "ip4_tbl \<Rightarrow> u16 \<Rightarrow> u32" where
  "get_entry_offset t tbl_entry = 32 * ucast tbl_entry + tbl_addr_offset t"

definition get_index_entry_offset :: "ip4_tbl \<Rightarrow> u16 \<Rightarrow> u32" where
  "get_index_entry_offset t indx_tbl_entry = 4 * ucast indx_tbl_entry + tbl_addr_offset t"

section \<open>Creating and deleting the table\<close>

text \<open>
  The factors \<open>.8\<close> and \<open>.2\<close> are doubles; the product cut to an integer is the integer division
  for every 16-bit number of entries.
\<close>

definition base_entries :: "u16 \<Rightarrow> u16" where
  "base_entries number_of_entries =
     (let n = of_nat (unat number_of_entries * 4 div 5) in if n = 0 then 1 else n)"

definition expn_entries :: "u16 \<Rightarrow> u16" where
  "expn_entries number_of_entries = GetNearestEven (of_nat (unat number_of_entries div 5))"

definition GetIPAVer :: "nat_kernel \<Rightarrow> nat_drv \<Rightarrow> int \<times> nat_drv" where
  "GetIPAVer k g =
     (case get_hw_version k of None \<Rightarrow> (- EINVAL, g) | Some v \<Rightarrow> (0, g\<lparr>ver := v\<rparr>))"

record alloc_mem =
  am_size :: u32
  am_offset :: u32
  am_table_entries :: u16
  am_expn_entries :: u16

definition alloc_table :: "nat_kernel \<Rightarrow> u16 \<Rightarrow> nat_drv \<Rightarrow> (int + alloc_mem) \<times> nat_drv" where
  "alloc_table k number_of_entries g =
     (case GetNearest2Power (base_entries number_of_entries) of
        None \<Rightarrow> (Inl (- EINVAL), g)
      | Some n \<Rightarrow>
         (let m = expn_entries number_of_entries;
              total = ucast (n + m) :: u32;
              msize = 32 * total + 4 * total;
              g1 = (if ipa_fd g = 0 \<and> open_ipa k \<ge> 0 then g\<lparr>ipa_fd := open_ipa k\<rparr> else g)
          in if ipa_fd g = 0 \<and> open_ipa k < 0 then (Inl (- EIO), g)
             else (case GetIPAVer k g1 of (err, g2) \<Rightarrow>
               if err \<noteq> 0 then (Inl (- EIO), g2)
               else (case alloc_nat_mem k msize of
                 None \<Rightarrow> (Inl (- EINVAL), g2)
               | Some off \<Rightarrow>
                  (Inr \<lparr>am_size = msize, am_offset = off, am_table_entries = n, am_expn_entries = m\<rparr>, g2)))))"

text \<open>
  The arrays are allocated only when the pointers are null. A failed allocation returns 0, as
  success does, before the device is opened.
\<close>

definition update_cache :: "nat_kernel \<Rightarrow> alloc_mem \<Rightarrow> u32 \<Rightarrow> nat_drv \<Rightarrow> (int \<times> nat_drv) option" where
  "update_cache k am public_addr_v g =
     do {
       t \<leftarrow> fetch (ip4_tbls g) (unat (table_cnt g));
       let index = unat (table_cnt g);
       let n = unat (am_table_entries am);
       let m = unat (am_expn_entries am);
       let t = t\<lparr>valid := True, public_addr := public_addr_v, tbl_size := am_size am,
                 tbl_addr_offset := am_offset am, table_entries := am_table_entries am,
                 expn_table_entries := am_expn_entries am\<rparr>;
       if index_expn_table_meta t = [] \<and> \<not> malloc_meta_ok k then Some (0, set_tbl g index t)
       else do {
         let t = (if index_expn_table_meta t = [] then t\<lparr>index_expn_table_meta := replicate m 0\<rparr> else t);
         if rule_id_array t = [] \<and> \<not> malloc_ids_ok k then Some (0, set_tbl g index t)
         else do {
           let t = (if rule_id_array t = [] then t\<lparr>rule_id_array := replicate (n + m) 0\<rparr> else t);
           if open_nat_dev k < 0 then Some (- EIO, set_tbl g index t)
           else if \<not> mmap_ok k then Some (- EINVAL, set_tbl g index t)
           else Some (0, set_tbl g index (t\<lparr>mapped := True, mem :=
             \<lparr>base_tbl = map (mapped_rule k) [0..<n], expn_tbl = map (mapped_rule k) [n..<n + m],
              indx_tbl = map (mapped_index k) [0..<n], iexpn_tbl = map (mapped_index k) [n..<n + m]\<rparr>\<rparr>))
         }
       }
     }"

text \<open>\<open>memset\<close> of the first \<open>n\<close> elements of an array.\<close>

definition memset_arr :: "'a list \<Rightarrow> nat \<Rightarrow> 'a \<Rightarrow> 'a list option" where
  "memset_arr xs n v = (if n \<le> length xs then Some (replicate n v @ drop n xs) else None)"

definition reset_tbl :: "ip4_tbl \<Rightarrow> ip4_tbl option" where
  "reset_tbl t =
     do {
       let n = unat (table_entries t);
       let m = unat (expn_table_entries t);
       b \<leftarrow> memset_arr (base_tbl (mem t)) n zero_rule;
       e \<leftarrow> memset_arr (expn_tbl (mem t)) m zero_rule;
       i \<leftarrow> memset_arr (indx_tbl (mem t)) n 0;
       x \<leftarrow> memset_arr (iexpn_tbl (mem t)) m 0;
       Some (t\<lparr>mem := \<lparr>base_tbl = b, expn_tbl = e, indx_tbl = i, iexpn_tbl = x\<rparr>\<rparr>)
     }"

definition post_ipv4_init_cmd :: "nat_kernel \<Rightarrow> ip4_tbl \<Rightarrow> int" where
  "post_ipv4_init_cmd k t =
     (let offset = tbl_addr_offset t;
          expn = offset + ucast (table_entries t) * 32;
          index = expn + ucast (expn_table_entries t) * 32;
          iexpn = index + ucast (table_entries t) * 4;
          cmd = \<lparr>ipv4_rules_offset = offset, expn_rules_offset = expn, index_offset = index,
                 index_expn_offset = iexpn, cmd_table_entries = table_entries t - 1,
                 cmd_expn_table_entries = expn_table_entries t, cmd_ip_addr = public_addr t\<rparr>
      in if init_nat_ok k cmd then 0 else - EINVAL)"

definition nati_add_ipv4_tbl :: "nat_kernel \<Rightarrow> u32 \<Rightarrow> u16 \<Rightarrow> nat_drv \<Rightarrow> ((int + u32) \<times> nat_drv) option" where
  "nati_add_ipv4_tbl k public_ip_addr number_of_entries g =
     (case alloc_table k number_of_entries g of
        (Inl _, g1) \<Rightarrow> Some (Inl (- ENOMEM), g1)
      | (Inr am, g1) \<Rightarrow> do {
          let tbl_indx = unat (table_cnt g1);
          (err, g2) \<leftarrow> update_cache k am public_ip_addr g1;
          if err \<noteq> 0 then Some (Inl (- EINVAL), g2)
          else do {
            t \<leftarrow> fetch (ip4_tbls g2) tbl_indx;
            t \<leftarrow> reset_tbl t;
            let g3 = set_tbl g2 tbl_indx t;
            if post_ipv4_init_cmd k t \<noteq> 0 then Some (Inl (- EINVAL), g3)
            else do {
              p \<leftarrow> fetch (pdns g3) 0;
              let g4 = g3\<lparr>pdns := (pdns g3)[0 := p\<lparr>pi_public_ip := public_ip_addr\<rparr>],
                          table_cnt := table_cnt g3 + 1\<rparr>;
              Some (Inr (ucast (table_cnt g4)), g4)
            }
          }
        })"

text \<open>After \<open>munmap\<close> the pointers into the table stay, and nothing is left behind them.\<close>

definition nati_del_ipv4_table :: "nat_kernel \<Rightarrow> u32 \<Rightarrow> nat_drv \<Rightarrow> (int \<times> nat_drv) option" where
  "nati_del_ipv4_table k tbl_hdl g =
     do {
       let index = unat (ucast (tbl_hdl - 1) :: u8);
       t \<leftarrow> fetch (ip4_tbls g) index;
       if \<not> valid t then Some (- EINVAL, g)
       else if \<not> lock_ok k then Some (- 1, g)
       else do {
         let g1 = set_tbl g index (t\<lparr>mem := mem zero_tbl\<rparr>);
         if \<not> close_ok k then Some (- EINVAL, g1)
         else if \<not> del_nat_ok k then Some (- EINVAL, g1)
         else Some (if unlock_ok k then 0 else - 1,
                    (set_tbl g index zero_tbl)\<lparr>table_cnt := table_cnt g - 1\<rparr>)
       }
     }"

definition nati_query_timestamp :: "nat_kernel \<Rightarrow> u32 \<Rightarrow> u32 \<Rightarrow> nat_drv \<Rightarrow> (int \<times> u32 option) option" where
  "nati_query_timestamp k tbl_hdl rule_hdl g =
     do {
       t \<leftarrow> fetch (ip4_tbls g) (unat (ucast (tbl_hdl - 1) :: u8));
       if \<not> valid t then Some (- EINVAL, None)
       else if \<not> lock_ok k then Some (- 1, None)
       else do {
         (expn, tbl_entry) \<leftarrow> parse_rule_hdl t (ucast rule_hdl);
         let ret = (if unlock_ok k then 0 else - 1);
         if \<not> mapped t then Some (ret, None)
         else do {
           r \<leftarrow> fetch (if expn then expn_tbl (mem t) else base_tbl (mem t)) (unat tbl_entry);
           Some (ret, Some (Read32BitFieldValue (ts_proto r) TIME_STAMP_FIELD))
         }
       }
     }"

definition nati_modify_pdn :: "nat_kernel \<Rightarrow> u8 \<Rightarrow> pdn_info \<Rightarrow> nat_drv \<Rightarrow> (int \<times> nat_drv) option" where
  "nati_modify_pdn k pdn_index p g =
     (if \<not> modify_pdn_ok k pdn_index p then Some (- EIO, g)
      else do {
        ps \<leftarrow> store_at (pdns g) (unat pdn_index) p;
        Some (0, g\<lparr>pdns := ps\<rparr>)
      })"

section \<open>DMA commands\<close>

text \<open>
  The documented effect of a DMA command: the 16-bit \<open>dma_data\<close> is written at the byte
  \<open>dma_offset\<close> of the table. Only the fields the driver writes are given: the next index of a
  rule (byte 8), its flags (byte 18), the top of its time stamp with its protocol (byte 22), and
  the two halves of an index entry. A write anywhere else, or behind the table, is \<open>None\<close>.
\<close>

definition set_lo16 :: "u32 \<Rightarrow> u16 \<Rightarrow> u32" where
  "set_lo16 w v = w AND 0xFFFF0000 OR ucast v"

definition set_hi16 :: "u32 \<Rightarrow> u16 \<Rightarrow> u32" where
  "set_hi16 w v = w AND 0x0000FFFF OR push_bit 16 (ucast v)"

definition dma_rule :: "nat \<Rightarrow> u16 \<Rightarrow> nat_rule \<Rightarrow> nat_rule option" where
  "dma_rule byte v r =
     (if byte = 8 then Some (r\<lparr>nxt_indx_pub_port := set_lo16 (nxt_indx_pub_port r) v\<rparr>)
      else if byte = 18 then Some (r\<lparr>ip_cksm_enbl := set_hi16 (ip_cksm_enbl r) v\<rparr>)
      else if byte = 22 then Some (r\<lparr>ts_proto := set_hi16 (ts_proto r) v\<rparr>)
      else None)"

definition dma_index :: "nat \<Rightarrow> u16 \<Rightarrow> u32 \<Rightarrow> u32 option" where
  "dma_index byte v w =
     (if byte = 0 then Some (set_lo16 w v) else if byte = 2 then Some (set_hi16 w v) else None)"

definition update_at :: "('a \<Rightarrow> 'a option) \<Rightarrow> 'a list \<Rightarrow> nat \<Rightarrow> 'a list option" where
  "update_at f xs i = do { x \<leftarrow> fetch xs i; y \<leftarrow> f x; store_at xs i y }"

definition dma_write :: "dma_one \<Rightarrow> nat_mem \<Rightarrow> nat_mem option" where
  "dma_write c m =
     (let off = unat (dma_offset c); v = dma_data c in
      case dma_base_addr c of
        BASE_TBL \<Rightarrow> map_option (\<lambda>xs. m\<lparr>base_tbl := xs\<rparr>) (update_at (dma_rule (off mod 32) v) (base_tbl m) (off div 32))
      | EXPN_TBL \<Rightarrow> map_option (\<lambda>xs. m\<lparr>expn_tbl := xs\<rparr>) (update_at (dma_rule (off mod 32) v) (expn_tbl m) (off div 32))
      | INDX_TBL \<Rightarrow> map_option (\<lambda>xs. m\<lparr>indx_tbl := xs\<rparr>) (update_at (dma_index (off mod 4) v) (indx_tbl m) (off div 4))
      | INDEX_EXPN_TBL \<Rightarrow>
          map_option (\<lambda>xs. m\<lparr>iexpn_tbl := xs\<rparr>) (update_at (dma_index (off mod 4) v) (iexpn_tbl m) (off div 4)))"

fun dma_writes :: "dma_one list \<Rightarrow> nat_mem \<Rightarrow> nat_mem option" where
  "dma_writes [] m = Some m"
| "dma_writes (c # cs) m = Option.bind (dma_write c m) (dma_writes cs)"

section \<open>Adding a rule\<close>

definition rule_enabled :: "nat_rule \<Rightarrow> bool" where
  "rule_enabled r \<longleftrightarrow> Read16BitFieldValue (ip_cksm_enbl r) ENABLE_FIELD \<noteq> 0"

definition rule_next :: "nat_rule \<Rightarrow> u16" where
  "rule_next r = Read16BitFieldValue (nxt_indx_pub_port r) NEXT_INDEX_FIELD"

definition rule_prev :: "nat_rule \<Rightarrow> u16" where
  "rule_prev r = Read16BitFieldValue (sw_spec_params r) SW_SPEC_PARAM_PREV_INDEX_FIELD"

definition rule_index :: "nat_rule \<Rightarrow> u16" where
  "rule_index r = Read16BitFieldValue (sw_spec_params r) SW_SPEC_PARAM_INDX_TBL_ENTRY_FIELD"

definition rule_protocol :: "nat_rule \<Rightarrow> u8" where
  "rule_protocol r = Read8BitFieldValue (ts_proto r) PROTOCOL_FIELD"

definition index_entry :: "u32 \<Rightarrow> u16" where
  "index_entry w = Read16BitFieldValue w INDX_TBL_TBL_ENTRY_FIELD"

definition index_next :: "u32 \<Rightarrow> u16" where
  "index_next w = Read16BitFieldValue w INDX_TBL_NEXT_INDEX_FILED"

text \<open>
  The walk to the end of a list of the expansion table, whose next indices are \<open>nx\<close>; \<open>n\<close> is
  the size of the base table. The result \<open>Some 0\<close> is the error that an entry points to itself.
\<close>

partial_function (option) chain_last :: "(nat \<Rightarrow> u16 option) \<Rightarrow> u16 \<Rightarrow> u16 \<Rightarrow> u16 \<Rightarrow> u16 option" where
  "chain_last nx n prev nxt_indx =
     (if nxt_indx = 0 then Some prev
      else Option.bind (nx (unat (nxt_indx - n)))
             (\<lambda>nxt. if nxt_indx = nxt then Some 0 else chain_last nx n nxt_indx nxt))"

text \<open>The first free entry of an expansion table; the entry 0 is never used.\<close>

definition free_entry :: "('a \<Rightarrow> bool) \<Rightarrow> 'a list \<Rightarrow> u16 \<Rightarrow> u16 option" where
  "free_entry free xs sz =
     (case first_idx free (drop 1 (take (unat sz) xs)) of
        Some i \<Rightarrow> Some (of_nat (Suc i))
      | None \<Rightarrow> if unat sz \<le> length xs \<or> unat sz \<le> 1 then Some 0 else None)"

definition expn_tbl_free_entry :: "nat_rule list \<Rightarrow> u16 \<Rightarrow> u16 option" where
  "expn_tbl_free_entry = free_entry (\<lambda>r. \<not> rule_enabled r)"

definition index_expn_get_free_entry :: "u32 list \<Rightarrow> u16 \<Rightarrow> u16 option" where
  "index_expn_get_free_entry = free_entry (\<lambda>w. index_entry w = 0)"

text \<open>The rule built from the client's, before its place is known.\<close>

definition new_sw_rule :: "u32 \<Rightarrow> client_rule \<Rightarrow> sw_rule" where
  "new_sw_rule pub_ip_addr c =
     zero_sw_rule\<lparr>sw_private_ip := cl_private_ip c, sw_private_port := cl_private_port c,
       sw_protocol := cl_protocol c, sw_public_port := cl_public_port c,
       sw_target_ip := cl_target_ip c, sw_target_port := cl_target_port c,
       sw_pdn_index := ucast (cl_pdn_index c),
       sw_ip_chksum := calc_ip_cksum pub_ip_addr (cl_private_ip c),
       sw_tcp_udp_chksum :=
         (if cl_protocol c = 6 \<or> cl_protocol c = 17
          then calc_tcp_udp_cksum pub_ip_addr (cl_public_port c) (cl_private_ip c) (cl_private_port c)
          else 0)\<rparr>"

text \<open>The result is the rule with its entry, 0 when there is none.\<close>

definition generate_tbl_rule :: "bool \<Rightarrow> u32 \<Rightarrow> client_rule \<Rightarrow> ip4_tbl \<Rightarrow> (u16 \<times> sw_rule) option" where
  "generate_tbl_rule v4 pub_ip_addr c t =
     do {
       let sw = new_sw_rule pub_ip_addr c;
       let new_entry = dst_hash v4 pub_ip_addr (cl_target_ip c) (cl_target_port c) (cl_public_port c)
                         (cl_protocol c) (table_entries t - 1);
       r \<leftarrow> fetch (base_tbl (mem t)) (unat new_entry);
       if \<not> rule_enabled r then Some (new_entry, sw)
       else do {
         prev \<leftarrow> (if rule_next r = 0 then Some new_entry
                  else chain_last (\<lambda>i. map_option rule_next (fetch (expn_tbl (mem t)) i))
                         (table_entries t) 0 (rule_next r));
         if prev = 0 then Some (0, sw)
         else do {
           e \<leftarrow> expn_tbl_free_entry (expn_tbl (mem t)) (expn_table_entries t);
           if e = 0 then Some (0, sw)
           else Some (e + table_entries t, sw\<lparr>sw_prev_index := prev\<rparr>)
         }
       }
     }"

definition generate_index_rule :: "client_rule \<Rightarrow> index_sw_rule \<Rightarrow> ip4_tbl \<Rightarrow> (u16 \<times> index_sw_rule) option" where
  "generate_index_rule c sw t =
     do {
       let new_entry = src_hash (cl_private_ip c) (cl_private_port c) (cl_target_ip c)
                         (cl_target_port c) (cl_protocol c) (table_entries t - 1);
       w \<leftarrow> fetch (indx_tbl (mem t)) (unat new_entry);
       if index_entry w = 0 then Some (new_entry, sw\<lparr>ix_prev_index := 0\<rparr>)
       else do {
         prev \<leftarrow> (if index_next w = 0 then Some new_entry
                  else chain_last (\<lambda>i. map_option index_next (fetch (iexpn_tbl (mem t)) i))
                         (table_entries t) 0 (index_next w));
         if prev = 0 then Some (0, sw)
         else do {
           e \<leftarrow> index_expn_get_free_entry (iexpn_tbl (mem t)) (expn_table_entries t);
           if e = 0 \<or> prev = e + table_entries t then Some (0, sw\<lparr>ix_prev_index := prev\<rparr>)
           else Some (e + table_entries t, sw\<lparr>ix_prev_index := prev\<rparr>)
         }
       }
     }"

text \<open>\<open>Inl\<close> is the error \<open>-EINVAL\<close>.\<close>

definition generate_rule ::
  "bool \<Rightarrow> u32 \<Rightarrow> client_rule \<Rightarrow> ip4_tbl \<Rightarrow> (unit + (u16 \<times> sw_rule \<times> u16 \<times> index_sw_rule \<times> ip4_tbl)) option" where
  "generate_rule v4 pub_ip_addr c t =
     do {
       (tbl_entry, sw) \<leftarrow> generate_tbl_rule v4 pub_ip_addr c t;
       if tbl_entry = 0 then Some (Inl ())
       else do {
         (indx_tbl_entry, isw) \<leftarrow> generate_index_rule c
            \<lparr>ix_tbl_entry = tbl_entry, ix_next_index = 0, ix_prev_index = 0\<rparr> t;
         if indx_tbl_entry = 0 then Some (Inl ())
         else do {
           let sw = sw\<lparr>sw_indx_tbl_entry := indx_tbl_entry\<rparr>;
           if indx_tbl_entry \<ge> table_entries t
           then do {
             meta \<leftarrow> store_at (index_expn_table_meta t) (unat (indx_tbl_entry - table_entries t)) (ix_prev_index isw);
             Some (Inr (tbl_entry, sw, indx_tbl_entry, isw, t\<lparr>index_expn_table_meta := meta\<rparr>))
           }
           else Some (Inr (tbl_entry, sw, indx_tbl_entry, isw, t))
         }
       }
     }"

definition write_next_index :: "nat_kernel \<Rightarrow> nat_table_type \<Rightarrow> u16 \<Rightarrow> u32 \<Rightarrow> nat_mem \<Rightarrow> nat_mem" where
  "write_next_index k tbl_type v offset m =
     (if \<not> malloc_cmd_ok k then m
      else (case dma k [\<lparr>dma_base_addr = tbl_type, dma_data = v, dma_offset = offset\<rparr>] m of
              None \<Rightarrow> m | Some m' \<Rightarrow> m'))"

definition copy_ipv4_rule_to_hw :: "nat_kernel \<Rightarrow> sw_rule \<Rightarrow> u16 \<Rightarrow> ip4_tbl \<Rightarrow> ip4_tbl option" where
  "copy_ipv4_rule_to_hw k rule entry t =
     do {
       let n = table_entries t;
       m1 \<leftarrow> (if entry < n
              then do { b \<leftarrow> store_at (base_tbl (mem t)) (unat entry) (pack_rule rule); Some ((mem t)\<lparr>base_tbl := b\<rparr>) }
              else do { e \<leftarrow> store_at (expn_tbl (mem t)) (unat (entry - n)) (pack_rule rule); Some ((mem t)\<lparr>expn_tbl := e\<rparr>) });
       let prev_entry = sw_prev_index rule;
       if prev_entry = 0 then Some (set_mem t m1)
       else do {
         let (tbl_type, p) = (if prev_entry < n then (BASE_TBL, prev_entry) else (EXPN_TBL, prev_entry - n));
         Some (set_mem t (write_next_index k tbl_type entry (get_entry_offset t p + 8) m1))
       }
     }"

text \<open>The offset of the previous index entry is kept in 16 bits.\<close>

definition copy_ipv4_index_rule_to_hw :: "nat_kernel \<Rightarrow> index_sw_rule \<Rightarrow> u16 \<Rightarrow> ip4_tbl \<Rightarrow> ip4_tbl option" where
  "copy_ipv4_index_rule_to_hw k sw entry t =
     do {
       let n = table_entries t;
       let w = two16 (ix_tbl_entry sw) (ix_next_index sw);
       m1 \<leftarrow> (if entry < n
              then do { i \<leftarrow> store_at (indx_tbl (mem t)) (unat entry) w; Some ((mem t)\<lparr>indx_tbl := i\<rparr>) }
              else do { x \<leftarrow> store_at (iexpn_tbl (mem t)) (unat (entry - n)) w; Some ((mem t)\<lparr>iexpn_tbl := x\<rparr>) });
       let prev_entry = ix_prev_index sw;
       if prev_entry = 0 then Some (set_mem t m1)
       else do {
         let (tbl_type, p) = (if prev_entry < n then (INDX_TBL, prev_entry) else (INDEX_EXPN_TBL, prev_entry - n));
         let offset = (ucast (get_index_entry_offset t p) :: u16) + 2;
         Some (set_mem t (write_next_index k tbl_type entry (ucast offset) m1))
       }
     }"

text \<open>The offset of a base entry lacks \<open>tbl_addr_offset\<close> here.\<close>

definition post_ipv4_dma_cmd :: "nat_kernel \<Rightarrow> u16 \<Rightarrow> ip4_tbl \<Rightarrow> int \<times> ip4_tbl" where
  "post_ipv4_dma_cmd k entry t =
     (if \<not> malloc_cmd_ok k then (- ENOMEM, t)
      else
        (let cmd = (if entry < table_entries t
                    then \<lparr>dma_base_addr = BASE_TBL, dma_data = 0x8000, dma_offset = 32 * ucast entry + 18\<rparr>
                    else \<lparr>dma_base_addr = EXPN_TBL, dma_data = 0x8000,
                          dma_offset = 32 * ucast (entry - table_entries t) + 18 + tbl_addr_offset t\<rparr>)
         in case dma k [cmd] (mem t) of None \<Rightarrow> (- EIO, t) | Some m \<Rightarrow> (0, set_mem t m)))"

text \<open>The message for an invalid PDN reads \<open>pdns\<close> at the index it complains about.\<close>

definition nati_add_ipv4_rule :: "nat_kernel \<Rightarrow> u32 \<Rightarrow> client_rule \<Rightarrow> nat_drv \<Rightarrow> ((int \<times> u32 option) \<times> nat_drv) option" where
  "nati_add_ipv4_rule k tbl_hdl c g =
     do {
       p \<leftarrow> fetch (pdns g) (unat (cl_pdn_index c));
       if pi_public_ip p = 0 then Some ((- EINVAL, None), g)
       else do {
         let ti = unat (tbl_hdl - 1);
         t \<leftarrow> fetch (ip4_tbls g) ti;
         gen \<leftarrow> generate_rule (ver g \<ge> hw_v4_0 k) (pi_public_ip p) c t;
         (case gen of
            Inl _ \<Rightarrow> Some ((- EINVAL, None), g)
          | Inr (new_entry, sw, new_index_entry, isw, t) \<Rightarrow> do {
              t \<leftarrow> copy_ipv4_rule_to_hw k sw new_entry t;
              t \<leftarrow> copy_ipv4_index_rule_to_hw k isw new_index_entry t;
              let (err, t) = post_ipv4_dma_cmd k new_entry t;
              if err \<noteq> 0 then Some ((- EIO, None), set_tbl g ti t)
              else do {
                (hdl, t) \<leftarrow> make_rule_hdl t new_entry;
                Some ((if hdl = 0 then - EINVAL else 0, Some (ucast hdl)), set_tbl g ti t)
              }
            })
       }
     }"

section \<open>Deleting a rule\<close>

definition rules_of :: "bool \<Rightarrow> nat_mem \<Rightarrow> nat_rule list" where
  "rules_of expn m = (if expn then expn_tbl m else base_tbl m)"

definition set_rules :: "bool \<Rightarrow> nat_rule list \<Rightarrow> nat_mem \<Rightarrow> nat_mem" where
  "set_rules expn xs m = (if expn then m\<lparr>expn_tbl := xs\<rparr> else m\<lparr>base_tbl := xs\<rparr>)"

definition indexes_of :: "bool \<Rightarrow> nat_mem \<Rightarrow> u32 list" where
  "indexes_of expn m = (if expn then iexpn_tbl m else indx_tbl m)"

definition set_indexes :: "bool \<Rightarrow> u32 list \<Rightarrow> nat_mem \<Rightarrow> nat_mem" where
  "set_indexes expn xs m = (if expn then m\<lparr>iexpn_tbl := xs\<rparr> else m\<lparr>indx_tbl := xs\<rparr>)"

definition find_index_rule_pos :: "u16 \<Rightarrow> ip4_tbl \<Rightarrow> del_type option" where
  "find_index_rule_pos tbl_entry t =
     (if tbl_entry \<ge> table_entries t
      then do {
        w \<leftarrow> fetch (iexpn_tbl (mem t)) (unat (tbl_entry - table_entries t));
        Some (if index_next w = 0 then DEL_LAST else DEL_MIDDLE)
      }
      else do {
        w \<leftarrow> fetch (indx_tbl (mem t)) (unat tbl_entry);
        Some (if index_next w = 0 then DEL_ONLY_ONE else DEL_HEAD)
      })"

definition find_rule_pos :: "bool \<Rightarrow> u16 \<Rightarrow> ip4_tbl \<Rightarrow> del_type option" where
  "find_rule_pos expn tbl_entry t =
     (if expn
      then do {
        r \<leftarrow> fetch (expn_tbl (mem t)) (unat tbl_entry);
        Some (if rule_next r = 0 then DEL_LAST else DEL_MIDDLE)
      }
      else do {
        r \<leftarrow> fetch (base_tbl (mem t)) (unat tbl_entry);
        Some (if rule_next r = 0 then DEL_ONLY_ONE else DEL_HEAD)
      })"

text \<open>\<open>cmd\<close> holds \<open>cmd->entries\<close> commands. Without memory for the copy the order stays.\<close>

definition is_index_cmd :: "dma_one \<Rightarrow> bool" where
  "is_index_cmd c \<longleftrightarrow> dma_base_addr c = INDX_TBL \<or> dma_base_addr c = INDEX_EXPN_TBL"

definition ReorderCmds :: "nat_kernel \<Rightarrow> dma_one list \<Rightarrow> dma_one list" where
  "ReorderCmds k cmd =
     (case first_idx is_index_cmd cmd of
        None \<Rightarrow> cmd
      | Some indx_tbl_start \<Rightarrow>
          if indx_tbl_start = 0 \<or> \<not> malloc_reorder_ok k then cmd
          else drop indx_tbl_start cmd @ take indx_tbl_start cmd)"

text \<open>The command that takes the rule \<open>r\<close> out of its list.\<close>

definition rule_del_cmd :: "ip4_tbl \<Rightarrow> u16 \<Rightarrow> nat_rule \<Rightarrow> del_type \<Rightarrow> dma_one" where
  "rule_del_cmd t cur_tbl_entry r rule_pos =
     (let n = table_entries t;
          prev_entry = rule_prev r;
          ptype = (if prev_entry \<ge> n then EXPN_TBL else BASE_TBL);
          p = (if prev_entry \<ge> n then prev_entry - n else prev_entry)
      in case rule_pos of
        DEL_ONLY_ONE \<Rightarrow> \<lparr>dma_base_addr = BASE_TBL, dma_data = 0x0000,
                         dma_offset = get_entry_offset t cur_tbl_entry + 18\<rparr>
      | DEL_HEAD \<Rightarrow> \<lparr>dma_base_addr = BASE_TBL, dma_data = 0xFF00,
                     dma_offset = get_entry_offset t cur_tbl_entry + 22\<rparr>
      | DEL_MIDDLE \<Rightarrow> \<lparr>dma_base_addr = ptype, dma_data = rule_next r,
                       dma_offset = get_entry_offset t p + 8\<rparr>
      | DEL_LAST \<Rightarrow> \<lparr>dma_base_addr = ptype, dma_data = 0,
                     dma_offset = get_entry_offset t p + 8\<rparr>)"

text \<open>
  The commands for the index table. \<open>i\<close> is the place of the rule's index entry in its table; the
  head of a list of several is overwritten with its successor.
\<close>

definition index_del_cmds :: "ip4_tbl \<Rightarrow> u16 \<Rightarrow> u32 \<Rightarrow> del_type \<Rightarrow> dma_one list option" where
  "index_del_cmds t i w indx_rule_pos =
     (let n = table_entries t in
      case indx_rule_pos of
        DEL_ONLY_ONE \<Rightarrow>
          Some [\<lparr>dma_base_addr = INDX_TBL, dma_data = 0, dma_offset = get_index_entry_offset t i + 0\<rparr>]
      | DEL_HEAD \<Rightarrow> do {
          nw \<leftarrow> fetch (iexpn_tbl (mem t)) (unat (index_next w - n));
          Some [\<lparr>dma_base_addr = INDX_TBL, dma_data = index_entry nw,
                 dma_offset = get_index_entry_offset t i + 0\<rparr>,
                \<lparr>dma_base_addr = INDX_TBL, dma_data = index_next nw,
                 dma_offset = get_index_entry_offset t i + 2\<rparr>]
        }
      | _ \<Rightarrow> do {
          prev_entry \<leftarrow> fetch (index_expn_table_meta t) (unat i);
          let ptype = (if prev_entry \<ge> n then INDEX_EXPN_TBL else INDX_TBL);
          let p = (if prev_entry \<ge> n then prev_entry - n else prev_entry);
          Some [\<lparr>dma_base_addr = ptype, dma_data = (if indx_rule_pos = DEL_MIDDLE then index_next w else 0),
                 dma_offset = get_index_entry_offset t p + 2\<rparr>]
        })"

text \<open>
  After the commands: the successor of a rule in the middle gets its previous index, and the
  rule is cleared unless it is the head of a list.
\<close>

definition rule_cleanup :: "bool \<Rightarrow> u16 \<Rightarrow> del_type \<Rightarrow> ip4_tbl \<Rightarrow> ip4_tbl option" where
  "rule_cleanup expn cur_tbl_entry rule_pos t =
     do {
       (expn', m) \<leftarrow> (if rule_pos = DEL_MIDDLE
         then do {
           r \<leftarrow> fetch (rules_of expn (mem t)) (unat cur_tbl_entry);
           let next_entry = unat (rule_next r - table_entries t);
           nr \<leftarrow> fetch (expn_tbl (mem t)) next_entry;
           e \<leftarrow> store_at (expn_tbl (mem t)) next_entry
                  (UpdateSwSpecParams nr SW_PARAM_PREV_INDX (ucast (rule_prev r)));
           Some (True, (mem t)\<lparr>expn_tbl := e\<rparr>)
         }
         else Some (expn, mem t));
       if rule_pos = DEL_HEAD then Some (set_mem t m)
       else do {
         xs \<leftarrow> store_at (rules_of expn' m) (unat cur_tbl_entry) zero_rule;
         Some (set_mem t (set_rules expn' xs m))
       }
     }"

text \<open>
  The head of an index list has taken over its successor \<open>j\<close>: the previous index of the
  entry behind \<open>j\<close>, the entry \<open>j\<close> itself and the rule that was found by \<open>j\<close> are updated.
\<close>

definition index_head_cleanup :: "u16 \<Rightarrow> u16 \<Rightarrow> ip4_tbl \<Rightarrow> ip4_tbl option" where
  "index_head_cleanup i j t =
     do {
       let n = table_entries t;
       jw \<leftarrow> fetch (iexpn_tbl (mem t)) (unat j);
       let nn = index_next jw;
       meta \<leftarrow> (if nn \<noteq> 0 \<and> nn \<ge> n then store_at (index_expn_table_meta t) (unat (nn - n)) i
                else Some (index_expn_table_meta t));
       x \<leftarrow> store_at (iexpn_tbl (mem t)) (unat j) 0;
       let m = (mem t)\<lparr>iexpn_tbl := x\<rparr>;
       hw \<leftarrow> fetch (indx_tbl m) (unat i);
       let table_entry = index_entry hw;
       let expn = (table_entry \<ge> n);
       let e = unat (if expn then table_entry - n else table_entry);
       r \<leftarrow> fetch (rules_of expn m) e;
       xs \<leftarrow> store_at (rules_of expn m) e (UpdateSwSpecParams r SW_PARAM_INDX_TBL_ENTRY (ucast i));
       Some (t\<lparr>index_expn_table_meta := meta, mem := set_rules expn xs m\<rparr>)
     }"

definition index_cleanup :: "bool \<Rightarrow> u16 \<Rightarrow> del_type \<Rightarrow> ip4_tbl \<Rightarrow> ip4_tbl option" where
  "index_cleanup iexpn i indx_rule_pos t =
     do {
       let n = table_entries t;
       w \<leftarrow> fetch (indexes_of iexpn (mem t)) (unat i);
       meta \<leftarrow> (if indx_rule_pos = DEL_MIDDLE
         then do {
           let next_entry = index_next w;
           let ne = unat (if next_entry \<ge> n then next_entry - n else next_entry);
           p \<leftarrow> fetch (index_expn_table_meta t) (unat i);
           meta \<leftarrow> store_at (index_expn_table_meta t) ne p;
           store_at meta (unat i) 0
         }
         else Some (index_expn_table_meta t));
       xs \<leftarrow> store_at (indexes_of iexpn (mem t)) (unat i) 0;
       Some (t\<lparr>index_expn_table_meta := meta, mem := set_indexes iexpn xs (mem t)\<rparr>)
     }"

definition post_del_dma_cmd :: "nat_kernel \<Rightarrow> u16 \<Rightarrow> bool \<Rightarrow> del_type \<Rightarrow> ip4_tbl \<Rightarrow> (int \<times> ip4_tbl) option" where
  "post_del_dma_cmd k cur_tbl_entry expn rule_pos t =
     (if \<not> malloc_cmd_ok k then Some (- ENOMEM, t)
      else do {
        let n = table_entries t;
        r \<leftarrow> fetch (rules_of expn (mem t)) (unat cur_tbl_entry);
        if \<not> rule_enabled r then Some (- EINVAL, t)
        else do {
          let indx_tbl_entry = rule_index r;
          let c = rule_del_cmd t cur_tbl_entry r rule_pos;
          indx_rule_pos \<leftarrow> find_index_rule_pos indx_tbl_entry t;
          let iexpn = (indx_tbl_entry \<ge> n);
          let i = (if iexpn then indx_tbl_entry - n else indx_tbl_entry);
          w \<leftarrow> fetch (indexes_of iexpn (mem t)) (unat i);
          cs \<leftarrow> index_del_cmds t i w indx_rule_pos;
          (case dma k (ReorderCmds k (c # cs)) (mem t) of
             None \<Rightarrow> Some (- EIO, t)
           | Some m \<Rightarrow> do {
               t \<leftarrow> rule_cleanup expn cur_tbl_entry rule_pos (set_mem t m);
               t \<leftarrow> (if indx_rule_pos = DEL_HEAD then index_head_cleanup i (index_next w - n) t
                     else index_cleanup iexpn i indx_rule_pos t);
               Some (0, t)
             })
        }
      })"

definition is_dead_head :: "u8 \<Rightarrow> nat_rule \<Rightarrow> bool" where
  "is_dead_head invalid r \<longleftrightarrow>
     Read8BitFieldValue (ts_proto r) PROTOCOL_FIELD = invalid \<and> rule_next r = 0"

definition del_dead_ipv4_head_nodes :: "nat_kernel \<Rightarrow> ip4_tbl \<Rightarrow> ip4_tbl option" where
  "del_dead_ipv4_head_nodes k t =
     (let n = unat (table_entries t); b = base_tbl (mem t) in
      if n \<le> length b
      then Some (set_mem t ((mem t)\<lparr>base_tbl :=
        map (\<lambda>r. if is_dead_head (invalid_protocol k) r then zero_rule else r) (take n b) @ drop n b\<rparr>))
      else None)"

definition nati_del_ipv4_rule :: "nat_kernel \<Rightarrow> u32 \<Rightarrow> u32 \<Rightarrow> nat_drv \<Rightarrow> (int \<times> nat_drv) option" where
  "nati_del_ipv4_rule k tbl_hdl rule_hdl g =
     do {
       let ti = unat (ucast (tbl_hdl - 1) :: u8);
       t \<leftarrow> fetch (ip4_tbls g) ti;
       (expn, tbl_entry) \<leftarrow> parse_rule_hdl t (ucast rule_hdl);
       if tbl_entry = 0 then Some (- EINVAL, g)
       else if \<not> lock_ok k then Some (- 1, g)
       else if \<not> valid t then Some (- EINVAL, g)
       else do {
         rule_pos \<leftarrow> find_rule_pos expn tbl_entry t;
         (err, t1) \<leftarrow> post_del_dma_cmd k tbl_entry expn rule_pos t;
         if err \<noteq> 0 then Some (- EINVAL, set_tbl g ti t1)
         else do {
           t2 \<leftarrow> del_dead_ipv4_head_nodes k t1;
           ids \<leftarrow> store_at (rule_id_array t2) (unat (rule_hdl - 1)) 0;
           Some (if unlock_ok k then 0 else - 1, set_tbl g ti (t2\<lparr>rule_id_array := ids\<rparr>))
         }
       }
     }"

section \<open>The client interface\<close>

definition MAX_IP4_TBLS :: u32 where "MAX_IP4_TBLS = 1"

definition ipa_nat_add_ipv4_tbl :: "nat_kernel \<Rightarrow> u32 \<Rightarrow> u16 \<Rightarrow> nat_drv \<Rightarrow> ((int + u32) \<times> nat_drv) option" where
  "ipa_nat_add_ipv4_tbl k public_ip_addr number_of_entries g =
     (if number_of_entries = 0 then Some (Inl (- EINVAL), g)
      else map_option (\<lambda>(r, g). (case r of Inl _ \<Rightarrow> Inl (- EINVAL) | Inr h \<Rightarrow> Inr h, g))
             (nati_add_ipv4_tbl k public_ip_addr number_of_entries g))"

definition ipa_nat_del_ipv4_tbl :: "nat_kernel \<Rightarrow> u32 \<Rightarrow> nat_drv \<Rightarrow> (int \<times> nat_drv) option" where
  "ipa_nat_del_ipv4_tbl k tbl_hdl g =
     (if tbl_hdl = 0 \<or> tbl_hdl > MAX_IP4_TBLS then Some (- EINVAL, g)
      else nati_del_ipv4_table k tbl_hdl g)"

definition ipa_nat_add_ipv4_rule :: "nat_kernel \<Rightarrow> u32 \<Rightarrow> client_rule \<Rightarrow> nat_drv \<Rightarrow> ((int \<times> u32 option) \<times> nat_drv) option" where
  "ipa_nat_add_ipv4_rule k tbl_hdl clnt_rule g =
     (if tbl_hdl = 0 \<or> tbl_hdl > MAX_IP4_TBLS then Some ((- EINVAL, None), g)
      else map_option (\<lambda>((err, hdl), g). ((if err \<noteq> 0 then - EINVAL else 0, hdl), g))
             (nati_add_ipv4_rule k tbl_hdl clnt_rule g))"

definition ipa_nat_del_ipv4_rule :: "nat_kernel \<Rightarrow> u32 \<Rightarrow> u32 \<Rightarrow> nat_drv \<Rightarrow> (int \<times> nat_drv) option" where
  "ipa_nat_del_ipv4_rule k tbl_hdl rule_hdl g =
     (if tbl_hdl = 0 \<or> rule_hdl = 0 then Some (- EINVAL, g)
      else nati_del_ipv4_rule k tbl_hdl rule_hdl g)"

definition ipa_nat_query_timestamp :: "nat_kernel \<Rightarrow> u32 \<Rightarrow> u32 \<Rightarrow> nat_drv \<Rightarrow> (int \<times> u32 option) option" where
  "ipa_nat_query_timestamp k tbl_hdl rule_hdl g =
     (if tbl_hdl = 0 \<or> tbl_hdl > MAX_IP4_TBLS then Some (- EINVAL, None)
      else nati_query_timestamp k tbl_hdl rule_hdl g)"

text \<open>The guard lets the index \<open>max_pdn_num\<close> through.\<close>

definition ipa_nat_modify_pdn :: "nat_kernel \<Rightarrow> u32 \<Rightarrow> u8 \<Rightarrow> pdn_info \<Rightarrow> nat_drv \<Rightarrow> (int \<times> nat_drv) option" where
  "ipa_nat_modify_pdn k tbl_hdl pdn_index pdn_info g =
     (if tbl_hdl = 0 \<or> tbl_hdl > MAX_IP4_TBLS then Some (- EINVAL, g)
      else if unat pdn_index > max_pdn_num k then Some (- EINVAL, g)
      else nati_modify_pdn k pdn_index pdn_info g)"

end
