(* ===== verification/Nat_Fields.thy ===== *)
theory Nat_Fields
  imports Nat_Driver
begin

text \<open>
  The packed words of the NAT tables read back: what each field of a rule and of an index entry
  is after \<open>pack_rule\<close>, \<open>UpdateSwSpecParams\<close> and a DMA write.
\<close>

named_theorems field_simps

lemma half_masks:
  "(0xFFFF0000 :: u32) = push_bit 16 (Bit_Operations.mask 16)" "(0x0000FFFF :: u32) = Bit_Operations.mask 16"
  by (simp_all add: mask_eq_exp_minus_1 push_bit_eq_mult)

lemma lo_two16: "(ucast (two16 a b) :: u16) = a"
  by (rule bit_word_eqI) (simp add: two16_def bit_simps)

lemma hi_two16: "(ucast (drop_bit 16 (two16 a b)) :: u16) = b"
  by (rule bit_word_eqI) (auto simp: two16_def bit_simps dest: bit_imp_le_length)

lemma lo_set_lo16: "(ucast (set_lo16 w v) :: u16) = v"
  unfolding set_lo16_def half_masks by (rule bit_word_eqI) (simp add: bit_simps)

lemma hi_set_lo16: "(ucast (drop_bit 16 (set_lo16 w v)) :: u16) = ucast (drop_bit 16 w)"
  unfolding set_lo16_def half_masks by (rule bit_word_eqI) (auto simp: bit_simps dest: bit_imp_le_length)

lemma lo_set_hi16: "(ucast (set_hi16 w v) :: u16) = ucast w"
  unfolding set_hi16_def half_masks by (rule bit_word_eqI) (simp add: bit_simps)

lemma hi_set_hi16: "(ucast (drop_bit 16 (set_hi16 w v)) :: u16) = v"
  unfolding set_hi16_def half_masks by (rule bit_word_eqI) (auto simp: bit_simps dest: bit_imp_le_length)

lemmas half_reads = lo_two16 hi_two16 lo_set_lo16 hi_set_lo16 lo_set_hi16 hi_set_hi16

lemma top_bit_set_hi16: "(ucast (drop_bit 31 (set_hi16 w v)) :: u16) = ucast (drop_bit 15 v)"
  unfolding set_hi16_def half_masks
  by (rule bit_word_eqI) (auto simp: bit_simps dest: bit_imp_le_length)

lemma top_byte_set_hi16: "(ucast (drop_bit 24 (set_hi16 w v)) :: u8) = ucast (drop_bit 8 v)"
  unfolding set_hi16_def half_masks
  by (rule bit_word_eqI) (auto simp: bit_simps dest: bit_imp_le_length)

section \<open>Rules\<close>

lemma UpdateSwSpecParams_halves:
  "UpdateSwSpecParams r SW_PARAM_PREV_INDX (ucast v) = r\<lparr>sw_spec_params := set_lo16 (sw_spec_params r) v\<rparr>"
  "UpdateSwSpecParams r SW_PARAM_INDX_TBL_ENTRY (ucast v) = r\<lparr>sw_spec_params := set_hi16 (sw_spec_params r) v\<rparr>"
  by (simp_all add: UpdateSwSpecParams_def set_lo16_def set_hi16_def)

lemmas field_defs = rule_enabled_def rule_next_def rule_prev_def rule_index_def rule_protocol_def
  index_entry_def index_next_def Read16BitFieldValue_def Read8BitFieldValue_def

lemma drop_chksum: "drop_bit 31 (ucast (c :: u16) :: u32) = 0"
  by (rule bit_word_eqI) (auto simp: bit_simps dest: bit_imp_le_length)

lemma enabled_pack [field_simps]: "rule_enabled (pack_rule s) \<longleftrightarrow> sw_enable s"
  by (simp add: field_defs pack_rule_def drop_bit_or drop_chksum)

lemma links_pack [field_simps]:
  "rule_next (pack_rule s) = sw_next_index s" "rule_prev (pack_rule s) = sw_prev_index s"
  "rule_index (pack_rule s) = sw_indx_tbl_entry s"
  by (simp_all add: field_defs pack_rule_def half_reads)

lemma protocol_pack [field_simps]: "rule_protocol (pack_rule s) = sw_protocol s"
proof -
  have "(ucast (drop_bit 24 (ucast (sw_time_stamp s) OR push_bit 24 (ucast (sw_protocol s)) :: u32)) :: u8) = sw_protocol s"
    by (rule bit_word_eqI) (auto simp: bit_simps dest: bit_imp_le_length)
  then show ?thesis by (simp add: field_defs pack_rule_def)
qed

lemma fields_zero [field_simps]:
  "\<not> rule_enabled zero_rule" "rule_next zero_rule = 0" "rule_prev zero_rule = 0" "rule_index zero_rule = 0"
  "rule_protocol zero_rule = 0" "index_entry 0 = 0" "index_next 0 = 0"
  by (simp_all add: field_defs zero_rule_def)

lemma fields_next [field_simps]:
  "rule_next (r\<lparr>nxt_indx_pub_port := set_lo16 w v\<rparr>) = v"
  "rule_prev (r\<lparr>nxt_indx_pub_port := w'\<rparr>) = rule_prev r"
  "rule_index (r\<lparr>nxt_indx_pub_port := w'\<rparr>) = rule_index r"
  "rule_enabled (r\<lparr>nxt_indx_pub_port := w'\<rparr>) = rule_enabled r"
  "rule_protocol (r\<lparr>nxt_indx_pub_port := w'\<rparr>) = rule_protocol r"
  by (simp_all add: field_defs half_reads)

lemma fields_flags [field_simps]:
  "rule_enabled (r\<lparr>ip_cksm_enbl := set_hi16 w 0x8000\<rparr>)"
  "\<not> rule_enabled (r\<lparr>ip_cksm_enbl := set_hi16 w 0\<rparr>)"
  "rule_next (r\<lparr>ip_cksm_enbl := w'\<rparr>) = rule_next r"
  "rule_prev (r\<lparr>ip_cksm_enbl := w'\<rparr>) = rule_prev r"
  "rule_index (r\<lparr>ip_cksm_enbl := w'\<rparr>) = rule_index r"
  "rule_protocol (r\<lparr>ip_cksm_enbl := w'\<rparr>) = rule_protocol r"
  by (simp_all add: field_defs top_bit_set_hi16)

lemma fields_proto [field_simps]:
  "rule_protocol (r\<lparr>ts_proto := set_hi16 w 0xFF00\<rparr>) = 0xFF"
  "rule_enabled (r\<lparr>ts_proto := w'\<rparr>) = rule_enabled r"
  "rule_next (r\<lparr>ts_proto := w'\<rparr>) = rule_next r"
  "rule_prev (r\<lparr>ts_proto := w'\<rparr>) = rule_prev r"
  "rule_index (r\<lparr>ts_proto := w'\<rparr>) = rule_index r"
  by (simp_all add: field_defs top_byte_set_hi16)

lemma fields_prev [field_simps]:
  "rule_prev (UpdateSwSpecParams r SW_PARAM_PREV_INDX (ucast v)) = v"
  "rule_index (UpdateSwSpecParams r SW_PARAM_PREV_INDX (ucast v)) = rule_index r"
  "rule_index (UpdateSwSpecParams r SW_PARAM_INDX_TBL_ENTRY (ucast v)) = v"
  "rule_prev (UpdateSwSpecParams r SW_PARAM_INDX_TBL_ENTRY (ucast v)) = rule_prev r"
  by (simp_all only: UpdateSwSpecParams_halves) (simp_all add: field_defs half_reads)

lemma fields_spec [field_simps]:
  "rule_next (UpdateSwSpecParams r p x) = rule_next r"
  "rule_enabled (UpdateSwSpecParams r p x) = rule_enabled r"
  "rule_protocol (UpdateSwSpecParams r p x) = rule_protocol r"
  by (simp_all add: UpdateSwSpecParams_def field_defs Let_def split: sw_param.split)

lemma fields_index [field_simps]:
  "index_entry (two16 a b) = a" "index_next (two16 a b) = b"
  "index_entry (set_lo16 w v) = v" "index_next (set_lo16 w v) = index_next w"
  "index_entry (set_hi16 w v) = index_entry w" "index_next (set_hi16 w v) = v"
  by (simp_all add: field_defs half_reads)

section \<open>The client's rule in the table\<close>

text \<open>What a rule in the table says of the client's rule; the links do not matter for it.\<close>

definition client_of :: "nat_rule \<Rightarrow> client_rule" where
  "client_of r = \<lparr>cl_target_ip = nr_target_ip r, cl_private_ip = nr_private_ip r,
     cl_target_port = nr_target_port r, cl_private_port = nr_private_port r,
     cl_public_port = Read16BitFieldValue (nxt_indx_pub_port r) PUBLIC_PORT_FILED,
     cl_protocol = rule_protocol r, cl_pdn_index = ucast (nr_pdn_index r)\<rparr>"

lemma client_of_links [field_simps]:
  "client_of (r\<lparr>nxt_indx_pub_port := set_lo16 (nxt_indx_pub_port r) v\<rparr>) = client_of r"
  "client_of (r\<lparr>ip_cksm_enbl := w\<rparr>) = client_of r"
  "client_of (UpdateSwSpecParams r p x) = client_of r"
  by (simp_all add: client_of_def field_simps hi_set_lo16 Read16BitFieldValue_def)
    (simp add: UpdateSwSpecParams_def Let_def split: sw_param.split)

lemma ucast_pdn: "x < 16 \<Longrightarrow> (ucast (ucast (x :: u8) :: 4 word) :: u8) = x"
proof -
  assume "x < 16"
  then have "take_bit 4 x = x"
    using less_mask_eq [of x 4] by (simp add: take_bit_eq_mask mask_eq_exp_minus_1)
  then show ?thesis by (simp add: unsigned_ucast_eq)
qed

lemma client_of_pack_rule:
  "client_of (pack_rule s) = \<lparr>cl_target_ip = sw_target_ip s, cl_private_ip = sw_private_ip s,
     cl_target_port = sw_target_port s, cl_private_port = sw_private_port s,
     cl_public_port = sw_public_port s, cl_protocol = sw_protocol s,
     cl_pdn_index = ucast (sw_pdn_index s)\<rparr>"
  by (simp add: client_of_def protocol_pack) (simp add: pack_rule_def Read16BitFieldValue_def hi_two16)

lemma client_of_pack:
  "cl_pdn_index c < 16 \<Longrightarrow>
   client_of (pack_rule ((new_sw_rule pub c)\<lparr>sw_prev_index := p, sw_indx_tbl_entry := i\<rparr>)) = c"
  by (simp add: client_of_pack_rule new_sw_rule_def ucast_pdn)

end
