(* ===== verification/Nat_Chains.thy ===== *)
theory Nat_Chains
  imports Ipa_Prelude
begin

text \<open>
  Tables with collision lists, as the NAT driver keeps two of them: a head per hash value and
  an area of expansion entries that are linked behind the heads. The links are functions from
  addresses to addresses, and 0 is the end of a list; the lemmas are about pointwise changes of
  these functions, so that they hold for both tables whatever their entries look like.

  \<^item> \<open>path nx a xs\<close>: following \<open>nx\<close> from \<open>a\<close> visits \<open>xs\<close> and ends. \<open>backs pv a xs\<close>: the previous
    links of \<open>xs\<close> lead back to \<open>a\<close>.
  \<^item> \<open>chains H E nx pv occ C\<close>: with heads \<open>H\<close> and expansion entries \<open>E\<close>, the lists are \<open>C\<close>, and
    the occupied expansion entries are exactly their members.
\<close>

fun path :: "('a \<Rightarrow> 'a) \<Rightarrow> 'a \<Rightarrow> 'a :: zero list \<Rightarrow> bool" where
  "path nx a [] \<longleftrightarrow> nx a = 0"
| "path nx a (b # bs) \<longleftrightarrow> nx a = b \<and> b \<noteq> 0 \<and> path nx b bs"

fun backs :: "('a \<Rightarrow> 'a) \<Rightarrow> 'a \<Rightarrow> 'a list \<Rightarrow> bool" where
  "backs pv a [] \<longleftrightarrow> True"
| "backs pv a (b # bs) \<longleftrightarrow> pv b = a \<and> backs pv b bs"

lemma path_cong: "(\<And>x. x \<in> insert a (set xs) \<Longrightarrow> nx x = nx' x) \<Longrightarrow> path nx a xs = path nx' a xs"
  by (induction xs arbitrary: a) auto

lemma backs_cong: "(\<And>x. x \<in> set xs \<Longrightarrow> pv x = pv' x) \<Longrightarrow> backs pv a xs = backs pv' a xs"
  by (induction xs arbitrary: a) auto

lemma path_unique: "path nx a xs \<Longrightarrow> path nx a ys \<Longrightarrow> xs = ys"
proof (induction xs arbitrary: a ys)
  case Nil
  then show ?case by (cases ys) auto
next
  case (Cons x xs)
  then show ?case by (cases ys) auto
qed

lemma backs_append: "backs pv a (xs @ ys) \<longleftrightarrow> backs pv a xs \<and> backs pv (last (a # xs)) ys"
  by (induction xs arbitrary: a) auto

text \<open>The part of a path up to an entry: the links inside, and the link out of the last.\<close>

fun links :: "('a \<Rightarrow> 'a) \<Rightarrow> 'a \<Rightarrow> 'a :: zero list \<Rightarrow> bool" where
  "links nx a [] \<longleftrightarrow> True"
| "links nx a (b # bs) \<longleftrightarrow> nx a = b \<and> b \<noteq> 0 \<and> links nx b bs"

lemma path_append: "path nx a (xs @ ys) \<longleftrightarrow> links nx a xs \<and> path nx (last (a # xs)) ys"
  by (induction xs arbitrary: a) auto

lemma links_cong:
  "(\<And>x. x \<in> set (butlast (a # xs)) \<Longrightarrow> nx x = nx' x) \<Longrightarrow> links nx a xs = links nx' a xs"
proof (induction xs arbitrary: a)
  case Nil
  then show ?case by simp
next
  case (Cons b bs)
  have "links nx b bs = links nx' b bs" by (rule Cons.IH) (use Cons.prems in auto)
  moreover have "nx a = nx' a" by (rule Cons.prems) simp
  ultimately show ?case by simp
qed

lemma last_notin_butlast: "distinct (a # xs) \<Longrightarrow> last (a # xs) \<notin> set (butlast (a # xs))"
  by (metis append_butlast_last_id distinct_butlast list.distinct(1) not_distinct_conv_prefix)

lemma last_or: "last (a # xs) = a \<or> last (a # xs) \<in> set xs"
  by (cases xs rule: rev_cases) auto

section \<open>Tables\<close>

definition chains ::
  "'a set \<Rightarrow> 'a set \<Rightarrow> ('a \<Rightarrow> 'a) \<Rightarrow> ('a \<Rightarrow> 'a) \<Rightarrow> ('a \<Rightarrow> bool) \<Rightarrow> ('a :: zero \<Rightarrow> 'a list) \<Rightarrow> bool"
where
  "chains H E nx pv occ C \<longleftrightarrow>
     0 \<notin> H \<and> 0 \<notin> E \<and> H \<inter> E = {} \<and>
     (\<forall>h \<in> H. path nx h (C h) \<and> backs pv h (C h) \<and> distinct (C h) \<and> set (C h) \<subseteq> {x \<in> E. occ x} \<and>
        (\<not> occ h \<longrightarrow> C h = [])) \<and>
     (\<forall>g \<in> H. \<forall>h \<in> H. g \<noteq> h \<longrightarrow> set (C g) \<inter> set (C h) = {}) \<and>
     (\<forall>x \<in> E. occ x \<longrightarrow> (\<exists>h \<in> H. x \<in> set (C h)))"

lemma chainsI:
  assumes "0 \<notin> H" "0 \<notin> E" "H \<inter> E = {}"
    and "\<And>h. h \<in> H \<Longrightarrow> path nx h (C h)"
    and "\<And>h. h \<in> H \<Longrightarrow> backs pv h (C h)"
    and "\<And>h. h \<in> H \<Longrightarrow> distinct (C h)"
    and "\<And>h x. h \<in> H \<Longrightarrow> x \<in> set (C h) \<Longrightarrow> x \<in> E \<and> occ x"
    and "\<And>h. h \<in> H \<Longrightarrow> \<not> occ h \<Longrightarrow> C h = []"
    and "\<And>g h x. g \<in> H \<Longrightarrow> h \<in> H \<Longrightarrow> x \<in> set (C g) \<Longrightarrow> x \<in> set (C h) \<Longrightarrow> g = h"
    and "\<And>x. x \<in> E \<Longrightarrow> occ x \<Longrightarrow> \<exists>h \<in> H. x \<in> set (C h)"
  shows "chains H E nx pv occ C"
proof -
  have "\<forall>h \<in> H. path nx h (C h) \<and> backs pv h (C h) \<and> distinct (C h) \<and> set (C h) \<subseteq> {x \<in> E. occ x} \<and>
          (\<not> occ h \<longrightarrow> C h = [])"
    using assms(4-8) by blast
  moreover have "\<forall>g \<in> H. \<forall>h \<in> H. g \<noteq> h \<longrightarrow> set (C g) \<inter> set (C h) = {}"
    using assms(9) by blast
  moreover have "\<forall>x \<in> E. occ x \<longrightarrow> (\<exists>h \<in> H. x \<in> set (C h))" using assms(10) by simp
  ultimately show ?thesis unfolding chains_def using assms(1-3) by simp
qed

lemma chainsD:
  assumes "chains H E nx pv occ C"
  shows "0 \<notin> H" and "0 \<notin> E" and "H \<inter> E = {}"
    and "h \<in> H \<Longrightarrow> path nx h (C h)"
    and "h \<in> H \<Longrightarrow> backs pv h (C h)"
    and "h \<in> H \<Longrightarrow> distinct (C h)"
    and "h \<in> H \<Longrightarrow> x \<in> set (C h) \<Longrightarrow> x \<in> E"
    and "h \<in> H \<Longrightarrow> x \<in> set (C h) \<Longrightarrow> occ x"
    and "h \<in> H \<Longrightarrow> \<not> occ h \<Longrightarrow> C h = []"
    and "g \<in> H \<Longrightarrow> h \<in> H \<Longrightarrow> x \<in> set (C g) \<Longrightarrow> x \<in> set (C h) \<Longrightarrow> g = h"
    and "x \<in> E \<Longrightarrow> occ x \<Longrightarrow> \<exists>h \<in> H. x \<in> set (C h)"
proof -
  note c = assms [unfolded chains_def]
  show "0 \<notin> H" "0 \<notin> E" "H \<inter> E = {}" using c by simp_all
  have s: "path nx h (C h) \<and> backs pv h (C h) \<and> distinct (C h) \<and> set (C h) \<subseteq> {x \<in> E. occ x} \<and>
           (\<not> occ h \<longrightarrow> C h = [])" if "h \<in> H" for h
    using c that by simp
  show "h \<in> H \<Longrightarrow> path nx h (C h)" "h \<in> H \<Longrightarrow> backs pv h (C h)" "h \<in> H \<Longrightarrow> distinct (C h)"
    "h \<in> H \<Longrightarrow> \<not> occ h \<Longrightarrow> C h = []"
    using s by simp_all
  show "h \<in> H \<Longrightarrow> x \<in> set (C h) \<Longrightarrow> x \<in> E" "h \<in> H \<Longrightarrow> x \<in> set (C h) \<Longrightarrow> occ x"
    using s by blast+
  have u: "\<forall>g \<in> H. \<forall>h \<in> H. g \<noteq> h \<longrightarrow> set (C g) \<inter> set (C h) = {}" using c by simp
  show "g \<in> H \<Longrightarrow> h \<in> H \<Longrightarrow> x \<in> set (C g) \<Longrightarrow> x \<in> set (C h) \<Longrightarrow> g = h" using u by blast
  show "x \<in> E \<Longrightarrow> occ x \<Longrightarrow> \<exists>h \<in> H. x \<in> set (C h)" using c by simp
qed

lemma chains_distinct: "chains H E nx pv occ C \<Longrightarrow> h \<in> H \<Longrightarrow> distinct (h # C h)"
  using chainsD(3,6,7) by fastforce

lemma chains_head_notin: "chains H E nx pv occ C \<Longrightarrow> g \<in> H \<Longrightarrow> h \<in> H \<Longrightarrow> g \<notin> set (C h)"
  using chainsD(3,7) by fastforce

lemma chains_cong:
  assumes C: "chains H E nx pv occ C"
    and eq: "\<And>x. x \<in> H \<union> E \<Longrightarrow> nx' x = nx x" "\<And>x. x \<in> E \<Longrightarrow> pv' x = pv x" "\<And>x. x \<in> H \<union> E \<Longrightarrow> occ' x = occ x"
  shows "chains H E nx' pv' occ' C"
proof (rule chainsI)
  fix h assume h: "h \<in> H"
  show "path nx' h (C h)"
    using chainsD(4) [OF C h] path_cong [of h "C h" nx' nx] eq(1) h chainsD(7) [OF C h] by blast
  show "backs pv' h (C h)"
    using chainsD(5) [OF C h] backs_cong [of "C h" pv' pv] eq(2) chainsD(7) [OF C h] by blast
  show "distinct (C h)" by (rule chainsD(6) [OF C h])
  show "\<not> occ' h \<Longrightarrow> C h = []" using chainsD(9) [OF C h] eq(3) h by simp
  fix x assume "x \<in> set (C h)"
  with chainsD(7,8) [OF C h] eq(3) show "x \<in> E \<and> occ' x" by simp
next
  show "0 \<notin> H" "0 \<notin> E" "H \<inter> E = {}" by (rule chainsD [OF C])+
  fix g h x assume "g \<in> H" "h \<in> H" "x \<in> set (C g)" "x \<in> set (C h)"
  then show "g = h" by (rule chainsD(10) [OF C])
next
  fix x assume "x \<in> E" "occ' x"
  then show "\<exists>h \<in> H. x \<in> set (C h)" using chainsD(11) [OF C] eq(3) by simp
qed

text \<open>An entry for a hash value that is not in use.\<close>

lemma chains_new_head:
  assumes C: "chains H E nx pv occ C" and h: "h \<in> H" "\<not> occ h"
    and nx: "nx' h = 0" "\<And>x. x \<in> H \<union> E \<Longrightarrow> x \<noteq> h \<Longrightarrow> nx' x = nx x"
    and pv: "\<And>x. x \<in> E \<Longrightarrow> pv' x = pv x"
    and occ: "\<And>x. x \<in> H \<union> E \<Longrightarrow> x \<noteq> h \<Longrightarrow> occ' x = occ x"
  shows "chains H E nx' pv' occ' C"
proof -
  have e: "C h = []" by (rule chainsD(9) [OF C h])
  have hE: "h \<notin> E" using chainsD(3) [OF C] h by blast
  have n: "g \<in> H \<Longrightarrow> h \<notin> set (C g)" for g using chainsD(7) [OF C] hE by blast
  have p: "g \<in> H \<Longrightarrow> g \<noteq> h \<Longrightarrow> path nx' g (C g)" for g
    using path_cong [of g "C g" nx' nx] nx(2) chainsD(4,7) [OF C] n by (metis Un_iff insertE)
  have b: "g \<in> H \<Longrightarrow> backs pv' g (C g)" for g
    using backs_cong [of "C g" pv' pv] pv chainsD(5,7) [OF C] by blast
  have o: "g \<in> H \<Longrightarrow> x \<in> set (C g) \<Longrightarrow> occ' x" for g x
    using occ chainsD(7,8) [OF C] n by (metis Un_iff)
  show ?thesis
  proof (rule chainsI)
    fix g assume g: "g \<in> H"
    show "path nx' g (C g)" using p [OF g] e nx(1) by (cases "g = h") auto
    show "\<not> occ' g \<Longrightarrow> C g = []" using e occ chainsD(9) [OF C g] g by (cases "g = h") auto
    show "backs pv' g (C g)" by (rule b [OF g])
    show "distinct (C g)" by (rule chainsD(6) [OF C g])
    fix x assume x: "x \<in> set (C g)"
    show "x \<in> E \<and> occ' x" using o [OF g x] chainsD(7) [OF C g x] by simp
  next
    show "0 \<notin> H" "0 \<notin> E" "H \<inter> E = {}" by (rule chainsD [OF C])+
    fix g h x assume "g \<in> H" "h \<in> H" "x \<in> set (C g)" "x \<in> set (C h)"
    then show "g = h" by (rule chainsD(10) [OF C])
  next
    fix x assume x: "x \<in> E" "occ' x"
    then have "occ x" using occ [of x] hE by auto
    then show "\<exists>g \<in> H. x \<in> set (C g)" using chainsD(11) [OF C x(1)] by blast
  qed
qed

text \<open>The head of a list of its own goes.\<close>

lemma chains_del_head:
  assumes C: "chains H E nx pv occ C" and h: "h \<in> H" "C h = []"
    and nx: "nx' h = 0" "\<And>x. x \<in> H \<union> E \<Longrightarrow> x \<noteq> h \<Longrightarrow> nx' x = nx x"
    and pv: "\<And>x. x \<in> E \<Longrightarrow> pv' x = pv x"
    and occ: "\<And>x. x \<in> H \<union> E \<Longrightarrow> x \<noteq> h \<Longrightarrow> occ' x = occ x"
  shows "chains H E nx' pv' occ' C"
proof -
  have "chains H E nx pv (occ(h := False)) C"
  proof (rule chainsI)
    show "0 \<notin> H" "0 \<notin> E" "H \<inter> E = {}" by (rule chainsD [OF C])+
  next
    fix g assume g: "g \<in> H"
    show "path nx g (C g)" "backs pv g (C g)" "distinct (C g)" by (rule chainsD(4-6) [OF C g])+
    show "\<not> (occ(h := False)) g \<Longrightarrow> C g = []" using chainsD(9) [OF C g] h by (auto split: if_splits)
    fix x assume x: "x \<in> set (C g)"
    with chainsD(7,8) [OF C g x] chains_head_notin [OF C h(1) g] show "x \<in> E \<and> (occ(h := False)) x" by auto
  next
    fix g h x assume "g \<in> H" "h \<in> H" "x \<in> set (C g)" "x \<in> set (C h)"
    then show "g = h" by (rule chainsD(10) [OF C])
  next
    fix x assume "x \<in> E" "(occ(h := False)) x"
    then show "\<exists>g \<in> H. x \<in> set (C g)" using chainsD(11) [OF C] by (simp split: if_splits)
  qed
  from chains_new_head [OF this h(1) _ nx pv, of occ'] show ?thesis using occ by simp
qed

text \<open>A new entry behind the last one of a list.\<close>

lemma chains_append:
  assumes C: "chains H E nx pv occ C" and h: "h \<in> H" "occ h" and f: "f \<in> E" "\<not> occ f"
    and nx: "nx' (last (h # C h)) = f" "nx' f = 0"
      "\<And>x. x \<in> H \<union> E \<Longrightarrow> x \<noteq> f \<Longrightarrow> x \<noteq> last (h # C h) \<Longrightarrow> nx' x = nx x"
    and pv: "pv' f = last (h # C h)" "\<And>x. x \<in> E \<Longrightarrow> x \<noteq> f \<Longrightarrow> pv' x = pv x"
    and occ: "occ' f" "\<And>x. x \<in> H \<union> E \<Longrightarrow> x \<noteq> f \<Longrightarrow> occ' x = occ x"
  shows "chains H E nx' pv' occ' (C(h := C h @ [f]))"
proof -
  let ?l = "last (h # C h)"
  have f0: "f \<noteq> 0" using chainsD(2) [OF C] f by blast
  have fH: "f \<notin> H" using chainsD(3) [OF C] f by blast
  have fn: "g \<in> H \<Longrightarrow> f \<notin> set (C g)" for g using chainsD(8) [OF C] f by blast
  have ln: "g \<in> H \<Longrightarrow> g \<noteq> h \<Longrightarrow> ?l \<notin> insert g (set (C g))" for g
  proof -
    assume g: "g \<in> H" "g \<noteq> h"
    from last_or [of h "C h"] show "?l \<notin> insert g (set (C g))"
    proof
      assume e: "?l = h"
      with g chains_head_notin [OF C h(1) g(1)] show ?thesis by (metis insert_iff)
    next
      assume m: "?l \<in> set (C h)"
      have "?l \<notin> set (C g)" using chainsD(10) [OF C g(1) h(1) _ m] g(2) by blast
      moreover have "?l \<noteq> g" using chains_head_notin [OF C g(1) h(1)] m by metis
      ultimately show ?thesis by blast
    qed
  qed
  have po: "path nx' g (C g)" if g: "g \<in> H" "g \<noteq> h" for g
  proof -
    have "path nx' g (C g) = path nx g (C g)"
    proof (rule path_cong)
      fix x assume x: "x \<in> insert g (set (C g))"
      then have "x \<in> H \<union> E" using g chainsD(7) [OF C g(1)] by blast
      moreover have "x \<noteq> f" using x fn [OF g(1)] fH g by blast
      moreover have "x \<noteq> ?l" using x ln [OF g] by metis
      ultimately show "nx' x = nx x" by (rule nx(3))
    qed
    with chainsD(4) [OF C g(1)] show ?thesis by simp
  qed
  have ph: "path nx' h (C h @ [f])"
  proof -
    have d: "distinct (h # C h)" by (rule chains_distinct [OF C h(1)])
    have "links nx' h (C h) = links nx h (C h)"
    proof (rule links_cong)
      fix x assume x: "x \<in> set (butlast (h # C h))"
      then have x': "x \<in> insert h (set (C h))" by (metis in_set_butlastD list.simps(15))
      then have "x \<in> H \<union> E" using h chainsD(7) [OF C h(1)] by blast
      moreover have "x \<noteq> f" using x' fn [OF h(1)] fH h by blast
      moreover have "x \<noteq> ?l" using x last_notin_butlast [OF d] by metis
      ultimately show "nx' x = nx x" by (rule nx(3))
    qed
    moreover have "links nx h (C h)"
      using chainsD(4) [OF C h(1)] path_append [of nx h "C h" "[]"] by simp
    ultimately show ?thesis using nx(1,2) f0 by (simp add: path_append)
  qed
  have bo: "backs pv' g (C g)" if g: "g \<in> H" for g
  proof -
    have "backs pv' g (C g) = backs pv g (C g)"
      by (rule backs_cong) (use pv(2) chainsD(7) [OF C g] fn [OF g] in metis)
    with chainsD(5) [OF C g] show ?thesis by simp
  qed
  have oc: "occ' x" if "g \<in> H" "x \<in> set (C g)" for g x
    using that occ(2) [of x] chainsD(7,8) [OF C that] fn [OF that(1)] by auto
  show ?thesis
  proof (rule chainsI)
    show "0 \<notin> H" "0 \<notin> E" "H \<inter> E = {}" by (rule chainsD [OF C])+
  next
    fix g assume g: "g \<in> H"
    show "path nx' g ((C(h := C h @ [f])) g)" using po [OF g] ph by (cases "g = h") auto
    show "backs pv' g ((C(h := C h @ [f])) g)"
      using bo [OF g] pv(1) by (cases "g = h") (auto simp: backs_append)
    show "distinct ((C(h := C h @ [f])) g)"
      using chainsD(6) [OF C g] fn [OF g] by (cases "g = h") auto
    show "\<not> occ' g \<Longrightarrow> (C(h := C h @ [f])) g = []"
      using chainsD(9) [OF C g] occ(2) [of g] g fH h by (cases "g = h") auto
    fix x assume "x \<in> set ((C(h := C h @ [f])) g)"
    then have "x = f \<or> x \<in> set (C g)" by (auto split: if_splits)
    then show "x \<in> E \<and> occ' x" using f occ(1) chainsD(7) [OF C g] oc [OF g] by blast
  next
    fix g g' x
    assume g: "g \<in> H" "g' \<in> H" "x \<in> set ((C(h := C h @ [f])) g)" "x \<in> set ((C(h := C h @ [f])) g')"
    show "g = g'"
    proof (cases "x = f")
      case True
      then show ?thesis using g fn by (auto split: if_splits)
    next
      case False
      then have "x \<in> set (C g)" "x \<in> set (C g')" using g by (auto split: if_splits)
      then show ?thesis by (rule chainsD(10) [OF C g(1,2)])
    qed
  next
    fix x assume x: "x \<in> E" "occ' x"
    show "\<exists>g \<in> H. x \<in> set ((C(h := C h @ [f])) g)"
    proof (cases "x = f")
      case True
      then show ?thesis using h by auto
    next
      case False
      then obtain g where "g \<in> H" "x \<in> set (C g)"
        using chainsD(11) [OF C x(1)] occ(2) [of x] x by auto
      then show ?thesis by (intro bexI [of _ g]) auto
    qed
  qed
qed

text \<open>An entry of a list goes; its predecessor \<open>last (h # xs)\<close> is linked to its successor.\<close>

lemma chains_remove:
  assumes C: "chains H E nx pv occ C" and h: "h \<in> H" and Ch: "C h = xs @ x # ys"
    and nx: "nx' (last (h # xs)) = nx x"
      "\<And>z. z \<in> H \<union> E \<Longrightarrow> z \<noteq> x \<Longrightarrow> z \<noteq> last (h # xs) \<Longrightarrow> nx' z = nx z"
    and pv: "ys \<noteq> [] \<Longrightarrow> pv' (nx x) = last (h # xs)"
      "\<And>z. z \<in> E \<Longrightarrow> z \<noteq> x \<Longrightarrow> z \<noteq> nx x \<Longrightarrow> pv' z = pv z"
    and occ: "\<not> occ' x" "\<And>z. z \<in> H \<union> E \<Longrightarrow> z \<noteq> x \<Longrightarrow> occ' z = occ z"
  shows "chains H E nx' pv' occ' (C(h := xs @ ys))"
proof -
  let ?p = "last (h # xs)"
  have d: "distinct (h # xs @ x # ys)" using chains_distinct [OF C h] Ch by simp
  have xin: "x \<in> set (C h)" using Ch by simp
  have xE: "x \<in> E" by (rule chainsD(7) [OF C h xin])
  have xH: "x \<notin> H" using chainsD(3) [OF C] xE by blast
  have xo: "g \<in> H \<Longrightarrow> g \<noteq> h \<Longrightarrow> x \<notin> set (C g)" for g using chainsD(10) [OF C _ h _ xin] by blast
  have pth: "path nx h (xs @ x # ys)" using chainsD(4) [OF C h] Ch by simp
  then have lk: "links nx h xs" and px: "path nx x ys" by (simp_all add: path_append)
  have bk: "backs pv h xs" "backs pv x ys" using chainsD(5) [OF C h] Ch by (simp_all add: backs_append)
  have pin: "?p \<in> insert h (set xs)" using last_or [of h xs] by blast
  have plast: "?p \<notin> set (butlast (h # xs))" by (rule last_notin_butlast) (use d in auto)
  have pno: "g \<in> H \<Longrightarrow> g \<noteq> h \<Longrightarrow> ?p \<notin> insert g (set (C g))" for g
  proof -
    assume g: "g \<in> H" "g \<noteq> h"
    have "g \<notin> set (C h)" by (rule chains_head_notin [OF C g(1) h])
    then have "g \<notin> insert h (set xs)" using g Ch by auto
    moreover have "set (C g) \<inter> insert h (set xs) = {}"
      using chainsD(10) [OF C g(1) h] g(2) chains_head_notin [OF C h g(1)] Ch by auto
    ultimately show ?thesis using pin by (metis disjoint_iff insertE)
  qed
  have nxin: "ys \<noteq> [] \<Longrightarrow> nx x \<in> set ys" using px by (cases ys) auto
  have nx0: "ys = [] \<Longrightarrow> nx x = 0" using px by simp
  have inHE: "z \<in> set (C g) \<Longrightarrow> g \<in> H \<Longrightarrow> z \<in> H \<union> E" for z g using chainsD(7) [OF C] by blast
  have ph: "path nx' h (xs @ ys)"
  proof -
    have "links nx' h xs = links nx h xs"
    proof (rule links_cong)
      fix z assume z: "z \<in> set (butlast (h # xs))"
      then have z': "z \<in> insert h (set xs)" by (metis in_set_butlastD list.simps(15))
      then have "z \<in> H \<union> E" using h inHE [OF _ h] Ch by auto
      moreover have "z \<noteq> x" using z' d by auto
      moreover have "z \<noteq> ?p" using z plast by metis
      ultimately show "nx' z = nx z" by (rule nx(2))
    qed
    moreover have "path nx' ?p ys"
    proof (cases ys)
      case Nil
      then show ?thesis using nx(1) nx0 by simp
    next
      case (Cons y zs)
      have "path nx' y zs = path nx y zs"
      proof (rule path_cong)
        fix z assume "z \<in> insert y (set zs)"
        then have z: "z \<in> set ys" using Cons by simp
        then have "z \<in> H \<union> E" using inHE [OF _ h] Ch by auto
        moreover have "z \<noteq> x" using z d by auto
        moreover have "z \<noteq> ?p" using z d pin by auto
        ultimately show "nx' z = nx z" by (rule nx(2))
      qed
      then show ?thesis using px nx(1) Cons by simp
    qed
    ultimately show ?thesis using lk by (simp add: path_append)
  qed
  have po: "path nx' g (C g)" if g: "g \<in> H" "g \<noteq> h" for g
  proof -
    have "path nx' g (C g) = path nx g (C g)"
    proof (rule path_cong)
      fix z assume z: "z \<in> insert g (set (C g))"
      then have "z \<in> H \<union> E" using g inHE by blast
      moreover have "z \<noteq> x" using z xo [OF g] xH g by blast
      moreover have "z \<noteq> ?p" using z pno [OF g] by metis
      ultimately show "nx' z = nx z" by (rule nx(2))
    qed
    with chainsD(4) [OF C g(1)] show ?thesis by simp
  qed
  have nxno: "nx x \<notin> set (C g)" if g: "g \<in> H" "g \<noteq> h" for g
  proof (cases "ys = []")
    case True
    then show ?thesis using nx0 chainsD(2) [OF C] chainsD(7) [OF C g(1)] by metis
  next
    case False
    then have "nx x \<in> set (C h)" using nxin Ch by simp
    then show ?thesis using chainsD(10) [OF C g(1) h] g(2) by blast
  qed
  have bo: "backs pv' g (C g)" if g: "g \<in> H" "g \<noteq> h" for g
  proof -
    have "backs pv' g (C g) = backs pv g (C g)"
      by (rule backs_cong) (use pv(2) chainsD(7) [OF C g(1)] xo [OF g] nxno [OF g] in metis)
    with chainsD(5) [OF C g(1)] show ?thesis by simp
  qed
  have bh: "backs pv' h (xs @ ys)"
  proof -
    have nxs: "nx x \<notin> set xs"
    proof (cases "ys = []")
      case True
      then show ?thesis using nx0 chainsD(2) [OF C] chainsD(7) [OF C h] Ch by auto
    next
      case False
      then show ?thesis using nxin d by auto
    qed
    have "backs pv' h xs = backs pv h xs"
      by (rule backs_cong) (use pv(2) chainsD(7) [OF C h] Ch d nxs in auto)
    moreover have "backs pv' ?p ys"
    proof (cases ys)
      case Nil
      then show ?thesis by simp
    next
      case (Cons y zs)
      have y: "nx x = y" using px Cons by simp
      have "backs pv' y zs = backs pv y zs"
        by (rule backs_cong) (use pv(2) chainsD(7) [OF C h] Ch Cons d y in auto)
      then show ?thesis using bk(2) pv(1) Cons y by simp
    qed
    ultimately show ?thesis using bk(1) by (simp add: backs_append)
  qed
  show ?thesis
  proof (rule chainsI)
    show "0 \<notin> H" "0 \<notin> E" "H \<inter> E = {}" by (rule chainsD [OF C])+
  next
    fix g assume g: "g \<in> H"
    show "path nx' g ((C(h := xs @ ys)) g)" using po [OF g] ph by (cases "g = h") auto
    show "backs pv' g ((C(h := xs @ ys)) g)" using bo [OF g] bh by (cases "g = h") auto
    show "distinct ((C(h := xs @ ys)) g)" using chainsD(6) [OF C g] d by (cases "g = h") auto
    have "g \<noteq> x" using g xH by blast
    then have "occ' g = occ g" using occ(2) g by blast
    then show "\<not> occ' g \<Longrightarrow> (C(h := xs @ ys)) g = []"
      using chainsD(9) [OF C g] Ch by (cases "g = h") auto
    fix z assume z: "z \<in> set ((C(h := xs @ ys)) g)"
    then have "z \<in> set (C g)" using Ch by (auto split: if_splits)
    moreover have "z \<noteq> x" using z d xo [OF g] by (cases "g = h") auto
    ultimately show "z \<in> E \<and> occ' z" using chainsD(7,8) [OF C g] occ(2) [of z] by blast
  next
    fix g g' z
    assume g: "g \<in> H" "g' \<in> H" "z \<in> set ((C(h := xs @ ys)) g)" "z \<in> set ((C(h := xs @ ys)) g')"
    then have "z \<in> set (C g)" "z \<in> set (C g')" using Ch by (auto split: if_splits)
    then show "g = g'" by (rule chainsD(10) [OF C g(1,2)])
  next
    fix z assume z: "z \<in> E" "occ' z"
    then have zx: "z \<noteq> x" using occ(1) by blast
    then obtain g where "g \<in> H" "z \<in> set (C g)" using chainsD(11) [OF C z(1)] occ(2) [of z] z by auto
    then show "\<exists>g \<in> H. z \<in> set ((C(h := xs @ ys)) g)" using Ch zx by (intro bexI [of _ g]) auto
  qed
qed

text \<open>In a list, the entry before another and the entry behind it.\<close>

lemma chains_prev:
  assumes "chains H E nx pv occ C" and "h \<in> H" and "C h = xs @ x # ys"
  shows "pv x = last (h # xs)"
  using chainsD(5) [OF assms(1,2)] assms(3) by (simp add: backs_append)

lemma chains_next:
  assumes "chains H E nx pv occ C" and "h \<in> H" and "C h = xs @ x # ys"
  shows "nx x = (case ys of [] \<Rightarrow> 0 | y # _ \<Rightarrow> y)"
  using chainsD(4) [OF assms(1,2)] assms(3) by (auto simp: path_append split: list.split)

lemma chains_next_zero:
  assumes "chains H E nx pv occ C" and "h \<in> H" and "C h = xs @ x # ys"
  shows "nx x = 0 \<longleftrightarrow> ys = []"
  using chainsD(4) [OF assms(1,2)] assms(3) by (cases ys) (auto simp: path_append)

lemma chains_head_zero:
  assumes "chains H E nx pv occ C" and "h \<in> H"
  shows "nx h = 0 \<longleftrightarrow> C h = []"
  using chainsD(4) [OF assms] by (cases "C h") auto

text \<open>The list of a head, computed along the links.\<close>

fun walk :: "nat \<Rightarrow> ('a \<Rightarrow> 'a) \<Rightarrow> 'a :: zero \<Rightarrow> 'a list" where
  "walk 0 nx a = []"
| "walk (Suc fuel) nx a = (if nx a = 0 then [] else nx a # walk fuel nx (nx a))"

lemma walk_path: "path nx a xs \<Longrightarrow> length xs \<le> fuel \<Longrightarrow> walk fuel nx a = xs"
proof (induction fuel arbitrary: a xs)
  case 0
  then show ?case by simp
next
  case (Suc fuel)
  then show ?case by (cases xs) auto
qed

section \<open>The place of a new entry\<close>

text \<open>
  A new entry for the head \<open>h\<close> is \<open>a\<close>, behind \<open>p\<close>: the head itself when it is free (then \<open>p\<close> is 0),
  else a free expansion entry behind the last one of the list.
\<close>

definition placed :: "'a set \<Rightarrow> ('a \<Rightarrow> bool) \<Rightarrow> ('a \<Rightarrow> 'a list) \<Rightarrow> 'a \<Rightarrow> 'a :: zero \<Rightarrow> 'a \<Rightarrow> bool" where
  "placed E occ C h a p \<longleftrightarrow>
     (if occ h then a \<in> E \<and> \<not> occ a \<and> p = last (h # C h) else a = h \<and> p = 0)"

definition place :: "('a \<Rightarrow> 'a list) \<Rightarrow> 'a \<Rightarrow> 'a \<Rightarrow> 'a \<Rightarrow> 'a list" where
  "place C h a = (if a = h then C else C(h := C h @ [a]))"

lemma placed_free: "placed E occ C h a p \<Longrightarrow> \<not> occ a"
  by (auto simp: placed_def split: if_splits)

lemma placed_prev:
  assumes C: "chains H E nx pv occ C" and h: "h \<in> H" and p: "placed E occ C h a p" "p \<noteq> 0"
  shows "p \<in> H \<union> E" and "occ p" and "p \<noteq> a"
proof -
  have o: "occ h" and pl: "p = last (h # C h)" and a: "\<not> occ a"
    using p by (auto simp: placed_def split: if_splits)
  have "p = h \<or> p \<in> set (C h)" unfolding pl by (rule last_or)
  then show "p \<in> H \<union> E" "occ p" using h o chainsD(7,8) [OF C h] by auto
  then show "p \<noteq> a" using a by auto
qed

lemma chains_place:
  assumes C: "chains H E nx pv occ C" and h: "h \<in> H" and p: "placed E occ C h a p"
    and nx: "nx' a = 0" "p \<noteq> 0 \<Longrightarrow> nx' p = a"
      "\<And>x. x \<in> H \<union> E \<Longrightarrow> x \<noteq> a \<Longrightarrow> x \<noteq> p \<Longrightarrow> nx' x = nx x"
    and pv: "a \<in> E \<Longrightarrow> pv' a = p" "\<And>x. x \<in> E \<Longrightarrow> x \<noteq> a \<Longrightarrow> pv' x = pv x"
    and occ: "occ' a" "\<And>x. x \<in> H \<union> E \<Longrightarrow> x \<noteq> a \<Longrightarrow> occ' x = occ x"
  shows "chains H E nx' pv' occ' (place C h a)"
proof (cases "occ h")
  case False
  then have a: "a = h" "p = 0" using p by (auto simp: placed_def)
  have z: "x \<in> H \<union> E \<Longrightarrow> x \<noteq> 0" for x using chainsD(1,2) [OF C] by auto
  have hE: "h \<notin> E" using chainsD(3) [OF C] h by blast
  have "chains H E nx' pv' occ' C"
    by (rule chains_new_head [OF C h False]) (use a nx pv(2) occ z hE in auto)
  then show ?thesis using a by (simp add: place_def)
next
  case True
  then have a: "a \<in> E" "\<not> occ a" "p = last (h # C h)" using p by (auto simp: placed_def)
  have p0: "p \<noteq> 0"
    using a(3) last_or [of h "C h"] h chainsD(1,2) [OF C] chainsD(7) [OF C h] by metis
  have "chains H E nx' pv' occ' (C(h := C h @ [a]))"
    by (rule chains_append [OF C h True a(1,2)]) (use a nx pv occ p0 in simp_all)
  moreover have "a \<noteq> h" using a(1) h chainsD(3) [OF C] by blast
  ultimately show ?thesis by (simp add: place_def)
qed

text \<open>What is on the list of a head, the head itself first.\<close>

definition members :: "('a \<Rightarrow> bool) \<Rightarrow> ('a \<Rightarrow> 'a list) \<Rightarrow> 'a \<Rightarrow> 'a list" where
  "members occ C h = (if occ h then h # C h else [])"

lemma members_place:
  assumes C: "chains H E nx pv occ C" and h: "h \<in> H" and p: "placed E occ C h a p"
    and occ: "occ' a" "\<And>x. x \<in> H \<union> E \<Longrightarrow> x \<noteq> a \<Longrightarrow> occ' x = occ x" and g: "g \<in> H"
  shows "members occ' (place C h a) g = members occ C g @ (if g = h then [a] else [])"
proof -
  have "a \<noteq> h \<Longrightarrow> g \<noteq> a"
    using p g h chainsD(3) [OF C] by (auto simp: placed_def split: if_splits)
  then show ?thesis
    using p occ g h chainsD(9) [OF C h] by (auto simp: members_def place_def placed_def split: if_splits)
qed

lemma members_in: "chains H E nx pv occ C \<Longrightarrow> h \<in> H \<Longrightarrow> x \<in> set (members occ C h) \<Longrightarrow> x \<in> H \<union> E \<and> occ x"
  using chainsD(7,8) [of H E nx pv occ C h x] by (auto simp: members_def split: if_splits)

lemma members_all:
  assumes C: "chains H E nx pv occ C" and x: "x \<in> H \<union> E" "occ x"
  shows "\<exists>h \<in> H. x \<in> set (members occ C h)"
proof (cases "x \<in> H")
  case True
  then show ?thesis using x by (intro bexI [of _ x]) (auto simp: members_def)
next
  case False
  then obtain h where h: "h \<in> H" "x \<in> set (C h)" using chainsD(11) [OF C] x by blast
  then have "occ h" using chainsD(9) [OF C h(1)] by force
  then show ?thesis using h by (intro bexI [of _ h]) (auto simp: members_def)
qed

lemma members_unique:
  assumes C: "chains H E nx pv occ C" and "g \<in> H" "h \<in> H" "x \<in> set (members occ C g)" "x \<in> set (members occ C h)"
  shows "g = h"
  using assms chains_head_notin [OF C assms(2,3)] chains_head_notin [OF C assms(3,2)] chainsD(10) [OF C assms(2,3), of x]
  by (auto simp: members_def split: if_splits)

end
