(* ===== verification/Nat_Tables.thy ===== *)
theory Nat_Tables
  imports Nat_Fields Nat_Chains
begin

text \<open>
  Addresses of the NAT driver: an index below the size \<open>n\<close> of the base tables is a base entry,
  another one an expansion entry. This theory reads and writes both kinds of entries by their
  address, and restates the accesses and DMA commands of \<open>Nat_Driver\<close> with them.
\<close>

definition loc :: "u16 \<Rightarrow> u16 \<Rightarrow> u16" where
  "loc n a = (if a \<ge> n then a - n else a)"

definition rule_at :: "u16 \<Rightarrow> nat_mem \<Rightarrow> u16 \<Rightarrow> nat_rule" where
  "rule_at n m a = rules_of (a \<ge> n) m ! unat (loc n a)"

definition put_rule :: "u16 \<Rightarrow> u16 \<Rightarrow> nat_rule \<Rightarrow> nat_mem \<Rightarrow> nat_mem" where
  "put_rule n a r m = set_rules (a \<ge> n) ((rules_of (a \<ge> n) m)[unat (loc n a) := r]) m"

definition index_at :: "u16 \<Rightarrow> nat_mem \<Rightarrow> u16 \<Rightarrow> u32" where
  "index_at n m a = indexes_of (a \<ge> n) m ! unat (loc n a)"

definition put_index :: "u16 \<Rightarrow> u16 \<Rightarrow> u32 \<Rightarrow> nat_mem \<Rightarrow> nat_mem" where
  "put_index n a w m = set_indexes (a \<ge> n) ((indexes_of (a \<ge> n) m)[unat (loc n a) := w]) m"

definition mem_ok :: "u16 \<Rightarrow> u16 \<Rightarrow> nat_mem \<Rightarrow> bool" where
  "mem_ok n k m \<longleftrightarrow> length (base_tbl m) = unat n \<and> length (expn_tbl m) = unat k \<and>
     length (indx_tbl m) = unat n \<and> length (iexpn_tbl m) = unat k"

definition addr :: "u16 \<Rightarrow> u16 \<Rightarrow> u16 \<Rightarrow> bool" where
  "addr n k a \<longleftrightarrow> unat a < unat n + unat k"

lemmas access_defs = rules_of_def set_rules_def indexes_of_def set_indexes_def

lemma unat_loc: "a \<ge> n \<Longrightarrow> unat (loc n a) = unat a - unat n"
  by (simp add: loc_def unat_sub)

lemma loc_base: "\<not> n \<le> a \<Longrightarrow> loc n a = a" "\<not> n \<le> a \<Longrightarrow> unat a < unat n"
  by (simp add: loc_def) (simp add: not_le word_less_nat_alt)

lemma loc_expn: "addr n k a \<Longrightarrow> n \<le> a \<Longrightarrow> unat (loc n a) < unat k"
  by (simp add: unat_loc addr_def word_le_nat_alt)

lemma loc_inj: "(a \<ge> n) = (b \<ge> n) \<Longrightarrow> unat (loc n a) = unat (loc n b) \<Longrightarrow> a = b"
  unfolding loc_def word_unat_eq_iff [symmetric] by (metis diff_add_cancel)

lemma loc_bound:
  assumes "mem_ok n k m" and "addr n k a"
  shows "unat (loc n a) < length (rules_of (a \<ge> n) m)" "unat (loc n a) < length (indexes_of (a \<ge> n) m)"
  using assms loc_base [of n a] loc_expn [OF assms(2)] by (auto simp: mem_ok_def access_defs)

lemma fetch_rule: "mem_ok n k m \<Longrightarrow> addr n k a \<Longrightarrow>
  fetch (rules_of (a \<ge> n) m) (unat (loc n a)) = Some (rule_at n m a)"
  by (simp add: fetch_def rule_at_def loc_bound)

lemma store_rule: "mem_ok n k m \<Longrightarrow> addr n k a \<Longrightarrow>
  store_at (rules_of (a \<ge> n) m) (unat (loc n a)) r = Some ((rules_of (a \<ge> n) m)[unat (loc n a) := r])"
  by (simp add: store_at_def loc_bound)

lemma fetch_index: "mem_ok n k m \<Longrightarrow> addr n k a \<Longrightarrow>
  fetch (indexes_of (a \<ge> n) m) (unat (loc n a)) = Some (index_at n m a)"
  by (simp add: fetch_def index_at_def loc_bound)

lemma store_index: "mem_ok n k m \<Longrightarrow> addr n k a \<Longrightarrow>
  store_at (indexes_of (a \<ge> n) m) (unat (loc n a)) w = Some ((indexes_of (a \<ge> n) m)[unat (loc n a) := w])"
  by (simp add: store_at_def loc_bound)

lemma mem_ok_put [simp]: "mem_ok n k (put_rule n' a r m) = mem_ok n k m" "mem_ok n k (put_index n' a w m) = mem_ok n k m"
  by (simp_all add: mem_ok_def put_rule_def put_index_def access_defs)

lemma rules_of_set: "rules_of e (set_rules e' xs m) = (if e = e' then xs else rules_of e m)"
  by (simp add: access_defs)

lemma indexes_of_set: "indexes_of e (set_indexes e' xs m) = (if e = e' then xs else indexes_of e m)"
  by (simp add: access_defs)

lemma rule_at_put:
  assumes "mem_ok n k m" and "addr n k a"
  shows "rule_at n (put_rule n a r m) b = (if b = a then r else rule_at n m b)"
  using loc_bound(1) [OF assms] loc_inj [of n a b]
  by (auto simp: rule_at_def put_rule_def rules_of_set nth_list_update)

lemma index_at_put:
  assumes "mem_ok n k m" and "addr n k a"
  shows "index_at n (put_index n a w m) b = (if b = a then w else index_at n m b)"
  using loc_bound(2) [OF assms] loc_inj [of n a b]
  by (auto simp: index_at_def put_index_def indexes_of_set nth_list_update)

lemma other_at_put [simp]:
  "rule_at n (put_index n' a w m) b = rule_at n m b" "index_at n (put_rule n' a r m) b = index_at n m b"
  by (simp_all add: rule_at_def index_at_def put_rule_def put_index_def access_defs)

section \<open>DMA writes by address\<close>

definition rule_table :: "u16 \<Rightarrow> u16 \<Rightarrow> nat_table_type" where
  "rule_table n a = (if a \<ge> n then EXPN_TBL else BASE_TBL)"

definition index_table :: "u16 \<Rightarrow> u16 \<Rightarrow> nat_table_type" where
  "index_table n a = (if a \<ge> n then INDEX_EXPN_TBL else INDX_TBL)"

lemma unat16_less: "unat (a :: u16) < 65536"
proof -
  have "unat a < 2 ^ LENGTH(16)" by (rule unsigned_less)
  then show ?thesis by simp
qed

lemma unat_ucast32: "unat (ucast (a :: u16) :: u32) = unat a"
  using unat16_less [of a] by (simp add: unsigned_ucast_eq take_bit_nat_eq_self)

lemma entry_offset:
  "unat (b :: u32) < 32 \<Longrightarrow> unat (32 * ucast (a :: u16) + b) = 32 * unat a + unat b"
  using unat16_less [of a] by (simp add: unat_word_ariths unat_ucast32)

lemma index_offset:
  "unat (b :: u32) < 4 \<Longrightarrow> unat (4 * ucast (a :: u16) + b) = 4 * unat a + unat b"
  using unat16_less [of a] by (simp add: unat_word_ariths unat_ucast32)

lemma update_at_eq: "i < length xs \<Longrightarrow> update_at f xs i = map_option (\<lambda>y. xs[i := y]) (f (xs ! i))"
  by (cases "f (xs ! i)") (simp_all add: update_at_def fetch_def store_at_def)

lemma dma_write_rule:
  assumes m: "mem_ok n k m" and a: "addr n k a" and b: "unat b < 32"
    and r: "dma_rule (unat b) v (rule_at n m a) = Some r"
  shows "dma_write \<lparr>dma_base_addr = rule_table n a, dma_data = v, dma_offset = 32 * ucast (loc n a) + b\<rparr> m
         = Some (put_rule n a r m)"
  using loc_bound(1) [OF m a] r b
  by (auto simp: dma_write_def rule_table_def entry_offset Let_def update_at_eq put_rule_def
      rule_at_def access_defs split: if_splits)

lemma dma_write_index:
  assumes m: "mem_ok n k m" and a: "addr n k a" and b: "unat b < 4"
    and w: "dma_index (unat b) v (index_at n m a) = Some w"
  shows "dma_write \<lparr>dma_base_addr = index_table n a, dma_data = v, dma_offset = 4 * ucast (loc n a) + b\<rparr> m
         = Some (put_index n a w m)"
  using loc_bound(2) [OF m a] w b
  by (auto simp: dma_write_def index_table_def index_offset Let_def update_at_eq put_index_def
      index_at_def access_defs split: if_splits)

end
