(* ===== verification/Nat_Inv.thy ===== *)
theory Nat_Inv
  imports Nat_Tables
begin

text \<open>
  The invariant of the NAT tables: two tables of collision lists over the same addresses, whose
  entries name each other, and the handles given to the client.
\<close>

definition heads :: "u16 \<Rightarrow> u16 set" where
  "heads n = {a. 0 < unat a \<and> unat a < unat n}"

definition expns :: "u16 \<Rightarrow> u16 \<Rightarrow> u16 set" where
  "expns n k = {a. unat n < unat a \<and> unat a < unat n + unat k}"

definition nx_rule :: "u16 \<Rightarrow> nat_mem \<Rightarrow> u16 \<Rightarrow> u16" where
  "nx_rule n m a = rule_next (rule_at n m a)"

definition pv_rule :: "u16 \<Rightarrow> nat_mem \<Rightarrow> u16 \<Rightarrow> u16" where
  "pv_rule n m a = rule_prev (rule_at n m a)"

definition used_rule :: "u16 \<Rightarrow> nat_mem \<Rightarrow> u16 \<Rightarrow> bool" where
  "used_rule n m a = rule_enabled (rule_at n m a)"

definition live :: "u16 \<Rightarrow> nat_mem \<Rightarrow> u16 \<Rightarrow> bool" where
  "live n m a \<longleftrightarrow> rule_enabled (rule_at n m a) \<and> rule_protocol (rule_at n m a) \<noteq> 0xFF"

definition ix_of :: "u16 \<Rightarrow> nat_mem \<Rightarrow> u16 \<Rightarrow> u16" where
  "ix_of n m a = rule_index (rule_at n m a)"

definition nx_index :: "u16 \<Rightarrow> nat_mem \<Rightarrow> u16 \<Rightarrow> u16" where
  "nx_index n m i = index_next (index_at n m i)"

definition entry_of :: "u16 \<Rightarrow> nat_mem \<Rightarrow> u16 \<Rightarrow> u16" where
  "entry_of n m i = index_entry (index_at n m i)"

definition pv_index :: "u16 \<Rightarrow> u16 list \<Rightarrow> u16 \<Rightarrow> u16" where
  "pv_index n meta i = meta ! unat (loc n i)"

definition encode :: "u16 \<Rightarrow> u16 \<Rightarrow> u16" where
  "encode n a = (if a \<ge> n then push_bit 1 (a - n) OR 1 else push_bit 1 a)"

definition sizes_ok :: "u16 \<Rightarrow> u16 \<Rightarrow> bool" where
  "sizes_ok n k \<longleftrightarrow> 2 \<le> unat n \<and> unat n \<le> 16384 \<and> 2 \<le> unat k \<and> unat k \<le> 16384"

definition rule_chains :: "u16 \<Rightarrow> u16 \<Rightarrow> nat_mem \<Rightarrow> (u16 \<Rightarrow> u16 list) \<Rightarrow> bool" where
  "rule_chains n k m = chains (heads n) (expns n k) (nx_rule n m) (pv_rule n m) (used_rule n m)"

definition index_chains :: "u16 \<Rightarrow> u16 \<Rightarrow> nat_mem \<Rightarrow> u16 list \<Rightarrow> (u16 \<Rightarrow> u16 list) \<Rightarrow> bool" where
  "index_chains n k m meta =
     chains (heads n) (expns n k) (nx_index n m) (pv_index n meta) (\<lambda>i. entry_of n m i \<noteq> 0)"

text \<open>A disabled head still has rules behind it, and only heads are disabled.\<close>

definition dead_ok :: "u16 \<Rightarrow> u16 \<Rightarrow> nat_mem \<Rightarrow> bool" where
  "dead_ok n k m \<longleftrightarrow>
     (\<forall>h \<in> heads n. used_rule n m h \<and> \<not> live n m h \<longrightarrow> nx_rule n m h \<noteq> 0) \<and>
     (\<forall>a \<in> expns n k. used_rule n m a \<longrightarrow> live n m a)"

text \<open>Rules and index entries name each other.\<close>

definition cross_ok :: "u16 \<Rightarrow> u16 \<Rightarrow> nat_mem \<Rightarrow> bool" where
  "cross_ok n k m \<longleftrightarrow>
     (\<forall>a \<in> heads n \<union> expns n k. live n m a \<longrightarrow>
        ix_of n m a \<in> heads n \<union> expns n k \<and> entry_of n m (ix_of n m a) = a) \<and>
     (\<forall>i \<in> heads n \<union> expns n k. entry_of n m i \<noteq> 0 \<longrightarrow>
        entry_of n m i \<in> heads n \<union> expns n k \<and> live n m (entry_of n m i) \<and> ix_of n m (entry_of n m i) = i)"

text \<open>The handles name the live rules, each once.\<close>

definition ids_ok :: "u16 \<Rightarrow> u16 \<Rightarrow> nat_mem \<Rightarrow> u16 list \<Rightarrow> bool" where
  "ids_ok n k m ids \<longleftrightarrow>
     length ids = unat n + unat k \<and>
     (\<forall>j < length ids. ids ! j \<noteq> 0 \<longrightarrow>
        Suc j < length ids \<and> (\<exists>a \<in> heads n \<union> expns n k. live n m a \<and> ids ! j = encode n a)) \<and>
     (\<forall>i < length ids. \<forall>j < length ids. ids ! i = ids ! j \<and> ids ! j \<noteq> 0 \<longrightarrow> i = j) \<and>
     (\<forall>a \<in> heads n \<union> expns n k. live n m a \<longrightarrow> encode n a \<in> set ids)"

definition tbl_inv :: "ip4_tbl \<Rightarrow> (u16 \<Rightarrow> u16 list) \<Rightarrow> (u16 \<Rightarrow> u16 list) \<Rightarrow> bool" where
  "tbl_inv t C IC \<longleftrightarrow>
     (let n = table_entries t; k = expn_table_entries t in
      valid t \<and> mapped t \<and> tbl_addr_offset t = 0 \<and> sizes_ok n k \<and> mem_ok n k (mem t) \<and>
      length (index_expn_table_meta t) = unat k \<and>
      rule_chains n k (mem t) C \<and> index_chains n k (mem t) (index_expn_table_meta t) IC \<and>
      dead_ok n k (mem t) \<and> cross_ok n k (mem t) \<and> ids_ok n k (mem t) (rule_id_array t))"

lemma heads_addr: "a \<in> heads n \<Longrightarrow> addr n k a" "a \<in> heads n \<Longrightarrow> \<not> n \<le> a" "a \<in> heads n \<Longrightarrow> loc n a = a"
  by (auto simp: heads_def addr_def word_le_nat_alt loc_def)

lemma expns_addr: "a \<in> expns n k \<Longrightarrow> addr n k a" "a \<in> expns n k \<Longrightarrow> n \<le> a" "a \<in> expns n k \<Longrightarrow> loc n a = a - n"
  "a \<in> expns n k \<Longrightarrow> loc n a \<noteq> 0"
  by (auto simp: expns_def addr_def word_le_nat_alt loc_def unat_sub)

lemma slot_addr: "a \<in> heads n \<union> expns n k \<Longrightarrow> addr n k a" "a \<in> heads n \<union> expns n k \<Longrightarrow> a \<noteq> 0"
  by (auto simp: heads_addr expns_addr) (auto simp: heads_def expns_def)

lemma slot_loc: "a \<in> heads n \<union> expns n k \<Longrightarrow> loc n a \<noteq> 0"
  using heads_addr(3) [of a n] expns_addr(4) [of a n k] by (auto simp: heads_def)

lemma and_le: "unat (x AND (n - 1)) < unat (n :: u16)" if "0 < n"
proof -
  have "x AND (n - 1) \<le> n - 1" by (rule word_and_le1)
  moreover have "n - 1 < n" using that by (simp add: word_less_nat_alt unat_sub word_le_nat_alt)
  ultimately show ?thesis using word_less_nat_alt by fastforce
qed

text \<open>A hash names a head.\<close>

lemma hash_heads:
  assumes "2 \<le> unat n"
  shows "dst_hash v4 pip tip tp pp p (n - 1) \<in> heads n" and "src_hash ip pp' tip tp p (n - 1) \<in> heads n"
proof -
  have n: "0 < n" "unat (n - 1) = unat n - 1" using assms by (simp_all add: word_less_nat_alt unat_sub word_le_nat_alt)
  have r: "(if x AND (n - 1) = 0 then n - 1 else x AND (n - 1)) \<in> heads n" for x
    using and_le [OF n(1), of x] n(2) assms unat_eq_zero [of "x AND (n - 1)"] by (auto simp: heads_def)
  show "dst_hash v4 pip tip tp pp p (n - 1) \<in> heads n" unfolding dst_hash_def Let_def by (rule r)
  show "src_hash ip pp' tip tp p (n - 1) \<in> heads n" unfolding src_hash_def Let_def by (rule r)
qed

section \<open>Handles\<close>

lemma encode_parts:
  assumes "unat (loc n a) < 32768"
  shows "encode n a AND 1 \<noteq> 0 \<longleftrightarrow> a \<ge> n" and "drop_bit 1 (encode n a) = loc n a"
proof -
  let ?x = "loc n a"
  have e: "encode n a = push_bit 1 ?x OR (if a \<ge> n then 1 else 0)" by (auto simp: encode_def loc_def)
  have x: "?x < 2 ^ 15" using assms by (simp add: word_less_nat_alt)
  have tb: "take_bit 15 ?x = ?x" using less_mask_eq [OF x] by (simp add: take_bit_eq_mask mask_eq_exp_minus_1)
  show "drop_bit 1 (encode n a) = ?x"
  proof (rule bit_word_eqI)
    fix j assume "j < LENGTH(16)"
    have "bit ?x j \<longrightarrow> j < 15" using tb by (metis bit_take_bit_iff)
    moreover have "bit (push_bit (1 :: nat) ?x) (Suc j) \<longleftrightarrow> Suc j < 16 \<and> bit ?x j"
      by (simp only: bit_push_bit_iff possible_bit_word) auto
    moreover have "\<not> bit (if a \<ge> n then 1 else 0 :: u16) (Suc j)" by (simp add: bit_1_iff)
    ultimately show "bit (drop_bit 1 (encode n a)) j = bit ?x j"
      unfolding e by (simp only: bit_drop_bit_eq o_def bit_or_iff plus_1_eq_Suc) auto
  qed
  have "even (push_bit 1 ?x)" by simp
  then have "odd (encode n a) \<longleftrightarrow> a \<ge> n" unfolding e by (simp add: even_or_iff)
  then show "encode n a AND 1 \<noteq> 0 \<longleftrightarrow> a \<ge> n" by (simp add: and_one_eq odd_iff_mod_2_eq_one)
qed

lemma addr_loc_less: "sizes_ok n k \<Longrightarrow> addr n k a \<Longrightarrow> unat (loc n a) < 32768"
  using loc_base [of n a] loc_expn [of n k a] by (cases "n \<le> a") (auto simp: sizes_ok_def)

lemma encode_inj:
  assumes "sizes_ok n k" "addr n k a" "addr n k b" "encode n a = encode n b"
  shows "a = b"
  using encode_parts [OF addr_loc_less [OF assms(1,2)]] encode_parts [OF addr_loc_less [OF assms(1,3)]] assms(4)
  by (intro loc_inj) auto

lemma encode_nonzero: "sizes_ok n k \<Longrightarrow> a \<in> heads n \<union> expns n k \<Longrightarrow> encode n a \<noteq> 0"
  using encode_parts(2) [OF addr_loc_less] slot_addr(1) slot_loc by fastforce

end
