(* ===== verification/Nat_Add.thy ===== *)
theory Nat_Add
  imports Nat_Inv
begin

text \<open>
  Adding a rule keeps the invariant of the NAT tables and puts the rule at the end of both
  collision lists.
\<close>

section \<open>The loops\<close>

lemma chain_last_path:
  "path nx a xs \<Longrightarrow> distinct (a # xs) \<Longrightarrow> a \<noteq> 0 \<Longrightarrow>
   (\<And>x. x \<in> set (a # xs) \<Longrightarrow> nxf (unat (x - n)) = Some (nx x)) \<Longrightarrow>
   chain_last nxf n p a = Some (last (a # xs))"
proof (induction xs arbitrary: a p)
  case Nil
  then show ?case
    by (subst chain_last.simps) (simp add: chain_last.simps [where nxt_indx = 0])
next
  case (Cons b bs)
  have nb: "nxf (unat (a - n)) = Some b" using Cons.prems(4) [of a] Cons.prems(1) by simp
  have "chain_last nxf n a b = Some (last (b # bs))"
    by (rule Cons.IH) (use Cons.prems in auto)
  then show ?case using nb Cons.prems(2,3) by (subst chain_last.simps) auto
qed

lemma free_entry_spec:
  assumes "length xs = unat sz" and "unat sz \<le> 16384"
  shows "\<exists>e. free_entry free xs sz = Some e \<and>
           (if e = 0 then \<forall>i. 0 < i \<and> i < length xs \<longrightarrow> \<not> free (xs ! i)
            else 0 < unat e \<and> unat e < length xs \<and> free (xs ! unat e))"
proof (cases "first_idx free (drop 1 xs)")
  case None
  have "\<not> free (xs ! i)" if i: "0 < i" "i < length xs" for i
  proof -
    have "drop 1 xs ! (i - 1) \<in> set (drop 1 xs)" by (rule nth_mem) (use i in simp)
    then show ?thesis using None i by simp
  qed
  moreover have "free_entry free xs sz = Some 0"
    using None assms by (simp add: free_entry_def del: first_idx_None_iff)
  ultimately show ?thesis by simp
next
  case (Some i)
  then have i: "Suc i < length xs" "free (xs ! Suc i)"
    using first_idx_SomeD [OF Some] by (auto simp: less_diff_conv)
  have u: "unat (of_nat (Suc i) :: u16) = Suc i" using i(1) assms
    by (simp add: unsigned_of_nat take_bit_nat_eq_self del: of_nat_Suc)
  have z: "(of_nat (Suc i) :: u16) \<noteq> 0" using u by (metis nat.distinct(1) unat_0)
  show ?thesis using Some assms i u z by (simp add: free_entry_def del: of_nat_Suc)
qed

section \<open>Where the new entries go\<close>

lemma expns_shift:
  assumes "sizes_ok n k" and "0 < unat e" and "unat e < unat k"
  shows "e + n \<in> expns n k" and "loc n (e + n) = e"
proof -
  have "unat (e + n) = unat e + unat n"
    by (rule unat_add_lem [THEN iffD1]) (use assms in \<open>simp add: sizes_ok_def\<close>)
  then show "e + n \<in> expns n k" using assms by (simp add: expns_def)
  then have "n \<le> e + n" by (rule expns_addr(2))
  then show "loc n (e + n) = e" by (simp add: loc_def)
qed

lemma expns_local:
  assumes "sizes_ok n k" and "a \<in> expns n k"
  shows "0 < unat (a - n)" and "unat (a - n) < unat k" and "(a - n) + n = a"
  using assms expns_addr(2) [OF assms(2)] by (auto simp: expns_def unat_sub)

text \<open>The search that both tables make: from the head of the hash to the new place.\<close>

lemma chain_last_members:
  assumes C: "chains (heads n) (expns n k) nx pv occ C" and h: "h \<in> heads n"
    and nxf: "\<And>x. x \<in> expns n k \<Longrightarrow> nxf (unat (x - n)) = Some (nx x)"
  shows "(if nx h = 0 then Some h else chain_last nxf n 0 (nx h)) = Some (last (h # C h))"
proof (cases "C h")
  case Nil
  then show ?thesis using chainsD(4) [OF C h] by simp
next
  case (Cons y ys)
  have p: "nx h = y" "y \<noteq> 0" "path nx y ys" using chainsD(4) [OF C h] Cons by simp_all
  have "chain_last nxf n 0 y = Some (last (y # ys))"
    by (rule chain_last_path [of nx])
      (use p chainsD(6,7) [OF C h] Cons nxf in auto)
  then show ?thesis using p Cons by simp
qed

lemma last_nonzero:
  assumes C: "chains H E nx pv occ C" and h: "h \<in> H"
  shows "last (h # C h) \<noteq> 0"
  using last_or [of h "C h"] h chainsD(1,2) [OF C] chainsD(7) [OF C h] by metis

lemma fetch_expn:
  assumes "mem_ok n k m" and "a \<in> expns n k"
  shows "fetch (expn_tbl m) (unat (a - n)) = Some (rule_at n m a)"
    and "fetch (iexpn_tbl m) (unat (a - n)) = Some (index_at n m a)"
  using fetch_rule [OF assms(1) expns_addr(1) [OF assms(2)]] fetch_index [OF assms(1) expns_addr(1) [OF assms(2)]]
    expns_addr(2,3) [OF assms(2)] by (simp_all add: access_defs)

lemma fetch_head:
  assumes "mem_ok n k m" and "h \<in> heads n"
  shows "fetch (base_tbl m) (unat h) = Some (rule_at n m h)"
    and "fetch (indx_tbl m) (unat h) = Some (index_at n m h)"
  using fetch_rule [OF assms(1) heads_addr(1) [OF assms(2)]] fetch_index [OF assms(1) heads_addr(1) [OF assms(2)]]
    heads_addr(2,3) [OF assms(2)] by (simp_all add: access_defs)

text \<open>The result of the search: the new place, or 0 when the expansion table is full.\<close>

definition search_result :: "u16 set \<Rightarrow> (u16 \<Rightarrow> bool) \<Rightarrow> (u16 \<Rightarrow> u16 list) \<Rightarrow> u16 \<Rightarrow> u16 \<Rightarrow> u16 \<Rightarrow> bool" where
  "search_result E occ C h a p \<longleftrightarrow>
     (if a = 0 then occ h \<and> (\<forall>x \<in> E. occ x) else placed E occ C h a p)"

lemma free_entry_result:
  assumes s: "sizes_ok n k" and l: "length xs = unat k"
    and f: "\<And>a. a \<in> expns n k \<Longrightarrow> free (xs ! unat (a - n)) \<longleftrightarrow> \<not> occ a"
  shows "\<exists>e. free_entry free xs k = Some e \<and>
           (if e = 0 then \<forall>x \<in> expns n k. occ x
            else e + n \<in> expns n k \<and> e + n \<noteq> 0 \<and> \<not> occ (e + n))"
proof -
  obtain e where e: "free_entry free xs k = Some e"
    "if e = 0 then \<forall>i. 0 < i \<and> i < length xs \<longrightarrow> \<not> free (xs ! i)
     else 0 < unat e \<and> unat e < length xs \<and> free (xs ! unat e)"
    using free_entry_spec [OF l, of free] s by (auto simp: sizes_ok_def)
  show ?thesis
  proof (cases "e = 0")
    case True
    have "occ x" if x: "x \<in> expns n k" for x
    proof -
      have "\<not> free (xs ! unat (x - n))"
        using e(2) True expns_local [OF s x] l by simp
      then show ?thesis using f [OF x] by simp
    qed
    then show ?thesis using e(1) True by (intro exI [of _ e]) simp
  next
    case False
    then have b: "0 < unat e" "unat e < unat k" "free (xs ! unat e)" using e(2) l by simp_all
    have E: "e + n \<in> expns n k" by (rule expns_shift(1) [OF s b(1,2)])
    have "\<not> occ (e + n)" using f [OF E] b(3) by simp
    moreover have "e + n \<noteq> 0" using slot_addr(2) E by blast
    ultimately show ?thesis using e(1) False E by (intro exI [of _ e]) simp
  qed
qed

lemma generate_tbl_rule_result:
  assumes n_def: "n = table_entries t" and k_def: "k = expn_table_entries t"
    and s: "sizes_ok n k" and m: "mem_ok n k (mem t)" and C: "rule_chains n k (mem t) C"
    and h_def: "h = dst_hash v4 pub (cl_target_ip c) (cl_target_port c) (cl_public_port c) (cl_protocol c) (n - 1)"
  shows "\<exists>a sw p. generate_tbl_rule v4 pub c t = Some (a, sw) \<and>
           search_result (expns n k) (used_rule n (mem t)) C h a p \<and>
           (a \<noteq> 0 \<longrightarrow> sw = (new_sw_rule pub c)\<lparr>sw_prev_index := p\<rparr>)"
proof -
  have h: "h \<in> heads n" unfolding h_def by (rule hash_heads(1)) (use s in \<open>simp add: sizes_ok_def\<close>)
  note C' = C [unfolded rule_chains_def]
  note fh = fetch_head(1) [OF m h]
  have h0: "h \<noteq> 0" using slot_addr(2) h by blast
  show ?thesis
  proof (cases "used_rule n (mem t) h")
    case False
    then have "generate_tbl_rule v4 pub c t = Some (h, new_sw_rule pub c)"
      using fh by (simp add: generate_tbl_rule_def h_def [symmetric] n_def [symmetric] used_rule_def Let_def)
    moreover have "new_sw_rule pub c = (new_sw_rule pub c)\<lparr>sw_prev_index := 0\<rparr>"
      by (simp add: new_sw_rule_def zero_sw_rule_def)
    ultimately show ?thesis using False h0 by (auto simp: search_result_def placed_def)
  next
    case True
    let ?nxf = "\<lambda>i. map_option rule_next (fetch (expn_tbl (mem t)) i)"
    have lst: "(if nx_rule n (mem t) h = 0 then Some h else chain_last ?nxf n 0 (nx_rule n (mem t) h))
        = Some (last (h # C h))"
      by (rule chain_last_members [OF C' h]) (simp add: fetch_expn(1) [OF m] nx_rule_def)
    obtain e where e: "expn_tbl_free_entry (expn_tbl (mem t)) k = Some e"
      "if e = 0 then \<forall>x \<in> expns n k. used_rule n (mem t) x
       else e + n \<in> expns n k \<and> e + n \<noteq> 0 \<and> \<not> used_rule n (mem t) (e + n)"
      using free_entry_result [OF s, of "expn_tbl (mem t)" "\<lambda>r. \<not> rule_enabled r" "used_rule n (mem t)"] m
      by (auto simp: expn_tbl_free_entry_def mem_ok_def used_rule_def rule_at_def access_defs expns_addr)
    have l0: "last (h # C h) \<noteq> 0" by (rule last_nonzero [OF C' h])
    have g: "generate_tbl_rule v4 pub c t =
        Some (if e = 0 then (0, new_sw_rule pub c)
              else (e + n, (new_sw_rule pub c)\<lparr>sw_prev_index := last (h # C h)\<rparr>))"
      using fh True lst l0 e(1)
      by (simp add: generate_tbl_rule_def h_def [symmetric] n_def [symmetric] k_def [symmetric]
          used_rule_def nx_rule_def Let_def cong: if_cong)
    show ?thesis
      using g e(2) True by (cases "e = 0") (auto simp: search_result_def placed_def)
  qed
qed

lemma generate_index_rule_result:
  assumes n_def: "n = table_entries t" and k_def: "k = expn_table_entries t"
    and s: "sizes_ok n k" and m: "mem_ok n k (mem t)"
    and C: "index_chains n k (mem t) (index_expn_table_meta t) IC"
    and h_def: "h = src_hash (cl_private_ip c) (cl_private_port c) (cl_target_ip c) (cl_target_port c) (cl_protocol c) (n - 1)"
  shows "\<exists>a sw p. generate_index_rule c isw t = Some (a, sw) \<and>
           search_result (expns n k) (\<lambda>i. entry_of n (mem t) i \<noteq> 0) IC h a p \<and>
           (a \<noteq> 0 \<longrightarrow> sw = isw\<lparr>ix_prev_index := p\<rparr>)"
proof -
  let ?occ = "\<lambda>i. entry_of n (mem t) i \<noteq> 0"
  have h: "h \<in> heads n" unfolding h_def by (rule hash_heads(2)) (use s in \<open>simp add: sizes_ok_def\<close>)
  note C' = C [unfolded index_chains_def]
  note fh = fetch_head(2) [OF m h]
  have h0: "h \<noteq> 0" using slot_addr(2) h by blast
  show ?thesis
  proof (cases "?occ h")
    case False
    then have "generate_index_rule c isw t = Some (h, isw\<lparr>ix_prev_index := 0\<rparr>)"
      using fh by (simp add: generate_index_rule_def h_def [symmetric] n_def [symmetric] entry_of_def Let_def)
    then show ?thesis using False h0 by (auto simp: search_result_def placed_def)
  next
    case True
    let ?nxf = "\<lambda>i. map_option index_next (fetch (iexpn_tbl (mem t)) i)"
    have lst: "(if nx_index n (mem t) h = 0 then Some h else chain_last ?nxf n 0 (nx_index n (mem t) h))
        = Some (last (h # IC h))"
      by (rule chain_last_members [OF C' h]) (simp add: fetch_expn(2) [OF m] nx_index_def)
    obtain e where e: "index_expn_get_free_entry (iexpn_tbl (mem t)) k = Some e"
      "if e = 0 then \<forall>x \<in> expns n k. ?occ x
       else e + n \<in> expns n k \<and> e + n \<noteq> 0 \<and> \<not> ?occ (e + n)"
      using free_entry_result [OF s, of "iexpn_tbl (mem t)" "\<lambda>w. index_entry w = 0" ?occ] m
      by (auto simp: index_expn_get_free_entry_def mem_ok_def entry_of_def index_at_def access_defs expns_addr)
    have l0: "last (h # IC h) \<noteq> 0" by (rule last_nonzero [OF C' h])
    have lo: "?occ (last (h # IC h))"
      using last_or [of h "IC h"] True chainsD(8) [OF C' h] by metis
    have g: "generate_index_rule c isw t =
        Some (if e = 0 then (0, isw\<lparr>ix_prev_index := last (h # IC h)\<rparr>)
              else (e + n, isw\<lparr>ix_prev_index := last (h # IC h)\<rparr>))"
    proof (cases "e = 0")
      case False
      then have "last (h # IC h) \<noteq> e + n" using e(2) lo by metis
      then show ?thesis using fh True lst l0 e(1) False
        by (simp add: generate_index_rule_def h_def [symmetric] n_def [symmetric] k_def [symmetric]
            entry_of_def nx_index_def Let_def cong: if_cong)
    next
      case True': True
      then show ?thesis using fh True lst l0 e(1)
        by (simp add: generate_index_rule_def h_def [symmetric] n_def [symmetric] k_def [symmetric]
            entry_of_def nx_index_def Let_def cong: if_cong)
    qed
    show ?thesis
      using g e(2) True by (cases "e = 0") (auto simp: search_result_def placed_def)
  qed
qed

section \<open>Writing the new entries\<close>

text \<open>
  A kernel and an allocator that work: the DMA commands write as documented, locks and memory are
  granted.
\<close>

definition kernel_works :: "nat_kernel \<Rightarrow> bool" where
  "kernel_works kk \<longleftrightarrow> dma kk = dma_writes \<and> malloc_cmd_ok kk \<and> invalid_protocol kk = 0xFF \<and>
     lock_ok kk \<and> unlock_ok kk"

definition link_rule :: "u16 \<Rightarrow> u16 \<Rightarrow> u16 \<Rightarrow> nat_mem \<Rightarrow> nat_mem" where
  "link_rule n p a m =
     (if p = 0 then m
      else put_rule n p ((rule_at n m p)\<lparr>nxt_indx_pub_port := set_lo16 (nxt_indx_pub_port (rule_at n m p)) a\<rparr>) m)"

definition link_index :: "u16 \<Rightarrow> u16 \<Rightarrow> u16 \<Rightarrow> nat_mem \<Rightarrow> nat_mem" where
  "link_index n p a m = (if p = 0 then m else put_index n p (set_hi16 (index_at n m p) a) m)"

definition enable_rule :: "u16 \<Rightarrow> u16 \<Rightarrow> nat_mem \<Rightarrow> nat_mem" where
  "enable_rule n a m =
     put_rule n a ((rule_at n m a)\<lparr>ip_cksm_enbl := set_hi16 (ip_cksm_enbl (rule_at n m a)) 0x8000\<rparr>) m"

lemma write_next_works: "kernel_works kk \<Longrightarrow>
    dma_write \<lparr>dma_base_addr = ty, dma_data = v, dma_offset = off\<rparr> m = Some m' \<Longrightarrow>
    write_next_index kk ty v off m = m'"
  by (simp add: write_next_index_def kernel_works_def)

lemma table_split: "(if p < n then (BASE_TBL, p) else (EXPN_TBL, p - n)) = (rule_table n p, loc n p)"
  "(if p < n then (INDX_TBL, p) else (INDEX_EXPN_TBL, p - n)) = (index_table n p, loc n p)"
  by (auto simp: rule_table_def index_table_def loc_def)

lemma put_rule_store:
  assumes "mem_ok n k m" and "addr n k a"
  shows "(if a < n then Option.bind (store_at (base_tbl m) (unat a) r) (\<lambda>b. Some (m\<lparr>base_tbl := b\<rparr>))
          else Option.bind (store_at (expn_tbl m) (unat (a - n)) r) (\<lambda>e. Some (m\<lparr>expn_tbl := e\<rparr>))) = Some (put_rule n a r m)"
  using store_rule [OF assms, of r] by (auto simp: put_rule_def access_defs loc_def not_less)

lemma put_index_store:
  assumes "mem_ok n k m" and "addr n k a"
  shows "(if a < n then Option.bind (store_at (indx_tbl m) (unat a) w) (\<lambda>b. Some (m\<lparr>indx_tbl := b\<rparr>))
          else Option.bind (store_at (iexpn_tbl m) (unat (a - n)) w) (\<lambda>e. Some (m\<lparr>iexpn_tbl := e\<rparr>))) = Some (put_index n a w m)"
  using store_index [OF assms, of w] by (auto simp: put_index_def access_defs loc_def not_less)

lemma copy_rule_eq:
  assumes n: "n = table_entries t" and m: "mem_ok n k (mem t)" and kk: "kernel_works kk"
    and o: "tbl_addr_offset t = 0" and a: "addr n k a" and p: "sw_prev_index sw \<noteq> 0 \<Longrightarrow> addr n k (sw_prev_index sw)"
  shows "copy_ipv4_rule_to_hw kk sw a t =
           Some (set_mem t (link_rule n (sw_prev_index sw) a (put_rule n a (pack_rule sw) (mem t))))"
proof (cases "sw_prev_index sw = 0")
  case True
  then show ?thesis
    unfolding copy_ipv4_rule_to_hw_def n [symmetric] Let_def put_rule_store [OF m a] by (simp add: link_rule_def)
next
  case False
  let ?p = "sw_prev_index sw" and ?m = "put_rule n a (pack_rule sw) (mem t)"
  have "dma_write \<lparr>dma_base_addr = rule_table n ?p, dma_data = a, dma_offset = 32 * ucast (loc n ?p) + 8\<rparr> ?m
      = Some (link_rule n ?p a ?m)"
    using dma_write_rule [of n k ?m ?p 8 a] p [OF False] m False by (simp add: dma_rule_def link_rule_def)
  from write_next_works [OF kk this] False show ?thesis
    unfolding copy_ipv4_rule_to_hw_def n [symmetric] Let_def put_rule_store [OF m a] table_split
    by (simp add: get_entry_offset_def o)
qed

lemma small_offset:
  assumes "unat (x :: u16) < 16384"
  shows "(ucast ((ucast (4 * ucast x :: u32) :: u16) + 2) :: u32) = 4 * ucast x + 2"
proof -
  have "unat (4 * ucast x :: u32) = 4 * unat x" using index_offset [of 0 x] by simp
  then have "unat (ucast (4 * ucast x :: u32) :: u16) = 4 * unat x"
    using assms by (simp add: unsigned_ucast_eq take_bit_nat_eq_self)
  then have "unat ((ucast (4 * ucast x :: u32) :: u16) + 2) = 4 * unat x + 2"
    using assms by (simp add: unat_word_ariths)
  then show ?thesis
    using index_offset [of 2 x] by (simp add: word_unat_eq_iff unat_ucast32)
qed

lemma copy_index_eq:
  assumes n: "n = table_entries t" and s: "sizes_ok n k" and m: "mem_ok n k (mem t)" and kk: "kernel_works kk"
    and o: "tbl_addr_offset t = 0" and a: "addr n k a" and p: "ix_prev_index sw \<noteq> 0 \<Longrightarrow> addr n k (ix_prev_index sw)"
  shows "copy_ipv4_index_rule_to_hw kk sw a t =
           Some (set_mem t (link_index n (ix_prev_index sw) a
             (put_index n a (two16 (ix_tbl_entry sw) (ix_next_index sw)) (mem t))))"
proof (cases "ix_prev_index sw = 0")
  case True
  then show ?thesis
    unfolding copy_ipv4_index_rule_to_hw_def n [symmetric] Let_def put_index_store [OF m a] by (simp add: link_index_def)
next
  case False
  let ?p = "ix_prev_index sw" and ?m = "put_index n a (two16 (ix_tbl_entry sw) (ix_next_index sw)) (mem t)"
  have "unat (loc n ?p) < 16384"
    using loc_base [of n ?p] loc_expn [OF p [OF False]] s by (cases "n \<le> ?p") (auto simp: sizes_ok_def)
  note off = small_offset [OF this]
  have "dma_write \<lparr>dma_base_addr = index_table n ?p, dma_data = a, dma_offset = 4 * ucast (loc n ?p) + 2\<rparr> ?m
      = Some (link_index n ?p a ?m)"
    using dma_write_index [of n k ?m ?p 2 a] p [OF False] m False by (simp add: dma_index_def link_index_def)
  from write_next_works [OF kk this] False show ?thesis
    unfolding copy_ipv4_index_rule_to_hw_def n [symmetric] Let_def put_index_store [OF m a] table_split
    by (simp add: get_index_entry_offset_def o off)
qed

lemma post_dma_eq:
  assumes n: "n = table_entries t" and m: "mem_ok n k (mem t)" and kk: "kernel_works kk"
    and o: "tbl_addr_offset t = 0" and a: "addr n k a"
  shows "post_ipv4_dma_cmd kk a t = (0, set_mem t (enable_rule n a (mem t)))"
proof -
  have "dma_write \<lparr>dma_base_addr = rule_table n a, dma_data = 0x8000, dma_offset = 32 * ucast (loc n a) + 18\<rparr> (mem t)
      = Some (enable_rule n a (mem t))"
    using dma_write_rule [OF m a, of 18 "0x8000"] by (simp add: dma_rule_def enable_rule_def)
  then show ?thesis
    using kk by (simp add: post_ipv4_dma_cmd_def kernel_works_def n [symmetric] o rule_table_def loc_def not_le [symmetric] split: if_splits)
qed

end
