(* ===== verification/Nat_Add_Inv.thy ===== *)
theory Nat_Add_Inv
  imports Nat_Add
begin

text \<open>
  The tables after a rule has been added: what every field is, and that the invariant holds.
\<close>

definition added_rule :: "u32 \<Rightarrow> client_rule \<Rightarrow> u16 \<Rightarrow> u16 \<Rightarrow> nat_rule" where
  "added_rule pub c p i = pack_rule ((new_sw_rule pub c)\<lparr>sw_prev_index := p, sw_indx_tbl_entry := i\<rparr>)"

definition add_mem :: "u16 \<Rightarrow> u16 \<Rightarrow> u16 \<Rightarrow> u16 \<Rightarrow> u16 \<Rightarrow> nat_rule \<Rightarrow> nat_mem \<Rightarrow> nat_mem" where
  "add_mem n a p i q r m =
     enable_rule n a (link_index n q i (put_index n i (two16 a 0) (link_rule n p a (put_rule n a r m))))"

lemma added_fields [field_simps]:
  "rule_next (added_rule pub c p i) = 0" "rule_prev (added_rule pub c p i) = p"
  "rule_index (added_rule pub c p i) = i" "\<not> rule_enabled (added_rule pub c p i)"
  "rule_protocol (added_rule pub c p i) = cl_protocol c"
  by (simp_all add: added_rule_def field_simps new_sw_rule_def zero_sw_rule_def)

lemma link_mem_ok [simp]:
  "mem_ok n k (link_rule n' p a m) = mem_ok n k m" "mem_ok n k (link_index n' p a m) = mem_ok n k m"
  "mem_ok n k (enable_rule n' a m) = mem_ok n k m"
  by (simp_all add: link_rule_def link_index_def enable_rule_def)

lemma add_mem_ok [simp]: "mem_ok n k (add_mem n a p i q r m) = mem_ok n k m"
  by (simp add: add_mem_def)

lemma add_rule_at:
  assumes m: "mem_ok n k m" and a: "addr n k a" and p: "p \<noteq> 0 \<Longrightarrow> addr n k p \<and> p \<noteq> a"
  shows "rule_at n (add_mem n a p i q r m) b =
    (if b = a then r\<lparr>ip_cksm_enbl := set_hi16 (ip_cksm_enbl r) 0x8000\<rparr>
     else if b = p \<and> p \<noteq> 0
     then (rule_at n m p)\<lparr>nxt_indx_pub_port := set_lo16 (nxt_indx_pub_port (rule_at n m p)) a\<rparr>
     else rule_at n m b)"
  using m a p
  by (auto simp: add_mem_def enable_rule_def link_index_def link_rule_def rule_at_put [where k = k])

lemma add_index_at:
  assumes m: "mem_ok n k m" and i: "addr n k i" and q: "q \<noteq> 0 \<Longrightarrow> addr n k q \<and> q \<noteq> i"
  shows "index_at n (add_mem n a p i q r m) j =
    (if j = i then two16 a 0 else if j = q \<and> q \<noteq> 0 then set_hi16 (index_at n m q) i else index_at n m j)"
  using m i q
  by (auto simp: add_mem_def enable_rule_def link_index_def link_rule_def index_at_put [where k = k])


text \<open>What is read from the tables afterwards.\<close>

definition add_args :: "u16 \<Rightarrow> u16 \<Rightarrow> nat_mem \<Rightarrow> u16 \<Rightarrow> u16 \<Rightarrow> u16 \<Rightarrow> u16 \<Rightarrow> bool" where
  "add_args n k m a p i q \<longleftrightarrow> mem_ok n k m \<and> addr n k a \<and> (p \<noteq> 0 \<longrightarrow> addr n k p \<and> p \<noteq> a) \<and>
     addr n k i \<and> (q \<noteq> 0 \<longrightarrow> addr n k q \<and> q \<noteq> i)"

lemma add_reads:
  assumes "add_args n k m a p i q" and m': "m' = add_mem n a p i q (added_rule pub c p i) m"
  shows "nx_rule n m' b = (if b = a then 0 else if b = p \<and> p \<noteq> 0 then a else nx_rule n m b)"
    and "pv_rule n m' b = (if b = a then p else pv_rule n m b)"
    and "used_rule n m' b = (b = a \<or> used_rule n m b)"
    and "ix_of n m' b = (if b = a then i else ix_of n m b)"
    and "live n m' b = (if b = a then cl_protocol c \<noteq> 0xFF else live n m b)"
    and "entry_of n m' j = (if j = i then a else entry_of n m j)"
    and "nx_index n m' j = (if j = i then 0 else if j = q \<and> q \<noteq> 0 then i else nx_index n m j)"
    and "cl_pdn_index c < 16 \<Longrightarrow>
      client_of (rule_at n m' b) = (if b = a then c else client_of (rule_at n m b))"
proof -
  have args: "mem_ok n k m" "addr n k a" "p \<noteq> 0 \<Longrightarrow> addr n k p \<and> p \<noteq> a"
    "addr n k i" "q \<noteq> 0 \<Longrightarrow> addr n k q \<and> q \<noteq> i"
    using assms(1) by (simp_all add: add_args_def)
  note at = add_rule_at [OF args(1,2,3)] add_index_at [OF args(1,4,5)]
  show "nx_rule n m' b = (if b = a then 0 else if b = p \<and> p \<noteq> 0 then a else nx_rule n m b)"
    "pv_rule n m' b = (if b = a then p else pv_rule n m b)"
    "used_rule n m' b = (b = a \<or> used_rule n m b)"
    "ix_of n m' b = (if b = a then i else ix_of n m b)"
    "live n m' b = (if b = a then cl_protocol c \<noteq> 0xFF else live n m b)"
    "entry_of n m' j = (if j = i then a else entry_of n m j)"
    "nx_index n m' j = (if j = i then 0 else if j = q \<and> q \<noteq> 0 then i else nx_index n m j)"
    by (simp_all add: m' nx_rule_def pv_rule_def used_rule_def ix_of_def live_def entry_of_def nx_index_def
        at field_simps)
  show "cl_pdn_index c < 16 \<Longrightarrow>
      client_of (rule_at n m' b) = (if b = a then c else client_of (rule_at n m b))"
    by (simp add: m' at field_simps) (simp add: added_rule_def client_of_pack)
qed

section \<open>Handles\<close>

lemma slots_card:
  assumes "sizes_ok n k"
  shows "finite (heads n \<union> expns n k)" and "card (heads n \<union> expns n k) \<le> unat n + unat k - 2"
proof -
  let ?A = "heads n \<union> expns n k" and ?B = "{1..<unat n} \<union> {unat n + 1..<unat n + unat k}"
  have sub: "unat ` ?A \<subseteq> ?B" by (auto simp: heads_def expns_def)
  have inj: "inj_on unat ?A" by (auto simp: inj_on_def word_unat_eq_iff)
  show "finite ?A" using finite_imageD [OF finite_subset [OF sub] inj] by simp
  have "card ?A = card (unat ` ?A)" by (rule card_image [OF inj, symmetric])
  also have "\<dots> \<le> card ?B" by (rule card_mono [OF _ sub]) simp
  also have "\<dots> \<le> card {1..<unat n} + card {unat n + 1..<unat n + unat k}" by (rule card_Un_le)
  also have "\<dots> \<le> unat n + unat k - 2" using assms by (simp add: sizes_ok_def)
  finally show "card ?A \<le> unat n + unat k - 2" .
qed

text \<open>With a rule that has no handle yet, a handle is free, and it is not the last one.\<close>

lemma free_handle:
  assumes s: "sizes_ok n k" and len: "length ids = unat n + unat k"
    and img: "\<And>j. j < length ids \<Longrightarrow> ids ! j \<noteq> 0 \<Longrightarrow> \<exists>b \<in> heads n \<union> expns n k. b \<noteq> a \<and> ids ! j = encode n b"
    and inj: "\<And>i j. i < length ids \<Longrightarrow> j < length ids \<Longrightarrow> ids ! i = ids ! j \<Longrightarrow> ids ! j \<noteq> 0 \<Longrightarrow> i = j"
    and a: "a \<in> heads n \<union> expns n k"
  shows "\<exists>j. first_idx (\<lambda>x. x = 0) ids = Some j \<and> Suc j < length ids \<and> ids ! j = 0"
proof -
  let ?A = "heads n \<union> expns n k" and ?Z = "{j. j < length ids \<and> ids ! j \<noteq> 0}"
  have fin: "finite (?A - {a})" and c: "card (?A - {a}) \<le> unat n + unat k - 3"
    using slots_card [OF s] a by simp_all
  have "inj_on ((!) ids) ?Z" using inj by (auto simp: inj_on_def)
  then have "card ?Z = card ((!) ids ` ?Z)" by (rule card_image [symmetric])
  also have "\<dots> \<le> card (encode n ` (?A - {a}))"
    by (rule card_mono) (use fin img in auto)
  also have "\<dots> \<le> card (?A - {a})" by (rule card_image_le [OF fin])
  finally have cz: "card ?Z + 3 \<le> length ids" using c len s unfolding sizes_ok_def by linarith
  have "\<exists>j < length ids. ids ! j = 0"
  proof (rule ccontr)
    assume "\<not> ?thesis"
    then have "?Z = {0..<length ids}" by auto
    then show False using cz by simp
  qed
  then have "first_idx (\<lambda>x. x = 0) ids \<noteq> None" by (auto simp: in_set_conv_nth)
  then obtain j where j: "first_idx (\<lambda>x. x = 0) ids = Some j" by blast
  have jl: "j < length ids" "ids ! j = 0" and below: "\<And>i. i < j \<Longrightarrow> ids ! i \<noteq> 0"
    using first_idx_SomeD [OF j] by auto
  have "{0..<j} \<subseteq> ?Z" using below jl by auto
  then have "card {0..<j} \<le> card ?Z" by (rule card_mono [rotated]) simp
  then show ?thesis using j jl cz by simp
qed

section \<open>The place that is generated\<close>

definition dst_slot :: "bool \<Rightarrow> u32 \<Rightarrow> u16 \<Rightarrow> client_rule \<Rightarrow> u16" where
  "dst_slot v4 pub n c =
     dst_hash v4 pub (cl_target_ip c) (cl_target_port c) (cl_public_port c) (cl_protocol c) (n - 1)"

definition src_slot :: "u16 \<Rightarrow> client_rule \<Rightarrow> u16" where
  "src_slot n c =
     src_hash (cl_private_ip c) (cl_private_port c) (cl_target_ip c) (cl_target_port c) (cl_protocol c) (n - 1)"

lemma tbl_invD:
  assumes "tbl_inv t C IC" and "n = table_entries t" and "k = expn_table_entries t"
  shows "valid t" "mapped t" "tbl_addr_offset t = 0" "sizes_ok n k" "mem_ok n k (mem t)"
    "length (index_expn_table_meta t) = unat k" "rule_chains n k (mem t) C"
    "index_chains n k (mem t) (index_expn_table_meta t) IC" "dead_ok n k (mem t)" "cross_ok n k (mem t)"
    "ids_ok n k (mem t) (rule_id_array t)"
  using assms by (simp_all add: tbl_inv_def Let_def)

definition add_meta :: "u16 \<Rightarrow> u16 \<Rightarrow> u16 \<Rightarrow> u16 list \<Rightarrow> u16 list" where
  "add_meta n i q meta = (if n \<le> i then meta[unat (i - n) := q] else meta)"

lemma generate_rule_result:
  assumes inv: "tbl_inv t C IC" and n: "n = table_entries t" and k: "k = expn_table_entries t"
  shows "(\<exists>a p i q. generate_rule v4 pub c t = Some (Inr (a,
            (new_sw_rule pub c)\<lparr>sw_prev_index := p, sw_indx_tbl_entry := i\<rparr>, i,
            \<lparr>ix_tbl_entry = a, ix_next_index = 0, ix_prev_index = q\<rparr>,
            t\<lparr>index_expn_table_meta := add_meta n i q (index_expn_table_meta t)\<rparr>)) \<and>
          placed (expns n k) (used_rule n (mem t)) C (dst_slot v4 pub n c) a p \<and>
          placed (expns n k) (\<lambda>i. entry_of n (mem t) i \<noteq> 0) IC (src_slot n c) i q) \<or>
         generate_rule v4 pub c t = Some (Inl ()) \<and>
          (used_rule n (mem t) (dst_slot v4 pub n c) \<and> (\<forall>x \<in> expns n k. used_rule n (mem t) x) \<or>
           entry_of n (mem t) (src_slot n c) \<noteq> 0 \<and> (\<forall>x \<in> expns n k. entry_of n (mem t) x \<noteq> 0))"
proof -
  note D = tbl_invD [OF inv n k]
  obtain a sw p where a: "generate_tbl_rule v4 pub c t = Some (a, sw)"
    "search_result (expns n k) (used_rule n (mem t)) C (dst_slot v4 pub n c) a p"
    "a \<noteq> 0 \<longrightarrow> sw = (new_sw_rule pub c)\<lparr>sw_prev_index := p\<rparr>"
    using generate_tbl_rule_result [OF n k D(4,5,7) refl, of v4 pub c] unfolding dst_slot_def by blast
  show ?thesis
  proof (cases "a = 0")
    case True
    then show ?thesis using a by (simp add: generate_rule_def search_result_def)
  next
    case a0: False
    let ?isw = "\<lparr>ix_tbl_entry = a, ix_next_index = 0, ix_prev_index = 0\<rparr>"
    obtain i isw q where i: "generate_index_rule c ?isw t = Some (i, isw)"
      "search_result (expns n k) (\<lambda>i. entry_of n (mem t) i \<noteq> 0) IC (src_slot n c) i q"
      "i \<noteq> 0 \<longrightarrow> isw = ?isw\<lparr>ix_prev_index := q\<rparr>"
      using generate_index_rule_result [OF n k D(4,5,8) refl, of c ?isw] unfolding src_slot_def by blast
    show ?thesis
    proof (cases "i = 0")
      case True
      then show ?thesis using a i a0 by (simp add: generate_rule_def search_result_def)
    next
      case False
      have slot: "src_slot n c \<in> heads n"
        unfolding src_slot_def by (rule hash_heads) (use D(4) in \<open>simp add: sizes_ok_def\<close>)
      have pl: "placed (expns n k) (\<lambda>i. entry_of n (mem t) i \<noteq> 0) IC (src_slot n c) i q"
        using i(2) False by (simp add: search_result_def)
      have iE: "n \<le> i \<Longrightarrow> i \<in> expns n k"
        using pl slot heads_addr(2) [OF slot] by (auto simp: placed_def split: if_splits)
      have "n \<le> i \<Longrightarrow> store_at (index_expn_table_meta t) (unat (i - n)) q
          = Some (add_meta n i q (index_expn_table_meta t))"
        using expns_local(2) [OF D(4) iE] D(6) by (simp add: store_at_def add_meta_def)
      then have "generate_rule v4 pub c t = Some (Inr (a,
            (new_sw_rule pub c)\<lparr>sw_prev_index := p, sw_indx_tbl_entry := i\<rparr>, i,
            \<lparr>ix_tbl_entry = a, ix_next_index = 0, ix_prev_index = q\<rparr>,
            t\<lparr>index_expn_table_meta := add_meta n i q (index_expn_table_meta t)\<rparr>))"
        using a i a0 False by (auto simp: generate_rule_def n [symmetric] Let_def add_meta_def)
      moreover have "placed (expns n k) (used_rule n (mem t)) C (dst_slot v4 pub n c) a p"
        using a(2) a0 by (simp add: search_result_def)
      ultimately show ?thesis using pl by blast
    qed
  qed
qed

section \<open>The invariant\<close>

lemma placed_args:
  assumes r: "rule_chains n k m C" and x: "index_chains n k m meta IC" and m: "mem_ok n k m"
    and h: "h \<in> heads n" "g \<in> heads n"
    and pa: "placed (expns n k) (used_rule n m) C h a p"
    and pi: "placed (expns n k) (\<lambda>i. entry_of n m i \<noteq> 0) IC g i q"
  shows "add_args n k m a p i q" and "a \<in> heads n \<union> expns n k" and "i \<in> heads n \<union> expns n k"
    and "\<not> used_rule n m a" and "entry_of n m i = 0"
proof -
  note r' = r [unfolded rule_chains_def] and x' = x [unfolded index_chains_def]
  show A: "a \<in> heads n \<union> expns n k" and I: "i \<in> heads n \<union> expns n k"
    using pa pi h by (auto simp: placed_def split: if_splits)
  show "add_args n k m a p i q"
    using m slot_addr(1) [OF A] slot_addr(1) [OF I] placed_prev [OF r' h(1) pa] placed_prev [OF x' h(2) pi]
      slot_addr(1) [of p n k] slot_addr(1) [of q n k]
    by (auto simp: add_args_def)
  show "\<not> used_rule n m a" "entry_of n m i = 0" using placed_free [OF pa] placed_free [OF pi] by simp_all
qed

lemma add_rule_chains:
  assumes r: "rule_chains n k m C" and h: "h \<in> heads n" and pa: "placed (expns n k) (used_rule n m) C h a p"
    and args: "add_args n k m a p i q" and m': "m' = add_mem n a p i q (added_rule pub c p i) m"
  shows "rule_chains n k m' (place C h a)"
proof -
  note r' = r [unfolded rule_chains_def]
  note R = add_reads [OF args m']
  show ?thesis
    unfolding rule_chains_def
    by (rule chains_place [OF r' h pa]) (use placed_prev(3) [OF r' h pa] in \<open>auto simp: R\<close>)
qed

lemma add_index_chains:
  assumes x: "index_chains n k m meta IC" and g: "g \<in> heads n" and s: "sizes_ok n k"
    and len: "length meta = unat k"
    and pi: "placed (expns n k) (\<lambda>i. entry_of n m i \<noteq> 0) IC g i q" and a: "a \<noteq> 0"
    and args: "add_args n k m a p i q" and m': "m' = add_mem n a p i q (added_rule pub c p i) m"
  shows "index_chains n k m' (add_meta n i q meta) (place IC g i)"
proof -
  note x' = x [unfolded index_chains_def]
  note R = add_reads [OF args m']
  have pv: "pv_index n (add_meta n i q meta) j = (if j = i then q else pv_index n meta j)"
    if j: "j \<in> expns n k" for j
  proof (cases "n \<le> i")
    case True
    have "unat (j - n) = unat (i - n) \<longleftrightarrow> j = i"
      using loc_inj [of n j i] expns_addr(2,3) [OF j] True by (auto simp: loc_def)
    then show ?thesis
      using expns_local(2) [OF s j] expns_addr(2,3) [OF j] len True
      by (auto simp: pv_index_def add_meta_def nth_list_update)
  next
    case False
    then show ?thesis using expns_addr(2) [OF j] by (auto simp: add_meta_def)
  qed
  show ?thesis
    unfolding index_chains_def
    by (rule chains_place [OF x' g pi]) (use placed_prev(3) [OF x' g pi] a in \<open>auto simp: R pv\<close>)
qed

lemma add_dead_ok:
  assumes d: "dead_ok n k m" and r: "rule_chains n k m C"
    and a: "a \<in> heads n \<union> expns n k" "\<not> used_rule n m a"
    and args: "add_args n k m a p i q" and m': "m' = add_mem n a p i q (added_rule pub c p i) m"
    and c: "cl_protocol c \<noteq> 0xFF"
  shows "dead_ok n k m'"
  using d a slot_addr(2) [OF a(1)] c by (auto simp: dead_ok_def add_reads [OF args m'])

lemma add_cross_ok:
  assumes x: "cross_ok n k m"
    and a: "a \<in> heads n \<union> expns n k" "\<not> used_rule n m a" and i: "i \<in> heads n \<union> expns n k" "entry_of n m i = 0"
    and args: "add_args n k m a p i q" and m': "m' = add_mem n a p i q (added_rule pub c p i) m"
    and c: "cl_protocol c \<noteq> 0xFF"
  shows "cross_ok n k m'"
proof -
  note R = add_reads [OF args m']
  have la: "\<not> live n m a" using a(2) by (simp add: live_def used_rule_def)
  have old: "ix_of n m b \<noteq> i" if "b \<in> heads n \<union> expns n k" "live n m b" for b
    using x that i(2) slot_addr(2) unfolding cross_ok_def by fastforce
  have new: "entry_of n m j \<noteq> a" if "j \<in> heads n \<union> expns n k" "entry_of n m j \<noteq> 0" for j
    using x that la unfolding cross_ok_def by blast
  show ?thesis
    unfolding cross_ok_def
  proof (intro conjI ballI impI)
    fix b assume b: "b \<in> heads n \<union> expns n k" "live n m' b"
    show "ix_of n m' b \<in> heads n \<union> expns n k"
      using x b i(1) unfolding cross_ok_def by (cases "b = a") (auto simp: R)
    show "entry_of n m' (ix_of n m' b) = b"
      using x b old [of b] unfolding cross_ok_def by (cases "b = a") (auto simp: R)
  next
    fix j assume j: "j \<in> heads n \<union> expns n k" "entry_of n m' j \<noteq> 0"
    show "entry_of n m' j \<in> heads n \<union> expns n k"
      using x j a(1) unfolding cross_ok_def by (cases "j = i") (auto simp: R)
    show "live n m' (entry_of n m' j)"
      using x j c unfolding cross_ok_def by (cases "j = i") (auto simp: R)
    show "ix_of n m' (entry_of n m' j) = j"
      using x j new [of j] unfolding cross_ok_def by (cases "j = i") (auto simp: R)
  qed
qed

lemma ids_okD:
  assumes "ids_ok n k m ids"
  shows "length ids = unat n + unat k"
    and "j < length ids \<Longrightarrow> ids ! j \<noteq> 0 \<Longrightarrow> Suc j < length ids"
    and "j < length ids \<Longrightarrow> ids ! j \<noteq> 0 \<Longrightarrow> \<exists>a \<in> heads n \<union> expns n k. live n m a \<and> ids ! j = encode n a"
    and "i < length ids \<Longrightarrow> j < length ids \<Longrightarrow> ids ! i = ids ! j \<Longrightarrow> ids ! j \<noteq> 0 \<Longrightarrow> i = j"
    and "a \<in> heads n \<union> expns n k \<Longrightarrow> live n m a \<Longrightarrow> encode n a \<in> set ids"
proof -
  note d = assms [unfolded ids_ok_def]
  show "length ids = unat n + unat k" using d by simp
  have b: "\<forall>j < length ids. ids ! j \<noteq> 0 \<longrightarrow>
        Suc j < length ids \<and> (\<exists>a \<in> heads n \<union> expns n k. live n m a \<and> ids ! j = encode n a)"
    by (rule d [THEN conjunct2, THEN conjunct1])
  show "j < length ids \<Longrightarrow> ids ! j \<noteq> 0 \<Longrightarrow> Suc j < length ids"
    "j < length ids \<Longrightarrow> ids ! j \<noteq> 0 \<Longrightarrow> \<exists>a \<in> heads n \<union> expns n k. live n m a \<and> ids ! j = encode n a"
    using b [rule_format, of j] by simp_all
  show "i < length ids \<Longrightarrow> j < length ids \<Longrightarrow> ids ! i = ids ! j \<Longrightarrow> ids ! j \<noteq> 0 \<Longrightarrow> i = j"
    using d [THEN conjunct2, THEN conjunct2, THEN conjunct1, rule_format, of i j] by simp
  show "a \<in> heads n \<union> expns n k \<Longrightarrow> live n m a \<Longrightarrow> encode n a \<in> set ids"
    by (rule d [THEN conjunct2, THEN conjunct2, THEN conjunct2, rule_format])
qed

lemma add_ids_ok:
  assumes ids: "ids_ok n k m ids" and s: "sizes_ok n k"
    and a: "a \<in> heads n \<union> expns n k" "\<not> used_rule n m a"
    and args: "add_args n k m a p i q" and m': "m' = add_mem n a p i q (added_rule pub c p i) m"
    and c: "cl_protocol c \<noteq> 0xFF"
  shows "\<exists>j. first_idx (\<lambda>x. x = 0) ids = Some j \<and> Suc j < length ids \<and> ids ! j = 0 \<and>
           ids_ok n k m' (ids[j := encode n a])"
proof -
  note R = add_reads [OF args m']
  let ?A = "heads n \<union> expns n k"
  note len = ids_okD(1) [OF ids]
  have la: "\<not> live n m a" using a(2) by (simp add: live_def used_rule_def)
  note bound = ids_okD(2) [OF ids] and inj = ids_okD(4) [OF ids]
  have img: "\<exists>b \<in> ?A. b \<noteq> a \<and> live n m b \<and> ids ! j = encode n b" if "j < length ids" "ids ! j \<noteq> 0" for j
  proof -
    from ids_okD(3) [OF ids that] obtain b where b: "b \<in> ?A" "live n m b" "ids ! j = encode n b" by (elim bexE conjE)
    then have "b \<noteq> a" using la by auto
    with b show ?thesis by blast
  qed
  have img': "\<exists>b \<in> ?A. b \<noteq> a \<and> ids ! j = encode n b" if "j < length ids" "ids ! j \<noteq> 0" for j
    using img [OF that] by blast
  obtain j where j: "first_idx (\<lambda>x. x = 0) ids = Some j" "Suc j < length ids" "ids ! j = 0"
    using free_handle [OF s len img' inj a(1)] by blast
  have ne: "ids ! i \<noteq> encode n a" if "i < length ids" for i
  proof
    assume e: "ids ! i = encode n a"
    then have "ids ! i \<noteq> 0" using encode_nonzero [OF s a(1)] by simp
    from img [OF that this] obtain b where b: "b \<in> ?A" "b \<noteq> a" "encode n b = encode n a" using e by metis
    then show False using encode_inj [OF s slot_addr(1) [OF b(1)] slot_addr(1) [OF a(1)]] by blast
  qed
  have "ids_ok n k m' (ids[j := encode n a])"
    unfolding ids_ok_def length_list_update
  proof (intro conjI allI impI ballI)
    show "length ids = unat n + unat k" by (rule len)
  next
    fix i assume i: "i < length ids" "ids[j := encode n a] ! i \<noteq> 0"
    show "Suc i < length ids" using i bound [of i] j by (cases "i = j") auto
    show "\<exists>b \<in> ?A. live n m' b \<and> ids[j := encode n a] ! i = encode n b"
    proof (cases "i = j")
      case True
      then show ?thesis using a(1) c i(1) by (intro bexI [of _ a]) (auto simp: R)
    next
      case False
      then obtain b where "b \<in> ?A" "b \<noteq> a" "live n m b" "ids ! i = encode n b" using img [of i] i by auto
      then show ?thesis using False by (intro bexI [of _ b]) (auto simp: R)
    qed
  next
    fix i i' assume i: "i < length ids" "i' < length ids"
      "ids[j := encode n a] ! i = ids[j := encode n a] ! i' \<and> ids[j := encode n a] ! i' \<noteq> 0"
    show "i = i'"
      using i inj [of i i'] ne [of i] ne [of i'] by (cases "i = j"; cases "i' = j") auto
  next
    fix b assume b: "b \<in> ?A" "live n m' b"
    show "encode n b \<in> set (ids[j := encode n a])"
    proof (cases "b = a")
      case True
      then show ?thesis using j(2) by (simp add: set_update_memI)
    next
      case False
      then have "encode n b \<in> set ids" using b ids_okD(5) [OF ids] by (simp add: R)
      then obtain i where i: "i < length ids" "ids ! i = encode n b" by (auto simp: in_set_conv_nth)
      then have "i \<noteq> j" using j(3) encode_nonzero [OF s b(1)] by metis
      then have "ids[j := encode n a] ! i = encode n b" using i by simp
      then show ?thesis using i(1) by (metis length_list_update nth_mem)
    qed
  qed
  then show ?thesis using j by blast
qed

section \<open>The whole operation\<close>

definition fits :: "nat_kernel \<Rightarrow> nat_drv \<Rightarrow> client_rule \<Rightarrow> u32 \<Rightarrow> bool" where
  "fits kk g c pub \<longleftrightarrow> (\<exists>p. fetch (pdns g) (unat (cl_pdn_index c)) = Some p \<and> pi_public_ip p = pub) \<and>
     pub \<noteq> 0 \<and> cl_pdn_index c < 16 \<and> cl_protocol c \<noteq> 0xFF"

text \<open>\<open>added t c v4 pub C IC a p i q j t'\<close>: the new rule is \<open>a\<close>, found by \<open>i\<close>, with the handle \<open>j + 1\<close>.\<close>

definition added ::
  "ip4_tbl \<Rightarrow> client_rule \<Rightarrow> bool \<Rightarrow> u32 \<Rightarrow> (u16 \<Rightarrow> u16 list) \<Rightarrow> (u16 \<Rightarrow> u16 list) \<Rightarrow>
   u16 \<Rightarrow> u16 \<Rightarrow> u16 \<Rightarrow> u16 \<Rightarrow> nat \<Rightarrow> ip4_tbl \<Rightarrow> bool"
where
  "added t c v4 pub C IC a p i q j t' \<longleftrightarrow>
     (let n = table_entries t; k = expn_table_entries t; m = mem t; ids = rule_id_array t in
      placed (expns n k) (used_rule n m) C (dst_slot v4 pub n c) a p \<and>
      placed (expns n k) (\<lambda>i. entry_of n m i \<noteq> 0) IC (src_slot n c) i q \<and>
      first_idx (\<lambda>x. x = 0) ids = Some j \<and> Suc j < length ids \<and>
      table_entries t' = n \<and> expn_table_entries t' = k \<and>
      mem t' = add_mem n a p i q (added_rule pub c p i) m \<and>
      rule_id_array t' = ids[j := encode n a] \<and>
      tbl_inv t' (place C (dst_slot v4 pub n c) a) (place IC (src_slot n c) i))"

definition table_full :: "ip4_tbl \<Rightarrow> client_rule \<Rightarrow> bool \<Rightarrow> u32 \<Rightarrow> bool" where
  "table_full t c v4 pub \<longleftrightarrow>
     (let n = table_entries t; k = expn_table_entries t; m = mem t in
      used_rule n m (dst_slot v4 pub n c) \<and> (\<forall>x \<in> expns n k. used_rule n m x) \<or>
      entry_of n m (src_slot n c) \<noteq> 0 \<and> (\<forall>x \<in> expns n k. entry_of n m x \<noteq> 0))"

lemma make_rule_hdl_result:
  assumes "first_idx (\<lambda>x. x = 0) (rule_id_array t) = Some j" and "length (rule_id_array t) = entry_total t"
  shows "\<exists>b e. make_rule_hdl t a = Some (of_nat (Suc j),
           t\<lparr>rule_id_array := (rule_id_array t)[j := encode (table_entries t) a],
             cur_tbl_cnt := b, cur_expn_tbl_cnt := e\<rparr>)"
proof (cases "table_entries t \<le> a")
  case True
  then show ?thesis using assms
    by (intro exI [of _ "cur_tbl_cnt t"] exI [of _ "cur_expn_tbl_cnt t + 1"])
      (simp add: make_rule_hdl_def encode_def)
next
  case False
  then show ?thesis using assms
    by (intro exI [of _ "cur_tbl_cnt t + 1"] exI [of _ "cur_expn_tbl_cnt t"])
      (simp add: make_rule_hdl_def encode_def)
qed

lemma placed_full: "placed E occ C h a p \<Longrightarrow> occ h \<Longrightarrow> \<exists>x \<in> E. \<not> occ x"
  by (auto simp: placed_def)

text \<open>Adding a rule either fails because a table is full, or adds it.\<close>

lemma add_rule_result:
  assumes inv: "tbl_inv t C IC" and g: "ip4_tbls g = [t]" and kk: "kernel_works kk" and c: "fits kk g c pub"
    and v4: "v4 \<longleftrightarrow> ver g \<ge> hw_v4_0 kk"
  shows "(\<exists>a p i q j t'. nati_add_ipv4_rule kk 1 c g = Some ((0, Some (ucast (of_nat (Suc j) :: u16))), g\<lparr>ip4_tbls := [t']\<rparr>) \<and>
            added t c v4 pub C IC a p i q j t') \<or>
         nati_add_ipv4_rule kk 1 c g = Some ((- EINVAL, None), g) \<and> table_full t c v4 pub"
proof -
  define n k m where nkm: "n = table_entries t" "k = expn_table_entries t" "m = mem t"
  note D = tbl_invD [OF inv nkm(1,2), folded nkm(3)]
  obtain pd where pd: "fetch (pdns g) (unat (cl_pdn_index c)) = Some pd" "pi_public_ip pd = pub" "pub \<noteq> 0"
    and c': "cl_pdn_index c < 16" "cl_protocol c \<noteq> 0xFF"
    using c by (auto simp: fits_def)
  have ft: "fetch [t] 0 = Some t" by (simp add: fetch_def)
  note start = nati_add_ipv4_rule_def g pd ft v4 [symmetric]
  from generate_rule_result [OF inv nkm(1,2), of v4 pub c, folded nkm(3)] show ?thesis
  proof (elim disjE exE conjE)
    fix a p i q
    let ?sw = "(new_sw_rule pub c)\<lparr>sw_prev_index := p, sw_indx_tbl_entry := i\<rparr>"
    let ?isw = "\<lparr>ix_tbl_entry = a, ix_next_index = 0, ix_prev_index = q\<rparr>"
    define t1 where "t1 = t\<lparr>index_expn_table_meta := add_meta n i q (index_expn_table_meta t)\<rparr>"
    assume gen: "generate_rule v4 pub c t = Some (Inr (a, ?sw, i, ?isw,
        t\<lparr>index_expn_table_meta := add_meta n i q (index_expn_table_meta t)\<rparr>))"
      and pa: "placed (expns n k) (used_rule n m) C (dst_slot v4 pub n c) a p"
      and pi: "placed (expns n k) (\<lambda>i. entry_of n m i \<noteq> 0) IC (src_slot n c) i q"
    have hs: "dst_slot v4 pub n c \<in> heads n" "src_slot n c \<in> heads n"
      unfolding dst_slot_def src_slot_def by (rule hash_heads; use D(4) in \<open>simp add: sizes_ok_def\<close>)+
    note P = placed_args [OF D(7,8,5) hs pa pi]
    define m' where "m' = add_mem n a p i q (added_rule pub c p i) m"
    have A: "addr n k a" "p \<noteq> 0 \<Longrightarrow> addr n k p" "addr n k i" "q \<noteq> 0 \<Longrightarrow> addr n k q"
      using P(1) by (auto simp: add_args_def)
    have t1: "table_entries t1 = n" "mem t1 = m" "tbl_addr_offset t1 = 0"
      using D(3) by (simp_all add: t1_def nkm)
    define t2 where "t2 = set_mem t1 (link_rule n p a (put_rule n a (added_rule pub c p i) m))"
    have s2: "copy_ipv4_rule_to_hw kk ?sw a t1 = Some t2"
      using copy_rule_eq [OF t1(1) [symmetric], of k kk a ?sw] D(5) kk t1 A by (simp add: t2_def added_rule_def)
    have t2: "table_entries t2 = n" "tbl_addr_offset t2 = 0" "mem_ok n k (mem t2)"
      using t1 D(5) by (simp_all add: t2_def set_mem_def)
    define t3 where "t3 = set_mem t2 (link_index n q i (put_index n i (two16 a 0) (mem t2)))"
    have s3: "copy_ipv4_index_rule_to_hw kk ?isw i t2 = Some t3"
      using copy_index_eq [OF t2(1) [symmetric] D(4) t2(3) kk t2(2) A(3), of ?isw] A by (simp add: t3_def)
    have t3: "table_entries t3 = n" "tbl_addr_offset t3 = 0" "mem_ok n k (mem t3)"
      using t2 by (simp_all add: t3_def set_mem_def)
    have s4: "post_ipv4_dma_cmd kk a t3 = (0, set_mem t3 (enable_rule n a (mem t3)))"
      by (rule post_dma_eq [OF t3(1) [symmetric] t3(3) kk t3(2) A(1)])
    define t4 where "t4 = set_mem t3 (enable_rule n a (mem t3))"
    have t4: "t4 = t1\<lparr>mem := m'\<rparr>"
      by (simp add: t4_def t3_def t2_def m'_def add_mem_def set_mem_def)
    have ids4: "rule_id_array t4 = rule_id_array t" "entry_total t4 = unat n + unat k" "table_entries t4 = n"
      by (simp_all add: t4 t1_def entry_total_def nkm)
    obtain j where j: "first_idx (\<lambda>x. x = 0) (rule_id_array t) = Some j" "Suc j < length (rule_id_array t)"
      "ids_ok n k m' ((rule_id_array t)[j := encode n a])"
      using add_ids_ok [OF D(11,4) P(2,4,1) m'_def c'(2)] by blast
    have len: "length (rule_id_array t) = unat n + unat k" by (rule ids_okD(1) [OF D(11)])
    obtain b e where s5: "make_rule_hdl t4 a = Some (of_nat (Suc j),
        t4\<lparr>rule_id_array := (rule_id_array t)[j := encode n a], cur_tbl_cnt := b, cur_expn_tbl_cnt := e\<rparr>)"
      using make_rule_hdl_result [of t4 j a] j(1) len ids4 by auto
    define t5 where "t5 = t4\<lparr>rule_id_array := (rule_id_array t)[j := encode n a], cur_tbl_cnt := b, cur_expn_tbl_cnt := e\<rparr>"
    have "Suc j < 65536" using j(2) len D(4) by (simp add: sizes_ok_def)
    then have "unat (of_nat (Suc j) :: u16) = Suc j"
      by (simp add: unsigned_of_nat take_bit_nat_eq_self del: of_nat_Suc)
    then have h0: "(of_nat (Suc j) :: u16) \<noteq> 0" by (metis nat.distinct(1) unat_0)
    have res: "nati_add_ipv4_rule kk 1 c g = Some ((0, Some (ucast (of_nat (Suc j) :: u16))), g\<lparr>ip4_tbls := [t5]\<rparr>)"
      using gen [folded t1_def] s2 s3 s4 [folded t4_def] s5 [folded t5_def] h0
      by (simp add: start set_tbl_def del: of_nat_Suc)
    have inv5: "tbl_inv t5 (place C (dst_slot v4 pub n c) a) (place IC (src_slot n c) i)"
      unfolding tbl_inv_def Let_def
      using D add_rule_chains [OF D(7) hs(1) pa P(1) m'_def] add_dead_ok [OF D(9,7) P(2,4,1) m'_def c'(2)]
        add_index_chains [OF D(8) hs(2) D(4,6) pi slot_addr(2) [OF P(2)] P(1) m'_def]
        add_cross_ok [OF D(10) P(2,4,3,5,1) m'_def c'(2)] j(3)
      by (simp add: t5_def t4 t1_def nkm(1,2) [symmetric] add_meta_def)
        (simp add: m'_def)
    have "added t c v4 pub C IC a p i q j t5"
      unfolding added_def Let_def nkm [symmetric]
      using pa pi j inv5 by (simp add: t5_def t4 t1_def nkm(1,2) m'_def [unfolded nkm(3)] nkm(3))
    then show ?thesis using res by blast
  next
    assume "generate_rule v4 pub c t = Some (Inl ())"
    then have "nati_add_ipv4_rule kk 1 c g = Some ((- EINVAL, None), g)" by (simp add: start)
    moreover assume "used_rule n m (dst_slot v4 pub n c)" "\<forall>x \<in> expns n k. used_rule n m x"
    ultimately show ?thesis by (simp add: table_full_def nkm)
  next
    assume "generate_rule v4 pub c t = Some (Inl ())"
    then have "nati_add_ipv4_rule kk 1 c g = Some ((- EINVAL, None), g)" by (simp add: start)
    moreover assume "entry_of n m (src_slot n c) \<noteq> 0" "\<forall>x \<in> expns n k. entry_of n m x \<noteq> 0"
    ultimately show ?thesis by (simp add: table_full_def nkm)
  qed
qed

end
