(* ===== verification/Nat_Del.thy ===== *)
theory Nat_Del
  imports Nat_Add_Inv
begin

text \<open>
  Deleting a rule: the DMA commands and the clean-up as changes of the tables by address.
\<close>

definition pos_of :: "bool \<Rightarrow> u16 \<Rightarrow> del_type" where
  "pos_of expn nxt =
     (if expn then if nxt = 0 then DEL_LAST else DEL_MIDDLE else if nxt = 0 then DEL_ONLY_ONE else DEL_HEAD)"

lemma pos_of_simps [simp]:
  "pos_of e x = DEL_HEAD \<longleftrightarrow> \<not> e \<and> x \<noteq> 0" "pos_of e x = DEL_MIDDLE \<longleftrightarrow> e \<and> x \<noteq> 0"
  "pos_of e x = DEL_LAST \<longleftrightarrow> e \<and> x = 0" "pos_of e x = DEL_ONLY_ONE \<longleftrightarrow> \<not> e \<and> x = 0"
  by (auto simp: pos_of_def)

lemma find_rule_pos_eq:
  assumes "mem_ok n k (mem t)" and "addr n k a"
  shows "find_rule_pos (n \<le> a) (loc n a) t = Some (pos_of (n \<le> a) (nx_rule n (mem t) a))"
  using fetch_rule [OF assms] by (auto simp: find_rule_pos_def pos_of_def nx_rule_def access_defs)

lemma find_index_rule_pos_eq:
  assumes "mem_ok n k (mem t)" and "addr n k i" and "n = table_entries t"
  shows "find_index_rule_pos i t = Some (pos_of (n \<le> i) (nx_index n (mem t) i))"
  using fetch_index [OF assms(1,2)] assms(3)
  by (auto simp: find_index_rule_pos_def pos_of_def nx_index_def access_defs loc_def)

section \<open>The commands\<close>

text \<open>\<open>rule_upd n a m m'\<close>: the rule command computed from \<open>m\<close>, done on \<open>m'\<close>.\<close>

definition rule_upd :: "u16 \<Rightarrow> u16 \<Rightarrow> nat_mem \<Rightarrow> nat_mem \<Rightarrow> nat_mem" where
  "rule_upd n a m m' =
     (let p = pv_rule n m a; r = rule_at n m' (if n \<le> a then p else a) in
      if n \<le> a then put_rule n p (r\<lparr>nxt_indx_pub_port := set_lo16 (nxt_indx_pub_port r) (nx_rule n m a)\<rparr>) m'
      else if nx_rule n m a = 0 then put_rule n a (r\<lparr>ip_cksm_enbl := set_hi16 (ip_cksm_enbl r) 0\<rparr>) m'
      else put_rule n a (r\<lparr>ts_proto := set_hi16 (ts_proto r) 0xFF00\<rparr>) m')"

definition index_upd :: "u16 \<Rightarrow> u16 \<Rightarrow> u16 list \<Rightarrow> nat_mem \<Rightarrow> nat_mem \<Rightarrow> nat_mem" where
  "index_upd n i meta m m' =
     (let q = pv_index n meta i; j = nx_index n m i; w = index_at n m' (if n \<le> i then q else i) in
      if n \<le> i then put_index n q (set_hi16 w j) m'
      else if j = 0 then put_index n i (set_lo16 w 0) m'
      else put_index n i (set_hi16 (set_lo16 w (entry_of n m j)) (nx_index n m j)) m')"

lemma put_commute: "put_rule n a r (put_index n' i w m) = put_index n' i w (put_rule n a r m)"
  by (simp add: put_rule_def put_index_def access_defs)

lemma upd_commute: "rule_upd n a m (index_upd n i meta m0 m') = index_upd n i meta m0 (rule_upd n a m m')"
  by (simp add: rule_upd_def index_upd_def Let_def put_commute)

lemma upd_mem_ok [simp]:
  "mem_ok n k (rule_upd n' a m m') = mem_ok n k m'" "mem_ok n k (index_upd n' i meta m m') = mem_ok n k m'"
  by (simp_all add: rule_upd_def index_upd_def Let_def)

lemma rule_cmd_eq:
  assumes m: "mem_ok n k m'" and a: "addr n k a" and p: "n \<le> a \<Longrightarrow> addr n k (pv_rule n (mem t) a)"
    and n: "n = table_entries t" and o: "tbl_addr_offset t = 0"
  shows "dma_write (rule_del_cmd t (loc n a) (rule_at n (mem t) a) (pos_of (n \<le> a) (nx_rule n (mem t) a))) m'
         = Some (rule_upd n a (mem t) m')"
proof (cases "n \<le> a")
  case True
  let ?p = "pv_rule n (mem t) a"
  have t: "(if n \<le> ?p then EXPN_TBL else BASE_TBL) = rule_table n ?p" "(if n \<le> ?p then ?p - n else ?p) = loc n ?p"
    by (simp_all add: rule_table_def loc_def)
  have c: "rule_del_cmd t (loc n a) (rule_at n (mem t) a) (pos_of (n \<le> a) (nx_rule n (mem t) a)) =
      \<lparr>dma_base_addr = rule_table n ?p, dma_data = nx_rule n (mem t) a, dma_offset = 32 * ucast (loc n ?p) + 8\<rparr>"
    using True t by (auto simp: rule_del_cmd_def Let_def n [symmetric] pv_rule_def nx_rule_def get_entry_offset_def o pos_of_def)
  show ?thesis unfolding c
    using dma_write_rule [OF m p [OF True], of 8] True by (simp add: dma_rule_def rule_upd_def Let_def)
next
  case False
  have c: "rule_del_cmd t (loc n a) (rule_at n (mem t) a) (pos_of (n \<le> a) (nx_rule n (mem t) a)) =
      (if nx_rule n (mem t) a = 0
       then \<lparr>dma_base_addr = rule_table n a, dma_data = 0, dma_offset = 32 * ucast (loc n a) + 18\<rparr>
       else \<lparr>dma_base_addr = rule_table n a, dma_data = 0xFF00, dma_offset = 32 * ucast (loc n a) + 22\<rparr>)"
    using False by (simp add: rule_del_cmd_def Let_def rule_table_def get_entry_offset_def o pos_of_def)
  show ?thesis unfolding c
    using dma_write_rule [OF m a, of 18 0] dma_write_rule [OF m a, of 22 "0xFF00"] False
    by (simp add: dma_rule_def rule_upd_def Let_def)
qed

lemma put_index_twice: "put_index n i w (put_index n i w' m) = put_index n i w m"
  by (simp add: put_index_def access_defs)

lemma index_cmds_eq:
  assumes m: "mem_ok n k m'" "mem_ok n k (mem t)" and i: "addr n k i"
    and q: "n \<le> i \<Longrightarrow> addr n k (pv_index n (index_expn_table_meta t) i)"
    and j: "\<not> n \<le> i \<Longrightarrow> nx_index n (mem t) i \<noteq> 0 \<Longrightarrow> nx_index n (mem t) i \<in> expns n k"
    and n: "n = table_entries t" and o: "tbl_addr_offset t = 0" and len: "length (index_expn_table_meta t) = unat k"
  shows "\<exists>cs. index_del_cmds t (loc n i) (index_at n (mem t) i) (pos_of (n \<le> i) (nx_index n (mem t) i)) = Some cs \<and>
           cs \<noteq> [] \<and> (\<forall>c \<in> set cs. is_index_cmd c) \<and>
           dma_writes cs m' = Some (index_upd n i (index_expn_table_meta t) (mem t) m')"
proof (cases "n \<le> i")
  case True
  let ?q = "pv_index n (index_expn_table_meta t) i"
  have f: "fetch (index_expn_table_meta t) (unat (loc n i)) = Some ?q"
    using loc_expn [OF i True] len by (simp add: fetch_def pv_index_def)
  have t: "(if n \<le> ?q then INDEX_EXPN_TBL else INDX_TBL) = index_table n ?q" "(if n \<le> ?q then ?q - n else ?q) = loc n ?q"
    by (simp_all add: index_table_def loc_def)
  have c: "index_del_cmds t (loc n i) (index_at n (mem t) i) (pos_of (n \<le> i) (nx_index n (mem t) i)) =
      Some [\<lparr>dma_base_addr = index_table n ?q, dma_data = nx_index n (mem t) i, dma_offset = 4 * ucast (loc n ?q) + 2\<rparr>]"
    using True f t by (simp add: index_del_cmds_def Let_def n [symmetric] nx_index_def get_index_entry_offset_def o pos_of_def)
  show ?thesis unfolding c
    using dma_write_index [OF m(1) q [OF True], of 2] True
    by (simp add: dma_index_def index_upd_def Let_def is_index_cmd_def index_table_def)
next
  case False
  then have ty: "index_table n i = INDX_TBL" by (simp add: index_table_def)
  have w0: "dma_write \<lparr>dma_base_addr = INDX_TBL, dma_data = v, dma_offset = 4 * ucast (loc n i) + 0\<rparr> m'
      = Some (put_index n i (set_lo16 (index_at n m' i) v) m')" for v
    using dma_write_index [OF m(1) i, of 0] ty by (simp add: dma_index_def)
  show ?thesis
  proof (cases "nx_index n (mem t) i = 0")
    case True
    then show ?thesis using False w0 [of 0]
      by (simp add: index_del_cmds_def pos_of_def get_index_entry_offset_def o is_index_cmd_def index_upd_def Let_def)
  next
    case nz: False
    let ?j = "nx_index n (mem t) i"
    have fj: "fetch (iexpn_tbl (mem t)) (unat (index_next (index_at n (mem t) i) - n)) = Some (index_at n (mem t) ?j)"
      using fetch_expn(2) [OF m(2) j [OF False nz]] by (simp add: nx_index_def)
    let ?m1 = "put_index n i (set_lo16 (index_at n m' i) (entry_of n (mem t) ?j)) m'"
    have "dma_write \<lparr>dma_base_addr = INDX_TBL, dma_data = v, dma_offset = 4 * ucast (loc n i) + 2\<rparr> ?m1
      = Some (put_index n i (set_hi16 (index_at n ?m1 i) v) ?m1)" for v
      using dma_write_index [of n k ?m1 i 2] m i ty by (simp add: dma_index_def)
    then show ?thesis using False nz fj w0 [of "entry_of n (mem t) ?j"] m i
      by (simp add: index_del_cmds_def Let_def pos_of_def get_index_entry_offset_def o is_index_cmd_def index_upd_def
          n [symmetric] entry_of_def nx_index_def index_at_put [OF m(1) i] put_index_twice)
  qed
qed

lemma dma_writes_append: "dma_writes (xs @ ys) m = Option.bind (dma_writes xs m) (dma_writes ys)"
  by (induction xs arbitrary: m) (auto split: bind_split simp: Option.bind_assoc)

lemma reorder_two:
  assumes "\<not> is_index_cmd c" and "\<forall>c \<in> set cs. is_index_cmd c" and "cs \<noteq> []"
  shows "ReorderCmds kk (c # cs) = (if malloc_reorder_ok kk then cs @ [c] else c # cs)"
  using assms by (cases cs) (auto simp: ReorderCmds_def)

lemma rule_cmd_no_index: "\<not> is_index_cmd (rule_del_cmd t x r pos)"
  by (cases pos) (auto simp: rule_del_cmd_def is_index_cmd_def Let_def)

section \<open>The clean-up\<close>

definition rule_clean :: "u16 \<Rightarrow> u16 \<Rightarrow> nat_mem \<Rightarrow> nat_mem \<Rightarrow> nat_mem" where
  "rule_clean n a m m1 =
     (let x = nx_rule n m a;
          m2 = (if n \<le> a \<and> x \<noteq> 0
                then put_rule n x (UpdateSwSpecParams (rule_at n m1 x) SW_PARAM_PREV_INDX (ucast (pv_rule n m a))) m1
                else m1)
      in if \<not> n \<le> a \<and> x \<noteq> 0 then m2 else put_rule n a zero_rule m2)"

definition index_clean :: "u16 \<Rightarrow> u16 \<Rightarrow> nat_mem \<Rightarrow> nat_mem \<Rightarrow> nat_mem" where
  "index_clean n i m m1 =
     (let j = nx_index n m i; e = entry_of n m j in
      if \<not> n \<le> i \<and> j \<noteq> 0
      then put_rule n e (UpdateSwSpecParams (rule_at n m1 e) SW_PARAM_INDX_TBL_ENTRY (ucast i)) (put_index n j 0 m1)
      else put_index n i 0 m1)"

definition meta_clean :: "u16 \<Rightarrow> u16 \<Rightarrow> nat_mem \<Rightarrow> u16 list \<Rightarrow> u16 list" where
  "meta_clean n i m meta =
     (let j = nx_index n m i; jj = nx_index n m j in
      if n \<le> i then if j \<noteq> 0 then meta[unat (loc n j) := pv_index n meta i, unat (loc n i) := 0] else meta
      else if j \<noteq> 0 \<and> jj \<noteq> 0 then meta[unat (loc n jj) := i] else meta)"

lemma clean_mem_ok [simp]:
  "mem_ok n k (rule_clean n' a m m1) = mem_ok n k m1" "mem_ok n k (index_clean n' i m m1) = mem_ok n k m1"
  "length (meta_clean n' i m meta) = length meta"
  by (simp_all add: rule_clean_def index_clean_def meta_clean_def Let_def)

lemma put_rule_set: "set_rules (n \<le> a) ((rules_of (n \<le> a) m)[unat (loc n a) := r]) m = put_rule n a r m"
  by (simp add: put_rule_def)

lemma rule_cleanup_eq:
  assumes m: "mem_ok n k m1" and a: "addr n k a" and n: "n = table_entries t"
    and same: "nx_rule n m1 a = nx_rule n m a" "pv_rule n m1 a = pv_rule n m a"
    and x: "n \<le> a \<Longrightarrow> nx_rule n m a \<noteq> 0 \<Longrightarrow> nx_rule n m a \<in> expns n k"
  shows "rule_cleanup (n \<le> a) (loc n a) (pos_of (n \<le> a) (nx_rule n m a)) (set_mem t m1) =
           Some (set_mem t (rule_clean n a m m1))"
proof (cases "n \<le> a \<and> nx_rule n m a \<noteq> 0")
  case True
  let ?x = "nx_rule n m a"
  let ?r = "UpdateSwSpecParams (rule_at n m1 ?x) SW_PARAM_PREV_INDX (ucast (pv_rule n m a))"
  have X: "?x \<in> expns n k" using x True by blast
  have f: "fetch (rules_of True m1) (unat (loc n a)) = Some (rule_at n m1 a)"
    using fetch_rule [OF m a] True by simp
  have s: "store_at (expn_tbl m1) (unat (?x - n)) ?r = Some ((expn_tbl m1)[unat (?x - n) := ?r])"
    using store_rule [OF m expns_addr(1) [OF X]] expns_addr(2,3) [OF X] by (simp add: access_defs)
  have u: "m1\<lparr>expn_tbl := (expn_tbl m1)[unat (?x - n) := ?r]\<rparr> = put_rule n ?x ?r m1"
    using expns_addr(2,3) [OF X] by (simp add: put_rule_def access_defs)
  have z: "store_at (rules_of True (put_rule n ?x ?r m1)) (unat (loc n a)) zero_rule
      = Some ((rules_of True (put_rule n ?x ?r m1))[unat (loc n a) := zero_rule])"
    using store_rule [of n k "put_rule n ?x ?r m1" a] m a True by simp
  have e: "rule_next (rule_at n m1 a) = ?x" "rule_prev (rule_at n m1 a) = pv_rule n m a"
    using same by (simp_all add: nx_rule_def pv_rule_def)
  have "rule_cleanup True (loc n a) DEL_MIDDLE (set_mem t m1) = Some (set_mem t (rule_clean n a m m1))"
    using f s z True by (simp add: rule_cleanup_def set_mem_def e n [symmetric] fetch_expn [OF m X] u
        rule_clean_def Let_def) (simp add: put_rule_def [of n a])
  then show ?thesis using True by (simp add: pos_of_def)
next
  case False
  then show ?thesis
  proof (cases "\<not> n \<le> a \<and> nx_rule n m a \<noteq> 0")
    case True
    then show ?thesis by (simp add: pos_of_def rule_cleanup_def rule_clean_def set_mem_def)
  next
    case F2: False
    have "store_at (rules_of (n \<le> a) m1) (unat (loc n a)) zero_rule
        = Some ((rules_of (n \<le> a) m1)[unat (loc n a) := zero_rule])" by (rule store_rule [OF m a])
    then show ?thesis using False F2
      by (auto simp: pos_of_def rule_cleanup_def rule_clean_def set_mem_def put_rule_set Let_def)
  qed
qed

lemma index_cleanup_eq:
  assumes m: "mem_ok n k (mem t)" and i: "addr n k i" and n: "n = table_entries t" and c: "\<not> (\<not> n \<le> i \<and> nx_index n m i \<noteq> 0)"
    and same: "nx_index n (mem t) i = nx_index n m i"
    and j: "n \<le> i \<Longrightarrow> nx_index n m i \<noteq> 0 \<Longrightarrow> nx_index n m i \<in> expns n k"
    and len: "length (index_expn_table_meta t) = unat k"
  shows "index_cleanup (n \<le> i) (loc n i) (pos_of (n \<le> i) (nx_index n m i)) t =
           Some (t\<lparr>index_expn_table_meta := meta_clean n i m (index_expn_table_meta t), mem := index_clean n i m (mem t)\<rparr>)"
proof -
  let ?meta = "index_expn_table_meta t" and ?j = "nx_index n m i"
  have f: "fetch (indexes_of (n \<le> i) (mem t)) (unat (loc n i)) = Some (index_at n (mem t) i)"
    by (rule fetch_index [OF m i])
  have s: "store_at (indexes_of (n \<le> i) (mem t)) (unat (loc n i)) 0
      = Some ((indexes_of (n \<le> i) (mem t))[unat (loc n i) := 0])" by (rule store_index [OF m i])
  have e: "index_next (index_at n (mem t) i) = ?j" using same by (simp add: nx_index_def)
  show ?thesis
  proof (cases "n \<le> i \<and> ?j \<noteq> 0")
    case True
    then have J: "?j \<in> expns n k" using j by blast
    have b: "unat (loc n ?j) < length ?meta" "unat (loc n i) < length ?meta"
      using loc_expn [OF expns_addr(1,2) [OF J]] loc_expn [OF i] True len by simp_all
    show ?thesis using True f s b c expns_addr(2,3) [OF J]
      by (simp add: index_cleanup_def pos_of_def e n [symmetric] index_clean_def meta_clean_def Let_def
          fetch_def [of ?meta] store_at_def [of ?meta] store_at_def [of "?meta[x := y]" for x y]
          pv_index_def put_index_def)
  next
    case False
    then show ?thesis using f s c
      by (auto simp: index_cleanup_def pos_of_def index_clean_def meta_clean_def Let_def put_index_def)
  qed
qed

lemma index_head_cleanup_eq:
  assumes m: "mem_ok n k (mem t)" and n: "n = table_entries t" and i: "i \<in> heads n"
    and j: "nx_index n m i \<noteq> 0" "nx_index n m i \<in> expns n k"
    and jj: "nx_index n m (nx_index n m i) \<noteq> 0 \<Longrightarrow> nx_index n m (nx_index n m i) \<in> expns n k"
    and same: "nx_index n (mem t) (nx_index n m i) = nx_index n m (nx_index n m i)"
      "entry_of n (mem t) i = entry_of n m (nx_index n m i)"
    and e: "addr n k (entry_of n m (nx_index n m i))"
    and len: "length (index_expn_table_meta t) = unat k"
  shows "index_head_cleanup i (nx_index n m i - n) t =
           Some (t\<lparr>index_expn_table_meta := meta_clean n i m (index_expn_table_meta t), mem := index_clean n i m (mem t)\<rparr>)"
proof -
  let ?j = "nx_index n m i" and ?jj = "nx_index n m (nx_index n m i)" and ?e = "entry_of n m (nx_index n m i)"
  let ?m1 = "put_index n ?j 0 (mem t)"
  have ni: "\<not> n \<le> i" "loc n i = i" using heads_addr [OF i] by blast+
  have ij: "i \<noteq> ?j" using ni(1) expns_addr(2) [OF j(2)] by metis
  have fj: "fetch (iexpn_tbl (mem t)) (unat (?j - n)) = Some (index_at n (mem t) ?j)"
    by (rule fetch_expn(2) [OF m j(2)])
  have nn: "index_next (index_at n (mem t) ?j) = ?jj" using same(1) by (simp add: nx_index_def)
  have sm: "?jj = 0 \<Longrightarrow> meta_clean n i m (index_expn_table_meta t) = index_expn_table_meta t"
    by (simp add: meta_clean_def ni Let_def)
  have sn: "n \<le> ?jj \<and> store_at (index_expn_table_meta t) (unat (?jj - n)) i
      = Some (meta_clean n i m (index_expn_table_meta t))" if nz: "?jj \<noteq> 0"
  proof -
    note J = jj [OF nz]
    have "unat (loc n ?jj) < length (index_expn_table_meta t)"
      using loc_expn [OF expns_addr(1,2) [OF J]] len by simp
    then show ?thesis using nz expns_addr(2,3) [OF J] j(1) ni by (simp add: meta_clean_def store_at_def Let_def)
  qed
  have sx: "store_at (iexpn_tbl (mem t)) (unat (?j - n)) 0 = Some ((iexpn_tbl (mem t))[unat (?j - n) := 0])"
    using store_index [OF m expns_addr(1) [OF j(2)]] expns_addr(2,3) [OF j(2)] by (simp add: access_defs)
  have u: "(mem t)\<lparr>iexpn_tbl := (iexpn_tbl (mem t))[unat (?j - n) := 0]\<rparr> = ?m1"
    using expns_addr(2,3) [OF j(2)] by (simp add: put_index_def access_defs)
  note fi = fetch_head(2) [OF m i]
  have ie: "index_entry (index_at n (mem t) i) = ?e" using same(2) by (simp add: entry_of_def)
  have fe: "fetch (rules_of (n \<le> ?e) ?m1) (unat (loc n ?e)) = Some (rule_at n ?m1 ?e)"
    by (rule fetch_rule) (use m e in simp_all)
  have se: "store_at (rules_of (n \<le> ?e) ?m1) (unat (loc n ?e)) r
      = Some ((rules_of (n \<le> ?e) ?m1)[unat (loc n ?e) := r])" for r
    by (rule store_rule) (use m e in simp_all)
  show ?thesis
    using fe se j(1) ni sm sn
    by (cases "?jj = 0")
      (simp_all add: index_head_cleanup_def n [symmetric] fj nn sx u fi ie loc_def [symmetric]
        index_clean_def Let_def, simp_all add: put_rule_def)
qed

section \<open>The neighbours of an entry\<close>

lemma chain_split:
  assumes C: "chains H E nx pv occ C" and x: "x \<in> E" "occ x"
  obtains h xs ys where "h \<in> H" "C h = xs @ x # ys"
  using chainsD(11) [OF C x] by (meson split_list)

lemma chain_neighbours:
  assumes C: "chains H E nx pv occ C" and x: "x \<in> E" "occ x"
  shows "pv x \<in> H \<union> E" and "pv x \<noteq> x" and "occ (pv x)"
    and "nx x \<noteq> 0 \<Longrightarrow> nx x \<in> E \<and> occ (nx x) \<and> nx x \<noteq> x \<and> nx x \<noteq> pv x"
proof -
  obtain h xs ys where h: "h \<in> H" and Ch: "C h = xs @ x # ys" by (rule chain_split [OF C x])
  have d: "distinct (h # xs @ x # ys)" using chains_distinct [OF C h] Ch by simp
  have pv: "pv x = last (h # xs)" by (rule chains_prev [OF C h Ch])
  have l: "pv x = h \<or> pv x \<in> set xs" unfolding pv by (rule last_or)
  have oh: "occ h" using chainsD(9) [OF C h] Ch by force
  have m: "y \<in> E \<and> occ y" if "y \<in> set xs \<union> set ys" for y
    using chainsD(7,8) [OF C h, of y] Ch that by auto
  show "pv x \<in> H \<union> E" "occ (pv x)" using l h oh m by auto
  show "pv x \<noteq> x" using l d by auto
  assume nz: "nx x \<noteq> 0"
  then obtain y zs where "ys = y # zs" "nx x = y"
    using chains_next [OF C h Ch] by (cases ys) auto
  then show "nx x \<in> E \<and> occ (nx x) \<and> nx x \<noteq> x \<and> nx x \<noteq> pv x" using m d l by auto
qed

lemma head_next:
  assumes C: "chains H E nx pv occ C" and h: "h \<in> H" and nz: "nx h \<noteq> 0"
  obtains ys where "C h = nx h # ys" and "nx h \<in> E" and "occ (nx h)"
proof -
  have "C h \<noteq> []" using chains_head_zero [OF C h] nz by simp
  then obtain y ys where y: "C h = y # ys" by (cases "C h") auto
  then have "nx h = y" using chainsD(4) [OF C h] by simp
  then show thesis using that y chainsD(7,8) [OF C h, of y] by auto
qed

section \<open>The whole deletion\<close>

definition del_mem :: "u16 \<Rightarrow> u16 \<Rightarrow> u16 \<Rightarrow> u16 list \<Rightarrow> nat_mem \<Rightarrow> nat_mem" where
  "del_mem n a i meta m =
     index_clean n i m (rule_clean n a m (index_upd n i meta m (rule_upd n a m m)))"

text \<open>What the deletion of the rule \<open>a\<close> with the index entry \<open>i\<close> starts from.\<close>

definition del_args :: "u16 \<Rightarrow> u16 \<Rightarrow> nat_mem \<Rightarrow> u16 list \<Rightarrow> u16 \<Rightarrow> u16 \<Rightarrow> bool" where
  "del_args n k m meta a i \<longleftrightarrow>
     mem_ok n k m \<and> length meta = unat k \<and> a \<in> heads n \<union> expns n k \<and> i \<in> heads n \<union> expns n k \<and>
     live n m a \<and> ix_of n m a = i \<and> entry_of n m i = a \<and>
     (n \<le> a \<longrightarrow> pv_rule n m a \<in> heads n \<union> expns n k \<and> pv_rule n m a \<noteq> a) \<and>
     (nx_rule n m a \<noteq> 0 \<longrightarrow> nx_rule n m a \<in> expns n k \<and> nx_rule n m a \<noteq> a \<and>
        (n \<le> a \<longrightarrow> nx_rule n m a \<noteq> pv_rule n m a)) \<and>
     (n \<le> i \<longrightarrow> pv_index n meta i \<in> heads n \<union> expns n k \<and> pv_index n meta i \<noteq> i) \<and>
     (nx_index n m i \<noteq> 0 \<longrightarrow> nx_index n m i \<in> expns n k \<and> nx_index n m i \<noteq> i \<and>
        (n \<le> i \<longrightarrow> nx_index n m i \<noteq> pv_index n meta i)) \<and>
     (\<not> n \<le> i \<and> nx_index n m i \<noteq> 0 \<longrightarrow>
        (let j = nx_index n m i in
         entry_of n m j \<in> heads n \<union> expns n k \<and> entry_of n m j \<noteq> a \<and> live n m (entry_of n m j) \<and>
         ix_of n m (entry_of n m j) = j \<and>
         (nx_index n m j \<noteq> 0 \<longrightarrow> nx_index n m j \<in> expns n k \<and> nx_index n m j \<noteq> j)))"

lemma slot_cases:
  assumes "a \<in> heads n \<union> expns n k"
  shows "n \<le> a \<longleftrightarrow> a \<in> expns n k" "\<not> n \<le> a \<longleftrightarrow> a \<in> heads n"
  using assms heads_addr(2) [of a n] expns_addr(2) [of a n k] by auto

lemma chain_nexts:
  assumes C: "chains (heads n) (expns n k) nx pv occ C" and a: "a \<in> heads n \<union> expns n k" "occ a" and nz: "nx a \<noteq> 0"
  shows "nx a \<in> expns n k" "nx a \<noteq> a" "n \<le> a \<Longrightarrow> nx a \<noteq> pv a" "occ (nx a)"
proof -
  consider "a \<in> heads n" "\<not> n \<le> a" | "a \<in> expns n k" using a slot_cases [OF a(1)] by blast
  then have "nx a \<in> expns n k \<and> nx a \<noteq> a \<and> (n \<le> a \<longrightarrow> nx a \<noteq> pv a) \<and> occ (nx a)"
  proof cases
    case 1
    obtain ys where y: "C a = nx a # ys" "nx a \<in> expns n k" "occ (nx a)" by (rule head_next [OF C 1(1) nz])
    then have "nx a \<noteq> a" using chains_head_notin [OF C 1(1) 1(1)] by auto
    then show ?thesis using y 1 by simp
  next
    case 2
    then show ?thesis using chain_neighbours(4) [OF C 2 a(2) nz] by simp
  qed
  then show "nx a \<in> expns n k" "nx a \<noteq> a" "n \<le> a \<Longrightarrow> nx a \<noteq> pv a" "occ (nx a)" by simp_all
qed

lemma del_argsI:
  assumes r: "rule_chains n k m C" and x: "index_chains n k m meta IC" and m: "mem_ok n k m" and len: "length meta = unat k"
    and c: "cross_ok n k m" and a: "a \<in> heads n \<union> expns n k" "live n m a"
  shows "del_args n k m meta a (ix_of n m a)"
proof -
  let ?i = "ix_of n m a" and ?occ = "\<lambda>i. entry_of n m i \<noteq> 0"
  note r' = r [unfolded rule_chains_def] and x' = x [unfolded index_chains_def]
  have i: "?i \<in> heads n \<union> expns n k" "entry_of n m ?i = a" using c a unfolding cross_ok_def by simp_all
  have ua: "used_rule n m a" using a(2) by (simp add: live_def used_rule_def)
  have oi: "?occ ?i" using i(2) slot_addr(2) [OF a(1)] by simp
  have rp: "pv_rule n m a \<in> heads n \<union> expns n k \<and> pv_rule n m a \<noteq> a" if "n \<le> a"
    using chain_neighbours(1,2) [OF r' _ ua] slot_cases(1) [OF a(1)] that by simp
  have xp: "pv_index n meta ?i \<in> heads n \<union> expns n k \<and> pv_index n meta ?i \<noteq> ?i" if "n \<le> ?i"
    using chain_neighbours(1,2) [OF x' _ oi] slot_cases(1) [OF i(1)] that by simp
  have hd: "entry_of n m j \<in> heads n \<union> expns n k \<and> entry_of n m j \<noteq> a \<and> live n m (entry_of n m j) \<and>
         ix_of n m (entry_of n m j) = j \<and>
         (nx_index n m j \<noteq> 0 \<longrightarrow> nx_index n m j \<in> expns n k \<and> nx_index n m j \<noteq> j)"
    if j: "j = nx_index n m ?i" "j \<noteq> 0" for j
  proof -
    have jE: "j \<in> expns n k" "?occ j" "j \<noteq> ?i" using chain_nexts [OF x' i(1) oi] j by simp_all
    then have e: "entry_of n m j \<in> heads n \<union> expns n k" "live n m (entry_of n m j)" "ix_of n m (entry_of n m j) = j"
      using c unfolding cross_ok_def by simp_all
    moreover have "entry_of n m j \<noteq> a" using e(3) jE(3) by metis
    moreover have "nx_index n m j \<noteq> 0 \<longrightarrow> nx_index n m j \<in> expns n k \<and> nx_index n m j \<noteq> j"
      using chain_nexts(1,2) [OF x' _ jE(2)] jE(1) by simp
    ultimately show ?thesis by simp
  qed
  show ?thesis
    unfolding del_args_def Let_def
    using m len a i rp xp chain_nexts(1-3) [OF r' a(1) ua] chain_nexts(1-3) [OF x' i(1) oi] hd [OF refl] by simp
qed

lemma del_argsD:
  assumes "del_args n k m meta a i"
  shows "mem_ok n k m" "length meta = unat k" "a \<in> heads n \<union> expns n k" "i \<in> heads n \<union> expns n k"
    "live n m a" "ix_of n m a = i" "entry_of n m i = a"
    "n \<le> a \<Longrightarrow> pv_rule n m a \<in> heads n \<union> expns n k" "n \<le> a \<Longrightarrow> pv_rule n m a \<noteq> a"
    "nx_rule n m a \<noteq> 0 \<Longrightarrow> nx_rule n m a \<in> expns n k" "nx_rule n m a \<noteq> 0 \<Longrightarrow> nx_rule n m a \<noteq> a"
    "nx_rule n m a \<noteq> 0 \<Longrightarrow> n \<le> a \<Longrightarrow> nx_rule n m a \<noteq> pv_rule n m a"
    "n \<le> i \<Longrightarrow> pv_index n meta i \<in> heads n \<union> expns n k" "n \<le> i \<Longrightarrow> pv_index n meta i \<noteq> i"
    "nx_index n m i \<noteq> 0 \<Longrightarrow> nx_index n m i \<in> expns n k" "nx_index n m i \<noteq> 0 \<Longrightarrow> nx_index n m i \<noteq> i"
    "nx_index n m i \<noteq> 0 \<Longrightarrow> n \<le> i \<Longrightarrow> nx_index n m i \<noteq> pv_index n meta i"
  using assms by (simp_all add: del_args_def)

lemma del_args_head:
  assumes "del_args n k m meta a i" and "\<not> n \<le> i" "nx_index n m i \<noteq> 0" and j: "j = nx_index n m i"
  shows "entry_of n m j \<in> heads n \<union> expns n k" "entry_of n m j \<noteq> a" "live n m (entry_of n m j)"
    "ix_of n m (entry_of n m j) = j" "nx_index n m j \<noteq> 0 \<Longrightarrow> nx_index n m j \<in> expns n k"
    "nx_index n m j \<noteq> 0 \<Longrightarrow> nx_index n m j \<noteq> j"
  using assms by (simp_all add: del_args_def Let_def)

text \<open>The reads after the two commands.\<close>

lemma upd_rule_at:
  assumes A: "del_args n k m meta a i"
  shows "rule_at n (index_upd n i meta m (rule_upd n a m m)) b =
    (if n \<le> a then if b = pv_rule n m a
       then (rule_at n m b)\<lparr>nxt_indx_pub_port := set_lo16 (nxt_indx_pub_port (rule_at n m b)) (nx_rule n m a)\<rparr>
       else rule_at n m b
     else if b = a then if nx_rule n m a = 0 then (rule_at n m a)\<lparr>ip_cksm_enbl := set_hi16 (ip_cksm_enbl (rule_at n m a)) 0\<rparr>
       else (rule_at n m a)\<lparr>ts_proto := set_hi16 (ts_proto (rule_at n m a)) 0xFF00\<rparr>
     else rule_at n m b)"
proof -
  note D = del_argsD [OF A]
  note at = rule_at_put [OF D(1) slot_addr(1)]
  show ?thesis
    using D(3) D(8) by (auto simp: index_upd_def rule_upd_def Let_def at)
qed

lemma upd_index_at:
  assumes A: "del_args n k m meta a i"
  shows "index_at n (index_upd n i meta m (rule_upd n a m m)) b =
    (if n \<le> i then if b = pv_index n meta i then set_hi16 (index_at n m b) (nx_index n m i) else index_at n m b
     else if b = i then if nx_index n m i = 0 then set_lo16 (index_at n m i) 0
       else set_hi16 (set_lo16 (index_at n m i) (entry_of n m (nx_index n m i))) (nx_index n m (nx_index n m i))
     else index_at n m b)"
proof -
  note D = del_argsD [OF A]
  have "mem_ok n k (rule_upd n a m m)" using D(1) by simp
  note at = index_at_put [OF this slot_addr(1)]
  have u: "index_at n (rule_upd n a m m) x = index_at n m x" for x by (simp add: rule_upd_def Let_def)
  show ?thesis
    using D(4) D(13) by (auto simp: index_upd_def Let_def at u)
qed

lemma rule_upd_other: "index_at n (rule_clean n' a m m1) b = index_at n m1 b"
  by (simp add: rule_clean_def Let_def)

lemma post_del_eq:
  assumes A: "del_args n k (mem t) (index_expn_table_meta t) a i" and kk: "kernel_works kk"
    and n: "n = table_entries t" and o: "tbl_addr_offset t = 0"
  shows "post_del_dma_cmd kk (loc n a) (n \<le> a) (pos_of (n \<le> a) (nx_rule n (mem t) a)) t =
    Some (0, t\<lparr>index_expn_table_meta := meta_clean n i (mem t) (index_expn_table_meta t),
               mem := del_mem n a i (index_expn_table_meta t) (mem t)\<rparr>)"
proof -
  define m meta where mm: "m = mem t" "meta = index_expn_table_meta t"
  note A' = A [folded mm] and D = del_argsD [OF A, folded mm]
  have aa: "addr n k a" "addr n k i" using slot_addr(1) D(3,4) by blast+
  define m1 where "m1 = index_upd n i meta m (rule_upd n a m m)"
  have ok1: "mem_ok n k m1" using D(1) by (simp add: m1_def)
  note R = upd_rule_at [OF A', folded m1_def] and X = upd_index_at [OF A', folded m1_def]
  have en: "rule_enabled (rule_at n m a)" "rule_index (rule_at n m a) = i"
    using D(5,6) by (simp_all add: live_def ix_of_def)
  have f: "fetch (rules_of (n \<le> a) m) (unat (loc n a)) = Some (rule_at n m a)" by (rule fetch_rule [OF D(1) aa(1)])
  have fp: "find_index_rule_pos i t = Some (pos_of (n \<le> i) (nx_index n m i))"
    using find_index_rule_pos_eq [OF _ aa(2) n] D(1) by (simp add: mm)
  have fi: "fetch (indexes_of (n \<le> i) m) (unat (loc n i)) = Some (index_at n m i)" by (rule fetch_index [OF D(1) aa(2)])
  obtain cs where cs: "index_del_cmds t (loc n i) (index_at n m i) (pos_of (n \<le> i) (nx_index n m i)) = Some cs"
    "cs \<noteq> []" "\<forall>c \<in> set cs. is_index_cmd c" "\<And>m'. mem_ok n k m' \<Longrightarrow> dma_writes cs m' = Some (index_upd n i meta m m')"
  proof -
    have q: "n \<le> i \<Longrightarrow> addr n k (pv_index n meta i)" using D(13) slot_addr(1) by blast
    have j: "\<not> n \<le> i \<Longrightarrow> nx_index n m i \<noteq> 0 \<Longrightarrow> nx_index n m i \<in> expns n k" using D(15) by blast
    have E: "mem_ok n k m' \<Longrightarrow> \<exists>cs. index_del_cmds t (loc n i) (index_at n m i) (pos_of (n \<le> i) (nx_index n m i)) = Some cs \<and>
           cs \<noteq> [] \<and> (\<forall>c \<in> set cs. is_index_cmd c) \<and> dma_writes cs m' = Some (index_upd n i meta m m')" for m'
      using index_cmds_eq [of n k m' t i, folded mm] D(1,2) aa(2) q j n o by (simp add: mm)
    from E [OF D(1)] obtain cs where c: "index_del_cmds t (loc n i) (index_at n m i) (pos_of (n \<le> i) (nx_index n m i)) = Some cs"
      "cs \<noteq> []" "\<forall>c \<in> set cs. is_index_cmd c" by blast
    show thesis by (rule that [OF c]) (use E c(1) in fastforce)
  qed
  define c where "c = rule_del_cmd t (loc n a) (rule_at n m a) (pos_of (n \<le> a) (nx_rule n m a))"
  have cw: "mem_ok n k m' \<Longrightarrow> dma_write c m' = Some (rule_upd n a m m')" for m'
    using rule_cmd_eq [of n k m' a t, folded mm] aa(1) D(8) slot_addr(1) n o unfolding c_def by blast
  have ro: "ReorderCmds kk (c # cs) = (if malloc_reorder_ok kk then cs @ [c] else c # cs)"
    by (rule reorder_two [OF _ cs(3,2)]) (simp add: c_def rule_cmd_no_index)
  have w1: "dma_writes (cs @ [c]) m = Some m1"
    using cs(4) [OF D(1)] cw [of "index_upd n i meta m m"] D(1) by (simp add: dma_writes_append m1_def upd_commute)
  have w2: "dma_writes (c # cs) m = Some m1"
    using cs(4) [of "rule_upd n a m m"] cw [OF D(1)] D(1) by (simp add: m1_def)
  have dma: "dma kk (ReorderCmds kk (c # cs)) m = Some m1"
    using kk w1 w2 unfolding ro kernel_works_def by (simp del: dma_writes.simps)
  have sa: "nx_rule n m1 a = nx_rule n m a" "pv_rule n m1 a = pv_rule n m a"
    using D(9) by (auto simp: nx_rule_def pv_rule_def R field_simps)
  have rc: "rule_cleanup (n \<le> a) (loc n a) (pos_of (n \<le> a) (nx_rule n m a)) (set_mem t m1)
      = Some (set_mem t (rule_clean n a m m1))"
    by (rule rule_cleanup_eq [OF ok1 aa(1) n sa]) (use D(10) in blast)
  define t2 where "t2 = set_mem t (rule_clean n a m m1)"
  have t2: "mem_ok n k (mem t2)" "n = table_entries t2" "index_expn_table_meta t2 = meta" "mem t2 = rule_clean n a m m1"
    using ok1 n by (simp_all add: t2_def set_mem_def mm)
  have last: "(if \<not> n \<le> i \<and> nx_index n m i \<noteq> 0 then index_head_cleanup (loc n i) (nx_index n m i - n) t2
       else index_cleanup (n \<le> i) (loc n i) (pos_of (n \<le> i) (nx_index n m i)) t2)
     = Some (t2\<lparr>index_expn_table_meta := meta_clean n i m meta, mem := index_clean n i m (mem t2)\<rparr>)"
  proof (cases "\<not> n \<le> i \<and> nx_index n m i \<noteq> 0")
    case True
    let ?j = "nx_index n m i"
    have iH: "i \<in> heads n" "loc n i = i" using True slot_cases(2) [OF D(4)] heads_addr(3) by blast+
    have H: "entry_of n m ?j \<in> heads n \<union> expns n k" "nx_index n m ?j \<noteq> 0 \<Longrightarrow> nx_index n m ?j \<in> expns n k"
      using del_args_head [OF A' _ _ refl] True by blast+
    have s: "nx_index n (mem t2) ?j = nx_index n m ?j" "entry_of n (mem t2) i = entry_of n m ?j"
      using True D(16) by (simp_all add: nx_index_def entry_of_def t2(4) rule_upd_other X field_simps)
    show ?thesis
      using index_head_cleanup_eq [OF t2(1,2) iH(1) _ _ H(2) s slot_addr(1) [OF H(1)]] True D(2,15) t2(3) iH(2) by simp
  next
    case False
    have s: "nx_index n (mem t2) i = nx_index n m i"
      using False D(14) by (auto simp: nx_index_def t2(4) rule_upd_other X field_simps)
    show ?thesis
      using index_cleanup_eq [OF t2(1) aa(2) t2(2) False s] D(2,15) t2(3) False by auto
  qed
  have "post_del_dma_cmd kk (loc n a) (n \<le> a) (pos_of (n \<le> a) (nx_rule n m a)) t =
    Some (0, t2\<lparr>index_expn_table_meta := meta_clean n i m meta, mem := index_clean n i m (mem t2)\<rparr>)"
    using kk f fp fi cs(1) dma rc last en
    by (cases "n \<le> i"; cases "nx_index n m i = 0")
      (simp_all add: post_del_dma_cmd_def kernel_works_def mm [symmetric] n [symmetric] loc_def [of n i]
        c_def [symmetric] t2_def [symmetric] Let_def nx_index_def [symmetric])
  also have "t2\<lparr>index_expn_table_meta := meta_clean n i m meta, mem := index_clean n i m (mem t2)\<rparr> =
      t\<lparr>index_expn_table_meta := meta_clean n i m meta, mem := del_mem n a i meta m\<rparr>"
    by (simp add: t2_def set_mem_def del_mem_def m1_def)
  finally show ?thesis by (simp add: mm)
qed

section \<open>What is read from the tables afterwards\<close>

lemma clean_rule_at:
  assumes A: "del_args n k m meta a i" and m1: "mem_ok n k m1"
  shows "rule_at n (rule_clean n a m m1) b =
    (if b = a \<and> (n \<le> a \<or> nx_rule n m a = 0) then zero_rule
     else if n \<le> a \<and> nx_rule n m a \<noteq> 0 \<and> b = nx_rule n m a
       then UpdateSwSpecParams (rule_at n m1 b) SW_PARAM_PREV_INDX (ucast (pv_rule n m a))
     else rule_at n m1 b)"
proof -
  note D = del_argsD [OF A]
  have X: "nx_rule n m a \<noteq> 0 \<Longrightarrow> addr n k (nx_rule n m a)" using expns_addr(1) [OF D(10)] by blast
  show ?thesis
    using m1 slot_addr(1) [OF D(3)] X by (auto simp: rule_clean_def Let_def rule_at_put [where k = k])
qed

lemma index_clean_rule_at:
  assumes A: "del_args n k m meta a i" and m1: "mem_ok n k m1"
  shows "rule_at n (index_clean n i m m1) b =
    (if \<not> n \<le> i \<and> nx_index n m i \<noteq> 0 \<and> b = entry_of n m (nx_index n m i)
     then UpdateSwSpecParams (rule_at n m1 b) SW_PARAM_INDX_TBL_ENTRY (ucast i) else rule_at n m1 b)"
  using m1 slot_addr(1) [OF del_args_head(1) [OF A _ _ refl]]
  by (auto simp: index_clean_def Let_def rule_at_put [where k = k])

lemma del_rule_reads:
  assumes A: "del_args n k m meta a i" and M: "M = del_mem n a i meta m"
  shows "nx_rule n M b = (if b = a \<and> (n \<le> a \<or> nx_rule n m a = 0) then 0
           else if n \<le> a \<and> b = pv_rule n m a then nx_rule n m a else nx_rule n m b)" (is ?nx)
    and "b \<noteq> a \<Longrightarrow> pv_rule n M b = (if n \<le> a \<and> nx_rule n m a \<noteq> 0 \<and> b = nx_rule n m a then pv_rule n m a
           else pv_rule n m b)"
    and "used_rule n M b \<longleftrightarrow> \<not> (b = a \<and> (n \<le> a \<or> nx_rule n m a = 0)) \<and> used_rule n m b"
    and "live n M b \<longleftrightarrow> b \<noteq> a \<and> live n m b"
    and "b \<noteq> a \<Longrightarrow> ix_of n M b = (if \<not> n \<le> i \<and> nx_index n m i \<noteq> 0 \<and> b = entry_of n m (nx_index n m i)
           then i else ix_of n m b)"
    and "b \<noteq> a \<Longrightarrow> client_of (rule_at n M b) = client_of (rule_at n m b)"
    and "mem_ok n k M"
proof -
  note D = del_argsD [OF A]
  let ?m1 = "index_upd n i meta m (rule_upd n a m m)"
  have ok: "mem_ok n k ?m1" "mem_ok n k (rule_clean n a m ?m1)" using D(1) by simp_all
  have e: "\<not> n \<le> i \<Longrightarrow> nx_index n m i \<noteq> 0 \<Longrightarrow> entry_of n m (nx_index n m i) \<noteq> a"
    by (rule del_args_head(2) [OF A _ _ refl])
  note at = index_clean_rule_at [OF A ok(2)] clean_rule_at [OF A ok(1)] upd_rule_at [OF A]
  have la: "rule_enabled (rule_at n m a)" "rule_protocol (rule_at n m a) \<noteq> 0xFF"
    using D(5) by (simp_all add: live_def)
  show ?nx
    using D(9,11,12) unfolding M del_mem_def nx_rule_def pv_rule_def at by (auto simp: field_simps)
  show "b \<noteq> a \<Longrightarrow> pv_rule n M b = (if n \<le> a \<and> nx_rule n m a \<noteq> 0 \<and> b = nx_rule n m a then pv_rule n m a
           else pv_rule n m b)"
    unfolding M del_mem_def pv_rule_def at by (simp add: field_simps)
  show "used_rule n M b \<longleftrightarrow> \<not> (b = a \<and> (n \<le> a \<or> nx_rule n m a = 0)) \<and> used_rule n m b"
    using la unfolding M del_mem_def used_rule_def at by (auto simp: field_simps)
  show "live n M b \<longleftrightarrow> b \<noteq> a \<and> live n m b"
    using e unfolding M del_mem_def live_def at by (auto simp: field_simps)
  show "b \<noteq> a \<Longrightarrow> ix_of n M b = (if \<not> n \<le> i \<and> nx_index n m i \<noteq> 0 \<and> b = entry_of n m (nx_index n m i)
           then i else ix_of n m b)"
    unfolding M del_mem_def ix_of_def at by (simp add: field_simps)
  show "b \<noteq> a \<Longrightarrow> client_of (rule_at n M b) = client_of (rule_at n m b)"
    unfolding M del_mem_def at by (simp add: field_simps)
  show "mem_ok n k M" using D(1) by (simp add: M del_mem_def)
qed

text \<open>The index entry that goes: the successor of a head that takes it over, else the entry itself.\<close>

definition gone_index :: "u16 \<Rightarrow> u16 \<Rightarrow> nat_mem \<Rightarrow> u16" where
  "gone_index n i m = (if \<not> n \<le> i \<and> nx_index n m i \<noteq> 0 then nx_index n m i else i)"

lemma del_index_reads:
  assumes A: "del_args n k m meta a i" and M: "M = del_mem n a i meta m" and r: "r = gone_index n i m"
  shows "nx_index n M x = (if x = r then 0 else if n \<le> i \<and> x = pv_index n meta i \<or> \<not> n \<le> i \<and> nx_index n m i \<noteq> 0 \<and> x = i
           then nx_index n m r else nx_index n m x)"
    and "entry_of n M x = (if x = r then 0 else if r \<noteq> i \<and> x = i then entry_of n m r else entry_of n m x)"
proof -
  note D = del_argsD [OF A]
  let ?m1 = "index_upd n i meta m (rule_upd n a m m)"
  have ok: "mem_ok n k (rule_clean n a m ?m1)" using D(1) by simp
  have at: "index_at n M x = (if x = r then 0 else index_at n ?m1 x)"
    using ok slot_addr(1) [OF D(4)] expns_addr(1) [OF D(15)]
    by (auto simp: M del_mem_def index_clean_def Let_def r gone_index_def index_at_put [where k = k] rule_upd_other)
  show "nx_index n M x = (if x = r then 0 else if n \<le> i \<and> x = pv_index n meta i \<or> \<not> n \<le> i \<and> nx_index n m i \<noteq> 0 \<and> x = i
           then nx_index n m r else nx_index n m x)"
    unfolding nx_index_def at upd_index_at [OF A]
    by (auto simp: field_simps r gone_index_def nx_index_def)
  show "entry_of n M x = (if x = r then 0 else if r \<noteq> i \<and> x = i then entry_of n m r else entry_of n m x)"
    unfolding entry_of_def at upd_index_at [OF A]
    by (auto simp: field_simps r gone_index_def entry_of_def nx_index_def)
qed

lemma meta_reads:
  assumes A: "del_args n k m meta a i" and s: "sizes_ok n k" and r: "r = gone_index n i m"
    and x: "x \<in> expns n k" "x \<noteq> r"
  shows "pv_index n (meta_clean n i m meta) x =
    (if nx_index n m r \<noteq> 0 \<and> x = nx_index n m r then if n \<le> i then pv_index n meta i else i else pv_index n meta x)"
proof -
  note D = del_argsD [OF A]
  have inj: "unat (loc n y) = unat (loc n x) \<longleftrightarrow> y = x" if "y \<in> expns n k" for y
    using loc_inj [of n y x] expns_addr(2) that x(1) by blast
  have b: "unat (loc n x) < length meta" using loc_expn [OF expns_addr(1,2) [OF x(1)]] D(2) by simp
  show ?thesis
  proof (cases "n \<le> i")
    case True
    then have ri: "r = i" by (simp add: r gone_index_def)
    have iE: "i \<in> expns n k" using True slot_cases(1) [OF D(4)] by simp
    show ?thesis using True ri x b inj [OF iE] inj [OF D(15)]
      by (auto simp: pv_index_def meta_clean_def Let_def nth_list_update)
  next
    case False
    note i = False
    show ?thesis
    proof (cases "nx_index n m i = 0")
      case True
      then show ?thesis using i by (auto simp: meta_clean_def Let_def r gone_index_def pv_index_def)
    next
      case False
      then have rj: "r = nx_index n m i" using i by (simp add: r gone_index_def)
      have jj: "nx_index n m r \<noteq> 0 \<Longrightarrow> nx_index n m r \<in> expns n k"
        using del_args_head(5) [OF A i False rj] by simp
      show ?thesis using i False rj b inj [OF jj]
        by (auto simp: pv_index_def meta_clean_def Let_def nth_list_update)
    qed
  qed
qed

end
