(* ===== verification/Nat_Del_Inv.thy ===== *)
theory Nat_Del_Inv
  imports Nat_Del
begin

text \<open>
  The invariant of the NAT tables after a rule has been deleted.
\<close>

text \<open>The lists after the deletion of \<open>x\<close>.\<close>

definition unlist :: "('a \<Rightarrow> 'a list) \<Rightarrow> 'a \<Rightarrow> 'a \<Rightarrow> 'a list" where
  "unlist C x = (\<lambda>h. remove1 x (C h))"

lemma unlist_eq:
  assumes C: "chains H E nx pv occ C" and h: "h \<in> H" and Ch: "C h = xs @ x # ys"
  shows "g \<in> H \<Longrightarrow> unlist C x g = (C(h := xs @ ys)) g"
proof -
  have x: "x \<in> set (C h)" using Ch by simp
  have "x \<notin> set xs" using chainsD(6) [OF C h] Ch by simp
  then have e: "remove1 x (C h) = xs @ ys" using Ch by (simp add: remove1_append)
  assume g: "g \<in> H"
  show "unlist C x g = (C(h := xs @ ys)) g"
  proof (cases "g = h")
    case True
    then show ?thesis using e by (simp add: unlist_def)
  next
    case False
    then have "x \<notin> set (C g)" using chainsD(10) [OF C g h _ x] by blast
    then show ?thesis using False by (simp add: unlist_def remove1_idem)
  qed
qed

lemma chains_cong_list:
  assumes C: "chains H E nx pv occ C" and eq: "\<And>h. h \<in> H \<Longrightarrow> C' h = C h"
  shows "chains H E nx pv occ C'"
  using C eq unfolding chains_def by (auto simp: Ball_def)

lemma chains_unlist:
  assumes C: "chains H E nx pv occ C" and h: "h \<in> H" and Ch: "C h = xs @ x # ys"
    and nx: "nx' (last (h # xs)) = nx x"
      "\<And>z. z \<in> H \<union> E \<Longrightarrow> z \<noteq> x \<Longrightarrow> z \<noteq> last (h # xs) \<Longrightarrow> nx' z = nx z"
    and pv: "ys \<noteq> [] \<Longrightarrow> pv' (nx x) = last (h # xs)"
      "\<And>z. z \<in> E \<Longrightarrow> z \<noteq> x \<Longrightarrow> z \<noteq> nx x \<Longrightarrow> pv' z = pv z"
    and occ: "\<not> occ' x" "\<And>z. z \<in> H \<union> E \<Longrightarrow> z \<noteq> x \<Longrightarrow> occ' z = occ z"
  shows "chains H E nx' pv' occ' (unlist C x)"
  by (rule chains_cong_list [OF chains_remove [OF C h Ch nx pv occ] unlist_eq [OF C h Ch]])

lemma unlist_head: "chains H E nx pv occ C \<Longrightarrow> a \<in> H \<Longrightarrow> g \<in> H \<Longrightarrow> unlist C a g = C g"
  using chains_head_notin [of H E nx pv occ C a g] by (simp add: unlist_def remove1_idem)

lemma del_rule_chains:
  assumes r: "rule_chains n k m C" and A: "del_args n k m meta a i" and M: "M = del_mem n a i meta m"
  shows "rule_chains n k M (unlist C a)"
proof -
  note r' = r [unfolded rule_chains_def]
  note D = del_argsD [OF A] and R = del_rule_reads [OF A M]
  have ua: "used_rule n m a" using D(5) by (simp add: live_def used_rule_def)
  show ?thesis
    unfolding rule_chains_def
  proof (cases "n \<le> a")
    case True
    then have aE: "a \<in> expns n k" using slot_cases(1) [OF D(3)] by simp
    obtain h xs ys where h: "h \<in> heads n" and Ch: "C h = xs @ a # ys" by (rule chain_split [OF r' aE ua])
    have pv: "pv_rule n m a = last (h # xs)" by (rule chains_prev [OF r' h Ch])
    have nz: "ys \<noteq> [] \<Longrightarrow> nx_rule n m a \<noteq> 0" using chains_next_zero [OF r' h Ch] by simp
    show "chains (heads n) (expns n k) (nx_rule n M) (pv_rule n M) (used_rule n M) (unlist C a)"
      by (rule chains_unlist [OF r' h Ch]) (use True D(9,11) pv nz in \<open>auto simp: R\<close>)
  next
    case False
    then have aH: "a \<in> heads n" using slot_cases(2) [OF D(3)] by simp
    have aE: "x \<in> expns n k \<Longrightarrow> x \<noteq> a" for x using False expns_addr(2) by blast
    have "chains (heads n) (expns n k) (nx_rule n M) (pv_rule n M) (used_rule n M) C"
    proof (cases "nx_rule n m a = 0")
      case True
      then have "C a = []" using chains_head_zero [OF r' aH] by simp
      then show ?thesis
        by (rule chains_del_head [OF r' aH]) (use True False aE in \<open>auto simp: R\<close>)
    next
      case nz: False
      show ?thesis by (rule chains_cong [OF r']) (use nz False aE in \<open>auto simp: R\<close>)
    qed
    then show "chains (heads n) (expns n k) (nx_rule n M) (pv_rule n M) (used_rule n M) (unlist C a)"
      by (rule chains_cong_list) (rule unlist_head [OF r' aH])
  qed
qed

lemma del_index_chains:
  assumes x: "index_chains n k m meta IC" and A: "del_args n k m meta a i" and s: "sizes_ok n k"
    and M: "M = del_mem n a i meta m" and r: "r = gone_index n i m"
  shows "index_chains n k M (meta_clean n i m meta) (unlist IC r)"
proof -
  note x' = x [unfolded index_chains_def]
  note D = del_argsD [OF A] and R = del_index_reads [OF A M r] and P = meta_reads [OF A s r]
  have oi: "entry_of n m i \<noteq> 0" using D(7) slot_addr(2) [OF D(3)] by simp
  show ?thesis
    unfolding index_chains_def
  proof (cases "n \<le> i")
    case True
    then have ri: "r = i" and iE: "i \<in> expns n k" using slot_cases(1) [OF D(4)] by (simp_all add: r gone_index_def)
    obtain h xs ys where h: "h \<in> heads n" and Ch: "IC h = xs @ i # ys" by (rule chain_split [OF x' iE oi])
    have pv: "pv_index n meta i = last (h # xs)" by (rule chains_prev [OF x' h Ch])
    have nz: "ys \<noteq> [] \<Longrightarrow> nx_index n m i \<noteq> 0" using chains_next_zero [OF x' h Ch] by simp
    have P1: "nx_index n m i \<noteq> 0 \<Longrightarrow> pv_index n (meta_clean n i m meta) (nx_index n m i) = pv_index n meta i"
      using P [of "nx_index n m i"] D(15,16) True ri by auto
    show "chains (heads n) (expns n k) (nx_index n M) (pv_index n (meta_clean n i m meta))
        (\<lambda>i. entry_of n M i \<noteq> 0) (unlist IC r)"
      unfolding ri
      by (rule chains_unlist [OF x' h Ch]) (use True D(14) pv nz ri P1 P in \<open>auto simp: R\<close>)
  next
    case False
    then have iH: "i \<in> heads n" using slot_cases(2) [OF D(4)] by simp
    have iE: "x \<in> expns n k \<Longrightarrow> x \<noteq> i" for x using False expns_addr(2) by blast
    show "chains (heads n) (expns n k) (nx_index n M) (pv_index n (meta_clean n i m meta))
        (\<lambda>i. entry_of n M i \<noteq> 0) (unlist IC r)"
    proof (cases "nx_index n m i = 0")
      case True
      then have e: "IC i = []" using chains_head_zero [OF x' iH] by simp
      have ri: "r = i" using True by (simp add: r gone_index_def)
      have nn: "nx_index n m r = 0" using True ri by simp
      have "chains (heads n) (expns n k) (nx_index n M) (pv_index n (meta_clean n i m meta))
        (\<lambda>i. entry_of n M i \<noteq> 0) IC"
        by (rule chains_del_head [OF x' iH e]) (use True False iE ri nn P in \<open>auto simp: R\<close>)
      then show ?thesis unfolding ri by (rule chains_cong_list) (rule unlist_head [OF x' iH])
    next
      case nz: False
      then have rj: "r = nx_index n m i" and ri: "r \<noteq> i" using False D(16) by (simp_all add: r gone_index_def)
      obtain ys where ys: "IC i = nx_index n m i # ys" and rE: "nx_index n m i \<in> expns n k"
        by (rule head_next [OF x' iH nz])
      have Ci: "IC i = [] @ r # ys" using ys rj by simp
      have n0: "ys \<noteq> [] \<Longrightarrow> nx_index n m r \<noteq> 0" using chains_next_zero [OF x' iH Ci] by simp
      have rr: "nx_index n m r \<noteq> 0 \<Longrightarrow> nx_index n m r \<in> expns n k \<and> nx_index n m r \<noteq> r"
        using del_args_head(5,6) [OF A False nz rj] by simp
      have P1: "nx_index n m r \<noteq> 0 \<Longrightarrow> pv_index n (meta_clean n i m meta) (nx_index n m r) = i"
        using P [of "nx_index n m r"] rr False by auto
      have ei: "entry_of n m r \<noteq> 0"
        using del_args_head(1) [OF A False nz rj] slot_addr(2) by blast
      show ?thesis
        by (rule chains_unlist [OF x' iH Ci]) (use False nz ri n0 P1 P ei oi in \<open>auto simp: R\<close>)
    qed
  qed
qed

lemma del_cross_ok:
  assumes c: "cross_ok n k m" and A: "del_args n k m meta a i" and M: "M = del_mem n a i meta m"
  shows "cross_ok n k M"
proof -
  define r where "r = gone_index n i m"
  note D = del_argsD [OF A] and R = del_rule_reads [OF A M] and X = del_index_reads [OF A M r_def]
  have hd: "entry_of n m r \<in> heads n \<union> expns n k" "entry_of n m r \<noteq> a" "live n m (entry_of n m r)"
    "ix_of n m (entry_of n m r) = r" "\<not> n \<le> i" "nx_index n m i \<noteq> 0" "nx_index n m i = r" if "r \<noteq> i"
  proof -
    show h: "\<not> n \<le> i" "nx_index n m i \<noteq> 0" "nx_index n m i = r"
      using that by (auto simp: r_def gone_index_def split: if_splits)
    show "entry_of n m r \<in> heads n \<union> expns n k" "entry_of n m r \<noteq> a" "live n m (entry_of n m r)"
      "ix_of n m (entry_of n m r) = r"
      by (rule del_args_head [OF A h(1,2) h(3) [symmetric]])+
  qed
  have live: "ix_of n m b \<in> heads n \<union> expns n k" "entry_of n m (ix_of n m b) = b"
    if "b \<in> heads n \<union> expns n k" "live n m b" for b
    using c that unfolding cross_ok_def by simp_all
  have entry: "entry_of n m x \<in> heads n \<union> expns n k" "live n m (entry_of n m x)" "ix_of n m (entry_of n m x) = x"
    if "x \<in> heads n \<union> expns n k" "entry_of n m x \<noteq> 0" for x
    using c that unfolding cross_ok_def by simp_all
  have ixM: "ix_of n M b = (if r \<noteq> i \<and> b = entry_of n m r then i else ix_of n m b)" if "b \<noteq> a" for b
  proof (cases "r = i")
    case True
    then have "\<not> (\<not> n \<le> i \<and> nx_index n m i \<noteq> 0)" using D(16) by (auto simp: r_def gone_index_def split: if_splits)
    then show ?thesis using R(5) [OF that] True by auto
  next
    case False
    then show ?thesis using R(5) [OF that] hd(5-7) [OF False] by simp
  qed
  show ?thesis
    unfolding cross_ok_def
  proof (intro conjI ballI impI)
    fix b assume b: "b \<in> heads n \<union> expns n k" "live n M b"
    then have lb: "b \<noteq> a" "live n m b" using R(4) by simp_all
    note L = live [OF b(1) lb(2)]
    show "ix_of n M b \<in> heads n \<union> expns n k" using L(1) D(4) by (simp add: ixM [OF lb(1)])
    show "entry_of n M (ix_of n M b) = b"
    proof (cases "r \<noteq> i \<and> b = entry_of n m r")
      case True
      then have ib: "ix_of n M b = i" using ixM [OF lb(1)] by simp
      show ?thesis unfolding ib using True by (auto simp: X)
    next
      case False
      have "ix_of n m b \<noteq> i" using L(2) D(7) lb(1) by metis
      moreover have "ix_of n m b \<noteq> r" using L(2) False calculation by metis
      ultimately show ?thesis using False L(2) by (auto simp: ixM [OF lb(1)] X)
    qed
  next
    fix x assume x: "x \<in> heads n \<union> expns n k" "entry_of n M x \<noteq> 0"
    then have xr: "x \<noteq> r" by (auto simp: X split: if_splits)
    have "entry_of n M x \<in> heads n \<union> expns n k \<and> live n M (entry_of n M x) \<and> ix_of n M (entry_of n M x) = x"
    proof (cases "r \<noteq> i \<and> x = i")
      case True
      then show ?thesis using hd ixM [OF hd(2)] by (auto simp: X R(4))
    next
      case False
      then have xi: "x \<noteq> i" using xr by auto
      have ex: "entry_of n M x = entry_of n m x" using xr False by (auto simp: X)
      note E = entry [OF x(1)] x(2)
      have ea: "entry_of n m x \<noteq> a" using E(3) ex x(2) D(6) xi by metis
      have er: "r \<noteq> i \<Longrightarrow> entry_of n m x \<noteq> entry_of n m r" using E(3) ex x(2) hd(4) xr by metis
      show ?thesis using E ex ea er by (auto simp: ixM [OF ea] R(4))
    qed
    then show "entry_of n M x \<in> heads n \<union> expns n k" "live n M (entry_of n M x)" "ix_of n M (entry_of n M x) = x"
      by simp_all
  qed
qed

section \<open>Dead heads\<close>

definition bury :: "u8 \<Rightarrow> nat_mem \<Rightarrow> nat_mem" where
  "bury invalid m = m\<lparr>base_tbl := map (\<lambda>r. if is_dead_head invalid r then zero_rule else r) (base_tbl m)\<rparr>"

lemma del_dead_eq:
  "mem_ok n k (mem t) \<Longrightarrow> n = table_entries t \<Longrightarrow>
   del_dead_ipv4_head_nodes kk t = Some (set_mem t (bury (invalid_protocol kk) (mem t)))"
  by (simp add: del_dead_ipv4_head_nodes_def bury_def mem_ok_def Let_def)

lemma is_dead_head_iff: "is_dead_head v r \<longleftrightarrow> rule_protocol r = v \<and> rule_next r = 0"
  by (simp add: is_dead_head_def rule_protocol_def)

lemma bury_reads:
  assumes m: "mem_ok n k m" and M: "M = bury 0xFF m"
  shows "mem_ok n k M" and "nx_rule n M b = nx_rule n m b \<or> \<not> n \<le> b \<and> nx_rule n m b = 0 \<and> nx_rule n M b = 0"
    and "n \<le> b \<Longrightarrow> rule_at n M b = rule_at n m b"
    and "used_rule n M b \<longleftrightarrow> used_rule n m b \<and> (n \<le> b \<or> live n m b \<or> nx_rule n m b \<noteq> 0)"
    and "live n M b = live n m b" and "live n m b \<Longrightarrow> rule_at n M b = rule_at n m b"
    and "index_at n M b = index_at n m b"
proof -
  have at: "rule_at n M b = (if \<not> n \<le> b \<and> is_dead_head 0xFF (rule_at n m b) then zero_rule else rule_at n m b)"
    using m loc_base [of n b] by (auto simp: M bury_def rule_at_def access_defs mem_ok_def)
  show "mem_ok n k M" using m by (simp add: M bury_def mem_ok_def)
  show "nx_rule n M b = nx_rule n m b \<or> \<not> n \<le> b \<and> nx_rule n m b = 0 \<and> nx_rule n M b = 0"
    by (simp add: nx_rule_def at is_dead_head_iff field_simps)
  show "n \<le> b \<Longrightarrow> rule_at n M b = rule_at n m b" by (simp add: at)
  show "used_rule n M b \<longleftrightarrow> used_rule n m b \<and> (n \<le> b \<or> live n m b \<or> nx_rule n m b \<noteq> 0)"
    by (auto simp: used_rule_def at is_dead_head_iff field_simps live_def nx_rule_def)
  show "live n M b = live n m b"
    by (auto simp: live_def at is_dead_head_iff field_simps)
  show "live n m b \<Longrightarrow> rule_at n M b = rule_at n m b" by (simp add: at is_dead_head_iff live_def)
  show "index_at n M b = index_at n m b" by (simp add: M bury_def index_at_def access_defs)
qed

text \<open>Heads without a list may be cleared.\<close>

lemma chains_clear:
  assumes C: "chains H E nx pv occ C"
    and occ: "\<And>x. x \<in> E \<Longrightarrow> occ' x = occ x" "\<And>h. h \<in> H \<Longrightarrow> occ' h \<noteq> occ h \<Longrightarrow> C h = []"
  shows "chains H E nx pv occ' C"
proof (rule chainsI)
  show "0 \<notin> H" "0 \<notin> E" "H \<inter> E = {}" by (rule chainsD [OF C])+
next
  fix g assume g: "g \<in> H"
  show "path nx g (C g)" "backs pv g (C g)" "distinct (C g)" by (rule chainsD(4-6) [OF C g])+
  show "\<not> occ' g \<Longrightarrow> C g = []" using occ(2) [OF g] chainsD(9) [OF C g] by auto
  fix x assume x: "x \<in> set (C g)"
  show "x \<in> E \<and> occ' x" using chainsD(7,8) [OF C g x] occ(1) [of x] by simp
next
  fix g h x assume "g \<in> H" "h \<in> H" "x \<in> set (C g)" "x \<in> set (C h)"
  then show "g = h" by (rule chainsD(10) [OF C])
next
  fix x assume "x \<in> E" "occ' x"
  then show "\<exists>h \<in> H. x \<in> set (C h)" using chainsD(11) [OF C] occ(1) by simp
qed

lemma bury_inv:
  assumes m: "mem_ok n k m" and M: "M = bury 0xFF m" and r: "rule_chains n k m C" and x: "index_chains n k m meta IC"
    and d: "\<forall>a \<in> expns n k. used_rule n m a \<longrightarrow> live n m a" and c: "cross_ok n k m"
  shows "rule_chains n k M C" and "index_chains n k M meta IC" and "dead_ok n k M" and "cross_ok n k M"
proof -
  note R = bury_reads [OF m M]
  note r' = r [unfolded rule_chains_def]
  have nx: "nx_rule n M b = nx_rule n m b" for b using R(2) [of b] by metis
  have ix: "nx_index n M b = nx_index n m b" "entry_of n M b = entry_of n m b" for b
    by (simp_all add: nx_index_def entry_of_def R(7))
  have E: "a \<in> expns n k \<Longrightarrow> rule_at n M a = rule_at n m a" for a using R(3) expns_addr(2) by blast
  have "chains (heads n) (expns n k) (nx_rule n M) (pv_rule n M) (used_rule n m) C"
    by (rule chains_cong [OF r']) (simp_all add: nx E pv_rule_def)
  then show "rule_chains n k M C"
    unfolding rule_chains_def
  proof (rule chains_clear)
    show "a \<in> expns n k \<Longrightarrow> used_rule n M a = used_rule n m a" for a by (simp add: used_rule_def E)
    fix h assume h: "h \<in> heads n" "used_rule n M h \<noteq> used_rule n m h"
    then have "nx_rule n m h = 0" using R(4) [of h] by auto
    then show "C h = []" using chains_head_zero [OF r' h(1)] by simp
  qed
  show "index_chains n k M meta IC"
    unfolding index_chains_def
    by (rule chains_cong [OF x [unfolded index_chains_def]]) (simp_all add: ix)
  show "dead_ok n k M"
    unfolding dead_ok_def
  proof (intro conjI ballI impI)
    fix h assume h: "h \<in> heads n" "used_rule n M h \<and> \<not> live n M h"
    then show "nx_rule n M h \<noteq> 0" using R(4) [of h] R(5) [of h] heads_addr(2) [OF h(1)] nx by auto
  next
    fix a assume a: "a \<in> expns n k" "used_rule n M a"
    then show "live n M a" using d R(4,5) by blast
  qed
  have ixm: "live n m b \<Longrightarrow> ix_of n M b = ix_of n m b" for b by (simp add: ix_of_def R(6))
  show "cross_ok n k M" using c unfolding cross_ok_def by (simp add: R(5) ix ixm)
qed

section \<open>Handles\<close>

lemma del_ids_ok:
  assumes ids: "ids_ok n k m ids" and s: "sizes_ok n k" and a: "a \<in> heads n \<union> expns n k"
    and j: "j < length ids" "ids ! j = encode n a"
    and live: "\<And>b. live n M b \<longleftrightarrow> b \<noteq> a \<and> live n m b"
  shows "ids_ok n k M (ids[j := 0])"
proof -
  note I = ids_okD [OF ids]
  have a0: "encode n a \<noteq> 0" by (rule encode_nonzero [OF s a])
  show ?thesis
    unfolding ids_ok_def length_list_update
  proof (intro conjI allI impI ballI)
    show "length ids = unat n + unat k" by (rule I(1))
  next
    fix x assume x: "x < length ids" "ids[j := 0] ! x \<noteq> 0"
    then have xj: "x \<noteq> j" "ids ! x \<noteq> 0" by (cases "x = j"; simp)+
    show "Suc x < length ids" by (rule I(2) [OF x(1) xj(2)])
    obtain b where b: "b \<in> heads n \<union> expns n k" "live n m b" "ids ! x = encode n b"
      using I(3) [OF x(1) xj(2)] by (elim bexE conjE)
    have "b \<noteq> a" using I(4) [OF x(1) j(1)] b(3) j(2) a0 xj(1) by metis
    then show "\<exists>b \<in> heads n \<union> expns n k. live n M b \<and> ids[j := 0] ! x = encode n b"
      using b xj(1) live by (intro bexI [of _ b]) auto
  next
    fix x y assume xy: "x < length ids" "y < length ids" "ids[j := 0] ! x = ids[j := 0] ! y \<and> ids[j := 0] ! y \<noteq> 0"
    then have "x \<noteq> j" "y \<noteq> j" by (cases "x = j"; cases "y = j"; simp)+
    then show "x = y" using xy I(4) [OF xy(1,2)] by simp
  next
    fix b assume b: "b \<in> heads n \<union> expns n k" "live n M b"
    then have b': "b \<noteq> a" "live n m b" using live by simp_all
    obtain x where x: "x < length ids" "ids ! x = encode n b"
      using I(5) [OF b(1) b'(2)] by (auto simp: in_set_conv_nth)
    have "x \<noteq> j" using x(2) j(2) encode_inj [OF s slot_addr(1) [OF b(1)] slot_addr(1) [OF a]] b'(1) by metis
    then have "ids[j := 0] ! x = encode n b" using x(2) by simp
    then show "encode n b \<in> set (ids[j := 0])" using x(1) by (metis length_list_update nth_mem)
  qed
qed

section \<open>The whole operation\<close>

text \<open>\<open>deleted t C IC a j t'\<close>: the rule \<open>a\<close> with the handle \<open>j + 1\<close> is gone.\<close>

definition deleted :: "ip4_tbl \<Rightarrow> (u16 \<Rightarrow> u16 list) \<Rightarrow> (u16 \<Rightarrow> u16 list) \<Rightarrow> u16 \<Rightarrow> nat \<Rightarrow> ip4_tbl \<Rightarrow> bool" where
  "deleted t C IC a j t' \<longleftrightarrow>
     (let n = table_entries t; k = expn_table_entries t; m = mem t; meta = index_expn_table_meta t; i = ix_of n m a in
      a \<in> heads n \<union> expns n k \<and> live n m a \<and> j < length (rule_id_array t) \<and> rule_id_array t ! j = encode n a \<and>
      del_args n k m meta a i \<and> table_entries t' = n \<and> expn_table_entries t' = k \<and>
      mem t' = bury 0xFF (del_mem n a i meta m) \<and> rule_id_array t' = (rule_id_array t)[j := 0] \<and>
      tbl_inv t' (unlist C a) (unlist IC (gone_index n i m)))"

lemma parse_handle:
  assumes ids: "ids_ok n k m (rule_id_array t)" and s: "sizes_ok n k"
    and n: "n = table_entries t" "k = expn_table_entries t"
    and j: "j < length (rule_id_array t)" "rule_id_array t ! j = encode n a" and a: "a \<in> heads n \<union> expns n k"
  shows "parse_rule_hdl t (of_nat (Suc j)) = Some (n \<le> a, loc n a)"
proof -
  have tot: "entry_total t = length (rule_id_array t)" using ids_okD(1) [OF ids] n by (simp add: entry_total_def)
  have sj: "Suc j < length (rule_id_array t)"
    using ids_okD(2) [OF ids j(1)] j(2) encode_nonzero [OF s a] by simp
  have "Suc j < 65536" using sj ids_okD(1) [OF ids] s by (simp add: sizes_ok_def)
  then have u: "unat (of_nat (Suc j) :: u16) = Suc j"
    by (simp add: unsigned_of_nat take_bit_nat_eq_self del: of_nat_Suc)
  then have h0: "(of_nat (Suc j) :: u16) \<noteq> 0" by (metis nat.distinct(1) unat_0)
  have f: "fetch (rule_id_array t) (unat (of_nat (Suc j) :: u16) - 1) = Some (encode n a)"
    using u j by (simp add: fetch_def)
  have p: "encode n a AND 1 \<noteq> 0 \<longleftrightarrow> n \<le> a" "drop_bit 1 (encode n a) = loc n a"
    by (rule encode_parts [OF addr_loc_less [OF s slot_addr(1) [OF a]]])+
  show ?thesis
    unfolding parse_rule_hdl_def tot f using u sj h0 by (simp add: p p(2) [unfolded One_nat_def] del: of_nat_Suc)
qed

lemma u32_handle:
  assumes "Suc j < 65536"
  shows "(ucast (of_nat (Suc j) :: u32) :: u16) = of_nat (Suc j)" "unat ((of_nat (Suc j) :: u32) - 1) = j"
proof -
  show "(ucast (of_nat (Suc j) :: u32) :: u16) = of_nat (Suc j)"
    using assms by (intro word_unat_eq_iff [THEN iffD2])
      (simp add: unsigned_ucast_eq unsigned_of_nat take_bit_nat_eq_self del: of_nat_Suc)
  have "(of_nat (Suc j) :: u32) - 1 = of_nat j" by simp
  then show "unat ((of_nat (Suc j) :: u32) - 1) = j"
    using assms by (simp add: unsigned_of_nat take_bit_nat_eq_self)
qed

text \<open>
  The operation up to its last assignment, which writes the slot of the whole handle \<open>h\<close>, while
  the rule was found by its low half.
\<close>

text \<open>
  The part of \<open>nati_del_ipv4_rule\<close> before it clears the array of handles: the handle is looked up, the
  rule taken off its lists and dead heads are cleared.
\<close>

definition deletes_from_tables :: "nat_kernel \<Rightarrow> u16 \<Rightarrow> ip4_tbl \<Rightarrow> ip4_tbl \<Rightarrow> bool" where
  "deletes_from_tables kk hdl t t2 \<longleftrightarrow> (\<exists>expn e pos t1. parse_rule_hdl t hdl = Some (expn, e) \<and> e \<noteq> 0 \<and>
     find_rule_pos expn e t = Some pos \<and> post_del_dma_cmd kk e expn pos t = Some (0, t1) \<and> del_dead_ipv4_head_nodes kk t1 = Some t2)"

lemma del_rule_steps:
  assumes inv: "tbl_inv t C IC" and g: "ip4_tbls g = [t]" and kk: "kernel_works kk"
    and j: "j < length (rule_id_array t)" "rule_id_array t ! j \<noteq> 0"
  shows "\<exists>a t2. (\<forall>h. (ucast h :: u16) = of_nat (Suc j) \<longrightarrow> nati_del_ipv4_rule kk 1 h g =
             Option.bind (store_at (rule_id_array t) (unat (h - 1)) 0)
               (\<lambda>ids. Some (0, g\<lparr>ip4_tbls := [t2\<lparr>rule_id_array := ids\<rparr>]\<rparr>))) \<and>
           deletes_from_tables kk (of_nat (Suc j)) t t2 \<and> rule_id_array t2 = rule_id_array t \<and>
           deleted t C IC a j (t2\<lparr>rule_id_array := (rule_id_array t)[j := 0]\<rparr>)"
proof -
  define n k m meta where nkm: "n = table_entries t" "k = expn_table_entries t" "m = mem t"
    "meta = index_expn_table_meta t"
  note D = tbl_invD [OF inv nkm(1,2), folded nkm(3,4)]
  obtain a where a: "a \<in> heads n \<union> expns n k" "live n m a" "rule_id_array t ! j = encode n a"
    using ids_okD(3) [OF D(11) j] by (elim bexE conjE)
  let ?i = "ix_of n m a"
  have A: "del_args n k m meta a ?i" by (rule del_argsI [OF D(7,8,5,6,10) a(1,2)])
  have aa: "addr n k a" by (rule slot_addr(1) [OF a(1)])
  note parse = parse_handle [OF D(11,4) nkm(1,2) j(1) a(3) a(1)]
  define M where "M = del_mem n a ?i meta m"
  have okM: "mem_ok n k M" by (rule del_rule_reads(7) [OF A M_def])
  have liveM: "live n M b \<longleftrightarrow> b \<noteq> a \<and> live n m b" for b by (rule del_rule_reads(4) [OF A M_def])
  have usedM: "\<forall>b \<in> expns n k. used_rule n M b \<longrightarrow> live n M b"
  proof (intro ballI impI)
    fix b assume b: "b \<in> expns n k" "used_rule n M b"
    then have "used_rule n m b" "b \<noteq> a"
      using del_rule_reads(3) [OF A M_def, of b] expns_addr(2) [OF b(1)] by auto
    then show "live n M b" using D(9) b(1) by (simp add: dead_ok_def liveM)
  qed
  define t1 where "t1 = t\<lparr>index_expn_table_meta := meta_clean n ?i m meta, mem := M\<rparr>"
  define t2 where "t2 = set_mem t1 (bury 0xFF M)"
  have pd: "post_del_dma_cmd kk (loc n a) (n \<le> a) (pos_of (n \<le> a) (nx_rule n m a)) t = Some (0, t1)"
    using post_del_eq [of n k t a ?i kk] A kk nkm D(3) by (simp add: t1_def M_def)
  have fp: "find_rule_pos (n \<le> a) (loc n a) t = Some (pos_of (n \<le> a) (nx_rule n m a))"
    using find_rule_pos_eq [of n k t a] D(5) aa by (simp add: nkm)
  have dd: "del_dead_ipv4_head_nodes kk t1 = Some t2"
    using del_dead_eq [of n k t1 kk] okM kk by (simp add: t1_def t2_def nkm(1) kernel_works_def)
  have ids2: "rule_id_array t2 = rule_id_array t" by (simp add: t2_def t1_def set_mem_def)
  have ft: "fetch [t] 0 = Some t" by (simp add: fetch_def)
  have "nati_del_ipv4_rule kk 1 h g = Option.bind (store_at (rule_id_array t) (unat (h - 1)) 0)
      (\<lambda>ids. Some (0, g\<lparr>ip4_tbls := [t2\<lparr>rule_id_array := ids\<rparr>]\<rparr>))"
    if h: "(ucast h :: u16) = of_nat (Suc j)" for h
    using kk parse slot_loc [OF a(1)] D(1) fp pd dd
    by (simp add: nati_del_ipv4_rule_def g ft h kernel_works_def ids2 set_tbl_def del: of_nat_Suc)
  moreover have "tbl_inv (t2\<lparr>rule_id_array := (rule_id_array t)[j := 0]\<rparr>) (unlist C a) (unlist IC (gone_index n ?i m))"
  proof -
    note B = bury_inv [OF okM refl del_rule_chains [OF D(7) A M_def] del_index_chains [OF D(8) A D(4) M_def refl]
        usedM del_cross_ok [OF D(10) A M_def]]
    have I: "ids_ok n k (bury 0xFF M) ((rule_id_array t)[j := 0])"
      by (rule del_ids_ok [OF D(11,4) a(1) j(1) a(3)]) (simp add: bury_reads(5) [OF okM refl] liveM)
    show ?thesis
      using D(1-6) B I bury_reads(1) [OF okM refl]
      by (simp add: tbl_inv_def t2_def t1_def set_mem_def nkm(1,2) [symmetric])
  qed
  then have "deleted t C IC a j (t2\<lparr>rule_id_array := (rule_id_array t)[j := 0]\<rparr>)"
    using a j(1) A by (simp add: deleted_def Let_def nkm [symmetric] t2_def t1_def set_mem_def M_def)
  moreover have "deletes_from_tables kk (of_nat (Suc j)) t t2"
    using parse slot_loc [OF a(1)] fp pd dd by (auto simp: deletes_from_tables_def simp del: of_nat_Suc)
  ultimately show ?thesis using ids2 by blast
qed

lemma del_rule_result:
  assumes inv: "tbl_inv t C IC" and g: "ip4_tbls g = [t]" and kk: "kernel_works kk"
    and j: "j < length (rule_id_array t)" "rule_id_array t ! j \<noteq> 0"
  shows "\<exists>a t'. nati_del_ipv4_rule kk 1 (of_nat (Suc j)) g = Some (0, g\<lparr>ip4_tbls := [t']\<rparr>) \<and> deleted t C IC a j t'"
proof -
  note D = tbl_invD [OF inv refl refl]
  have "Suc j < 65536" using ids_okD(2) [OF D(11) j] ids_okD(1) [OF D(11)] D(4) by (simp add: sizes_ok_def)
  note h = u32_handle [OF this]
  from del_rule_steps [OF assms] obtain a t2 where
    s: "\<And>h. (ucast h :: u16) = of_nat (Suc j) \<Longrightarrow> nati_del_ipv4_rule kk 1 h g =
             Option.bind (store_at (rule_id_array t) (unat (h - 1)) 0)
               (\<lambda>ids. Some (0, g\<lparr>ip4_tbls := [t2\<lparr>rule_id_array := ids\<rparr>]\<rparr>))"
    and d: "deleted t C IC a j (t2\<lparr>rule_id_array := (rule_id_array t)[j := 0]\<rparr>)" by blast
  have "nati_del_ipv4_rule kk 1 (of_nat (Suc j)) g =
      Some (0, g\<lparr>ip4_tbls := [t2\<lparr>rule_id_array := (rule_id_array t)[j := 0]\<rparr>]\<rparr>)"
    using s [OF h(1)] h(2) j(1) by (simp add: store_at_def del: of_nat_Suc)
  then show ?thesis using d by blast
qed

text \<open>A handle that is not given to a rule is rejected.\<close>

lemma del_unknown:
  assumes inv: "tbl_inv t C IC" and g: "ip4_tbls g = [t]"
    and h: "0 < unat h" "unat h < 65536" "\<And>j. unat h = Suc j \<Longrightarrow> j < length (rule_id_array t) \<Longrightarrow> rule_id_array t ! j = 0"
  shows "nati_del_ipv4_rule kk 1 h g = Some (- EINVAL, g)"
proof -
  note D = tbl_invD [OF inv refl refl]
  have tot: "entry_total t = length (rule_id_array t)" using ids_okD(1) [OF D(11)] by (simp add: entry_total_def)
  have u: "unat (ucast h :: u16) = unat h" using h(2) by (simp add: unsigned_ucast_eq take_bit_nat_eq_self)
  have h0: "(ucast h :: u16) \<noteq> 0" using u h(1) by (metis less_irrefl unat_0)
  have "parse_rule_hdl t (ucast h) = Some (False, 0)"
  proof (cases "entry_total t \<le> unat h")
    case True
    then show ?thesis using u by (simp add: parse_rule_hdl_def)
  next
    case False
    then have "unat h - 1 < length (rule_id_array t)" "rule_id_array t ! (unat h - 1) = 0"
      using tot h(1) h(3) [of "unat h - 1"] by simp_all
    then show ?thesis using False u h0 by (simp add: parse_rule_hdl_def fetch_def)
  qed
  then show ?thesis by (simp add: nati_del_ipv4_rule_def g fetch_def [of "[t]"])
qed

end
