(* ===== verification/Nat_Spec.thy ===== *)
theory Nat_Spec
  imports Nat_Del_Inv
begin

text \<open>
  The abstract specification of the NAT driver: a map from handles to the client's rules, and
  for every hash value the list of rules the hardware finds, by destination and by source.
  The operations of \<open>Nat_Driver\<close> refine adding to and removing from these.
\<close>

record nat_abs =
  rules_by_handle :: "nat \<Rightarrow> client_rule option"
  by_dst :: "u16 \<Rightarrow> client_rule list"
  by_src :: "u16 \<Rightarrow> client_rule list"

text \<open>The rules on the lists, by address; \<open>walk\<close> follows the links of the tables.\<close>

definition dst_list :: "u16 \<Rightarrow> u16 \<Rightarrow> nat_mem \<Rightarrow> u16 \<Rightarrow> u16 list" where
  "dst_list n k m h =
     (if 0 < h \<and> h < n \<and> used_rule n m h then filter (live n m) (h # walk (unat k) (nx_rule n m) h) else [])"

definition src_list :: "u16 \<Rightarrow> u16 \<Rightarrow> nat_mem \<Rightarrow> u16 \<Rightarrow> u16 list" where
  "src_list n k m h =
     (if 0 < h \<and> h < n \<and> entry_of n m h \<noteq> 0
      then map (entry_of n m) (h # walk (unat k) (nx_index n m) h) else [])"

definition rule_of_id :: "nat_mem \<Rightarrow> u16 \<Rightarrow> client_rule" where
  "rule_of_id m e = client_of (rules_of (e AND 1 \<noteq> 0) m ! unat (drop_bit 1 e))"

definition abs_tbl :: "ip4_tbl \<Rightarrow> nat_abs" where
  "abs_tbl t =
     (let n = table_entries t; k = expn_table_entries t; m = mem t in
      \<lparr>rules_by_handle = (\<lambda>h. if 0 < h \<and> h \<le> length (rule_id_array t) \<and> rule_id_array t ! (h - 1) \<noteq> 0
                              then Some (rule_of_id m (rule_id_array t ! (h - 1))) else None),
       by_dst = (\<lambda>h. map (\<lambda>a. client_of (rule_at n m a)) (dst_list n k m h)),
       by_src = (\<lambda>h. map (\<lambda>a. client_of (rule_at n m a)) (src_list n k m h))\<rparr>)"

text \<open>
  \<open>spec_add d s c h A A'\<close>: the rule gets the handle \<open>h\<close> and goes to the end of the list of its
  destination hash \<open>d\<close> and of its source hash \<open>s\<close>.
\<close>

definition spec_add :: "u16 \<Rightarrow> u16 \<Rightarrow> client_rule \<Rightarrow> nat \<Rightarrow> nat_abs \<Rightarrow> nat_abs \<Rightarrow> bool" where
  "spec_add d s c h A A' \<longleftrightarrow>
     0 < h \<and> rules_by_handle A h = None \<and> rules_by_handle A' = (rules_by_handle A)(h \<mapsto> c) \<and>
     by_dst A' = (by_dst A)(d := by_dst A d @ [c]) \<and> by_src A' = (by_src A)(s := by_src A s @ [c])"

text \<open>The rule of the handle \<open>h\<close> leaves one list of each kind; the order of the others stays.\<close>

definition spec_del :: "nat \<Rightarrow> nat_abs \<Rightarrow> nat_abs \<Rightarrow> bool" where
  "spec_del h A A' \<longleftrightarrow>
     (\<exists>c d s xs ys us vs. rules_by_handle A h = Some c \<and> rules_by_handle A' = (rules_by_handle A)(h := None) \<and>
        by_dst A d = xs @ c # ys \<and> by_dst A' = (by_dst A)(d := xs @ ys) \<and>
        by_src A s = us @ c # vs \<and> by_src A' = (by_src A)(s := us @ vs))"

section \<open>The lists of the tables\<close>

lemma heads_iff: "h \<in> heads n \<longleftrightarrow> 0 < h \<and> h < n"
  by (auto simp: heads_def word_less_nat_alt)

lemma chain_length:
  assumes "chains (heads n) (expns n k) nx pv occ C" and "h \<in> heads n"
  shows "length (C h) \<le> unat k"
proof -
  have "unat ` set (C h) \<subseteq> {unat n + 1..<unat n + unat k}"
    using chainsD(7) [OF assms] by (auto simp: expns_def Suc_le_eq)
  then have "card (unat ` set (C h)) \<le> card {unat n + 1..<unat n + unat k}" by (rule card_mono [rotated]) simp
  moreover have "inj_on unat (set (C h))" by (auto simp: inj_on_def word_unat_eq_iff)
  ultimately have "card (set (C h)) \<le> unat k" by (simp add: card_image)
  then show ?thesis using distinct_card [OF chainsD(6) [OF assms]] by simp
qed

lemma walk_chain:
  "chains (heads n) (expns n k) nx pv occ C \<Longrightarrow> h \<in> heads n \<Longrightarrow> walk (unat k) nx h = C h"
  by (rule walk_path [OF chainsD(4) chain_length])

lemma dst_list_members:
  "rule_chains n k m C \<Longrightarrow> h \<in> heads n \<Longrightarrow> dst_list n k m h = filter (live n m) (members (used_rule n m) C h)"
  unfolding rule_chains_def by (simp add: dst_list_def members_def heads_iff walk_chain [unfolded heads_iff])

lemma src_list_members:
  "index_chains n k m meta IC \<Longrightarrow> h \<in> heads n \<Longrightarrow>
   src_list n k m h = map (entry_of n m) (members (\<lambda>i. entry_of n m i \<noteq> 0) IC h)"
  unfolding index_chains_def by (simp add: src_list_def members_def heads_iff walk_chain [unfolded heads_iff])

lemma list_outside: "h \<notin> heads n \<Longrightarrow> dst_list n k m h = []" "h \<notin> heads n \<Longrightarrow> src_list n k m h = []"
  by (auto simp: dst_list_def src_list_def heads_iff)

text \<open>What is on a list is a live rule in a slot, and every live rule is on one.\<close>

lemma dst_list_live:
  assumes r: "rule_chains n k m C" and b: "b \<in> set (dst_list n k m h)"
  shows "b \<in> heads n \<union> expns n k" "live n m b"
proof -
  have h: "h \<in> heads n" using b list_outside(1) by fastforce
  show "b \<in> heads n \<union> expns n k" "live n m b"
    using b members_in [OF r [unfolded rule_chains_def] h] by (simp_all add: dst_list_members [OF r h])
qed

lemma src_list_live:
  assumes x: "index_chains n k m meta IC" and c: "cross_ok n k m" and b: "b \<in> set (src_list n k m h)"
  shows "b \<in> heads n \<union> expns n k" "live n m b"
proof -
  have h: "h \<in> heads n" using b list_outside(2) by fastforce
  obtain i where i: "i \<in> set (members (\<lambda>i. entry_of n m i \<noteq> 0) IC h)" "b = entry_of n m i"
    using b by (auto simp: src_list_members [OF x h])
  then have "i \<in> heads n \<union> expns n k" "entry_of n m i \<noteq> 0"
    using members_in [OF x [unfolded index_chains_def] h i(1)] by simp_all
  then show "b \<in> heads n \<union> expns n k" "live n m b" using c i(2) unfolding cross_ok_def by simp_all
qed

lemma rule_of_encode:
  assumes "sizes_ok n k" and "a \<in> heads n \<union> expns n k"
  shows "rule_of_id m (encode n a) = client_of (rule_at n m a)"
  using encode_parts [OF addr_loc_less [OF assms(1) slot_addr(1) [OF assms(2)]]]
  by (simp add: rule_of_id_def rule_at_def)

section \<open>Adding\<close>

lemma added_abs:
  assumes inv: "tbl_inv t C IC" and ad: "added t c v4 pub C IC a p i q j t'"
    and c: "cl_pdn_index c < 16" "cl_protocol c \<noteq> 0xFF"
  shows "spec_add (dst_slot v4 pub (table_entries t) c) (src_slot (table_entries t) c) c (Suc j) (abs_tbl t) (abs_tbl t')"
proof -
  define n k m M where nkm: "n = table_entries t" "k = expn_table_entries t" "m = mem t" "M = mem t'"
  let ?d = "dst_slot v4 pub n c" and ?s = "src_slot n c"
  note D = tbl_invD [OF inv nkm(1,2), folded nkm(3)]
  have pa: "placed (expns n k) (used_rule n m) C ?d a p"
    and pi: "placed (expns n k) (\<lambda>i. entry_of n m i \<noteq> 0) IC ?s i q"
    and j: "first_idx (\<lambda>x. x = 0) (rule_id_array t) = Some j"
    and t': "table_entries t' = n" "expn_table_entries t' = k" "rule_id_array t' = (rule_id_array t)[j := encode n a]"
    and M: "M = add_mem n a p i q (added_rule pub c p i) m"
    and inv': "tbl_inv t' (place C ?d a) (place IC ?s i)"
    using ad by (simp_all add: added_def Let_def nkm)
  note D' = tbl_invD [OF inv' t'(1) [symmetric] t'(2) [symmetric], folded nkm(4)]
  have hs: "?d \<in> heads n" "?s \<in> heads n"
    unfolding dst_slot_def src_slot_def by (rule hash_heads; use D(4) in \<open>simp add: sizes_ok_def\<close>)+
  note P = placed_args [OF D(7,8,5) hs pa pi]
  note R = add_reads [OF P(1) M]
  note r = D(7) [unfolded rule_chains_def] and x = D(8) [unfolded index_chains_def]
  have la: "\<not> live n m a" using P(4) by (simp add: live_def used_rule_def)
  have j': "j < length (rule_id_array t)" "rule_id_array t ! j = 0" using first_idx_SomeD [OF j] by simp_all
  have cl: "client_of (rule_at n M b) = client_of (rule_at n m b)" if "live n m b" for b
    using R(8) [OF c(1), of b] la that by auto
  have clA: "client_of (rule_at n M a) = c" using R(8) [OF c(1), of a] by simp
  have dst: "dst_list n k M g = dst_list n k m g @ (if g = ?d then [a] else [])" for g
  proof (cases "g \<in> heads n")
    case True
    have "members (used_rule n M) (place C ?d a) g = members (used_rule n m) C g @ (if g = ?d then [a] else [])"
      by (rule members_place [OF r hs(1) pa _ _ True]) (simp_all add: R(3))
    moreover have "filter (live n M) (members (used_rule n m) C g) = filter (live n m) (members (used_rule n m) C g)"
      using members_in [OF r True] P(4) by (intro filter_cong refl) (auto simp: R(5))
    ultimately show ?thesis
      using c(2) by (simp add: dst_list_members [OF D(7) True] dst_list_members [OF D'(7) True] R(5))
  next
    case False
    then show ?thesis using hs list_outside(1) by auto
  qed
  have src: "src_list n k M g = src_list n k m g @ (if g = ?s then [a] else [])" for g
  proof (cases "g \<in> heads n")
    case True
    have "members (\<lambda>i. entry_of n M i \<noteq> 0) (place IC ?s i) g =
        members (\<lambda>i. entry_of n m i \<noteq> 0) IC g @ (if g = ?s then [i] else [])"
      by (rule members_place [OF x hs(2) pi _ _ True]) (simp_all add: R(6) slot_addr(2) [OF P(2)])
    moreover have "map (entry_of n M) (members (\<lambda>i. entry_of n m i \<noteq> 0) IC g) =
        map (entry_of n m) (members (\<lambda>i. entry_of n m i \<noteq> 0) IC g)"
      using members_in [OF x True] P(5) by (intro map_cong refl) (auto simp: R(6))
    ultimately show ?thesis
      by (simp add: src_list_members [OF D(8) True] src_list_members [OF D'(8) True] R(6))
  next
    case False
    then show ?thesis using hs list_outside(2) by auto
  qed
  have ids: "rule_of_id M e = rule_of_id m e" if e: "x < length (rule_id_array t)" "rule_id_array t ! x = e" "e \<noteq> 0" for x e
  proof -
    obtain b where b: "b \<in> heads n \<union> expns n k" "live n m b" "e = encode n b"
      using ids_okD(3) [OF D(11) e(1)] e(2,3) by auto
    then show ?thesis using rule_of_encode [OF D(4) b(1)] cl [OF b(2)] by simp
  qed
  have newid: "rule_of_id M (encode n a) = c" using rule_of_encode [OF D(4) P(2)] clA by simp
  have "rules_by_handle (abs_tbl t') = (rules_by_handle (abs_tbl t))(Suc j \<mapsto> c)"
  proof
    fix h
    show "rules_by_handle (abs_tbl t') h = ((rules_by_handle (abs_tbl t))(Suc j \<mapsto> c)) h"
    proof (cases "h = Suc j")
      case True
      then show ?thesis using j' newid encode_nonzero [OF D(4) P(2)] by (simp add: abs_tbl_def t' nkm [symmetric])
    next
      case False
      then have "(rule_id_array t)[j := encode n a] ! (h - 1) = rule_id_array t ! (h - 1)" if "0 < h" using that by simp
      then show ?thesis using False ids [of "h - 1"] by (cases "h = 0") (auto simp: abs_tbl_def t' nkm [symmetric])
    qed
  qed
  moreover have "by_dst (abs_tbl t') = (by_dst (abs_tbl t))(?d := by_dst (abs_tbl t) ?d @ [c])"
    using dst_list_live(2) [OF D(7)] cl clA by (auto simp: abs_tbl_def t' nkm [symmetric] dst fun_eq_iff)
  moreover have "by_src (abs_tbl t') = (by_src (abs_tbl t))(?s := by_src (abs_tbl t) ?s @ [c])"
    using src_list_live(2) [OF D(8,10)] cl clA by (auto simp: abs_tbl_def t' nkm [symmetric] src fun_eq_iff)
  moreover have "rules_by_handle (abs_tbl t) (Suc j) = None"
    using j' by (simp add: abs_tbl_def Let_def)
  ultimately show ?thesis by (simp add: spec_add_def nkm(1) [symmetric])
qed

section \<open>Deleting\<close>

lemma filter_ne: "distinct xs \<Longrightarrow> a \<in> set xs \<Longrightarrow> \<exists>us vs. xs = us @ a # vs \<and> filter (\<lambda>b. b \<noteq> a) xs = us @ vs"
proof -
  assume d: "distinct xs" and a: "a \<in> set xs"
  obtain us vs where xs: "xs = us @ a # vs" using split_list [OF a] by blast
  then have "filter (\<lambda>b. b \<noteq> a) us = us" "filter (\<lambda>b. b \<noteq> a) vs = vs"
    using d by (auto intro!: filter_True)
  then have "filter (\<lambda>b. b \<noteq> a) xs = us @ vs" unfolding xs by simp
  then show ?thesis using xs by blast
qed

lemma del_dst_list:
  assumes r: "rule_chains n k m C" and r': "rule_chains n k M (unlist C a)"
    and live: "\<And>b. live n M b \<longleftrightarrow> b \<noteq> a \<and> live n m b"
    and used: "\<And>b. b \<noteq> a \<Longrightarrow> used_rule n M b \<Longrightarrow> used_rule n m b" and ua: "used_rule n m a"
  shows "dst_list n k M h = filter (\<lambda>b. b \<noteq> a) (dst_list n k m h)"
proof (cases "h \<in> heads n")
  case True
  note c = r [unfolded rule_chains_def] and c' = r' [unfolded rule_chains_def]
  have f: "filter (live n M) (remove1 a xs) = filter (\<lambda>b. b \<noteq> a) (filter (live n m) xs)" if "distinct xs" for xs
    using that by (simp add: live distinct_remove1_removeAll removeAll_filter_not_eq) (metis (mono_tags, lifting))
  have "filter (live n M) (members (used_rule n M) (unlist C a) h) =
      filter (\<lambda>b. b \<noteq> a) (filter (live n m) (members (used_rule n m) C h))"
  proof (cases "used_rule n m h")
    case u: True
    have nl: "used_rule n M h \<or> unlist C a h = [] \<and> \<not> live n M h"
      using chainsD(9) [OF c' True] by (auto simp: live_def used_rule_def)
    have "filter (live n M) (members (used_rule n M) (unlist C a) h) = filter (live n M) (h # remove1 a (C h))"
      using nl by (auto simp: members_def unlist_def)
    also have "\<dots> = filter (\<lambda>b. b \<noteq> a) (filter (live n m) (h # C h))"
      using f [OF chainsD(6) [OF c True]] by (simp add: live)
    finally show ?thesis using u by (simp add: members_def)
  next
    case False
    then have "h \<noteq> a" using ua by blast
    then have "\<not> used_rule n M h" using used False by blast
    then show ?thesis using False by (simp add: members_def)
  qed
  then show ?thesis by (simp add: dst_list_members [OF r True] dst_list_members [OF r' True])
next
  case False
  then show ?thesis by (simp add: list_outside)
qed

lemma del_src_list:
  assumes x: "index_chains n k m meta IC" and c: "cross_ok n k m" and A: "del_args n k m meta a i"
    and r: "r = gone_index n i m" and x': "index_chains n k M meta' (unlist IC r)"
    and eM: "\<And>x. entry_of n M x = (if x = r then 0 else if r \<noteq> i \<and> x = i then entry_of n m r else entry_of n m x)"
  shows "src_list n k M h = filter (\<lambda>b. b \<noteq> a) (src_list n k m h)"
proof (cases "h \<in> heads n")
  case True
  let ?occ = "\<lambda>i. entry_of n m i \<noteq> 0" and ?occ' = "\<lambda>i. entry_of n M i \<noteq> 0"
  note D = del_argsD [OF A]
  note X = x [unfolded index_chains_def] and X' = x' [unfolded index_chains_def]
  have uniq: "entry_of n m y = a \<longleftrightarrow> y = i" if "y \<in> heads n \<union> expns n k" "?occ y" for y
    using c that D(6,7) unfolding cross_ok_def by metis
  have oi: "?occ i" using D(7) slot_addr(2) [OF D(3)] by simp
  have flt: "filter (\<lambda>b. b \<noteq> a) (map (entry_of n m) xs) = map (entry_of n m) (filter (\<lambda>y. y \<noteq> i) xs)"
    if "\<forall>y \<in> set xs. y \<in> heads n \<union> expns n k \<and> ?occ y" for xs
    using that by (induction xs) (auto simp: uniq)
  have mem: "\<forall>y \<in> set (members ?occ IC h). y \<in> heads n \<union> expns n k \<and> ?occ y"
    using members_in [OF X True] by blast
  have "map (entry_of n M) (members ?occ' (unlist IC r) h) = map (entry_of n m) (filter (\<lambda>y. y \<noteq> i) (members ?occ IC h))"
  proof (cases "r = i")
    case ri: True
    have e: "entry_of n M y = (if y = i then 0 else entry_of n m y)" for y using eM [of y] ri by simp
    have nl: "?occ h \<Longrightarrow> h = i \<Longrightarrow> IC h = []"
      using ri D(15,16) chains_head_zero [OF X True] heads_addr(2) [OF True] by (auto simp: r gone_index_def split: if_splits)
    have rm: "remove1 i (IC h) = filter (\<lambda>y. y \<noteq> i) (IC h)"
      unfolding distinct_remove1_removeAll [OF chainsD(6) [OF X True]] removeAll_filter_not_eq
      by (rule filter_cong) auto
    have "members ?occ' (unlist IC r) h = filter (\<lambda>y. y \<noteq> i) (members ?occ IC h)"
      using nl rm by (auto simp: members_def unlist_def ri e)
    then show ?thesis using e by (auto intro!: map_cong)
  next
    case False
    then have ih: "\<not> n \<le> i" "nx_index n m i \<noteq> 0" "r = nx_index n m i" by (auto simp: r gone_index_def split: if_splits)
    have iH: "i \<in> heads n" using ih(1) slot_cases(2) [OF D(4)] by simp
    obtain ys where ys: "IC i = r # ys" using head_next [OF X iH ih(2)] ih(3) by metis
    have er: "entry_of n m r \<noteq> 0" using del_args_head(1) [OF A ih] slot_addr(2) by blast
    have d: "distinct (h # IC h)" "distinct (i # IC i)" by (rule chains_distinct [OF X True], rule chains_distinct [OF X iH])
    show ?thesis
    proof (cases "h = i")
      case hi: True
      have "map (entry_of n M) ys = map (entry_of n m) ys" using d(2) ys False eM by (auto simp: eM)
      moreover have "filter (\<lambda>y. y \<noteq> i) ys = ys" using d(2) ys by (auto intro!: filter_True)
      ultimately show ?thesis using False oi er hi ys by (auto simp: members_def unlist_def eM)
    next
      case hi: False
      have rn: "r \<notin> set (IC h)" using chainsD(10) [OF X True iH] ys hi by auto
      have iN: "i \<notin> set (IC h)" by (rule chains_head_notin [OF X iH True])
      have rE: "r \<in> expns n k" using D(15) ih(2,3) by simp
      have hr: "h \<noteq> r" using heads_addr(2) [OF True] expns_addr(2) [OF rE] by metis
      have "map (entry_of n M) (IC h) = map (entry_of n m) (IC h)" using rn iN by (auto simp: eM)
      moreover have "filter (\<lambda>y. y \<noteq> i) (IC h) = IC h" using iN by (auto intro!: filter_True)
      ultimately show ?thesis using hi hr rn by (auto simp: members_def unlist_def eM remove1_idem)
    qed
  qed
  then show ?thesis using flt [OF mem] by (simp add: src_list_members [OF x True] src_list_members [OF x' True])
next
  case False
  then show ?thesis by (simp add: list_outside)
qed

text \<open>A list that loses one element of a family of disjoint lists.\<close>

lemma one_list:
  assumes "a \<in> set (L d)" "distinct (L d)" "\<And>g. g \<noteq> d \<Longrightarrow> a \<notin> set (L g)"
    and L': "\<And>g. L' g = filter (\<lambda>b. b \<noteq> a) (L g)"
  shows "\<exists>us vs. L d = us @ a # vs \<and> L' = L(d := us @ vs)"
proof -
  obtain us vs where u: "L d = us @ a # vs" "filter (\<lambda>b. b \<noteq> a) (L d) = us @ vs"
    using filter_ne [OF assms(2,1)] by blast
  have "L' g = (L(d := us @ vs)) g" for g
  proof (cases "g = d")
    case True
    then show ?thesis using u(2) L' by simp
  next
    case False
    then have "filter (\<lambda>b. b \<noteq> a) (L g) = L g" using assms(3) by (intro filter_True) auto
    then show ?thesis using False L' by simp
  qed
  then show ?thesis using u(1) by blast
qed

lemma dst_list_where:
  assumes r: "rule_chains n k m C" and a: "a \<in> heads n \<union> expns n k" "live n m a"
  shows "\<exists>d. a \<in> set (dst_list n k m d) \<and> distinct (dst_list n k m d) \<and> (\<forall>g. g \<noteq> d \<longrightarrow> a \<notin> set (dst_list n k m g))"
proof -
  note R = r [unfolded rule_chains_def]
  have ua: "used_rule n m a" using a(2) by (simp add: live_def used_rule_def)
  obtain d where d: "d \<in> heads n" "a \<in> set (members (used_rule n m) C d)" using members_all [OF R a(1) ua] by blast
  have "a \<in> set (dst_list n k m d)" using d a(2) by (simp add: dst_list_members [OF r d(1)])
  moreover have "distinct (dst_list n k m d)"
    using chains_distinct [OF R d(1)] by (simp add: dst_list_members [OF r d(1)] members_def)
  moreover have "a \<notin> set (dst_list n k m g)" if g: "g \<noteq> d" for g
  proof (cases "g \<in> heads n")
    case True
    then show ?thesis
      using d g members_unique [OF R True d(1)] by (auto simp: dst_list_members [OF r True])
  next
    case False
    then show ?thesis by (simp add: list_outside)
  qed
  ultimately show ?thesis by blast
qed

lemma src_list_where:
  assumes x: "index_chains n k m meta IC" and c: "cross_ok n k m" and a: "a \<in> heads n \<union> expns n k" "live n m a"
  shows "\<exists>d. a \<in> set (src_list n k m d) \<and> distinct (src_list n k m d) \<and> (\<forall>g. g \<noteq> d \<longrightarrow> a \<notin> set (src_list n k m g))"
proof -
  let ?occ = "\<lambda>i. entry_of n m i \<noteq> 0"
  note X = x [unfolded index_chains_def]
  have i: "ix_of n m a \<in> heads n \<union> expns n k" "entry_of n m (ix_of n m a) = a"
    using c a unfolding cross_ok_def by simp_all
  have inv: "ix_of n m (entry_of n m y) = y" if "y \<in> heads n \<union> expns n k" "?occ y" for y
    using c that unfolding cross_ok_def by simp
  have oi: "?occ (ix_of n m a)" using i(2) slot_addr(2) [OF a(1)] by simp
  obtain d where d: "d \<in> heads n" "ix_of n m a \<in> set (members ?occ IC d)" using members_all [OF X i(1) oi] by blast
  have "a \<in> set (src_list n k m d)" using imageI [OF d(2), of "entry_of n m"] i(2) by (simp add: src_list_members [OF x d(1)])
  moreover have "distinct (src_list n k m d)"
  proof -
    have "distinct (members ?occ IC d)" using chains_distinct [OF X d(1)] by (simp add: members_def)
    moreover have "inj_on (entry_of n m) (set (members ?occ IC d))"
      using members_in [OF X d(1)] inv by (auto simp: inj_on_def) metis+
    ultimately show ?thesis by (simp add: src_list_members [OF x d(1)] distinct_map)
  qed
  moreover have "a \<notin> set (src_list n k m g)" if g: "g \<noteq> d" for g
  proof (cases "g \<in> heads n")
    case True
    show ?thesis
    proof
      assume "a \<in> set (src_list n k m g)"
      then obtain y where y: "y \<in> set (members ?occ IC g)" "a = entry_of n m y"
        by (auto simp: src_list_members [OF x True])
      then have "y = ix_of n m a" using inv members_in [OF X True y(1)] by simp
      then show False using members_unique [OF X True d(1)] y(1) d(2) g by blast
    qed
  next
    case False
    then show ?thesis by (simp add: list_outside)
  qed
  ultimately show ?thesis by blast
qed

lemma deleted_abs:
  assumes inv: "tbl_inv t C IC" and de: "deleted t C IC a j t'"
  shows "spec_del (Suc j) (abs_tbl t) (abs_tbl t')"
proof -
  define n k m meta M where nkm: "n = table_entries t" "k = expn_table_entries t" "m = mem t"
    "meta = index_expn_table_meta t" "M = mem t'"
  define i r M0 where irM: "i = ix_of n m a" "r = gone_index n i m" "M0 = del_mem n a i meta m"
  note D = tbl_invD [OF inv nkm(1,2), folded nkm(3,4)]
  have a: "a \<in> heads n \<union> expns n k" "live n m a" and j: "j < length (rule_id_array t)" "rule_id_array t ! j = encode n a"
    and A: "del_args n k m meta a i" and t': "table_entries t' = n" "expn_table_entries t' = k"
      "rule_id_array t' = (rule_id_array t)[j := 0]" and M: "M = bury 0xFF M0"
    and inv': "tbl_inv t' (unlist C a) (unlist IC r)"
    using de by (simp_all add: deleted_def Let_def nkm irM)
  note D' = tbl_invD [OF inv' t'(1) [symmetric] t'(2) [symmetric], folded nkm(5)]
  note R = del_rule_reads [OF A irM(3)] and X = del_index_reads [OF A irM(3,2)]
  note B = bury_reads [OF R(7) M]
  have live: "live n M b \<longleftrightarrow> b \<noteq> a \<and> live n m b" for b using B(5) R(4) by simp
  have used: "b \<noteq> a \<Longrightarrow> used_rule n M b \<Longrightarrow> used_rule n m b" for b using B(4) R(3) by blast
  have ua: "used_rule n m a" using a(2) by (simp add: live_def used_rule_def)
  have cl: "client_of (rule_at n M b) = client_of (rule_at n m b)" if "b \<noteq> a" "live n m b" for b
    using B(6) [of b] R(4,6) that by simp
  have eM: "entry_of n M x = (if x = r then 0 else if r \<noteq> i \<and> x = i then entry_of n m r else entry_of n m x)" for x
    using X(2) [of x] B(7) [of x] by (simp add: entry_of_def)
  have dst: "dst_list n k M g = filter (\<lambda>b. b \<noteq> a) (dst_list n k m g)" for g
    by (rule del_dst_list [OF D(7) D'(7) live used ua])
  have src: "src_list n k M g = filter (\<lambda>b. b \<noteq> a) (src_list n k m g)" for g
    by (rule del_src_list [OF D(8,10) A irM(2) D'(8) eM])
  obtain d us vs where d: "dst_list n k m d = us @ a # vs" "dst_list n k M = (dst_list n k m)(d := us @ vs)"
    using dst_list_where [OF D(7) a] one_list [of a "dst_list n k m" _ "dst_list n k M", OF _ _ _ dst] by metis
  obtain s xs ys where s: "src_list n k m s = xs @ a # ys" "src_list n k M = (src_list n k m)(s := xs @ ys)"
    using src_list_where [OF D(8,10) a] one_list [of a "src_list n k m" _ "src_list n k M", OF _ _ _ src] by metis
  let ?f = "\<lambda>b. client_of (rule_at n m b)" and ?f' = "\<lambda>b. client_of (rule_at n M b)"
  have fd: "map ?f' (dst_list n k M g) = map ?f (dst_list n k M g)" for g
    using dst_list_live(2) [OF D(7)] cl by (auto simp: dst)
  have fs: "map ?f' (src_list n k M g) = map ?f (src_list n k M g)" for g
    using src_list_live(2) [OF D(8,10)] cl by (auto simp: src)
  have e0: "encode n a \<noteq> 0" by (rule encode_nonzero [OF D(4) a(1)])
  have ids: "rule_of_id M e = rule_of_id m e"
    if e: "x < length (rule_id_array t)" "x \<noteq> j" "rule_id_array t ! x = e" "e \<noteq> 0" for x e
  proof -
    obtain b where b: "b \<in> heads n \<union> expns n k" "live n m b" "e = encode n b"
      using ids_okD(3) [OF D(11) e(1)] e(3,4) by auto
    have "b \<noteq> a" using ids_okD(4) [OF D(11) e(1) j(1)] e(2,3) b(3) j(2) e0 by auto
    then show ?thesis using rule_of_encode [OF D(4) b(1)] b(3) cl [OF _ b(2)] by simp
  qed
  have H: "rules_by_handle (abs_tbl t') = (rules_by_handle (abs_tbl t))(Suc j := None)"
  proof
    fix h
    show "rules_by_handle (abs_tbl t') h = ((rules_by_handle (abs_tbl t))(Suc j := None)) h"
    proof (cases "h = Suc j")
      case True
      then show ?thesis using j by (simp add: abs_tbl_def t' Let_def)
    next
      case False
      then have "0 < h \<Longrightarrow> h - 1 \<noteq> j" by simp
      then show ?thesis using False ids [of "h - 1"] by (cases "h = 0") (auto simp: abs_tbl_def t' nkm [symmetric])
    qed
  qed
  have "rules_by_handle (abs_tbl t) (Suc j) = Some (?f a)"
    using j e0 rule_of_encode [OF D(4) a(1)] by (simp add: abs_tbl_def Let_def nkm [symmetric])
  moreover have "by_dst (abs_tbl t') = (\<lambda>g. map ?f (dst_list n k M g))" "by_src (abs_tbl t') = (\<lambda>g. map ?f (src_list n k M g))"
    by (simp_all add: abs_tbl_def t' Let_def nkm [symmetric] fd fs)
  then have "by_dst (abs_tbl t') = (by_dst (abs_tbl t))(d := map ?f us @ map ?f vs)"
    "by_src (abs_tbl t') = (by_src (abs_tbl t))(s := map ?f xs @ map ?f ys)"
    by (simp_all add: abs_tbl_def Let_def nkm [symmetric] d(2) s(2) fun_eq_iff)
  moreover have "by_dst (abs_tbl t) d = map ?f us @ ?f a # map ?f vs"
    "by_src (abs_tbl t) s = map ?f xs @ ?f a # map ?f ys"
    by (simp_all add: abs_tbl_def Let_def nkm [symmetric] d(1) s(1))
  ultimately show ?thesis unfolding spec_del_def using H by blast
qed

end
