(* ===== verification/Nat_Create.thy ===== *)
theory Nat_Create
  imports Nat_Spec
begin

text \<open>
  The sizes of the NAT tables and their creation: a table that has been created satisfies the
  invariant and is empty.
\<close>

section \<open>Sizes\<close>

lemma near2_loop_result:
  assumes L: "2 ^ l \<le> unat number" "unat number < 2 ^ Suc l" and j: "j \<le> l"
  shows "near2_loop number (drop_bit j number) (of_nat (2 ^ j)) =
           (if unat number = 2 ^ l then of_nat (2 ^ l) else of_nat (2 ^ Suc l))"
  using j
proof (induction "l - j" arbitrary: j)
  case 0
  then have jl: "j = l" by simp
  have l16: "l < 16"
  proof (rule ccontr)
    assume "\<not> l < 16"
    then have "(2 :: nat) ^ 16 \<le> 2 ^ l" by (intro power_increasing) simp_all
    then show False using L(1) unat16_less [of number] by simp
  qed
  have u: "unat (of_nat (2 ^ l) :: u16) = 2 ^ l"
    using l16 by (simp only: unsigned_of_nat) (simp add: take_bit_nat_eq_self)
  have "unat (drop_bit j number) = unat number div 2 ^ l"
    by (simp only: unat_drop_bit_eq jl) (simp add: drop_bit_eq_div)
  also have "\<dots> \<le> 1" using L(2) less_mult_imp_div_less [of "unat number" 2 "2 ^ l"] by simp
  finally have "drop_bit j number \<le> 1" by (simp add: word_le_nat_alt)
  moreover have "number = of_nat (2 ^ l) \<longleftrightarrow> unat number = 2 ^ l"
    using u by (simp add: word_unat_eq_iff del: of_nat_power)
  ultimately show ?case
    by (subst near2_loop.simps) (simp add: jl mult.commute)
next
  case (Suc d)
  then have jl: "Suc j \<le> l" by simp
  have "(2 :: nat) ^ j * 2 \<le> 2 ^ l" using power_increasing [OF jl, of "2 :: nat"] by (simp add: mult.commute)
  then have "2 \<le> unat number div 2 ^ j" using L(1) by (simp add: less_eq_div_iff_mult_less_eq mult.commute)
  moreover have "unat (drop_bit j number) = unat number div 2 ^ j"
    by (simp only: unat_drop_bit_eq) (simp add: drop_bit_eq_div)
  ultimately have n1: "\<not> drop_bit j number \<le> 1" by (simp add: word_le_nat_alt)
  have "near2_loop number (drop_bit (Suc j) number) (of_nat (2 ^ Suc j)) =
      (if unat number = 2 ^ l then of_nat (2 ^ l) else of_nat (2 ^ Suc l))"
    by (rule Suc.hyps(1)) (use Suc.hyps(2) jl in simp_all)
  moreover have "drop_bit 1 (drop_bit j number) = drop_bit (Suc j) number" by simp
  ultimately show ?case
    using n1 by (subst near2_loop.simps) (simp add: mult.commute)
qed

lemma GetNearest2Power_result:
  assumes "2 \<le> unat num"
  shows "\<exists>l. unat num \<le> 2 ^ l \<and> 2 ^ l < 2 * unat num \<and> GetNearest2Power num = Some (of_nat (2 ^ l))"
proof -
  obtain l where l: "2 ^ l \<le> unat num" "unat num < 2 ^ Suc l"
    using ex_power_ivl1 [of 2 "unat num"] assms by auto
  have "num \<noteq> 0" "num \<noteq> 1" using assms by auto
  then have g: "GetNearest2Power num = Some (if unat num = 2 ^ l then of_nat (2 ^ l) else of_nat (2 ^ Suc l))"
    using near2_loop_result [OF l, of 0] by (simp add: GetNearest2Power_def)
  show ?thesis
  proof (cases "unat num = 2 ^ l")
    case True
    then show ?thesis using g assms by (intro exI [of _ l]) simp
  next
    case False
    then show ?thesis using g l by (intro exI [of _ "Suc l"]) auto
  qed
qed

lemma power_le_16384: "(2 :: nat) ^ l < 2 * x \<Longrightarrow> x \<le> 16384 \<Longrightarrow> l \<le> 14"
proof -
  assume "(2 :: nat) ^ l < 2 * x" "x \<le> 16384"
  then have "(2 :: nat) ^ l < 2 ^ 15" by simp
  then have "l < 15" by (rule power_less_imp_less_exp [rotated]) simp
  then show ?thesis by simp
qed

lemma sizes_created:
  assumes "0 < unat num" and "unat num \<le> 20480"
  shows "\<exists>n. GetNearest2Power (base_entries num) = Some n \<and> sizes_ok n (expn_entries num)"
proof -
  define b where "b = unat num * 4 div 5"
  have b: "b \<le> 16384" using assms(2) by (simp add: b_def)
  have ub: "unat (of_nat b :: u16) = b" using b by (simp add: unsigned_of_nat take_bit_nat_eq_self)
  have be: "base_entries num = (if b = 0 then 1 else of_nat b)"
    using ub unat_0 by (auto simp: base_entries_def b_def [symmetric] Let_def word_unat_eq_iff)
  define e where "e = unat num div 5"
  have e: "e \<le> 4096" using assms(2) by (simp add: e_def)
  have ue: "unat (of_nat e :: u16) = e" using e by (simp add: unsigned_of_nat take_bit_nat_eq_self)
  have "2 \<le> unat (expn_entries num) \<and> unat (expn_entries num) \<le> 16384"
  proof -
    have "unat ((of_nat e :: u16) + 1) = e + 1" using e ue by (simp add: unat_word_ariths)
    then show ?thesis
      using e ue by (auto simp: expn_entries_def GetNearestEven_def e_def [symmetric] word_less_nat_alt)
  qed
  moreover have "\<exists>n. GetNearest2Power (base_entries num) = Some n \<and> 2 \<le> unat n \<and> unat n \<le> 16384"
  proof (cases "b \<le> 1")
    case True
    then have "base_entries num = 1" using be by (cases "b = 0"; cases "b = 1") auto
    then show ?thesis by (simp add: GetNearest2Power_def)
  next
    case False
    then have "2 \<le> unat (base_entries num)" using be ub by simp
    then obtain l where l: "unat (base_entries num) \<le> 2 ^ l" "2 ^ l < 2 * unat (base_entries num)"
      "GetNearest2Power (base_entries num) = Some (of_nat (2 ^ l))"
      using GetNearest2Power_result by blast
    have l14: "l \<le> 14" by (rule power_le_16384 [OF l(2)]) (use be ub b False in simp)
    then have u: "unat (of_nat (2 ^ l) :: u16) = 2 ^ l"
      by (simp only: unsigned_of_nat) (simp add: take_bit_nat_eq_self)
    have "(2 :: nat) ^ l \<le> 2 ^ 14" using l14 by (intro power_increasing) simp_all
    then show ?thesis using l \<open>2 \<le> unat (base_entries num)\<close> u
      by (intro exI [of _ "of_nat (2 ^ l)"]) (simp del: of_nat_power)
  qed
  ultimately show ?thesis by (auto simp: sizes_ok_def)
qed

section \<open>Creation\<close>

text \<open>A kernel that grants what the creation of a table asks for, with the table at offset 0.\<close>

definition kernel_grants :: "nat_kernel \<Rightarrow> bool" where
  "kernel_grants kk \<longleftrightarrow> open_ipa kk \<ge> 0 \<and> get_hw_version kk \<noteq> None \<and> (\<forall>s. alloc_nat_mem kk s = Some 0) \<and>
     malloc_meta_ok kk \<and> malloc_ids_ok kk \<and> open_nat_dev kk \<ge> 0 \<and> mmap_ok kk \<and> (\<forall>c. init_nat_ok kk c)"

definition empty_tbl :: "u16 \<Rightarrow> u16 \<Rightarrow> u32 \<Rightarrow> u32 \<Rightarrow> ip4_tbl" where
  "empty_tbl n k ip sz =
     \<lparr>valid = True, public_addr = ip, tbl_size = sz, tbl_addr_offset = 0, mapped = True,
      mem = \<lparr>base_tbl = replicate (unat n) zero_rule, expn_tbl = replicate (unat k) zero_rule,
             indx_tbl = replicate (unat n) 0, iexpn_tbl = replicate (unat k) 0\<rparr>,
      table_entries = n, expn_table_entries = k, index_expn_table_meta = replicate (unat k) 0,
      rule_id_array = replicate (unat n + unat k) 0, cur_tbl_cnt = 0, cur_expn_tbl_cnt = 0\<rparr>"

lemma empty_chains:
  assumes "0 \<notin> H" "0 \<notin> E" "H \<inter> E = {}" "\<And>x. x \<in> H \<union> E \<Longrightarrow> nx x = 0" "\<And>x. x \<in> H \<union> E \<Longrightarrow> \<not> occ x"
  shows "chains H E nx pv occ (\<lambda>_. [])"
  by (rule chainsI) (use assms in auto)

lemma empty_inv:
  assumes s: "sizes_ok n k"
  shows "tbl_inv (empty_tbl n k ip sz) (\<lambda>_. []) (\<lambda>_. [])"
proof -
  let ?m = "mem (empty_tbl n k ip sz)"
  have ok: "mem_ok n k ?m" by (simp add: mem_ok_def empty_tbl_def)
  have at: "rule_at n ?m a = zero_rule" "index_at n ?m a = 0" if "a \<in> heads n \<union> expns n k" for a
    using loc_bound [OF ok slot_addr(1) [OF that]]
    by (auto simp: rule_at_def index_at_def access_defs empty_tbl_def)
  have un: "\<not> used_rule n ?m a" "\<not> live n ?m a" "nx_rule n ?m a = 0" "entry_of n ?m a = 0" "nx_index n ?m a = 0"
    if "a \<in> heads n \<union> expns n k" for a
    using at [OF that] by (simp_all add: used_rule_def live_def nx_rule_def entry_of_def nx_index_def field_simps)
  have d: "0 \<notin> heads n" "0 \<notin> expns n k" "heads n \<inter> expns n k = {}" by (auto simp: heads_def expns_def)
  have "rule_chains n k ?m (\<lambda>_. [])" unfolding rule_chains_def by (rule empty_chains [OF d]) (simp_all add: un)
  moreover have "index_chains n k ?m (index_expn_table_meta (empty_tbl n k ip sz)) (\<lambda>_. [])"
    unfolding index_chains_def by (rule empty_chains [OF d]) (simp_all add: un)
  moreover have "dead_ok n k ?m" "cross_ok n k ?m" using un by (auto simp: dead_ok_def cross_ok_def)
  moreover have "ids_ok n k ?m (rule_id_array (empty_tbl n k ip sz))"
    using un by (auto simp: ids_ok_def empty_tbl_def)
  ultimately show ?thesis
    using s ok by (simp add: tbl_inv_def empty_tbl_def Let_def)
qed

definition empty_abs :: nat_abs where
  "empty_abs = \<lparr>rules_by_handle = (\<lambda>_. None), by_dst = (\<lambda>_. []), by_src = (\<lambda>_. [])\<rparr>"

lemma empty_abs_tbl:
  assumes s: "sizes_ok n k"
  shows "abs_tbl (empty_tbl n k ip sz) = empty_abs"
proof -
  let ?t = "empty_tbl n k ip sz"
  note D = tbl_invD [OF empty_inv [OF s, of ip sz] refl refl]
  have n: "table_entries ?t = n" "expn_table_entries ?t = k" by (simp_all add: empty_tbl_def)
  have at: "\<not> used_rule n (mem ?t) h \<and> entry_of n (mem ?t) h = 0" if "h \<in> heads n" for h
  proof -
    have "rule_at n (mem ?t) h = zero_rule" "index_at n (mem ?t) h = 0"
      using heads_addr(2) [OF that] that
      by (simp_all add: rule_at_def index_at_def access_defs empty_tbl_def loc_def heads_def)
    then show ?thesis by (simp add: used_rule_def entry_of_def field_simps)
  qed
  have "dst_list n k (mem ?t) h = []" "src_list n k (mem ?t) h = []" for h
    using at [of h] by (auto simp: dst_list_def src_list_def heads_iff)
  moreover have "x = 0 \<or> replicate N (0 :: u16) ! (x - Suc 0) = 0" if "x \<le> N" for x N using that by (cases x) simp_all
  ultimately show ?thesis by (simp add: abs_tbl_def n empty_abs_def Let_def) (simp add: empty_tbl_def fun_eq_iff)
qed

lemma memset_map: "length xs = n \<Longrightarrow> memset_arr xs n v = Some (replicate n v)"
  by (simp add: memset_arr_def)

lemma create_result:
  assumes g: "ip4_tbls g = [zero_tbl]" "table_cnt g = 0" "pdns g \<noteq> []" and kk: "kernel_grants kk"
    and num: "num \<noteq> 0" "unat num \<le> 20480"
  shows "\<exists>n k sz g'. ipa_nat_add_ipv4_tbl kk ip num g = Some (Inr 1, g') \<and> sizes_ok n k \<and>
           ip4_tbls g' = [empty_tbl n k ip sz] \<and> table_cnt g' = 1 \<and>
           pdns g' = (pdns g)[0 := (pdns g ! 0)\<lparr>pi_public_ip := ip\<rparr>]"
proof -
  have "0 < unat num" using num(1) by (simp add: unat_gt_0)
  then obtain n where n: "GetNearest2Power (base_entries num) = Some n" "sizes_ok n (expn_entries num)"
    using sizes_created num(2) by blast
  define k where "k = expn_entries num"
  obtain v where v: "get_hw_version kk = Some v" using kk by (auto simp: kernel_grants_def)
  define sz where "sz = 32 * (ucast (n + k) :: u32) + 4 * ucast (n + k)"
  define g1 where "g1 = (if ipa_fd g = 0 then g\<lparr>ipa_fd := open_ipa kk\<rparr> else g)\<lparr>ver := v\<rparr>"
  have g1: "ip4_tbls g1 = [zero_tbl]" "table_cnt g1 = 0" "pdns g1 = pdns g"
    using g by (simp_all add: g1_def)
  have al: "alloc_table kk num g = (Inr \<lparr>am_size = sz, am_offset = 0, am_table_entries = n, am_expn_entries = k\<rparr>, g1)"
    using kk n(1) v by (auto simp: alloc_table_def kernel_grants_def k_def [symmetric] GetIPAVer_def sz_def g1_def Let_def)
  have z: "unat n \<noteq> 0" "unat k \<noteq> 0" using n(2) by (simp_all add: sizes_ok_def k_def)
  define t1 where "t1 = (empty_tbl n k ip sz)\<lparr>mem :=
     \<lparr>base_tbl = map (mapped_rule kk) [0..<unat n], expn_tbl = map (mapped_rule kk) [unat n..<unat n + unat k],
      indx_tbl = map (mapped_index kk) [0..<unat n], iexpn_tbl = map (mapped_index kk) [unat n..<unat n + unat k]\<rparr>\<rparr>"
  have up: "update_cache kk \<lparr>am_size = sz, am_offset = 0, am_table_entries = n, am_expn_entries = k\<rparr> ip g1
      = Some (0, g1\<lparr>ip4_tbls := [t1]\<rparr>)"
    using kk z g1 by (simp add: update_cache_def kernel_grants_def fetch_def set_tbl_def zero_tbl_def t1_def empty_tbl_def Let_def)
  have rs: "reset_tbl t1 = Some (empty_tbl n k ip sz)"
    by (simp add: reset_tbl_def t1_def empty_tbl_def memset_map Let_def)
  have "nati_add_ipv4_tbl kk ip num g = Some (Inr 1, g1\<lparr>ip4_tbls := [empty_tbl n k ip sz],
      pdns := (pdns g)[0 := (pdns g ! 0)\<lparr>pi_public_ip := ip\<rparr>], table_cnt := 1\<rparr>)"
    using up rs g g1 kk al
    by (simp add: nati_add_ipv4_tbl_def fetch_def set_tbl_def post_ipv4_init_cmd_def kernel_grants_def)
  then have "ipa_nat_add_ipv4_tbl kk ip num g = Some (Inr 1, g1\<lparr>ip4_tbls := [empty_tbl n k ip sz],
      pdns := (pdns g)[0 := (pdns g ! 0)\<lparr>pi_public_ip := ip\<rparr>], table_cnt := 1\<rparr>)"
    using num(1) by (simp add: ipa_nat_add_ipv4_tbl_def)
  then show ?thesis using n(2) by (intro exI [of _ n] exI [of _ k] exI [of _ sz]) (simp add: k_def)
qed

end
