(* ===== verification/Nat_Refine.thy ===== *)
theory Nat_Refine
  imports Nat_Create
begin

text \<open>
  The NAT driver against its specification. \<open>rule_store\<close> is the contract a client relies on: a
  store of rules under handles that every call keeps in order. It is interpreted on the driver,
  whose operations refine the specification of \<open>Nat_Spec\<close>.
\<close>

section \<open>The contract\<close>

datatype ('h, 'r) store_op = Put 'r | Remove 'h

datatype ('h, 'r) store_event = Stored 'h 'r | Refused | Removed 'h | Unknown

fun replay :: "('h, 'r) store_event list \<Rightarrow> ('h \<Rightarrow> 'r option) \<Rightarrow> ('h \<Rightarrow> 'r option)" where
  "replay [] s = s"
| "replay (Stored h r # es) s = replay es (s(h := Some r))"
| "replay (Removed h # es) s = replay es (s(h := None))"
| "replay (_ # es) s = replay es s"

text \<open>In a history, a handle is given out when it is not in use and taken back when it is.\<close>

fun proper :: "('h, 'r) store_event list \<Rightarrow> ('h \<Rightarrow> 'r option) \<Rightarrow> bool" where
  "proper [] s \<longleftrightarrow> True"
| "proper (Stored h r # es) s \<longleftrightarrow> s h = None \<and> proper es (s(h := Some r))"
| "proper (Removed h # es) s \<longleftrightarrow> s h \<noteq> None \<and> proper es (s(h := None))"
| "proper (_ # es) s \<longleftrightarrow> proper es s"

fun run_store ::
  "('r \<Rightarrow> 's \<Rightarrow> ('h option \<times> 's) option) \<Rightarrow> ('h \<Rightarrow> 's \<Rightarrow> (bool \<times> 's) option) \<Rightarrow>
   ('h, 'r) store_op list \<Rightarrow> 's \<Rightarrow> (('h, 'r) store_event list \<times> 's) option"
where
  "run_store put del [] s = Some ([], s)"
| "run_store put del (Put r # xs) s =
     Option.bind (put r s) (\<lambda>(res, s). map_option (\<lambda>(es, s'). ((case res of None \<Rightarrow> Refused | Some h \<Rightarrow> Stored h r) # es, s'))
       (run_store put del xs s))"
| "run_store put del (Remove h # xs) s =
     Option.bind (del h s) (\<lambda>(res, s). map_option (\<lambda>(es, s'). ((if res then Removed h else Unknown) # es, s'))
       (run_store put del xs s))"

definition ops_ok :: "('r \<Rightarrow> bool) \<Rightarrow> ('h, 'r) store_op list \<Rightarrow> bool" where
  "ops_ok P xs \<longleftrightarrow> list_all (\<lambda>x. case x of Put r \<Rightarrow> P r | Remove _ \<Rightarrow> True) xs"

lemma ops_ok_Cons [simp]:
  "ops_ok P []" "ops_ok P (Put r # xs) \<longleftrightarrow> P r \<and> ops_ok P xs" "ops_ok P (Remove h # xs) \<longleftrightarrow> ops_ok P xs"
  by (simp_all add: ops_ok_def)

locale rule_store =
  fixes ok :: "'s \<Rightarrow> bool" and admissible :: "'s \<Rightarrow> 'r \<Rightarrow> bool" and content :: "'s \<Rightarrow> 'h \<Rightarrow> 'r option"
    and put :: "'r \<Rightarrow> 's \<Rightarrow> ('h option \<times> 's) option" and del :: "'h \<Rightarrow> 's \<Rightarrow> (bool \<times> 's) option"
  assumes put_law: "ok s \<Longrightarrow> admissible s r \<Longrightarrow> \<exists>res s'. put r s = Some (res, s') \<and> ok s' \<and> admissible s' = admissible s \<and>
      (case res of None \<Rightarrow> content s' = content s
       | Some h \<Rightarrow> content s h = None \<and> content s' = (content s)(h := Some r))"
    and del_law: "ok s \<Longrightarrow> \<exists>s'. del h s = Some (content s h \<noteq> None, s') \<and> ok s' \<and> admissible s' = admissible s \<and>
      content s' = (content s)(h := None)"
begin

lemma run_replays:
  "ok s \<Longrightarrow> ops_ok (admissible s) xs \<Longrightarrow>
   \<exists>es s'. run_store put del xs s = Some (es, s') \<and> ok s' \<and> length es = length xs \<and>
     proper es (content s) \<and> content s' = replay es (content s)"
proof (induction xs arbitrary: s)
  case Nil
  then show ?case by simp
next
  case (Cons x xs)
  show ?case
  proof (cases x)
    case (Put r)
    have "admissible s r" using Cons.prems(2) Put by simp
    from put_law [OF Cons.prems(1) this] obtain res s1 where s1: "put r s = Some (res, s1)" "ok s1"
      "admissible s1 = admissible s"
      "case res of None \<Rightarrow> content s1 = content s | Some h \<Rightarrow> content s h = None \<and> content s1 = (content s)(h := Some r)"
      by blast
    obtain es s' where "run_store put del xs s1 = Some (es, s')" "ok s'" "length es = length xs"
      "proper es (content s1)" "content s' = replay es (content s1)"
      using Cons.IH [OF s1(2)] Cons.prems(2) Put s1(3) by auto
    then show ?thesis using s1 Put by (cases res) auto
  next
    case (Remove h)
    from del_law [OF Cons.prems(1)] obtain s1 where s1: "del h s = Some (content s h \<noteq> None, s1)" "ok s1"
      "content s1 = (content s)(h := None)" "admissible s1 = admissible s" by blast
    obtain es s' where r: "run_store put del xs s1 = Some (es, s')" "ok s'" "length es = length xs"
      "proper es (content s1)" "content s' = replay es (content s1)"
      using Cons.IH [OF s1(2)] Cons.prems(2) Remove s1(4) by auto
    show ?thesis
    proof (cases "content s h = None")
      case True
      then have "content s1 = content s" using s1(3) by auto
      then show ?thesis using r s1 Remove True by auto
    next
      case False
      then show ?thesis using r s1 Remove by auto
    qed
  qed
qed

end

section \<open>The driver\<close>

definition drv_inv :: "nat_drv \<Rightarrow> bool" where
  "drv_inv g \<longleftrightarrow> (\<exists>t C IC. ip4_tbls g = [t] \<and> tbl_inv t C IC)"

definition drv_abs :: "nat_drv \<Rightarrow> nat_abs" where
  "drv_abs g = abs_tbl (hd (ip4_tbls g))"

definition drv_slots :: "nat_drv \<Rightarrow> u16" where
  "drv_slots g = table_entries (hd (ip4_tbls g))"

text \<open>A rule the driver can take: its PDN exists, and its protocol is not the one that marks dead heads.\<close>

definition rule_ok :: "nat \<Rightarrow> client_rule \<Rightarrow> bool" where
  "rule_ok pdn_num c \<longleftrightarrow> unat (cl_pdn_index c) < pdn_num \<and> cl_pdn_index c < 16 \<and> cl_protocol c \<noteq> 0xFF"

definition pdn_ip :: "nat_drv \<Rightarrow> client_rule \<Rightarrow> u32" where
  "pdn_ip g c = pi_public_ip (pdns g ! unat (cl_pdn_index c))"

definition no_room :: "nat_kernel \<Rightarrow> nat_drv \<Rightarrow> client_rule \<Rightarrow> bool" where
  "no_room kk g c \<longleftrightarrow> table_full (hd (ip4_tbls g)) c (ver g \<ge> hw_v4_0 kk) (pdn_ip g c)"

lemma handle_u32: "Suc j < 65536 \<Longrightarrow> (ucast (of_nat (Suc j) :: u16) :: u32) = of_nat (Suc j)"
  by (intro word_unat_eq_iff [THEN iffD2])
    (simp add: unsigned_ucast_eq unsigned_of_nat take_bit_nat_eq_self del: of_nat_Suc)

lemma add_refines:
  assumes inv: "drv_inv g" and kk: "kernel_works kk" and c: "rule_ok (length (pdns g)) c"
  shows "(\<exists>h g'. ipa_nat_add_ipv4_rule kk 1 c g = Some ((0, Some (of_nat h)), g') \<and> h < 65536 \<and>
             spec_add (dst_slot (ver g \<ge> hw_v4_0 kk) (pdn_ip g c) (drv_slots g) c) (src_slot (drv_slots g) c) c h
               (drv_abs g) (drv_abs g') \<and>
             drv_inv g' \<and> g' = g\<lparr>ip4_tbls := ip4_tbls g'\<rparr> \<and> drv_slots g' = drv_slots g) \<or>
         ipa_nat_add_ipv4_rule kk 1 c g = Some ((- EINVAL, None), g) \<and> (pdn_ip g c = 0 \<or> no_room kk g c)"
proof -
  obtain t C IC where t: "ip4_tbls g = [t]" "tbl_inv t C IC" using inv by (auto simp: drv_inv_def)
  let ?v4 = "ver g \<ge> hw_v4_0 kk" and ?pub = "pdn_ip g c"
  have f: "fetch (pdns g) (unat (cl_pdn_index c)) = Some (pdns g ! unat (cl_pdn_index c))"
    using c by (simp add: rule_ok_def fetch_def)
  have w: "ipa_nat_add_ipv4_rule kk 1 c g = map_option (\<lambda>((err, hdl), g). ((if err \<noteq> 0 then - EINVAL else 0, hdl), g))
      (nati_add_ipv4_rule kk 1 c g)"
    by (simp add: ipa_nat_add_ipv4_rule_def MAX_IP4_TBLS_def)
  show ?thesis
  proof (cases "?pub = 0")
    case True
    then have "nati_add_ipv4_rule kk 1 c g = Some ((- EINVAL, None), g)"
      using f by (simp add: nati_add_ipv4_rule_def pdn_ip_def)
    then show ?thesis using True w by (simp add: EINVAL_def)
  next
    case False
    have "fits kk g c ?pub" using c f False by (simp add: fits_def rule_ok_def pdn_ip_def)
    from add_rule_result [OF t(2,1) kk this refl] show ?thesis
    proof (elim disjE exE conjE)
      fix a p i q j t'
      assume r: "nati_add_ipv4_rule kk 1 c g = Some ((0, Some (ucast (of_nat (Suc j) :: u16))), g\<lparr>ip4_tbls := [t']\<rparr>)"
        and ad: "added t c ?v4 ?pub C IC a p i q j t'"
      note D = tbl_invD [OF t(2) refl refl]
      have sj: "Suc j < 65536"
        using ad ids_okD(1) [OF D(11)] D(4) by (simp add: added_def Let_def sizes_ok_def)
      have inv': "tbl_inv t' (place C (dst_slot ?v4 ?pub (table_entries t) c) a) (place IC (src_slot (table_entries t) c) i)"
        and n': "table_entries t' = table_entries t"
        using ad by (simp_all add: added_def Let_def)
      have "spec_add (dst_slot ?v4 ?pub (table_entries t) c) (src_slot (table_entries t) c) c (Suc j) (abs_tbl t) (abs_tbl t')"
        by (rule added_abs [OF t(2) ad]) (use c in \<open>simp_all add: rule_ok_def\<close>)
      then show ?thesis
        using r w sj inv' n' t(1) handle_u32 [OF sj]
        by (intro disjI1 exI [of _ "Suc j"] exI [of _ "g\<lparr>ip4_tbls := [t']\<rparr>"])
          (auto simp: drv_inv_def drv_abs_def drv_slots_def simp del: of_nat_Suc)
    next
      assume "nati_add_ipv4_rule kk 1 c g = Some ((- EINVAL, None), g)" "table_full t c ?v4 ?pub"
      then show ?thesis using w t(1) by (simp add: EINVAL_def no_room_def)
    qed
  qed
qed

lemma del_refines:
  assumes inv: "drv_inv g" and kk: "kernel_works kk" and h: "h < 65536"
  shows "if rules_by_handle (drv_abs g) h = None then ipa_nat_del_ipv4_rule kk 1 (of_nat h) g = Some (- EINVAL, g)
         else \<exists>g'. ipa_nat_del_ipv4_rule kk 1 (of_nat h) g = Some (0, g') \<and> spec_del h (drv_abs g) (drv_abs g') \<and>
                drv_inv g' \<and> g' = g\<lparr>ip4_tbls := ip4_tbls g'\<rparr> \<and> drv_slots g' = drv_slots g"
proof -
  obtain t C IC where t: "ip4_tbls g = [t]" "tbl_inv t C IC" using inv by (auto simp: drv_inv_def)
  note D = tbl_invD [OF t(2) refl refl]
  have u: "unat (of_nat h :: u32) = h" using h by (simp add: unsigned_of_nat take_bit_nat_eq_self)
  have rbh: "rules_by_handle (drv_abs g) h = None \<longleftrightarrow> \<not> (0 < h \<and> h \<le> length (rule_id_array t) \<and> rule_id_array t ! (h - 1) \<noteq> 0)"
    using t(1) by (simp add: drv_abs_def abs_tbl_def Let_def)
  have w: "ipa_nat_del_ipv4_rule kk 1 (of_nat h) g =
      (if h = 0 then Some (- EINVAL, g) else nati_del_ipv4_rule kk 1 (of_nat h) g)"
    using u unat_0 by (auto simp: ipa_nat_del_ipv4_rule_def word_unat_eq_iff)
  show ?thesis
  proof (cases "rules_by_handle (drv_abs g) h = None")
    case True
    have "nati_del_ipv4_rule kk 1 (of_nat h) g = Some (- EINVAL, g)" if "h \<noteq> 0"
      by (rule del_unknown [OF t(2,1)]) (use that u h rbh True in auto)
    then show ?thesis using True w by simp
  next
    case False
    then have "0 < h" "h - 1 < length (rule_id_array t)" "rule_id_array t ! (h - 1) \<noteq> 0" using rbh by auto
    then obtain j where j: "h = Suc j" "j < length (rule_id_array t)" "rule_id_array t ! j \<noteq> 0"
      by (cases h) auto
    obtain a t' where r: "nati_del_ipv4_rule kk 1 (of_nat (Suc j)) g = Some (0, g\<lparr>ip4_tbls := [t']\<rparr>)"
      and de: "deleted t C IC a j t'"
      using del_rule_result [OF t(2,1) kk j(2,3)] by blast
    have inv': "drv_inv (g\<lparr>ip4_tbls := [t']\<rparr>)" "table_entries t' = table_entries t"
      using de by (auto simp: deleted_def Let_def drv_inv_def)
    show ?thesis
      using False w r j(1) inv' deleted_abs [OF t(2) de] t(1)
      by (auto simp: drv_abs_def drv_slots_def simp del: of_nat_Suc intro!: exI [of _ "g\<lparr>ip4_tbls := [t']\<rparr>"])
  qed
qed

section \<open>The driver as a store of rules\<close>

text \<open>The calls a client makes, with the kernel that answers them as a part of the state.\<close>

definition drv_put :: "client_rule \<Rightarrow> nat_kernel \<times> nat_drv \<Rightarrow> (u16 option \<times> nat_kernel \<times> nat_drv) option" where
  "drv_put c s = map_option (\<lambda>((err, hdl), g). (if err = 0 then map_option ucast hdl else None, fst s, g))
     (ipa_nat_add_ipv4_rule (fst s) 1 c (snd s))"

definition drv_del :: "u16 \<Rightarrow> nat_kernel \<times> nat_drv \<Rightarrow> (bool \<times> nat_kernel \<times> nat_drv) option" where
  "drv_del h s = map_option (\<lambda>(err, g). (err = 0, fst s, g)) (ipa_nat_del_ipv4_rule (fst s) 1 (ucast h) (snd s))"

definition drv_content :: "nat_kernel \<times> nat_drv \<Rightarrow> u16 \<Rightarrow> client_rule option" where
  "drv_content s h = rules_by_handle (drv_abs (snd s)) (unat h)"

definition drv_ok :: "nat_kernel \<times> nat_drv \<Rightarrow> bool" where
  "drv_ok s \<longleftrightarrow> kernel_works (fst s) \<and> drv_inv (snd s)"

definition drv_admissible :: "nat_kernel \<times> nat_drv \<Rightarrow> client_rule \<Rightarrow> bool" where
  "drv_admissible s c \<longleftrightarrow> rule_ok (length (pdns (snd s))) c"

lemma drv_put_law:
  assumes "drv_ok s" and "drv_admissible s c"
  shows "\<exists>res s'. drv_put c s = Some (res, s') \<and> drv_ok s' \<and> drv_admissible s' = drv_admissible s \<and>
      (case res of None \<Rightarrow> drv_content s' = drv_content s
       | Some h \<Rightarrow> drv_content s h = None \<and> drv_content s' = (drv_content s)(h := Some c))"
proof -
  obtain kk g where s: "s = (kk, g)" by (cases s)
  have a: "drv_inv g" "kernel_works kk" "rule_ok (length (pdns g)) c"
    using assms s by (simp_all add: drv_ok_def drv_admissible_def)
  consider (full) "ipa_nat_add_ipv4_rule kk 1 c g = Some ((- EINVAL, None), g)"
    | (put) h g' where "ipa_nat_add_ipv4_rule kk 1 c g = Some ((0, Some (of_nat h)), g')" "h < 65536"
      "spec_add (dst_slot (ver g \<ge> hw_v4_0 kk) (pdn_ip g c) (drv_slots g) c) (src_slot (drv_slots g) c) c h
         (drv_abs g) (drv_abs g')"
      "drv_inv g'" "g' = g\<lparr>ip4_tbls := ip4_tbls g'\<rparr>"
    using add_refines [OF a] by fast
  then show ?thesis
  proof cases
    case (put h g')
    note r = put(1,2) and sp = put(3) and i = put(4,5)
    have pd: "pdns g' = pdns g" using arg_cong [OF i(2), of pdns] by simp
    have u: "unat (of_nat h :: u16) = h" using r(2) by (simp add: unsigned_of_nat take_bit_nat_eq_self)
    have e: "unat x = h \<longleftrightarrow> x = of_nat h" for x :: u16 using u by (auto simp: word_unat_eq_iff)
    have uc: "(ucast (of_nat h :: u32) :: u16) = of_nat h"
      using r(2) by (intro word_unat_eq_iff [THEN iffD2]) (simp add: u unsigned_ucast_eq unsigned_of_nat take_bit_nat_eq_self)
    have "drv_put c s = Some (Some (of_nat h), (kk, g'))" using r(1) uc by (simp add: s drv_put_def)
    moreover have "drv_ok (kk, g')" using a(2) i(1) by (simp add: drv_ok_def)
    moreover have "drv_admissible (kk, g') = drv_admissible s" by (simp add: s drv_admissible_def [abs_def] pd)
    moreover have "drv_content s (of_nat h) = None" using sp by (simp add: s drv_content_def spec_add_def u)
    moreover have "drv_content (kk, g') = (drv_content s)(of_nat h := Some c)"
      using sp by (simp add: s drv_content_def [abs_def] spec_add_def e fun_eq_iff)
    ultimately show ?thesis by auto
  next
    case full
    then show ?thesis using assms s
      by (intro exI [of _ None] exI [of _ s]) (simp add: drv_put_def EINVAL_def)
  qed
qed

lemma drv_del_law:
  assumes "drv_ok s"
  shows "\<exists>s'. drv_del h s = Some (drv_content s h \<noteq> None, s') \<and> drv_ok s' \<and> drv_admissible s' = drv_admissible s \<and>
      drv_content s' = (drv_content s)(h := None)"
proof -
  obtain kk g where s: "s = (kk, g)" by (cases s)
  have a: "drv_inv g" "kernel_works kk" using assms s by (simp_all add: drv_ok_def)
  have h: "(ucast h :: u32) = of_nat (unat h)" by (rule of_nat_unat [symmetric])
  note R = del_refines [OF a unat16_less, of h, folded h]
  show ?thesis
  proof (cases "rules_by_handle (drv_abs g) (unat h) = None")
    case True
    then have "ipa_nat_del_ipv4_rule kk 1 (ucast h) g = Some (- EINVAL, g)" using R by (simp only: if_True)
    moreover have "drv_content s h = None" using True by (simp add: s drv_content_def)
    ultimately show ?thesis using assms
      by (intro exI [of _ s]) (simp add: s drv_del_def EINVAL_def fun_eq_iff)
  next
    case False
    then obtain g' where r: "ipa_nat_del_ipv4_rule kk 1 (ucast h) g = Some (0, g')"
      "spec_del (unat h) (drv_abs g) (drv_abs g')" "drv_inv g'" "g' = g\<lparr>ip4_tbls := ip4_tbls g'\<rparr>"
      using R [unfolded if_not_P [OF False]] by blast
    have pd: "pdns g' = pdns g" using arg_cong [OF r(4), of pdns] by simp
    have e: "unat x = unat h \<longleftrightarrow> x = h" for x by (simp add: word_unat_eq_iff)
    have rb: "rules_by_handle (drv_abs g') = (rules_by_handle (drv_abs g))(unat h := None)"
      using r(2) by (auto simp: spec_del_def)
    have "drv_content s h \<noteq> None" using False by (simp add: s drv_content_def)
    moreover have "drv_del h s = Some (True, (kk, g'))" using r(1) by (simp add: s drv_del_def)
    moreover have "drv_ok (kk, g')" using a(2) r(3) by (simp add: drv_ok_def)
    moreover have "drv_admissible (kk, g') = drv_admissible s" by (simp add: s drv_admissible_def [abs_def] pd)
    moreover have "drv_content (kk, g') = (drv_content s)(h := None)"
      using e by (simp add: s drv_content_def [abs_def] rb fun_eq_iff)
    ultimately show ?thesis by (intro exI [of _ "(kk, g')"]) simp
  qed
qed

interpretation drv: rule_store drv_ok drv_admissible drv_content drv_put drv_del
  by unfold_locales (fact drv_put_law, fact drv_del_law)

end
