(* ===== verification/Nat_Props.thy ===== *)
theory Nat_Props
  imports Nat_Refine
begin

text \<open>
  What the NAT driver does for its client: its refinement of the specification, whole histories of
  calls from the creation of the table on, the sizes of the tables, the checksums, and the calls
  whose guards let an array be written behind its end.
\<close>

section \<open>Sizes and checksums\<close>

lemma GetNearest2Power_cases:
  "GetNearest2Power num =
     (if num = 0 then None else if num = 1 then Some 2
      else if unat num \<le> 32768 then Some (of_nat (2 ^ (LEAST l. unat num \<le> 2 ^ l))) else Some 0)"
proof (cases "num = 0 \<or> num = 1")
  case True
  then show ?thesis by (auto simp: GetNearest2Power_def)
next
  case False
  then have num: "2 \<le> unat num" "num \<noteq> 0" "num \<noteq> 1"
    using unat_gt_0 [of num] word_unat_eq_iff [of num 1] by (auto simp: le_less_linear not_less_eq_eq numeral_2_eq_2 Suc_le_eq less_Suc_eq)
  then obtain l where l: "unat num \<le> 2 ^ l" "2 ^ l < 2 * unat num" "GetNearest2Power num = Some (of_nat (2 ^ l))"
    using GetNearest2Power_result by blast
  have least: "(LEAST l. unat num \<le> 2 ^ l) = l"
  proof (rule Least_equality)
    show "unat num \<le> 2 ^ l" by (rule l(1))
  next
    fix y assume "unat num \<le> 2 ^ y"
    then have "(2 :: nat) ^ l < 2 ^ Suc y" using l(2) by simp
    then have "l < Suc y" by (rule power_less_imp_less_exp [rotated]) simp
    then show "l \<le> y" by simp
  qed
  have "of_nat (2 ^ l) = (0 :: u16)" if "\<not> unat num \<le> 32768"
  proof -
    have "(2 :: nat) ^ 15 < 2 ^ l" using that l(1) by simp
    then have "15 < l" by (rule power_less_imp_less_exp [rotated]) simp
    then have "(2 :: nat) ^ LENGTH(16) dvd 2 ^ l" by (intro le_imp_power_dvd) simp
    then show ?thesis by (simp only: word_of_nat_eq_0_iff)
  qed
  then show ?thesis using num(2,3) l(3) least by (simp del: of_nat_power)
qed

text \<open>The one's complement sum of 16-bit numbers, in the range 1 to 65535 unless all are 0.\<close>

definition ones_sum :: "nat list \<Rightarrow> nat" where
  "ones_sum xs = (if sum_list xs = 0 then 0 else (sum_list xs - 1) mod 65535 + 1)"

definition halves :: "u32 \<Rightarrow> nat list" where
  "halves w = [unat w mod 65536, unat w div 65536]"

lemma half_lo: "unat (w AND 0xFFFF :: u32) = unat w mod 65536"
proof -
  have "w AND 0xFFFF = take_bit 16 w" by (simp only: take_bit_eq_mask mask_eq_exp_minus_1) simp
  then show ?thesis by (simp only: unsigned_take_bit_eq) (simp add: take_bit_eq_mod)
qed

lemma ones_sum_snoc:
  assumes "x < 65536"
  shows "ones_sum (xs @ [x]) = (if ones_sum xs + x \<ge> 65536 then ones_sum xs + x - 65535 else ones_sum xs + x)"
proof (cases "sum_list xs = 0")
  case True
  then have "ones_sum (xs @ [x]) = (if x = 0 then 0 else (x - 1) mod 65535 + 1)" "ones_sum xs = 0"
    by (simp_all only: ones_sum_def sum_list_append sum_list.Cons sum_list.Nil) simp_all
  then show ?thesis using assms by (cases "x = 0") simp_all
next
  case False
  define s where "s = sum_list xs - 1"
  have s: "sum_list xs = s + 1" using False unfolding s_def by linarith
  have r: "s mod 65535 < 65535" by simp
  have "(s mod 65535 + x) mod 65535 = (if s mod 65535 + x \<ge> 65535 then s mod 65535 + x - 65535 else s mod 65535 + x)"
    if "s mod 65535 + x < 65535 + 65535"
    using that by (cases "65535 \<le> s mod 65535 + x") (simp_all only: le_mod_geq, simp_all)
  then have *: "(s + x) mod 65535 = (if s mod 65535 + x \<ge> 65535 then s mod 65535 + x - 65535 else s mod 65535 + x)"
    using r assms mod_add_left_eq [of s 65535 x] by simp
  have "ones_sum (xs @ [x]) = (s + x) mod 65535 + 1" "ones_sum xs = s mod 65535 + 1"
    by (simp_all only: ones_sum_def sum_list_append sum_list.Cons sum_list.Nil s) simp_all
  then show ?thesis unfolding * by (simp only:) auto
qed

lemma ones_sum_less: "ones_sum xs < 65536"
proof -
  have "(sum_list xs - 1) mod 65535 < 65535" by simp
  then show ?thesis by (simp add: ones_sum_def)
qed

lemma cksum_add_ones_sum:
  assumes "unat c = ones_sum xs" and "unat x < 65536"
  shows "unat (cksum_add c x) = ones_sum (xs @ [unat x])"
proof -
  have c: "unat c < 65536" using assms(1) ones_sum_less by simp
  have s: "unat (c + x) = unat c + unat x" using c assms(2) by (simp add: unat_word_ariths)
  have d: "drop_bit 16 (c + x) \<noteq> 0 \<longleftrightarrow> 65536 \<le> unat c + unat x"
  proof -
    have "unat (drop_bit 16 (c + x)) = (unat c + unat x) div 65536"
      by (simp only: unat_drop_bit_eq s) (simp add: drop_bit_eq_div)
    then show ?thesis by (simp add: word_unat_eq_iff div_eq_0_iff not_less)
  qed
  have m: "unat ((c + x) AND 0xFFFF) = (unat c + unat x) mod 65536" by (simp only: half_lo s)
  show ?thesis
  proof (cases "65536 \<le> unat c + unat x")
    case True
    have "(unat c + unat x) mod 65536 = unat c + unat x - 65536"
      using True c assms(2) by (simp add: mod_if)
    then have "unat (((c + x) AND 0xFFFF) + 1) = unat c + unat x - 65536 + 1"
      using m c assms(2) by (simp add: unat_word_ariths)
    then show ?thesis using True d assms by (simp add: cksum_add_def Let_def ones_sum_snoc)
  next
    case False
    then show ?thesis using d s assms by (simp add: cksum_add_def Let_def ones_sum_snoc)
  qed
qed

lemma half_hi: "unat (drop_bit 16 w :: u32) = unat w div 65536"
  by (simp only: unat_drop_bit_eq) (simp add: drop_bit_eq_div)

lemma half_bounds: "unat (w AND 0xFFFF :: u32) < 65536" "unat (drop_bit 16 w :: u32) < 65536"
  using unsigned_less [of w, where 'a = nat] by (simp_all add: half_lo half_hi less_mult_imp_div_less)

lemma cksum_start: "unat (0 + (w AND 0xFFFF) :: u32) = ones_sum [unat (w AND 0xFFFF)]"
  using half_bounds(1) [of w] by (auto simp: ones_sum_def)

lemma unat_down16: "unat w < 65536 \<Longrightarrow> unat (ucast (w :: u32) :: u16) = unat w"
  by (simp add: unsigned_ucast_eq take_bit_nat_eq_self)

lemma ones_sum_mod: "ones_sum xs mod 65535 = sum_list xs mod 65535"
  by (cases "sum_list xs") (simp_all only: ones_sum_def, simp_all add: mod_Suc_eq)

lemma halves_sum: "halves w = [unat (w AND 0xFFFF), unat (drop_bit 16 w)]"
  by (simp add: halves_def half_lo half_hi)

lemma halves_NOT: "sum_list (halves (NOT w)) + sum_list (halves w) = 2 * 65535"
proof -
  define x where "x = unat w"
  have "NOT w = - 1 - w" by (simp add: not_eq_complement)
  moreover have "unat (- 1 :: u32) = 2 ^ 32 - 1" by (simp add: unsigned_minus_1_eq_mask mask_eq_exp_minus_1)
  ultimately have "unat (NOT w) = 2 ^ 32 - 1 - x"
    using word_n1_ge [of w] by (simp only: unat_sub x_def)
  moreover have "x < 2 ^ 32" using unsigned_less [of w, where 'a = nat] by (simp add: x_def)
  moreover define lo hi where "lo = x mod 65536" and "hi = x div 65536"
  ultimately have "unat (NOT w) = (65535 - lo) + (65535 - hi) * 65536" "lo < 65536" "hi < 65536"
    using div_mult_mod_eq [of x 65536] by (auto simp: diff_mult_distrib less_mult_imp_div_less)
  moreover have "((65535 - lo) + (65535 - hi) * 65536) mod 65536 = 65535 - lo"
    "((65535 - lo) + (65535 - hi) * 65536) div 65536 = 65535 - hi"
    using \<open>lo < 65536\<close> by (simp_all only: mod_mult_self1 div_mult_self1) simp_all
  ultimately show ?thesis by (simp add: halves_def lo_def [symmetric] hi_def [symmetric] x_def [symmetric])
qed

lemma NOT16: "unat (NOT w :: u16) + unat w = 65535"
proof -
  have "NOT w = - 1 - w" by (simp add: not_eq_complement)
  moreover have "unat (- 1 :: u16) = 65535" by (simp add: unsigned_minus_1_eq_mask mask_eq_exp_minus_1)
  ultimately show ?thesis using word_n1_ge [of w] unat16_less [of w] by (simp only: unat_sub)
qed

lemma cksum_add_halves:
  assumes "unat c = ones_sum xs"
  shows "unat (cksum_add (cksum_add c (w AND 0xFFFF)) (drop_bit 16 w)) = ones_sum (xs @ halves w)"
  using cksum_add_ones_sum [OF cksum_add_ones_sum [OF assms half_bounds(1)] half_bounds(2)]
  by (simp add: halves_sum)

lemma cksum_add_port:
  assumes "unat c = ones_sum xs"
  shows "unat (cksum_add c (ucast p)) = ones_sum (xs @ [unat (p :: u16)])"
  using cksum_add_ones_sum [OF assms, of "ucast p"] unat16_less [of p] by (simp add: unat_ucast32)

lemma cksum_halves: "unat (cksum_add (0 + (w AND 0xFFFF)) (drop_bit 16 w)) = ones_sum (halves w)"
  using cksum_add_ones_sum [OF cksum_start half_bounds(2)] by (simp add: halves_sum)

lemma calc_ip_cksum_sum: "unat (calc_ip_cksum pub priv) = ones_sum (halves pub @ halves (NOT priv))"
  using cksum_add_halves [OF cksum_halves] by (simp add: calc_ip_cksum_def Let_def unat_down16 ones_sum_less)

lemma calc_tcp_udp_cksum_sum:
  "unat (calc_tcp_udp_cksum pub pub_port priv priv_port) =
     ones_sum (halves pub @ [unat pub_port] @ halves (NOT priv) @ [unat (NOT priv_port)])"
  using cksum_add_port [OF cksum_add_halves [OF cksum_add_port [OF cksum_halves]]]
  by (simp add: calc_tcp_udp_cksum_def Let_def unat_down16 ones_sum_less)

text \<open>
  C28: The checksum differences that a rule carries (\<open>ipa_nati_calc_ip_cksum\<close>,
  \<open>ipa_nati_calc_tcp_udp_cksum\<close>) are the one's complement sums of the public address and port and
  of the complemented private ones, although the code folds every carry back as it goes and stops
  at 16 bits; so adding the difference to a sum that holds the private address (and port) gives the
  sum that holds the public one, modulo 65535.
\<close>

theorem checksums_are_ones_complement_sums:
  "unat (calc_ip_cksum pub priv) = ones_sum (halves pub @ halves (NOT priv)) \<and>
   unat (calc_tcp_udp_cksum pub pub_port priv priv_port) =
     ones_sum (halves pub @ [unat pub_port] @ halves (NOT priv) @ [unat (NOT priv_port)]) \<and>
   (unat (calc_ip_cksum pub priv) + sum_list (halves priv)) mod 65535 = sum_list (halves pub) mod 65535 \<and>
   (unat (calc_tcp_udp_cksum pub pub_port priv priv_port) + sum_list (halves priv) + unat priv_port) mod 65535 =
     (sum_list (halves pub) + unat pub_port) mod 65535"
proof -
  have m: "(ones_sum xs + y) mod 65535 = (sum_list xs + y) mod 65535" for xs y
    by (rule mod_add_cong) (simp_all add: ones_sum_mod)
  have a: "sum_list (halves pub @ halves (NOT priv)) + sum_list (halves priv) = sum_list (halves pub) + 2 * 65535"
    using halves_NOT [of priv] by simp
  have b: "sum_list (halves pub @ [unat pub_port] @ halves (NOT priv) @ [unat (NOT priv_port)]) +
      (sum_list (halves priv) + unat priv_port) = sum_list (halves pub) + unat pub_port + 3 * 65535"
    using halves_NOT [of priv] NOT16 [of priv_port] by simp
  show ?thesis
    unfolding calc_ip_cksum_sum calc_tcp_udp_cksum_sum add.assoc [of "ones_sum _"] m a b
    by (simp only: mod_mult_self2 mod_mult_self1 simp_thms)
qed

text \<open>
  C31: \<open>GetNearest2Power\<close> gives the least power of two that is not below its argument, except that 1
  gives 2; above 32768 that power does not fit in the 16-bit result, which is then 0 and is no error.
\<close>

theorem GetNearest2Power_least:
  "GetNearest2Power num =
     (if num = 0 then None else if num = 1 then Some 2
      else if unat num \<le> 32768 then Some (of_nat (2 ^ (LEAST l. unat num \<le> 2 ^ l))) else Some 0)"
  by (rule GetNearest2Power_cases)

section \<open>Adding and deleting rules\<close>

text \<open>A kernel that grants everything, and a rule.\<close>

definition granting_kernel :: nat_kernel where
  "granting_kernel = \<lparr>max_pdn_num = 5, invalid_protocol = 0xFF, hw_v4_0 = 14, open_ipa = 3, get_hw_version = Some 14,
     alloc_nat_mem = (\<lambda>_. Some 0), malloc_meta_ok = True, malloc_ids_ok = True, open_nat_dev = 4, mmap_ok = True,
     mapped_rule = (\<lambda>_. zero_rule), mapped_index = (\<lambda>_. 0), init_nat_ok = (\<lambda>_. True), close_ok = True,
     del_nat_ok = True, lock_ok = True, unlock_ok = True, malloc_cmd_ok = True, malloc_reorder_ok = True,
     dma = dma_writes, modify_pdn_ok = (\<lambda>_ _. True)\<rparr>"

definition web_rule :: client_rule where
  "web_rule = \<lparr>cl_target_ip = 0x08080808, cl_private_ip = 0xC0A80102, cl_target_port = 443, cl_private_port = 5000,
     cl_public_port = 6000, cl_protocol = 6, cl_pdn_index = 0\<rparr>"

definition small_driver :: nat_drv where
  "small_driver = (nat_drv_start 5)\<lparr>ip4_tbls := [empty_tbl 4 2 0x0A000001 216], ipa_fd := 3, table_cnt := 1, ver := 14,
     pdns := \<lparr>pi_public_ip = 0x0A000001, pi_src_metadata = 0, pi_dst_metadata = 0\<rparr> #
             replicate 4 \<lparr>pi_public_ip = 0, pi_src_metadata = 0, pi_dst_metadata = 0\<rparr>\<rparr>"

lemma granting_works: "kernel_works granting_kernel" "kernel_grants granting_kernel"
  by (simp_all add: granting_kernel_def kernel_works_def kernel_grants_def)

lemma small_driver_inv: "drv_inv small_driver" "length (pdns small_driver) = 5" "drv_abs small_driver = empty_abs"
  using empty_inv [of 4 2 "0x0A000001" 216] empty_abs_tbl [of 4 2]
  by (auto simp: small_driver_def drv_inv_def drv_abs_def sizes_ok_def)

lemma web_rule_ok: "rule_ok 5 web_rule"
  by (simp add: rule_ok_def web_rule_def)

text \<open>
  C3: Adding and deleting rules refine the abstract table. \<open>ipa_nat_add_ipv4_rule\<close> either gives the
  rule an unused handle and puts it last on the list of its destination hash and last on the list
  of its source hash, or it fails and changes nothing, and then only because its PDN has no address
  or a list it must extend finds no free entry. \<open>ipa_nat_del_ipv4_rule\<close> takes exactly the rule of
  the handle off both lists and keeps the order of the others, and rejects every other handle.
  Every call keeps the invariant of the tables, their sizes and the rest of the driver.
\<close>

theorem nat_driver_refines:
  assumes "drv_inv g" and "kernel_works kk"
  shows "(rule_ok (length (pdns g)) c \<longrightarrow>
           (\<exists>h g'. ipa_nat_add_ipv4_rule kk 1 c g = Some ((0, Some (of_nat h)), g') \<and> h < 65536 \<and>
              spec_add (dst_slot (ver g \<ge> hw_v4_0 kk) (pdn_ip g c) (drv_slots g) c) (src_slot (drv_slots g) c) c h
                (drv_abs g) (drv_abs g') \<and>
              drv_inv g' \<and> g' = g\<lparr>ip4_tbls := ip4_tbls g'\<rparr> \<and> drv_slots g' = drv_slots g) \<or>
           ipa_nat_add_ipv4_rule kk 1 c g = Some ((- EINVAL, None), g) \<and> (pdn_ip g c = 0 \<or> no_room kk g c)) \<and>
         (\<forall>h < 65536.
           if rules_by_handle (drv_abs g) h = None then ipa_nat_del_ipv4_rule kk 1 (of_nat h) g = Some (- EINVAL, g)
           else \<exists>g'. ipa_nat_del_ipv4_rule kk 1 (of_nat h) g = Some (0, g') \<and> spec_del h (drv_abs g) (drv_abs g') \<and>
                  drv_inv g' \<and> g' = g\<lparr>ip4_tbls := ip4_tbls g'\<rparr> \<and> drv_slots g' = drv_slots g)"
  by (intro conjI impI allI add_refines del_refines assms)

theorem nat_driver_refines_witness:
  "((\<exists>h g'. ipa_nat_add_ipv4_rule granting_kernel 1 web_rule small_driver = Some ((0, Some (of_nat h)), g') \<and> h < 65536 \<and>
       spec_add (dst_slot (ver small_driver \<ge> hw_v4_0 granting_kernel) (pdn_ip small_driver web_rule) (drv_slots small_driver) web_rule)
         (src_slot (drv_slots small_driver) web_rule) web_rule h (drv_abs small_driver) (drv_abs g') \<and>
       drv_inv g' \<and> g' = small_driver\<lparr>ip4_tbls := ip4_tbls g'\<rparr> \<and> drv_slots g' = drv_slots small_driver) \<or>
     ipa_nat_add_ipv4_rule granting_kernel 1 web_rule small_driver = Some ((- EINVAL, None), small_driver) \<and>
       (pdn_ip small_driver web_rule = 0 \<or> no_room granting_kernel small_driver web_rule)) \<and>
   ipa_nat_del_ipv4_rule granting_kernel 1 3 small_driver = Some (- EINVAL, small_driver)"
proof -
  note R = nat_driver_refines [OF small_driver_inv(1) granting_works(1), unfolded small_driver_inv(2)]
  have "rules_by_handle (drv_abs small_driver) 3 = None" by (simp add: small_driver_inv(3) empty_abs_def)
  then have "ipa_nat_del_ipv4_rule granting_kernel 1 (of_nat 3) small_driver = Some (- EINVAL, small_driver)"
    using conjunct2 [OF R, THEN spec, of 3] by simp
  then show ?thesis using conjunct1 [OF R] web_rule_ok by simp
qed

lemma created_driver:
  assumes "kernel_grants kk" and "num \<noteq> 0" "unat num \<le> 20480" and "0 < pdn_count"
  shows "\<exists>g. ipa_nat_add_ipv4_tbl kk ip num (nat_drv_start pdn_count) = Some (Inr 1, g) \<and>
           drv_inv g \<and> drv_abs g = empty_abs \<and> length (pdns g) = pdn_count \<and> pi_public_ip (pdns g ! 0) = ip"
proof -
  let ?g = "nat_drv_start pdn_count"
  have g: "ip4_tbls ?g = [zero_tbl]" "table_cnt ?g = 0" "pdns ?g \<noteq> []" "length (pdns ?g) = pdn_count"
    using assms(4) by (simp_all add: nat_drv_start_def)
  from create_result [OF g(1,2,3) assms(1,2,3)] obtain n k sz g' where
    r: "ipa_nat_add_ipv4_tbl kk ip num ?g = Some (Inr 1, g')" "sizes_ok n k" "ip4_tbls g' = [empty_tbl n k ip sz]"
      "pdns g' = (pdns ?g)[0 := (pdns ?g ! 0)\<lparr>pi_public_ip := ip\<rparr>]" by blast
  have "drv_inv g'" using empty_inv [OF r(2)] r(3) by (auto simp: drv_inv_def)
  moreover have "drv_abs g' = empty_abs" using empty_abs_tbl [OF r(2)] r(3) by (simp add: drv_abs_def)
  ultimately show ?thesis using r(1,4) g(4) assms(4) by auto
qed

text \<open>
  A table that \<open>ipa_nat_add_ipv4_tbl\<close> creates on a driver that has just started, whatever the
  memory it is mapped to held, satisfies the invariant of the tables and is empty, for every number
  of entries up to 20480; the address given becomes the address of the first PDN, so that the
  first rule of that PDN is accepted or fails for want of room only.
\<close>

theorem nat_table_created:
  assumes "kernel_grants kk" and "num \<noteq> 0" "unat num \<le> 20480" and "0 < pdn_count"
  shows "\<exists>g. ipa_nat_add_ipv4_tbl kk ip num (nat_drv_start pdn_count) = Some (Inr 1, g) \<and>
           drv_inv g \<and> drv_abs g = empty_abs \<and> length (pdns g) = pdn_count \<and> pi_public_ip (pdns g ! 0) = ip"
  using created_driver assms by blast

theorem nat_table_created_witness:
  "\<exists>g. ipa_nat_add_ipv4_tbl granting_kernel 0x0A000001 100 (nat_drv_start 5) = Some (Inr 1, g) \<and>
     drv_inv g \<and> drv_abs g = empty_abs \<and> length (pdns g) = 5 \<and> pi_public_ip (pdns g ! 0) = 0x0A000001"
  by (rule nat_table_created) (simp_all add: granting_works)

text \<open>
  C7: After the table has been created, no sequence of calls that adds rules and deletes by handles of
  16 bits, as wide as those the driver gives out, whether in use or not, makes the driver read or
  write outside its arrays, as long as every rule names an entry of the PDN table and none has the
  protocol that marks dead rules, and the kernel grants the table and carries out its DMA commands. A handle is given
  out only while it is not in use, a deletion succeeds exactly on the handles in use, and the rules
  in the table are at every moment those that the answers of the driver say.
\<close>

theorem nat_driver_histories:
  assumes "kernel_works kk" and "kernel_grants kk" and "num \<noteq> 0" "unat num \<le> 20480" and "0 < pdn_count"
    and "ops_ok (rule_ok pdn_count) xs"
  shows "\<exists>g es s'. ipa_nat_add_ipv4_tbl kk ip num (nat_drv_start pdn_count) = Some (Inr 1, g) \<and>
           run_store drv_put drv_del xs (kk, g) = Some (es, s') \<and> length es = length xs \<and>
           proper es (\<lambda>_. None) \<and> drv_content s' = replay es (\<lambda>_. None) \<and> drv_inv (snd s')"
proof -
  from created_driver [OF assms(2-5)] obtain g where g: "drv_inv g" "drv_abs g = empty_abs" "length (pdns g) = pdn_count"
    "ipa_nat_add_ipv4_tbl kk ip num (nat_drv_start pdn_count) = Some (Inr 1, g)" by blast
  have "drv_ok (kk, g)" "drv_admissible (kk, g) = rule_ok pdn_count" "drv_content (kk, g) = (\<lambda>_. None)"
    using g assms(1) by (simp_all add: drv_ok_def drv_admissible_def [abs_def] drv_content_def [abs_def] empty_abs_def)
  then show ?thesis
    using drv.run_replays [of "(kk, g)" xs] assms(6) g(4) by (fastforce simp: drv_ok_def)
qed

theorem nat_driver_histories_witness:
  "\<exists>g es s'. ipa_nat_add_ipv4_tbl granting_kernel 0x0A000001 100 (nat_drv_start 5) = Some (Inr 1, g) \<and>
     run_store drv_put drv_del [Put web_rule, Remove 7, Put web_rule, Remove 1, Remove 1] (granting_kernel, g) = Some (es, s') \<and>
     length es = length [Put web_rule, Remove (7 :: u16), Put web_rule, Remove 1, Remove 1] \<and>
     proper es (\<lambda>_. None) \<and> drv_content s' = replay es (\<lambda>_. None) \<and> drv_inv (snd s')"
  by (rule nat_driver_histories) (simp_all add: granting_works web_rule_ok)

section \<open>Calls that write behind an array\<close>

text \<open>The small table has room for its first rule.\<close>

lemma small_driver_room:
  "\<exists>h g. drv_inv g \<and> h < 65536 \<and> 0 < h \<and> rules_by_handle (drv_abs g) h = Some web_rule"
proof -
  have t: "ip4_tbls small_driver = [empty_tbl 4 2 0x0A000001 216]" by (simp add: small_driver_def)
  have e: "rule_at 4 (mem (empty_tbl 4 2 0x0A000001 216)) x = zero_rule" "index_at 4 (mem (empty_tbl 4 2 0x0A000001 216)) x = 0"
    if "x \<in> heads 4" for x
    using heads_addr(2,3) [OF that] that by (simp_all add: rule_at_def index_at_def access_defs empty_tbl_def heads_def)
  have sl: "dst_slot v4 pub 4 web_rule \<in> heads 4" "src_slot 4 web_rule \<in> heads 4" for v4 pub
    using hash_heads [of 4] by (simp_all add: dst_slot_def src_slot_def)
  have f: "used_rule 4 (mem (empty_tbl 4 2 0x0A000001 216)) (dst_slot v4 pub 4 web_rule) = False"
    "entry_of 4 (mem (empty_tbl 4 2 0x0A000001 216)) (src_slot 4 web_rule) = 0" for v4 pub
    using e sl by (simp_all add: used_rule_def entry_of_def field_simps)
  have "\<not> no_room granting_kernel small_driver web_rule"
    using f by (simp add: no_room_def t table_full_def Let_def) (simp add: empty_tbl_def)
  moreover have "pdn_ip small_driver web_rule \<noteq> 0"
    by (simp add: pdn_ip_def small_driver_def web_rule_def)
  ultimately show ?thesis
    using add_refines [OF small_driver_inv(1) granting_works(1), of web_rule] web_rule_ok small_driver_inv(2)
    by (fastforce simp: spec_add_def)
qed

text \<open>
  C14: \<open>ipa_nat_del_ipv4_rule\<close> reads the low 16 bits of the handle and clears the array of handles at
  all 32. For the handle of a rule with any of the upper bits set, it first takes the rule off the
  tables, which then are those that the deletion by the handle itself leaves, and then writes behind
  the end of \<open>rule_id_array\<close>.
\<close>

theorem wide_handle_writes_outside:
  assumes "drv_inv g" and "kernel_works kk" and "h < 65536" and "rules_by_handle (drv_abs g) h \<noteq> None"
    and "0 < w" "w < 65536"
  shows "\<exists>t t2 g'. ip4_tbls g = [t] \<and> deletes_from_tables kk (ucast (of_nat (65536 * w + h) :: u32)) t t2 \<and>
    length (rule_id_array t2) \<le> unat (of_nat (65536 * w + h) - 1 :: u32) \<and>
    ipa_nat_del_ipv4_rule kk 1 (of_nat (65536 * w + h)) g = None \<and>
    ipa_nat_del_ipv4_rule kk 1 (of_nat h) g = Some (0, g') \<and>
    ip4_tbls g' = [t2\<lparr>rule_id_array := (rule_id_array t2)[h - 1 := 0]\<rparr>] \<and> rules_by_handle (drv_abs g') h = None"
proof -
  obtain t C IC where t: "ip4_tbls g = [t]" "tbl_inv t C IC" using assms(1) by (auto simp: drv_inv_def)
  note D = tbl_invD [OF t(2) refl refl]
  have "0 < h \<and> h \<le> length (rule_id_array t) \<and> rule_id_array t ! (h - 1) \<noteq> 0"
    using assms(4) t(1) by (simp add: drv_abs_def abs_tbl_def Let_def split: if_splits)
  then obtain j where j: "h = Suc j" "j < length (rule_id_array t)" "rule_id_array t ! j \<noteq> 0" by (cases h) auto
  let ?h = "of_nat (65536 * w + h) :: u32"
  have u: "unat ?h = 65536 * w + h"
    using assms(3,6) by (simp only: unsigned_of_nat) (simp add: take_bit_nat_eq_self)
  have "unat (ucast ?h :: u16) = take_bit 16 (65536 * w + h)" by (simp only: unsigned_ucast_eq u) simp
  also have "\<dots> = Suc j" using assms(3) j(1) by (simp add: take_bit_eq_mod)
  also have j16: "\<dots> = unat (of_nat (Suc j) :: u16)"
    using assms(3) j(1) by (simp only: unsigned_of_nat) (simp add: take_bit_nat_eq_self)
  finally have low: "(ucast ?h :: u16) = of_nat (Suc j)" by (rule word_unat_eq_iff [THEN iffD2])
  have u1: "unat (?h - 1) = 65536 * w + j"
    using u j(1) unat_sub [of 1 ?h] by (simp add: word_le_nat_alt)
  have len: "length (rule_id_array t) < 65536"
    using ids_okD(1) [OF D(11)] D(4) by (simp add: sizes_ok_def)
  obtain a t2 where s: "\<And>h'. (ucast h' :: u16) = of_nat (Suc j) \<Longrightarrow> nati_del_ipv4_rule kk 1 h' g =
      Option.bind (store_at (rule_id_array t) (unat (h' - 1)) 0) (\<lambda>ids. Some (0, g\<lparr>ip4_tbls := [t2\<lparr>rule_id_array := ids\<rparr>]\<rparr>))"
    "deletes_from_tables kk (of_nat (Suc j)) t t2" "rule_id_array t2 = rule_id_array t"
    using del_rule_steps [OF t(2,1) assms(2) j(2,3)] by blast
  have "store_at (rule_id_array t) (unat (?h - 1)) 0 = None" using len u1 assms(5) by (simp add: store_at_def)
  moreover have "?h \<noteq> 0" using u j(1) by (metis add_is_0 nat.distinct(1) unat_0)
  ultimately have wide: "ipa_nat_del_ipv4_rule kk 1 ?h g = None" using s(1) [OF low] by (simp add: ipa_nat_del_ipv4_rule_def)
  obtain g' where g': "ipa_nat_del_ipv4_rule kk 1 (of_nat h) g = Some (0, g')" "rules_by_handle (drv_abs g') h = None"
    using del_refines [OF assms(1-3)] assms(4) by (auto simp: spec_del_def)
  have hj: "unat (of_nat h :: u32) = Suc j" using assms(3) j(1) by (simp only: unsigned_of_nat) (simp add: take_bit_nat_eq_self)
  then have h1: "(of_nat h :: u32) \<noteq> 0" "unat (of_nat h - 1 :: u32) = j"
    using unat_sub [of 1 "of_nat h :: u32"] by (auto simp: word_le_nat_alt)
  have "(ucast (of_nat h :: u32) :: u16) = of_nat (Suc j)"
    by (rule word_unat_eq_iff [THEN iffD2]) (use hj j16 assms(3) j(1) in \<open>simp add: unsigned_ucast_eq take_bit_nat_eq_self del: of_nat_Suc\<close>)
  from s(1) [OF this] have "ipa_nat_del_ipv4_rule kk 1 (of_nat h) g
      = Some (0, g\<lparr>ip4_tbls := [t2\<lparr>rule_id_array := (rule_id_array t2)[j := 0]\<rparr>]\<rparr>)"
    using h1 j(2) s(3) by (simp add: ipa_nat_del_ipv4_rule_def store_at_def)
  then have tbl: "ip4_tbls g' = [t2\<lparr>rule_id_array := (rule_id_array t2)[h - 1 := 0]\<rparr>]" using g'(1) j(1) by auto
  show ?thesis
    by (rule exI [of _ t], rule exI [of _ t2], rule exI [of _ g'])
      (use t(1) s(2,3) low len u1 assms(5) wide g' tbl in \<open>simp del: of_nat_Suc of_nat_add of_nat_mult\<close>)
qed

theorem wide_handle_writes_outside_witness:
  "\<exists>h g t t2. rules_by_handle (drv_abs g) h = Some web_rule \<and> ip4_tbls g = [t] \<and>
     deletes_from_tables granting_kernel (ucast (of_nat (65536 * 1 + h) :: u32)) t t2 \<and>
     ipa_nat_del_ipv4_rule granting_kernel 1 (of_nat (65536 * 1 + h)) g = None"
proof -
  obtain h g where g: "drv_inv g" "h < 65536" "rules_by_handle (drv_abs g) h = Some web_rule"
    using small_driver_room by blast
  then have "rules_by_handle (drv_abs g) h \<noteq> None" by simp
  from wide_handle_writes_outside [OF g(1) granting_works(1) g(2) this, of 1] g(3) show ?thesis by fastforce
qed

text \<open>
  \<open>ipa_nat_modify_pdn\<close> rejects the indices above the number of PDNs and lets the number itself
  through: when the kernel accepts that index, the PDN table is written behind its end. Every
  smaller index replaces the entry, or leaves all as it is when the kernel refuses.
\<close>

theorem modify_pdn_bound:
  assumes "length (pdns g) = max_pdn_num kk"
  shows "ipa_nat_modify_pdn kk 1 i p g =
           (if unat i > max_pdn_num kk then Some (- EINVAL, g)
            else if \<not> modify_pdn_ok kk i p then Some (- EIO, g)
            else if unat i = max_pdn_num kk then None
            else Some (0, g\<lparr>pdns := (pdns g)[unat i := p]\<rparr>))"
  using assms by (auto simp: ipa_nat_modify_pdn_def nati_modify_pdn_def store_at_def MAX_IP4_TBLS_def)

theorem modify_pdn_bound_witness:
  "ipa_nat_modify_pdn granting_kernel 1 5 \<lparr>pi_public_ip = 1, pi_src_metadata = 0, pi_dst_metadata = 0\<rparr> small_driver = None"
proof -
  have "length (pdns small_driver) = max_pdn_num granting_kernel"
    by (simp add: small_driver_inv(2) granting_kernel_def)
  from modify_pdn_bound [OF this, of 5 "\<lparr>pi_public_ip = 1, pi_src_metadata = 0, pi_dst_metadata = 0\<rparr>"]
  show ?thesis by (simp add: granting_kernel_def)
qed

lemma query_timestamp_result:
  assumes "drv_inv g" and "lock_ok kk" "unlock_ok kk" and "0 < h" "h < 65536"
  shows "\<exists>t r. ip4_tbls g = [t] \<and>
           ipa_nat_query_timestamp kk 1 (of_nat h) g = Some (0, Some (Read32BitFieldValue (ts_proto r) TIME_STAMP_FIELD)) \<and>
           (case rules_by_handle (drv_abs g) h of
              None \<Rightarrow> r = base_tbl (mem t) ! 0
            | Some c \<Rightarrow> r \<in> set (base_tbl (mem t)) \<union> set (expn_tbl (mem t)) \<and> client_of r = c)"
proof -
  obtain t C IC where t: "ip4_tbls g = [t]" "tbl_inv t C IC" using assms(1) by (auto simp: drv_inv_def)
  define n k where nk: "n = table_entries t" "k = expn_table_entries t"
  note D = tbl_invD [OF t(2) nk]
  have len: "length (rule_id_array t) = unat n + unat k" by (rule ids_okD(1) [OF D(11)])
  have tot: "entry_total t = length (rule_id_array t)" using len nk by (simp add: entry_total_def)
  have u32: "unat (of_nat h :: u32) = h" using assms(5) by (simp add: unsigned_of_nat take_bit_nat_eq_self)
  have h16: "(ucast (of_nat h :: u32) :: u16) = of_nat h" "unat (of_nat h :: u16) = h"
    using assms(5) by (simp_all add: word_unat_eq_iff unsigned_ucast_eq unsigned_of_nat take_bit_nat_eq_self)
  have q: "ipa_nat_query_timestamp kk 1 (of_nat h) g =
      Option.bind (parse_rule_hdl t (of_nat h)) (\<lambda>(expn, tbl_entry).
        Option.bind (fetch (if expn then expn_tbl (mem t) else base_tbl (mem t)) (unat tbl_entry))
          (\<lambda>r. Some (0, Some (Read32BitFieldValue (ts_proto r) TIME_STAMP_FIELD))))"
    using t(1) D(1,2) assms(2,3) h16(1)
    by (simp add: ipa_nat_query_timestamp_def nati_query_timestamp_def MAX_IP4_TBLS_def fetch_def Let_def)
  have rb: "rules_by_handle (drv_abs g) h =
      (if h \<le> length (rule_id_array t) \<and> rule_id_array t ! (h - 1) \<noteq> 0
       then Some (rule_of_id (mem t) (rule_id_array t ! (h - 1))) else None)"
    using t(1) assms(4) by (simp add: drv_abs_def abs_tbl_def Let_def)
  have z: "0 < unat n" "length (base_tbl (mem t)) = unat n"
    using D(4,5) by (simp_all add: sizes_ok_def mem_ok_def)
  show ?thesis
  proof (cases "h \<le> length (rule_id_array t) \<and> rule_id_array t ! (h - 1) \<noteq> 0")
    case False
    then have "parse_rule_hdl t (of_nat h) = Some (False, 0)"
      using h16(2) assms(4) tot unat_0 by (auto simp: parse_rule_hdl_def fetch_def)
    moreover have "rules_by_handle (drv_abs g) h = None" using rb by (simp only: False if_False)
    ultimately show ?thesis using q t(1) z by (intro exI [of _ t]) (simp add: fetch_def)
  next
    case True
    then obtain j where j: "h = Suc j" "j < length (rule_id_array t)" "rule_id_array t ! j \<noteq> 0"
      using assms(4) by (cases h) auto
    obtain a where a: "a \<in> heads n \<union> expns n k" "rule_id_array t ! j = encode n a"
      using ids_okD(3) [OF D(11) j(2,3)] by blast
    note ad = slot_addr(1) [OF a(1)]
    have parse: "parse_rule_hdl t (of_nat h) = Some (n \<le> a, loc n a)"
      unfolding j(1) by (rule parse_handle [OF D(11,4) nk j(2) a(2,1)])
    have f: "fetch (rules_of (n \<le> a) (mem t)) (unat (loc n a)) = Some (rule_at n (mem t) a)"
      by (rule fetch_rule [OF D(5) ad])
    have "rule_at n (mem t) a \<in> set (rules_of (n \<le> a) (mem t))"
      using f by (metis fetch_def nth_mem option.distinct(1) option.inject)
    then have s: "rule_at n (mem t) a \<in> set (base_tbl (mem t)) \<union> set (expn_tbl (mem t))"
      by (auto simp: rules_of_def split: if_splits)
    have "rule_of_id (mem t) (encode n a) = client_of (rule_at n (mem t) a)"
      using encode_parts [OF addr_loc_less [OF D(4) ad]] by (simp add: rule_of_id_def rule_at_def)
    then show ?thesis using q rb True t(1) s parse f j(1) a(2)
      by (intro exI [of _ t] exI [of _ "rule_at n (mem t) a"]) (simp add: rules_of_def)
  qed
qed

text \<open>
  \<open>ipa_nat_query_timestamp\<close> answers the handle of a rule with the time stamp of the entry that
  holds that rule. A handle that is not in use is no error: the call succeeds with the time stamp
  of entry 0, which holds no rule.
\<close>

theorem query_timestamp_answers:
  assumes "drv_inv g" and "lock_ok kk" "unlock_ok kk" and "0 < h" "h < 65536"
  shows "\<exists>t r. ip4_tbls g = [t] \<and>
           ipa_nat_query_timestamp kk 1 (of_nat h) g = Some (0, Some (Read32BitFieldValue (ts_proto r) TIME_STAMP_FIELD)) \<and>
           (case rules_by_handle (drv_abs g) h of
              None \<Rightarrow> r = base_tbl (mem t) ! 0
            | Some c \<Rightarrow> r \<in> set (base_tbl (mem t)) \<union> set (expn_tbl (mem t)) \<and> client_of r = c)"
  by (rule query_timestamp_result [OF assms])

theorem query_timestamp_answers_witness:
  "\<exists>t r. ip4_tbls small_driver = [t] \<and>
     ipa_nat_query_timestamp granting_kernel 1 (of_nat 3) small_driver =
       Some (0, Some (Read32BitFieldValue (ts_proto r) TIME_STAMP_FIELD)) \<and> r = base_tbl (mem t) ! 0"
proof -
  have "rules_by_handle (drv_abs small_driver) 3 = None" by (simp add: small_driver_inv(3) empty_abs_def)
  then show ?thesis
    using query_timestamp_answers [OF small_driver_inv(1), of granting_kernel 3] by (simp add: granting_kernel_def)
qed

end
