(* ===== verification/Nat_Stack.thy ===== *)
theory Nat_Stack
  imports Ct_Listener Nat_Props
begin

text \<open>
  The NAT path of ipacm as a whole: the conntrack listener over the NAT application over the NAT
  driver library. The driver calls of \<open>Nat_App\<close> are the operations of \<open>Nat_Driver\<close>; only the
  kernel, the modem and the framework stay parameters. What is proved for the whole is that the
  rules in the tables of the hardware are the enabled connections of the cache.
\<close>

section \<open>The driver as the environment of the NAT application\<close>

text \<open>
  The device state is the driver, \<open>None\<close> once it has accessed memory outside its arrays, and the
  state \<open>'m\<close> of the modem and the framework. Without a driver the calls do nothing.
\<close>

definition drv_call :: "(nat_drv \<Rightarrow> ('r \<times> nat_drv) option) \<Rightarrow> 'r \<Rightarrow> nat_drv option \<times> 'm \<Rightarrow> 'r \<times> nat_drv option \<times> 'm" where
  "drv_call f r d =
     (case fst d of
        None \<Rightarrow> (r, d)
      | Some g \<Rightarrow> (case f g of None \<Rightarrow> (r, None, snd d) | Some (x, g') \<Rightarrow> (x, Some g', snd d)))"

definition lift_modem :: "('m \<Rightarrow> 'r \<times> 'm) \<Rightarrow> nat_drv option \<times> 'm \<Rightarrow> 'r \<times> nat_drv option \<times> 'm" where
  "lift_modem f d = (case f (snd d) of (r, m) \<Rightarrow> (r, fst d, m))"

definition client_rule_of :: "ipv4_rule \<Rightarrow> client_rule" where
  "client_rule_of r = \<lparr>cl_target_ip = r_target_ip r, cl_private_ip = r_private_ip r,
     cl_target_port = r_target_port r, cl_private_port = r_private_port r,
     cl_public_port = r_public_port r, cl_protocol = r_protocol r, cl_pdn_index = 0\<rparr>"

definition pdn_info_of :: "pdn_entry \<Rightarrow> pdn_info" where
  "pdn_info_of p = \<lparr>pi_public_ip = pdn_public_ip p, pi_src_metadata = src_metadata p, pi_dst_metadata = dst_metadata p\<rparr>"

definition tbl_result :: "(int + u32) \<Rightarrow> int \<times> u32 option" where
  "tbl_result r = (case r of Inl err \<Rightarrow> (err, None) | Inr h \<Rightarrow> (0, Some h))"

definition stack_env :: "nat_kernel \<Rightarrow> 'm nat_env \<Rightarrow> (nat_drv option \<times> 'm) nat_env" where
  "stack_env kk env =
     \<lparr>add_ipv4_tbl = (\<lambda>ip n. drv_call (\<lambda>g. map_option (\<lambda>(r, g). (tbl_result r, g))
        (ipa_nat_add_ipv4_tbl kk ip (of_nat n) g)) (0, None)),
      del_ipv4_tbl = (\<lambda>t. drv_call (ipa_nat_del_ipv4_tbl kk t) 0),
      add_ipv4_rule = (\<lambda>t r. drv_call (ipa_nat_add_ipv4_rule kk t (client_rule_of r)) (0, None)),
      del_ipv4_rule = (\<lambda>t h. drv_call (ipa_nat_del_ipv4_rule kk t h) 0),
      query_timestamp = (\<lambda>t h. drv_call (\<lambda>g. map_option (\<lambda>r. (r, g)) (ipa_nat_query_timestamp kk t h g)) (0, None)),
      modify_pdn = (\<lambda>t i p. drv_call (ipa_nat_modify_pdn kk t i (pdn_info_of p)) 0),
      generate_flt_eq = (\<lambda>r. lift_modem (generate_flt_eq env r)),
      add_offload_flt_rule = (\<lambda>r mux. lift_modem (add_offload_flt_rule env r mux)),
      del_offload_flt_rule = (\<lambda>h. lift_modem (del_offload_flt_rule env h)),
      update_timeout = map_option (\<lambda>f u d. (fst d, f u (snd d))) (update_timeout env),
      ipa_hw_v4 = ipa_hw_v4 env, alg_ports = alg_ports env\<rparr>"

section \<open>The rules the cache stands for\<close>

definition hw_rules :: "nat_entry list \<Rightarrow> (nat \<times> client_rule) list" where
  "hw_rules es = map (\<lambda>e. (unat (rule_hdl e), client_rule_of (nat_rule_of e))) (filter enabled es)"

definition in_hw :: "nat_entry list \<Rightarrow> (nat \<Rightarrow> client_rule option) \<Rightarrow> bool" where
  "in_hw es R \<longleftrightarrow> distinct (map fst (hw_rules es)) \<and> (\<forall>h c. R h = Some c \<longleftrightarrow> (h, c) \<in> set (hw_rules es))"

lemma hw_rules_simps [simp]:
  "hw_rules [] = []" "hw_rules (xs @ ys) = hw_rules xs @ hw_rules ys"
  "hw_rules (e # es) = (if enabled e then [(unat (rule_hdl e), client_rule_of (nat_rule_of e))] else []) @ hw_rules es"
  by (simp_all add: hw_rules_def)

lemma hw_rules_none: "(\<forall>e \<in> set es. \<not> enabled e) \<Longrightarrow> hw_rules es = []"
  by (simp add: hw_rules_def filter_empty_conv)

text \<open>One slot is filled, emptied or changed in a way the hardware does not see.\<close>

lemma in_hw_fill:
  assumes "in_hw (xs @ e # ys) R" and "\<not> enabled e" and "R (unat (rule_hdl e')) = None" and "enabled e'"
  shows "in_hw (xs @ e' # ys) (R(unat (rule_hdl e') := Some (client_rule_of (nat_rule_of e'))))"
proof -
  have "R (unat (rule_hdl e')) = Some c" if "(unat (rule_hdl e'), c) \<in> set (hw_rules xs) \<union> set (hw_rules ys)" for c
    using assms(1,2) that by (simp add: in_hw_def)
  then have n: "(unat (rule_hdl e'), c) \<notin> set (hw_rules xs) \<union> set (hw_rules ys)" for c
    using assms(3) by fastforce
  then have "unat (rule_hdl e') \<notin> fst ` (set (hw_rules xs) \<union> set (hw_rules ys))" by force
  then show ?thesis using assms n by (auto simp: in_hw_def image_Un)
qed

lemma in_hw_clear:
  assumes "in_hw (xs @ e # ys) R" and "enabled e" and "\<not> enabled e'"
  shows "in_hw (xs @ e' # ys) (R(unat (rule_hdl e) := None))"
  using assms by (auto simp: in_hw_def image_iff)

lemma in_hw_same:
  assumes "in_hw (xs @ e # ys) R" and "enabled e' = enabled e"
    and "enabled e \<Longrightarrow> rule_hdl e' = rule_hdl e \<and> nat_rule_of e' = nat_rule_of e"
  shows "in_hw (xs @ e' # ys) R"
  using assms by (auto simp: in_hw_def)

lemma in_hw_handle:
  assumes "in_hw (xs @ e # ys) R" and "enabled e"
  shows "R (unat (rule_hdl e)) = Some (client_rule_of (nat_rule_of e))"
  using assms by (auto simp: in_hw_def)

section \<open>The driver's calls\<close>

text \<open>A kernel that carries out what it is asked for.\<close>

definition kernel_ok :: "nat_kernel \<Rightarrow> bool" where
  "kernel_ok kk \<longleftrightarrow> kernel_works kk \<and> kernel_grants kk \<and> close_ok kk \<and> del_nat_ok kk"

definition hw :: "nat_drv \<Rightarrow> nat \<Rightarrow> client_rule option" where
  "hw g = rules_by_handle (drv_abs g)"

definition no_table :: "nat_drv \<Rightarrow> bool" where
  "no_table g \<longleftrightarrow> ip4_tbls g = [zero_tbl] \<and> table_cnt g = 0"

definition has_table :: "nat_drv \<Rightarrow> bool" where
  "has_table g \<longleftrightarrow> drv_inv g \<and> table_cnt g = 1"

lemma tables_kept:
  "g' = g\<lparr>ip4_tbls := ip4_tbls g'\<rparr> \<Longrightarrow> pdns g' = pdns g \<and> table_cnt g' = table_cnt g"
  by (metis nat_drv.ext_inject nat_drv.surjective nat_drv.update_convs(1))

lemma handle_range:
  assumes "drv_inv g" and "hw g h = Some c"
  shows "0 < h" and "h < 65536"
proof -
  obtain t C IC where t: "ip4_tbls g = [t]" "tbl_inv t C IC" using assms(1) by (auto simp: drv_inv_def)
  note D = tbl_invD [OF t(2) refl refl]
  have "0 < h \<and> h \<le> length (rule_id_array t)"
    using assms(2) t(1) by (auto simp: hw_def drv_abs_def abs_tbl_def Let_def split: if_splits)
  then show "0 < h" "h < 65536" using ids_okD(1) [OF D(11)] D(4) by (auto simp: sizes_ok_def)
qed

lemma stack_add_rule:
  assumes "kernel_ok kk" and "has_table g" and "r_protocol r \<noteq> 0xFF" and "pdns g \<noteq> []"
  shows "(\<exists>h g'. add_ipv4_rule (stack_env kk env) 1 r (Some g, m) = ((0, Some h), Some g', m) \<and>
            hw g (unat h) = None \<and> hw g' = (hw g)(unat h := Some (client_rule_of r)) \<and> has_table g' \<and> pdns g' = pdns g) \<or>
         add_ipv4_rule (stack_env kk env) 1 r (Some g, m) = ((- EINVAL, None), Some g, m)"
proof -
  have a: "drv_inv g" "kernel_works kk" using assms(1,2) by (simp_all add: kernel_ok_def has_table_def)
  have "rule_ok (length (pdns g)) (client_rule_of r)"
    using assms(3,4) by (simp add: rule_ok_def client_rule_of_def)
  from add_refines [OF a this] show ?thesis
  proof (elim disjE exE conjE)
    fix h g'
    assume r: "ipa_nat_add_ipv4_rule kk 1 (client_rule_of r) g = Some ((0, Some (of_nat h)), g')" "h < 65536"
      and sp: "spec_add (dst_slot (ver g \<ge> hw_v4_0 kk) (pdn_ip g (client_rule_of r)) (drv_slots g) (client_rule_of r))
                 (src_slot (drv_slots g) (client_rule_of r)) (client_rule_of r) h (drv_abs g) (drv_abs g')"
      and i: "drv_inv g'" "g' = g\<lparr>ip4_tbls := ip4_tbls g'\<rparr>"
    have "unat (of_nat h :: u32) = h" using r(2) by (simp add: unsigned_of_nat take_bit_nat_eq_self)
    then show ?thesis
      using r(1) sp i(1) tables_kept [OF i(2)] assms(2)
      by (intro disjI1 exI [of _ "of_nat h"] exI [of _ g'])
        (simp add: stack_env_def drv_call_def hw_def spec_add_def has_table_def)
  qed (simp_all add: stack_env_def drv_call_def)
qed

lemma stack_del_rule:
  assumes "kernel_ok kk" and "has_table g" and "hw g (unat h) = Some c"
  shows "\<exists>g'. del_ipv4_rule (stack_env kk env) 1 h (Some g, m) = (0, Some g', m) \<and>
            hw g' = (hw g)(unat h := None) \<and> has_table g' \<and> pdns g' = pdns g"
proof -
  have a: "drv_inv g" "kernel_works kk" using assms(1,2) by (simp_all add: kernel_ok_def has_table_def)
  have h: "unat h < 65536" by (rule handle_range(2) [OF a(1) assms(3)])
  from del_refines [OF a h] assms(3) obtain g' where r: "ipa_nat_del_ipv4_rule kk 1 h g = Some (0, g')"
    "spec_del (unat h) (drv_abs g) (drv_abs g')" "drv_inv g'" "g' = g\<lparr>ip4_tbls := ip4_tbls g'\<rparr>"
    by (auto simp: hw_def)
  have "hw g' = (hw g)(unat h := None)" using r(2) by (auto simp: spec_del_def hw_def)
  then show ?thesis
    using r(1,3) tables_kept [OF r(4)] assms(2) by (simp add: stack_env_def drv_call_def has_table_def)
qed

lemma stack_no_table:
  "add_ipv4_rule (stack_env kk env) 0 r (Some g, m) = ((- EINVAL, None), Some g, m)"
  "del_ipv4_rule (stack_env kk env) 0 h (Some g, m) = (- EINVAL, Some g, m)"
  "query_timestamp (stack_env kk env) 0 h (Some g, m) = ((- EINVAL, None), Some g, m)"
  by (simp_all add: stack_env_def drv_call_def ipa_nat_add_ipv4_rule_def ipa_nat_del_ipv4_rule_def ipa_nat_query_timestamp_def)

lemma stack_query:
  assumes "kernel_ok kk" and "has_table g" and "hw g (unat h) = Some c"
  shows "\<exists>ts. query_timestamp (stack_env kk env) 1 h (Some g, m) = ((0, Some ts), Some g, m)"
proof -
  have a: "drv_inv g" "lock_ok kk" "unlock_ok kk"
    using assms(1,2) by (simp_all add: kernel_ok_def kernel_works_def has_table_def)
  have "(of_nat (unat h) :: u32) = h" by simp
  then show ?thesis
    using query_timestamp_result [OF a handle_range [OF a(1) assms(3)]]
    by (auto simp: stack_env_def drv_call_def)
qed

lemma stack_create:
  assumes "kernel_ok kk" and "no_table g" and "pdns g \<noteq> []" and "0 < n" "n \<le> 20480"
  shows "\<exists>g'. add_ipv4_tbl (stack_env kk env) ip n (Some g, m) = ((0, Some 1), Some g', m) \<and> has_table g' \<and>
           hw g' = (\<lambda>_. None) \<and> length (pdns g') = length (pdns g)"
proof -
  have u: "unat (of_nat n :: u16) = n" using assms(5) by (simp add: unsigned_of_nat take_bit_nat_eq_self)
  then have n: "(of_nat n :: u16) \<noteq> 0" "unat (of_nat n :: u16) \<le> 20480" using assms(4,5) by (metis less_irrefl unat_0, simp)
  have "kernel_grants kk" using assms(1) by (simp add: kernel_ok_def)
  moreover have "ip4_tbls g = [zero_tbl]" "table_cnt g = 0" using assms(2) by (simp_all add: no_table_def)
  ultimately obtain k l sz g' where
    r: "ipa_nat_add_ipv4_tbl kk ip (of_nat n) g = Some (Inr 1, g')" "sizes_ok k l" "ip4_tbls g' = [empty_tbl k l ip sz]"
      "table_cnt g' = 1" "pdns g' = (pdns g)[0 := (pdns g ! 0)\<lparr>pi_public_ip := ip\<rparr>]"
    using create_result [of g kk "of_nat n" ip] assms(3) n by blast
  then show ?thesis
    using empty_inv [OF r(2)] empty_abs_tbl [OF r(2)]
    by (auto simp: stack_env_def drv_call_def tbl_result_def has_table_def drv_inv_def hw_def drv_abs_def empty_abs_def)
qed

lemma stack_modify_pdn:
  assumes "pdns g \<noteq> []" and "has_table g"
  shows "\<exists>ret g'. modify_pdn (stack_env kk env) 1 0 p (Some g, m) = (ret, Some g', m) \<and> has_table g' \<and> hw g' = hw g \<and>
           length (pdns g') = length (pdns g)"
  using assms by (auto simp: stack_env_def drv_call_def ipa_nat_modify_pdn_def nati_modify_pdn_def store_at_def
    MAX_IP4_TBLS_def has_table_def drv_inv_def hw_def drv_abs_def)

lemma stack_drop:
  assumes "kernel_ok kk" and "has_table g"
  shows "\<exists>g'. del_ipv4_tbl (stack_env kk env) 1 (Some g, m) = (0, Some g', m) \<and> no_table g' \<and> pdns g' = pdns g"
proof -
  obtain t C IC where t: "ip4_tbls g = [t]" "tbl_inv t C IC" using assms(2) by (auto simp: has_table_def drv_inv_def)
  have "valid t" using tbl_invD(1) [OF t(2) refl refl] .
  then show ?thesis
    using assms t(1) by (simp add: stack_env_def drv_call_def ipa_nat_del_ipv4_tbl_def nati_del_ipv4_table_def
      MAX_IP4_TBLS_def fetch_def set_tbl_def no_table_def has_table_def kernel_ok_def kernel_works_def Let_def)
qed

section \<open>One slot and its rule\<close>

text \<open>
  The cache and the driver agree: without a table nothing is enabled, and with one the rules in the
  hardware are the enabled slots. \<open>0xFF\<close> is the protocol that marks dead rules.
\<close>

definition linked :: "u32 \<Rightarrow> nat_entry list \<Rightarrow> nat_drv option \<Rightarrow> bool" where
  "linked tbl es dg \<longleftrightarrow>
     (\<exists>g. dg = Some g \<and> pdns g \<noteq> [] \<and>
        (if tbl = 0 then no_table g \<and> (\<forall>e \<in> set es. \<not> enabled e)
         else tbl = 1 \<and> has_table g \<and> in_hw es (hw g))) \<and>
     (\<forall>e \<in> set es. protocol e \<noteq> 0xFF)"

lemma linked_same:
  assumes "linked tbl (xs @ e # ys) dg" and "enabled e' = enabled e" and "protocol e' \<noteq> 0xFF"
    and "enabled e \<Longrightarrow> rule_hdl e' = rule_hdl e \<and> nat_rule_of e' = nat_rule_of e"
  shows "linked tbl (xs @ e' # ys) dg"
  using assms in_hw_same [OF _ assms(2,4)] by (auto simp: linked_def)

lemma linked_del:
  assumes kk: "kernel_ok kk" and l: "linked tbl (xs @ e # ys) (fst d)" and e: "enabled e"
    and del: "del_ipv4_rule (stack_env kk env) tbl (rule_hdl e) d = (ret, d')"
  shows "ret = 0"
    and "\<not> enabled e' \<Longrightarrow> protocol e' \<noteq> 0xFF \<Longrightarrow> linked tbl (xs @ e' # ys) (fst d')"
proof -
  obtain g m where g: "d = (Some g, m)" "pdns g \<noteq> []" "tbl = 1" "has_table g" "in_hw (xs @ e # ys) (hw g)"
    using l e by (cases d) (auto simp: linked_def split: if_splits)
  from stack_del_rule [OF kk g(4) in_hw_handle [OF g(5) e], of env m] del g(1,3)
  obtain g' where r: "ret = 0" "d' = (Some g', m)" "hw g' = (hw g)(unat (rule_hdl e) := None)" "has_table g'"
    "pdns g' = pdns g" by auto
  show "ret = 0" by (rule r(1))
  show "linked tbl (xs @ e' # ys) (fst d')" if "\<not> enabled e'" "protocol e' \<noteq> 0xFF"
    using in_hw_clear [OF g(5) e that(1)] l g(2,3) r that(2) by (simp add: linked_def)
qed

lemma linked_add:
  assumes kk: "kernel_ok kk" and l: "linked tbl (xs @ e # ys) (fst d)" and e: "\<not> enabled e"
    and p: "protocol r \<noteq> 0xFF"
    and add: "add_ipv4_rule (stack_env kk env) tbl (nat_rule_of r) d = ((ret, out), d')"
  shows "ret < 0 \<and> out = None \<and> d' = d \<or>
         (\<exists>h. ret = 0 \<and> out = Some h \<and>
            (\<forall>e'. enabled e' \<longrightarrow> rule_hdl e' = h \<longrightarrow> nat_rule_of e' = nat_rule_of r \<longrightarrow> protocol e' \<noteq> 0xFF \<longrightarrow>
               linked tbl (xs @ e' # ys) (fst d')))"
proof (cases "tbl = 0")
  case True
  obtain g m where "d = (Some g, m)" using l by (cases d) (auto simp: linked_def)
  then show ?thesis using add True by (simp add: stack_no_table EINVAL_def)
next
  case False
  then obtain g m where g: "d = (Some g, m)" "pdns g \<noteq> []" "tbl = 1" "has_table g" "in_hw (xs @ e # ys) (hw g)"
    using l by (cases d) (auto simp: linked_def split: if_splits)
  have p': "r_protocol (nat_rule_of r) \<noteq> 0xFF" using p by (simp add: nat_rule_of_def)
  from stack_add_rule [OF kk g(4) p' g(2), of env m] show ?thesis
  proof (elim disjE exE conjE)
    fix h g'
    assume a: "add_ipv4_rule (stack_env kk env) 1 (nat_rule_of r) (Some g, m) = ((0, Some h), Some g', m)"
      and h: "hw g (unat h) = None" "hw g' = (hw g)(unat h := Some (client_rule_of (nat_rule_of r)))"
      and g': "has_table g'" "pdns g' = pdns g"
    have "linked tbl (xs @ e' # ys) (Some g')"
      if "enabled e'" "rule_hdl e' = h" "nat_rule_of e' = nat_rule_of r" "protocol e' \<noteq> 0xFF" for e'
      using in_hw_fill [OF g(5) e _ that(1)] that h g(2,3) g' l by (simp add: linked_def)
    then show ?thesis using a add g(1,3) by auto
  next
    assume "add_ipv4_rule (stack_env kk env) 1 (nat_rule_of r) (Some g, m) = ((- EINVAL, None), Some g, m)"
    then show ?thesis using add g(1,3) by (auto simp: EINVAL_def)
  qed
qed

text \<open>The calls to the modem do not touch the driver.\<close>

lemma nat_rule_updates [entry_simps]:
  "nat_rule_of (e\<lparr>enabled := b\<rparr>) = nat_rule_of e" "nat_rule_of (e\<lparr>rule_hdl := h\<rparr>) = nat_rule_of e"
  "nat_rule_of (e\<lparr>rule_id := i\<rparr>) = nat_rule_of e" "nat_rule_of (e\<lparr>public_ip := q\<rparr>) = nat_rule_of e"
  "nat_rule_of (e\<lparr>timestamp := ts\<rparr>) = nat_rule_of e" "nat_rule_of (set_hdl out e) = nat_rule_of e"
  "nat_rule_of (copy_conn rule e) = nat_rule_of rule" "protocol (copy_conn rule e) = protocol rule"
  by (simp_all add: nat_rule_of_def set_hdl_def copy_conn_def split: option.split)

lemma send_conn_add_stack:
  assumes "send_conn_add (stack_env kk env) mhi mux rule (e, d) = (e', d')"
  shows "fst d' = fst d" "nat_rule_of e' = nat_rule_of e" "enabled e' = enabled e" "rule_hdl e' = rule_hdl e"
    "protocol e' = protocol e"
  using assms
  by (auto simp: send_conn_add_def AddConnection_def stack_env_def lift_modem_def nat_rule_updates
    split: if_splits prod.splits bool.splits)

lemma send_conn_del_stack:
  assumes "send_conn_del (stack_env kk env) mhi (e, d) = (e', d')"
  shows "fst d' = fst d" "nat_rule_of e' = nat_rule_of e" "enabled e' = enabled e" "rule_hdl e' = rule_hdl e"
    "protocol e' = protocol e"
  using assms
  by (auto simp: send_conn_del_def DelConnection_def stack_env_def lift_modem_def nat_rule_updates
    split: if_splits prod.splits)

lemma zero_entry_linked [simp]: "protocol zero_entry \<noteq> 0xFF" "enabled zero_entry = False"
  by (simp_all add: zero_entry_def)

lemma linked_proto: "linked tbl (xs @ e # ys) dg \<Longrightarrow> protocol e \<noteq> 0xFF"
  by (simp add: linked_def)

section \<open>The loops\<close>

definition slot_linked :: "u32 \<Rightarrow> (nat_entry \<Rightarrow> bool) \<Rightarrow>
    (nat_entry \<Rightarrow> int \<times> nat_drv option \<times> 'm \<Rightarrow> nat_entry \<times> int \<times> nat_drv option \<times> 'm) \<Rightarrow> bool" where
  "slot_linked tbl Q b \<longleftrightarrow>
     (\<forall>xs e ys n d e' n' d'. Q e \<longrightarrow> linked tbl (xs @ e # ys) (fst d) \<longrightarrow> b e (n, d) = (e', n', d') \<longrightarrow>
        linked tbl (xs @ e' # ys) (fst d'))"

lemma slot_linkedI:
  "(\<And>xs e ys n d e' n' d'. Q e \<Longrightarrow> linked tbl (xs @ e # ys) (fst d) \<Longrightarrow> b e (n, d) = (e', n', d') \<Longrightarrow>
     linked tbl (xs @ e' # ys) (fst d')) \<Longrightarrow> slot_linked tbl Q b"
  by (auto simp: slot_linked_def)

lemma run_slots_linked:
  assumes b: "slot_linked tbl Q b"
  shows "\<forall>e \<in> set es. Q e \<Longrightarrow> linked tbl (xs @ es) (fst d) \<Longrightarrow> run_slots b es (n, d) = (es', n', d') \<Longrightarrow>
    linked tbl (xs @ es') (fst d')"
proof (induction es arbitrary: xs n d es' n' d')
  case (Cons e es)
  obtain e1 n1 d1 where e1: "b e (n, d) = (e1, n1, d1)" by (metis prod_cases3)
  obtain es1 n2 d2 where r: "run_slots b es (n1, d1) = (es1, n2, d2)" by (metis prod_cases3)
  have "Q e" using Cons.prems(1) by simp
  then have "linked tbl (xs @ e1 # es) (fst d1)"
    using b Cons.prems(2) e1 unfolding slot_linked_def by blast
  then have "linked tbl ((xs @ [e1]) @ es1) (fst d2)"
    using Cons.IH [of "xs @ [e1]", OF _ _ r] Cons.prems(1) by simp
  then show ?case using Cons.prems(3) e1 r by simp
qed simp

lemma for_slots_linked:
  assumes "slot_linked tbl Q b" and "\<forall>e \<in> set (cache app). Q e" and "linked tbl (cache app) (fst (dev app))"
  shows "linked tbl (cache (for_slots b app)) (fst (dev (for_slots b app)))"
proof -
  obtain es n d where r: "run_slots b (cache app) (curCnt app, dev app) = (es, n, d)" by (metis prod_cases3)
  from run_slots_linked [OF assms(1,2) _ r, of "[]"] assms(3) show ?thesis by (simp add: for_slots_def r)
qed

text \<open>A slot that is taken out of the hardware, and one that is put into it.\<close>

lemma drop_slot_linked:
  assumes kk: "kernel_ok kk" and l: "linked tbl (xs @ e # ys) (fst d)" and e: "enabled e"
    and s: "send_conn_del (stack_env kk env) mhi (e, d) = (e1, d1)"
    and del: "del_ipv4_rule (stack_env kk env) tbl (rule_hdl e1) d1 = (ret, d')"
  shows "ret = 0" and "\<not> enabled e' \<Longrightarrow> protocol e' \<noteq> 0xFF \<Longrightarrow> linked tbl (xs @ e' # ys) (fst d')"
    and "protocol e1 \<noteq> 0xFF"
proof -
  note s' = send_conn_del_stack [OF s]
  have "linked tbl (xs @ e # ys) (fst d1)" using l s'(1) by simp
  from linked_del [OF kk this e] del s'(4)
  show "ret = 0" "\<not> enabled e' \<Longrightarrow> protocol e' \<noteq> 0xFF \<Longrightarrow> linked tbl (xs @ e' # ys) (fst d')" by simp_all
  show "protocol e1 \<noteq> 0xFF" using linked_proto [OF l] s'(5) by simp
qed

lemma put_slot_linked:
  assumes kk: "kernel_ok kk" and l: "linked tbl (xs @ e # ys) (fst d)" and e: "\<not> enabled e"
    and add: "add_ipv4_rule (stack_env kk env) tbl (nat_rule_of e) d = ((ret, out), d1)"
  shows "ret < 0 \<Longrightarrow> linked tbl (xs @ zero_entry # ys) (fst d1)"
    and "\<not> ret < 0 \<Longrightarrow> enabled e1 \<Longrightarrow> rule_hdl e1 = rule_hdl (set_hdl out e) \<Longrightarrow> nat_rule_of e1 = nat_rule_of e \<Longrightarrow>
      protocol e1 = protocol e \<Longrightarrow> send_conn_add (stack_env kk env) mhi mux rule (e1, d1) = (e', d') \<Longrightarrow>
      linked tbl (xs @ e' # ys) (fst d')"
proof -
  note p = linked_proto [OF l]
  note A = linked_add [OF kk l e p add]
  show "linked tbl (xs @ zero_entry # ys) (fst d1)" if "ret < 0"
    using A that linked_same [OF l, of zero_entry] e by auto
  assume ret: "\<not> ret < 0" and e1: "enabled e1" "rule_hdl e1 = rule_hdl (set_hdl out e)" "nat_rule_of e1 = nat_rule_of e"
      "protocol e1 = protocol e"
    and s: "send_conn_add (stack_env kk env) mhi mux rule (e1, d1) = (e', d')"
  note s' = send_conn_add_stack [OF s]
  from A ret obtain h where h: "out = Some h"
    "\<And>e'. enabled e' \<Longrightarrow> rule_hdl e' = h \<Longrightarrow> nat_rule_of e' = nat_rule_of e \<Longrightarrow> protocol e' \<noteq> 0xFF \<Longrightarrow>
       linked tbl (xs @ e' # ys) (fst d1)" by auto
  have "linked tbl (xs @ e' # ys) (fst d1)"
    by (rule h(2)) (use s' e1 h(1) p in \<open>simp_all add: set_hdl_def\<close>)
  then show "linked tbl (xs @ e' # ys) (fst d')" using s'(1) by simp
qed

lemma pwr_save_slot_linked:
  assumes kk: "kernel_ok kk"
  shows "slot_linked tbl (\<lambda>_. True) (pwr_save_slot (stack_env kk env) mhi tbl ip)"
proof (rule slot_linkedI)
  fix xs e ys n d e' n' d'
  assume l: "linked tbl (xs @ e # ys) (fst d)" and b: "pwr_save_slot (stack_env kk env) mhi tbl ip e (n, d) = (e', n', d')"
  obtain e1 d1 where s: "send_conn_del (stack_env kk env) mhi (e, d) = (e1, d1)" by (metis surj_pair)
  obtain ret d2 where del: "del_ipv4_rule (stack_env kk env) tbl (rule_hdl e1) d1 = (ret, d2)" by (metis surj_pair)
  show "linked tbl (xs @ e' # ys) (fst d')"
  proof (cases "private_ip e = ip \<and> enabled e")
    case True
    then have e: "enabled e" by simp
    note D = drop_slot_linked [OF kk l e s del]
    have "e' = e1\<lparr>enabled := False, rule_hdl := 0\<rparr>" "d' = d2" using b True s del D(1) by (simp_all add: pwr_save_slot_def)
    then show ?thesis using D(2) [of "e1\<lparr>enabled := False, rule_hdl := 0\<rparr>"] D(3) by simp
  next
    case False
    then show ?thesis using b l by (auto simp: pwr_save_slot_def split: if_splits)
  qed
qed

lemma discon_slot_linked:
  assumes kk: "kernel_ok kk"
  shows "slot_linked tbl (\<lambda>_. True) (discon_slot (stack_env kk env) mhi tbl ip)"
proof (rule slot_linkedI)
  fix xs e ys n d e' n' d'
  assume l: "linked tbl (xs @ e # ys) (fst d)" and b: "discon_slot (stack_env kk env) mhi tbl ip e (n, d) = (e', n', d')"
  obtain e1 d1 where s: "send_conn_del (stack_env kk env) mhi (e, d) = (e1, d1)" by (metis surj_pair)
  obtain ret d2 where del: "del_ipv4_rule (stack_env kk env) tbl (rule_hdl e1) d1 = (ret, d2)" by (metis surj_pair)
  show "linked tbl (xs @ e' # ys) (fst d')"
  proof (cases "private_ip e = ip \<and> enabled e")
    case True
    then have e: "enabled e" by simp
    note D = drop_slot_linked [OF kk l e s del]
    have "e' = e1\<lparr>enabled := False\<rparr>" "d' = d2" using b True s del D(1) by (simp_all add: discon_slot_def)
    then show ?thesis using D(2) [of "e1\<lparr>enabled := False\<rparr>"] D(3) by simp
  next
    case False
    then show ?thesis using b l by (auto simp: discon_slot_def split: if_splits)
  qed
qed

lemma sta_discon_slot_linked:
  assumes kk: "kernel_ok kk"
  shows "slot_linked tbl (\<lambda>_. True) (sta_discon_slot (stack_env kk env) mhi tbl ip)"
proof (rule slot_linkedI)
  fix xs e ys n d e' n' d'
  assume l: "linked tbl (xs @ e # ys) (fst d)" and b: "sta_discon_slot (stack_env kk env) mhi tbl ip e (n, d) = (e', n', d')"
  obtain e1 d1 where s: "send_conn_del (stack_env kk env) mhi (e, d) = (e1, d1)" by (metis surj_pair)
  obtain ret d2 where del: "del_ipv4_rule (stack_env kk env) tbl (rule_hdl e1) d1 = (ret, d2)" by (metis surj_pair)
  show "linked tbl (xs @ e' # ys) (fst d')"
  proof (cases "target_ip e = ip \<and> enabled e")
    case True
    then have e: "enabled e" by simp
    note D = drop_slot_linked [OF kk l e s del]
    have "e' = zero_entry" "d' = d2" using b True s del D(1) by (simp_all add: sta_discon_slot_def)
    then show ?thesis using D(2) [of "zero_entry"] D(3) by simp
  next
    case False
    then show ?thesis using b l linked_same [OF l, of zero_entry] by (auto simp: sta_discon_slot_def split: if_splits)
  qed
qed

lemma pwr_wake_slot_linked:
  assumes kk: "kernel_ok kk"
  shows "slot_linked tbl (\<lambda>_. True) (pwr_wake_slot (stack_env kk env) mhi tbl mux ip)"
proof (rule slot_linkedI)
  fix xs e ys n d e' n' d'
  assume q: "(\<lambda>_. True) e" and l: "linked tbl (xs @ e # ys) (fst d)" and b: "pwr_wake_slot (stack_env kk env) mhi tbl mux ip e (n, d) = (e', n', d')"
  obtain ret out d1 where add: "add_ipv4_rule (stack_env kk env) tbl (nat_rule_of e) d = ((ret, out), d1)"
    by (metis prod.exhaust)
  show "linked tbl (xs @ e' # ys) (fst d')"
  proof (cases "private_ip e = ip \<and> \<not> enabled e")
    case True
    with q have e: "\<not> enabled e" by simp
    note P = put_slot_linked [OF kk l e add]
    show ?thesis
    proof (cases "ret < 0")
      case True
      then show ?thesis using P(1) b \<open>private_ip e = ip \<and> \<not> enabled e\<close> add by (simp add: pwr_wake_slot_def)
    next
      case False
      define e1 where "e1 = (set_hdl out e)\<lparr>enabled := True\<rparr>"
      have s: "send_conn_add (stack_env kk env) mhi mux e1 (e1, d1) = (e', d')"
        using b False \<open>private_ip e = ip \<and> \<not> enabled e\<close> add by (auto simp: pwr_wake_slot_def e1_def entry_simps Let_def split: prod.splits if_splits)
      show ?thesis
        by (rule P(2) [OF False _ _ _ _ s]) (simp_all add: e1_def nat_rule_updates entry_simps)
    qed
  next
    case False
    then show ?thesis using b l by (auto simp: pwr_wake_slot_def)
  qed
qed

lemma restore_slot_linked:
  assumes kk: "kernel_ok kk"
  shows "slot_linked tbl (\<lambda>e. \<not> enabled e) (restore_slot (stack_env kk env) mhi tbl mux ip)"
proof (rule slot_linkedI)
  fix xs e ys n d e' n' d'
  assume q: "(\<lambda>e. \<not> enabled e) e" and l: "linked tbl (xs @ e # ys) (fst d)" and b: "restore_slot (stack_env kk env) mhi tbl mux ip e (n, d) = (e', n', d')"
  obtain ret out d1 where add: "add_ipv4_rule (stack_env kk env) tbl (nat_rule_of e) d = ((ret, out), d1)"
    by (metis prod.exhaust)
  show "linked tbl (xs @ e' # ys) (fst d')"
  proof (cases "private_ip e \<noteq> 0")
    case True
    with q have e: "\<not> enabled e" by simp
    note P = put_slot_linked [OF kk l e add]
    show ?thesis
    proof (cases "ret < 0")
      case True
      then show ?thesis using P(1) b \<open>private_ip e \<noteq> 0\<close> add by (simp add: restore_slot_def)
    next
      case False
      define e1 where "e1 = (if mhi \<and> (dst_nat e \<or> protocol e = IPPROTO_TCP) then (set_hdl out e)\<lparr>enabled := True, public_ip := ip\<rparr> else (set_hdl out e)\<lparr>enabled := True\<rparr>)"
      have s: "send_conn_add (stack_env kk env) mhi mux e1 (e1, d1) = (e', d')"
        using b False \<open>private_ip e \<noteq> 0\<close> add by (auto simp: restore_slot_def e1_def entry_simps Let_def split: prod.splits if_splits)
      show ?thesis
        by (rule P(2) [OF False _ _ _ _ s]) (simp_all add: e1_def nat_rule_updates entry_simps)
    qed
  next
    case False
    then show ?thesis using b l by (auto simp: restore_slot_def)
  qed
qed

section \<open>The operations of the NAT application\<close>

definition stack_ok :: "u32 \<Rightarrow> (nat_drv option \<times> 'm) natapp \<Rightarrow> bool" where
  "stack_ok w app \<longleftrightarrow>
     natapp_ok app \<and> 0 < length (cache app) \<and> length (cache app) \<le> 20480 \<and>
     (\<forall>t \<in> set (temp app). protocol t \<noteq> 0xFF) \<and>
     linked (nat_table_hdl app) (cache app) (fst (dev app)) \<and>
     (nat_table_hdl app \<noteq> 0 \<longrightarrow> pub_ip_addr app = w)"

lemma stack_okI:
  "stack_ok w app \<Longrightarrow> natapp_ok app' \<Longrightarrow> length (cache app') = length (cache app) \<Longrightarrow>
   \<forall>t \<in> set (temp app'). protocol t \<noteq> 0xFF \<Longrightarrow> linked (nat_table_hdl app) (cache app') (fst (dev app')) \<Longrightarrow>
   nat_table_hdl app' = nat_table_hdl app \<Longrightarrow> pub_ip_addr app' = pub_ip_addr app \<Longrightarrow> stack_ok w app'"
  by (simp add: stack_ok_def)

lemma linked_at:
  "i < length es \<Longrightarrow> linked tbl es dg \<longleftrightarrow> linked tbl (take i es @ es ! i # drop (Suc i) es) dg"
  "i < length es \<Longrightarrow> linked tbl (es[i := v]) dg \<longleftrightarrow> linked tbl (take i es @ v # drop (Suc i) es) dg"
  by (simp_all add: id_take_nth_drop [symmetric] upd_conv_take_nth_drop)

lemma for_slots_stack:
  assumes "slot_linked (nat_table_hdl app) (\<lambda>_. True) b" and "body_ok b" and "stack_ok w app"
  shows "stack_ok w (for_slots b app)"
  using assms for_slots_linked [OF assms(1)] for_slots_ok [OF assms(2)]
  by (intro stack_okI [OF assms(3)]) (simp_all add: stack_ok_def)

lemma stack_ok_pwr [simp]: "stack_ok w (app\<lparr>PwrSaveIfs := ps\<rparr>) = stack_ok w app"
  by (simp add: stack_ok_def natapp_ok_def)

lemma pwr_ops_stack:
  assumes "kernel_ok kk" and "stack_ok w app"
  shows "stack_ok w (snd (UpdatePwrSaveIf (stack_env kk env) mhi ip app))"
    and "stack_ok w (snd (ResetPwrSaveIf (stack_env kk env) mhi ip app))"
    and "stack_ok w (snd (DelEntriesOnClntDiscon (stack_env kk env) mhi ip app))"
    and "stack_ok w (snd (DelEntriesOnSTAClntDiscon (stack_env kk env) mhi ip app))"
  using assms(2)
  by (auto simp: UpdatePwrSaveIf_def ResetPwrSaveIf_def DelEntriesOnClntDiscon_def DelEntriesOnSTAClntDiscon_def Let_def
    intro!: for_slots_stack pwr_save_slot_ok pwr_wake_slot_ok discon_slot_ok sta_discon_slot_ok
      pwr_save_slot_linked pwr_wake_slot_linked discon_slot_linked sta_discon_slot_linked assms(1))

text \<open>A slot that is not in hardware is filled without telling the driver.\<close>

lemma cached_linked:
  assumes "linked tbl es dg" and "i < length es" and "\<not> enabled (es ! i)" and "\<not> enabled v" and "protocol v \<noteq> 0xFF"
  shows "linked tbl (es[i := v]) dg"
  using assms linked_same [of tbl "take i es" "es ! i" "drop (Suc i) es" dg v] by (simp add: linked_at)

lemma free_slot:
  assumes "natapp_ok app" and "first_idx slot_free (cache app) = Some cnt"
  shows "cnt < length (cache app)" and "slot_free (cache app ! cnt)" and "\<not> enabled (cache app ! cnt)"
  using first_idx_SomeD [OF assms(2)] assms(1) cache_okD(1) [of "cache app" cnt]
  by (auto simp: natapp_ok_def slot_ok_def)

lemma CacheEntry_stack:
  assumes ok: "stack_ok w app" and p: "protocol rule \<noteq> 0xFF"
  shows "stack_ok w (CacheEntry rule app)"
proof (cases "invalid_conn rule \<or> ChkForDup rule app \<or> first_idx slot_free (cache app) = None")
  case True
  then have "CacheEntry rule app = app" by (auto simp: CacheEntry_def simp del: first_idx_None_iff)
  then show ?thesis using ok by simp
next
  case False
  then obtain cnt where cnt: "first_idx slot_free (cache app) = Some cnt" by (auto simp del: first_idx_None_iff)
  have nok: "natapp_ok app" using ok by (simp add: stack_ok_def)
  note f = free_slot [OF nok cnt]
  define v where "v = (copy_conn rule ((cache app ! cnt)\<lparr>enabled := False, rule_hdl := 0\<rparr>))\<lparr>public_ip := public_ip rule\<rparr>"
  have c: "CacheEntry rule app = app\<lparr>cache := (cache app)[cnt := v], curCnt := curCnt app + 1\<rparr>"
    using False cnt unfolding CacheEntry_def v_def by simp
  have "natapp_ok (CacheEntry rule app)" using CacheEntry_spec [OF nok] by simp
  moreover have "linked (nat_table_hdl app) ((cache app)[cnt := v]) (fst (dev app))"
    using ok f p by (intro cached_linked) (simp_all add: stack_ok_def v_def entry_simps)
  ultimately show ?thesis using ok by (intro stack_okI [OF ok]) (simp_all add: c stack_ok_def)
qed

lemma AddEntry_stack:
  assumes kk: "kernel_ok kk" and ok: "stack_ok w app" and p: "protocol rule \<noteq> 0xFF"
  shows "stack_ok w (snd (AddEntry (stack_env kk env) mhi rule app))"
proof (cases "first_idx slot_free (cache app)")
  case None
  have "snd (AddEntry (stack_env kk env) mhi rule app) = app" unfolding AddEntry_def None by simp
  then show ?thesis using ok by simp
next
  case (Some cnt)
  let ?env = "stack_env kk env" and ?e = "cache app ! cnt" and ?tbl = "nat_table_hdl app"
  let ?app' = "snd (AddEntry ?env mhi rule app)"
  have nok: "natapp_ok app" and l: "linked ?tbl (cache app) (fst (dev app))" using ok by (simp_all add: stack_ok_def)
  note f = free_slot [OF nok Some]
  have nok': "natapp_ok ?app'" by (rule AddEntry_keeps [OF nok])
  have done': "stack_ok w ?app'"
    if "?app' = app\<lparr>cache := (cache app)[cnt := v], curCnt := c, dev := d\<rparr>"
      "linked ?tbl ((cache app)[cnt := v]) (fst d)" for v c d
    using that nok' ok by (intro stack_okI [OF ok]) (simp_all add: stack_ok_def)
  show ?thesis
  proof (cases "?tbl = 0 \<or> isAlgPort ?env (protocol rule) (private_port rule) \<or> isAlgPort ?env (protocol rule) (target_port rule) \<or>
      invalid_conn rule \<or> ChkForDup rule app")
    case True
    then have "?app' = app" by (auto simp: AddEntry_def)
    then show ?thesis using ok by simp
  next
    case False
    show ?thesis
    proof (cases "isPwrSaveIf (private_ip rule) app \<or> isPwrSaveIf (target_ip rule) app")
      case True
      let ?v = "copy_conn rule (?e\<lparr>enabled := False, rule_hdl := 0\<rparr>)"
      have "?app' = app\<lparr>cache := (cache app)[cnt := ?v], curCnt := curCnt app + 1, dev := dev app\<rparr>"
        using False True Some by (simp add: AddEntry_def Let_def)
      moreover have "linked ?tbl ((cache app)[cnt := ?v]) (fst (dev app))"
        using l f p by (intro cached_linked) (simp_all add: entry_simps nat_rule_updates)
      ultimately show ?thesis by (rule done')
    next
      case ps: False
      obtain ret out d where add: "add_ipv4_rule ?env ?tbl (nat_rule_of rule) (dev app) = ((ret, out), d)"
        by (metis prod.exhaust)
      note A = linked_add [OF kk l [unfolded linked_at(1) [OF f(1)]] f(3) p add]
      show ?thesis
      proof (cases "ret < 0")
        case True
        with A have "out = None" "d = dev app" by auto
        then have "?app' = app\<lparr>cache := (cache app)[cnt := ?e], curCnt := curCnt app, dev := dev app\<rparr>"
          using False ps Some add True by (simp add: AddEntry_def Let_def set_hdl_def)
        moreover have "linked ?tbl ((cache app)[cnt := ?e]) (fst (dev app))" using l by simp
        ultimately show ?thesis by (rule done')
      next
        case pos: False
        obtain e1 d1 where s: "send_conn_add ?env mhi (pub_mux_id app) rule ((set_hdl out ?e)\<lparr>enabled := True\<rparr>, d) = (e1, d1)"
          by (metis surj_pair)
        note s' = send_conn_add_stack [OF s]
        have "?app' = app\<lparr>cache := (cache app)[cnt := copy_conn rule e1], curCnt := curCnt app + 1, dev := d1\<rparr>"
          using False ps Some add pos s by (simp add: AddEntry_def Let_def)
        moreover have "linked ?tbl ((cache app)[cnt := copy_conn rule e1]) (fst d1)"
          using A pos s' p f(1) by (auto simp: linked_at(2) entry_simps nat_rule_updates set_hdl_def)
        ultimately show ?thesis by (rule done')
      qed
    qed
  qed
qed

lemma DeleteEntry_stack:
  assumes kk: "kernel_ok kk" and ok: "stack_ok w app" and free: "\<not> slot_free rule"
  shows "stack_ok w (snd (DeleteEntry (stack_env kk env) mhi rule app))"
proof (cases "first_idx (\<lambda>e. same_conn e rule) (cache app)")
  case None
  then have "snd (DeleteEntry (stack_env kk env) mhi rule app) = app" unfolding DeleteEntry_def None by simp
  then show ?thesis using ok by simp
next
  case (Some cnt)
  let ?env = "stack_env kk env" and ?e = "cache app ! cnt" and ?tbl = "nat_table_hdl app"
  have cnt: "cnt < length (cache app)" using first_idx_SomeD(1) [OF Some] .
  have l: "linked ?tbl (cache app) (fst (dev app))" using ok by (simp add: stack_ok_def)
  have d: "snd (DeleteEntry ?env mhi rule app) = app\<lparr>dev := delete_slot ?env mhi ?tbl ?e (dev app),
      cache := (cache app)[cnt := zero_entry], curCnt := curCnt app - 1\<rparr>"
    using Some by (simp add: DeleteEntry_def)
  have nok: "natapp_ok (snd (DeleteEntry ?env mhi rule app))"
    by (rule DeleteEntry_keeps [OF _ free]) (use ok in \<open>simp add: stack_ok_def\<close>)
  have "linked ?tbl ((cache app)[cnt := zero_entry]) (fst (delete_slot ?env mhi ?tbl ?e (dev app)))"
  proof (cases "enabled ?e")
    case True
    obtain e1 d1 where s: "send_conn_del ?env mhi (?e, dev app) = (e1, d1)" by (metis surj_pair)
    obtain ret d2 where del: "del_ipv4_rule ?env ?tbl (rule_hdl e1) d1 = (ret, d2)" by (metis surj_pair)
    have "delete_slot ?env mhi ?tbl ?e (dev app) = d2" using True s del by (simp add: delete_slot_def)
    then show ?thesis
      using drop_slot_linked(2) [OF kk l [unfolded linked_at(1) [OF cnt]] True s del, of zero_entry] cnt
      by (simp add: linked_at(2))
  next
    case False
    then show ?thesis using cached_linked [OF l cnt False, of zero_entry] by (simp add: delete_slot_def)
  qed
  then show ?thesis using nok ok by (intro stack_okI [OF ok]) (simp_all add: d stack_ok_def)
qed

lemma temp_stack: "stack_ok w app \<Longrightarrow> protocol v \<noteq> 0xFF \<Longrightarrow> stack_ok w (app\<lparr>temp := (temp app)[cnt := v]\<rparr>)"
  by (auto simp: stack_ok_def natapp_ok_def dest!: set_update_subset_insert [THEN subsetD])

lemma temp_ops_stack:
  assumes "stack_ok w app"
  shows "protocol e \<noteq> 0xFF \<Longrightarrow> stack_ok w (AddTempEntry env e app)" and "stack_ok w (DeleteTempEntry e app)"
  using assms by (simp_all add: AddTempEntry_def DeleteTempEntry_def temp_stack split: option.split)

lemma flush_temp_slot_stack:
  assumes kk: "kernel_ok kk" and ok: "stack_ok w app" and cnt: "cnt < length (temp app)"
  shows "stack_ok w (flush_temp_slot (stack_env kk env) mhi ip add dummy cnt app) \<and>
         length (temp (flush_temp_slot (stack_env kk env) mhi ip add dummy cnt app)) = length (temp app)"
proof -
  define t where "t = (if dummy then (temp app ! cnt)\<lparr>private_ip := public_ip (temp app ! cnt),
    private_port := public_port (temp app ! cnt)\<rparr> else temp app ! cnt)"
  have p: "protocol t \<noteq> 0xFF" using ok cnt by (simp add: t_def stack_ok_def)
  note upd = temp_stack [of w _ _ cnt]
  let ?a = "app\<lparr>temp := (temp app)[cnt := t]\<rparr>"
  obtain ret app' where a: "AddEntry (stack_env kk env) mhi t ?a = (ret, app')" by fastforce
  have "stack_ok w app'" using AddEntry_stack [OF kk upd [OF ok p] p, of env mhi] a by simp
  moreover have "temp app' = temp ?a" using AddEntry_spec [OF _ a] upd [OF ok p] by (simp add: stack_ok_def)
  ultimately show ?thesis
    using ok upd [OF \<open>stack_ok w app'\<close> zero_entry_linked(1)] upd [OF ok zero_entry_linked(1)]
    unfolding flush_temp_slot_def Let_def t_def [symmetric] a by simp
qed

lemma FlushTempEntries_stack:
  assumes kk: "kernel_ok kk" and ok: "stack_ok w app"
  shows "stack_ok w (FlushTempEntries (stack_env kk env) mhi ip add dummy app)"
proof -
  have "stack_ok w (FlushTempEntries (stack_env kk env) mhi ip add dummy app) \<and>
      length (temp (FlushTempEntries (stack_env kk env) mhi ip add dummy app)) = length (temp app)"
    unfolding FlushTempEntries_def
    by (rule fold_upt_invariant) (use ok flush_temp_slot_stack [OF kk] in \<open>fastforce+\<close>)
  then show ?thesis ..
qed

lemma timestamp_run_linked:
  assumes kk: "kernel_ok kk"
  shows "linked tbl (xs @ es) (fst d) \<Longrightarrow>
    run_slots (timestamp_slot (stack_env kk env) tbl ip) es (rt, ts, d) = (es', rt', ts', d') \<Longrightarrow>
    linked tbl (xs @ es') (fst d')"
proof (induction es arbitrary: xs rt ts d es')
  case (Cons e es)
  obtain e1 rt1 ts1 d1 where e1: "timestamp_slot (stack_env kk env) tbl ip e (rt, ts, d) = (e1, rt1, ts1, d1)"
    by (metis prod_cases4)
  obtain es1 where r: "run_slots (timestamp_slot (stack_env kk env) tbl ip) es (rt1, ts1, d1) = (es1, rt', ts', d')"
    and es': "es' = e1 # es1"
    using Cons.prems(2) e1 by (auto split: prod.splits)
  have q: "fst (snd (query_timestamp (stack_env kk env) tbl (rule_hdl e) d)) = fst d" if en: "enabled e"
  proof -
    obtain g m where g: "d = (Some g, m)" "tbl = 1" "has_table g" "in_hw (xs @ e # es) (hw g)"
      using Cons.prems(1) en by (cases d) (auto simp: linked_def split: if_splits)
    from stack_query [OF kk g(3) in_hw_handle [OF g(4) en], of env m] g(1,2) show ?thesis by auto
  qed
  have "fst d1 = fst d \<and> enabled e1 = enabled e \<and> rule_hdl e1 = rule_hdl e \<and> nat_rule_of e1 = nat_rule_of e \<and> protocol e1 = protocol e"
    using e1 q by (auto simp: timestamp_slot_def UpdateCTUdpTs_def Let_def stack_env_def nat_rule_updates
      split: prod.splits if_splits option.splits)
  then have "linked tbl ((xs @ [e1]) @ es) (fst d1)"
    using linked_same [OF Cons.prems(1) [simplified], of e1] linked_proto [of tbl xs e es] Cons.prems(1) by simp
  from Cons.IH [OF this r] show ?case by (simp add: es')
qed simp

lemma UpdateUDPTimeStamp_stack:
  assumes kk: "kernel_ok kk" and ok: "stack_ok w app"
  shows "stack_ok w (UpdateUDPTimeStamp (stack_env kk env) app)"
proof -
  obtain es rt tcp udp d where r: "run_slots (timestamp_slot (stack_env kk env) (nat_table_hdl app) (pub_ip_addr app)) (cache app)
      (False, (tcp_timeout app, udp_timeout app), dev app) = (es, rt, (tcp, udp), d)" by (metis prod.exhaust)
  have "length es = length (cache app)"
    using run_slots_rel [OF r, of "\<lambda>_ _. True"] by (simp add: list_all2_lengthD)
  moreover have "linked (nat_table_hdl app) es (fst d)"
    using timestamp_run_linked [OF kk _ r, of "[]"] ok by (simp add: stack_ok_def)
  moreover have "natapp_ok (UpdateUDPTimeStamp (stack_env kk env) app)"
    by (rule UpdateUDPTimeStamp_ok) (use ok in \<open>simp add: stack_ok_def\<close>)
  ultimately show ?thesis using ok by (auto simp: UpdateUDPTimeStamp_def r stack_ok_def)
qed

lemma AddTable_stack:
  assumes kk: "kernel_ok kk" and ok: "stack_ok w app" and hdl: "nat_table_hdl app = 0"
  shows "stack_ok ip (snd (AddTable (stack_env kk env) mhi ip mux app))"
proof -
  let ?env = "stack_env kk env"
  obtain g m where g: "dev app = (Some g, m)" "pdns g \<noteq> []" "no_table g" "\<forall>e \<in> set (cache app). \<not> enabled e"
    "\<forall>e \<in> set (cache app). protocol e \<noteq> 0xFF"
    using ok hdl by (cases "dev app") (auto simp: stack_ok_def linked_def)
  have n: "0 < length (cache app)" "length (cache app) \<le> 20480" using ok by (simp_all add: stack_ok_def)
  obtain g1 where c: "add_ipv4_tbl ?env ip (length (cache app)) (dev app) = ((0, Some 1), Some g1, m)"
    and g1: "has_table g1" "hw g1 = (\<lambda>_. None)" "pdns g1 \<noteq> []"
    using stack_create [OF kk g(3,2) n, of env ip m] g(1,2) by fastforce
  obtain g2 where md: "fst (snd (modify_pdn ?env 1 0 \<lparr>pdn_public_ip = ip, src_metadata = GenerateMetdata mux, dst_metadata = 0\<rparr>
      (Some g1, m))) = Some g2" and g2: "has_table g2" "hw g2 = hw g1" "pdns g2 \<noteq> []"
    using stack_modify_pdn [OF g1(3,1), of kk env "\<lparr>pdn_public_ip = ip, src_metadata = GenerateMetdata mux, dst_metadata = 0\<rparr>" m] g1(3)
    by fastforce
  define d where "d = (if ipa_hw_v4 ?env then snd (modify_pdn ?env 1 0
      \<lparr>pdn_public_ip = ip, src_metadata = GenerateMetdata mux, dst_metadata = 0\<rparr> (Some g1, m)) else (Some g1, m))"
  let ?a = "app\<lparr>nat_table_hdl := 1, dev := d, pub_ip_addr := ip, pub_mux_id := mux\<rparr>"
  have "in_hw (cache app) (\<lambda>_. None)" using hw_rules_none [OF g(4)] by (simp add: in_hw_def)
  then have l: "linked 1 (cache app) (fst d)"
    using g1 g2 md g(5) by (simp add: linked_def d_def)
  have a: "stack_ok ip ?a" using ok l by (simp add: stack_ok_def natapp_ok_def)
  have "linked 1 (cache (for_slots (restore_slot ?env mhi 1 mux ip) ?a))
      (fst (dev (for_slots (restore_slot ?env mhi 1 mux ip) ?a)))"
    by (rule for_slots_linked [OF restore_slot_linked [OF kk]]) (use g(4) l in simp_all)
  then have r: "stack_ok ip (for_slots (restore_slot ?env mhi 1 mux ip) ?a)"
    using a for_slots_ok [OF restore_slot_ok, of ?a ?env mhi 1 mux ip] by (intro stack_okI [OF a]) (simp_all add: stack_ok_def)
  have "snd (AddTable ?env mhi ip mux app) =
      (if ip = pub_ip_addr_pre app then for_slots (restore_slot ?env mhi 1 mux ip) ?a else ?a)"
    unfolding AddTable_def c by (simp add: Let_def d_def)
  then show ?thesis by (simp only: a r split: if_split) blast
qed

lemma disable_run:
  "run_slots (disable_slot (stack_env kk env) mhi) es (n, d) = (es', n', d') \<Longrightarrow>
   fst d' = fst d \<and> (\<forall>e \<in> set es'. \<not> enabled e) \<and> length es' = length es \<and>
   ((\<forall>e \<in> set es. protocol e \<noteq> 0xFF) \<longrightarrow> (\<forall>e \<in> set es'. protocol e \<noteq> 0xFF))"
proof (induction es arbitrary: n d es')
  case (Cons e es)
  obtain e1 d1 where s: "send_conn_del (stack_env kk env) mhi (e\<lparr>enabled := False\<rparr>, d) = (e1, d1)" by (metis surj_pair)
  have b: "disable_slot (stack_env kk env) mhi e (n, d) = (e1, n, d1)" by (simp add: disable_slot_def s)
  then obtain es1 where r: "run_slots (disable_slot (stack_env kk env) mhi) es (n, d1) = (es1, n', d')" "es' = e1 # es1"
    using Cons.prems by (auto split: prod.splits)
  show ?case using Cons.IH [OF r(1)] r(2) send_conn_del_stack [OF s] by simp
qed simp

lemma DeleteTable_stack:
  assumes kk: "kernel_ok kk" and ok: "stack_ok w app"
    and del: "DeleteTable (stack_env kk env) mhi ip app = (ret, app')"
  shows "ret = 0 \<Longrightarrow> stack_ok w' app' \<and> nat_table_hdl app' = 0" and "ret \<noteq> 0 \<Longrightarrow> app' = app \<and> (nat_table_hdl app = 0 \<or> ip \<noteq> w)"
proof -
  let ?env = "stack_env kk env"
  have "ret = 0 \<and> stack_ok w' app' \<and> nat_table_hdl app' = 0 \<or> ret \<noteq> 0 \<and> app' = app \<and> (nat_table_hdl app = 0 \<or> ip \<noteq> w)"
  proof (cases "nat_table_hdl app = 0 \<or> pub_ip_addr app \<noteq> ip")
    case True
    then show ?thesis using del ok by (auto simp: DeleteTable_def stack_ok_def split: if_splits)
  next
    case False
    then obtain g m where g: "dev app = (Some g, m)" "pdns g \<noteq> []" "nat_table_hdl app = 1" "has_table g"
      "\<forall>e \<in> set (cache app). protocol e \<noteq> 0xFF"
      using ok by (cases "dev app") (auto simp: stack_ok_def linked_def split: if_splits)
    obtain es n d where r: "run_slots (disable_slot ?env mhi) (cache app) (curCnt app, dev app) = (es, n, d)"
      by (metis prod_cases3)
    note R = disable_run [OF r]
    let ?a = "app\<lparr>cache := es, curCnt := n, dev := d\<rparr>"
    have fs: "for_slots (disable_slot ?env mhi) app = ?a" by (simp add: for_slots_def r)
    have nok: "natapp_ok ?a" using for_slots_ok [OF disable_slot_ok, of app ?env mhi] ok by (simp add: fs stack_ok_def)
    obtain m' where d: "d = (Some g, m')" using R g(1) by (cases d) simp
    obtain g' where dr: "del_ipv4_tbl ?env 1 d = (0, Some g', m')" "no_table g'" "pdns g' = pdns g"
      using stack_drop [OF kk g(4), of env m'] d by auto
    have "app' = Reset (?a\<lparr>dev := (Some g', m'), pub_ip_addr_pre := pub_ip_addr app\<rparr>)" "ret = 0"
      using del False g(3) dr(1) unfolding DeleteTable_def fs by (simp_all add: Let_def)
    then show ?thesis using nok ok R dr(2,3) g(2,5) by (auto simp: stack_ok_def Reset_def linked_def natapp_ok_def)
  qed
  then show "ret = 0 \<Longrightarrow> stack_ok w' app' \<and> nat_table_hdl app' = 0"
    "ret \<noteq> 0 \<Longrightarrow> app' = app \<and> (nat_table_hdl app = 0 \<or> ip \<noteq> w)" by auto
qed

section \<open>The whole NAT path\<close>

definition stack_envs :: "(nat_drv option \<times> 'm) nat_env \<Rightarrow> bool" where
  "stack_envs e \<longleftrightarrow> (\<exists>kk env. kernel_ok kk \<and> e = stack_env kk env)"

lemma conn_proto_live: "conn_proto rule \<Longrightarrow> protocol rule \<noteq> 0xFF"
  by (auto simp: conn_proto_def IPPROTO_TCP_def IPPROTO_UDP_def)

lemma DeleteTable_drops:
  assumes "kernel_ok kk" and "stack_ok w app"
  shows "stack_ok w' (snd (DeleteTable (stack_env kk env) mhi w app)) \<or> snd (DeleteTable (stack_env kk env) mhi w app) = app"
    and "nat_table_hdl (snd (DeleteTable (stack_env kk env) mhi w app)) = 0"
  using DeleteTable_stack(1) [OF assms prod.collapse [symmetric], where env = env and mhi = mhi and ip = w and w' = w']
    DeleteTable_stack(2) [OF assms prod.collapse [symmetric], where env = env and mhi = mhi and ip = w]
  by (cases "fst (DeleteTable (stack_env kk env) mhi w app) = 0"; simp)+

interpretation stack: nat_application stack_ok stack_envs
proof
  fix e e' :: "(nat_drv option \<times> 'a) nat_env" and app :: "(nat_drv option \<times> 'a) natapp"
    and w ip mhi mhi' mux
  assume "stack_envs e" "stack_envs e'" and ok: "stack_ok w app"
  then obtain kk env kk' env' where e: "kernel_ok kk" "e = stack_env kk env" "kernel_ok kk'" "e' = stack_env kk' env'"
    by (auto simp: stack_envs_def)
  let ?a = "snd (DeleteTable e mhi w app)"
  have "stack_ok w ?a" using DeleteTable_drops(1) [OF e(1) ok, of w env mhi] ok e(2) by auto
  then show "stack_ok ip (snd (AddTable e' mhi' ip mux ?a))"
    unfolding e(4) by (rule AddTable_stack [OF e(3)]) (use DeleteTable_drops(2) [OF e(1) ok] e(2) in simp)
next
  fix e :: "(nat_drv option \<times> 'a) nat_env" and app app' :: "(nat_drv option \<times> 'a) natapp"
    and w ip mhi ret
  assume "stack_envs e" and ok: "stack_ok w app" and d: "DeleteTable e mhi ip app = (ret, app')" "ret \<noteq> 0"
  then obtain kk env where e: "kernel_ok kk" "e = stack_env kk env" by (auto simp: stack_envs_def)
  show "stack_ok w app'" using DeleteTable_stack(2) [OF e(1) ok d [unfolded e(2)]] ok by simp
next
  fix e :: "(nat_drv option \<times> 'a) nat_env" and app app' :: "(nat_drv option \<times> 'a) natapp"
    and w ip mhi
  assume "stack_envs e" and ok: "stack_ok w app" and d: "DeleteTable e mhi ip app = (0, app')"
  then obtain kk env where e: "kernel_ok kk" "e = stack_env kk env" by (auto simp: stack_envs_def)
  show "stack_ok 0 app'" using DeleteTable_stack(1) [OF e(1) ok d [unfolded e(2)]] by simp
qed (auto simp: stack_envs_def FlushTempEntries_stack pwr_ops_stack CacheEntry_stack temp_ops_stack AddEntry_stack
  DeleteEntry_stack AddTable_stack conn_proto_live protocol_used [folded conn_proto_def])

text \<open>
  Every call of the listener, and the calls that other parts of ipacm make directly: the threads
  the offload manager starts, the rounds of the time stamp thread, and \<open>IPACM_Wlan\<close> when a client
  enters power save and when it leaves it.
\<close>

inductive stack_step :: "(nat_drv option \<times> 'm) ct_env \<Rightarrow> (nat_drv option \<times> 'm) ct_listener \<Rightarrow>
    (nat_drv option \<times> 'm) ct_listener \<Rightarrow> bool" for env where
  event: "stack_step env l (ct_event_callback env evt l)"
| neigh_add: "stack_step env l (HandleNeighIpAddrAddEvt env data l)"
| neigh_del: "stack_step env l (HandleNeighIpAddrDelEvt env ip l)"
| sta_add: "ip \<noteq> 0 \<Longrightarrow> stack_step env l (HandleSTAClientAddEvt env ip l)"
| sta_del: "ip \<noteq> 0 \<Longrightarrow> stack_step env l (HandleSTAClientDelEvt env ip l)"
| read: "stack_step env l (readConntrack env fd rs l)"
| timestamps: "stack_step env l (nat_call (\<lambda>_. UpdateUDPTimeStamp (ce_nat env)) l)"
| threads: "stack_step env l (snd (CreateConnTrackThreads env l))"
| power_save: "stack_step env l (nat_call (\<lambda>mhi app. snd (UpdatePwrSaveIf (ce_nat env) mhi ip app)) l)"
| power_wake: "stack_step env l (nat_call (\<lambda>mhi app. snd (ResetPwrSaveIf (ce_nat env) mhi ip app)) l)"

inductive stack_reachable :: "(nat_drv option \<times> 'm) ct_listener \<Rightarrow> bool" where
  start: "0 < n \<Longrightarrow> n \<le> 20480 \<Longrightarrow> 0 < pdn_count \<Longrightarrow>
    stack_reachable (ct_listener_new (Some (NatApp_new n (Some (nat_drv_start pdn_count), m) pre tcp udp ps)) ifname ip mode)"
| step: "stack_reachable l \<Longrightarrow> stack_envs (ce_nat env) \<Longrightarrow> stack_step env l l' \<Longrightarrow> stack_reachable l'"

lemma stack_new_ok:
  assumes "0 < n" "n \<le> 20480" "0 < pdn_count"
  shows "stack_ok w (NatApp_new n (Some (nat_drv_start pdn_count), m) pre tcp udp ps)"
  using NatApp_new_ok [of n "(Some (nat_drv_start pdn_count), m)" pre tcp udp ps] assms
  by (auto simp: stack_ok_def NatApp_new_def linked_def nat_drv_start_def no_table_def zero_entry_def)

lemma nat_only_keeps:
  assumes "stack_envs env"
  shows "stack.keeps (\<lambda>_. UpdateUDPTimeStamp env)" "stack.keeps (\<lambda>mhi app. snd (UpdatePwrSaveIf env mhi ip app))"
    "stack.keeps (\<lambda>mhi app. snd (ResetPwrSaveIf env mhi ip app))"
  using assms
  by (auto simp: stack.keeps_def stack_envs_def UpdateUDPTimeStamp_stack pwr_ops_stack)
    (auto simp: UpdateUDPTimeStamp_def UpdatePwrSaveIf_def ResetPwrSaveIf_def Let_def split: prod.split)

lemma stack_reachable_inv: "stack_reachable l \<Longrightarrow> listener_inv stack_ok l"
proof (induction rule: stack_reachable.induct)
  case (start n pdn_count m pre tcp udp ps ifname ip mode)
  then show ?case
    using stack_new_ok [OF start, of _ m pre tcp udp ps]
    by (auto simp: listener_inv_def ct_listener_new_def sta_count_ok_def slots_where_def NatApp_new_def)
next
  case (step l env l')
  from step.hyps(3) step.IH step.hyps(2) show ?case
    by (induction rule: stack_step.induct)
      (simp_all add: stack.ct_event_callback_inv stack.HandleNeighIpAddrAddEvt_inv stack.HandleNeighIpAddrDelEvt_inv
        stack.HandleSTAClientAddEvt_inv stack.HandleSTAClientDelEvt_inv stack.readConntrack_inv
        stack.nat_call_inv nat_only_keeps stack.create_threads_inv)
qed

section \<open>Properties\<close>

lemma linked_facts:
  assumes "linked tbl es dg"
  shows "\<exists>g. dg = Some g \<and>
    (if tbl = 0 then ip4_tbls g = [zero_tbl] \<and> (\<forall>e \<in> set es. \<not> enabled e)
     else tbl = 1 \<and> drv_inv g \<and> distinct (map rule_hdl (filter enabled es)) \<and>
       (\<forall>h c. rules_by_handle (drv_abs g) h = Some c \<longleftrightarrow>
          (\<exists>e \<in> set es. enabled e \<and> unat (rule_hdl e) = h \<and> client_rule_of (nat_rule_of e) = c)))"
proof -
  have d: "distinct (map rule_hdl (filter enabled es))" if i: "in_hw es R" for R
  proof -
    have "distinct (map fst (hw_rules es))" using i by (simp add: in_hw_def)
    moreover have "map fst (hw_rules es) = map unat (map rule_hdl (filter enabled es))" by (simp add: hw_rules_def)
    ultimately show ?thesis by (metis distinct_map)
  qed
  have m: "(h, c) \<in> set (hw_rules es) \<longleftrightarrow> (\<exists>e \<in> set es. enabled e \<and> unat (rule_hdl e) = h \<and> client_rule_of (nat_rule_of e) = c)" for h c
    by (auto simp: hw_rules_def)
  obtain g where g: "dg = Some g" "if tbl = 0 then no_table g \<and> (\<forall>e \<in> set es. \<not> enabled e)
      else tbl = 1 \<and> has_table g \<and> in_hw es (hw g)" using assms by (auto simp: linked_def)
  show ?thesis
  proof (cases "tbl = 0")
    case True
    then show ?thesis using g by (simp add: no_table_def)
  next
    case False
    then have h: "tbl = 1" "has_table g" "in_hw es (hw g)" using g(2) by simp_all
    then have "\<forall>h c. rules_by_handle (drv_abs g) h = Some c \<longleftrightarrow> (h, c) \<in> set (hw_rules es)"
      by (simp add: in_hw_def hw_def)
    then show ?thesis using g(1) h d [OF h(3)] by (simp add: has_table_def m)
  qed
qed

text \<open>
  C1: The NAT path from conntrack to the hardware. In every state that ipacm reaches from its
  start, through any sequence of conntrack messages, WAN, LAN and neighbour events, clients entering
  and leaving power save, thread starts and time stamp rounds, with a kernel that carries out what it is asked for and whatever the
  modem and the framework answer: the driver has not left its arrays; without a NAT table no cached
  connection is enabled; and with one, its public address is that of WAN, and the rules in the
  tables of the hardware are exactly the enabled connections of the cache, each under the handle its
  slot holds, with all these handles different.
\<close>

theorem nat_path_in_sync:
  assumes "stack_reachable l" and "nat_inst l = Some app"
  shows "\<exists>g m. dev app = (Some g, m) \<and>
    (if nat_table_hdl app = 0 then ip4_tbls g = [zero_tbl] \<and> (\<forall>e \<in> set (cache app). \<not> enabled e)
     else nat_table_hdl app = 1 \<and> pub_ip_addr app = wan_ipaddr l \<and> drv_inv g \<and>
       distinct (map rule_hdl (filter enabled (cache app))) \<and>
       (\<forall>h c. rules_by_handle (drv_abs g) h = Some c \<longleftrightarrow>
          (\<exists>e \<in> set (cache app). enabled e \<and> unat (rule_hdl e) = h \<and> client_rule_of (nat_rule_of e) = c)))"
proof -
  have ok: "stack_ok (wan_ipaddr l) app"
    using stack_reachable_inv [OF assms(1)] assms(2) by (simp add: listener_inv_def)
  obtain dg m where d: "dev app = (dg, m)" by fastforce
  have l: "linked (nat_table_hdl app) (cache app) dg" using ok d by (simp add: stack_ok_def)
  have w: "nat_table_hdl app \<noteq> 0 \<longrightarrow> pub_ip_addr app = wan_ipaddr l" using ok by (simp add: stack_ok_def)
  from linked_facts [OF l] obtain g where g: "dg = Some g"
    and f: "if nat_table_hdl app = 0 then ip4_tbls g = [zero_tbl] \<and> (\<forall>e \<in> set (cache app). \<not> enabled e)
     else nat_table_hdl app = 1 \<and> drv_inv g \<and> distinct (map rule_hdl (filter enabled (cache app))) \<and>
       (\<forall>h c. rules_by_handle (drv_abs g) h = Some c \<longleftrightarrow>
          (\<exists>e \<in> set (cache app). enabled e \<and> unat (rule_hdl e) = h \<and> client_rule_of (nat_rule_of e) = c))"
    by blast
  show ?thesis
  proof (cases "nat_table_hdl app = 0")
    case True
    then show ?thesis using d g f by simp
  next
    case False
    then show ?thesis using d g f w by simp
  qed
qed

text \<open>WAN comes up on an ipacm that has just started.\<close>

definition no_modem :: "unit nat_env" where
  "no_modem = \<lparr>add_ipv4_tbl = (\<lambda>_ _ d. ((0, None), d)), del_ipv4_tbl = (\<lambda>_ d. (0, d)),
     add_ipv4_rule = (\<lambda>_ _ d. ((0, None), d)), del_ipv4_rule = (\<lambda>_ _ d. (0, d)),
     query_timestamp = (\<lambda>_ _ d. ((0, None), d)), modify_pdn = (\<lambda>_ _ _ d. (0, d)),
     generate_flt_eq = (\<lambda>_ d. (False, d)), add_offload_flt_rule = (\<lambda>_ _ d. ((False, 0), d)),
     del_offload_flt_rule = (\<lambda>_ d. (False, d)), update_timeout = None, ipa_hw_v4 = True, alg_ports = [(6, 21)]\<rparr>"

definition stack_ct_env :: "(nat_drv option \<times> unit) ct_env" where
  "stack_ct_env = \<lparr>ce_nat = stack_env granting_kernel no_modem, cfg_nat_ifaces = [''wlan0''], ifname_of = (\<lambda>i. Some ''wlan0''),
     private_subnet_table = [(0xC0A80000, 0xFFFF0000)], ip_passthrough_mode = False, wan_ip = 99, pthread_ok = (\<lambda>t. True)\<rparr>"

definition stack_start :: "(nat_drv option \<times> unit) natapp" where
  "stack_start = NatApp_new 100 (Some (nat_drv_start 5), ()) 0 0 0 [0, 0]"

lemma stack_ct_env_ok: "stack_envs (ce_nat stack_ct_env)"
  by (auto simp: stack_envs_def stack_ct_env_def kernel_ok_def granting_works)
    (auto simp: granting_kernel_def intro!: exI [of _ granting_kernel] granting_works)

theorem nat_path_in_sync_witness:
  "\<exists>app g m. nat_inst (ct_event_callback stack_ct_env (HANDLE_WAN_UP wan_up_1) (ct_listener_new (Some stack_start) [] 0 Q6_WAN)) = Some app \<and>
     dev app = (Some g, m) \<and>
     (nat_table_hdl app = 0 \<or> (\<forall>h c. rules_by_handle (drv_abs g) h = Some c \<longleftrightarrow>
        (\<exists>e \<in> set (cache app). enabled e \<and> unat (rule_hdl e) = h \<and> client_rule_of (nat_rule_of e) = c)))"
proof -
  let ?l = "ct_event_callback stack_ct_env (HANDLE_WAN_UP wan_up_1) (ct_listener_new (Some stack_start) [] 0 Q6_WAN)"
  have "stack_reachable (ct_listener_new (Some stack_start) [] 0 Q6_WAN)"
    unfolding stack_start_def by (rule stack_reachable.start) simp_all
  then have r: "stack_reachable ?l" by (rule stack_reachable.step [OF _ stack_ct_env_ok stack_step.event])
  have "\<exists>app. nat_inst ?l = Some app"
    by (simp add: ct_event_callback_def CreateConnTrackThreads_def CreateNatThreads_def TriggerWANUp_def wan_up_tail_def
      ct_listener_new_def wan_up_1_def stack_ct_env_def Let_def)
  then obtain app where a: "nat_inst ?l = Some app" by blast
  from nat_path_in_sync [OF r a] obtain g m where g: "dev app = (Some g, m)"
    "nat_table_hdl app = 0 \<or> (\<forall>h c. rules_by_handle (drv_abs g) h = Some c \<longleftrightarrow>
        (\<exists>e \<in> set (cache app). enabled e \<and> unat (rule_hdl e) = h \<and> client_rule_of (nat_rule_of e) = c))"
    by (elim exE conjE) (simp split: if_splits)
  show ?thesis by (intro exI conjI) (rule a, rule g(1), rule g(2))
qed

end
