(* ===== verification/Ipa_Driver.thy ===== *)
theory Ipa_Driver
  imports Ipa_Prelude "HOL-Library.Multiset" "HOL-Library.Monad_Syntax"
begin

text \<open>
  The requests of ipacm to the IPA driver: the ioctl wrappers of \<open>IPACM_Routing.cpp\<close>,
  \<open>IPACM_Filtering.cpp\<close> and \<open>IPACM_Header.cpp\<close> that the LAN to LAN offload uses. The driver
  is a parameter, a record of one function per ioctl over a state \<open>'d\<close>; \<open>driver_ok\<close> states what
  the lemmas rely on: an accepted request changes the tables of the hardware as it says. The driver
  may refuse any request; \<open>failed\<close> then holds from there on.
\<close>

section \<open>Vocabulary of the driver\<close>

text \<open>\<open>IPA_IP_MAX\<close> stands for no address family in events and is never an index.\<close>

datatype ipa_ip_type = IPA_IP_v4 | IPA_IP_v6

datatype l2_type = IPA_HDR_L2_NONE | IPA_HDR_L2_ETHERNET_II | IPA_HDR_L2_802_3 | IPA_HDR_L2_MAX

datatype hdr_proc_type =
  IPA_HDR_PROC_NONE | IPA_HDR_PROC_ETHII_TO_ETHII | IPA_HDR_PROC_ETHII_TO_802_3 |
  IPA_HDR_PROC_802_3_TO_ETHII | IPA_HDR_PROC_802_3_TO_802_3

type_synonym mac = "u8 list"

text \<open>\<open>attrib_rest\<close> stands for the attributes that are only copied.\<close>

record rule_attrib =
  attrib_mask :: u32
  dst_mac_addr :: mac
  dst_mac_addr_mask :: mac
  attrib_rest :: "u32 list"

record rt_rule =
  rt_dst :: u32
  rt_hdr_proc_ctx_hdl :: u32
  rt_attrib :: rule_attrib
  rt_rule_hdl :: u32

record ipa_flt_rule =
  flt_ep :: u32
  add_after_hdl :: u32
  flt_rt_tbl_hdl :: u32
  flt_attrib :: rule_attrib

text \<open>An ioctl returns its return value, what it writes into the request, and the new state.\<close>

record 'd ipa_dev =
  rt_opened :: bool
  hdr_opened :: bool
  IPA_CLIENT_MAX :: u32
  IPA_FLT_MAC_DST_ADDR_ETHER_II :: u32
  IPA_FLT_MAC_DST_ADDR_802_3 :: u32
  ADD_RT_RULE :: "ipa_ip_type \<Rightarrow> string \<Rightarrow> rt_rule list \<Rightarrow> 'd \<Rightarrow> (int \<times> (nat \<Rightarrow> u32)) \<times> 'd"
  MDFY_RT_RULE :: "ipa_ip_type \<Rightarrow> rt_rule list \<Rightarrow> 'd \<Rightarrow> int \<times> 'd"
  COMMIT_RT :: "ipa_ip_type \<Rightarrow> 'd \<Rightarrow> int \<times> 'd"
  DEL_RT_RULE :: "ipa_ip_type \<Rightarrow> u32 \<Rightarrow> 'd \<Rightarrow> (int \<times> int) \<times> 'd"
  GET_RT_TBL :: "ipa_ip_type \<Rightarrow> string \<Rightarrow> 'd \<Rightarrow> (int \<times> u32) \<times> 'd"
  PUT_RT_TBL :: "u32 \<Rightarrow> 'd \<Rightarrow> int \<times> 'd"
  ADD_FLT_RULE_AFTER :: "ipa_ip_type \<Rightarrow> ipa_flt_rule \<Rightarrow> 'd \<Rightarrow> (int \<times> u32) \<times> 'd"
  DEL_FLT_RULE :: "ipa_ip_type \<Rightarrow> u32 \<Rightarrow> 'd \<Rightarrow> (int \<times> int) \<times> 'd"
  GET_HDR :: "string \<Rightarrow> 'd \<Rightarrow> (int \<times> u32) \<times> 'd"
  ADD_HDR_PROC_CTX :: "hdr_proc_type \<Rightarrow> u32 \<Rightarrow> 'd \<Rightarrow> (int \<times> u32) \<times> 'd"
  DEL_HDR_PROC_CTX :: "u32 \<Rightarrow> 'd \<Rightarrow> int \<times> 'd"

section \<open>Routing\<close>

text \<open>\<open>None\<close> when the rules are not added; the handles are those of the first \<open>num\<close> rules.\<close>

definition AddRoutingRule :: "'d ipa_dev \<Rightarrow> ipa_ip_type \<Rightarrow> string \<Rightarrow> rt_rule list \<Rightarrow> 'd \<Rightarrow> (nat \<Rightarrow> u32) option \<times> 'd" where
  "AddRoutingRule dev ip tbl rules d =
     (if \<not> rt_opened dev then (None, d)
      else if \<exists>r \<in> set rules. IPA_CLIENT_MAX dev < rt_dst r then (None, d)
      else (case ADD_RT_RULE dev ip tbl rules d of
              ((ret, hdls), d) \<Rightarrow> if ret \<noteq> 0 then (None, d) else (Some hdls, d)))"

definition ModifyRoutingRule :: "'d ipa_dev \<Rightarrow> ipa_ip_type \<Rightarrow> rt_rule list \<Rightarrow> 'd \<Rightarrow> bool \<times> 'd" where
  "ModifyRoutingRule dev ip rules d =
     (if \<not> rt_opened dev then (False, d)
      else (case MDFY_RT_RULE dev ip rules d of (ret, d) \<Rightarrow> (ret = 0, d)))"

definition CommitRouting :: "'d ipa_dev \<Rightarrow> ipa_ip_type \<Rightarrow> 'd \<Rightarrow> bool \<times> 'd" where
  "CommitRouting dev ip d =
     (if \<not> rt_opened dev then (False, d)
      else (case COMMIT_RT dev ip d of (ret, d) \<Rightarrow> (ret = 0, d)))"

text \<open>The result, and the status of the one rule in the request, which is \<open>-1\<close> at first.\<close>

definition DeleteRoutingRule :: "'d ipa_dev \<Rightarrow> ipa_ip_type \<Rightarrow> u32 \<Rightarrow> 'd \<Rightarrow> (bool \<times> int) \<times> 'd" where
  "DeleteRoutingRule dev ip hdl d =
     (if \<not> rt_opened dev then ((False, - 1), d)
      else (case DEL_RT_RULE dev ip hdl d of ((ret, status), d) \<Rightarrow> ((ret = 0, status), d)))"

text \<open>The jump to \<open>fail\<close> skips the assignment of \<open>res\<close>: a refused deletion is a success, too.\<close>

definition DeleteRoutingHdl :: "'d ipa_dev \<Rightarrow> ipa_ip_type \<Rightarrow> u32 \<Rightarrow> 'd \<Rightarrow> bool \<times> 'd" where
  "DeleteRoutingHdl dev ip hdl d = (if hdl = 0 then (True, d) else (True, snd (DeleteRoutingRule dev ip hdl d)))"

definition PutRoutingTable :: "'d ipa_dev \<Rightarrow> u32 \<Rightarrow> 'd \<Rightarrow> bool \<times> 'd" where
  "PutRoutingTable dev hdl d =
     (if \<not> rt_opened dev then (False, d)
      else (case PUT_RT_TBL dev hdl d of (ret, d) \<Rightarrow> (ret = 0, d)))"

definition GetRoutingTable :: "'d ipa_dev \<Rightarrow> ipa_ip_type \<Rightarrow> string \<Rightarrow> 'd \<Rightarrow> u32 option \<times> 'd" where
  "GetRoutingTable dev ip tbl d =
     (if \<not> rt_opened dev then (None, d)
      else (case GET_RT_TBL dev ip tbl d of
              ((ret, hdl), d) \<Rightarrow> if ret \<noteq> 0 then (None, d) else (Some hdl, snd (PutRoutingTable dev hdl d))))"

section \<open>Filtering\<close>

definition AddFilteringRuleAfter :: "'d ipa_dev \<Rightarrow> ipa_ip_type \<Rightarrow> ipa_flt_rule \<Rightarrow> 'd \<Rightarrow> u32 option \<times> 'd" where
  "AddFilteringRuleAfter dev ip rule d =
     (case ADD_FLT_RULE_AFTER dev ip rule d of ((ret, hdl), d) \<Rightarrow> if ret \<noteq> 0 then (None, d) else (Some hdl, d))"

text \<open>The first handle that cannot be deleted ends the loop.\<close>

fun DeleteFilteringHdls :: "'d ipa_dev \<Rightarrow> u32 list \<Rightarrow> ipa_ip_type \<Rightarrow> 'd \<Rightarrow> bool \<times> 'd" where
  "DeleteFilteringHdls dev [] ip d = (True, d)"
| "DeleteFilteringHdls dev (h # hs) ip d =
     (if h = 0 then DeleteFilteringHdls dev hs ip d
      else (case DEL_FLT_RULE dev ip h d of
              ((ret, status), d) \<Rightarrow>
                if ret \<noteq> 0 then (False, d)
                else if status \<noteq> 0 then (False, d)
                else DeleteFilteringHdls dev hs ip d))"

section \<open>Headers\<close>

definition GetHeaderHandle :: "'d ipa_dev \<Rightarrow> string \<Rightarrow> 'd \<Rightarrow> u32 option \<times> 'd" where
  "GetHeaderHandle dev name d =
     (if \<not> hdr_opened dev then (None, d)
      else (case GET_HDR dev name d of ((ret, hdl), d) \<Rightarrow> if ret \<noteq> 0 then (None, d) else (Some hdl, d)))"

definition AddHeaderProcCtx :: "'d ipa_dev \<Rightarrow> hdr_proc_type \<Rightarrow> u32 \<Rightarrow> 'd \<Rightarrow> u32 option \<times> 'd" where
  "AddHeaderProcCtx dev ty hdr d =
     (case ADD_HDR_PROC_CTX dev ty hdr d of ((ret, hdl), d) \<Rightarrow> if ret = 0 then (Some hdl, d) else (None, d))"

definition DeleteHeaderProcCtx :: "'d ipa_dev \<Rightarrow> u32 \<Rightarrow> 'd \<Rightarrow> bool \<times> 'd" where
  "DeleteHeaderProcCtx dev hdl d = (case DEL_HDR_PROC_CTX dev hdl d of (ret, d) \<Rightarrow> (ret = 0, d))"

section \<open>The tables of the hardware\<close>

text \<open>
  A rule in the hardware, by its address family and handle, with what it says: a routing rule
  its table, the MAC address it matches and its header processing context, a filter
  rule the MAC address.
\<close>

datatype hw_entry =
  Rt ipa_ip_type u32 string mac u32
| Flt ipa_ip_type u32 mac
| Ctx u32

definition rt_entries :: "ipa_ip_type \<Rightarrow> string \<Rightarrow> (nat \<Rightarrow> u32) \<Rightarrow> rt_rule list \<Rightarrow> hw_entry multiset" where
  "rt_entries ip tbl hdls rules =
     mset (map (\<lambda>i. Rt ip (hdls i) tbl (dst_mac_addr (rt_attrib (rules ! i))) (rt_hdr_proc_ctx_hdl (rules ! i))) [0..<length rules])"

text \<open>The laws of the three groups of requests.\<close>

type_synonym 'd hw_view = "'d \<Rightarrow> hw_entry multiset"

definition rt_laws :: "'d hw_view \<Rightarrow> ('d \<Rightarrow> bool) \<Rightarrow> 'd ipa_dev \<Rightarrow> bool" where
  "rt_laws hw failed dv \<longleftrightarrow>
     (\<forall>ip tbl rules d ret hdls d'. ADD_RT_RULE dv ip tbl rules d = ((ret, hdls), d') \<longrightarrow>
        (failed d \<or> ret \<noteq> 0 \<longrightarrow> failed d') \<and>
        (ret = 0 \<longrightarrow> hw d' = hw d + rt_entries ip tbl hdls rules \<and> (\<forall>i < length rules. hdls i \<noteq> 0))) \<and>
     (\<forall>ip h d ret status d'. DEL_RT_RULE dv ip h d = ((ret, status), d') \<longrightarrow>
        (failed d \<or> ret \<noteq> 0 \<or> status \<noteq> 0 \<longrightarrow> failed d') \<and>
        (ret = 0 \<and> status = 0 \<longrightarrow> (\<forall>tbl m c. Rt ip h tbl m c \<in># hw d \<longrightarrow> hw d' = hw d - {#Rt ip h tbl m c#}))) \<and>
     (\<forall>ip d ret d'. COMMIT_RT dv ip d = (ret, d') \<longrightarrow> (failed d \<longrightarrow> failed d') \<and> hw d' = hw d) \<and>
     (\<forall>ip tbl d r d'. GET_RT_TBL dv ip tbl d = (r, d') \<longrightarrow> (failed d \<longrightarrow> failed d') \<and> hw d' = hw d) \<and>
     (\<forall>h d ret d'. PUT_RT_TBL dv h d = (ret, d') \<longrightarrow> (failed d \<longrightarrow> failed d') \<and> hw d' = hw d)"

text \<open>A rule that is modified to what it says already is not changed.\<close>

definition mdfy_law :: "'d hw_view \<Rightarrow> ('d \<Rightarrow> bool) \<Rightarrow> 'd ipa_dev \<Rightarrow> bool" where
  "mdfy_law hw failed dv \<longleftrightarrow>
     (\<forall>ip rules d ret d'. MDFY_RT_RULE dv ip rules d = (ret, d') \<longrightarrow>
        (failed d \<longrightarrow> failed d') \<and>
        ((\<forall>r \<in> set rules. \<exists>tbl. Rt ip (rt_rule_hdl r) tbl (dst_mac_addr (rt_attrib r)) (rt_hdr_proc_ctx_hdl r) \<in># hw d) \<longrightarrow> hw d' = hw d))"

definition flt_laws :: "'d hw_view \<Rightarrow> ('d \<Rightarrow> bool) \<Rightarrow> 'd ipa_dev \<Rightarrow> bool" where
  "flt_laws hw failed dv \<longleftrightarrow>
     (\<forall>ip rule d ret h d'. ADD_FLT_RULE_AFTER dv ip rule d = ((ret, h), d') \<longrightarrow>
        (failed d \<longrightarrow> failed d') \<and>
        (if ret = 0 then hw d' = hw d + {#Flt ip h (dst_mac_addr (flt_attrib rule))#} \<and> h \<noteq> 0 else hw d' = hw d)) \<and>
     (\<forall>ip h d ret status d'. DEL_FLT_RULE dv ip h d = ((ret, status), d') \<longrightarrow>
        (failed d \<or> ret \<noteq> 0 \<or> status \<noteq> 0 \<longrightarrow> failed d') \<and>
        (ret = 0 \<and> status = 0 \<longrightarrow> (\<forall>m. Flt ip h m \<in># hw d \<longrightarrow> hw d' = hw d - {#Flt ip h m#})))"

definition hdr_laws :: "'d hw_view \<Rightarrow> ('d \<Rightarrow> bool) \<Rightarrow> 'd ipa_dev \<Rightarrow> bool" where
  "hdr_laws hw failed dv \<longleftrightarrow>
     (\<forall>n d r d'. GET_HDR dv n d = (r, d') \<longrightarrow> (failed d \<longrightarrow> failed d') \<and> hw d' = hw d) \<and>
     (\<forall>ty t d ret h d'. ADD_HDR_PROC_CTX dv ty t d = ((ret, h), d') \<longrightarrow>
        (failed d \<or> ret \<noteq> 0 \<longrightarrow> failed d') \<and> (ret = 0 \<longrightarrow> hw d' = hw d + {#Ctx h#})) \<and>
     (\<forall>h d ret d'. DEL_HDR_PROC_CTX dv h d = (ret, d') \<longrightarrow>
        (failed d \<or> ret \<noteq> 0 \<longrightarrow> failed d') \<and> (ret = 0 \<longrightarrow> Ctx h \<in># hw d \<longrightarrow> hw d' = hw d - {#Ctx h#}))"

definition driver_ok :: "'d hw_view \<Rightarrow> ('d \<Rightarrow> bool) \<Rightarrow> 'd ipa_dev \<Rightarrow> bool" where
  "driver_ok hw failed dv \<longleftrightarrow> rt_opened dv \<and> hdr_opened dv \<and> rt_laws hw failed dv \<and> mdfy_law hw failed dv \<and>
     flt_laws hw failed dv \<and> hdr_laws hw failed dv"

end
