(* ===== verification/Eth_Bridge.thy ===== *)
theory Eth_Bridge
  imports Ipa_Driver
begin

text \<open>
  The client side of the LAN to LAN offload in \<open>IPACM_Lan.cpp\<close>: the functions \<open>eth_bridge_*\<close> with
  which an interface builds and removes the rules of one client. An interface object is the
  record \<open>ipa_lan\<close> of the fields these functions read; an empty list of properties is the null
  pointer. Memory allocations succeed.
\<close>

section \<open>Interface objects\<close>

datatype if_cate = LAN_IF | WLAN_IF | WAN_IF | VIRTUAL_IF | ETH_IF | EMBMS_IF | ODU_IF | UNKNOWN_IF

record tx_prop =
  tx_ip :: ipa_ip_type
  dst_pipe :: u32
  alt_dst_pipe :: u32
  tx_attrib :: rule_attrib
  hdr_l2_type :: l2_type
  hdr_name :: string

record rx_prop =
  src_pipe :: u32
  rx_attrib :: rule_attrib

record ipa_lan =
  dev_name :: string
  ipa_if_cate :: if_cate
  m_is_guest_ap :: bool
  tx_props :: "tx_prop list"
  rx_props :: "rx_prop list"
  eth_bridge_flt_rule_offset :: "ipa_ip_type \<Rightarrow> u32"

text \<open>The environment: the driver, the WLAN mode, the interface objects by address, the length of names.\<close>

record 'd l2l_env =
  dev :: "'d ipa_dev"
  isMCC_Mode :: bool
  lans :: "nat \<Rightarrow> ipa_lan"
  IPA_RESOURCE_NAME_MAX :: nat

definition MAX_NUM_PROP :: nat where "MAX_NUM_PROP = 2"

definition each_client_rt_rule_count :: "ipa_lan \<Rightarrow> ipa_ip_type \<Rightarrow> nat" where
  "each_client_rt_rule_count lan ip = length (filter (\<lambda>tx. tx_ip tx = ip) (tx_props lan))"

section \<open>Header processing contexts\<close>

definition eth_bridge_get_hdr_proc_type :: "l2_type \<Rightarrow> l2_type \<Rightarrow> hdr_proc_type" where
  "eth_bridge_get_hdr_proc_type t1 t2 =
     (if t1 = IPA_HDR_L2_ETHERNET_II \<and> t2 = IPA_HDR_L2_ETHERNET_II then IPA_HDR_PROC_ETHII_TO_ETHII
      else if t1 = IPA_HDR_L2_ETHERNET_II \<and> t2 = IPA_HDR_L2_802_3 then IPA_HDR_PROC_ETHII_TO_802_3
      else if t1 = IPA_HDR_L2_802_3 \<and> t2 = IPA_HDR_L2_ETHERNET_II then IPA_HDR_PROC_802_3_TO_ETHII
      else if t1 = IPA_HDR_L2_802_3 \<and> t2 = IPA_HDR_L2_802_3 then IPA_HDR_PROC_802_3_TO_802_3
      else IPA_HDR_PROC_NONE)"

definition eth_bridge_get_hdr_template_hdl :: "'d l2l_env \<Rightarrow> ipa_lan \<Rightarrow> 'd \<Rightarrow> u32 option \<times> 'd" where
  "eth_bridge_get_hdr_template_hdl env lan d = GetHeaderHandle (dev env) (hdr_name (hd (tx_props lan))) d"

text \<open>
  \<open>None\<close> when the header template is not found: its handle, never written, goes to the driver.
  The result is the handle of the context, if one was added.
\<close>

definition eth_bridge_add_hdr_proc_ctx :: "'d l2l_env \<Rightarrow> ipa_lan \<Rightarrow> l2_type \<Rightarrow> 'd \<Rightarrow> (u32 option \<times> 'd) option" where
  "eth_bridge_add_hdr_proc_ctx env lan t d =
     (if tx_props lan = [] then Some (None, d)
      else (case eth_bridge_get_hdr_template_hdl env lan d of
              (None, d) \<Rightarrow> None
            | (Some hdr, d) \<Rightarrow>
                Some (AddHeaderProcCtx (dev env) (eth_bridge_get_hdr_proc_type t (hdr_l2_type (hd (tx_props lan)))) hdr d)))"

definition eth_bridge_del_hdr_proc_ctx :: "'d l2l_env \<Rightarrow> u32 \<Rightarrow> 'd \<Rightarrow> 'd" where
  "eth_bridge_del_hdr_proc_ctx env hdl d = snd (DeleteHeaderProcCtx (dev env) hdl d)"

section \<open>Routing rules\<close>

definition mac_rule_attrib :: "'d l2l_env \<Rightarrow> l2_type \<Rightarrow> mac \<Rightarrow> rule_attrib \<Rightarrow> rule_attrib" where
  "mac_rule_attrib env t mac a =
     a\<lparr>attrib_mask := attrib_mask a OR
         (if t = IPA_HDR_L2_ETHERNET_II then IPA_FLT_MAC_DST_ADDR_ETHER_II (dev env) else IPA_FLT_MAC_DST_ADDR_802_3 (dev env)),
       dst_mac_addr := mac, dst_mac_addr_mask := replicate 6 0xFF\<rparr>"

text \<open>
  The loop over the transmit properties that fills the table of at most \<open>num\<close> rules: one for each
  property of the address family. \<open>hdls\<close> are the handles of the rules to modify.
\<close>

fun rt_rules_of :: "'d l2l_env \<Rightarrow> bool \<Rightarrow> mac \<Rightarrow> u32 \<Rightarrow> l2_type \<Rightarrow> ipa_ip_type \<Rightarrow> nat \<Rightarrow> (nat \<Rightarrow> u32) \<Rightarrow> tx_prop list \<Rightarrow> rt_rule list \<Rightarrow>
    rt_rule list option" where
  "rt_rules_of env alt mac ctx t ip num hdls [] rules = Some rules"
| "rt_rules_of env alt mac ctx t ip num hdls (tx # txs) rules =
     (if tx_ip tx = ip then
        (if num \<le> length rules \<or> MAX_NUM_PROP \<le> length rules then None
         else rt_rules_of env alt mac ctx t ip num hdls txs
           (rules @ [\<lparr>rt_dst = (if alt then alt_dst_pipe tx else dst_pipe tx), rt_hdr_proc_ctx_hdl = ctx,
              rt_attrib = mac_rule_attrib env t mac (tx_attrib tx), rt_rule_hdl = hdls (length rules)\<rparr>]))
      else rt_rules_of env alt mac ctx t ip num hdls txs rules)"

text \<open>The handles of the added rules, \<open>None\<close> when no rule is added and the outputs stay as they are.\<close>

definition eth_bridge_add_rt_rule :: "'d l2l_env \<Rightarrow> ipa_lan \<Rightarrow> mac \<Rightarrow> string \<Rightarrow> u32 \<Rightarrow> l2_type \<Rightarrow> ipa_ip_type \<Rightarrow> 'd \<Rightarrow> u32 list option \<times> 'd" where
  "eth_bridge_add_rt_rule env lan mac tbl ctx t ip d =
     (case rt_rules_of env (ipa_if_cate lan = WLAN_IF \<and> isMCC_Mode env) mac ctx t ip (each_client_rt_rule_count lan ip) (\<lambda>_. - 1)
             (tx_props lan) [] of
        None \<Rightarrow> (None, d)
      | Some rules \<Rightarrow>
          (case AddRoutingRule (dev env) ip tbl rules d of
             (None, d) \<Rightarrow> (None, d)
           | (Some hdls, d) \<Rightarrow> (Some (map hdls [0..<length rules]), d)))"

definition eth_bridge_modify_rt_rule :: "'d l2l_env \<Rightarrow> ipa_lan \<Rightarrow> mac \<Rightarrow> u32 \<Rightarrow> l2_type \<Rightarrow> ipa_ip_type \<Rightarrow> u32 list \<Rightarrow> 'd \<Rightarrow> bool \<times> 'd" where
  "eth_bridge_modify_rt_rule env lan mac ctx t ip hdls d =
     (if tx_props lan = [] then (False, d)
      else if ipa_if_cate lan \<noteq> WLAN_IF then (True, d)
      else (case rt_rules_of env (isMCC_Mode env) mac ctx t ip (length hdls) (\<lambda>i. hdls ! i) (tx_props lan) [] of
              None \<Rightarrow> (False, d)
            | Some rules \<Rightarrow>
                (case ModifyRoutingRule (dev env) ip rules d of
                   (False, d) \<Rightarrow> (False, d)
                 | (True, d) \<Rightarrow> CommitRouting (dev env) ip d)))"

definition eth_bridge_del_rt_rule :: "'d l2l_env \<Rightarrow> u32 \<Rightarrow> ipa_ip_type \<Rightarrow> 'd \<Rightarrow> 'd" where
  "eth_bridge_del_rt_rule env hdl ip d = snd (DeleteRoutingHdl (dev env) ip hdl d)"

section \<open>Filter rules\<close>

text \<open>The handle of the rule, 0 when it is not added.\<close>

definition eth_bridge_add_flt_rule :: "'d l2l_env \<Rightarrow> ipa_lan \<Rightarrow> mac \<Rightarrow> u32 \<Rightarrow> ipa_ip_type \<Rightarrow> 'd \<Rightarrow> u32 \<times> 'd" where
  "eth_bridge_add_flt_rule env lan mac tbl ip d =
     (if rx_props lan = [] \<or> tx_props lan = [] then (0, d)
      else (case AddFilteringRuleAfter (dev env) ip
                   \<lparr>flt_ep = src_pipe (hd (rx_props lan)), add_after_hdl = eth_bridge_flt_rule_offset lan ip, flt_rt_tbl_hdl = tbl,
                    flt_attrib = mac_rule_attrib env (hdr_l2_type (hd (tx_props lan))) mac (rx_attrib (hd (rx_props lan)))\<rparr> d of
              (None, d) \<Rightarrow> (0, d)
            | (Some hdl, d) \<Rightarrow> (hdl, d)))"

definition eth_bridge_del_flt_rule :: "'d l2l_env \<Rightarrow> u32 \<Rightarrow> ipa_ip_type \<Rightarrow> 'd \<Rightarrow> 'd" where
  "eth_bridge_del_flt_rule env hdl ip d = snd (DeleteFilteringHdls (dev env) [hdl] ip d)"

section \<open>What the requests do\<close>

text \<open>
  \<open>moves hw failed d d' X Y\<close>: when the driver has refused nothing, the entries \<open>X\<close> of the hardware
  are replaced by \<open>Y\<close> and all others stay.
\<close>

definition moves :: "'d hw_view \<Rightarrow> ('d \<Rightarrow> bool) \<Rightarrow> 'd \<Rightarrow> 'd \<Rightarrow> hw_entry multiset \<Rightarrow> hw_entry multiset \<Rightarrow> bool" where
  "moves hw failed d d' X Y \<longleftrightarrow> (failed d \<longrightarrow> failed d') \<and> (\<not> failed d' \<longrightarrow> (\<forall>F. hw d = F + X \<longrightarrow> hw d' = F + Y))"

lemma moves_refl [simp]: "moves hw failed d d X X"
  by (simp add: moves_def)

lemma moves_trans: "moves hw failed d d' X Y \<Longrightarrow> moves hw failed d' d'' Y Z \<Longrightarrow> moves hw failed d d'' X Z"
  by (auto simp: moves_def)

lemma moves_frame: "moves hw failed d d' X Y \<Longrightarrow> moves hw failed d d' (G + X) (G + Y)"
  unfolding moves_def by (metis add.assoc)

lemma moves_frame': "moves hw failed d d' X Y \<Longrightarrow> moves hw failed d d' (X + G) (Y + G)"
  using moves_frame [of hw failed d d' X Y G] by (simp add: add.commute)

lemma moves_par: "moves hw failed d d' X Y \<Longrightarrow> moves hw failed d' d'' X' Y' \<Longrightarrow> moves hw failed d d'' (X + X') (Y + Y')"
  by (rule moves_trans [OF moves_frame' moves_frame])

lemma moves_same: "(failed d \<longrightarrow> failed d') \<Longrightarrow> hw d' = hw d \<Longrightarrow> moves hw failed d d' X X"
  by (simp add: moves_def)


lemma driver_okD:
  assumes "driver_ok hw failed dv"
  shows "rt_opened dv" "hdr_opened dv"
    and "ADD_RT_RULE dv ip tbl rules d = ((ret, hdls), d') \<Longrightarrow>
      (failed d \<or> ret \<noteq> 0 \<longrightarrow> failed d') \<and>
      (ret = 0 \<longrightarrow> hw d' = hw d + rt_entries ip tbl hdls rules \<and> (\<forall>i < length rules. hdls i \<noteq> 0))"
    and "MDFY_RT_RULE dv ip rules d = (ret, d') \<Longrightarrow> (failed d \<longrightarrow> failed d') \<and>
      ((\<forall>r \<in> set rules. \<exists>tbl. Rt ip (rt_rule_hdl r) tbl (dst_mac_addr (rt_attrib r)) (rt_hdr_proc_ctx_hdl r) \<in># hw d) \<longrightarrow> hw d' = hw d)"
    and "COMMIT_RT dv ip d = (ret, d') \<Longrightarrow> (failed d \<longrightarrow> failed d') \<and> hw d' = hw d"
    and "DEL_RT_RULE dv ip h d = ((ret, st), d') \<Longrightarrow> (failed d \<or> ret \<noteq> 0 \<or> st \<noteq> 0 \<longrightarrow> failed d') \<and>
      (ret = 0 \<and> st = 0 \<longrightarrow> (\<forall>tbl m c. Rt ip h tbl m c \<in># hw d \<longrightarrow> hw d' = hw d - {#Rt ip h tbl m c#}))"
    and "GET_RT_TBL dv ip tbl d = (r, d') \<Longrightarrow> (failed d \<longrightarrow> failed d') \<and> hw d' = hw d"
    and "PUT_RT_TBL dv h d = (ret, d') \<Longrightarrow> (failed d \<longrightarrow> failed d') \<and> hw d' = hw d"
    and "ADD_FLT_RULE_AFTER dv ip rule d = ((ret, h), d') \<Longrightarrow> (failed d \<longrightarrow> failed d') \<and>
      (if ret = 0 then hw d' = hw d + {#Flt ip h (dst_mac_addr (flt_attrib rule))#} \<and> h \<noteq> 0 else hw d' = hw d)"
    and "DEL_FLT_RULE dv ip h d = ((ret, st), d') \<Longrightarrow> (failed d \<or> ret \<noteq> 0 \<or> st \<noteq> 0 \<longrightarrow> failed d') \<and>
      (ret = 0 \<and> st = 0 \<longrightarrow> (\<forall>m. Flt ip h m \<in># hw d \<longrightarrow> hw d' = hw d - {#Flt ip h m#}))"
    and "GET_HDR dv n d = (r, d') \<Longrightarrow> (failed d \<longrightarrow> failed d') \<and> hw d' = hw d"
    and "ADD_HDR_PROC_CTX dv ty t d = ((ret, h), d') \<Longrightarrow>
      (failed d \<or> ret \<noteq> 0 \<longrightarrow> failed d') \<and> (ret = 0 \<longrightarrow> hw d' = hw d + {#Ctx h#})"
    and "DEL_HDR_PROC_CTX dv h d = (ret, d') \<Longrightarrow>
      (failed d \<or> ret \<noteq> 0 \<longrightarrow> failed d') \<and> (ret = 0 \<longrightarrow> Ctx h \<in># hw d \<longrightarrow> hw d' = hw d - {#Ctx h#})"
proof -
  have R: "rt_opened dv" "hdr_opened dv" "rt_laws hw failed dv" "mdfy_law hw failed dv" "flt_laws hw failed dv"
    "hdr_laws hw failed dv" using assms by (simp_all add: driver_ok_def)
  show "rt_opened dv" "hdr_opened dv" by fact+
  show "ADD_RT_RULE dv ip tbl rules d = ((ret, hdls), d') \<Longrightarrow>
      (failed d \<or> ret \<noteq> 0 \<longrightarrow> failed d') \<and>
      (ret = 0 \<longrightarrow> hw d' = hw d + rt_entries ip tbl hdls rules \<and> (\<forall>i < length rules. hdls i \<noteq> 0))"
    using R(3) [unfolded rt_laws_def, THEN conjunct1] by blast
  show "MDFY_RT_RULE dv ip rules d = (ret, d') \<Longrightarrow> (failed d \<longrightarrow> failed d') \<and>
      ((\<forall>r \<in> set rules. \<exists>tbl. Rt ip (rt_rule_hdl r) tbl (dst_mac_addr (rt_attrib r)) (rt_hdr_proc_ctx_hdl r) \<in># hw d) \<longrightarrow> hw d' = hw d)"
    using R(4) [unfolded mdfy_law_def] by blast
  show "COMMIT_RT dv ip d = (ret, d') \<Longrightarrow> (failed d \<longrightarrow> failed d') \<and> hw d' = hw d"
    using R(3) [unfolded rt_laws_def, THEN conjunct2, THEN conjunct2, THEN conjunct1] by blast
  show "DEL_RT_RULE dv ip h d = ((ret, st), d') \<Longrightarrow> (failed d \<or> ret \<noteq> 0 \<or> st \<noteq> 0 \<longrightarrow> failed d') \<and>
      (ret = 0 \<and> st = 0 \<longrightarrow> (\<forall>tbl m c. Rt ip h tbl m c \<in># hw d \<longrightarrow> hw d' = hw d - {#Rt ip h tbl m c#}))"
    using R(3) [unfolded rt_laws_def, THEN conjunct2, THEN conjunct1] by blast
  show "GET_RT_TBL dv ip tbl d = (r, d') \<Longrightarrow> (failed d \<longrightarrow> failed d') \<and> hw d' = hw d"
    using R(3) [unfolded rt_laws_def, THEN conjunct2, THEN conjunct2, THEN conjunct2, THEN conjunct1] by blast
  show "PUT_RT_TBL dv h d = (ret, d') \<Longrightarrow> (failed d \<longrightarrow> failed d') \<and> hw d' = hw d"
    using R(3) [unfolded rt_laws_def, THEN conjunct2, THEN conjunct2, THEN conjunct2, THEN conjunct2] by blast
  show "ADD_FLT_RULE_AFTER dv ip rule d = ((ret, h), d') \<Longrightarrow> (failed d \<longrightarrow> failed d') \<and>
      (if ret = 0 then hw d' = hw d + {#Flt ip h (dst_mac_addr (flt_attrib rule))#} \<and> h \<noteq> 0 else hw d' = hw d)"
    using R(5) [unfolded flt_laws_def, THEN conjunct1] by blast
  show "DEL_FLT_RULE dv ip h d = ((ret, st), d') \<Longrightarrow> (failed d \<or> ret \<noteq> 0 \<or> st \<noteq> 0 \<longrightarrow> failed d') \<and>
      (ret = 0 \<and> st = 0 \<longrightarrow> (\<forall>m. Flt ip h m \<in># hw d \<longrightarrow> hw d' = hw d - {#Flt ip h m#}))"
    using R(5) [unfolded flt_laws_def, THEN conjunct2] by blast
  show "GET_HDR dv n d = (r, d') \<Longrightarrow> (failed d \<longrightarrow> failed d') \<and> hw d' = hw d"
    using R(6) [unfolded hdr_laws_def, THEN conjunct1] by blast
  show "ADD_HDR_PROC_CTX dv ty t d = ((ret, h), d') \<Longrightarrow>
      (failed d \<or> ret \<noteq> 0 \<longrightarrow> failed d') \<and> (ret = 0 \<longrightarrow> hw d' = hw d + {#Ctx h#})"
    using R(6) [unfolded hdr_laws_def, THEN conjunct2, THEN conjunct1] by blast
  show "DEL_HDR_PROC_CTX dv h d = (ret, d') \<Longrightarrow>
      (failed d \<or> ret \<noteq> 0 \<longrightarrow> failed d') \<and> (ret = 0 \<longrightarrow> Ctx h \<in># hw d \<longrightarrow> hw d' = hw d - {#Ctx h#})"
    using R(6) [unfolded hdr_laws_def, THEN conjunct2, THEN conjunct2] by blast
qed

lemma GetRoutingTable_moves:
  assumes ok: "driver_ok hw failed dv" and r: "GetRoutingTable dv ip tbl d = (r, d')"
  shows "moves hw failed d d' X X"
proof -
  obtain ret h d1 where g: "GET_RT_TBL dv ip tbl d = ((ret, h), d1)" by (metis surj_pair)
  obtain ret' d2 where p: "PUT_RT_TBL dv h d1 = (ret', d2)" by fastforce
  have "d' = d1 \<or> d' = d2" using r g p driver_okD(1) [OF ok] by (auto simp: GetRoutingTable_def PutRoutingTable_def split: if_splits)
  then show ?thesis using driver_okD(7) [OF ok g] driver_okD(8) [OF ok p] by (auto intro!: moves_same)
qed

lemma GetHeaderHandle_moves:
  assumes ok: "driver_ok hw failed dv" and r: "GetHeaderHandle dv n d = (r, d')"
  shows "moves hw failed d d' X X"
proof -
  obtain ret h d1 where g: "GET_HDR dv n d = ((ret, h), d1)" by (metis surj_pair)
  then have "d' = d1" using r driver_okD(2) [OF ok] by (auto simp: GetHeaderHandle_def split: if_splits)
  then show ?thesis using driver_okD(11) [OF ok g] by (auto intro!: moves_same)
qed

lemma AddHeaderProcCtx_moves:
  assumes ok: "driver_ok hw failed dv" and r: "AddHeaderProcCtx dv ty t d = (Some h, d')"
  shows "moves hw failed d d' {#} {#Ctx h#}"
proof -
  obtain ret h' d1 where g: "ADD_HDR_PROC_CTX dv ty t d = ((ret, h'), d1)" by (metis surj_pair)
  then have "ret = 0" "d' = d1" "h' = h" using r by (auto simp: AddHeaderProcCtx_def split: if_splits)
  then show ?thesis using driver_okD(12) [OF ok g] by (simp add: moves_def)
qed

lemma DeleteHeaderProcCtx_moves:
  assumes ok: "driver_ok hw failed dv"
  shows "moves hw failed d (snd (DeleteHeaderProcCtx dv h d)) {#Ctx h#} {#}"
proof -
  obtain ret d1 where g: "DEL_HDR_PROC_CTX dv h d = (ret, d1)" by fastforce
  then show ?thesis using driver_okD(13) [OF ok g] by (auto simp: DeleteHeaderProcCtx_def moves_def)
qed

lemma DeleteRoutingHdl_moves:
  assumes "driver_ok hw failed dv" and "h \<noteq> 0"
  shows "moves hw failed d (snd (DeleteRoutingHdl dv ip h d)) {#Rt ip h tbl m c#} {#}"
proof -
  obtain ret st d' where r: "DEL_RT_RULE dv ip h d = ((ret, st), d')" by (metis surj_pair)
  note D = driver_okD(6) [OF assms(1) r]
  then have "failed d \<or> ret \<noteq> 0 \<or> st \<noteq> 0 \<longrightarrow> failed d'" and "ret = 0 \<Longrightarrow> st = 0 \<Longrightarrow> Rt ip h tbl m c \<in># hw d \<Longrightarrow> hw d' = hw d - {#Rt ip h tbl m c#}"
    by blast+
  then show ?thesis
    using r assms(2) driver_okD(1) [OF assms(1)]
    by (auto simp: DeleteRoutingHdl_def DeleteRoutingRule_def moves_def)
qed

lemma AddFilteringRuleAfter_moves:
  assumes "driver_ok hw failed dv" and "AddFilteringRuleAfter dv ip rule d = (r, d')"
  shows "moves hw failed d d' {#} (case r of None \<Rightarrow> {#} | Some h \<Rightarrow> {#Flt ip h (dst_mac_addr (flt_attrib rule))#})"
    and "r = Some h \<Longrightarrow> h \<noteq> 0"
proof -
  obtain ret h d'' where a: "ADD_FLT_RULE_AFTER dv ip rule d = ((ret, h), d'')" by (metis surj_pair)
  note D = driver_okD(9) [OF assms(1) a]
  then show "moves hw failed d d' {#} (case r of None \<Rightarrow> {#} | Some h \<Rightarrow> {#Flt ip h (dst_mac_addr (flt_attrib rule))#})"
    and "r = Some h \<Longrightarrow> h \<noteq> 0" for h
    using D a assms(2) by (auto simp: AddFilteringRuleAfter_def moves_def split: if_splits)
qed

lemma AddRoutingRule_moves:
  assumes "driver_ok hw failed dv" and "AddRoutingRule dv ip tbl rules d = (r, d')"
    and "\<forall>x \<in> set rules. rt_dst x \<le> IPA_CLIENT_MAX dv"
  shows "r = Some hdls \<Longrightarrow> moves hw failed d d' {#} (rt_entries ip tbl hdls rules)"
    and "r = Some hdls \<Longrightarrow> i < length rules \<Longrightarrow> hdls i \<noteq> 0"
    and "r = None \<Longrightarrow> failed d'"
proof -
  obtain ret hs d'' where a: "ADD_RT_RULE dv ip tbl rules d = ((ret, hs), d'')" by (metis surj_pair)
  note l = driver_okD(3) [OF assms(1) a]
  have "\<not> (\<exists>x \<in> set rules. IPA_CLIENT_MAX dv < rt_dst x)" using assms(3) by (auto simp: not_less)
  then have "(r, d') = (if ret \<noteq> 0 then (None, d'') else (Some hs, d''))"
    using assms(2) a driver_okD(1) [OF assms(1)] by (simp add: AddRoutingRule_def)
  then show "r = Some hdls \<Longrightarrow> moves hw failed d d' {#} (rt_entries ip tbl hdls rules)"
    and "r = Some hdls \<Longrightarrow> i < length rules \<Longrightarrow> hdls i \<noteq> 0"
    and "r = None \<Longrightarrow> failed d'"
    using l by (auto simp: moves_def split: if_splits)
qed

lemma CommitRouting_moves:
  assumes ok: "driver_ok hw failed dv" and r: "CommitRouting dv ip d = (r, d')"
  shows "moves hw failed d d' X X"
proof -
  obtain ret d1 where g: "COMMIT_RT dv ip d = (ret, d1)" by fastforce
  then have "d' = d1" using r driver_okD(1) [OF ok] by (simp add: CommitRouting_def)
  then show ?thesis using driver_okD(5) [OF ok g] by (auto intro!: moves_same)
qed

lemma ModifyRoutingRule_moves:
  assumes "driver_ok hw failed dv" and "ModifyRoutingRule dv ip rules d = (r, d')"
    and "\<forall>x \<in> set rules. \<exists>tbl. Rt ip (rt_rule_hdl x) tbl (dst_mac_addr (rt_attrib x)) (rt_hdr_proc_ctx_hdl x) \<in># X"
  shows "moves hw failed d d' X X"
proof -
  obtain ret d'' where a: "MDFY_RT_RULE dv ip rules d = (ret, d'')" by fastforce
  note D = driver_okD(4) [OF assms(1) a]
  have e: "d' = d''" using a assms(2) driver_okD(1) [OF assms(1)] by (simp add: ModifyRoutingRule_def)
  have "hw d'' = hw d" if "hw d = F + X" for F
  proof -
    have "\<forall>x \<in> set rules. \<exists>tbl. Rt ip (rt_rule_hdl x) tbl (dst_mac_addr (rt_attrib x)) (rt_hdr_proc_ctx_hdl x) \<in># hw d"
      using assms(3) unfolding that by (metis union_iff)
    then show ?thesis using D by blast
  qed
  then show ?thesis using D e by (simp add: moves_def)
qed

section \<open>What the functions of the interface do\<close>

text \<open>The driver accepts the pipes of an interface, and no family has more properties than rules fit.\<close>

definition lan_ok :: "'d l2l_env \<Rightarrow> ipa_lan \<Rightarrow> bool" where
  "lan_ok env lan \<longleftrightarrow>
     (\<forall>tx \<in> set (tx_props lan). dst_pipe tx \<le> IPA_CLIENT_MAX (dev env) \<and> alt_dst_pipe tx \<le> IPA_CLIENT_MAX (dev env)) \<and>
     (\<forall>ip. each_client_rt_rule_count lan ip \<le> MAX_NUM_PROP)"

lemma rt_rules_of_props:
  assumes "rt_rules_of env alt m ctx t ip num hdls txs rules = Some rs"
  shows "\<exists>ys. rs = rules @ ys \<and> length ys = length (filter (\<lambda>tx. tx_ip tx = ip) txs) \<and>
     (\<forall>y \<in> set ys. dst_mac_addr (rt_attrib y) = m \<and> rt_hdr_proc_ctx_hdl y = ctx \<and>
        (\<exists>tx \<in> set txs. rt_dst y = (if alt then alt_dst_pipe tx else dst_pipe tx))) \<and>
     (\<forall>i < length ys. rt_rule_hdl (ys ! i) = hdls (length rules + i) \<and> length rules + i < num)"
  using assms
proof (induction txs arbitrary: rules)
  case Nil
  then show ?case by simp
next
  case (Cons tx txs)
  show ?case
  proof (cases "tx_ip tx = ip")
    case True
    define y where "y = \<lparr>rt_dst = (if alt then alt_dst_pipe tx else dst_pipe tx), rt_hdr_proc_ctx_hdl = ctx,
              rt_attrib = mac_rule_attrib env t m (tx_attrib tx), rt_rule_hdl = hdls (length rules)\<rparr>"
    have n: "length rules < num" and "rt_rules_of env alt m ctx t ip num hdls txs (rules @ [y]) = Some rs"
      using Cons.prems True by (auto simp: y_def split: if_splits)
    from Cons.IH [OF this(2)] obtain ys where
      ys: "rs = rules @ [y] @ ys" "length ys = length (filter (\<lambda>tx. tx_ip tx = ip) txs)"
        "\<forall>y \<in> set ys. dst_mac_addr (rt_attrib y) = m \<and> rt_hdr_proc_ctx_hdl y = ctx \<and>
           (\<exists>tx \<in> set txs. rt_dst y = (if alt then alt_dst_pipe tx else dst_pipe tx))"
        "\<forall>i < length ys. rt_rule_hdl (ys ! i) = hdls (Suc (length rules) + i) \<and> Suc (length rules) + i < num"
      by auto
    show ?thesis
      by (intro exI [of _ "y # ys"]) (use ys n True in \<open>auto simp: y_def mac_rule_attrib_def nth_Cons split: nat.split\<close>)
  next
    case False
    then have "rt_rules_of env alt m ctx t ip num hdls txs rules = Some rs" using Cons.prems by simp
    from Cons.IH [OF this] False show ?thesis by (elim exE) (rule_tac x = ys in exI, auto)
  qed
qed

lemma rt_rules_of_fits:
  "length rules + length (filter (\<lambda>tx. tx_ip tx = ip) txs) \<le> num \<Longrightarrow>
   length rules + length (filter (\<lambda>tx. tx_ip tx = ip) txs) \<le> MAX_NUM_PROP \<Longrightarrow>
   \<exists>rs. rt_rules_of env alt m ctx t ip num hdls txs rules = Some rs"
  by (induction txs arbitrary: rules) auto

text \<open>The rules a list of handles stands for; handle 0 is no rule.\<close>

definition rts :: "ipa_ip_type \<Rightarrow> string \<Rightarrow> mac \<Rightarrow> u32 \<Rightarrow> u32 list \<Rightarrow> hw_entry multiset" where
  "rts ip tbl m ctx hs = mset (map (\<lambda>h. Rt ip h tbl m ctx) (filter (\<lambda>h. h \<noteq> 0) hs))"

lemma rts_Nil [simp]: "rts ip tbl m ctx [] = {#}"
  by (simp add: rts_def)

lemma rts_Cons [simp]: "rts ip tbl m ctx (h # hs) = (if h \<noteq> 0 then {#Rt ip h tbl m ctx#} else {#}) + rts ip tbl m ctx hs"
  by (simp add: rts_def)

lemma eth_bridge_add_rt_rule_moves:
  assumes ok: "driver_ok hw failed (dev env)" and lan: "lan_ok env lan"
    and r: "eth_bridge_add_rt_rule env lan m tbl ctx t ip d = (r, d')"
  shows "r = Some hs \<Longrightarrow> moves hw failed d d' {#} (rts ip tbl m ctx hs)"
    and "r = None \<Longrightarrow> failed d'"
    and "r = Some hs \<Longrightarrow> length hs = each_client_rt_rule_count lan ip \<and> 0 \<notin> set hs"
proof -
  define alt where "alt \<longleftrightarrow> ipa_if_cate lan = WLAN_IF \<and> isMCC_Mode env"
  obtain rules where rules: "rt_rules_of env alt m ctx t ip (each_client_rt_rule_count lan ip) (\<lambda>_. - 1) (tx_props lan) [] = Some rules"
    using lan rt_rules_of_fits [of "[]" ip "tx_props lan" "each_client_rt_rule_count lan ip" env alt m ctx t "\<lambda>_. - 1"]
    by (auto simp: lan_ok_def each_client_rt_rule_count_def)
  obtain r' d'' where a: "AddRoutingRule (dev env) ip tbl rules d = (r', d'')" by fastforce
  have dst: "\<forall>x \<in> set rules. rt_dst x \<le> IPA_CLIENT_MAX (dev env)"
    and len: "length rules = each_client_rt_rule_count lan ip"
    and content: "\<forall>x \<in> set rules. dst_mac_addr (rt_attrib x) = m \<and> rt_hdr_proc_ctx_hdl x = ctx"
    using rt_rules_of_props [OF rules] lan by (auto simp: lan_ok_def each_client_rt_rule_count_def split: if_splits)
  note m = AddRoutingRule_moves [OF ok a dst]
  have e: "r = map_option (\<lambda>hdls. map hdls [0..<length rules]) r'" "d' = d''"
    using r rules a by (auto simp: eth_bridge_add_rt_rule_def alt_def split: option.splits)
  show "r = None \<Longrightarrow> failed d'" using e m(3) by simp
  show len: "length hs = each_client_rt_rule_count lan ip \<and> 0 \<notin> set hs" if s: "r = Some hs"
  proof -
    obtain hdls where h: "r' = Some hdls" "hs = map hdls [0..<length rules]" using s e by auto
    then have "hdls i \<noteq> 0" if "i < length rules" for i using m(2) that by blast
    then show ?thesis using h len by (auto simp: eq_commute [of 0])
  qed
  show "moves hw failed d d' {#} (rts ip tbl m ctx hs)" if s: "r = Some hs"
  proof -
    obtain hdls where h: "r' = Some hdls" "hs = map hdls [0..<length rules]" using s e by auto
    have "filter (\<lambda>h. h \<noteq> 0) hs = hs" using len [OF s] by (auto simp: filter_id_conv)
    moreover have "map (\<lambda>h. Rt ip h tbl m ctx) hs = map (\<lambda>i. Rt ip (hdls i) tbl (dst_mac_addr (rt_attrib (rules ! i))) (rt_hdr_proc_ctx_hdl (rules ! i))) [0..<length rules]"
      using content by (simp add: h(2))
    ultimately have "rts ip tbl m ctx hs = rt_entries ip tbl hdls rules"
      unfolding rts_def rt_entries_def by (simp only:)
    then show ?thesis using m(1) [OF h(1)] e by simp
  qed
qed

lemma eth_bridge_modify_rt_rule_moves:
  assumes ok: "driver_ok hw failed (dev env)" and nz: "0 \<notin> set hs"
    and r: "eth_bridge_modify_rt_rule env lan m ctx t ip hs d = (r, d')"
  shows "moves hw failed d d' (rts ip tbl m ctx hs) (rts ip tbl m ctx hs)"
proof (cases "rt_rules_of env (isMCC_Mode env) m ctx t ip (length hs) (\<lambda>i. hs ! i) (tx_props lan) []")
  case None
  then show ?thesis using r by (auto simp: eth_bridge_modify_rt_rule_def split: if_splits)
next
  case (Some rules)
  have "\<exists>h \<in> set hs. rt_rule_hdl x = h" "dst_mac_addr (rt_attrib x) = m" "rt_hdr_proc_ctx_hdl x = ctx" if "x \<in> set rules" for x
    using that rt_rules_of_props [OF Some] by (auto simp: in_set_conv_nth) blast
  then have "\<forall>x \<in> set rules. \<exists>tb. Rt ip (rt_rule_hdl x) tb (dst_mac_addr (rt_attrib x)) (rt_hdr_proc_ctx_hdl x) \<in># rts ip tbl m ctx hs"
    using nz by (fastforce simp: rts_def)
  note m = ModifyRoutingRule_moves [OF ok _ this, of d] CommitRouting_moves [OF ok]
  show ?thesis
    using r Some m by (auto simp: eth_bridge_modify_rt_rule_def split: if_splits prod.splits bool.splits intro: moves_trans)
qed

lemma eth_bridge_del_rt_rule_moves:
  "driver_ok hw failed (dev env) \<Longrightarrow> moves hw failed d (eth_bridge_del_rt_rule env h ip d) (rts ip tbl m ctx [h]) {#}"
  by (cases "h = 0") (simp_all add: eth_bridge_del_rt_rule_def DeleteRoutingHdl_moves, simp add: DeleteRoutingHdl_def)

lemma eth_bridge_del_hdr_proc_ctx_moves:
  "driver_ok hw failed (dev env) \<Longrightarrow> moves hw failed d (eth_bridge_del_hdr_proc_ctx env h d) {#Ctx h#} {#}"
  by (simp add: eth_bridge_del_hdr_proc_ctx_def DeleteHeaderProcCtx_moves)

lemma eth_bridge_add_hdr_proc_ctx_moves:
  assumes "driver_ok hw failed (dev env)" and "eth_bridge_add_hdr_proc_ctx env lan t d = Some (Some h, d')"
  shows "moves hw failed d d' {#} {#Ctx h#}"
proof -
  obtain r d1 where g: "GetHeaderHandle (dev env) (hdr_name (hd (tx_props lan))) d = (r, d1)" by fastforce
  then obtain hdr where a: "AddHeaderProcCtx (dev env) (eth_bridge_get_hdr_proc_type t (hdr_l2_type (hd (tx_props lan)))) hdr d1 = (Some h, d')"
    using assms(2) by (auto simp: eth_bridge_add_hdr_proc_ctx_def eth_bridge_get_hdr_template_hdl_def split: if_splits option.splits)
  show ?thesis by (rule moves_trans [OF GetHeaderHandle_moves [OF assms(1) g] AddHeaderProcCtx_moves [OF assms(1) a]])
qed

definition flts :: "ipa_ip_type \<Rightarrow> mac \<Rightarrow> u32 \<Rightarrow> hw_entry multiset" where
  "flts ip m h = (if h = 0 then {#} else {#Flt ip h m#})"

lemma flts_0 [simp]: "flts ip m 0 = {#}"
  by (simp add: flts_def)

lemma eth_bridge_add_flt_rule_moves:
  assumes "driver_ok hw failed (dev env)" and "eth_bridge_add_flt_rule env lan m tbl ip d = (h, d')"
  shows "moves hw failed d d' {#} (flts ip m h)"
proof (cases "rx_props lan = [] \<or> tx_props lan = []")
  case True
  then show ?thesis using assms(2) by (auto simp: eth_bridge_add_flt_rule_def)
next
  case False
  define rule where "rule = \<lparr>flt_ep = src_pipe (hd (rx_props lan)), add_after_hdl = eth_bridge_flt_rule_offset lan ip, flt_rt_tbl_hdl = tbl,
                    flt_attrib = mac_rule_attrib env (hdr_l2_type (hd (tx_props lan))) m (rx_attrib (hd (rx_props lan)))\<rparr>"
  obtain r d'' where a: "AddFilteringRuleAfter (dev env) ip rule d = (r, d'')" by fastforce
  note AddFilteringRuleAfter_moves [OF assms(1) this]
  moreover have "dst_mac_addr (flt_attrib rule) = m" by (simp add: rule_def mac_rule_attrib_def)
  ultimately show ?thesis
    using assms(2) a False by (cases r) (auto simp: eth_bridge_add_flt_rule_def rule_def flts_def)
qed

lemma eth_bridge_del_flt_rule_moves:
  assumes "driver_ok hw failed (dev env)"
  shows "moves hw failed d (eth_bridge_del_flt_rule env h ip d) (flts ip m h) {#}"
proof (cases "h = 0")
  case False
  obtain ret st d' where r: "DEL_FLT_RULE (dev env) ip h d = ((ret, st), d')" by (metis surj_pair)
  show ?thesis
    using driver_okD(10) [OF assms r] r False by (auto simp: eth_bridge_del_flt_rule_def flts_def moves_def)
qed (simp add: eth_bridge_del_flt_rule_def)

end
