(* ===== verification/Lan_To_Lan.thy ===== *)
theory Lan_To_Lan
  imports Eth_Bridge
begin

text \<open>
  The LAN to LAN offload of ipacm (\<open>IPACM_LanToLan.cpp\<close>) as the device builds it, without
  \<open>FEATURE_L2TP\<close>: the interfaces that take part, their clients, and for every ordered pair of
  interfaces the rules that let the hardware forward between them.

  An interface is named by the address of its \<open>IPACM_Lan\<close> object, a client within its interface
  by its MAC address: the list of interfaces never holds two of the same object, nor a client list
  two of the same address. A pointer to an interface that is not in the list is dangling. The state is
  \<open>None\<close> after a dangling or an uninitialised value has been used.
\<close>

section \<open>Loops\<close>

text \<open>A loop over a list whose body may fault, and one that also writes the elements.\<close>

primrec fold_opt :: "('a \<Rightarrow> 's \<Rightarrow> 's option) \<Rightarrow> 'a list \<Rightarrow> 's \<Rightarrow> 's option" where
  "fold_opt f [] s = Some s"
| "fold_opt f (x # xs) s = (case f x s of None \<Rightarrow> None | Some s \<Rightarrow> fold_opt f xs s)"

primrec map_opt :: "('a \<Rightarrow> 's \<Rightarrow> ('a \<times> 's) option) \<Rightarrow> 'a list \<Rightarrow> 's \<Rightarrow> ('a list \<times> 's) option" where
  "map_opt f [] s = Some ([], s)"
| "map_opt f (x # xs) s =
     (case f x s of None \<Rightarrow> None
      | Some (y, s) \<Rightarrow> (case map_opt f xs s of None \<Rightarrow> None | Some (ys, s) \<Rightarrow> Some (y # ys, s)))"

text \<open>A search that works on the first element it finds and stops.\<close>

primrec at_first :: "('a \<Rightarrow> bool) \<Rightarrow> ('a \<Rightarrow> 's \<Rightarrow> 'a \<times> 's) \<Rightarrow> 'a list \<Rightarrow> 's \<Rightarrow> 'a list \<times> 's" where
  "at_first P f [] s = ([], s)"
| "at_first P f (x # xs) s =
     (if P x then (case f x s of (y, s) \<Rightarrow> (y # xs, s))
      else (case at_first P f xs s of (ys, s) \<Rightarrow> (x # ys, s)))"

primrec erase_first :: "('a \<Rightarrow> bool) \<Rightarrow> 'a list \<Rightarrow> 'a list" where
  "erase_first P [] = []"
| "erase_first P (x # xs) = (if P x then xs else x # erase_first P xs)"

section \<open>Data\<close>

definition MAX_NUM_CACHED_CLIENT_ADD_EVENT :: nat where "MAX_NUM_CACHED_CLIENT_ADD_EVENT = 10"
definition MAX_NUM_IFACE :: nat where "MAX_NUM_IFACE = 10"
definition MAX_NUM_CLIENT :: nat where "MAX_NUM_CLIENT = 16"

text \<open>The handles of the routing rules to a client, \<open>rule_hdl\<close> up to \<open>num_hdl\<close>, by family.\<close>

type_synonym rt_rule_info = "ipa_ip_type \<Rightarrow> u32 list"

record client_info =
  mac_addr :: mac
  inter_rt :: "l2_type \<Rightarrow> rt_rule_info"
  intra_rt :: rt_rule_info
  ep :: int

record flt_rule_info =
  p_client :: mac
  flt_rule_hdl :: "ipa_ip_type \<Rightarrow> u32"

record peer_iface_info =
  peer :: nat
  rt_tbl_name_for_rt :: "ipa_ip_type \<Rightarrow> string"
  rt_tbl_name_for_flt :: "ipa_ip_type \<Rightarrow> string"
  flt_list :: "flt_rule_info list"

text \<open>The intra-interface information is not initialised before it is first set.\<close>

record l2l_iface =
  m_p_iface :: nat
  ip_assigned :: "ipa_ip_type \<Rightarrow> bool"
  inter_offload :: bool
  intra_offload :: bool
  ref_cnt :: "l2_type \<Rightarrow> int"
  ctx_inter :: "l2_type \<Rightarrow> u32"
  ctx_intra :: u32
  clients :: "client_info list"
  peers :: "peer_iface_info list"
  intra_info :: "peer_iface_info option"

record eth_event =
  ev_iface :: nat
  ev_mac :: mac
  ev_ep :: int

record 'd l2l =
  m_iface :: "l2l_iface list"
  m_cached_client_add_event :: "eth_event list"
  drv :: 'd

definition l2_of :: "'d l2l_env \<Rightarrow> nat \<Rightarrow> l2_type" where
  "l2_of env p = hdr_l2_type (hd (tx_props (lans env p)))"

definition new_iface :: "'d l2l_env \<Rightarrow> nat \<Rightarrow> l2l_iface" where
  "new_iface env p =
     \<lparr>m_p_iface = p, ip_assigned = (\<lambda>_. False),
      inter_offload = \<not> (ipa_if_cate (lans env p) = WLAN_IF \<and> m_is_guest_ap (lans env p)),
      intra_offload = (ipa_if_cate (lans env p) = WLAN_IF),
      ref_cnt = (\<lambda>_. 0), ctx_inter = (\<lambda>_. 0), ctx_intra = 0, clients = [], peers = [], intra_info = None\<rparr>"

text \<open>The names of the routing tables, cut by \<open>snprintf\<close>.\<close>

fun ipa_l2_hdr_type :: "l2_type \<Rightarrow> string" where
  "ipa_l2_hdr_type IPA_HDR_L2_NONE = ''NONE''"
| "ipa_l2_hdr_type IPA_HDR_L2_ETHERNET_II = ''ETH_II''"
| "ipa_l2_hdr_type IPA_HDR_L2_802_3 = ''802_3''"
| "ipa_l2_hdr_type IPA_HDR_L2_MAX = ''L2_MAX''"

fun ip_prefix :: "ipa_ip_type \<Rightarrow> string" where
  "ip_prefix IPA_IP_v4 = ''eth_v4_''"
| "ip_prefix IPA_IP_v6 = ''eth_v6_''"

definition rt_tbl_name :: "'d l2l_env \<Rightarrow> l2_type \<Rightarrow> l2_type \<Rightarrow> ipa_ip_type \<Rightarrow> string" where
  "rt_tbl_name env src dst ip =
     take (IPA_RESOURCE_NAME_MAX env - 1) (ip_prefix ip @ ipa_l2_hdr_type src @ ''_to_'' @ ipa_l2_hdr_type dst)"

definition intra_tbl_name :: "'d l2l_env \<Rightarrow> ipa_ip_type \<Rightarrow> string" where
  "intra_tbl_name env ip = take (IPA_RESOURCE_NAME_MAX env - 1) (ip_prefix ip @ ''intra_interface'')"

section \<open>Routing rules of a client\<close>

text \<open>
  The two calls that add the IPv4 and the IPv6 rules of a client. Both write the same two local
  variables. When the first call fails they have never been written; when only the second fails
  they still hold the IPv4 rules.
\<close>

definition add_rt_both :: "'d l2l_env \<Rightarrow> ipa_lan \<Rightarrow> mac \<Rightarrow> (ipa_ip_type \<Rightarrow> string) \<Rightarrow> u32 \<Rightarrow> l2_type \<Rightarrow> 'd \<Rightarrow> (rt_rule_info \<times> 'd) option" where
  "add_rt_both env lan mac tbl ctx t d =
     (case eth_bridge_add_rt_rule env lan mac (tbl IPA_IP_v4) ctx t IPA_IP_v4 d of
        (None, d) \<Rightarrow> None
      | (Some v4, d) \<Rightarrow>
          (case eth_bridge_add_rt_rule env lan mac (tbl IPA_IP_v6) ctx t IPA_IP_v6 d of
             (None, d) \<Rightarrow> Some ((\<lambda>_. v4), d)
           | (Some v6, d) \<Rightarrow> Some ((\<lambda>ip. case ip of IPA_IP_v4 \<Rightarrow> v4 | IPA_IP_v6 \<Rightarrow> v6), d)))"

definition add_client_rt_rule :: "'d l2l_env \<Rightarrow> l2l_iface \<Rightarrow> peer_iface_info \<Rightarrow> client_info \<Rightarrow> 'd \<Rightarrow> (client_info \<times> 'd) option" where
  "add_client_rt_rule env i pr c d =
     (let t = l2_of env (peer pr); lan = lans env (m_p_iface i) in
      if peer pr \<noteq> m_p_iface i then
        (case add_rt_both env lan (mac_addr c) (rt_tbl_name_for_rt pr) (ctx_inter i t) t d of
           None \<Rightarrow> None
         | Some (hs, d) \<Rightarrow> Some (c\<lparr>inter_rt := (inter_rt c)(t := hs)\<rparr>, d))
      else
        (case add_rt_both env lan (mac_addr c) (rt_tbl_name_for_rt pr) (ctx_intra i) t d of
           None \<Rightarrow> None
         | Some (hs, d) \<Rightarrow> Some (c\<lparr>intra_rt := hs\<rparr>, d)))"

definition del_rt_both :: "'d l2l_env \<Rightarrow> rt_rule_info \<Rightarrow> 'd \<Rightarrow> 'd" where
  "del_rt_both env hs d =
     fold (\<lambda>h. eth_bridge_del_rt_rule env h IPA_IP_v6) (hs IPA_IP_v6)
       (fold (\<lambda>h. eth_bridge_del_rt_rule env h IPA_IP_v4) (hs IPA_IP_v4) d)"

definition del_client_rt_rule :: "'d l2l_env \<Rightarrow> l2l_iface \<Rightarrow> peer_iface_info \<Rightarrow> client_info \<Rightarrow> 'd \<Rightarrow> client_info \<times> 'd" where
  "del_client_rt_rule env i pr c d =
     (let t = l2_of env (peer pr) in
      if peer pr \<noteq> m_p_iface i then
        (c\<lparr>inter_rt := (inter_rt c)(t := (\<lambda>_. []))\<rparr>, del_rt_both env (inter_rt c t) d)
      else (c\<lparr>intra_rt := (\<lambda>_. [])\<rparr>, del_rt_both env (intra_rt c) d))"

section \<open>Filter rules of an interface for a client of a peer\<close>

definition add_client_flt_rule :: "'d l2l_env \<Rightarrow> l2l_iface \<Rightarrow> mac \<Rightarrow> ipa_ip_type \<Rightarrow> peer_iface_info \<Rightarrow> 'd \<Rightarrow> peer_iface_info \<times> 'd" where
  "add_client_flt_rule env i c ip pr d =
     (case GetRoutingTable (dev env) ip (rt_tbl_name_for_flt pr ip) d of
        (None, d) \<Rightarrow> (pr, d)
      | (Some tbl, d) \<Rightarrow>
          (case eth_bridge_add_flt_rule env (lans env (m_p_iface i)) c tbl ip d of
             (h, d) \<Rightarrow>
               (if \<exists>f \<in> set (flt_list pr). p_client f = c then
                  (case at_first (\<lambda>f. p_client f = c) (\<lambda>f d. (f\<lparr>flt_rule_hdl := (flt_rule_hdl f)(ip := h)\<rparr>, d)) (flt_list pr) d of
                     (fs, d) \<Rightarrow> (pr\<lparr>flt_list := fs\<rparr>, d))
                else (pr\<lparr>flt_list := \<lparr>p_client = c, flt_rule_hdl = (\<lambda>_. 0)(ip := h)\<rparr> # flt_list pr\<rparr>, d))))"

definition del_flt_both :: "'d l2l_env \<Rightarrow> l2l_iface \<Rightarrow> flt_rule_info \<Rightarrow> 'd \<Rightarrow> 'd" where
  "del_flt_both env i f d =
     (let d = if ip_assigned i IPA_IP_v4 then eth_bridge_del_flt_rule env (flt_rule_hdl f IPA_IP_v4) IPA_IP_v4 d else d in
      if ip_assigned i IPA_IP_v6 then eth_bridge_del_flt_rule env (flt_rule_hdl f IPA_IP_v6) IPA_IP_v6 d else d)"

definition del_client_flt_rule :: "'d l2l_env \<Rightarrow> l2l_iface \<Rightarrow> mac \<Rightarrow> peer_iface_info \<Rightarrow> 'd \<Rightarrow> peer_iface_info \<times> 'd" where
  "del_client_flt_rule env i c pr d =
     (case find (\<lambda>f. p_client f = c) (flt_list pr) of
        None \<Rightarrow> (pr, d)
      | Some f \<Rightarrow> (pr\<lparr>flt_list := erase_first (\<lambda>f. p_client f = c) (flt_list pr)\<rparr>, del_flt_both env i f d))"

definition clear_all_flt_rule_for_one_peer_iface :: "'d l2l_env \<Rightarrow> l2l_iface \<Rightarrow> peer_iface_info \<Rightarrow> 'd \<Rightarrow> peer_iface_info \<times> 'd" where
  "clear_all_flt_rule_for_one_peer_iface env i pr d =
     (pr\<lparr>flt_list := []\<rparr>, fold (del_flt_both env i) (flt_list pr) d)"

section \<open>Operations of one interface\<close>

text \<open>These change one interface \<open>i\<close> and the driver.\<close>

definition at_peer :: "nat \<Rightarrow> (peer_iface_info \<Rightarrow> 'd \<Rightarrow> peer_iface_info \<times> 'd) \<Rightarrow> l2l_iface \<Rightarrow> 'd \<Rightarrow> l2l_iface \<times> 'd" where
  "at_peer q f i d = (case at_first (\<lambda>pr. peer pr = q) f (peers i) d of (prs, d) \<Rightarrow> (i\<lparr>peers := prs\<rparr>, d))"

definition at_intra :: "(peer_iface_info \<Rightarrow> 'd \<Rightarrow> peer_iface_info \<times> 'd) \<Rightarrow> l2l_iface \<Rightarrow> 'd \<Rightarrow> (l2l_iface \<times> 'd) option" where
  "at_intra f i d =
     (case intra_info i of None \<Rightarrow> None
      | Some pr \<Rightarrow> (case f pr d of (pr, d) \<Rightarrow> Some (i\<lparr>intra_info := Some pr\<rparr>, d)))"

definition increment_ref_cnt_peer_l2_hdr_type :: "l2_type \<Rightarrow> l2l_iface \<Rightarrow> l2l_iface" where
  "increment_ref_cnt_peer_l2_hdr_type t i = i\<lparr>ref_cnt := (ref_cnt i)(t := ref_cnt i t + 1)\<rparr>"

definition decrement_ref_cnt_peer_l2_hdr_type :: "l2_type \<Rightarrow> l2l_iface \<Rightarrow> l2l_iface" where
  "decrement_ref_cnt_peer_l2_hdr_type t i = i\<lparr>ref_cnt := (ref_cnt i)(t := ref_cnt i t - 1)\<rparr>"

text \<open>When no context is added, the local variable that is stored was never written.\<close>

definition add_hdr_proc_ctx :: "'d l2l_env \<Rightarrow> l2_type \<Rightarrow> l2l_iface \<Rightarrow> 'd \<Rightarrow> (l2l_iface \<times> 'd) option" where
  "add_hdr_proc_ctx env t i d =
     (if ref_cnt i t = 1 then
        (case eth_bridge_add_hdr_proc_ctx env (lans env (m_p_iface i)) t d of
           Some (Some h, d) \<Rightarrow> Some (i\<lparr>ctx_inter := (ctx_inter i)(t := h)\<rparr>, d)
         | _ \<Rightarrow> None)
      else Some (i, d))"

definition del_hdr_proc_ctx :: "'d l2l_env \<Rightarrow> l2_type \<Rightarrow> l2l_iface \<Rightarrow> 'd \<Rightarrow> l2l_iface \<times> 'd" where
  "del_hdr_proc_ctx env t i d =
     (if ref_cnt i t = 0 then (i, eth_bridge_del_hdr_proc_ctx env (ctx_inter i t) d) else (i, d))"

definition iface_new_iface_up :: "'d l2l_env \<Rightarrow> (ipa_ip_type \<Rightarrow> string) \<Rightarrow> (ipa_ip_type \<Rightarrow> string) \<Rightarrow> nat \<Rightarrow> l2l_iface \<Rightarrow> 'd \<Rightarrow> (l2l_iface \<times> 'd) option" where
  "iface_new_iface_up env tbl_flt tbl_rt q i d =
     (let t = l2_of env q; i = increment_ref_cnt_peer_l2_hdr_type t i in
      case add_hdr_proc_ctx env t i d of
        None \<Rightarrow> None
      | Some (i, d) \<Rightarrow>
          Some (i\<lparr>peers := \<lparr>peer = q, rt_tbl_name_for_rt = tbl_rt, rt_tbl_name_for_flt = tbl_flt, flt_list = []\<rparr> # peers i\<rparr>, d))"

definition add_client_rt_rule_for_new_iface :: "'d l2l_env \<Rightarrow> l2l_iface \<Rightarrow> 'd \<Rightarrow> (l2l_iface \<times> 'd) option" where
  "add_client_rt_rule_for_new_iface env i d =
     (case peers i of [] \<Rightarrow> None
      | pr # _ \<Rightarrow>
          (if ref_cnt i (l2_of env (peer pr)) = 1 then
             (case map_opt (add_client_rt_rule env i pr) (clients i) d of
                None \<Rightarrow> None | Some (cs, d) \<Rightarrow> Some (i\<lparr>clients := cs\<rparr>, d))
           else Some (i, d)))"

definition add_one_client_flt_rule :: "'d l2l_env \<Rightarrow> nat \<Rightarrow> mac \<Rightarrow> l2l_iface \<Rightarrow> 'd \<Rightarrow> l2l_iface \<times> 'd" where
  "add_one_client_flt_rule env p c i d =
     at_peer p (\<lambda>pr d.
       (case (if ip_assigned i IPA_IP_v4 then add_client_flt_rule env i c IPA_IP_v4 pr d else (pr, d)) of
          (pr, d) \<Rightarrow> if ip_assigned i IPA_IP_v6 then add_client_flt_rule env i c IPA_IP_v6 pr d else (pr, d))) i d"

definition del_one_client_flt_rule :: "'d l2l_env \<Rightarrow> nat \<Rightarrow> mac \<Rightarrow> l2l_iface \<Rightarrow> 'd \<Rightarrow> l2l_iface \<times> 'd" where
  "del_one_client_flt_rule env p c i d = at_peer p (del_client_flt_rule env i c) i d"

definition clear_all_rt_rule_for_one_peer_iface :: "'d l2l_env \<Rightarrow> peer_iface_info \<Rightarrow> l2l_iface \<Rightarrow> 'd \<Rightarrow> (l2l_iface \<times> 'd) option" where
  "clear_all_rt_rule_for_one_peer_iface env pr i d =
     (if ref_cnt i (l2_of env (peer pr)) = 0 then
        (case map_opt (\<lambda>c d. Some (del_client_rt_rule env i pr c d)) (clients i) d of
           None \<Rightarrow> None | Some (cs, d) \<Rightarrow> Some (i\<lparr>clients := cs\<rparr>, d))
      else Some (i, d))"

definition handle_intra_interface_info :: "'d l2l_env \<Rightarrow> l2l_iface \<Rightarrow> 'd \<Rightarrow> (l2l_iface \<times> 'd) option" where
  "handle_intra_interface_info env i d =
     (let lan = lans env (m_p_iface i) in
      if tx_props lan = [] then Some (i, d)
      else
        (case eth_bridge_add_hdr_proc_ctx env lan (hdr_l2_type (hd (tx_props lan))) d of
           Some (Some h, d) \<Rightarrow>
             Some (i\<lparr>intra_info := Some \<lparr>peer = m_p_iface i, rt_tbl_name_for_rt = intra_tbl_name env,
                       rt_tbl_name_for_flt = intra_tbl_name env, flt_list = []\<rparr>, ctx_intra := h\<rparr>, d)
         | _ \<Rightarrow> None))"

definition add_all_intra_interface_client_flt_rule :: "'d l2l_env \<Rightarrow> ipa_ip_type \<Rightarrow> l2l_iface \<Rightarrow> 'd \<Rightarrow> (l2l_iface \<times> 'd) option" where
  "add_all_intra_interface_client_flt_rule env ip i d =
     fold_opt (\<lambda>c (i, d). at_intra (add_client_flt_rule env i c ip) i d) (map mac_addr (clients i)) (i, d)"

text \<open>The mode switch rewrites the routing rules, once for each type of the peers.\<close>

definition modify_rt_both :: "'d l2l_env \<Rightarrow> ipa_lan \<Rightarrow> u32 \<Rightarrow> l2_type \<Rightarrow> (client_info \<Rightarrow> rt_rule_info) \<Rightarrow> client_info \<Rightarrow> 'd \<Rightarrow> 'd" where
  "modify_rt_both env lan ctx t hs c d =
     snd (eth_bridge_modify_rt_rule env lan (mac_addr c) ctx t IPA_IP_v6 (hs c IPA_IP_v6)
       (snd (eth_bridge_modify_rt_rule env lan (mac_addr c) ctx t IPA_IP_v4 (hs c IPA_IP_v4) d)))"

definition iface_scc_mcc_switch :: "'d l2l_env \<Rightarrow> l2l_iface \<Rightarrow> 'd \<Rightarrow> 'd" where
  "iface_scc_mcc_switch env i d =
     (let lan = lans env (m_p_iface i);
          d = (if inter_offload i then
                 snd (fold (\<lambda>pr (flag, d).
                   (let t = l2_of env (peer pr) in
                    if \<not> flag t then (flag(t := True), fold (modify_rt_both env lan (ctx_inter i t) t (\<lambda>c. inter_rt c t)) (clients i) d)
                    else (flag, d))) (peers i) (\<lambda>_. False, d))
               else d) in
      if intra_offload i then
        fold (modify_rt_both env lan (ctx_intra i) (hdr_l2_type (hd (tx_props lan))) intra_rt) (clients i) d
      else d)"

section \<open>Operations on several interfaces\<close>

definition find_iface :: "nat \<Rightarrow> 'd l2l \<Rightarrow> l2l_iface option" where
  "find_iface p s = find (\<lambda>i. m_p_iface i = p) (m_iface s)"

definition put_iface :: "l2l_iface \<Rightarrow> 'd l2l \<Rightarrow> 'd l2l" where
  "put_iface i s = s\<lparr>m_iface := map (\<lambda>j. if m_p_iface j = m_p_iface i then i else j) (m_iface s)\<rparr>"

text \<open>A call on the interface \<open>p\<close>, through a pointer that may dangle.\<close>

definition on_iface :: "nat \<Rightarrow> (l2l_iface \<Rightarrow> 'd \<Rightarrow> (l2l_iface \<times> 'd) option) \<Rightarrow> 'd l2l \<Rightarrow> 'd l2l option" where
  "on_iface p f s =
     (case find_iface p s of
        None \<Rightarrow> None
      | Some i \<Rightarrow>
          (case f i (drv s) of
             None \<Rightarrow> None
           | Some (i, d) \<Rightarrow> Some (put_iface i (s\<lparr>drv := d\<rparr>))))"

text \<open>Filter rules of interface \<open>p\<close> for the clients of its peers.\<close>

definition add_all_inter_interface_client_flt_rule :: "'d l2l_env \<Rightarrow> ipa_ip_type \<Rightarrow> nat \<Rightarrow> 'd l2l \<Rightarrow> 'd l2l option" where
  "add_all_inter_interface_client_flt_rule env ip p s =
     (case find_iface p s of
        None \<Rightarrow> None
      | Some i \<Rightarrow>
          fold_opt (\<lambda>q s.
            (case find_iface q s of
               None \<Rightarrow> None
             | Some j \<Rightarrow>
                 fold_opt (\<lambda>c. on_iface p (\<lambda>i d. Some (at_peer q (add_client_flt_rule env i c ip) i d)))
                   (map mac_addr (clients j)) s)) (map peer (peers i)) s)"

definition handle_new_iface_up :: "'d l2l_env \<Rightarrow> nat \<Rightarrow> nat \<Rightarrow> 'd l2l \<Rightarrow> 'd l2l option" where
  "handle_new_iface_up env new old s =
     (let tbl_flt = rt_tbl_name env (l2_of env old) (l2_of env new);
          tbl_rt = rt_tbl_name env (l2_of env new) (l2_of env old) in
      case on_iface old (iface_new_iface_up env tbl_flt tbl_rt new) s of
        None \<Rightarrow> None
      | Some s \<Rightarrow> on_iface new (iface_new_iface_up env tbl_rt tbl_flt old) s)"

section \<open>Clients\<close>

text \<open>The body of the loop over the peers when a client is added to the front of the list of \<open>p\<close>.\<close>

definition client_add_peer :: "'d l2l_env \<Rightarrow> nat \<Rightarrow> mac \<Rightarrow> nat \<Rightarrow> (l2_type \<Rightarrow> bool) \<times> 'd l2l \<Rightarrow> ((l2_type \<Rightarrow> bool) \<times> 'd l2l) option" where
  "client_add_peer env p c q fs =
     (case fs of (flag, s) \<Rightarrow>
        (let t = l2_of env q in
         case (if flag t then Some s
               else on_iface p (\<lambda>i d.
                 (case (find (\<lambda>pr. peer pr = q) (peers i), clients i) of
                    (Some pr, cl # cs) \<Rightarrow>
                      (case add_client_rt_rule env i pr cl d of
                         None \<Rightarrow> None | Some (cl, d) \<Rightarrow> Some (i\<lparr>clients := cl # cs\<rparr>, d))
                  | _ \<Rightarrow> None)) s) of
           None \<Rightarrow> None
         | Some s \<Rightarrow>
             (case on_iface q (\<lambda>j d. Some (add_one_client_flt_rule env p c j d)) s of
                None \<Rightarrow> None
              | Some s \<Rightarrow> Some (flag(t := True), s))))"

definition intra_client_add :: "'d l2l_env \<Rightarrow> mac \<Rightarrow> l2l_iface \<Rightarrow> 'd \<Rightarrow> (l2l_iface \<times> 'd) option" where
  "intra_client_add env c i d =
     (case (intra_info i, clients i) of
        (Some pr, cl # cs) \<Rightarrow>
          (case add_client_rt_rule env i pr cl d of
             None \<Rightarrow> None
           | Some (cl, d) \<Rightarrow>
               (case (if ip_assigned i IPA_IP_v4 then add_client_flt_rule env i c IPA_IP_v4 pr d else (pr, d)) of
                  (pr, d) \<Rightarrow>
                    (case (if ip_assigned i IPA_IP_v6 then add_client_flt_rule env i c IPA_IP_v6 pr d else (pr, d)) of
                       (pr, d) \<Rightarrow> Some (i\<lparr>clients := cl # cs, intra_info := Some pr\<rparr>, d))))
      | _ \<Rightarrow> None)"

definition iface_client_add :: "'d l2l_env \<Rightarrow> nat \<Rightarrow> mac \<Rightarrow> int \<Rightarrow> 'd l2l \<Rightarrow> 'd l2l option" where
  "iface_client_add env p c e s =
     (case find_iface p s of
        None \<Rightarrow> None
      | Some i \<Rightarrow>
          (if \<exists>cl \<in> set (clients i). mac_addr cl = c then Some s
           else if length (clients i) = MAX_NUM_CLIENT then Some s
           else
             (let cl = \<lparr>mac_addr = c, inter_rt = (\<lambda>_ _. []), intra_rt = (\<lambda>_. []), ep = e\<rparr>;
                  s = put_iface (i\<lparr>clients := cl # clients i\<rparr>) s in
              case (if inter_offload i then fold_opt (client_add_peer env p c) (map peer (peers i)) (\<lambda>_. False, s)
                    else Some (\<lambda>_. False, s)) of
                None \<Rightarrow> None
              | Some (_, s) \<Rightarrow> if intra_offload i then on_iface p (intra_client_add env c) s else Some s)))"

definition client_del_peer :: "'d l2l_env \<Rightarrow> nat \<Rightarrow> mac \<Rightarrow> nat \<Rightarrow> (l2_type \<Rightarrow> bool) \<times> 'd l2l \<Rightarrow> ((l2_type \<Rightarrow> bool) \<times> 'd l2l) option" where
  "client_del_peer env p c q fs =
     (case fs of (flag, s) \<Rightarrow>
        (let t = l2_of env q in
         case on_iface q (\<lambda>j d. Some (del_one_client_flt_rule env p c j d)) s of
           None \<Rightarrow> None
         | Some s \<Rightarrow>
             (if flag t then Some (flag, s)
              else
                (case on_iface p (\<lambda>i d.
                   (case find (\<lambda>pr. peer pr = q) (peers i) of
                      None \<Rightarrow> None
                    | Some pr \<Rightarrow>
                        (case at_first (\<lambda>cl. mac_addr cl = c) (del_client_rt_rule env i pr) (clients i) d of
                           (cs, d) \<Rightarrow> Some (i\<lparr>clients := cs\<rparr>, d)))) s of
                   None \<Rightarrow> None
                 | Some s \<Rightarrow> Some (flag(t := True), s)))))"

definition intra_client_del :: "'d l2l_env \<Rightarrow> mac \<Rightarrow> l2l_iface \<Rightarrow> 'd \<Rightarrow> (l2l_iface \<times> 'd) option" where
  "intra_client_del env c i d =
     (case intra_info i of
        None \<Rightarrow> None
      | Some pr \<Rightarrow>
          (case del_client_flt_rule env i c pr d of
             (pr, d) \<Rightarrow>
               (case at_first (\<lambda>cl. mac_addr cl = c) (del_client_rt_rule env i pr) (clients i) d of
                  (cs, d) \<Rightarrow> Some (i\<lparr>clients := cs, intra_info := Some pr\<rparr>, d))))"

definition iface_client_del :: "'d l2l_env \<Rightarrow> nat \<Rightarrow> mac \<Rightarrow> 'd l2l \<Rightarrow> 'd l2l option" where
  "iface_client_del env p c s =
     (case find_iface p s of
        None \<Rightarrow> None
      | Some i \<Rightarrow>
          (if \<not> (\<exists>cl \<in> set (clients i). mac_addr cl = c) then Some s
           else
             (case (if inter_offload i then fold_opt (client_del_peer env p c) (map peer (peers i)) (\<lambda>_. False, s)
                    else Some (\<lambda>_. False, s)) of
                None \<Rightarrow> None
              | Some (_, s) \<Rightarrow>
                  (case (if intra_offload i then on_iface p (intra_client_del env c) s else Some s) of
                     None \<Rightarrow> None
                   | Some s \<Rightarrow>
                       on_iface p (\<lambda>i d. Some (i\<lparr>clients := erase_first (\<lambda>cl. mac_addr cl = c) (clients i)\<rparr>, d)) s))))"

section \<open>An interface goes down\<close>

text \<open>What the peer \<open>j\<close> drops of the interface \<open>p\<close>, when it has it in its list.\<close>

definition drop_peer :: "'d l2l_env \<Rightarrow> nat \<Rightarrow> l2l_iface \<Rightarrow> 'd \<Rightarrow> (l2l_iface \<times> 'd) option" where
  "drop_peer env p j d =
     (case find (\<lambda>pr. peer pr = p) (peers j) of
        None \<Rightarrow> Some (j, d)
      | Some pr \<Rightarrow>
          (case clear_all_flt_rule_for_one_peer_iface env j pr d of
             (_, d) \<Rightarrow>
               (case clear_all_rt_rule_for_one_peer_iface env pr j d of
                  None \<Rightarrow> None
                | Some (j, d) \<Rightarrow>
                    Some (del_hdr_proc_ctx env (l2_of env p) (j\<lparr>peers := erase_first (\<lambda>pr. peer pr = p) (peers j)\<rparr>) d))))"

definition down_peer :: "'d l2l_env \<Rightarrow> nat \<Rightarrow> nat \<Rightarrow> 'd l2l \<Rightarrow> 'd l2l option" where
  "down_peer env p q s =
     (case on_iface p (\<lambda>i d. Some (decrement_ref_cnt_peer_l2_hdr_type (l2_of env q) i, d)) s of
        None \<Rightarrow> None
      | Some s \<Rightarrow>
     (case on_iface q (\<lambda>j d. Some (decrement_ref_cnt_peer_l2_hdr_type (l2_of env p) j, d)) s of
        None \<Rightarrow> None
      | Some s \<Rightarrow>
     (case on_iface p (\<lambda>i d. Some (at_peer q (clear_all_flt_rule_for_one_peer_iface env i) i d)) s of
        None \<Rightarrow> None
      | Some s \<Rightarrow>
     (case on_iface q (drop_peer env p) s of
        None \<Rightarrow> None
      | Some s \<Rightarrow>
          on_iface p (\<lambda>i d.
            (case find (\<lambda>pr. peer pr = q) (peers i) of
               None \<Rightarrow> None
             | Some pr \<Rightarrow>
                 (case clear_all_rt_rule_for_one_peer_iface env pr i d of
                    None \<Rightarrow> None
                  | Some (i, d) \<Rightarrow> Some (del_hdr_proc_ctx env (l2_of env q) i d)))) s))))"

definition intra_down :: "'d l2l_env \<Rightarrow> l2l_iface \<Rightarrow> 'd \<Rightarrow> (l2l_iface \<times> 'd) option" where
  "intra_down env i d =
     (case intra_info i of
        None \<Rightarrow> None
      | Some pr \<Rightarrow>
          (case clear_all_flt_rule_for_one_peer_iface env i pr d of
             (pr, d) \<Rightarrow>
               (case clear_all_rt_rule_for_one_peer_iface env pr (i\<lparr>intra_info := Some pr\<rparr>) d of
                  None \<Rightarrow> None
                | Some (i, d) \<Rightarrow> Some (i, eth_bridge_del_hdr_proc_ctx env (ctx_intra i) d))))"

definition handle_down_event :: "'d l2l_env \<Rightarrow> nat \<Rightarrow> 'd l2l \<Rightarrow> 'd l2l option" where
  "handle_down_event env p s =
     (case find_iface p s of
        None \<Rightarrow> None
      | Some i \<Rightarrow>
          (case (if inter_offload i then
                   (case fold_opt (down_peer env p) (map peer (peers i)) s of
                      None \<Rightarrow> None
                    | Some s \<Rightarrow> on_iface p (\<lambda>i d. Some (i\<lparr>peers := []\<rparr>, d)) s)
                 else Some s) of
             None \<Rightarrow> None
           | Some s \<Rightarrow>
               (case (if intra_offload i then on_iface p (intra_down env) s else Some s) of
                  None \<Rightarrow> None
                | Some s \<Rightarrow> on_iface p (\<lambda>i d. Some (i\<lparr>clients := []\<rparr>, d)) s)))"

section \<open>Events\<close>

definition handle_client_add :: "'d l2l_env \<Rightarrow> eth_event \<Rightarrow> 'd l2l \<Rightarrow> 'd l2l option" where
  "handle_client_add env ev s =
     (case find_iface (ev_iface ev) s of
        Some _ \<Rightarrow> iface_client_add env (ev_iface ev) (ev_mac ev) (ev_ep ev) s
      | None \<Rightarrow>
          Some (if length (m_cached_client_add_event s) < MAX_NUM_CACHED_CLIENT_ADD_EVENT
                then s\<lparr>m_cached_client_add_event := ev # m_cached_client_add_event s\<rparr> else s))"

definition handle_client_del :: "'d l2l_env \<Rightarrow> eth_event \<Rightarrow> 'd l2l \<Rightarrow> 'd l2l option" where
  "handle_client_del env ev s =
     (case find_iface (ev_iface ev) s of
        Some _ \<Rightarrow> iface_client_del env (ev_iface ev) (ev_mac ev) s
      | None \<Rightarrow> Some s)"

text \<open>The cached events of an interface are handled from the front of the list and erased.\<close>

definition handle_cached_client_add_event :: "'d l2l_env \<Rightarrow> nat \<Rightarrow> 'd l2l \<Rightarrow> 'd l2l option" where
  "handle_cached_client_add_event env p s =
     (case fold_opt (handle_client_add env) (filter (\<lambda>ev. ev_iface ev = p) (m_cached_client_add_event s)) s of
        None \<Rightarrow> None
      | Some s \<Rightarrow> Some (s\<lparr>m_cached_client_add_event := filter (\<lambda>ev. ev_iface ev \<noteq> p) (m_cached_client_add_event s)\<rparr>))"

definition clear_cached_client_add_event :: "nat \<Rightarrow> 'd l2l \<Rightarrow> 'd l2l" where
  "clear_cached_client_add_event p s =
     s\<lparr>m_cached_client_add_event := filter (\<lambda>ev. ev_iface ev \<noteq> p) (m_cached_client_add_event s)\<rparr>"

text \<open>The interface is known: a second address family becomes active.\<close>

definition family_up :: "'d l2l_env \<Rightarrow> nat \<Rightarrow> ipa_ip_type \<Rightarrow> l2l_iface \<Rightarrow> 'd l2l \<Rightarrow> 'd l2l option" where
  "family_up env p ip i s =
     (if ip_assigned i ip then Some s
      else
        (case on_iface p (\<lambda>i d. Some (i\<lparr>ip_assigned := (ip_assigned i)(ip := True)\<rparr>, d)) s of
           None \<Rightarrow> None
         | Some s \<Rightarrow>
             (case (if inter_offload i then add_all_inter_interface_client_flt_rule env ip p s else Some s) of
                None \<Rightarrow> None
              | Some s \<Rightarrow>
                  if intra_offload i then on_iface p (add_all_intra_interface_client_flt_rule env ip) s else Some s)))"

text \<open>The pairing of a new interface with one that was there before.\<close>

definition pair_up :: "'d l2l_env \<Rightarrow> nat \<Rightarrow> nat \<Rightarrow> 'd l2l \<Rightarrow> 'd l2l option" where
  "pair_up env new old s =
     (case find_iface old s of
        None \<Rightarrow> None
      | Some j \<Rightarrow>
          (if inter_offload j then
             (case handle_new_iface_up env new old s of
                None \<Rightarrow> None
              | Some s \<Rightarrow> on_iface old (add_client_rt_rule_for_new_iface env) s)
           else Some s))"

definition iface_up_new :: "'d l2l_env \<Rightarrow> nat \<Rightarrow> ipa_ip_type \<Rightarrow> 'd l2l \<Rightarrow> 'd l2l option" where
  "iface_up_new env p ip s =
     (let i = (new_iface env p)\<lparr>ip_assigned := (\<lambda>_. False)(ip := True)\<rparr>;
          olds = map m_p_iface (m_iface s);
          s = s\<lparr>m_iface := i # m_iface s\<rparr> in
      case (if inter_offload i then
              (case fold_opt (pair_up env p) olds s of
                 None \<Rightarrow> None
               | Some s \<Rightarrow> add_all_inter_interface_client_flt_rule env ip p s)
            else Some s) of
        None \<Rightarrow> None
      | Some s \<Rightarrow>
          (case (if intra_offload i then on_iface p (handle_intra_interface_info env) s else Some s) of
             None \<Rightarrow> None
           | Some s \<Rightarrow> handle_cached_client_add_event env p s))"

definition handle_iface_up :: "'d l2l_env \<Rightarrow> nat \<Rightarrow> ipa_ip_type \<Rightarrow> 'd l2l \<Rightarrow> 'd l2l option" where
  "handle_iface_up env p ip s =
     (case find_iface p s of
        Some i \<Rightarrow> family_up env p ip i s
      | None \<Rightarrow>
          (if length (m_iface s) = MAX_NUM_IFACE then Some s
           else if tx_props (lans env p) = [] \<or> rx_props (lans env p) = [] then Some s
           else if l2_of env p = IPA_HDR_L2_NONE \<or> l2_of env p = IPA_HDR_L2_MAX then Some s
           else iface_up_new env p ip s))"

definition handle_iface_down :: "'d l2l_env \<Rightarrow> nat \<Rightarrow> 'd l2l \<Rightarrow> 'd l2l option" where
  "handle_iface_down env p s =
     (case find_iface p s of
        None \<Rightarrow> Some (clear_cached_client_add_event p s)
      | Some _ \<Rightarrow>
          (case handle_down_event env p s of
             None \<Rightarrow> None
           | Some s \<Rightarrow> Some (s\<lparr>m_iface := erase_first (\<lambda>i. m_p_iface i = p) (m_iface s)\<rparr>)))"

definition handle_wlan_scc_mcc_switch :: "'d l2l_env \<Rightarrow> nat \<Rightarrow> 'd l2l \<Rightarrow> 'd l2l option" where
  "handle_wlan_scc_mcc_switch env p s =
     (case find_iface p s of
        None \<Rightarrow> Some s
      | Some i \<Rightarrow> Some (s\<lparr>drv := iface_scc_mcc_switch env i (drv s)\<rparr>))"

datatype l2l_event =
  IFACE_UP nat ipa_ip_type
| IFACE_DOWN nat
| CLIENT_ADD eth_event
| CLIENT_DEL eth_event
| SCC_MCC_SWITCH nat

fun l2l_event_callback :: "'d l2l_env \<Rightarrow> l2l_event \<Rightarrow> 'd l2l \<Rightarrow> 'd l2l option" where
  "l2l_event_callback env (IFACE_UP p ip) s = handle_iface_up env p ip s"
| "l2l_event_callback env (IFACE_DOWN p) s = handle_iface_down env p s"
| "l2l_event_callback env (CLIENT_ADD ev) s = handle_client_add env ev s"
| "l2l_event_callback env (CLIENT_DEL ev) s = handle_client_del env ev s"
| "l2l_event_callback env (SCC_MCC_SWITCH p) s = handle_wlan_scc_mcc_switch env p s"

definition l2l_start :: "'d \<Rightarrow> 'd l2l" where
  "l2l_start d = \<lparr>m_iface = [], m_cached_client_add_event = [], drv = d\<rparr>"

end
