(* ===== verification/L2l_Inv.thy ===== *)
theory L2l_Inv
  imports Lan_To_Lan
begin

text \<open>
  The rules the LAN to LAN offload owns, the invariant of its lists, and what each function does to
  both. \<open>own\<close> collects the entries of the hardware an interface holds handles of; every function
  moves the hardware by exactly the change of what is owned.
\<close>

section \<open>Results\<close>

text \<open>A call may fault only when \<open>G\<close> does not hold, and otherwise its result satisfies \<open>P\<close>.\<close>

definition lands :: "bool \<Rightarrow> ('s \<Rightarrow> bool) \<Rightarrow> 's option \<Rightarrow> bool" where
  "lands G P r \<longleftrightarrow> (case r of None \<Rightarrow> \<not> G | Some s \<Rightarrow> P s)"

lemma lands_simps [simp]: "lands G P None \<longleftrightarrow> \<not> G" "lands G P (Some s) \<longleftrightarrow> P s"
  by (simp_all add: lands_def)

lemma lands_weaken: "lands G P r \<Longrightarrow> (\<And>s. P s \<Longrightarrow> Q s) \<Longrightarrow> lands G Q r"
  by (cases r) auto

lemma lands_bind: "lands G P r \<Longrightarrow> (\<And>s. P s \<Longrightarrow> lands G Q (f s)) \<Longrightarrow> lands G Q (case r of None \<Rightarrow> None | Some s \<Rightarrow> f s)"
  by (cases r) auto

lemma lands_if: "(b \<Longrightarrow> lands G P r) \<Longrightarrow> (\<not> b \<Longrightarrow> lands G P r') \<Longrightarrow> lands G P (if b then r else r')"
  by simp

text \<open>A loop: \<open>I xs s\<close> holds with \<open>xs\<close> still to come.\<close>

lemma lands_fold:
  assumes "I xs s" and "\<And>x xs s. I (x # xs) s \<Longrightarrow> lands G (I xs) (f x s)"
  shows "lands G (I []) (fold_opt f xs s)"
  using assms(1)
proof (induction xs arbitrary: s)
  case (Cons x xs)
  from assms(2) [OF Cons.prems] show ?case by (cases "f x s") (simp_all add: Cons.IH)
qed simp

section \<open>What is owned\<close>

definition sum_l2 :: "(l2_type \<Rightarrow> hw_entry multiset) \<Rightarrow> hw_entry multiset" where
  "sum_l2 f = f IPA_HDR_L2_NONE + f IPA_HDR_L2_ETHERNET_II + f IPA_HDR_L2_802_3 + f IPA_HDR_L2_MAX"

definition sum_ip :: "(ipa_ip_type \<Rightarrow> hw_entry multiset) \<Rightarrow> hw_entry multiset" where
  "sum_ip f = f IPA_IP_v4 + f IPA_IP_v6"

definition rt_info :: "(ipa_ip_type \<Rightarrow> string) \<Rightarrow> mac \<Rightarrow> u32 \<Rightarrow> rt_rule_info \<Rightarrow> hw_entry multiset" where
  "rt_info tbl m ctx hs = sum_ip (\<lambda>ip. rts ip (tbl ip) m ctx (hs ip))"

definition own_client :: "'d l2l_env \<Rightarrow> l2l_iface \<Rightarrow> client_info \<Rightarrow> hw_entry multiset" where
  "own_client env i c =
     sum_l2 (\<lambda>t. rt_info (rt_tbl_name env t (l2_of env (m_p_iface i))) (mac_addr c) (ctx_inter i t) (inter_rt c t)) +
     rt_info (intra_tbl_name env) (mac_addr c) (ctx_intra i) (intra_rt c)"

definition own_flt :: "flt_rule_info \<Rightarrow> hw_entry multiset" where
  "own_flt f = sum_ip (\<lambda>ip. flts ip (p_client f) (flt_rule_hdl f ip))"

definition own_peer :: "peer_iface_info \<Rightarrow> hw_entry multiset" where
  "own_peer pr = (\<Sum>f\<leftarrow>flt_list pr. own_flt f)"

text \<open>\<open>T\<close> says for which types of peers the header processing context is owned, \<open>b\<close> the same for the own one.\<close>

definition own_gen :: "(l2_type \<Rightarrow> bool) \<Rightarrow> bool \<Rightarrow> 'd l2l_env \<Rightarrow> l2l_iface \<Rightarrow> hw_entry multiset" where
  "own_gen T b env i =
     (\<Sum>c\<leftarrow>clients i. own_client env i c) + (\<Sum>pr\<leftarrow>peers i. own_peer pr) +
     (case intra_info i of None \<Rightarrow> {#} | Some pr \<Rightarrow> own_peer pr) +
     sum_l2 (\<lambda>t. if T t then {#Ctx (ctx_inter i t)#} else {#}) + (if b then {#Ctx (ctx_intra i)#} else {#})"

definition own :: "'d l2l_env \<Rightarrow> l2l_iface \<Rightarrow> hw_entry multiset" where
  "own env i = own_gen (\<lambda>t. 0 < ref_cnt i t) (intra_info i \<noteq> None) env i"

lemma sum_l2_split: "sum_l2 f = f t + sum_l2 (\<lambda>u. if u = t then {#} else f u)"
  by (cases t) (simp_all add: sum_l2_def)

lemma sum_l2_cong: "(\<And>t. f t = g t) \<Longrightarrow> sum_l2 f = sum_l2 g"
  by (simp add: sum_l2_def)

lemma rt_info_Nil [simp]: "rt_info tbl m ctx (\<lambda>_. []) = {#}"
  by (simp add: rt_info_def sum_ip_def)

lemma own_flt_0 [simp]: "own_flt \<lparr>p_client = c, flt_rule_hdl = (\<lambda>_. 0)\<rparr> = {#}"
  by (simp add: own_flt_def sum_ip_def)

section \<open>Routing rules\<close>

definition driver_grants :: "'d ipa_dev \<Rightarrow> bool" where
  "driver_grants dv \<longleftrightarrow>
     (\<forall>ip tbl rules d. fst (fst (ADD_RT_RULE dv ip tbl rules d)) = 0) \<and>
     (\<forall>n d. fst (fst (GET_HDR dv n d)) = 0) \<and>
     (\<forall>ty t d. fst (fst (ADD_HDR_PROC_CTX dv ty t d)) = 0)"

lemma rt_rule_granted:
  assumes "driver_grants (dev env)" and "rt_opened (dev env)" and lan: "lan_ok env lan"
  shows "\<exists>hs d'. eth_bridge_add_rt_rule env lan m tbl ctx t ip d = (Some hs, d')"
proof -
  define alt where "alt \<longleftrightarrow> ipa_if_cate lan = WLAN_IF \<and> isMCC_Mode env"
  obtain rules where rules: "rt_rules_of env alt m ctx t ip (each_client_rt_rule_count lan ip) (\<lambda>_. - 1) (tx_props lan) [] = Some rules"
    using lan rt_rules_of_fits [of "[]" ip "tx_props lan" "each_client_rt_rule_count lan ip" env alt m ctx t "\<lambda>_. - 1"]
    by (auto simp: lan_ok_def each_client_rt_rule_count_def)
  have "\<not> (\<exists>x \<in> set rules. IPA_CLIENT_MAX (dev env) < rt_dst x)"
    using rt_rules_of_props [OF rules] lan by (auto simp: lan_ok_def not_less split: if_splits)
  moreover obtain ret hdls d' where "ADD_RT_RULE (dev env) ip tbl rules d = ((ret, hdls), d')" by (metis surj_pair)
  moreover have "ret = 0"
    using assms(1) calculation(2) unfolding driver_grants_def by (metis fst_conv)
  ultimately show ?thesis
    using rules assms(2) by (simp add: eth_bridge_add_rt_rule_def AddRoutingRule_def alt_def)
qed

lemma add_rt_both_moves:
  assumes ok: "driver_ok hw failed (dev env)" and lan: "lan_ok env lan"
  shows "lands (driver_grants (dev env))
     (\<lambda>(hs, d'). moves hw failed d d' {#} (rt_info tbl m ctx hs) \<and> (\<forall>ip. 0 \<notin> set (hs ip)))
     (add_rt_both env lan m tbl ctx t d)"
proof -
  obtain r4 d4 where a4: "eth_bridge_add_rt_rule env lan m (tbl IPA_IP_v4) ctx t IPA_IP_v4 d = (r4, d4)" by fastforce
  show ?thesis
  proof (cases r4)
    case None
    then show ?thesis
      using a4 rt_rule_granted [OF _ driver_okD(1) [OF ok] lan, of m "tbl IPA_IP_v4" ctx t IPA_IP_v4 d]
      by (auto simp: add_rt_both_def)
  next
    case (Some v4)
    note m4 = eth_bridge_add_rt_rule_moves [OF ok lan a4]
    obtain r6 d6 where a6: "eth_bridge_add_rt_rule env lan m (tbl IPA_IP_v6) ctx t IPA_IP_v6 d4 = (r6, d6)" by fastforce
    note m6 = eth_bridge_add_rt_rule_moves [OF ok lan a6]
    show ?thesis
    proof (cases r6)
      case None
      then show ?thesis using m6(2) m4(3) [OF Some] a4 Some a6 by (auto simp: add_rt_both_def moves_def)
    next
      case (Some v6)
      have "moves hw failed d d6 ({#} + {#}) (rts IPA_IP_v4 (tbl IPA_IP_v4) m ctx v4 + rts IPA_IP_v6 (tbl IPA_IP_v6) m ctx v6)"
        by (rule moves_par [OF m4(1) m6(1)]) fact+
      then show ?thesis
        using a4 \<open>r4 = Some v4\<close> a6 Some m4(3) [OF \<open>r4 = Some v4\<close>] m6(3) [OF Some]
        by (auto simp: add_rt_both_def rt_info_def sum_ip_def split: ipa_ip_type.split)
    qed
  qed
qed

lemma del_rts_moves:
  assumes "driver_ok hw failed (dev env)"
  shows "moves hw failed d (fold (\<lambda>h. eth_bridge_del_rt_rule env h ip) hs d) (rts ip tbl m ctx hs) {#}"
proof (induction hs arbitrary: d)
  case (Cons h hs)
  have "moves hw failed d (fold (\<lambda>h. eth_bridge_del_rt_rule env h ip) (h # hs) d) (rts ip tbl m ctx [h] + rts ip tbl m ctx hs) ({#} + {#})"
    using moves_par [OF eth_bridge_del_rt_rule_moves [OF assms] Cons.IH] by simp
  then show ?case by simp
qed simp

lemma del_rt_both_moves:
  assumes "driver_ok hw failed (dev env)"
  shows "moves hw failed d (del_rt_both env hs d) (rt_info tbl m ctx hs) {#}"
  using moves_par [OF del_rts_moves [OF assms] del_rts_moves [OF assms]]
  unfolding del_rt_both_def rt_info_def sum_ip_def by fastforce

lemma own_client_inter:
  "own_client env i (c\<lparr>inter_rt := (inter_rt c)(t := hs)\<rparr>) =
     rt_info (rt_tbl_name env t (l2_of env (m_p_iface i))) (mac_addr c) (ctx_inter i t) hs +
     own_client env i (c\<lparr>inter_rt := (inter_rt c)(t := \<lambda>_. [])\<rparr>)"
  by (cases t) (simp_all add: own_client_def sum_l2_def)

lemma own_client_intra:
  "own_client env i (c\<lparr>intra_rt := hs\<rparr>) =
     rt_info (intra_tbl_name env) (mac_addr c) (ctx_intra i) hs + own_client env i (c\<lparr>intra_rt := \<lambda>_. []\<rparr>)"
  by (simp add: own_client_def)

lemma client_upd_same [simp]:
  "inter_rt c t = hs \<Longrightarrow> c\<lparr>inter_rt := (inter_rt c)(t := hs)\<rparr> = c"
  "intra_rt c = hs' \<Longrightarrow> c\<lparr>intra_rt := hs'\<rparr> = c"
  by auto

text \<open>A client to which no rules of the kind in question belong gets them, or loses all of them.\<close>

definition client_nz :: "client_info \<Rightarrow> bool" where
  "client_nz c \<longleftrightarrow> (\<forall>t ip. 0 \<notin> set (inter_rt c t ip)) \<and> (\<forall>ip. 0 \<notin> set (intra_rt c ip))"

lemma add_client_rt_rule_inter:
  assumes ok: "driver_ok hw failed (dev env)" and lan: "lan_ok env (lans env (m_p_iface i))"
    and q: "peer pr \<noteq> m_p_iface i" and tbl: "rt_tbl_name_for_rt pr = rt_tbl_name env (l2_of env (peer pr)) (l2_of env (m_p_iface i))"
    and e: "inter_rt c (l2_of env (peer pr)) = (\<lambda>_. [])" and nz: "client_nz c"
  shows "lands (driver_grants (dev env))
     (\<lambda>(c', d'). moves hw failed d d' (own_client env i c) (own_client env i c') \<and> client_nz c' \<and>
        (\<exists>hs. c' = c\<lparr>inter_rt := (inter_rt c)(l2_of env (peer pr) := hs)\<rparr>))
     (add_client_rt_rule env i pr c d)"
proof -
  let ?t = "l2_of env (peer pr)"
  have m: "moves hw failed d d' (own_client env i c) (own_client env i (c\<lparr>inter_rt := (inter_rt c)(?t := hs)\<rparr>))"
    if "moves hw failed d d' {#} (rt_info (rt_tbl_name_for_rt pr) (mac_addr c) (ctx_inter i ?t) hs)" for hs d'
    using moves_frame' [OF that, of "own_client env i c"] e
    unfolding tbl own_client_inter [of env i c ?t hs] by simp
  show ?thesis
    using add_rt_both_moves [OF ok lan, of d "rt_tbl_name_for_rt pr" "mac_addr c" "ctx_inter i ?t" ?t] q m nz
    by (auto simp: add_client_rt_rule_def Let_def client_nz_def split: option.splits)
qed

lemma add_client_rt_rule_intra:
  assumes ok: "driver_ok hw failed (dev env)" and lan: "lan_ok env (lans env (m_p_iface i))"
    and q: "peer pr = m_p_iface i" and tbl: "rt_tbl_name_for_rt pr = intra_tbl_name env"
    and e: "intra_rt c = (\<lambda>_. [])" and nz: "client_nz c"
  shows "lands (driver_grants (dev env))
     (\<lambda>(c', d'). moves hw failed d d' (own_client env i c) (own_client env i c') \<and> client_nz c' \<and>
        (\<exists>hs. c' = c\<lparr>intra_rt := hs\<rparr>))
     (add_client_rt_rule env i pr c d)"
proof -
  have m: "moves hw failed d d' (own_client env i c) (own_client env i (c\<lparr>intra_rt := hs\<rparr>))"
    if "moves hw failed d d' {#} (rt_info (rt_tbl_name_for_rt pr) (mac_addr c) (ctx_intra i) hs)" for hs d'
    using moves_frame' [OF that, of "own_client env i c"] e
    unfolding tbl own_client_intra [of env i hs c] by simp
  show ?thesis
    using add_rt_both_moves [OF ok lan, of d "rt_tbl_name_for_rt pr" "mac_addr c" "ctx_intra i" "l2_of env (peer pr)"] q m nz
    by (auto simp: add_client_rt_rule_def Let_def client_nz_def split: option.splits)
qed

lemma del_client_rt_rule_moves:
  assumes ok: "driver_ok hw failed (dev env)" and r: "del_client_rt_rule env i pr c d = (c', d')"
  shows "moves hw failed d d' (own_client env i c) (own_client env i c')"
proof (cases "peer pr \<noteq> m_p_iface i")
  case True
  have "moves hw failed d d' (rt_info (rt_tbl_name env (l2_of env (peer pr)) (l2_of env (m_p_iface i))) (mac_addr c)
      (ctx_inter i (l2_of env (peer pr))) (inter_rt c (l2_of env (peer pr)))) {#}"
    using del_rt_both_moves [OF ok] r True by (auto simp: del_client_rt_rule_def Let_def)
  from moves_frame' [OF this, of "own_client env i c'"] show ?thesis
    using own_client_inter [of env i c "l2_of env (peer pr)" "inter_rt c (l2_of env (peer pr))"] r True
    by (auto simp: del_client_rt_rule_def Let_def)
next
  case False
  have "moves hw failed d d' (rt_info (intra_tbl_name env) (mac_addr c) (ctx_intra i) (intra_rt c)) {#}"
    using del_rt_both_moves [OF ok] r False by (auto simp: del_client_rt_rule_def Let_def)
  from moves_frame' [OF this, of "own_client env i c'"] show ?thesis
    using own_client_intra [of env i "intra_rt c" c] r False
    by (auto simp: del_client_rt_rule_def Let_def)
qed

section \<open>Lists that are searched\<close>

lemma at_first_none: "(\<And>x. x \<in> set xs \<Longrightarrow> \<not> P x) \<Longrightarrow> at_first P f xs s = (xs, s)"
  by (induction xs) auto

lemma at_first_split:
  assumes "x \<in> set xs" and "P x"
  shows "\<exists>us x vs. xs = us @ x # vs \<and> P x \<and> (\<forall>u \<in> set us. \<not> P u) \<and>
           at_first P f xs s = (us @ fst (f x s) # vs, snd (f x s)) \<and> erase_first P xs = us @ vs \<and> find P xs = Some x"
  using assms
proof (induction xs)
  case (Cons y ys)
  show ?case
  proof (cases "P y")
    case True
    then show ?thesis by (intro exI [of _ "[]"] exI [of _ y] exI [of _ ys]) (simp split: prod.split)
  next
    case False
    then have "x \<in> set ys" using Cons.prems by auto
    with Cons.IH Cons.prems(2) obtain us z vs where
      r: "ys = us @ z # vs" "P z" "\<forall>u \<in> set us. \<not> P u" "at_first P f ys s = (us @ fst (f z s) # vs, snd (f z s))"
        "erase_first P ys = us @ vs" "find P ys = Some z" by blast
    then show ?thesis
      using False by (intro exI [of _ "y # us"] exI [of _ z] exI [of _ vs]) (simp split: prod.split)
  qed
qed simp

lemma find_SomeD: "find P xs = Some x \<Longrightarrow> x \<in> set xs \<and> P x"
  by (induction xs) (auto split: if_splits)

lemma find_NoneD: "find P xs = None \<Longrightarrow> x \<in> set xs \<Longrightarrow> \<not> P x"
  by (simp add: find_None_iff)

lemma find_unique: "distinct (map k xs) \<Longrightarrow> x \<in> set xs \<Longrightarrow> find (\<lambda>y. k y = k x) xs = Some x"
  by (induction xs) (auto simp: image_iff)

section \<open>Filter rules\<close>

text \<open>The filter rules kept for a peer: each client once, only for active families; \<open>no_flt\<close> when there is none.\<close>

definition flt_wf :: "(ipa_ip_type \<Rightarrow> bool) \<Rightarrow> mac set \<Rightarrow> peer_iface_info \<Rightarrow> bool" where
  "flt_wf A M pr \<longleftrightarrow> distinct (map p_client (flt_list pr)) \<and> p_client ` set (flt_list pr) \<subseteq> M \<and>
     (\<forall>f \<in> set (flt_list pr). \<forall>ip. \<not> A ip \<longrightarrow> flt_rule_hdl f ip = 0)"

definition no_flt :: "peer_iface_info \<Rightarrow> mac \<Rightarrow> ipa_ip_type \<Rightarrow> bool" where
  "no_flt pr c ip \<longleftrightarrow> (\<forall>f \<in> set (flt_list pr). p_client f = c \<longrightarrow> flt_rule_hdl f ip = 0)"

definition same_peer :: "peer_iface_info \<Rightarrow> peer_iface_info \<Rightarrow> bool" where
  "same_peer pr pr' \<longleftrightarrow> peer pr' = peer pr \<and> rt_tbl_name_for_rt pr' = rt_tbl_name_for_rt pr \<and>
     rt_tbl_name_for_flt pr' = rt_tbl_name_for_flt pr"

lemma same_peer_refl [simp]: "same_peer pr pr"
  by (simp add: same_peer_def)

lemma same_peer_trans: "same_peer a b \<Longrightarrow> same_peer b c \<Longrightarrow> same_peer a c"
  by (simp add: same_peer_def)

lemma same_peer_upd [simp]: "same_peer pr (pr\<lparr>flt_list := fs\<rparr>)"
  by (simp add: same_peer_def)

lemma own_flt_upd:
  "flt_rule_hdl f ip = 0 \<Longrightarrow>
   own_flt (f\<lparr>flt_rule_hdl := (flt_rule_hdl f)(ip := h)\<rparr>) = flts ip (p_client f) h + own_flt f"
  by (cases ip) (simp_all add: own_flt_def sum_ip_def)

lemma add_client_flt_rule_moves:
  assumes ok: "driver_ok hw failed (dev env)" and fr: "no_flt pr c ip"
    and r: "add_client_flt_rule env i c ip pr d = (pr', d')"
  shows "moves hw failed d d' (own_peer pr) (own_peer pr')" and "same_peer pr pr'"
    and "flt_wf A M pr \<Longrightarrow> A ip \<Longrightarrow> c \<in> M \<Longrightarrow> flt_wf A M pr'"
    and "(c', ip') \<noteq> (c, ip) \<Longrightarrow> no_flt pr c' ip' \<Longrightarrow> no_flt pr' c' ip'"
proof -
  obtain tb d1 where g: "GetRoutingTable (dev env) ip (rt_tbl_name_for_flt pr ip) d = (tb, d1)" by fastforce
  note mg = GetRoutingTable_moves [OF ok g]
  have "moves hw failed d d' (own_peer pr) (own_peer pr') \<and> same_peer pr pr' \<and>
    (flt_wf A M pr \<longrightarrow> A ip \<longrightarrow> c \<in> M \<longrightarrow> flt_wf A M pr') \<and>
    ((c', ip') \<noteq> (c, ip) \<longrightarrow> no_flt pr c' ip' \<longrightarrow> no_flt pr' c' ip')"
  proof (cases tb)
    case None
    then show ?thesis using r g mg by (simp add: add_client_flt_rule_def)
  next
    case (Some tbl)
    obtain h d2 where a: "eth_bridge_add_flt_rule env (lans env (m_p_iface i)) c tbl ip d1 = (h, d2)" by fastforce
    have ma: "moves hw failed d d2 (own_peer pr) (flts ip c h + own_peer pr)"
      using moves_trans [OF mg moves_frame' [OF eth_bridge_add_flt_rule_moves [OF ok a]]] by simp
    show ?thesis
    proof (cases "\<exists>f \<in> set (flt_list pr). p_client f = c")
      case True
      then obtain f where "f \<in> set (flt_list pr)" "p_client f = c" by blast
      from at_first_split [of f "flt_list pr" "\<lambda>f. p_client f = c", OF this,
          of "\<lambda>f d. (f\<lparr>flt_rule_hdl := (flt_rule_hdl f)(ip := h)\<rparr>, d)" d2]
      obtain us f vs where s: "flt_list pr = us @ f # vs" "p_client f = c" "\<forall>u \<in> set us. p_client u \<noteq> c"
        "at_first (\<lambda>f. p_client f = c) (\<lambda>f d. (f\<lparr>flt_rule_hdl := (flt_rule_hdl f)(ip := h)\<rparr>, d)) (flt_list pr) d2 =
           (us @ f\<lparr>flt_rule_hdl := (flt_rule_hdl f)(ip := h)\<rparr> # vs, d2)" by auto
      have e: "pr' = pr\<lparr>flt_list := us @ f\<lparr>flt_rule_hdl := (flt_rule_hdl f)(ip := h)\<rparr> # vs\<rparr>" "d' = d2"
        using r g a Some True s(4) by (auto simp: add_client_flt_rule_def)
      have z: "flt_rule_hdl f ip = 0" using fr s by (simp add: no_flt_def)
      have "own_peer pr' = flts ip c h + own_peer pr"
        using s by (simp add: own_peer_def e own_flt_upd [OF z] ac_simps)
      then show ?thesis
        using ma e s by (auto simp: flt_wf_def no_flt_def)
    next
      case False
      then have e: "pr' = pr\<lparr>flt_list := \<lparr>p_client = c, flt_rule_hdl = (\<lambda>_. 0)(ip := h)\<rparr> # flt_list pr\<rparr>" "d' = d2"
        using r g a Some by (auto simp: add_client_flt_rule_def)
      have "own_flt \<lparr>p_client = c, flt_rule_hdl = (\<lambda>_. 0)(ip := h)\<rparr> = flts ip c h"
        by (cases ip) (simp_all add: own_flt_def sum_ip_def)
      then have "own_peer pr' = flts ip c h + own_peer pr" by (simp add: own_peer_def e)
      then show ?thesis
        using ma e False by (auto simp: flt_wf_def no_flt_def)
    qed
  qed
  then show "moves hw failed d d' (own_peer pr) (own_peer pr')" and "same_peer pr pr'"
    and "flt_wf A M pr \<Longrightarrow> A ip \<Longrightarrow> c \<in> M \<Longrightarrow> flt_wf A M pr'"
    and "(c', ip') \<noteq> (c, ip) \<Longrightarrow> no_flt pr c' ip' \<Longrightarrow> no_flt pr' c' ip'" by blast+
qed

lemma del_flt_both_moves:
  assumes ok: "driver_ok hw failed (dev env)" and "\<And>ip. \<not> ip_assigned i ip \<Longrightarrow> flt_rule_hdl f ip = 0"
  shows "moves hw failed d (del_flt_both env i f d) (own_flt f) {#}"
proof -
  have m: "moves hw failed d (if ip_assigned i ip then eth_bridge_del_flt_rule env (flt_rule_hdl f ip) ip d else d)
      (flts ip (p_client f) (flt_rule_hdl f ip)) {#}" for d ip
    using eth_bridge_del_flt_rule_moves [OF ok] assms(2) by simp
  show ?thesis
    unfolding del_flt_both_def own_flt_def sum_ip_def Let_def
    using moves_par [OF m [of d IPA_IP_v4] m [of _ IPA_IP_v6]] by (simp only: add_0)
qed

lemma del_client_flt_rule_moves:
  assumes ok: "driver_ok hw failed (dev env)" and w: "flt_wf (ip_assigned i) M pr"
    and r: "del_client_flt_rule env i c pr d = (pr', d')"
  shows "moves hw failed d d' (own_peer pr) (own_peer pr')" and "same_peer pr pr'"
    and "flt_wf (ip_assigned i) (M - {c}) pr'"
proof -
  have "moves hw failed d d' (own_peer pr) (own_peer pr') \<and> same_peer pr pr' \<and> flt_wf (ip_assigned i) (M - {c}) pr'"
  proof (cases "\<exists>f \<in> set (flt_list pr). p_client f = c")
    case True
    then obtain f where "f \<in> set (flt_list pr)" "p_client f = c" by blast
    from at_first_split [of f "flt_list pr" "\<lambda>f. p_client f = c", OF this, of "\<lambda>f d. (f, d)" d]
    obtain us f vs where s: "flt_list pr = us @ f # vs" "p_client f = c" "\<forall>u \<in> set us. p_client u \<noteq> c"
      "erase_first (\<lambda>f. p_client f = c) (flt_list pr) = us @ vs" "find (\<lambda>f. p_client f = c) (flt_list pr) = Some f" by blast
    have e: "pr' = pr\<lparr>flt_list := us @ vs\<rparr>" "d' = del_flt_both env i f d"
      using r s(4,5) by (auto simp: del_client_flt_rule_def)
    have "moves hw failed d d' (own_flt f) {#}"
      using del_flt_both_moves [OF ok] w e(2) s(1) by (simp add: flt_wf_def)
    from moves_frame' [OF this, of "own_peer pr'"] have "moves hw failed d d' (own_flt f + own_peer pr') (own_peer pr')" by simp
    moreover have "own_peer pr = own_flt f + own_peer pr'" by (simp add: own_peer_def e(1) s(1) add.left_commute)
    moreover have "flt_wf (ip_assigned i) (M - {c}) pr'" 
    proof -
      have "p_client u \<noteq> c" if "u \<in> set (us @ vs)" for u
        using that w s(1,2) unfolding flt_wf_def by (auto simp: image_iff)
      then show ?thesis using w s(1) unfolding flt_wf_def e(1) by (simp add: image_subset_iff)
    qed
    ultimately show ?thesis by (simp add: e(1))
  next
    case False
    then have "find (\<lambda>f. p_client f = c) (flt_list pr) = None" by (auto simp: find_None_iff)
    then show ?thesis using r w False by (auto simp: del_client_flt_rule_def flt_wf_def)
  qed
  then show "moves hw failed d d' (own_peer pr) (own_peer pr')" and "same_peer pr pr'"
    and "flt_wf (ip_assigned i) (M - {c}) pr'" by blast+
qed

lemma clear_all_flt_moves:
  assumes ok: "driver_ok hw failed (dev env)" and w: "flt_wf (ip_assigned i) M pr"
    and r: "clear_all_flt_rule_for_one_peer_iface env i pr d = (pr', d')"
  shows "moves hw failed d d' (own_peer pr) {#}" and "pr' = pr\<lparr>flt_list := []\<rparr>"
proof -
  have "moves hw failed d (fold (del_flt_both env i) fs d) (\<Sum>f\<leftarrow>fs. own_flt f) {#}"
    if "set fs \<subseteq> set (flt_list pr)" for fs d
    using that
  proof (induction fs arbitrary: d)
    case (Cons f fs)
    then have "moves hw failed d (del_flt_both env i f d) (own_flt f) {#}"
      using w by (intro del_flt_both_moves [OF ok]) (simp add: flt_wf_def)
    from moves_par [OF this Cons.IH] Cons.prems show ?case by simp
  qed simp
  then show "moves hw failed d d' (own_peer pr) {#}" and "pr' = pr\<lparr>flt_list := []\<rparr>"
    using r by (auto simp: clear_all_flt_rule_for_one_peer_iface_def own_peer_def)
qed

section \<open>The invariant of one interface\<close>

definition macs :: "l2l_iface \<Rightarrow> mac list" where
  "macs i = map mac_addr (clients i)"

definition rt_tbls_ok :: "'d l2l_env \<Rightarrow> l2l_iface \<Rightarrow> bool" where
  "rt_tbls_ok env i \<longleftrightarrow>
     (\<forall>pr \<in> set (peers i). rt_tbl_name_for_rt pr = rt_tbl_name env (l2_of env (peer pr)) (l2_of env (m_p_iface i))) \<and>
     (\<forall>pr. intra_info i = Some pr \<longrightarrow> peer pr = m_p_iface i \<and> rt_tbl_name_for_rt pr = intra_tbl_name env)"

text \<open>A client has no rules for types of peers that do not exist, nor within an interface without offload.\<close>

definition client_ok :: "l2l_iface \<Rightarrow> client_info \<Rightarrow> bool" where
  "client_ok i c \<longleftrightarrow> client_nz c \<and> (\<forall>t. ref_cnt i t = 0 \<longrightarrow> inter_rt c t = (\<lambda>_. [])) \<and>
     (intra_info i = None \<longrightarrow> intra_rt c = (\<lambda>_. []))"

text \<open>The reference counts, with \<open>R\<close> the peers that count.\<close>

definition cnt_ok :: "'d l2l_env \<Rightarrow> nat list \<Rightarrow> l2l_iface \<Rightarrow> bool" where
  "cnt_ok env R i \<longleftrightarrow>
     (\<forall>t. ref_cnt i t = int (length (filter (\<lambda>q. l2_of env q = t) R))) \<and>
     (\<forall>c \<in> set (clients i). client_ok i c)"

text \<open>\<open>M q\<close> are the clients of the peer \<open>q\<close>, \<open>N\<close> the interfaces there are.\<close>

definition lists_ok :: "(nat \<Rightarrow> mac set) \<Rightarrow> nat set \<Rightarrow> l2l_iface \<Rightarrow> bool" where
  "lists_ok M N i \<longleftrightarrow>
     distinct (macs i) \<and> length (clients i) \<le> MAX_NUM_CLIENT \<and>
     distinct (map peer (peers i)) \<and> peer ` set (peers i) \<subseteq> N - {m_p_iface i} \<and> (\<not> inter_offload i \<longrightarrow> peers i = []) \<and>
     (\<forall>pr \<in> set (peers i). flt_wf (ip_assigned i) (M (peer pr)) pr) \<and>
     (\<forall>pr. intra_info i = Some pr \<longrightarrow> flt_wf (ip_assigned i) (set (macs i)) pr)"

definition iface_ok :: "'d l2l_env \<Rightarrow> nat list \<Rightarrow> (nat \<Rightarrow> mac set) \<Rightarrow> nat set \<Rightarrow> l2l_iface \<Rightarrow> bool" where
  "iface_ok env R M N i \<longleftrightarrow> lan_ok env (lans env (m_p_iface i)) \<and> tx_props (lans env (m_p_iface i)) \<noteq> [] \<and>
     rt_tbls_ok env i \<and> cnt_ok env R i \<and> lists_ok M N i"

text \<open>What an operation on one interface leaves alone.\<close>

definition same_iface :: "l2l_iface \<Rightarrow> l2l_iface \<Rightarrow> bool" where
  "same_iface i i' \<longleftrightarrow> m_p_iface i' = m_p_iface i \<and> ip_assigned i' = ip_assigned i \<and> inter_offload i' = inter_offload i \<and>
     intra_offload i' = intra_offload i \<and> macs i' = macs i \<and> map peer (peers i') = map peer (peers i) \<and>
     (intra_info i' = None \<longleftrightarrow> intra_info i = None)"

lemma same_iface_refl [simp]: "same_iface i i"
  by (simp add: same_iface_def)

lemma same_iface_trans: "same_iface a b \<Longrightarrow> same_iface b c \<Longrightarrow> same_iface a c"
  by (simp add: same_iface_def)

text \<open>One entry of the list of peers is worked on.\<close>

lemma at_peer_moves:
  assumes d: "distinct (map peer (peers i))" and pr: "pr \<in> set (peers i)" "peer pr = q"
    and f: "f pr d = (pr', d')" "moves hw failed d d' (own_peer pr) (own_peer pr')" "same_peer pr pr'"
    and ok: "iface_ok env R M N i" "flt_wf (ip_assigned i) (M q) pr'"
    and r: "at_peer q f i d = (i', d'')"
  shows "moves hw failed d d'' (own env i) (own env i')" and "iface_ok env R M N i'" and "same_iface i i'" and "d'' = d'"
    and "\<exists>us vs. peers i = us @ pr # vs \<and> i' = i\<lparr>peers := us @ pr' # vs\<rparr> \<and> (\<forall>x \<in> set us \<union> set vs. peer x \<noteq> q)"
proof -
  from at_first_split [of pr "peers i" "\<lambda>pr. peer pr = q", OF pr, of f d]
  obtain us p vs where s: "peers i = us @ p # vs" "peer p = q" "at_first (\<lambda>pr. peer pr = q) f (peers i) d = (us @ fst (f p d) # vs, snd (f p d))"
    by blast
  have "p = pr" using d pr s(1,2) by (auto simp: image_iff)
  then have e: "i' = i\<lparr>peers := us @ pr' # vs\<rparr>" "d'' = d'" using s f(1) r by (auto simp: at_peer_def)
  have o: "\<forall>x \<in> set us \<union> set vs. peer x \<noteq> q" using d s(1,2) by (auto simp: image_iff)
  have "own env i = own_peer pr + own env (i\<lparr>peers := us @ vs\<rparr>)" "own env i' = own_peer pr' + own env (i\<lparr>peers := us @ vs\<rparr>)"
    using s(1) \<open>p = pr\<close> by (simp_all add: own_def own_gen_def own_client_def e ac_simps cong: if_cong)
  then show "moves hw failed d d'' (own env i) (own env i')" using f(2) e(2) by (simp add: moves_frame')
  show "same_iface i i'" using f(3) s(1) \<open>p = pr\<close> by (simp add: same_iface_def e macs_def same_peer_def)
  have "peer pr' = q" using f(3) pr(2) by (simp add: same_peer_def)
  then show "iface_ok env R M N i'"
    using ok f(3) s(1) \<open>p = pr\<close> o
    by (auto simp: iface_ok_def rt_tbls_ok_def cnt_ok_def client_ok_def lists_ok_def macs_def e same_peer_def)
  show "d'' = d'" by fact
  show "\<exists>us vs. peers i = us @ pr # vs \<and> i' = i\<lparr>peers := us @ pr' # vs\<rparr> \<and> (\<forall>x \<in> set us \<union> set vs. peer x \<noteq> q)"
    using s(1) \<open>p = pr\<close> e(1) o by blast
qed

lemma at_peer_none:
  assumes "q \<notin> peer ` set (peers i)"
  shows "at_peer q f i d = (i, d)"
proof -
  have "at_first (\<lambda>pr. peer pr = q) f (peers i) d = (peers i, d)" using assms by (intro at_first_none) auto
  then show ?thesis by (simp add: at_peer_def)
qed

lemma iface_ok_peer:
  assumes "iface_ok env R M N i" and "pr \<in> set (peers i)"
  shows "flt_wf (ip_assigned i) (M (peer pr)) pr" and "distinct (map peer (peers i))"
    and "rt_tbl_name_for_rt pr = rt_tbl_name env (l2_of env (peer pr)) (l2_of env (m_p_iface i))"
    and "peer pr \<noteq> m_p_iface i"
  using assms by (auto simp: iface_ok_def lists_ok_def rt_tbls_ok_def)

text \<open>Adding one filter rule, and the rules of both families when a client is added.\<close>

lemma flt_at_peer_moves:
  assumes ok: "driver_ok hw failed (dev env)" and i: "iface_ok env R M N i" and A: "ip_assigned i ip" and c: "c \<in> M q"
    and fr: "\<And>pr. pr \<in> set (peers i) \<Longrightarrow> peer pr = q \<Longrightarrow> no_flt pr c ip"
    and r: "at_peer q (add_client_flt_rule env i c ip) i d = (i', d')"
  shows "moves hw failed d d' (own env i) (own env i')" and "iface_ok env R M N i'" and "same_iface i i'"
    and "(\<forall>pr \<in> set (peers i). peer pr = q' \<longrightarrow> no_flt pr c' ip') \<Longrightarrow> (q', c', ip') \<noteq> (q, c, ip) \<Longrightarrow>
      (\<forall>pr \<in> set (peers i'). peer pr = q' \<longrightarrow> no_flt pr c' ip')"
proof -
  have "moves hw failed d d' (own env i) (own env i') \<and> iface_ok env R M N i' \<and> same_iface i i' \<and>
    ((\<forall>pr \<in> set (peers i). peer pr = q' \<longrightarrow> no_flt pr c' ip') \<longrightarrow> (q', c', ip') \<noteq> (q, c, ip) \<longrightarrow>
      (\<forall>pr \<in> set (peers i'). peer pr = q' \<longrightarrow> no_flt pr c' ip'))"
  proof (cases "q \<in> peer ` set (peers i)")
    case False
    then show ?thesis using r i by (simp add: at_peer_none)
  next
    case True
    then obtain pr where pr: "pr \<in> set (peers i)" "peer pr = q" by blast
    obtain pr' d1 where a: "add_client_flt_rule env i c ip pr d = (pr', d1)" by fastforce
    note m = add_client_flt_rule_moves [OF ok fr [OF pr] a]
    note w = iface_ok_peer [OF i pr(1)]
    have w': "flt_wf (ip_assigned i) (M q) pr'" using m(3) [OF w(1) A] c pr(2) by simp
    note ap = at_peer_moves [OF w(2) pr a m(1,2) i w' r]
    from ap(5) obtain us vs where s: "peers i = us @ pr # vs" "i' = i\<lparr>peers := us @ pr' # vs\<rparr>" "\<forall>x \<in> set us \<union> set vs. peer x \<noteq> q"
      by blast
    have "peer pr' = q" using m(2) pr(2) by (simp add: same_peer_def)
    then show ?thesis using ap(1-4) s m(4) pr(2) by auto
  qed
  then show "moves hw failed d d' (own env i) (own env i')" and "iface_ok env R M N i'" and "same_iface i i'"
    and "(\<forall>pr \<in> set (peers i). peer pr = q' \<longrightarrow> no_flt pr c' ip') \<Longrightarrow> (q', c', ip') \<noteq> (q, c, ip) \<Longrightarrow>
      (\<forall>pr \<in> set (peers i'). peer pr = q' \<longrightarrow> no_flt pr c' ip')" by blast+
qed

lemma flt_both_moves:
  assumes ok: "driver_ok hw failed (dev env)" and fr: "\<And>ip. no_flt pr c ip"
    and w: "flt_wf (ip_assigned i) M pr" and c: "c \<in> M"
    and r: "(case (if ip_assigned i IPA_IP_v4 then add_client_flt_rule env i c IPA_IP_v4 pr d else (pr, d)) of
          (pr, d) \<Rightarrow> if ip_assigned i IPA_IP_v6 then add_client_flt_rule env i c IPA_IP_v6 pr d else (pr, d)) = (pr', d')"
  shows "moves hw failed d d' (own_peer pr) (own_peer pr') \<and> same_peer pr pr' \<and> flt_wf (ip_assigned i) M pr'"
proof -
  obtain pr1 d1 where s1: "(if ip_assigned i IPA_IP_v4 then add_client_flt_rule env i c IPA_IP_v4 pr d else (pr, d)) = (pr1, d1)"
    by fastforce
  have 1: "moves hw failed d d1 (own_peer pr) (own_peer pr1)" "same_peer pr pr1" "flt_wf (ip_assigned i) M pr1" "no_flt pr1 c IPA_IP_v6"
    using s1 add_client_flt_rule_moves [OF ok fr, of i IPA_IP_v4 d pr1 d1] fr w c by (auto split: if_splits)
  have s2: "(if ip_assigned i IPA_IP_v6 then add_client_flt_rule env i c IPA_IP_v6 pr1 d1 else (pr1, d1)) = (pr', d')"
    using r s1 by simp
  have 2: "moves hw failed d1 d' (own_peer pr1) (own_peer pr')" "same_peer pr1 pr'" "flt_wf (ip_assigned i) M pr'"
    using s2 add_client_flt_rule_moves [OF ok 1(4), of i d1 pr' d'] 1(3) c by (auto split: if_splits)
  show ?thesis using moves_trans [OF 1(1) 2(1)] same_peer_trans [OF 1(2) 2(2)] 2(3) by blast
qed

lemma add_one_moves:
  assumes ok: "driver_ok hw failed (dev env)" and i: "iface_ok env R M N j" and c: "c \<in> M p"
    and fr: "\<And>pr ip. pr \<in> set (peers j) \<Longrightarrow> peer pr = p \<Longrightarrow> no_flt pr c ip"
    and r: "add_one_client_flt_rule env p c j d = (j', d')"
  shows "moves hw failed d d' (own env j) (own env j')" and "iface_ok env R M N j'" and "same_iface j j'"
proof -
  have "moves hw failed d d' (own env j) (own env j') \<and> iface_ok env R M N j' \<and> same_iface j j'"
  proof (cases "p \<in> peer ` set (peers j)")
    case False
    then show ?thesis using r i by (simp add: add_one_client_flt_rule_def at_peer_none)
  next
    case True
    then obtain pr where pr: "pr \<in> set (peers j)" "peer pr = p" by blast
    note w = iface_ok_peer [OF i pr(1)]
    obtain pr' d1 where a: "(case (if ip_assigned j IPA_IP_v4 then add_client_flt_rule env j c IPA_IP_v4 pr d else (pr, d)) of
          (pr, d) \<Rightarrow> if ip_assigned j IPA_IP_v6 then add_client_flt_rule env j c IPA_IP_v6 pr d else (pr, d)) = (pr', d1)"
      by fastforce
    have f: "moves hw failed d d1 (own_peer pr) (own_peer pr') \<and> same_peer pr pr' \<and> flt_wf (ip_assigned j) (M p) pr'"
      by (rule flt_both_moves [OF ok fr [OF pr] w(1) [unfolded pr(2)] c a])
    show ?thesis
      using at_peer_moves [OF w(2) pr a _ _ i _ r [unfolded add_one_client_flt_rule_def], of hw failed] f by blast
  qed
  then show "moves hw failed d d' (own env j) (own env j')" and "iface_ok env R M N j'" and "same_iface j j'" by blast+
qed

lemma del_one_moves:
  assumes ok: "driver_ok hw failed (dev env)" and i: "iface_ok env R M N j"
    and r: "del_one_client_flt_rule env p c j d = (j', d')"
  shows "moves hw failed d d' (own env j) (own env j')" and "iface_ok env R M N j'" and "same_iface j j'"
    and "pr \<in> set (peers j') \<Longrightarrow> peer pr = p \<Longrightarrow> flt_wf (ip_assigned j) (M p - {c}) pr"
    and "pr \<in> set (peers j') \<Longrightarrow> peer pr \<noteq> p \<Longrightarrow> pr \<in> set (peers j)"
proof -
  have "moves hw failed d d' (own env j) (own env j') \<and> iface_ok env R M N j' \<and> same_iface j j' \<and>
    (pr \<in> set (peers j') \<longrightarrow> peer pr = p \<longrightarrow> flt_wf (ip_assigned j) (M p - {c}) pr) \<and>
    (pr \<in> set (peers j') \<longrightarrow> peer pr \<noteq> p \<longrightarrow> pr \<in> set (peers j))"
  proof (cases "p \<in> peer ` set (peers j)")
    case False
    then show ?thesis using r i by (auto simp: del_one_client_flt_rule_def at_peer_none)
  next
    case True
    then obtain p0 where p0: "p0 \<in> set (peers j)" "peer p0 = p" by blast
    note w = iface_ok_peer [OF i p0(1)]
    obtain pr' d1 where a: "del_client_flt_rule env j c p0 d = (pr', d1)" by fastforce
    note m = del_client_flt_rule_moves [OF ok w(1) [unfolded p0(2)] a]
    have w': "flt_wf (ip_assigned j) (M p) pr'" using m(3) by (auto simp: flt_wf_def)
    note ap = at_peer_moves [OF w(2) p0 a m(1,2) i w' r [unfolded del_one_client_flt_rule_def]]
    from ap(5) obtain us vs where s: "peers j = us @ p0 # vs" "j' = j\<lparr>peers := us @ pr' # vs\<rparr>" "\<forall>x \<in> set us \<union> set vs. peer x \<noteq> p"
      by blast
    have "peer pr' = p" using m(2) p0(2) by (simp add: same_peer_def)
    then show ?thesis using ap(1-4) s m(3) by auto
  qed
  then show "moves hw failed d d' (own env j) (own env j')" and "iface_ok env R M N j'" and "same_iface j j'"
    and "pr \<in> set (peers j') \<Longrightarrow> peer pr = p \<Longrightarrow> flt_wf (ip_assigned j) (M p - {c}) pr"
    and "pr \<in> set (peers j') \<Longrightarrow> peer pr \<noteq> p \<Longrightarrow> pr \<in> set (peers j)" by blast+
qed

text \<open>The clients of an interface change their rules.\<close>

lemma own_clients:
  "own env (i\<lparr>clients := cs\<rparr>) = (\<Sum>c\<leftarrow>cs. own_client env i c) + own env (i\<lparr>clients := []\<rparr>)"
  by (simp add: own_def own_gen_def own_client_def ac_simps cong: if_cong)

lemma clients_moves:
  assumes i: "iface_ok env R M N i" and cs: "clients i = us @ c # vs"
    and m: "moves hw failed d d' (own_client env i c) (own_client env i c')"
    and c: "mac_addr c' = mac_addr c" "client_ok i c'"
  shows "moves hw failed d d' (own env i) (own env (i\<lparr>clients := us @ c' # vs\<rparr>))"
    and "iface_ok env R M N (i\<lparr>clients := us @ c' # vs\<rparr>)" and "same_iface i (i\<lparr>clients := us @ c' # vs\<rparr>)"
proof -
  have e: "own env (i\<lparr>clients := us @ x # vs\<rparr>) = own_client env i x + own env (i\<lparr>clients := us @ vs\<rparr>)" for x
    by (simp only: own_clients [of env "us @ x # vs" i] own_clients [of env "us @ vs" i]) (simp add: ac_simps)
  have "i = i\<lparr>clients := us @ c # vs\<rparr>" using cs by (metis l2l_iface.surjective l2l_iface.update_convs(8))
  then have "own env i = own_client env i c + own env (i\<lparr>clients := us @ vs\<rparr>)" using e [of c] by (metis)
  then show "moves hw failed d d' (own env i) (own env (i\<lparr>clients := us @ c' # vs\<rparr>))"
    using m by (simp only: e moves_frame')
  show "iface_ok env R M N (i\<lparr>clients := us @ c' # vs\<rparr>)" and "same_iface i (i\<lparr>clients := us @ c' # vs\<rparr>)"
    using i cs c by (auto simp: iface_ok_def rt_tbls_ok_def cnt_ok_def lists_ok_def macs_def client_ok_def same_iface_def)
qed

end
