(* ===== verification/L2l_Sys.thy ===== *)
theory L2l_Sys
  imports L2l_Inv
begin

text \<open>
  The invariant of the LAN to LAN offload as a whole and the operations that work on two
  interfaces: a client comes or goes, an interface comes up, an interface goes down.
\<close>

section \<open>The state as a map of interfaces\<close>

definition names :: "'d l2l \<Rightarrow> nat list" where
  "names s = map m_p_iface (m_iface s)"

definition macs_of :: "'d l2l \<Rightarrow> nat \<Rightarrow> mac set" where
  "macs_of s q = (case find_iface q s of None \<Rightarrow> {} | Some j \<Rightarrow> set (macs j))"

definition all_owned :: "'d l2l_env \<Rightarrow> 'd l2l \<Rightarrow> hw_entry multiset" where
  "all_owned env s = (\<Sum>i\<leftarrow>m_iface s. own env i)"

definition smoves :: "'d hw_view \<Rightarrow> ('d \<Rightarrow> bool) \<Rightarrow> 'd l2l_env \<Rightarrow> 'd l2l \<Rightarrow> 'd l2l \<Rightarrow> bool" where
  "smoves hw failed env s s' \<longleftrightarrow> moves hw failed (drv s) (drv s') (all_owned env s) (all_owned env s')"

lemma smoves_refl [simp]: "smoves hw failed env s s"
  by (simp add: smoves_def)

lemma smoves_trans: "smoves hw failed env s s' \<Longrightarrow> smoves hw failed env s' s'' \<Longrightarrow> smoves hw failed env s s''"
  unfolding smoves_def by (rule moves_trans)

lemma find_app: "find P (xs @ ys) = (case find P xs of None \<Rightarrow> find P ys | Some x \<Rightarrow> Some x)"
  by (induction xs) auto

lemma find_iface_split:
  assumes "find_iface p s = Some i"
  obtains us vs where "m_iface s = us @ i # vs" "m_p_iface i = p" "p \<in> set (names s)"
proof -
  have "i \<in> set (m_iface s)" and p: "m_p_iface i = p" using find_SomeD [OF assms [unfolded find_iface_def]] by auto
  then obtain us vs where "m_iface s = us @ i # vs" by (metis split_list)
  then show ?thesis using that p by (simp add: names_def)
qed

lemma find_iface_name: "find_iface p s = Some i \<Longrightarrow> m_p_iface i = p"
  by (auto elim: find_iface_split)

lemma find_iface_drv [simp]: "find_iface p (s\<lparr>drv := d\<rparr>) = find_iface p s"
  by (simp add: find_iface_def)

lemma find_iface_None: "find_iface p s = None \<longleftrightarrow> p \<notin> set (names s)"
  by (auto simp: find_iface_def find_None_iff names_def)

lemma find_iface_mem: "distinct (names s) \<Longrightarrow> i \<in> set (m_iface s) \<longleftrightarrow> find_iface (m_p_iface i) s = Some i"
  using find_unique [of m_p_iface "m_iface s" i] find_SomeD [of "\<lambda>j. m_p_iface j = m_p_iface i" "m_iface s" i]
  by (auto simp: find_iface_def names_def)

lemma put_iface_split:
  assumes d: "distinct (names s)" and s: "m_iface s = us @ i # vs" and i': "m_p_iface i' = m_p_iface i"
  shows "m_iface (put_iface i' s) = us @ i' # vs"
proof -
  have "map (\<lambda>j. if m_p_iface j = m_p_iface i' then i' else j) xs = xs" if "m_p_iface i \<notin> m_p_iface ` set xs" for xs
    using that i' by (induction xs) auto
  then show ?thesis using d s i' by (simp add: put_iface_def names_def)
qed

text \<open>Replacing one interface.\<close>

lemma put_iface_facts:
  assumes d: "distinct (names s)" and f: "find_iface p s = Some i" and i': "m_p_iface i' = p"
  shows "names (put_iface i' s) = names s"
    and "find_iface q (put_iface i' s) = (if q = p then Some i' else find_iface q s)"
    and "moves hw failed d0 d1 (own env i) (own env i') \<Longrightarrow> moves hw failed d0 d1 (all_owned env s) (all_owned env (put_iface i' s))"
    and "m_cached_client_add_event (put_iface i' s) = m_cached_client_add_event s" and "drv (put_iface i' s) = drv s"
proof -
  obtain us vs where s: "m_iface s = us @ i # vs" "m_p_iface i = p" using f by (rule find_iface_split)
  have m: "m_iface (put_iface i' s) = us @ i' # vs" using put_iface_split [OF d s(1)] i' s(2) by simp
  show n: "names (put_iface i' s) = names s" using s i' m by (simp add: names_def)
  have "find_iface q (put_iface i' s) = find_iface q s" if "q \<noteq> p"
    using that s i' m by (simp add: find_iface_def find_app split: option.split)
  moreover have "find_iface p (put_iface i' s) = Some i'"
    using d find_iface_mem [of "put_iface i' s" i'] n m i' by simp
  ultimately show "find_iface q (put_iface i' s) = (if q = p then Some i' else find_iface q s)" by simp
  have "all_owned env s = own env i + (\<Sum>j\<leftarrow>us @ vs. own env j)" "all_owned env (put_iface i' s) = own env i' + (\<Sum>j\<leftarrow>us @ vs. own env j)"
    using s m by (simp_all add: all_owned_def ac_simps)
  then show "moves hw failed d0 d1 (own env i) (own env i') \<Longrightarrow> moves hw failed d0 d1 (all_owned env s) (all_owned env (put_iface i' s))"
    by (simp add: moves_frame')
qed (simp_all add: put_iface_def)

section \<open>The invariant\<close>

text \<open>\<open>Rs p\<close> are the peers that the reference counts of \<open>p\<close> count.\<close>

definition l2l_inv :: "'d l2l_env \<Rightarrow> (nat \<Rightarrow> nat list) \<Rightarrow> 'd l2l \<Rightarrow> bool" where
  "l2l_inv env Rs s \<longleftrightarrow> distinct (names s) \<and> length (m_iface s) \<le> MAX_NUM_IFACE \<and>
     length (m_cached_client_add_event s) \<le> MAX_NUM_CACHED_CLIENT_ADD_EVENT \<and>
     (\<forall>p i. find_iface p s = Some i \<longrightarrow> iface_ok env (Rs p) (macs_of s) (set (names s)) i)"

lemma inv_iface: "l2l_inv env Rs s \<Longrightarrow> find_iface p s = Some i \<Longrightarrow> iface_ok env (Rs p) (macs_of s) (set (names s)) i"
  by (simp add: l2l_inv_def)

lemma length_names: "length (m_iface s) = length (names s)"
  by (simp add: names_def)

text \<open>What the operations on one interface keep of the others.\<close>

definition same_shape :: "'d l2l \<Rightarrow> 'd l2l \<Rightarrow> bool" where
  "same_shape s s' \<longleftrightarrow> names s' = names s \<and> m_cached_client_add_event s' = m_cached_client_add_event s \<and>
     (\<forall>q i. find_iface q s = Some i \<longrightarrow> (\<exists>i'. find_iface q s' = Some i' \<and> same_iface i i'))"

lemma same_shape_refl [simp]: "same_shape s s"
  by (simp add: same_shape_def)

lemma same_shape_trans: "same_shape s s' \<Longrightarrow> same_shape s' s'' \<Longrightarrow> same_shape s s''"
  unfolding same_shape_def by (metis same_iface_trans)

lemma same_shape_macs: "same_shape s s' \<Longrightarrow> macs_of s' = macs_of s"
proof
  fix q assume s: "same_shape s s'"
  show "macs_of s' q = macs_of s q"
  proof (cases "find_iface q s")
    case None
    then have "find_iface q s' = None" using s by (simp add: find_iface_None same_shape_def)
    then show ?thesis using None by (simp add: macs_of_def)
  next
    case (Some i)
    then obtain i' where "find_iface q s' = Some i'" "same_iface i i'" using s by (auto simp: same_shape_def)
    then show ?thesis using Some by (simp add: macs_of_def same_iface_def)
  qed
qed

lemma on_iface_lands:
  assumes inv: "l2l_inv env Rs s" and f: "find_iface p s = Some i"
    and step: "lands G (\<lambda>(i', d'). moves hw failed (drv s) d' (own env i) (own env i') \<and>
        iface_ok env (Rs' p) (macs_of s) (set (names s)) i' \<and> m_p_iface i' = p \<and> macs i' = macs i \<and> Q i') (f i (drv s))"
    and Rs: "\<And>q. q \<noteq> p \<Longrightarrow> Rs' q = Rs q"
  shows "lands G (\<lambda>s'. \<exists>i'. smoves hw failed env s s' \<and> l2l_inv env Rs' s' \<and> find_iface p s' = Some i' \<and> Q i' \<and>
      names s' = names s \<and> macs_of s' = macs_of s \<and> (\<forall>q. q \<noteq> p \<longrightarrow> find_iface q s' = find_iface q s) \<and>
      m_cached_client_add_event s' = m_cached_client_add_event s) (on_iface p f s)"
proof (cases "f i (drv s)")
  case None
  then show ?thesis using step f by (simp add: on_iface_def)
next
  case (Some r)
  obtain i' d' where r: "r = (i', d')" by fastforce
  have st: "moves hw failed (drv s) d' (own env i) (own env i')" "iface_ok env (Rs' p) (macs_of s) (set (names s)) i'"
    "m_p_iface i' = p" "macs i' = macs i" "Q i'" using step Some r by simp_all
  let ?s = "put_iface i' (s\<lparr>drv := d'\<rparr>)"
  have d: "distinct (names (s\<lparr>drv := d'\<rparr>))" and f': "find_iface p (s\<lparr>drv := d'\<rparr>) = Some i"
    using inv f by (simp_all add: l2l_inv_def names_def)
  note pf = put_iface_facts [OF d f' st(3)]
  have n: "names ?s = names s" using pf(1) by (simp add: names_def)
  have fi: "find_iface q ?s = (if q = p then Some i' else find_iface q s)" for q using pf(2) by simp
  have ma: "macs_of ?s = macs_of s" using fi f st(4) by (auto simp: macs_of_def fun_eq_iff)
  have c: "m_cached_client_add_event ?s = m_cached_client_add_event s" using pf(4) by simp
  have t: "all_owned env (s\<lparr>drv := d'\<rparr>) = all_owned env s" by (simp add: all_owned_def)
  have "smoves hw failed env s ?s" using pf(3) [OF st(1)] pf(5) by (simp add: smoves_def t)
  moreover have "l2l_inv env Rs' ?s"
    using inv fi n c ma Rs st(2) by (auto simp: l2l_inv_def length_names split: if_splits)
  ultimately have "\<exists>i'. smoves hw failed env s ?s \<and> l2l_inv env Rs' ?s \<and> find_iface p ?s = Some i' \<and> Q i' \<and>
      names ?s = names s \<and> macs_of ?s = macs_of s \<and> (\<forall>q. q \<noteq> p \<longrightarrow> find_iface q ?s = find_iface q s) \<and>
      m_cached_client_add_event ?s = m_cached_client_add_event s"
    using st(5) fi n ma c by auto
  then show ?thesis using f Some r by (simp add: on_iface_def)
qed

text \<open>The usual case: the operation keeps all that \<open>same_iface\<close> says.\<close>

lemma on_iface_same:
  assumes inv: "l2l_inv env Rs s" and f: "find_iface p s = Some i"
    and step: "lands G (\<lambda>(i', d'). moves hw failed (drv s) d' (own env i) (own env i') \<and>
        iface_ok env (Rs p) (macs_of s) (set (names s)) i' \<and> same_iface i i' \<and> Q i') (f i (drv s))"
  shows "lands G (\<lambda>s'. \<exists>i'. smoves hw failed env s s' \<and> l2l_inv env Rs s' \<and> find_iface p s' = Some i' \<and> Q i' \<and> same_iface i i' \<and>
      same_shape s s' \<and> (\<forall>q. q \<noteq> p \<longrightarrow> find_iface q s' = find_iface q s)) (on_iface p f s)"
proof -
  have "lands G (\<lambda>(i', d'). moves hw failed (drv s) d' (own env i) (own env i') \<and>
        iface_ok env (Rs p) (macs_of s) (set (names s)) i' \<and> m_p_iface i' = p \<and> macs i' = macs i \<and> (Q i' \<and> same_iface i i')) (f i (drv s))"
    by (rule lands_weaken [OF step]) (use find_iface_name [OF f] in \<open>auto simp: same_iface_def\<close>)
  from on_iface_lands [where f = f and p = p and s = s and i = i and env = env and G = G and Rs' = Rs and Rs = Rs and Q = "\<lambda>i'. Q i' \<and> same_iface i i'" and hw = hw and failed = failed, OF inv f this refl] show ?thesis
  proof (rule lands_weaken)
    fix s' assume "\<exists>i'. smoves hw failed env s s' \<and> l2l_inv env Rs s' \<and> find_iface p s' = Some i' \<and> (Q i' \<and> same_iface i i') \<and>
      names s' = names s \<and> macs_of s' = macs_of s \<and> (\<forall>q. q \<noteq> p \<longrightarrow> find_iface q s' = find_iface q s) \<and>
      m_cached_client_add_event s' = m_cached_client_add_event s"
    then obtain i' where s': "smoves hw failed env s s'" "l2l_inv env Rs s'" "find_iface p s' = Some i'" "Q i'" "same_iface i i'"
      "names s' = names s" "\<forall>q. q \<noteq> p \<longrightarrow> find_iface q s' = find_iface q s" "m_cached_client_add_event s' = m_cached_client_add_event s"
      by blast
    then have "same_shape s s'" using f unfolding same_shape_def by (metis option.inject same_iface_refl)
    then show "\<exists>i'. smoves hw failed env s s' \<and> l2l_inv env Rs s' \<and> find_iface p s' = Some i' \<and> Q i' \<and> same_iface i i' \<and>
      same_shape s s' \<and> (\<forall>q. q \<noteq> p \<longrightarrow> find_iface q s' = find_iface q s)" using s' by blast
  qed
qed

definition kept :: "'d hw_view \<Rightarrow> ('d \<Rightarrow> bool) \<Rightarrow> 'd l2l_env \<Rightarrow> (nat \<Rightarrow> nat list) \<Rightarrow> 'd l2l \<Rightarrow> 'd l2l \<Rightarrow> bool" where
  "kept hw failed env Rs s s' \<longleftrightarrow> smoves hw failed env s s' \<and> l2l_inv env Rs s' \<and> same_shape s s'"

lemma kept_refl: "l2l_inv env Rs s \<Longrightarrow> kept hw failed env Rs s s"
  by (simp add: kept_def)

lemma kept_trans: "kept hw failed env Rs s s' \<Longrightarrow> kept hw failed env Rs s' s'' \<Longrightarrow> kept hw failed env Rs s s''"
  unfolding kept_def using smoves_trans same_shape_trans by blast

lemma keptD:
  assumes "kept hw failed env Rs s s'"
  shows "l2l_inv env Rs s'" "smoves hw failed env s s'" "same_shape s s'" "names s' = names s" "macs_of s' = macs_of s"
    and "find_iface q s = Some i \<Longrightarrow> \<exists>i'. find_iface q s' = Some i' \<and> same_iface i i'"
  using assms same_shape_macs by (auto simp: kept_def same_shape_def)

lemma on_iface_kept:
  assumes "l2l_inv env Rs s" and "find_iface p s = Some i"
    and "lands G (\<lambda>(i', d'). moves hw failed (drv s) d' (own env i) (own env i') \<and>
        iface_ok env (Rs p) (macs_of s) (set (names s)) i' \<and> same_iface i i' \<and> Q i') (f i (drv s))"
  shows "lands G (\<lambda>s'. kept hw failed env Rs s s' \<and> (\<exists>i'. find_iface p s' = Some i' \<and> Q i' \<and> same_iface i i') \<and>
      (\<forall>q. q \<noteq> p \<longrightarrow> find_iface q s' = find_iface q s)) (on_iface p f s)"
proof -
  have "lands G (\<lambda>s'. \<exists>i'. smoves hw failed env s s' \<and> l2l_inv env Rs s' \<and> find_iface p s' = Some i' \<and> Q i' \<and> same_iface i i' \<and>
      same_shape s s' \<and> (\<forall>q. q \<noteq> p \<longrightarrow> find_iface q s' = find_iface q s)) (on_iface p f s)"
    by (rule on_iface_same) (fact assms)+
  then show ?thesis by (rule lands_weaken) (auto simp: kept_def)
qed

lemma on_iface_kept0:
  assumes "l2l_inv env Rs s" and "find_iface p s = Some i"
    and "lands G (\<lambda>(i', d'). moves hw failed (drv s) d' (own env i) (own env i') \<and>
        iface_ok env (Rs p) (macs_of s) (set (names s)) i' \<and> same_iface i i') (f i (drv s))"
  shows "lands G (kept hw failed env Rs s) (on_iface p f s)"
proof -
  have "lands G (\<lambda>(i', d'). moves hw failed (drv s) d' (own env i) (own env i') \<and>
        iface_ok env (Rs p) (macs_of s) (set (names s)) i' \<and> same_iface i i' \<and> True) (f i (drv s))"
    using assms(3) by simp
  from on_iface_kept [where f = f and Q = "\<lambda>_. True", OF assms(1,2) this] show ?thesis by (rule lands_weaken) blast
qed

section \<open>A client is added\<close>

lemma cnt_pos: "cnt_ok env R i \<Longrightarrow> q \<in> set R \<Longrightarrow> 0 < ref_cnt i (l2_of env q)"
  by (auto simp: cnt_ok_def length_greater_0_conv [symmetric] simp del: length_greater_0_conv)
    (auto simp: filter_empty_conv)

lemma rt_front_moves:
  assumes ok: "driver_ok hw failed (dev env)" and i: "iface_ok env R M N i" and cl: "clients i = cl # cs"
    and pr: "find (\<lambda>pr. peer pr = q) (peers i) = Some pr" and q: "q \<in> set R" and e: "inter_rt cl (l2_of env q) = (\<lambda>_. [])"
  shows "lands (driver_grants (dev env)) (\<lambda>(i', d'). moves hw failed d d' (own env i) (own env i') \<and>
      iface_ok env R M N i' \<and> same_iface i i' \<and>
      (\<exists>hs. i' = i\<lparr>clients := cl\<lparr>inter_rt := (inter_rt cl)(l2_of env q := hs)\<rparr> # cs\<rparr>))
     (case add_client_rt_rule env i pr cl d of None \<Rightarrow> None | Some (cl, d) \<Rightarrow> Some (i\<lparr>clients := cl # cs\<rparr>, d))"
proof -
  have p: "pr \<in> set (peers i)" "peer pr = q" using find_SomeD [OF pr] by auto
  have c: "cnt_ok env R i" using i by (simp add: iface_ok_def)
  have z: "ref_cnt i (l2_of env q) \<noteq> 0" using cnt_pos [OF c q] by simp
  have nz: "client_nz cl" using c cl by (simp add: cnt_ok_def client_ok_def)
  note w = iface_ok_peer [OF i p(1)]
  have a: "lands (driver_grants (dev env))
     (\<lambda>(c', d'). moves hw failed d d' (own_client env i cl) (own_client env i c') \<and> client_nz c' \<and>
        (\<exists>hs. c' = cl\<lparr>inter_rt := (inter_rt cl)(l2_of env (peer pr) := hs)\<rparr>)) (add_client_rt_rule env i pr cl d)"
    using i e by (intro add_client_rt_rule_inter [OF ok _ w(4,3) _ nz]) (simp_all add: iface_ok_def p(2))
  show ?thesis
  proof (cases "add_client_rt_rule env i pr cl d")
    case None
    then show ?thesis using a by simp
  next
    case (Some r)
    then obtain hs c' d' where r: "r = (c', d')" "c' = cl\<lparr>inter_rt := (inter_rt cl)(l2_of env q := hs)\<rparr>"
      "moves hw failed d d' (own_client env i cl) (own_client env i c')" "client_nz c'"
      using a p(2) by (cases r) auto
    have co: "client_ok i c'" using c cl r(2,4) z by (auto simp: client_ok_def cnt_ok_def)
    have cs: "clients i = [] @ cl # cs" "mac_addr c' = mac_addr cl" using cl r(2) by simp_all
    show ?thesis
      using clients_moves [OF i cs(1) r(3) cs(2) co] Some r(1,2) by auto
  qed
qed

definition client_add_loop :: "'d hw_view \<Rightarrow> ('d \<Rightarrow> bool) \<Rightarrow> 'd l2l_env \<Rightarrow> (nat \<Rightarrow> nat list) \<Rightarrow> 'd l2l \<Rightarrow> nat \<Rightarrow> mac \<Rightarrow>
    nat list \<Rightarrow> (l2_type \<Rightarrow> bool) \<times> 'd l2l \<Rightarrow> bool" where
  "client_add_loop hw failed env Rs s0 p c qs fs \<longleftrightarrow>
     (case fs of (flag, s) \<Rightarrow> kept hw failed env Rs s0 s \<and> distinct qs \<and>
        (\<exists>i cl cs. find_iface p s = Some i \<and> clients i = cl # cs \<and> mac_addr cl = c \<and> set qs \<subseteq> peer ` set (peers i) \<and> set qs \<subseteq> set (Rs p) \<and>
           intra_rt cl = (\<lambda>_. []) \<and> (\<forall>t. \<not> flag t \<longrightarrow> inter_rt cl t = (\<lambda>_. [])) \<and>
           (\<forall>pr ip. intra_info i = Some pr \<longrightarrow> no_flt pr c ip)) \<and>
        (\<forall>q \<in> set qs. \<forall>j pr ip. find_iface q s = Some j \<longrightarrow> pr \<in> set (peers j) \<longrightarrow> peer pr = p \<longrightarrow> no_flt pr c ip))"

lemma client_add_peer_lands:
  assumes ok: "driver_ok hw failed (dev env)" and I: "client_add_loop hw failed env Rs s0 p c (q # qs) fs"
  shows "lands (driver_grants (dev env)) (client_add_loop hw failed env Rs s0 p c qs) (client_add_peer env p c q fs)"
proof -
  obtain flag s where fs: "fs = (flag, s)" by fastforce
  obtain i cl cs where k: "kept hw failed env Rs s0 s" and d: "distinct (q # qs)" and i: "find_iface p s = Some i" "clients i = cl # cs"
    "mac_addr cl = c" "q \<in> peer ` set (peers i)" "set qs \<subseteq> peer ` set (peers i)" "set (q # qs) \<subseteq> set (Rs p)" "intra_rt cl = (\<lambda>_. [])"
    "\<And>t. \<not> flag t \<Longrightarrow> inter_rt cl t = (\<lambda>_. [])"
    "\<forall>pr ip. intra_info i = Some pr \<longrightarrow> no_flt pr c ip"
    and nf': "\<forall>q \<in> set (q # qs). \<forall>j pr ip. find_iface q s = Some j \<longrightarrow> pr \<in> set (peers j) \<longrightarrow> peer pr = p \<longrightarrow> no_flt pr c ip"
    using I unfolding fs client_add_loop_def prod.case by (elim conjE exE) simp
  have nf: "no_flt pr c ip" if "q' \<in> set (q # qs)" "find_iface q' s = Some j" "pr \<in> set (peers j)" "peer pr = p" for q' j pr ip
    using nf' that by blast
  note inv = keptD(1) [OF k]
  note iok = inv_iface [OF inv i(1)]
  have pq: "q \<noteq> p" "q \<in> set (names s)" using i(4) iok find_iface_name [OF i(1)] by (auto simp: iface_ok_def lists_ok_def)
  let ?t = "l2_of env q"
  let ?G = "driver_grants (dev env)"
  let ?step = "\<lambda>i d. (case find (\<lambda>pr. peer pr = q) (peers i) of None \<Rightarrow> None
      | Some pr \<Rightarrow> (case clients i of [] \<Rightarrow> None
         | cl # cs \<Rightarrow> (case add_client_rt_rule env i pr cl d of None \<Rightarrow> None | Some (cl, d) \<Rightarrow> Some (i\<lparr>clients := cl # cs\<rparr>, d))))"
  let ?P = "\<lambda>s'. kept hw failed env Rs s s' \<and> (\<forall>q. q \<noteq> p \<longrightarrow> find_iface q s' = find_iface q s) \<and>
      (\<exists>i' cl'. find_iface p s' = Some i' \<and> clients i' = cl' # cs \<and> mac_addr cl' = c \<and> map peer (peers i') = map peer (peers i) \<and>
         intra_rt cl' = (\<lambda>_. []) \<and> (\<forall>t. \<not> (flag(?t := True)) t \<longrightarrow> inter_rt cl' t = (\<lambda>_. [])) \<and>
         (\<forall>pr ip. intra_info i' = Some pr \<longrightarrow> no_flt pr c ip))"
  have 1: "lands ?G ?P (if flag ?t then Some s else on_iface p ?step s)"
  proof (rule lands_if)
    assume "flag ?t"
    then show "lands ?G ?P (Some s)"
      using i kept_refl [OF inv] by (auto simp: fun_upd_def)
  next
    assume fl: "\<not> flag ?t"
    obtain pr where pr: "find (\<lambda>pr. peer pr = q) (peers i) = Some pr"
      using i(4) by (metis (mono_tags, lifting) find_None_iff image_iff option.exhaust)
    have "lands ?G (\<lambda>(i', d'). moves hw failed (drv s) d' (own env i) (own env i') \<and>
        iface_ok env (Rs p) (macs_of s) (set (names s)) i' \<and> same_iface i i' \<and>
        (\<exists>hs. i' = i\<lparr>clients := cl\<lparr>inter_rt := (inter_rt cl)(l2_of env q := hs)\<rparr> # cs\<rparr>)) (?step i (drv s))"
      using rt_front_moves [OF ok iok i(2) pr _ i(8) [OF fl], of "drv s"] i(6) by (simp add: pr i(2))
    from on_iface_kept [where f = ?step and G = ?G and Q = "\<lambda>i'. \<exists>hs. i' = i\<lparr>clients := cl\<lparr>inter_rt := (inter_rt cl)(l2_of env q := hs)\<rparr> # cs\<rparr>",
        OF inv i(1) this]
    show "lands ?G ?P (on_iface p ?step s)"
      by (rule lands_weaken) (use i in auto)
  qed
  show ?thesis
    unfolding client_add_peer_def fs prod.case Let_def
  proof (rule lands_bind [OF 1])
    fix s1 assume s1: "?P s1"
    then have k1: "kept hw failed env Rs s s1" by blast
    note inv1 = keptD(1) [OF k1]
    obtain j where j: "find_iface q s1 = Some j" using pq(2) keptD(4) [OF k1] find_iface_None [of q s1] by fastforce
    then have j0: "find_iface q s = Some j" using s1 pq(1) by auto
    have cM: "c \<in> macs_of s1 p" using s1 by (auto simp: macs_of_def macs_def)
    obtain j' d' where a: "add_one_client_flt_rule env p c j (drv s1) = (j', d')" by fastforce
    have fr: "no_flt pr c ip" if "pr \<in> set (peers j)" "peer pr = p" for pr ip
      using nf [OF _ j0 that] by simp
    have "lands ?G (\<lambda>(i', d'). moves hw failed (drv s1) d' (own env j) (own env i') \<and>
        iface_ok env (Rs q) (macs_of s1) (set (names s1)) i' \<and> same_iface j i' \<and> True)
        (Some (add_one_client_flt_rule env p c j (drv s1)))"
      using add_one_moves [OF ok inv_iface [OF inv1 j] cM fr a] a by simp
    from on_iface_kept [where f = "\<lambda>j d. Some (add_one_client_flt_rule env p c j d)" and G = ?G and Q = "\<lambda>_. True", OF inv1 j this]
    have 2: "lands ?G (\<lambda>s2. kept hw failed env Rs s1 s2 \<and> (\<forall>q'. q' \<noteq> q \<longrightarrow> find_iface q' s2 = find_iface q' s1))
      (on_iface q (\<lambda>j d. Some (add_one_client_flt_rule env p c j d)) s1)"
      by (rule lands_weaken) blast
    show "lands ?G (client_add_loop hw failed env Rs s0 p c qs)
      (case on_iface q (\<lambda>j d. Some (add_one_client_flt_rule env p c j d)) s1 of None \<Rightarrow> None | Some s \<Rightarrow> Some (flag(?t := True), s))"
    proof (rule lands_bind [OF 2])
      fix s2 assume s2: "kept hw failed env Rs s1 s2 \<and> (\<forall>q'. q' \<noteq> q \<longrightarrow> find_iface q' s2 = find_iface q' s1)"
      have k2: "kept hw failed env Rs s0 s2" using k k1 s2 kept_trans by blast
      have fi: "find_iface q' s2 = find_iface q' s" if "q' \<in> set qs" for q'
      proof -
        have "q' \<noteq> q" "q' \<noteq> p" using that d i(5) iok find_iface_name [OF i(1)] by (auto simp: iface_ok_def lists_ok_def)
        then show ?thesis using s1 s2 by simp
      qed
      have "\<forall>q' \<in> set qs. \<forall>j pr ip. find_iface q' s2 = Some j \<longrightarrow> pr \<in> set (peers j) \<longrightarrow> peer pr = p \<longrightarrow> no_flt pr c ip"
        using nf fi by auto
      moreover obtain i' cl' where "find_iface p s1 = Some i'" "clients i' = cl' # cs" "mac_addr cl' = c" "map peer (peers i') = map peer (peers i)"
         "intra_rt cl' = (\<lambda>_. [])" "\<forall>t. \<not> (flag(?t := True)) t \<longrightarrow> inter_rt cl' t = (\<lambda>_. [])"
         "\<forall>pr ip. intra_info i' = Some pr \<longrightarrow> no_flt pr c ip" using s1 by blast
      moreover have "find_iface p s2 = find_iface p s1" using s2 pq(1) by simp
      moreover have "set qs \<subseteq> peer ` set (peers i')" using i(5) calculation(5) by (metis list.set_map)
      ultimately show "lands ?G (client_add_loop hw failed env Rs s0 p c qs) (Some (flag(?t := True), s2))"
        using k2 d i(6) unfolding client_add_loop_def by (simp del: fun_upd_apply)
    qed
  qed
qed

text \<open>The intra-interface list, and the rules within the interface.\<close>

lemma intra_moves:
  assumes i: "iface_ok env R M N i" and pr: "intra_info i = Some pr"
    and m: "moves hw failed d d' (own_peer pr) (own_peer pr')" "same_peer pr pr'" "flt_wf (ip_assigned i) (set (macs i)) pr'"
  shows "moves hw failed d d' (own env i) (own env (i\<lparr>intra_info := Some pr'\<rparr>))"
    and "iface_ok env R M N (i\<lparr>intra_info := Some pr'\<rparr>)" and "same_iface i (i\<lparr>intra_info := Some pr'\<rparr>)"
proof -
  have e: "own env (i\<lparr>intra_info := Some x\<rparr>) = own_peer x + own env (i\<lparr>intra_info := Some \<lparr>peer = 0,
     rt_tbl_name_for_rt = (\<lambda>_. []), rt_tbl_name_for_flt = (\<lambda>_. []), flt_list = []\<rparr>\<rparr>)" for x
    by (simp add: own_def own_gen_def own_client_def own_peer_def ac_simps cong: if_cong)
  have "i = i\<lparr>intra_info := Some pr\<rparr>" using pr by (metis l2l_iface.surjective l2l_iface.update_convs(10))
  then show "moves hw failed d d' (own env i) (own env (i\<lparr>intra_info := Some pr'\<rparr>))"
    using m(1) e by (metis moves_frame')
  show "iface_ok env R M N (i\<lparr>intra_info := Some pr'\<rparr>)" and "same_iface i (i\<lparr>intra_info := Some pr'\<rparr>)"
    using i pr m(2,3) by (auto simp: iface_ok_def rt_tbls_ok_def cnt_ok_def client_ok_def lists_ok_def macs_def same_iface_def same_peer_def)
qed

lemma intra_client_add_moves:
  assumes ok: "driver_ok hw failed (dev env)" and i: "iface_ok env R M N i" and cl: "clients i = cl # cs" "mac_addr cl = c"
    and e: "intra_rt cl = (\<lambda>_. [])" and pr: "intra_info i = Some pr" and nf: "\<And>ip. no_flt pr c ip"
  shows "lands (driver_grants (dev env)) (\<lambda>(i', d'). moves hw failed d d' (own env i) (own env i') \<and>
      iface_ok env R M N i' \<and> same_iface i i') (intra_client_add env c i d)"
proof -
  have p: "peer pr = m_p_iface i" "rt_tbl_name_for_rt pr = intra_tbl_name env" "flt_wf (ip_assigned i) (set (macs i)) pr"
    using i pr by (auto simp: iface_ok_def rt_tbls_ok_def lists_ok_def)
  have c: "cnt_ok env R i" using i by (simp add: iface_ok_def)
  have nz: "client_nz cl" using c cl by (simp add: cnt_ok_def client_ok_def)
  have lan: "lan_ok env (lans env (m_p_iface i))" using i by (simp add: iface_ok_def)
  have a: "lands (driver_grants (dev env))
     (\<lambda>(c', d'). moves hw failed d d' (own_client env i cl) (own_client env i c') \<and> client_nz c' \<and>
        (\<exists>hs. c' = cl\<lparr>intra_rt := hs\<rparr>)) (add_client_rt_rule env i pr cl d)"
    by (rule add_client_rt_rule_intra [OF ok lan p(1,2) e nz])
  show ?thesis
  proof (cases "add_client_rt_rule env i pr cl d")
    case None
    then show ?thesis using a pr cl by (simp add: intra_client_add_def)
  next
    case (Some r)
    then obtain hs c' d1 where r: "r = (c', d1)" "c' = cl\<lparr>intra_rt := hs\<rparr>"
      "moves hw failed d d1 (own_client env i cl) (own_client env i c')" "client_nz c'"
      using a by (cases r) auto
    have co: "client_ok i c'" using c cl r(2,4) pr by (auto simp: client_ok_def cnt_ok_def)
    have cs: "clients i = [] @ cl # cs" "mac_addr c' = mac_addr cl" using cl r(2) by simp_all
    note m1 = clients_moves [OF i cs(1) r(3) cs(2) co, unfolded append_Nil]
    let ?i = "i\<lparr>clients := c' # cs\<rparr>"
    obtain pr' d' where f: "(case (if ip_assigned i IPA_IP_v4 then add_client_flt_rule env i c IPA_IP_v4 pr d1 else (pr, d1)) of
          (pr, d) \<Rightarrow> if ip_assigned i IPA_IP_v6 then add_client_flt_rule env i c IPA_IP_v6 pr d else (pr, d)) = (pr', d')"
      by fastforce
    have cm: "c \<in> set (macs i)" using cl by (simp add: macs_def)
    have m2: "moves hw failed d1 d' (own_peer pr) (own_peer pr') \<and> same_peer pr pr' \<and> flt_wf (ip_assigned i) (set (macs i)) pr'"
      by (rule flt_both_moves [OF ok nf p(3) cm f])
    have "flt_wf (ip_assigned ?i) (set (macs ?i)) pr'" using m2 m1(3) by (simp add: same_iface_def)
    note m3 = intra_moves [OF m1(2) _ m2 [THEN conjunct1] m2 [THEN conjunct2, THEN conjunct1] this]
    have "intra_client_add env c i d = Some (?i\<lparr>intra_info := Some pr'\<rparr>, d')"
      using pr cl(1) Some r(1) f by (auto simp: intra_client_add_def split: prod.splits)
    then show ?thesis
      using m3 pr moves_trans [OF m1(1)] same_iface_trans [OF m1(3)] by simp
  qed
qed

text \<open>The new client without rules.\<close>

lemma push_client:
  assumes inv: "l2l_inv env Rs s" and i: "find_iface p s = Some i" and c: "c \<notin> set (macs i)" and n: "length (clients i) < MAX_NUM_CLIENT"
    and s': "s' = put_iface (i\<lparr>clients := \<lparr>mac_addr = c, inter_rt = (\<lambda>_ _. []), intra_rt = (\<lambda>_. []), ep = e\<rparr> # clients i\<rparr>) s"
  shows "smoves hw failed env s s'" and "l2l_inv env Rs s'" and "names s' = names s"
    and "find_iface p s' = Some (i\<lparr>clients := \<lparr>mac_addr = c, inter_rt = (\<lambda>_ _. []), intra_rt = (\<lambda>_. []), ep = e\<rparr> # clients i\<rparr>)"
    and "q \<noteq> p \<Longrightarrow> find_iface q s' = find_iface q s" and "m_cached_client_add_event s' = m_cached_client_add_event s"
proof -
  let ?cl = "\<lparr>mac_addr = c, inter_rt = (\<lambda>_ _. []), intra_rt = (\<lambda>_. []), ep = e\<rparr>"
  let ?i = "i\<lparr>clients := ?cl # clients i\<rparr>"
  have d: "distinct (names s)" using inv by (simp add: l2l_inv_def)
  have p: "m_p_iface ?i = p" using find_iface_name [OF i] by simp
  note pf = put_iface_facts [OF d i p]
  have cl0: "own_client env i ?cl = {#}" for i :: l2l_iface by (simp add: own_client_def sum_l2_def rt_info_def sum_ip_def)
  have "own env ?i = own env i"
    using own_clients [of env "?cl # clients i" i] own_clients [of env "clients i" i] cl0 by simp
  then show "smoves hw failed env s s'" using pf(3) [of hw failed "drv s" "drv s" env] pf(5) by (simp add: smoves_def s')
  show "names s' = names s" "find_iface p s' = Some ?i" "q \<noteq> p \<Longrightarrow> find_iface q s' = find_iface q s"
    "m_cached_client_add_event s' = m_cached_client_add_event s" for q using pf(1,2,4) by (simp_all add: s')
  have fi: "find_iface q s' = (if q = p then Some ?i else find_iface q s)" for q using pf(2) by (simp add: s')
  have M: "macs_of s q \<subseteq> macs_of s' q" for q using fi i by (auto simp: macs_of_def macs_def)
  have w: "flt_wf A M pr \<Longrightarrow> M \<subseteq> M' \<Longrightarrow> flt_wf A M' pr" for A M M' pr by (auto simp: flt_wf_def)
  have up: "iface_ok env R (macs_of s') N j" if j: "iface_ok env R (macs_of s) N j" for R N j
    using j w [OF _ M] by (auto simp: iface_ok_def lists_ok_def)
  have j: "iface_ok env (Rs p) (macs_of s') (set (names s)) i" by (rule up [OF inv_iface [OF inv i]])
  have m: "macs ?i = c # macs i" by (simp add: macs_def)
  have "flt_wf (ip_assigned i) (set (macs ?i)) pr" if "intra_info i = Some pr" for pr
  proof (rule w)
    show "flt_wf (ip_assigned i) (set (macs i)) pr" using j that by (simp add: iface_ok_def lists_ok_def)
  qed (simp add: m subset_insertI)
  then have "lists_ok (macs_of s') (set (names s)) ?i" using j c n by (simp add: iface_ok_def lists_ok_def m)
  moreover have "cnt_ok env (Rs p) ?i" using j by (simp add: iface_ok_def cnt_ok_def client_ok_def client_nz_def)
  ultimately have "iface_ok env (Rs p) (macs_of s') (set (names s)) ?i" using j by (simp add: iface_ok_def rt_tbls_ok_def)
  then show "l2l_inv env Rs s'"
    using inv fi up pf(1,4) by (auto simp: l2l_inv_def length_names s' split: if_splits)
qed

section \<open>Links between interfaces\<close>

definition same_link :: "l2l_iface \<Rightarrow> l2l_iface \<Rightarrow> bool" where
  "same_link i i' \<longleftrightarrow> inter_offload i' = inter_offload i \<and> intra_offload i' = intra_offload i \<and>
     map peer (peers i') = map peer (peers i) \<and> (intra_info i' = None \<longleftrightarrow> intra_info i = None)"

definition same_links :: "'d l2l \<Rightarrow> 'd l2l \<Rightarrow> bool" where
  "same_links s s' \<longleftrightarrow> names s' = names s \<and> m_cached_client_add_event s' = m_cached_client_add_event s \<and>
     (\<forall>q i. find_iface q s = Some i \<longrightarrow> (\<exists>i'. find_iface q s' = Some i' \<and> same_link i i'))"

lemma same_link_refl [simp]: "same_link i i"
  by (simp add: same_link_def)

lemma same_link_trans: "same_link a b \<Longrightarrow> same_link b c \<Longrightarrow> same_link a c"
  by (simp add: same_link_def)

lemma same_links_trans: "same_links s s' \<Longrightarrow> same_links s' s'' \<Longrightarrow> same_links s s''"
  unfolding same_links_def using same_link_trans by (elim conjE, intro conjI allI impI) (simp_all, blast)

lemma same_iface_link: "same_iface i i' \<Longrightarrow> same_link i i'"
  by (simp add: same_iface_def same_link_def)

lemma same_shape_links: "same_shape s s' \<Longrightarrow> same_links s s'"
  unfolding same_shape_def same_links_def using same_iface_link by blast

lemma same_linksI:
  assumes "names s' = names s" and "m_cached_client_add_event s' = m_cached_client_add_event s"
    and "find_iface p s = Some i" and "find_iface p s' = Some i'" and "same_link i i'"
    and "\<And>q. q \<noteq> p \<Longrightarrow> find_iface q s' = find_iface q s"
  shows "same_links s s'"
  unfolding same_links_def
proof (intro conjI allI impI)
  fix q j assume q: "find_iface q s = Some j"
  show "\<exists>j'. find_iface q s' = Some j' \<and> same_link j j'" using assms(3-6) q by (cases "q = p") auto
qed (fact assms)+

definition peers_of :: "'d l2l \<Rightarrow> nat \<Rightarrow> nat list" where
  "peers_of s p = (case find_iface p s of None \<Rightarrow> [] | Some i \<Rightarrow> map peer (peers i))"

definition linked_up :: "'d l2l \<Rightarrow> bool" where
  "linked_up s \<longleftrightarrow> (\<forall>p i. find_iface p s = Some i \<longrightarrow>
     (inter_offload i \<longrightarrow> peer ` set (peers i) = {q. q \<noteq> p \<and> (\<exists>j. find_iface q s = Some j \<and> inter_offload j)}) \<and>
     (intra_info i = None \<longleftrightarrow> \<not> intra_offload i))"

lemma same_links_find:
  assumes "same_links s s'"
  shows "find_iface q s' = None \<longleftrightarrow> find_iface q s = None"
    and "find_iface q s' = Some i' \<Longrightarrow> \<exists>i. find_iface q s = Some i \<and> same_link i i'"
proof -
  show n: "find_iface q s' = None \<longleftrightarrow> find_iface q s = None" using assms by (simp add: find_iface_None same_links_def)
  show "\<exists>i. find_iface q s = Some i \<and> same_link i i'" if q: "find_iface q s' = Some i'"
  proof -
    obtain i where i: "find_iface q s = Some i" using q n by fastforce
    then obtain i'' where "find_iface q s' = Some i''" "same_link i i''" using assms unfolding same_links_def by blast
    then show ?thesis using i q by simp
  qed
qed

lemma same_links_peers_of: "same_links s s' \<Longrightarrow> peers_of s' = peers_of s"
proof
  fix p assume s: "same_links s s'"
  show "peers_of s' p = peers_of s p"
  proof (cases "find_iface p s'")
    case None
    then show ?thesis using same_links_find(1) [OF s, of p] by (simp add: peers_of_def)
  next
    case (Some i')
    then obtain i where "find_iface p s = Some i" "same_link i i'" using same_links_find(2) [OF s] by blast
    then show ?thesis using Some by (simp add: peers_of_def same_link_def)
  qed
qed

lemma same_links_linked:
  assumes s: "same_links s s'" and l: "linked_up s"
  shows "linked_up s'"
  unfolding linked_up_def
proof (intro allI impI)
  fix p i' assume "find_iface p s' = Some i'"
  then obtain i where i: "find_iface p s = Some i" "same_link i i'" using same_links_find(2) [OF s] by blast
  have pe: "peer ` set (peers i') = peer ` set (peers i)" using i(2) by (metis list.set_map same_link_def)
  have "(\<exists>j. find_iface q s' = Some j \<and> inter_offload j) \<longleftrightarrow> (\<exists>j. find_iface q s = Some j \<and> inter_offload j)" for q
    using s same_links_find(2) [OF s, of q] by (fastforce simp: same_links_def same_link_def)
  then show "(inter_offload i' \<longrightarrow> peer ` set (peers i') = {q. q \<noteq> p \<and> (\<exists>j. find_iface q s' = Some j \<and> inter_offload j)}) \<and>
     (intra_info i' = None \<longleftrightarrow> \<not> intra_offload i')"
    using l i pe unfolding linked_up_def same_link_def by auto
qed

definition lkept :: "'d hw_view \<Rightarrow> ('d \<Rightarrow> bool) \<Rightarrow> 'd l2l_env \<Rightarrow> (nat \<Rightarrow> nat list) \<Rightarrow> 'd l2l \<Rightarrow> 'd l2l \<Rightarrow> bool" where
  "lkept hw failed env Rs s s' \<longleftrightarrow> smoves hw failed env s s' \<and> l2l_inv env Rs s' \<and> same_links s s'"

lemma lkept_refl: "l2l_inv env Rs s \<Longrightarrow> lkept hw failed env Rs s s"
  by (simp add: lkept_def same_links_def)

lemma kept_lkept: "kept hw failed env Rs s s' \<Longrightarrow> lkept hw failed env Rs s s'"
  by (simp add: kept_def lkept_def same_shape_links)

lemma lkept_trans: "lkept hw failed env Rs s s' \<Longrightarrow> lkept hw failed env Rs s' s'' \<Longrightarrow> lkept hw failed env Rs s s''"
  unfolding lkept_def using smoves_trans same_links_trans by blast

lemma iface_client_add_lands:
  assumes ok: "driver_ok hw failed (dev env)" and inv: "l2l_inv env (peers_of s) s" and l: "linked_up s"
    and i: "find_iface p s = Some i"
  shows "lands (driver_grants (dev env)) (lkept hw failed env (peers_of s) s) (iface_client_add env p c e s)"
proof -
  let ?cl = "\<lparr>mac_addr = c, inter_rt = (\<lambda>_ _. []), intra_rt = (\<lambda>_. []), ep = e\<rparr>"
  let ?i = "i\<lparr>clients := ?cl # clients i\<rparr>"
  let ?G = "driver_grants (dev env)"
  note iok = inv_iface [OF inv i]
  consider "\<exists>cl \<in> set (clients i). mac_addr cl = c" | "length (clients i) = MAX_NUM_CLIENT"
    | "c \<notin> set (macs i)" "length (clients i) \<noteq> MAX_NUM_CLIENT" by (fastforce simp: macs_def)
  then show ?thesis
  proof cases
    case 3
    have n: "length (clients i) < MAX_NUM_CLIENT" using 3(2) iok by (simp add: iface_ok_def lists_ok_def)
    define s1 where "s1 = put_iface ?i s"
    note pc = push_client [OF inv i 3(1) n s1_def]
    have l1: "same_links s s1" by (rule same_linksI [OF pc(3,6) i pc(4) _ pc(5)]) (simp_all add: same_link_def)
    have Rp: "peers_of s p = map peer (peers i)" using i by (simp add: peers_of_def)
    have fl: "no_flt pr c ip" if q: "find_iface q s1 = Some j" "pr \<in> set (peers j)" "peer pr = p" for q j pr ip
    proof -
      obtain j0 where j0: "find_iface q s = Some j0" "peers j = peers j0" using q(1) pc(4,5) i by (cases "q = p") auto
      have "flt_wf (ip_assigned j0) (macs_of s p) pr" using iface_ok_peer(1) [OF inv_iface [OF inv j0(1)]] q(2,3) j0(2) by auto
      moreover have "c \<notin> macs_of s p" using i 3(1) by (simp add: macs_of_def)
      ultimately show ?thesis by (auto simp: flt_wf_def no_flt_def)
    qed
    have fi: "no_flt pr c ip" if "intra_info i = Some pr" for pr ip
      using iok that 3(1) by (auto simp: iface_ok_def lists_ok_def flt_wf_def no_flt_def)
    have e: "\<not> (\<exists>cl \<in> set (clients i). mac_addr cl = c)" using 3(1) by (auto simp: macs_def)
    have "client_add_loop hw failed env (peers_of s) s1 p c (map peer (peers i)) (\<lambda>_. False, s1)"
      unfolding client_add_loop_def prod.case
      using kept_refl [OF pc(2)] pc(4) Rp iok fl fi by (auto simp: iface_ok_def lists_ok_def)
    then have loop: "lands ?G (client_add_loop hw failed env (peers_of s) s1 p c [])
       (fold_opt (client_add_peer env p c) (map peer (peers i)) (\<lambda>_. False, s1))"
      by (rule lands_fold) (rule client_add_peer_lands [OF ok])
    let ?P = "\<lambda>fs. kept hw failed env (peers_of s) s1 (snd fs) \<and> (\<exists>i cl cs. find_iface p (snd fs) = Some i \<and> clients i = cl # cs \<and> mac_addr cl = c \<and>
         intra_rt cl = (\<lambda>_. []) \<and> (\<forall>pr ip. intra_info i = Some pr \<longrightarrow> no_flt pr c ip))"
    have 1: "lands ?G ?P (if inter_offload i then fold_opt (client_add_peer env p c) (map peer (peers i)) (\<lambda>_. False, s1) else Some (\<lambda>_. False, s1))"
    proof (rule lands_if)
      show "lands ?G ?P (fold_opt (client_add_peer env p c) (map peer (peers i)) (\<lambda>_. False, s1))"
        by (rule lands_weaken [OF loop]) (unfold client_add_loop_def split_beta, blast)
      show "lands ?G ?P (Some (\<lambda>_. False, s1))" using kept_refl [OF pc(2)] pc(4) fi by auto
    qed
    have "iface_client_add env p c e s =
      (case (if inter_offload i then fold_opt (client_add_peer env p c) (map peer (peers i)) (\<lambda>_. False, s1) else Some (\<lambda>_. False, s1)) of
         None \<Rightarrow> None | Some (_, s) \<Rightarrow> if intra_offload i then on_iface p (intra_client_add env c) s else Some s)"
      using i e 3(2) unfolding iface_client_add_def s1_def Let_def by (simp only: option.case if_False)
    also have "lands ?G (lkept hw failed env (peers_of s) s) \<dots>"
    proof (rule lands_bind [OF 1])
      fix fs :: "(l2_type \<Rightarrow> bool) \<times> 'a l2l" assume P: "?P fs"
      obtain flag s2 where fs: "fs = (flag, s2)" by fastforce
      have k: "kept hw failed env (peers_of s) s1 s2" using P fs by simp
      obtain i2 cl cs where i2: "find_iface p s2 = Some i2" "clients i2 = cl # cs" "mac_addr cl = c" "intra_rt cl = (\<lambda>_. [])"
        "\<And>pr ip. intra_info i2 = Some pr \<Longrightarrow> no_flt pr c ip" using P fs by auto
      have k2: "lkept hw failed env (peers_of s) s s2"
        using pc(1) l1 k kept_lkept [OF k] by (auto simp: lkept_def intro: smoves_trans same_links_trans)
      have "lands ?G (lkept hw failed env (peers_of s) s) (if intra_offload i then on_iface p (intra_client_add env c) s2 else Some s2)"
      proof (rule lands_if)
        assume "intra_offload i"
        then have "intra_info i2 \<noteq> None"
          using l i keptD(6) [OF k pc(4)] i2(1) by (auto simp: linked_up_def same_iface_def)
        then obtain pr where pr: "intra_info i2 = Some pr" by blast
        note inv2 = keptD(1) [OF k]
        have st: "lands ?G (\<lambda>(i', d'). moves hw failed (drv s2) d' (own env i2) (own env i') \<and>
            iface_ok env (peers_of s p) (macs_of s2) (set (names s2)) i' \<and> same_iface i2 i') (intra_client_add env c i2 (drv s2))"
          by (rule intra_client_add_moves [OF ok inv_iface [OF inv2 i2(1)] i2(2-4) pr i2(5) [OF pr]])
        have "lands ?G (kept hw failed env (peers_of s) s2) (on_iface p (intra_client_add env c) s2)"
          by (rule on_iface_kept0 [where f = "intra_client_add env c", OF inv2 i2(1) st])
        then show "lands ?G (lkept hw failed env (peers_of s) s) (on_iface p (intra_client_add env c) s2)"
          by (rule lands_weaken) (use k2 kept_lkept lkept_trans in blast)
      qed (simp add: k2)
      then show "lands ?G (lkept hw failed env (peers_of s) s) (case fs of (_, s) \<Rightarrow> if intra_offload i then on_iface p (intra_client_add env c) s else Some s)"
        by (simp add: fs)
    qed
    finally show ?thesis .
  qed (use i lkept_refl [OF inv] in \<open>auto simp: iface_client_add_def\<close>)
qed

section \<open>A client is deleted\<close>

lemma del_client_rt_rule_ok:
  assumes "client_ok i cl" and "del_client_rt_rule env i pr cl d = (cl', d')"
  shows "mac_addr cl' = mac_addr cl" and "client_ok i cl'"
    and "inter_rt cl t = (\<lambda>_. []) \<Longrightarrow> inter_rt cl' t = (\<lambda>_. [])" and "intra_rt cl = (\<lambda>_. []) \<Longrightarrow> intra_rt cl' = (\<lambda>_. [])"
    and "peer pr \<noteq> m_p_iface i \<Longrightarrow> inter_rt cl' (l2_of env (peer pr)) = (\<lambda>_. [])"
    and "peer pr = m_p_iface i \<Longrightarrow> intra_rt cl' = (\<lambda>_. []) \<and> inter_rt cl' = inter_rt cl"
  using assms by (auto simp: del_client_rt_rule_def Let_def client_ok_def client_nz_def split: if_splits)

lemma del_rt_at_moves:
  assumes ok: "driver_ok hw failed (dev env)" and i: "iface_ok env R M N i" and c: "c \<in> set (macs i)"
    and r: "at_first (\<lambda>cl. mac_addr cl = c) (del_client_rt_rule env i pr) (clients i) d = (cs, d')"
  shows "moves hw failed d d' (own env i) (own env (i\<lparr>clients := cs\<rparr>))" and "iface_ok env R M N (i\<lparr>clients := cs\<rparr>)"
    and "same_iface i (i\<lparr>clients := cs\<rparr>)"
    and "\<exists>cl cl'. cl \<in> set (clients i) \<and> mac_addr cl = c \<and> cl' \<in> set cs \<and> mac_addr cl' = c \<and> client_ok i cl \<and>
           del_client_rt_rule env i pr cl d = (cl', d') \<and> (\<forall>x \<in> set cs. mac_addr x = c \<longrightarrow> x = cl')"
proof -
  obtain x where "x \<in> set (clients i)" "mac_addr x = c" using c by (auto simp: macs_def)
  from at_first_split [of x "clients i" "\<lambda>cl. mac_addr cl = c", OF this, of "del_client_rt_rule env i pr" d]
  obtain us cl vs where s: "clients i = us @ cl # vs" "mac_addr cl = c" "\<forall>u \<in> set us. mac_addr u \<noteq> c"
    "at_first (\<lambda>cl. mac_addr cl = c) (del_client_rt_rule env i pr) (clients i) d =
       (us @ fst (del_client_rt_rule env i pr cl d) # vs, snd (del_client_rt_rule env i pr cl d))" by blast
  obtain cl' d1 where a: "del_client_rt_rule env i pr cl d = (cl', d1)" by fastforce
  have e: "cs = us @ cl' # vs" "d' = d1" using s(4) r a by simp_all
  have co: "client_ok i cl" using i s(1) by (auto simp: iface_ok_def cnt_ok_def client_ok_def)
  note dl = del_client_rt_rule_ok [OF co a]
  have di: "\<forall>v \<in> set vs. mac_addr v \<noteq> c" using i s(1,2) by (auto simp: iface_ok_def lists_ok_def macs_def image_iff)
  note m = clients_moves [OF i s(1) del_client_rt_rule_moves [OF ok a] dl(1,2)]
  show "moves hw failed d d' (own env i) (own env (i\<lparr>clients := cs\<rparr>))" and "iface_ok env R M N (i\<lparr>clients := cs\<rparr>)"
    and "same_iface i (i\<lparr>clients := cs\<rparr>)" using m by (simp_all only: e)
  show "\<exists>cl cl'. cl \<in> set (clients i) \<and> mac_addr cl = c \<and> cl' \<in> set cs \<and> mac_addr cl' = c \<and> client_ok i cl \<and>
           del_client_rt_rule env i pr cl d = (cl', d') \<and> (\<forall>x \<in> set cs. mac_addr x = c \<longrightarrow> x = cl')"
    using s a e dl(1) co di by (intro exI [of _ cl] exI [of _ cl']) auto
qed

text \<open>No peer of \<open>p\<close> outside \<open>qs\<close> filters for the client, and the types in \<open>flag\<close> are done.\<close>

definition client_del_loop :: "'d hw_view \<Rightarrow> ('d \<Rightarrow> bool) \<Rightarrow> 'd l2l_env \<Rightarrow> (nat \<Rightarrow> nat list) \<Rightarrow> 'd l2l \<Rightarrow> nat \<Rightarrow> mac \<Rightarrow> l2l_iface \<Rightarrow>
    nat list \<Rightarrow> (l2_type \<Rightarrow> bool) \<times> 'd l2l \<Rightarrow> bool" where
  "client_del_loop hw failed env Rs s0 p c i0 qs fs \<longleftrightarrow>
     (case fs of (flag, s) \<Rightarrow> kept hw failed env Rs s0 s \<and> distinct qs \<and> set qs \<subseteq> peer ` set (peers i0) \<and>
        (\<exists>i. find_iface p s = Some i \<and> (\<forall>cl \<in> set (clients i). mac_addr cl = c \<longrightarrow> (\<forall>t. flag t \<longrightarrow> inter_rt cl t = (\<lambda>_. [])))) \<and>
        (\<forall>q \<in> peer ` set (peers i0) - set qs. flag (l2_of env q)) \<and>
        (\<forall>q j pr. q \<notin> set qs \<longrightarrow> find_iface q s = Some j \<longrightarrow> pr \<in> set (peers j) \<longrightarrow> peer pr = p \<longrightarrow> c \<notin> p_client ` set (flt_list pr)))"

lemma client_del_peer_lands:
  assumes ok: "driver_ok hw failed (dev env)" and i0: "find_iface p s0 = Some i0" "c \<in> set (macs i0)"
    and I: "client_del_loop hw failed env Rs s0 p c i0 (q # qs) fs"
  shows "lands G (client_del_loop hw failed env Rs s0 p c i0 qs) (client_del_peer env p c q fs)"
proof -
  obtain flag s where fs: "fs = (flag, s)" by fastforce
  have k: "kept hw failed env Rs s0 s" and d: "distinct (q # qs)" and sub: "set (q # qs) \<subseteq> peer ` set (peers i0)"
    and fl: "\<forall>q' \<in> peer ` set (peers i0) - set (q # qs). flag (l2_of env q')"
    and nf: "\<forall>q' j pr. q' \<notin> set (q # qs) \<longrightarrow> find_iface q' s = Some j \<longrightarrow> pr \<in> set (peers j) \<longrightarrow> peer pr = p \<longrightarrow> c \<notin> p_client ` set (flt_list pr)"
    and ex: "\<exists>i. find_iface p s = Some i \<and> (\<forall>cl \<in> set (clients i). mac_addr cl = c \<longrightarrow> (\<forall>t. flag t \<longrightarrow> inter_rt cl t = (\<lambda>_. [])))"
    by (insert I [unfolded fs client_del_loop_def prod.case], elim conjE, assumption)+
  obtain i where i: "find_iface p s = Some i" "\<forall>cl \<in> set (clients i). mac_addr cl = c \<longrightarrow> (\<forall>t. flag t \<longrightarrow> inter_rt cl t = (\<lambda>_. []))"
    using ex by blast
  have si: "same_iface i0 i" using keptD(6) [OF k i0(1)] i(1) by auto
  have qp: "q \<in> peer ` set (peers i)" using sub si by (metis same_iface_def list.set_map list.set_intros(1) subsetD)
  note inv = keptD(1) [OF k]
  have pq: "q \<noteq> p" "q \<in> set (names s)"
    using qp inv_iface [OF inv i(1)] find_iface_name [OF i(1)] by (auto simp: iface_ok_def lists_ok_def)
  let ?t = "l2_of env q"
  let ?f = "\<lambda>j d. Some (del_one_client_flt_rule env p c j d)"
  obtain j where j: "find_iface q s = Some j" using pq(2) find_iface_None [of q s] by fastforce
  obtain j' d' where a: "del_one_client_flt_rule env p c j (drv s) = (j', d')" by fastforce
  note m = del_one_moves [OF ok inv_iface [OF inv j] a]
  have c1: "c \<notin> p_client ` set (flt_list pr)" if "pr \<in> set (peers j')" "peer pr = p" for pr
    using m(4) [OF that] by (auto simp: flt_wf_def)
  let ?Q = "\<lambda>j'. \<forall>pr \<in> set (peers j'). peer pr = p \<longrightarrow> c \<notin> p_client ` set (flt_list pr)"
  have "lands G (\<lambda>(i', d'). moves hw failed (drv s) d' (own env j) (own env i') \<and>
        iface_ok env (Rs q) (macs_of s) (set (names s)) i' \<and> same_iface j i' \<and> ?Q i') (?f j (drv s))"
    using m(1-3) c1 a by simp
  from on_iface_kept [where f = ?f and Q = ?Q, OF inv j this]
  have 1: "lands G (\<lambda>s1. kept hw failed env Rs s s1 \<and> (\<exists>j'. find_iface q s1 = Some j' \<and> ?Q j') \<and>
      (\<forall>q'. q' \<noteq> q \<longrightarrow> find_iface q' s1 = find_iface q' s)) (on_iface q ?f s)"
    by (rule lands_weaken) blast
  let ?g = "\<lambda>i d. (case find (\<lambda>pr. peer pr = q) (peers i) of
                      None \<Rightarrow> None
                    | Some pr \<Rightarrow>
                        (case at_first (\<lambda>cl. mac_addr cl = c) (del_client_rt_rule env i pr) (clients i) d of
                           (cs, d) \<Rightarrow> Some (i\<lparr>clients := cs\<rparr>, d)))"
  show ?thesis
    unfolding client_del_peer_def fs prod.case Let_def
  proof (rule lands_bind [OF 1])
    fix s1 assume s1: "kept hw failed env Rs s s1 \<and> (\<exists>j'. find_iface q s1 = Some j' \<and> ?Q j') \<and>
      (\<forall>q'. q' \<noteq> q \<longrightarrow> find_iface q' s1 = find_iface q' s)"
    then have k1: "kept hw failed env Rs s s1" by blast
    note inv1 = keptD(1) [OF k1]
    have i1: "find_iface p s1 = Some i" using s1 pq(1) i(1) by simp
    have nf1: "\<forall>q' j pr. q' \<notin> set qs \<longrightarrow> find_iface q' s1 = Some j \<longrightarrow> pr \<in> set (peers j) \<longrightarrow> peer pr = p \<longrightarrow> c \<notin> p_client ` set (flt_list pr)"
    proof (intro allI impI)
      fix q' j pr assume x: "q' \<notin> set qs" "find_iface q' s1 = Some j" "pr \<in> set (peers j)" "peer pr = p"
      show "c \<notin> p_client ` set (flt_list pr)"
      proof (cases "q' = q")
        case True
        then show ?thesis using s1 x by auto
      next
        case False
        then have "find_iface q' s = Some j" "q' \<notin> set (q # qs)" using s1 x by simp_all
        then show ?thesis using nf x(3,4) by blast
      qed
    qed
    have fin: "client_del_loop hw failed env Rs s0 p c i0 qs (flag(?t := True), s2)"
      if s2: "kept hw failed env Rs s1 s2" "find_iface p s2 = Some i2" "same_iface i i2"
        "\<forall>cl \<in> set (clients i2). mac_addr cl = c \<longrightarrow> (\<forall>t. (flag(?t := True)) t \<longrightarrow> inter_rt cl t = (\<lambda>_. []))"
        "\<forall>q'. q' \<noteq> p \<longrightarrow> find_iface q' s2 = find_iface q' s1" "peers i2 = peers i" for s2 i2
      unfolding client_del_loop_def prod.case
    proof (intro conjI)
      show "kept hw failed env Rs s0 s2" using k k1 s2(1) kept_trans by blast
      show "distinct qs" "set qs \<subseteq> peer ` set (peers i0)" using d sub by simp_all
      show "\<exists>i. find_iface p s2 = Some i \<and> (\<forall>cl \<in> set (clients i). mac_addr cl = c \<longrightarrow> (\<forall>t. (flag(?t := True)) t \<longrightarrow> inter_rt cl t = (\<lambda>_. [])))"
        using s2(2,4) by blast
      show "\<forall>q \<in> peer ` set (peers i0) - set qs. (flag(?t := True)) (l2_of env q)" using fl by auto
      show "\<forall>q j pr. q \<notin> set qs \<longrightarrow> find_iface q s2 = Some j \<longrightarrow> pr \<in> set (peers j) \<longrightarrow> peer pr = p \<longrightarrow> c \<notin> p_client ` set (flt_list pr)"
      proof (intro allI impI)
        fix q' j pr assume x: "q' \<notin> set qs" "find_iface q' s2 = Some j" "pr \<in> set (peers j)" "peer pr = p"
        then have "q' \<noteq> p" using s2(2) iface_ok_peer(4) [OF inv_iface [OF keptD(1) [OF s2(1)] s2(2)], of pr] find_iface_name [OF s2(2)] by auto
        then show "c \<notin> p_client ` set (flt_list pr)" using nf1 x s2(5) by auto
      qed
    qed
    show "lands G (client_del_loop hw failed env Rs s0 p c i0 qs)
      (if flag ?t then Some (flag, s1)
       else (case on_iface p ?g s1 of None \<Rightarrow> None | Some s \<Rightarrow> Some (flag(?t := True), s)))"
    proof (rule lands_if)
      assume f: "flag ?t"
      then have "flag(?t := True) = flag" by (intro fun_upd_idem) simp
      then show "lands G (client_del_loop hw failed env Rs s0 p c i0 qs) (Some (flag, s1))"
        using fin [OF kept_refl [OF inv1] i1 same_iface_refl] i(2) by simp
    next
      assume f: "\<not> flag ?t"
      obtain pr where pr: "find (\<lambda>pr. peer pr = q) (peers i) = Some pr"
        using qp by (metis (mono_tags, lifting) find_None_iff image_iff option.exhaust)
      then have pr': "pr \<in> set (peers i)" "peer pr = q" using find_SomeD by fast+
      note iok = inv_iface [OF inv1 i1]
      have cm: "c \<in> set (macs i)" using i0(2) si by (simp add: same_iface_def)
      obtain cs d1 where b: "at_first (\<lambda>cl. mac_addr cl = c) (del_client_rt_rule env i pr) (clients i) (drv s1) = (cs, d1)" by fastforce
      note dm = del_rt_at_moves [OF ok iok cm b]
      from dm(4) obtain cl cl' where cl: "cl \<in> set (clients i)" "mac_addr cl = c" "client_ok i cl" "del_client_rt_rule env i pr cl (drv s1) = (cl', d1)"
        "\<forall>x \<in> set cs. mac_addr x = c \<longrightarrow> x = cl'" by blast
      note dk = del_client_rt_rule_ok [OF cl(3,4)]
      have qn: "peer pr \<noteq> m_p_iface i" using iface_ok_peer(4) [OF iok pr'(1)] .
      have "\<forall>t. (flag(?t := True)) t \<longrightarrow> inter_rt cl' t = (\<lambda>_. [])"
        using dk(3,5) qn pr'(2) i(2) cl(1,2) by (metis fun_upd_apply)
      then have q: "\<forall>x \<in> set cs. mac_addr x = c \<longrightarrow> (\<forall>t. (flag(?t := True)) t \<longrightarrow> inter_rt x t = (\<lambda>_. []))" using cl(5) by blast
      let ?R = "\<lambda>i2. i2 = i\<lparr>clients := cs\<rparr>"
      have "lands G (\<lambda>(i', d'). moves hw failed (drv s1) d' (own env i) (own env i') \<and>
        iface_ok env (Rs p) (macs_of s1) (set (names s1)) i' \<and> same_iface i i' \<and> ?R i') (?g i (drv s1))"
        using dm(1-3) pr b by simp
      from on_iface_kept [where f = ?g and Q = ?R, OF inv1 i1 this]
      have 2: "lands G (\<lambda>s'. kept hw failed env Rs s1 s' \<and> (\<exists>i'. find_iface p s' = Some i' \<and> ?R i' \<and> same_iface i i') \<and>
         (\<forall>q. q \<noteq> p \<longrightarrow> find_iface q s' = find_iface q s1)) (on_iface p ?g s1)" .
      show "lands G (client_del_loop hw failed env Rs s0 p c i0 qs) (case on_iface p ?g s1 of None \<Rightarrow> None | Some s \<Rightarrow> Some (flag(?t := True), s))"
      proof (rule lands_bind [OF 2])
        fix s2 assume "kept hw failed env Rs s1 s2 \<and> (\<exists>i'. find_iface p s2 = Some i' \<and> ?R i' \<and> same_iface i i') \<and>
         (\<forall>q. q \<noteq> p \<longrightarrow> find_iface q s2 = find_iface q s1)"
        then show "lands G (client_del_loop hw failed env Rs s0 p c i0 qs) (Some (flag(?t := True), s2))"
          using fin [of s2 "i\<lparr>clients := cs\<rparr>"] q by auto
      qed
    qed
  qed
qed

lemma intra_client_del_moves:
  assumes ok: "driver_ok hw failed (dev env)" and i: "iface_ok env R M N i" and pr: "intra_info i = Some pr" and c: "c \<in> set (macs i)"
  shows "\<exists>i' d'. intra_client_del env c i d = Some (i', d') \<and> moves hw failed d d' (own env i) (own env i') \<and>
      iface_ok env R M N i' \<and> same_iface i i' \<and> peers i' = peers i \<and>
      (\<forall>cl' \<in> set (clients i'). mac_addr cl' = c \<longrightarrow> intra_rt cl' = (\<lambda>_. []) \<and> (\<exists>cl \<in> set (clients i). mac_addr cl = c \<and> inter_rt cl' = inter_rt cl)) \<and>
      (\<forall>pr. intra_info i' = Some pr \<longrightarrow> c \<notin> p_client ` set (flt_list pr))"
proof -
  have p: "peer pr = m_p_iface i" "flt_wf (ip_assigned i) (set (macs i)) pr"
    using i pr by (auto simp: iface_ok_def rt_tbls_ok_def lists_ok_def)
  obtain pr' d1 where f: "del_client_flt_rule env i c pr d = (pr', d1)" by fastforce
  note m = del_client_flt_rule_moves [OF ok p(2) f]
  have w: "flt_wf (ip_assigned i) (set (macs i)) pr'" using m(3) by (auto simp: flt_wf_def)
  let ?i = "i\<lparr>intra_info := Some pr'\<rparr>"
  note m1 = intra_moves [OF i pr m(1,2) w]
  have pp: "peer pr' = m_p_iface i" using m(2) p(1) by (simp add: same_peer_def)
  have c1: "c \<in> set (macs ?i)" using c by (simp add: macs_def)
  have eq: "del_client_rt_rule env i pr' = del_client_rt_rule env ?i pr'" by (intro ext) (simp add: del_client_rt_rule_def Let_def)
  obtain cs d' where b: "at_first (\<lambda>cl. mac_addr cl = c) (del_client_rt_rule env ?i pr') (clients ?i) d1 = (cs, d')" by fastforce
  note m2 = del_rt_at_moves [OF ok m1(2) c1 b]
  from m2(4) obtain cl cl' where cl: "cl \<in> set (clients i)" "mac_addr cl = c" "client_ok ?i cl" "del_client_rt_rule env ?i pr' cl d1 = (cl', d')"
        "\<forall>x \<in> set cs. mac_addr x = c \<longrightarrow> x = cl'" by auto
  have dk: "intra_rt cl' = (\<lambda>_. []) \<and> inter_rt cl' = inter_rt cl" using del_client_rt_rule_ok(6) [OF cl(3,4)] pp by simp
  have "intra_client_del env c i d = Some (?i\<lparr>clients := cs\<rparr>, d')"
    using pr f b by (simp add: intra_client_del_def eq)
  moreover have "c \<notin> p_client ` set (flt_list pr')" using m(3) by (auto simp: flt_wf_def)
  moreover have "moves hw failed d d' (own env i) (own env (?i\<lparr>clients := cs\<rparr>))" by (rule moves_trans [OF m1(1) m2(1)])
  moreover have "same_iface i (?i\<lparr>clients := cs\<rparr>)" by (rule same_iface_trans [OF m1(3) m2(3)])
  moreover have "\<forall>x \<in> set (clients (?i\<lparr>clients := cs\<rparr>)). mac_addr x = c \<longrightarrow> intra_rt x = (\<lambda>_. []) \<and>
      (\<exists>cl \<in> set (clients i). mac_addr cl = c \<and> inter_rt x = inter_rt cl)"
    using cl(1,2,5) dk by auto
  ultimately show ?thesis using m2(2) by auto
qed

text \<open>The client is taken from the list when nothing belongs to it any more.\<close>

lemma erase_client:
  assumes inv: "l2l_inv env Rs s" and i: "find_iface p s = Some i"
    and z: "\<And>cl. cl \<in> set (clients i) \<Longrightarrow> mac_addr cl = c \<Longrightarrow> inter_rt cl = (\<lambda>_ _. []) \<and> intra_rt cl = (\<lambda>_. [])" and c: "c \<in> set (macs i)"
    and nf: "\<And>q j pr. find_iface q s = Some j \<Longrightarrow> pr \<in> set (peers j) \<Longrightarrow> peer pr = p \<Longrightarrow> c \<notin> p_client ` set (flt_list pr)"
    and ni: "\<And>pr. intra_info i = Some pr \<Longrightarrow> c \<notin> p_client ` set (flt_list pr)"
  shows "\<exists>s'. on_iface p (\<lambda>i d. Some (i\<lparr>clients := erase_first (\<lambda>cl. mac_addr cl = c) (clients i)\<rparr>, d)) s = Some s' \<and>
    lkept hw failed env Rs s s'"
proof -
  obtain x where "x \<in> set (clients i)" "mac_addr x = c" using c by (auto simp: macs_def)
  from at_first_split [of x "clients i" "\<lambda>cl. mac_addr cl = c", OF this, of "\<lambda>cl d. (cl, d)" "()"]
  obtain us cl vs where cs: "clients i = us @ cl # vs" "mac_addr cl = c"
    "erase_first (\<lambda>cl. mac_addr cl = c) (clients i) = us @ vs" by blast
  let ?i = "i\<lparr>clients := us @ vs\<rparr>"
  let ?s = "put_iface ?i s"
  have d: "distinct (names s)" using inv by (simp add: l2l_inv_def)
  have p: "m_p_iface ?i = p" using find_iface_name [OF i] by simp
  note pf = put_iface_facts [OF d i p]
  have "own_client env i cl = {#}"
    using z cs by (simp add: own_client_def sum_l2_def rt_info_def sum_ip_def)
  moreover have "i = i\<lparr>clients := us @ cl # vs\<rparr>" using cs(1) by (metis l2l_iface.surjective l2l_iface.update_convs(8))
  ultimately have "own env ?i = own env i"
    using own_clients [of env "us @ cl # vs" i] own_clients [of env "us @ vs" i] by simp
  then have m: "smoves hw failed env s ?s" using pf(3) [of hw failed "drv s" "drv s" env] pf(5) by (simp add: smoves_def)
  note iok = inv_iface [OF inv i]
  have dm: "distinct (macs i)" using iok by (simp add: iface_ok_def lists_ok_def)
  have mm: "set (macs ?i) = set (macs i) - {c}" using dm cs(1,2) by (auto simp: macs_def)
  have M: "macs_of ?s q = (if q = p then macs_of s p - {c} else macs_of s q)" for q
    using pf(2) i mm by (auto simp: macs_of_def)
  have w: "flt_wf A M pr \<Longrightarrow> c \<notin> p_client ` set (flt_list pr) \<Longrightarrow> flt_wf A (M - {c}) pr" for A M pr
    by (auto simp: flt_wf_def)
  have up: "iface_ok env (Rs q) (macs_of ?s) (set (names s)) j" if j: "find_iface q s = Some j" for q j
  proof -
    have "flt_wf (ip_assigned j) (macs_of ?s (peer pr)) pr" if "pr \<in> set (peers j)" for pr
      using iface_ok_peer(1) [OF inv_iface [OF inv j] that] w [OF _ nf [OF j that]] M by (cases "peer pr = p") simp_all
    then show ?thesis using inv_iface [OF inv j] by (simp add: iface_ok_def lists_ok_def)
  qed
  have "lists_ok (macs_of ?s) (set (names s)) ?i"
  proof -
    have "distinct (macs ?i)" using dm cs(1) by (simp add: macs_def)
    moreover have "flt_wf (ip_assigned i) (set (macs ?i)) pr" if "intra_info i = Some pr" for pr
      using iok that w [OF _ ni [OF that]] mm by (simp add: iface_ok_def lists_ok_def)
    ultimately show ?thesis using up [OF i] cs(1) by (simp add: iface_ok_def lists_ok_def)
  qed
  then have "iface_ok env (Rs p) (macs_of ?s) (set (names s)) ?i"
    using up [OF i] cs(1) by (simp add: iface_ok_def rt_tbls_ok_def cnt_ok_def client_ok_def)
  then have "l2l_inv env Rs ?s" using inv up pf(1,2,4) by (auto simp: l2l_inv_def length_names split: if_splits)
  moreover have "same_links s ?s"
    by (rule same_linksI [OF pf(1,4) i, of ?i]) (simp_all add: pf(2) same_link_def)
  ultimately have "lkept hw failed env Rs s ?s" using m by (simp add: lkept_def)
  then show ?thesis using i cs(3) by (simp add: on_iface_def put_iface_def)
qed

lemma iface_client_del_lands:
  assumes ok: "driver_ok hw failed (dev env)" and inv: "l2l_inv env (peers_of s) s" and l: "linked_up s"
    and i: "find_iface p s = Some i"
  shows "lands G (lkept hw failed env (peers_of s) s) (iface_client_del env p c s)"
proof (cases "\<exists>cl \<in> set (clients i). mac_addr cl = c")
  case False
  then show ?thesis using i lkept_refl [OF inv] by (simp add: iface_client_del_def)
next
  case True
  note iok = inv_iface [OF inv i]
  have cm: "c \<in> set (macs i)" using True by (auto simp: macs_def)
  have Rp: "peers_of s p = map peer (peers i)" using i by (simp add: peers_of_def)
  have out: "q \<in> peer ` set (peers i)" if j: "find_iface q s = Some j" "pr \<in> set (peers j)" "peer pr = p" for q j pr
  proof -
    have lj: "inter_offload j \<longrightarrow> peer ` set (peers j) = {q'. q' \<noteq> q \<and> (\<exists>j. find_iface q' s = Some j \<and> inter_offload j)}"
      using l j(1) unfolding linked_up_def by blast
    have li: "inter_offload i \<longrightarrow> peer ` set (peers i) = {q'. q' \<noteq> p \<and> (\<exists>j. find_iface q' s = Some j \<and> inter_offload j)}"
      using l i unfolding linked_up_def by blast
    have oj: "inter_offload j" using inv_iface [OF inv j(1)] j(2) by (auto simp: iface_ok_def lists_ok_def)
    then have "p \<in> {q'. q' \<noteq> q \<and> (\<exists>j. find_iface q' s = Some j \<and> inter_offload j)}" using lj j(2,3) by blast
    then have "p \<noteq> q" "inter_offload i" using i by simp_all
    then show ?thesis using li j(1) oj by simp
  qed
  have "client_del_loop hw failed env (peers_of s) s p c i (map peer (peers i)) (\<lambda>_. False, s)"
    unfolding client_del_loop_def prod.case
  proof (intro conjI)
    show "\<forall>q j pr. q \<notin> set (map peer (peers i)) \<longrightarrow> find_iface q s = Some j \<longrightarrow> pr \<in> set (peers j) \<longrightarrow> peer pr = p \<longrightarrow>
        c \<notin> p_client ` set (flt_list pr)" using out by fastforce
  qed (use kept_refl [OF inv] i iok in \<open>auto simp: iface_ok_def lists_ok_def\<close>)
  then have loop: "lands G (client_del_loop hw failed env (peers_of s) s p c i [])
       (fold_opt (client_del_peer env p c) (map peer (peers i)) (\<lambda>_. False, s))"
    by (rule lands_fold) (rule client_del_peer_lands [OF ok i cm])
  let ?P = "\<lambda>fs. kept hw failed env (peers_of s) s (snd fs) \<and>
      (\<exists>i'. find_iface p (snd fs) = Some i' \<and> (\<forall>cl \<in> set (clients i'). mac_addr cl = c \<longrightarrow> inter_rt cl = (\<lambda>_ _. []))) \<and>
      (\<forall>q j pr. find_iface q (snd fs) = Some j \<longrightarrow> pr \<in> set (peers j) \<longrightarrow> peer pr = p \<longrightarrow> c \<notin> p_client ` set (flt_list pr))"
  have z: "inter_rt cl = (\<lambda>_ _. [])"
    if k: "kept hw failed env (peers_of s) s s'" "find_iface p s' = Some i'" "cl \<in> set (clients i')" "mac_addr cl = c"
      and fl: "\<forall>t. flag t \<longrightarrow> inter_rt cl t = (\<lambda>_. [])" "\<forall>q \<in> peer ` set (peers i). flag (l2_of env q)" for s' i' cl flag
  proof
    fix t
    have cn: "cnt_ok env (peers_of s p) i'" using inv_iface [OF keptD(1) [OF k(1)] k(2)] by (simp add: iface_ok_def)
    show "inter_rt cl t = (\<lambda>_. [])"
    proof (cases "flag t")
      case False
      then have "filter (\<lambda>q. l2_of env q = t) (map peer (peers i)) = []" using fl(2) by (auto simp: filter_empty_conv)
      moreover have "ref_cnt i' t = int (length (filter (\<lambda>q. l2_of env q = t) (map peer (peers i))))"
        using cn unfolding cnt_ok_def Rp by blast
      ultimately have "ref_cnt i' t = 0" by (simp only: list.size of_nat_0)
      then show ?thesis using cn k(3) by (simp add: cnt_ok_def client_ok_def)
    qed (use fl(1) in blast)
  qed
  have 1: "lands G ?P (if inter_offload i then fold_opt (client_del_peer env p c) (map peer (peers i)) (\<lambda>_. False, s) else Some (\<lambda>_. False, s))"
  proof (rule lands_if)
    show "lands G ?P (fold_opt (client_del_peer env p c) (map peer (peers i)) (\<lambda>_. False, s))"
    proof (rule lands_weaken [OF loop])
      fix fs :: "(l2_type \<Rightarrow> bool) \<times> 'a l2l"
      obtain flag s' where fs: "fs = (flag, s')" by fastforce
      assume "client_del_loop hw failed env (peers_of s) s p c i [] fs"
      then have k: "kept hw failed env (peers_of s) s s'"
        and ex: "\<exists>i'. find_iface p s' = Some i' \<and> (\<forall>cl \<in> set (clients i'). mac_addr cl = c \<longrightarrow> (\<forall>t. flag t \<longrightarrow> inter_rt cl t = (\<lambda>_. [])))"
        and fl: "\<forall>q \<in> peer ` set (peers i). flag (l2_of env q)"
        and nf: "\<forall>q j pr. find_iface q s' = Some j \<longrightarrow> pr \<in> set (peers j) \<longrightarrow> peer pr = p \<longrightarrow> c \<notin> p_client ` set (flt_list pr)"
        by (simp_all add: fs client_del_loop_def)
      obtain i' where i': "find_iface p s' = Some i'" "\<forall>cl \<in> set (clients i'). mac_addr cl = c \<longrightarrow> (\<forall>t. flag t \<longrightarrow> inter_rt cl t = (\<lambda>_. []))"
        using ex by blast
      have "\<forall>cl \<in> set (clients i'). mac_addr cl = c \<longrightarrow> inter_rt cl = (\<lambda>_ _. [])" using z [OF k i'(1) _ _ _ fl] i'(2) by blast
      then show "?P fs" unfolding fs snd_conv using k i'(1) nf by blast
    qed
    assume "\<not> inter_offload i"
    then have e: "peers i = []" using iok by (simp add: iface_ok_def lists_ok_def)
    have "\<forall>cl \<in> set (clients i). mac_addr cl = c \<longrightarrow> inter_rt cl = (\<lambda>_ _. [])"
      using z [OF kept_refl [OF inv] i, of _ "\<lambda>_. False"] e by simp
    moreover have "pr \<notin> set (peers j)" if "find_iface q s = Some j" "peer pr = p" for q j pr using out [OF that(1) _ that(2)] e by auto
    ultimately show "lands G ?P (Some (\<lambda>_. False, s))" using kept_refl [OF inv] i by auto
  qed
  let ?er = "\<lambda>i d. Some (i\<lparr>clients := erase_first (\<lambda>cl. mac_addr cl = c) (clients i)\<rparr>, d)"
  have "iface_client_del env p c s =
    (case (if inter_offload i then fold_opt (client_del_peer env p c) (map peer (peers i)) (\<lambda>_. False, s) else Some (\<lambda>_. False, s)) of
       None \<Rightarrow> None
     | Some (_, s) \<Rightarrow> (case (if intra_offload i then on_iface p (intra_client_del env c) s else Some s) of
           None \<Rightarrow> None | Some s \<Rightarrow> on_iface p ?er s))"
    using i True unfolding iface_client_del_def by (simp only: option.case simp_thms if_False)
  also have "lands G (lkept hw failed env (peers_of s) s) \<dots>"
  proof (rule lands_bind [OF 1])
    fix fs :: "(l2_type \<Rightarrow> bool) \<times> 'a l2l" assume P: "?P fs"
    obtain flag s2 where fs: "fs = (flag, s2)" by fastforce
    have k: "kept hw failed env (peers_of s) s s2"
      and nf: "\<forall>q j pr. find_iface q s2 = Some j \<longrightarrow> pr \<in> set (peers j) \<longrightarrow> peer pr = p \<longrightarrow> c \<notin> p_client ` set (flt_list pr)"
      using P fs by simp_all
    obtain i2 where i2: "find_iface p s2 = Some i2" "\<forall>cl \<in> set (clients i2). mac_addr cl = c \<longrightarrow> inter_rt cl = (\<lambda>_ _. [])" using P fs by auto
    note inv2 = keptD(1) [OF k]
    have si: "same_iface i i2" using keptD(6) [OF k i] i2(1) by auto
    have cm2: "c \<in> set (macs i2)" using cm si by (simp add: same_iface_def)
    have ii: "intra_info i = None \<longleftrightarrow> \<not> intra_offload i" using l i unfolding linked_up_def by blast
    let ?Q = "\<lambda>s3. kept hw failed env (peers_of s) s s3 \<and>
        (\<forall>q j pr. find_iface q s3 = Some j \<longrightarrow> pr \<in> set (peers j) \<longrightarrow> peer pr = p \<longrightarrow> c \<notin> p_client ` set (flt_list pr)) \<and>
        (\<exists>i'. find_iface p s3 = Some i' \<and> c \<in> set (macs i') \<and>
           (\<forall>cl \<in> set (clients i'). mac_addr cl = c \<longrightarrow> inter_rt cl = (\<lambda>_ _. []) \<and> intra_rt cl = (\<lambda>_. [])) \<and>
           (\<forall>pr. intra_info i' = Some pr \<longrightarrow> c \<notin> p_client ` set (flt_list pr)))"
    have 2: "lands G ?Q (if intra_offload i then on_iface p (intra_client_del env c) s2 else Some s2)"
    proof (rule lands_if)
      assume "intra_offload i"
      then have "intra_info i2 \<noteq> None" using ii si by (simp add: same_iface_def)
      then obtain pr where pr: "intra_info i2 = Some pr" by blast
      let ?R = "\<lambda>i'. peers i' = peers i2 \<and> (\<forall>cl \<in> set (clients i'). mac_addr cl = c \<longrightarrow> inter_rt cl = (\<lambda>_ _. []) \<and> intra_rt cl = (\<lambda>_. [])) \<and>
           (\<forall>pr. intra_info i' = Some pr \<longrightarrow> c \<notin> p_client ` set (flt_list pr))"
      obtain i' d' where st: "intra_client_del env c i2 (drv s2) = Some (i', d')" "moves hw failed (drv s2) d' (own env i2) (own env i')"
        "iface_ok env (peers_of s p) (macs_of s2) (set (names s2)) i'" "same_iface i2 i'" "peers i' = peers i2"
        "\<forall>cl' \<in> set (clients i'). mac_addr cl' = c \<longrightarrow> intra_rt cl' = (\<lambda>_. []) \<and> (\<exists>cl \<in> set (clients i2). mac_addr cl = c \<and> inter_rt cl' = inter_rt cl)"
        "\<forall>pr. intra_info i' = Some pr \<longrightarrow> c \<notin> p_client ` set (flt_list pr)"
        using intra_client_del_moves [OF ok inv_iface [OF inv2 i2(1)] pr cm2] by blast
      have "?R i'" using st(5-7) i2(2) by fastforce
      then have "lands G (\<lambda>(i', d'). moves hw failed (drv s2) d' (own env i2) (own env i') \<and>
          iface_ok env (peers_of s p) (macs_of s2) (set (names s2)) i' \<and> same_iface i2 i' \<and> ?R i') (intra_client_del env c i2 (drv s2))"
        using st(1-4) by simp
      from on_iface_kept [where f = "intra_client_del env c" and Q = ?R, OF inv2 i2(1) this]
      show "lands G ?Q (on_iface p (intra_client_del env c) s2)"
      proof (rule lands_weaken)
        fix s3 assume s3: "kept hw failed env (peers_of s) s2 s3 \<and> (\<exists>i'. find_iface p s3 = Some i' \<and> ?R i' \<and> same_iface i2 i') \<and>
            (\<forall>q. q \<noteq> p \<longrightarrow> find_iface q s3 = find_iface q s2)"
        then obtain i3 where i3: "find_iface p s3 = Some i3" "?R i3" "same_iface i2 i3" by blast
        have "c \<notin> p_client ` set (flt_list pr)" if q: "find_iface q s3 = Some j" "pr \<in> set (peers j)" "peer pr = p" for q j pr
        proof (cases "q = p")
          case True
          then show ?thesis using nf i2(1) i3(1,2) q by auto
        next
          case False
          then show ?thesis using nf s3 q by auto
        qed
        moreover have "c \<in> set (macs i3)" using cm2 i3(3) by (simp add: same_iface_def)
        ultimately show "?Q s3" using i3(1,2) kept_trans [OF k] s3 by blast
      qed
    next
      assume "\<not> intra_offload i"
      then have n: "intra_info i2 = None" using ii si by (simp add: same_iface_def)
      then have "\<forall>cl \<in> set (clients i2). intra_rt cl = (\<lambda>_. [])"
        using inv_iface [OF inv2 i2(1)] by (simp add: iface_ok_def cnt_ok_def client_ok_def)
      then show "lands G ?Q (Some s2)" using k nf i2 cm2 n by simp
    qed
    have "lands G (lkept hw failed env (peers_of s) s)
      (case (if intra_offload i then on_iface p (intra_client_del env c) s2 else Some s2) of None \<Rightarrow> None | Some s \<Rightarrow> on_iface p ?er s)"
    proof (rule lands_bind [OF 2])
      fix s3 assume s3: "?Q s3"
      obtain i3 where i3: "find_iface p s3 = Some i3" "c \<in> set (macs i3)"
         "\<forall>cl \<in> set (clients i3). mac_addr cl = c \<longrightarrow> inter_rt cl = (\<lambda>_ _. []) \<and> intra_rt cl = (\<lambda>_. [])"
         "\<forall>pr. intra_info i3 = Some pr \<longrightarrow> c \<notin> p_client ` set (flt_list pr)" using s3 by blast
      have k3: "kept hw failed env (peers_of s) s s3"
        and nf3: "\<And>q j pr. find_iface q s3 = Some j \<Longrightarrow> pr \<in> set (peers j) \<Longrightarrow> peer pr = p \<Longrightarrow> c \<notin> p_client ` set (flt_list pr)"
        using s3 by blast+
      have "\<exists>s'. on_iface p ?er s3 = Some s' \<and> lkept hw failed env (peers_of s) s3 s'"
        by (rule erase_client [OF keptD(1) [OF k3] i3(1)]) (use i3 nf3 in blast)+
      then show "lands G (lkept hw failed env (peers_of s) s) (on_iface p ?er s3)"
        using kept_lkept [OF k3] lkept_trans by (elim exE conjE) (simp, blast)
    qed
    then show "lands G (lkept hw failed env (peers_of s) s)
      (case fs of (_, s) \<Rightarrow> case (if intra_offload i then on_iface p (intra_client_del env c) s else Some s) of None \<Rightarrow> None | Some s \<Rightarrow> on_iface p ?er s)"
      by (simp add: fs)
  qed
  finally show ?thesis .
qed

end
