(* ===== verification/L2l_Up.thy ===== *)
theory L2l_Up
  imports L2l_Sys
begin

text \<open>An interface comes up: a second address family, or a new interface that is paired with all others.\<close>

section \<open>Filter rules for the clients of all peers\<close>

definition flt_loop :: "'d hw_view \<Rightarrow> ('d \<Rightarrow> bool) \<Rightarrow> 'd l2l_env \<Rightarrow> (nat \<Rightarrow> nat list) \<Rightarrow> 'd l2l \<Rightarrow> nat \<Rightarrow> ipa_ip_type \<Rightarrow>
    (nat \<times> mac) set \<Rightarrow> 'd l2l \<Rightarrow> bool" where
  "flt_loop hw failed env Rs s0 p ip rem s \<longleftrightarrow> kept hw failed env Rs s0 s \<and>
     (\<exists>i. find_iface p s = Some i \<and> ip_assigned i ip \<and> intra_info i = intra_info (the (find_iface p s0)) \<and>
        (\<forall>(q, c) \<in> rem. \<forall>pr \<in> set (peers i). peer pr = q \<longrightarrow> no_flt pr c ip))"

lemma at_peer_intra: "at_peer q f i d = (i', d') \<Longrightarrow> intra_info i' = intra_info i"
  by (auto simp: at_peer_def split: prod.splits)

lemma flt_loop_step:
  assumes ok: "driver_ok hw failed (dev env)" and I: "flt_loop hw failed env Rs s0 p ip rem s"
    and q: "(q, c) \<in> rem" and c: "c \<in> macs_of s0 q"
  shows "lands G (flt_loop hw failed env Rs s0 p ip (rem - {(q, c)}))
    (on_iface p (\<lambda>i d. Some (at_peer q (add_client_flt_rule env i c ip) i d)) s)"
proof -
  obtain i where k: "kept hw failed env Rs s0 s" and i: "find_iface p s = Some i" "ip_assigned i ip"
    "\<forall>(q, c) \<in> rem. \<forall>pr \<in> set (peers i). peer pr = q \<longrightarrow> no_flt pr c ip" "intra_info i = intra_info (the (find_iface p s0))" using I unfolding flt_loop_def by blast
  note inv = keptD(1) [OF k]
  have cM: "c \<in> macs_of s q" using c keptD(5) [OF k] by simp
  let ?f = "\<lambda>i d. Some (at_peer q (add_client_flt_rule env i c ip) i d)"
  let ?Q = "\<lambda>i'. ip_assigned i' ip \<and> intra_info i' = intra_info (the (find_iface p s0)) \<and> (\<forall>(q', c') \<in> rem - {(q, c)}. \<forall>pr \<in> set (peers i'). peer pr = q' \<longrightarrow> no_flt pr c' ip)"
  obtain i' d' where r: "at_peer q (add_client_flt_rule env i c ip) i (drv s) = (i', d')" by fastforce
  have fr: "no_flt pr c ip" if "pr \<in> set (peers i)" "peer pr = q" for pr using i(3) q that by blast
  note m = flt_at_peer_moves [OF ok inv_iface [OF inv i(1)] i(2) cM fr r]
  have n0: "no_flt pr c' ip" if x: "(q', c') \<in> rem" "(q', c') \<noteq> (q, c)" "pr \<in> set (peers i')" "peer pr = q'" for q' c' pr
  proof -
    have "\<forall>pr \<in> set (peers i). peer pr = q' \<longrightarrow> no_flt pr c' ip" using i(3) x(1) by blast
    then show ?thesis using m(4) [of q' c' ip] x(2-4) by auto
  qed
  then have n: "\<forall>(q', c') \<in> rem - {(q, c)}. \<forall>pr \<in> set (peers i'). peer pr = q' \<longrightarrow> no_flt pr c' ip" by blast
  have "ip_assigned i' ip" using m(3) i(2) by (simp add: same_iface_def)
  then have "lands G (\<lambda>(i', d'). moves hw failed (drv s) d' (own env i) (own env i') \<and>
        iface_ok env (Rs p) (macs_of s) (set (names s)) i' \<and> same_iface i i' \<and> ?Q i') (?f i (drv s))"
    using m(1-3) n r i(4) at_peer_intra [OF r] by simp
  from on_iface_kept [where f = ?f and Q = ?Q, OF inv i(1) this] show ?thesis
    by (rule lands_weaken) (use k kept_trans in \<open>unfold flt_loop_def, blast\<close>)
qed

lemma add_all_inter_lands:
  assumes ok: "driver_ok hw failed (dev env)" and inv: "l2l_inv env Rs s" and i: "find_iface p s = Some i" "ip_assigned i ip"
    and nf: "\<And>pr c. pr \<in> set (peers i) \<Longrightarrow> no_flt pr c ip"
  shows "lands G (\<lambda>s'. kept hw failed env Rs s s' \<and> (\<exists>i'. find_iface p s' = Some i' \<and> intra_info i' = intra_info i))
    (add_all_inter_interface_client_flt_rule env ip p s)"
proof -
  note iok = inv_iface [OF inv i(1)]
  have d: "distinct (map peer (peers i))" and sub: "set (map peer (peers i)) \<subseteq> set (names s)"
    using iok by (auto simp: iface_ok_def lists_ok_def)
  let ?I = "\<lambda>qs s'. flt_loop hw failed env Rs s p ip (set qs \<times> UNIV) s' \<and> distinct qs \<and> set qs \<subseteq> set (names s)"
  let ?f = "\<lambda>q s. (case find_iface q s of
               None \<Rightarrow> None
             | Some j \<Rightarrow>
                 fold_opt (\<lambda>c. on_iface p (\<lambda>i d. Some (at_peer q (add_client_flt_rule env i c ip) i d)))
                   (map mac_addr (clients j)) s)"
  have "?I (map peer (peers i)) s"
    using d sub kept_refl [OF inv] i nf unfolding flt_loop_def by auto
  then have "lands G (?I []) (fold_opt ?f (map peer (peers i)) s)"
  proof (rule lands_fold)
    fix q qs s1 assume I: "?I (q # qs) s1"
    then have k: "kept hw failed env Rs s s1" by (simp add: flt_loop_def)
    obtain j where j: "find_iface q s1 = Some j" using I keptD(4) [OF k] find_iface_None [of q s1] by fastforce
    let ?J = "\<lambda>cs s2. flt_loop hw failed env Rs s p ip (({q} \<times> set cs) \<union> (set qs \<times> UNIV)) s2 \<and> distinct cs \<and> set cs \<subseteq> macs_of s q"
    have "?J (macs j) s1"
    proof (intro conjI)
      show "flt_loop hw failed env Rs s p ip (({q} \<times> set (macs j)) \<union> (set qs \<times> UNIV)) s1"
        using I unfolding flt_loop_def by auto
      show "distinct (macs j)" using inv_iface [OF keptD(1) [OF k] j] by (simp add: iface_ok_def lists_ok_def)
      have "macs_of s1 q = set (macs j)" using j by (simp add: macs_of_def)
      then show "set (macs j) \<subseteq> macs_of s q" using keptD(5) [OF k] by simp
    qed
    then have "lands G (?J []) (fold_opt (\<lambda>c. on_iface p (\<lambda>i d. Some (at_peer q (add_client_flt_rule env i c ip) i d))) (macs j) s1)"
    proof (rule lands_fold)
      fix c cs s2 assume J: "?J (c # cs) s2"
      have e: "({q} \<times> set (c # cs)) \<union> (set qs \<times> UNIV) - {(q, c)} = ({q} \<times> set cs) \<union> (set qs \<times> UNIV)"
        using J I by auto
      show "lands G (?J cs) (on_iface p (\<lambda>i d. Some (at_peer q (add_client_flt_rule env i c ip) i d)) s2)"
        by (rule lands_weaken [OF flt_loop_step [OF ok J [THEN conjunct1], of q c]]) (use J e in auto)
    qed
    then show "lands G (?I qs) (?f q s1)" using I j by (simp add: macs_def lands_weaken)
  qed
  then have "lands G (\<lambda>s'. kept hw failed env Rs s s' \<and> (\<exists>i'. find_iface p s' = Some i' \<and> intra_info i' = intra_info i))
    (fold_opt ?f (map peer (peers i)) s)"
    by (rule lands_weaken) (use i in \<open>auto simp: flt_loop_def\<close>)
  then show ?thesis using i by (simp add: add_all_inter_interface_client_flt_rule_def)
qed

lemma add_all_intra_lands:
  assumes ok: "driver_ok hw failed (dev env)" and i: "iface_ok env R M N i" and A: "ip_assigned i ip"
    and pr: "intra_info i = Some pr" "\<And>c. no_flt pr c ip"
  shows "lands G (\<lambda>(i', d'). moves hw failed d d' (own env i) (own env i') \<and> iface_ok env R M N i' \<and> same_iface i i')
    (add_all_intra_interface_client_flt_rule env ip i d)"
proof -
  let ?I = "\<lambda>cs (i', d'). moves hw failed d d' (own env i) (own env i') \<and> iface_ok env R M N i' \<and> same_iface i i' \<and>
    distinct cs \<and> set cs \<subseteq> set (macs i) \<and> (\<exists>pr. intra_info i' = Some pr \<and> (\<forall>c \<in> set cs. no_flt pr c ip))"
  have "distinct (macs i)" using i by (simp add: iface_ok_def lists_ok_def)
  then have "?I (macs i) (i, d)" using i pr by auto
  then have "lands G (?I []) (fold_opt (\<lambda>c (i, d). at_intra (add_client_flt_rule env i c ip) i d) (macs i) (i, d))"
  proof (rule lands_fold)
    fix c cs and s :: "l2l_iface \<times> 'a" assume I: "?I (c # cs) s"
    obtain i1 d1 where s: "s = (i1, d1)" by fastforce
    obtain p1 where p1: "intra_info i1 = Some p1" "\<forall>c \<in> set (c # cs). no_flt p1 c ip" using I s by auto
    have k: "moves hw failed d d1 (own env i) (own env i1)" "iface_ok env R M N i1" "same_iface i i1" using I s by auto
    have w: "flt_wf (ip_assigned i1) (set (macs i1)) p1" using k(2) p1(1) by (simp add: iface_ok_def lists_ok_def)
    obtain p2 d2 where a: "add_client_flt_rule env i1 c ip p1 d1 = (p2, d2)" by fastforce
    have nf: "no_flt p1 c ip" using p1(2) by simp
    note m = add_client_flt_rule_moves [OF ok nf a]
    have A1: "ip_assigned i1 ip" "c \<in> set (macs i1)" using A k(3) I by (auto simp: same_iface_def)
    note m2 = intra_moves [OF k(2) p1(1) m(1,2) m(3) [OF w A1]]
    have "no_flt p2 c' ip" if "c' \<in> set cs" for c' using m(4) [of c' ip] p1(2) that I by auto
    then show "lands G (?I cs) (case s of (i, d) \<Rightarrow> at_intra (add_client_flt_rule env i c ip) i d)"
      using m2(2) moves_trans [OF k(1) m2(1)] same_iface_trans [OF k(3) m2(3)] I p1 a by (simp add: s at_intra_def)
  qed
  then show ?thesis
    unfolding add_all_intra_interface_client_flt_rule_def macs_def by (rule lands_weaken) auto
qed

section \<open>A second address family\<close>

lemma flt_wf_no_flt: "flt_wf A M pr \<Longrightarrow> \<not> A ip \<Longrightarrow> no_flt pr c ip"
  by (auto simp: flt_wf_def no_flt_def)

lemma family_up_lands:
  assumes ok: "driver_ok hw failed (dev env)" and inv: "l2l_inv env (peers_of s) s" and l: "linked_up s"
    and i: "find_iface p s = Some i"
  shows "lands G (lkept hw failed env (peers_of s) s) (family_up env p ip i s)"
proof (cases "ip_assigned i ip")
  case True
  then show ?thesis using lkept_refl [OF inv] by (simp add: family_up_def)
next
  case False
  let ?Rs = "peers_of s"
  note iok = inv_iface [OF inv i]
  have nf: "no_flt pr c ip" if "pr \<in> set (peers i) \<or> intra_info i = Some pr" for pr c
    using iok that False flt_wf_no_flt by (auto simp: iface_ok_def lists_ok_def)
  let ?i = "i\<lparr>ip_assigned := (ip_assigned i)(ip := True)\<rparr>"
  let ?f = "\<lambda>i d. Some (i\<lparr>ip_assigned := (ip_assigned i)(ip := True)\<rparr>, d)"
  have w: "flt_wf (ip_assigned i) M pr \<Longrightarrow> flt_wf ((ip_assigned i)(ip := True)) M pr" for M pr by (auto simp: flt_wf_def)
  have "own env ?i = own env i" by (simp add: own_def own_gen_def own_client_def cong: if_cong)
  moreover have "iface_ok env (?Rs p) (macs_of s) (set (names s)) ?i"
    using iok w by (simp add: iface_ok_def lists_ok_def rt_tbls_ok_def cnt_ok_def client_ok_def macs_def)
  ultimately have st: "lands G (\<lambda>(i', d'). moves hw failed (drv s) d' (own env i) (own env i') \<and>
        iface_ok env (?Rs p) (macs_of s) (set (names s)) i' \<and> m_p_iface i' = p \<and> macs i' = macs i \<and> i' = ?i) (?f i (drv s))"
    using find_iface_name [OF i] by (simp add: macs_def)
  have 1: "lands G (\<lambda>s'. lkept hw failed env ?Rs s s' \<and> find_iface p s' = Some ?i) (on_iface p ?f s)"
  proof (rule lands_weaken [OF on_iface_lands [where f = ?f and Q = "\<lambda>i'. i' = ?i" and Rs' = ?Rs and Rs = ?Rs and hw = hw and failed = failed, OF inv i st]])
    fix s' assume "\<exists>i'. smoves hw failed env s s' \<and> l2l_inv env ?Rs s' \<and> find_iface p s' = Some i' \<and> i' = ?i \<and>
      names s' = names s \<and> macs_of s' = macs_of s \<and> (\<forall>q. q \<noteq> p \<longrightarrow> find_iface q s' = find_iface q s) \<and>
      m_cached_client_add_event s' = m_cached_client_add_event s"
    then have s': "smoves hw failed env s s'" "l2l_inv env ?Rs s'" "find_iface p s' = Some ?i" "names s' = names s"
      "\<And>q. q \<noteq> p \<Longrightarrow> find_iface q s' = find_iface q s" "m_cached_client_add_event s' = m_cached_client_add_event s" by auto
    have "same_links s s'" by (rule same_linksI [OF s'(4,6) i s'(3) _ s'(5)]) (simp_all add: same_link_def)
    then show "lkept hw failed env ?Rs s s' \<and> find_iface p s' = Some ?i" using s' by (simp add: lkept_def)
  qed simp
  have ii: "intra_info i = None \<longleftrightarrow> \<not> intra_offload i" using l i unfolding linked_up_def by blast
  show ?thesis
    unfolding family_up_def if_not_P [OF False]
  proof (rule lands_bind [OF 1])
    fix s1 assume s1: "lkept hw failed env ?Rs s s1 \<and> find_iface p s1 = Some ?i"
    then have k1: "lkept hw failed env ?Rs s s1" and inv1: "l2l_inv env ?Rs s1" by (auto simp: lkept_def)
    let ?K = "\<lambda>s2. kept hw failed env ?Rs s1 s2 \<and> (\<exists>i'. find_iface p s2 = Some i' \<and> intra_info i' = intra_info i)"
    have 2: "lands G ?K (if inter_offload i then add_all_inter_interface_client_flt_rule env ip p s1 else Some s1)"
    proof (rule lands_if)
      have "lands G (\<lambda>s2. kept hw failed env ?Rs s1 s2 \<and> (\<exists>i'. find_iface p s2 = Some i' \<and> intra_info i' = intra_info ?i))
        (add_all_inter_interface_client_flt_rule env ip p s1)"
        by (rule add_all_inter_lands [OF ok inv1]) (use s1 nf in auto)
      then show "lands G ?K (add_all_inter_interface_client_flt_rule env ip p s1)" by simp
      show "lands G ?K (Some s1)" using kept_refl [OF inv1] s1 by simp
    qed
    show "lands G (lkept hw failed env ?Rs s)
      (case (if inter_offload i then add_all_inter_interface_client_flt_rule env ip p s1 else Some s1) of None \<Rightarrow> None
       | Some s \<Rightarrow> if intra_offload i then on_iface p (add_all_intra_interface_client_flt_rule env ip) s else Some s)"
    proof (rule lands_bind [OF 2])
      fix s2 assume K: "?K s2"
      then obtain i2 where k2: "kept hw failed env ?Rs s1 s2" and i2: "find_iface p s2 = Some i2" "intra_info i2 = intra_info i" by blast
      have k02: "lkept hw failed env ?Rs s s2" using lkept_trans [OF k1 kept_lkept [OF k2]] .
      note inv2 = keptD(1) [OF k2]
      show "lands G (lkept hw failed env ?Rs s) (if intra_offload i then on_iface p (add_all_intra_interface_client_flt_rule env ip) s2 else Some s2)"
      proof (rule lands_if)
        assume "intra_offload i"
        then obtain pr where pr: "intra_info i = Some pr" using ii by blast
        have A: "ip_assigned i2 ip" using keptD(6) [OF k2, of p ?i] s1 i2(1) by (auto simp: same_iface_def)
        have st: "lands G (\<lambda>(i', d'). moves hw failed (drv s2) d' (own env i2) (own env i') \<and>
            iface_ok env (?Rs p) (macs_of s2) (set (names s2)) i' \<and> same_iface i2 i') (add_all_intra_interface_client_flt_rule env ip i2 (drv s2))"
          by (rule add_all_intra_lands [OF ok inv_iface [OF inv2 i2(1)] A]) (use i2(2) pr nf in auto)
        have "lands G (kept hw failed env ?Rs s2) (on_iface p (add_all_intra_interface_client_flt_rule env ip) s2)"
          by (rule on_iface_kept0 [where f = "add_all_intra_interface_client_flt_rule env ip", OF inv2 i2(1) st])
        then show "lands G (lkept hw failed env ?Rs s) (on_iface p (add_all_intra_interface_client_flt_rule env ip) s2)"
          by (rule lands_weaken) (use k02 kept_lkept lkept_trans in blast)
      qed (simp add: k02)
    qed
  qed
qed

section \<open>Two interfaces become peers\<close>

lemma hdr_granted:
  assumes "driver_grants (dev env)" and "hdr_opened (dev env)" and "tx_props lan \<noteq> []"
  shows "\<exists>h d'. eth_bridge_add_hdr_proc_ctx env lan t d = Some (Some h, d')"
proof -
  obtain r h d1 where g: "GET_HDR (dev env) (hdr_name (hd (tx_props lan))) d = ((r, h), d1)" by (metis surj_pair)
  obtain r' h' d2 where a: "ADD_HDR_PROC_CTX (dev env) (eth_bridge_get_hdr_proc_type t (hdr_l2_type (hd (tx_props lan)))) h d1 = ((r', h'), d2)"
    by (metis surj_pair)
  have "r = 0" "r' = 0" using assms(1) g a unfolding driver_grants_def by (metis fst_conv)+
  then show ?thesis
    using g a assms(2,3) by (simp add: eth_bridge_add_hdr_proc_ctx_def eth_bridge_get_hdr_template_hdl_def GetHeaderHandle_def AddHeaderProcCtx_def)
qed

lemma ctx_inter_unused:
  assumes "\<And>c. c \<in> set (clients i) \<Longrightarrow> inter_rt c t = (\<lambda>_. [])"
  shows "(\<Sum>c\<leftarrow>clients i. own_client env (i\<lparr>ctx_inter := (ctx_inter i)(t := h)\<rparr>) c) = (\<Sum>c\<leftarrow>clients i. own_client env i c)"
proof -
  have "own_client env (i\<lparr>ctx_inter := (ctx_inter i)(t := h)\<rparr>) c = own_client env i c" if "c \<in> set (clients i)" for c
    using assms [OF that] by (cases t) (simp_all add: own_client_def sum_l2_def)
  then show ?thesis by (simp cong: map_cong)
qed

lemma iface_new_iface_up_moves:
  assumes ok: "driver_ok hw failed (dev env)" and i: "iface_ok env R M N i"
    and q: "q \<in> N" "q \<noteq> m_p_iface i" "q \<notin> peer ` set (peers i)" "inter_offload i"
    and tbl: "tbl_rt = rt_tbl_name env (l2_of env q) (l2_of env (m_p_iface i))"
  shows "lands (driver_grants (dev env)) (\<lambda>(i', d'). moves hw failed d d' (own env i) (own env i') \<and> iface_ok env (q # R) M N i' \<and>
      (\<exists>h. i' = i\<lparr>ref_cnt := (ref_cnt i)(l2_of env q := ref_cnt i (l2_of env q) + 1), ctx_inter := (ctx_inter i)(l2_of env q := h),
         peers := \<lparr>peer = q, rt_tbl_name_for_rt = tbl_rt, rt_tbl_name_for_flt = tbl_flt, flt_list = []\<rparr> # peers i\<rparr>) \<and>
      (ref_cnt i' (l2_of env q) = 1 \<longrightarrow> (\<forall>c \<in> set (clients i'). inter_rt c (l2_of env q) = (\<lambda>_. []))))
    (iface_new_iface_up env tbl_flt tbl_rt q i d)"
proof -
  let ?t = "l2_of env q"
  let ?pr = "\<lparr>peer = q, rt_tbl_name_for_rt = tbl_rt, rt_tbl_name_for_flt = tbl_flt, flt_list = []\<rparr>"
  let ?i = "\<lambda>h. i\<lparr>ref_cnt := (ref_cnt i)(?t := ref_cnt i ?t + 1), ctx_inter := (ctx_inter i)(?t := h), peers := ?pr # peers i\<rparr>"
  have cn: "cnt_ok env R i" using i by (simp add: iface_ok_def)
  have pos: "0 \<le> ref_cnt i t" for t using cn by (simp add: cnt_ok_def)
  have okI: "iface_ok env (q # R) M N (?i h)" for h
  proof -
    have "cnt_ok env (q # R) (?i h)" using cn by (auto simp: cnt_ok_def client_ok_def)
    moreover have "lists_ok M N (?i h)" using i q by (auto simp: iface_ok_def lists_ok_def macs_def flt_wf_def)
    ultimately show ?thesis using i tbl by (auto simp: iface_ok_def rt_tbls_ok_def)
  qed
  show ?thesis
  proof (cases "ref_cnt i ?t = 0")
    case True
    have e: "\<And>c. c \<in> set (clients i) \<Longrightarrow> inter_rt c ?t = (\<lambda>_. [])" using cn True by (simp add: cnt_ok_def client_ok_def)
    have o: "own env (?i h) = {#Ctx h#} + own env i" for h
    proof -
      have "sum_l2 (\<lambda>t. if 0 < ((ref_cnt i)(?t := 1)) t then {#Ctx (((ctx_inter i)(?t := h)) t)#} else {#}) =
         {#Ctx h#} + sum_l2 (\<lambda>t. if 0 < ref_cnt i t then {#Ctx (ctx_inter i t)#} else {#})"
        using True by (cases ?t) (simp_all add: sum_l2_def)
      moreover have "own_client env (?i h) c = own_client env (i\<lparr>ctx_inter := (ctx_inter i)(?t := h)\<rparr>) c" for c
        by (simp add: own_client_def)
      ultimately show ?thesis
        using True ctx_inter_unused [of i ?t env h, OF e] by (simp add: own_def own_gen_def own_peer_def ac_simps cong: if_cong)
    qed
    show ?thesis
    proof (cases "eth_bridge_add_hdr_proc_ctx env (lans env (m_p_iface i)) ?t d")
      case None
      then show ?thesis
        using hdr_granted [OF _ driver_okD(2) [OF ok], of "lans env (m_p_iface i)" ?t d] i True
        by (auto simp: iface_new_iface_up_def add_hdr_proc_ctx_def increment_ref_cnt_peer_l2_hdr_type_def Let_def iface_ok_def)
    next
      case (Some r)
      show ?thesis
      proof (cases "fst r")
        case None
        then show ?thesis
          using hdr_granted [OF _ driver_okD(2) [OF ok], of "lans env (m_p_iface i)" ?t d] i True Some
          by (cases r) (auto simp: iface_new_iface_up_def add_hdr_proc_ctx_def increment_ref_cnt_peer_l2_hdr_type_def Let_def iface_ok_def)
      next
        case (Some h)
        then obtain d' where r: "eth_bridge_add_hdr_proc_ctx env (lans env (m_p_iface i)) ?t d = Some (Some h, d')"
          using \<open>eth_bridge_add_hdr_proc_ctx env (lans env (m_p_iface i)) ?t d = Some r\<close> by (cases r) auto
        have m: "moves hw failed d d' (own env i) (own env (?i h))"
          using moves_frame' [OF eth_bridge_add_hdr_proc_ctx_moves [OF ok r], of "own env i"] by (simp add: o)
        have ex: "\<exists>h'. ?i h = ?i h'" by blast
        have "iface_new_iface_up env tbl_flt tbl_rt q i d = Some (?i h, d')"
          using r True by (simp add: iface_new_iface_up_def add_hdr_proc_ctx_def increment_ref_cnt_peer_l2_hdr_type_def Let_def)
        then show ?thesis using m okI [of h] ex e by (simp only: lands_simps prod.case) simp
      qed
    qed
  next
    case False
    have "own env (?i (ctx_inter i ?t)) = own env i"
    proof -
      have "sum_l2 (\<lambda>t. if 0 < ((ref_cnt i)(?t := ref_cnt i ?t + 1)) t then {#Ctx (ctx_inter i t)#} else {#}) =
         sum_l2 (\<lambda>t. if 0 < ref_cnt i t then {#Ctx (ctx_inter i t)#} else {#})"
        using False pos [of ?t] by (intro sum_l2_cong) auto
      then show ?thesis by (simp add: own_def own_gen_def own_peer_def own_client_def cong: if_cong)
    qed
    moreover have "iface_new_iface_up env tbl_flt tbl_rt q i d = Some (?i (ctx_inter i ?t), d)"
      using False by (simp add: iface_new_iface_up_def add_hdr_proc_ctx_def increment_ref_cnt_peer_l2_hdr_type_def Let_def)
    moreover have "ref_cnt i ?t + 1 \<noteq> 1" using False by simp
    moreover have "\<exists>h'. ?i (ctx_inter i ?t) = ?i h'" by blast
    ultimately show ?thesis using okI [of "ctx_inter i ?t"] by (simp only: lands_simps prod.case) simp
  qed
qed

lemma map_opt_lands:
  assumes "\<And>x d. x \<in> set xs \<Longrightarrow> lands G (\<lambda>(y, d'). moves hw failed d d' (own_client env i x) (own_client env i y) \<and> K x y) (f x d)"
  shows "lands G (\<lambda>(ys, d'). moves hw failed d d' (\<Sum>x\<leftarrow>xs. own_client env i x) (\<Sum>y\<leftarrow>ys. own_client env i y) \<and> list_all2 K xs ys)
    (map_opt f xs d)"
  using assms
proof (induction xs arbitrary: d)
  case (Cons x xs)
  note h = Cons.prems [of x d, simplified]
  show ?case
  proof (cases "f x d")
    case None
    then show ?thesis using h by simp
  next
    case (Some r)
    obtain y d1 where r: "r = (y, d1)" by fastforce
    note t = Cons.IH [of d1, OF Cons.prems]
    show ?thesis
    proof (cases "map_opt f xs d1")
      case None
      then show ?thesis using t Some r by simp
    next
      case (Some r')
      then obtain ys d2 where r': "r' = (ys, d2)" "moves hw failed d1 d2 (\<Sum>x\<leftarrow>xs. own_client env i x) (\<Sum>y\<leftarrow>ys. own_client env i y)"
        "list_all2 K xs ys" using t by (cases r') auto
      have "moves hw failed d d1 (own_client env i x) (own_client env i y)" "K x y"
        using h \<open>f x d = Some r\<close> r by simp_all
      then show ?thesis
        using moves_par [OF _ r'(2)] r' Some \<open>f x d = Some r\<close> r by simp
    qed
  qed
qed simp

lemma all_clients_moves:
  assumes i: "iface_ok env R M N i" and m: "moves hw failed d d' (\<Sum>c\<leftarrow>clients i. own_client env i c) (\<Sum>c\<leftarrow>cs. own_client env i c)"
    and k: "list_all2 (\<lambda>c c'. mac_addr c' = mac_addr c \<and> client_ok i c') (clients i) cs"
  shows "moves hw failed d d' (own env i) (own env (i\<lparr>clients := cs\<rparr>))" and "iface_ok env R M N (i\<lparr>clients := cs\<rparr>)"
    and "same_iface i (i\<lparr>clients := cs\<rparr>)"
proof -
  have ma: "map mac_addr cs = map mac_addr (clients i)"
    using k by (induction rule: list_all2_induct) simp_all
  then have len: "length cs = length (clients i)" by (metis length_map)
  have co: "\<forall>c \<in> set cs. client_ok (i\<lparr>clients := cs\<rparr>) c"
    using k unfolding list_all2_conv_all_nth client_ok_def by (auto simp: in_set_conv_nth)
  have "i = i\<lparr>clients := clients i\<rparr>" by simp
  then have "own env i = (\<Sum>c\<leftarrow>clients i. own_client env i c) + own env (i\<lparr>clients := []\<rparr>)" by (metis own_clients)
  then show "moves hw failed d d' (own env i) (own env (i\<lparr>clients := cs\<rparr>))"
    using moves_frame' [OF m] by (simp only: own_clients [of env cs i])
  show "iface_ok env R M N (i\<lparr>clients := cs\<rparr>)" and "same_iface i (i\<lparr>clients := cs\<rparr>)"
    using i co ma len by (auto simp: iface_ok_def rt_tbls_ok_def cnt_ok_def lists_ok_def macs_def same_iface_def)
qed

lemma new_iface_rt_moves:
  assumes ok: "driver_ok hw failed (dev env)" and i: "iface_ok env (q # R) M N i"
    and pr: "peers i = pr # prs" "peer pr = q"
    and e: "ref_cnt i (l2_of env q) = 1 \<Longrightarrow> \<forall>c \<in> set (clients i). inter_rt c (l2_of env q) = (\<lambda>_. [])"
  shows "lands (driver_grants (dev env)) (\<lambda>(i', d'). moves hw failed d d' (own env i) (own env i') \<and> iface_ok env (q # R) M N i' \<and>
      same_iface i i') (add_client_rt_rule_for_new_iface env i d)"
proof (cases "ref_cnt i (l2_of env q) = 1")
  case True
  have p: "pr \<in> set (peers i)" using pr by simp
  note w = iface_ok_peer [OF i p]
  have cn: "cnt_ok env (q # R) i" and lan: "lan_ok env (lans env (m_p_iface i))" using i by (simp_all add: iface_ok_def)
  let ?K = "\<lambda>c c'. mac_addr c' = mac_addr c \<and> client_ok i c'"
  have "lands (driver_grants (dev env)) (\<lambda>(y, d'). moves hw failed d d' (own_client env i x) (own_client env i y) \<and> ?K x y)
      (add_client_rt_rule env i pr x d)" if x: "x \<in> set (clients i)" for x d
  proof -
    have cx: "client_ok i x" using cn x by (simp add: cnt_ok_def)
    have ex: "inter_rt x (l2_of env (peer pr)) = (\<lambda>_. [])" using e [OF True] x pr(2) by simp
    have nz: "client_nz x" using cx by (simp add: client_ok_def)
    show ?thesis
    proof (rule lands_weaken [OF add_client_rt_rule_inter [OF ok lan w(4,3) ex nz]])
      fix r :: "client_info \<times> 'a"
      obtain y d' where r: "r = (y, d')" by fastforce
      assume "case r of (c', d') \<Rightarrow> moves hw failed d d' (own_client env i x) (own_client env i c') \<and> client_nz c' \<and>
        (\<exists>hs. c' = x\<lparr>inter_rt := (inter_rt x)(l2_of env (peer pr) := hs)\<rparr>)"
      then obtain hs where "moves hw failed d d' (own_client env i x) (own_client env i y)" "client_nz y"
        "y = x\<lparr>inter_rt := (inter_rt x)(l2_of env (peer pr) := hs)\<rparr>" using r by auto
      then show "case r of (y, d') \<Rightarrow> moves hw failed d d' (own_client env i x) (own_client env i y) \<and> ?K x y"
        using cx True pr(2) by (auto simp: r client_ok_def)
    qed
  qed
  then have m: "lands (driver_grants (dev env)) (\<lambda>(ys, d'). moves hw failed d d' (\<Sum>x\<leftarrow>clients i. own_client env i x) (\<Sum>y\<leftarrow>ys. own_client env i y) \<and>
      list_all2 ?K (clients i) ys) (map_opt (add_client_rt_rule env i pr) (clients i) d)" by (rule map_opt_lands)
  show ?thesis
  proof (cases "map_opt (add_client_rt_rule env i pr) (clients i) d")
    case None
    then show ?thesis using m pr True by (simp add: add_client_rt_rule_for_new_iface_def)
  next
    case (Some r)
    then obtain cs d' where r: "r = (cs, d')" "moves hw failed d d' (\<Sum>x\<leftarrow>clients i. own_client env i x) (\<Sum>y\<leftarrow>cs. own_client env i y)"
      "list_all2 ?K (clients i) cs" using m by (cases r) auto
    then show ?thesis
      using all_clients_moves [OF i r(2,3)] pr True Some by (simp add: add_client_rt_rule_for_new_iface_def)
  qed
next
  case False
  then show ?thesis using i pr by (simp add: add_client_rt_rule_for_new_iface_def)
qed

text \<open>The state while a new interface \<open>p\<close> is paired with those in \<open>rem\<close>; \<open>s0\<close> is the state before it was added.\<close>

definition same_but_peers :: "l2l_iface \<Rightarrow> l2l_iface \<Rightarrow> bool" where
  "same_but_peers j0 j \<longleftrightarrow> inter_offload j = inter_offload j0 \<and> intra_offload j = intra_offload j0 \<and> macs j = macs j0 \<and>
     ip_assigned j = ip_assigned j0 \<and> (intra_info j = None \<longleftrightarrow> intra_info j0 = None)"

definition grown :: "nat \<Rightarrow> bool \<Rightarrow> l2l_iface \<Rightarrow> l2l_iface \<Rightarrow> bool" where
  "grown p b j0 j \<longleftrightarrow> same_but_peers j0 j \<and> peer ` set (peers j) = (if b then insert p (peer ` set (peers j0)) else peer ` set (peers j0))"

definition pairing :: "'d hw_view \<Rightarrow> ('d \<Rightarrow> bool) \<Rightarrow> 'd l2l_env \<Rightarrow> 'd l2l \<Rightarrow> nat \<Rightarrow> l2l_iface \<Rightarrow> nat list \<Rightarrow> 'd l2l \<Rightarrow> bool" where
  "pairing hw failed env s0 p i0 rem s \<longleftrightarrow>
     smoves hw failed env s0 s \<and> l2l_inv env (peers_of s) s \<and> names s = p # names s0 \<and>
     m_cached_client_add_event s = m_cached_client_add_event s0 \<and>
     distinct rem \<and> set rem \<subseteq> set (names s0) \<and>
     (\<exists>i. find_iface p s = Some i \<and> same_but_peers i0 i \<and> (\<forall>pr \<in> set (peers i). flt_list pr = []) \<and>
        peer ` set (peers i) = {q. q \<in> set (names s0) - set rem \<and> (\<exists>j. find_iface q s0 = Some j \<and> inter_offload j)}) \<and>
     (\<forall>q j0. find_iface q s0 = Some j0 \<longrightarrow> (\<exists>j. find_iface q s = Some j \<and> grown p (q \<notin> set rem \<and> inter_offload j0) j0 j))"

lemma same_but_peers_trans: "same_but_peers a b \<Longrightarrow> same_but_peers b c \<Longrightarrow> same_but_peers a c"
  by (simp add: same_but_peers_def)

lemma same_iface_but_peers: "same_iface a b \<Longrightarrow> same_but_peers a b"
  by (simp add: same_iface_def same_but_peers_def)

text \<open>One call of \<open>IPACM_LanToLan_Iface::handle_new_iface_up\<close>.\<close>

lemma new_peer_lands:
  assumes ok: "driver_ok hw failed (dev env)" and inv: "l2l_inv env Rs s" and j: "find_iface q s = Some j"
    and p: "p \<in> set (names s)" "p \<noteq> q" "p \<notin> peer ` set (peers j)" "inter_offload j"
    and tbl: "tbl_rt = rt_tbl_name env (l2_of env p) (l2_of env q)"
  shows "lands (driver_grants (dev env)) (\<lambda>s'. smoves hw failed env s s' \<and> l2l_inv env (Rs(q := p # Rs q)) s' \<and> names s' = names s \<and>
      m_cached_client_add_event s' = m_cached_client_add_event s \<and> (\<forall>q'. q' \<noteq> q \<longrightarrow> find_iface q' s' = find_iface q' s) \<and>
      (\<exists>j' pr. find_iface q s' = Some j' \<and> same_but_peers j j' \<and> peers j' = pr # peers j \<and> peer pr = p \<and> flt_list pr = [] \<and>
         (ref_cnt j' (l2_of env p) = 1 \<longrightarrow> (\<forall>c \<in> set (clients j'). inter_rt c (l2_of env p) = (\<lambda>_. [])))))
    (on_iface q (iface_new_iface_up env tbl_flt tbl_rt p) s)"
proof -
  let ?Q = "\<lambda>j'. (\<exists>pr. same_but_peers j j' \<and> peers j' = pr # peers j \<and> peer pr = p \<and> flt_list pr = [] \<and>
         (ref_cnt j' (l2_of env p) = 1 \<longrightarrow> (\<forall>c \<in> set (clients j'). inter_rt c (l2_of env p) = (\<lambda>_. []))))"
  have nq: "m_p_iface j = q" by (rule find_iface_name [OF j])
  have "lands (driver_grants (dev env)) (\<lambda>(i', d'). moves hw failed (drv s) d' (own env j) (own env i') \<and>
        iface_ok env ((Rs(q := p # Rs q)) q) (macs_of s) (set (names s)) i' \<and> m_p_iface i' = q \<and> macs i' = macs j \<and> ?Q i')
      (iface_new_iface_up env tbl_flt tbl_rt p j (drv s))"
  proof (rule lands_weaken [OF iface_new_iface_up_moves [OF ok inv_iface [OF inv j] p(1) _ p(3,4), where tbl_rt = tbl_rt]])
    fix r :: "l2l_iface \<times> 'a"
    obtain i' d' where r: "r = (i', d')" by fastforce
    assume "case r of (i', d') \<Rightarrow> moves hw failed (drv s) d' (own env j) (own env i') \<and> iface_ok env (p # Rs q) (macs_of s) (set (names s)) i' \<and>
      (\<exists>h. i' = j\<lparr>ref_cnt := (ref_cnt j)(l2_of env p := ref_cnt j (l2_of env p) + 1), ctx_inter := (ctx_inter j)(l2_of env p := h),
         peers := \<lparr>peer = p, rt_tbl_name_for_rt = tbl_rt, rt_tbl_name_for_flt = tbl_flt, flt_list = []\<rparr> # peers j\<rparr>) \<and>
      (ref_cnt i' (l2_of env p) = 1 \<longrightarrow> (\<forall>c \<in> set (clients i'). inter_rt c (l2_of env p) = (\<lambda>_. [])))"
    then show "case r of (i', d') \<Rightarrow> moves hw failed (drv s) d' (own env j) (own env i') \<and>
        iface_ok env ((Rs(q := p # Rs q)) q) (macs_of s) (set (names s)) i' \<and> m_p_iface i' = q \<and> macs i' = macs j \<and> ?Q i'"
      using nq by (auto simp: r macs_def same_but_peers_def)
  qed (use p(2) nq tbl in auto)
  from on_iface_lands [where f = "iface_new_iface_up env tbl_flt tbl_rt p" and Q = ?Q and hw = hw and failed = failed and
      Rs = Rs and Rs' = "Rs(q := p # Rs q)", OF inv j this]
  show ?thesis by (rule lands_weaken) auto
qed

lemma bind_assoc:
  "(case (case r of None \<Rightarrow> None | Some s \<Rightarrow> f s) of None \<Rightarrow> None | Some s \<Rightarrow> g s) =
   (case r of None \<Rightarrow> None | Some s \<Rightarrow> (case f s of None \<Rightarrow> None | Some s \<Rightarrow> g s))"
  by (cases r) simp_all

lemma pair_up_lands:
  assumes ok: "driver_ok hw failed (dev env)" and P: "pairing hw failed env s0 p i0 (q # rem) s"
    and i0: "inter_offload i0" and p: "p \<notin> set (names s0)" "\<And>q j0. find_iface q s0 = Some j0 \<Longrightarrow> p \<notin> peer ` set (peers j0)"
  shows "lands (driver_grants (dev env)) (pairing hw failed env s0 p i0 rem) (pair_up env p q s)"
proof -
  let ?G = "driver_grants (dev env)"
  let ?N = "\<lambda>rem. {q. q \<in> set (names s0) - set rem \<and> (\<exists>j. find_iface q s0 = Some j \<and> inter_offload j)}"
  have sm: "smoves hw failed env s0 s" and inv: "l2l_inv env (peers_of s) s" and n: "names s = p # names s0"
    and ca: "m_cached_client_add_event s = m_cached_client_add_event s0" and di: "distinct (q # rem)" "set (q # rem) \<subseteq> set (names s0)"
    and exi: "\<exists>i. find_iface p s = Some i \<and> same_but_peers i0 i \<and> (\<forall>pr \<in> set (peers i). flt_list pr = []) \<and>
        peer ` set (peers i) = ?N (q # rem)"
    and oth: "\<forall>q' j0. find_iface q' s0 = Some j0 \<longrightarrow> (\<exists>j. find_iface q' s = Some j \<and> grown p (q' \<notin> set (q # rem) \<and> inter_offload j0) j0 j)"
    by (insert P [unfolded pairing_def], elim conjE, assumption)+
  obtain i where i: "find_iface p s = Some i" "same_but_peers i0 i" "\<forall>pr \<in> set (peers i). flt_list pr = []" "peer ` set (peers i) = ?N (q # rem)"
    using exi by blast
  have qn: "q \<in> set (names s0)" using di(2) by simp
  then obtain j0 where j0: "find_iface q s0 = Some j0" using find_iface_None [of q s0] by fastforce
  then obtain j where j: "find_iface q s = Some j" "grown p False j0 j" using oth by fastforce
  have pq: "p \<noteq> q" using p(1) qn by blast
  have rest: "\<exists>j. find_iface q' s = Some j \<and> grown p (q' \<notin> set rem \<and> inter_offload j0') j0' j"
    if "find_iface q' s0 = Some j0'" "q' \<noteq> q" for q' j0'
    using oth [rule_format, OF that(1)] that(2) by simp
  have fin: "pairing hw failed env s0 p i0 rem s'"
    if "smoves hw failed env s0 s'" "l2l_inv env (peers_of s') s'" "names s' = names s" "m_cached_client_add_event s' = m_cached_client_add_event s"
      "find_iface p s' = Some i'" "same_but_peers i i'" "\<forall>pr \<in> set (peers i'). flt_list pr = []"
      "peer ` set (peers i') = (if inter_offload j0 then insert q (peer ` set (peers i)) else peer ` set (peers i))"
      "find_iface q s' = Some j'" "grown p (inter_offload j0) j0 j'"
      "\<And>q'. q' \<noteq> p \<Longrightarrow> q' \<noteq> q \<Longrightarrow> find_iface q' s' = find_iface q' s" for s' i' j'
    unfolding pairing_def
  proof (intro conjI allI impI)
    have "peer ` set (peers i') = ?N rem" using that(8) i(4) j0 qn di by (auto split: if_splits)
    then show "\<exists>i. find_iface p s' = Some i \<and> same_but_peers i0 i \<and> (\<forall>pr \<in> set (peers i). flt_list pr = []) \<and> peer ` set (peers i) = ?N rem"
      using that(5,6,7) same_but_peers_trans [OF i(2)] by blast
    fix q' j0' assume q': "find_iface q' s0 = Some j0'"
    then have "q' \<noteq> p" using p(1) find_iface_None [of q' s0] by auto
    show "\<exists>j. find_iface q' s' = Some j \<and> grown p (q' \<notin> set rem \<and> inter_offload j0') j0' j"
    proof (cases "q' = q")
      case True
      then show ?thesis using that(9,10) q' j0 di by simp
    next
      case False
      then show ?thesis using rest [OF q' False] that(11) [OF \<open>q' \<noteq> p\<close> False] by simp
    qed
  qed (use that(1-4) n ca di in auto)
  show ?thesis
  proof (cases "inter_offload j")
    case False
    then have nj: "inter_offload j0 = False" using j(2) by (simp add: same_but_peers_def grown_def)
    have "pairing hw failed env s0 p i0 rem s"
      by (rule fin [OF sm inv refl refl i(1) _ i(3) _ j(1)]) (use nj j(2) in \<open>auto simp: same_but_peers_def\<close>)
    then show ?thesis using j(1) False by (simp add: pair_up_def)
  next
    case True
    then have ij: "inter_offload j0 = True" using j(2) by (simp add: same_but_peers_def grown_def)
    let ?Rs1 = "(peers_of s)(q := p # peers_of s q)"
    let ?Rs2 = "?Rs1(p := q # ?Rs1 p)"
    have pj: "p \<notin> peer ` set (peers j)" using p(2) [OF j0] j(2) by (simp add: grown_def)
    have pn: "p \<in> set (names s)" "q \<in> set (names s)" using n qn by simp_all
    note s1 = new_peer_lands [OF ok inv j(1) pn(1) pq pj True refl, of "rt_tbl_name env (l2_of env q) (l2_of env p)"]
    show ?thesis
      unfolding pair_up_def j(1) option.case if_P [OF True] handle_new_iface_up_def Let_def bind_assoc
    proof (rule lands_bind [OF s1])
      fix s1 assume "smoves hw failed env s s1 \<and> l2l_inv env ?Rs1 s1 \<and> names s1 = names s \<and>
        m_cached_client_add_event s1 = m_cached_client_add_event s \<and> (\<forall>q'. q' \<noteq> q \<longrightarrow> find_iface q' s1 = find_iface q' s) \<and>
        (\<exists>j' pr. find_iface q s1 = Some j' \<and> same_but_peers j j' \<and> peers j' = pr # peers j \<and> peer pr = p \<and> flt_list pr = [] \<and>
           (ref_cnt j' (l2_of env p) = 1 \<longrightarrow> (\<forall>c \<in> set (clients j'). inter_rt c (l2_of env p) = (\<lambda>_. []))))"
      then obtain j1 pr1 where a: "smoves hw failed env s s1" "l2l_inv env ?Rs1 s1" "names s1 = names s"
        "m_cached_client_add_event s1 = m_cached_client_add_event s" "\<And>q'. q' \<noteq> q \<Longrightarrow> find_iface q' s1 = find_iface q' s"
        "find_iface q s1 = Some j1" "same_but_peers j j1" "peers j1 = pr1 # peers j" "peer pr1 = p"
        "ref_cnt j1 (l2_of env p) = 1 \<longrightarrow> (\<forall>c \<in> set (clients j1). inter_rt c (l2_of env p) = (\<lambda>_. []))" by blast
      have i1: "find_iface p s1 = Some i" using a(5) [OF pq] i(1) by simp
      have ii: "inter_offload i" using i(2) i0 by (simp add: same_but_peers_def)
      have qi: "q \<notin> peer ` set (peers i)" using i(4) by simp
      have qn1: "q \<in> set (names s1)" using pn a(3) by simp
      note s2 = new_peer_lands [OF ok a(2) i1 qn1 pq [symmetric] qi ii refl, of "rt_tbl_name env (l2_of env p) (l2_of env q)"]
      show "lands ?G (pairing hw failed env s0 p i0 rem)
        (case on_iface p (iface_new_iface_up env (rt_tbl_name env (l2_of env p) (l2_of env q)) (rt_tbl_name env (l2_of env q) (l2_of env p)) q) s1 of
           None \<Rightarrow> None | Some s \<Rightarrow> on_iface q (add_client_rt_rule_for_new_iface env) s)"
      proof (rule lands_bind [OF s2])
        fix s2 assume "smoves hw failed env s1 s2 \<and> l2l_inv env ?Rs2 s2 \<and> names s2 = names s1 \<and>
          m_cached_client_add_event s2 = m_cached_client_add_event s1 \<and> (\<forall>q'. q' \<noteq> p \<longrightarrow> find_iface q' s2 = find_iface q' s1) \<and>
          (\<exists>j' pr. find_iface p s2 = Some j' \<and> same_but_peers i j' \<and> peers j' = pr # peers i \<and> peer pr = q \<and> flt_list pr = [] \<and>
             (ref_cnt j' (l2_of env q) = 1 \<longrightarrow> (\<forall>c \<in> set (clients j'). inter_rt c (l2_of env q) = (\<lambda>_. []))))"
        then obtain i2 pr2 where b: "smoves hw failed env s1 s2" "l2l_inv env ?Rs2 s2" "names s2 = names s1"
          "m_cached_client_add_event s2 = m_cached_client_add_event s1" "\<And>q'. q' \<noteq> p \<Longrightarrow> find_iface q' s2 = find_iface q' s1"
          "find_iface p s2 = Some i2" "same_but_peers i i2" "peers i2 = pr2 # peers i" "peer pr2 = q" "flt_list pr2 = []" by blast
        have j2: "find_iface q s2 = Some j1" using b(5) [of q] a(6) pq by simp
        have jok: "iface_ok env (p # peers_of s q) (macs_of s2) (set (names s2)) j1" using inv_iface [OF b(2) j2] pq by simp
        have r: "?Rs2 q = p # peers_of s q" using pq by simp
        have st: "lands ?G (\<lambda>(i', d'). moves hw failed (drv s2) d' (own env j1) (own env i') \<and>
            iface_ok env (?Rs2 q) (macs_of s2) (set (names s2)) i' \<and> same_iface j1 i' \<and> True) (add_client_rt_rule_for_new_iface env j1 (drv s2))"
          unfolding r
          by (rule lands_weaken [OF new_iface_rt_moves [OF ok jok a(8,9)]]) (use a(10) in auto)
        note s3 = on_iface_kept [where f = "add_client_rt_rule_for_new_iface env" and Q = "\<lambda>_. True", OF b(2) j2 st]
        show "lands ?G (pairing hw failed env s0 p i0 rem) (on_iface q (add_client_rt_rule_for_new_iface env) s2)"
        proof (rule lands_weaken [OF s3])
          fix s3 assume "kept hw failed env ?Rs2 s2 s3 \<and> (\<exists>i'. find_iface q s3 = Some i' \<and> True \<and> same_iface j1 i') \<and>
            (\<forall>q'. q' \<noteq> q \<longrightarrow> find_iface q' s3 = find_iface q' s2)"
          then obtain j3 where c: "kept hw failed env ?Rs2 s2 s3" "find_iface q s3 = Some j3" "same_iface j1 j3"
            "\<And>q'. q' \<noteq> q \<Longrightarrow> find_iface q' s3 = find_iface q' s2" by blast
          have i3: "find_iface p s3 = Some i2" using c(4) [OF pq] b(6) by simp
          have o: "find_iface q' s3 = find_iface q' s" if "q' \<noteq> p" "q' \<noteq> q" for q'
            using that a(5) b(5) c(4) by simp
          have mp3: "map peer (peers j3) = p # map peer (peers j)" using c(3) a(8,9) by (simp add: same_iface_def)
          have Rp: "peers_of s3 p = q # peers_of s p" using i3 b(8,9) i(1) by (simp add: peers_of_def)
          have Rq: "peers_of s3 q = p # peers_of s q" using c(2) mp3 j(1) by (simp add: peers_of_def)
          have "peers_of s3 q' = peers_of s q'" if "q' \<noteq> p" "q' \<noteq> q" for q' using o [OF that] by (simp add: peers_of_def)
          then have "peers_of s3 q' = ?Rs2 q'" for q' using Rp Rq pq by (cases "q' = p"; cases "q' = q") simp_all
          then have R: "peers_of s3 = ?Rs2" by blast
          show "pairing hw failed env s0 p i0 rem s3"
          proof (rule fin [OF _ _ _ _ i3 b(7) _ _ c(2) _ o])
            show "smoves hw failed env s0 s3"
              using smoves_trans [OF smoves_trans [OF smoves_trans [OF sm a(1)] b(1)] keptD(2) [OF c(1)]] .
            show "l2l_inv env (peers_of s3) s3" unfolding R by (rule keptD(1) [OF c(1)])
            show "names s3 = names s" using keptD(4) [OF c(1)] b(3) a(3) by simp
            show "m_cached_client_add_event s3 = m_cached_client_add_event s"
              using keptD(3) [OF c(1)] b(4) a(4) by (simp add: same_shape_def)
            show "\<forall>pr \<in> set (peers i2). flt_list pr = []" using i(3) b(8,10) by simp
            show "peer ` set (peers i2) = (if inter_offload j0 then insert q (peer ` set (peers i)) else peer ` set (peers i))"
              using ij b(8,9) by simp
            have "peer ` set (peers j3) = insert p (peer ` set (peers j))" using mp3 by (metis list.set(2) set_map)
            then show "grown p (inter_offload j0) j0 j3"
              using j(2) ij same_but_peers_trans [OF same_but_peers_trans [OF _ a(7)] same_iface_but_peers [OF c(3)]]
              by (simp add: grown_def)
          qed
        qed
      qed
    qed
  qed
qed

end
