(* ===== verification/L2l_New.thy ===== *)
theory L2l_New
  imports L2l_Up
begin

text \<open>A new interface comes up: it is paired with all others, then the cached clients are added.\<close>

section \<open>The state between two events\<close>

definition l2l_ok :: "'d l2l_env \<Rightarrow> 'd l2l \<Rightarrow> bool" where
  "l2l_ok env s \<longleftrightarrow> l2l_inv env (peers_of s) s \<and> linked_up s"

definition steps_ok :: "'d hw_view \<Rightarrow> ('d \<Rightarrow> bool) \<Rightarrow> 'd l2l_env \<Rightarrow> 'd l2l \<Rightarrow> 'd l2l \<Rightarrow> bool" where
  "steps_ok hw failed env s s' \<longleftrightarrow> smoves hw failed env s s' \<and> l2l_ok env s'"

lemma steps_okI: "l2l_ok env s \<Longrightarrow> lkept hw failed env (peers_of s) s s' \<Longrightarrow> steps_ok hw failed env s s'"
  using same_links_peers_of [of s s'] same_links_linked [of s s'] by (auto simp: steps_ok_def l2l_ok_def lkept_def)

lemma steps_ok_refl: "l2l_ok env s \<Longrightarrow> steps_ok hw failed env s s"
  by (simp add: steps_ok_def)

lemma steps_ok_trans: "steps_ok hw failed env s s' \<Longrightarrow> steps_ok hw failed env s' s'' \<Longrightarrow> steps_ok hw failed env s s''"
  unfolding steps_ok_def using smoves_trans by blast

section \<open>The new interface without peers\<close>

definition up_iface :: "'d l2l_env \<Rightarrow> nat \<Rightarrow> ipa_ip_type \<Rightarrow> l2l_iface" where
  "up_iface env p ip = (new_iface env p)\<lparr>ip_assigned := (\<lambda>_. False)(ip := True)\<rparr>"

lemma up_iface_simps [simp]:
  "m_p_iface (up_iface env p ip) = p" "clients (up_iface env p ip) = []" "peers (up_iface env p ip) = []"
  "intra_info (up_iface env p ip) = None" "ref_cnt (up_iface env p ip) = (\<lambda>_. 0)" "macs (up_iface env p ip) = []"
  "ip_assigned (up_iface env p ip) = (\<lambda>_. False)(ip := True)"
  by (simp_all add: up_iface_def new_iface_def macs_def)

lemma own_up_iface [simp]: "own env (up_iface env p ip) = {#}"
  by (simp add: own_def own_gen_def sum_l2_def)

lemma find_iface_push: "find_iface q (s\<lparr>m_iface := i # m_iface s\<rparr>) = (if q = m_p_iface i then Some i else find_iface q s)"
  by (simp add: find_iface_def)

lemma pairing_start:
  assumes inv: "l2l_inv env (peers_of s) s" and p: "find_iface p s = None" and n: "length (m_iface s) \<noteq> MAX_NUM_IFACE"
    and lan: "lan_ok env (lans env p)" "tx_props (lans env p) \<noteq> []"
  shows "pairing hw failed env s p (up_iface env p ip) (names s) (s\<lparr>m_iface := up_iface env p ip # m_iface s\<rparr>)"
    (is "pairing hw failed env s p ?i (names s) ?s")
proof -
  have fi: "find_iface q ?s = (if q = p then Some ?i else find_iface q s)" for q by (simp add: find_iface_push)
  have pn: "p \<notin> set (names s)" using p find_iface_None by blast
  have P: "peers_of ?s q = (if q = p then [] else peers_of s q)" for q by (simp add: peers_of_def fi)
  have M: "macs_of ?s q = macs_of s q" for q using p by (simp add: macs_of_def fi)
  have N: "names ?s = p # names s" by (simp add: names_def)
  have up: "iface_ok env (peers_of ?s q) (macs_of ?s) (set (names ?s)) j" if j: "find_iface q s = Some j" for q j
  proof -
    have "q \<noteq> p" using p j by auto
    then show ?thesis using inv_iface [OF inv j] P M N by (auto simp: iface_ok_def lists_ok_def)
  qed
  have "iface_ok env (peers_of ?s p) (macs_of ?s) (set (names ?s)) ?i"
    using lan P by (simp add: iface_ok_def rt_tbls_ok_def cnt_ok_def lists_ok_def)
  then have "l2l_inv env (peers_of ?s) ?s"
    using inv up n pn by (auto simp: l2l_inv_def fi N split: if_splits)
  moreover have "smoves hw failed env s ?s" by (simp add: smoves_def all_owned_def)
  moreover have "distinct (names s)" using inv by (simp add: l2l_inv_def)
  moreover have "\<exists>j. find_iface q ?s = Some j \<and> grown p (q \<notin> set (names s) \<and> inter_offload j0) j0 j" if "find_iface q s = Some j0" for q j0
    using that p find_iface_None [of q s] by (auto simp: fi grown_def same_but_peers_def)
  ultimately show ?thesis
    unfolding pairing_def by (simp add: fi N same_but_peers_def)
qed

section \<open>The new interface is in place\<close>

text \<open>All that is missing to \<open>linked_up\<close> is the list of rules within the new interface.\<close>

definition paired :: "'d hw_view \<Rightarrow> ('d \<Rightarrow> bool) \<Rightarrow> 'd l2l_env \<Rightarrow> 'd l2l \<Rightarrow> nat \<Rightarrow> l2l_iface \<Rightarrow> 'd l2l \<Rightarrow> bool" where
  "paired hw failed env s0 p i0 s \<longleftrightarrow>
     smoves hw failed env s0 s \<and> l2l_inv env (peers_of s) s \<and> names s = p # names s0 \<and>
     (\<exists>i. find_iface p s = Some i \<and> inter_offload i = inter_offload i0 \<and> intra_offload i = intra_offload i0 \<and> intra_info i = None \<and>
        peer ` set (peers i) = {q. inter_offload i0 \<and> (\<exists>j. find_iface q s0 = Some j \<and> inter_offload j)}) \<and>
     (\<forall>q j0. find_iface q s0 = Some j0 \<longrightarrow> (\<exists>j. find_iface q s = Some j \<and> inter_offload j = inter_offload j0 \<and>
        intra_offload j = intra_offload j0 \<and> (intra_info j = None \<longleftrightarrow> intra_info j0 = None) \<and>
        peer ` set (peers j) = (if inter_offload i0 \<and> inter_offload j0 then insert p (peer ` set (peers j0)) else peer ` set (peers j0))))"

lemma paired_linked:
  assumes P: "paired hw failed env s0 p i0 s" and l: "linked_up s0" and p: "find_iface p s0 = None"
    and s': "names s' = names s" "\<And>q. q \<noteq> p \<Longrightarrow> find_iface q s' = find_iface q s"
    and i: "find_iface p s = Some i" "find_iface p s' = Some i'" "map peer (peers i') = map peer (peers i)" "inter_offload i' = inter_offload i"
      "intra_offload i' = intra_offload i" "intra_info i' = None \<longleftrightarrow> \<not> intra_offload i'"
  shows "linked_up s'"
proof -
  have n: "names s = p # names s0"
    and ex: "\<exists>i. find_iface p s = Some i \<and> inter_offload i = inter_offload i0 \<and> intra_offload i = intra_offload i0 \<and> intra_info i = None \<and>
        peer ` set (peers i) = {q. inter_offload i0 \<and> (\<exists>j. find_iface q s0 = Some j \<and> inter_offload j)}"
    and oth: "\<forall>q j0. find_iface q s0 = Some j0 \<longrightarrow> (\<exists>j. find_iface q s = Some j \<and> inter_offload j = inter_offload j0 \<and>
        intra_offload j = intra_offload j0 \<and> (intra_info j = None \<longleftrightarrow> intra_info j0 = None) \<and>
        peer ` set (peers j) = (if inter_offload i0 \<and> inter_offload j0 then insert p (peer ` set (peers j0)) else peer ` set (peers j0)))"
    by (insert P [unfolded paired_def], elim conjE, assumption)+
  have pi: "inter_offload i = inter_offload i0" "peer ` set (peers i) = {q. inter_offload i0 \<and> (\<exists>j. find_iface q s0 = Some j \<and> inter_offload j)}"
    using ex i(1) by auto
  have ni: "peer ` set (peers i') = peer ` set (peers i)" using i(3) by (metis set_map)
  have bk: "\<exists>j0. find_iface q s0 = Some j0" if "find_iface q s' = Some j" "q \<noteq> p" for q j
  proof -
    have "q \<in> set (names s)" using that s'(1) find_iface_None [of q s'] by auto
    then show ?thesis using n that(2) find_iface_None [of q s0] by fastforce
  qed
  have off: "(\<exists>j. find_iface q s' = Some j \<and> inter_offload j) \<longleftrightarrow> (\<exists>j. find_iface q s0 = Some j \<and> inter_offload j)" if q: "q \<noteq> p" for q
  proof (cases "find_iface q s0")
    case None
    then show ?thesis using bk [OF _ q] by auto
  next
    case (Some j0)
    then show ?thesis using oth [rule_format, OF Some] s'(2) [OF q] by auto
  qed
  have offp: "(\<exists>j. find_iface p s' = Some j \<and> inter_offload j) \<longleftrightarrow> inter_offload i0" using i(2,4) pi(1) by simp
  show ?thesis
    unfolding linked_up_def
  proof (intro allI impI)
    fix q j assume j: "find_iface q s' = Some j"
    show "(inter_offload j \<longrightarrow> peer ` set (peers j) = {q'. q' \<noteq> q \<and> (\<exists>j. find_iface q' s' = Some j \<and> inter_offload j)}) \<and>
      (intra_info j = None \<longleftrightarrow> \<not> intra_offload j)"
    proof (cases "q = p")
      case True
      have "{q'. q' \<noteq> p \<and> (\<exists>j. find_iface q' s' = Some j \<and> inter_offload j)} = {q. \<exists>j. find_iface q s0 = Some j \<and> inter_offload j}"
      proof (rule set_eqI)
        fix q
        show "q \<in> {q'. q' \<noteq> p \<and> (\<exists>j. find_iface q' s' = Some j \<and> inter_offload j)} \<longleftrightarrow>
            q \<in> {q. \<exists>j. find_iface q s0 = Some j \<and> inter_offload j}"
          using off [of q] p by (cases "q = p") simp_all
      qed
      then show ?thesis using True j i pi ni by auto
    next
      case False
      obtain j0 where j0: "find_iface q s0 = Some j0" using bk [OF j False] by blast
      have jj: "inter_offload j = inter_offload j0" "intra_offload j = intra_offload j0" "intra_info j = None \<longleftrightarrow> intra_info j0 = None"
        "peer ` set (peers j) = (if inter_offload i0 \<and> inter_offload j0 then insert p (peer ` set (peers j0)) else peer ` set (peers j0))"
        using oth [rule_format, OF j0] s'(2) [OF False] j by auto
      have l0: "inter_offload j0 \<Longrightarrow> peer ` set (peers j0) = {q'. q' \<noteq> q \<and> (\<exists>j. find_iface q' s0 = Some j \<and> inter_offload j)}"
        "intra_info j0 = None \<longleftrightarrow> \<not> intra_offload j0" using l j0 unfolding linked_up_def by blast+
      have "{q'. q' \<noteq> q \<and> (\<exists>j. find_iface q' s' = Some j \<and> inter_offload j)} =
          (if inter_offload i0 then insert p {q'. q' \<noteq> q \<and> (\<exists>j. find_iface q' s0 = Some j \<and> inter_offload j)}
           else {q'. q' \<noteq> q \<and> (\<exists>j. find_iface q' s0 = Some j \<and> inter_offload j)})"
      proof (rule set_eqI)
        fix q'
        show "q' \<in> {q'. q' \<noteq> q \<and> (\<exists>j. find_iface q' s' = Some j \<and> inter_offload j)} \<longleftrightarrow>
          q' \<in> (if inter_offload i0 then insert p {q'. q' \<noteq> q \<and> (\<exists>j. find_iface q' s0 = Some j \<and> inter_offload j)}
           else {q'. q' \<noteq> q \<and> (\<exists>j. find_iface q' s0 = Some j \<and> inter_offload j)})"
          using off [of q'] offp False p by (cases "q' = p") auto
      qed
      then show ?thesis using jj l0 by simp
    qed
  qed
qed


lemma grown_links:
  "grown p b j0 j \<Longrightarrow> inter_offload j = inter_offload j0 \<and> intra_offload j = intra_offload j0 \<and>
     (intra_info j = None \<longleftrightarrow> intra_info j0 = None) \<and>
     peer ` set (peers j) = (if b then insert p (peer ` set (peers j0)) else peer ` set (peers j0))"
  by (simp add: grown_def same_but_peers_def)

lemma pairing_paired:
  assumes P: "pairing hw failed env s0 p i0 rem s" and i0: "intra_info i0 = None"
    and r: "inter_offload i0 \<and> rem = [] \<or> \<not> inter_offload i0 \<and> rem = names s0"
  shows "paired hw failed env s0 p i0 s"
  unfolding paired_def
proof (intro conjI allI impI)
  have ex: "\<exists>i. find_iface p s = Some i \<and> same_but_peers i0 i \<and> (\<forall>pr \<in> set (peers i). flt_list pr = []) \<and>
        peer ` set (peers i) = {q. q \<in> set (names s0) - set rem \<and> (\<exists>j. find_iface q s0 = Some j \<and> inter_offload j)}"
    and oth: "\<forall>q j0. find_iface q s0 = Some j0 \<longrightarrow> (\<exists>j. find_iface q s = Some j \<and> grown p (q \<notin> set rem \<and> inter_offload j0) j0 j)"
    by (insert P [unfolded pairing_def], elim conjE, assumption)+
  obtain i where i: "find_iface p s = Some i" "same_but_peers i0 i"
    "peer ` set (peers i) = {q. q \<in> set (names s0) - set rem \<and> (\<exists>j. find_iface q s0 = Some j \<and> inter_offload j)}" using ex by blast
  have nm: "q \<in> set (names s0)" if "find_iface q s0 = Some j" for q j using that find_iface_None [of q s0] by auto
  have "peer ` set (peers i) = {q. inter_offload i0 \<and> (\<exists>j. find_iface q s0 = Some j \<and> inter_offload j)}"
    using i(3) r nm by auto
  then show "\<exists>i. find_iface p s = Some i \<and> inter_offload i = inter_offload i0 \<and> intra_offload i = intra_offload i0 \<and> intra_info i = None \<and>
        peer ` set (peers i) = {q. inter_offload i0 \<and> (\<exists>j. find_iface q s0 = Some j \<and> inter_offload j)}"
    using i(1,2) i0 by (simp add: same_but_peers_def)
  fix q j0 assume j0: "find_iface q s0 = Some j0"
  obtain j where j: "find_iface q s = Some j" "grown p (q \<notin> set rem \<and> inter_offload j0) j0 j" using oth j0 by blast
  have "(q \<notin> set rem \<and> inter_offload j0) = (inter_offload i0 \<and> inter_offload j0)" using r nm [OF j0] by auto
  then show "\<exists>j. find_iface q s = Some j \<and> inter_offload j = inter_offload j0 \<and> intra_offload j = intra_offload j0 \<and>
        (intra_info j = None \<longleftrightarrow> intra_info j0 = None) \<and>
        peer ` set (peers j) = (if inter_offload i0 \<and> inter_offload j0 then insert p (peer ` set (peers j0)) else peer ` set (peers j0))"
    using j(1) grown_links [OF j(2)] by simp
qed (insert P, auto simp: pairing_def)

lemma paired_kept:
  assumes P: "paired hw failed env s0 p i0 s" and k: "kept hw failed env (peers_of s) s s'"
  shows "paired hw failed env s0 p i0 s'"
proof -
  have l: "same_links s s'" using kept_lkept [OF k] by (simp add: lkept_def)
  have ex: "\<exists>i. find_iface p s = Some i \<and> inter_offload i = inter_offload i0 \<and> intra_offload i = intra_offload i0 \<and> intra_info i = None \<and>
        peer ` set (peers i) = {q. inter_offload i0 \<and> (\<exists>j. find_iface q s0 = Some j \<and> inter_offload j)}"
    and oth: "\<forall>q j0. find_iface q s0 = Some j0 \<longrightarrow> (\<exists>j. find_iface q s = Some j \<and> inter_offload j = inter_offload j0 \<and>
        intra_offload j = intra_offload j0 \<and> (intra_info j = None \<longleftrightarrow> intra_info j0 = None) \<and>
        peer ` set (peers j) = (if inter_offload i0 \<and> inter_offload j0 then insert p (peer ` set (peers j0)) else peer ` set (peers j0)))"
    by (insert P [unfolded paired_def], elim conjE, assumption)+
  have tr: "\<exists>j'. find_iface q s' = Some j' \<and> inter_offload j' = inter_offload j \<and> intra_offload j' = intra_offload j \<and>
      (intra_info j' = None \<longleftrightarrow> intra_info j = None) \<and> peer ` set (peers j') = peer ` set (peers j)" if q: "find_iface q s = Some j" for q j
  proof -
    obtain j' where "find_iface q s' = Some j'" "same_link j j'" using l q unfolding same_links_def by blast
    then show ?thesis by (metis same_link_def set_map)
  qed
  show ?thesis
    unfolding paired_def
  proof (intro conjI allI impI)
    show "\<exists>i. find_iface p s' = Some i \<and> inter_offload i = inter_offload i0 \<and> intra_offload i = intra_offload i0 \<and> intra_info i = None \<and>
        peer ` set (peers i) = {q. inter_offload i0 \<and> (\<exists>j. find_iface q s0 = Some j \<and> inter_offload j)}"
      using ex tr by (elim exE conjE) (drule tr, elim exE conjE, rule exI, intro conjI, assumption, simp_all)
    fix q j0 assume q0: "find_iface q s0 = Some j0"
    obtain j where j: "find_iface q s = Some j" "inter_offload j = inter_offload j0"
        "intra_offload j = intra_offload j0" "intra_info j = None \<longleftrightarrow> intra_info j0 = None"
        "peer ` set (peers j) = (if inter_offload i0 \<and> inter_offload j0 then insert p (peer ` set (peers j0)) else peer ` set (peers j0))"
      using oth [rule_format, OF q0] by (elim exE conjE) (rule that)
    then show "\<exists>j. find_iface q s' = Some j \<and> inter_offload j = inter_offload j0 \<and> intra_offload j = intra_offload j0 \<and>
        (intra_info j = None \<longleftrightarrow> intra_info j0 = None) \<and>
        peer ` set (peers j) = (if inter_offload i0 \<and> inter_offload j0 then insert p (peer ` set (peers j0)) else peer ` set (peers j0))"
      using tr [OF j(1)] by auto
  qed (use P k in \<open>auto simp: paired_def dest: smoves_trans keptD(1,2,4) simp: same_links_peers_of [OF l]\<close>)
qed

section \<open>The rules within the interface\<close>

lemma intra_info_moves:
  assumes ok: "driver_ok hw failed (dev env)" and i: "iface_ok env R M N i" and n: "intra_info i = None"
  shows "lands (driver_grants (dev env)) (\<lambda>(i', d'). moves hw failed d d' (own env i) (own env i') \<and> iface_ok env R M N i' \<and>
      m_p_iface i' = m_p_iface i \<and> macs i' = macs i \<and>
      (map peer (peers i') = map peer (peers i) \<and> inter_offload i' = inter_offload i \<and> intra_offload i' = intra_offload i \<and> intra_info i' \<noteq> None))
    (handle_intra_interface_info env i d)"
proof -
  let ?lan = "lans env (m_p_iface i)"
  let ?pr = "\<lparr>peer = m_p_iface i, rt_tbl_name_for_rt = intra_tbl_name env, rt_tbl_name_for_flt = intra_tbl_name env, flt_list = []\<rparr>"
  let ?i = "\<lambda>h. i\<lparr>intra_info := Some ?pr, ctx_intra := h\<rparr>"
  have tx: "tx_props ?lan \<noteq> []" using i by (simp add: iface_ok_def)
  have e: "\<forall>c \<in> set (clients i). intra_rt c = (\<lambda>_. [])" using i n by (simp add: iface_ok_def cnt_ok_def client_ok_def)
  have o: "own env (?i h) = {#Ctx h#} + own env i" for h
  proof -
    have "own_client env (?i h) c = own_client env i c" if "c \<in> set (clients i)" for c using e that by (simp add: own_client_def)
    then have "(\<Sum>c\<leftarrow>clients i. own_client env (?i h) c) = (\<Sum>c\<leftarrow>clients i. own_client env i c)" by (simp cong: map_cong)
    then show ?thesis using n by (simp add: own_def own_gen_def own_peer_def cong: if_cong)
  qed
  have okI: "iface_ok env R M N (?i h)" for h
    using i by (simp add: iface_ok_def rt_tbls_ok_def cnt_ok_def client_ok_def lists_ok_def macs_def flt_wf_def)
  show ?thesis
  proof (cases "\<exists>h d'. eth_bridge_add_hdr_proc_ctx env ?lan (hdr_l2_type (hd (tx_props ?lan))) d = Some (Some h, d')")
    case True
    then obtain h d' where a: "eth_bridge_add_hdr_proc_ctx env ?lan (hdr_l2_type (hd (tx_props ?lan))) d = Some (Some h, d')" by blast
    have m: "moves hw failed d d' (own env i) (own env (?i h))"
      using moves_frame' [OF eth_bridge_add_hdr_proc_ctx_moves [OF ok a], of "own env i"] by (simp add: o)
    have "handle_intra_interface_info env i d = Some (?i h, d')" using a tx by (simp add: handle_intra_interface_info_def Let_def)
    then show ?thesis using m okI [of h] by (simp add: macs_def)
  next
    case False
    then have "\<not> driver_grants (dev env)"
      using hdr_granted [OF _ driver_okD(2) [OF ok] tx] by blast
    moreover have "handle_intra_interface_info env i d = None"
      using False tx by (auto simp: handle_intra_interface_info_def Let_def split: option.split)
    ultimately show ?thesis by simp
  qed
qed


section \<open>The event\<close>

lemma lands_all:
  assumes "I s" and "\<And>x s. x \<in> set xs \<Longrightarrow> I s \<Longrightarrow> lands G I (f x s)"
  shows "lands G I (fold_opt f xs s)"
  using assms
proof (induction xs arbitrary: s)
  case (Cons x xs)
  have "lands G I (f x s)" using Cons.prems by simp
  then show ?case using Cons.IH Cons.prems(2) by (cases "f x s") simp_all
qed simp

lemma cached_lands:
  assumes ok: "driver_ok hw failed (dev env)" and s: "l2l_ok env s" and i: "find_iface p s = Some i"
  shows "lands (driver_grants (dev env)) (steps_ok hw failed env s) (handle_cached_client_add_event env p s)"
proof -
  let ?I = "\<lambda>s'. lkept hw failed env (peers_of s) s s'"
  have inv: "l2l_inv env (peers_of s) s" and l: "linked_up s" using s by (simp_all add: l2l_ok_def)
  have "lands (driver_grants (dev env)) ?I (fold_opt (handle_client_add env) (filter (\<lambda>ev. ev_iface ev = p) (m_cached_client_add_event s)) s)"
  proof (rule lands_all)
    show "?I s" by (rule lkept_refl [OF inv])
    fix ev s1 assume ev: "ev \<in> set (filter (\<lambda>ev. ev_iface ev = p) (m_cached_client_add_event s))" and I: "?I s1"
    then have "ev_iface ev = p" and sl: "same_links s s1" and inv1: "l2l_inv env (peers_of s1) s1"
      using same_links_peers_of [of s s1] by (auto simp: lkept_def)
    moreover obtain i1 where i1: "find_iface p s1 = Some i1" using sl i unfolding same_links_def by blast
    moreover have l1: "linked_up s1" by (rule same_links_linked [OF sl l])
    ultimately have "lands (driver_grants (dev env)) (lkept hw failed env (peers_of s1) s1) (handle_client_add env ev s1)"
      using iface_client_add_lands [OF ok inv1 l1 i1] by (simp add: handle_client_add_def)
    then show "lands (driver_grants (dev env)) ?I (handle_client_add env ev s1)"
      by (rule lands_weaken) (use I same_links_peers_of [OF sl] in \<open>auto intro: lkept_trans\<close>)
  qed
  then show ?thesis
    unfolding handle_cached_client_add_event_def
  proof (rule lands_bind)
    fix s1 assume k: "?I s1"
    let ?s = "s1\<lparr>m_cached_client_add_event := filter (\<lambda>ev. ev_iface ev \<noteq> p) (m_cached_client_add_event s1)\<rparr>"
    have s1: "smoves hw failed env s s1" "l2l_ok env s1" using steps_okI [OF s k] by (simp_all add: steps_ok_def)
    have fi: "find_iface q ?s = find_iface q s1" for q by (simp add: find_iface_def)
    have "peers_of ?s = peers_of s1" "macs_of ?s = macs_of s1" "names ?s = names s1" "all_owned env ?s = all_owned env s1"
      by (simp_all add: fun_eq_iff peers_of_def macs_of_def fi names_def all_owned_def)
    moreover have "linked_up ?s" using s1(2) by (simp add: l2l_ok_def linked_up_def fi)
    moreover have "length (filter (\<lambda>ev. ev_iface ev \<noteq> p) (m_cached_client_add_event s1)) \<le> MAX_NUM_CACHED_CLIENT_ADD_EVENT"
      by (rule le_trans [OF length_filter_le]) (use s1(2) in \<open>simp add: l2l_ok_def l2l_inv_def\<close>)
    ultimately have "l2l_ok env ?s" "smoves hw failed env s ?s"
      using s1 by (simp_all add: l2l_ok_def l2l_inv_def fi smoves_def)
    then show "lands (driver_grants (dev env)) (steps_ok hw failed env s) (Some ?s)" by (simp add: steps_ok_def)
  qed
qed

lemma iface_up_new_lands:
  assumes ok: "driver_ok hw failed (dev env)" and s: "l2l_ok env s" and p: "find_iface p s = None"
    and n: "length (m_iface s) \<noteq> MAX_NUM_IFACE" and lan: "lan_ok env (lans env p)" "tx_props (lans env p) \<noteq> []"
  shows "lands (driver_grants (dev env)) (steps_ok hw failed env s) (iface_up_new env p ip s)"
proof -
  let ?G = "driver_grants (dev env)"
  let ?i = "up_iface env p ip"
  let ?s = "s\<lparr>m_iface := ?i # m_iface s\<rparr>"
  let ?P = "paired hw failed env s p ?i"
  have inv: "l2l_inv env (peers_of s) s" and l: "linked_up s" using s by (simp_all add: l2l_ok_def)
  have pn: "p \<notin> set (names s)" using p find_iface_None by blast
  have np: "p \<notin> peer ` set (peers j0)" if j: "find_iface q s = Some j0" for q j0
    using inv_iface [OF inv j] pn by (auto simp: iface_ok_def lists_ok_def)
  note start = pairing_start [OF inv p n lan, of hw failed ip]
  have 1: "lands ?G ?P (if inter_offload ?i then
              (case fold_opt (pair_up env p) (names s) ?s of
                 None \<Rightarrow> None
               | Some s \<Rightarrow> add_all_inter_interface_client_flt_rule env ip p s)
            else Some ?s)"
  proof (rule lands_if)
    assume io: "inter_offload ?i"
    have "lands ?G (pairing hw failed env s p ?i []) (fold_opt (pair_up env p) (names s) ?s)"
      by (rule lands_fold [where I = "pairing hw failed env s p ?i", OF start]) (rule pair_up_lands [OF ok _ io pn np])
    then show "lands ?G ?P (case fold_opt (pair_up env p) (names s) ?s of
                 None \<Rightarrow> None | Some s \<Rightarrow> add_all_inter_interface_client_flt_rule env ip p s)"
    proof (rule lands_bind)
      fix s1 assume P: "pairing hw failed env s p ?i [] s1"
      have pd: "?P s1" by (rule pairing_paired [OF P]) (use io in simp_all)
      have inv1: "l2l_inv env (peers_of s1) s1" using pd by (simp add: paired_def)
      obtain i1 where i1: "find_iface p s1 = Some i1" "same_but_peers ?i i1" "\<forall>pr \<in> set (peers i1). flt_list pr = []"
        using P unfolding pairing_def by blast
      have A: "ip_assigned i1 ip" using i1(2) by (simp add: same_but_peers_def)
      have nf: "no_flt pr c ip" if "pr \<in> set (peers i1)" for pr c using i1(3) that by (simp add: no_flt_def)
      show "lands ?G ?P (add_all_inter_interface_client_flt_rule env ip p s1)"
        by (rule lands_weaken [OF add_all_inter_lands [OF ok inv1 i1(1) A nf]]) (assumption, elim conjE, rule paired_kept [OF pd])
    qed
  next
    assume "\<not> inter_offload ?i"
    then show "lands ?G ?P (Some ?s)" using pairing_paired [OF start] by simp
  qed
  have e: "iface_up_new env p ip s =
    (case (if inter_offload ?i then
              (case fold_opt (pair_up env p) (names s) ?s of
                 None \<Rightarrow> None
               | Some s \<Rightarrow> add_all_inter_interface_client_flt_rule env ip p s)
            else Some ?s) of
        None \<Rightarrow> None
      | Some s \<Rightarrow>
          (case (if intra_offload ?i then on_iface p (handle_intra_interface_info env) s else Some s) of
             None \<Rightarrow> None
           | Some s \<Rightarrow> handle_cached_client_add_event env p s))"
    by (simp only: iface_up_new_def up_iface_def names_def Let_def)
  show ?thesis
    unfolding e
  proof (rule lands_bind [OF 1])
    fix s1 assume P: "?P s1"
    have inv1: "l2l_inv env (peers_of s1) s1" and m1: "smoves hw failed env s s1" using P by (simp_all add: paired_def)
    obtain i1 where i1: "find_iface p s1 = Some i1" "inter_offload i1 = inter_offload ?i" "intra_offload i1 = intra_offload ?i" "intra_info i1 = None"
      using P unfolding paired_def by blast
    let ?Q = "\<lambda>s2. steps_ok hw failed env s s2 \<and> (\<exists>i. find_iface p s2 = Some i)"
    have 2: "lands ?G ?Q (if intra_offload ?i then on_iface p (handle_intra_interface_info env) s1 else Some s1)"
    proof (rule lands_if)
      assume io: "intra_offload ?i"
      let ?R = "\<lambda>i'. map peer (peers i') = map peer (peers i1) \<and> inter_offload i' = inter_offload i1 \<and> intra_offload i' = intra_offload i1 \<and> intra_info i' \<noteq> None"
      have st: "lands ?G (\<lambda>(i', d'). moves hw failed (drv s1) d' (own env i1) (own env i') \<and>
        iface_ok env (peers_of s1 p) (macs_of s1) (set (names s1)) i' \<and> m_p_iface i' = p \<and> macs i' = macs i1 \<and> ?R i')
        (handle_intra_interface_info env i1 (drv s1))"
        using intra_info_moves [OF ok inv_iface [OF inv1 i1(1)] i1(4), of "drv s1"] by (simp only: find_iface_name [OF i1(1)])
      show "lands ?G ?Q (on_iface p (handle_intra_interface_info env) s1)"
      proof (rule lands_weaken [OF on_iface_lands [where f = "handle_intra_interface_info env" and Q = ?R and Rs = "peers_of s1" and Rs' = "peers_of s1"
            and hw = hw and failed = failed, OF inv1 i1(1) st]])
        fix s2 assume "\<exists>i'. smoves hw failed env s1 s2 \<and> l2l_inv env (peers_of s1) s2 \<and> find_iface p s2 = Some i' \<and> ?R i' \<and>
          names s2 = names s1 \<and> macs_of s2 = macs_of s1 \<and> (\<forall>q. q \<noteq> p \<longrightarrow> find_iface q s2 = find_iface q s1) \<and>
          m_cached_client_add_event s2 = m_cached_client_add_event s1"
        then obtain i2 where s2: "smoves hw failed env s1 s2" "l2l_inv env (peers_of s1) s2" "find_iface p s2 = Some i2" "?R i2"
          "names s2 = names s1" "\<And>q. q \<noteq> p \<Longrightarrow> find_iface q s2 = find_iface q s1" by blast
        have "linked_up s2"
          by (rule paired_linked [OF P l p s2(5,6) i1(1) s2(3)]) (use s2(4) io i1(3) in simp_all)
        moreover have "peers_of s2 q = peers_of s1 q" for q
          using s2(3,4,6) i1(1) by (cases "q = p") (simp_all add: peers_of_def)
        then have "peers_of s2 = peers_of s1" by blast
        ultimately show "?Q s2" using s2(1-3) smoves_trans [OF m1] by (simp add: steps_ok_def l2l_ok_def)
      qed simp
    next
      assume io: "\<not> intra_offload ?i"
      have "linked_up s1" by (rule paired_linked [OF P l p refl refl i1(1) i1(1)]) (use io i1 in simp_all)
      then show "lands ?G ?Q (Some s1)" using inv1 m1 i1(1) by (simp add: steps_ok_def l2l_ok_def)
    qed
    show "lands ?G (steps_ok hw failed env s)
      (case (if intra_offload ?i then on_iface p (handle_intra_interface_info env) s1 else Some s1) of
         None \<Rightarrow> None | Some s \<Rightarrow> handle_cached_client_add_event env p s)"
    proof (rule lands_bind [OF 2])
      fix s2 assume Q: "?Q s2"
      then obtain i2 where i2: "find_iface p s2 = Some i2" and o2: "l2l_ok env s2" by (auto simp: steps_ok_def)
      show "lands ?G (steps_ok hw failed env s) (handle_cached_client_add_event env p s2)"
        by (rule lands_weaken [OF cached_lands [OF ok o2 i2]]) (use Q steps_ok_trans in blast)
    qed
  qed
qed

lemma handle_iface_up_lands:
  assumes ok: "driver_ok hw failed (dev env)" and s: "l2l_ok env s" and lan: "lan_ok env (lans env p)"
  shows "lands (driver_grants (dev env)) (steps_ok hw failed env s) (handle_iface_up env p ip s)"
proof (cases "find_iface p s")
  case None
  show ?thesis
    unfolding handle_iface_up_def None option.case
    by (intro lands_if) (use s iface_up_new_lands [OF ok s None _ lan] in \<open>simp_all add: steps_ok_refl\<close>)
next
  case (Some i)
  have "lands (driver_grants (dev env)) (lkept hw failed env (peers_of s) s) (family_up env p ip i s)"
    using s by (intro family_up_lands [OF ok _ _ Some]) (simp_all add: l2l_ok_def)
  then show ?thesis using Some by (simp add: handle_iface_up_def lands_weaken steps_okI [OF s])
qed

end
