(* ===== verification/L2l_Down.thy ===== *)
theory L2l_Down
  imports L2l_New
begin

text \<open>An interface goes down: its peers drop it one by one, then its own rules go.\<close>

section \<open>Two interfaces at once\<close>

definition two :: "l2l_iface \<Rightarrow> l2l_iface \<Rightarrow> 'd \<Rightarrow> 'd l2l \<Rightarrow> 'd l2l" where
  "two i j d s = put_iface i (put_iface j (s\<lparr>drv := d\<rparr>))"

lemma put_same: "find_iface p s = Some i \<Longrightarrow> distinct (names s) \<Longrightarrow> put_iface i s = s"
proof -
  assume i: "find_iface p s = Some i" and d: "distinct (names s)"
  have "(if m_p_iface j = m_p_iface i then i else j) = j" if "j \<in> set (m_iface s)" for j
  proof (cases "m_p_iface j = m_p_iface i")
    case True
    have "find_iface (m_p_iface j) s = Some j" using that find_iface_mem [OF d] by blast
    then show ?thesis using True i find_iface_name [OF i] by simp
  qed simp
  then have "map (\<lambda>j. if m_p_iface j = m_p_iface i then i else j) (m_iface s) = m_iface s" by (simp cong: map_cong)
  then show ?thesis by (simp add: put_iface_def)
qed

lemma put_put: "m_p_iface i' = m_p_iface i \<Longrightarrow> put_iface i' (put_iface i s) = put_iface i' s"
  by (simp add: put_iface_def comp_def)

lemma put_comm: "m_p_iface i \<noteq> m_p_iface j \<Longrightarrow> put_iface i (put_iface j s) = put_iface j (put_iface i s)"
  by (simp add: put_iface_def comp_def)

lemma put_drv: "(put_iface i s)\<lparr>drv := d\<rparr> = put_iface i (s\<lparr>drv := d\<rparr>)"
  by (simp add: put_iface_def)

lemma two_start: "find_iface p s = Some i \<Longrightarrow> find_iface q s = Some j \<Longrightarrow> distinct (names s) \<Longrightarrow> two i j (drv s) s = s"
  by (simp add: two_def put_same)

lemma two_facts:
  assumes d: "distinct (names s)" and f: "find_iface p s = Some i0" "find_iface q s = Some j0" and pq: "p \<noteq> q"
    and n: "m_p_iface i = p" "m_p_iface j = q"
  shows "find_iface r (two i j d s) = (if r = p then Some i else if r = q then Some j else find_iface r s)"
    and "names (two i j d s) = names s" and "drv (two i j d s) = d"
    and "m_cached_client_add_event (two i j d s) = m_cached_client_add_event s"
    and "\<exists>F. all_owned env s = F + (own env i0 + own env j0) \<and> all_owned env (two i j d s) = F + (own env i + own env j)"
    and "on_iface p f (two i j d s) = (case f i d of None \<Rightarrow> None | Some (i', d') \<Rightarrow> Some (put_iface i' (two i j d' s)))"
    and "on_iface q f (two i j d s) = (case f j d of None \<Rightarrow> None | Some (j', d') \<Rightarrow> Some (put_iface j' (two i j d' s)))"
proof -
  let ?s = "s\<lparr>drv := d\<rparr>"
  have d1: "distinct (names ?s)" and f1: "find_iface p ?s = Some i0" "find_iface q ?s = Some j0" using d f by (simp_all add: names_def)
  note a = put_iface_facts [OF d1 f1(2) n(2)]
  have d2: "distinct (names (put_iface j ?s))" and f2: "find_iface p (put_iface j ?s) = Some i0" using a(1,2) d1 f1(1) pq by simp_all
  note b = put_iface_facts [OF d2 f2 n(1)]
  show fi: "find_iface r (two i j d s) = (if r = p then Some i else if r = q then Some j else find_iface r s)" for r
    using a(2) b(2) by (simp add: two_def)
  show "names (two i j d s) = names s" using a(1) b(1) by (simp add: two_def names_def)
  show dr: "drv (two i j d s) = d" "m_cached_client_add_event (two i j d s) = m_cached_client_add_event s"
    using a(4,5) b(4,5) by (simp_all add: two_def)
  have up: "(two i j d s)\<lparr>drv := d'\<rparr> = two i j d' s" for d' by (simp add: two_def put_drv)
  show "on_iface p f (two i j d s) = (case f i d of None \<Rightarrow> None | Some (i', d') \<Rightarrow> Some (put_iface i' (two i j d' s)))"
    "on_iface q f (two i j d s) = (case f j d of None \<Rightarrow> None | Some (j', d') \<Rightarrow> Some (put_iface j' (two i j d' s)))"
    using fi pq dr(1) by (simp_all add: on_iface_def up split: option.split prod.split)
  have m: "i0 \<in># mset (m_iface s)" "j0 \<in># mset (m_iface s)" "m_p_iface i0 = p" "m_p_iface j0 = q"
    using find_SomeD f unfolding find_iface_def by fastforce+
  obtain A where A: "mset (m_iface s) = add_mset i0 A" using multi_member_split [OF m(1)] by blast
  have "j0 \<noteq> i0" using m(3,4) pq by blast
  moreover have "j0 = i0 \<or> j0 \<in># A" using m(2) unfolding A by (simp only: set_mset_add_mset_insert insert_iff)
  ultimately have jA: "j0 \<in># A" by blast
  obtain M where AM: "A = add_mset j0 M" using multi_member_split [OF jA] by blast
  have M: "mset (m_iface s) = {#i0, j0#} + M" unfolding A AM by simp
  have nm: "mset (names s) = {#p, q#} + image_mset m_p_iface M" using m(3,4) by (simp add: names_def M)
  have one: "count (mset (names s)) x \<le> 1" for x using d by (simp add: distinct_count_atmost_1)
  have nM: "m_p_iface x \<noteq> p \<and> m_p_iface x \<noteq> q" if "x \<in># M" for x
  proof -
    define I where "I = image_mset m_p_iface M"
    have "m_p_iface x \<in># I" using that by (simp add: I_def)
    then show ?thesis using one [of p] one [of q] unfolding nm I_def [symmetric] by (auto simp: count_eq_zero_iff split: if_splits)
  qed
  have M': "mset (m_iface (two i j d s)) = {#i, j#} + M"
  proof -
    let ?g = "\<lambda>k. if m_p_iface k = p then i else if m_p_iface k = q then j else k"
    have "m_iface (two i j d s) = map ?g (m_iface s)" using n pq by (simp add: two_def put_iface_def comp_def)
    then have "mset (m_iface (two i j d s)) = image_mset ?g ({#i0, j0#} + M)" by (simp add: M)
    moreover have "image_mset ?g M = M" using nM by (simp cong: image_mset_cong)
    ultimately show ?thesis using m(3,4) pq by simp
  qed
  have s: "all_owned env s' = sum_mset (image_mset (own env) (mset (m_iface s')))" for s' :: "'a l2l"
    by (simp add: all_owned_def sum_mset_sum_list [symmetric])
  show "\<exists>F. all_owned env s = F + (own env i0 + own env j0) \<and> all_owned env (two i j d s) = F + (own env i + own env j)"
    by (rule exI [of _ "sum_mset (image_mset (own env) M)"]) (simp add: s M M' ac_simps)
qed

lemma two_put:
  assumes "m_p_iface i = p" "m_p_iface j = q" "p \<noteq> q"
  shows "m_p_iface i' = p \<Longrightarrow> put_iface i' (two i j d s) = two i' j d s"
    and "m_p_iface j' = q \<Longrightarrow> put_iface j' (two i j d s) = two i j' d s"
  using assms by (simp_all add: two_def put_put) (simp add: put_comm put_put)


section \<open>One interface loses a peer\<close>

lemma own_gen_cnt: "own_gen T b env (i\<lparr>ref_cnt := r\<rparr>) = own_gen T b env i"
  by (simp add: own_gen_def own_client_def cong: if_cong)

lemma own_gen_peer:
  "own_gen T b env (i\<lparr>peers := us @ pr # vs\<rparr>) = own_peer pr + own_gen T b env (i\<lparr>peers := us @ vs\<rparr>)"
  by (simp add: own_gen_def own_client_def ac_simps cong: if_cong)

lemma own_gen_clients:
  "own_gen T b env (i\<lparr>clients := cs\<rparr>) = (\<Sum>c\<leftarrow>cs. own_client env i c) + own_gen T b env (i\<lparr>clients := []\<rparr>)"
  by (simp add: own_gen_def own_client_def ac_simps cong: if_cong)

lemma own_gen_ctx:
  fixes r :: "l2_type \<Rightarrow> int"
  assumes "\<And>u. T u \<longleftrightarrow> 0 < r u \<or> u = t" and "0 \<le> r t"
  shows "own_gen T b env i = (if r t = 0 then {#Ctx (ctx_inter i t)#} else {#}) + own_gen (\<lambda>u. 0 < r u) b env i"
proof -
  have "sum_l2 (\<lambda>u. if T u then {#Ctx (ctx_inter i u)#} else {#}) =
    (if r t = 0 then {#Ctx (ctx_inter i t)#} else {#}) + sum_l2 (\<lambda>u. if 0 < r u then {#Ctx (ctx_inter i u)#} else {#})"
    using assms(2) unfolding assms(1) by (cases t) (auto simp: sum_l2_def)
  then show ?thesis by (simp add: own_gen_def ac_simps)
qed

definition drop_rt :: "l2_type \<Rightarrow> client_info \<Rightarrow> client_info" where
  "drop_rt t c = c\<lparr>inter_rt := (inter_rt c)(t := (\<lambda>_. []))\<rparr>"

lemma clear_rt_inter:
  assumes ok: "driver_ok hw failed (dev env)" and q: "peer pr \<noteq> m_p_iface i" and t: "t = l2_of env (peer pr)"
  shows "\<exists>cs d'. clear_all_rt_rule_for_one_peer_iface env pr i d = Some (i\<lparr>clients := cs\<rparr>, d') \<and>
     cs = (if ref_cnt i t = 0 then map (drop_rt t) (clients i) else clients i) \<and>
     moves hw failed d d' (\<Sum>c\<leftarrow>clients i. own_client env i c) (\<Sum>c\<leftarrow>cs. own_client env i c)"
proof (cases "ref_cnt i t = 0")
  case False
  then show ?thesis by (simp add: clear_all_rt_rule_for_one_peer_iface_def t)
next
  case True
  have "lands True (\<lambda>(ys, d'). moves hw failed d d' (\<Sum>x\<leftarrow>clients i. own_client env i x) (\<Sum>y\<leftarrow>ys. own_client env i y) \<and>
      list_all2 (\<lambda>c c'. c' = drop_rt t c) (clients i) ys) (map_opt (\<lambda>c d. Some (del_client_rt_rule env i pr c d)) (clients i) d)"
  proof (rule map_opt_lands)
    fix c d
    obtain c' d' where r: "del_client_rt_rule env i pr c d = (c', d')" by fastforce
    have "c' = drop_rt t c" using r q by (simp add: del_client_rt_rule_def Let_def drop_rt_def t)
    then show "lands True (\<lambda>(y, d'). moves hw failed d d' (own_client env i c) (own_client env i y) \<and> y = drop_rt t c)
        (Some (del_client_rt_rule env i pr c d))"
      using del_client_rt_rule_moves [OF ok r] r by simp
  qed
  then obtain cs d' where r: "map_opt (\<lambda>c d. Some (del_client_rt_rule env i pr c d)) (clients i) d = Some (cs, d')"
    "moves hw failed d d' (\<Sum>x\<leftarrow>clients i. own_client env i x) (\<Sum>y\<leftarrow>cs. own_client env i y)"
    "list_all2 (\<lambda>c c'. c' = drop_rt t c) (clients i) cs"
    by (cases "map_opt (\<lambda>c d. Some (del_client_rt_rule env i pr c d)) (clients i) d") auto
  have "cs = map (drop_rt t) (clients i)" using r(3) by (induction rule: list_all2_induct) simp_all
  then show ?thesis using r True by (simp add: clear_all_rt_rule_for_one_peer_iface_def t)
qed

text \<open>The rules to the clients and the context go when the last peer of the type has gone.\<close>

definition rest_ok :: "l2l_iface \<Rightarrow> l2l_iface \<Rightarrow> bool" where
  "rest_ok i i' \<longleftrightarrow> m_p_iface i' = m_p_iface i \<and> ip_assigned i' = ip_assigned i \<and> inter_offload i' = inter_offload i \<and>
     intra_offload i' = intra_offload i \<and> macs i' = macs i \<and> intra_info i' = intra_info i"

lemma unpeer_moves:
  assumes ok: "driver_ok hw failed (dev env)" and q: "peer pr \<noteq> m_p_iface i" and t: "t = l2_of env (peer pr)"
    and T: "\<And>u. T u \<longleftrightarrow> 0 < ref_cnt i u \<or> u = t" "0 \<le> ref_cnt i t" and b: "b = (intra_info i \<noteq> None)"
    and k: "\<And>u. ref_cnt i u = int (length (filter (\<lambda>q. l2_of env q = u) R))"
    and c: "\<And>c. c \<in> set (clients i) \<Longrightarrow> client_nz c \<and> (\<forall>u. \<not> T u \<longrightarrow> inter_rt c u = (\<lambda>_. [])) \<and> (intra_info i = None \<longrightarrow> intra_rt c = (\<lambda>_. []))"
  shows "\<exists>i' d' d''. clear_all_rt_rule_for_one_peer_iface env pr i d = Some (i', d') \<and> rest_ok i i' \<and> peers i' = peers i \<and>
     ref_cnt i' = ref_cnt i \<and> ctx_inter i' = ctx_inter i \<and> cnt_ok env R i' \<and>
     (\<forall>ps. del_hdr_proc_ctx env t (i'\<lparr>peers := ps\<rparr>) d' = (i'\<lparr>peers := ps\<rparr>, d'')) \<and>
     moves hw failed d d'' (own_gen T b env i) (own env i')"
proof -
  obtain cs d' where r: "clear_all_rt_rule_for_one_peer_iface env pr i d = Some (i\<lparr>clients := cs\<rparr>, d')"
    "cs = (if ref_cnt i t = 0 then map (drop_rt t) (clients i) else clients i)"
    "moves hw failed d d' (\<Sum>c\<leftarrow>clients i. own_client env i c) (\<Sum>c\<leftarrow>cs. own_client env i c)"
    using clear_rt_inter [OF ok q t] by blast
  let ?i = "i\<lparr>clients := cs\<rparr>"
  define d'' where "d'' = (if ref_cnt i t = 0 then eth_bridge_del_hdr_proc_ctx env (ctx_inter i t) d' else d')"
  have "i = i\<lparr>clients := clients i\<rparr>" by simp
  then have "own_gen T b env i = (\<Sum>c\<leftarrow>clients i. own_client env i c) + own_gen T b env (i\<lparr>clients := []\<rparr>)" by (metis own_gen_clients)
  then have m1: "moves hw failed d d' (own_gen T b env i) (own_gen T b env ?i)"
    using moves_frame' [OF r(3)] by (simp only: own_gen_clients [of T b env cs i])
  have "moves hw failed d' d'' (if ref_cnt i t = 0 then {#Ctx (ctx_inter i t)#} else {#}) {#}"
    using eth_bridge_del_hdr_proc_ctx_moves [OF ok] by (simp add: d''_def)
  from moves_frame' [OF this, of "own env ?i"]
  have m2: "moves hw failed d' d'' (own_gen T b env ?i) (own env ?i)"
  proof -
    have "own_gen T b env ?i = (if ref_cnt i t = 0 then {#Ctx (ctx_inter i t)#} else {#}) + own env ?i"
      using own_gen_ctx [of T "ref_cnt i" t b env ?i, OF T] b by (simp add: own_def)
    then show "moves hw failed d' d'' ((if ref_cnt i t = 0 then {#Ctx (ctx_inter i t)#} else {#}) + own env ?i) ({#} + own env ?i) \<Longrightarrow> ?thesis"
      by (simp only: add_0)
  qed
  have "client_ok ?i c" if c': "c \<in> set cs" for c
  proof (cases "ref_cnt i t = 0")
    case True
    then obtain c0 where c0: "c0 \<in> set (clients i)" "c = drop_rt t c0" using c' r(2) by auto
    show ?thesis using c [OF c0(1)] T by (auto simp: client_ok_def c0(2) drop_rt_def client_nz_def)
  next
    case False
    then have "T u \<longleftrightarrow> ref_cnt i u \<noteq> 0" for u using T k [of u] by auto
    then show ?thesis using c [of c] c' r(2) False by (simp add: client_ok_def)
  qed
  then have "cnt_ok env R ?i" using k by (simp add: cnt_ok_def)
  moreover have "macs ?i = macs i" using r(2) by (simp add: macs_def drop_rt_def)
  moreover have "del_hdr_proc_ctx env t (?i\<lparr>peers := ps\<rparr>) d' = (?i\<lparr>peers := ps\<rparr>, d'')" for ps
    by (simp add: del_hdr_proc_ctx_def d''_def)
  ultimately show ?thesis using r(1) moves_trans [OF m1 m2] by (auto simp: rest_ok_def)
qed


lemma cnt_dec:
  assumes "\<And>u. ref_cnt i u = int (length (filter (\<lambda>q. l2_of env q = u) (us @ q # vs)))"
  shows "ref_cnt (decrement_ref_cnt_peer_l2_hdr_type (l2_of env q) i) u = int (length (filter (\<lambda>q. l2_of env q = u) (us @ vs)))"
    and "0 < ref_cnt i u \<longleftrightarrow> 0 < ref_cnt (decrement_ref_cnt_peer_l2_hdr_type (l2_of env q) i) u \<or> u = l2_of env q"
  using assms by (auto simp: decrement_ref_cnt_peer_l2_hdr_type_def)

lemma client_facts:
  assumes "iface_ok env R M N i" and "c \<in> set (clients i)"
  shows "client_nz c" and "\<not> 0 < ref_cnt i u \<Longrightarrow> inter_rt c u = (\<lambda>_. [])" and "intra_info i = None \<Longrightarrow> intra_rt c = (\<lambda>_. [])"
proof -
  have c: "client_ok i c" and r: "ref_cnt i u = int (length (filter (\<lambda>q. l2_of env q = u) R))"
    using assms by (auto simp: iface_ok_def cnt_ok_def)
  show "client_nz c" and "intra_info i = None \<Longrightarrow> intra_rt c = (\<lambda>_. [])" using c by (simp_all add: client_ok_def)
  show "inter_rt c u = (\<lambda>_. [])" if "\<not> 0 < ref_cnt i u"
  proof -
    have "ref_cnt i u = 0" using that r by linarith
    then show ?thesis using c by (simp add: client_ok_def)
  qed
qed

lemma rest_ok_iface:
  assumes i: "iface_ok env R M N i" and r: "rest_ok i i'" and p: "peer ` set (peers i') \<subseteq> peer ` set (peers i)" "distinct (map peer (peers i'))"
    and c: "cnt_ok env R' i'" and pr: "\<And>x. x \<in> set (peers i') \<Longrightarrow> \<exists>y \<in> set (peers i). same_peer y x \<and> (x = y \<or> flt_list x = [])"
  shows "iface_ok env R' M N i'"
proof -
  have e: "m_p_iface i' = m_p_iface i" "ip_assigned i' = ip_assigned i" "inter_offload i' = inter_offload i" "macs i' = macs i"
    "intra_info i' = intra_info i" using r by (simp_all add: rest_ok_def)
  have f: "flt_wf (ip_assigned i) (M (peer x)) x \<and> rt_tbl_name_for_rt x = rt_tbl_name env (l2_of env (peer x)) (l2_of env (m_p_iface i))"
    if x: "x \<in> set (peers i')" for x
  proof -
    obtain y where y: "y \<in> set (peers i)" "same_peer y x" "x = y \<or> flt_list x = []" using pr [OF x] by blast
    show ?thesis using iface_ok_peer(1,3) [OF i y(1)] y(2,3) by (auto simp: flt_wf_def same_peer_def)
  qed
  have len: "length (clients i') = length (clients i)" using e(4) unfolding macs_def by (metis length_map)
  have no: "\<not> inter_offload i \<Longrightarrow> peers i' = []" using i p(1) by (auto simp: iface_ok_def lists_ok_def)
  have "lists_ok M N i'"
    unfolding lists_ok_def
  proof (intro conjI ballI)
    have L: "lists_ok M N i" using i by (simp add: iface_ok_def)
    show "distinct (macs i')" "length (clients i') \<le> MAX_NUM_CLIENT" "\<not> inter_offload i' \<longrightarrow> peers i' = []"
      "\<forall>pr. intra_info i' = Some pr \<longrightarrow> flt_wf (ip_assigned i') (set (macs i')) pr"
      using L len no by (simp_all add: lists_ok_def e)
    show "peer ` set (peers i') \<subseteq> N - {m_p_iface i'}" using L p(1) unfolding lists_ok_def e(1) by blast
    show "flt_wf (ip_assigned i') (M (peer x)) x" if "x \<in> set (peers i')" for x using f [OF that] by (simp add: e)
  qed (fact p(2))
  moreover have "rt_tbls_ok env i'" using i f e by (simp add: iface_ok_def rt_tbls_ok_def)
  ultimately show ?thesis using i c e by (simp add: iface_ok_def)
qed

text \<open>The side of the peer that stays.\<close>

lemma drop_peer_moves:
  assumes ok: "driver_ok hw failed (dev env)" and j: "iface_ok env (map peer (peers j)) M N j" and p: "p \<in> peer ` set (peers j)"
  shows "\<exists>j' d'. drop_peer env p (decrement_ref_cnt_peer_l2_hdr_type (l2_of env p) j) d = Some (j', d') \<and>
     moves hw failed d d' (own env j) (own env j') \<and> iface_ok env (map peer (peers j')) M N j' \<and> rest_ok j j' \<and>
     peer ` set (peers j') = peer ` set (peers j) - {p}"
proof -
  let ?t = "l2_of env p"
  let ?j = "decrement_ref_cnt_peer_l2_hdr_type ?t j"
  have ds: "distinct (map peer (peers j))" using j by (simp add: iface_ok_def lists_ok_def)
  obtain p0 where p0: "p0 \<in> set (peers j)" "peer p0 = p" using p by blast
  from at_first_split [of p0 "peers j" "\<lambda>pr. peer pr = p" "\<lambda>pr d. (pr, d)" d, OF p0]
  obtain us pr vs where s: "peers j = us @ pr # vs" "peer pr = p" "erase_first (\<lambda>pr. peer pr = p) (peers j) = us @ vs"
    "find (\<lambda>pr. peer pr = p) (peers j) = Some pr" by blast
  have prj: "pr \<in> set (peers j)" using s(1) by simp
  note w = iface_ok_peer [OF j prj]
  have k: "ref_cnt j u = int (length (filter (\<lambda>q. l2_of env q = u) (map peer us @ p # map peer vs)))" for u
    using j s(1,2) by (simp add: iface_ok_def cnt_ok_def)
  note dec = cnt_dec [of j, OF k]
  let ?T = "\<lambda>u. 0 < ref_cnt j u"
  let ?b = "intra_info j \<noteq> None"
  let ?k = "?j\<lparr>peers := us @ vs\<rparr>"
  have jd [simp]: "m_p_iface ?j = m_p_iface j" "ip_assigned ?j = ip_assigned j" "clients ?j = clients j" "peers ?j = peers j"
    "intra_info ?j = intra_info j" "inter_offload ?j = inter_offload j" "intra_offload ?j = intra_offload j" "rest_ok j ?j"
    by (simp_all add: decrement_ref_cnt_peer_l2_hdr_type_def rest_ok_def macs_def)
  obtain pr' d1 where a: "clear_all_flt_rule_for_one_peer_iface env ?j pr d = (pr', d1)" by fastforce
  have wj: "flt_wf (ip_assigned ?j) (M (peer pr)) pr" using w(1) by simp
  note m1 = clear_all_flt_moves(1) [OF ok wj a]
  have k0: "0 \<le> ref_cnt ?k ?t" using dec(1) by simp
  have T: "?T u \<longleftrightarrow> 0 < ref_cnt ?k u \<or> u = ?t" for u using dec(2) [of u] by simp
  have "\<exists>i' d' d''. clear_all_rt_rule_for_one_peer_iface env pr ?k d1 = Some (i', d') \<and> rest_ok ?k i' \<and> peers i' = peers ?k \<and>
     ref_cnt i' = ref_cnt ?k \<and> ctx_inter i' = ctx_inter ?k \<and> cnt_ok env (map peer us @ map peer vs) i' \<and>
     (\<forall>ps. del_hdr_proc_ctx env ?t (i'\<lparr>peers := ps\<rparr>) d' = (i'\<lparr>peers := ps\<rparr>, d'')) \<and>
     moves hw failed d1 d'' (own_gen ?T ?b env ?k) (own env i')"
  proof (rule unpeer_moves [OF ok _ _ T k0])
    show "peer pr \<noteq> m_p_iface ?k" using w(4) by simp
    show "?t = l2_of env (peer pr)" using s(2) by simp
    show "?b = (intra_info ?k \<noteq> None)" by simp
    show "ref_cnt ?k u = int (length (filter (\<lambda>q. l2_of env q = u) (map peer us @ map peer vs)))" for u using dec(1) by simp
    show "client_nz c \<and> (\<forall>u. \<not> ?T u \<longrightarrow> inter_rt c u = (\<lambda>_. [])) \<and> (intra_info ?k = None \<longrightarrow> intra_rt c = (\<lambda>_. []))"
      if "c \<in> set (clients ?k)" for c using client_facts [OF j, of c] that by simp
  qed
  then obtain j' d2 d3 where u: "clear_all_rt_rule_for_one_peer_iface env pr ?k d1 = Some (j', d2)" "rest_ok ?k j'" "peers j' = us @ vs"
    "cnt_ok env (map peer us @ map peer vs) j'" "\<forall>ps. del_hdr_proc_ctx env ?t (j'\<lparr>peers := ps\<rparr>) d2 = (j'\<lparr>peers := ps\<rparr>, d3)"
    "moves hw failed d1 d3 (own_gen ?T ?b env ?k) (own env j')" by auto
  have "j'\<lparr>peers := us @ vs\<rparr> = j'" using u(3) by simp
  then have del: "del_hdr_proc_ctx env ?t j' d2 = (j', d3)" using u(5) by metis
  obtain j1 where j1: "clear_all_rt_rule_for_one_peer_iface env pr ?j d1 = Some (j1, d2)" "j1\<lparr>peers := us @ vs\<rparr> = j'"
  proof -
    have e: "clear_all_rt_rule_for_one_peer_iface env pr (i\<lparr>peers := ps\<rparr>) d =
      (case clear_all_rt_rule_for_one_peer_iface env pr i d of None \<Rightarrow> None | Some (i', d') \<Rightarrow> Some (i'\<lparr>peers := ps\<rparr>, d'))" for i ps d
      by (simp add: clear_all_rt_rule_for_one_peer_iface_def del_client_rt_rule_def Let_def split: option.split cong: if_cong)
    show ?thesis using u(1) that unfolding e by (auto split: option.splits)
  qed
  have "drop_peer env p ?j d = Some (j', d3)"
  proof -
    have "peers j1 = peers ?j" using j1(1) by (auto simp: clear_all_rt_rule_for_one_peer_iface_def split: if_splits option.splits)
    then show ?thesis using s(3,4) a j1 del by (simp add: drop_peer_def)
  qed
  moreover have "moves hw failed d d3 (own env j) (own env j')"
  proof -
    have "j = j\<lparr>peers := us @ pr # vs\<rparr>" using s(1) by (metis l2l_iface.surjective l2l_iface.update_convs(9))
    then have "own env j = own_peer pr + own_gen ?T ?b env (j\<lparr>peers := us @ vs\<rparr>)"
      unfolding own_def by (metis own_gen_peer)
    moreover have "own_gen ?T ?b env (j\<lparr>peers := us @ vs\<rparr>) = own_gen ?T ?b env ?k"
      by (simp add: own_gen_def own_client_def decrement_ref_cnt_peer_l2_hdr_type_def cong: if_cong)
    ultimately show ?thesis using moves_trans [OF moves_frame' [OF m1] ] u(6) by simp
  qed
  moreover have "rest_ok j j'" using u(2) by (simp add: rest_ok_def macs_def)
  moreover have "iface_ok env (map peer (peers j')) M N j'"
  proof (rule rest_ok_iface [OF j \<open>rest_ok j j'\<close>])
    show "\<exists>y \<in> set (peers j). same_peer y x \<and> (x = y \<or> flt_list x = [])" if "x \<in> set (peers j')" for x
      by (rule bexI [of _ x]) (use that u(3) s(1) in auto)
  qed (use u(3,4) s(1) ds in auto)
  moreover have "peer ` set (peers j') = peer ` set (peers j) - {p}" using ds s(1,2) u(3) by (auto simp: image_iff)
  ultimately show ?thesis by blast
qed


text \<open>The side of the interface that goes: first the filter rules, later the rest.\<close>

lemma down_flt_moves:
  assumes ok: "driver_ok hw failed (dev env)" and i: "iface_ok env (q # R) M N i" and q: "q \<in> peer ` set (peers i)"
    and i1: "i1 = decrement_ref_cnt_peer_l2_hdr_type (l2_of env q) i"
  shows "\<exists>i2 d'. at_peer q (clear_all_flt_rule_for_one_peer_iface env i1) i1 d = (i2, d') \<and>
     moves hw failed d d' (own env i) (own_gen (\<lambda>u. 0 < ref_cnt i u) (intra_info i \<noteq> None) env i2) \<and>
     rest_ok i i2 \<and> clients i2 = clients i \<and> ref_cnt i2 = ref_cnt i1 \<and>
     map peer (peers i2) = map peer (peers i) \<and>
     (\<forall>x \<in> set (peers i2). (\<exists>y \<in> set (peers i). same_peer y x \<and> (x = y \<or> flt_list x = [])) \<and> (peer x = q \<longrightarrow> flt_list x = []))"
proof -
  let ?T = "\<lambda>u. 0 < ref_cnt i u"
  let ?b = "intra_info i \<noteq> None"
  obtain p0 where p0: "p0 \<in> set (peers i)" "peer p0 = q" using q by blast
  from at_first_split [of p0 "peers i" "\<lambda>pr. peer pr = q" "clear_all_flt_rule_for_one_peer_iface env i1" d, OF p0]
  obtain us pr vs where s: "peers i = us @ pr # vs" "peer pr = q"
    "at_first (\<lambda>pr. peer pr = q) (clear_all_flt_rule_for_one_peer_iface env i1) (peers i) d =
       (us @ fst (clear_all_flt_rule_for_one_peer_iface env i1 pr d) # vs, snd (clear_all_flt_rule_for_one_peer_iface env i1 pr d))" by blast
  have ds: "distinct (map peer (peers i))" using i by (simp add: iface_ok_def lists_ok_def)
  have prj: "pr \<in> set (peers i)" using s(1) by simp
  note w = iface_ok_peer [OF i prj]
  have i1s: "ip_assigned i1 = ip_assigned i" "peers i1 = peers i" by (simp_all add: i1 decrement_ref_cnt_peer_l2_hdr_type_def)
  obtain pr' d1 where a: "clear_all_flt_rule_for_one_peer_iface env i1 pr d = (pr', d1)" by fastforce
  have wj: "flt_wf (ip_assigned i1) (M (peer pr)) pr" using w(1) i1s by simp
  note m1 = clear_all_flt_moves [OF ok wj a]
  let ?i2 = "i1\<lparr>peers := us @ pr' # vs\<rparr>"
  have r: "at_peer q (clear_all_flt_rule_for_one_peer_iface env i1) i1 d = (?i2, d1)"
    using s(3) a by (simp add: at_peer_def i1s)
  have m: "moves hw failed d d1 (own env i) (own_gen ?T ?b env ?i2)"
  proof -
    have "i = i\<lparr>peers := us @ pr # vs\<rparr>" using s(1) by simp
    then have "own env i = own_peer pr + own_gen ?T ?b env (i\<lparr>peers := us @ vs\<rparr>)" unfolding own_def by (metis own_gen_peer)
    moreover have "own_gen ?T ?b env ?i2 = {#} + own_gen ?T ?b env (i\<lparr>peers := us @ vs\<rparr>)"
      by (simp add: own_gen_def own_client_def own_peer_def m1(2) i1 decrement_ref_cnt_peer_l2_hdr_type_def cong: if_cong)
    ultimately show ?thesis using moves_frame' [OF m1(1)] by simp
  qed
  have ro: "rest_ok i ?i2" by (simp add: rest_ok_def i1 decrement_ref_cnt_peer_l2_hdr_type_def macs_def)
  have mp: "map peer (peers ?i2) = map peer (peers i)" using s(1) m1(2) by simp
  have "(\<exists>y \<in> set (peers i). same_peer y x \<and> (x = y \<or> flt_list x = [])) \<and> (peer x = q \<longrightarrow> flt_list x = [])"
    if "x \<in> set (peers ?i2)" for x
  proof (cases "x = pr'")
    case True
    then show ?thesis using prj m1(2) by (intro conjI bexI [of _ pr]) auto
  next
    case False
    then have x: "x \<in> set us \<union> set vs" using that by auto
    then have "peer x \<noteq> q" using ds s(1,2) by (auto simp: image_iff)
    moreover have "\<exists>y \<in> set (peers i). same_peer y x \<and> (x = y \<or> flt_list x = [])" by (rule bexI [of _ x]) (use x s(1) in auto)
    ultimately show ?thesis by blast
  qed
  moreover have "clients ?i2 = clients i" "ref_cnt ?i2 = ref_cnt i1" by (simp_all add: i1 decrement_ref_cnt_peer_l2_hdr_type_def)
  ultimately show ?thesis using r m ro mp by blast
qed

lemma down_rest_moves:
  assumes ok: "driver_ok hw failed (dev env)" and i: "iface_ok env (q # R) M N i" and q: "q \<in> peer ` set (peers i)"
    and i1: "i1 = decrement_ref_cnt_peer_l2_hdr_type (l2_of env q) i"
    and i2: "rest_ok i i2" "clients i2 = clients i" "ref_cnt i2 = ref_cnt i1" "map peer (peers i2) = map peer (peers i)"
      "\<And>x. x \<in> set (peers i2) \<Longrightarrow> \<exists>y \<in> set (peers i). same_peer y x \<and> (x = y \<or> flt_list x = [])"
  shows "\<exists>i3 d'. (case find (\<lambda>pr. peer pr = q) (peers i2) of None \<Rightarrow> None
      | Some pr \<Rightarrow> (case clear_all_rt_rule_for_one_peer_iface env pr i2 d of None \<Rightarrow> None
           | Some (i, d) \<Rightarrow> Some (del_hdr_proc_ctx env (l2_of env q) i d))) = Some (i3, d') \<and>
     moves hw failed d d' (own_gen (\<lambda>u. 0 < ref_cnt i u) (intra_info i \<noteq> None) env i2) (own env i3) \<and>
     iface_ok env R M N i3 \<and> rest_ok i i3 \<and> peers i3 = peers i2"
proof -
  let ?T = "\<lambda>u. 0 < ref_cnt i u"
  let ?t = "l2_of env q"
  have "q \<in> peer ` set (peers i2)" using q i2(4) by (metis set_map)
  then obtain pr where pr: "find (\<lambda>pr. peer pr = q) (peers i2) = Some pr"
    by (metis (mono_tags, lifting) find_None_iff image_iff option.exhaust)
  have p: "pr \<in> set (peers i2)" "peer pr = q" using find_SomeD [OF pr] by auto
  have k: "ref_cnt i u = int (length (filter (\<lambda>q. l2_of env q = u) ([] @ q # R)))" for u
    using i by (simp add: iface_ok_def cnt_ok_def)
  note dec = cnt_dec [of i, OF k, folded i1, folded i2(3)]
  have s: "m_p_iface i2 = m_p_iface i" "intra_info i2 = intra_info i" using i2(1) by (simp_all add: rest_ok_def)
  have "\<exists>i' d' d''. clear_all_rt_rule_for_one_peer_iface env pr i2 d = Some (i', d') \<and> rest_ok i2 i' \<and> peers i' = peers i2 \<and>
     ref_cnt i' = ref_cnt i2 \<and> ctx_inter i' = ctx_inter i2 \<and> cnt_ok env R i' \<and>
     (\<forall>ps. del_hdr_proc_ctx env ?t (i'\<lparr>peers := ps\<rparr>) d' = (i'\<lparr>peers := ps\<rparr>, d'')) \<and>
     moves hw failed d d'' (own_gen ?T (intra_info i \<noteq> None) env i2) (own env i')"
  proof (rule unpeer_moves [OF ok])
    have "q \<noteq> m_p_iface i" using q i by (auto simp: iface_ok_def lists_ok_def)
    then show "peer pr \<noteq> m_p_iface i2" using p(2) s by simp
    show "?t = l2_of env (peer pr)" using p(2) by simp
    show "(intra_info i \<noteq> None) = (intra_info i2 \<noteq> None)" using s by simp
    show "?T u \<longleftrightarrow> 0 < ref_cnt i2 u \<or> u = ?t" for u by (rule dec(2))
    show "ref_cnt i2 u = int (length (filter (\<lambda>q. l2_of env q = u) R))" for u using dec(1) by simp
    then show "0 \<le> ref_cnt i2 ?t" by simp
    show "client_nz c \<and> (\<forall>u. \<not> ?T u \<longrightarrow> inter_rt c u = (\<lambda>_. [])) \<and> (intra_info i2 = None \<longrightarrow> intra_rt c = (\<lambda>_. []))"
      if "c \<in> set (clients i2)" for c using client_facts [OF i, of c] that s i2(2) by simp
  qed
  then obtain i3 d1 d2 where u: "clear_all_rt_rule_for_one_peer_iface env pr i2 d = Some (i3, d1)" "rest_ok i2 i3" "peers i3 = peers i2"
    "cnt_ok env R i3" "\<forall>ps. del_hdr_proc_ctx env ?t (i3\<lparr>peers := ps\<rparr>) d1 = (i3\<lparr>peers := ps\<rparr>, d2)"
    "moves hw failed d d2 (own_gen ?T (intra_info i \<noteq> None) env i2) (own env i3)" by blast
  have "i3\<lparr>peers := peers i3\<rparr> = i3" by simp
  then have del: "del_hdr_proc_ctx env ?t i3 d1 = (i3, d2)" using u(5) by metis
  have ro: "rest_ok i i3" using i2(1) u(2) by (simp add: rest_ok_def)
  have pe: "peer ` set (peers i3) = peer ` set (peers i)" using i2(4) u(3) by (metis set_map)
  have "iface_ok env R M N i3"
  proof (rule rest_ok_iface [OF i ro _ _ u(4)])
    show "distinct (map peer (peers i3))" using i i2(4) u(3) by (simp add: iface_ok_def lists_ok_def)
  qed (use pe i2(5) u(3) in auto)
  then show ?thesis using pr u(1,3,6) del ro by auto
qed


section \<open>The loop over the peers\<close>

lemma linked_sym:
  assumes inv: "l2l_inv env Rs s" and l: "linked_up s" and i: "find_iface p s = Some i" and q: "q \<in> peer ` set (peers i)"
  shows "\<exists>j. find_iface q s = Some j \<and> p \<in> peer ` set (peers j)"
proof -
  have io: "inter_offload i" using inv_iface [OF inv i] q by (auto simp: iface_ok_def lists_ok_def)
  have li: "inter_offload i \<longrightarrow> peer ` set (peers i) = {q'. q' \<noteq> p \<and> (\<exists>j. find_iface q' s = Some j \<and> inter_offload j)}"
    using l i unfolding linked_up_def by blast
  then obtain j where j: "find_iface q s = Some j" "inter_offload j" "q \<noteq> p" using io q by blast
  have "inter_offload j \<longrightarrow> peer ` set (peers j) = {q'. q' \<noteq> q \<and> (\<exists>j. find_iface q' s = Some j \<and> inter_offload j)}"
    using l j(1) unfolding linked_up_def by blast
  then have "p \<in> peer ` set (peers j)" using j i io by simp
  then show ?thesis using j(1) by blast
qed

definition down_loop :: "'d hw_view \<Rightarrow> ('d \<Rightarrow> bool) \<Rightarrow> 'd l2l_env \<Rightarrow> 'd l2l \<Rightarrow> nat \<Rightarrow> l2l_iface \<Rightarrow> nat list \<Rightarrow> 'd l2l \<Rightarrow> bool" where
  "down_loop hw failed env s0 p i0 qs s \<longleftrightarrow>
     smoves hw failed env s0 s \<and> names s = names s0 \<and> m_cached_client_add_event s = m_cached_client_add_event s0 \<and>
     l2l_inv env ((peers_of s)(p := qs)) s \<and> distinct qs \<and> set qs \<subseteq> peer ` set (peers i0) \<and>
     (\<exists>i. find_iface p s = Some i \<and> rest_ok i0 i \<and> map peer (peers i) = map peer (peers i0) \<and>
        (\<forall>x \<in> set (peers i). peer x \<notin> set qs \<longrightarrow> flt_list x = [])) \<and>
     (\<forall>q j0. q \<noteq> p \<longrightarrow> find_iface q s0 = Some j0 \<longrightarrow> (\<exists>j. find_iface q s = Some j \<and> rest_ok j0 j \<and>
        peer ` set (peers j) = peer ` set (peers j0) - (if q \<in> set qs then {} else {p})))"

lemma rest_ok_trans: "rest_ok a b \<Longrightarrow> rest_ok b c \<Longrightarrow> rest_ok a c"
  by (simp add: rest_ok_def)

lemma rest_ok_dec [simp]: "rest_ok i (decrement_ref_cnt_peer_l2_hdr_type t i)"
  by (simp add: rest_ok_def macs_def decrement_ref_cnt_peer_l2_hdr_type_def)

lemma rest_ok_name: "rest_ok i i' \<Longrightarrow> m_p_iface i = p \<Longrightarrow> m_p_iface i' = p"
  by (simp add: rest_ok_def)

lemma down_peer_lands:
  assumes ok: "driver_ok hw failed (dev env)" and I: "down_loop hw failed env s0 p i0 (q # qs) s"
    and sym: "\<And>q. q \<in> peer ` set (peers i0) \<Longrightarrow> \<exists>j. find_iface q s0 = Some j \<and> p \<in> peer ` set (peers j)"
  shows "lands G (down_loop hw failed env s0 p i0 qs) (down_peer env p q s)"
proof -
  let ?Rs = "(peers_of s)(p := q # qs)"
  have sm: "smoves hw failed env s0 s" and n: "names s = names s0" and ca: "m_cached_client_add_event s = m_cached_client_add_event s0"
    and inv: "l2l_inv env ?Rs s" and di: "distinct (q # qs)" and sub: "set (q # qs) \<subseteq> peer ` set (peers i0)"
    and ex: "\<exists>i. find_iface p s = Some i \<and> rest_ok i0 i \<and> map peer (peers i) = map peer (peers i0) \<and>
        (\<forall>x \<in> set (peers i). peer x \<notin> set (q # qs) \<longrightarrow> flt_list x = [])"
    and oth: "\<forall>q' j0. q' \<noteq> p \<longrightarrow> find_iface q' s0 = Some j0 \<longrightarrow> (\<exists>j. find_iface q' s = Some j \<and> rest_ok j0 j \<and>
        peer ` set (peers j) = peer ` set (peers j0) - (if q' \<in> set (q # qs) then {} else {p}))"
    by (insert I [unfolded down_loop_def], elim conjE, assumption)+
  obtain i where i: "find_iface p s = Some i" "rest_ok i0 i" "map peer (peers i) = map peer (peers i0)"
    "\<forall>x \<in> set (peers i). peer x \<notin> set (q # qs) \<longrightarrow> flt_list x = []" using ex by blast
  have iok: "iface_ok env (q # qs) (macs_of s) (set (names s)) i" using inv_iface [OF inv i(1)] by simp
  have np: "m_p_iface i = p" by (rule find_iface_name [OF i(1)])
  have qi: "q \<in> peer ` set (peers i)" using sub i(3) by (metis list.set_intros(1) set_map subsetD)
  then have pq: "p \<noteq> q" using iok np by (auto simp: iface_ok_def lists_ok_def)
  obtain j0 where j0: "find_iface q s0 = Some j0" "p \<in> peer ` set (peers j0)" using sym [of q] sub by auto
  obtain j where j: "find_iface q s = Some j" "rest_ok j0 j" "peer ` set (peers j) = peer ` set (peers j0)"
    using oth [rule_format, OF pq [symmetric] j0(1)] by auto
  have nq: "m_p_iface j = q" by (rule find_iface_name [OF j(1)])
  have jok: "iface_ok env (map peer (peers j)) (macs_of s) (set (names s)) j"
    using inv_iface [OF inv j(1)] pq j(1) by (simp add: peers_of_def)
  have pj: "p \<in> peer ` set (peers j)" using j(3) j0(2) by simp
  let ?G = "own_gen (\<lambda>u. 0 < ref_cnt i u) (intra_info i \<noteq> None) env"
  define i1 where "i1 = decrement_ref_cnt_peer_l2_hdr_type (l2_of env q) i"
  define j1 where "j1 = decrement_ref_cnt_peer_l2_hdr_type (l2_of env p) j"
  obtain i2 d1 where a: "at_peer q (clear_all_flt_rule_for_one_peer_iface env i1) i1 (drv s) = (i2, d1)"
    "moves hw failed (drv s) d1 (own env i) (?G i2)" "rest_ok i i2" "clients i2 = clients i" "ref_cnt i2 = ref_cnt i1"
    "map peer (peers i2) = map peer (peers i)"
    "\<forall>x \<in> set (peers i2). (\<exists>y \<in> set (peers i). same_peer y x \<and> (x = y \<or> flt_list x = [])) \<and> (peer x = q \<longrightarrow> flt_list x = [])"
    using down_flt_moves [OF ok iok qi i1_def, of "drv s"] by blast
  obtain j2 d2 where b: "drop_peer env p j1 d1 = Some (j2, d2)" "moves hw failed d1 d2 (own env j) (own env j2)"
    "iface_ok env (map peer (peers j2)) (macs_of s) (set (names s)) j2" "rest_ok j j2" "peer ` set (peers j2) = peer ` set (peers j) - {p}"
    using drop_peer_moves [OF ok jok pj, of d1] unfolding j1_def by blast
  let ?f = "\<lambda>i d. (case find (\<lambda>pr. peer pr = q) (peers i) of None \<Rightarrow> None
      | Some pr \<Rightarrow> (case clear_all_rt_rule_for_one_peer_iface env pr i d of None \<Rightarrow> None
           | Some (i, d) \<Rightarrow> Some (del_hdr_proc_ctx env (l2_of env q) i d)))"
  obtain i3 d3 where c: "?f i2 d2 = Some (i3, d3)" "moves hw failed d2 d3 (?G i2) (own env i3)"
    "iface_ok env qs (macs_of s) (set (names s)) i3" "rest_ok i i3" "peers i3 = peers i2"
    using down_rest_moves [OF ok iok qi i1_def a(3-6), of d2] a(7) by blast
  have nm: "m_p_iface i1 = p" "m_p_iface i2 = p" "m_p_iface i3 = p" "m_p_iface j1 = q" "m_p_iface j2 = q"
    using rest_ok_name [OF _ np] rest_ok_name [OF _ nq] a(3) c(4) b(4) rest_ok_dec unfolding i1_def j1_def by blast+
  have ds: "distinct (names s)" using inv by (simp add: l2l_inv_def)
  note T = two_facts [OF ds i(1) j(1) pq]
  note tp = two_put(1) [where p = p and q = q, OF _ _ pq] and tq = two_put(2) [where p = p and q = q, OF _ _ pq]
  let ?s = "two i3 j2 d3 s"
  have st: "down_peer env p q (two i j (drv s) s) = Some ?s"
  proof -
    have 1: "on_iface p (\<lambda>i d. Some (decrement_ref_cnt_peer_l2_hdr_type (l2_of env q) i, d)) (two i j (drv s) s) = Some (two i1 j (drv s) s)"
      using T(6) [OF np nq] tp [OF np nq nm(1)] by (simp add: i1_def)
    have 2: "on_iface q (\<lambda>j d. Some (decrement_ref_cnt_peer_l2_hdr_type (l2_of env p) j, d)) (two i1 j (drv s) s) = Some (two i1 j1 (drv s) s)"
      using T(7) [OF nm(1) nq] tq [OF nm(1) nq nm(4)] by (simp add: j1_def)
    have 3: "on_iface p (\<lambda>i d. Some (at_peer q (clear_all_flt_rule_for_one_peer_iface env i) i d)) (two i1 j1 (drv s) s) = Some (two i2 j1 d1 s)"
      using T(6) [OF nm(1,4)] tp [OF nm(1,4,2)] a(1) by simp
    have 4: "on_iface q (drop_peer env p) (two i2 j1 d1 s) = Some (two i2 j2 d2 s)"
      using T(7) [OF nm(2,4)] tq [OF nm(2,4,5)] b(1) by simp
    have 5: "on_iface p ?f (two i2 j2 d2 s) = Some ?s"
      unfolding T(6) [OF nm(2,5)] c(1) using tp [OF nm(2,5,3)] by simp
    show ?thesis unfolding down_peer_def 1 option.case 2 3 4 5 ..
  qed
  note F = T [OF nm(3,5)]
  have "smoves hw failed env s ?s"
  proof -
    have "moves hw failed (drv s) d3 (own env i + own env j) (own env i3 + own env j2)"
      using moves_trans [OF moves_trans [OF moves_frame' [OF a(2)] moves_frame [OF b(2)]] moves_frame' [OF c(2)]] .
    then show ?thesis using F(5) [where d = d3 and env = env] moves_frame F(3) unfolding smoves_def by metis
  qed
  then have sm': "smoves hw failed env s0 ?s" by (rule smoves_trans [OF sm])
  have fi: "find_iface r ?s = (if r = p then Some i3 else if r = q then Some j2 else find_iface r s)" for r by (rule F(1))
  have ma: "macs_of ?s = macs_of s"
    using i(1) j(1) c(4) b(4) by (auto simp: macs_of_def fi rest_ok_def fun_eq_iff)
  have inv': "l2l_inv env ((peers_of ?s)(p := qs)) ?s"
    unfolding l2l_inv_def
  proof (intro conjI allI impI)
    fix r k assume k: "find_iface r ?s = Some k"
    show "iface_ok env (((peers_of ?s)(p := qs)) r) (macs_of ?s) (set (names ?s)) k"
    proof (cases "r = p \<or> r = q")
      case True
      then show ?thesis using k c(3) b(3) pq by (auto simp: fi ma F(2) peers_of_def)
    next
      case False
      then show ?thesis using inv_iface [OF inv, of r k] k by (simp add: fi ma F(2) peers_of_def)
    qed
  qed (use inv F(2,4) in \<open>auto simp: l2l_inv_def length_names\<close>)
  have "down_loop hw failed env s0 p i0 qs ?s"
    unfolding down_loop_def
  proof (intro conjI allI impI)
    have "\<forall>x \<in> set (peers i3). peer x \<notin> set qs \<longrightarrow> flt_list x = []"
    proof (intro ballI impI)
      fix x assume x: "x \<in> set (peers i3)" "peer x \<notin> set qs"
      obtain y where "y \<in> set (peers i)" "same_peer y x" "x = y \<or> flt_list x = []" "peer x = q \<longrightarrow> flt_list x = []"
        using a(7) x(1) c(5) by auto
      then show "flt_list x = []" using i(4) x(2) by (auto simp: same_peer_def)
    qed
    then show "\<exists>i. find_iface p ?s = Some i \<and> rest_ok i0 i \<and> map peer (peers i) = map peer (peers i0) \<and>
        (\<forall>x \<in> set (peers i). peer x \<notin> set qs \<longrightarrow> flt_list x = [])"
      using fi [of p] rest_ok_trans [OF i(2) c(4)] c(5) a(6) i(3) by simp
    fix r k0 assume r: "r \<noteq> p" "find_iface r s0 = Some k0"
    show "\<exists>j. find_iface r ?s = Some j \<and> rest_ok k0 j \<and> peer ` set (peers j) = peer ` set (peers k0) - (if r \<in> set qs then {} else {p})"
    proof (cases "r = q")
      case True
      then have "k0 = j0" using r j0 by simp
      then show ?thesis using True fi [of q] pq b(5) j(3) di rest_ok_trans [OF j(2) b(4)] by simp
    next
      case False
      then show ?thesis using oth [rule_format, OF r] fi [of r] r(1) by simp
    qed
  qed (use sm' inv' di sub n ca F(2,4) in auto)
  then show ?thesis using st two_start [OF i(1) j(1) ds] by simp
qed


section \<open>The rules within the interface\<close>

lemma del_intra_moves:
  assumes ok: "driver_ok hw failed (dev env)" and pr: "peer pr = m_p_iface i" and z: "\<And>c. c \<in> set cs \<Longrightarrow> inter_rt c = (\<lambda>_ _. [])"
  shows "\<exists>cs' d'. map_opt (\<lambda>c d. Some (del_client_rt_rule env i pr c d)) cs d = Some (cs', d') \<and>
     moves hw failed d d' (\<Sum>c\<leftarrow>cs. own_client env i c) {#}"
  using z
proof (induction cs arbitrary: d)
  case (Cons c cs)
  obtain c1 d1 where r: "del_client_rt_rule env i pr c d = (c1, d1)" by fastforce
  have "own_client env i c1 = {#}"
    using r pr Cons.prems [of c] by (auto simp: del_client_rt_rule_def Let_def own_client_def sum_l2_def)
  then have m: "moves hw failed d d1 (own_client env i c) {#}" using del_client_rt_rule_moves [OF ok r] by simp
  obtain cs' d' where "map_opt (\<lambda>c d. Some (del_client_rt_rule env i pr c d)) cs d1 = Some (cs', d')"
    "moves hw failed d1 d' (\<Sum>c\<leftarrow>cs. own_client env i c) {#}" using Cons by fastforce
  then show ?case using r moves_par [OF m] by simp
qed simp

lemma intra_down_moves:
  assumes ok: "driver_ok hw failed (dev env)" and i: "iface_ok env [] M N i"
    and pe: "\<And>x. x \<in> set (peers i) \<Longrightarrow> flt_list x = []" and ii: "intra_info i = None \<longleftrightarrow> \<not> intra_offload i"
  shows "\<exists>i' d'. (if intra_offload i then intra_down env i d else Some (i, d)) = Some (i', d') \<and> m_p_iface i' = m_p_iface i \<and>
     moves hw failed d d' (own env i) {#}"
proof -
  have r0: "ref_cnt i = (\<lambda>_. 0)" using i by (auto simp: iface_ok_def cnt_ok_def)
  have z: "inter_rt c = (\<lambda>_ _. [])" if "c \<in> set (clients i)" for c using client_facts(2) [OF i that] r0 by auto
  have p0: "(\<Sum>pr\<leftarrow>peers i. own_peer pr) = {#}"
  proof -
    have "own_peer pr = {#}" if "pr \<in> set (peers i)" for pr using pe [OF that] by (simp add: own_peer_def)
    then show ?thesis by (simp cong: map_cong)
  qed
  have T0: "sum_l2 (\<lambda>t. if 0 < ref_cnt i t then {#Ctx (ctx_inter i t)#} else {#}) = {#}" by (simp add: r0 sum_l2_def)
  show ?thesis
  proof (cases "intra_offload i")
    case False
    then have n: "intra_info i = None" using ii by simp
    have "own_client env i c = {#}" if "c \<in> set (clients i)" for c
      using z [OF that] client_facts(3) [OF i that n] by (simp add: own_client_def sum_l2_def)
    then have "(\<Sum>c\<leftarrow>clients i. own_client env i c) = {#}" by (simp cong: map_cong)
    then have "own env i = {#}" using n p0 T0 by (simp add: own_def own_gen_def)
    then show ?thesis using False by simp
  next
    case True
    then obtain pr where pr: "intra_info i = Some pr" using ii by blast
    have p: "peer pr = m_p_iface i" "flt_wf (ip_assigned i) (set (macs i)) pr"
      using i pr by (auto simp: iface_ok_def rt_tbls_ok_def lists_ok_def)
    obtain pr' d1 where a: "clear_all_flt_rule_for_one_peer_iface env i pr d = (pr', d1)" by fastforce
    note m1 = clear_all_flt_moves [OF ok p(2) a]
    let ?i = "i\<lparr>intra_info := Some pr'\<rparr>"
    have oc: "own_client env ?i = own_client env i" by (simp add: own_client_def fun_eq_iff)
    have dc: "del_client_rt_rule env ?i pr' = del_client_rt_rule env ?i pr" by (simp add: del_client_rt_rule_def m1(2) fun_eq_iff)
    have "peer pr' = m_p_iface ?i" using p(1) m1(2) by simp
    from del_intra_moves [OF ok this, where cs = "clients i" and d = d1] z oc
    obtain cs d2 where r: "map_opt (\<lambda>c d. Some (del_client_rt_rule env ?i pr' c d)) (clients i) d1 = Some (cs, d2)"
      "moves hw failed d1 d2 (\<Sum>c\<leftarrow>clients i. own_client env i c) {#}" by auto
    let ?d = "eth_bridge_del_hdr_proc_ctx env (ctx_intra i) d2"
    have m3: "moves hw failed d2 ?d {#Ctx (ctx_intra i)#} {#}" by (rule eth_bridge_del_hdr_proc_ctx_moves [OF ok])
    have "own env i = own_peer pr + ((\<Sum>c\<leftarrow>clients i. own_client env i c) + {#Ctx (ctx_intra i)#})"
      using pr p0 T0 by (simp add: own_def own_gen_def)
    then have m: "moves hw failed d ?d (own env i) {#}" using moves_par [OF m1(1) moves_par [OF r(2) m3]] by simp
    have "intra_down env i d = Some (?i\<lparr>clients := cs\<rparr>, ?d)"
      using pr a r(1) r0 by (simp add: intra_down_def clear_all_rt_rule_for_one_peer_iface_def)
    then show ?thesis using True m by simp
  qed
qed

section \<open>The interface is taken off the list\<close>

definition without :: "nat \<Rightarrow> 'd \<Rightarrow> 'd l2l \<Rightarrow> 'd l2l" where
  "without p d s = s\<lparr>drv := d, m_iface := erase_first (\<lambda>i. m_p_iface i = p) (m_iface s)\<rparr>"

lemma erase_first_filter: "distinct (map k xs) \<Longrightarrow> erase_first (\<lambda>x. k x = p) xs = filter (\<lambda>x. k x \<noteq> p) xs"
proof (induction xs)
  case (Cons x xs)
  have "filter (\<lambda>y. k y \<noteq> k x) xs = xs" using Cons.prems by (auto simp: filter_id_conv image_iff)
  then show ?case using Cons by auto
qed simp

lemma without_put: "m_p_iface i = p \<Longrightarrow> distinct (names s) \<Longrightarrow> without p d (put_iface i s) = without p d s"
proof -
  assume i: "m_p_iface i = p" and d: "distinct (names s)"
  let ?g = "\<lambda>j. if m_p_iface j = m_p_iface i then i else j"
  have g: "m_p_iface (?g j) = m_p_iface j" for j by simp
  have dm: "distinct (map m_p_iface (map ?g (m_iface s)))" using d by (simp add: names_def comp_def g)
  have "filter (\<lambda>j. m_p_iface j \<noteq> p) (map ?g xs) = filter (\<lambda>j. m_p_iface j \<noteq> p) xs" for xs
    using i by (induction xs) auto
  then show ?thesis
    using erase_first_filter [OF dm, of p] erase_first_filter [of m_p_iface "m_iface s" p] d
    by (simp add: without_def put_iface_def names_def)
qed

lemma without_facts:
  assumes d: "distinct (names s)" and i: "find_iface p s = Some i"
  shows "find_iface q (without p e s) = (if q = p then None else find_iface q s)" and "set (names (without p e s)) = set (names s) - {p}"
    and "distinct (names (without p e s))" and "length (m_iface (without p e s)) \<le> length (m_iface s)"
    and "all_owned env s = own env i + all_owned env (without p e s)"
    and "m_cached_client_add_event (without p e s) = m_cached_client_add_event s" and "drv (without p e s) = e"
proof -
  have f: "m_iface (without p e s) = filter (\<lambda>i. m_p_iface i \<noteq> p) (m_iface s)"
    using erase_first_filter [of m_p_iface "m_iface s" p] d by (simp add: without_def names_def)
  have ff: "find Q (filter P xs) = find (\<lambda>x. P x \<and> Q x) xs" for P Q :: "l2l_iface \<Rightarrow> bool" and xs by (induction xs) auto
  have "find (\<lambda>i. m_p_iface i \<noteq> p \<and> m_p_iface i = q) (m_iface s) = (if q = p then None else find_iface q s)"
    by (cases "q = p") (auto simp: find_None_iff find_iface_def intro!: arg_cong [of _ _ "\<lambda>P. find P (m_iface s)"])
  then show "find_iface q (without p e s) = (if q = p then None else find_iface q s)" by (simp add: find_iface_def f ff)
  show "set (names (without p e s)) = set (names s) - {p}" by (auto simp: names_def f)
  show "distinct (names (without p e s))" using d by (simp add: names_def f distinct_map_filter)
  show "length (m_iface (without p e s)) \<le> length (m_iface s)" by (simp add: f)
  show "m_cached_client_add_event (without p e s) = m_cached_client_add_event s" "drv (without p e s) = e" by (simp_all add: without_def)
  obtain us vs where s: "m_iface s = us @ i # vs" "m_p_iface i = p" using i by (rule find_iface_split)
  then have "filter (\<lambda>i. m_p_iface i \<noteq> p) us = us" "filter (\<lambda>i. m_p_iface i \<noteq> p) vs = vs"
    using d by (auto simp: names_def filter_id_conv image_iff)
  then show "all_owned env s = own env i + all_owned env (without p e s)" using s by (simp add: all_owned_def f ac_simps)
qed


lemma one_facts:
  assumes d: "distinct (names s)" and i: "find_iface p s = Some i" and k: "m_p_iface k = p"
  shows "f k d = Some (k', d') \<Longrightarrow> m_p_iface k' = p \<Longrightarrow> on_iface p f (put_iface k (s\<lparr>drv := d\<rparr>)) = Some (put_iface k' (s\<lparr>drv := d'\<rparr>))"
    and "(put_iface k (s\<lparr>drv := d\<rparr>))\<lparr>m_iface := erase_first (\<lambda>i. m_p_iface i = p) (m_iface (put_iface k (s\<lparr>drv := d\<rparr>)))\<rparr> = without p d s"
proof -
  have d1: "distinct (names (s\<lparr>drv := d\<rparr>))" and i1: "find_iface p (s\<lparr>drv := d\<rparr>) = Some i" using d i by (simp_all add: names_def)
  note pf = put_iface_facts [OF d1 i1 k]
  show "on_iface p f (put_iface k (s\<lparr>drv := d\<rparr>)) = Some (put_iface k' (s\<lparr>drv := d'\<rparr>))" if "f k d = Some (k', d')" "m_p_iface k' = p"
    using pf(2) [of p] pf(5) that k by (simp add: on_iface_def put_drv put_put)
  have "without p d (put_iface k (s\<lparr>drv := d\<rparr>)) = without p d (s\<lparr>drv := d\<rparr>)" by (rule without_put [OF k d1])
  moreover have "(put_iface k (s\<lparr>drv := d\<rparr>))\<lparr>drv := d\<rparr> = put_iface k (s\<lparr>drv := d\<rparr>)" by (simp add: put_iface_def)
  ultimately show "(put_iface k (s\<lparr>drv := d\<rparr>))\<lparr>m_iface := erase_first (\<lambda>i. m_p_iface i = p) (m_iface (put_iface k (s\<lparr>drv := d\<rparr>)))\<rparr> = without p d s"
    by (simp add: without_def)
qed

text \<open>The state without the interface, when no other has it as a peer any more.\<close>

lemma without_ok:
  assumes s: "l2l_ok env s" and i: "find_iface p s = Some i0" and I: "down_loop hw failed env s p i0 [] s1"
    and i1: "find_iface p s1 = Some i1" and m: "moves hw failed (drv s1) d (own env i1) {#}"
  shows "steps_ok hw failed env s (without p d s1) \<and> set (names (without p d s1)) = set (names s) - {p}"
proof -
  let ?t = "without p d s1"
  have l: "linked_up s" using s by (simp add: l2l_ok_def)
  have sm: "smoves hw failed env s s1" and n: "names s1 = names s" and inv1: "l2l_inv env ((peers_of s1)(p := [])) s1"
    and oth: "\<forall>q j0. q \<noteq> p \<longrightarrow> find_iface q s = Some j0 \<longrightarrow> (\<exists>j. find_iface q s1 = Some j \<and> rest_ok j0 j \<and>
        peer ` set (peers j) = peer ` set (peers j0) - (if q \<in> set [] then {} else {p}))"
    by (insert I [unfolded down_loop_def], elim conjE, assumption)+
  have ds1: "distinct (names s1)" using inv1 by (simp add: l2l_inv_def)
  note W = without_facts [OF ds1 i1, where e = d]
  have fr: "moves hw failed (drv s1) d (all_owned env s1) (all_owned env ?t)"
    using moves_frame' [OF m, of "all_owned env ?t"] by (simp add: W(5))
  have "smoves hw failed env s1 ?t" unfolding smoves_def W(7) by (rule fr)
  then have sm': "smoves hw failed env s ?t" by (rule smoves_trans [OF sm])
  have other: "\<exists>j0. find_iface q s = Some j0 \<and> rest_ok j0 j \<and> peer ` set (peers j) = peer ` set (peers j0) - {p}"
    if j: "find_iface q s1 = Some j" "q \<noteq> p" for q j
  proof -
    obtain j0 where j0: "find_iface q s = Some j0" using j(1) n find_iface_None [of q s] find_iface_None [of q s1] by fastforce
    then show ?thesis using oth [rule_format, OF j(2) j0] j(1) by auto
  qed
  have ok1: "iface_ok env (peers_of ?t q) (macs_of ?t) (set (names ?t)) j" if q: "find_iface q ?t = Some j" for q j
  proof -
    have j: "find_iface q s1 = Some j" "q \<noteq> p" using q W(1) [of q] by (auto split: if_splits)
    have pj: "p \<notin> peer ` set (peers j)" using other [OF j] by auto
    have "peers_of ?t q = peers_of s1 q" using j W(1) [of q] by (simp add: peers_of_def)
    moreover have "macs_of ?t (peer pr) = macs_of s1 (peer pr)" if "pr \<in> set (peers j)" for pr
    proof -
      have "peer pr \<noteq> p" using pj that by auto
      then show ?thesis using W(1) [of "peer pr"] by (simp add: macs_of_def)
    qed
    ultimately show ?thesis
      using inv_iface [OF inv1 j(1)] j(2) pj W(2) by (auto simp: iface_ok_def lists_ok_def)
  qed
  have "l2l_inv env (peers_of ?t) ?t"
    using inv1 ok1 W(3,4,6) by (auto simp: l2l_inv_def)
  moreover have "linked_up ?t"
    unfolding linked_up_def
  proof (intro allI impI)
    fix q j assume q: "find_iface q ?t = Some j"
    have j: "find_iface q s1 = Some j" "q \<noteq> p" using q W(1) [of q] by (auto split: if_splits)
    obtain j0 where j0: "find_iface q s = Some j0" "rest_ok j0 j" "peer ` set (peers j) = peer ` set (peers j0) - {p}" using other [OF j] by blast
    have l0: "inter_offload j0 \<longrightarrow> peer ` set (peers j0) = {q'. q' \<noteq> q \<and> (\<exists>j. find_iface q' s = Some j \<and> inter_offload j)}"
      "intra_info j0 = None \<longleftrightarrow> \<not> intra_offload j0" using l j0(1) unfolding linked_up_def by blast+
    have off: "(\<exists>k. find_iface q' ?t = Some k \<and> inter_offload k) \<longleftrightarrow> q' \<noteq> p \<and> (\<exists>k. find_iface q' s = Some k \<and> inter_offload k)" for q'
    proof (cases "q' = p")
      case False
      show ?thesis
      proof (cases "find_iface q' s1")
        case None
        then have "find_iface q' s = None" using n by (simp add: find_iface_None)
        then show ?thesis using None False W(1) [of q'] by simp
      next
        case (Some k)
        then show ?thesis using other [OF Some False] False W(1) [of q'] by (auto simp: rest_ok_def)
      qed
    qed (simp add: W(1))
    have "{q'. q' \<noteq> q \<and> (\<exists>k. find_iface q' ?t = Some k \<and> inter_offload k)} =
        {q'. q' \<noteq> q \<and> (\<exists>j. find_iface q' s = Some j \<and> inter_offload j)} - {p}" unfolding off by blast
    then show "(inter_offload j \<longrightarrow> peer ` set (peers j) = {q'. q' \<noteq> q \<and> (\<exists>k. find_iface q' ?t = Some k \<and> inter_offload k)}) \<and>
      (intra_info j = None \<longleftrightarrow> \<not> intra_offload j)" using l0 j0(2,3) by (simp add: rest_ok_def)
  qed
  ultimately show ?thesis using sm' W(2) n by (simp add: steps_ok_def l2l_ok_def)
qed

section \<open>The event\<close>

lemma handle_iface_down_known:
  assumes ok: "driver_ok hw failed (dev env)" and s: "l2l_ok env s" and i: "find_iface p s = Some i"
  shows "lands G (\<lambda>s'. steps_ok hw failed env s s' \<and> set (names s') = set (names s) - {p}) (handle_iface_down env p s)"
proof -
  have inv: "l2l_inv env (peers_of s) s" and l: "linked_up s" using s by (simp_all add: l2l_ok_def)
  have ds: "distinct (names s)" using inv by (simp add: l2l_inv_def)
  note iok = inv_iface [OF inv i]
  have ii: "intra_info i = None \<longleftrightarrow> \<not> intra_offload i" using l i unfolding linked_up_def by blast
  note sym = linked_sym [OF inv l]
  have start: "down_loop hw failed env s p i (map peer (peers i)) s"
    unfolding down_loop_def
  proof (intro conjI allI impI)
    have "(peers_of s)(p := map peer (peers i)) = peers_of s" using i by (auto simp: peers_of_def fun_eq_iff)
    then show "l2l_inv env ((peers_of s)(p := map peer (peers i))) s" using inv by simp
    show "distinct (map peer (peers i))" using iok by (simp add: iface_ok_def lists_ok_def)
    show "\<exists>i'. find_iface p s = Some i' \<and> rest_ok i i' \<and> map peer (peers i') = map peer (peers i) \<and>
        (\<forall>x \<in> set (peers i'). peer x \<notin> set (map peer (peers i)) \<longrightarrow> flt_list x = [])"
      using i by (auto simp: rest_ok_def)
    fix q j0 assume q: "q \<noteq> p" "find_iface q s = Some j0"
    have "p \<notin> peer ` set (peers j0)" if "q \<notin> set (map peer (peers i))"
    proof
      assume "p \<in> peer ` set (peers j0)"
      then obtain k where "find_iface p s = Some k" "q \<in> peer ` set (peers k)" using sym [OF q(2)] by blast
      then show False using that i by simp
    qed
    then show "\<exists>j. find_iface q s = Some j \<and> rest_ok j0 j \<and>
        peer ` set (peers j) = peer ` set (peers j0) - (if q \<in> set (map peer (peers i)) then {} else {p})"
      using q(2) by (auto simp: rest_ok_def)
  qed simp_all
  let ?I = "down_loop hw failed env s p i []"
  have 1: "lands G ?I (if inter_offload i then fold_opt (down_peer env p) (map peer (peers i)) s else Some s)"
  proof (rule lands_if)
    show "lands G ?I (fold_opt (down_peer env p) (map peer (peers i)) s)"
      by (rule lands_fold [where I = "down_loop hw failed env s p i", OF start]) (rule down_peer_lands [OF ok _ sym [OF i]])
    assume "\<not> inter_offload i"
    then have "map peer (peers i) = []" using iok by (simp add: iface_ok_def lists_ok_def)
    then show "lands G ?I (Some s)" using start by simp
  qed
  let ?cl = "\<lambda>i d. Some (i\<lparr>clients := []\<rparr>, d)"
  let ?pc = "\<lambda>i d. Some (i\<lparr>peers := []\<rparr>, d)"
  let ?fin = "\<lambda>s. (case (if intra_offload i then on_iface p (intra_down env) s else Some s) of
                  None \<Rightarrow> None
                | Some s \<Rightarrow> (case on_iface p ?cl s of None \<Rightarrow> None
                   | Some s \<Rightarrow> Some (s\<lparr>m_iface := erase_first (\<lambda>i. m_p_iface i = p) (m_iface s)\<rparr>)))"
  have e: "handle_iface_down env p s =
    (case (if inter_offload i then fold_opt (down_peer env p) (map peer (peers i)) s else Some s) of
       None \<Rightarrow> None
     | Some s \<Rightarrow> (case (if inter_offload i then on_iface p ?pc s else Some s) of None \<Rightarrow> None | Some s \<Rightarrow> ?fin s))"
    using i by (simp add: handle_iface_down_def handle_down_event_def split: option.split)
  show ?thesis
    unfolding e
  proof (rule lands_bind [OF 1])
    fix s1 assume I: "?I s1"
    have n: "names s1 = names s" and inv1: "l2l_inv env ((peers_of s1)(p := [])) s1"
      and ex: "\<exists>i1. find_iface p s1 = Some i1 \<and> rest_ok i i1 \<and> map peer (peers i1) = map peer (peers i) \<and>
          (\<forall>x \<in> set (peers i1). peer x \<notin> set [] \<longrightarrow> flt_list x = [])"
      by (insert I [unfolded down_loop_def], elim conjE, assumption)+
    obtain i1 where i1: "find_iface p s1 = Some i1" "rest_ok i i1" "map peer (peers i1) = map peer (peers i)"
      "\<And>x. x \<in> set (peers i1) \<Longrightarrow> flt_list x = []" using ex by auto
    have i1ok: "iface_ok env [] (macs_of s1) (set (names s1)) i1" using inv_iface [OF inv1 i1(1)] by simp
    have n1: "m_p_iface i1 = p" by (rule find_iface_name [OF i1(1)])
    have ds1: "distinct (names s1)" using ds n by simp
    define i2 where "i2 = (if inter_offload i then i1\<lparr>peers := []\<rparr> else i1)"
    have s1: "s1 = put_iface i1 (s1\<lparr>drv := drv s1\<rparr>)" using put_same [OF i1(1) ds1] by simp
    have n2: "m_p_iface i2 = p" using n1 by (simp add: i2_def)
    note one = one_facts [OF ds1 i1(1)]
    let ?W = "\<lambda>k d. put_iface k (s1\<lparr>drv := d\<rparr>)"
    have "on_iface p ?pc (?W i1 (drv s1)) = Some (?W (i1\<lparr>peers := []\<rparr>) (drv s1))" by (rule one(1) [OF n1]) (simp_all add: n1)
    then have 2: "(if inter_offload i then on_iface p ?pc s1 else Some s1) = Some (?W i2 (drv s1))" using s1 by (simp add: i2_def)
    have i2: "iface_ok env [] (macs_of s1) (set (names s1)) i2" "intra_offload i2 = intra_offload i" "intra_info i2 = intra_info i"
      "\<And>x. x \<in> set (peers i2) \<Longrightarrow> flt_list x = []"
      using i1ok i1(2,4) by (auto simp: i2_def iface_ok_def rt_tbls_ok_def cnt_ok_def client_ok_def lists_ok_def macs_def rest_ok_def)
    have o2: "own env i2 = own env i1"
    proof -
      have "(\<Sum>pr\<leftarrow>peers i1. own_peer pr) = {#}"
      proof -
        have "own_peer pr = {#}" if "pr \<in> set (peers i1)" for pr using i1(4) [OF that] by (simp add: own_peer_def)
        then show ?thesis by (simp cong: map_cong)
      qed
      then show ?thesis by (simp add: i2_def own_def own_gen_def own_client_def cong: if_cong)
    qed
    have ii2: "intra_info i2 = None \<longleftrightarrow> \<not> intra_offload i2" using ii i2(2,3) by simp
    obtain i3 d3 where c: "(if intra_offload i2 then intra_down env i2 (drv s1) else Some (i2, drv s1)) = Some (i3, d3)" "m_p_iface i3 = p"
      "moves hw failed (drv s1) d3 (own env i2) {#}"
      using intra_down_moves [OF ok i2(1,4) ii2, of "drv s1"] n2 by blast
    have 3: "(if intra_offload i then on_iface p (intra_down env) (?W i2 (drv s1)) else Some (?W i2 (drv s1))) = Some (?W i3 d3)"
    proof (cases "intra_offload i")
      case True
      then have "intra_down env i2 (drv s1) = Some (i3, d3)" using c(1) i2(2) by simp
      from one(1) [where f = "intra_down env", OF n2 this c(2)] True show ?thesis by simp
    next
      case False
      then show ?thesis using c(1) i2(2) by simp
    qed
    have 4: "on_iface p ?cl (?W i3 d3) = Some (?W (i3\<lparr>clients := []\<rparr>) d3)" by (rule one(1) [OF c(2)]) (simp_all add: c(2))
    have n3: "m_p_iface (i3\<lparr>clients := []\<rparr>) = p" using c(2) by simp
    show "lands G (\<lambda>s'. steps_ok hw failed env s s' \<and> set (names s') = set (names s) - {p})
      (case (if inter_offload i then on_iface p ?pc s1 else Some s1) of None \<Rightarrow> None | Some s \<Rightarrow> ?fin s)"
      unfolding 2 option.case 3 4 one(2) [OF n3] lands_simps
      by (rule without_ok [OF s i I i1(1)]) (use c(3) o2 in simp)
  qed
qed

end
