(* ===== verification/L2l_Kinds.thy ===== *)
theory L2l_Kinds
  imports Lan_To_Lan
begin

text \<open>
  What an interface takes part in is decided when it comes up and never changes: forwarding within
  the interface exactly for a WLAN, between interfaces exactly if it is not a guest access point.
\<close>

definition kind_ok :: "'d l2l_env \<Rightarrow> l2l_iface \<Rightarrow> bool" where
  "kind_ok env i \<longleftrightarrow> (intra_offload i \<longleftrightarrow> ipa_if_cate (lans env (m_p_iface i)) = WLAN_IF) \<and>
     (inter_offload i \<longleftrightarrow> \<not> (ipa_if_cate (lans env (m_p_iface i)) = WLAN_IF \<and> m_is_guest_ap (lans env (m_p_iface i))))"

definition kinds_ok :: "'d l2l_env \<Rightarrow> 'd l2l \<Rightarrow> bool" where
  "kinds_ok env s \<longleftrightarrow> (\<forall>i \<in> set (m_iface s). kind_ok env i)"

definition same_kind :: "l2l_iface \<Rightarrow> l2l_iface \<Rightarrow> bool" where
  "same_kind i i' \<longleftrightarrow> m_p_iface i' = m_p_iface i \<and> intra_offload i' = intra_offload i \<and> inter_offload i' = inter_offload i"

definition keeps_kind :: "(l2l_iface \<Rightarrow> 'd \<Rightarrow> (l2l_iface \<times> 'd) option) \<Rightarrow> bool" where
  "keeps_kind f \<longleftrightarrow> (\<forall>i d i' d'. f i d = Some (i', d') \<longrightarrow> same_kind i i')"

definition keeps_kinds :: "'d l2l_env \<Rightarrow> ('d l2l \<Rightarrow> 'd l2l option) \<Rightarrow> bool" where
  "keeps_kinds env f \<longleftrightarrow> (\<forall>s s'. f s = Some s' \<longrightarrow> kinds_ok env s \<longrightarrow> kinds_ok env s')"

lemma keeps_kindD: "keeps_kind f \<Longrightarrow> f i d = Some (i', d') \<Longrightarrow> same_kind i i'"
  by (auto simp: keeps_kind_def)

lemma keeps_kindsD: "keeps_kinds env f \<Longrightarrow> f s = Some s' \<Longrightarrow> kinds_ok env s \<Longrightarrow> kinds_ok env s'"
  by (simp add: keeps_kinds_def)

lemma same_kind_ok: "same_kind i i' \<Longrightarrow> kind_ok env i \<Longrightarrow> kind_ok env i'"
  by (simp add: same_kind_def kind_ok_def)

lemma kinds_upd [simp]: "kinds_ok env (s\<lparr>drv := d\<rparr>) = kinds_ok env s" "kinds_ok env (s\<lparr>m_cached_client_add_event := c\<rparr>) = kinds_ok env s"
  by (simp_all add: kinds_ok_def)

lemma found_kind: "find_iface p s = Some i \<Longrightarrow> kinds_ok env s \<Longrightarrow> kind_ok env i \<and> m_p_iface i = p"
  by (auto simp: find_iface_def kinds_ok_def find_Some_iff)

lemma put_kinds: "kind_ok env i \<Longrightarrow> kinds_ok env s \<Longrightarrow> kinds_ok env (put_iface i s)"
  by (auto simp: kinds_ok_def put_iface_def)

lemma on_iface_kinds: "keeps_kind f \<Longrightarrow> keeps_kinds env (on_iface p f)"
  unfolding keeps_kinds_def on_iface_def
  by (auto split: option.splits intro!: put_kinds dest: found_kind keeps_kindD same_kind_ok)

lemma fold_kinds: "(\<And>x. x \<in> set xs \<Longrightarrow> keeps_kinds env (f x)) \<Longrightarrow> keeps_kinds env (fold_opt f xs)"
proof (induction xs)
  case (Cons x xs)
  then have "keeps_kinds env (f x)" "keeps_kinds env (fold_opt f xs)" by simp_all
  then show ?case unfolding keeps_kinds_def by (auto split: option.splits)
qed (simp add: keeps_kinds_def)

text \<open>Folds that carry a flag beside the state.\<close>

lemma fold_flag_kinds:
  assumes "\<And>x fl s fl' s'. f x (fl, s) = Some (fl', s') \<Longrightarrow> kinds_ok env s \<Longrightarrow> kinds_ok env s'"
    and "fold_opt f xs (fl, s) = Some (fl', s')" and "kinds_ok env s"
  shows "kinds_ok env s'"
  using assms(2,3)
proof (induction xs arbitrary: fl s)
  case (Cons x xs)
  obtain fl1 s1 where r: "f x (fl, s) = Some (fl1, s1)" "fold_opt f xs (fl1, s1) = Some (fl', s')"
    using Cons.prems(1) by (auto split: option.splits)
  show ?case by (rule Cons.IH [OF r(2) assms(1) [OF r(1) Cons.prems(2)]])
qed simp

section \<open>One interface\<close>

lemma at_peer_kind [simp]: "same_kind i (fst (at_peer q f i d))"
  by (simp add: at_peer_def same_kind_def split: prod.split)

lemma ctx_kind: "add_hdr_proc_ctx env t i d = Some (i', d') \<Longrightarrow> same_kind i i'" "same_kind i (fst (del_hdr_proc_ctx env t i d))"
  by (auto simp: add_hdr_proc_ctx_def del_hdr_proc_ctx_def same_kind_def split: if_splits option.splits)

lemma kind_trans: "same_kind i i1 \<Longrightarrow> same_kind i1 i2 \<Longrightarrow> same_kind i i2"
  by (simp add: same_kind_def)

lemma new_up_kind: "keeps_kind (iface_new_iface_up env a b q)"
  unfolding keeps_kind_def iface_new_iface_up_def increment_ref_cnt_peer_l2_hdr_type_def Let_def
  by (auto split: option.splits dest!: ctx_kind(1) simp: same_kind_def)

lemma new_rt_kind: "keeps_kind (add_client_rt_rule_for_new_iface env)"
  by (auto simp: keeps_kind_def add_client_rt_rule_for_new_iface_def same_kind_def split: list.splits if_splits option.splits)

lemma clear_rt_kind: "keeps_kind (clear_all_rt_rule_for_one_peer_iface env pr)"
  by (auto simp: keeps_kind_def clear_all_rt_rule_for_one_peer_iface_def same_kind_def split: if_splits option.splits)

lemma intra_info_kind: "keeps_kind (handle_intra_interface_info env)"
  by (auto simp: keeps_kind_def handle_intra_interface_info_def same_kind_def Let_def split: if_splits option.splits)

lemma intra_add_kind: "keeps_kind (intra_client_add env c)"
  by (auto simp: keeps_kind_def intra_client_add_def same_kind_def split: list.splits if_splits option.splits prod.splits)

lemma intra_del_kind: "keeps_kind (intra_client_del env c)"
  by (auto simp: keeps_kind_def intra_client_del_def same_kind_def split: option.splits prod.splits)

lemma all_intra_kind: "keeps_kind (add_all_intra_interface_client_flt_rule env ip)"
proof -
  have "same_kind i i'" if "fold_opt (\<lambda>c (i, d). at_intra (add_client_flt_rule env i c ip) i d) cs (i, d) = Some (i', d')" for cs i d i' d'
    using that
  proof (induction cs arbitrary: i d)
    case (Cons c cs)
    obtain i1 d1 where r: "at_intra (add_client_flt_rule env i c ip) i d = Some (i1, d1)"
      "fold_opt (\<lambda>c (i, d). at_intra (add_client_flt_rule env i c ip) i d) cs (i1, d1) = Some (i', d')"
      using Cons.prems by (auto split: option.splits)
    have "same_kind i i1" using r(1) by (auto simp: at_intra_def same_kind_def split: option.splits prod.splits)
    then show ?case using Cons.IH [OF r(2)] kind_trans by blast
  qed (simp add: same_kind_def)
  then show ?thesis by (auto simp: keeps_kind_def add_all_intra_interface_client_flt_rule_def)
qed

lemma drop_peer_kind: "keeps_kind (drop_peer env p)"
  unfolding keeps_kind_def
proof (intro allI impI)
  fix j j' :: l2l_iface and d d' assume r: "drop_peer env p j d = Some (j', d')"
  show "same_kind j j'"
  proof (cases "find (\<lambda>pr. peer pr = p) (peers j)")
    case (Some pr)
    then obtain d1 j2 d2 where c: "clear_all_rt_rule_for_one_peer_iface env pr j d1 = Some (j2, d2)"
      "j' = fst (del_hdr_proc_ctx env (l2_of env p) (j2\<lparr>peers := erase_first (\<lambda>pr. peer pr = p) (peers j2)\<rparr>) d2)"
      using r by (auto simp: drop_peer_def split: option.splits prod.splits)
    have "same_kind j j2" by (rule keeps_kindD [OF clear_rt_kind c(1)])
    moreover have "same_kind j2 (j2\<lparr>peers := erase_first (\<lambda>pr. peer pr = p) (peers j2)\<rparr>)" by (simp add: same_kind_def)
    ultimately have "same_kind j (j2\<lparr>peers := erase_first (\<lambda>pr. peer pr = p) (peers j2)\<rparr>)" by (rule kind_trans)
    then show ?thesis unfolding c(2) by (rule kind_trans [OF _ ctx_kind(2)])
  qed (use r in \<open>simp add: drop_peer_def same_kind_def\<close>)
qed

lemma intra_down_kind: "keeps_kind (intra_down env)"
  unfolding keeps_kind_def
proof (intro allI impI)
  fix i i' :: l2l_iface and d d' assume r: "intra_down env i d = Some (i', d')"
  then obtain pr d1 d2 where "clear_all_rt_rule_for_one_peer_iface env pr (i\<lparr>intra_info := Some pr\<rparr>) d1 = Some (i', d2)"
    by (auto simp: intra_down_def split: option.splits prod.splits)
  then have "same_kind (i\<lparr>intra_info := Some pr\<rparr>) i'" by (rule keeps_kindD [OF clear_rt_kind])
  then show "same_kind i i'" by (simp add: same_kind_def)
qed

section \<open>Several interfaces\<close>

lemma after_kinds:
  assumes "keeps_kinds env f" and "\<And>s. keeps_kinds env (g s)"
  shows "keeps_kinds env (\<lambda>s. case f s of None \<Rightarrow> None | Some s' \<Rightarrow> g s s')"
  using assms unfolding keeps_kinds_def by (auto split: option.splits)

lemma simple_kind [simp]: "keeps_kind (\<lambda>i d. Some (at_peer q (h i) i d))" "keeps_kind (\<lambda>i d. Some (i\<lparr>peers := pf i\<rparr>, d))"
  "keeps_kind (\<lambda>i d. Some (i\<lparr>clients := cf i\<rparr>, d))" "keeps_kind (\<lambda>i d. Some (i\<lparr>ip_assigned := af i\<rparr>, d))"
  "keeps_kind (\<lambda>i d. Some (decrement_ref_cnt_peer_l2_hdr_type t i, d))" "keeps_kind (\<lambda>i d. Some (add_one_client_flt_rule env p c i d))"
  "keeps_kind (\<lambda>i d. Some (del_one_client_flt_rule env p c i d))"
  unfolding keeps_kind_def add_one_client_flt_rule_def del_one_client_flt_rule_def
  by (metis at_peer_kind fst_conv option.inject) (auto simp: same_kind_def decrement_ref_cnt_peer_l2_hdr_type_def at_peer_def split: prod.splits)

lemma all_inter_kinds: "keeps_kinds env (add_all_inter_interface_client_flt_rule env ip p)"
proof -
  have "keeps_kinds env (\<lambda>s. case find_iface q s of None \<Rightarrow> None
      | Some j \<Rightarrow> fold_opt (\<lambda>c. on_iface p (\<lambda>i d. Some (at_peer q (add_client_flt_rule env i c ip) i d))) (map mac_addr (clients j)) s)" for q
    unfolding keeps_kinds_def using keeps_kindsD [OF fold_kinds [OF on_iface_kinds [OF simple_kind(1)]]]
    by (auto split: option.splits)
  note all = fold_kinds [where f = "\<lambda>q s. case find_iface q s of None \<Rightarrow> None
      | Some j \<Rightarrow> fold_opt (\<lambda>c. on_iface p (\<lambda>i d. Some (at_peer q (add_client_flt_rule env i c ip) i d))) (map mac_addr (clients j)) s", OF this]
  show ?thesis
    unfolding keeps_kinds_def add_all_inter_interface_client_flt_rule_def
    by (auto split: option.splits dest: keeps_kindsD [OF all])
qed

lemma new_up_kinds: "keeps_kinds env (handle_new_iface_up env new old)"
  unfolding handle_new_iface_up_def Let_def by (rule after_kinds; rule on_iface_kinds [OF new_up_kind])

lemma pair_up_kinds: "keeps_kinds env (pair_up env new old)"
  unfolding keeps_kinds_def pair_up_def
  by (auto split: option.splits if_splits dest: keeps_kindsD [OF new_up_kinds] keeps_kindsD [OF on_iface_kinds [OF new_rt_kind]])

lemma client_rt_kind:
  "keeps_kind (\<lambda>i d. case find (\<lambda>pr. peer pr = q) (peers i) of None \<Rightarrow> None
     | Some pr \<Rightarrow> (case clients i of [] \<Rightarrow> None
         | cl # cs \<Rightarrow> (case add_client_rt_rule env i pr cl d of None \<Rightarrow> None | Some (cl, d) \<Rightarrow> Some (i\<lparr>clients := cl # cs\<rparr>, d))))"
  "keeps_kind (\<lambda>i d. case find (\<lambda>pr. peer pr = q) (peers i) of None \<Rightarrow> None
     | Some pr \<Rightarrow> (case at_first (\<lambda>cl. mac_addr cl = c) (del_client_rt_rule env i pr) (clients i) d of (cs, d) \<Rightarrow> Some (i\<lparr>clients := cs\<rparr>, d)))"
  by (auto simp: keeps_kind_def same_kind_def split: option.splits list.splits prod.splits)

lemma client_add_peer_kinds: "client_add_peer env p c q (fl, s) = Some (fl', s') \<Longrightarrow> kinds_ok env s \<Longrightarrow> kinds_ok env s'"
  by (auto simp: client_add_peer_def Let_def split: option.splits if_splits
      dest: keeps_kindsD [OF on_iface_kinds [OF client_rt_kind(1)]] keeps_kindsD [OF on_iface_kinds [OF simple_kind(6)]])

lemma client_del_peer_kinds: "client_del_peer env p c q (fl, s) = Some (fl', s') \<Longrightarrow> kinds_ok env s \<Longrightarrow> kinds_ok env s'"
  by (auto simp: client_del_peer_def Let_def split: option.splits if_splits
      dest: keeps_kindsD [OF on_iface_kinds [OF client_rt_kind(2)]] keeps_kindsD [OF on_iface_kinds [OF simple_kind(7)]])

lemma client_add_kinds: "keeps_kinds env (iface_client_add env p c e)"
  unfolding keeps_kinds_def
proof (intro allI impI)
  fix s s' assume r: "iface_client_add env p c e s = Some s'" and k: "kinds_ok env s"
  show "kinds_ok env s'"
  proof (cases "find_iface p s")
    case (Some i)
    let ?s = "put_iface (i\<lparr>clients := \<lparr>mac_addr = c, inter_rt = (\<lambda>_ _. []), intra_rt = (\<lambda>_. []), ep = e\<rparr> # clients i\<rparr>) s"
    have p: "kinds_ok env ?s" by (rule put_kinds) (use found_kind [OF Some k] k in \<open>auto simp: kind_ok_def\<close>)
    have step: "kinds_ok env s1" if "fold_opt (client_add_peer env p c) xs (fl, ?s) = Some (fl1, s1)" for xs fl fl1 s1
      by (rule fold_flag_kinds [OF _ that p]) (rule client_add_peer_kinds)
    show ?thesis
    proof (cases "(\<exists>cl \<in> set (clients i). mac_addr cl = c) \<or> length (clients i) = MAX_NUM_CLIENT")
      case True
      then show ?thesis using r k Some by (auto simp: iface_client_add_def split: if_splits)
    next
      case False
      then obtain fl1 s1 where 1: "(if inter_offload i then fold_opt (client_add_peer env p c) (map peer (peers i)) (\<lambda>_. False, ?s)
          else Some (\<lambda>_. False, ?s)) = Some (fl1, s1)"
        and 2: "(if intra_offload i then on_iface p (intra_client_add env c) s1 else Some s1) = Some s'"
        using r Some by (auto simp: iface_client_add_def Let_def split: option.splits)
      have "kinds_ok env s1" using 1 step p by (simp split: if_splits)
      then show ?thesis using 2 keeps_kindsD [OF on_iface_kinds [OF intra_add_kind]] by (simp split: if_splits)
    qed
  qed (use r in \<open>simp add: iface_client_add_def\<close>)
qed

lemma client_del_kinds: "keeps_kinds env (iface_client_del env p c)"
  unfolding keeps_kinds_def
proof (intro allI impI)
  fix s s' assume r: "iface_client_del env p c s = Some s'" and k: "kinds_ok env s"
  have step: "kinds_ok env s1" if "fold_opt (client_del_peer env p c) xs (fl, s) = Some (fl1, s1)" for xs fl fl1 s1
    by (rule fold_flag_kinds [OF _ that k]) (rule client_del_peer_kinds)
  show "kinds_ok env s'"
  proof (cases "find_iface p s")
    case (Some i)
    show ?thesis
    proof (cases "\<exists>cl \<in> set (clients i). mac_addr cl = c")
      case True
      then obtain fl1 s1 s2 where
          1: "(if inter_offload i then fold_opt (client_del_peer env p c) (map peer (peers i)) (\<lambda>_. False, s) else Some (\<lambda>_. False, s)) = Some (fl1, s1)"
        and 2: "(if intra_offload i then on_iface p (intra_client_del env c) s1 else Some s1) = Some s2"
        and 3: "on_iface p (\<lambda>i d. Some (i\<lparr>clients := erase_first (\<lambda>cl. mac_addr cl = c) (clients i)\<rparr>, d)) s2 = Some s'"
        using r Some by (auto simp: iface_client_del_def split: option.splits)
      have "kinds_ok env s1" using 1 step k by (simp split: if_splits)
      then have "kinds_ok env s2" using 2 keeps_kindsD [OF on_iface_kinds [OF intra_del_kind]] by (simp split: if_splits)
      then show ?thesis by (rule keeps_kindsD [OF on_iface_kinds [OF simple_kind(3)] 3])
    qed (use r k Some in \<open>simp add: iface_client_del_def\<close>)
  qed (use r in \<open>simp add: iface_client_del_def\<close>)
qed

section \<open>Events\<close>

lemma down_peer_kinds: "keeps_kinds env (down_peer env p q)"
  unfolding down_peer_def
proof (intro after_kinds on_iface_kinds simple_kind drop_peer_kind)
  show "keeps_kind (\<lambda>i d. case find (\<lambda>pr. peer pr = q) (peers i) of None \<Rightarrow> None
    | Some pr \<Rightarrow> (case clear_all_rt_rule_for_one_peer_iface env pr i d of None \<Rightarrow> None
        | Some (i, d) \<Rightarrow> Some (del_hdr_proc_ctx env (l2_of env q) i d)))"
    unfolding keeps_kind_def
    by (auto split: option.splits) (metis ctx_kind(2) fst_conv keeps_kindD [OF clear_rt_kind] kind_trans)
qed

lemma down_kinds: "keeps_kinds env (handle_down_event env p)"
proof -
  have f: "keeps_kinds env (fold_opt (down_peer env p) xs)" for xs by (rule fold_kinds) (rule down_peer_kinds)
  note on = keeps_kindsD [OF on_iface_kinds [OF simple_kind(2)]] keeps_kindsD [OF on_iface_kinds [OF simple_kind(3)]]
    keeps_kindsD [OF on_iface_kinds [OF intra_down_kind]]
  show ?thesis
    unfolding keeps_kinds_def handle_down_event_def
    by (auto split: option.splits if_splits dest!: keeps_kindsD [OF f] on)
qed

lemma cached_kinds: "keeps_kinds env (handle_cached_client_add_event env p)"
proof -
  have "keeps_kinds env (handle_client_add env ev)" for ev
    unfolding keeps_kinds_def handle_client_add_def by (auto split: option.splits if_splits dest: keeps_kindsD [OF client_add_kinds])
  then have "keeps_kinds env (fold_opt (handle_client_add env) xs)" for xs by (rule fold_kinds)
  then show ?thesis unfolding keeps_kinds_def handle_cached_client_add_event_def by (auto split: option.splits)
qed

lemma family_up_kinds: "keeps_kinds env (family_up env p ip i)"
  unfolding keeps_kinds_def family_up_def
  by (auto split: option.splits if_splits dest!: keeps_kindsD [OF all_inter_kinds] keeps_kindsD [OF on_iface_kinds [OF all_intra_kind]]
      keeps_kindsD [OF on_iface_kinds [OF simple_kind(4)]])

lemma up_new_kinds: "keeps_kinds env (iface_up_new env p ip)"
  unfolding keeps_kinds_def
proof (intro allI impI)
  fix s s' assume r: "iface_up_new env p ip s = Some s'" and k: "kinds_ok env s"
  let ?i = "(new_iface env p)\<lparr>ip_assigned := (\<lambda>_. False)(ip := True)\<rparr>" let ?s = "s\<lparr>m_iface := ?i # m_iface s\<rparr>"
  have 0: "kinds_ok env ?s" using k by (simp add: kinds_ok_def kind_ok_def new_iface_def)
  have f: "keeps_kinds env (fold_opt (pair_up env p) xs)" for xs by (rule fold_kinds) (rule pair_up_kinds)
  have "kinds_ok env s1" if "fold_opt (pair_up env p) xs ?s = Some s1" for xs s1 by (rule keeps_kindsD [OF f that 0])
  then show "kinds_ok env s'" using r 0 unfolding iface_up_new_def Let_def
    by (auto split: option.splits if_splits dest!: keeps_kindsD [OF cached_kinds] keeps_kindsD [OF all_inter_kinds]
        keeps_kindsD [OF on_iface_kinds [OF intra_info_kind]])
qed

lemma event_kinds: "keeps_kinds env (l2l_event_callback env ev)"
proof (cases ev)
  case (IFACE_UP p ip)
  then show ?thesis unfolding keeps_kinds_def
    by (auto simp: handle_iface_up_def split: option.splits if_splits dest: keeps_kindsD [OF family_up_kinds] keeps_kindsD [OF up_new_kinds])
next
  case (IFACE_DOWN p)
  have "kinds_ok env s \<Longrightarrow> kinds_ok env (s\<lparr>m_iface := erase_first (\<lambda>i. m_p_iface i = p) (m_iface s)\<rparr>)" for s
  proof -
    have "set (erase_first P xs) \<subseteq> set xs" for P and xs :: "l2l_iface list" by (induction xs) auto
    then show "kinds_ok env s \<Longrightarrow> kinds_ok env (s\<lparr>m_iface := erase_first (\<lambda>i. m_p_iface i = p) (m_iface s)\<rparr>)"
      by (fastforce simp: kinds_ok_def)
  qed
  then show ?thesis using IFACE_DOWN unfolding keeps_kinds_def
    by (auto simp: handle_iface_down_def clear_cached_client_add_event_def split: option.splits dest: keeps_kindsD [OF down_kinds])
next
  case (CLIENT_ADD e)
  then show ?thesis unfolding keeps_kinds_def
    by (auto simp: handle_client_add_def split: option.splits if_splits dest: keeps_kindsD [OF client_add_kinds])
next
  case (CLIENT_DEL e)
  then show ?thesis unfolding keeps_kinds_def
    by (auto simp: handle_client_del_def split: option.splits dest: keeps_kindsD [OF client_del_kinds])
next
  case (SCC_MCC_SWITCH p)
  then show ?thesis unfolding keeps_kinds_def by (auto simp: handle_wlan_scc_mcc_switch_def split: option.splits)
qed

end
