(* ===== verification/L2l_Props.thy ===== *)
theory L2l_Props
  imports L2l_Down L2l_Kinds
begin

text \<open>All events of the LAN to LAN offload, in any order.\<close>

section \<open>The mode switch\<close>

lemma moves_sub: "moves hw failed d d' X X \<Longrightarrow> X \<subseteq># Y \<Longrightarrow> moves hw failed d d' Y Y"
  using moves_frame [of hw failed d d' X X "Y - X"] by (simp add: subset_mset.diff_add)

lemma moves_fold:
  assumes "\<And>x d. x \<in> set xs \<Longrightarrow> moves hw failed d (f x d) Y Y"
  shows "moves hw failed d (fold f xs d) Y Y"
  using assms by (induction xs arbitrary: d) (simp_all, metis moves_trans)

lemma own_client_sub: "c \<in> set (clients i) \<Longrightarrow> own_client env i c \<subseteq># own env i"
proof -
  assume "c \<in> set (clients i)"
  then obtain us vs where s: "clients i = us @ c # vs" by (metis split_list)
  have "own env i = own env (i\<lparr>clients := us @ c # vs\<rparr>)" using s by (metis l2l_iface.surjective l2l_iface.update_convs(8))
  then have "own env i = own_client env i c + own env (i\<lparr>clients := us @ vs\<rparr>)"
    using own_clients [of env "us @ c # vs" i] own_clients [of env "us @ vs" i] by (simp add: ac_simps)
  then show ?thesis by simp
qed

lemma rts_sub: "rts ip (tbl ip) m ctx (hs ip) \<subseteq># rt_info tbl m ctx hs"
  by (cases ip) (simp_all add: rt_info_def sum_ip_def)

lemma rt_info_sub:
  "rt_info (rt_tbl_name env t (l2_of env (m_p_iface i))) (mac_addr c) (ctx_inter i t) (inter_rt c t) \<subseteq># own_client env i c"
  "rt_info (intra_tbl_name env) (mac_addr c) (ctx_intra i) (intra_rt c) \<subseteq># own_client env i c"
  using sum_l2_split [of "\<lambda>t. rt_info (rt_tbl_name env t (l2_of env (m_p_iface i))) (mac_addr c) (ctx_inter i t) (inter_rt c t)" t]
  by (simp_all add: own_client_def add.assoc)

lemma modify_both_moves:
  assumes ok: "driver_ok hw failed (dev env)" and nz: "\<And>ip. 0 \<notin> set (hs c ip)"
    and sub: "rt_info tbl (mac_addr c) ctx (hs c) \<subseteq># Y"
  shows "moves hw failed d (modify_rt_both env lan ctx t hs c d) Y Y"
proof -
  have m: "moves hw failed d (snd (eth_bridge_modify_rt_rule env lan (mac_addr c) ctx t ip (hs c ip) d)) Y Y" for ip d
  proof -
    obtain r d' where "eth_bridge_modify_rt_rule env lan (mac_addr c) ctx t ip (hs c ip) d = (r, d')" by fastforce
    then show ?thesis
      using moves_sub [OF eth_bridge_modify_rt_rule_moves [OF ok nz, where tbl = "tbl ip"] subset_mset.order_trans [OF rts_sub sub]] by simp
  qed
  show ?thesis unfolding modify_rt_both_def by (rule moves_trans [OF m m])
qed

lemma scc_mcc_moves:
  assumes ok: "driver_ok hw failed (dev env)" and i: "iface_ok env R M N i"
  shows "moves hw failed d (iface_scc_mcc_switch env i d) (own env i) (own env i)"
proof -
  let ?Y = "own env i"
  let ?lan = "lans env (m_p_iface i)"
  have nz: "client_nz c" and sub: "own_client env i c \<subseteq># ?Y" if "c \<in> set (clients i)" for c
    using client_facts(1) [OF i that] own_client_sub [OF that] by simp_all
  have inter: "moves hw failed d (fold (modify_rt_both env ?lan (ctx_inter i t) t (\<lambda>c. inter_rt c t)) (clients i) d) ?Y ?Y" for t d
  proof (rule moves_fold)
    fix c d assume c: "c \<in> set (clients i)"
    show "moves hw failed d (modify_rt_both env ?lan (ctx_inter i t) t (\<lambda>c. inter_rt c t) c d) ?Y ?Y"
      by (rule modify_both_moves [OF ok]) (use nz [OF c] subset_mset.order_trans [OF rt_info_sub(1) sub [OF c]] in \<open>auto simp: client_nz_def\<close>)
  qed
  have intra: "moves hw failed d (fold (modify_rt_both env ?lan (ctx_intra i) t intra_rt) (clients i) d) ?Y ?Y" for t d
  proof (rule moves_fold)
    fix c d assume c: "c \<in> set (clients i)"
    show "moves hw failed d (modify_rt_both env ?lan (ctx_intra i) t intra_rt c d) ?Y ?Y"
      by (rule modify_both_moves [OF ok]) (use nz [OF c] subset_mset.order_trans [OF rt_info_sub(2) sub [OF c]] in \<open>auto simp: client_nz_def\<close>)
  qed
  let ?step = "\<lambda>pr (flag, d). (let t = l2_of env (peer pr) in
      if \<not> flag t then (flag(t := True), fold (modify_rt_both env ?lan (ctx_inter i t) t (\<lambda>c. inter_rt c t)) (clients i) d) else (flag, d))"
  have peers: "moves hw failed d (snd (fold ?step prs (flag, d))) ?Y ?Y" for prs flag d
  proof (induction prs arbitrary: flag d)
    case (Cons pr prs)
    obtain flag' d' where s: "?step pr (flag, d) = (flag', d')" by fastforce
    then have "moves hw failed d d' ?Y ?Y" using inter by (auto simp: Let_def split: if_splits)
    then show ?case using moves_trans [OF _ Cons.IH] s by simp
  qed simp
  show ?thesis
    unfolding iface_scc_mcc_switch_def Let_def
    using peers [of d "peers i" "\<lambda>_. False"] moves_trans [OF _ intra] intra by (auto simp: Let_def)
qed


section \<open>One event\<close>

lemma client_add_event_lands:
  assumes ok: "driver_ok hw failed (dev env)" and s: "l2l_ok env s"
  shows "lands (driver_grants (dev env)) (steps_ok hw failed env s) (handle_client_add env ev s)"
proof (cases "find_iface (ev_iface ev) s")
  case None
  let ?s = "s\<lparr>m_cached_client_add_event := ev # m_cached_client_add_event s\<rparr>"
  have fi: "find_iface q ?s = find_iface q s" for q by (simp add: find_iface_def)
  have "peers_of ?s = peers_of s" "macs_of ?s = macs_of s" "names ?s = names s" "all_owned env ?s = all_owned env s"
    by (simp_all add: fun_eq_iff peers_of_def macs_of_def fi names_def all_owned_def)
  then have "steps_ok hw failed env s ?s" if "length (m_cached_client_add_event s) < MAX_NUM_CACHED_CLIENT_ADD_EVENT"
    using s that by (simp add: steps_ok_def l2l_ok_def l2l_inv_def linked_up_def fi smoves_def)
  then show ?thesis using None steps_ok_refl [OF s] by (simp add: handle_client_add_def)
next
  case (Some i)
  have "lands (driver_grants (dev env)) (lkept hw failed env (peers_of s) s) (iface_client_add env (ev_iface ev) (ev_mac ev) (ev_ep ev) s)"
    using s by (intro iface_client_add_lands [OF ok _ _ Some]) (simp_all add: l2l_ok_def)
  then show ?thesis using Some by (simp add: handle_client_add_def lands_weaken steps_okI [OF s])
qed

lemma cached_filter_ok:
  assumes s: "l2l_ok env s"
  shows "steps_ok hw failed env s (clear_cached_client_add_event p s)"
proof -
  let ?s = "clear_cached_client_add_event p s"
  have fi: "find_iface q ?s = find_iface q s" for q by (simp add: find_iface_def clear_cached_client_add_event_def)
  have "peers_of ?s = peers_of s" "macs_of ?s = macs_of s" "names ?s = names s" "all_owned env ?s = all_owned env s" "drv ?s = drv s"
    "m_iface ?s = m_iface s"
    by (simp_all add: fun_eq_iff peers_of_def macs_of_def fi names_def all_owned_def) (simp_all add: clear_cached_client_add_event_def)
  moreover have "length (m_cached_client_add_event ?s) \<le> MAX_NUM_CACHED_CLIENT_ADD_EVENT"
    unfolding clear_cached_client_add_event_def
    by simp (rule le_trans [OF length_filter_le], use s in \<open>simp add: l2l_ok_def l2l_inv_def\<close>)
  ultimately show ?thesis
    using s by (simp add: steps_ok_def l2l_ok_def l2l_inv_def linked_up_def fi smoves_def)
qed

lemma l2l_event_lands:
  assumes ok: "driver_ok hw failed (dev env)" and lan: "\<And>p. lan_ok env (lans env p)" and s: "l2l_ok env s"
  shows "lands (driver_grants (dev env)) (steps_ok hw failed env s) (l2l_event_callback env ev s)"
proof (cases ev)
  case (IFACE_UP p ip)
  then show ?thesis using handle_iface_up_lands [OF ok s lan] by simp
next
  case (IFACE_DOWN p)
  show ?thesis
  proof (cases "find_iface p s")
    case None
    then show ?thesis using IFACE_DOWN cached_filter_ok [OF s] by (simp add: handle_iface_down_def)
  next
    case (Some i)
    show ?thesis using IFACE_DOWN lands_weaken [OF handle_iface_down_known [OF ok s Some]] by simp
  qed
next
  case (CLIENT_ADD e)
  then show ?thesis using client_add_event_lands [OF ok s] by simp
next
  case (CLIENT_DEL e)
  show ?thesis
  proof (cases "find_iface (ev_iface e) s")
    case None
    then show ?thesis using CLIENT_DEL steps_ok_refl [OF s] by (simp add: handle_client_del_def)
  next
    case (Some i)
    have "lands (driver_grants (dev env)) (lkept hw failed env (peers_of s) s) (iface_client_del env (ev_iface e) (ev_mac e) s)"
      using s by (intro iface_client_del_lands [OF ok _ _ Some]) (simp_all add: l2l_ok_def)
    then show ?thesis using Some CLIENT_DEL by (simp add: handle_client_del_def lands_weaken steps_okI [OF s])
  qed
next
  case (SCC_MCC_SWITCH p)
  show ?thesis
  proof (cases "find_iface p s")
    case None
    then show ?thesis using SCC_MCC_SWITCH steps_ok_refl [OF s] by (simp add: handle_wlan_scc_mcc_switch_def)
  next
    case (Some i)
    have inv: "l2l_inv env (peers_of s) s" using s by (simp add: l2l_ok_def)
    let ?d = "iface_scc_mcc_switch env i (drv s)"
    have "moves hw failed (drv s) ?d (own env i) (own env i)" by (rule scc_mcc_moves [OF ok inv_iface [OF inv Some]])
    moreover obtain us vs where "m_iface s = us @ i # vs" using Some by (rule find_iface_split)
    ultimately have "moves hw failed (drv s) ?d (all_owned env s) (all_owned env s)"
      using moves_sub [of hw failed "drv s" ?d "own env i" "all_owned env s"]
      by (simp add: all_owned_def add.left_commute [of _ "own env i"])
    moreover have fi: "find_iface q (s\<lparr>drv := ?d\<rparr>) = find_iface q s" for q by simp
    moreover have "peers_of (s\<lparr>drv := ?d\<rparr>) = peers_of s" "macs_of (s\<lparr>drv := ?d\<rparr>) = macs_of s" "names (s\<lparr>drv := ?d\<rparr>) = names s"
      "all_owned env (s\<lparr>drv := ?d\<rparr>) = all_owned env s"
      by (simp_all add: fun_eq_iff peers_of_def macs_of_def names_def all_owned_def)
    ultimately have "steps_ok hw failed env s (s\<lparr>drv := ?d\<rparr>)"
      using s by (simp add: steps_ok_def l2l_ok_def l2l_inv_def linked_up_def smoves_def)
    then show ?thesis using Some SCC_MCC_SWITCH by (simp add: handle_wlan_scc_mcc_switch_def)
  qed
qed

section \<open>Runs\<close>

lemma fold_opt_append: "fold_opt f (xs @ ys) s = (case fold_opt f xs s of None \<Rightarrow> None | Some s \<Rightarrow> fold_opt f ys s)"
  by (induction xs arbitrary: s) (auto split: option.split)

text \<open>Events in any order; the WLAN mode is that of the moment of the event.\<close>

definition l2l_run :: "'d l2l_env \<Rightarrow> (bool \<times> l2l_event) list \<Rightarrow> 'd l2l \<Rightarrow> 'd l2l option" where
  "l2l_run env = fold_opt (\<lambda>(mcc, ev). l2l_event_callback (env\<lparr>isMCC_Mode := mcc\<rparr>) ev)"

lemma mode_irrelevant [simp]:
  "own (env\<lparr>isMCC_Mode := b\<rparr>) = own env" "all_owned (env\<lparr>isMCC_Mode := b\<rparr>) = all_owned env"
  "l2l_ok (env\<lparr>isMCC_Mode := b\<rparr>) = l2l_ok env" "steps_ok hw failed (env\<lparr>isMCC_Mode := b\<rparr>) = steps_ok hw failed env"
proof -
  let ?e = "env\<lparr>isMCC_Mode := b\<rparr>"
  have l: "l2_of ?e = l2_of env" by (simp add: fun_eq_iff l2_of_def)
  have n: "rt_tbl_name ?e = rt_tbl_name env" "intra_tbl_name ?e = intra_tbl_name env"
    by (simp_all add: fun_eq_iff rt_tbl_name_def intra_tbl_name_def)
  show o: "own ?e = own env" by (simp add: fun_eq_iff own_def own_gen_def own_client_def l n cong: if_cong)
  show a: "all_owned ?e = all_owned env" by (simp add: fun_eq_iff all_owned_def o)
  have "iface_ok ?e = iface_ok env"
    by (simp add: fun_eq_iff iface_ok_def lan_ok_def rt_tbls_ok_def cnt_ok_def l n)
  then show k: "l2l_ok ?e = l2l_ok env" by (simp add: fun_eq_iff l2l_ok_def l2l_inv_def)
  show "steps_ok hw failed ?e = steps_ok hw failed env" by (simp add: fun_eq_iff steps_ok_def k smoves_def a)
qed

lemma l2l_run_lands:
  assumes ok: "driver_ok hw failed (dev env)" and lan: "\<And>p. lan_ok env (lans env p)" and s: "l2l_ok env s"
  shows "lands (driver_grants (dev env)) (steps_ok hw failed env s) (l2l_run env evs s)"
  unfolding l2l_run_def
proof (rule lands_all)
  fix x :: "bool \<times> l2l_event" and s1 assume "steps_ok hw failed env s s1"
  then have s1: "steps_ok hw failed env s s1" "l2l_ok env s1" by (simp_all add: steps_ok_def)
  obtain b ev where x: "x = (b, ev)" by fastforce
  let ?e = "env\<lparr>isMCC_Mode := b\<rparr>"
  have "lands (driver_grants (dev ?e)) (steps_ok hw failed ?e s1) (l2l_event_callback ?e ev s1)"
    by (rule l2l_event_lands) (use ok lan s1(2) in \<open>simp_all add: lan_ok_def\<close>)
  then show "lands (driver_grants (dev env)) (steps_ok hw failed env s) ((case x of (mcc, ev) \<Rightarrow> l2l_event_callback (env\<lparr>isMCC_Mode := mcc\<rparr>) ev) s1)"
    unfolding x by (auto intro: lands_weaken steps_ok_trans [OF s1(1)])
qed (rule steps_ok_refl [OF s])

lemma l2l_start_ok: "l2l_ok env (l2l_start d)"
  by (simp add: l2l_ok_def l2l_inv_def linked_up_def l2l_start_def names_def find_iface_def)


section \<open>A driver\<close>

text \<open>
  A driver with a table of entries, the next handle and a flag for a refused deletion. It deletes
  an entry only when its handle is unique. It shows that the laws can hold.
\<close>

type_synonym table = "u32 \<times> hw_entry list \<times> bool"

fun entry_key :: "hw_entry \<Rightarrow> nat \<times> ipa_ip_type \<times> u32" where
  "entry_key (Rt ip h tbl m c) = (0, ip, h)"
| "entry_key (Flt ip h m) = (1, ip, h)"
| "entry_key (Ctx h) = (2, IPA_IP_v4, h)"

definition fresh :: "u32 \<Rightarrow> nat \<Rightarrow> u32" where
  "fresh n i = (let h = n + of_nat i in if h = 0 then 1 else h)"

definition del_key :: "nat \<times> ipa_ip_type \<times> u32 \<Rightarrow> table \<Rightarrow> int \<times> table" where
  "del_key k d = (case d of (n, es, f) \<Rightarrow>
     if length (filter (\<lambda>e. entry_key e = k) es) = 1 then (0, (n, filter (\<lambda>e. entry_key e \<noteq> k) es, f))
     else (- 1, (n, es, True)))"

definition says :: "hw_entry list \<Rightarrow> ipa_ip_type \<Rightarrow> rt_rule \<Rightarrow> bool" where
  "says es ip r \<longleftrightarrow> list_ex (\<lambda>e. case e of Rt ip' h tbl m c \<Rightarrow> ip' = ip \<and> h = rt_rule_hdl r \<and> m = dst_mac_addr (rt_attrib r) \<and>
      c = rt_hdr_proc_ctx_hdl r | _ \<Rightarrow> False) es"

text \<open>\<open>v6\<close>: whether IPv6 routing rules are accepted.\<close>

definition table_dev :: "bool \<Rightarrow> table ipa_dev" where
  "table_dev v6 = \<lparr>rt_opened = True, hdr_opened = True, IPA_CLIENT_MAX = 100,
     IPA_FLT_MAC_DST_ADDR_ETHER_II = 0x8000, IPA_FLT_MAC_DST_ADDR_802_3 = 0x20000,
     ADD_RT_RULE = (\<lambda>ip tbl rules (n, es, f).
       if ip = IPA_IP_v6 \<and> \<not> v6 then ((- 1, \<lambda>_. 0), (n, es, True))
       else ((0, fresh n), (n + of_nat (length rules),
         map (\<lambda>i. Rt ip (fresh n i) tbl (dst_mac_addr (rt_attrib (rules ! i))) (rt_hdr_proc_ctx_hdl (rules ! i))) [0..<length rules] @ es, f))),
     MDFY_RT_RULE = (\<lambda>ip rules (n, es, f). (if list_all (says es ip) rules then 0 else - 1, (n, es, f))),
     COMMIT_RT = (\<lambda>ip d. (0, d)),
     DEL_RT_RULE = (\<lambda>ip h d. (case del_key (0, ip, h) d of (r, d) \<Rightarrow> ((r, 0), d))),
     GET_RT_TBL = (\<lambda>ip tbl d. ((0, 7), d)),
     PUT_RT_TBL = (\<lambda>h d. (0, d)),
     ADD_FLT_RULE_AFTER = (\<lambda>ip rule (n, es, f). ((0, fresh n 0), (n + 1, Flt ip (fresh n 0) (dst_mac_addr (flt_attrib rule)) # es, f))),
     DEL_FLT_RULE = (\<lambda>ip h d. (case del_key (1, ip, h) d of (r, d) \<Rightarrow> ((r, 0), d))),
     GET_HDR = (\<lambda>name d. ((0, 9), d)),
     ADD_HDR_PROC_CTX = (\<lambda>ty hdr (n, es, f). ((0, fresh n 0), (n + 1, Ctx (fresh n 0) # es, f))),
     DEL_HDR_PROC_CTX = (\<lambda>h. del_key (2, IPA_IP_v4, h))\<rparr>"

definition table_hw :: "table hw_view" where
  "table_hw d = mset (fst (snd d))"

definition table_failed :: "table \<Rightarrow> bool" where
  "table_failed d = snd (snd d)"

lemma fresh_nz [simp]: "fresh n i \<noteq> 0"
  by (simp add: fresh_def Let_def)

lemma del_key_ok:
  assumes "del_key k d = (r, d')"
  shows "table_failed d \<or> r \<noteq> 0 \<Longrightarrow> table_failed d'"
    and "r = 0 \<Longrightarrow> e \<in># table_hw d \<Longrightarrow> entry_key e = k \<Longrightarrow> table_hw d' = table_hw d - {#e#}"
proof -
  obtain n es f where d: "d = (n, es, f)" by (metis surj_pair)
  show "table_failed d \<or> r \<noteq> 0 \<Longrightarrow> table_failed d'"
    using assms by (auto simp: d del_key_def table_failed_def split: if_splits)
  assume r: "r = 0" "e \<in># table_hw d" "entry_key e = k"
  then have one: "length (filter (\<lambda>e. entry_key e = k) es) = 1" and d': "d' = (n, filter (\<lambda>e. entry_key e \<noteq> k) es, f)"
    using assms by (auto simp: d del_key_def split: if_splits)
  have "e \<in> set (filter (\<lambda>e. entry_key e = k) es)" using r by (simp add: d table_hw_def)
  then have "filter (\<lambda>e. entry_key e = k) es = [e]" using one by (cases "filter (\<lambda>e. entry_key e = k) es") auto
  then have "mset es = {#e#} + mset (filter (\<lambda>e. entry_key e \<noteq> k) es)"
    by (metis mset_filter mset_single_iff multiset_partition)
  then have "mset (filter (\<lambda>e. entry_key e \<noteq> k) es) = mset es - {#e#}" by (metis add_diff_cancel_left')
  then show "table_hw d' = table_hw d - {#e#}" by (simp add: d d' table_hw_def)
qed

lemma table_dev_ok: "driver_ok table_hw table_failed (table_dev v6)"
proof -
  have e: "fst (snd d) = es" if "d = (n, es, f)" for d :: table and n es f using that by simp
  have "rt_laws table_hw table_failed (table_dev v6)"
    unfolding rt_laws_def
  proof (intro conjI allI impI)
    fix ip tbl rules ret hdls and d d' :: table
    assume "ADD_RT_RULE (table_dev v6) ip tbl rules d = ((ret, hdls), d')"
    moreover obtain n es f where "d = (n, es, f)" by (metis surj_pair)
    ultimately show "table_failed d \<or> ret \<noteq> 0 \<Longrightarrow> table_failed d'" "ret = 0 \<Longrightarrow> table_hw d' = table_hw d + rt_entries ip tbl hdls rules"
      "ret = 0 \<Longrightarrow> i < length rules \<Longrightarrow> hdls i \<noteq> 0" for i
      by (auto simp: table_dev_def table_failed_def table_hw_def rt_entries_def split: if_splits)
  next
    fix ip h ret status and d d' :: table
    assume "DEL_RT_RULE (table_dev v6) ip h d = ((ret, status), d')"
    then have k: "del_key (0, ip, h) d = (ret, d')" and st: "status = 0" by (auto simp: table_dev_def split: prod.splits)
    show "table_failed d \<or> ret \<noteq> 0 \<or> status \<noteq> 0 \<Longrightarrow> table_failed d'" using del_key_ok(1) [OF k] st by blast
    show "ret = 0 \<and> status = 0 \<Longrightarrow> Rt ip h tbl m c \<in># table_hw d \<Longrightarrow> table_hw d' = table_hw d - {#Rt ip h tbl m c#}" for tbl m c
      using del_key_ok(2) [OF k, of "Rt ip h tbl m c"] by simp
  qed (auto simp: table_dev_def)
  moreover have "mdfy_law table_hw table_failed (table_dev v6)"
    by (auto simp: mdfy_law_def table_dev_def)
  moreover have "flt_laws table_hw table_failed (table_dev v6)"
    unfolding flt_laws_def
  proof (intro conjI allI impI)
    fix ip rule ret h and d d' :: table
    assume r: "ADD_FLT_RULE_AFTER (table_dev v6) ip rule d = ((ret, h), d')"
    moreover obtain n es f where "d = (n, es, f)" by (metis surj_pair)
    ultimately show "table_failed d \<Longrightarrow> table_failed d'"
      "if ret = 0 then table_hw d' = table_hw d + {#Flt ip h (dst_mac_addr (flt_attrib rule))#} \<and> h \<noteq> 0 else table_hw d' = table_hw d"
      by (auto simp: table_dev_def table_failed_def table_hw_def)
  next
    fix ip h ret status and d d' :: table
    assume "DEL_FLT_RULE (table_dev v6) ip h d = ((ret, status), d')"
    then have k: "del_key (1, ip, h) d = (ret, d')" and st: "status = 0" by (auto simp: table_dev_def split: prod.splits)
    show "table_failed d \<or> ret \<noteq> 0 \<or> status \<noteq> 0 \<Longrightarrow> table_failed d'" using del_key_ok(1) [OF k] st by blast
    show "ret = 0 \<and> status = 0 \<Longrightarrow> Flt ip h m \<in># table_hw d \<Longrightarrow> table_hw d' = table_hw d - {#Flt ip h m#}" for m
      using del_key_ok(2) [OF k, of "Flt ip h m"] by simp
  qed
  moreover have "hdr_laws table_hw table_failed (table_dev v6)"
    unfolding hdr_laws_def
  proof (intro conjI allI impI)
    fix h ret and d d' :: table
    assume "DEL_HDR_PROC_CTX (table_dev v6) h d = (ret, d')"
    then have k: "del_key (2, IPA_IP_v4, h) d = (ret, d')" by (simp add: table_dev_def)
    show "table_failed d \<or> ret \<noteq> 0 \<Longrightarrow> table_failed d'" by (rule del_key_ok(1) [OF k])
    show "ret = 0 \<Longrightarrow> Ctx h \<in># table_hw d \<Longrightarrow> table_hw d' = table_hw d - {#Ctx h#}" by (rule del_key_ok(2) [OF k]) simp_all
  qed (auto simp: table_dev_def table_failed_def table_hw_def)
  ultimately show ?thesis by (simp add: driver_ok_def table_dev_def)
qed


text \<open>A WLAN interface at address 1 and an Ethernet interface with 802.3 headers at address 2.\<close>

definition sample_attrib :: rule_attrib where
  "sample_attrib = \<lparr>attrib_mask = 0, dst_mac_addr = replicate 6 0, dst_mac_addr_mask = replicate 6 0, attrib_rest = []\<rparr>"

definition sample_lan :: "string \<Rightarrow> if_cate \<Rightarrow> l2_type \<Rightarrow> ipa_lan" where
  "sample_lan name cate t = \<lparr>dev_name = name, ipa_if_cate = cate, m_is_guest_ap = False,
     tx_props = map (\<lambda>ip. \<lparr>tx_ip = ip, dst_pipe = 3, alt_dst_pipe = 4, tx_attrib = sample_attrib, hdr_l2_type = t, hdr_name = name\<rparr>) [IPA_IP_v4, IPA_IP_v6],
     rx_props = [\<lparr>src_pipe = 5, rx_attrib = sample_attrib\<rparr>], eth_bridge_flt_rule_offset = (\<lambda>_. 0)\<rparr>"

definition sample_env :: "bool \<Rightarrow> table l2l_env" where
  "sample_env v6 = \<lparr>dev = table_dev v6, isMCC_Mode = False,
     lans = (\<lambda>p. if p = 1 then sample_lan ''wlan0'' WLAN_IF IPA_HDR_L2_ETHERNET_II else sample_lan ''eth0'' LAN_IF IPA_HDR_L2_802_3),
     IPA_RESOURCE_NAME_MAX = 32\<rparr>"

definition sample_events :: "(bool \<times> l2l_event) list" where
  "sample_events =
     [(False, IFACE_UP 1 IPA_IP_v4), (False, CLIENT_ADD \<lparr>ev_iface = 1, ev_mac = [1, 1, 1, 1, 1, 1], ev_ep = 0\<rparr>),
      (False, CLIENT_ADD \<lparr>ev_iface = 2, ev_mac = [2, 2, 2, 2, 2, 2], ev_ep = 0\<rparr>), (False, IFACE_UP 2 IPA_IP_v4),
      (True, SCC_MCC_SWITCH 1), (True, IFACE_UP 1 IPA_IP_v6),
      (True, CLIENT_ADD \<lparr>ev_iface = 1, ev_mac = [3, 3, 3, 3, 3, 3], ev_ep = 0\<rparr>),
      (True, CLIENT_DEL \<lparr>ev_iface = 1, ev_mac = [1, 1, 1, 1, 1, 1], ev_ep = 0\<rparr>)]"

lemma sample_lan_ok: "lan_ok (sample_env v6) (lans (sample_env v6) p)"
proof -
  have "lan_ok (sample_env v6) (sample_lan n c t)" for n c t
    unfolding lan_ok_def
  proof (intro conjI allI)
    show "each_client_rt_rule_count (sample_lan n c t) ip \<le> MAX_NUM_PROP" for ip
      by (cases ip) (simp_all add: each_client_rt_rule_count_def sample_lan_def MAX_NUM_PROP_def)
  qed (simp add: sample_lan_def sample_env_def table_dev_def)
  then show ?thesis by (simp add: sample_env_def)
qed

definition sample_run :: "table l2l option" where
  "sample_run = l2l_run (sample_env True) sample_events (l2l_start (1, [], False))"

lemma sample_run_result:
  "map_option (\<lambda>s. (map m_p_iface (m_iface s), length (fst (snd (drv s))), snd (snd (drv s)))) sample_run = Some ([2, 1], 14, False)"
  by code_simp


section \<open>Properties\<close>

lemma lands_Some: "lands True P r \<Longrightarrow> \<exists>s. r = Some s \<and> P s"
  by (cases r) simp_all

lemma run_ok:
  assumes "driver_ok hw failed (dev env)" and "\<forall>p. lan_ok env (lans env p)" and "l2l_run env evs (l2l_start d) = Some s"
  shows "l2l_ok env s" and "\<not> failed (drv s) \<Longrightarrow> hw (drv s) = hw d + all_owned env s"
proof -
  have st: "steps_ok hw failed env (l2l_start d) s"
    using l2l_run_lands [OF assms(1) _ l2l_start_ok, where evs = evs] assms(2,3) by (metis lands_simps(2))
  then show "l2l_ok env s" by (simp add: steps_ok_def)
  have z: "all_owned env (l2l_start d) = {#}" "drv (l2l_start d) = d" by (simp_all add: all_owned_def l2l_start_def)
  have m: "moves hw failed d (drv s) {#} (all_owned env s)" using st unfolding steps_ok_def smoves_def z by blast
  show "\<not> failed (drv s) \<Longrightarrow> hw (drv s) = hw d + all_owned env s" using m unfolding moves_def by simp
qed

lemma down_all_lands:
  assumes ok: "driver_ok hw failed (dev env)" and s: "l2l_ok env s"
  shows "lands True (\<lambda>s'. steps_ok hw failed env s s' \<and> set (names s') = set (names s) - set ps)
    (l2l_run env (map (\<lambda>p. (False, IFACE_DOWN p)) ps) s)"
  using s
proof (induction ps arbitrary: s)
  case Nil
  then show ?case by (simp add: l2l_run_def steps_ok_refl)
next
  case (Cons p ps)
  let ?e = "env\<lparr>isMCC_Mode := False\<rparr>"
  have k: "lands True (\<lambda>s'. steps_ok hw failed env s s' \<and> set (names s') = set (names s) - {p}) (handle_iface_down ?e p s)"
  proof (cases "find_iface p s")
    case None
    then show ?thesis
      using cached_filter_ok [OF Cons.prems, of hw failed p] find_iface_None [of p s]
      by (simp add: handle_iface_down_def) (simp add: names_def clear_cached_client_add_event_def)
  next
    case (Some i)
    have "l2l_ok ?e s" "driver_ok hw failed (dev ?e)" using Cons.prems ok by simp_all
    from handle_iface_down_known [OF this(2,1) Some] show ?thesis by simp
  qed
  have "l2l_run env (map (\<lambda>p. (False, IFACE_DOWN p)) (p # ps)) s =
      (case handle_iface_down ?e p s of None \<Rightarrow> None | Some s \<Rightarrow> l2l_run env (map (\<lambda>p. (False, IFACE_DOWN p)) ps) s)"
    by (simp add: l2l_run_def split: option.split)
  also have "lands True (\<lambda>s'. steps_ok hw failed env s s' \<and> set (names s') = set (names s) - set (p # ps)) \<dots>"
  proof (rule lands_bind [OF k])
    fix s1 assume s1: "steps_ok hw failed env s s1 \<and> set (names s1) = set (names s) - {p}"
    then have "l2l_ok env s1" by (simp add: steps_ok_def)
    from Cons.IH [OF this] show "lands True (\<lambda>s'. steps_ok hw failed env s s' \<and> set (names s') = set (names s) - set (p # ps))
        (l2l_run env (map (\<lambda>p. (False, IFACE_DOWN p)) ps) s1)"
      by (rule lands_weaken) (use s1 steps_ok_trans in auto)
  qed
  finally show ?case .
qed

text \<open>
  C4: After any sequence of events (interfaces and address families come up and go down, clients
  come and go, the WLAN switches its mode) the hardware holds, beside what it held before, exactly
  the routing rules, filter rules and header processing contexts that the lists of
  interfaces, clients and peers have handles of, unless the driver has refused an addition or a deletion of
  them: nothing leaks and no handle is stale.
\<close>
theorem l2l_hw_in_sync:
  assumes "driver_ok hw failed (dev env)" and "\<forall>p. lan_ok env (lans env p)"
    and "l2l_run env evs (l2l_start d) = Some s" and "\<not> failed (drv s)"
  shows "hw (drv s) = hw d + all_owned env s"
  using run_ok(2) [OF assms(1-3)] assms(4) by blast

lemma sample_run_some:
  "sample_run = Some (the sample_run)" "snd (snd (drv (the sample_run))) = False"
  "length (fst (snd (drv (the sample_run)))) = 14" "map m_p_iface (m_iface (the sample_run)) = [2, 1]"
proof -
  obtain s where s: "sample_run = Some s" "(map m_p_iface (m_iface s), length (fst (snd (drv s))), snd (snd (drv s))) = ([2, 1], 14, False)"
    using sample_run_result unfolding map_option_eq_Some by (elim exE conjE)
  have e: "the sample_run = s" by (simp only: s(1) option.sel)
  show "sample_run = Some (the sample_run)" unfolding e by (rule s(1))
  show "snd (snd (drv (the sample_run))) = False" "length (fst (snd (drv (the sample_run)))) = 14" "map m_p_iface (m_iface (the sample_run)) = [2, 1]"
    unfolding e using s(2) by (simp_all only: prod.inject)
qed

theorem l2l_hw_in_sync_witness:
  "mset (fst (snd (drv (the sample_run)))) = all_owned (sample_env True) (the sample_run) \<and>
     size (all_owned (sample_env True) (the sample_run)) = 14"
proof -
  have "table_hw (drv (the sample_run)) = table_hw (1, [], False) + all_owned (sample_env True) (the sample_run)"
  proof (rule l2l_hw_in_sync [where hw = table_hw and failed = table_failed and evs = sample_events])
    show "driver_ok table_hw table_failed (dev (sample_env True))" using table_dev_ok by (simp add: sample_env_def)
    show "l2l_run (sample_env True) sample_events (l2l_start (1, [], False)) = Some (the sample_run)"
      unfolding sample_run_def [symmetric] by (rule sample_run_some(1))
  qed (simp_all add: sample_lan_ok table_failed_def sample_run_some(2))
  then have e: "mset (fst (snd (drv (the sample_run)))) = all_owned (sample_env True) (the sample_run)" by (simp add: table_hw_def)
  then show ?thesis using sample_run_some(3) by (metis size_mset)
qed

text \<open>
  C9: When the interfaces that are left go down one after the other, in any order that names all of
  them, every call returns, no interface is left, and the hardware is as it was before the first
  event, unless the driver has refused a request.
\<close>
theorem l2l_down_leaves_nothing:
  assumes "driver_ok hw failed (dev env)" and "\<forall>p. lan_ok env (lans env p)"
    and "l2l_run env evs (l2l_start d) = Some s" and "set (map m_p_iface (m_iface s)) \<subseteq> set ps"
  shows "\<exists>s'. l2l_run env (map (\<lambda>p. (False, IFACE_DOWN p)) ps) s = Some s' \<and> m_iface s' = [] \<and>
     (\<not> failed (drv s') \<longrightarrow> hw (drv s') = hw d)"
proof -
  have ok: "l2l_ok env s" by (rule run_ok(1) [OF assms(1-3)])
  obtain s' where s': "l2l_run env (map (\<lambda>p. (False, IFACE_DOWN p)) ps) s = Some s'" "set (names s') = set (names s) - set ps"
    using lands_Some [OF down_all_lands [OF assms(1) ok, of ps]] by blast
  have "set (names s') = {}" unfolding s'(2) using assms(4) by (simp only: names_def Diff_eq_empty_iff)
  then have e: "m_iface s' = []" by (simp add: names_def)
  have "l2l_run env (evs @ map (\<lambda>p. (False, IFACE_DOWN p)) ps) (l2l_start d) = Some s'"
    using s'(1) assms(3) by (simp add: l2l_run_def fold_opt_append)
  from run_ok(2) [OF assms(1,2) this] have "\<not> failed (drv s') \<Longrightarrow> hw (drv s') = hw d" using e by (simp add: all_owned_def)
  then show ?thesis using s'(1) e by blast
qed

theorem l2l_down_leaves_nothing_witness:
  "\<exists>s'. l2l_run (sample_env True) [(False, IFACE_DOWN 1), (False, IFACE_DOWN 2)] (the sample_run) = Some s' \<and> m_iface s' = [] \<and>
     (\<not> snd (snd (drv s')) \<longrightarrow> fst (snd (drv s')) = [])"
proof -
  have "\<exists>s'. l2l_run (sample_env True) (map (\<lambda>p. (False, IFACE_DOWN p)) [1, 2]) (the sample_run) = Some s' \<and> m_iface s' = [] \<and>
     (\<not> table_failed (drv s') \<longrightarrow> table_hw (drv s') = table_hw (1, [], False))"
  proof (rule l2l_down_leaves_nothing [where evs = sample_events])
    show "driver_ok table_hw table_failed (dev (sample_env True))" using table_dev_ok by (simp add: sample_env_def)
    show "l2l_run (sample_env True) sample_events (l2l_start (1, [], False)) = Some (the sample_run)"
      unfolding sample_run_def [symmetric] by (rule sample_run_some(1))
    show "set (map m_p_iface (m_iface (the sample_run))) \<subseteq> set [1, 2]" unfolding sample_run_some(4) by simp
  qed (simp add: sample_lan_ok)
  then show ?thesis by (simp add: table_failed_def table_hw_def)
qed

lemma run_kinds: "l2l_run env evs s = Some s' \<Longrightarrow> kinds_ok env s \<Longrightarrow> kinds_ok env s'"
proof -
  have k: "kinds_ok (env\<lparr>isMCC_Mode := b\<rparr>) = kinds_ok env" for b by (simp add: fun_eq_iff kinds_ok_def kind_ok_def)
  have "keeps_kinds env (case x of (mcc, ev) \<Rightarrow> l2l_event_callback (env\<lparr>isMCC_Mode := mcc\<rparr>) ev)" for x
    using event_kinds [of "env\<lparr>isMCC_Mode := fst x\<rparr>" "snd x"] by (simp add: keeps_kinds_def k split_beta)
  then have "keeps_kinds env (l2l_run env evs)" unfolding l2l_run_def by (rule fold_kinds)
  then show "l2l_run env evs s = Some s' \<Longrightarrow> kinds_ok env s \<Longrightarrow> kinds_ok env s'" by (rule keeps_kindsD)
qed

text \<open>
  C24: The lists keep their shape through every sequence of events: at most 10 interfaces and 10 cached
  events, no interface twice, at most 16 clients in an interface and none twice, a reference
  count for each header type that is the number of peers of this type, no peer twice, none of them the interface itself, and the information for
  rules within the interface exactly where it is a WLAN.
\<close>
theorem l2l_shape:
  assumes "driver_ok hw failed (dev env)" and "\<forall>p. lan_ok env (lans env p)"
    and "l2l_run env evs (l2l_start d) = Some s"
  shows "length (m_iface s) \<le> 10 \<and> length (m_cached_client_add_event s) \<le> 10 \<and> distinct (map m_p_iface (m_iface s)) \<and>
    (\<forall>i \<in> set (m_iface s). length (clients i) \<le> 16 \<and> distinct (map mac_addr (clients i)) \<and>
       distinct (map peer (peers i)) \<and> m_p_iface i \<notin> set (map peer (peers i)) \<and>
       (\<forall>t. ref_cnt i t = int (length (filter (\<lambda>pr. l2_of env (peer pr) = t) (peers i)))) \<and>
       (intra_info i \<noteq> None \<longleftrightarrow> ipa_if_cate (lans env (m_p_iface i)) = WLAN_IF))"
proof -
  have inv: "l2l_inv env (peers_of s) s" and l: "linked_up s" using run_ok(1) [OF assms] by (simp_all add: l2l_ok_def)
  have "length (clients i) \<le> 16 \<and> distinct (map mac_addr (clients i)) \<and>
       distinct (map peer (peers i)) \<and> m_p_iface i \<notin> set (map peer (peers i)) \<and>
       (\<forall>t. ref_cnt i t = int (length (filter (\<lambda>pr. l2_of env (peer pr) = t) (peers i)))) \<and>
       (intra_info i \<noteq> None \<longleftrightarrow> ipa_if_cate (lans env (m_p_iface i)) = WLAN_IF)" if m: "i \<in> set (m_iface s)" for i
  proof -
    have i: "find_iface (m_p_iface i) s = Some i" using m find_iface_mem [of s i] inv by (simp add: l2l_inv_def)
    have ok: "iface_ok env (peers_of s (m_p_iface i)) (macs_of s) (set (names s)) i" by (rule inv_iface [OF inv i])
    have "length (filter (\<lambda>q. l2_of env q = t) (map peer (peers i))) = length (filter (\<lambda>pr. l2_of env (peer pr) = t) (peers i))" for t
      by (simp add: filter_map comp_def)
    moreover have "intra_info i = None \<longleftrightarrow> \<not> intra_offload i" using l i unfolding linked_up_def by blast
    moreover have "intra_offload i \<longleftrightarrow> ipa_if_cate (lans env (m_p_iface i)) = WLAN_IF"
      using run_kinds [OF assms(3)] m by (simp add: kinds_ok_def kind_ok_def l2l_start_def)
    ultimately show ?thesis
      using ok i by (auto simp: iface_ok_def lists_ok_def cnt_ok_def macs_def peers_of_def MAX_NUM_CLIENT_def)
  qed
  then show ?thesis
    using inv by (simp add: l2l_inv_def names_def MAX_NUM_IFACE_def MAX_NUM_CACHED_CLIENT_ADD_EVENT_def)
qed

theorem l2l_shape_witness:
  "length (m_iface (the sample_run)) \<le> 10 \<and> distinct (map m_p_iface (m_iface (the sample_run)))"
proof -
  have "driver_ok table_hw table_failed (dev (sample_env True))" using table_dev_ok by (simp add: sample_env_def)
  moreover have "l2l_run (sample_env True) sample_events (l2l_start (1, [], False)) = Some (the sample_run)"
    unfolding sample_run_def [symmetric] by (rule sample_run_some(1))
  ultimately show ?thesis using l2l_shape [of table_hw table_failed "sample_env True" sample_events] sample_lan_ok by blast
qed

text \<open>
  C11: With a driver that grants what it is asked for, no sequence of events makes the
  offload use a dangling pointer or a value that was never written, and two different interfaces that are up are peers of each other
  exactly when both take part in the forwarding between interfaces.
\<close>
theorem l2l_never_faults:
  assumes "driver_ok hw failed (dev env)" and "\<forall>p. lan_ok env (lans env p)" and "driver_grants (dev env)"
  shows "\<exists>s. l2l_run env evs (l2l_start d) = Some s \<and>
     (\<forall>i \<in> set (m_iface s). \<forall>j \<in> set (m_iface s). m_p_iface i \<noteq> m_p_iface j \<longrightarrow>
        (m_p_iface j \<in> set (map peer (peers i)) \<longleftrightarrow> inter_offload i \<and> inter_offload j))"
proof -
  have "lands (driver_grants (dev env)) (steps_ok hw failed env (l2l_start d)) (l2l_run env evs (l2l_start d))"
    using l2l_run_lands [OF assms(1) _ l2l_start_ok] assms(2) by blast
  then obtain s where s: "l2l_run env evs (l2l_start d) = Some s" using lands_Some assms(3) by force
  have inv: "l2l_inv env (peers_of s) s" and l: "linked_up s" using run_ok(1) [OF assms(1,2) s] by (simp_all add: l2l_ok_def)
  have "m_p_iface j \<in> set (map peer (peers i)) \<longleftrightarrow> inter_offload i \<and> inter_offload j"
    if m: "i \<in> set (m_iface s)" "j \<in> set (m_iface s)" "m_p_iface i \<noteq> m_p_iface j" for i j
  proof -
    have i: "find_iface (m_p_iface i) s = Some i" and j: "find_iface (m_p_iface j) s = Some j"
      using m find_iface_mem [of s] inv by (simp_all add: l2l_inv_def)
    have "inter_offload i \<longrightarrow> peer ` set (peers i) = {q. q \<noteq> m_p_iface i \<and> (\<exists>j. find_iface q s = Some j \<and> inter_offload j)}"
      using l i unfolding linked_up_def by blast
    moreover have "\<not> inter_offload i \<longrightarrow> peers i = []" using inv_iface [OF inv i] by (simp add: iface_ok_def lists_ok_def)
    ultimately show ?thesis using j m(3) by (cases "inter_offload i") auto
  qed
  then show ?thesis using s by blast
qed

lemma table_grants: "driver_grants (table_dev True)"
  by (auto simp: driver_grants_def table_dev_def split: prod.split)

theorem l2l_never_faults_witness:
  "\<exists>s. sample_run = Some s \<and>
     (\<forall>i \<in> set (m_iface s). \<forall>j \<in> set (m_iface s). m_p_iface i \<noteq> m_p_iface j \<longrightarrow>
        (m_p_iface j \<in> set (map peer (peers i)) \<longleftrightarrow> inter_offload i \<and> inter_offload j))"
  unfolding sample_run_def
proof (rule l2l_never_faults [where hw = table_hw and failed = table_failed])
  show "driver_ok table_hw table_failed (dev (sample_env True))" using table_dev_ok by (simp add: sample_env_def)
  show "driver_grants (dev (sample_env True))" using table_grants by (simp add: sample_env_def)
qed (simp add: sample_lan_ok)

text \<open>
  When the driver accepts the IPv4 rules of a client and refuses the IPv6 ones, the offload
  keeps the IPv4 handles for IPv6, too, as the two calls write the same variables: when the client
  goes, the IPv4 handles are also deleted as IPv6 rules.
\<close>
theorem refused_v6_rules_keep_v4_handles:
  assumes "peer pr \<noteq> m_p_iface i" and "t = l2_of env (peer pr)"
    and "eth_bridge_add_rt_rule env (lans env (m_p_iface i)) (mac_addr c) (rt_tbl_name_for_rt pr IPA_IP_v4) (ctx_inter i t) t IPA_IP_v4 d = (Some v4, d1)"
    and "eth_bridge_add_rt_rule env (lans env (m_p_iface i)) (mac_addr c) (rt_tbl_name_for_rt pr IPA_IP_v6) (ctx_inter i t) t IPA_IP_v6 d1 = (None, d2)"
  shows "\<exists>c'. add_client_rt_rule env i pr c d = Some (c', d2) \<and> inter_rt c' t IPA_IP_v4 = v4 \<and> inter_rt c' t IPA_IP_v6 = v4 \<and>
     (\<forall>e. snd (del_client_rt_rule env i pr c' e) =
        fold (\<lambda>h. eth_bridge_del_rt_rule env h IPA_IP_v6) v4 (fold (\<lambda>h. eth_bridge_del_rt_rule env h IPA_IP_v4) v4 e))"
  using assms by (simp add: add_client_rt_rule_def add_rt_both_def Let_def del_client_rt_rule_def del_rt_both_def)

text \<open>One client, added to the interface 1 for the peer 2, with a driver that refuses IPv6 rules.\<close>

definition sample_iface :: l2l_iface where
  "sample_iface = (new_iface (sample_env False) 1)\<lparr>ctx_inter := (\<lambda>_. 6)\<rparr>"

definition sample_peer :: peer_iface_info where
  "sample_peer = \<lparr>peer = 2, rt_tbl_name_for_rt = (\<lambda>_. ''rt''), rt_tbl_name_for_flt = (\<lambda>_. ''flt''), flt_list = []\<rparr>"

definition sample_client :: client_info where
  "sample_client = \<lparr>mac_addr = [1, 1, 1, 1, 1, 1], inter_rt = (\<lambda>_ _. []), intra_rt = (\<lambda>_. []), ep = 0\<rparr>"

theorem refused_v6_rules_keep_v4_handles_witness:
  "\<exists>c'. add_client_rt_rule (sample_env False) sample_iface sample_peer sample_client (1, [], False) =
       Some (c', (2, [Rt IPA_IP_v4 1 ''rt'' [1, 1, 1, 1, 1, 1] 6], True)) \<and> inter_rt c' IPA_HDR_L2_802_3 IPA_IP_v6 = [1]"
proof -
  have "\<exists>c'. add_client_rt_rule (sample_env False) sample_iface sample_peer sample_client (1, [], False) =
       Some (c', (2, [Rt IPA_IP_v4 1 ''rt'' [1, 1, 1, 1, 1, 1] 6], True)) \<and>
     inter_rt c' IPA_HDR_L2_802_3 IPA_IP_v4 = [1] \<and> inter_rt c' IPA_HDR_L2_802_3 IPA_IP_v6 = [1] \<and>
     (\<forall>e. snd (del_client_rt_rule (sample_env False) sample_iface sample_peer c' e) =
        fold (\<lambda>h. eth_bridge_del_rt_rule (sample_env False) h IPA_IP_v6) [1] (fold (\<lambda>h. eth_bridge_del_rt_rule (sample_env False) h IPA_IP_v4) [1] e))"
    by (rule refused_v6_rules_keep_v4_handles) code_simp+
  then show ?thesis by blast
qed

end
