(* ===== verification/Ipa_Neighbor.thy ===== *)
theory Ipa_Neighbor
  imports Ipa_Prelude
begin

text \<open>
  The neighbour cache of ipacm (\<open>ipacm/src/IPACM_Neighbor.cpp\<close>) and the look-up of IPA interfaces
  it uses (\<open>iface_ipa_index_query\<close> of \<open>IPACM_Iface.cpp\<close>). The kernel announces a neighbour on the
  bridge by its MAC address and IP address only; the cache remembers behind which interface a
  MAC address was seen, so that the announcement can be forwarded with the right interface.

  The cache is an array of 100 entries of which the first \<open>num_neighbor_client\<close> are in use; when
  it is full \<open>circular_index\<close> names the entry that is overwritten next. The names of interfaces are
  C strings of less than 16 characters. The answer of the ioctl \<open>SIOCGIFNAME\<close> and of \<open>malloc\<close>
  are arguments. The posted events are appended to \<open>nb_posted\<close>.
\<close>

type_synonym nb_mac = "u8 list"

definition IPA_MAX_NUM_NEIGHBOR_CLIENTS :: nat where "IPA_MAX_NUM_NEIGHBOR_CLIENTS = 100"
definition IPA_IFACE_NAME_LEN :: nat where "IPA_IFACE_NAME_LEN = 16"
definition IPV4_ADDR_LINKLOCAL :: u32 where "IPV4_ADDR_LINKLOCAL = 0xA9FE0000"
definition IPV4_ADDR_LINKLOCAL_MASK :: u32 where "IPV4_ADDR_LINKLOCAL_MASK = 0xFFFF0000"
definition IPACM_FAILURE_nb :: int where "IPACM_FAILURE_nb = -1"
definition INVALID_IFACE_nb :: int where "INVALID_IFACE_nb = -1"

text \<open>\<open>strlcpy\<close> into an array of interface name length.\<close>

definition name_copy :: "string \<Rightarrow> string" where
  "name_copy s = take (IPA_IFACE_NAME_LEN - 1) s"

section \<open>The table of interfaces\<close>

record iface_row =
  ir_name :: string
  ir_netlink_index :: int

text \<open>
  \<open>iface_table\<close> is \<open>None\<close> when the configuration has none; its length is
  \<open>ipa_num_ipa_interfaces\<close>. \<open>ifname\<close> is the kernel's answer to the index, \<open>None\<close> when the socket or
  the ioctl fails.
\<close>

definition iface_ipa_index_query :: "(int \<Rightarrow> string option) \<Rightarrow> int \<Rightarrow> iface_row list option \<Rightarrow> int \<times> iface_row list option" where
  "iface_ipa_index_query ifname idx tbl = (case tbl of
      None \<Rightarrow> (INVALID_IFACE_nb, tbl)
    | Some t \<Rightarrow> (case first_idx (\<lambda>r. idx = ir_netlink_index r) t of
          Some i \<Rightarrow> (int i, tbl)
        | None \<Rightarrow> (case ifname idx of
              None \<Rightarrow> (IPACM_FAILURE_nb, tbl)
            | Some nm \<Rightarrow> (case first_idx (\<lambda>r. nm = ir_name r) t of
                  None \<Rightarrow> (INVALID_IFACE_nb, tbl)
                | Some i \<Rightarrow> (int i, Some (t[i := (t ! i)\<lparr>ir_netlink_index := idx\<rparr>]))))))"

section \<open>Data\<close>

record ipa_neighbor_client =
  nc_mac_addr :: nb_mac
  nc_iface_index :: int
  nc_v4_addr :: u32
  nc_ipa_if_num :: int
  nc_iface_name :: string

definition zero_client :: ipa_neighbor_client where
  "zero_client = \<lparr>nc_mac_addr = replicate 6 0, nc_iface_index = 0, nc_v4_addr = 0, nc_ipa_if_num = 0, nc_iface_name = []\<rparr>"

text \<open>\<open>ipacm_event_data_all\<close>; \<open>nd_ipv6_addr\<close> is \<open>None\<close> where the code leaves it unwritten.\<close>

record nb_event_data =
  nd_is_v4 :: bool
  nd_if_index :: int
  nd_ipv4_addr :: u32
  nd_ipv6_addr :: "u32 list option"
  nd_mac_addr :: nb_mac
  nd_iface_name :: string

datatype nb_post = IPA_NEIGH_CLIENT_IP_ADDR_ADD_EVENT nb_event_data | IPA_NEIGH_CLIENT_IP_ADDR_DEL_EVENT nb_event_data

datatype nb_event =
    IPA_WLAN_CLIENT_ADD_EVENT_EX int "(bool \<times> nb_mac) list"  \<comment> \<open>attributes; the flag marks a MAC address\<close>
  | IPA_NEW_NEIGH_EVENT nb_event_data
  | IPA_DEL_NEIGH_EVENT nb_event_data

record IPACM_Neighbor =
  num_neighbor_client :: nat
  circular_index :: nat
  neighbor_client :: "ipa_neighbor_client list"
  nb_iface_table :: "iface_row list option"
  nb_posted :: "nb_post list"

record nb_env =
  nb_ifname :: "int \<Rightarrow> string option"
  ipa_virtual_iface_name :: string
  nb_malloc_ok :: bool

definition new_IPACM_Neighbor :: "iface_row list option \<Rightarrow> IPACM_Neighbor" where
  "new_IPACM_Neighbor tbl = \<lparr>num_neighbor_client = 0, circular_index = 0,
     neighbor_client = replicate IPA_MAX_NUM_NEIGHBOR_CLIENTS zero_client, nb_iface_table = tbl, nb_posted = []\<rparr>"

section \<open>Steps of the handler\<close>

text \<open>The search every branch starts with: the first entry in use that has the MAC address.\<close>

definition find_client :: "nb_mac \<Rightarrow> IPACM_Neighbor \<Rightarrow> nat option" where
  "find_client m s = first_idx (\<lambda>c. nc_mac_addr c = m) (take (num_neighbor_client s) (neighbor_client s))"

definition upd_client :: "nat \<Rightarrow> ipa_neighbor_client \<Rightarrow> IPACM_Neighbor \<Rightarrow> IPACM_Neighbor" where
  "upd_client i c s = s\<lparr>neighbor_client := (neighbor_client s)[i := c]\<rparr>"

definition PostEvt_nb :: "nb_post \<Rightarrow> IPACM_Neighbor \<Rightarrow> IPACM_Neighbor" where
  "PostEvt_nb p s = s\<lparr>nb_posted := nb_posted s @ [p]\<rparr>"

definition query_index :: "nb_env \<Rightarrow> int \<Rightarrow> IPACM_Neighbor \<Rightarrow> int \<times> IPACM_Neighbor" where
  "query_index env idx s = (let (r, tbl) = iface_ipa_index_query (nb_ifname env) idx (nb_iface_table s)
     in (r, s\<lparr>nb_iface_table := tbl\<rparr>))"

text \<open>The event is NEW or DEL; the posted one is ADD or DEL accordingly.\<close>

definition client_event :: "bool \<Rightarrow> nb_event_data \<Rightarrow> nb_post" where
  "client_event isnew d = (if isnew then IPA_NEIGH_CLIENT_IP_ADDR_ADD_EVENT d else IPA_NEIGH_CLIENT_IP_ADDR_DEL_EVENT d)"

text \<open>A copy of the event is posted, unless there is no memory for it.\<close>

definition post_copy :: "nb_env \<Rightarrow> nb_post \<Rightarrow> IPACM_Neighbor \<Rightarrow> IPACM_Neighbor" where
  "post_copy env p s = (if nb_malloc_ok env then PostEvt_nb p s else s)"

text \<open>The same, followed by the query that only serves the log message.\<close>

definition post_and_query :: "nb_env \<Rightarrow> nb_post \<Rightarrow> int \<Rightarrow> IPACM_Neighbor \<Rightarrow> IPACM_Neighbor" where
  "post_and_query env p idx s = (if nb_malloc_ok env then snd (query_index env idx (PostEvt_nb p s)) else s)"

text \<open>
  Removing entry \<open>i\<close>: it is cleared, the entries behind it move up by one, the last one in use
  stays where it is, beyond the new count.
\<close>

definition clean_client :: "nat \<Rightarrow> IPACM_Neighbor \<Rightarrow> IPACM_Neighbor" where
  "clean_client i s = (let n = num_neighbor_client s in
     s\<lparr>neighbor_client := fold (\<lambda>j cs. cs[j := (cs ! Suc j)\<lparr>nc_iface_name := name_copy (nc_iface_name (cs ! Suc j))\<rparr>])
          [i..<n - 1] ((neighbor_client s)[i := zero_client]),
       num_neighbor_client := n - 1\<rparr>)"

text \<open>A new entry at the end or, when the array is full, over the one \<open>circular_index\<close> names.\<close>

definition cache_client :: "ipa_neighbor_client \<Rightarrow> ipa_neighbor_client \<Rightarrow> IPACM_Neighbor \<Rightarrow> IPACM_Neighbor" where
  "cache_client fresh recycled s =
     (if num_neighbor_client s < IPA_MAX_NUM_NEIGHBOR_CLIENTS
      then (upd_client (num_neighbor_client s) fresh s)\<lparr>num_neighbor_client := num_neighbor_client s + 1\<rparr>
      else (upd_client (circular_index s) recycled s)
             \<lparr>circular_index := (circular_index s + 1) mod IPA_MAX_NUM_NEIGHBOR_CLIENTS\<rparr>)"

definition neighbor_of :: "nb_event_data \<Rightarrow> int \<Rightarrow> u32 \<Rightarrow> ipa_neighbor_client" where
  "neighbor_of d ifnum v4 = \<lparr>nc_mac_addr = nd_mac_addr d, nc_iface_index = nd_if_index d, nc_v4_addr = v4,
     nc_ipa_if_num = ifnum, nc_iface_name = name_copy (nd_iface_name d)\<rparr>"

section \<open>A station joins the access point\<close>

definition attrib_mac :: "(bool \<times> nb_mac) list \<Rightarrow> nb_mac" where
  "attrib_mac as = fold (\<lambda>(ismac, m) acc. if ismac then m else acc) as (replicate 6 0)"

definition handle_wlan_client :: "nb_env \<Rightarrow> int \<Rightarrow> (bool \<times> nb_mac) list \<Rightarrow> IPACM_Neighbor \<Rightarrow> IPACM_Neighbor" where
  "handle_wlan_client env idx as s0 = (let (q, s) = query_index env idx s0 in
     if q = IPACM_FAILURE_nb then s
     else case find_client (attrib_mac as) s of
       None \<Rightarrow> s
     | Some i \<Rightarrow>
         if ipa_virtual_iface_name env = ir_name (the (nb_iface_table s) ! nat q) then s
         else (let s1 = (if idx \<noteq> nc_iface_index (neighbor_client s ! i)
                         then upd_client i ((neighbor_client s ! i)\<lparr>nc_iface_index := idx\<rparr>) s else s);
                   c = neighbor_client s1 ! i
               in if q \<noteq> nc_ipa_if_num c then s1
                  else if nc_v4_addr c \<noteq> 0
                  then post_and_query env (IPA_NEIGH_CLIENT_IP_ADDR_ADD_EVENT
                         \<lparr>nd_is_v4 = True, nd_if_index = nc_iface_index c, nd_ipv4_addr = nc_v4_addr c,
                          nd_ipv6_addr = Some (replicate 4 0), nd_mac_addr = nc_mac_addr c, nd_iface_name = nc_iface_name c\<rparr>)
                         (nc_iface_index c) s1
                  else s1))"

section \<open>Neighbour events\<close>

definition v4_on_bridge :: "nb_env \<Rightarrow> bool \<Rightarrow> nb_event_data \<Rightarrow> IPACM_Neighbor \<Rightarrow> IPACM_Neighbor" where
  "v4_on_bridge env isnew d s = (case find_client (nd_mac_addr d) s of
      None \<Rightarrow> s
    | Some i \<Rightarrow> (let c = neighbor_client s ! i;
                    d1 = d\<lparr>nd_if_index := nc_iface_index c, nd_iface_name := name_copy (nc_iface_name c)\<rparr>;
                    s1 = upd_client i (c\<lparr>nc_v4_addr := nd_ipv4_addr d\<rparr>) s
                in post_and_query env (client_event isnew d1) (nd_if_index d1) s1))"

definition v4_new_direct :: "nb_event_data \<Rightarrow> int \<Rightarrow> IPACM_Neighbor \<Rightarrow> IPACM_Neighbor" where
  "v4_new_direct d q s = (case find_client (nd_mac_addr d) s of
      Some i \<Rightarrow> upd_client i ((neighbor_client s ! i)\<lparr>nc_ipa_if_num := q, nc_v4_addr := nd_ipv4_addr d,
                   nc_iface_name := name_copy (nd_iface_name d), nc_iface_index := nd_if_index d\<rparr>) s
    | None \<Rightarrow> cache_client (neighbor_of d q (nd_ipv4_addr d)) (neighbor_of d q 0) s)"

definition v4_del_direct :: "nb_event_data \<Rightarrow> IPACM_Neighbor \<Rightarrow> IPACM_Neighbor" where
  "v4_del_direct d s = (case find_client (nd_mac_addr d) s of Some i \<Rightarrow> clean_client i s | None \<Rightarrow> s)"

definition handle_v4 :: "nb_env \<Rightarrow> bool \<Rightarrow> nb_event_data \<Rightarrow> int \<Rightarrow> IPACM_Neighbor \<Rightarrow> IPACM_Neighbor" where
  "handle_v4 env isnew d q s =
     (if nd_ipv4_addr d = 0 then s
      else if nd_ipv4_addr d AND IPV4_ADDR_LINKLOCAL_MASK = IPV4_ADDR_LINKLOCAL then s
      else if ipa_virtual_iface_name env = nd_iface_name d then v4_on_bridge env isnew d s
      else post_copy env (client_event isnew d) (if isnew then v4_new_direct d q s else v4_del_direct d s))"

definition has_v6 :: "nb_event_data \<Rightarrow> bool" where
  "has_v6 d \<longleftrightarrow> (\<exists>x \<in> set (the (nd_ipv6_addr d)). x \<noteq> 0)"

definition v6_on_bridge :: "nb_env \<Rightarrow> bool \<Rightarrow> nb_event_data \<Rightarrow> IPACM_Neighbor \<Rightarrow> IPACM_Neighbor" where
  "v6_on_bridge env isnew d s = (case find_client (nd_mac_addr d) s of
      None \<Rightarrow> s
    | Some i \<Rightarrow> (let c = neighbor_client s ! i;
                    d1 = d\<lparr>nd_if_index := nc_iface_index c, nd_iface_name := name_copy (nc_iface_name c)\<rparr>
                in post_and_query env (client_event isnew d1) (nd_if_index d1) s))"

text \<open>
  An event without an address: the known client is announced with its cached address, or removed.
  The flag says that the function returns without removing (no memory for the event).
\<close>

definition announce_cached :: "nb_env \<Rightarrow> bool \<Rightarrow> nb_event_data \<Rightarrow> nat \<Rightarrow> IPACM_Neighbor \<Rightarrow> bool \<times> IPACM_Neighbor" where
  "announce_cached env isnew d i s =
     (if ipa_virtual_iface_name env = nd_iface_name d then (False, s)
      else let s1 = (if nd_if_index d \<noteq> nc_iface_index (neighbor_client s ! i)
                     then upd_client i ((neighbor_client s ! i)\<lparr>nc_iface_index := nd_if_index d,
                            nc_iface_name := name_copy (nd_iface_name d)\<rparr>) s else s);
               c = neighbor_client s1 ! i
           in if nc_v4_addr c \<noteq> 0
              then (if nb_malloc_ok env
                    then (False, PostEvt_nb (client_event isnew
                        \<lparr>nd_is_v4 = True, nd_if_index = nc_iface_index c, nd_ipv4_addr = nc_v4_addr c, nd_ipv6_addr = None,
                         nd_mac_addr = nc_mac_addr c, nd_iface_name = name_copy (nc_iface_name c)\<rparr>) s1)
                    else (True, s1))
              else (False, s1))"

definition handle_no_addr :: "nb_env \<Rightarrow> bool \<Rightarrow> nb_event_data \<Rightarrow> int \<Rightarrow> IPACM_Neighbor \<Rightarrow> IPACM_Neighbor" where
  "handle_no_addr env isnew d q s = (case find_client (nd_mac_addr d) s of
      Some i \<Rightarrow> (let (ret, s1) = announce_cached env isnew d i s
                 in if ret then s1 else if \<not> isnew then clean_client i s1 else s1)
    | None \<Rightarrow> if isnew \<and> ipa_virtual_iface_name env \<noteq> nd_iface_name d
              then cache_client (neighbor_of d q 0) (neighbor_of d q 0) s else s)"

definition handle_neigh :: "nb_env \<Rightarrow> bool \<Rightarrow> nb_event_data \<Rightarrow> IPACM_Neighbor \<Rightarrow> IPACM_Neighbor" where
  "handle_neigh env isnew d s0 = (let (q, s) = query_index env (nd_if_index d) s0 in
     if q = IPACM_FAILURE_nb then s
     else if nd_is_v4 d then handle_v4 env isnew d q s
     else if has_v6 d
          then (if ipa_virtual_iface_name env = nd_iface_name d then v6_on_bridge env isnew d s
                else post_copy env (client_event isnew d) s)
     else handle_no_addr env isnew d q s)"

fun nb_event_callback :: "nb_env \<Rightarrow> nb_event \<Rightarrow> IPACM_Neighbor \<Rightarrow> IPACM_Neighbor" where
  "nb_event_callback env (IPA_WLAN_CLIENT_ADD_EVENT_EX idx as) s = handle_wlan_client env idx as s"
| "nb_event_callback env (IPA_NEW_NEIGH_EVENT d) s = handle_neigh env True d s"
| "nb_event_callback env (IPA_DEL_NEIGH_EVENT d) s = handle_neigh env False d s"

end
