(* ===== verification/Neighbor_Props.thy ===== *)
theory Neighbor_Props
  imports Ipa_Neighbor
begin

text \<open>
  The cache as a map from MAC addresses to clients: the invariant of the array, the effect of
  the operations on the map, the refinement of the handler, and its properties.
\<close>

section \<open>The look-up of interfaces\<close>

lemma query_range:
  assumes "iface_ipa_index_query f idx tbl = (q, tbl')" "q \<noteq> IPACM_FAILURE_nb"
  shows "\<exists>i. q = int i \<and> tbl' \<noteq> None \<and> i < length (the tbl')"
  using assms by (auto simp: iface_ipa_index_query_def INVALID_IFACE_nb_def IPACM_FAILURE_nb_def split: option.splits
      dest: first_idx_SomeD)

section \<open>The array\<close>

definition used :: "IPACM_Neighbor \<Rightarrow> ipa_neighbor_client list" where
  "used s = take (num_neighbor_client s) (neighbor_client s)"

definition nb_inv :: "IPACM_Neighbor \<Rightarrow> bool" where
  "nb_inv s \<longleftrightarrow> length (neighbor_client s) = IPA_MAX_NUM_NEIGHBOR_CLIENTS \<and> num_neighbor_client s \<le> IPA_MAX_NUM_NEIGHBOR_CLIENTS
     \<and> circular_index s < IPA_MAX_NUM_NEIGHBOR_CLIENTS \<and> distinct (map nc_mac_addr (used s))
     \<and> (\<forall>c \<in> set (neighbor_client s). length (nc_iface_name c) < IPA_IFACE_NAME_LEN)"

definition nb_map :: "IPACM_Neighbor \<Rightarrow> nb_mac \<rightharpoonup> ipa_neighbor_client" where
  "nb_map s m = map_option (\<lambda>i. neighbor_client s ! i) (find_client m s)"

lemma length_used [simp]: "nb_inv s \<Longrightarrow> length (used s) = num_neighbor_client s"
  by (simp add: used_def nb_inv_def)

lemma find_client_used: "find_client m s = first_idx (\<lambda>c. nc_mac_addr c = m) (used s)"
  by (simp add: find_client_def used_def)

lemma find_client_SomeD:
  assumes "nb_inv s" "find_client m s = Some i"
  shows "i < num_neighbor_client s" "i < length (neighbor_client s)" "nc_mac_addr (neighbor_client s ! i) = m"
    "used s ! i = neighbor_client s ! i"
  using assms first_idx_SomeD [of "\<lambda>c. nc_mac_addr c = m" "used s" i]
  by (auto simp: find_client_used nb_inv_def used_def)

lemma name_copy_id: "length s < IPA_IFACE_NAME_LEN \<Longrightarrow> name_copy s = s"
  by (simp add: name_copy_def IPA_IFACE_NAME_LEN_def)

lemma name_copy_short [simp]: "length (name_copy s) < IPA_IFACE_NAME_LEN"
  by (simp add: name_copy_def IPA_IFACE_NAME_LEN_def)

lemma map_of_first_idx:
  "map_option (\<lambda>i. xs ! i) (first_idx (\<lambda>c. f c = m) xs) = map_of (map (\<lambda>c. (f c, c)) xs) m"
  by (induction xs) (auto simp: option.map_comp comp_def)

lemma nb_map_used: "nb_map s = map_of (map (\<lambda>c. (nc_mac_addr c, c)) (used s))"
proof
  fix m
  have "nb_map s m = map_option (\<lambda>i. used s ! i) (first_idx (\<lambda>c. nc_mac_addr c = m) (used s))"
    by (auto simp: nb_map_def find_client_used used_def intro!: option.map_cong dest: first_idx_SomeD)
  then show "nb_map s m = map_of (map (\<lambda>c. (nc_mac_addr c, c)) (used s)) m"
    by (simp add: map_of_first_idx)
qed

definition keyed :: "ipa_neighbor_client list \<Rightarrow> nb_mac \<rightharpoonup> ipa_neighbor_client" where
  "keyed cs = map_of (map (\<lambda>c. (nc_mac_addr c, c)) cs)"

lemma keyed_simps [simp]: "keyed [] = Map.empty" "keyed (c # cs) = (keyed cs)(nc_mac_addr c \<mapsto> c)"
  by (simp_all add: keyed_def)

lemma keyed_None: "keyed cs m = None \<longleftrightarrow> m \<notin> nc_mac_addr ` set cs"
  by (auto simp: keyed_def map_of_eq_None_iff image_image)

lemma keyed_append: "keyed (xs @ ys) = keyed ys ++ keyed xs"
  by (simp add: keyed_def)

text \<open>Replacing an entry of a list without duplicates.\<close>

lemma keyed_update:
  assumes "distinct (map nc_mac_addr cs)" "i < length cs" "nc_mac_addr c \<notin> nc_mac_addr ` set (take i cs)"
    "nc_mac_addr c \<notin> nc_mac_addr ` set (drop (Suc i) cs)"
  shows "keyed (cs[i := c]) = (keyed cs)(nc_mac_addr (cs ! i) := None, nc_mac_addr c \<mapsto> c)"
    and "distinct (map nc_mac_addr (cs[i := c]))"
proof -
  obtain xs y ys where xy: "cs = xs @ y # ys" "cs[i := c] = xs @ c # ys" "y = cs ! i" "xs = take i cs" "ys = drop (Suc i) cs"
    using id_take_nth_drop [OF assms(2)] upd_conv_take_nth_drop [OF assms(2), of c] by metis
  have n: "nc_mac_addr y \<notin> nc_mac_addr ` set xs" "nc_mac_addr y \<notin> nc_mac_addr ` set ys" "nc_mac_addr c \<notin> nc_mac_addr ` set xs"
    "nc_mac_addr c \<notin> nc_mac_addr ` set ys"
    using assms(1) assms(3,4) [folded xy(4,5)] unfolding xy(1) by auto
  then have k: "keyed xs (nc_mac_addr y) = None" "keyed ys (nc_mac_addr y) = None" "keyed xs (nc_mac_addr c) = None"
    "keyed ys (nc_mac_addr c) = None" by (simp_all add: keyed_None)
  have "keyed (xs @ c # ys) = (keyed (xs @ y # ys))(nc_mac_addr y := None, nc_mac_addr c \<mapsto> c)"
    by (rule ext) (simp add: keyed_append map_add_def k split: option.split)
  then show "keyed (cs[i := c]) = (keyed cs)(nc_mac_addr (cs ! i) := None, nc_mac_addr c \<mapsto> c)"
    using xy by metis
  have "distinct (map nc_mac_addr (xs @ c # ys))"
    using assms(1) n unfolding xy(1) by simp
  then show "distinct (map nc_mac_addr (cs[i := c]))" by (simp only: xy(2))
qed

text \<open>The shift.\<close>

lemma shift_loop:
  assumes "i \<le> n" "n < length cs" and "\<forall>c \<in> set cs. length (nc_iface_name c) < IPA_IFACE_NAME_LEN"
  shows "fold (\<lambda>j cs. cs[j := (cs ! Suc j)\<lparr>nc_iface_name := name_copy (nc_iface_name (cs ! Suc j))\<rparr>]) [i..<n] cs
     = take i cs @ take (n - i) (drop (Suc i) cs) @ drop n cs"
  using assms
proof (induction n)
  case 0
  then show ?case by simp
next
  case (Suc n)
  show ?case
  proof (cases "i = Suc n")
    case True
    then show ?thesis by (simp add: append_take_drop_id)
  next
    case False
    then have i: "i \<le> n" using Suc.prems by simp
    define p where "p = take i cs @ take (n - i) (drop (Suc i) cs)"
    have len: "length p = n" using Suc.prems i by (simp add: p_def)
    have d: "drop n cs = cs ! n # cs ! Suc n # drop (Suc (Suc n)) cs"
      using Suc.prems by (simp add: Cons_nth_drop_Suc)
    have ih: "fold (\<lambda>j cs. cs[j := (cs ! Suc j)\<lparr>nc_iface_name := name_copy (nc_iface_name (cs ! Suc j))\<rparr>]) [i..<n] cs
      = p @ cs ! n # cs ! Suc n # drop (Suc (Suc n)) cs"
      using Suc i by (simp add: d p_def)
    have "name_copy (nc_iface_name (cs ! Suc n)) = nc_iface_name (cs ! Suc n)"
      using Suc.prems by (simp add: name_copy_id)
    then have "fold (\<lambda>j cs. cs[j := (cs ! Suc j)\<lparr>nc_iface_name := name_copy (nc_iface_name (cs ! Suc j))\<rparr>]) [i..<Suc n] cs
      = p @ cs ! Suc n # cs ! Suc n # drop (Suc (Suc n)) cs"
      using i len by (simp add: ih nth_append list_update_append)
    also have "\<dots> = take i cs @ take (Suc n - i) (drop (Suc i) cs) @ drop (Suc n) cs"
    proof -
      have "take (Suc n - i) (drop (Suc i) cs) = take (n - i) (drop (Suc i) cs) @ [drop (Suc i) cs ! (n - i)]"
        using Suc.prems i by (simp add: Suc_diff_le take_Suc_conv_app_nth)
      moreover have "drop (Suc i) cs ! (n - i) = cs ! Suc n" using Suc.prems i by simp
      ultimately show ?thesis using Suc.prems by (simp add: Cons_nth_drop_Suc p_def)
    qed
    finally show ?thesis .
  qed
qed

section \<open>The operations on the map\<close>

lemma nb_map_keyed: "nb_map s = keyed (used s)"
  by (simp add: nb_map_used keyed_def)

lemma find_client_None: "find_client m s = None \<longleftrightarrow> m \<notin> nc_mac_addr ` set (used s)"
  by (auto simp: find_client_used)

lemma nb_map_None: "nb_map s m = None \<longleftrightarrow> find_client m s = None"
  by (simp add: nb_map_def)

lemma nb_map_Some: "find_client m s = Some i \<Longrightarrow> nb_map s m = Some (neighbor_client s ! i)"
  by (simp add: nb_map_def)

lemma distinct_other:
  assumes "distinct (map f xs)" "i < length xs"
  shows "f (xs ! i) \<notin> f ` set (take i xs)" "f (xs ! i) \<notin> f ` set (drop (Suc i) xs)"
proof -
  have "distinct (map f (take i xs @ xs ! i # drop (Suc i) xs))"
    using assms by (simp only: id_take_nth_drop [OF assms(2), symmetric])
  then show "f (xs ! i) \<notin> f ` set (take i xs)" "f (xs ! i) \<notin> f ` set (drop (Suc i) xs)" by auto
qed

lemma upd_client_ok:
  assumes inv: "nb_inv s" and f: "find_client m s = Some i" and c: "nc_mac_addr c = m" "length (nc_iface_name c) < IPA_IFACE_NAME_LEN"
  shows "nb_inv (upd_client i c s)" "nb_map (upd_client i c s) = (nb_map s)(m \<mapsto> c)"
proof -
  note i = find_client_SomeD [OF inv f]
  have u: "used (upd_client i c s) = (used s)[i := c]"
    by (simp add: used_def upd_client_def take_update_swap)
  have il: "i < length (used s)" using i inv by simp
  have d: "distinct (map nc_mac_addr (used s))" using inv by (simp add: nb_inv_def)
  have m: "nc_mac_addr (used s ! i) = m" using i by simp
  note ku = keyed_update [OF d il, of c, unfolded c(1)] distinct_other [OF d il, unfolded m]
  show "nb_map (upd_client i c s) = (nb_map s)(m \<mapsto> c)"
    unfolding nb_map_keyed u using ku m by (simp add: fun_eq_iff)
  have "set ((neighbor_client s)[i := c]) \<subseteq> insert c (set (neighbor_client s))" by (rule set_update_subset_insert)
  then show "nb_inv (upd_client i c s)"
    using inv ku c unfolding nb_inv_def u by (auto simp: upd_client_def)
qed

lemma keyed_remove:
  assumes "distinct (map nc_mac_addr cs)" "i < length cs"
  shows "keyed (take i cs @ drop (Suc i) cs) = (keyed cs)(nc_mac_addr (cs ! i) := None)"
    and "distinct (map nc_mac_addr (take i cs @ drop (Suc i) cs))"
proof -
  obtain xs y ys where xy: "cs = xs @ y # ys" "y = cs ! i" "xs = take i cs" "ys = drop (Suc i) cs"
    using id_take_nth_drop [OF assms(2)] by metis
  have n: "keyed xs (nc_mac_addr y) = None" "keyed ys (nc_mac_addr y) = None"
    using distinct_other [OF assms] by (simp_all add: keyed_None xy(2,3,4))
  have "keyed (xs @ ys) = (keyed (xs @ y # ys))(nc_mac_addr y := None)"
    by (rule ext) (simp add: keyed_append map_add_def n split: option.split)
  then show "keyed (take i cs @ drop (Suc i) cs) = (keyed cs)(nc_mac_addr (cs ! i) := None)"
    using xy by metis
  have "distinct (map nc_mac_addr (xs @ ys))"
    using assms(1) unfolding xy(1) by auto
  then show "distinct (map nc_mac_addr (take i cs @ drop (Suc i) cs))" by (simp only: xy(3,4))
qed

lemma clean_client_ok:
  assumes inv: "nb_inv s" and f: "find_client m s = Some i"
  shows "nb_inv (clean_client i s)" "nb_map (clean_client i s) = (nb_map s)(m := None)"
proof -
  note i = find_client_SomeD [OF inv f]
  let ?n = "num_neighbor_client s" let ?z = "(neighbor_client s)[i := zero_client]"
  have n: "?n \<le> length (neighbor_client s)" using inv by (simp add: nb_inv_def)
  have "set ?z \<subseteq> insert zero_client (set (neighbor_client s))" by (rule set_update_subset_insert)
  then have z: "\<forall>c \<in> set ?z. length (nc_iface_name c) < IPA_IFACE_NAME_LEN"
    using inv by (auto simp: nb_inv_def zero_client_def IPA_IFACE_NAME_LEN_def)
  have arr: "neighbor_client (clean_client i s)
     = take i ?z @ take (?n - 1 - i) (drop (Suc i) ?z) @ drop (?n - 1) ?z"
    using shift_loop [OF _ _ z, of i "?n - 1"] i(1) n by (simp add: clean_client_def Let_def)
  have il: "i < length (used s)" using i inv by simp
  have u: "used (clean_client i s) = take i (used s) @ drop (Suc i) (used s)"
  proof -
    define p where "p = take i ?z @ take (?n - 1 - i) (drop (Suc i) ?z)"
    have "length p = ?n - 1" using i(1) n by (simp add: p_def)
    then have "take (?n - 1) (neighbor_client (clean_client i s)) = p"
      unfolding arr append_assoc [symmetric] p_def [symmetric] by simp
    moreover have "num_neighbor_client (clean_client i s) = ?n - 1" by (simp add: clean_client_def Let_def)
    moreover have "take i ?z = take i (used s)"
      using i(1) by (simp add: used_def)
    moreover have "take (?n - 1 - i) (drop (Suc i) ?z) = drop (Suc i) (used s)"
      by (simp add: used_def drop_take)
    ultimately show ?thesis
      by (simp only: used_def [of "clean_client i s"] p_def)
  qed
  have d: "distinct (map nc_mac_addr (used s))" using inv by (simp add: nb_inv_def)
  note kr = keyed_remove [OF d il]
  show "nb_map (clean_client i s) = (nb_map s)(m := None)"
    using kr(1) i unfolding nb_map_keyed u by simp
  have sub: "set (neighbor_client (clean_client i s)) \<subseteq> set ?z"
    unfolding arr using set_take_subset [of i ?z] set_drop_subset [of "?n - 1" ?z]
      set_take_subset [of "?n - 1 - i" "drop (Suc i) ?z"] set_drop_subset [of "Suc i" ?z]
    by (simp only: set_append Un_subset_iff) blast
  have len: "length (neighbor_client (clean_client i s)) = length (neighbor_client s)"
    unfolding arr using i(1) n by simp
  have "num_neighbor_client (clean_client i s) = ?n - 1" "circular_index (clean_client i s) = circular_index s"
    by (simp_all add: clean_client_def Let_def)
  then show "nb_inv (clean_client i s)"
    using inv kr(2) sub z len unfolding nb_inv_def u by auto
qed

text \<open>The client that a full cache gives up for a new one.\<close>

definition evicted :: "IPACM_Neighbor \<Rightarrow> nb_mac option" where
  "evicted s = (if num_neighbor_client s < IPA_MAX_NUM_NEIGHBOR_CLIENTS then None
     else Some (nc_mac_addr (neighbor_client s ! circular_index s)))"

definition cache_map :: "nb_mac option \<Rightarrow> ipa_neighbor_client \<Rightarrow> ipa_neighbor_client
    \<Rightarrow> (nb_mac \<rightharpoonup> ipa_neighbor_client) \<Rightarrow> nb_mac \<rightharpoonup> ipa_neighbor_client" where
  "cache_map ev fresh recycled M = (case ev of None \<Rightarrow> M(nc_mac_addr fresh \<mapsto> fresh)
     | Some v \<Rightarrow> M(v := None, nc_mac_addr recycled \<mapsto> recycled))"

lemma cache_client_ok:
  assumes inv: "nb_inv s" and f: "find_client m s = None"
    and c: "nc_mac_addr c = m" "nc_mac_addr r = m" "length (nc_iface_name c) < IPA_IFACE_NAME_LEN" "length (nc_iface_name r) < IPA_IFACE_NAME_LEN"
  shows "nb_inv (cache_client c r s)" "nb_map (cache_client c r s) = cache_map (evicted s) c r (nb_map s)"
proof -
  have d: "distinct (map nc_mac_addr (used s))" and m: "m \<notin> nc_mac_addr ` set (used s)"
    using inv f by (auto simp: nb_inv_def find_client_None)
  let ?n = "num_neighbor_client s" let ?j = "circular_index s"
  have "nb_inv (cache_client c r s) \<and> nb_map (cache_client c r s) = cache_map (evicted s) c r (nb_map s)"
  proof (cases "?n < IPA_MAX_NUM_NEIGHBOR_CLIENTS")
    case True
    then have u: "used (cache_client c r s) = used s @ [c]"
      using inv by (simp add: used_def cache_client_def upd_client_def nb_inv_def take_Suc_conv_app_nth)
    have k: "keyed (used s) m = None" using m by (simp add: keyed_None)
    have "keyed (used s @ [c]) = (keyed (used s))(m \<mapsto> c)"
      by (rule ext) (simp add: keyed_append map_add_def k c(1) split: option.split)
    moreover have "distinct (map nc_mac_addr (used s @ [c]))" using d m c by simp
    moreover have "set ((neighbor_client s)[?n := c]) \<subseteq> insert c (set (neighbor_client s))" by (rule set_update_subset_insert)
    ultimately show ?thesis
      using inv True c unfolding nb_inv_def nb_map_keyed u
      by (auto simp: cache_map_def evicted_def cache_client_def upd_client_def)
  next
    case False
    then have n: "?n = IPA_MAX_NUM_NEIGHBOR_CLIENTS" "used s = neighbor_client s" using inv by (auto simp: nb_inv_def used_def)
    then have u: "used (cache_client c r s) = (used s)[?j := r]"
      using inv by (simp add: used_def cache_client_def upd_client_def nb_inv_def)
    have jl: "?j < length (used s)" using inv n by (simp add: nb_inv_def)
    have "m \<notin> nc_mac_addr ` set (take ?j (used s))" "m \<notin> nc_mac_addr ` set (drop (Suc ?j) (used s))"
      using m by (auto dest: in_set_takeD in_set_dropD)
    note ku = keyed_update [OF d jl, of r, unfolded c(2), OF this]
    have "set ((neighbor_client s)[?j := r]) \<subseteq> insert r (set (neighbor_client s))" by (rule set_update_subset_insert)
    then show ?thesis
      using inv n ku c unfolding nb_inv_def nb_map_keyed u
      by (auto simp: cache_map_def evicted_def cache_client_def upd_client_def IPA_MAX_NUM_NEIGHBOR_CLIENTS_def)
  qed
  then show "nb_inv (cache_client c r s)" "nb_map (cache_client c r s) = cache_map (evicted s) c r (nb_map s)" by auto
qed

section \<open>The abstract cache\<close>

text \<open>
  What an event does to the map and which events it posts. The arguments are the answer \<open>q\<close> of
  the interface look-up, whether the interface is the bridge (\<open>vb\<close>), the client that a full cache
  gives up, and whether there is memory for the event.
\<close>

type_synonym nb_cache = "nb_mac \<rightharpoonup> ipa_neighbor_client"

definition attributed :: "nb_event_data \<Rightarrow> ipa_neighbor_client \<Rightarrow> nb_event_data" where
  "attributed d c = d\<lparr>nd_if_index := nc_iface_index c, nd_iface_name := nc_iface_name c\<rparr>"

definition cached_event :: "ipa_neighbor_client \<Rightarrow> u32 list option \<Rightarrow> nb_event_data" where
  "cached_event c v6 = \<lparr>nd_is_v4 = True, nd_if_index = nc_iface_index c, nd_ipv4_addr = nc_v4_addr c, nd_ipv6_addr = v6,
     nd_mac_addr = nc_mac_addr c, nd_iface_name = nc_iface_name c\<rparr>"

definition spec_wlan :: "int \<Rightarrow> bool \<Rightarrow> bool \<Rightarrow> int \<Rightarrow> nb_mac \<Rightarrow> nb_cache \<Rightarrow> nb_cache \<times> nb_post list" where
  "spec_wlan q vb mem idx m M = (case M m of None \<Rightarrow> (M, [])
     | Some c \<Rightarrow> if vb then (M, [])
         else let c1 = c\<lparr>nc_iface_index := idx\<rparr>
              in (M(m \<mapsto> c1), if q = nc_ipa_if_num c \<and> nc_v4_addr c \<noteq> 0 \<and> mem
                              then [IPA_NEIGH_CLIENT_IP_ADDR_ADD_EVENT (cached_event c1 (Some (replicate 4 0)))] else []))"

definition spec_v4 :: "nb_mac option \<Rightarrow> int \<Rightarrow> bool \<Rightarrow> bool \<Rightarrow> bool \<Rightarrow> nb_event_data \<Rightarrow> nb_cache \<Rightarrow> nb_cache \<times> nb_post list" where
  "spec_v4 ev q vb mem isnew d M =
     (if nd_ipv4_addr d = 0 \<or> nd_ipv4_addr d AND IPV4_ADDR_LINKLOCAL_MASK = IPV4_ADDR_LINKLOCAL then (M, [])
      else if vb then (case M (nd_mac_addr d) of None \<Rightarrow> (M, [])
        | Some c \<Rightarrow> (M(nd_mac_addr d \<mapsto> c\<lparr>nc_v4_addr := nd_ipv4_addr d\<rparr>), if mem then [client_event isnew (attributed d c)] else []))
      else (if \<not> isnew then M(nd_mac_addr d := None)
            else if M (nd_mac_addr d) = None then cache_map ev (neighbor_of d q (nd_ipv4_addr d)) (neighbor_of d q 0) M
            else M(nd_mac_addr d \<mapsto> neighbor_of d q (nd_ipv4_addr d)),
            if mem then [client_event isnew d] else []))"

definition spec_v6 :: "bool \<Rightarrow> bool \<Rightarrow> bool \<Rightarrow> nb_event_data \<Rightarrow> nb_cache \<Rightarrow> nb_post list" where
  "spec_v6 vb mem isnew d M = (if \<not> mem then [] else if vb
     then (case M (nd_mac_addr d) of None \<Rightarrow> [] | Some c \<Rightarrow> [client_event isnew (attributed d c)])
     else [client_event isnew d])"

definition moved_to :: "nb_event_data \<Rightarrow> ipa_neighbor_client \<Rightarrow> ipa_neighbor_client" where
  "moved_to d c = (if nd_if_index d = nc_iface_index c then c
     else c\<lparr>nc_iface_index := nd_if_index d, nc_iface_name := name_copy (nd_iface_name d)\<rparr>)"

definition spec_no_addr :: "nb_mac option \<Rightarrow> int \<Rightarrow> bool \<Rightarrow> bool \<Rightarrow> bool \<Rightarrow> nb_event_data \<Rightarrow> nb_cache \<Rightarrow> nb_cache \<times> nb_post list" where
  "spec_no_addr ev q vb mem isnew d M = (case M (nd_mac_addr d) of
      None \<Rightarrow> (if isnew \<and> \<not> vb then cache_map ev (neighbor_of d q 0) (neighbor_of d q 0) M else M, [])
    | Some c \<Rightarrow>
        (let c1 = (if vb then c else moved_to d c); say = (\<not> vb \<and> nc_v4_addr c \<noteq> 0)
         in (if isnew \<or> say \<and> \<not> mem then M(nd_mac_addr d \<mapsto> c1) else M(nd_mac_addr d := None),
             if say \<and> mem then [client_event isnew (cached_event c1 None)] else [])))"

definition spec_neigh :: "nb_mac option \<Rightarrow> int \<Rightarrow> bool \<Rightarrow> bool \<Rightarrow> bool \<Rightarrow> nb_event_data \<Rightarrow> nb_cache \<Rightarrow> nb_cache \<times> nb_post list" where
  "spec_neigh ev q vb mem isnew d M =
     (if nd_is_v4 d then spec_v4 ev q vb mem isnew d M
      else if has_v6 d then (M, spec_v6 vb mem isnew d M)
      else spec_no_addr ev q vb mem isnew d M)"

definition nb_query :: "nb_env \<Rightarrow> int \<Rightarrow> IPACM_Neighbor \<Rightarrow> int" where
  "nb_query env idx s = fst (iface_ipa_index_query (nb_ifname env) idx (nb_iface_table s))"

definition wlan_is_bridge :: "nb_env \<Rightarrow> int \<Rightarrow> IPACM_Neighbor \<Rightarrow> bool" where
  "wlan_is_bridge env idx s \<longleftrightarrow> (let (q, tbl) = iface_ipa_index_query (nb_ifname env) idx (nb_iface_table s)
     in ipa_virtual_iface_name env = ir_name (the tbl ! nat q))"

fun nb_spec :: "nb_env \<Rightarrow> nb_event \<Rightarrow> IPACM_Neighbor \<Rightarrow> nb_cache \<times> nb_post list" where
  "nb_spec env (IPA_WLAN_CLIENT_ADD_EVENT_EX idx as) s =
     (if nb_query env idx s = IPACM_FAILURE_nb then (nb_map s, [])
      else spec_wlan (nb_query env idx s) (wlan_is_bridge env idx s) (nb_malloc_ok env) idx (attrib_mac as) (nb_map s))"
| "nb_spec env (IPA_NEW_NEIGH_EVENT d) s =
     (if nb_query env (nd_if_index d) s = IPACM_FAILURE_nb then (nb_map s, [])
      else spec_neigh (evicted s) (nb_query env (nd_if_index d) s) (ipa_virtual_iface_name env = nd_iface_name d)
             (nb_malloc_ok env) True d (nb_map s))"
| "nb_spec env (IPA_DEL_NEIGH_EVENT d) s =
     (if nb_query env (nd_if_index d) s = IPACM_FAILURE_nb then (nb_map s, [])
      else spec_neigh (evicted s) (nb_query env (nd_if_index d) s) (ipa_virtual_iface_name env = nd_iface_name d)
             (nb_malloc_ok env) False d (nb_map s))"

section \<open>The refinement\<close>

text \<open>\<open>s'\<close> keeps the invariant, has the map \<open>M\<close> and has posted \<open>ps\<close> beyond \<open>s\<close>.\<close>

definition nb_to :: "IPACM_Neighbor \<Rightarrow> nb_cache \<times> nb_post list \<Rightarrow> IPACM_Neighbor \<Rightarrow> bool" where
  "nb_to s r s' \<longleftrightarrow> nb_inv s' \<and> nb_map s' = fst r \<and> nb_posted s' = nb_posted s @ snd r"

lemma nb_outside [simp]:
  "nb_inv (s\<lparr>nb_iface_table := t\<rparr>) = nb_inv s" "nb_map (s\<lparr>nb_iface_table := t\<rparr>) = nb_map s"
  "nb_inv (PostEvt_nb p s) = nb_inv s" "nb_map (PostEvt_nb p s) = nb_map s"
  "find_client m (s\<lparr>nb_iface_table := t\<rparr>) = find_client m s" "evicted (s\<lparr>nb_iface_table := t\<rparr>) = evicted s"
  "nb_posted (PostEvt_nb p s) = nb_posted s @ [p]" "find_client m (PostEvt_nb p s) = find_client m s"
  by (simp_all add: nb_inv_def used_def nb_map_def [abs_def] find_client_def PostEvt_nb_def evicted_def)

lemma posted_same [simp]:
  "nb_posted (upd_client i c s) = nb_posted s" "nb_posted (clean_client i s) = nb_posted s"
  "nb_posted (cache_client c r s) = nb_posted s"
  by (simp_all add: upd_client_def clean_client_def cache_client_def Let_def)

lemma query_same [simp]:
  "nb_inv (snd (query_index env idx s)) = nb_inv s" "nb_map (snd (query_index env idx s)) = nb_map s"
  "nb_posted (snd (query_index env idx s)) = nb_posted s"
  by (simp_all add: query_index_def case_prod_unfold Let_def)

lemma post_copy_to: "nb_inv s1 \<Longrightarrow> nb_posted s1 = nb_posted s \<Longrightarrow>
  nb_to s (nb_map s1, if nb_malloc_ok env then [p] else []) (post_copy env p s1)"
  by (simp add: nb_to_def post_copy_def)

lemma post_and_query_to: "nb_inv s1 \<Longrightarrow> nb_posted s1 = nb_posted s \<Longrightarrow>
  nb_to s (nb_map s1, if nb_malloc_ok env then [p] else []) (post_and_query env p idx s1)"
  by (simp add: nb_to_def post_and_query_def)

lemma client_name: "nb_inv s \<Longrightarrow> find_client m s = Some i \<Longrightarrow> length (nc_iface_name (neighbor_client s ! i)) < IPA_IFACE_NAME_LEN"
  using find_client_SomeD(2) by (auto simp: nb_inv_def)

lemma nth_upd_client [simp]: "i < length (neighbor_client s) \<Longrightarrow> neighbor_client (upd_client i c s) ! i = c"
  by (simp add: upd_client_def)

lemma keyed_same: "nb_inv s \<Longrightarrow> find_client m s = Some i \<Longrightarrow> (nb_map s)(m \<mapsto> neighbor_client s ! i) = nb_map s"
  by (simp add: nb_map_Some fun_upd_idem_iff)

lemma wlan_refines:
  assumes inv: "nb_inv s0"
  shows "nb_to s0 (nb_spec env (IPA_WLAN_CLIENT_ADD_EVENT_EX idx as) s0) (handle_wlan_client env idx as s0)"
proof -
  obtain q tbl where q: "iface_ipa_index_query (nb_ifname env) idx (nb_iface_table s0) = (q, tbl)" by fastforce
  let ?s = "s0\<lparr>nb_iface_table := tbl\<rparr>" let ?m = "attrib_mac as"
  have qi: "query_index env idx s0 = (q, ?s)" by (simp add: query_index_def q)
  show ?thesis
  proof (cases "q = IPACM_FAILURE_nb \<or> find_client ?m s0 = None")
    case True
    have M: "nb_map s0 ?m = None" if "find_client ?m s0 = None" using that by (simp add: nb_map_None)
    from True inv show ?thesis
      by (cases "q = IPACM_FAILURE_nb") (simp_all add: handle_wlan_client_def qi nb_query_def q nb_to_def spec_wlan_def M)
  next
    case False
    then obtain i where i: "find_client ?m s0 = Some i" and nq: "q \<noteq> IPACM_FAILURE_nb" by auto
    let ?c = "neighbor_client s0 ! i" let ?c1 = "?c\<lparr>nc_iface_index := idx\<rparr>"
    note ii = find_client_SomeD [OF inv i]
    have M: "nb_map s0 ?m = Some ?c" using i by (rule nb_map_Some)
    show ?thesis
    proof (cases "wlan_is_bridge env idx s0")
      case True
      then show ?thesis
        using inv nq i M by (simp add: handle_wlan_client_def qi nb_query_def q nb_to_def spec_wlan_def wlan_is_bridge_def)
    next
      case False
      define s1 where "s1 = (if idx \<noteq> nc_iface_index ?c then upd_client i ?c1 ?s else ?s)"
      have upd: "nb_inv (upd_client i ?c1 ?s)" "nb_map (upd_client i ?c1 ?s) = (nb_map s0)(?m \<mapsto> ?c1)"
        using upd_client_ok [of ?s ?m i ?c1] inv i ii client_name [OF inv i] by simp_all
      have same: "idx = nc_iface_index ?c \<Longrightarrow> ?c1 = ?c" by simp
      have s1: "nb_inv s1" "nb_map s1 = (nb_map s0)(?m \<mapsto> ?c1)" "neighbor_client s1 ! i = ?c1" "nb_posted s1 = nb_posted s0"
        using upd inv ii keyed_same [OF inv i] same by (auto simp: s1_def)
      have run: "handle_wlan_client env idx as s0 = (if q \<noteq> nc_ipa_if_num ?c \<or> nc_v4_addr ?c = 0 then s1
         else post_and_query env (IPA_NEIGH_CLIENT_IP_ADDR_ADD_EVENT (cached_event ?c1 (Some (replicate 4 0)))) idx s1)"
      proof -
        have s1_if: "(if idx \<noteq> nc_iface_index ?c then upd_client i ?c1 ?s else ?s) = s1" by (simp only: s1_def)
        have nb: "ipa_virtual_iface_name env \<noteq> ir_name (the tbl ! nat q)"
          using False by (simp add: wlan_is_bridge_def q)
        have fields: "nc_iface_index ?c1 = idx" "nc_v4_addr ?c1 = nc_v4_addr ?c" "nc_mac_addr ?c1 = nc_mac_addr ?c"
          "nc_iface_name ?c1 = nc_iface_name ?c" "nc_ipa_if_num ?c1 = nc_ipa_if_num ?c" by simp_all
        have f: "find_client ?m ?s = Some i" "neighbor_client ?s = neighbor_client s0" "nb_iface_table ?s = tbl" using i by simp_all
        show ?thesis
          unfolding handle_wlan_client_def qi Let_def prod.case f option.case s1_if s1(3) fields cached_event_def
          by (simp only: nq nb if_False if_True not_False_eq_True) (simp split: if_split)
      qed
      show ?thesis
        using post_and_query_to [OF s1(1,4)] s1 nq False M
        by (auto simp: run nb_query_def q spec_wlan_def Let_def nb_to_def)
    qed
  qed
qed

lemma v4_refines:
  assumes inv: "nb_inv s"
  shows "nb_to s (spec_v4 (evicted s) q (ipa_virtual_iface_name env = nd_iface_name d) (nb_malloc_ok env) isnew d (nb_map s))
    (handle_v4 env isnew d q s)"
proof -
  let ?m = "nd_mac_addr d"
  have bridge: "nb_to s (case nb_map s ?m of None \<Rightarrow> (nb_map s, [])
      | Some c \<Rightarrow> ((nb_map s)(?m \<mapsto> c\<lparr>nc_v4_addr := nd_ipv4_addr d\<rparr>), if nb_malloc_ok env then [client_event isnew (attributed d c)] else []))
     (v4_on_bridge env isnew d s)"
  proof (cases "find_client ?m s")
    case None
    then show ?thesis using inv by (simp add: v4_on_bridge_def nb_to_def nb_map_def)
  next
    case (Some i)
    let ?c = "neighbor_client s ! i"
    note ii = find_client_SomeD [OF inv Some]
    have up: "nb_inv (upd_client i (?c\<lparr>nc_v4_addr := nd_ipv4_addr d\<rparr>) s)"
      "nb_map (upd_client i (?c\<lparr>nc_v4_addr := nd_ipv4_addr d\<rparr>) s) = (nb_map s)(?m \<mapsto> ?c\<lparr>nc_v4_addr := nd_ipv4_addr d\<rparr>)"
      using upd_client_ok [OF inv Some, of "?c\<lparr>nc_v4_addr := nd_ipv4_addr d\<rparr>"] ii client_name [OF inv Some] by simp_all
    have "attributed d ?c = d\<lparr>nd_if_index := nc_iface_index ?c, nd_iface_name := name_copy (nc_iface_name ?c)\<rparr>"
      using client_name [OF inv Some] by (simp add: attributed_def name_copy_id)
    with post_and_query_to [OF up(1), of s env "client_event isnew (attributed d ?c)" "nc_iface_index ?c"] up nb_map_Some [OF Some]
    show ?thesis by (simp add: v4_on_bridge_def Some Let_def)
  qed
  have new: "nb_inv (v4_new_direct d q s) \<and> nb_posted (v4_new_direct d q s) = nb_posted s \<and> nb_map (v4_new_direct d q s) =
     (if nb_map s ?m = None then cache_map (evicted s) (neighbor_of d q (nd_ipv4_addr d)) (neighbor_of d q 0) (nb_map s)
      else (nb_map s)(?m \<mapsto> neighbor_of d q (nd_ipv4_addr d)))"
  proof (cases "find_client ?m s")
    case None
    then show ?thesis
      using cache_client_ok [OF inv None, of "neighbor_of d q (nd_ipv4_addr d)" "neighbor_of d q 0"]
      by (simp add: v4_new_direct_def nb_map_None neighbor_of_def)
  next
    case (Some i)
    let ?c = "neighbor_client s ! i"
    have "?c\<lparr>nc_ipa_if_num := q, nc_v4_addr := nd_ipv4_addr d, nc_iface_name := name_copy (nd_iface_name d), nc_iface_index := nd_if_index d\<rparr>
       = neighbor_of d q (nd_ipv4_addr d)"
      using find_client_SomeD(3) [OF inv Some] by (simp add: neighbor_of_def)
    then show ?thesis
      using upd_client_ok [OF inv Some, of "neighbor_of d q (nd_ipv4_addr d)"] nb_map_Some [OF Some]
      by (simp add: v4_new_direct_def Some neighbor_of_def)
  qed
  have del: "nb_inv (v4_del_direct d s) \<and> nb_posted (v4_del_direct d s) = nb_posted s \<and> nb_map (v4_del_direct d s) = (nb_map s)(?m := None)"
  proof (cases "find_client ?m s")
    case None
    then have "nb_map s ?m = None" by (simp add: nb_map_None)
    then show ?thesis using None inv by (auto simp: v4_del_direct_def fun_eq_iff)
  next
    case (Some i)
    then show ?thesis using clean_client_ok [OF inv Some] by (simp add: v4_del_direct_def)
  qed
  show ?thesis
    using bridge new del inv post_copy_to [of "v4_new_direct d q s" s env] post_copy_to [of "v4_del_direct d s" s env]
    by (auto simp: handle_v4_def spec_v4_def nb_to_def split: option.splits)
qed

lemma v6_refines:
  assumes inv: "nb_inv s"
  shows "nb_to s (nb_map s, spec_v6 (ipa_virtual_iface_name env = nd_iface_name d) (nb_malloc_ok env) isnew d (nb_map s))
    (if ipa_virtual_iface_name env = nd_iface_name d then v6_on_bridge env isnew d s else post_copy env (client_event isnew d) s)"
proof (cases "find_client (nd_mac_addr d) s")
  case None
  then have "nb_map s (nd_mac_addr d) = None" by (simp add: nb_map_None)
  with None show ?thesis
    using inv by (simp add: v6_on_bridge_def nb_to_def spec_v6_def post_copy_def)
next
  case (Some i)
  let ?c = "neighbor_client s ! i"
  have "attributed d ?c = d\<lparr>nd_if_index := nc_iface_index ?c, nd_iface_name := name_copy (nc_iface_name ?c)\<rparr>"
    using client_name [OF inv Some] by (simp add: attributed_def name_copy_id)
  then show ?thesis
    using inv nb_map_Some [OF Some] by (simp add: v6_on_bridge_def Some Let_def nb_to_def spec_v6_def post_copy_def post_and_query_def)
qed

lemma no_addr_refines:
  assumes inv: "nb_inv s"
  shows "nb_to s (spec_no_addr (evicted s) q (ipa_virtual_iface_name env = nd_iface_name d) (nb_malloc_ok env) isnew d (nb_map s))
    (handle_no_addr env isnew d q s)"
proof (cases "find_client (nd_mac_addr d) s")
  case None
  then have "nb_map s (nd_mac_addr d) = None" by (simp add: nb_map_None)
  with None show ?thesis
    using inv cache_client_ok [OF inv None, of "neighbor_of d q 0" "neighbor_of d q 0"]
    by (simp add: handle_no_addr_def spec_no_addr_def nb_to_def neighbor_of_def)
next
  case (Some i)
  let ?c = "neighbor_client s ! i" let ?m = "nd_mac_addr d" let ?vb = "ipa_virtual_iface_name env = nd_iface_name d"
  note ii = find_client_SomeD [OF inv Some]
  have M: "nb_map s ?m = Some ?c" by (rule nb_map_Some [OF Some])
  define c1 where "c1 = (if ?vb then ?c else moved_to d ?c)"
  define s1 where "s1 = (if ?vb \<or> nd_if_index d = nc_iface_index ?c then s else upd_client i c1 s)"
  have short: "length (nc_iface_name c1) < IPA_IFACE_NAME_LEN" "nc_mac_addr c1 = ?m" "nc_v4_addr c1 = nc_v4_addr ?c"
    using client_name [OF inv Some] ii by (auto simp: c1_def moved_to_def)
  have up: "nb_inv (upd_client i c1 s)" "nb_map (upd_client i c1 s) = (nb_map s)(?m \<mapsto> c1)"
    using upd_client_ok [OF inv Some, of c1] short by simp_all
  have same: "c1 = ?c" if "?vb \<or> nd_if_index d = nc_iface_index ?c" using that by (auto simp: c1_def moved_to_def)
  have s1: "nb_inv s1" "nb_map s1 = (nb_map s)(?m \<mapsto> c1)" "neighbor_client s1 ! i = c1" "nb_posted s1 = nb_posted s"
    using up same inv keyed_same [OF inv Some] ii by (auto simp: s1_def)
  have f1: "find_client ?m s1 = Some i"
    using Some ii short by (auto simp: s1_def find_client_def upd_client_def first_idx_Some_iff)
  define say where "say \<longleftrightarrow> \<not> ?vb \<and> nc_v4_addr ?c \<noteq> 0"
  define s2 where "s2 = (if say \<and> nb_malloc_ok env then PostEvt_nb (client_event isnew (cached_event c1 None)) s1 else s1)"
  have "nc_iface_name c1 = name_copy (nc_iface_name c1)" using short by (simp add: name_copy_id)
  then have ev: "\<lparr>nd_is_v4 = True, nd_if_index = nc_iface_index c1, nd_ipv4_addr = nc_v4_addr c1, nd_ipv6_addr = None,
      nd_mac_addr = nc_mac_addr c1, nd_iface_name = name_copy (nc_iface_name c1)\<rparr> = cached_event c1 None"
    by (simp add: cached_event_def)
  have s1_if: "(if nd_if_index d \<noteq> nc_iface_index ?c then upd_client i (?c\<lparr>nc_iface_index := nd_if_index d,
      nc_iface_name := name_copy (nd_iface_name d)\<rparr>) s else s) = s1" if "\<not> ?vb"
    using that by (simp add: s1_def c1_def moved_to_def)
  have "s2 = s" if ?vb using that by (simp add: s2_def say_def s1_def)
  then have ann: "announce_cached env isnew d i s = (say \<and> \<not> nb_malloc_ok env, s2)"
    using s1_if by (simp add: announce_cached_def Let_def s1(3) ev) (simp add: say_def s2_def short(3) cached_event_def name_copy_id [OF short(1)])
  have s2: "nb_inv s2" "nb_map s2 = (nb_map s)(?m \<mapsto> c1)"
    "nb_posted s2 = nb_posted s @ (if say \<and> nb_malloc_ok env then [client_event isnew (cached_event c1 None)] else [])"
    "find_client ?m s2 = Some i"
    using s1 f1 by (auto simp: s2_def)
  show ?thesis
    using s2 clean_client_ok [OF s2(1,4)]
    by (auto simp: handle_no_addr_def Some ann spec_no_addr_def M Let_def nb_to_def
        simp flip: c1_def say_def)
qed

lemma neighbor_refines:
  assumes inv: "nb_inv s"
  shows "nb_to s (nb_spec env ev s) (nb_event_callback env ev s)"
proof -
  have neigh: "nb_to s (if nb_query env (nd_if_index d) s = IPACM_FAILURE_nb then (nb_map s, [])
      else spec_neigh (evicted s) (nb_query env (nd_if_index d) s) (ipa_virtual_iface_name env = nd_iface_name d)
             (nb_malloc_ok env) isnew d (nb_map s)) (handle_neigh env isnew d s)" for isnew d
  proof -
    obtain q tbl where q: "iface_ipa_index_query (nb_ifname env) (nd_if_index d) (nb_iface_table s) = (q, tbl)" by fastforce
    let ?s = "s\<lparr>nb_iface_table := tbl\<rparr>"
    have qi: "query_index env (nd_if_index d) s = (q, ?s)" by (simp add: query_index_def q)
    have i: "nb_inv ?s" using inv by simp
    show ?thesis
      using v4_refines [OF i, of q env d isnew] v6_refines [OF i, of env d isnew] no_addr_refines [OF i, of q env d isnew] inv
      by (simp add: handle_neigh_def qi nb_query_def q spec_neigh_def nb_to_def)
  qed
  show ?thesis
    using wlan_refines [OF inv] neigh by (cases ev) auto
qed

section \<open>Runs\<close>

definition nb_run :: "(nb_env \<times> nb_event) list \<Rightarrow> IPACM_Neighbor \<Rightarrow> IPACM_Neighbor" where
  "nb_run evs s = fold (\<lambda>(env, ev). nb_event_callback env ev) evs s"

lemma nb_run_simps [simp]:
  "nb_run [] s = s" "nb_run ((env, ev) # evs) s = nb_run evs (nb_event_callback env ev s)"
  "nb_run (evs @ [(env, ev)]) s = nb_event_callback env ev (nb_run evs s)"
  by (simp_all add: nb_run_def)

lemma new_inv: "nb_inv (new_IPACM_Neighbor tbl)"
  by (auto simp: nb_inv_def used_def new_IPACM_Neighbor_def zero_client_def IPA_MAX_NUM_NEIGHBOR_CLIENTS_def IPA_IFACE_NAME_LEN_def)

lemma nb_event_inv: "nb_inv s \<Longrightarrow> nb_inv (nb_event_callback env ev s)"
  using neighbor_refines [of s env ev] by (simp add: nb_to_def)

lemma nb_run_inv: "nb_inv s \<Longrightarrow> nb_inv (nb_run evs s)"
proof (induction evs arbitrary: s)
  case (Cons x evs)
  then show ?case by (cases x) (simp add: nb_event_inv)
qed simp

text \<open>
  C25: after any sequence of events the array of the cache is a map without duplicate MAC
  addresses within its bounds, and the next event changes this map and posts events exactly as
  the specification says; a client is given up only for a new one, and only when 100 are cached.
\<close>

theorem neighbor_cache_refines:
  fixes evs env ev tbl
  defines "s \<equiv> nb_run evs (new_IPACM_Neighbor tbl)"
  shows "nb_map (nb_event_callback env ev s) = fst (nb_spec env ev s)
    \<and> nb_posted (nb_event_callback env ev s) = nb_posted s @ snd (nb_spec env ev s)
    \<and> distinct (map nc_mac_addr (used s)) \<and> length (used s) = num_neighbor_client s
    \<and> num_neighbor_client s \<le> IPA_MAX_NUM_NEIGHBOR_CLIENTS \<and> circular_index s < IPA_MAX_NUM_NEIGHBOR_CLIENTS"
proof -
  have inv: "nb_inv s" unfolding s_def by (rule nb_run_inv [OF new_inv])
  with neighbor_refines [OF inv, of env ev] show ?thesis
    by (auto simp: nb_to_def nb_inv_def)
qed

section \<open>A client stays known\<close>

fun event_mac :: "nb_event \<Rightarrow> nb_mac" where
  "event_mac (IPA_WLAN_CLIENT_ADD_EVENT_EX idx as) = attrib_mac as"
| "event_mac (IPA_NEW_NEIGH_EVENT d) = nd_mac_addr d"
| "event_mac (IPA_DEL_NEIGH_EVENT d) = nd_mac_addr d"

lemma spec_other:
  assumes "event_mac ev \<noteq> m" "evicted s = None"
  shows "fst (nb_spec env ev s) m = nb_map s m"
  using assms
  by (cases ev) (auto simp: spec_wlan_def spec_neigh_def spec_v4_def spec_no_addr_def cache_map_def neighbor_of_def Let_def
      split: option.split)

lemma num_same [simp]:
  "num_neighbor_client (upd_client i c s) = num_neighbor_client s"
  "num_neighbor_client (PostEvt_nb p s) = num_neighbor_client s"
  "num_neighbor_client (snd (query_index env idx s)) = num_neighbor_client s"
  "num_neighbor_client (post_copy env p s) = num_neighbor_client s"
  "num_neighbor_client (post_and_query env p idx s) = num_neighbor_client s"
  "num_neighbor_client (clean_client i s) = num_neighbor_client s - 1"
  by (simp_all add: upd_client_def PostEvt_nb_def query_index_def case_prod_unfold Let_def post_copy_def post_and_query_def
      clean_client_def)

lemma num_cache: "num_neighbor_client (cache_client c r s) \<le> Suc (num_neighbor_client s)"
  by (simp add: cache_client_def upd_client_def)

lemma num_announce: "num_neighbor_client (snd (announce_cached env isnew d i s)) = num_neighbor_client s"
  by (simp add: announce_cached_def Let_def)

lemma num_neigh: "num_neighbor_client (handle_neigh env isnew d s) \<le> Suc (num_neighbor_client s)"
proof -
  obtain q s1 where q: "query_index env (nd_if_index d) s = (q, s1)" by fastforce
  have n: "num_neighbor_client s1 = num_neighbor_client s" using num_same(3) [of env "nd_if_index d" s] by (simp add: q)
  have v4: "num_neighbor_client (handle_v4 env isnew d q s1) \<le> Suc (num_neighbor_client s1)"
    using num_cache by (auto simp: handle_v4_def v4_on_bridge_def v4_new_direct_def v4_del_direct_def Let_def split: option.split)
  have v6: "num_neighbor_client (v6_on_bridge env isnew d s1) = num_neighbor_client s1"
    by (simp add: v6_on_bridge_def Let_def split: option.split)
  have no: "num_neighbor_client (handle_no_addr env isnew d q s1) \<le> Suc (num_neighbor_client s1)"
    using num_cache num_announce [of env isnew d _ s1]
    by (auto simp: handle_no_addr_def case_prod_unfold Let_def split: option.split)
  show ?thesis using v4 v6 no n by (simp add: handle_neigh_def q)
qed

lemma num_event: "num_neighbor_client (nb_event_callback env ev s) \<le> Suc (num_neighbor_client s)"
proof (cases ev)
  case (IPA_WLAN_CLIENT_ADD_EVENT_EX idx as)
  obtain q s1 where q: "query_index env idx s = (q, s1)" by fastforce
  have n: "num_neighbor_client s1 = num_neighbor_client s" using num_same(3) [of env idx s] by (simp add: q)
  show ?thesis by (simp add: IPA_WLAN_CLIENT_ADD_EVENT_EX handle_wlan_client_def q n Let_def split: option.split)
qed (simp_all add: num_neigh)

lemma known_stays:
  assumes "nb_inv s" "num_neighbor_client s + length evs \<le> IPA_MAX_NUM_NEIGHBOR_CLIENTS"
    "\<forall>(env, ev) \<in> set evs. event_mac ev \<noteq> m"
  shows "nb_map (nb_run evs s) m = nb_map s m"
  using assms
proof (induction evs arbitrary: s)
  case (Cons x evs)
  obtain env ev where x: "x = (env, ev)" by fastforce
  have ev: "evicted s = None" using Cons.prems by (auto simp: evicted_def)
  note r = neighbor_refines [OF Cons.prems(1), of env ev]
  have "nb_map (nb_event_callback env ev s) m = nb_map s m"
    using r spec_other [of ev m s env] Cons.prems(3) ev by (simp add: nb_to_def x)
  moreover have "nb_map (nb_run evs (nb_event_callback env ev s)) m = nb_map (nb_event_callback env ev s) m"
    using Cons.IH [of "nb_event_callback env ev s"] r Cons.prems num_event [of env ev s] by (simp add: nb_to_def x)
  ultimately show ?case by (simp add: x)
qed simp

definition usable_v4 :: "u32 \<Rightarrow> bool" where
  "usable_v4 a \<longleftrightarrow> a \<noteq> 0 \<and> a AND IPV4_ADDR_LINKLOCAL_MASK \<noteq> IPV4_ADDR_LINKLOCAL"

text \<open>
  C32: once a client was seen with a usable IPv4 address (neither 0 nor link local) on an
  interface of the accelerator, and as long as no other event of the client has come since and the
  events of other clients cannot have filled the cache, an announcement of the client on the bridge, new or withdrawn, with an IPv4 or IPv6 address, is forwarded with the
  index and the name of that interface.
\<close>

theorem bridge_event_attributed:
  fixes tbl evs0 d0 env0 evs
  defines "s0 \<equiv> nb_run evs0 (new_IPACM_Neighbor tbl)"
  defines "s \<equiv> nb_run evs (nb_event_callback env0 (IPA_NEW_NEIGH_EVENT d0) s0)"
  assumes d0: "nd_is_v4 d0" "usable_v4 (nd_ipv4_addr d0)" "nd_iface_name d0 \<noteq> ipa_virtual_iface_name env0"
      "nb_query env0 (nd_if_index d0) s0 \<noteq> IPACM_FAILURE_nb"
    and room: "num_neighbor_client s0 + 1 + length evs \<le> IPA_MAX_NUM_NEIGHBOR_CLIENTS"
    and others: "\<forall>(env, ev) \<in> set evs. event_mac ev \<noteq> nd_mac_addr d0"
    and d: "nd_mac_addr d = nd_mac_addr d0" "nd_iface_name d = ipa_virtual_iface_name env" "nb_malloc_ok env"
      "nb_query env (nd_if_index d) s \<noteq> IPACM_FAILURE_nb" "if nd_is_v4 d then usable_v4 (nd_ipv4_addr d) else has_v6 d"
  shows "nb_posted (nb_event_callback env (if isnew then IPA_NEW_NEIGH_EVENT d else IPA_DEL_NEIGH_EVENT d) s)
    = nb_posted s @ [client_event isnew (d\<lparr>nd_if_index := nd_if_index d0, nd_iface_name := name_copy (nd_iface_name d0)\<rparr>)]"
proof -
  let ?m = "nd_mac_addr d0" let ?s1 = "nb_event_callback env0 (IPA_NEW_NEIGH_EVENT d0) s0"
  have inv0: "nb_inv s0" unfolding s0_def by (rule nb_run_inv [OF new_inv])
  have "evicted s0 = None" using room by (simp add: evicted_def)
  then have "fst (nb_spec env0 (IPA_NEW_NEIGH_EVENT d0) s0) ?m
     = Some (neighbor_of d0 (nb_query env0 (nd_if_index d0) s0) (nd_ipv4_addr d0))"
    using d0 by (auto simp: spec_neigh_def spec_v4_def usable_v4_def cache_map_def neighbor_of_def)
  then have m1: "nb_map ?s1 ?m = Some (neighbor_of d0 (nb_query env0 (nd_if_index d0) s0) (nd_ipv4_addr d0))" and inv1: "nb_inv ?s1"
    using neighbor_refines [OF inv0, of env0 "IPA_NEW_NEIGH_EVENT d0"] by (simp_all add: nb_to_def)
  have m: "nb_map s ?m = Some (neighbor_of d0 (nb_query env0 (nd_if_index d0) s0) (nd_ipv4_addr d0))"
    using known_stays [OF inv1, of evs ?m] num_event [of env0 "IPA_NEW_NEIGH_EVENT d0" s0] room others m1
    unfolding s_def by simp
  have inv: "nb_inv s" unfolding s_def by (rule nb_run_inv [OF inv1])
  have "snd (nb_spec env (if isnew then IPA_NEW_NEIGH_EVENT d else IPA_DEL_NEIGH_EVENT d) s)
     = [client_event isnew (attributed d (neighbor_of d0 (nb_query env0 (nd_if_index d0) s0) (nd_ipv4_addr d0)))]"
    using d m by (auto simp: spec_neigh_def spec_v4_def spec_v6_def usable_v4_def)
  then show ?thesis
    using neighbor_refines [OF inv, of env "if isnew then IPA_NEW_NEIGH_EVENT d else IPA_DEL_NEIGH_EVENT d"]
    by (simp add: nb_to_def attributed_def neighbor_of_def)
qed

lemma bridge_event_attributed_witness:
  "\<exists>tbl env0 d0 env d. nb_posted (nb_event_callback env (IPA_DEL_NEIGH_EVENT d)
       (nb_event_callback env0 (IPA_NEW_NEIGH_EVENT d0) (new_IPACM_Neighbor tbl)))
    = nb_posted (nb_event_callback env0 (IPA_NEW_NEIGH_EVENT d0) (new_IPACM_Neighbor tbl))
      @ [IPA_NEIGH_CLIENT_IP_ADDR_DEL_EVENT (d\<lparr>nd_if_index := 7, nd_iface_name := ''wlan0''\<rparr>)]"
proof -
  let ?tbl = "Some [\<lparr>ir_name = ''bridge0'', ir_netlink_index = 3\<rparr>, \<lparr>ir_name = ''wlan0'', ir_netlink_index = 7\<rparr>]"
  let ?e = "\<lparr>nb_ifname = (\<lambda>_. None), ipa_virtual_iface_name = ''bridge0'', nb_malloc_ok = True\<rparr>"
  let ?dA = "\<lparr>nd_is_v4 = True, nd_if_index = 7, nd_ipv4_addr = 0xC0A80102, nd_ipv6_addr = Some [0, 0, 0, 0],
     nd_mac_addr = [2, 0, 0, 0, 0, 1], nd_iface_name = ''wlan0''\<rparr>"
  let ?d = "?dA\<lparr>nd_if_index := 3, nd_iface_name := ''bridge0''\<rparr>"
  have u: "usable_v4 0xC0A80102" by (simp add: usable_v4_def IPV4_ADDR_LINKLOCAL_def IPV4_ADDR_LINKLOCAL_MASK_def)
  have q: "nb_query ?e 7 s = 1" "nb_query ?e 3 s = 0" if "nb_iface_table s = ?tbl" for s
    using that by (simp_all add: nb_query_def iface_ipa_index_query_def)
  have t: "nb_iface_table (nb_event_callback ?e (IPA_NEW_NEIGH_EVENT ?dA) (new_IPACM_Neighbor ?tbl)) = ?tbl"
    by (simp add: handle_neigh_def query_index_def iface_ipa_index_query_def new_IPACM_Neighbor_def handle_v4_def
        post_copy_def PostEvt_nb_def v4_new_direct_def find_client_def cache_client_def upd_client_def IPACM_FAILURE_nb_def)
  have n: "nb_iface_table (new_IPACM_Neighbor ?tbl) = ?tbl" "num_neighbor_client (new_IPACM_Neighbor ?tbl) = 0"
    by (simp_all add: new_IPACM_Neighbor_def)
  have f: "IPACM_FAILURE_nb = -1" by (rule IPACM_FAILURE_nb_def)
  have "nb_posted (nb_event_callback ?e (if False then IPA_NEW_NEIGH_EVENT ?d else IPA_DEL_NEIGH_EVENT ?d)
       (nb_run [] (nb_event_callback ?e (IPA_NEW_NEIGH_EVENT ?dA) (nb_run [] (new_IPACM_Neighbor ?tbl)))))
    = nb_posted (nb_run [] (nb_event_callback ?e (IPA_NEW_NEIGH_EVENT ?dA) (nb_run [] (new_IPACM_Neighbor ?tbl))))
      @ [client_event False (?d\<lparr>nd_if_index := nd_if_index ?dA, nd_iface_name := name_copy (nd_iface_name ?dA)\<rparr>)]"
    by (rule bridge_event_attributed)
      (use q [OF n(1)] q [OF t] u n in \<open>simp_all add: f IPA_MAX_NUM_NEIGHBOR_CLIENTS_def del: nb_event_callback.simps\<close>)
  then have "nb_posted (nb_event_callback ?e (IPA_DEL_NEIGH_EVENT ?d)
       (nb_event_callback ?e (IPA_NEW_NEIGH_EVENT ?dA) (new_IPACM_Neighbor ?tbl)))
    = nb_posted (nb_event_callback ?e (IPA_NEW_NEIGH_EVENT ?dA) (new_IPACM_Neighbor ?tbl))
      @ [IPA_NEIGH_CLIENT_IP_ADDR_DEL_EVENT (?d\<lparr>nd_if_index := 7, nd_iface_name := ''wlan0''\<rparr>)]"
    by (simp add: client_event_def name_copy_def IPA_IFACE_NAME_LEN_def del: nb_event_callback.simps)
  then show ?thesis by blast
qed

text \<open>
  A client that takes over an entry of the full cache is stored without the IPv4 address the
  event reports, unlike one that finds a free entry: when its station joins again the cached
  address is not announced.
\<close>

theorem recycled_entry_loses_address:
  assumes inv: "nb_inv s" and full: "num_neighbor_client s = IPA_MAX_NUM_NEIGHBOR_CLIENTS"
    and new: "nb_map s (nd_mac_addr d) = None" and d: "nd_is_v4 d" "usable_v4 (nd_ipv4_addr d)"
      "nd_iface_name d \<noteq> ipa_virtual_iface_name env" "nb_query env (nd_if_index d) s \<noteq> IPACM_FAILURE_nb"
    and as: "attrib_mac as = nd_mac_addr d"
  defines "s1 \<equiv> nb_event_callback env (IPA_NEW_NEIGH_EVENT d) s"
  shows "map_option nc_v4_addr (nb_map s1 (nd_mac_addr d)) = Some 0
    \<and> nb_posted (nb_event_callback env2 (IPA_WLAN_CLIENT_ADD_EVENT_EX idx as) s1) = nb_posted s1"
proof -
  obtain v where "evicted s = Some v" using full by (simp add: evicted_def)
  then have "fst (nb_spec env (IPA_NEW_NEIGH_EVENT d) s) (nd_mac_addr d) = Some (neighbor_of d (nb_query env (nd_if_index d) s) 0)"
    using d new by (auto simp: spec_neigh_def spec_v4_def usable_v4_def cache_map_def neighbor_of_def)
  then have m: "nb_map s1 (nd_mac_addr d) = Some (neighbor_of d (nb_query env (nd_if_index d) s) 0)" and inv1: "nb_inv s1"
    using neighbor_refines [OF inv, of env "IPA_NEW_NEIGH_EVENT d"] unfolding s1_def by (simp_all add: nb_to_def)
  have "snd (nb_spec env2 (IPA_WLAN_CLIENT_ADD_EVENT_EX idx as) s1) = []"
    using m as by (simp add: spec_wlan_def neighbor_of_def)
  then show ?thesis
    using neighbor_refines [OF inv1, of env2 "IPA_WLAN_CLIENT_ADD_EVENT_EX idx as"] m by (simp add: nb_to_def neighbor_of_def)
qed

definition full_cache :: IPACM_Neighbor where
  "full_cache = \<lparr>num_neighbor_client = 100, circular_index = 0,
     neighbor_client = map (\<lambda>i. zero_client\<lparr>nc_mac_addr := [2, 0, 0, 0, 0, word_of_nat i]\<rparr>) [0..<100],
     nb_iface_table = Some [\<lparr>ir_name = ''wlan0'', ir_netlink_index = 7\<rparr>], nb_posted = []\<rparr>"

lemma full_cache_inv: "nb_inv full_cache"
proof -
  have "unat (word_of_nat i :: u8) = i" if "i < 100" for i
    using that by (simp add: unat_of_nat)
  then have "inj_on (word_of_nat :: nat \<Rightarrow> u8) {0..<100}"
    by (intro inj_onI) (metis atLeastLessThan_iff)
  then show ?thesis
    by (auto simp: nb_inv_def full_cache_def used_def zero_client_def distinct_map inj_on_def
        IPA_MAX_NUM_NEIGHBOR_CLIENTS_def IPA_IFACE_NAME_LEN_def)
qed

lemma recycled_entry_loses_address_witness:
  "\<exists>env d as. nd_ipv4_addr d \<noteq> 0 \<and>
     map_option nc_v4_addr (nb_map (nb_event_callback env (IPA_NEW_NEIGH_EVENT d) full_cache) (attrib_mac as)) = Some 0"
proof -
  let ?env = "\<lparr>nb_ifname = (\<lambda>_. None), ipa_virtual_iface_name = ''bridge0'', nb_malloc_ok = True\<rparr>"
  let ?d = "\<lparr>nd_is_v4 = True, nd_if_index = 7, nd_ipv4_addr = 0xC0A80102, nd_ipv6_addr = Some [0, 0, 0, 0],
     nd_mac_addr = [3, 0, 0, 0, 0, 1], nd_iface_name = ''wlan0''\<rparr>"
  have u: "usable_v4 0xC0A80102" by (simp add: usable_v4_def IPV4_ADDR_LINKLOCAL_def IPV4_ADDR_LINKLOCAL_MASK_def)
  have "nb_map full_cache [3, 0, 0, 0, 0, 1] = None"
    by (auto simp: nb_map_None find_client_None used_def full_cache_def)
  moreover have "nb_query ?env 7 full_cache = 0" "num_neighbor_client full_cache = IPA_MAX_NUM_NEIGHBOR_CLIENTS"
    by (simp_all add: nb_query_def iface_ipa_index_query_def full_cache_def IPA_MAX_NUM_NEIGHBOR_CLIENTS_def)
  moreover have "attrib_mac [(True, [3, 0, 0, 0, 0, 1])] = [3, 0, 0, 0, 0, 1]" by (simp add: attrib_mac_def)
  ultimately have "map_option nc_v4_addr (nb_map (nb_event_callback ?env (IPA_NEW_NEIGH_EVENT ?d) full_cache) (nd_mac_addr ?d)) = Some 0"
    using recycled_entry_loses_address [OF full_cache_inv, of ?d ?env "[(True, [3, 0, 0, 0, 0, 1])]"] u
    by (simp add: IPACM_FAILURE_nb_def del: nb_event_callback.simps)
  then show ?thesis
    by (intro exI [of _ ?env] exI [of _ ?d] exI [of _ "[(True, [3, 0, 0, 0, 0, 1])]"])
      (simp add: attrib_mac_def del: nb_event_callback.simps)
qed

end
