(* ===== verification/Spec2Isabelle.thy ===== *)
theory Spec2Isabelle
  imports Loc_Timer Msg_Q Agps_Props Gnss_Track_Faults Geofence_Safe Utf_Shim Evt_Dispatch Offload_Hal Nat_Stack L2l_Props Neighbor_Props
begin

text \<open>
  The device tree of the Xiaomi SDM660 phones holds three native programs of some size: the
  IPA manager \<open>ipacm\<close> with its tethering offload HAL (\<open>data-ipa-cfg-mgr/\<close>), which moves
  tethered connections into the IP accelerator, the location stack (\<open>gps/\<close>), and a few small
  libraries. This development models the parts that carry their own logic and proves what makes
  them correct. It is a shallow embedding: one definition per function of the source, in the
  order and with the branches of the code.

  \<^bold>\<open>Parts and theories\<close>

  \<^item> \<open>Ipa_Prelude\<close>: the machine integers, the search loop \<open>first_idx\<close> over a fixed array, byte
    order, shared collections of rewrite rules.
  \<^item> \<open>Nat_App\<close>: the NAT cache (\<open>ipacm/src/IPACM_Conntrack_NATApp.cpp\<close>). The array of connections,
    the driver's rules and what the modem was told are one record; the driver's answers are an
    oracle \<open>nat_env\<close>. Lemmas: each cached connection has at most one rule in the driver and an
    enabled one has exactly one, \<open>AddEntry\<close> and \<open>DeleteEntry\<close> change exactly one slot, power save
    mode and table cycles give the same connections back. \<open>logged\<close> puts a list of the requests for
    rules beside a driver, so that a lemma can say which rules an operation asks for.
  \<^item> \<open>Ct_Listener\<close>: the conntrack listener (\<open>ipacm/src/IPACM_ConntrackListener.cpp\<close>), which
    translates conntrack messages and interface events into calls of \<open>Nat_App\<close>. Lemmas: its
    invariant over every event, when a connection reaches the hardware, what WAN down clears.
  \<^item> \<open>Evt_Dispatch\<close>: the event dispatcher, the command queues and the thread that empties them
    (\<open>IPACM_EvtDispatcher.cpp\<close>, \<open>IPACM_CmdQueue.cpp\<close>), as linked cells in a heap. The queue
    contract is the locale \<open>message_fifo\<close>, interpreted on the cells. Lemmas: first in first out,
    internal events first, a listener that deregisters itself in its callback is used after it
    is freed.
  \<^item> \<open>Prefix_Parser\<close>, \<open>Offload_Manager\<close>, \<open>Offload_Hal\<close>: the tethering offload path, from the
    strings of the framework (\<open>hal/src/PrefixParser.cpp\<close>) over the calls of the HIDL interface
    (\<open>hal/src/HAL.cpp\<close>, \<open>LocalLogBuffer.cpp\<close>) to the manager in ipacm
    (\<open>ipacm/src/IPACM_OffloadManager.cpp\<close>). The interface between the last two is the locale
    \<open>offload_provider\<close>; \<open>Offload_Hal\<close> proves the safety of every run inside it and interprets it
    on the manager. \<open>setUpstream\<close> refines an abstract specification of the routes.
  \<^item> \<open>Nat_Driver\<close>: the NAT driver library (\<open>ipanat/src/ipa_nat_drvi.c\<close>, \<open>ipa_nat_drv.c\<close>) below
    \<open>Nat_App\<close>: the packed rules in the four tables of the mapped memory, the commands to the DMA
    engine, the handles. \<open>Nat_Fields\<close> and \<open>Nat_Tables\<close> read and write the packed words by address;
    \<open>Nat_Chains\<close> is the theory of collision lists that grow at the end and lose any element;
    \<open>Nat_Inv\<close> states the invariant of the tables, \<open>Nat_Add\<close>, \<open>Nat_Add_Inv\<close>, \<open>Nat_Del\<close> and
    \<open>Nat_Del_Inv\<close> prove what adding and deleting a rule do to it; \<open>Nat_Create\<close> creates the table.
    \<open>Nat_Spec\<close> is the abstract table: a map of handles and two families of lists;
    \<open>Nat_Refine\<close> proves the refinement and interprets the contract \<open>rule_store\<close> on the driver;
    \<open>Nat_Props\<close> holds the properties. The hypothesis \<open>kernel_works\<close> says that the DMA engine writes
    what it is told, \<open>kernel_grants\<close> that a request for a table at offset 0 is granted; the tables
    have at most 16384 entries, since the code keeps the byte offset of an index entry in 16 bits.
    A rule with the protocol 255, which the code takes for a deleted head, is left out.
  \<^item> \<open>Nat_Stack\<close>: the three NAT parts on top of each other. What the listener needs of the NAT
    application and its environment is the locale \<open>nat_application\<close> of \<open>Ct_Listener\<close>; it is
    interpreted there with any driver and here with the driver library as the driver, which
    adds to the invariant that the rules in hardware are the enabled connections of the cache.
    The hypothesis \<open>kernel_ok\<close> says that the kernel carries out what it is asked for.
  \<^item> \<open>Ipa_Driver\<close>, \<open>Eth_Bridge\<close>, \<open>Lan_To_Lan\<close>: the forwarding between tethered interfaces
    (\<open>ipacm/src/IPACM_LanToLan.cpp\<close>), the functions \<open>eth_bridge_*\<close> of \<open>IPACM_Lan.cpp\<close> it calls and
    the requests to the driver these make (\<open>IPACM_Routing.cpp\<close>, \<open>IPACM_Filtering.cpp\<close>,
    \<open>IPACM_Header.cpp\<close>). The state is the list of interfaces, each with its clients, peers, reference
    counts and handles. \<open>L2l_Inv\<close> defines the entries of the hardware an interface owns and
    proves what each function on one interface does to them; \<open>L2l_Sys\<close> states the invariant of all
    interfaces together and handles clients; \<open>L2l_Up\<close> and \<open>L2l_New\<close> bring interfaces up, \<open>L2l_Down\<close>
    takes them down, and \<open>L2l_Kinds\<close> shows that what an interface takes part in never changes;
    \<open>L2l_Props\<close> holds runs of events and the properties. The hypothesis \<open>driver_ok\<close> says that
    an accepted request changes the tables as it says and that a refused one is remembered;
    \<open>driver_grants\<close> that no addition is refused; \<open>lan_ok\<close> that an interface has at most two transmit
    properties for a family. The model is the program as \<open>Android.mk\<close> builds it, without \<open>FEATURE_L2TP\<close>.
  \<^item> \<open>Ipa_Neighbor\<close>, \<open>Neighbor_Props\<close>: the neighbour cache of ipacm
    (\<open>ipacm/src/IPACM_Neighbor.cpp\<close>) and the look-up of interfaces by their kernel index
    (\<open>iface_ipa_index_query\<close> of \<open>IPACM_Iface.cpp\<close>). The handler of neighbour events refines a map
    from MAC addresses to clients; a client seen on an interface is announced with it later.
  \<^item> \<open>Agps\<close>: the assisted GPS connections (\<open>gps/gnss/Agps.cpp\<close> and the commands of
    \<open>GnssAdapter.cpp\<close> that drive it): subscribers behind pointers, the two state machines, their
    manager, and the queue of messages between the threads. \<open>Agps_Share\<close> holds the invariant of a
    machine and the abstract connection, \<open>Agps_Refine\<close> the refinement of every call of the manager,
    \<open>Agps_Props\<close> the message loop (the locale \<open>message_loop\<close>, interpreted on the commands) and the
    properties.
  \<^item> \<open>Gnss_Tracking\<close>: the tracking sessions of the GNSS adapter (\<open>gps/gnss/GnssAdapter.cpp\<close>): the
    messages of its queue, the multiplexing of all time based sessions into one request, the
    answers of the modem as messages of their own, suspending and restarting. \<open>Gnss_Ntrip\<close> is the
    source of corrections that follows the sessions. \<open>Gnss_Track_Props\<close> proves that the modem, as long
    as it accepts its requests, serves every session, \<open>Gnss_Track_Answers\<close> accounts for the answers
    to commands, and \<open>Gnss_Track_Faults\<close> shows where sessions get less than they ask for.
    \<open>Loc_Common\<close> holds what the adapters share: result codes, session ids, \<open>std::map\<close>.
  \<^item> \<open>Geofence\<close>: the geofences (\<open>gps/geofence/GeofenceAdapter.cpp\<close>): the two maps between the ids of
    clients and of the modem, the batches with their arrays, the turns and answers of their items,
    restarts and removed clients. \<open>Geofence_Props\<close> proves that a batch refines a specification over
    the map of the clients' fences and what a restart restores; \<open>Geofence_Safe\<close> that no serial run
    touches freed arrays. The hypothesis \<open>serial_run\<close> says that the modem library, which is not in
    the repository, gives an item its turn only when no other has a request under way.
  \<^item> \<open>Linked_List\<close>, \<open>Msg_Q\<close>: the doubly linked list (\<open>gps/utils/linked_list.c\<close>) with its pointers, and
    the blocking message queue with the task on top of it (\<open>msg_q.c\<close>, \<open>MsgTask.cpp\<close>). Steps of
    threads interleave; the invariant says that no wake-up and no message is lost.
  \<^item> \<open>Loc_Heap\<close>, \<open>Loc_Timer\<close>: the ranked heap and the timers of \<open>gps/utils/\<close> (\<open>LocHeap.cpp\<close>,
    \<open>LocTimer.cpp\<close>), with an abstract priority queue, and the state the timer container shares
    with the kernel's \<open>timerfd\<close>.
  \<^item> \<open>Utf_Shim\<close>: modified UTF-8 to UTF-16 and back (\<open>libshims/libcutils_shim\<close>).

  \<^bold>\<open>Conventions\<close>

  Integers whose wrap-around matters are words (\<open>u8\<close>, \<open>u16\<close>, \<open>u32\<close>, \<open>64 word\<close>); loop counters
  and sizes bounded by arrays are \<open>nat\<close>. Shared state is a record passed through the operations.
  An operation of the code that may fault (a null or freed pointer, an index out of range) or
  loop without end returns an \<open>option\<close>, and \<open>None\<close> is that fault; that it does not happen is
  proved, never assumed. The answers of the kernel, the driver and of libraries that are not in
  the repository are arguments of the definitions: a record of functions or a list of answers.
  Loops that may not end are \<open>partial_function (option)\<close>; there is no fuel except
  where a theory says so.

  \<^bold>\<open>Not modelled\<close>

  Logging, thread start-up, sockets and netlink parsing; the WAN, LAN and WLAN interface objects
  of ipacm beside the part above, whose bulk is filling of driver structures from headers that are not in the
  repository; positions, satellites and configuration of the GNSS adapter and the HIDL bindings of the location stack; the Java
  applications; the sysfs HALs. The manifest lists each with its reason.
\<close>

end
